(* ===== verification/Prelude.thy ===== *)
theory Prelude
  imports Main "HOL-Library.Word"
begin

text \<open>
  Shared vocabulary of the development: Go error values, results, fixed width integers, the
  functions of the Go package \<open>strings\<close> that the backend uses, and the generic list lemmas and
  lemma collections that the component theories rely on.

  \<^item> A Go error is a value of \<open>goerr\<close>; a Go function returning \<open>(T, error)\<close> has the result type
    \<open>'a res\<close>, with \<open>Inl\<close> for a non-nil error.
  \<^item> Go strings are byte sequences, so they are \<open>string\<close> (a list of 8-bit characters), and
    \<open>len(s)\<close> is the length of that list.
  \<^item> Instants and durations are integers in nanoseconds, as in Go's package \<open>time\<close>.
  \<^item> Signed machine integers are \<open>int\<close> with the wrap-around written out by \<open>wrap32\<close> and \<open>wrap64\<close>.
\<close>

section \<open>Lemma collections\<close>

named_theorems go_simps \<open>unfolding rules for Go results and strings\<close>
named_theorems sql_simps \<open>facts about table operations\<close>
named_theorems sim_intros \<open>introduction rules for the transaction refinement\<close>
named_theorems op_defs \<open>definitions of the modelled operations\<close>

section \<open>Errors and results\<close>

datatype goerr =
    Errorf string               \<comment> \<open>\<open>fmt.Errorf\<close> or \<open>errors.New\<close> without a wrapped error\<close>
  | Wrapf string goerr          \<comment> \<open>\<open>fmt.Errorf\<close> with a \<open>%w\<close> verb\<close>
  | NoRows                      \<comment> \<open>\<open>pgx.ErrNoRows\<close>\<close>
  | Constraint string           \<comment> \<open>a statement rejected by the database\<close>
  | TxAborted                   \<comment> \<open>a statement or commit in an aborted transaction\<close>
  | Infra                       \<comment> \<open>the driver or the network failed\<close>

type_synonym 'a res = "goerr + 'a"

definition is_ok :: "'a res \<Rightarrow> bool" where
  "is_ok r \<longleftrightarrow> (case r of Inl _ \<Rightarrow> False | Inr _ \<Rightarrow> True)"

lemma is_ok_simps [simp]: "\<not> is_ok (Inl e)" "is_ok (Inr a)"
  by (simp_all add: is_ok_def)

lemma is_ok_iff: "is_ok r \<longleftrightarrow> (\<exists>a. r = Inr a)"
  by (cases r) simp_all

fun wrapped_in :: "goerr \<Rightarrow> goerr \<Rightarrow> bool" where
  "wrapped_in e (Wrapf m e') = (e = Wrapf m e' \<or> wrapped_in e e')"
| "wrapped_in e e' = (e = e')"

section \<open>Fixed width integers\<close>

definition max_int32 :: int where "max_int32 = 2147483647"
definition min_int32 :: int where "min_int32 = -2147483648"
definition max_int64 :: int where "max_int64 = 9223372036854775807"
definition min_int64 :: int where "min_int64 = -9223372036854775808"

definition fits32 :: "int \<Rightarrow> bool" where
  "fits32 x \<longleftrightarrow> min_int32 \<le> x \<and> x \<le> max_int32"

definition fits64 :: "int \<Rightarrow> bool" where
  "fits64 x \<longleftrightarrow> min_int64 \<le> x \<and> x \<le> max_int64"

text \<open>The conversions \<open>int32(x)\<close> and \<open>int64(x)\<close> of Go keep the low bits in two's complement.\<close>

definition wrap32 :: "int \<Rightarrow> int" where
  "wrap32 x = (x + 2147483648) mod 4294967296 - 2147483648"

definition wrap64 :: "int \<Rightarrow> int" where
  "wrap64 x = (x + 9223372036854775808) mod 18446744073709551616 - 9223372036854775808"

lemmas int_bounds = max_int32_def min_int32_def max_int64_def min_int64_def

lemma wrap32_id [simp]: "fits32 x \<Longrightarrow> wrap32 x = x"
  by (simp add: wrap32_def fits32_def int_bounds)

lemma wrap64_id [simp]: "fits64 x \<Longrightarrow> wrap64 x = x"
  by (simp add: wrap64_def fits64_def int_bounds)

lemma fits32_wrap32 [simp]: "fits32 (wrap32 x)"
  using pos_mod_bound [of 4294967296 "x + 2147483648"]
  by (simp add: wrap32_def fits32_def int_bounds)

lemma fits64_wrap64 [simp]: "fits64 (wrap64 x)"
  using pos_mod_bound [of 18446744073709551616 "x + 9223372036854775808"]
  by (simp add: wrap64_def fits64_def int_bounds)

lemma fits32_fits64: "fits32 x \<Longrightarrow> fits64 x"
  by (simp add: fits32_def fits64_def int_bounds)

section \<open>The Go package strings\<close>

definition has_prefix :: "string \<Rightarrow> string \<Rightarrow> bool" where
  "has_prefix s p \<longleftrightarrow> take (length p) s = p"

definition has_suffix :: "string \<Rightarrow> string \<Rightarrow> bool" where
  "has_suffix s p \<longleftrightarrow> has_prefix (rev s) (rev p)"

definition trim_prefix :: "string \<Rightarrow> string \<Rightarrow> string" where
  "trim_prefix s p = (if has_prefix s p then drop (length p) s else s)"

fun contains :: "string \<Rightarrow> string \<Rightarrow> bool" where
  "contains [] p \<longleftrightarrow> p = []"
| "contains (c # s) p \<longleftrightarrow> has_prefix (c # s) p \<or> contains s p"

fun join_with :: "string \<Rightarrow> string list \<Rightarrow> string" where
  "join_with sep [] = []"
| "join_with sep [s] = s"
| "join_with sep (s # t # ss) = s @ sep @ join_with sep (t # ss)"

text \<open>\<open>strings.Split\<close> on a one-byte separator.\<close>

fun split_on :: "char \<Rightarrow> string \<Rightarrow> string list" where
  "split_on c [] = [[]]"
| "split_on c (x # s) =
     (if x = c then [] # split_on c s
      else (case split_on c s of [] \<Rightarrow> [[x]] | w # ws \<Rightarrow> (x # w) # ws))"

text \<open>
  \<open>strings.TrimSpace\<close> removes Unicode white space at both ends. The UTF-8 encodings of the
  white space code points are listed; decoding the first or the last rune of a string yields
  one of them exactly when the string starts or ends with its encoding.
\<close>

definition byte :: "nat \<Rightarrow> char" where
  "byte n = char_of n"

definition space_runes :: "string list" where
  "space_runes =
     map (map byte)
      ([[9], [10], [11], [12], [13], [32], [0xC2, 0x85], [0xC2, 0xA0], [0xE1, 0x9A, 0x80],
        [0xE2, 0x80, 0xA8], [0xE2, 0x80, 0xA9], [0xE2, 0x80, 0xAF], [0xE2, 0x81, 0x9F],
        [0xE3, 0x80, 0x80]] @ map (\<lambda>k. [0xE2, 0x80, 0x80 + k]) [0..<11])"

definition strip_one :: "string list \<Rightarrow> string \<Rightarrow> string option" where
  "strip_one ws s = map_option (\<lambda>w. drop (length w) s) (find (has_prefix s) ws)"

lemma strip_one_shorter:
  assumes "strip_one ws s = Some t" and "[] \<notin> set ws"
  shows "length t < length s"
proof -
  from assms(1) obtain w where w: "find (has_prefix s) ws = Some w" and t: "t = drop (length w) s"
    by (auto simp: strip_one_def)
  from w have "w \<in> set ws" and p: "has_prefix s w"
    by (auto simp: find_Some_iff)
  with assms(2) have "w \<noteq> []" by metis
  moreover from p have "length w \<le> length s"
    by (metis has_prefix_def length_take min.cobounded1)
  ultimately show ?thesis by (cases w) (auto simp: t)
qed

function trim_left_of :: "string list \<Rightarrow> string \<Rightarrow> string" where
  "trim_left_of ws s =
     (if [] \<in> set ws then s
      else (case strip_one ws s of None \<Rightarrow> s | Some t \<Rightarrow> trim_left_of ws t))"
  by pat_completeness auto
termination
  by (relation "measure (\<lambda>(ws, s). length s)") (auto dest: strip_one_shorter)

declare trim_left_of.simps [simp del]

definition trim_space :: "string \<Rightarrow> string" where
  "trim_space s =
     rev (trim_left_of (map rev space_runes) (rev (trim_left_of space_runes s)))"

text \<open>
  \<open>strings.ToLower\<close>. The ASCII letters are mapped as Go maps them, and so are the two code points
  above ASCII whose lower case is an ASCII letter (U+0130 and the Kelvin sign U+212A); other
  code points, whose lower case is never an ASCII character, are left as they are, so the result
  agrees with Go's on every comparison with an ASCII text.
\<close>

definition lower_byte :: "char \<Rightarrow> char" where
  "lower_byte c = (let n = (of_char c :: nat) in if 65 \<le> n \<and> n \<le> 90 then char_of (n + 32) else c)"

fun to_lower :: "string \<Rightarrow> string" where
  "to_lower [] = []"
| "to_lower [c] = [lower_byte c]"
| "to_lower [c, d] =
     (if c = byte 0xC4 \<and> d = byte 0xB0 then ''i'' else [lower_byte c, lower_byte d])"
| "to_lower (c # d # e # s) =
     (if c = byte 0xC4 \<and> d = byte 0xB0 then CHR ''i'' # to_lower (e # s)
      else if c = byte 0xE2 \<and> d = byte 0x84 \<and> e = byte 0xAA then CHR ''k'' # to_lower s
      else lower_byte c # to_lower (d # e # s))"

lemma to_lower_ascii:
  assumes "list_all (\<lambda>c. (of_char c :: nat) < 128) s"
  shows "to_lower s = map lower_byte s"
  using assms
proof (induction s rule: to_lower.induct)
  case (3 c d)
  then have "c \<noteq> byte 0xC4" by (auto simp: byte_def)
  then show ?case by simp
next
  case (4 c d e s)
  then have "c \<noteq> byte 0xC4" "c \<noteq> byte 0xE2" by (auto simp: byte_def)
  with 4 show ?case by simp
qed simp_all

lemma to_lower_id:
  assumes "list_all (\<lambda>c. (of_char c :: nat) < 65 \<or> 90 < (of_char c :: nat) \<and> (of_char c :: nat) < 128) s"
  shows "to_lower s = s"
proof -
  from assms have "list_all (\<lambda>c. (of_char c :: nat) < 128) s" by (auto simp: list_all_iff)
  moreover from assms have "map lower_byte s = s" by (intro map_idI) (auto simp: list_all_iff lower_byte_def Let_def)
  ultimately show ?thesis by (simp only: to_lower_ascii)
qed

lemma has_prefix_append [simp]: "has_prefix (p @ s) p"
  by (simp add: has_prefix_def)

lemma has_prefix_iff: "has_prefix s p \<longleftrightarrow> (\<exists>t. s = p @ t)"
  by (metis append_eq_conv_conj append_take_drop_id has_prefix_def)

lemma trim_prefix_append [simp]: "trim_prefix (p @ s) p = s"
  by (simp add: trim_prefix_def)

lemma contains_iff: "contains s p \<longleftrightarrow> (\<exists>u v. s = u @ p @ v)"
proof (induction s)
  case Nil
  show ?case by auto
next
  case (Cons c s)
  have "(\<exists>u v. c # s = u @ p @ v) \<longleftrightarrow> (\<exists>v. c # s = p @ v) \<or> (\<exists>u v. s = u @ p @ v)"
    by (metis append_Cons append_Nil append_eq_Cons_conv)
  then show ?case using Cons.IH by (simp add: has_prefix_iff)
qed

lemma trim_left_of_no_space:
  assumes "[] \<notin> set ws"
  shows "strip_one ws (trim_left_of ws s) = None"
  using assms
proof (induction ws s rule: trim_left_of.induct)
  case (1 ws s)
  then show ?case
    by (cases "strip_one ws s") (simp_all add: trim_left_of.simps [of ws s])
qed

lemma space_runes_nonempty: "[] \<notin> set space_runes"
  by (auto simp: space_runes_def)

lemma trim_space_Nil [simp]: "trim_space [] = []"
proof -
  have "strip_one ws [] = None" if "[] \<notin> set ws" for ws
    using that strip_one_shorter [of ws "[]"] by (cases "strip_one ws []") auto
  then have nil: "trim_left_of ws [] = []" if "[] \<notin> set ws" for ws
    using that by (simp add: trim_left_of.simps [of ws "[]"])
  have "[] \<notin> set (map rev space_runes)"
    using space_runes_nonempty by auto
  then show ?thesis
    by (simp add: trim_space_def nil space_runes_nonempty)
qed

text \<open>A string that starts and ends with a printable ASCII character is not trimmed.\<close>

definition plain_byte :: "char \<Rightarrow> bool" where
  "plain_byte c \<longleftrightarrow> (let n = (of_char c :: nat) in 33 \<le> n \<and> n < 128)"

lemma space_runes_bytes:
  "\<forall>w\<in>set space_runes. w \<noteq> [] \<and> \<not> plain_byte (hd w) \<and> \<not> plain_byte (last w)"
  by (simp add: space_runes_def byte_def plain_byte_def upt_conv_Cons Let_def)

lemma trim_left_of_plain:
  assumes "\<forall>w\<in>set ws. w \<noteq> [] \<and> \<not> plain_byte (hd w)" and "plain_byte (hd s)" and "s \<noteq> []"
  shows "trim_left_of ws s = s"
proof -
  have "\<not> has_prefix s w" if "w \<in> set ws" for w
  proof
    assume "has_prefix s w"
    then obtain t where "s = w @ t" by (auto simp: has_prefix_iff)
    with assms that show False by (metis hd_append2)
  qed
  then have "strip_one ws s = None" by (auto simp: strip_one_def find_None_iff)
  then show ?thesis by (simp add: trim_left_of.simps [of ws s])
qed

lemma trim_space_plain:
  assumes "s \<noteq> []" and "plain_byte (hd s)" and "plain_byte (last s)"
  shows "trim_space s = s"
proof -
  have "trim_left_of space_runes s = s"
    using assms space_runes_bytes by (intro trim_left_of_plain) auto
  moreover have "trim_left_of (map rev space_runes) (rev s) = rev s"
    using assms space_runes_bytes by (intro trim_left_of_plain) (auto simp: hd_rev)
  ultimately show ?thesis by (simp add: trim_space_def)
qed

section \<open>Lists\<close>

lemma sum_list_update_unique:
  fixes g :: "'r \<Rightarrow> int"
  assumes "distinct (map key t)" and "r \<in> set t" and "key r = k"
  shows "sum_list (map (\<lambda>x. if key x = k then g (f x) else g x) t)
         = sum_list (map g t) - g r + g (f r)"
  using assms
proof (induction t)
  case Nil
  then show ?case by simp
next
  case (Cons a t)
  show ?case
  proof (cases "key a = k")
    case True
    with Cons.prems have "a = r" and "\<forall>x\<in>set t. key x \<noteq> k"
      by (auto simp: image_iff)
    moreover have "sum_list (map (\<lambda>x. if key x = k then g (f x) else g x) t) = sum_list (map g t)"
      using \<open>\<forall>x\<in>set t. key x \<noteq> k\<close> by (intro arg_cong [where f = sum_list] map_cong) auto
    ultimately show ?thesis using True by simp
  next
    case False
    with Cons.prems have "r \<in> set t" by auto
    with Cons False show ?thesis by simp
  qed
qed

lemma filter_key_unique:
  assumes "distinct (map key t)" and "r \<in> set t" and "P r" and "key r = k"
  shows "filter (\<lambda>x. key x = k \<and> P x) t = [r]"
  using assms
proof (induction t)
  case Nil
  then show ?case by simp
next
  case (Cons a t)
  show ?case
  proof (cases "a = r")
    case True
    with Cons.prems have "\<forall>x\<in>set t. key x \<noteq> k" by (auto simp: image_iff)
    with True Cons.prems show ?thesis by (auto simp: filter_empty_conv)
  next
    case False
    with Cons.prems have "r \<in> set t" and "key a \<noteq> k" by (auto simp: image_iff)
    with Cons show ?thesis by auto
  qed
qed

lemma member_le_sum_list_int:
  fixes xs :: "int list"
  assumes "\<forall>y\<in>set xs. 0 \<le> y" and "x \<in> set xs"
  shows "x \<le> sum_list xs"
  using assms
proof (induction xs)
  case (Cons a xs)
  then have "0 \<le> a" and "0 \<le> sum_list xs" by (auto intro: sum_list_nonneg)
  with Cons show ?case by auto
qed simp

lemma sum_list_nonneg_mem:
  fixes g :: "'r \<Rightarrow> int"
  assumes "\<forall>x\<in>set t. 0 \<le> g x" and "r \<in> set t"
  shows "g r \<le> sum_list (map g t)"
proof -
  from assms(2) have "g r \<in> set (map g t)" by simp
  moreover from assms(1) have "\<forall>y\<in>set (map g t). 0 \<le> y" by auto
  ultimately show ?thesis by (metis member_le_sum_list_int)
qed

lemma length_filter_le_filter:
  "(\<And>x. x \<in> set xs \<Longrightarrow> P x \<Longrightarrow> Q x) \<Longrightarrow> length (filter P xs) \<le> length (filter Q xs)"
  by (induction xs) (auto simp: le_SucI)

end
