(* ===== verification/Database.thy ===== *)
theory Database
  imports Prelude
begin

text \<open>
  The transaction layer every PostgreSQL repository of the backend is written over.

  A repository method is a sequence of driver calls (\<open>Begin\<close>, \<open>QueryRow\<close>, \<open>Exec\<close>, \<open>Commit\<close>),
  each of which can fail. The state \<open>'d session\<close> holds the durable database, the view of the
  open transaction and the outcomes that the network will give to the coming calls; an exhausted
  list of outcomes is a reliable network. SQL statements themselves are functions on the tables,
  written by the component theories with the table operations defined here.

  \<open>simulates m f\<close> says that the calls of \<open>m\<close> compute, inside one transaction, the pure function
  \<open>f\<close> on the tables; \<open>in_tx_outcome\<close> turns it into the contract of a whole repository method. The
  locale \<open>transactional\<close> states that contract, and what follows from it for an invariant of the
  tables.
\<close>

section \<open>Sessions and driver calls\<close>

datatype outcome =
    Fine      \<comment> \<open>the call is executed and answered\<close>
  | Failed    \<comment> \<open>the call is not executed and an error is returned\<close>
  | AckLost   \<comment> \<open>the call is executed, but an error is returned\<close>

record 'd session =
  durable :: 'd
  view :: 'd
  aborted :: bool
  outcomes :: "outcome list"

type_synonym ('d, 'a) dbm = "'d session \<Rightarrow> 'a res \<times> 'd session"
type_synonym ('d, 'a) sql = "'d \<Rightarrow> goerr + 'a \<times> 'd"

definition next_outcome :: "'d session \<Rightarrow> outcome \<times> 'd session" where
  "next_outcome s = (case outcomes s of [] \<Rightarrow> (Fine, s) | x # xs \<Rightarrow> (x, s\<lparr>outcomes := xs\<rparr>))"

definition dreturn :: "'a \<Rightarrow> ('d, 'a) dbm" where
  "dreturn a s = (Inr a, s)"

definition dfail :: "goerr \<Rightarrow> ('d, 'a) dbm" where
  "dfail e s = (Inl e, s)"

definition dbind :: "('d, 'a) dbm \<Rightarrow> ('a \<Rightarrow> ('d, 'b) dbm) \<Rightarrow> ('d, 'b) dbm" where
  "dbind m k s = (case m s of (Inl e, s') \<Rightarrow> (Inl e, s') | (Inr a, s') \<Rightarrow> k a s')"

text \<open>\<open>if err != nil { return g(err) }\<close>.\<close>

definition dmap_err :: "(goerr \<Rightarrow> goerr) \<Rightarrow> ('d, 'a) dbm \<Rightarrow> ('d, 'a) dbm" where
  "dmap_err g m s = (case m s of (Inl e, s') \<Rightarrow> (Inl (g e), s') | (Inr a, s') \<Rightarrow> (Inr a, s'))"

text \<open>\<open>_ = call.Scan(&x)\<close>: the error is dropped and \<open>x\<close> keeps its initial value.\<close>

definition dignore :: "'a \<Rightarrow> ('d, 'a) dbm \<Rightarrow> ('d, 'a) dbm" where
  "dignore a0 m s = (case m s of (Inl e, s') \<Rightarrow> (Inr a0, s') | (Inr a, s') \<Rightarrow> (Inr a, s'))"

definition begin_tx :: "('d, unit) dbm" where
  "begin_tx s =
     (case next_outcome s of
        (Fine, s1) \<Rightarrow> (Inr (), s1\<lparr>view := durable s1, aborted := False\<rparr>)
      | (_, s1) \<Rightarrow> (Inl Infra, s1))"

text \<open>
  A statement inside the transaction. A statement the database rejects aborts the transaction;
  an empty result is no rejection.
\<close>

definition stmt :: "('d, 'a) sql \<Rightarrow> ('d, 'a) dbm" where
  "stmt f s =
     (case next_outcome s of
        (Fine, s1) \<Rightarrow>
          (if aborted s1 then (Inl TxAborted, s1)
           else (case f (view s1) of
                   Inl e \<Rightarrow> (Inl e, if e = NoRows then s1 else s1\<lparr>aborted := True\<rparr>)
                 | Inr (a, d) \<Rightarrow> (Inr a, s1\<lparr>view := d\<rparr>)))
      | (_, s1) \<Rightarrow> (Inl Infra, s1\<lparr>aborted := True\<rparr>))"

definition commit_tx :: "('d, unit) dbm" where
  "commit_tx s =
     (case next_outcome s of
        (Fine, s1) \<Rightarrow> (if aborted s1 then (Inl TxAborted, s1) else (Inr (), s1\<lparr>durable := view s1\<rparr>))
      | (Failed, s1) \<Rightarrow> (Inl Infra, s1)
      | (AckLost, s1) \<Rightarrow> (Inl Infra, if aborted s1 then s1 else s1\<lparr>durable := view s1\<rparr>))"

text \<open>\<open>defer tx.Rollback(ctx)\<close>: what has not been committed is gone.\<close>

definition with_rollback :: "('d, 'a) dbm \<Rightarrow> ('d, 'a) dbm" where
  "with_rollback m s = (case m s of (r, s') \<Rightarrow> (r, s'\<lparr>view := durable s', aborted := False\<rparr>))"

text \<open>
  The shape shared by the repository methods: begin, defer the rollback, run the statements,
  commit; \<open>wb\<close> and \<open>wc\<close> are the wrappings of the errors of \<open>Begin\<close> and \<open>Commit\<close>.
\<close>

definition in_tx :: "(goerr \<Rightarrow> goerr) \<Rightarrow> (goerr \<Rightarrow> goerr) \<Rightarrow> ('d, 'a) dbm \<Rightarrow> ('d, 'a) dbm" where
  "in_tx wb wc body =
     dbind (dmap_err wb begin_tx) (\<lambda>_. with_rollback
       (dbind body (\<lambda>a. dbind (dmap_err wc commit_tx) (\<lambda>_. dreturn a))))"

text \<open>A statement outside any transaction commits on its own.\<close>

definition autocommit :: "('d, 'a) sql \<Rightarrow> ('d, 'a) dbm" where
  "autocommit f s =
     (case next_outcome s of
        (Failed, s1) \<Rightarrow> (Inl Infra, s1)
      | (x, s1) \<Rightarrow>
          (case f (durable s1) of
             Inl e \<Rightarrow> (Inl (if x = Fine then e else Infra), s1)
           | Inr (a, d) \<Rightarrow> (if x = Fine then Inr a else Inl Infra, s1\<lparr>durable := d\<rparr>)))"

lemmas driver_defs = dreturn_def dfail_def dbind_def dmap_err_def dignore_def begin_tx_def stmt_def
  commit_tx_def with_rollback_def in_tx_def autocommit_def next_outcome_def

text \<open>The calls over a reliable connection.\<close>

lemma stmt_fine:
  "outcomes s = [] \<Longrightarrow> \<not> aborted s \<Longrightarrow> f (view s) = Inr (a, d) \<Longrightarrow> stmt f s = (Inr a, s\<lparr>view := d\<rparr>)"
  by (simp add: stmt_def next_outcome_def)

lemma in_tx_fine:
  assumes "outcomes s = []" and "body (s\<lparr>view := durable s, aborted := False\<rparr>) = (Inr a, s')"
    and "outcomes s' = []" and "\<not> aborted s'"
  shows "fst (in_tx wb wc body s) = Inr a"
  using assms
  by (simp add: in_tx_def dbind_def dmap_err_def begin_tx_def next_outcome_def with_rollback_def commit_tx_def dreturn_def)

section \<open>Tables\<close>

definition sql_update :: "('r \<Rightarrow> bool) \<Rightarrow> ('r \<Rightarrow> 'r) \<Rightarrow> 'r list \<Rightarrow> 'r list" where
  "sql_update P f t = map (\<lambda>r. if P r then f r else r) t"

definition sql_delete :: "('r \<Rightarrow> bool) \<Rightarrow> 'r list \<Rightarrow> 'r list" where
  "sql_delete P t = filter (\<lambda>r. \<not> P r) t"

text \<open>\<open>INSERT\<close> into a table with a primary key or a unique constraint.\<close>

definition sql_insert :: "('r \<Rightarrow> 'k) \<Rightarrow> 'r \<Rightarrow> 'r list \<Rightarrow> 'r list res" where
  "sql_insert key r t =
     (if key r \<in> key ` set t then Inl (Constraint ''unique_violation'') else Inr (t @ [r]))"

text \<open>\<open>INSERT ... ON CONFLICT (key) DO NOTHING\<close> and \<open>DO UPDATE\<close>.\<close>

definition sql_insert_ignore :: "('r \<Rightarrow> 'k) \<Rightarrow> 'r \<Rightarrow> 'r list \<Rightarrow> 'r list" where
  "sql_insert_ignore key r t = (if key r \<in> key ` set t then t else t @ [r])"

definition sql_upsert :: "('r \<Rightarrow> 'k) \<Rightarrow> 'r \<Rightarrow> ('r \<Rightarrow> 'r) \<Rightarrow> 'r list \<Rightarrow> 'r list" where
  "sql_upsert key r f t =
     (if key r \<in> key ` set t then sql_update (\<lambda>x. key x = key r) f t else t @ [r])"

lemma length_sql_update [simp]: "length (sql_update P f t) = length t"
  by (simp add: sql_update_def)

lemma map_key_sql_update [simp]:
  "(\<And>r. key (f r) = key r) \<Longrightarrow> map key (sql_update P f t) = map key t"
  by (auto simp: sql_update_def)

lemma sql_update_no_match: "\<forall>r\<in>set t. \<not> P r \<Longrightarrow> sql_update P f t = t"
  by (simp add: sql_update_def map_idI)

lemma set_sql_update:
  "set (sql_update P f t) = f ` {r \<in> set t. P r} \<union> {r \<in> set t. \<not> P r}"
  by (auto simp: sql_update_def)

lemma keys_sql_update:
  assumes "\<And>r. key (f r) = key r" and "\<And>r. Q r \<Longrightarrow> Q (f r)"
  shows "key ` {r \<in> set t. Q r} \<subseteq> key ` {r \<in> set (sql_update P f t). Q r}"
proof (rule image_subsetI)
  fix r
  assume r: "r \<in> {r \<in> set t. Q r}"
  show "key r \<in> key ` {r \<in> set (sql_update P f t). Q r}"
  proof (cases "P r")
    case True
    with r assms have "f r \<in> {r \<in> set (sql_update P f t). Q r}" by (simp add: set_sql_update)
    then show ?thesis using assms(1) by (metis image_eqI)
  next
    case False
    with r show ?thesis by (simp add: set_sql_update)
  qed
qed

lemma set_sql_delete [simp]: "set (sql_delete P t) = {r \<in> set t. \<not> P r}"
  by (auto simp: sql_delete_def)

lemma distinct_sql_delete: "distinct (map key t) \<Longrightarrow> distinct (map key (sql_delete P t))"
  by (simp add: sql_delete_def distinct_map_filter)

lemma distinct_sql_insert:
  "sql_insert key r t = Inr t' \<Longrightarrow> distinct (map key t) \<Longrightarrow> distinct (map key t')"
  by (auto simp: sql_insert_def split: if_splits)

lemma distinct_sql_insert_ignore [simp]:
  "distinct (map key t) \<Longrightarrow> distinct (map key (sql_insert_ignore key r t))"
  by (auto simp: sql_insert_ignore_def)

lemma distinct_sql_upsert:
  "(\<And>x. key (f x) = key x) \<Longrightarrow> distinct (map key t) \<Longrightarrow> distinct (map key (sql_upsert key r f t))"
  by (auto simp: sql_upsert_def)

lemma sql_upsert_key: "(\<And>x. key (f x) = key x) \<Longrightarrow> key r \<in> key ` set (sql_upsert key r f t)"
  by (cases "key r \<in> key ` set t") (simp_all add: sql_upsert_def flip: set_map)

lemma keys_sql_upsert:
  assumes "\<And>r. key (g r) = key r"
  shows "key ` set (sql_upsert key x g rs) = insert (key x) (key ` set rs)"
proof (cases "key x \<in> key ` set rs")
  case True
  have "key ` set (sql_update P g rs) = key ` set rs" for P by (simp add: assms flip: set_map)
  with True show ?thesis by (simp add: sql_upsert_def insert_absorb)
qed (simp add: sql_upsert_def)

lemma sum_sql_update:
  fixes g :: "'r \<Rightarrow> int"
  assumes "distinct (map key t)" and "r \<in> set t" and "key r = k"
  shows "sum_list (map g (sql_update (\<lambda>x. key x = k) f t)) = sum_list (map g t) - g r + g (f r)"
proof -
  have "map g (sql_update (\<lambda>x. key x = k) f t) = map (\<lambda>x. if key x = k then g (f x) else g x) t"
    by (simp add: sql_update_def)
  then show ?thesis using sum_list_update_unique [OF assms] by simp
qed

lemma sql_update_guard_unique:
  assumes "distinct (map key t)" and "r \<in> set t" and "key r = k" and "P r"
  shows "sql_update (\<lambda>x. key x = k \<and> P x) f t = sql_update (\<lambda>x. key x = k) f t"
proof -
  have "P x" if "x \<in> set t" and "key x = k" for x
    using that assms by (metis (mono_tags) distinct_map inj_on_def)
  then show ?thesis by (auto simp: sql_update_def)
qed

lemma map_of_sql_update:
  assumes "r \<in> set t" and "distinct (map key t)" and "key r = k" and "\<And>x. key (f x) = key x"
  shows "map_of (map (\<lambda>x. (key x, g x)) (sql_update (\<lambda>x. key x = k) f t))
         = (map_of (map (\<lambda>x. (key x, g x)) t))(k \<mapsto> g (f r))"
  using assms(1,2)
proof (induction t)
  case Nil
  then show ?case by simp
next
  case (Cons a t)
  show ?case
  proof (cases "a = r")
    case True
    with Cons.prems assms(3) have "\<forall>x\<in>set t. key x \<noteq> k" by (auto simp: image_iff)
    then have "sql_update (\<lambda>x. key x = k) f t = t" by (intro sql_update_no_match) simp
    with True assms(3,4) show ?thesis by (auto simp: sql_update_def)
  next
    case False
    with Cons.prems assms(3) have "r \<in> set t" and "key a \<noteq> k" by (auto simp: image_iff)
    with Cons show ?thesis by (auto simp: sql_update_def)
  qed
qed

lemma map_of_row:
  "r \<in> set t \<Longrightarrow> distinct (map key t) \<Longrightarrow> map_of (map (\<lambda>x. (key x, g x)) t) (key r) = Some (g r)"
  by (induction t) (auto simp: image_iff)

lemma filter_ConsD: "filter P t = r # rs \<Longrightarrow> r \<in> set t \<and> P r"
  by (drule filter_eq_ConsD) auto

definition violates :: "string \<Rightarrow> goerr" where "violates what = Constraint (what @ ''_violation'')"

text \<open>\<open>LIMIT ... OFFSET\<close>.\<close>

definition page_of :: "int \<Rightarrow> int \<Rightarrow> 'r list \<Rightarrow> 'r list res" where
  "page_of limit offset rs =
     (if offset < 0 then Inl (Constraint ''invalid_row_count_in_result_offset_clause'')
      else Inr (take (nat limit) (drop (nat offset) rs)))"

text \<open>The rows that are not the user's.\<close>

definition rest_of :: "'k option \<Rightarrow> ('r \<Rightarrow> 'k) \<Rightarrow> 'r list \<Rightarrow> 'r list" where
  "rest_of u owner rs = filter (\<lambda>r. Some (owner r) \<noteq> u) rs"

lemma rest_of_simps [simp]: "rest_of u f [] = []"
  "rest_of u f (r # rs) = (if Some (f r) = u then rest_of u f rs else r # rest_of u f rs)"
  "rest_of u f (rs @ rs') = rest_of u f rs @ rest_of u f rs'"
  by (simp_all add: rest_of_def)

lemma rest_of_update:
  assumes "\<And>r. r \<in> set rs \<Longrightarrow> Q r \<Longrightarrow> Some (f r) = u" and "\<And>r. Q r \<Longrightarrow> f (g r) = f r"
  shows "rest_of u f (sql_update Q g rs) = rest_of u f rs"
  using assms by (induction rs) (auto simp: sql_update_def)

lemma rest_of_delete: "(\<And>r. r \<in> set rs \<Longrightarrow> Q r \<Longrightarrow> Some (f r) = u) \<Longrightarrow> rest_of u f (sql_delete Q rs) = rest_of u f rs"
  by (induction rs) (auto simp: sql_delete_def)

lemma rest_of_upsert:
  assumes "Some (f x) = u" and "\<And>r. key r = key x \<Longrightarrow> Some (f r) = u" and "\<And>r. key r = key x \<Longrightarrow> f (g r) = f r"
  shows "rest_of u f (sql_upsert key x g rs) = rest_of u f rs"
  using assms by (auto simp: sql_upsert_def intro: rest_of_update)

section \<open>Refinement of pure statements\<close>

text \<open>
  \<open>agrees f s r s'\<close>: the result and the view after the calls are those of \<open>f\<close> on the view before.
\<close>

definition agrees :: "('d, 'a) sql \<Rightarrow> 'd session \<Rightarrow> 'a res \<Rightarrow> 'd session \<Rightarrow> bool" where
  "agrees f s r s' \<longleftrightarrow>
     (case f (view s) of Inl e \<Rightarrow> r = Inl e | Inr (a, d) \<Rightarrow> r = Inr a \<and> view s' = d)"

definition simulates :: "('d, 'a) dbm \<Rightarrow> ('d, 'a) sql \<Rightarrow> bool" where
  "simulates m f \<longleftrightarrow>
     (\<forall>s r s'. m s = (r, s') \<longrightarrow>
        durable s' = durable s \<and>
        (aborted s \<longrightarrow> aborted s') \<and>
        (\<not> aborted s \<and> \<not> aborted s' \<longrightarrow> agrees f s r s') \<and>
        (\<not> aborted s \<and> outcomes s = [] \<longrightarrow>
           outcomes s' = [] \<and> agrees f s r s' \<and> (is_ok r \<longrightarrow> \<not> aborted s')))"

definition sreturn :: "'a \<Rightarrow> ('d, 'a) sql" where
  "sreturn a d = Inr (a, d)"

definition sfail :: "goerr \<Rightarrow> ('d, 'a) sql" where
  "sfail e d = Inl e"

definition sbind :: "('d, 'a) sql \<Rightarrow> ('a \<Rightarrow> ('d, 'b) sql) \<Rightarrow> ('d, 'b) sql" where
  "sbind m k d = (case m d of Inl e \<Rightarrow> Inl e | Inr (a, d') \<Rightarrow> k a d')"

definition smap_err :: "(goerr \<Rightarrow> goerr) \<Rightarrow> ('d, 'a) sql \<Rightarrow> ('d, 'a) sql" where
  "smap_err g m d = (case m d of Inl e \<Rightarrow> Inl (g e) | Inr x \<Rightarrow> Inr x)"

definition signore :: "'a \<Rightarrow> ('d, 'a) sql \<Rightarrow> ('d, 'a) sql" where
  "signore a0 m d = (case m d of Inl e \<Rightarrow> Inr (a0, d) | Inr x \<Rightarrow> Inr x)"

lemmas sql_monad = sreturn_def sfail_def sbind_def smap_err_def signore_def

lemma simulates_return [sim_intros]: "simulates (dreturn a) (sreturn a)"
  by (simp add: simulates_def agrees_def dreturn_def sreturn_def)

lemma simulates_fail [sim_intros]: "simulates (dfail e) (sfail e)"
  by (simp add: simulates_def agrees_def dfail_def sfail_def)

lemma simulates_stmt [sim_intros]: "simulates (stmt f) f"
  by (auto simp: simulates_def agrees_def stmt_def next_outcome_def
           split: list.splits outcome.splits sum.splits prod.splits if_splits)

lemma simulates_map_err [sim_intros]:
  assumes "simulates m f"
  shows "simulates (dmap_err g m) (smap_err g f)"
  unfolding simulates_def
proof (intro allI impI)
  fix s r s'
  assume run: "dmap_err g m s = (r, s')"
  obtain r1 s1 where m_run: "m s = (r1, s1)" by fastforce
  with run have "s' = s1" and "r = (case r1 of Inl e \<Rightarrow> Inl (g e) | Inr a \<Rightarrow> Inr a)"
    by (auto simp: dmap_err_def split: sum.splits)
  with assms [unfolded simulates_def, rule_format, OF m_run]
  show "durable s' = durable s \<and> (aborted s \<longrightarrow> aborted s') \<and>
        (\<not> aborted s \<and> \<not> aborted s' \<longrightarrow> agrees (smap_err g f) s r s') \<and>
        (\<not> aborted s \<and> outcomes s = [] \<longrightarrow>
           outcomes s' = [] \<and> agrees (smap_err g f) s r s' \<and> (is_ok r \<longrightarrow> \<not> aborted s'))"
    by (auto simp: agrees_def smap_err_def split: sum.splits)
qed

lemma simulates_if [sim_intros]:
  "(b \<Longrightarrow> simulates m f) \<Longrightarrow> (\<not> b \<Longrightarrow> simulates m' f') \<Longrightarrow>
   simulates (if b then m else m') (if b then f else f')"
  by simp

lemma simulates_case_option [sim_intros]:
  "simulates m f \<Longrightarrow> (\<And>x. simulates (m' x) (f' x)) \<Longrightarrow>
   simulates (case z of None \<Rightarrow> m | Some x \<Rightarrow> m' x) (case z of None \<Rightarrow> f | Some x \<Rightarrow> f' x)"
  by (cases z) simp_all

lemma simulates_case_sum [sim_intros]:
  "(\<And>e. simulates (m e) (f e)) \<Longrightarrow> (\<And>x. simulates (m' x) (f' x)) \<Longrightarrow>
   simulates (case z of Inl e \<Rightarrow> m e | Inr x \<Rightarrow> m' x) (case z of Inl e \<Rightarrow> f e | Inr x \<Rightarrow> f' x)"
  by (cases z) simp_all

lemma simulates_case_prod [sim_intros]:
  "(\<And>x y. simulates (m x y) (f x y)) \<Longrightarrow>
   simulates (case z of (x, y) \<Rightarrow> m x y) (case z of (x, y) \<Rightarrow> f x y)"
  by (cases z) simp

lemma simulates_bind [sim_intros]:
  assumes m: "simulates m f" and k: "\<And>a. simulates (k a) (g a)"
  shows "simulates (dbind m k) (sbind f g)"
  unfolding simulates_def
proof (intro allI impI)
  fix s r s'
  assume run: "dbind m k s = (r, s')"
  obtain r1 s1 where m_run: "m s = (r1, s1)" by fastforce
  note m1 = m [unfolded simulates_def, rule_format, OF m_run]
  show "durable s' = durable s \<and> (aborted s \<longrightarrow> aborted s') \<and>
        (\<not> aborted s \<and> \<not> aborted s' \<longrightarrow> agrees (sbind f g) s r s') \<and>
        (\<not> aborted s \<and> outcomes s = [] \<longrightarrow>
           outcomes s' = [] \<and> agrees (sbind f g) s r s' \<and> (is_ok r \<longrightarrow> \<not> aborted s'))"
  proof (cases r1)
    case (Inl e)
    with run m_run have "r = Inl e" "s' = s1" by (simp_all add: dbind_def)
    with m1 Inl show ?thesis
      by (auto simp: agrees_def sbind_def split: sum.splits)
  next
    case (Inr a)
    with run m_run have k_run: "k a s1 = (r, s')" by (simp add: dbind_def)
    note k1 = k [of a, unfolded simulates_def, rule_format, OF k_run]
    from m1 k1 Inr show ?thesis
      by (auto simp: agrees_def sbind_def split: sum.splits)
  qed
qed

lemma simulates_ignore [sim_intros]:
  assumes "\<And>d e. f d = Inl e \<Longrightarrow> e = NoRows"
  shows "simulates (dignore a0 (stmt f)) (signore a0 f)"
  using assms
  by (fastforce simp: simulates_def agrees_def stmt_def dignore_def signore_def next_outcome_def
                split: list.splits outcome.splits sum.splits prod.splits if_splits)

section \<open>Invariants of the durable tables\<close>

text \<open>
  \<open>keeps I m\<close>: whatever the outcomes of the calls of \<open>m\<close>, the durable tables satisfy \<open>I\<close> after
  it if they did before.
\<close>

definition keeps :: "('d \<Rightarrow> bool) \<Rightarrow> ('d, 'a) dbm \<Rightarrow> bool" where
  "keeps I m \<longleftrightarrow> (\<forall>s. I (durable s) \<longrightarrow> I (durable (snd (m s))))"

named_theorems keeps_intros \<open>introduction rules for invariants of repository calls\<close>

lemma keepsD: "keeps I m \<Longrightarrow> I (durable s) \<Longrightarrow> I (durable (snd (m s)))"
  by (simp add: keeps_def)

lemma keeps_return [keeps_intros]: "keeps I (dreturn a)"
  by (simp add: keeps_def dreturn_def)

lemma keeps_fail [keeps_intros]: "keeps I (dfail e)"
  by (simp add: keeps_def dfail_def)

lemma keeps_bind [keeps_intros]:
  assumes "keeps I m" and "\<And>a. keeps I (k a)"
  shows "keeps I (dbind m k)"
  unfolding keeps_def
proof (intro allI impI)
  fix s :: "'a session"
  assume "I (durable s)"
  with assms(1) have "I (durable (snd (m s)))" by (rule keepsD)
  then show "I (durable (snd (dbind m k s)))"
    using assms(2) by (auto simp: dbind_def keeps_def split: prod.splits sum.splits)
qed

lemma keeps_map_err [keeps_intros]: "keeps I m \<Longrightarrow> keeps I (dmap_err g m)"
  by (auto simp: keeps_def dmap_err_def split: prod.splits sum.splits)

lemma keeps_ignore [keeps_intros]: "keeps I m \<Longrightarrow> keeps I (dignore a m)"
  by (auto simp: keeps_def dignore_def split: prod.splits sum.splits)

lemma keeps_if [keeps_intros]:
  "(b \<Longrightarrow> keeps I m) \<Longrightarrow> (\<not> b \<Longrightarrow> keeps I m') \<Longrightarrow> keeps I (if b then m else m')"
  by simp

lemma keeps_case_sum [keeps_intros]:
  "(\<And>e. z = Inl e \<Longrightarrow> keeps I (m e)) \<Longrightarrow> (\<And>x. z = Inr x \<Longrightarrow> keeps I (m' x)) \<Longrightarrow>
   keeps I (case z of Inl e \<Rightarrow> m e | Inr x \<Rightarrow> m' x)"
  by (cases z) simp_all

lemma keeps_case_option [keeps_intros]:
  "(z = None \<Longrightarrow> keeps I m) \<Longrightarrow> (\<And>x. z = Some x \<Longrightarrow> keeps I (m' x)) \<Longrightarrow>
   keeps I (case z of None \<Rightarrow> m | Some x \<Rightarrow> m' x)"
  by (cases z) simp_all

lemma keeps_case_prod [keeps_intros]:
  "(\<And>x y. keeps I (m x y)) \<Longrightarrow> keeps I (case z of (x, y) \<Rightarrow> m x y)"
  by (cases z) simp

lemma keeps_autocommit:
  assumes "\<And>d a d'. I d \<Longrightarrow> f d = Inr (a, d') \<Longrightarrow> I d'"
  shows "keeps I (autocommit f)"
  using assms
  by (auto simp: keeps_def autocommit_def next_outcome_def
           split: list.splits outcome.splits sum.splits prod.splits)

text \<open>A statement that only reads.\<close>

definition reads :: "('d, 'a) sql \<Rightarrow> bool" where
  "reads f \<longleftrightarrow> (\<forall>d a d'. f d = Inr (a, d') \<longrightarrow> d' = d)"

lemma keeps_read [keeps_intros]: "reads f \<Longrightarrow> keeps I (autocommit f)"
  by (rule keeps_autocommit) (auto simp: reads_def)

section \<open>The contract of a repository method\<close>

locale transactional =
  fixes run :: "('d, 'a) dbm" and spec :: "('d, 'a) sql"
  assumes success: "run s = (Inr a, s') \<Longrightarrow> spec (durable s) = Inr (a, durable s')"
    and failure: "run s = (Inl e, s') \<Longrightarrow>
      durable s' = durable s \<or> (\<exists>a. spec (durable s) = Inr (a, durable s'))"
    and reliable_ok: "outcomes s = [] \<Longrightarrow> spec (durable s) = Inr (a, d) \<Longrightarrow>
      fst (run s) = Inr a \<and> durable (snd (run s)) = d"
    and reliable_err: "outcomes s = [] \<Longrightarrow> spec (durable s) = Inl e \<Longrightarrow>
      \<not> is_ok (fst (run s)) \<and> durable (snd (run s)) = durable s"
begin

lemma all_or_nothing:
  "durable (snd (run s)) = durable s \<or>
   (\<exists>a. spec (durable s) = Inr (a, durable (snd (run s))))"
proof (cases "run s")
  case (Pair r s')
  then show ?thesis using success [of s] failure [of s] by (cases r) auto
qed

lemma spec_error_changes_nothing:
  assumes "spec (durable s) = Inl e"
  shows "durable (snd (run s)) = durable s"
  using all_or_nothing [of s] assms by auto

lemma preserves:
  assumes "\<And>d a d'. I d \<Longrightarrow> spec d = Inr (a, d') \<Longrightarrow> I d'" and "I (durable s)"
  shows "I (durable (snd (run s)))"
  using all_or_nothing [of s] assms by metis

lemma keeps_run:
  "(\<And>d a d'. I d \<Longrightarrow> spec d = Inr (a, d') \<Longrightarrow> I d') \<Longrightarrow> keeps I run"
  unfolding keeps_def using preserves by blast

end

lemma in_tx_cases:
  assumes sim: "simulates body f" and run: "in_tx wb wc body s = (r, s')"
  shows "(case r of
            Inr a \<Rightarrow> f (durable s) = Inr (a, durable s')
          | Inl e \<Rightarrow> durable s' = durable s \<or> (\<exists>a. f (durable s) = Inr (a, durable s')))
         \<and> (outcomes s = [] \<longrightarrow>
              (case f (durable s) of
                 Inl e \<Rightarrow> r = Inl e \<and> durable s' = durable s
               | Inr (a, d) \<Rightarrow> r = Inr a \<and> durable s' = d))"
proof -
  obtain x s1 where nx: "next_outcome s = (x, s1)" by fastforce
  then have s1: "durable s1 = durable s" "outcomes s = [] \<Longrightarrow> x = Fine \<and> outcomes s1 = []"
    by (auto simp: next_outcome_def split: list.splits)
  show ?thesis
  proof (cases "x = Fine")
    case False
    with nx run s1 show ?thesis
      by (cases x) (auto simp: in_tx_def dbind_def dmap_err_def begin_tx_def)
  next
    case True
    let ?s2 = "s1\<lparr>view := durable s1, aborted := False\<rparr>"
    obtain r3 s3 where b: "body ?s2 = (r3, s3)" by fastforce
    note b1 = sim [unfolded simulates_def, rule_format, OF b]
    obtain y s4 where ny: "next_outcome s3 = (y, s4)" by fastforce
    then have s4: "durable s4 = durable s3" "view s4 = view s3" "aborted s4 = aborted s3"
      "outcomes s3 = [] \<Longrightarrow> y = Fine"
      by (auto simp: next_outcome_def split: list.splits)
    from True nx ny run b b1 s1 s4 show ?thesis
      by (cases r3; cases y)
        (auto simp: in_tx_def dbind_def dmap_err_def begin_tx_def with_rollback_def commit_tx_def
              dreturn_def agrees_def split: sum.splits if_splits)
  qed
qed

lemma transactional_in_tx:
  assumes "simulates body f"
  shows "transactional (in_tx wb wc body) f"
proof
  fix s :: "'a session" and a s'
  assume "in_tx wb wc body s = (Inr a, s')"
  from in_tx_cases [OF assms this] show "f (durable s) = Inr (a, durable s')" by simp
next
  fix s :: "'a session" and e s'
  assume "in_tx wb wc body s = (Inl e, s')"
  from in_tx_cases [OF assms this]
  show "durable s' = durable s \<or> (\<exists>a. f (durable s) = Inr (a, durable s'))" by simp
next
  fix s :: "'a session" and a d
  assume "outcomes s = []" and "f (durable s) = Inr (a, d)"
  with in_tx_cases [OF assms, of wb wc s "fst (in_tx wb wc body s)" "snd (in_tx wb wc body s)"]
  show "fst (in_tx wb wc body s) = Inr a \<and> durable (snd (in_tx wb wc body s)) = d" by simp
next
  fix s :: "'a session" and e
  assume "outcomes s = []" and "f (durable s) = Inl e"
  with in_tx_cases [OF assms, of wb wc s "fst (in_tx wb wc body s)" "snd (in_tx wb wc body s)"]
  show "\<not> is_ok (fst (in_tx wb wc body s)) \<and> durable (snd (in_tx wb wc body s)) = durable s"
    by simp
qed

text \<open>
  The early returns before \<open>Begin\<close> (validation of the arguments) keep the contract.
\<close>

lemma transactional_fail: "transactional (dfail e) (sfail e)"
  by unfold_locales (auto simp: dfail_def sfail_def)

lemma transactional_if:
  "(b \<Longrightarrow> transactional m f) \<Longrightarrow> (\<not> b \<Longrightarrow> transactional m' f') \<Longrightarrow>
   transactional (if b then m else m') (if b then f else f')"
  by simp

lemma transactional_case_option:
  "transactional m f \<Longrightarrow> (\<And>x. z = Some x \<Longrightarrow> transactional (m' x) (f' x)) \<Longrightarrow>
   transactional (case z of None \<Rightarrow> m | Some x \<Rightarrow> m' x) (case z of None \<Rightarrow> f | Some x \<Rightarrow> f' x)"
  by (cases z) simp_all

lemma transactional_case_sum:
  "(\<And>e. z = Inl e \<Longrightarrow> transactional (m e) (f e)) \<Longrightarrow> (\<And>x. z = Inr x \<Longrightarrow> transactional (m' x) (f' x)) \<Longrightarrow>
   transactional (case z of Inl e \<Rightarrow> m e | Inr x \<Rightarrow> m' x) (case z of Inl e \<Rightarrow> f e | Inr x \<Rightarrow> f' x)"
  by (cases z) simp_all

lemmas transactional_intros =
  transactional_fail transactional_if transactional_case_option transactional_case_sum
  transactional_in_tx

lemma transactional_autocommit: "transactional (autocommit f) f"
  by unfold_locales
    (auto simp: autocommit_def next_outcome_def is_ok_def
          split: list.splits outcome.splits sum.splits prod.splits if_splits)

text \<open>
  A transaction that is never committed changes nothing, whatever its statements do.
\<close>

lemma uncommitted_keeps_durable:
  assumes "simulates body f" and "dbind begin_tx (\<lambda>_. with_rollback body) s = (r, s')"
  shows "durable s' = durable s"
proof -
  obtain x s1 where nx: "next_outcome s = (x, s1)" by fastforce
  then have s1: "durable s1 = durable s" by (auto simp: next_outcome_def split: list.splits)
  obtain r3 s3 where b: "body (s1\<lparr>view := durable s1, aborted := False\<rparr>) = (r3, s3)"
    by fastforce
  from assms(1) [unfolded simulates_def, rule_format, OF b] have "durable s3 = durable s1" by simp
  with assms(2) nx s1 b show ?thesis
    by (cases x) (auto simp: dbind_def begin_tx_def with_rollback_def)
qed

section \<open>Services\<close>

text \<open>
  A method of a service, over a state that holds the sessions it uses: it answers or fails, and the state goes on in
  both cases.
\<close>

type_synonym ('s, 'a) op = "'s \<Rightarrow> 'a res \<times> 's"

definition oreturn :: "'a \<Rightarrow> ('s, 'a) op" where "oreturn a st = (Inr a, st)"
definition ofail :: "goerr \<Rightarrow> ('s, 'a) op" where "ofail e st = (Inl e, st)"

definition obind :: "('s, 'a) op \<Rightarrow> ('a \<Rightarrow> ('s, 'b) op) \<Rightarrow> ('s, 'b) op" where
  "obind m k st = (case m st of (Inl e, st') \<Rightarrow> (Inl e, st') | (Inr a, st') \<Rightarrow> k a st')"

definition omap_err :: "(goerr \<Rightarrow> goerr) \<Rightarrow> ('s, 'a) op \<Rightarrow> ('s, 'a) op" where
  "omap_err g m st = (case m st of (Inl e, st') \<Rightarrow> (Inl (g e), st') | (Inr a, st') \<Rightarrow> (Inr a, st'))"

text \<open>The result of a call whose error is looked at, or dropped, rather than passed on.\<close>

definition otry :: "('s, 'a) op \<Rightarrow> ('s, 'a res) op" where
  "otry m st = (case m st of (r, st') \<Rightarrow> (Inr r, st'))"

lemma op_ok:
  "oreturn a st = (Inr b, st') \<longleftrightarrow> b = a \<and> st' = st"
  "ofail e st \<noteq> (Inr b, st')"
  "obind m k st = (Inr c, st') \<longleftrightarrow> (\<exists>x st1. m st = (Inr x, st1) \<and> k x st1 = (Inr c, st'))"
  "omap_err g f st = (Inr d, st') \<longleftrightarrow> f st = (Inr d, st')"
  "otry h st = (Inr r, st') \<longleftrightarrow> h st = (r, st')"
  by (auto simp: oreturn_def ofail_def obind_def omap_err_def otry_def split: prod.splits sum.splits)

lemmas op_monad = oreturn_def ofail_def obind_def omap_err_def otry_def

section \<open>Evolution of the tables\<close>

text \<open>
  \<open>htriple R P m Q\<close>: inside a transaction whose tables satisfy \<open>P\<close>, the calls of \<open>m\<close> change the tables as the
  relation \<open>R\<close> allows, and an answer of \<open>m\<close> satisfies \<open>Q\<close> with the tables after it; nothing is claimed once the
  transaction is aborted, because its tables are dropped. \<open>moves R P m Q\<close> is the same for the durable tables and a
  whole repository method, whatever the outcomes of its calls. \<open>R\<close> is any preorder: an invariant, rows that only
  grow, a number that never decreases.
\<close>

definition htriple ::
  "('d \<Rightarrow> 'd \<Rightarrow> bool) \<Rightarrow> ('d \<Rightarrow> bool) \<Rightarrow> ('d, 'a) dbm \<Rightarrow> ('a \<Rightarrow> 'd \<Rightarrow> bool) \<Rightarrow> bool" where
  "htriple R P m Q \<longleftrightarrow>
     (\<forall>s r s'. m s = (r, s') \<longrightarrow> durable s' = durable s \<and> (aborted s \<longrightarrow> aborted s') \<and>
        (P (view s) \<and> \<not> aborted s \<and> \<not> aborted s' \<longrightarrow>
           R (view s) (view s') \<and> (\<forall>a. r = Inr a \<longrightarrow> Q a (view s'))))"

definition moves ::
  "('d \<Rightarrow> 'd \<Rightarrow> bool) \<Rightarrow> ('d \<Rightarrow> bool) \<Rightarrow> ('d, 'a) dbm \<Rightarrow> ('a \<Rightarrow> 'd \<Rightarrow> bool) \<Rightarrow> bool" where
  "moves R P m Q \<longleftrightarrow>
     (\<forall>s r s'. m s = (r, s') \<longrightarrow> P (durable s) \<longrightarrow>
        R (durable s) (durable s') \<and> (\<forall>a. r = Inr a \<longrightarrow> Q a (durable s')))"

text \<open>The part of \<open>htriple\<close> that needs no assumption on the tables.\<close>

definition contained :: "('d, 'a) dbm \<Rightarrow> bool" where
  "contained m \<longleftrightarrow> (\<forall>s. durable (snd (m s)) = durable s \<and> (aborted s \<longrightarrow> aborted (snd (m s))))"

named_theorems contained_intros \<open>introduction rules for calls inside a transaction\<close>

lemma contained_return [contained_intros]: "contained (dreturn a)"
  and contained_fail [contained_intros]: "contained (dfail e)"
  by (simp_all add: contained_def dreturn_def dfail_def)

lemma contained_stmt [contained_intros]: "contained (stmt f)"
  by (auto simp: contained_def stmt_def next_outcome_def split: list.splits outcome.splits sum.splits prod.splits)

lemma contained_ignore [contained_intros]: "contained m \<Longrightarrow> contained (dignore a m)"
  by (auto simp: contained_def dignore_def split: sum.splits prod.splits) (metis snd_conv)+

lemma contained_map_err [contained_intros]: "contained m \<Longrightarrow> contained (dmap_err g m)"
  by (auto simp: contained_def dmap_err_def split: sum.splits prod.splits) (metis snd_conv)+

lemma contained_bind [contained_intros]:
  assumes "contained m" and "\<And>a. contained (k a)"
  shows "contained (dbind m k)"
  unfolding contained_def
proof
  fix s
  obtain r s1 where m: "m s = (r, s1)" by fastforce
  then have "durable s1 = durable s \<and> (aborted s \<longrightarrow> aborted s1)"
    using assms(1) [unfolded contained_def, rule_format, of s] by simp
  with m assms(2) show "durable (snd (dbind m k s)) = durable s \<and> (aborted s \<longrightarrow> aborted (snd (dbind m k s)))"
    by (cases r) (auto simp: dbind_def contained_def)
qed

lemma contained_cases [contained_intros]:
  "contained m \<Longrightarrow> contained m' \<Longrightarrow> contained (if b then m else m')"
  "(\<And>e. contained (g e)) \<Longrightarrow> (\<And>x. contained (h x)) \<Longrightarrow> contained (case z of Inl e \<Rightarrow> g e | Inr x \<Rightarrow> h x)"
  "contained m \<Longrightarrow> (\<And>y. contained (k y)) \<Longrightarrow> contained (case o' of None \<Rightarrow> m | Some y \<Rightarrow> k y)"
  "(\<And>x y. contained (c x y)) \<Longrightarrow> contained (case p of (x, y) \<Rightarrow> c x y)"
  by (simp_all split: sum.split option.split prod.split)

lemma htriple_contained: "htriple R P m Q \<Longrightarrow> contained m"
  unfolding htriple_def contained_def by (metis prod.collapse)

lemma h_assume:
  assumes "contained m" and "\<phi> \<Longrightarrow> htriple R P m Q"
  shows "htriple R (\<lambda>d. P d \<and> \<phi>) m Q"
proof (cases \<phi>)
  case True
  with assms(2) show ?thesis by simp
next
  case False
  with assms(1) show ?thesis unfolding htriple_def contained_def by (metis snd_conv)
qed

lemma movesD:
  "moves R P m Q \<Longrightarrow> P (durable s) \<Longrightarrow> R (durable s) (durable (snd (m s)))"
  by (cases "m s") (auto simp: moves_def)

lemma moves_answer:
  "moves R P m Q \<Longrightarrow> P (durable s) \<Longrightarrow> m s = (Inr a, s') \<Longrightarrow> R (durable s) (durable s') \<and> Q a (durable s')"
  by (auto simp: moves_def)

lemma autocommit_cases:
  assumes "autocommit f s = (r, s')"
  shows "durable s' = durable s \<or> (\<exists>a. f (durable s) = Inr (a, durable s'))"
    and "r = Inr a \<Longrightarrow> f (durable s) = Inr (a, durable s')"
  using assms
  by (auto simp: autocommit_def next_outcome_def split: prod.splits sum.splits outcome.splits list.splits if_splits)

lemma dbm_ok:
  "dreturn a s = (Inr b, s') \<longleftrightarrow> b = a \<and> s' = s"
  "dfail e s \<noteq> (Inr b', s')"
  "dbind m k s = (Inr c, s') \<longleftrightarrow> (\<exists>x s1. m s = (Inr x, s1) \<and> k x s1 = (Inr c, s'))"
  "dmap_err g f s = (Inr d, s') \<longleftrightarrow> f s = (Inr d, s')"
  by (auto simp: dreturn_def dfail_def dbind_def dmap_err_def split: prod.splits sum.splits)

text \<open>A call whose result is ignored, and the rest of a handler after a call, where an error is turned into an answer.\<close>

definition dattempt :: "('d, 'a) dbm \<Rightarrow> ('d, 'a res) dbm" where
  "dattempt m s = (case m s of (r, s') \<Rightarrow> (Inr r, s'))"

definition dreply :: "('d, 'a) dbm \<Rightarrow> (goerr \<Rightarrow> 'b) \<Rightarrow> ('a \<Rightarrow> ('d, 'b) dbm) \<Rightarrow> ('d, 'b) dbm" where
  "dreply m g k = dbind (dattempt m) (\<lambda>r. case r of Inl e \<Rightarrow> dreturn (g e) | Inr a \<Rightarrow> k a)"

lemma dattempt_ok: "dattempt m s = (Inr r, s') \<longleftrightarrow> m s = (r, s')"
  by (simp add: dattempt_def split: prod.splits)

lemma dreply_ok:
  "dreply m g k s = (Inr b, s') \<longleftrightarrow>
     (\<exists>e. m s = (Inl e, s') \<and> b = g e) \<or> (\<exists>a s1. m s = (Inr a, s1) \<and> k a s1 = (Inr b, s'))"
  by (auto simp: dreply_def dattempt_def dbind_def dreturn_def split: prod.splits sum.splits)

text \<open>The same for a service, on the session that \<open>proj\<close> finds in its state.\<close>

definition op_moves ::
  "('s \<Rightarrow> 'd session) \<Rightarrow> ('d \<Rightarrow> 'd \<Rightarrow> bool) \<Rightarrow> ('d \<Rightarrow> bool) \<Rightarrow> ('s, 'a) op \<Rightarrow> ('a \<Rightarrow> 'd \<Rightarrow> bool) \<Rightarrow> bool" where
  "op_moves proj R P m Q \<longleftrightarrow>
     (\<forall>st r st'. m st = (r, st') \<longrightarrow> P (durable (proj st)) \<longrightarrow>
        R (durable (proj st)) (durable (proj st')) \<and> (\<forall>a. r = Inr a \<longrightarrow> Q a (durable (proj st'))))"

lemma op_movesD:
  "op_moves proj R P m Q \<Longrightarrow> P (durable (proj st)) \<Longrightarrow> R (durable (proj st)) (durable (proj (snd (m st))))"
  by (cases "m st") (auto simp: op_moves_def)

lemma op_moves_if:
  "(b \<Longrightarrow> op_moves proj R P m Q) \<Longrightarrow> (\<not> b \<Longrightarrow> op_moves proj R P m' Q) \<Longrightarrow> op_moves proj R P (if b then m else m') Q"
  by simp

lemma op_moves_weaken:
  "op_moves proj R P' m Q \<Longrightarrow> (\<And>d. P d \<Longrightarrow> P' d) \<Longrightarrow> op_moves proj R P m Q"
  unfolding op_moves_def by blast

locale evolution =
  fixes R :: "'d \<Rightarrow> 'd \<Rightarrow> bool"
  assumes stays: "R d d" and follows_on: "R d d' \<Longrightarrow> R d' d'' \<Longrightarrow> R d d''"
begin

lemma h_return: "(\<And>d. P d \<Longrightarrow> Q a d) \<Longrightarrow> htriple R P (dreturn a) Q"
  by (simp add: htriple_def dreturn_def stays)

lemma h_fail: "htriple R P (dfail e) Q"
  by (simp add: htriple_def dfail_def stays)

lemma h_stmt:
  assumes "\<And>d a d'. P d \<Longrightarrow> f d = Inr (a, d') \<Longrightarrow> R d d' \<and> Q a d'"
  shows "htriple R P (stmt f) Q"
  using assms
  by (auto simp: htriple_def stmt_def next_outcome_def stays
           split: list.splits outcome.splits sum.splits prod.splits if_splits)

lemma h_ignore:
  assumes "\<And>d a d'. P d \<Longrightarrow> f d = Inr (a, d') \<Longrightarrow> R d d' \<and> Q a d'"
    and "\<And>d. P d \<Longrightarrow> f d = Inl NoRows \<Longrightarrow> Q a0 d"
  shows "htriple R P (dignore a0 (stmt f)) Q"
  using assms
  by (auto simp: htriple_def dignore_def stmt_def next_outcome_def stays
           split: list.splits outcome.splits sum.splits prod.splits if_splits)

lemma h_bind:
  assumes m: "htriple R P m M" and k: "\<And>a. htriple R (M a) (k a) Q"
  shows "htriple R P (dbind m k) Q"
  unfolding htriple_def
proof (intro allI impI)
  fix s r s'
  assume run: "dbind m k s = (r, s')"
  obtain r1 s1 where m_run: "m s = (r1, s1)" by fastforce
  note m1 = m [unfolded htriple_def, rule_format, OF m_run]
  show "durable s' = durable s \<and> (aborted s \<longrightarrow> aborted s') \<and>
        (P (view s) \<and> \<not> aborted s \<and> \<not> aborted s' \<longrightarrow>
           R (view s) (view s') \<and> (\<forall>a. r = Inr a \<longrightarrow> Q a (view s')))"
  proof (cases r1)
    case (Inl e)
    with run m_run have "r = Inl e" "s' = s1" by (simp_all add: dbind_def)
    with m1 show ?thesis by auto
  next
    case (Inr a)
    with run m_run have k_run: "k a s1 = (r, s')" by (simp add: dbind_def)
    note k1 = k [of a, unfolded htriple_def, rule_format, OF k_run]
    from m1 k1 Inr show ?thesis by (auto intro: follows_on)
  qed
qed

lemma h_map_err: "htriple R P m Q \<Longrightarrow> htriple R P (dmap_err g m) Q"
  by (fastforce simp: htriple_def dmap_err_def split: sum.splits prod.splits)

lemma h_weaken:
  "htriple R P' m Q' \<Longrightarrow> (\<And>d. P d \<Longrightarrow> P' d) \<Longrightarrow> (\<And>a d. Q' a d \<Longrightarrow> Q a d) \<Longrightarrow> htriple R P m Q"
  unfolding htriple_def by blast

lemma h_frame:
  assumes "htriple R P m Q" and "\<And>d d'. R d d' \<Longrightarrow> P d \<Longrightarrow> S d \<Longrightarrow> S d'"
  shows "htriple R (\<lambda>d. P d \<and> S d) m (\<lambda>a d. Q a d \<and> S d)"
  using assms unfolding htriple_def by blast

lemma h_if:
  "(b \<Longrightarrow> htriple R P m Q) \<Longrightarrow> (\<not> b \<Longrightarrow> htriple R P m' Q) \<Longrightarrow> htriple R P (if b then m else m') Q"
  by simp

lemma h_case_sum:
  "(\<And>e. z = Inl e \<Longrightarrow> htriple R P (m e) Q) \<Longrightarrow> (\<And>x. z = Inr x \<Longrightarrow> htriple R P (m' x) Q) \<Longrightarrow>
   htriple R P (case z of Inl e \<Rightarrow> m e | Inr x \<Rightarrow> m' x) Q"
  by (cases z) simp_all

lemma h_case_option:
  "(z = None \<Longrightarrow> htriple R P m Q) \<Longrightarrow> (\<And>x. z = Some x \<Longrightarrow> htriple R P (m' x) Q) \<Longrightarrow>
   htriple R P (case z of None \<Rightarrow> m | Some x \<Rightarrow> m' x) Q"
  by (cases z) simp_all

lemma h_case_prod:
  "(\<And>x y. z = (x, y) \<Longrightarrow> htriple R P (m x y) Q) \<Longrightarrow> htriple R P (case z of (x, y) \<Rightarrow> m x y) Q"
  by (cases z) simp

lemma moves_in_tx:
  assumes "htriple R P body Q"
  shows "moves R P (in_tx wb wc body) Q"
  unfolding moves_def
proof (intro allI impI)
  fix s r s'
  assume run: "in_tx wb wc body s = (r, s')" and P: "P (durable s)"
  obtain x s1 where nx: "next_outcome s = (x, s1)" by fastforce
  then have s1: "durable s1 = durable s" by (auto simp: next_outcome_def split: list.splits)
  show "R (durable s) (durable s') \<and> (\<forall>a. r = Inr a \<longrightarrow> Q a (durable s'))"
  proof (cases "x = Fine")
    case False
    with nx run s1 show ?thesis
      by (cases x) (auto simp: in_tx_def dbind_def dmap_err_def begin_tx_def stays)
  next
    case True
    let ?s2 = "s1\<lparr>view := durable s1, aborted := False\<rparr>"
    obtain r3 s3 where b: "body ?s2 = (r3, s3)" by fastforce
    note b1 = assms [unfolded htriple_def, rule_format, OF b]
    obtain y s4 where ny: "next_outcome s3 = (y, s4)" by fastforce
    then have s4: "durable s4 = durable s3" "view s4 = view s3" "aborted s4 = aborted s3"
      by (auto simp: next_outcome_def split: list.splits)
    from True nx ny run b b1 s1 s4 P show ?thesis
      by (cases r3; cases y)
        (auto simp: in_tx_def dbind_def dmap_err_def begin_tx_def with_rollback_def commit_tx_def
              dreturn_def stays split: sum.splits if_splits)
  qed
qed

text \<open>A transaction leaves the durable tables alone or moves them to a state in which its body succeeds.\<close>

lemma in_tx_post:
  assumes "htriple R P body Q" and "P (durable s)" and "in_tx wb wc body s = (r, s')"
  shows "durable s' = durable s \<or> (\<exists>a. Q a (durable s'))"
proof -
  obtain x s1 where nx: "next_outcome s = (x, s1)" by fastforce
  then have s1: "durable s1 = durable s" by (auto simp: next_outcome_def split: list.splits)
  show ?thesis
  proof (cases "x = Fine")
    case False
    with nx assms(3) s1 show ?thesis by (cases x) (auto simp: in_tx_def dbind_def dmap_err_def begin_tx_def)
  next
    case True
    let ?s2 = "s1\<lparr>view := durable s1, aborted := False\<rparr>"
    obtain r3 s3 where b: "body ?s2 = (r3, s3)" by fastforce
    note b1 = assms(1) [unfolded htriple_def, rule_format, OF b]
    obtain y s4 where ny: "next_outcome s3 = (y, s4)" by fastforce
    then have s4: "durable s4 = durable s3" "view s4 = view s3" "aborted s4 = aborted s3"
      by (auto simp: next_outcome_def split: list.splits)
    from True nx ny assms(2,3) b b1 s1 s4 show ?thesis
      by (cases r3; cases y)
        (auto simp: in_tx_def dbind_def dmap_err_def begin_tx_def with_rollback_def commit_tx_def
              dreturn_def split: sum.splits if_splits)
  qed
qed

lemma h_unreachable:
  assumes "htriple R' P' m Q'"
  shows "htriple R (\<lambda>_. False) m Q"
  using assms by (simp add: htriple_def)

lemma moves_rolled_back:
  assumes "htriple R' P' body Q'"
  shows "moves R P (dbind begin_tx (\<lambda>_. with_rollback body)) (\<lambda>_ _. True)"
  unfolding moves_def
proof (intro allI impI)
  fix s r s'
  assume run: "dbind begin_tx (\<lambda>_. with_rollback body) s = (r, s')"
  obtain x s1 where nx: "next_outcome s = (x, s1)" by fastforce
  then have s1: "durable s1 = durable s" by (auto simp: next_outcome_def split: list.splits)
  obtain r3 s3 where b: "body (s1\<lparr>view := durable s1, aborted := False\<rparr>) = (r3, s3)" by fastforce
  from assms [unfolded htriple_def, rule_format, OF b] have "durable s3 = durable s1" by simp
  with run nx s1 b show "R (durable s) (durable s') \<and> (\<forall>a. r = Inr a \<longrightarrow> True)"
    by (cases x) (auto simp: dbind_def begin_tx_def with_rollback_def stays)
qed

lemma moves_autocommit:
  assumes "\<And>d a d'. P d \<Longrightarrow> f d = Inr (a, d') \<Longrightarrow> R d d' \<and> Q a d'"
  shows "moves R P (autocommit f) Q"
  using assms
  by (auto simp: moves_def autocommit_def next_outcome_def stays
           split: list.splits outcome.splits sum.splits prod.splits if_splits)

lemma moves_return: "(\<And>d. P d \<Longrightarrow> Q a d) \<Longrightarrow> moves R P (dreturn a) Q"
  by (simp add: moves_def dreturn_def stays)

lemma moves_fail: "moves R P (dfail e) Q"
  by (simp add: moves_def dfail_def stays)

lemma moves_bind:
  assumes m: "moves R P m M" and k: "\<And>a. moves R (M a) (k a) Q"
  shows "moves R P (dbind m k) Q"
  unfolding moves_def
proof (intro allI impI)
  fix s r s'
  assume run: "dbind m k s = (r, s')" and P: "P (durable s)"
  obtain r1 s1 where m_run: "m s = (r1, s1)" by fastforce
  note m1 = m [unfolded moves_def, rule_format, OF m_run P]
  show "R (durable s) (durable s') \<and> (\<forall>a. r = Inr a \<longrightarrow> Q a (durable s'))"
  proof (cases r1)
    case (Inl e)
    with run m_run m1 show ?thesis by (auto simp: dbind_def)
  next
    case (Inr a)
    with run m_run have k_run: "k a s1 = (r, s')" by (simp add: dbind_def)
    from m1 Inr have "M a (durable s1)" by simp
    from k [of a, unfolded moves_def, rule_format, OF k_run this] m1 show ?thesis by (auto intro: follows_on)
  qed
qed

lemma moves_attempt: "moves R P m M \<Longrightarrow> moves R P (dattempt m) (\<lambda>r s. \<forall>a. r = Inr a \<longrightarrow> M a s)"
  by (auto simp: moves_def dattempt_def split: prod.splits)

lemma moves_read: "reads f \<Longrightarrow> moves R P (autocommit f) (\<lambda>_. P)"
  by (rule moves_autocommit) (auto simp: reads_def intro: stays)

lemma moves_weaken:
  "moves R P' m Q' \<Longrightarrow> (\<And>d. P d \<Longrightarrow> P' d) \<Longrightarrow> (\<And>a d. Q' a d \<Longrightarrow> Q a d) \<Longrightarrow> moves R P m Q"
  unfolding moves_def by blast

lemma moves_map_err: "moves R P m Q \<Longrightarrow> moves R P (dmap_err g m) Q"
  by (fastforce simp: moves_def dmap_err_def split: sum.splits prod.splits)

lemma moves_if:
  "(b \<Longrightarrow> moves R P m Q) \<Longrightarrow> (\<not> b \<Longrightarrow> moves R P m' Q) \<Longrightarrow> moves R P (if b then m else m') Q"
  by simp

lemma moves_case_sum:
  "(\<And>e. z = Inl e \<Longrightarrow> moves R P (m e) Q) \<Longrightarrow> (\<And>x. z = Inr x \<Longrightarrow> moves R P (m' x) Q) \<Longrightarrow>
   moves R P (case z of Inl e \<Rightarrow> m e | Inr x \<Rightarrow> m' x) Q"
  by (cases z) simp_all

lemma moves_case_option:
  "(z = None \<Longrightarrow> moves R P m Q) \<Longrightarrow> (\<And>x. z = Some x \<Longrightarrow> moves R P (m' x) Q) \<Longrightarrow>
   moves R P (case z of None \<Rightarrow> m | Some x \<Rightarrow> m' x) Q"
  by (cases z) simp_all

lemma moves_case_prod:
  "(\<And>x y. z = (x, y) \<Longrightarrow> moves R P (m x y) Q) \<Longrightarrow> moves R P (case z of (x, y) \<Rightarrow> m x y) Q"
  by (cases z) simp

lemma op_moves_map_err: "op_moves proj R P m Q \<Longrightarrow> op_moves proj R P (omap_err g m) Q"
  by (fastforce simp: op_moves_def omap_err_def split: sum.splits prod.splits)

lemma op_moves_try: "op_moves proj R P m Q \<Longrightarrow> op_moves proj R P (otry m) (\<lambda>_ _. True)"
  by (fastforce simp: op_moves_def otry_def split: prod.splits)

lemma moves_reply:
  assumes m: "moves R P m M" and k: "\<And>a. moves R (M a) (k a) (\<lambda>_ _. True)"
  shows "moves R P (dreply m g k) (\<lambda>_ _. True)"
  unfolding dreply_def
proof (rule moves_bind [OF moves_attempt [OF m]], rule moves_case_sum)
  fix r :: "'a res" and a
  assume "r = Inr a"
  with k [of a] show "moves R (\<lambda>s. \<forall>a. r = Inr a \<longrightarrow> M a s) (k a) (\<lambda>_ _. True)"
    by (auto intro: moves_weaken)
qed (rule moves_return, simp)

text \<open>A transaction is judged as one step by what its body computes.\<close>

lemma moves_transaction:
  assumes "simulates body f" and "\<And>d a d'. P d \<Longrightarrow> f d = Inr (a, d') \<Longrightarrow> R d d' \<and> Q a d'"
  shows "moves R P (in_tx wb wc body) Q"
  unfolding moves_def
proof (intro allI impI)
  fix s r s'
  assume run: "in_tx wb wc body s = (r, s')" and P: "P (durable s)"
  from in_tx_cases [OF assms(1) run] assms(2) [OF P]
  show "R (durable s) (durable s') \<and> (\<forall>a. r = Inr a \<longrightarrow> Q a (durable s'))"
    by (cases r) (auto intro: stays)
qed

lemmas h_cases = h_if h_case_sum h_case_option h_case_prod
lemmas moves_cases = moves_if moves_case_sum moves_case_option moves_case_prod

lemma op_moves_return: "(\<And>d. P d \<Longrightarrow> Q a d) \<Longrightarrow> op_moves proj R P (oreturn a) Q"
  by (simp add: op_moves_def oreturn_def stays)

lemma op_moves_fail: "op_moves proj R P (ofail e) Q"
  by (simp add: op_moves_def ofail_def stays)

lemma op_moves_bind:
  assumes m: "op_moves proj R P m M" and k: "\<And>a. op_moves proj R (M a) (k a) Q"
  shows "op_moves proj R P (obind m k) Q"
  unfolding op_moves_def
proof (intro allI impI)
  fix st r st'
  assume run: "obind m k st = (r, st')" and P: "P (durable (proj st))"
  obtain r1 st1 where m_run: "m st = (r1, st1)" by fastforce
  note m1 = m [unfolded op_moves_def, rule_format, OF m_run P]
  show "R (durable (proj st)) (durable (proj st')) \<and> (\<forall>a. r = Inr a \<longrightarrow> Q a (durable (proj st')))"
  proof (cases r1)
    case (Inl e)
    with run m_run m1 show ?thesis by (auto simp: obind_def)
  next
    case (Inr a)
    with run m_run have k_run: "k a st1 = (r, st')" by (simp add: obind_def)
    from m1 Inr have "M a (durable (proj st1))" by simp
    from k [of a, unfolded op_moves_def, rule_format, OF k_run this] m1 show ?thesis by (auto intro: follows_on)
  qed
qed

end

end
