(* ===== verification/Finance.thy ===== *)
theory Finance
  imports Database
begin

text \<open>
  The finance module (\<open>internal/modules/finance\<close>): wallets, the transaction journal and escrow.

  The tables are lists of rows; every SQL statement of \<open>infra/postgres_repository.go\<close> is one
  function on them (\<open>debit_stmt\<close>, \<open>credit_stmt\<close>, \<dots>), and the repository methods \<open>Transfer\<close>,
  \<open>CreateEscrow\<close>, \<open>ReleaseEscrow\<close> and \<open>RefundEscrow\<close> compose them over the transaction layer with
  the guards, the early returns and the error wrappings of the code. The service
  (\<open>service/finance_service.go\<close>) and the HTTP handlers follow.

  Parsing and printing of UUIDs (pgtype, google/uuid) are the parameters of \<open>fin_env\<close>; the
  server's clock and the generated identifiers are arguments.
\<close>

section \<open>Tables\<close>

type_synonym uuid = "128 word"

record wallet_row =
  w_user :: uuid
  w_balance :: int
  w_updated_at :: int

record tx_row =
  t_id :: uuid
  t_sender :: uuid
  t_receiver :: uuid
  t_amount :: int
  t_type :: string
  t_status :: string
  t_reference :: string
  t_created_at :: int

record escrow_row =
  e_id :: uuid
  e_buyer :: uuid
  e_seller :: uuid
  e_amount :: int
  e_status :: string
  e_description :: string
  e_release_at :: "int option"
  e_created_at :: int
  e_updated_at :: int

record finance_db =
  wallets :: "wallet_row list"
  journal :: "tx_row list"
  escrows :: "escrow_row list"

record fin_env =
  scan_uuid :: "string \<Rightarrow> uuid res"
  show_uuid :: "uuid \<Rightarrow> string"
  pool_set :: bool

text \<open>The clock reading and the identifiers that the database generates during one call.\<close>

record fin_input =
  f_now :: int
  f_new_id :: uuid

section \<open>Statements\<close>

definition debit_stmt :: "int \<Rightarrow> uuid \<Rightarrow> int \<Rightarrow> (finance_db, int) sql" where
  "debit_stmt now u amt d =
     (let P = (\<lambda>w. w_user w = u \<and> amt \<le> w_balance w);
          f = (\<lambda>w. w\<lparr>w_balance := w_balance w - amt, w_updated_at := now\<rparr>)
      in case filter P (wallets d) of
           [] \<Rightarrow> Inl NoRows
         | w # _ \<Rightarrow> Inr (w_balance w - amt, d\<lparr>wallets := sql_update P f (wallets d)\<rparr>))"

text \<open>A sum that leaves the range of \<open>BIGINT\<close> is an error of the statement.\<close>

definition credit_stmt :: "int \<Rightarrow> uuid \<Rightarrow> int \<Rightarrow> (finance_db, int) sql" where
  "credit_stmt now u amt d =
     (let P = (\<lambda>w. w_user w = u);
          f = (\<lambda>w. w\<lparr>w_balance := w_balance w + amt, w_updated_at := now\<rparr>)
      in case filter P (wallets d) of
           [] \<Rightarrow> Inl NoRows
         | w # _ \<Rightarrow>
             if list_all (\<lambda>w. fits64 (w_balance w + amt)) (filter P (wallets d))
             then Inr (w_balance w + amt, d\<lparr>wallets := sql_update P f (wallets d)\<rparr>)
             else Inl (Constraint ''bigint out of range''))"

text \<open>
  \<open>INSERT INTO transactions\<close>: both wallets are foreign keys, the identifier is the primary key.
\<close>

definition record_tx_stmt ::
  "fin_input \<Rightarrow> uuid \<Rightarrow> uuid \<Rightarrow> int \<Rightarrow> string \<Rightarrow> string \<Rightarrow> (finance_db, unit) sql" where
  "record_tx_stmt i sid rid amt ty ref d =
     (if sid \<notin> w_user ` set (wallets d) \<or> rid \<notin> w_user ` set (wallets d)
      then Inl (Constraint ''foreign_key_violation'')
      else (case sql_insert t_id
                   \<lparr>t_id = f_new_id i, t_sender = sid, t_receiver = rid, t_amount = amt, t_type = ty,
                    t_status = ''completed'', t_reference = ref, t_created_at = f_now i\<rparr>
                   (journal d) of
              Inl e \<Rightarrow> Inl e
            | Inr j \<Rightarrow> Inr ((), d\<lparr>journal := j\<rparr>)))"

definition insert_escrow_stmt ::
  "fin_input \<Rightarrow> uuid \<Rightarrow> uuid \<Rightarrow> int \<Rightarrow> string \<Rightarrow> int option \<Rightarrow> (finance_db, escrow_row) sql" where
  "insert_escrow_stmt i bid sid amt desc rel d =
     (let e = \<lparr>e_id = f_new_id i, e_buyer = bid, e_seller = sid, e_amount = amt,
               e_status = ''held'', e_description = desc, e_release_at = rel,
               e_created_at = f_now i, e_updated_at = f_now i\<rparr>
      in case sql_insert e_id e (escrows d) of
           Inl er \<Rightarrow> Inl er
         | Inr es \<Rightarrow> Inr (e, d\<lparr>escrows := es\<rparr>))"

text \<open>\<open>UPDATE escrow_records SET status = ... WHERE id = $1 AND status = 'held' RETURNING ...\<close>.\<close>

definition settle_stmt :: "int \<Rightarrow> string \<Rightarrow> uuid \<Rightarrow> (finance_db, uuid \<times> uuid \<times> int) sql" where
  "settle_stmt now st eid d =
     (let P = (\<lambda>e. e_id e = eid \<and> e_status e = ''held'');
          f = (\<lambda>e. e\<lparr>e_status := st, e_updated_at := now\<rparr>)
      in case filter P (escrows d) of
           [] \<Rightarrow> Inl NoRows
         | e # _ \<Rightarrow> Inr ((e_buyer e, e_seller e, e_amount e),
                          d\<lparr>escrows := sql_update P f (escrows d)\<rparr>))"

definition select_escrow_stmt :: "uuid \<Rightarrow> (finance_db, escrow_row) sql" where
  "select_escrow_stmt eid d =
     (case filter (\<lambda>e. e_id e = eid) (escrows d) of [] \<Rightarrow> Inl NoRows | e # _ \<Rightarrow> Inr (e, d))"

definition select_wallet_stmt :: "uuid \<Rightarrow> (finance_db, wallet_row) sql" where
  "select_wallet_stmt u d =
     (case filter (\<lambda>w. w_user w = u) (wallets d) of [] \<Rightarrow> Inl NoRows | w # _ \<Rightarrow> Inr (w, d))"

section \<open>Repository\<close>

definition toDBAmount :: "int \<Rightarrow> int res" where
  "toDBAmount amount =
     (if amount < min_int32 \<or> max_int32 < amount
      then Inl (Errorf ''amount exceeds database amount range'') else Inr (wrap32 amount))"

definition parseFinanceUUID :: "fin_env \<Rightarrow> string \<Rightarrow> uuid res" where
  "parseFinanceUUID env v =
     (case scan_uuid env (trim_space v) of
        Inl e \<Rightarrow> Inl (Wrapf ''invalid uuid'' e)
      | Inr u \<Rightarrow> Inr u)"

definition transactionReference :: "string option \<Rightarrow> string option \<Rightarrow> string" where
  "transactionReference ety eid =
     (case (ety, eid) of
        (Some t, Some x) \<Rightarrow>
          (if trim_space x = [] then [] else trim_space t @ '':'' @ trim_space x)
      | _ \<Rightarrow> [])"

text \<open>\<open>if err == pgx.ErrNoRows { return m }; return wrap(err)\<close>.\<close>

definition no_rows_as :: "string \<Rightarrow> (goerr \<Rightarrow> goerr) \<Rightarrow> goerr \<Rightarrow> goerr" where
  "no_rows_as m wrap e = (if e = NoRows then Errorf m else wrap e)"

definition transfer_body ::
  "fin_input \<Rightarrow> uuid \<Rightarrow> uuid \<Rightarrow> int \<Rightarrow> string \<Rightarrow> string \<Rightarrow> (finance_db, unit) dbm" where
  "transfer_body i sid rid amount ty ref =
     dbind (dmap_err (no_rows_as ''insufficient balance or sender wallet not found'' (\<lambda>e. e))
              (stmt (debit_stmt (f_now i) sid amount))) (\<lambda>remaining.
     dbind (dmap_err (no_rows_as ''receiver wallet not found'' (Wrapf ''credit receiver wallet''))
              (stmt (credit_stmt (f_now i) rid amount))) (\<lambda>creditedBalance.
     dmap_err (Wrapf ''record transfer'') (stmt (record_tx_stmt i sid rid amount ty ref))))"

definition Transfer ::
  "fin_env \<Rightarrow> fin_input \<Rightarrow> string \<Rightarrow> string \<Rightarrow> int \<Rightarrow> string \<Rightarrow> string option \<Rightarrow> string option \<Rightarrow>
   (finance_db, unit) dbm" where
  "Transfer env i senderID receiverID amount tType entityType entityID =
     (if amount \<le> 0 then dfail (Errorf ''amount must be positive'')
      else if senderID = receiverID then dfail (Errorf ''sender and receiver must differ'')
      else if \<not> pool_set env then dfail (Errorf ''postgres pool is required'')
      else (case parseFinanceUUID env senderID of
              Inl e \<Rightarrow> dfail e
            | Inr sid \<Rightarrow>
                (case parseFinanceUUID env receiverID of
                   Inl e \<Rightarrow> dfail e
                 | Inr rid \<Rightarrow>
                     in_tx (Wrapf ''begin transfer transaction'')
                       (Wrapf ''commit transfer transaction'')
                       (transfer_body i sid rid amount tType
                          (transactionReference entityType entityID)))))"

text \<open>
  The \<open>domain.EscrowRecord\<close> the callers pass around, without the fields no operation reads.
\<close>

record escrow_record =
  ID :: string
  BuyerID :: string
  SellerID :: string
  Amount :: int
  Status :: string
  Description :: string
  ReleaseAt :: "int option"
  CreatedAt :: int

definition create_escrow_body ::
  "fin_input \<Rightarrow> uuid \<Rightarrow> uuid \<Rightarrow> int \<Rightarrow> string \<Rightarrow> int option \<Rightarrow> (finance_db, escrow_row) dbm" where
  "create_escrow_body i bid sid amountDB desc rel =
     dbind (dmap_err (no_rows_as ''insufficient balance or buyer wallet not found''
                        (Wrapf ''reserve escrow funds''))
              (stmt (debit_stmt (f_now i) bid amountDB))) (\<lambda>reserved.
     dmap_err (Wrapf ''create escrow record'')
       (stmt (insert_escrow_stmt i bid sid amountDB desc rel)))"

text \<open>\<open>CreateEscrow\<close> returns the record with the fields that the code fills in after the commit.\<close>

definition CreateEscrow ::
  "fin_env \<Rightarrow> fin_input \<Rightarrow> escrow_record \<Rightarrow> (finance_db, escrow_row) dbm" where
  "CreateEscrow env i escrow =
     (if Amount escrow \<le> 0 then dfail (Errorf ''invalid escrow'')
      else if BuyerID escrow = SellerID escrow then dfail (Errorf ''buyer and seller must differ'')
      else if \<not> pool_set env then dfail (Errorf ''postgres pool is required'')
      else (case parseFinanceUUID env (BuyerID escrow) of
              Inl e \<Rightarrow> dfail e
            | Inr bid \<Rightarrow>
                (case parseFinanceUUID env (SellerID escrow) of
                   Inl e \<Rightarrow> dfail e
                 | Inr sid \<Rightarrow>
                     (case toDBAmount (Amount escrow) of
                        Inl e \<Rightarrow> dfail e
                      | Inr amountDB \<Rightarrow>
                          in_tx (Wrapf ''begin escrow transaction'')
                            (Wrapf ''commit escrow transaction'')
                            (create_escrow_body i bid sid amountDB (Description escrow)
                               (ReleaseAt escrow))))))"

definition filled_escrow :: "fin_env \<Rightarrow> escrow_record \<Rightarrow> escrow_row \<Rightarrow> escrow_record" where
  "filled_escrow env escrow row =
     escrow\<lparr>ID := show_uuid env (e_id row), CreatedAt := e_created_at row,
            ReleaseAt := (case e_release_at row of None \<Rightarrow> ReleaseAt escrow | Some t \<Rightarrow> Some t)\<rparr>"

definition release_body :: "fin_input \<Rightarrow> string \<Rightarrow> uuid \<Rightarrow> (finance_db, unit) dbm" where
  "release_body i escrowID eid =
     dbind (dmap_err (no_rows_as ''escrow is not releasable'' (\<lambda>e. e))
              (stmt (settle_stmt (f_now i) ''released'' eid))) (\<lambda>(buyerID, sellerID, amount).
     dbind (dmap_err (no_rows_as ''seller wallet not found'' (Wrapf ''credit seller wallet''))
              (stmt (credit_stmt (f_now i) sellerID amount))) (\<lambda>sellerBalance.
     dmap_err (Wrapf ''record escrow release'')
       (stmt (record_tx_stmt i buyerID sellerID amount ''escrow_release'' escrowID))))"

definition repo_ReleaseEscrow ::
  "fin_env \<Rightarrow> fin_input \<Rightarrow> string \<Rightarrow> (finance_db, unit) dbm" where
  "repo_ReleaseEscrow env i escrowID =
     (if \<not> pool_set env then dfail (Errorf ''postgres pool is required'')
      else (case parseFinanceUUID env escrowID of
              Inl e \<Rightarrow> dfail e
            | Inr eid \<Rightarrow>
                in_tx (Wrapf ''begin escrow release transaction'') (\<lambda>e. e)
                  (release_body i escrowID eid)))"

definition refund_body :: "fin_input \<Rightarrow> string \<Rightarrow> uuid \<Rightarrow> (finance_db, unit) dbm" where
  "refund_body i escrowID eid =
     dbind (dmap_err (no_rows_as ''escrow is not refundable'' (\<lambda>e. e))
              (stmt (settle_stmt (f_now i) ''refunded'' eid))) (\<lambda>(buyerID, sellerID, amount).
     dbind (dmap_err (no_rows_as ''buyer wallet not found'' (Wrapf ''refund buyer wallet''))
              (stmt (credit_stmt (f_now i) buyerID amount))) (\<lambda>buyerBalance.
     dmap_err (Wrapf ''record escrow refund'')
       (stmt (record_tx_stmt i sellerID buyerID amount ''escrow_refund'' escrowID))))"

definition repo_RefundEscrow ::
  "fin_env \<Rightarrow> fin_input \<Rightarrow> string \<Rightarrow> (finance_db, unit) dbm" where
  "repo_RefundEscrow env i escrowID =
     (if \<not> pool_set env then dfail (Errorf ''postgres pool is required'')
      else (case parseFinanceUUID env escrowID of
              Inl e \<Rightarrow> dfail e
            | Inr eid \<Rightarrow>
                in_tx (Wrapf ''begin escrow refund transaction'') (\<lambda>e. e)
                  (refund_body i escrowID eid)))"

text \<open>The reads, which parse the identifier without trimming it.\<close>

definition repo_GetEscrow :: "fin_env \<Rightarrow> string \<Rightarrow> (finance_db, escrow_record) dbm" where
  "repo_GetEscrow env escrowID =
     (case scan_uuid env escrowID of
        Inl e \<Rightarrow> dfail (Wrapf ''invalid escrow id'' e)
      | Inr eid \<Rightarrow>
          dbind (autocommit (select_escrow_stmt eid)) (\<lambda>e.
            dreturn \<lparr>ID = show_uuid env (e_id e), BuyerID = show_uuid env (e_buyer e),
                     SellerID = show_uuid env (e_seller e), Amount = e_amount e,
                     Status = e_status e, Description = e_description e,
                     ReleaseAt = None, CreatedAt = 0\<rparr>))"

definition repo_GetWallet :: "fin_env \<Rightarrow> string \<Rightarrow> (finance_db, wallet_row) dbm" where
  "repo_GetWallet env userID =
     (case scan_uuid env userID of
        Inl e \<Rightarrow> dfail (Wrapf ''invalid user id'' e)
      | Inr uid \<Rightarrow> autocommit (select_wallet_stmt uid))"

section \<open>Service\<close>

definition TransferFunds ::
  "fin_env \<Rightarrow> fin_input \<Rightarrow> string \<Rightarrow> string \<Rightarrow> int \<Rightarrow> (finance_db, unit) dbm" where
  "TransferFunds env i senderID receiverID amount =
     (if senderID = [] \<or> receiverID = [] \<or> senderID = receiverID \<or> amount \<le> 0
      then dfail (Errorf ''invalid transfer'')
      else Transfer env i senderID receiverID amount ''transfer'' None None)"

definition TipUser ::
  "fin_env \<Rightarrow> fin_input \<Rightarrow> string \<Rightarrow> string \<Rightarrow> int \<Rightarrow> (finance_db, unit) dbm" where
  "TipUser env i senderID receiverID amount =
     (if amount \<le> 0 then dfail (Errorf ''amount must be positive'')
      else Transfer env i senderID receiverID amount ''tip'' None None)"

text \<open>
  \<open>get_signal\<close> stands for \<open>contentRepo.GetSignalByID\<close>: the author of the post, if there is one.
\<close>

definition UnlockContent ::
  "fin_env \<Rightarrow> (string \<Rightarrow> string option res) \<Rightarrow> fin_input \<Rightarrow> string \<Rightarrow> string \<Rightarrow> int \<Rightarrow>
   (finance_db, unit) dbm" where
  "UnlockContent env get_signal i userID postID amount =
     (if amount \<le> 0 then dfail (Errorf ''amount must be positive'')
      else (case get_signal postID of
              Inl e \<Rightarrow> dfail (Wrapf ''failed to fetch post'' e)
            | Inr None \<Rightarrow> dfail (Errorf ''post not found'')
            | Inr (Some author) \<Rightarrow>
                Transfer env i userID author amount ''unlock'' None (Some postID)))"

definition GetBalance :: "fin_env \<Rightarrow> string \<Rightarrow> (finance_db, int) dbm" where
  "GetBalance env userID = dbind (repo_GetWallet env userID) (\<lambda>w. dreturn (w_balance w))"

definition InitiateEscrow ::
  "fin_env \<Rightarrow> fin_input \<Rightarrow> string \<Rightarrow> string \<Rightarrow> int \<Rightarrow> string \<Rightarrow> (finance_db, escrow_record) dbm" where
  "InitiateEscrow env i buyerID sellerID amount description =
     (if buyerID = [] \<or> sellerID = [] \<or> buyerID = sellerID
      then dfail (Errorf ''invalid escrow participants'')
      else if amount \<le> 0 then dfail (Errorf ''amount must be positive'')
      else (let escrow = \<lparr>ID = [], BuyerID = buyerID, SellerID = sellerID, Amount = amount,
                          Status = ''held'', Description = description, ReleaseAt = None,
                          CreatedAt = 0\<rparr>
            in dbind (CreateEscrow env i escrow) (\<lambda>row. dreturn (filled_escrow env escrow row))))"

definition ReleaseEscrow ::
  "fin_env \<Rightarrow> fin_input \<Rightarrow> string \<Rightarrow> string \<Rightarrow> (finance_db, unit) dbm" where
  "ReleaseEscrow env i escrowID userID =
     dbind (repo_GetEscrow env escrowID) (\<lambda>escrow.
       if BuyerID escrow \<noteq> userID then dfail (Errorf ''only buyer can release escrow'')
       else if Status escrow \<noteq> ''held'' then dfail (Errorf ''escrow is not releasable'')
       else repo_ReleaseEscrow env i escrowID)"

definition RefundEscrow ::
  "fin_env \<Rightarrow> fin_input \<Rightarrow> string \<Rightarrow> string \<Rightarrow> (finance_db, unit) dbm" where
  "RefundEscrow env i escrowID userID =
     dbind (repo_GetEscrow env escrowID) (\<lambda>escrow.
       if SellerID escrow \<noteq> userID then dfail (Errorf ''only seller can refund'')
       else if Status escrow \<noteq> ''held'' then dfail (Errorf ''escrow is not refundable'')
       else repo_RefundEscrow env i escrowID)"


text \<open>
  \<open>GetUserTransactions\<close>: the rows of a user, newest first, one page of them; the amount is scanned
  into an \<open>int32\<close>, which fails for a larger value.
\<close>

definition tx_page :: "uuid \<Rightarrow> int \<Rightarrow> int \<Rightarrow> tx_row list \<Rightarrow> tx_row list" where
  "tx_page u limit offset j =
     take (nat limit) (drop (nat offset)
       (sort_key (\<lambda>t. - t_created_at t) (sort_key (\<lambda>t. - uint (t_id t))
         (filter (\<lambda>t. t_sender t = u \<or> t_receiver t = u) j))))"

definition scan_tx_rows :: "tx_row list \<Rightarrow> tx_row list res" where
  "scan_tx_rows rs =
     (if list_all (\<lambda>t. fits32 (t_amount t)) rs then Inr rs
      else Inl (Errorf ''cannot scan amount into int32''))"

definition select_transactions_stmt :: "uuid \<Rightarrow> int \<Rightarrow> int \<Rightarrow> (finance_db, tx_row list) sql" where
  "select_transactions_stmt u limit offset d =
     (case scan_tx_rows (tx_page u limit offset (journal d)) of
        Inl e \<Rightarrow> Inl e
      | Inr rs \<Rightarrow> Inr (rs, d))"

definition clamp_limit :: "int \<Rightarrow> int" where
  "clamp_limit limit = (let l = (if limit \<le> 0 then 25 else limit) in if 100 < l then 100 else l)"

definition GetUserTransactions ::
  "fin_env \<Rightarrow> string \<Rightarrow> int \<Rightarrow> int \<Rightarrow> (finance_db, tx_row list) dbm" where
  "GetUserTransactions env userID limit offset =
     (if \<not> pool_set env then dfail (Errorf ''postgres pool is required'')
      else (case parseFinanceUUID env userID of
              Inl e \<Rightarrow> dfail e
            | Inr uid \<Rightarrow> autocommit (select_transactions_stmt uid (clamp_limit limit)
                                       (if offset < 0 then 0 else offset))))"

text \<open>\<open>UpdateEscrowStatus\<close> is a repository method that no service calls.\<close>

definition repo_UpdateEscrowStatus ::
  "fin_env \<Rightarrow> string \<Rightarrow> string \<Rightarrow> (finance_db, unit) dbm" where
  "repo_UpdateEscrowStatus env escrowID status =
     (case scan_uuid env escrowID of
        Inl e \<Rightarrow> dfail (Wrapf ''invalid escrow id'' e)
      | Inr eid \<Rightarrow>
          autocommit (\<lambda>d. Inr ((), d\<lparr>escrows :=
            sql_update (\<lambda>e. e_id e = eid) (\<lambda>e. e\<lparr>e_status := status\<rparr>) (escrows d)\<rparr>)))"

section \<open>HTTP handlers\<close>

text \<open>
  A response is a status code and a body; the parsed request body is an argument, \<open>None\<close> when the
  body parser of the framework rejects it.
\<close>

datatype fin_body =
    ErrorBody string
  | MessageBody string
  | BalanceBody int
  | EscrowBody escrow_record
  | TransactionsBody "(string \<times> tx_row) list" int int

definition respond :: "int \<Rightarrow> fin_body \<Rightarrow> (finance_db, int \<times> fin_body) dbm" where
  "respond code b = dreturn (code, b)"

text \<open>\<open>if err != nil { return c.Status(code).JSON(...) }\<close>: run a call and answer for it.\<close>

definition answer ::
  "(finance_db, 'a) dbm \<Rightarrow> int \<times> fin_body \<Rightarrow> ('a \<Rightarrow> int \<times> fin_body) \<Rightarrow>
   (finance_db, int \<times> fin_body) dbm" where
  "answer m on_err on_ok s =
     (case m s of (Inl e, s') \<Rightarrow> (Inr on_err, s') | (Inr a, s') \<Rightarrow> (Inr (on_ok a), s'))"

definition handle_GetBalance :: "fin_env \<Rightarrow> string \<Rightarrow> (finance_db, int \<times> fin_body) dbm" where
  "handle_GetBalance env userID =
     answer (GetBalance env userID) (500, ErrorBody ''operation failed'') (\<lambda>b. (200, BalanceBody b))"

definition handle_Tip ::
  "fin_env \<Rightarrow> fin_input \<Rightarrow> string \<Rightarrow> (string \<times> int) option \<Rightarrow> (finance_db, int \<times> fin_body) dbm" where
  "handle_Tip env i senderID req =
     (case req of
        None \<Rightarrow> respond 400 (ErrorBody ''Invalid request'')
      | Some (receiver, amount) \<Rightarrow>
          answer (TipUser env i senderID receiver amount) (500, ErrorBody ''operation failed'')
            (\<lambda>_. (200, MessageBody ''Tip sent successfully'')))"

definition handle_CreateEscrow ::
  "fin_env \<Rightarrow> fin_input \<Rightarrow> string \<Rightarrow> (string \<times> int \<times> string) option \<Rightarrow>
   (finance_db, int \<times> fin_body) dbm" where
  "handle_CreateEscrow env i buyerID req =
     (case req of
        None \<Rightarrow> respond 400 (ErrorBody ''Invalid request'')
      | Some (seller, amount, desc) \<Rightarrow>
          answer (InitiateEscrow env i buyerID seller amount desc)
            (500, ErrorBody ''operation failed'') (\<lambda>e. (200, EscrowBody e)))"

definition handle_ReleaseEscrow ::
  "fin_env \<Rightarrow> fin_input \<Rightarrow> string \<Rightarrow> string \<Rightarrow> (finance_db, int \<times> fin_body) dbm" where
  "handle_ReleaseEscrow env i userID escrowID =
     answer (ReleaseEscrow env i escrowID userID) (500, ErrorBody ''operation failed'')
       (\<lambda>_. (200, MessageBody ''Escrow released''))"

definition handle_RefundEscrow ::
  "fin_env \<Rightarrow> fin_input \<Rightarrow> string \<Rightarrow> string \<Rightarrow> (finance_db, int \<times> fin_body) dbm" where
  "handle_RefundEscrow env i userID escrowID =
     answer (RefundEscrow env i escrowID userID) (500, ErrorBody ''operation failed'')
       (\<lambda>_. (200, MessageBody ''Escrow refunded''))"

text \<open>Only the two parties of an escrow see it; everyone else gets the answer for a missing one.\<close>

definition handle_GetEscrow ::
  "fin_env \<Rightarrow> string \<Rightarrow> string \<Rightarrow> (finance_db, int \<times> fin_body) dbm" where
  "handle_GetEscrow env userID escrowID =
     answer (repo_GetEscrow env escrowID) (404, ErrorBody ''escrow not found'')
       (\<lambda>e. if BuyerID e \<noteq> userID \<and> SellerID e \<noteq> userID then (404, ErrorBody ''escrow not found'')
            else (200, EscrowBody e))"

definition tx_direction :: "fin_env \<Rightarrow> string \<Rightarrow> tx_row \<Rightarrow> string" where
  "tx_direction env userID t =
     (let d = (if show_uuid env (t_sender t) = userID then ''debit'' else ''credit'');
          d = (if t_type t = ''refund'' \<or> t_type t = ''escrow_refund'' then ''refund'' else d)
      in if t_type t = ''fee'' then ''fee'' else d)"

definition handle_GetTransactions ::
  "fin_env \<Rightarrow> string \<Rightarrow> int \<Rightarrow> int \<Rightarrow> (finance_db, int \<times> fin_body) dbm" where
  "handle_GetTransactions env userID page limit =
     (if page < 0 \<or> limit < 1 \<or> 100 < limit then respond 400 (ErrorBody ''invalid pagination'')
      else answer (GetUserTransactions env userID (wrap32 limit) (wrap32 (wrap64 (page * limit))))
             (500, ErrorBody ''operation failed'')
             (\<lambda>ts. (200, TransactionsBody (map (\<lambda>t. (tx_direction env userID t, t)) ts) page limit)))"

text \<open>
  The request is a JSON object: a missing or non-string \<open>post_id\<close> reads as the empty string, a
  missing or non-numeric \<open>amount\<close> as 0; \<open>amount\<close> is the number after the conversion to \<open>int64\<close>.
\<close>

definition handle_UnlockContent ::
  "fin_env \<Rightarrow> (string \<Rightarrow> string option res) \<Rightarrow> fin_input \<Rightarrow> string \<Rightarrow> (string \<times> int) option \<Rightarrow>
   (finance_db, int \<times> fin_body) dbm" where
  "handle_UnlockContent env gs i userID req =
     (case req of
        None \<Rightarrow> respond 400 (ErrorBody ''invalid request'')
      | Some (postID, amount) \<Rightarrow>
          (if postID = [] \<or> amount \<le> 0 then respond 400 (ErrorBody ''invalid request'')
           else answer (UnlockContent env gs i userID postID amount)
                  (500, ErrorBody ''operation failed'') (\<lambda>_. (200, MessageBody ''Content unlocked''))))"

definition handle_Transfer ::
  "fin_env \<Rightarrow> fin_input \<Rightarrow> string \<Rightarrow> (string \<times> int) option \<Rightarrow> (finance_db, int \<times> fin_body) dbm" where
  "handle_Transfer env i senderID req =
     (case req of
        None \<Rightarrow> respond 400 (ErrorBody ''invalid transfer'')
      | Some (receiver, amount) \<Rightarrow>
          (if receiver = [] \<or> amount \<le> 0 then respond 400 (ErrorBody ''invalid transfer'')
           else answer (TransferFunds env i senderID receiver amount)
                  (500, ErrorBody ''operation failed'')
                  (\<lambda>_. (200, MessageBody ''Transfer completed''))))"

section \<open>The methods as functions on the tables\<close>

text \<open>
  What each transaction does when nothing fails: the same statements without the driver.
\<close>

definition transfer_tables ::
  "fin_input \<Rightarrow> uuid \<Rightarrow> uuid \<Rightarrow> int \<Rightarrow> string \<Rightarrow> string \<Rightarrow> (finance_db, unit) sql" where
  "transfer_tables i sid rid amount ty ref =
     sbind (smap_err (no_rows_as ''insufficient balance or sender wallet not found'' (\<lambda>e. e))
              (debit_stmt (f_now i) sid amount)) (\<lambda>_.
     sbind (smap_err (no_rows_as ''receiver wallet not found'' (Wrapf ''credit receiver wallet''))
              (credit_stmt (f_now i) rid amount)) (\<lambda>_.
     smap_err (Wrapf ''record transfer'') (record_tx_stmt i sid rid amount ty ref)))"

definition create_escrow_tables ::
  "fin_input \<Rightarrow> uuid \<Rightarrow> uuid \<Rightarrow> int \<Rightarrow> string \<Rightarrow> int option \<Rightarrow> (finance_db, escrow_row) sql" where
  "create_escrow_tables i bid sid amount desc rel =
     sbind (smap_err (no_rows_as ''insufficient balance or buyer wallet not found''
                        (Wrapf ''reserve escrow funds''))
              (debit_stmt (f_now i) bid amount)) (\<lambda>_.
     smap_err (Wrapf ''create escrow record'') (insert_escrow_stmt i bid sid amount desc rel))"

definition release_tables :: "fin_input \<Rightarrow> string \<Rightarrow> uuid \<Rightarrow> (finance_db, unit) sql" where
  "release_tables i escrowID eid =
     sbind (smap_err (no_rows_as ''escrow is not releasable'' (\<lambda>e. e))
              (settle_stmt (f_now i) ''released'' eid)) (\<lambda>(buyer, seller, amount).
     sbind (smap_err (no_rows_as ''seller wallet not found'' (Wrapf ''credit seller wallet''))
              (credit_stmt (f_now i) seller amount)) (\<lambda>_.
     smap_err (Wrapf ''record escrow release'')
       (record_tx_stmt i buyer seller amount ''escrow_release'' escrowID)))"

definition refund_tables :: "fin_input \<Rightarrow> string \<Rightarrow> uuid \<Rightarrow> (finance_db, unit) sql" where
  "refund_tables i escrowID eid =
     sbind (smap_err (no_rows_as ''escrow is not refundable'' (\<lambda>e. e))
              (settle_stmt (f_now i) ''refunded'' eid)) (\<lambda>(buyer, seller, amount).
     sbind (smap_err (no_rows_as ''buyer wallet not found'' (Wrapf ''refund buyer wallet''))
              (credit_stmt (f_now i) buyer amount)) (\<lambda>_.
     smap_err (Wrapf ''record escrow refund'')
       (record_tx_stmt i seller buyer amount ''escrow_refund'' escrowID)))"

lemma simulates_transfer: "simulates (transfer_body i sid rid a ty ref) (transfer_tables i sid rid a ty ref)"
  unfolding transfer_body_def transfer_tables_def by (intro sim_intros)

lemma simulates_create_escrow:
  "simulates (create_escrow_body i bid sid a desc rel) (create_escrow_tables i bid sid a desc rel)"
  unfolding create_escrow_body_def create_escrow_tables_def by (intro sim_intros)

lemma simulates_release: "simulates (release_body i x eid) (release_tables i x eid)"
  unfolding release_body_def release_tables_def by (intro sim_intros)

lemma simulates_refund: "simulates (refund_body i x eid) (refund_tables i x eid)"
  unfolding refund_body_def refund_tables_def by (intro sim_intros)

definition Transfer_spec ::
  "fin_env \<Rightarrow> fin_input \<Rightarrow> string \<Rightarrow> string \<Rightarrow> int \<Rightarrow> string \<Rightarrow> string option \<Rightarrow> string option \<Rightarrow>
   (finance_db, unit) sql" where
  "Transfer_spec env i senderID receiverID amount tType entityType entityID =
     (if amount \<le> 0 then sfail (Errorf ''amount must be positive'')
      else if senderID = receiverID then sfail (Errorf ''sender and receiver must differ'')
      else if \<not> pool_set env then sfail (Errorf ''postgres pool is required'')
      else (case parseFinanceUUID env senderID of
              Inl e \<Rightarrow> sfail e
            | Inr sid \<Rightarrow>
                (case parseFinanceUUID env receiverID of
                   Inl e \<Rightarrow> sfail e
                 | Inr rid \<Rightarrow> transfer_tables i sid rid amount tType
                                (transactionReference entityType entityID))))"

definition CreateEscrow_spec ::
  "fin_env \<Rightarrow> fin_input \<Rightarrow> escrow_record \<Rightarrow> (finance_db, escrow_row) sql" where
  "CreateEscrow_spec env i escrow =
     (if Amount escrow \<le> 0 then sfail (Errorf ''invalid escrow'')
      else if BuyerID escrow = SellerID escrow then sfail (Errorf ''buyer and seller must differ'')
      else if \<not> pool_set env then sfail (Errorf ''postgres pool is required'')
      else (case parseFinanceUUID env (BuyerID escrow) of
              Inl e \<Rightarrow> sfail e
            | Inr bid \<Rightarrow>
                (case parseFinanceUUID env (SellerID escrow) of
                   Inl e \<Rightarrow> sfail e
                 | Inr sid \<Rightarrow>
                     (case toDBAmount (Amount escrow) of
                        Inl e \<Rightarrow> sfail e
                      | Inr a \<Rightarrow> create_escrow_tables i bid sid a (Description escrow)
                                   (ReleaseAt escrow)))))"

definition settle_spec ::
  "fin_env \<Rightarrow> (string \<Rightarrow> uuid \<Rightarrow> (finance_db, unit) sql) \<Rightarrow> string \<Rightarrow> (finance_db, unit) sql" where
  "settle_spec env tables escrowID =
     (if \<not> pool_set env then sfail (Errorf ''postgres pool is required'')
      else (case parseFinanceUUID env escrowID of
              Inl e \<Rightarrow> sfail e
            | Inr eid \<Rightarrow> tables escrowID eid))"

text \<open>The four methods keep the contract of the transaction layer.\<close>

interpretation transfer: transactional
  "Transfer env i sender receiver amount ty et ei" "Transfer_spec env i sender receiver amount ty et ei"
  unfolding Transfer_def Transfer_spec_def
  by (intro transactional_intros simulates_transfer)

interpretation create_escrow: transactional "CreateEscrow env i escrow" "CreateEscrow_spec env i escrow"
  unfolding CreateEscrow_def CreateEscrow_spec_def
  by (intro transactional_intros simulates_create_escrow)

interpretation release: transactional
  "repo_ReleaseEscrow env i x" "settle_spec env (release_tables i) x"
  unfolding repo_ReleaseEscrow_def settle_spec_def
  by (intro transactional_intros simulates_release)

interpretation refund: transactional
  "repo_RefundEscrow env i x" "settle_spec env (refund_tables i) x"
  unfolding repo_RefundEscrow_def settle_spec_def
  by (intro transactional_intros simulates_refund)

section \<open>The ledger invariant\<close>

definition held :: "escrow_row \<Rightarrow> int" where
  "held e = (if e_status e = ''held'' then e_amount e else 0)"

definition total_funds :: "finance_db \<Rightarrow> int" where
  "total_funds d = sum_list (map w_balance (wallets d)) + sum_list (map held (escrows d))"

definition ledger_ok :: "finance_db \<Rightarrow> bool" where
  "ledger_ok d \<longleftrightarrow>
     distinct (map w_user (wallets d)) \<and> distinct (map e_id (escrows d)) \<and>
     distinct (map t_id (journal d)) \<and>
     list_all (\<lambda>w. 0 \<le> w_balance w \<and> fits64 (w_balance w)) (wallets d) \<and>
     list_all (\<lambda>e. 0 < e_amount e \<and> fits32 (e_amount e)) (escrows d)"

definition balance_of :: "finance_db \<Rightarrow> uuid \<Rightarrow> int option" where
  "balance_of d = map_of (map (\<lambda>w. (w_user w, w_balance w)) (wallets d))"


lemma balance_of_row:
  "ledger_ok d \<Longrightarrow> w \<in> set (wallets d) \<Longrightarrow> balance_of d (w_user w) = Some (w_balance w)"
  by (simp add: balance_of_def ledger_ok_def map_of_row)

text \<open>What one statement does to the ledger.\<close>

lemma debit_stmtE:
  assumes "debit_stmt now u amt d = Inr (b, d')" and "ledger_ok d" and "0 \<le> amt"
  shows "ledger_ok d'" "total_funds d' = total_funds d - amt" "0 \<le> b"
    "balance_of d u = Some (b + amt)" "balance_of d' = (balance_of d)(u \<mapsto> b)"
    "journal d' = journal d" "escrows d' = escrows d"
    "w_user ` set (wallets d') = w_user ` set (wallets d)"
proof -
  let ?f = "\<lambda>w. w\<lparr>w_balance := w_balance w - amt, w_updated_at := now\<rparr>"
  let ?P = "\<lambda>w. w_user w = u \<and> amt \<le> w_balance w"
  from assms(1) obtain w ws where w: "filter ?P (wallets d) = w # ws"
    and b: "b = w_balance w - amt" and d': "d' = d\<lparr>wallets := sql_update ?P ?f (wallets d)\<rparr>"
    by (auto simp: debit_stmt_def Let_def split: list.splits)
  from filter_ConsD [OF w] have mem: "w \<in> set (wallets d)" "w_user w = u" "amt \<le> w_balance w"
    by auto
  from assms(2) have dist: "distinct (map w_user (wallets d))" by (simp add: ledger_ok_def)
  have upd: "wallets d' = sql_update (\<lambda>w. w_user w = u) ?f (wallets d)"
    using sql_update_guard_unique [OF dist mem(1,2), of "\<lambda>w. amt \<le> w_balance w"] mem(3) d' by simp
  have rows: "list_all (\<lambda>w. 0 \<le> w_balance w \<and> fits64 (w_balance w)) (wallets d')"
    using assms(2,3) d'
    by (auto simp: list_all_iff ledger_ok_def set_sql_update fits64_def int_bounds)
  have keys: "map w_user (wallets d') = map w_user (wallets d)" by (simp add: upd)
  show "0 \<le> b" using mem b by simp
  show "journal d' = journal d" "escrows d' = escrows d" using d' by simp_all
  with rows keys assms(2) show "ledger_ok d'" by (simp add: ledger_ok_def)
  show "w_user ` set (wallets d') = w_user ` set (wallets d)" using keys by (metis list.set_map)
  show "total_funds d' = total_funds d - amt"
    using sum_sql_update [OF dist mem(1,2), of w_balance ?f] upd d' by (simp add: total_funds_def)
  show "balance_of d u = Some (b + amt)"
    using balance_of_row [OF assms(2) mem(1)] mem b by simp
  show "balance_of d' = (balance_of d)(u \<mapsto> b)"
    using map_of_sql_update [OF mem(1) dist mem(2), of ?f w_balance] upd b
    by (simp add: balance_of_def)
qed

lemma credit_stmtE:
  assumes "credit_stmt now u amt d = Inr (b, d')" and "ledger_ok d" and "0 \<le> amt"
  shows "ledger_ok d'" "total_funds d' = total_funds d + amt"
    "balance_of d u = Some (b - amt)" "balance_of d' = (balance_of d)(u \<mapsto> b)"
    "journal d' = journal d" "escrows d' = escrows d"
    "w_user ` set (wallets d') = w_user ` set (wallets d)"
proof -
  let ?f = "\<lambda>w. w\<lparr>w_balance := w_balance w + amt, w_updated_at := now\<rparr>"
  let ?P = "\<lambda>w. w_user w = u"
  from assms(1) obtain w ws where w: "filter ?P (wallets d) = w # ws"
    and b: "b = w_balance w + amt" and d': "d' = d\<lparr>wallets := sql_update ?P ?f (wallets d)\<rparr>"
    and fits: "list_all (\<lambda>w. fits64 (w_balance w + amt)) (filter ?P (wallets d))"
    by (auto simp: credit_stmt_def Let_def split: list.splits if_splits)
  from filter_ConsD [OF w] have mem: "w \<in> set (wallets d)" "w_user w = u" by auto
  from assms(2) have dist: "distinct (map w_user (wallets d))" by (simp add: ledger_ok_def)
  have rows: "list_all (\<lambda>w. 0 \<le> w_balance w \<and> fits64 (w_balance w)) (wallets d')"
    using assms(2,3) d' fits by (auto simp: list_all_iff ledger_ok_def set_sql_update)
  have keys: "map w_user (wallets d') = map w_user (wallets d)" by (simp add: d')
  show "journal d' = journal d" "escrows d' = escrows d" using d' by simp_all
  with rows keys assms(2) show "ledger_ok d'" by (simp add: ledger_ok_def)
  show "w_user ` set (wallets d') = w_user ` set (wallets d)" using keys by (metis list.set_map)
  show "total_funds d' = total_funds d + amt"
    using sum_sql_update [OF dist mem(1,2), of w_balance ?f] d' by (simp add: total_funds_def)
  show "balance_of d u = Some (b - amt)"
    using balance_of_row [OF assms(2) mem(1)] mem b by simp
  show "balance_of d' = (balance_of d)(u \<mapsto> b)"
    using map_of_sql_update [OF mem(1) dist mem(2), of ?f w_balance] d' b
    by (simp add: balance_of_def)
qed

lemma record_tx_stmtE:
  assumes "record_tx_stmt i sid rid amt ty ref d = Inr (u, d')"
  shows "ledger_ok d \<Longrightarrow> ledger_ok d'" "total_funds d' = total_funds d" "balance_of d' = balance_of d"
    "escrows d' = escrows d" "wallets d' = wallets d"
    "journal d' = journal d @ [\<lparr>t_id = f_new_id i, t_sender = sid, t_receiver = rid, t_amount = amt,
       t_type = ty, t_status = ''completed'', t_reference = ref, t_created_at = f_now i\<rparr>]"
  using assms
  by (auto simp: record_tx_stmt_def sql_insert_def ledger_ok_def total_funds_def balance_of_def
           split: if_splits)

lemma settle_stmtE:
  assumes "settle_stmt now st eid d = Inr ((bu, se, amt), d')" and "ledger_ok d" and "st \<noteq> ''held''"
  shows "ledger_ok d'" "total_funds d' = total_funds d - amt" "0 < amt" "balance_of d' = balance_of d"
    "journal d' = journal d" "wallets d' = wallets d"
    "\<exists>e\<in>set (escrows d). e_id e = eid \<and> e_status e = ''held'' \<and> e_buyer e = bu \<and> e_seller e = se \<and>
       e_amount e = amt"
    "escrows d' = sql_update (\<lambda>e. e_id e = eid) (\<lambda>e. e\<lparr>e_status := st, e_updated_at := now\<rparr>) (escrows d)"
proof -
  let ?f = "\<lambda>e. e\<lparr>e_status := st, e_updated_at := now\<rparr>"
  let ?P = "\<lambda>e. e_id e = eid \<and> e_status e = ''held''"
  from assms(1) obtain e es where e: "filter ?P (escrows d) = e # es"
    and v: "bu = e_buyer e" "se = e_seller e" "amt = e_amount e"
    and d': "d' = d\<lparr>escrows := sql_update ?P ?f (escrows d)\<rparr>"
    by (auto simp: settle_stmt_def Let_def split: list.splits)
  from filter_ConsD [OF e] have mem: "e \<in> set (escrows d)" "e_id e = eid" "e_status e = ''held''"
    by auto
  from assms(2) have dist: "distinct (map e_id (escrows d))" by (simp add: ledger_ok_def)
  have upd: "escrows d' = sql_update (\<lambda>e. e_id e = eid) ?f (escrows d)"
    using sql_update_guard_unique [OF dist mem(1,2), of "\<lambda>e. e_status e = ''held''"] mem(3) d' by simp
  then show "escrows d' = sql_update (\<lambda>e. e_id e = eid) ?f (escrows d)" .
  show "journal d' = journal d" "wallets d' = wallets d" "balance_of d' = balance_of d"
    using d' by (simp_all add: balance_of_def)
  show "0 < amt" using assms(2) mem v by (auto simp: ledger_ok_def list_all_iff)
  have "list_all (\<lambda>e. 0 < e_amount e \<and> fits32 (e_amount e)) (escrows d')"
    using assms(2) upd by (auto simp: ledger_ok_def list_all_iff set_sql_update)
  moreover have "map e_id (escrows d') = map e_id (escrows d)" by (simp add: upd)
  ultimately show "ledger_ok d'" using assms(2) d' by (simp add: ledger_ok_def)
  have "held (?f e) = 0" using assms(3) by (simp add: held_def)
  then show "total_funds d' = total_funds d - amt"
    using sum_sql_update [OF dist mem(1,2), of held ?f] upd d' mem v
    by (simp add: total_funds_def held_def)
  show "\<exists>e\<in>set (escrows d). e_id e = eid \<and> e_status e = ''held'' \<and> e_buyer e = bu \<and> e_seller e = se \<and>
       e_amount e = amt" using mem v by blast
qed

lemma insert_escrow_stmtE:
  assumes "insert_escrow_stmt i bid sid amt desc rel d = Inr (e, d')"
  shows "ledger_ok d \<Longrightarrow> 0 < amt \<Longrightarrow> fits32 amt \<Longrightarrow> ledger_ok d'" "total_funds d' = total_funds d + amt"
    "balance_of d' = balance_of d" "escrows d' = escrows d @ [e]" "wallets d' = wallets d"
    "journal d' = journal d"
    "e_id e = f_new_id i" "e_buyer e = bid" "e_seller e = sid" "e_amount e = amt" "e_status e = ''held''"
  using assms
  by (auto simp: insert_escrow_stmt_def sql_insert_def ledger_ok_def total_funds_def balance_of_def
                 held_def Let_def split: if_splits)


section \<open>What a committed transaction does\<close>

lemma transfer_tablesE:
  assumes "transfer_tables i sid rid a ty ref d = Inr (u, d')" and "ledger_ok d" and "0 < a"
  shows "ledger_ok d'" "total_funds d' = total_funds d" "escrows d' = escrows d"
    "journal d' = journal d @ [\<lparr>t_id = f_new_id i, t_sender = sid, t_receiver = rid, t_amount = a,
       t_type = ty, t_status = ''completed'', t_reference = ref, t_created_at = f_now i\<rparr>]"
    "\<exists>x y. balance_of d sid = Some x \<and> a \<le> x \<and> ((balance_of d)(sid \<mapsto> x - a)) rid = Some y \<and>
       balance_of d' = (balance_of d)(sid \<mapsto> x - a, rid \<mapsto> y + a)"
proof -
  from assms(1) obtain b1 d1 b2 d2 where
    s1: "debit_stmt (f_now i) sid a d = Inr (b1, d1)" and
    s2: "credit_stmt (f_now i) rid a d1 = Inr (b2, d2)" and
    s3: "record_tx_stmt i sid rid a ty ref d2 = Inr ((), d')"
    by (auto simp: transfer_tables_def sql_monad split: sum.splits prod.splits)
  note d = debit_stmtE [OF s1 assms(2) less_imp_le [OF assms(3)]]
  note c = credit_stmtE [OF s2 d(1) less_imp_le [OF assms(3)]]
  note r = record_tx_stmtE [OF s3]
  show "ledger_ok d'" using r(1) c(1) by simp
  show "total_funds d' = total_funds d" using d(2) c(2) r(2) by simp
  show "escrows d' = escrows d" using d(7) c(6) r(4) by simp
  show "journal d' = journal d @ [\<lparr>t_id = f_new_id i, t_sender = sid, t_receiver = rid, t_amount = a,
       t_type = ty, t_status = ''completed'', t_reference = ref, t_created_at = f_now i\<rparr>]"
    using d(6) c(5) r(6) by simp
  have "balance_of d sid = Some (b1 + a)" "a \<le> b1 + a" using d(3,4) by simp_all
  moreover have "((balance_of d)(sid \<mapsto> b1)) rid = Some (b2 - a)" using c(3) d(5) by simp
  moreover have "balance_of d' = (balance_of d)(sid \<mapsto> b1, rid \<mapsto> b2)" using d(5) c(4) r(3) by simp
  ultimately show "\<exists>x y. balance_of d sid = Some x \<and> a \<le> x \<and>
      ((balance_of d)(sid \<mapsto> x - a)) rid = Some y \<and>
      balance_of d' = (balance_of d)(sid \<mapsto> x - a, rid \<mapsto> y + a)" by auto
qed

lemma create_escrow_tablesE:
  assumes "create_escrow_tables i bid sid a desc rel d = Inr (e, d')" and "ledger_ok d" and "0 < a"
    and "fits32 a"
  shows "ledger_ok d'" "total_funds d' = total_funds d" "escrows d' = escrows d @ [e]"
    "journal d' = journal d" "e_id e = f_new_id i" "e_status e = ''held''" "e_amount e = a"
    "e_buyer e = bid" "e_seller e = sid"
    "\<exists>x. balance_of d bid = Some x \<and> a \<le> x \<and> balance_of d' = (balance_of d)(bid \<mapsto> x - a)"
    "f_new_id i \<notin> e_id ` set (escrows d)"
proof -
  from assms(1) obtain b1 d1 where
    s1: "debit_stmt (f_now i) bid a d = Inr (b1, d1)" and
    s2: "insert_escrow_stmt i bid sid a desc rel d1 = Inr (e, d')"
    by (auto simp: create_escrow_tables_def sql_monad split: sum.splits prod.splits)
  note d = debit_stmtE [OF s1 assms(2) less_imp_le [OF assms(3)]]
  note n = insert_escrow_stmtE [OF s2]
  show "ledger_ok d'" using n(1) d(1) assms(3,4) by simp
  show "total_funds d' = total_funds d" using d(2) n(2) by simp
  show "escrows d' = escrows d @ [e]" "journal d' = journal d" using d(6,7) n(4,6) by simp_all
  show "e_id e = f_new_id i" "e_status e = ''held''" "e_amount e = a" "e_buyer e = bid"
    "e_seller e = sid" using n(7-11) by simp_all
  show "\<exists>x. balance_of d bid = Some x \<and> a \<le> x \<and> balance_of d' = (balance_of d)(bid \<mapsto> x - a)"
    using d(3,4,5) n(3) by auto
  from s2 d(7) show "f_new_id i \<notin> e_id ` set (escrows d)"
    by (auto simp: insert_escrow_stmt_def sql_insert_def Let_def split: if_splits)
qed

text \<open>
  Release and refund share their effect: the escrow leaves the held state and its amount is
  credited to one of its parties.
\<close>

definition settled :: "fin_input \<Rightarrow> string \<Rightarrow> string \<Rightarrow> string \<Rightarrow> uuid \<Rightarrow> (escrow_row \<Rightarrow> uuid) \<Rightarrow>
    finance_db \<Rightarrow> finance_db \<Rightarrow> bool" where
  "settled i st ty ref eid payee d d' \<longleftrightarrow>
     (\<exists>e\<in>set (escrows d). e_id e = eid \<and> e_status e = ''held'' \<and> 0 < e_amount e \<and>
        (\<exists>y. balance_of d (payee e) = Some y \<and>
             balance_of d' = (balance_of d)(payee e \<mapsto> y + e_amount e))) \<and>
     escrows d' = sql_update (\<lambda>e. e_id e = eid) (\<lambda>e. e\<lparr>e_status := st, e_updated_at := f_now i\<rparr>)
                    (escrows d) \<and>
     (\<exists>t. journal d' = journal d @ [t] \<and> t_type t = ty \<and> t_reference t = ref)"

lemma settle_tablesE:
  assumes s1: "settle_stmt (f_now i) st eid d = Inr ((bu, se, a), d1)"
    and s2: "credit_stmt (f_now i) p a d1 = Inr (b2, d2)"
    and s3: "record_tx_stmt i x y a ty ref d2 = Inr ((), d')"
    and p: "p = (if to_seller then se else bu)"
    and ok: "ledger_ok d" and st: "st \<noteq> ''held''"
  shows "ledger_ok d' \<and> total_funds d' = total_funds d \<and>
    settled i st ty ref eid (if to_seller then e_seller else e_buyer) d d'"
proof -
  note s = settle_stmtE [OF s1 ok st]
  note c = credit_stmtE [OF s2 s(1) less_imp_le [OF s(3)]]
  note r = record_tx_stmtE [OF s3]
  from s(7) obtain e where e: "e \<in> set (escrows d)" "e_id e = eid" "e_status e = ''held''"
    "e_buyer e = bu" "e_seller e = se" "e_amount e = a" by blast
  have p': "(if to_seller then e_seller else e_buyer) e = p" using e p by simp
  have "balance_of d p = Some (b2 - a)" "balance_of d' = (balance_of d)(p \<mapsto> b2)"
    using c(3,4) s(4) r(3) by simp_all
  then have bal: "\<exists>y. balance_of d p = Some y \<and> balance_of d' = (balance_of d)(p \<mapsto> y + e_amount e)"
    using e by auto
  have "ledger_ok d'" "total_funds d' = total_funds d"
    using r(1,2) c(1,2) s(2) by simp_all
  moreover have "escrows d' = sql_update (\<lambda>e. e_id e = eid)
      (\<lambda>e. e\<lparr>e_status := st, e_updated_at := f_now i\<rparr>) (escrows d)"
    using r(4) c(6) s(8) by simp
  moreover have "\<exists>t. journal d' = journal d @ [t] \<and> t_type t = ty \<and> t_reference t = ref"
    using r(6) c(5) s(5) by simp
  ultimately show ?thesis
    unfolding settled_def using e bal p' s(3) by metis
qed

lemma release_tablesE:
  assumes "release_tables i x eid d = Inr (u, d')" and "ledger_ok d"
  shows "ledger_ok d' \<and> total_funds d' = total_funds d \<and>
    settled i ''released'' ''escrow_release'' x eid e_seller d d'"
proof -
  from assms(1) obtain bu se a d1 b2 d2 where
    "settle_stmt (f_now i) ''released'' eid d = Inr ((bu, se, a), d1)"
    "credit_stmt (f_now i) se a d1 = Inr (b2, d2)"
    "record_tx_stmt i bu se a ''escrow_release'' x d2 = Inr ((), d')"
    by (auto simp: release_tables_def sql_monad split: sum.splits prod.splits)
  from settle_tablesE [OF this, of True] assms(2) show ?thesis by simp
qed

lemma refund_tablesE:
  assumes "refund_tables i x eid d = Inr (u, d')" and "ledger_ok d"
  shows "ledger_ok d' \<and> total_funds d' = total_funds d \<and>
    settled i ''refunded'' ''escrow_refund'' x eid e_buyer d d'"
proof -
  from assms(1) obtain bu se a d1 b2 d2 where
    "settle_stmt (f_now i) ''refunded'' eid d = Inr ((bu, se, a), d1)"
    "credit_stmt (f_now i) bu a d1 = Inr (b2, d2)"
    "record_tx_stmt i se bu a ''escrow_refund'' x d2 = Inr ((), d')"
    by (auto simp: refund_tables_def sql_monad split: sum.splits prod.splits)
  from settle_tablesE [OF this, of False] assms(2) show ?thesis by simp
qed


section \<open>Runs of the service\<close>

text \<open>
  The requests of the finance routes, in any order, each with its own input and its own outcomes
  of the driver calls.
\<close>

datatype fin_call =
    TransferReq string "(string \<times> int) option"
  | TipReq string "(string \<times> int) option"
  | UnlockReq string "(string \<times> int) option"
  | CreateEscrowReq string "(string \<times> int \<times> string) option"
  | ReleaseReq string string
  | RefundReq string string
  | BalanceReq string
  | EscrowReq string string
  | HistoryReq string int int

fun handle_call ::
  "fin_env \<Rightarrow> (string \<Rightarrow> string option res) \<Rightarrow> fin_input \<Rightarrow> fin_call \<Rightarrow>
   (finance_db, int \<times> fin_body) dbm" where
  "handle_call env gs i (TransferReq u r) = handle_Transfer env i u r"
| "handle_call env gs i (TipReq u r) = handle_Tip env i u r"
| "handle_call env gs i (UnlockReq u r) = handle_UnlockContent env gs i u r"
| "handle_call env gs i (CreateEscrowReq u r) = handle_CreateEscrow env i u r"
| "handle_call env gs i (ReleaseReq u x) = handle_ReleaseEscrow env i u x"
| "handle_call env gs i (RefundReq u x) = handle_RefundEscrow env i u x"
| "handle_call env gs i (BalanceReq u) = handle_GetBalance env u"
| "handle_call env gs i (EscrowReq u x) = handle_GetEscrow env u x"
| "handle_call env gs i (HistoryReq u p l) = handle_GetTransactions env u p l"

fun run_calls ::
  "fin_env \<Rightarrow> (string \<Rightarrow> string option res) \<Rightarrow> (fin_input \<times> outcome list \<times> fin_call) list \<Rightarrow>
   finance_db session \<Rightarrow> finance_db session" where
  "run_calls env gs [] s = s"
| "run_calls env gs ((i, outs, c) # cs) s =
     run_calls env gs cs (snd (handle_call env gs i c (s\<lparr>outcomes := outs\<rparr>)))"

lemma keeps_answer: "keeps I m \<Longrightarrow> keeps I (answer m e f)"
  by (auto simp: keeps_def answer_def split: prod.splits sum.splits)

lemma reads_select: "reads (select_escrow_stmt e)" "reads (select_wallet_stmt u)"
  "reads (select_transactions_stmt u l off)"
  by (auto simp: reads_def select_escrow_stmt_def select_wallet_stmt_def
                 select_transactions_stmt_def split: list.splits sum.splits)

lemmas handler_defs = handle_Transfer_def handle_Tip_def handle_UnlockContent_def
  handle_CreateEscrow_def handle_ReleaseEscrow_def handle_RefundEscrow_def handle_GetBalance_def
  handle_GetEscrow_def handle_GetTransactions_def respond_def

lemmas service_defs = TransferFunds_def TipUser_def UnlockContent_def InitiateEscrow_def
  ReleaseEscrow_def RefundEscrow_def GetBalance_def GetUserTransactions_def repo_GetEscrow_def
  repo_GetWallet_def Let_def

text \<open>
  A property of the tables that the four transactions keep is kept by every request; the
  transactions are only reached with a positive amount.
\<close>

lemma keeps_handle_call:
  assumes "\<And>i sid rid a ty ref d d'. I d \<Longrightarrow> 0 < a \<Longrightarrow> ty \<in> {''transfer'', ''tip'', ''unlock''} \<Longrightarrow>
             transfer_tables i sid rid a ty ref d = Inr ((), d') \<Longrightarrow> I d'"
    and "\<And>i bid sid a desc rel e d d'. I d \<Longrightarrow> 0 < a \<Longrightarrow> fits32 a \<Longrightarrow>
             create_escrow_tables i bid sid a desc rel d = Inr (e, d') \<Longrightarrow> I d'"
    and "\<And>i x eid d d'. I d \<Longrightarrow> parseFinanceUUID env x = Inr eid \<Longrightarrow>
             release_tables i x eid d = Inr ((), d') \<Longrightarrow> I d'"
    and "\<And>i x eid d d'. I d \<Longrightarrow> parseFinanceUUID env x = Inr eid \<Longrightarrow>
             refund_tables i x eid d = Inr ((), d') \<Longrightarrow> I d'"
  shows "keeps I (handle_call env gs i c)"
proof -
  have t: "keeps I (Transfer env i s r a ty et ei)" if "ty \<in> {''transfer'', ''tip'', ''unlock''}"
    for s r a ty et ei
    by (rule transfer.keeps_run)
      (auto simp: Transfer_spec_def sfail_def not_le split: if_splits sum.splits
            intro: assms(1) [OF _ _ that])
  have c: "keeps I (CreateEscrow env i e)" for e
    by (rule create_escrow.keeps_run)
      (auto simp: CreateEscrow_spec_def sfail_def toDBAmount_def fits32_def not_less not_le
            split: if_splits sum.splits intro: assms(2))
  have r: "keeps I (repo_ReleaseEscrow env i x)" for x
    by (rule release.keeps_run)
      (auto simp: settle_spec_def sfail_def split: if_splits sum.splits intro: assms(3))
  have f: "keeps I (repo_RefundEscrow env i x)" for x
    by (rule refund.keeps_run)
      (auto simp: settle_spec_def sfail_def split: if_splits sum.splits intro: assms(4))
  show ?thesis
    by (cases c)
      (auto simp: handler_defs service_defs split: option.splits
            intro!: keeps_intros keeps_answer t c r f reads_select)
qed

lemma keeps_run_calls:
  assumes "\<And>i c. keeps I (handle_call env gs i c)" and "I (durable s)"
  shows "I (durable (run_calls env gs cs s))"
  using assms(2)
proof (induction cs arbitrary: s)
  case (Cons x cs)
  obtain i outs c where x: "x = (i, outs, c)" by (cases x)
  have "I (durable (snd (handle_call env gs i c (s\<lparr>outcomes := outs\<rparr>))))"
    using keepsD [OF assms(1)] Cons.prems by simp
  then show ?case using x Cons.IH by simp
qed simp


section \<open>Each escrow is paid out once\<close>

definition pays :: "fin_env \<Rightarrow> uuid \<Rightarrow> tx_row \<Rightarrow> bool" where
  "pays env eid t \<longleftrightarrow> (t_type t = ''escrow_release'' \<or> t_type t = ''escrow_refund'') \<and>
     parseFinanceUUID env (t_reference t) = Inr eid"

definition payouts :: "fin_env \<Rightarrow> finance_db \<Rightarrow> uuid \<Rightarrow> nat" where
  "payouts env d eid = length (filter (pays env eid) (journal d))"

definition paid_once :: "fin_env \<Rightarrow> finance_db \<Rightarrow> bool" where
  "paid_once env d \<longleftrightarrow> ledger_ok d \<and>
     (\<forall>e\<in>set (escrows d). payouts env d (e_id e) = (if e_status e = ''held'' then 0 else 1)) \<and>
     (\<forall>x. x \<notin> e_id ` set (escrows d) \<longrightarrow> payouts env d x = 0)"

lemma paid_once_bound: "paid_once env d \<Longrightarrow> payouts env d x \<le> 1"
  by (cases "x \<in> e_id ` set (escrows d)") (auto simp: paid_once_def)

lemma paid_once_settled:
  assumes inv: "paid_once env d" and set: "settled i st ty x eid payee d d'" and ok: "ledger_ok d'"
    and st: "st \<noteq> ''held''" and ty: "ty \<in> {''escrow_release'', ''escrow_refund''}"
    and x: "parseFinanceUUID env x = Inr eid"
  shows "paid_once env d'"
proof -
  let ?f = "\<lambda>e. e\<lparr>e_status := st, e_updated_at := f_now i\<rparr>"
  from set obtain t e where j: "journal d' = journal d @ [t]" "t_type t = ty" "t_reference t = x"
    and es: "escrows d' = sql_update (\<lambda>e. e_id e = eid) ?f (escrows d)"
    and e: "e \<in> set (escrows d)" "e_id e = eid" "e_status e = ''held''"
    by (auto simp: settled_def)
  have count: "payouts env d' y = payouts env d y + (if y = eid then 1 else 0)" for y
    using j ty x by (auto simp: payouts_def pays_def)
  have zero: "payouts env d eid = 0" using inv e by (auto simp: paid_once_def)
  have "map e_id (escrows d') = map e_id (escrows d)" by (simp add: es)
  then have ids: "e_id ` set (escrows d') = e_id ` set (escrows d)" by (metis list.set_map)
  have "payouts env d' (e_id r) = (if e_status r = ''held'' then 0 else 1)" if "r \<in> set (escrows d')" for r
    using that inv zero st by (auto simp: es set_sql_update count paid_once_def)
  moreover have "payouts env d' y = 0" if "y \<notin> e_id ` set (escrows d')" for y
    using that inv e ids by (auto simp: count paid_once_def)
  ultimately show ?thesis using ok by (simp add: paid_once_def)
qed

lemma paid_once_transfer:
  assumes "paid_once env d" and "transfer_tables i sid rid a ty ref d = Inr ((), d')" and "0 < a"
    and "ty \<in> {''transfer'', ''tip'', ''unlock''}"
  shows "paid_once env d'"
proof -
  from assms(1) have "ledger_ok d" by (simp add: paid_once_def)
  note t = transfer_tablesE [OF assms(2) this assms(3)]
  have "payouts env d' y = payouts env d y" for y
    using t(4) assms(4) by (auto simp: payouts_def pays_def)
  with t(1,3) assms(1) show ?thesis by (simp add: paid_once_def)
qed

lemma paid_once_create:
  assumes "paid_once env d" and "create_escrow_tables i bid sid a desc rel d = Inr (e, d')"
    and "0 < a" and "fits32 a"
  shows "paid_once env d'"
proof -
  from assms(1) have "ledger_ok d" by (simp add: paid_once_def)
  note c = create_escrow_tablesE [OF assms(2) this assms(3,4)]
  have "payouts env d' y = payouts env d y" for y
    using c(4) by (simp add: payouts_def)
  moreover from assms(1) c(11) have "payouts env d (f_new_id i) = 0" by (simp add: paid_once_def)
  ultimately show ?thesis using c(1,3,5,6) assms(1) by (auto simp: paid_once_def)
qed

lemma keeps_paid_once: "keeps (paid_once env) (handle_call env gs i c)"
proof (rule keeps_handle_call)
  fix i x eid d d'
  assume inv: "paid_once env d" and x: "parseFinanceUUID env x = Inr eid"
    and run: "release_tables i x eid d = Inr ((), d')"
  from inv have "ledger_ok d" by (simp add: paid_once_def)
  from release_tablesE [OF run this] paid_once_settled [OF inv _ _ _ _ x]
  show "paid_once env d'" by blast
next
  fix i x eid d d'
  assume inv: "paid_once env d" and x: "parseFinanceUUID env x = Inr eid"
    and run: "refund_tables i x eid d = Inr ((), d')"
  from inv have "ledger_ok d" by (simp add: paid_once_def)
  from refund_tablesE [OF run this] paid_once_settled [OF inv _ _ _ _ x]
  show "paid_once env d'" by blast
qed (blast intro: paid_once_transfer, blast intro: paid_once_create)

lemma keeps_ledger: "keeps (\<lambda>d. ledger_ok d \<and> total_funds d = m) (handle_call env gs i c)"
  by (rule keeps_handle_call)
    (auto dest: release_tablesE refund_tablesE transfer_tablesE(1,2) create_escrow_tablesE(1,2))

section \<open>Properties\<close>

text \<open>A concrete ledger and environment for the witnesses.\<close>

definition demo_env :: fin_env where
  "demo_env = \<lparr>scan_uuid = (\<lambda>s. if s = ''a'' then Inr 1 else if s = ''b'' then Inr 2
                           else if s = ''x'' then Inr 9 else Inl (Errorf ''uuid'')),
               show_uuid = (\<lambda>u. if u = 1 then ''a'' else if u = 2 then ''b'' else ''x''),
               pool_set = True\<rparr>"

definition demo_ledger :: finance_db where
  "demo_ledger = \<lparr>wallets = [\<lparr>w_user = 1, w_balance = 100, w_updated_at = 0\<rparr>,
                             \<lparr>w_user = 2, w_balance = 50, w_updated_at = 0\<rparr>],
                  journal = [],
                  escrows = [\<lparr>e_id = 9, e_buyer = 1, e_seller = 2, e_amount = 30,
                              e_status = ''held'', e_description = [], e_release_at = None,
                              e_created_at = 0, e_updated_at = 0\<rparr>]\<rparr>"

definition demo_session :: "finance_db session" where
  "demo_session = \<lparr>durable = demo_ledger, view = demo_ledger, aborted = False, outcomes = []\<rparr>"

lemma demo_ledger_ok: "ledger_ok demo_ledger" "total_funds demo_ledger = 180"
  by (simp_all add: ledger_ok_def demo_ledger_def total_funds_def held_def fits64_def fits32_def
                    int_bounds)

lemmas demo_eval = transfer_body_def driver_defs debit_stmt_def credit_stmt_def record_tx_stmt_def
  sql_update_def sql_insert_def fits64_def int_bounds no_rows_as_def demo_session_def
  demo_ledger_def demo_env_def parseFinanceUUID_def trim_space_plain plain_byte_def

lemma demo_paid_once: "paid_once demo_env demo_ledger"
  using demo_ledger_ok(1) by (simp add: paid_once_def payouts_def demo_ledger_def)

text \<open>
  C1. Conservation of funds. Whatever finance requests are served, in whatever order, with whatever
  driver calls failing or losing their acknowledgement, the sum of all wallet balances and of the
  amounts held in escrow stays the same, and no balance becomes negative or leaves the 64-bit range.
\<close>

theorem funds_conserved:
  assumes "ledger_ok (durable s)"
  shows "total_funds (durable (run_calls env gs cs s)) = total_funds (durable s) \<and>
         ledger_ok (durable (run_calls env gs cs s))"
  using keeps_run_calls [where I = "\<lambda>d. ledger_ok d \<and> total_funds d = total_funds (durable s)",
      OF keeps_ledger] assms by simp

theorem funds_conserved_witness:
  "total_funds (durable (run_calls demo_env (\<lambda>_. Inr None)
     [(\<lparr>f_now = 5, f_new_id = 77\<rparr>, [Fine, Fine, AckLost], TransferReq ''a'' (Some (''b'', 40))),
      (\<lparr>f_now = 6, f_new_id = 78\<rparr>, [Fine], ReleaseReq ''a'' ''x'')] demo_session)) = 180"
proof -
  have "ledger_ok (durable demo_session)" by (simp add: demo_session_def demo_ledger_ok)
  from funds_conserved [OF this] have "total_funds (durable (run_calls env gs cs demo_session)) = 180"
    for env gs cs by (simp add: demo_session_def demo_ledger_ok)
  then show ?thesis by blast
qed

text \<open>
  C2. An escrow is paid out at most once. Starting from a journal in which every settled escrow has
  exactly one payout entry and every held escrow none, no sequence of requests, with any failures,
  ever journals a second release or refund of the same escrow; a held escrow has been paid to no one.
\<close>

theorem escrow_paid_at_most_once:
  assumes "paid_once env (durable s)"
  shows "payouts env (durable (run_calls env gs cs s)) x \<le> 1 \<and>
         (\<forall>e\<in>set (escrows (durable (run_calls env gs cs s))).
            e_status e = ''held'' \<longleftrightarrow> payouts env (durable (run_calls env gs cs s)) (e_id e) = 0)"
proof -
  from keeps_run_calls [OF keeps_paid_once assms]
  have inv: "paid_once env (durable (run_calls env gs cs s))" .
  then show ?thesis using paid_once_bound [OF inv] by (auto simp: paid_once_def)
qed

theorem escrow_paid_at_most_once_witness:
  "payouts demo_env (durable (run_calls demo_env (\<lambda>_. Inr None)
     [(\<lparr>f_now = 6, f_new_id = 78\<rparr>, [], ReleaseReq ''a'' ''x''),
      (\<lparr>f_now = 7, f_new_id = 79\<rparr>, [], RefundReq ''b'' ''x'')] demo_session)) 9 \<le> 1"
proof -
  have "paid_once demo_env (durable demo_session)" by (simp add: demo_session_def demo_paid_once)
  from escrow_paid_at_most_once [OF this] show ?thesis by blast
qed

text \<open>
  C3. What a transfer does. A transfer that reports success has moved exactly its amount, which is
  positive and was covered by the sender's balance, from the sender's wallet to the receiver's, has
  changed no other balance, and has added exactly one entry to the journal.
\<close>

theorem transfer_moves_amount:
  assumes "Transfer env i sender receiver amount ty et ei s = (Inr (), s')"
    and "ledger_ok (durable s)"
  shows "\<exists>sid rid x y.
     parseFinanceUUID env sender = Inr sid \<and> parseFinanceUUID env receiver = Inr rid \<and>
     0 < amount \<and> amount \<le> x \<and> balance_of (durable s) sid = Some x \<and>
     ((balance_of (durable s))(sid \<mapsto> x - amount)) rid = Some y \<and>
     balance_of (durable s') = (balance_of (durable s))(sid \<mapsto> x - amount, rid \<mapsto> y + amount) \<and>
     (\<exists>t. journal (durable s') = journal (durable s) @ [t] \<and> t_sender t = sid \<and>
          t_receiver t = rid \<and> t_amount t = amount \<and> t_type t = ty)"
proof -
  from transfer.success [OF assms(1)]
  have "Transfer_spec env i sender receiver amount ty et ei (durable s) = Inr ((), durable s')" .
  then obtain sid rid where p: "parseFinanceUUID env sender = Inr sid"
      "parseFinanceUUID env receiver = Inr rid" and pos: "0 < amount"
    and run: "transfer_tables i sid rid amount ty (transactionReference et ei) (durable s)
                = Inr ((), durable s')"
    by (auto simp: Transfer_spec_def sfail_def not_le split: if_splits sum.splits)
  from transfer_tablesE(4,5) [OF run assms(2) pos] p pos show ?thesis by fastforce
qed

theorem transfer_moves_amount_witness:
  "\<exists>s'. Transfer demo_env \<lparr>f_now = 5, f_new_id = 77\<rparr> ''a'' ''b'' 40 ''transfer'' None None demo_session
          = (Inr (), s') \<and>
        balance_of (durable s') = (balance_of demo_ledger)(1 \<mapsto> 60, 2 \<mapsto> 90)"
proof -
  have parse: "parseFinanceUUID demo_env ''a'' = Inr 1" "parseFinanceUUID demo_env ''b'' = Inr 2"
    by (simp_all add: parseFinanceUUID_def demo_env_def trim_space_plain plain_byte_def)
  have bal: "balance_of demo_ledger 1 = Some 100" "balance_of demo_ledger 2 = Some 50"
    by (simp_all add: balance_of_def demo_ledger_def)
  have "fst (Transfer demo_env \<lparr>f_now = 5, f_new_id = 77\<rparr> ''a'' ''b'' 40 ''transfer'' None None
      demo_session) = Inr ()"
    by (simp add: Transfer_def demo_eval)
  then obtain s' where run: "Transfer demo_env \<lparr>f_now = 5, f_new_id = 77\<rparr> ''a'' ''b'' 40 ''transfer''
      None None demo_session = (Inr (), s')" by (metis prod.collapse)
  have "ledger_ok (durable demo_session)" by (simp add: demo_session_def demo_ledger_ok)
  from transfer_moves_amount [OF run this] parse bal run show ?thesis
    by (auto simp: demo_session_def)
qed

text \<open>
  C4. A transfer is all or nothing. When it reports an error, the database is unchanged, unless only
  the acknowledgement of the commit was lost, in which case the whole transfer is there; over a
  reliable connection an error always means that nothing changed.
\<close>

theorem transfer_all_or_nothing:
  assumes "Transfer env i sender receiver amount ty et ei s = (Inl e, s')"
  shows "(durable s' = durable s \<or>
          Transfer_spec env i sender receiver amount ty et ei (durable s) = Inr ((), durable s')) \<and>
         (outcomes s = [] \<longrightarrow> durable s' = durable s)"
proof -
  have "durable s' = durable s \<or>
          Transfer_spec env i sender receiver amount ty et ei (durable s) = Inr ((), durable s')"
    using transfer.failure [OF assms] by auto
  moreover have "durable s' = durable s" if "outcomes s = []"
  proof (cases "Transfer_spec env i sender receiver amount ty et ei (durable s)")
    case (Inl e')
    from transfer.reliable_err [OF that Inl] assms show ?thesis by simp
  next
    case (Inr x)
    then obtain d where "Transfer_spec env i sender receiver amount ty et ei (durable s) = Inr ((), d)"
      by (cases x) auto
    from transfer.reliable_ok [OF that this] assms show ?thesis by simp
  qed
  ultimately show ?thesis by blast
qed

theorem transfer_all_or_nothing_witness:
  "\<exists>e s'. Transfer demo_env \<lparr>f_now = 5, f_new_id = 77\<rparr> ''a'' ''b'' 400 ''tip'' None None demo_session
            = (Inl e, s') \<and> durable s' = demo_ledger"
proof -
  have "\<not> is_ok (fst (Transfer demo_env \<lparr>f_now = 5, f_new_id = 77\<rparr> ''a'' ''b'' 400 ''tip'' None None
      demo_session))"
    by (simp add: Transfer_def demo_eval)
  then obtain e s' where run: "Transfer demo_env \<lparr>f_now = 5, f_new_id = 77\<rparr> ''a'' ''b'' 400 ''tip''
      None None demo_session = (Inl e, s')" by (metis is_ok_simps(2) prod.collapse sumE)
  from transfer_all_or_nothing [OF run] run show ?thesis by (auto simp: demo_session_def)
qed

text \<open>
  Who may release an escrow. A release request changes the database only when the escrow exists,
  is held, and the caller is its buyer; anyone else gets an error answer and nothing changes.
\<close>

theorem release_only_by_buyer:
  assumes "handle_ReleaseEscrow env i user x s = (r, s')" and "durable s' \<noteq> durable s"
  shows "\<exists>eid e. scan_uuid env x = Inr eid \<and> e \<in> set (escrows (durable s)) \<and> e_id e = eid \<and>
            e_status e = ''held'' \<and> show_uuid env (e_buyer e) = user"
proof -
  obtain r1 s1 where get: "repo_GetEscrow env x s = (r1, s1)" by fastforce
  have same: "durable s1 = durable s"
  proof -
    have "keeps (\<lambda>d. d = durable s) (repo_GetEscrow env x)"
      unfolding repo_GetEscrow_def by (intro keeps_intros reads_select)
    from keepsD [OF this refl] get show ?thesis by simp
  qed
  from assms get same obtain rec where r1: "r1 = Inr rec" and "BuyerID rec = user"
    and "Status rec = ''held''"
    by (auto simp: handle_ReleaseEscrow_def answer_def ReleaseEscrow_def dbind_def dfail_def
        split: sum.splits prod.splits if_splits)
  then show ?thesis
    using get
    by (auto simp: repo_GetEscrow_def dbind_def dreturn_def dfail_def autocommit_def
        next_outcome_def select_escrow_stmt_def
        split: sum.splits prod.splits if_splits outcome.splits list.splits dest!: filter_ConsD)
qed

theorem release_only_by_buyer_witness:
  "\<exists>r s'. handle_ReleaseEscrow demo_env \<lparr>f_now = 6, f_new_id = 78\<rparr> ''a'' ''x'' demo_session = (r, s') \<and>
      durable s' \<noteq> demo_ledger"
proof -
  have ch: "durable (snd (handle_ReleaseEscrow demo_env \<lparr>f_now = 6, f_new_id = 78\<rparr> ''a'' ''x''
      demo_session)) \<noteq> demo_ledger"
    by (simp add: handle_ReleaseEscrow_def answer_def ReleaseEscrow_def repo_GetEscrow_def
        select_escrow_stmt_def repo_ReleaseEscrow_def release_body_def settle_stmt_def
        filled_escrow_def demo_eval)
  obtain r s' where run: "handle_ReleaseEscrow demo_env \<lparr>f_now = 6, f_new_id = 78\<rparr> ''a'' ''x''
      demo_session = (r, s')" by fastforce
  with ch have ne: "durable s' \<noteq> durable demo_session" by (simp add: demo_session_def)
  from release_only_by_buyer [OF run ne] run ne show ?thesis by (auto simp: demo_session_def)
qed

end
