(* ===== verification/LruCache.thy ===== *)
theory LruCache
  imports Prelude "HOL-Library.Multiset"
begin

text \<open>
  The in-process cache \<open>LRUCache\<close> of \<open>core/util/lru_cache.go\<close>: a map from keys to elements of a
  doubly linked list. The list is the sequence of its element addresses from front to back, and the
  entries live in a store indexed by address, since map and list share the elements. Every method
  holds the mutex for its whole body, so a concurrent history is a sequence of whole operations.
  The locale \<open>cache\<close> is the contract that the users of the cache rest on.
\<close>

section \<open>State and operations\<close>

record ('k, 'v) lru =
  capacity :: int
  cache :: "'k \<rightharpoonup> nat"
  order :: "nat list"
  elems :: "nat \<rightharpoonup> 'k \<times> 'v"
  next_elem :: nat

definition NewLRUCache :: "int \<Rightarrow> ('k, 'v) lru" where
  "NewLRUCache n = \<lparr>capacity = n, cache = Map.empty, order = [], elems = Map.empty, next_elem = 0\<rparr>"

definition moveToFront :: "nat \<Rightarrow> ('k, 'v) lru \<Rightarrow> ('k, 'v) lru" where
  "moveToFront e c = c\<lparr>order := e # remove1 e (order c)\<rparr>"

definition removeOldest :: "('k, 'v) lru \<Rightarrow> ('k, 'v) lru" where
  "removeOldest c =
     (if order c = [] then c
      else (let e = last (order c); c' = c\<lparr>order := butlast (order c)\<rparr>
            in case elems c e of
                 None \<Rightarrow> c'
               | Some (k, _) \<Rightarrow> c'\<lparr>cache := (cache c)(k := None)\<rparr>))"

definition Get :: "'k \<Rightarrow> ('k, 'v) lru \<Rightarrow> 'v option \<times> ('k, 'v) lru" where
  "Get k c =
     (case cache c k of
        None \<Rightarrow> (None, c)
      | Some e \<Rightarrow> (map_option snd (elems c e), moveToFront e c))"

definition Put :: "'k \<Rightarrow> 'v \<Rightarrow> ('k, 'v) lru \<Rightarrow> ('k, 'v) lru" where
  "Put k v c =
     (case cache c k of
        Some e \<Rightarrow>
          (let c' = moveToFront e c
           in c'\<lparr>elems := (elems c')(e := map_option (\<lambda>p. (fst p, v)) (elems c' e))\<rparr>)
      | None \<Rightarrow>
          (let c' = (if capacity c \<le> int (length (order c)) then removeOldest c else c);
               e = next_elem c'
           in c'\<lparr>order := e # order c', elems := (elems c')(e \<mapsto> (k, v)),
                 cache := (cache c')(k \<mapsto> e), next_elem := Suc e\<rparr>))"

definition Clear :: "('k, 'v) lru \<Rightarrow> ('k, 'v) lru" where
  "Clear c = c\<lparr>cache := Map.empty, order := []\<rparr>"

section \<open>Invariant and abstraction\<close>

text \<open>The entries from the most to the least recently used.\<close>

definition entries :: "('k, 'v) lru \<Rightarrow> ('k \<times> 'v) list" where
  "entries c = map (\<lambda>e. the (elems c e)) (order c)"

definition lru_ok :: "('k, 'v) lru \<Rightarrow> bool" where
  "lru_ok c \<longleftrightarrow>
     distinct (order c) \<and>
     (\<forall>e\<in>set (order c). e < next_elem c \<and> (\<exists>k v. elems c e = Some (k, v) \<and> cache c k = Some e)) \<and>
     (\<forall>k e. cache c k = Some e \<longrightarrow> e \<in> set (order c) \<and> (\<exists>v. elems c e = Some (k, v))) \<and>
     int (length (order c)) \<le> max 1 (capacity c)"

text \<open>The specification works on the list of entries alone.\<close>

definition touch :: "'k \<Rightarrow> 'v \<Rightarrow> ('k \<times> 'v) list \<Rightarrow> ('k \<times> 'v) list" where
  "touch k v es = (k, v) # filter (\<lambda>p. fst p \<noteq> k) es"

definition put_spec :: "int \<Rightarrow> 'k \<Rightarrow> 'v \<Rightarrow> ('k \<times> 'v) list \<Rightarrow> ('k \<times> 'v) list" where
  "put_spec n k v es =
     (if k \<in> fst ` set es then touch k v es
      else (k, v) # (if n \<le> int (length es) then butlast es else es))"

lemma lru_okD:
  assumes "lru_ok c"
  shows "distinct (order c)" "int (length (order c)) \<le> max 1 (capacity c)"
    and "e \<in> set (order c) \<Longrightarrow> e < next_elem c \<and> (\<exists>k v. elems c e = Some (k, v) \<and> cache c k = Some e)"
    and "cache c k = Some e \<Longrightarrow> e \<in> set (order c) \<and> (\<exists>v. elems c e = Some (k, v))"
  using assms by (auto simp: lru_ok_def)

lemma lru_okI:
  assumes "distinct (order c)" "int (length (order c)) \<le> max 1 (capacity c)"
    and "\<And>e. e \<in> set (order c) \<Longrightarrow> e < next_elem c"
    and "\<And>e. e \<in> set (order c) \<Longrightarrow> \<exists>k v. elems c e = Some (k, v) \<and> cache c k = Some e"
    and "\<And>k e. cache c k = Some e \<Longrightarrow> e \<in> set (order c) \<and> (\<exists>v. elems c e = Some (k, v))"
  shows "lru_ok c"
  using assms by (simp add: lru_ok_def)

lemma entries_keys:
  assumes "lru_ok c"
  shows "distinct (map fst (entries c))" "fst ` set (entries c) = dom (cache c)"
proof -
  have "inj_on (\<lambda>e. fst (the (elems c e))) (set (order c))"
  proof (rule inj_onI)
    fix x y
    assume "x \<in> set (order c)" "y \<in> set (order c)"
      and "fst (the (elems c x)) = fst (the (elems c y))"
    then show "x = y" using lru_okD(3) [OF assms, of x] lru_okD(3) [OF assms, of y] by auto
  qed
  then show "distinct (map fst (entries c))"
    using lru_okD(1) [OF assms] by (simp add: entries_def distinct_map comp_def)
  show "fst ` set (entries c) = dom (cache c)"
  proof (intro equalityI subsetI)
    fix k
    assume "k \<in> fst ` set (entries c)"
    then obtain e where "e \<in> set (order c)" "k = fst (the (elems c e))" by (auto simp: entries_def)
    then show "k \<in> dom (cache c)" using lru_okD(3) [OF assms, of e] by auto
  next
    fix k
    assume "k \<in> dom (cache c)"
    then obtain e where "cache c k = Some e" by auto
    from lru_okD(4) [OF assms this] obtain v where "e \<in> set (order c)" "elems c e = Some (k, v)" by auto
    then show "k \<in> fst ` set (entries c)"
      by (intro image_eqI [where x = "(k, v)"]) (auto simp: entries_def intro: image_eqI [where x = e])
  qed
qed

lemma map_of_entries:
  assumes "lru_ok c"
  shows "map_of (entries c) k = (case cache c k of None \<Rightarrow> None | Some e \<Rightarrow> map_option snd (elems c e))"
proof (cases "cache c k")
  case None
  then have "k \<notin> fst ` set (entries c)" using entries_keys(2) [OF assms] by auto
  with None show ?thesis by (simp add: map_of_eq_None_iff)
next
  case (Some e)
  with lru_okD(4) [OF assms this] obtain v where "e \<in> set (order c)" "elems c e = Some (k, v)" by auto
  moreover from this have "(k, v) \<in> set (entries c)" by (force simp: entries_def)
  ultimately show ?thesis
    using Some entries_keys(1) [OF assms] by simp
qed

lemma entries_move:
  assumes ok: "lru_ok c" and e: "cache c k = Some e" and v: "elems c e = Some (k, v)"
  shows "filter (\<lambda>p. fst p \<noteq> k) (entries c) = map (\<lambda>e. the (elems c e)) (remove1 e (order c))"
proof -
  have "e' = e \<longleftrightarrow> fst (the (elems c e')) = k" if "e' \<in> set (order c)" for e'
    using lru_okD(3) [OF ok that] e v by auto
  then have "filter (\<lambda>e'. fst (the (elems c e')) \<noteq> k) (order c) = filter (\<lambda>e'. e' \<noteq> e) (order c)"
    by (intro filter_cong) auto
  then show ?thesis
    using lru_okD(1) [OF ok] by (simp add: entries_def filter_map comp_def distinct_remove1_removeAll
        removeAll_filter_not_eq eq_commute [of e])
qed

lemma map_of_drop: "map_of (filter (\<lambda>p. fst p \<noteq> k) es) = (map_of es)(k := None)"
  by (induction es) (auto simp: fun_eq_iff)

lemma map_of_touch: "map_of (touch k v es) = (map_of es)(k \<mapsto> v)"
  by (simp add: touch_def map_of_drop)

lemma mset_touch: "distinct (map fst es) \<Longrightarrow> (k, v) \<in> set es \<Longrightarrow> mset (touch k v es) = mset es"
proof (induction es)
  case (Cons p es)
  show ?case
  proof (cases "p = (k, v)")
    case True
    with Cons.prems have "filter (\<lambda>q. fst q \<noteq> k) es = es" by (intro filter_True) force
    with True show ?thesis by (simp add: touch_def)
  next
    case False
    with Cons.prems have "(k, v) \<in> set es" "fst p \<noteq> k" by (auto intro: rev_image_eqI)
    moreover from this Cons have "mset (touch k v es) = mset es" by simp
    ultimately show ?thesis by (simp add: touch_def add_mset_commute)
  qed
qed simp

section \<open>The operations refine the specification\<close>

lemma capacity_ops [simp]:
  "capacity (moveToFront e c) = capacity c" "capacity (removeOldest c) = capacity c"
  "capacity (snd (Get k c)) = capacity c" "capacity (Put k v c) = capacity c"
  "capacity (Clear c) = capacity c"
proof -
  show mv: "capacity (moveToFront e c) = capacity c" for e by (simp add: moveToFront_def)
  show rm: "capacity (removeOldest c) = capacity c"
    by (simp add: removeOldest_def Let_def split: option.splits)
  show "capacity (snd (Get k c)) = capacity c" by (simp add: Get_def mv split: option.splits)
  show "capacity (Put k v c) = capacity c" by (simp add: Put_def Let_def mv rm split: option.splits)
  show "capacity (Clear c) = capacity c" by (simp add: Clear_def)
qed

lemma moveToFront_ok:
  assumes "lru_ok c" and "e \<in> set (order c)"
  shows "lru_ok (moveToFront e c)"
proof -
  have "set (e # remove1 e (order c)) = set (order c)"
    using assms(2) lru_okD(1) [OF assms(1)] by (auto simp: set_remove1_eq)
  moreover have "length (e # remove1 e (order c)) = length (order c)"
    using assms(2) length_pos_if_in_set [OF assms(2)] by (simp add: length_remove1)
  ultimately have "set (e # remove1 e (order c)) = set (order c)"
    "length (e # remove1 e (order c)) = length (order c)" by blast+
  then show ?thesis
    using assms by (simp add: lru_ok_def moveToFront_def)
qed

lemma Get_refines:
  assumes "lru_ok c"
  shows "lru_ok (snd (Get k c))" "fst (Get k c) = map_of (entries c) k"
    and "entries (snd (Get k c)) =
           (case map_of (entries c) k of None \<Rightarrow> entries c | Some v \<Rightarrow> touch k v (entries c))"
proof -
  show "fst (Get k c) = map_of (entries c) k"
    using assms by (simp add: map_of_entries Get_def split: option.splits)
  show "lru_ok (snd (Get k c))"
    using assms lru_okD(4) [OF assms] by (auto simp: Get_def moveToFront_ok split: option.splits)
  show "entries (snd (Get k c)) =
           (case map_of (entries c) k of None \<Rightarrow> entries c | Some v \<Rightarrow> touch k v (entries c))"
  proof (cases "cache c k")
    case None
    then show ?thesis using assms by (simp add: map_of_entries Get_def)
  next
    case (Some e)
    from lru_okD(4) [OF assms Some] obtain v where "elems c e = Some (k, v)" by auto
    with Some show ?thesis
      using assms entries_move [OF assms Some]
      by (simp add: map_of_entries Get_def touch_def) (simp add: entries_def moveToFront_def)
  qed
qed

lemma removeOldest_refines:
  assumes "lru_ok c"
  shows "entries (removeOldest c) = butlast (entries c)" "capacity (removeOldest c) = capacity c"
    and "length (order (removeOldest c)) = length (order c) - 1" "lru_ok (removeOldest c)"
    and "next_elem (removeOldest c) = next_elem c" "cache c k = None \<Longrightarrow> cache (removeOldest c) k = None"
proof -
  show "entries (removeOldest c) = butlast (entries c)" "capacity (removeOldest c) = capacity c"
    "length (order (removeOldest c)) = length (order c) - 1"
    "next_elem (removeOldest c) = next_elem c" "cache c k = None \<Longrightarrow> cache (removeOldest c) k = None"
    by (auto simp: removeOldest_def entries_def map_butlast Let_def split: option.splits)
  show "lru_ok (removeOldest c)"
  proof (cases "order c = []")
    case True
    with assms show ?thesis by (simp add: removeOldest_def)
  next
    case False
    define e where "e = last (order c)"
    with False have e: "e \<in> set (order c)" and split: "order c = butlast (order c) @ [e]" by simp_all
    from lru_okD(3) [OF assms e] obtain k v where kv: "elems c e = Some (k, v)" "cache c k = Some e" by auto
    have d: "distinct (butlast (order c))" "e \<notin> set (butlast (order c))"
      using lru_okD(1) [OF assms] split by (metis distinct_append, metis distinct_append disjoint_iff list.set_intros(1))
    have set: "e' \<in> set (order c) \<longleftrightarrow> e' = e \<or> e' \<in> set (butlast (order c))" for e'
      using split by (metis Un_iff empty_iff insert_iff list.set(1) list.set(2) set_append)
    have new: "removeOldest c = c\<lparr>order := butlast (order c), cache := (cache c)(k := None)\<rparr>"
      using False kv by (simp add: removeOldest_def e_def [symmetric])
    have other: "k' \<noteq> k" if "e' \<in> set (butlast (order c))" "cache c k' = Some e'" for k' e'
      using that kv d(2) by auto
    show ?thesis unfolding new
    proof (rule lru_okI, goal_cases)
      case 1 with d show ?case by simp
    next
      case 2 from lru_okD(2) [OF assms] show ?case by simp
    next
      case (3 e') with lru_okD(3) [OF assms, of e'] set show ?case by simp
    next
      case (4 e')
      then have e': "e' \<in> set (butlast (order c))" by simp
      with set lru_okD(3) [OF assms, of e'] obtain k' v' where "elems c e' = Some (k', v')" "cache c k' = Some e'"
        by auto
      with other [OF e'] show ?case by auto
    next
      case (5 k' e')
      then have "cache c k' = Some e'" "k' \<noteq> k" by (auto split: if_splits)
      moreover from this kv lru_okD(4) [OF assms this(1)] have "e' \<noteq> e" by auto
      ultimately show ?case using lru_okD(4) [OF assms, of k' e'] set by auto
    qed
  qed
qed

lemma Put_new:
  assumes ok: "lru_ok c" and new: "cache c k = None"
    and len: "int (length (order c)) < max 1 (capacity c)"
    and c': "c' = c\<lparr>order := next_elem c # order c, elems := (elems c)(next_elem c \<mapsto> (k, v)),
                     cache := (cache c)(k \<mapsto> next_elem c), next_elem := Suc (next_elem c)\<rparr>"
  shows "lru_ok c'" "entries c' = (k, v) # entries c"
proof -
  have fresh: "next_elem c \<notin> set (order c)" "e \<in> set (order c) \<Longrightarrow> e \<noteq> next_elem c" for e
    using lru_okD(3) [OF ok] by auto
  show "entries c' = (k, v) # entries c" using fresh by (auto simp: entries_def c')
  have "\<exists>k' v'. ((elems c)(next_elem c \<mapsto> (k, v))) e = Some (k', v') \<and>
                ((cache c)(k \<mapsto> next_elem c)) k' = Some e" if "e \<in> set (order c)" for e
    using lru_okD(3) [OF ok that] new fresh(2) [OF that] by (metis fun_upd_apply option.distinct(1))
  moreover have "e < Suc (next_elem c)" if "e \<in> set (order c)" for e
    using lru_okD(3) [OF ok that] by simp
  ultimately show "lru_ok c'"
    using lru_okD(1,4) [OF ok] fresh len by (auto simp: lru_ok_def c')
qed

lemma Put_refines:
  assumes ok: "lru_ok c"
  shows "lru_ok (Put k v c) \<and> entries (Put k v c) = put_spec (capacity c) k v (entries c)"
proof (cases "cache c k")
  case None
  let ?c = "if capacity c \<le> int (length (order c)) then removeOldest c else c"
  have len: "length (entries c) = length (order c)" by (simp add: entries_def)
  have c: "lru_ok ?c" "cache ?c k = None" using ok None removeOldest_refines [OF ok] by auto
  have "int (length (order ?c)) < max 1 (capacity ?c)"
    using lru_okD(2) [OF ok] removeOldest_refines(2,3) [OF ok] by auto
  from Put_new [OF c this refl] show ?thesis
    using None removeOldest_refines(1) [OF ok] entries_keys(2) [OF ok] len
    by (auto simp: Put_def put_spec_def Let_def)
next
  case (Some e)
  from lru_okD(4) [OF ok Some] obtain v0 where e: "e \<in> set (order c)" "elems c e = Some (k, v0)" by auto
  let ?c = "moveToFront e c"
  have ok': "lru_ok ?c" by (rule moveToFront_ok [OF ok e(1)])
  have put: "Put k v c = ?c\<lparr>elems := (elems ?c)(e \<mapsto> (k, v))\<rparr>"
    using Some e(2) by (simp add: Put_def moveToFront_def)
  have "lru_ok (Put k v c)"
    using ok' e(2) Some unfolding put lru_ok_def by (fastforce simp: moveToFront_def)
  moreover have "k \<in> fst ` set (entries c)" using entries_keys(2) [OF ok] Some by blast
  moreover have "e \<notin> set (remove1 e (order c))" using lru_okD(1) [OF ok] by simp
  then have "entries (Put k v c) = touch k v (entries c)"
    using entries_move [OF ok Some e(2)] unfolding put touch_def
    by (auto simp: entries_def moveToFront_def)
  ultimately show ?thesis by (simp add: put_spec_def)
qed

lemma New_ok: "lru_ok (NewLRUCache n)" "entries (NewLRUCache n) = []"
  by (simp_all add: lru_ok_def NewLRUCache_def entries_def)

lemma Clear_ok: "lru_ok c \<Longrightarrow> lru_ok (Clear c)" "entries (Clear c) = []"
  by (simp_all add: lru_ok_def Clear_def entries_def)

section \<open>The contract of a cache\<close>

text \<open>
  What the users rely on: a lookup does not change what is stored, an insertion stores the value and
  at most loses other keys, and clearing empties it.
\<close>

locale cache_contract =
  fixes get :: "'k \<Rightarrow> 's \<Rightarrow> 'v option \<times> 's" and put :: "'k \<Rightarrow> 'v \<Rightarrow> 's \<Rightarrow> 's" and clear :: "'s \<Rightarrow> 's"
    and ok :: "'s \<Rightarrow> bool" and stored :: "'s \<Rightarrow> 'k \<Rightarrow> 'v option"
  assumes ok_get: "ok s \<Longrightarrow> ok (snd (get k s))" and ok_put: "ok s \<Longrightarrow> ok (put k v s)"
    and ok_clear: "ok s \<Longrightarrow> ok (clear s)"
    and get_result: "ok s \<Longrightarrow> fst (get k s) = stored s k"
    and stored_get: "ok s \<Longrightarrow> stored (snd (get k s)) = stored s"
    and stored_put_same: "ok s \<Longrightarrow> stored (put k v s) k = Some v"
    and stored_put_other: "ok s \<Longrightarrow> k' \<noteq> k \<Longrightarrow> stored (put k v s) k' = Some w \<Longrightarrow> stored s k' = Some w"
    and stored_clear: "ok s \<Longrightarrow> stored (clear s) k = None"
begin

definition holds_all :: "('k \<Rightarrow> 'v \<Rightarrow> bool) \<Rightarrow> 's \<Rightarrow> bool" where
  "holds_all P s \<longleftrightarrow> ok s \<and> (\<forall>k v. stored s k = Some v \<longrightarrow> P k v)"

lemma holds_all_get: "holds_all P s \<Longrightarrow> holds_all P (snd (get k s))"
  by (simp add: holds_all_def ok_get stored_get)

lemma holds_all_hit: "holds_all P s \<Longrightarrow> fst (get k s) = Some v \<Longrightarrow> P k v"
  by (simp add: holds_all_def get_result)

lemma holds_all_put: "holds_all P s \<Longrightarrow> P k v \<Longrightarrow> holds_all P (put k v s)"
  unfolding holds_all_def using stored_put_same [of s k v] stored_put_other [of s _ k v]
  by (metis ok_put option.inject)

lemma holds_all_clear: "ok s \<Longrightarrow> holds_all P (clear s)"
  by (simp add: holds_all_def ok_clear stored_clear)

end

datatype ('k, 'v) cache_op = GetOp 'k | PutOp 'k 'v | ClearOp

text \<open>The value that a key holds after a history, were nothing ever evicted.\<close>

fun last_put :: "('k, 'v) cache_op list \<Rightarrow> ('k \<rightharpoonup> 'v) \<Rightarrow> 'k \<rightharpoonup> 'v" where
  "last_put [] m = m"
| "last_put (GetOp k # os) m = last_put os m"
| "last_put (PutOp k v # os) m = last_put os (m(k \<mapsto> v))"
| "last_put (ClearOp # os) m = last_put os Map.empty"

fun run_cache :: "('k, 'v) cache_op list \<Rightarrow> ('k, 'v) lru \<Rightarrow> ('k, 'v) lru" where
  "run_cache [] c = c"
| "run_cache (GetOp k # os) c = run_cache os (snd (Get k c))"
| "run_cache (PutOp k v # os) c = run_cache os (Put k v c)"
| "run_cache (ClearOp # os) c = run_cache os (Clear c)"

lemma map_of_butlast_SomeD: "distinct (map fst es) \<Longrightarrow> map_of (butlast es) k = Some v \<Longrightarrow> map_of es k = Some v"
  by (cases es rule: rev_cases) (auto simp: map_add_def split: option.splits)

interpretation lru: cache_contract Get Put Clear lru_ok "\<lambda>c. map_of (entries c)"
proof
  fix c :: "('k, 'v) lru" and k :: 'k and v :: 'v
  assume ok: "lru_ok c"
  note put = Put_refines [OF ok, of k v, THEN conjunct2]
  show "lru_ok (snd (Get k c))" "fst (Get k c) = map_of (entries c) k" by (rule Get_refines [OF ok])+
  show "lru_ok (Put k v c)" using Put_refines [OF ok, of k v] by simp
  show "map_of (entries (Put k v c)) k = Some v" by (simp add: put put_spec_def touch_def)
  show "lru_ok (Clear c)" using Clear_ok(1) [OF ok] .
  show "map_of (entries (Clear c)) k = None" by (simp add: Clear_ok)
  show "map_of (entries (snd (Get k c))) = map_of (entries c)"
    using Get_refines(3) [OF ok, of k] by (simp add: map_of_touch fun_upd_idem_iff split: option.splits)
next
  fix c :: "('k, 'v) lru" and k k' :: 'k and v w :: 'v
  assume ok: "lru_ok c" and "k' \<noteq> k" "map_of (entries (Put k v c)) k' = Some w"
  then have "map_of (put_spec (capacity c) k v (entries c)) k' = Some w"
    using Put_refines [OF ok, of k v] by simp
  with \<open>k' \<noteq> k\<close> show "map_of (entries c) k' = Some w"
    using map_of_butlast_SomeD [OF entries_keys(1) [OF ok]]
    by (auto simp: put_spec_def map_of_touch split: if_splits)
qed

lemma run_cache_invariant:
  assumes "lru_ok c" and "map_of (entries c) \<subseteq>\<^sub>m m"
  shows "lru_ok (run_cache os c) \<and> map_of (entries (run_cache os c)) \<subseteq>\<^sub>m last_put os m"
  using assms
proof (induction os c arbitrary: m rule: run_cache.induct)
  case (3 k v os c)
  have "map_of (entries (Put k v c)) \<subseteq>\<^sub>m m(k \<mapsto> v)"
    using 3(2,3) lru.stored_put_same lru.stored_put_other by (fastforce simp: map_le_def dom_def)
  with 3 show ?case by (simp add: lru.ok_put)
next
  case (4 os c)
  with Clear_ok [of c] show ?case by simp
qed (simp_all add: lru.ok_get lru.stored_get)

lemma run_cache_capacity: "capacity (run_cache os c) = capacity c"
  by (induction os c rule: run_cache.induct) simp_all

section \<open>Properties\<close>

text \<open>
  The cache never serves a wrong value and never outgrows its capacity: after any history of
  operations on a new cache, a hit returns the value last stored under that key since the last
  clear, and the cache holds at most its capacity (at least one) of entries.
\<close>

theorem cache_serves_last_put:
  "fst (Get k (run_cache os (NewLRUCache n))) = Some v \<Longrightarrow>
     last_put os Map.empty k = Some v \<and>
     int (length (entries (run_cache os (NewLRUCache n)))) \<le> max 1 n"
proof -
  assume hit: "fst (Get k (run_cache os (NewLRUCache n))) = Some v"
  from run_cache_invariant [OF New_ok(1), of n Map.empty os]
  have ok: "lru_ok (run_cache os (NewLRUCache n))"
    and le: "map_of (entries (run_cache os (NewLRUCache n))) \<subseteq>\<^sub>m last_put os Map.empty"
    by (simp_all add: New_ok)
  from hit le have "last_put os Map.empty k = Some v"
    by (simp add: Get_refines(2) [OF ok] map_le_def dom_def)
  moreover have "int (length (entries (run_cache os (NewLRUCache n)))) \<le> max 1 n"
    using lru_okD(2) [OF ok] run_cache_capacity [of os "NewLRUCache n"]
    by (simp add: entries_def) (simp add: NewLRUCache_def)
  ultimately show ?thesis by blast
qed

theorem cache_serves_last_put_witness:
  "last_put [PutOp ''a'' 1, PutOp ''b'' 2, GetOp ''a'', PutOp ''c'' (3::nat)] Map.empty ''a'' = Some 1"
proof -
  have "fst (Get ''a'' (run_cache [PutOp ''a'' 1, PutOp ''b'' 2, GetOp ''a'', PutOp ''c'' (3::nat)]
          (NewLRUCache 2))) = Some 1"
    by (simp add: NewLRUCache_def Put_def Get_def moveToFront_def removeOldest_def)
  from cache_serves_last_put [OF this] show ?thesis by blast
qed

text \<open>
  Eviction order. Storing a new key in a full cache drops exactly the entry whose last use lies
  furthest back and keeps all others, and a lookup makes its entry the most recently used one.
\<close>

theorem eviction_is_least_recently_used:
  assumes "lru_ok c" and "entries c = es @ [(k0, v0)]" and "int (length es) + 1 = capacity c"
    and "k \<notin> fst ` set (entries c)"
  shows "entries (Put k v c) = (k, v) # es \<and>
         (\<forall>k1 v1. (k1, v1) \<in> set es \<longrightarrow> hd (entries (snd (Get k1 c))) = (k1, v1) \<and>
                  mset (entries (snd (Get k1 c))) = mset (entries c))"
proof (intro conjI allI impI)
  show "entries (Put k v c) = (k, v) # es"
    using Put_refines [OF assms(1), of k v] assms(2-4) by (simp add: put_spec_def)
next
  fix k1 v1
  assume "(k1, v1) \<in> set es"
  with assms(2) have mem: "(k1, v1) \<in> set (entries c)" by simp
  with entries_keys(1) [OF assms(1)] have v1: "map_of (entries c) k1 = Some v1" by simp
  with Get_refines(3) [OF assms(1), of k1] have t: "entries (snd (Get k1 c)) = touch k1 v1 (entries c)" by simp
  then show "hd (entries (snd (Get k1 c))) = (k1, v1)" by (simp add: touch_def)
  show "mset (entries (snd (Get k1 c))) = mset (entries c)"
    unfolding t by (rule mset_touch [OF entries_keys(1) [OF assms(1)] mem])
qed

theorem eviction_is_least_recently_used_witness:
  "entries (Put ''c'' 3 (run_cache [PutOp ''a'' 1, PutOp ''b'' 2, GetOp ''a''] (NewLRUCache 2)))
     = [(''c'', 3), (''a'', 1::nat)]"
proof -
  let ?c = "run_cache [PutOp ''a'' 1, PutOp ''b'' (2::nat), GetOp ''a''] (NewLRUCache 2)"
  have "lru_ok ?c" by (simp add: lru.ok_get lru.ok_put New_ok)
  moreover have "entries ?c = [(''a'', 1)] @ [(''b'', 2)]" "capacity ?c = 2"
    by (simp_all add: NewLRUCache_def Put_def Get_def moveToFront_def entries_def)
  ultimately show ?thesis
    using eviction_is_least_recently_used [of ?c "[(''a'', 1)]" "''b''" 2 "''c''" 3] by simp
qed

end
