(* ===== verification/CircuitBreaker.thy ===== *)
theory CircuitBreaker
  imports Prelude
begin

text \<open>
  The two circuit breakers: \<open>core/worker/circuit_breaker.go\<close> (the one of the worker engine, a flag and
  a count of consecutive failures) and \<open>platform/resilience/circuit_breaker.go\<close> (three states).
  One call of \<open>Execute(fn)\<close> is described by what the breaker reads while it runs: the clock when the
  call is admitted, whether \<open>fn\<close> fails and with what error, and the clock when its failure is
  recorded. \<open>Execute\<close> returns whether \<open>fn\<close> ran, the error returned, and the new breaker.
  The locale \<open>breaker\<close> is the contract of both.
\<close>

record attempt =
  at_admit :: int
  fn_err :: "goerr option"
  at_failure :: int

definition ErrCircuitOpen :: goerr where
  "ErrCircuitOpen = Errorf ''circuit breaker is open''"

section \<open>The breaker of the worker engine\<close>

record wbreaker =
  failureCount :: int
  w_threshold :: int
  w_timeout :: int
  w_lastFailure :: int
  isOpen :: bool

definition NewWorkerBreaker :: "int \<Rightarrow> int \<Rightarrow> wbreaker" where
  "NewWorkerBreaker n t =
     \<lparr>failureCount = 0, w_threshold = n, w_timeout = t, w_lastFailure = 0, isOpen = False\<rparr>"

definition attemptReset :: "attempt \<Rightarrow> wbreaker \<Rightarrow> goerr option \<times> wbreaker" where
  "attemptReset a cb =
     (case fn_err a of
        Some e \<Rightarrow> (Some e, cb\<lparr>w_lastFailure := at_failure a\<rparr>)
      | None \<Rightarrow> (None, cb\<lparr>isOpen := False, failureCount := 0\<rparr>))"

definition recordFailure :: "int \<Rightarrow> wbreaker \<Rightarrow> wbreaker" where
  "recordFailure now cb =
     (let cb = cb\<lparr>failureCount := failureCount cb + 1, w_lastFailure := now\<rparr>
      in if w_threshold cb \<le> failureCount cb then cb\<lparr>isOpen := True\<rparr> else cb)"

definition reset :: "wbreaker \<Rightarrow> wbreaker" where
  "reset cb = cb\<lparr>failureCount := 0, isOpen := False\<rparr>"

definition worker_Execute :: "attempt \<Rightarrow> wbreaker \<Rightarrow> (bool \<times> goerr option) \<times> wbreaker" where
  "worker_Execute a cb =
     (if isOpen cb then
        if w_timeout cb < at_admit a - w_lastFailure cb
        then (let (e, cb') = attemptReset a cb in ((True, e), cb'))
        else ((False, Some ErrCircuitOpen), cb)
      else (case fn_err a of
              Some e \<Rightarrow> ((True, Some e), recordFailure (at_failure a) cb)
            | None \<Rightarrow> ((True, None), reset cb)))"

section \<open>The breaker of the platform clients\<close>

datatype breaker_state = StateClosed | StateOpen | StateHalfOpen

record rbreaker =
  state :: breaker_state
  failures :: int
  threshold :: int
  r_timeout :: int
  lastFailure :: int

definition NewResilienceBreaker :: "int \<Rightarrow> int \<Rightarrow> rbreaker" where
  "NewResilienceBreaker n t =
     \<lparr>state = StateClosed, failures = 0, threshold = n, r_timeout = t, lastFailure = 0\<rparr>"

definition allowRequest :: "int \<Rightarrow> rbreaker \<Rightarrow> bool \<times> rbreaker" where
  "allowRequest now cb =
     (case state cb of
        StateClosed \<Rightarrow> (True, cb)
      | StateOpen \<Rightarrow> if r_timeout cb < now - lastFailure cb
                     then (True, cb\<lparr>state := StateHalfOpen\<rparr>) else (False, cb)
      | StateHalfOpen \<Rightarrow> (True, cb))"

definition settle :: "attempt \<Rightarrow> rbreaker \<Rightarrow> rbreaker" where
  "settle a cb =
     (case fn_err a of
        Some e \<Rightarrow>
          (let cb = cb\<lparr>failures := failures cb + 1\<rparr>
           in if threshold cb \<le> failures cb
              then cb\<lparr>state := StateOpen, lastFailure := at_failure a\<rparr> else cb)
      | None \<Rightarrow> if state cb = StateHalfOpen then cb\<lparr>state := StateClosed, failures := 0\<rparr> else cb)"

definition resilience_Execute :: "attempt \<Rightarrow> rbreaker \<Rightarrow> (bool \<times> goerr option) \<times> rbreaker" where
  "resilience_Execute a cb =
     (let (ok, cb) = allowRequest (at_admit a) cb
      in if ok then ((True, fn_err a), settle a cb) else ((False, Some ErrCircuitOpen), cb))"

section \<open>The contract\<close>

text \<open>Calls made one after the other.\<close>

fun run_breaker ::
  "(attempt \<Rightarrow> 's \<Rightarrow> (bool \<times> goerr option) \<times> 's) \<Rightarrow> attempt list \<Rightarrow> 's \<Rightarrow>
   (bool \<times> goerr option) list \<times> 's" where
  "run_breaker ex [] s = ([], s)"
| "run_breaker ex (a # as) s =
     (let (r, s) = ex a s; (rs, s) = run_breaker ex as s in (r # rs, s))"

text \<open>The outcomes of the calls that ran, the latest first: true for a failure.\<close>

definition ran :: "(bool \<times> goerr option) list \<Rightarrow> bool list" where
  "ran rs = rev (map (\<lambda>r. snd r \<noteq> None) (filter fst rs))"

lemma ran_simps [simp]: "ran [] = []" "ran ((True, e) # rs) = ran rs @ [e \<noteq> None]"
  "ran ((False, e) # rs) = ran rs"
  by (simp_all add: ran_def)

locale breaker =
  fixes execute :: "attempt \<Rightarrow> 's \<Rightarrow> (bool \<times> goerr option) \<times> 's" and tripped :: "'s \<Rightarrow> int option"
    and window :: "'s \<Rightarrow> int"
  assumes tripped_rejects: "tripped s = Some t \<Longrightarrow> at_admit a \<le> t + window s \<Longrightarrow>
      execute a s = ((False, Some ErrCircuitOpen), s)"
    and untripped_runs: "tripped s = None \<Longrightarrow> fst (execute a s) = (True, fn_err a)"
    and late_runs: "tripped s = Some t \<Longrightarrow> t + window s < at_admit a \<Longrightarrow> fst (execute a s) = (True, fn_err a)"
begin

lemma run_rejected:
  assumes "tripped s = Some t" and "\<forall>a\<in>set as. at_admit a \<le> t + window s"
  shows "run_breaker execute as s = (map (\<lambda>_. (False, Some ErrCircuitOpen)) as, s)"
  using assms(2) by (induction as) (simp_all add: tripped_rejects [OF assms(1)])

lemma result_cases: "fst (execute a s) = (True, fn_err a) \<or>
    (tripped s \<noteq> None \<and> execute a s = ((False, Some ErrCircuitOpen), s))"
  using tripped_rejects untripped_runs late_runs by (metis leI option.exhaust)

end

definition w_tripped :: "wbreaker \<Rightarrow> int option" where
  "w_tripped cb = (if isOpen cb then Some (w_lastFailure cb) else None)"

definition r_tripped :: "rbreaker \<Rightarrow> int option" where
  "r_tripped cb = (if state cb = StateOpen then Some (lastFailure cb) else None)"

interpretation worker: breaker worker_Execute w_tripped w_timeout
  by unfold_locales
    (auto simp: worker_Execute_def w_tripped_def attemptReset_def split: if_splits option.splits)

interpretation resilience: breaker resilience_Execute r_tripped r_timeout
  by unfold_locales
    (auto simp: resilience_Execute_def r_tripped_def allowRequest_def
          split: if_splits breaker_state.splits)

section \<open>When a breaker trips\<close>

definition streak :: "bool list \<Rightarrow> nat" where
  "streak bs = length (takeWhile id bs)"

lemma streak_simps [simp]: "streak [] = 0" "streak (True # bs) = Suc (streak bs)" "streak (False # bs) = 0"
  by (simp_all add: streak_def)

text \<open>The count of a closed breaker is its streak of failures; an open one has a long streak.\<close>

definition worker_inv :: "int \<Rightarrow> bool list \<Rightarrow> wbreaker \<Rightarrow> bool" where
  "worker_inv n bs cb \<longleftrightarrow> w_threshold cb = n \<and>
     (if isOpen cb then max 1 n \<le> int (streak bs)
      else failureCount cb = int (streak bs) \<and> int (streak bs) < max 1 n)"

lemma worker_inv_step:
  assumes "worker_inv n bs cb" and "worker_Execute a cb = ((b, e), cb')"
  shows "worker_inv n (if b then (e \<noteq> None) # bs else bs) cb'"
  using assms
  by (cases e) (auto simp: worker_inv_def worker_Execute_def attemptReset_def
      recordFailure_def reset_def Let_def split: if_splits option.splits)

lemma worker_inv_run:
  "worker_inv n bs cb \<Longrightarrow> run_breaker worker_Execute as cb = (rs, cb') \<Longrightarrow> worker_inv n (ran rs @ bs) cb'"
proof (induction as arbitrary: bs cb rs cb')
  case (Cons a as)
  obtain b e cb1 where ex: "worker_Execute a cb = ((b, e), cb1)" by (metis surj_pair)
  obtain rs' cb2 where run: "run_breaker worker_Execute as cb1 = (rs', cb2)" by fastforce
  from Cons.IH [OF worker_inv_step [OF Cons.prems(1) ex] run] Cons.prems(2) ex run
  show ?case by (cases b) auto
qed simp

text \<open>The other breaker counts every failure since it was last closed, whatever succeeds in between.\<close>

lemma resilience_closed_run:
  assumes "state cb = StateClosed" and "failures cb + int (length (filter (\<lambda>a. fn_err a \<noteq> None) as)) < threshold cb"
  shows "run_breaker resilience_Execute as cb =
           (map (\<lambda>a. (True, fn_err a)) as,
            cb\<lparr>failures := failures cb + int (length (filter (\<lambda>a. fn_err a \<noteq> None) as))\<rparr>)"
  using assms
  by (induction as arbitrary: cb)
    (auto simp: resilience_Execute_def allowRequest_def settle_def Let_def split: option.splits)

section \<open>Properties\<close>

text \<open>
  An open breaker protects what it guards. From the moment either breaker has opened until its
  timeout has elapsed since the last recorded failure, no call runs the guarded function: every call
  is answered with \<open>ErrCircuitOpen\<close> and leaves the breaker as it was.
\<close>

theorem open_breaker_rejects:
  "(w_tripped cb = Some t \<and> (\<forall>a\<in>set as. at_admit a \<le> t + w_timeout cb) \<longrightarrow>
      run_breaker worker_Execute as cb = (map (\<lambda>_. (False, Some ErrCircuitOpen)) as, cb)) \<and>
   (r_tripped rb = Some t \<and> (\<forall>a\<in>set as. at_admit a \<le> t + r_timeout rb) \<longrightarrow>
      run_breaker resilience_Execute as rb = (map (\<lambda>_. (False, Some ErrCircuitOpen)) as, rb))"
  using worker.run_rejected resilience.run_rejected by blast

definition failing :: "int \<Rightarrow> attempt" where
  "failing t = \<lparr>at_admit = t, fn_err = Some Infra, at_failure = t\<rparr>"

definition passing :: "int \<Rightarrow> attempt" where
  "passing t = \<lparr>at_admit = t, fn_err = None, at_failure = t\<rparr>"

theorem open_breaker_rejects_witness:
  "run_breaker worker_Execute [failing 1, failing 2, passing 3, passing 11] (NewWorkerBreaker 2 10) =
     ([(True, Some Infra), (True, Some Infra), (False, Some ErrCircuitOpen), (False, Some ErrCircuitOpen)],
      \<lparr>failureCount = 2, w_threshold = 2, w_timeout = 10, w_lastFailure = 2, isOpen = True\<rparr>)"
proof -
  let ?cb = "\<lparr>failureCount = 2, w_threshold = 2, w_timeout = 10, w_lastFailure = 2, isOpen = True\<rparr>"
  from open_breaker_rejects [of ?cb 2 "[passing 3, passing 11]" "NewResilienceBreaker 1 1"]
  have "run_breaker worker_Execute [passing 3, passing 11] ?cb
          = ([(False, Some ErrCircuitOpen), (False, Some ErrCircuitOpen)], ?cb)"
    by (simp add: w_tripped_def passing_def del: run_breaker.simps)
  then show ?thesis
    by (simp add: NewWorkerBreaker_def worker_Execute_def failing_def recordFailure_def)
qed

text \<open>
  When the breaker of the worker engine is open. After any sequence of calls on a new breaker with
  threshold \<open>n\<close>, it is open exactly when the latest \<open>n\<close> (at least one) calls that ran all failed.
\<close>

theorem worker_open_iff_streak:
  "isOpen (snd (run_breaker worker_Execute as (NewWorkerBreaker n t))) =
     (max 1 n \<le> int (streak (ran (fst (run_breaker worker_Execute as (NewWorkerBreaker n t))))))"
proof -
  obtain rs cb where run: "run_breaker worker_Execute as (NewWorkerBreaker n t) = (rs, cb)" by fastforce
  have "worker_inv n [] (NewWorkerBreaker n t)" by (simp add: worker_inv_def NewWorkerBreaker_def)
  from worker_inv_run [OF this run] run show ?thesis by (auto simp: worker_inv_def split: if_splits)
qed

text \<open>
  When the breaker of the platform clients opens. It counts all failures since it last closed,
  with no reset on success: on a new breaker with threshold \<open>n\<close>, calls with fewer than \<open>n\<close> failures all
  run and keep it closed, and the \<open>n\<close>-th failure opens it, whatever succeeded in between.
\<close>

theorem resilience_opens_at_total:
  assumes "int (length (filter (\<lambda>a. fn_err a \<noteq> None) as)) + 1 = n" and "fn_err a \<noteq> None"
  shows "state (snd (run_breaker resilience_Execute as (NewResilienceBreaker n t))) = StateClosed \<and>
         fst (run_breaker resilience_Execute as (NewResilienceBreaker n t)) = map (\<lambda>a. (True, fn_err a)) as \<and>
         r_tripped (snd (resilience_Execute a (snd (run_breaker resilience_Execute as (NewResilienceBreaker n t)))))
           = Some (at_failure a)"
proof -
  have run: "run_breaker resilience_Execute as (NewResilienceBreaker n t) =
      (map (\<lambda>a. (True, fn_err a)) as, (NewResilienceBreaker n t)\<lparr>failures := n - 1\<rparr>)"
    using resilience_closed_run [of "NewResilienceBreaker n t" as] assms(1)
    by (simp add: NewResilienceBreaker_def algebra_simps)
  from assms(2) show ?thesis
    unfolding run
    by (auto simp: NewResilienceBreaker_def resilience_Execute_def allowRequest_def settle_def
        r_tripped_def)
qed

theorem resilience_opens_at_total_witness:
  "state (snd (run_breaker resilience_Execute [failing 1, passing 2, passing 3, failing 4] (NewResilienceBreaker 2 10)))
     = StateOpen"
proof -
  from resilience_opens_at_total [of "[failing 1, passing 2, passing 3]" 2 "failing 4" 10]
  have "r_tripped (snd (resilience_Execute (failing 4) (snd (run_breaker resilience_Execute
          [failing 1, passing 2, passing 3] (NewResilienceBreaker 2 10))))) = Some 4"
    by (simp add: failing_def passing_def del: run_breaker.simps)
  then show ?thesis by (auto simp: r_tripped_def split: if_splits prod.splits)
qed

end
