(* ===== verification/Feeds.thy ===== *)
theory Feeds
  imports Complex_Main LruCache
begin

text \<open>
  The feed engine of \<open>core/feeds/editor.go\<close>: publication in chunks, the fan-out worker, ranking with
  time decay and author diversity, and paged reads through the in-process cache and Redis.

  A \<open>float64\<close> is a real number here, so rounding is not modelled. \<open>sort.Slice\<close> is not stable, so the
  ranking takes the sorting function as a parameter, with the documented law \<open>sorts_desc\<close> where a
  lemma needs it. Redis is a lookup that may fail, JSON decoding a partial function; both are
  parameters. Tracing spans are left out.
\<close>

record feed_item =
  it_ID :: string
  AuthorID :: string
  ContentType :: string
  Content :: string
  Score :: real
  it_CreatedAt :: int
  SourceType :: string

record feed_config =
  cfg_HotCacheSize :: int
  cfg_FanoutWorkers :: int
  cfg_BatchSize :: int
  cfg_TimeDecayHalfLife :: int
  cfg_DiversityWeight :: real
  cfg_ExploreRatio :: real

record feed_engine =
  hotCache :: "(string, feed_item list) lru"
  batchSize :: int
  workers :: int
  timeDecayHalfLife :: int
  diversityWeight :: real
  exploreRatio :: real

definition hour :: int where "hour = 3600000000000"

definition NewFeedEngine :: "feed_config \<Rightarrow> feed_engine" where
  "NewFeedEngine cfg =
     \<lparr>hotCache = NewLRUCache (if cfg_HotCacheSize cfg \<le> 0 then 200 else cfg_HotCacheSize cfg),
      batchSize = (if cfg_BatchSize cfg \<le> 0 then 100 else cfg_BatchSize cfg),
      workers = (if cfg_FanoutWorkers cfg \<le> 0 then 10 else cfg_FanoutWorkers cfg),
      timeDecayHalfLife = (if cfg_TimeDecayHalfLife cfg \<le> 0 then 6 * hour else cfg_TimeDecayHalfLife cfg),
      diversityWeight = (if cfg_DiversityWeight cfg \<le> 0 then 1 / 5 else cfg_DiversityWeight cfg),
      exploreRatio = (if cfg_ExploreRatio cfg \<le> 0 then 3 / 20 else cfg_ExploreRatio cfg)\<rparr>"

section \<open>Publication and fan-out\<close>

record fanout_task =
  authorID :: string
  followers :: "string list"
  item :: feed_item

function chunks_from :: "'a list \<Rightarrow> nat \<Rightarrow> 'a list list" where
  "chunks_from xs n = (if xs = [] \<or> n = 0 then [] else take n xs # chunks_from (drop n xs) n)"
  by pat_completeness auto
termination by (relation "measure (\<lambda>(xs, n). length xs)") auto

declare chunks_from.simps [simp del]

definition chunkFollowers :: "string list \<Rightarrow> int \<Rightarrow> string list list" where
  "chunkFollowers fs sz = chunks_from fs (nat (if sz \<le> 0 then 100 else sz))"

text \<open>
  \<open>Publish\<close>: each chunk is sent unless the context is done at that \<open>select\<close>; the result is the error
  and the tasks that reached the queue.
\<close>

fun send_tasks :: "(nat \<Rightarrow> bool) \<Rightarrow> nat \<Rightarrow> fanout_task list \<Rightarrow> goerr option \<times> fanout_task list" where
  "send_tasks ctx_done i [] = (None, [])"
| "send_tasks ctx_done i (t # ts) =
     (if ctx_done i then (Some (Errorf ''context canceled''), [])
      else (let (e, sent) = send_tasks ctx_done (Suc i) ts in (e, t # sent)))"

definition Publish ::
  "feed_engine \<Rightarrow> (string \<Rightarrow> string list res) \<Rightarrow> (nat \<Rightarrow> bool) \<Rightarrow> feed_item \<Rightarrow>
   goerr option \<times> fanout_task list" where
  "Publish e GetFollowers ctx_done it =
     (case GetFollowers (AuthorID it) of
        Inl er \<Rightarrow> (Some er, [])
      | Inr fs \<Rightarrow>
          if fs = [] then (None, [])
          else send_tasks ctx_done 0
                 (map (\<lambda>chunk. \<lparr>authorID = AuthorID it, followers = chunk, item = it\<rparr>)
                      (chunkFollowers fs (batchSize e))))"

text \<open>
  The worker loop: a state is the buffer, whether the loop has returned, and the batches handed to
  \<open>processBatch\<close> so far; an event is what one \<open>select\<close> receives.
\<close>

datatype fanout_event = Task fanout_task | QueueClosed | Tick | CtxDone

record fanout_worker =
  buffer :: "fanout_task list"
  returned :: bool
  processed :: "fanout_task list list"

definition flush :: "fanout_worker \<Rightarrow> fanout_worker" where
  "flush w = (if buffer w = [] then w else w\<lparr>processed := processed w @ [buffer w], buffer := []\<rparr>)"

fun fanoutWorker :: "int \<Rightarrow> fanout_worker \<Rightarrow> fanout_event \<Rightarrow> fanout_worker" where
  "fanoutWorker n w (Task t) =
     (if returned w then w
      else (let w = w\<lparr>buffer := buffer w @ [t]\<rparr>
            in if n \<le> int (length (buffer w)) then flush w else w))"
| "fanoutWorker n w QueueClosed = (if returned w then w else (flush w)\<lparr>returned := True\<rparr>)"
| "fanoutWorker n w Tick = (if returned w then w else flush w)"
| "fanoutWorker n w CtxDone = (if returned w then w else (flush w)\<lparr>returned := True\<rparr>)"

definition idle_worker :: fanout_worker where
  "idle_worker = \<lparr>buffer = [], returned = False, processed = []\<rparr>"

section \<open>Ranking\<close>

definition timeDecay :: "feed_engine \<Rightarrow> int \<Rightarrow> real" where
  "timeDecay e age =
     (let halfLife = (if timeDecayHalfLife e \<le> 0 then 6 * hour else timeDecayHalfLife e)
      in exp (- ln 2 * real_of_int age / real_of_int halfLife))"

fun split_authors :: "string set \<Rightarrow> feed_item list \<Rightarrow> feed_item list \<times> feed_item list" where
  "split_authors seen [] = ([], [])"
| "split_authors seen (it # its) =
     (if AuthorID it \<notin> seen
      then (let (d, x) = split_authors (insert (AuthorID it) seen) its in (it # d, x))
      else (let (d, x) = split_authors seen its in (d, it # x)))"

definition exploreCount :: "feed_engine \<Rightarrow> nat \<Rightarrow> nat" where
  "exploreCount e n = (let k = \<lfloor>real n * exploreRatio e\<rfloor> in nat (if k < 1 then 1 else k))"

definition injectDiversity :: "feed_engine \<Rightarrow> feed_item list \<Rightarrow> feed_item list" where
  "injectDiversity e its =
     (if length its \<le> 1 then its
      else (let (diversified, exploreItems) = split_authors {} its
            in diversified @ take (exploreCount e (length its)) exploreItems))"

text \<open>The result: the feed returned, the list written to Redis, and the engine with its cache.\<close>

definition ComputeRankedFeed ::
  "(feed_item list \<Rightarrow> feed_item list) \<Rightarrow> int \<Rightarrow> string \<Rightarrow> feed_item list \<Rightarrow> feed_engine \<Rightarrow>
   feed_item list \<times> feed_item list \<times> feed_engine" where
  "ComputeRankedFeed sortSlice now userID its e =
     (if its = [] then (its, [], e)
      else (let scored = map (\<lambda>it. it\<lparr>Score := Score it * timeDecay e (now - it_CreatedAt it)\<rparr>) its;
                diversified = injectDiversity e (sortSlice scored);
                kept = (if 100 < length diversified then take 100 diversified else diversified)
            in (kept, diversified, e\<lparr>hotCache := Put (''feed:'' @ userID @ '':'') kept (hotCache e)\<rparr>)))"

definition sorts_desc :: "(feed_item list \<Rightarrow> feed_item list) \<Rightarrow> bool" where
  "sorts_desc f \<longleftrightarrow> (\<forall>xs. mset (f xs) = mset xs \<and> sorted_wrt (\<lambda>x y. \<not> Score x < Score y) (f xs))"

section \<open>Paged reads\<close>

fun start_index :: "string \<Rightarrow> feed_item list \<Rightarrow> nat \<Rightarrow> nat" where
  "start_index cursor [] i = 0"
| "start_index cursor (it # its) i = (if it_ID it = cursor then i + 1 else start_index cursor its (i + 1))"

definition paginate :: "feed_item list \<Rightarrow> int \<Rightarrow> string \<Rightarrow> feed_item list \<times> string" where
  "paginate its limit cursor =
     (if int (length its) \<le> limit then (its, [])
      else (let startIdx = (if cursor \<noteq> [] then start_index cursor its 0 else 0);
                endIdx = startIdx + nat limit;
                endIdx = (if length its < endIdx then length its else endIdx);
                nextCursor = (if endIdx < length its then it_ID (its ! (endIdx - 1)) else [])
            in (drop startIdx (take endIdx its), nextCursor)))"

definition cacheKey :: "string \<Rightarrow> string \<Rightarrow> string" where
  "cacheKey userID cursor = ''feed:'' @ userID @ '':'' @ cursor"

definition GetFeed ::
  "(string \<Rightarrow> feed_item list option) \<Rightarrow> (string \<Rightarrow> string res) option \<Rightarrow> string \<Rightarrow> int \<Rightarrow> string \<Rightarrow>
   feed_engine \<Rightarrow> (feed_item list \<times> string) \<times> feed_engine" where
  "GetFeed unmarshal redis userID limit cursor e =
     (let limit = (if limit \<le> 0 then 20 else limit); key = cacheKey userID cursor;
          (hit, c) = Get key (hotCache e); e = e\<lparr>hotCache := c\<rparr>
      in case hit of
           Some cached \<Rightarrow> (paginate cached limit cursor, e)
         | None \<Rightarrow>
             (case redis of
                None \<Rightarrow> (([], []), e)
              | Some conn \<Rightarrow>
                  (case conn (''feed:hot:'' @ userID) of
                     Inl _ \<Rightarrow> (([], []), e)
                   | Inr val \<Rightarrow>
                       if val = [] then (([], []), e)
                       else (case unmarshal val of
                               None \<Rightarrow> (([], []), e)
                             | Some its \<Rightarrow>
                                 (paginate its limit cursor, e\<lparr>hotCache := Put key its (hotCache e)\<rparr>)))))"

text \<open>A reader that follows the cursors from the first page until there is no next one.\<close>

fun read_pages ::
  "nat \<Rightarrow> (string \<Rightarrow> 'e \<Rightarrow> (feed_item list \<times> string) \<times> 'e) \<Rightarrow> string \<Rightarrow> 'e \<Rightarrow> feed_item list list option" where
  "read_pages 0 get cursor e = None"
| "read_pages (Suc n) get cursor e =
     (let ((page, nxt), e') = get cursor e
      in if nxt = [] then Some [page] else map_option ((#) page) (read_pages n get nxt e'))"

section \<open>Publication reaches every follower once\<close>

lemma concat_chunks_from: "0 < n \<Longrightarrow> concat (chunks_from xs n) = xs"
  by (induction xs n rule: chunks_from.induct) (subst chunks_from.simps, auto)

lemma chunks_from_sizes: "c \<in> set (chunks_from xs n) \<Longrightarrow> c \<noteq> [] \<and> length c \<le> n"
  by (induction xs n rule: chunks_from.induct)
    (subst (asm) chunks_from.simps, auto split: if_splits)

lemma send_tasks_ok: "send_tasks cd i ts = (None, sent) \<Longrightarrow> sent = ts"
  by (induction ts arbitrary: i sent) (auto split: if_splits prod.splits)

definition tasks_of :: "fanout_event list \<Rightarrow> fanout_task list" where
  "tasks_of evs = concat (map (\<lambda>ev. case ev of Task t \<Rightarrow> [t] | _ \<Rightarrow> []) evs)"

text \<open>The events up to the one that makes the worker return.\<close>

fun live :: "fanout_event list \<Rightarrow> fanout_event list" where
  "live [] = []"
| "live (QueueClosed # evs) = [QueueClosed]"
| "live (CtxDone # evs) = [CtxDone]"
| "live (ev # evs) = ev # live evs"

definition worker_ok :: "int \<Rightarrow> fanout_worker \<Rightarrow> bool" where
  "worker_ok n w \<longleftrightarrow> (returned w \<longrightarrow> buffer w = []) \<and>
     int (length (buffer w)) < n \<and> (\<forall>b\<in>set (processed w). b \<noteq> [] \<and> int (length b) \<le> n)"

lemma worker_returned: "returned w \<Longrightarrow> foldl (fanoutWorker n) w evs = w"
proof (induction evs)
  case (Cons ev evs)
  then show ?case by (cases ev) simp_all
qed simp

lemma worker_run:
  assumes "worker_ok n w" and "\<not> returned w" and "0 < n"
  shows "worker_ok n (foldl (fanoutWorker n) w evs) \<and>
         concat (processed (foldl (fanoutWorker n) w evs)) @ buffer (foldl (fanoutWorker n) w evs)
           = concat (processed w) @ buffer w @ tasks_of (live evs)"
  using assms(1,2)
proof (induction evs arbitrary: w)
  case (Cons ev evs)
  show ?case
  proof (cases ev)
    case (Task t)
    let ?w = "fanoutWorker n w (Task t)"
    have "worker_ok n ?w" "\<not> returned ?w"
      "concat (processed ?w) @ buffer ?w = concat (processed w) @ buffer w @ [t]"
      using Cons.prems assms(3) by (auto simp: worker_ok_def flush_def Let_def)
    with Cons.IH [of ?w] Task show ?thesis by (simp add: tasks_of_def del: fanoutWorker.simps)
  next
    case Tick
    let ?w = "fanoutWorker n w Tick"
    have "worker_ok n ?w" "\<not> returned ?w"
      "concat (processed ?w) @ buffer ?w = concat (processed w) @ buffer w"
      using Cons.prems assms(3) by (auto simp: worker_ok_def flush_def Let_def)
    with Cons.IH [of ?w] Tick show ?thesis by (simp add: tasks_of_def del: fanoutWorker.simps)
  qed (use Cons.prems assms(3) in \<open>auto simp: worker_returned worker_ok_def flush_def tasks_of_def\<close>)
qed (simp add: tasks_of_def)

lemma worker_stops: "ev \<in> set evs \<Longrightarrow> ev \<in> {QueueClosed, CtxDone} \<Longrightarrow> returned (foldl (fanoutWorker n) w evs)"
proof (induction evs arbitrary: w)
  case (Cons a evs)
  show ?case
  proof (cases "a \<in> {QueueClosed, CtxDone}")
    case True
    then have "returned (fanoutWorker n w a)" by auto
    then show ?thesis by (simp add: worker_returned)
  next
    case False
    with Cons show ?thesis by auto
  qed
qed simp

section \<open>Ranking keeps every author\<close>

lemma split_authors_mset: "split_authors seen its = (d, x) \<Longrightarrow> mset its = mset d + mset x"
  by (induction its arbitrary: seen d x) (auto split: if_splits prod.splits)

lemma split_authors_fst:
  assumes "split_authors seen its = (d, x)"
  shows "distinct (map AuthorID d) \<and> AuthorID ` set d = AuthorID ` set its - seen"
  using assms
proof (induction its arbitrary: seen d x)
  case (Cons a its)
  obtain d' x' where rec: "split_authors (if AuthorID a \<in> seen then seen else insert (AuthorID a) seen) its = (d', x')"
    by fastforce
  note IH = Cons.IH [OF this]
  show ?case
  proof (cases "AuthorID a \<in> seen")
    case True
    with IH rec Cons.prems show ?thesis by auto
  next
    case False
    with rec Cons.prems have d: "d = a # d'" by simp
    from IH False have keys: "AuthorID ` set d' = AuthorID ` set its - insert (AuthorID a) seen" by simp
    then have "AuthorID a \<notin> AuthorID ` set d'" by simp
    moreover have "AuthorID ` set (a # d') = AuthorID ` set (a # its) - seen"
      using keys False by (simp del: image_insert add: image_insert) blast
    ultimately show ?thesis using IH d by simp
  qed
qed simp

lemma split_authors_top:
  assumes "split_authors seen its = (d, x)" and "sorted_wrt (\<lambda>x y. \<not> Score x < Score y) its"
    and "it \<in> set its" and "AuthorID it \<notin> seen"
  shows "\<exists>top\<in>set d. AuthorID top = AuthorID it \<and> Score it \<le> Score top"
  using assms
proof (induction its arbitrary: seen d x)
  case (Cons a its)
  show ?case
  proof (cases "AuthorID a \<in> seen")
    case True
    with Cons show ?thesis by (auto split: prod.splits)
  next
    case False
    obtain d' x' where rec: "split_authors (insert (AuthorID a) seen) its = (d', x')" by fastforce
    with False Cons.prems(1) have d: "d = a # d'" by simp
    show ?thesis
    proof (cases "AuthorID it = AuthorID a")
      case True
      with Cons.prems(2,3) d show ?thesis by (auto simp: not_less)
    next
      case False
      with Cons.prems(2-4) Cons.IH [OF rec] d show ?thesis by auto
    qed
  qed
qed simp

lemma split_authors_subseq: "split_authors seen its = (d, x) \<Longrightarrow> sorted_wrt P its \<Longrightarrow> sorted_wrt P d"
proof (induction its arbitrary: seen d x)
  case (Cons a its)
  then have "sorted_wrt P its" "\<forall>b\<in>set its. P a b" by simp_all
  moreover obtain d' x' where rec: "split_authors (if AuthorID a \<in> seen then seen else insert (AuthorID a) seen) its = (d', x')"
    by fastforce
  moreover have "set d' \<subseteq> set its" using split_authors_mset [OF rec]
    by (metis set_mset_mset set_mset_union sup_ge1)
  ultimately have "sorted_wrt P d'" "\<forall>b\<in>set d'. P a b" using Cons.IH [OF rec] by blast+
  with rec Cons.prems(1) show ?case by (cases "AuthorID a \<in> seen") auto
qed simp

lemma injectDiversity_shape:
  obtains d x where "split_authors {} its = (d, x)"
    and "injectDiversity e its = d @ take (exploreCount e (length its)) x"
proof -
  obtain d x where sp: "split_authors {} its = (d, x)" by fastforce
  have "d = its \<and> x = []" if "length its \<le> 1"
  proof (cases its)
    case (Cons a b)
    with that have "its = [a]" by simp
    with sp show ?thesis by simp
  qed (use sp in simp)
  with sp show thesis by (intro that) (auto simp: injectDiversity_def)
qed

definition scored :: "feed_engine \<Rightarrow> int \<Rightarrow> feed_item list \<Rightarrow> feed_item list" where
  "scored e now its = map (\<lambda>it. it\<lparr>Score := Score it * timeDecay e (now - it_CreatedAt it)\<rparr>) its"

lemma AuthorID_scored: "AuthorID ` set (scored e now its) = AuthorID ` set its"
  by (auto simp: scored_def image_image)

lemma ranked_feed_cases:
  assumes "ComputeRankedFeed f now u its e = (kept, stored, e')" and "its \<noteq> []"
  shows "stored = injectDiversity e (f (scored e now its))" "kept = take 100 stored"
    "hotCache e' = Put (''feed:'' @ u @ '':'') kept (hotCache e)"
  using assms by (auto simp: ComputeRankedFeed_def scored_def Let_def)

section \<open>Pages\<close>

lemma start_index_nth:
  "i < length its \<Longrightarrow> distinct (map it_ID its) \<Longrightarrow> start_index (it_ID (its ! i)) its k = k + i + 1"
proof (induction its arbitrary: i k)
  case (Cons a its)
  show ?case
  proof (cases i)
    case (Suc j)
    with Cons.prems have "it_ID (its ! j) \<in> it_ID ` set its" by simp
    with Cons.prems(2) have "it_ID (its ! j) \<noteq> it_ID a" by auto
    with Suc Cons show ?thesis by simp
  qed simp
qed simp

definition page_ids_ok :: "feed_item list \<Rightarrow> bool" where
  "page_ids_ok its \<longleftrightarrow> distinct (map it_ID its) \<and> (\<forall>it\<in>set its. it_ID it \<noteq> [])"

definition cursor_at :: "feed_item list \<Rightarrow> nat \<Rightarrow> string" where
  "cursor_at its i = (if i = 0 then [] else it_ID (its ! (i - 1)))"

lemma paginate_at:
  assumes "page_ids_ok its" and "i < length its" and "0 < limit" and "limit < int (length its)"
  shows "paginate its limit (cursor_at its i) =
           (take (nat limit) (drop i its),
            if i + nat limit < length its then cursor_at its (i + nat limit) else [])"
proof -
  have ne: "it_ID (its ! j) \<noteq> []" if "j < length its" for j
    using assms(1) that by (simp add: page_ids_ok_def)
  have "(if cursor_at its i \<noteq> [] then start_index (cursor_at its i) its 0 else 0) = i"
    using assms(1,2) ne [of "i - 1"] start_index_nth [of "i - 1" its 0]
    by (simp add: cursor_at_def page_ids_ok_def)
  with assms show ?thesis
    by (auto simp: paginate_def Let_def cursor_at_def drop_take take_all_iff min_def)
qed

lemma read_pages_from:
  assumes "page_ids_ok its" and "0 < limit" and "limit < int (length its)"
    and "i < length its" and "length its - i \<le> n"
  shows "\<exists>ps. read_pages n (\<lambda>c e. (paginate its limit c, e)) (cursor_at its i) e = Some ps \<and>
              concat ps = drop i its \<and> (\<forall>p\<in>set ps. p \<noteq> [] \<and> int (length p) \<le> limit)"
  using assms(4,5)
proof (induction n arbitrary: i)
  case (Suc n)
  note page = paginate_at [OF assms(1) Suc.prems(1) assms(2,3)]
  show ?case
  proof (cases "i + nat limit < length its")
    case True
    moreover from True Suc.prems assms(2) have "length its - (i + nat limit) \<le> n" by linarith
    ultimately obtain ps where ps: "read_pages n (\<lambda>c e. (paginate its limit c, e)) (cursor_at its (i + nat limit)) e = Some ps"
        "concat ps = drop (i + nat limit) its" "\<forall>p\<in>set ps. p \<noteq> [] \<and> int (length p) \<le> limit"
      using Suc.IH by blast
    have "cursor_at its (i + nat limit) \<noteq> []"
      using True assms(1,2) by (simp add: cursor_at_def page_ids_ok_def)
    with True page ps Suc.prems(1) assms(2) show ?thesis
      by (auto simp: drop_drop add.commute [of i] intro: append_take_drop_id)
        (metis append_take_drop_id drop_drop)
  next
    case False
    with page Suc.prems(1) assms(2) show ?thesis by (auto simp: min_def)
  qed
qed simp

lemma read_pages_pure:
  assumes "page_ids_ok its" and "0 < limit" and "length its \<le> n" and "0 < n"
  shows "\<exists>ps. read_pages n (\<lambda>c e. (paginate its limit c, e)) [] e = Some ps \<and>
              concat ps = its \<and> (\<forall>p\<in>set ps. int (length p) \<le> limit)"
proof (cases "int (length its) \<le> limit")
  case True
  then show ?thesis using assms(4) by (cases n) (auto simp: paginate_def)
next
  case False
  then have "0 < length its" using assms(2) by linarith
  with read_pages_from [OF assms(1,2), of 0 n] False assms(3) show ?thesis
    by (fastforce simp: cursor_at_def)
qed

text \<open>What the cache holds for a user is the list that Redis holds.\<close>

definition feed_of :: "string \<Rightarrow> feed_item list \<Rightarrow> string \<Rightarrow> feed_item list \<Rightarrow> bool" where
  "feed_of u its k v \<longleftrightarrow> (\<exists>c. k = cacheKey u c) \<longrightarrow> v = its"

abbreviation fresh_cache :: "string \<Rightarrow> feed_item list \<Rightarrow> feed_engine \<Rightarrow> bool" where
  "fresh_cache u its e \<equiv> cache_contract.holds_all lru_ok (\<lambda>c. map_of (entries c)) (feed_of u its) (hotCache e)"

lemma GetFeed_page:
  assumes "fresh_cache u its e" and "conn (''feed:hot:'' @ u) = Inr val" and "val \<noteq> []"
    and "unmarshal val = Some its" and "0 < limit"
  shows "\<exists>e'. GetFeed unmarshal (Some conn) u limit c e = (paginate its limit c, e') \<and> fresh_cache u its e'"
proof -
  obtain hit c1 where get: "Get (cacheKey u c) (hotCache e) = (hit, c1)" by fastforce
  have keep: "cache_contract.holds_all lru_ok (\<lambda>c. map_of (entries c)) (feed_of u its) c1"
    using lru.holds_all_get [OF assms(1), of "cacheKey u c"] get by simp
  moreover have "cache_contract.holds_all lru_ok (\<lambda>c. map_of (entries c)) (feed_of u its) (Put (cacheKey u c) its c1)"
    by (rule lru.holds_all_put [OF keep]) (simp add: feed_of_def)
  moreover have "v = its" if "hit = Some v" for v
    using lru.holds_all_hit [OF assms(1), of "cacheKey u c" v] get that by (auto simp: feed_of_def)
  ultimately show ?thesis
    using assms(2-5) get by (auto simp: GetFeed_def Let_def split: option.splits)
qed

lemma read_pages_feed:
  assumes "fresh_cache u its e" and "conn (''feed:hot:'' @ u) = Inr val" and "val \<noteq> []"
    and "unmarshal val = Some its" and "0 < limit"
  shows "read_pages n (GetFeed unmarshal (Some conn) u limit) c e =
         read_pages n (\<lambda>c e. (paginate its limit c, e)) c ()"
  using assms(1)
proof (induction n arbitrary: c e)
  case (Suc n)
  from GetFeed_page [where conn = conn and unmarshal = unmarshal and c = c, OF Suc.prems assms(2-5)] obtain e' where
    "GetFeed unmarshal (Some conn) u limit c e = (paginate its limit c, e')" "fresh_cache u its e'" by blast
  with Suc.IH show ?case by (auto split: prod.splits)
qed simp

lemma timeDecay_half_life:
  assumes "0 < timeDecayHalfLife e"
  shows "timeDecay e (age + timeDecayHalfLife e) = timeDecay e age / 2" "timeDecay e 0 = 1"
proof -
  let ?h = "real_of_int (timeDecayHalfLife e)"
  have "- ln 2 * (real_of_int age + ?h) / ?h = - ln 2 * real_of_int age / ?h - ln 2"
    using assms by (simp add: field_simps)
  then show "timeDecay e (age + timeDecayHalfLife e) = timeDecay e age / 2"
    using assms by (simp add: timeDecay_def exp_diff)
qed (simp add: timeDecay_def)

definition tasks_for :: "feed_item \<Rightarrow> string list list \<Rightarrow> fanout_task list" where
  "tasks_for it cs = map (\<lambda>c. \<lparr>authorID = AuthorID it, followers = c, item = it\<rparr>) cs"

lemma Publish_tasks:
  assumes "Publish e GetFollowers cd it = (None, ts)"
  shows "\<exists>fs. GetFollowers (AuthorID it) = Inr fs \<and> ts = tasks_for it (chunkFollowers fs (batchSize e))"
proof (cases "GetFollowers (AuthorID it)")
  case (Inl er)
  with assms show ?thesis by (simp add: Publish_def)
next
  case (Inr fs)
  show ?thesis
  proof (cases "fs = []")
    case True
    with assms Inr have "ts = []" by (simp add: Publish_def)
    moreover have "chunkFollowers [] n = []" for n by (simp add: chunkFollowers_def chunks_from.simps)
    ultimately show ?thesis using True Inr by (simp add: tasks_for_def)
  next
    case False
    with assms Inr have "send_tasks cd 0 (tasks_for it (chunkFollowers fs (batchSize e))) = (None, ts)"
      by (simp add: Publish_def tasks_for_def)
    from send_tasks_ok [OF this] Inr show ?thesis by simp
  qed
qed

lemma tasks_for_chunks:
  assumes "0 < n"
  shows "concat (map followers (tasks_for it (chunkFollowers fs n))) = fs"
    and "\<forall>t\<in>set (tasks_for it (chunkFollowers fs n)). followers t \<noteq> [] \<and> int (length (followers t)) \<le> n"
proof -
  from assms have c: "chunkFollowers fs n = chunks_from fs (nat n)" by (simp add: chunkFollowers_def)
  show "concat (map followers (tasks_for it (chunkFollowers fs n))) = fs"
    using assms concat_chunks_from [of "nat n" fs] by (simp add: c tasks_for_def comp_def)
  have "x \<noteq> [] \<and> int (length x) \<le> n" if "x \<in> set (chunks_from fs (nat n))" for x
    using chunks_from_sizes [OF that] assms by linarith
  then show "\<forall>t\<in>set (tasks_for it (chunkFollowers fs n)). followers t \<noteq> [] \<and> int (length (followers t)) \<le> n"
    by (simp add: c tasks_for_def)
qed

section \<open>Properties\<close>

text \<open>
  Reading a feed page by page returns every entry exactly once, in order: when the in-process cache
  holds nothing stale for the user, a reader that follows the cursors of \<open>GetFeed\<close> ends within as many
  requests as the feed has entries (one for an empty feed), and its pages, none longer than the limit,
  make up the whole feed.
\<close>

theorem feed_pages_cover:
  assumes "fresh_cache u its e" and "conn (''feed:hot:'' @ u) = Inr val" and "val \<noteq> []"
    and "unmarshal val = Some its" and "page_ids_ok its" and "0 < limit"
    and "length its \<le> n" and "0 < n"
  shows "\<exists>ps. read_pages n (GetFeed unmarshal (Some conn) u limit) [] e = Some ps \<and>
              concat ps = its \<and> (\<forall>p\<in>set ps. int (length p) \<le> limit)"
  using read_pages_pure [OF assms(5,6,7,8), of "()"]
    read_pages_feed [where conn = conn and unmarshal = unmarshal, OF assms(1-4,6)] by simp

definition demo_item :: "string \<Rightarrow> string \<Rightarrow> feed_item" where
  "demo_item i a = \<lparr>it_ID = i, AuthorID = a, ContentType = [], Content = [], Score = 1,
                    it_CreatedAt = 0, SourceType = []\<rparr>"

definition demo_config :: feed_config where
  "demo_config = \<lparr>cfg_HotCacheSize = 0, cfg_FanoutWorkers = 0, cfg_BatchSize = 2,
                  cfg_TimeDecayHalfLife = 0, cfg_DiversityWeight = 0, cfg_ExploreRatio = 0\<rparr>"

lemma fresh_new: "fresh_cache u its (NewFeedEngine cfg)"
  by (simp add: NewFeedEngine_def lru.holds_all_def New_ok)

theorem feed_pages_cover_witness:
  "\<exists>ps. read_pages 3 (GetFeed (\<lambda>_. Some [demo_item ''1'' ''a'', demo_item ''2'' ''b'', demo_item ''3'' ''a''])
            (Some (\<lambda>_. Inr ''json'')) ''u'' 2) [] (NewFeedEngine demo_config) = Some ps \<and>
        concat ps = [demo_item ''1'' ''a'', demo_item ''2'' ''b'', demo_item ''3'' ''a'']"
proof -
  have "page_ids_ok [demo_item ''1'' ''a'', demo_item ''2'' ''b'', demo_item ''3'' ''a'']"
    by (simp add: page_ids_ok_def demo_item_def)
  from feed_pages_cover [OF fresh_new _ _ _ this, of "\<lambda>_. Inr ''json''" "''u''" "''json''"
      "\<lambda>_. Some [demo_item ''1'' ''a'', demo_item ''2'' ''b'', demo_item ''3'' ''a'']" 2 3 demo_config]
  show ?thesis by auto
qed

text \<open>
  The ranked feed is fair to authors. Whatever the sorting function does with equal scores, the
  stored feed invents and repeats nothing, contains every author of the candidates, and starts with one
  entry per author, that author's best after time decay, from the best to the worst; the feed returned
  and cached is its first hundred entries.
\<close>

theorem ranked_feed_keeps_authors:
  assumes "ComputeRankedFeed f now u its e = (kept, stored, e')" and "its \<noteq> []" and "sorts_desc f"
  shows "mset stored \<subseteq># mset (scored e now its) \<and> AuthorID ` set stored = AuthorID ` set its \<and>
         kept = take 100 stored \<and>
         (\<exists>d. take (length d) stored = d \<and> distinct (map AuthorID d) \<and>
              sorted_wrt (\<lambda>x y. Score y \<le> Score x) d \<and>
              (\<forall>it\<in>set (scored e now its). \<exists>top\<in>set d. AuthorID top = AuthorID it \<and> Score it \<le> Score top))"
proof -
  let ?s = "f (scored e now its)"
  note r = ranked_feed_cases [OF assms(1,2)]
  from assms(3) have s: "mset ?s = mset (scored e now its)" "sorted_wrt (\<lambda>x y. \<not> Score x < Score y) ?s"
    by (auto simp: sorts_desc_def)
  obtain d x where sp: "split_authors {} ?s = (d, x)"
    and inj: "injectDiversity e ?s = d @ take (exploreCount e (length ?s)) x"
    using injectDiversity_shape by blast
  have set: "set ?s = set (scored e now its)" using s(1) by (metis set_mset_mset)
  have m: "mset ?s = mset d + mset x" by (rule split_authors_mset [OF sp])
  have sub: "mset (take n x) \<subseteq># mset x" for n
    by (metis append_take_drop_id mset_append mset_subset_eq_add_left)
  have "mset stored \<subseteq># mset (scored e now its)" using m s(1) r(1) inj sub by simp
  moreover have d: "distinct (map AuthorID d)" "AuthorID ` set d = AuthorID ` set its"
    using split_authors_fst [OF sp] set AuthorID_scored by auto
  moreover have "set x \<subseteq> set ?s" using m by (metis mset_subset_eq_add_right set_mset_mono set_mset_mset)
  then have "AuthorID ` set (take n x) \<subseteq> AuthorID ` set its" for n
    using set AuthorID_scored by (metis image_mono set_take_subset subset_trans)
  then have "AuthorID ` set stored = AuthorID ` set its" using r(1) inj d(2) by (auto simp: image_Un)
  moreover have "sorted_wrt (\<lambda>x y. Score y \<le> Score x) d"
    using split_authors_subseq [OF sp s(2)] by (simp add: not_less)
  moreover have "\<forall>it\<in>set (scored e now its). \<exists>top\<in>set d. AuthorID top = AuthorID it \<and> Score it \<le> Score top"
    using split_authors_top [OF sp s(2)] set by simp
  ultimately show ?thesis using r(1,2) inj by (intro conjI exI [of _ d]) simp_all
qed

lemma sorts_desc_sort_key: "sorts_desc (sort_key (\<lambda>it. - Score it))"
proof -
  have "sorted_wrt (\<lambda>x y. \<not> Score x < Score y) (sort_key (\<lambda>it. - Score it) xs)" for xs :: "feed_item list"
    using sorted_sort_key [of "\<lambda>it. - Score it" xs] unfolding sorted_map
    by (rule sorted_wrt_mono_rel [rotated]) auto
  then show ?thesis by (simp add: sorts_desc_def)
qed

theorem ranked_feed_keeps_authors_witness:
  "\<exists>kept stored e'. ComputeRankedFeed (sort_key (\<lambda>it. - Score it)) 5 ''u''
       [demo_item ''1'' ''a'', demo_item ''2'' ''a'', demo_item ''3'' ''b''] (NewFeedEngine demo_config)
         = (kept, stored, e') \<and> AuthorID ` set stored = {''a'', ''b''}"
proof -
  let ?its = "[demo_item ''1'' ''a'', demo_item ''2'' ''a'', demo_item ''3'' ''b'']"
  obtain kept stored e' where run: "ComputeRankedFeed (sort_key (\<lambda>it. - Score it)) 5 ''u'' ?its
      (NewFeedEngine demo_config) = (kept, stored, e')" using prod_cases3 by blast
  from ranked_feed_keeps_authors [OF run _ sorts_desc_sort_key]
  have "AuthorID ` set stored = AuthorID ` set ?its" by simp
  with run show ?thesis by (auto simp: demo_item_def)
qed

text \<open>
  Publication reaches every follower once. When \<open>Publish\<close> succeeds and the fan-out worker receives
  the published tasks, interleaved with any timer ticks, until it is told to stop, the batches it has
  processed name the followers of the author exactly, in order and without repetition or loss; no batch
  is empty or exceeds the batch size, in tasks or in followers per task.
\<close>

theorem publish_reaches_followers:
  assumes "Publish (NewFeedEngine cfg) GetFollowers cd it = (None, ts)"
    and "tasks_of (live evs) = ts" and "QueueClosed \<in> set evs \<or> CtxDone \<in> set evs"
    and "w = foldl (fanoutWorker (batchSize (NewFeedEngine cfg))) idle_worker evs"
  shows "GetFollowers (AuthorID it) = Inr (concat (map followers (concat (processed w)))) \<and>
         (\<forall>b\<in>set (processed w). b \<noteq> [] \<and> int (length b) \<le> batchSize (NewFeedEngine cfg) \<and>
            (\<forall>t\<in>set b. followers t \<noteq> [] \<and> int (length (followers t)) \<le> batchSize (NewFeedEngine cfg)))"
proof -
  let ?n = "batchSize (NewFeedEngine cfg)"
  have n: "0 < ?n" by (simp add: NewFeedEngine_def)
  from Publish_tasks [OF assms(1)] obtain fs where fs: "GetFollowers (AuthorID it) = Inr fs"
    and ts: "ts = tasks_for it (chunkFollowers fs ?n)" by blast
  note chunks = tasks_for_chunks [OF n, of it fs, folded ts]
  have "worker_ok ?n idle_worker" "\<not> returned idle_worker" using n by (simp_all add: worker_ok_def idle_worker_def)
  from worker_run [OF this n, of evs] assms(4) have
    w: "worker_ok ?n w" "concat (processed w) @ buffer w = tasks_of (live evs)"
    by (simp_all add: idle_worker_def)
  have "returned w" using assms(3,4) worker_stops by auto
  with w assms(2) have all: "concat (processed w) = ts" by (simp add: worker_ok_def)
  from w(1) have "\<forall>b\<in>set (processed w). b \<noteq> [] \<and> int (length b) \<le> ?n" by (simp add: worker_ok_def)
  moreover have "set b \<subseteq> set ts" if "b \<in> set (processed w)" for b using that all by auto
  ultimately show ?thesis using chunks fs all by (simp add: subset_iff)
qed

theorem publish_reaches_followers_witness:
  "concat (map followers (concat (processed (foldl (fanoutWorker (batchSize (NewFeedEngine demo_config)))
     idle_worker
     [Task \<lparr>authorID = ''a'', followers = [''x'', ''y''], item = demo_item ''1'' ''a''\<rparr>, Tick,
      Task \<lparr>authorID = ''a'', followers = [''z''], item = demo_item ''1'' ''a''\<rparr>, QueueClosed]))))
   = [''x'', ''y'', ''z'']"
proof -
  have "Publish (NewFeedEngine demo_config) (\<lambda>_. Inr [''x'', ''y'', ''z'']) (\<lambda>_. False) (demo_item ''1'' ''a'')
     = (None, [\<lparr>authorID = ''a'', followers = [''x'', ''y''], item = demo_item ''1'' ''a''\<rparr>,
               \<lparr>authorID = ''a'', followers = [''z''], item = demo_item ''1'' ''a''\<rparr>])"
    by (simp add: Publish_def NewFeedEngine_def demo_config_def demo_item_def chunkFollowers_def chunks_from.simps)
  from publish_reaches_followers [OF this _ _ refl,
    of "[Task \<lparr>authorID = ''a'', followers = [''x'', ''y''], item = demo_item ''1'' ''a''\<rparr>, Tick,
      Task \<lparr>authorID = ''a'', followers = [''z''], item = demo_item ''1'' ''a''\<rparr>, QueueClosed]"]
  show ?thesis by (simp add: tasks_of_def del: fanoutWorker.simps foldl.simps)
qed

end
