(* ===== verification/Redis.thy ===== *)
theory Redis
  imports Database
begin

text \<open>
  The Redis commands that the backend's own code and its embedded Lua scripts use, as functions on a
  key-value store whose entries may expire. Instants are milliseconds, a clock reading of the server
  is part of the store. A command sent by the client can fail or lose its answer, so it runs as
  \<open>autocommit\<close> of the theory \<open>Database\<close>; a Lua script is one such command, since Redis runs it
  without interruption.
\<close>

datatype rval =
    RStr string
  | RInt int
  | RZset "(string \<times> int) list"

record redis =
  store :: "string \<rightharpoonup> rval \<times> int option"
  rclock :: int

definition no_redis :: redis where
  "no_redis = \<lparr>store = Map.empty, rclock = 0\<rparr>"

definition rlookup :: "string \<Rightarrow> redis \<Rightarrow> rval option" where
  "rlookup k r =
     (case store r k of
        None \<Rightarrow> None
      | Some (v, None) \<Rightarrow> Some v
      | Some (v, Some t) \<Rightarrow> if rclock r < t then Some v else None)"

definition rset :: "string \<Rightarrow> rval \<Rightarrow> int option \<Rightarrow> redis \<Rightarrow> redis" where
  "rset k v t r = r\<lparr>store := (store r)(k \<mapsto> (v, t))\<rparr>"

definition rdel :: "string \<Rightarrow> redis \<Rightarrow> redis" where
  "rdel k r = r\<lparr>store := (store r)(k := None)\<rparr>"

text \<open>The time passes on the server.\<close>

definition at_time :: "int \<Rightarrow> redis \<Rightarrow> redis" where
  "at_time now r = r\<lparr>rclock := now\<rparr>"

definition wrongtype :: goerr where
  "wrongtype = Constraint ''WRONGTYPE''"

section \<open>Commands\<close>

text \<open>\<open>redis.Nil\<close>, the answer for a missing key, is \<open>NoRows\<close>.\<close>

definition GET :: "string \<Rightarrow> (redis, string) sql" where
  "GET k r =
     (case rlookup k r of
        None \<Rightarrow> Inl NoRows
      | Some (RStr v) \<Rightarrow> Inr (v, r)
      | Some _ \<Rightarrow> Inl wrongtype)"

text \<open>
  The client sends a Go duration as whole milliseconds, and a positive one below a millisecond as one
  millisecond.
\<close>

definition format_ms :: "int \<Rightarrow> int" where
  "format_ms d = (if 0 < d \<and> d < 1000000 then 1 else d div 1000000)"

lemma format_ms_pos: "0 < d \<Longrightarrow> 0 < format_ms d"
  by (simp add: format_ms_def zdiv_mono1 [of 1000000 d 1000000, simplified] pos_imp_zdiv_pos_iff)

text \<open>\<open>SET key value\<close> with a time to live in milliseconds, or none.\<close>

definition SET :: "string \<Rightarrow> string \<Rightarrow> int option \<Rightarrow> (redis, unit) sql" where
  "SET k v ttl r = Inr ((), rset k (RStr v) (map_option (\<lambda>d. rclock r + d) ttl) r)"

definition SETNX :: "string \<Rightarrow> string \<Rightarrow> int \<Rightarrow> (redis, bool) sql" where
  "SETNX k v ttl r =
     (case rlookup k r of
        Some _ \<Rightarrow> Inr (False, r)
      | None \<Rightarrow> Inr (True, rset k (RStr v) (Some (rclock r + ttl)) r))"

definition DEL :: "string \<Rightarrow> (redis, unit) sql" where
  "DEL k r = Inr ((), rdel k r)"

text \<open>\<open>INCR\<close> creates a missing counter without expiry and keeps the expiry of an existing one.\<close>

definition INCR :: "string \<Rightarrow> (redis, int) sql" where
  "INCR k r =
     (case rlookup k r of
        None \<Rightarrow> Inr (1, rset k (RInt 1) None r)
      | Some (RInt n) \<Rightarrow> Inr (n + 1, rset k (RInt (n + 1)) (case store r k of Some (_, t) \<Rightarrow> t | None \<Rightarrow> None) r)
      | Some _ \<Rightarrow> Inl wrongtype)"

text \<open>\<open>EXPIRE key seconds\<close>: a time to live that is not positive deletes the key.\<close>

definition EXPIRE :: "string \<Rightarrow> int \<Rightarrow> (redis, unit) sql" where
  "EXPIRE k secs r =
     (case rlookup k r of
        None \<Rightarrow> Inr ((), r)
      | Some v \<Rightarrow> Inr ((), if secs \<le> 0 then rdel k r else rset k v (Some (rclock r + 1000 * secs)) r))"

definition zset_of :: "string \<Rightarrow> redis \<Rightarrow> (string \<times> int) list res" where
  "zset_of k r =
     (case rlookup k r of None \<Rightarrow> Inr [] | Some (RZset z) \<Rightarrow> Inr z | Some _ \<Rightarrow> Inl wrongtype)"

definition zexpiry :: "string \<Rightarrow> redis \<Rightarrow> int option" where
  "zexpiry k r = (if rlookup k r = None then None else case store r k of Some (_, t) \<Rightarrow> t | None \<Rightarrow> None)"

text \<open>A sorted set that becomes empty is removed.\<close>

definition zput :: "string \<Rightarrow> (string \<times> int) list \<Rightarrow> redis \<Rightarrow> redis" where
  "zput k z r = (if z = [] then rdel k r else rset k (RZset z) (zexpiry k r) r)"

definition ZREMRANGEBYSCORE :: "string \<Rightarrow> int \<Rightarrow> int \<Rightarrow> (redis, unit) sql" where
  "ZREMRANGEBYSCORE k lo hi r =
     (case zset_of k r of
        Inl e \<Rightarrow> Inl e
      | Inr z \<Rightarrow> Inr ((), zput k (filter (\<lambda>p. \<not> (lo \<le> snd p \<and> snd p \<le> hi)) z) r))"

definition ZCARD :: "string \<Rightarrow> (redis, nat) sql" where
  "ZCARD k r = (case zset_of k r of Inl e \<Rightarrow> Inl e | Inr z \<Rightarrow> Inr (length z, r))"

text \<open>\<open>ZADD\<close> replaces the score of a member that is already there.\<close>

definition ZADD :: "string \<Rightarrow> int \<Rightarrow> string \<Rightarrow> (redis, unit) sql" where
  "ZADD k score m r =
     (case zset_of k r of
        Inl e \<Rightarrow> Inl e
      | Inr z \<Rightarrow> Inr ((), zput k (filter (\<lambda>p. fst p \<noteq> m) z @ [(m, score)]) r))"

lemmas redis_defs = rlookup_def rset_def rdel_def GET_def SET_def SETNX_def DEL_def INCR_def EXPIRE_def
  zset_of_def zexpiry_def zput_def ZREMRANGEBYSCORE_def ZCARD_def ZADD_def at_time_def

section \<open>Facts\<close>

lemma rlookup_rset [simp]:
  "rlookup k' (rset k v t r) =
     (if k' = k then (case t of None \<Rightarrow> Some v | Some t \<Rightarrow> if rclock r < t then Some v else None)
      else rlookup k' r)"
  by (simp add: rlookup_def rset_def split: option.splits)

lemma rlookup_rdel [simp]: "rlookup k' (rdel k r) = (if k' = k then None else rlookup k' r)"
  by (auto simp: rlookup_def rdel_def split: option.splits)

lemma rclock_ops [simp]: "rclock (rset k v t r) = rclock r" "rclock (rdel k r) = rclock r"
  "rclock (zput k z r) = rclock r"
  by (simp_all add: rset_def rdel_def zput_def)

text \<open>What a key shows is unchanged, whatever happens to other keys.\<close>

definition untouched :: "string \<Rightarrow> redis \<Rightarrow> redis \<Rightarrow> bool" where
  "untouched k r r' \<longleftrightarrow> store r' k = store r k \<and> rclock r' = rclock r"

lemma untouched_simps [simp]: "untouched k r r" "k \<noteq> k' \<Longrightarrow> untouched k r (rset k' v t r)"
  "k \<noteq> k' \<Longrightarrow> untouched k r (rdel k' r)"
  by (simp_all add: untouched_def rset_def rdel_def)

lemma untouched_lookup: "untouched k r r' \<Longrightarrow> rlookup k r' = rlookup k r"
  by (auto simp: untouched_def rlookup_def split: option.splits)

lemma SET_iff: "SET k v d r = Inr (a, r') \<longleftrightarrow> r' = rset k (RStr v) (map_option (\<lambda>d. rclock r + d) d) r"
  by (auto simp: SET_def)

end
