(* ===== verification/RateLimit.thy ===== *)
theory RateLimit
  imports Complex_Main Redis "HOL-Library.Multiset"
begin

text \<open>
  The rate limiters: the Redis sliding window of \<open>core/middleware/rate_limit_redis.go\<close>, the flood
  rule of \<open>core/security/anomaly_detector.go\<close>, the two counters of
  \<open>modules/social/service/veritas_content_guard.go\<close>, the fixed window \<open>RateLimitCheck\<close> of
  \<open>core/security/auth.go\<close> and the token bucket of \<open>core/middleware/security.go\<close>.
  The first four share the contract \<open>sliding_log\<close>: what was admitted within a window is in the log.
\<close>

section \<open>The sliding window in Redis\<close>

text \<open>The Lua script \<open>slidingWindowLua\<close>; the answer is whether the request is blocked and the count.\<close>

definition slidingWindow :: "string \<Rightarrow> int \<Rightarrow> int \<Rightarrow> int \<Rightarrow> string \<Rightarrow> (redis, int \<times> int) sql" where
  "slidingWindow key now window limit member =
     sbind (ZREMRANGEBYSCORE key 0 (now - window)) (\<lambda>_.
     sbind (ZCARD key) (\<lambda>n.
     if int n < limit
     then sbind (ZADD key now member) (\<lambda>_.
          sbind (EXPIRE key (\<lceil>real_of_int window / 1000\<rceil> + 1)) (\<lambda>_.
          sreturn (0, int n + 1)))
     else sreturn (1, int n)))"

record rate_limiter =
  rdb_set :: bool
  maxRequests :: int
  rl_window :: int      \<comment> \<open>nanoseconds\<close>

text \<open>What the handler answers; \<open>Next\<close> is the call of the next handler.\<close>

datatype rl_reply = Next int int | Blocked int int int | RateUnavailable | RateFailure

definition effective_limit :: "rate_limiter \<Rightarrow> string \<Rightarrow> int" where
  "effective_limit rl role =
     (if role = ''verified'' then maxRequests rl * 5
      else if role = ''admin'' then maxRequests rl * 2 else maxRequests rl)"

definition limit_key :: "string \<Rightarrow> string \<Rightarrow> string \<Rightarrow> string" where
  "limit_key prefix ip user =
     (if user \<noteq> [] then ''rl:user:'' @ prefix @ '':'' @ user else ''rl:ip:'' @ prefix @ '':'' @ ip)"

text \<open>\<open>now\<close> is the clock in nanoseconds, \<open>show_int\<close> the decimal printing of \<open>fmt.Sprintf\<close>.\<close>

definition RateLimit ::
  "rate_limiter \<Rightarrow> (int \<Rightarrow> string) \<Rightarrow> int \<Rightarrow> string \<Rightarrow> string \<Rightarrow> string \<Rightarrow> string \<Rightarrow> string \<Rightarrow>
   (redis, rl_reply) dbm" where
  "RateLimit rl show_int now shortID prefix ip user role s =
     (if \<not> rdb_set rl then (Inr RateUnavailable, s)
      else (let limit = effective_limit rl role; nowMs = now div 1000000
            in case autocommit (slidingWindow (limit_key prefix ip user) nowMs
                                  (rl_window rl div 1000000) limit
                                  (show_int nowMs @ '':'' @ shortID)) s of
                 (Inl _, s') \<Rightarrow> (Inr RateFailure, s')
               | (Inr (blocked, n), s') \<Rightarrow>
                   (let remaining = (if limit - n < 0 then 0 else limit - n)
                    in (Inr (if blocked = 1 then Blocked limit remaining (rl_window rl div 1000000000)
                             else Next limit remaining), s'))))"

section \<open>In-memory counters\<close>

type_synonym times = "string \<Rightarrow> int list"

definition second :: int where "second = 1000000000"

text \<open>
  The flood rule of \<open>AnalyzePayload\<close>, which runs after the pattern and entropy rules; the map of the
  detector keeps the times of admitted requests.
\<close>

definition maliciousPatterns :: "string list" where
  "maliciousPatterns =
     [''<script>'', ''javascript:'', ''onerror='', ''onload='',
      ''drop table'', ''truncate table'', ''delete from'', ''insert into'',
      ''or 1=1'', ''union select'', ''waitfor delay'', ''pg_sleep'',
      ''../'', ''/etc/passwd'', ''.bash_history'', ''.env'']"

definition flood_check :: "string \<Rightarrow> int \<Rightarrow> times \<Rightarrow> (bool \<times> string) \<times> times" where
  "flood_check user now m =
     (let recent = filter (\<lambda>t. now - t < 10 * second) (m user)
      in if 50 < length recent then ((True, ''ANOMALY_FLOOD_DETECTED''), m)
         else ((False, ''OK''), m(user := recent @ [now])))"

definition AnalyzePayload :: "(string \<Rightarrow> real) \<Rightarrow> string \<Rightarrow> string \<Rightarrow> int \<Rightarrow> times \<Rightarrow> (bool \<times> string) \<times> times" where
  "AnalyzePayload calculateEntropy user payload now m =
     (if list_ex (\<lambda>p. contains p (to_lower payload)) maliciousPatterns
      then ((True, ''MALICIOUS_INJECTION_DETECTED''), m)
      else if 1000 < length payload \<and> calculateEntropy payload < 2
      then ((True, ''LOW_ENTROPY_SUSPICIOUS_CONTENT''), m)
      else flood_check user now m)"

text \<open>
  The content guard: \<open>strings.Count(content, "http")\<close> counts disjoint occurrences; the third component
  of a result is the alert published, if any.
\<close>

record veritas =
  fingerprints :: "string \<rightharpoonup> string"
  userPostTimes :: times
  interactions :: times

function count_sub :: "string \<Rightarrow> string \<Rightarrow> nat" where
  "count_sub p s =
     (if p = [] \<or> s = [] then 0
      else if has_prefix s p then Suc (count_sub p (drop (length p) s))
      else count_sub p (tl s))"
  by pat_completeness auto
termination
proof (relation "measure (\<lambda>(p, s). length s)", goal_cases)
  case (3 p s) then show ?case by (cases s) auto
qed auto

declare count_sub.simps [simp del]

definition DetectBotPattern ::
  "string \<Rightarrow> string \<Rightarrow> int \<Rightarrow> veritas \<Rightarrow> bool \<times> (string \<times> int) option \<times> veritas" where
  "DetectBotPattern user content now g =
     (let valid = filter (\<lambda>t. now - t < 60 * second) (userPostTimes g user @ [now]);
          g = g\<lparr>userPostTimes := (userPostTimes g)(user := valid)\<rparr>
      in if 10 < length valid then (True, Some (''high_frequency_posting'', int (length valid)), g)
         else if 3 < count_sub ''http'' content then (True, Some (''link_spam'', 1), g)
         else (False, None, g))"

definition TrackInteraction ::
  "string \<Rightarrow> int \<Rightarrow> veritas \<Rightarrow> bool \<times> (string \<times> int) option \<times> veritas" where
  "TrackInteraction user now g =
     (let valid = filter (\<lambda>t. now - t < 300 * second) (interactions g user @ [now]);
          g = g\<lparr>interactions := (interactions g)(user := valid)\<rparr>
      in if 50 < length valid then (True, Some (''social_botting'', int (length valid)), g)
         else (False, None, g))"

text \<open>\<open>VerifyOriginality\<close>; \<open>computeFingerprint\<close> is the digest of the normalized text.\<close>

definition VerifyOriginality :: "(string \<Rightarrow> string) \<Rightarrow> string \<Rightarrow> veritas \<Rightarrow> (bool \<times> string) \<times> veritas" where
  "VerifyOriginality computeFingerprint content g =
     (let fp = computeFingerprint content
      in case fingerprints g fp of
           Some post \<Rightarrow> ((False, post), g)
         | None \<Rightarrow> ((True, []), g\<lparr>fingerprints := (fingerprints g)(fp \<mapsto> ''pending'')\<rparr>))"

section \<open>The contract of a sliding log\<close>

text \<open>
  One step decides on a request that carries an instant; \<open>fresh\<close> restricts the requests and states
  considered. What is admitted is logged, and only what has left the window is dropped.
\<close>

fun admitted :: "('i \<Rightarrow> 's \<Rightarrow> bool \<times> 's) \<Rightarrow> ('i \<Rightarrow> int) \<Rightarrow> 'i list \<Rightarrow> 's \<Rightarrow> int multiset" where
  "admitted step instant [] s = {#}"
| "admitted step instant (i # is) s =
     (let (ok, s') = step i s in (if ok then {#instant i#} else {#}) + admitted step instant is s')"

fun always :: "('i \<Rightarrow> 's \<Rightarrow> bool \<times> 's) \<Rightarrow> ('i \<Rightarrow> 's \<Rightarrow> bool) \<Rightarrow> 'i list \<Rightarrow> 's \<Rightarrow> bool" where
  "always step P [] s = True"
| "always step P (i # is) s = (P i s \<and> always step P is (snd (step i s)))"

text \<open>How many of the admitted requests lie in the window that ends at an instant.\<close>

definition in_window :: "int \<Rightarrow> int \<Rightarrow> int multiset \<Rightarrow> nat" where
  "in_window w t M = size (filter_mset (\<lambda>a. t - w < a \<and> a \<le> t) M)"

locale sliding_log =
  fixes step :: "'i \<Rightarrow> 's \<Rightarrow> bool \<times> 's" and instant :: "'i \<Rightarrow> int" and log :: "'s \<Rightarrow> int multiset"
    and limit :: nat and window :: int and fresh :: "'i \<Rightarrow> 's \<Rightarrow> bool"
  assumes admits_below: "fresh i s \<Longrightarrow> fst (step i s) \<Longrightarrow>
      size (filter_mset (\<lambda>t. instant i - window < t) (log s)) < limit"
    and logs_admitted: "fresh i s \<Longrightarrow> fst (step i s) \<Longrightarrow>
      add_mset (instant i) (filter_mset (\<lambda>t. instant i - window < t) (log s)) \<subseteq># log (snd (step i s))"
    and keeps_window: "fresh i s \<Longrightarrow>
      filter_mset (\<lambda>t. instant i - window < t) (log s) \<subseteq># log (snd (step i s))"
begin

lemma run_bound:
  assumes "filter_mset (\<lambda>t. now - window < t) M \<subseteq># log s" and "\<forall>t\<in>#M. t \<le> now"
    and "sorted (map instant is)" and "\<forall>i\<in>set is. now \<le> instant i" and "always step fresh is s"
    and "\<And>t. size (filter_mset (\<lambda>a. t - window < a \<and> a \<le> t) M) \<le> limit"
  shows "size (filter_mset (\<lambda>a. t - window < a \<and> a \<le> t) (M + admitted step instant is s)) \<le> limit"
  using assms
proof (induction "is" arbitrary: M s now t)
  case (Cons i "is")
  obtain ok s' where st: "step i s = (ok, s')" by fastforce
  let ?n = "instant i" and ?M = "(if ok then {#instant i#} else {#}) + M"
  from Cons.prems(5) st have fr: "fresh i s" "always step fresh is s'" by simp_all
  from Cons.prems(4) have le: "now \<le> ?n" by simp
  have old: "filter_mset (\<lambda>t. ?n - window < t) M \<subseteq># filter_mset (\<lambda>t. ?n - window < t) (log s)"
  proof -
    have "filter_mset (\<lambda>t. ?n - window < t) M
            = filter_mset (\<lambda>t. ?n - window < t) (filter_mset (\<lambda>t. now - window < t) M)"
      using le by (auto simp: filter_filter_mset intro!: filter_mset_cong)
    also have "\<dots> \<subseteq># filter_mset (\<lambda>t. ?n - window < t) (log s)"
      by (rule multiset_filter_mono [OF Cons.prems(1)])
    finally show ?thesis .
  qed
  have win: "filter_mset (\<lambda>t. ?n - window < t) ?M \<subseteq># log s'"
  proof (cases ok)
    case True
    have "filter_mset (\<lambda>t. ?n - window < t) ?M \<subseteq># add_mset ?n (filter_mset (\<lambda>t. ?n - window < t) M)"
      using True by (simp add: multiset_filter_subset)
    also have "\<dots> \<subseteq># add_mset ?n (filter_mset (\<lambda>t. ?n - window < t) (log s))" using old by simp
    finally show ?thesis using logs_admitted [OF fr(1)] True st by (simp add: subset_mset.order_trans)
  next
    case False
    with old keeps_window [OF fr(1)] st show ?thesis by (simp add: subset_mset.order_trans)
  qed
  have bound: "size (filter_mset (\<lambda>a. u - window < a \<and> a \<le> u) ?M) \<le> limit" for u
  proof (cases "ok \<and> u - window < ?n \<and> ?n \<le> u")
    case True
    have "filter_mset (\<lambda>a. u - window < a \<and> a \<le> u) M \<subseteq># filter_mset (\<lambda>t. ?n - window < t) M"
      using True by (auto intro!: mset_subset_eqI)
    then have "filter_mset (\<lambda>a. u - window < a \<and> a \<le> u) M \<subseteq># filter_mset (\<lambda>t. ?n - window < t) (log s)"
      using old by (rule subset_mset.order_trans)
    then have "size (filter_mset (\<lambda>a. u - window < a \<and> a \<le> u) M)
        \<le> size (filter_mset (\<lambda>t. ?n - window < t) (log s))" by (rule size_mset_mono)
    with admits_below [OF fr(1)] True st show ?thesis by simp
  next
    case False
    then show ?thesis using Cons.prems(6) [of u] by auto
  qed
  have "\<forall>t\<in>#?M. t \<le> ?n" using Cons.prems(2) le by auto
  moreover have "sorted (map instant is)" "\<forall>j\<in>set is. ?n \<le> instant j" using Cons.prems(3) by auto
  ultimately have "size (filter_mset (\<lambda>a. t - window < a \<and> a \<le> t) (?M + admitted step instant is s')) \<le> limit"
    using Cons.IH [OF win] fr(2) bound by blast
  then show ?case using st by (simp add: ac_simps)
qed simp

lemma window_bound:
  assumes "sorted (map instant is)" and "always step fresh is s"
  shows "in_window window t (admitted step instant is s) \<le> limit"
proof (cases "is")
  case (Cons i js)
  with assms run_bound [of "instant i" "{#}" s "is" t] show ?thesis by (auto simp: in_window_def)
qed (simp add: in_window_def)

end

section \<open>The in-memory counters keep the contract\<close>

text \<open>One user's requests, in their order; a request is admitted when it is not reported.\<close>

definition flood_step :: "string \<Rightarrow> int \<Rightarrow> times \<Rightarrow> bool \<times> times" where
  "flood_step user now m = (let ((flagged, _), m') = flood_check user now m in (\<not> flagged, m'))"

definition post_step :: "string \<Rightarrow> string \<times> int \<Rightarrow> veritas \<Rightarrow> bool \<times> veritas" where
  "post_step user i g = (let (flagged, _, g') = DetectBotPattern user (fst i) (snd i) g in (\<not> flagged, g'))"

definition interaction_step :: "string \<Rightarrow> int \<Rightarrow> veritas \<Rightarrow> bool \<times> veritas" where
  "interaction_step user now g = (let (flagged, _, g') = TrackInteraction user now g in (\<not> flagged, g'))"

lemma live_filter: "filter (\<lambda>t. now - t < w) xs = filter (\<lambda>t. now - w < t) xs" for now w :: int
  by (intro filter_cong) auto

lemma size_live: "size (filter_mset P (mset xs)) = length (filter P xs)"
  by (metis mset_filter size_mset)

interpretation flood: sliding_log "flood_step user" "\<lambda>i. i" "\<lambda>m. mset (m user)" 51 "10 * second" "\<lambda>_ _. True"
  by unfold_locales
    (auto simp: flood_step_def flood_check_def Let_def live_filter size_live
      multiset_filter_subset split: if_splits)

interpretation posts: sliding_log "post_step user" snd "\<lambda>g. mset (userPostTimes g user)" 10 "60 * second" "\<lambda>_ _. True"
  by unfold_locales
    (auto simp: post_step_def DetectBotPattern_def Let_def live_filter size_live second_def
      split: if_splits)

interpretation interacts: sliding_log "interaction_step user" "\<lambda>i. i" "\<lambda>g. mset (interactions g user)" 50 "300 * second" "\<lambda>_ _. True"
  by unfold_locales
    (auto simp: interaction_step_def TrackInteraction_def Let_def live_filter size_live second_def
      split: if_splits)

section \<open>The Redis window keeps the contract\<close>

record rl_request =
  rl_now :: int             \<comment> \<open>nanoseconds\<close>
  rl_member :: string       \<comment> \<open>the generated short identifier\<close>
  rl_outs :: "outcome list"

definition now_ms :: "rl_request \<Rightarrow> int" where "now_ms i = rl_now i div 1000000"

definition rl_step ::
  "rate_limiter \<Rightarrow> (int \<Rightarrow> string) \<Rightarrow> string \<Rightarrow> string \<Rightarrow> string \<Rightarrow> string \<Rightarrow> rl_request \<Rightarrow> redis session \<Rightarrow>
   bool \<times> redis session" where
  "rl_step rl show_int prefix ip user role i s =
     (case RateLimit rl show_int (rl_now i) (rl_member i) prefix ip user role
             (s\<lparr>durable := at_time (now_ms i) (durable s), outcomes := rl_outs i\<rparr>) of
        (Inr (Next _ _), s') \<Rightarrow> (True, s')
      | (_, s') \<Rightarrow> (False, s'))"

definition raw_zset :: "string \<Rightarrow> redis \<Rightarrow> (string \<times> int) list" where
  "raw_zset k r = (case store r k of Some (RZset z, _) \<Rightarrow> z | _ \<Rightarrow> [])"

text \<open>The set of a limiter lives as long as any of its entries is inside the window.\<close>

definition zset_ok :: "string \<Rightarrow> int \<Rightarrow> redis \<Rightarrow> bool" where
  "zset_ok k w r \<longleftrightarrow>
     store r k = None \<or>
     (\<exists>z t. store r k = Some (RZset z, Some t) \<and> (\<forall>p\<in>set z. 0 \<le> snd p \<and> snd p \<le> rclock r \<and> snd p + w \<le> t))"

lemma slidingWindow_effect:
  assumes "zset_ok k w r" and "rclock r \<le> now" and "0 \<le> w" and "0 \<le> now"
    and "m \<notin> fst ` set (raw_zset k r)"
  shows "\<exists>r' b n. slidingWindow k now w limit m (at_time now r) = Inr ((b, n), r') \<and>
     zset_ok k w r' \<and> rclock r' = now \<and>
     (let live = filter (\<lambda>p. now - w < snd p) (raw_zset k r)
      in if int (length live) < limit then b = 0 \<and> raw_zset k r' = live @ [(m, now)]
         else b = 1 \<and> raw_zset k r' = live)"
proof -
  let ?live = "filter (\<lambda>p. now - w < snd p) (raw_zset k r)"
  obtain z t where z: "raw_zset k r = z" "rlookup k (at_time now r) = None \<or> rlookup k (at_time now r) = Some (RZset z) \<and> store r k = Some (RZset z, Some t)"
    and le: "\<forall>p\<in>set z. 0 \<le> snd p \<and> snd p \<le> rclock r \<and> snd p + w \<le> t"
    and none: "rlookup k (at_time now r) = None \<Longrightarrow> ?live = []"
  proof (cases "store r k")
    case None
    then show thesis using that [of "[]" 0] by (simp add: raw_zset_def rlookup_def at_time_def)
  next
    case (Some v)
    with assms(1) obtain z t where "store r k = Some (RZset z, Some t)"
      "\<forall>p\<in>set z. 0 \<le> snd p \<and> snd p \<le> rclock r \<and> snd p + w \<le> t"
      by (auto simp: zset_ok_def)
    moreover from this have "?live = []" if "\<not> now < t" using that
      by (auto simp: raw_zset_def filter_empty_conv)
    ultimately show thesis using that [of z t]
      by (cases "now < t") (auto simp: raw_zset_def rlookup_def at_time_def)
  qed
  have zs: "\<exists>z'. zset_of k (at_time now r) = Inr z' \<and> filter (\<lambda>p. \<not> (0 \<le> snd p \<and> snd p \<le> now - w)) z' = ?live"
    using z(2)
  proof
    assume n: "rlookup k (at_time now r) = None"
    with none show ?thesis by (simp add: zset_of_def)
  next
    assume "rlookup k (at_time now r) = Some (RZset z) \<and> store r k = Some (RZset z, Some t)"
    then show ?thesis using z(1) le by (auto simp: zset_of_def intro!: filter_cong)
  qed
  obtain r1 where r1: "ZREMRANGEBYSCORE k 0 (now - w) (at_time now r) = Inr ((), r1)"
      "r1 = zput k ?live (at_time now r)"
    using zs by (auto simp: ZREMRANGEBYSCORE_def)
  have tz: "store r k = Some (RZset z, Some t) \<and> now < t" if "?live \<noteq> []"
    using that none z by (auto simp: rlookup_def at_time_def split: option.splits if_splits prod.splits)
  have clock: "rclock (at_time now r) = now" by (simp add: at_time_def)
  have ex: "zexpiry k (at_time now r) = Some t" if "?live \<noteq> []"
    using tz [OF that] by (simp add: zexpiry_def rlookup_def at_time_def)
  have look1: "rlookup k r1 = (if ?live = [] then None else Some (RZset ?live))"
    using tz clock ex by (simp add: r1(2) zput_def)
  have st1: "store r1 k = (if ?live = [] then None else Some (RZset ?live, Some t))"
    using ex by (simp add: r1(2) zput_def) (simp add: rset_def rdel_def)
  have c1: "rclock r1 = now" by (simp add: r1(2) clock)
  have card: "ZCARD k r1 = Inr (length ?live, r1)" by (simp add: ZCARD_def zset_of_def look1)
  have live_le: "\<forall>p\<in>set ?live. 0 \<le> snd p \<and> snd p \<le> now \<and> snd p + w \<le> t"
    using le assms(2) z(1) by auto
  show ?thesis
  proof (cases "int (length ?live) < limit")
    case False
    then have "slidingWindow k now w limit m (at_time now r) = Inr ((1, int (length ?live)), r1)"
      by (simp add: slidingWindow_def sbind_def r1(1) card sreturn_def)
    moreover have "zset_ok k w r1" using live_le by (auto simp: zset_ok_def st1 c1)
    moreover have "raw_zset k r1 = ?live" by (simp add: raw_zset_def st1)
    ultimately show ?thesis using False c1 by (auto simp: Let_def)
  next
    case True
    have fr: "filter (\<lambda>p. fst p \<noteq> m) ?live = ?live" using assms(5) by (intro filter_True) force
    define r2 where "r2 = zput k (?live @ [(m, now)]) r1"
    have add: "ZADD k now m r1 = Inr ((), r2)"
      by (simp add: ZADD_def zset_of_def look1 r2_def fr del: filter_filter)
    have look2: "rlookup k r2 = Some (RZset (?live @ [(m, now)]))"
      using tz by (simp add: r2_def zput_def zexpiry_def look1 st1 c1)
    have c2: "rclock r2 = now" by (simp add: r2_def c1)
    define secs where "secs = \<lceil>real_of_int w / 1000\<rceil> + 1"
    have "real_of_int w \<le> 1000 * real_of_int \<lceil>real_of_int w / 1000\<rceil>"
      using le_of_int_ceiling [of "real_of_int w / 1000"] by linarith
    then have "real_of_int w \<le> real_of_int (1000 * secs)" by (simp add: secs_def)
    then have secs: "0 < secs" "w \<le> 1000 * secs" using assms(3) unfolding secs_def by (linarith, linarith)
    define r3 where "r3 = rset k (RZset (?live @ [(m, now)])) (Some (now + 1000 * secs)) r2"
    have "EXPIRE k secs r2 = Inr ((), r3)"
      using secs(1) by (simp add: EXPIRE_def look2 r3_def c2)
    then have "slidingWindow k now w limit m (at_time now r) = Inr ((0, int (length ?live) + 1), r3)"
      using True by (simp add: slidingWindow_def sbind_def r1(1) card add sreturn_def secs_def [symmetric])
    moreover have "zset_ok k w r3"
      using live_le secs(2) assms(4) by (fastforce simp: zset_ok_def r3_def rset_def c2)
    moreover have "raw_zset k r3 = ?live @ [(m, now)]" by (simp add: raw_zset_def r3_def rset_def)
    moreover have "rclock r3 = now" by (simp add: r3_def c2)
    ultimately show ?thesis using True by (auto simp: Let_def)
  qed
qed

definition rl_fresh ::
  "rate_limiter \<Rightarrow> (int \<Rightarrow> string) \<Rightarrow> string \<Rightarrow> rl_request \<Rightarrow> redis session \<Rightarrow> bool" where
  "rl_fresh rl show_int k i s \<longleftrightarrow>
     zset_ok k (rl_window rl div 1000000) (durable s) \<and> rclock (durable s) \<le> now_ms i \<and> 0 \<le> now_ms i \<and>
     0 \<le> rl_window rl div 1000000 \<and>
     show_int (now_ms i) @ '':'' @ rl_member i \<notin> fst ` set (raw_zset k (durable s))"

lemma rl_step_effect:
  assumes "rl_fresh rl show_int (limit_key prefix ip user) i s"
    and "rl_step rl show_int prefix ip user role i s = (ok, s')"
  defines "k \<equiv> limit_key prefix ip user" and "w \<equiv> rl_window rl div 1000000"
  shows "zset_ok k w (durable s')" "rclock (durable s') = (if rdb_set rl then now_ms i else rclock (durable s'))"
    "rdb_set rl \<or> \<not> ok" "rclock (durable s') = now_ms i"
    "(raw_zset k (durable s') = raw_zset k (durable s) \<and> \<not> ok) \<or>
     (let live = filter (\<lambda>p. now_ms i - w < snd p) (raw_zset k (durable s))
      in if int (length live) < effective_limit rl role
         then raw_zset k (durable s') = live @ [(show_int (now_ms i) @ '':'' @ rl_member i, now_ms i)]
         else raw_zset k (durable s') = live \<and> \<not> ok)"
proof -
  let ?s = "s\<lparr>durable := at_time (now_ms i) (durable s), outcomes := rl_outs i\<rparr>"
  let ?m = "show_int (now_ms i) @ '':'' @ rl_member i"
  have same: "zset_ok k w (at_time (now_ms i) (durable s))" "raw_zset k (at_time (now_ms i) (durable s)) = raw_zset k (durable s)"
    using assms(1) by (fastforce simp: rl_fresh_def zset_ok_def at_time_def raw_zset_def k_def w_def)+
  from assms(1) slidingWindow_effect [of k w "durable s" "now_ms i" ?m "effective_limit rl role"]
  obtain r' b n where script: "slidingWindow k (now_ms i) w (effective_limit rl role) ?m (at_time (now_ms i) (durable s)) = Inr ((b, n), r')"
    and r': "zset_ok k w r'" "rclock r' = now_ms i"
      "let live = filter (\<lambda>p. now_ms i - w < snd p) (raw_zset k (durable s))
       in if int (length live) < effective_limit rl role then b = 0 \<and> raw_zset k r' = live @ [(?m, now_ms i)]
          else b = 1 \<and> raw_zset k r' = live"
    unfolding rl_fresh_def k_def [symmetric] w_def [symmetric] by blast
  obtain x s1 where nx: "next_outcome ?s = (x, s1)" by fastforce
  then have s1: "durable s1 = at_time (now_ms i) (durable s)"
    by (auto simp: next_outcome_def split: list.splits)
  have cases: "(durable s' = at_time (now_ms i) (durable s) \<and> \<not> ok) \<or> (rdb_set rl \<and> durable s' = r' \<and> (b = 1 \<longrightarrow> \<not> ok))"
    using assms(2) script s1
    by (cases "rdb_set rl"; cases x)
      (auto simp: rl_step_def RateLimit_def autocommit_def nx Let_def k_def w_def now_ms_def [symmetric] split: if_splits)
  have off: "durable s' = at_time (now_ms i) (durable s) \<and> \<not> ok" if "\<not> rdb_set rl"
    using assms(2) that by (auto simp: rl_step_def RateLimit_def)
  show "rclock (durable s') = now_ms i" using cases r'(2) by (auto simp: at_time_def)
  then show "rclock (durable s') = (if rdb_set rl then now_ms i else rclock (durable s'))" by simp
  show "rdb_set rl \<or> \<not> ok" using off by blast
  show "zset_ok k w (durable s')" using cases r'(1) same by auto
  show "(raw_zset k (durable s') = raw_zset k (durable s) \<and> \<not> ok) \<or>
     (let live = filter (\<lambda>p. now_ms i - w < snd p) (raw_zset k (durable s))
      in if int (length live) < effective_limit rl role
         then raw_zset k (durable s') = live @ [(?m, now_ms i)]
         else raw_zset k (durable s') = live \<and> \<not> ok)"
    using cases same r'(3) by (auto simp: Let_def split: if_splits)
qed

interpretation redis_window: sliding_log "rl_step rl show_int prefix ip user role" now_ms
  "\<lambda>s. mset (map snd (raw_zset (limit_key prefix ip user) (durable s)))"
  "nat (effective_limit rl role)" "rl_window rl div 1000000" "rl_fresh rl show_int (limit_key prefix ip user)"
proof
  fix i s
  assume fr: "rl_fresh rl show_int (limit_key prefix ip user) i s"
  obtain ok s' where st: "rl_step rl show_int prefix ip user role i s = (ok, s')" by fastforce
  let ?z = "raw_zset (limit_key prefix ip user)" and ?w = "rl_window rl div 1000000"
  note eff = rl_step_effect(5) [OF fr st]
  have live: "filter_mset (\<lambda>t. now_ms i - ?w < t) (mset (map snd (?z (durable s))))
      = mset (map snd (filter (\<lambda>p. now_ms i - ?w < snd p) (?z (durable s))))"
    by (metis (mono_tags, lifting) comp_def filter_map mset_filter filter_cong)
  have sub: "mset (map snd (filter P xs)) \<subseteq># mset (map snd xs)" for P and xs :: "(string \<times> int) list"
    by (simp add: image_mset_subseteq_mono multiset_filter_subset)
  show "filter_mset (\<lambda>t. now_ms i - ?w < t) (mset (map snd (?z (durable s))))
      \<subseteq># mset (map snd (?z (durable (snd (rl_step rl show_int prefix ip user role i s)))))"
    using eff sub unfolding st by (auto simp: Let_def live simp del: mset_map mset_filter split: if_splits)
  assume "fst (rl_step rl show_int prefix ip user role i s)"
  then have ok: "ok" using st by simp
  have "size (filter_mset (\<lambda>t. now_ms i - ?w < t) (mset (map snd (?z (durable s)))))
      = length (filter (\<lambda>p. now_ms i - ?w < snd p) (?z (durable s)))" unfolding live by (metis length_map size_mset)
  with eff ok show "size (filter_mset (\<lambda>t. now_ms i - ?w < t) (mset (map snd (?z (durable s))))) < nat (effective_limit rl role)"
    by (auto simp: Let_def split: if_splits)
  show "add_mset (now_ms i) (filter_mset (\<lambda>t. now_ms i - ?w < t) (mset (map snd (?z (durable s)))))
      \<subseteq># mset (map snd (?z (durable (snd (rl_step rl show_int prefix ip user role i s)))))"
    using eff ok unfolding st by (auto simp: Let_def live simp del: mset_map mset_filter split: if_splits)
qed

text \<open>
  The side conditions hold along any run whose clock does not run backwards and whose generated members
  differ, from a store that has no key for the caller.
\<close>

definition member_of :: "(int \<Rightarrow> string) \<Rightarrow> rl_request \<Rightarrow> string" where
  "member_of show_int i = show_int (now_ms i) @ '':'' @ rl_member i"

lemma always_fresh:
  assumes "zset_ok (limit_key prefix ip user) (rl_window rl div 1000000) (durable s)" and "0 \<le> rl_window rl"
    and "\<forall>i\<in>set is. rclock (durable s) \<le> now_ms i \<and> 0 \<le> now_ms i" and "sorted (map now_ms is)"
    and "distinct (map (member_of show_int) is)"
    and "\<forall>i\<in>set is. member_of show_int i \<notin> fst ` set (raw_zset (limit_key prefix ip user) (durable s))"
  shows "always (rl_step rl show_int prefix ip user role) (rl_fresh rl show_int (limit_key prefix ip user)) is s"
  using assms(1,3-)
proof (induction "is" arbitrary: s)
  case (Cons i "is")
  obtain ok s' where st: "rl_step rl show_int prefix ip user role i s = (ok, s')" by fastforce
  have fr: "rl_fresh rl show_int (limit_key prefix ip user) i s"
    using Cons.prems assms(2) by (simp add: rl_fresh_def member_of_def)
  note eff = rl_step_effect [OF fr st]
  have "fst ` set (raw_zset (limit_key prefix ip user) (durable s')) \<subseteq>
      insert (member_of show_int i) (fst ` set (raw_zset (limit_key prefix ip user) (durable s)))"
    using eff(5) by (auto simp: Let_def member_of_def split: if_splits)
  then have "\<forall>j\<in>set is. member_of show_int j \<notin> fst ` set (raw_zset (limit_key prefix ip user) (durable s'))"
    using Cons.prems(4,5) by (simp add: subset_iff) (metis image_eqI)
  with Cons.IH [OF eff(1)] Cons.prems(2-4) eff(4) have
    "always (rl_step rl show_int prefix ip user role) (rl_fresh rl show_int (limit_key prefix ip user)) is s'" by simp
  with fr st show ?case by simp
qed simp

section \<open>The fixed window\<close>

definition incr_expire :: "string \<Rightarrow> int \<Rightarrow> (redis, int) sql" where
  "incr_expire key secs =
     sbind (INCR key) (\<lambda>n.
     sbind (if n = 1 then EXPIRE key secs else sreturn ()) (\<lambda>_. sreturn n))"

definition RateLimitCheck :: "bool \<Rightarrow> string \<Rightarrow> int \<Rightarrow> int \<Rightarrow> (redis, bool) dbm" where
  "RateLimitCheck rdb user limit window =
     (if \<not> rdb \<or> user = [] \<or> limit \<le> 0 \<or> window \<le> 0 then dfail (Errorf ''invalid rate limit request'')
      else dbind (autocommit (incr_expire (''ratelimit:'' @ user) (window div second))) (\<lambda>n. dreturn (n \<le> limit)))"

text \<open>Calls at given instants (milliseconds) over a connection that does not fail.\<close>

fun check_run :: "string \<Rightarrow> int \<Rightarrow> int \<Rightarrow> int list \<Rightarrow> redis session \<Rightarrow> bool res list" where
  "check_run user limit window [] s = []"
| "check_run user limit window (t # ts) s =
     (let (r, s') = RateLimitCheck True user limit window (s\<lparr>durable := at_time t (durable s), outcomes := []\<rparr>)
      in r # check_run user limit window ts s')"

lemma check_step:
  assumes "0 < limit" "0 < window" "user \<noteq> []"
    and "incr_expire (''ratelimit:'' @ user) (window div second) (at_time t (durable s)) = Inr (n, r')"
  shows "\<exists>s'. RateLimitCheck True user limit window (s\<lparr>durable := at_time t (durable s), outcomes := []\<rparr>)
           = (Inr (n \<le> limit), s') \<and> durable s' = r'"
  using assms by (simp add: RateLimitCheck_def dbind_def autocommit_def next_outcome_def dreturn_def)

lemma incr_first:
  assumes "rlookup k r = None"
  shows "incr_expire k secs r = Inr (1,
     if secs \<le> 0 then rdel k (rset k (RInt 1) None r)
     else rset k (RInt 1) (Some (rclock r + 1000 * secs)) (rset k (RInt 1) None r))"
  using assms by (simp add: incr_expire_def sbind_def sreturn_def INCR_def EXPIRE_def)

lemma incr_next:
  assumes "store r k = Some (RInt n, Some e)" "rclock r < e" "0 < n"
  shows "incr_expire k secs r = Inr (n + 1, rset k (RInt (n + 1)) (Some e) r)"
  using assms by (simp add: incr_expire_def sbind_def sreturn_def INCR_def rlookup_def)

lemma at_time_simps [simp]: "store (at_time t r) = store r" "rclock (at_time t r) = t"
  by (simp_all add: at_time_def)

lemma store_rset [simp]: "store (rset k v t r) k = Some (v, t)" "store (rdel k r) k = None"
  by (simp_all add: rset_def rdel_def)

lemma check_run_counting:
  assumes "0 < limit" "0 < window" "user \<noteq> []"
    and "store (durable s) (''ratelimit:'' @ user) = Some (RInt n, Some e)" and "\<forall>t\<in>set ts. t < e" and "0 < n"
  shows "check_run user limit window ts s = map (\<lambda>j. Inr (n + int j + 1 \<le> limit)) [0..<length ts]"
  using assms(4-)
proof (induction ts arbitrary: s n)
  case (Cons t ts)
  define k where "k = ''ratelimit:'' @ user"
  let ?r = "rset k (RInt (n + 1)) (Some e) (at_time t (durable s))"
  have "incr_expire k (window div second) (at_time t (durable s)) = Inr (n + 1, ?r)"
    using Cons.prems by (intro incr_next) (simp_all add: k_def)
  then have "incr_expire (''ratelimit:'' @ user) (window div second) (at_time t (durable s)) = Inr (n + 1, ?r)"
    by (simp only: k_def)
  from check_step [OF assms(1-3) this] obtain s' where
    s': "RateLimitCheck True user limit window (s\<lparr>durable := at_time t (durable s), outcomes := []\<rparr>) = (Inr (n + 1 \<le> limit), s')"
      "durable s' = ?r" by blast
  have "check_run user limit window ts s' = map (\<lambda>j. Inr ((n + 1) + int j + 1 \<le> limit)) [0..<length ts]"
    using Cons.IH [of s' "n + 1"] Cons.prems s'(2) by (simp only: k_def store_rset) simp
  then show ?case using s'(1)
    by (simp add: map_upt_Suc algebra_simps del: upt_Suc)
qed simp

lemma check_run_fresh:
  assumes "0 < limit" "second \<le> window" "user \<noteq> []" "rlookup (''ratelimit:'' @ user) (at_time t0 (durable s)) = None"
    and "\<forall>t\<in>set ts. t < t0 + 1000 * (window div second)"
  shows "check_run user limit window (t0 # ts) s = map (\<lambda>j. Inr (int j < limit)) [0..<Suc (length ts)]"
proof -
  define k where "k = ''ratelimit:'' @ user"
  let ?w = "window div second"
  have w: "0 < ?w" "0 < window" using assms(2) by (auto simp: second_def)
  let ?r = "rset k (RInt 1) (Some (t0 + 1000 * ?w)) (rset k (RInt 1) None (at_time t0 (durable s)))"
  have "incr_expire k ?w (at_time t0 (durable s)) = Inr (1, ?r)"
    using incr_first [OF assms(4), of ?w] w by (simp only: k_def) simp
  then have "incr_expire (''ratelimit:'' @ user) ?w (at_time t0 (durable s)) = Inr (1, ?r)"
    by (simp only: k_def)
  from check_step [OF assms(1) w(2) assms(3) this] obtain s' where
    s': "RateLimitCheck True user limit window (s\<lparr>durable := at_time t0 (durable s), outcomes := []\<rparr>) = (Inr (1 \<le> limit), s')"
      "durable s' = ?r" by blast
  have "store (durable s') (''ratelimit:'' @ user) = Some (RInt 1, Some (t0 + 1000 * ?w))"
    using s'(2) by (simp only: k_def store_rset)
  then have "check_run user limit window ts s' = map (\<lambda>j. Inr (1 + int j + 1 \<le> limit)) [0..<length ts]"
    by (rule check_run_counting [OF assms(1) w(2) assms(3) _ assms(5)]) simp
  with s'(1) assms(1) show ?thesis by (auto simp: map_upt_Suc algebra_simps simp del: upt_Suc)
qed

lemma check_run_subsecond:
  assumes "0 < limit" "0 < window" "window < second" "user \<noteq> []"
    and "store (durable s) (''ratelimit:'' @ user) = None"
  shows "check_run user limit window ts s = map (\<lambda>_. Inr True) ts"
  using assms(5)
proof (induction ts arbitrary: s)
  case (Cons t ts)
  define k where "k = ''ratelimit:'' @ user"
  have z: "window div second = 0" using assms(2,3) by simp
  let ?r = "rdel k (rset k (RInt 1) None (at_time t (durable s)))"
  from Cons.prems have "rlookup k (at_time t (durable s)) = None" by (simp add: rlookup_def k_def)
  from incr_first [OF this, of "window div second"]
  have "incr_expire (''ratelimit:'' @ user) (window div second) (at_time t (durable s)) = Inr (1, ?r)"
    by (simp only: z k_def) simp
  from check_step [OF assms(1,2,4) this] obtain s' where
    "RateLimitCheck True user limit window (s\<lparr>durable := at_time t (durable s), outcomes := []\<rparr>) = (Inr (1 \<le> limit), s')"
      "durable s' = ?r" by blast
  moreover from this have "store (durable s') (''ratelimit:'' @ user) = None" by (simp only: k_def store_rset)
  ultimately show ?case using Cons.IH assms(1) by simp
qed simp

section \<open>The token bucket\<close>

record bucket =
  tokens :: real
  b_capacity :: real
  refillRate :: real      \<comment> \<open>per second\<close>
  lastRefill :: int

record token_limiter =
  visitors :: "string \<rightharpoonup> bucket"
  rate :: real
  tl_capacity :: real

definition seconds :: "int \<Rightarrow> real" where "seconds d = real_of_int d / 1000000000"

definition Allow :: "int \<Rightarrow> bucket \<Rightarrow> bool \<times> bucket" where
  "Allow now tb =
     (let t = tokens tb + seconds (now - lastRefill tb) * refillRate tb;
          t = (if b_capacity tb < t then b_capacity tb else t);
          tb = tb\<lparr>tokens := t, lastRefill := now\<rparr>
      in if t < 1 then (False, tb) else (True, tb\<lparr>tokens := t - 1\<rparr>))"

definition getVisitor :: "string \<Rightarrow> int \<Rightarrow> token_limiter \<Rightarrow> bucket \<times> token_limiter" where
  "getVisitor ip now rl =
     (case visitors rl ip of
        Some tb \<Rightarrow> (tb, rl)
      | None \<Rightarrow> (let tb = \<lparr>tokens = tl_capacity rl, b_capacity = tl_capacity rl, refillRate = rate rl, lastRefill = now\<rparr>
                 in (tb, rl\<lparr>visitors := (visitors rl)(ip \<mapsto> tb)\<rparr>)))"

definition cleanup :: "int \<Rightarrow> token_limiter \<Rightarrow> token_limiter" where
  "cleanup now rl =
     rl\<lparr>visitors := (\<lambda>ip. case visitors rl ip of
                         None \<Rightarrow> None
                       | Some tb \<Rightarrow> if 180 * second < now - lastRefill tb then None else Some tb)\<rparr>"

text \<open>One request of a visitor: the bucket that \<open>getVisitor\<close> returns is shared with the map.\<close>

definition token_request :: "string \<Rightarrow> int \<Rightarrow> token_limiter \<Rightarrow> bool \<times> token_limiter" where
  "token_request ip now rl =
     (let (tb, rl) = getVisitor ip now rl; (ok, tb) = Allow now tb
      in (ok, rl\<lparr>visitors := (visitors rl)(ip \<mapsto> tb)\<rparr>))"

datatype token_event = Request string int | Cleanup int

fun event_time :: "token_event \<Rightarrow> int" where
  "event_time (Request ip t) = t"
| "event_time (Cleanup t) = t"

text \<open>How many requests of one visitor pass.\<close>

fun passed :: "string \<Rightarrow> token_event list \<Rightarrow> token_limiter \<Rightarrow> nat" where
  "passed ip [] rl = 0"
| "passed ip (Request ip' t # evs) rl =
     (let (ok, rl') = token_request ip' t rl in (if ok \<and> ip' = ip then 1 else 0) + passed ip evs rl')"
| "passed ip (Cleanup t # evs) rl = passed ip evs (cleanup t rl)"

text \<open>The tokens a visitor could use at an instant.\<close>

definition level :: "string \<Rightarrow> int \<Rightarrow> token_limiter \<Rightarrow> real" where
  "level ip now rl =
     (case visitors rl ip of
        None \<Rightarrow> tl_capacity rl
      | Some tb \<Rightarrow> min (tl_capacity rl) (tokens tb + seconds (now - lastRefill tb) * rate rl))"

definition limiter_ok :: "int \<Rightarrow> token_limiter \<Rightarrow> bool" where
  "limiter_ok now rl \<longleftrightarrow> 0 \<le> rate rl \<and> 0 \<le> tl_capacity rl \<and> tl_capacity rl \<le> 180 * rate rl \<and>
     (\<forall>ip tb. visitors rl ip = Some tb \<longrightarrow> 0 \<le> tokens tb \<and> b_capacity tb = tl_capacity rl \<and>
        refillRate tb = rate rl \<and> lastRefill tb \<le> now)"

lemma seconds_mono: "a \<le> b \<Longrightarrow> seconds a \<le> seconds b" and seconds_nonneg: "0 \<le> a \<Longrightarrow> 0 \<le> seconds a"
  by (simp_all add: seconds_def divide_right_mono)

lemma seconds_split: "seconds (c - a) = seconds (c - b) + seconds (b - a)"
  by (simp add: seconds_def diff_divide_distrib)

lemma level_later:
  assumes "limiter_ok now rl" and "now \<le> t"
  shows "level ip t rl \<le> level ip now rl + seconds (t - now) * rate rl" "limiter_ok t rl"
proof -
  have r: "0 \<le> seconds (t - now) * rate rl"
    using assms by (simp add: limiter_ok_def seconds_nonneg)
  have sp: "seconds (t - l) * rate rl = seconds (now - l) * rate rl + seconds (t - now) * rate rl" for l
    using seconds_split [of t l now] by (simp add: algebra_simps)
  have m: "min c (x + d) \<le> min c x + d" if "0 \<le> d" for c x d :: real
    using that by (simp add: min_def)
  show "level ip t rl \<le> level ip now rl + seconds (t - now) * rate rl"
  proof (cases "visitors rl ip")
    case None
    with r show ?thesis by (simp add: level_def)
  next
    case (Some tb)
    with m [OF r, of "tl_capacity rl" "tokens tb + seconds (now - lastRefill tb) * rate rl"]
    show ?thesis by (simp add: level_def sp [of "lastRefill tb"] add.assoc)
  qed
  show "limiter_ok t rl" using assms by (force simp: limiter_ok_def)
qed

lemma token_request_level:
  assumes "limiter_ok now rl" and "token_request ip' now rl = (ok, rl')"
  shows "limiter_ok now rl'" "rate rl' = rate rl" "tl_capacity rl' = tl_capacity rl"
    "(if ok \<and> ip' = ip then 1 else 0) + level ip now rl' \<le> level ip now rl"
proof -
  obtain tb rl1 where g: "getVisitor ip' now rl = (tb, rl1)" by fastforce
  have tb: "0 \<le> tokens tb" "b_capacity tb = tl_capacity rl" "refillRate tb = rate rl" "lastRefill tb \<le> now"
    and rl1: "visitors rl1 = (visitors rl)(ip' \<mapsto> tb)" "rate rl1 = rate rl" "tl_capacity rl1 = tl_capacity rl"
    and lv: "level ip' now rl = min (tl_capacity rl) (tokens tb + seconds (now - lastRefill tb) * rate rl)"
    using g assms(1) by (auto simp: getVisitor_def limiter_ok_def level_def seconds_def fun_upd_idem Let_def split: option.splits)
  obtain tb' where a: "Allow now tb = (ok, tb')" and rl': "rl' = rl1\<lparr>visitors := (visitors rl1)(ip' \<mapsto> tb')\<rparr>"
    using assms(2) g by (auto simp: token_request_def split: prod.splits)
  have up: "0 \<le> tokens tb + seconds (now - lastRefill tb) * rate rl"
    using tb assms(1) by (simp add: limiter_ok_def seconds_nonneg)
  have tb': "0 \<le> tokens tb'" "b_capacity tb' = tl_capacity rl" "refillRate tb' = rate rl" "lastRefill tb' = now"
    "(if ok then 1 else 0) + tokens tb' = level ip' now rl"
    using a tb up assms(1) by (auto simp: Allow_def lv Let_def min_def limiter_ok_def split: if_splits)
  show "limiter_ok now rl'" using assms(1) tb' by (auto simp: limiter_ok_def rl' rl1)
  show "rate rl' = rate rl" "tl_capacity rl' = tl_capacity rl" by (simp_all add: rl' rl1)
  show "(if ok \<and> ip' = ip then 1 else 0) + level ip now rl' \<le> level ip now rl"
  proof (cases "ip' = ip")
    case True
    have "level ip' now rl' \<le> tokens tb'" by (simp add: level_def rl' seconds_def tb'(4))
    with True tb'(5) show ?thesis by (auto split: if_splits)
  next
    case False
    then show ?thesis by (simp add: level_def rl' rl1 split: option.splits)
  qed
qed

lemma cleanup_level:
  assumes "limiter_ok now rl"
  shows "limiter_ok now (cleanup now rl)" "level ip now (cleanup now rl) = level ip now rl"
proof -
  show "limiter_ok now (cleanup now rl)"
    using assms by (auto simp: limiter_ok_def cleanup_def split: option.splits if_splits)
  have "tl_capacity rl \<le> tokens tb + seconds (now - lastRefill tb) * rate rl"
    if "visitors rl ip = Some tb" "180 * second < now - lastRefill tb" for tb
  proof -
    have "180 \<le> seconds (now - lastRefill tb)"
      using that(2) by (simp add: seconds_def second_def)
    then have "180 * rate rl \<le> seconds (now - lastRefill tb) * rate rl"
      using assms by (intro mult_right_mono) (auto simp: limiter_ok_def)
    with assms that(1) show ?thesis by (fastforce simp: limiter_ok_def)
  qed
  then show "level ip now (cleanup now rl) = level ip now rl"
    by (auto simp: level_def cleanup_def min_def split: option.splits)
qed

lemma passed_level:
  assumes "limiter_ok now rl" and "sorted (now # map event_time evs)" and "\<forall>e\<in>set evs. event_time e \<le> t"
    and "now \<le> t"
  shows "real (passed ip evs rl) \<le> level ip now rl + seconds (t - now) * rate rl"
  using assms
proof (induction evs arbitrary: now rl)
  case Nil
  then have "0 \<le> level ip now rl"
    by (auto simp: level_def limiter_ok_def seconds_nonneg split: option.splits)
  with Nil show ?case by (simp add: limiter_ok_def seconds_nonneg)
next
  case (Cons e evs)
  let ?n = "event_time e"
  from Cons.prems have n: "now \<le> ?n" "?n \<le> t" by auto
  note later = level_later [OF Cons.prems(1) n(1)]
  have sp: "seconds (t - now) * rate rl = seconds (t - ?n) * rate rl + seconds (?n - now) * rate rl"
    using seconds_split [of t now ?n] by (simp add: algebra_simps)
  show ?case
  proof (cases e)
    case (Request ip' u)
    obtain ok rl' where req: "token_request ip' ?n rl = (ok, rl')" by fastforce
    note r = token_request_level [OF later(2) req]
    have "real (passed ip evs rl') \<le> level ip ?n rl' + seconds (t - ?n) * rate rl"
      using Cons.IH [OF r(1)] Cons.prems n r(2) by simp
    with r(4) [of ip] later(1) [of ip] sp req show ?thesis by (auto simp: Request)
  next
    case (Cleanup u)
    have "rate (cleanup ?n rl) = rate rl" by (simp add: cleanup_def)
    then have "real (passed ip evs (cleanup ?n rl)) \<le> level ip ?n rl + seconds (t - ?n) * rate rl"
      using Cons.IH [OF cleanup_level(1) [OF later(2)]] Cons.prems n cleanup_level(2) [OF later(2)] by simp
    with later(1) [of ip] sp show ?thesis by (simp add: Cleanup)
  qed
qed

section \<open>Properties\<close>

text \<open>
  C36. The Redis limiter keeps its promise. For one caller whose requests come with a clock that does not
  run backwards and with distinct members, starting without a key and with any Redis calls failing or
  losing their answer, in every window of the configured length at most the limit of the caller's role
  (five times the configured one for a verified user, twice for an administrator) of requests pass.
\<close>

theorem redis_rate_limit:
  assumes "store (durable s) (limit_key prefix ip user) = None" and "0 \<le> rl_window rl"
    and "\<forall>i\<in>set is. rclock (durable s) \<le> now_ms i \<and> 0 \<le> now_ms i" and "sorted (map now_ms is)"
    and "distinct (map (member_of show_int) is)"
  shows "in_window (rl_window rl div 1000000) t (admitted (rl_step rl show_int prefix ip user role) now_ms is s)
           \<le> nat (effective_limit rl role)"
proof -
  have "zset_ok (limit_key prefix ip user) (rl_window rl div 1000000) (durable s)"
    "raw_zset (limit_key prefix ip user) (durable s) = []"
    using assms(1) by (simp_all add: zset_ok_def raw_zset_def)
  then have "always (rl_step rl show_int prefix ip user role) (rl_fresh rl show_int (limit_key prefix ip user)) is s"
    using assms(2-) by (intro always_fresh) simp_all
  with assms(4) show ?thesis by (rule redis_window.window_bound)
qed

definition demo_limiter :: rate_limiter where
  "demo_limiter = \<lparr>rdb_set = True, maxRequests = 1, rl_window = 60 * second\<rparr>"

theorem redis_rate_limit_witness:
  "in_window 60000 9 (admitted (rl_step demo_limiter (\<lambda>n. []) ''login'' ''10.0.0.1'' [] ''admin'') now_ms
     [\<lparr>rl_now = 1000000, rl_member = ''x'', rl_outs = []\<rparr>, \<lparr>rl_now = 2000000, rl_member = ''y'', rl_outs = [AckLost]\<rparr>,
      \<lparr>rl_now = 3000000, rl_member = ''z'', rl_outs = []\<rparr>]
     \<lparr>durable = no_redis, view = no_redis, aborted = False, outcomes = []\<rparr>) \<le> 2"
  using redis_rate_limit [of "\<lparr>durable = no_redis, view = no_redis, aborted = False, outcomes = []\<rparr>" "''login''" "''10.0.0.1''" "[]" demo_limiter
    "[\<lparr>rl_now = 1000000, rl_member = ''x'', rl_outs = []\<rparr>, \<lparr>rl_now = 2000000, rl_member = ''y'', rl_outs = [AckLost]\<rparr>,
      \<lparr>rl_now = 3000000, rl_member = ''z'', rl_outs = []\<rparr>]" "\<lambda>n. []" 9 "''admin''"]
  by (simp add: no_redis_def now_ms_def member_of_def demo_limiter_def second_def effective_limit_def
      del: admitted.simps)

text \<open>
  The in-memory rules. For one user whose requests carry times in order: in any ten seconds at most
  51 requests pass the flood rule of the anomaly detector, in any minute at most ten posts and in any
  five minutes at most fifty interactions go unreported by the content guard, whatever is posted.
\<close>

theorem memory_rate_limits:
  assumes "sorted ts" and "sorted (map snd ps)"
  shows "in_window (10 * second) t (admitted (flood_step user) (\<lambda>i. i) ts m) \<le> 51 \<and>
         in_window (60 * second) t (admitted (post_step user) snd ps g) \<le> 10 \<and>
         in_window (300 * second) t (admitted (interaction_step user) (\<lambda>i. i) ts g) \<le> 50"
proof -
  have al: "always step (\<lambda>_ _. True) xs x" for step :: "'a \<Rightarrow> 'b \<Rightarrow> bool \<times> 'b" and xs x
    by (induction xs arbitrary: x) simp_all
  from assms show ?thesis
    by (intro conjI flood.window_bound posts.window_bound interacts.window_bound) (simp_all add: al)
qed

theorem memory_rate_limits_witness:
  "in_window (60 * second) 12 (admitted (post_step ''u'') snd (map (\<lambda>t. (''hi'', t)) [1..12])
     \<lparr>fingerprints = Map.empty, userPostTimes = (\<lambda>_. []), interactions = (\<lambda>_. [])\<rparr>) \<le> 10"
proof -
  have "sorted (map snd (map (\<lambda>t. (''hi'', t)) [1..12::int]))" by (simp add: comp_def)
  from memory_rate_limits [OF _ this, of "[]"] show ?thesis by simp
qed

text \<open>
  The fixed window of \<open>RateLimitCheck\<close>. With a window of at least a second and a working Redis, of the
  calls within the window that the first one opens exactly the first \<open>limit\<close> are allowed.
\<close>

theorem fixed_window_exact:
  assumes "0 < limit" "second \<le> window" "user \<noteq> []" "rlookup (''ratelimit:'' @ user) (at_time t0 (durable s)) = None"
    and "\<forall>t\<in>set ts. t < t0 + 1000 * (window div second)"
  shows "check_run user limit window (t0 # ts) s = map (\<lambda>j. Inr (int j < limit)) [0..<Suc (length ts)]"
  by (rule check_run_fresh [OF assms])

theorem fixed_window_exact_witness:
  "check_run ''u'' 2 (5 * second) [0, 10, 4999] \<lparr>durable = no_redis, view = no_redis, aborted = False, outcomes = []\<rparr>
     = [Inr True, Inr True, Inr False]"
  using fixed_window_exact [of 2 "5 * second" "''u''" 0 "\<lparr>durable = no_redis, view = no_redis, aborted = False, outcomes = []\<rparr>" "[10, 4999]"]
  by (simp add: second_def rlookup_def no_redis_def upt_rec)

text \<open>
  The token bucket bounds every visitor. From any consistent limiter whose refill over three minutes
  covers the capacity, in a history of requests and clean-ups in time order ending by \<open>t\<close>, at most
  capacity plus rate times elapsed seconds requests of a visitor pass, also across the clean-up that
  forgets idle visitors.
\<close>

theorem token_bucket_bound:
  assumes "limiter_ok now rl" and "sorted (now # map event_time evs)" and "\<forall>e\<in>set evs. event_time e \<le> t"
    and "now \<le> t"
  shows "real (passed ip evs rl) \<le> tl_capacity rl + rate rl * seconds (t - now)"
proof -
  have "level ip now rl \<le> tl_capacity rl" by (simp add: level_def split: option.splits)
  with passed_level [OF assms, of ip] show ?thesis by (simp add: mult.commute)
qed

theorem token_bucket_bound_witness:
  "real (passed ''h'' [Request ''h'' 0, Request ''g'' 5, Request ''h'' 9, Cleanup 10, Request ''h'' 11]
           \<lparr>visitors = Map.empty, rate = 1, tl_capacity = 2\<rparr>) \<le> 2 + seconds 11"
  using token_bucket_bound [of 0 "\<lparr>visitors = Map.empty, rate = 1, tl_capacity = 2\<rparr>"
      "[Request ''h'' 0, Request ''g'' 5, Request ''h'' 9, Cleanup 10, Request ''h'' 11]" 11 "''h''"]
  by (simp add: limiter_ok_def del: passed.simps)

end
