(* ===== verification/Idempotency.thy ===== *)
theory Idempotency
  imports Redis
begin

text \<open>
  The idempotency middleware of \<open>core/middleware/idempotency.go\<close>. A request goes through phases
  separated by the Redis calls of the handler and by the call of the next handler, so that requests
  that overlap can be interleaved; \<open>idem_step\<close> performs one phase, \<open>serve\<close> runs a request alone.
  SHA-256 with its hexadecimal encoding is the parameter \<open>digest\<close>, JSON is \<open>marshal\<close> and \<open>unmarshal\<close>;
  the application behind the middleware is a function on its own state.
\<close>

record request =
  verb :: string
  path :: string
  key_header :: string
  user_local :: string
  body :: string
  lock_token :: string    \<comment> \<open>the fresh identifier of \<open>uuid.NewString\<close>\<close>

record response =
  status :: int
  content_type :: string
  resp_body :: string

record stored_response =
  RequestHash :: string
  replay :: response

record 'a idem_env =
  rdb_given :: bool
  digest :: "string \<Rightarrow> string"
  marshal :: "stored_response \<Rightarrow> string option"
  unmarshal :: "string \<Rightarrow> stored_response option"
  idem_ttl :: int                                       \<comment> \<open>milliseconds\<close>
  app :: "request \<Rightarrow> 'a \<Rightarrow> (bool \<times> response) \<times> 'a"    \<comment> \<open>\<open>c.Next()\<close>: error flag, response\<close>

datatype reply =
    PassThrough bool response
  | Answer int string          \<comment> \<open>status and code\<close>
  | Replayed response

text \<open>\<open>if ttl <= 0 { ttl = idempotencyTTL }\<close>, in nanoseconds.\<close>

definition default_ttl :: "int \<Rightarrow> int" where
  "default_ttl ttl = (if ttl \<le> 0 then 24 * 3600 * 1000000000 else ttl)"

definition lock_ttl :: int where "lock_ttl = 120000"
definition max_key_len :: nat where "max_key_len = 128"
definition max_stored_body :: nat where "max_stored_body = 512 * 1024"

definition isSafeMethod :: "string \<Rightarrow> bool" where
  "isSafeMethod m \<longleftrightarrow> m = ''GET'' \<or> m = ''HEAD'' \<or> m = ''OPTIONS''"

definition key_char :: "char \<Rightarrow> bool" where
  "key_char c \<longleftrightarrow>
     (let b = of_char c :: nat
      in (97 \<le> b \<and> b \<le> 122) \<or> (65 \<le> b \<and> b \<le> 90) \<or> (48 \<le> b \<and> b \<le> 57) \<or>
         c = CHR ''-'' \<or> c = CHR ''_'' \<or> c = CHR ''.'' \<or> c = CHR '':'')"

definition validIdempotencyKey :: "string \<Rightarrow> bool" where
  "validIdempotencyKey v \<longleftrightarrow> list_all key_char v"

definition resourceID :: "'a idem_env \<Rightarrow> request \<Rightarrow> string" where
  "resourceID env q =
     digest env (user_local q @ [byte 0] @ verb q @ [byte 0] @ path q @ [byte 0] @ trim_space (key_header q))"

definition responseKey :: "'a idem_env \<Rightarrow> request \<Rightarrow> string" where
  "responseKey env q = ''idempotency:v1:'' @ resourceID env q"

definition lockKey :: "'a idem_env \<Rightarrow> request \<Rightarrow> string" where
  "lockKey env q = responseKey env q @ '':lock''"

text \<open>The Lua script \<open>releaseIdempotencyLock\<close>.\<close>

definition release_lock :: "string \<Rightarrow> string \<Rightarrow> (redis, int) sql" where
  "release_lock k tok r =
     (case rlookup k r of
        Some (RStr v) \<Rightarrow> if v = tok then Inr (1, rdel k r) else Inr (0, r)
      | Some _ \<Rightarrow> Inl wrongtype
      | None \<Rightarrow> Inr (0, r))"

datatype phase =
    Arrived
  | Checked            \<comment> \<open>no stored response was found\<close>
  | Locked             \<comment> \<open>the lock was acquired\<close>
  | Ran bool response  \<comment> \<open>the next handler has returned\<close>
  | Stored bool response
  | Finished reply

record 'a system =
  cache_db :: "redis session"
  app_state :: 'a
  executed :: "request list"    \<comment> \<open>the requests that reached the next handler\<close>

definition redis_call :: "(redis, 'b) sql \<Rightarrow> 'a system \<Rightarrow> 'b res \<times> 'a system" where
  "redis_call f s = (case autocommit f (cache_db s) of (r, d) \<Rightarrow> (r, s\<lparr>cache_db := d\<rparr>))"

definition run_app :: "'a idem_env \<Rightarrow> request \<Rightarrow> 'a system \<Rightarrow> (bool \<times> response) \<times> 'a system" where
  "run_app env q s =
     (case app env q (app_state s) of (r, a) \<Rightarrow> (r, s\<lparr>app_state := a, executed := executed s @ [q]\<rparr>))"

definition pass_through :: "'a idem_env \<Rightarrow> request \<Rightarrow> 'a system \<Rightarrow> phase \<times> 'a system" where
  "pass_through env q s = (case run_app env q s of ((e, p), s') \<Rightarrow> (Finished (PassThrough e p), s'))"

definition check_stored :: "'a idem_env \<Rightarrow> request \<Rightarrow> 'a system \<Rightarrow> phase \<times> 'a system" where
  "check_stored env q s =
     (case redis_call (GET (responseKey env q)) s of
        (Inr v, s') \<Rightarrow>
          (Finished
             (case unmarshal env v of
                None \<Rightarrow> Answer 503 ''IDEMPOTENCY_STATE_INVALID''
              | Some st \<Rightarrow>
                  if RequestHash st = [] then Answer 503 ''IDEMPOTENCY_STATE_INVALID''
                  else if RequestHash st \<noteq> digest env (body q) then Answer 409 ''IDEMPOTENCY_KEY_REUSED''
                  else Replayed (replay st)), s')
      | (Inl e, s') \<Rightarrow>
          if e = NoRows then (Checked, s') else (Finished (Answer 503 ''IDEMPOTENCY_UNAVAILABLE''), s'))"

text \<open>A response is stored only when the handler succeeded with a status below 500 and a small body.\<close>

definition store_response :: "'a idem_env \<Rightarrow> request \<Rightarrow> bool \<Rightarrow> response \<Rightarrow> 'a system \<Rightarrow> 'a system" where
  "store_response env q err p s =
     (if \<not> err \<and> status p < 500 \<and> length (resp_body p) \<le> max_stored_body
      then (case marshal env \<lparr>RequestHash = digest env (body q), replay = p\<rparr> of
              None \<Rightarrow> s
            | Some v \<Rightarrow> snd (redis_call (SET (responseKey env q) v (Some (idem_ttl env))) s))
      else s)"

fun idem_step :: "'a idem_env \<Rightarrow> request \<Rightarrow> phase \<Rightarrow> 'a system \<Rightarrow> phase \<times> 'a system" where
  "idem_step env q Arrived s =
     (let key = trim_space (key_header q)
      in if \<not> rdb_given env \<or> isSafeMethod (verb q) then pass_through env q s
         else if key = [] then pass_through env q s
         else if max_key_len < length key \<or> \<not> validIdempotencyKey key
         then (Finished (Answer 400 ''IDEMPOTENCY_KEY_INVALID''), s)
         else if user_local q = [] then (Finished (Answer 401 ''ERR_UNAUTHORIZED''), s)
         else check_stored env q s)"
| "idem_step env q Checked s =
     (case redis_call (SETNX (lockKey env q) (lock_token q) lock_ttl) s of
        (Inl _, s') \<Rightarrow> (Finished (Answer 503 ''IDEMPOTENCY_UNAVAILABLE''), s')
      | (Inr acquired, s') \<Rightarrow>
          if acquired then (Locked, s') else (Finished (Answer 409 ''IDEMPOTENCY_IN_PROGRESS''), s'))"
| "idem_step env q Locked s = (case run_app env q s of ((e, p), s') \<Rightarrow> (Ran e p, s'))"
| "idem_step env q (Ran e p) s = (Stored e p, store_response env q e p s)"
| "idem_step env q (Stored e p) s =
     (Finished (PassThrough e p), snd (redis_call (release_lock (lockKey env q) (lock_token q)) s))"
| "idem_step env q (Finished r) s = (Finished r, s)"

text \<open>A request on its own: five phases always suffice.\<close>

fun idem_run :: "nat \<Rightarrow> 'a idem_env \<Rightarrow> request \<Rightarrow> phase \<times> 'a system \<Rightarrow> phase \<times> 'a system" where
  "idem_run 0 env q ps = ps"
| "idem_run (Suc n) env q (p, s) = idem_run n env q (idem_step env q p s)"

definition serve :: "'a idem_env \<Rightarrow> request \<Rightarrow> 'a system \<Rightarrow> phase \<times> 'a system" where
  "serve env q s = idem_run 5 env q (Arrived, s)"

lemma idem_run_finished [simp]: "idem_run n env q (Finished r, s) = (Finished r, s)"
  by (induction n) simp_all

lemma serve_finishes: "\<exists>r. fst (serve env q s) = Finished r"
proof -
  have two: "\<exists>r s'. idem_run 2 env q (Ran e p, s) = (Finished r, s')" for e p and s :: "'a system"
    by (simp add: numeral_2_eq_2)
  have "\<exists>r s'. idem_run 4 env q (Checked, s) = (Finished r, s')" for s :: "'a system"
    using two by (auto simp: eval_nat_numeral split: prod.splits sum.splits)
  then show ?thesis
    by (auto simp: serve_def eval_nat_numeral pass_through_def check_stored_def Let_def
        split: prod.splits sum.splits)
qed

section \<open>Interleavings\<close>

text \<open>
  The state of several requests in flight: the phase of each and the system. Any request may take its
  next step, and time may pass on the Redis server.
\<close>

definition pass_time :: "int \<Rightarrow> 'a system \<Rightarrow> 'a system" where
  "pass_time d s = s\<lparr>cache_db := (cache_db s)\<lparr>durable := at_time (rclock (durable (cache_db s)) + d) (durable (cache_db s))\<rparr>\<rparr>"

inductive interleave ::
  "'a idem_env \<Rightarrow> request list \<Rightarrow> phase list \<times> 'a system \<Rightarrow> phase list \<times> 'a system \<Rightarrow> bool"
  for env qs where
  step: "i < length qs \<Longrightarrow> length ps = length qs \<Longrightarrow> idem_step env (qs ! i) (ps ! i) s = (p, s') \<Longrightarrow>
         interleave env qs (ps, s) (ps[i := p], s')"
| wait: "0 \<le> d \<Longrightarrow> interleave env qs (ps, s) (ps, pass_time d s)"

inductive_cases interleaveE: "interleave env qs (ps, s) (ps', s')"

section \<open>Mutual exclusion\<close>

definition critical :: "phase \<Rightarrow> bool" where
  "critical p \<longleftrightarrow> (case p of Locked \<Rightarrow> True | Ran _ _ \<Rightarrow> True | Stored _ _ \<Rightarrow> True | _ \<Rightarrow> False)"

lemma critical_simps [simp]: "\<not> critical Arrived" "\<not> critical Checked" "critical Locked" "critical (Ran e p)"
  "critical (Stored e p)" "\<not> critical (Finished r)"
  by (simp_all add: critical_def)

text \<open>The lock of a request is in Redis with its token and cannot expire before an instant.\<close>

definition holds_lock :: "'a idem_env \<Rightarrow> int \<Rightarrow> request \<Rightarrow> redis \<Rightarrow> bool" where
  "holds_lock env t q r \<longleftrightarrow> (\<exists>e\<ge>t. store r (lockKey env q) = Some (RStr (lock_token q), Some e))"

definition digest_ok :: "'a idem_env \<Rightarrow> bool" where
  "digest_ok env \<longleftrightarrow> (\<forall>x. length (digest env x) = 64)"

lemma response_not_lock: "digest_ok env \<Longrightarrow> responseKey env q \<noteq> lockKey env q'"
proof
  assume "digest_ok env" "responseKey env q = lockKey env q'"
  then have "length (responseKey env q) = length (lockKey env q')" "length (resourceID env q) = length (resourceID env q')"
    by (simp_all add: resourceID_def digest_ok_def)
  then show False by (simp add: responseKey_def lockKey_def)
qed

text \<open>One phase of a request changes Redis in one of these ways.\<close>

lemma redis_call_cases:
  assumes "redis_call f s = (r, s')"
  shows "durable (cache_db s') = durable (cache_db s) \<or> (\<exists>a. f (durable (cache_db s)) = Inr (a, durable (cache_db s')))"
    and "r = Inr a \<Longrightarrow> f (durable (cache_db s)) = Inr (a, durable (cache_db s'))"
    and "app_state s' = app_state s" "executed s' = executed s"
  using assms
  by (auto simp: redis_call_def autocommit_def next_outcome_def split: prod.splits sum.splits outcome.splits
      list.splits if_splits)

lemma SETNX_True: "SETNX k v d r = Inr (True, r') \<longleftrightarrow> rlookup k r = None \<and> r' = rset k (RStr v) (Some (rclock r + d)) r"
  by (auto simp: SETNX_def split: option.splits)

lemma release_lock_1: "release_lock k v r = Inr (1, r') \<longleftrightarrow> rlookup k r = Some (RStr v) \<and> r' = rdel k r"
  by (auto simp: release_lock_def split: option.splits rval.splits)

lemma redis_call_frame [simp]: "executed (snd (redis_call f s)) = executed s" "app_state (snd (redis_call f s)) = app_state s"
  by (simp_all add: redis_call_def split: prod.splits)

lemma redis_call_snd:
  "durable (cache_db (snd (redis_call f s))) = durable (cache_db s) \<or>
   (\<exists>a. f (durable (cache_db s)) = Inr (a, durable (cache_db (snd (redis_call f s)))))"
  by (rule redis_call_cases(1) [OF surjective_pairing])

lemma idem_step_redis:
  assumes st: "idem_step env q p s = (p', s')"
  defines "r \<equiv> durable (cache_db s)" and "r' \<equiv> durable (cache_db s')"
  shows "(r' = r \<and> (critical p' \<longrightarrow> critical p)) \<or>
     (p = Checked \<and> SETNX (lockKey env q) (lock_token q) lock_ttl r = Inr (True, r')) \<or>
     (\<exists>v t. critical p \<and> r' = rset (responseKey env q) (RStr v) t r) \<or>
     (\<not> critical p' \<and> release_lock (lockKey env q) (lock_token q) r = Inr (1, r'))"
proof (cases p)
  case Arrived
  then have "r' = r \<and> \<not> critical p'"
    using st unfolding r_def r'_def
    by (auto simp: Let_def pass_through_def run_app_def check_stored_def GET_def
        dest!: redis_call_cases(1) split: prod.splits if_splits sum.splits option.splits rval.splits)
  then show ?thesis by blast
next
  case Checked
  obtain res s1 where c: "redis_call (SETNX (lockKey env q) (lock_token q) lock_ttl) s = (res, s1)" by fastforce
  show ?thesis
  proof (cases res)
    case (Inl e)
    with st c Checked have "p' = Finished (Answer 503 ''IDEMPOTENCY_UNAVAILABLE'')" "s' = s1" by auto
    with redis_call_cases(1) [OF c] Checked show ?thesis
      by (auto simp: r_def r'_def SETNX_def split: option.splits)
  next
    case (Inr b)
    from redis_call_cases(2) [OF c Inr] have "SETNX (lockKey env q) (lock_token q) lock_ttl r = Inr (b, durable (cache_db s1))"
      by (simp add: r_def)
    moreover from this have "durable (cache_db s1) = r" if "\<not> b"
      using that by (auto simp: SETNX_def split: option.splits)
    ultimately show ?thesis using st c Checked Inr by (cases b) (auto simp: r'_def)
  qed
next
  case Locked
  with st show ?thesis by (auto simp: r_def r'_def run_app_def split: prod.splits)
next
  case (Ran e pr)
  then have "s' = store_response env q e pr s" "p' = Stored e pr" using st by auto
  moreover have "durable (cache_db (store_response env q e pr s)) = durable (cache_db s) \<or>
      (\<exists>v t. durable (cache_db (store_response env q e pr s)) = rset (responseKey env q) (RStr v) t (durable (cache_db s)))"
  proof -
    have one: "durable (cache_db (snd (redis_call (SET k v ttl) s))) = durable (cache_db s) \<or>
        (\<exists>t. durable (cache_db (snd (redis_call (SET k v ttl) s))) = rset k (RStr v) t (durable (cache_db s)))" for k v ttl
      using redis_call_snd [of "SET k v ttl" s] by (auto simp: SET_iff)
    show ?thesis unfolding store_response_def using one by (simp split: option.splits) blast
  qed
  ultimately show ?thesis using Ran by (auto simp: r_def r'_def)
next
  case (Stored e pr)
  then have p': "\<not> critical p'" and s': "s' = snd (redis_call (release_lock (lockKey env q) (lock_token q)) s)"
    using st by auto
  from redis_call_snd [of "release_lock (lockKey env q) (lock_token q)" s] p'
  show ?thesis unfolding r_def r'_def s'
    by (auto simp: release_lock_def split: option.splits rval.splits if_splits)
next
  case (Finished x)
  with st show ?thesis by (simp add: r_def r'_def)
qed

lemma idem_step_clock:
  "idem_step env q p s = (p', s') \<Longrightarrow> rclock (durable (cache_db s')) = rclock (durable (cache_db s))"
  by (drule idem_step_redis) (auto simp: SETNX_True release_lock_1)

text \<open>Until \<open>t\<close>, every request in its critical section holds its lock.\<close>

definition locks_ok :: "'a idem_env \<Rightarrow> request list \<Rightarrow> int \<Rightarrow> phase list \<Rightarrow> redis \<Rightarrow> bool" where
  "locks_ok env qs t ps r \<longleftrightarrow> length ps = length qs \<and>
     (\<forall>i<length qs. critical (ps ! i) \<longrightarrow> holds_lock env t (qs ! i) r)"

lemma locks_exclude:
  assumes "locks_ok env qs t ps r" and "distinct (map lock_token qs)"
    and "i < length qs" "j < length qs" "i \<noteq> j" "lockKey env (qs ! i) = lockKey env (qs ! j)"
  shows "\<not> (critical (ps ! i) \<and> critical (ps ! j))"
proof
  assume "critical (ps ! i) \<and> critical (ps ! j)"
  with assms(1,3,4) have "holds_lock env t (qs ! i) r" "holds_lock env t (qs ! j) r"
    by (simp_all add: locks_ok_def)
  with assms(6) have "lock_token (qs ! i) = lock_token (qs ! j)" by (auto simp: holds_lock_def)
  with assms(2-5) show False by (simp add: distinct_conv_nth)
qed

lemma locks_step:
  assumes ok: "locks_ok env qs t ps (durable (cache_db s))" and d: "digest_ok env" and dist: "distinct (map lock_token qs)"
    and i: "i < length qs" and st: "idem_step env (qs ! i) (ps ! i) s = (p', s')"
    and clock: "rclock (durable (cache_db s)) < t" "t \<le> rclock (durable (cache_db s)) + lock_ttl"
  shows "locks_ok env qs t (ps[i := p']) (durable (cache_db s'))" "rclock (durable (cache_db s')) = rclock (durable (cache_db s))"
proof -
  let ?r = "durable (cache_db s)" and ?r' = "durable (cache_db s')" and ?q = "qs ! i"
  have tok: "lock_token (qs ! j) \<noteq> lock_token ?q" if "j < length qs" "j \<noteq> i" for j
    using that i dist by (simp add: distinct_conv_nth)
  have held: "holds_lock env t (qs ! j) ?r" if "j < length qs" "critical (ps ! j)" for j
    using that ok by (simp add: locks_ok_def)
  have len: "length ps = length qs" using ok by (simp add: locks_ok_def)
  have goal: "locks_ok env qs t (ps[i := p']) ?r'"
    if "critical p' \<Longrightarrow> holds_lock env t ?q ?r'"
      and "\<And>j. j < length qs \<Longrightarrow> j \<noteq> i \<Longrightarrow> holds_lock env t (qs ! j) ?r \<Longrightarrow> holds_lock env t (qs ! j) ?r'"
    using that held len i by (auto simp: locks_ok_def nth_list_update)
  from idem_step_redis [OF st]
  show "locks_ok env qs t (ps[i := p']) ?r'"
  proof (elim disjE conjE exE)
    assume "?r' = ?r" "critical p' \<longrightarrow> critical (ps ! i)"
    with held [OF i] show ?thesis by (intro goal) auto
  next
    assume "SETNX (lockKey env ?q) (lock_token ?q) lock_ttl ?r = Inr (True, ?r')"
    then have none: "rlookup (lockKey env ?q) ?r = None"
      and r': "?r' = rset (lockKey env ?q) (RStr (lock_token ?q)) (Some (rclock ?r + lock_ttl)) ?r"
      by (simp_all add: SETNX_True)
    have "lockKey env (qs ! j) \<noteq> lockKey env ?q" if "holds_lock env t (qs ! j) ?r" for j
      using that none clock by (auto simp: holds_lock_def rlookup_def)
    then show ?thesis using clock(2) by (intro goal) (auto simp: holds_lock_def r' rset_def)
  next
    fix v e
    assume "critical (ps ! i)" and r': "?r' = rset (responseKey env ?q) (RStr v) e ?r"
    then show ?thesis using held [OF i] response_not_lock [OF d] response_not_lock [OF d, THEN not_sym]
      by (intro goal) (auto simp: holds_lock_def r' rset_def)
  next
    assume "\<not> critical p'" and rel: "release_lock (lockKey env ?q) (lock_token ?q) ?r = Inr (1, ?r')"
    from rel have v: "rlookup (lockKey env ?q) ?r = Some (RStr (lock_token ?q))" and r': "?r' = rdel (lockKey env ?q) ?r"
      by (simp_all add: release_lock_1)
    have "lockKey env (qs ! j) \<noteq> lockKey env ?q" if "holds_lock env t (qs ! j) ?r" "j < length qs" "j \<noteq> i" for j
      using that v tok [of j] by (auto simp: holds_lock_def rlookup_def split: if_splits option.splits)
    with \<open>\<not> critical p'\<close> show ?thesis by (intro goal) (auto simp: holds_lock_def r' rdel_def)
  qed
  show "rclock ?r' = rclock ?r" by (rule idem_step_clock [OF st])
qed

lemma locks_reachable:
  assumes "(interleave env qs)\<^sup>*\<^sup>* (replicate (length qs) Arrived, s0) (ps, s)"
    and "digest_ok env" and "distinct (map lock_token qs)"
    and "rclock (durable (cache_db s)) < rclock (durable (cache_db s0)) + lock_ttl"
  shows "locks_ok env qs (rclock (durable (cache_db s0)) + lock_ttl) ps (durable (cache_db s)) \<and>
         rclock (durable (cache_db s0)) \<le> rclock (durable (cache_db s))"
  using assms(1,4)
proof (induction rule: rtranclp_induct2)
  case refl
  then show ?case by (simp add: locks_ok_def)
next
  case (step ps s ps' s')
  from step.hyps(2) show ?case
  proof (rule interleaveE)
    fix i p
    assume i: "i < length qs" and st: "idem_step env (qs ! i) (ps ! i) s = (p, s')" and ps': "ps' = ps[i := p]"
    from idem_step_clock [OF st] step.IH step.prems locks_step(1) [OF _ assms(2,3) i st] ps'
    show ?thesis by auto
  next
    fix d
    assume d: "0 \<le> d" "ps' = ps" and "s' = pass_time d s"
    then have "rclock (durable (cache_db s')) = rclock (durable (cache_db s)) + d"
      "store (durable (cache_db s')) = store (durable (cache_db s))" by (simp_all add: pass_time_def at_time_def)
    with step.IH step.prems d show ?thesis by (auto simp: locks_ok_def holds_lock_def)
  qed
qed

section \<open>Replays\<close>

definition guarded :: "'a idem_env \<Rightarrow> request \<Rightarrow> bool" where
  "guarded env q \<longleftrightarrow> rdb_given env \<and> \<not> isSafeMethod (verb q) \<and> trim_space (key_header q) \<noteq> [] \<and>
     length (trim_space (key_header q)) \<le> max_key_len \<and> validIdempotencyKey (trim_space (key_header q)) \<and>
     user_local q \<noteq> []"

text \<open>Requests one after the other, each after a wait, with its own Redis faults.\<close>

fun serial ::
  "'a idem_env \<Rightarrow> (int \<times> outcome list \<times> request) list \<Rightarrow> 'a system \<Rightarrow> phase list \<times> 'a system" where
  "serial env [] s = ([], s)"
| "serial env ((d, outs, q) # xs) s =
     (let s = pass_time d s; (ph, s) = serve env q (s\<lparr>cache_db := (cache_db s)\<lparr>outcomes := outs\<rparr>\<rparr>);
          (phs, s) = serial env xs s
      in (ph # phs, s))"

definition live_entry :: "string \<Rightarrow> string \<Rightarrow> int \<Rightarrow> 'a system \<Rightarrow> bool" where
  "live_entry k v e s \<longleftrightarrow> store (durable (cache_db s)) k = Some (RStr v, Some e)"

lemma idem_run_other:
  assumes "digest_ok env" and "live_entry k v e s" and "rclock (durable (cache_db s)) < e"
    and "k = responseKey env q0" and "responseKey env q \<noteq> k" and "idem_run n env q (p, s) = (p', s')"
  shows "live_entry k v e s' \<and> rclock (durable (cache_db s')) = rclock (durable (cache_db s))"
  using assms(2,3,6)
proof (induction n arbitrary: p s)
  case (Suc n)
  obtain p1 s1 where st: "idem_step env q p s = (p1, s1)" by fastforce
  have ne: "lockKey env q \<noteq> k" "k \<noteq> lockKey env q" using response_not_lock [OF assms(1), of q0 q] assms(4) by auto
  from idem_step_redis [OF st] have "live_entry k v e s1"
    using Suc.prems(1) assms(5) ne
    by (auto simp: live_entry_def SETNX_True release_lock_1 rset_def rdel_def)
  with Suc.IH [of s1 p1] Suc.prems st idem_step_clock [OF st] show ?case by simp
qed simp

lemma serve_first:
  assumes "idem_step env q Arrived s = (Finished r, s')"
  shows "serve env q s = (Finished r, s')"
  using assms by (simp add: serve_def eval_nat_numeral)

lemma serve_unguarded:
  assumes "\<not> guarded env q"
  shows "\<exists>r s'. serve env q s = (Finished r, s') \<and> cache_db s' = cache_db s \<and>
                (executed s' = executed s \<or> executed s' = executed s @ [q])"
proof -
  have "\<exists>r s'. idem_step env q Arrived s = (Finished r, s') \<and> cache_db s' = cache_db s \<and>
                (executed s' = executed s \<or> executed s' = executed s @ [q])"
    using assms by (auto simp: guarded_def Let_def pass_through_def run_app_def not_le split: prod.splits)
  then show ?thesis using serve_first by blast
qed

lemma serve_hit:
  assumes "guarded env q" and "live_entry (responseKey env q) v e s" and "rclock (durable (cache_db s)) < e"
    and "unmarshal env v = Some st" and "RequestHash st \<noteq> []"
  shows "\<exists>r s'. serve env q s = (Finished r, s') \<and> app_state s' = app_state s \<and> executed s' = executed s \<and>
     durable (cache_db s') = durable (cache_db s) \<and>
     (r = Answer 503 ''IDEMPOTENCY_UNAVAILABLE'' \<or>
      r = (if RequestHash st = digest env (body q) then Replayed (replay st) else Answer 409 ''IDEMPOTENCY_KEY_REUSED''))"
proof -
  have get: "GET (responseKey env q) (durable (cache_db s)) = Inr (v, durable (cache_db s))"
    using assms(2,3) by (simp add: GET_def rlookup_def live_entry_def)
  obtain res s' where c: "redis_call (GET (responseKey env q)) s = (res, s')" by fastforce
  have same: "durable (cache_db s') = durable (cache_db s)"
    using redis_call_cases(1) [OF c] get by auto
  have "res = Inr v \<or> res = Inl Infra"
    using c get by (auto simp: redis_call_def autocommit_def next_outcome_def split: prod.splits outcome.splits list.splits)
  with c have "idem_step env q Arrived s =
      (Finished (if res = Inr v then if RequestHash st = digest env (body q) then Replayed (replay st)
                 else Answer 409 ''IDEMPOTENCY_KEY_REUSED'' else Answer 503 ''IDEMPOTENCY_UNAVAILABLE''), s')"
    using assms(1,4,5) by (auto simp: guarded_def check_stored_def Let_def)
  from serve_first [OF this] redis_call_cases(3,4) [OF c] same show ?thesis by auto
qed

lemma serve_same_or_not:
  assumes "digest_ok env" and "live_entry k v e s" and "rclock (durable (cache_db s)) < e"
    and "k = responseKey env q0" and "unmarshal env v = Some st" and "RequestHash st \<noteq> []"
    and "serve env q s = (ph, s')"
  shows "live_entry k v e s'" "rclock (durable (cache_db s')) = rclock (durable (cache_db s))"
    "filter (\<lambda>x. guarded env x \<and> responseKey env x = k) (executed s')
       = filter (\<lambda>x. guarded env x \<and> responseKey env x = k) (executed s)"
    "guarded env q \<and> responseKey env q = k \<Longrightarrow> ph = Finished (Answer 503 ''IDEMPOTENCY_UNAVAILABLE'') \<or>
       ph = Finished (if RequestHash st = digest env (body q) then Replayed (replay st) else Answer 409 ''IDEMPOTENCY_KEY_REUSED'')"
proof -
  consider "guarded env q" "responseKey env q = k" | "\<not> guarded env q" | "responseKey env q \<noteq> k" by blast
  then have "live_entry k v e s' \<and> rclock (durable (cache_db s')) = rclock (durable (cache_db s)) \<and>
    filter (\<lambda>x. guarded env x \<and> responseKey env x = k) (executed s')
       = filter (\<lambda>x. guarded env x \<and> responseKey env x = k) (executed s) \<and>
    (guarded env q \<and> responseKey env q = k \<longrightarrow> ph = Finished (Answer 503 ''IDEMPOTENCY_UNAVAILABLE'') \<or>
       ph = Finished (if RequestHash st = digest env (body q) then Replayed (replay st) else Answer 409 ''IDEMPOTENCY_KEY_REUSED''))"
  proof cases
    case 1
    from serve_hit [OF 1(1) _ assms(3,5,6)] assms(2,7) 1(2) show ?thesis by (auto simp: live_entry_def)
  next
    case 2
    from serve_unguarded [OF 2, of s] assms(2,7) 2 show ?thesis by (auto simp: live_entry_def)
  next
    case 3
    have ex: "executed (snd (idem_step env q p x)) = executed x \<or> executed (snd (idem_step env q p x)) = executed x @ [q]" for p x
      by (cases p) (auto simp: Let_def pass_through_def run_app_def check_stored_def store_response_def
          dest!: redis_call_cases(4) split: prod.splits sum.splits option.splits)
    have "filter (\<lambda>x. guarded env x \<and> responseKey env x = k) (executed (snd (idem_run n env q (p, x))))
       = filter (\<lambda>x. guarded env x \<and> responseKey env x = k) (executed x)" for n p x
    proof (induction n arbitrary: p x)
      case (Suc n)
      from ex [of p x] Suc.IH [of "fst (idem_step env q p x)" "snd (idem_step env q p x)"] 3 show ?case by auto
    qed simp
    from this [of 5 Arrived s] idem_run_other [OF assms(1,2,3,4) 3, of 5 Arrived ph s'] assms(7) 3
    show ?thesis by (simp add: serve_def)
  qed
  then show "live_entry k v e s'" "rclock (durable (cache_db s')) = rclock (durable (cache_db s))"
    "filter (\<lambda>x. guarded env x \<and> responseKey env x = k) (executed s')
       = filter (\<lambda>x. guarded env x \<and> responseKey env x = k) (executed s)"
    "guarded env q \<and> responseKey env q = k \<Longrightarrow> ph = Finished (Answer 503 ''IDEMPOTENCY_UNAVAILABLE'') \<or>
       ph = Finished (if RequestHash st = digest env (body q) then Replayed (replay st) else Answer 409 ''IDEMPOTENCY_KEY_REUSED'')"
    by blast+
qed

lemma serial_replays:
  assumes "digest_ok env" and "k = responseKey env q0" and "unmarshal env v = Some st" and "RequestHash st \<noteq> []"
    and "live_entry k v e s" and "\<forall>x\<in>set xs. 0 \<le> fst x" and "rclock (durable (cache_db s)) + sum_list (map fst xs) < e"
    and "serial env xs s = (phs, s')"
  shows "filter (\<lambda>x. guarded env x \<and> responseKey env x = k) (executed s')
           = filter (\<lambda>x. guarded env x \<and> responseKey env x = k) (executed s) \<and>
         length phs = length xs \<and>
         (\<forall>i<length xs. guarded env (snd (snd (xs ! i))) \<and> responseKey env (snd (snd (xs ! i))) = k \<longrightarrow>
            phs ! i = Finished (Answer 503 ''IDEMPOTENCY_UNAVAILABLE'') \<or>
            phs ! i = Finished (if RequestHash st = digest env (body (snd (snd (xs ! i)))) then Replayed (replay st)
                                else Answer 409 ''IDEMPOTENCY_KEY_REUSED''))"
  using assms(5-)
proof (induction xs arbitrary: s phs)
  case (Cons x xs)
  obtain d outs q where x: "x = (d, outs, q)" by (cases x)
  let ?s = "pass_time d s"
  let ?t = "?s\<lparr>cache_db := (cache_db ?s)\<lparr>outcomes := outs\<rparr>\<rparr>"
  obtain ph s1 where sv: "serve env q ?t = (ph, s1)" by fastforce
  obtain phs' where rest: "serial env xs s1 = (phs', s')" and phs: "phs = ph # phs'"
    using Cons.prems(4) sv by (auto simp: x Let_def split: prod.splits)
  have pos: "0 \<le> sum_list (map fst xs)" using Cons.prems(2) by (intro sum_list_nonneg) auto
  have t: "live_entry k v e ?t" "rclock (durable (cache_db ?t)) = rclock (durable (cache_db s)) + d" "executed ?t = executed s"
    using Cons.prems(1) by (simp_all add: live_entry_def pass_time_def at_time_def)
  then have lt: "rclock (durable (cache_db ?t)) < e" using Cons.prems(3) pos by (simp add: x)
  note one = serve_same_or_not [OF assms(1) t(1) lt assms(2,3,4) sv]
  have "filter (\<lambda>x. guarded env x \<and> responseKey env x = k) (executed s')
           = filter (\<lambda>x. guarded env x \<and> responseKey env x = k) (executed s1) \<and>
         length phs' = length xs \<and>
         (\<forall>i<length xs. guarded env (snd (snd (xs ! i))) \<and> responseKey env (snd (snd (xs ! i))) = k \<longrightarrow>
            phs' ! i = Finished (Answer 503 ''IDEMPOTENCY_UNAVAILABLE'') \<or>
            phs' ! i = Finished (if RequestHash st = digest env (body (snd (snd (xs ! i)))) then Replayed (replay st)
                                else Answer 409 ''IDEMPOTENCY_KEY_REUSED''))"
    using Cons.prems(2,3) one(2) t(2) by (intro Cons.IH [OF one(1) _ _ rest]) (simp_all add: x)
  with one(3,4) t(3) phs show ?case by (auto simp: x nth_Cons' less_Suc_eq_0_disj)
qed simp

lemma redis_call_ok:
  "outcomes (cache_db s) = [] \<Longrightarrow> f (durable (cache_db s)) = Inr (a, r) \<Longrightarrow>
     redis_call f s = (Inr a, s\<lparr>cache_db := (cache_db s)\<lparr>durable := r\<rparr>\<rparr>)"
  by (simp add: redis_call_def autocommit_def next_outcome_def)

lemma redis_call_norows:
  "outcomes (cache_db s) = [] \<Longrightarrow> f (durable (cache_db s)) = Inl e \<Longrightarrow> redis_call f s = (Inl e, s)"
  by (simp add: redis_call_def autocommit_def next_outcome_def)

lemma serve_miss:
  assumes "digest_ok env" and g: "guarded env q" and out: "outcomes (cache_db s) = []"
    and none: "rlookup (responseKey env q) (durable (cache_db s)) = None" "rlookup (lockKey env q) (durable (cache_db s)) = None"
    and app: "app env q (app_state s) = ((False, p), a)" and p: "status p < 500" "length (resp_body p) \<le> max_stored_body"
    and v: "marshal env \<lparr>RequestHash = digest env (body q), replay = p\<rparr> = Some v"
  shows "\<exists>s'. serve env q s = (Finished (PassThrough False p), s') \<and> executed s' = executed s @ [q] \<and> app_state s' = a \<and>
           live_entry (responseKey env q) v (rclock (durable (cache_db s)) + idem_ttl env) s' \<and>
           rclock (durable (cache_db s')) = rclock (durable (cache_db s))"
proof -
  let ?k = "responseKey env q" and ?l = "lockKey env q" and ?r = "durable (cache_db s)"
  have ne: "?k \<noteq> ?l" "?l \<noteq> ?k" using response_not_lock [OF assms(1), of q q] by auto
  let ?r1 = "rset ?l (RStr (lock_token q)) (Some (rclock ?r + lock_ttl)) ?r"
  let ?s1 = "s\<lparr>cache_db := (cache_db s)\<lparr>durable := ?r1\<rparr>\<rparr>"
  let ?s2 = "?s1\<lparr>app_state := a, executed := executed s @ [q]\<rparr>"
  let ?r3 = "rset ?k (RStr v) (Some (rclock ?r + idem_ttl env)) ?r1"
  let ?s3 = "?s2\<lparr>cache_db := (cache_db s)\<lparr>durable := ?r3\<rparr>\<rparr>"
  let ?s4 = "?s3\<lparr>cache_db := (cache_db s)\<lparr>durable := rdel ?l ?r3\<rparr>\<rparr>"
  have 1: "idem_step env q Arrived s = (Checked, s)"
    using g none(1) out by (simp add: guarded_def check_stored_def redis_call_norows GET_def)
  have 2: "idem_step env q Checked s = (Locked, ?s1)"
    using none(2) out by (simp add: redis_call_ok [where a = True and r = ?r1] SETNX_True)
  have 3: "idem_step env q Locked ?s1 = (Ran False p, ?s2)" using app by (simp add: run_app_def)
  have 4: "idem_step env q (Ran False p) ?s2 = (Stored False p, ?s3)"
    using p v out by (simp add: store_response_def redis_call_ok [where a = "()" and r = ?r3] SET_iff)
  have held: "rlookup ?l ?r3 = Some (RStr (lock_token q))" using ne by (simp add: lock_ttl_def)
  then have 5: "idem_step env q (Stored False p) ?s3 = (Finished (PassThrough False p), ?s4)"
    using out by (simp add: redis_call_ok [where a = 1 and r = "rdel ?l ?r3"] release_lock_1)
  have "serve env q s = (Finished (PassThrough False p), ?s4)"
  proof -
    have five: "(5::nat) = Suc (Suc (Suc (Suc (Suc 0))))" by simp
    show ?thesis unfolding serve_def five by (simp only: idem_run.simps 1 2 3 4 5)
  qed
  moreover have "live_entry ?k v (rclock ?r + idem_ttl env) ?s4"
    using ne by (simp add: live_entry_def) (simp add: rdel_def rset_def)
  ultimately show ?thesis by simp
qed

section \<open>Properties\<close>

text \<open>
  C11. A mutation with an idempotency key runs once. When a guarded request found no stored response and
  succeeded with a storable one, then whatever requests are served one at a time afterwards within the
  time to live, with any Redis faults, none with the same user, method, path and key reaches the
  application again: each is answered with the first response, with a conflict when its body differs,
  or with unavailability when Redis fails.
\<close>

theorem replay_once:
  assumes "digest_ok env" and "guarded env q" and "outcomes (cache_db s) = []"
    and "rlookup (responseKey env q) (durable (cache_db s)) = None" "rlookup (lockKey env q) (durable (cache_db s)) = None"
    and "app env q (app_state s) = ((False, p), a)" and "status p < 500" "length (resp_body p) \<le> max_stored_body"
    and "marshal env \<lparr>RequestHash = digest env (body q), replay = p\<rparr> = Some v"
    and "unmarshal env v = Some \<lparr>RequestHash = digest env (body q), replay = p\<rparr>"
    and "\<forall>x\<in>set later. 0 \<le> fst x" and "sum_list (map fst later) < idem_ttl env"
    and "serial env ((0, [], q) # later) s = (phs, s')"
  shows "filter (\<lambda>x. guarded env x \<and> responseKey env x = responseKey env q) (executed s')
           = filter (\<lambda>x. guarded env x \<and> responseKey env x = responseKey env q) (executed s) @ [q] \<and>
         phs ! 0 = Finished (PassThrough False p) \<and>
         (\<forall>i<length later. guarded env (snd (snd (later ! i))) \<and> responseKey env (snd (snd (later ! i))) = responseKey env q \<longrightarrow>
            phs ! Suc i = Finished (Answer 503 ''IDEMPOTENCY_UNAVAILABLE'') \<or>
            phs ! Suc i = Finished (if digest env (body q) = digest env (body (snd (snd (later ! i)))) then Replayed p
                                    else Answer 409 ''IDEMPOTENCY_KEY_REUSED''))"
proof -
  let ?st = "\<lparr>RequestHash = digest env (body q), replay = p\<rparr>"
  have id: "(pass_time 0 s)\<lparr>cache_db := (cache_db (pass_time 0 s))\<lparr>outcomes := []\<rparr>\<rparr> = s"
    using assms(3) by (simp add: pass_time_def at_time_def)
  from serve_miss [OF assms(1-9)] obtain s1 where
    s1: "serve env q s = (Finished (PassThrough False p), s1)" "executed s1 = executed s @ [q]"
      "live_entry (responseKey env q) v (rclock (durable (cache_db s)) + idem_ttl env) s1"
      "rclock (durable (cache_db s1)) = rclock (durable (cache_db s))" by blast
  obtain phs' where rest: "serial env later s1 = (phs', s')" and phs: "phs = Finished (PassThrough False p) # phs'"
    using assms(13) s1(1) id by (auto simp: Let_def split: prod.splits)
  have hash: "RequestHash ?st \<noteq> []" using assms(1) by (auto simp: digest_ok_def dest: spec [of _ "body q"])
  from serial_replays [OF assms(1) refl assms(10) hash s1(3) assms(11) _ rest, unfolded stored_response.select_convs]
    assms(2,12) s1(2,4) phs
  show ?thesis by simp
qed

definition demo_idem :: "nat idem_env" where
  "demo_idem = \<lparr>rdb_given = True, digest = (\<lambda>x. take 64 (x @ replicate 64 CHR ''0'')),
     marshal = (\<lambda>st. Some (RequestHash st @ resp_body (replay st))),
     unmarshal = (\<lambda>v. Some \<lparr>RequestHash = take 64 v, replay = \<lparr>status = 201, content_type = [], resp_body = drop 64 v\<rparr>\<rparr>),
     idem_ttl = 86400000, app = (\<lambda>q n. ((False, \<lparr>status = 201, content_type = [], resp_body = ''ok''\<rparr>), Suc n))\<rparr>"

definition demo_request :: "string \<Rightarrow> request" where
  "demo_request tok = \<lparr>verb = ''POST'', path = ''/tip'', key_header = ''k1'', user_local = ''u'', body = ''b'', lock_token = tok\<rparr>"

definition demo_system :: "nat system" where
  "demo_system = \<lparr>cache_db = \<lparr>durable = no_redis, view = no_redis, aborted = False, outcomes = []\<rparr>, app_state = 0, executed = []\<rparr>"

lemma demo_idem_ok: "digest_ok demo_idem" "guarded demo_idem (demo_request t)"
  by (simp_all add: digest_ok_def demo_idem_def guarded_def demo_request_def isSafeMethod_def trim_space_plain
      plain_byte_def max_key_len_def validIdempotencyKey_def key_char_def min_def)

theorem replay_once_witness:
  "filter (\<lambda>x. guarded demo_idem x \<and> responseKey demo_idem x = responseKey demo_idem (demo_request ''t1''))
     (executed (snd (serial demo_idem [(0, [], demo_request ''t1''), (5, [AckLost], demo_request ''t2'')] demo_system)))
   = [demo_request ''t1'']"
proof -
  obtain phs s' where run: "serial demo_idem ((0, [], demo_request ''t1'') # [(5, [AckLost], demo_request ''t2'')]) demo_system = (phs, s')"
    by fastforce
  from replay_once [OF demo_idem_ok _ _ _ _ _ _ _ _ _ _ run, of "\<lparr>status = 201, content_type = [], resp_body = ''ok''\<rparr>" 1
      "digest demo_idem ''b'' @ ''ok''"] run
  show ?thesis
    by (simp add: demo_system_def no_redis_def rlookup_def demo_idem_def max_stored_body_def demo_request_def del: serial.simps)
qed

text \<open>
  The lock excludes. However requests with distinct lock tokens are interleaved, with any Redis
  faults, until the time to live of a lock has passed since the start two requests with the same lock
  are never both between acquiring the lock and releasing it.
\<close>

theorem lock_mutual_exclusion:
  assumes "(interleave env qs)\<^sup>*\<^sup>* (replicate (length qs) Arrived, s0) (ps, s)"
    and "digest_ok env" and "distinct (map lock_token qs)"
    and "rclock (durable (cache_db s)) < rclock (durable (cache_db s0)) + lock_ttl"
    and "i < length qs" "j < length qs" "i \<noteq> j" "lockKey env (qs ! i) = lockKey env (qs ! j)"
  shows "\<not> (critical (ps ! i) \<and> critical (ps ! j))"
  using locks_exclude [OF conjunct1 [OF locks_reachable [OF assms(1-4)]] assms(3,5-8)] .

text \<open>The schedule in which both requests look for a stored response before either holds the lock.\<close>

fun play :: "'a idem_env \<Rightarrow> request list \<Rightarrow> nat list \<Rightarrow> phase list \<times> 'a system \<Rightarrow> phase list \<times> 'a system" where
  "play env qs [] x = x"
| "play env qs (i # is) (ps, s) =
     (case idem_step env (qs ! i) (ps ! i) s of (p, s') \<Rightarrow> play env qs is (ps[i := p], s'))"

lemma play_interleave:
  "\<forall>i\<in>set is. i < length qs \<Longrightarrow> length ps = length qs \<Longrightarrow> (interleave env qs)\<^sup>*\<^sup>* (ps, s) (play env qs is (ps, s))"
proof (induction "is" arbitrary: ps s)
  case (Cons i "is")
  obtain p s' where st: "idem_step env (qs ! i) (ps ! i) s = (p, s')" by fastforce
  from Cons.prems have "interleave env qs (ps, s) (ps[i := p], s')" by (intro step st) simp_all
  with Cons st show ?case by (auto intro: converse_rtranclp_into_rtranclp)
qed simp

theorem lock_mutual_exclusion_witness:
  "\<not> (critical (fst (play demo_idem [demo_request ''t1'', demo_request ''t2''] [0, 1, 0, 1, 0] ([Arrived, Arrived], demo_system)) ! 0) \<and>
      critical (fst (play demo_idem [demo_request ''t1'', demo_request ''t2''] [0, 1, 0, 1, 0] ([Arrived, Arrived], demo_system)) ! 1))"
proof -
  let ?qs = "[demo_request ''t1'', demo_request ''t2'']"
  obtain ps s where run: "play demo_idem ?qs [0, 1, 0, 1, 0] ([Arrived, Arrived], demo_system) = (ps, s)" by fastforce
  with play_interleave [of "[0, 1, 0, 1, 0]" ?qs "[Arrived, Arrived]" demo_idem demo_system]
  have reach: "(interleave demo_idem ?qs)\<^sup>*\<^sup>* (replicate (length ?qs) Arrived, demo_system) (ps, s)"
    by (simp add: numeral_2_eq_2)
  have clock: "rclock (durable (cache_db (snd (play env qs is x)))) = rclock (durable (cache_db (snd x)))" for env qs "is" and x :: "phase list \<times> nat system"
    by (induction env qs "is" x rule: play.induct) (auto split: prod.splits dest: idem_step_clock)
  have "rclock (durable (cache_db s)) < rclock (durable (cache_db demo_system)) + lock_ttl"
    using clock [of demo_idem ?qs "[0, 1, 0, 1, 0]" "([Arrived, Arrived], demo_system)"] run by (simp add: lock_ttl_def del: play.simps)
  with lock_mutual_exclusion [OF reach demo_idem_ok(1), of 0 1]
  show ?thesis unfolding run by (simp add: demo_request_def lockKey_def responseKey_def resourceID_def)
qed

text \<open>
  The replay guarantee does not extend to overlapping requests: the stored response is looked up before
  the lock is taken and not again under it. A retry that looks it up before the first request has stored
  its response, and asks for the lock after the first request has released it, runs the mutation again.
\<close>

definition retry_schedule :: "nat list" where
  "retry_schedule = [0, 1, 0, 0, 0, 0, 1, 1]"

lemma overlapping_retry_runs_twice:
  "executed (snd (play demo_idem [demo_request ''t1'', demo_request ''t2''] retry_schedule ([Arrived, Arrived], demo_system)))
     = [demo_request ''t1'', demo_request ''t2'']"
proof -
  let ?q1 = "demo_request ''t1''" and ?q2 = "demo_request ''t2''"
  have g: "guarded demo_idem ?q1" "guarded demo_idem ?q2" by (rule demo_idem_ok)+
  have l: "lockKey demo_idem ?q2 = lockKey demo_idem ?q1" by (simp add: lockKey_def responseKey_def resourceID_def demo_request_def)
  have miss: "idem_step demo_idem q Arrived demo_system = (Checked, demo_system)" if "guarded demo_idem q" for q
    using that by (simp add: guarded_def check_stored_def redis_call_norows GET_def demo_system_def no_redis_def rlookup_def)
  show ?thesis
    by (simp add: retry_schedule_def miss [OF g(1)] miss [OF g(2)] del: idem_step.simps(1))
      (simp add: demo_system_def redis_call_ok no_redis_def SETNX_def rlookup_def run_app_def demo_idem_def
        store_response_def SET_def release_lock_def rset_def rdel_def l redis_call_def autocommit_def next_outcome_def
        lockKey_def responseKey_def resourceID_def demo_request_def max_stored_body_def lock_ttl_def)
qed

end
