(* ===== verification/Auth.thy ===== *)
theory Auth
  imports Redis
begin

text \<open>
  Access and refresh tokens: \<open>core/security/auth.go\<close>, \<open>core/security/refresh_rotation.go\<close>, the
  authentication and RBAC middleware of \<open>core/security/middleware.go\<close> and the permission check of
  \<open>core/security/casbin.go\<close>. The JWT library, SHA-256 with base64, the random identifiers and the casbin
  engine are parameters; \<open>jwt_sound\<close> and \<open>jwt_complete\<close> state the documented behaviour of the JWT
  library that the code relies on. Clock readings are nanoseconds, Redis runs on milliseconds.
\<close>

section \<open>Tokens\<close>

record claims =
  UserID :: string
  Role :: string
  Fingerprint :: string
  DeviceID :: string
  Permissions :: "string list"
  TokenID :: string
  Subject :: string
  Issuer :: string
  Audience :: "string list"
  ExpiresAt :: int      \<comment> \<open>seconds, as all numeric dates\<close>
  IssuedAt :: int
  NotBefore :: int

datatype signing_method = HS256 | OtherMethod string

record jwt_lib =
  sign :: "signing_method \<Rightarrow> string \<Rightarrow> claims \<Rightarrow> string res"
  parse_with :: "(signing_method \<Rightarrow> string res) \<Rightarrow> string \<Rightarrow> string \<Rightarrow> int \<Rightarrow> string \<Rightarrow> (bool \<times> claims) res"

definition sec :: int where "sec = 1000000000"
definition tokenAudience :: string where "tokenAudience = ''merope-api''"
definition tokenIssuer :: string where "tokenIssuer = ''merope-auth''"
definition accessTokenTTL :: int where "accessTokenTTL = 15 * 60 * sec"

definition GenerateTokenWithPermissions ::
  "jwt_lib \<Rightarrow> string res \<Rightarrow> int \<Rightarrow> string \<Rightarrow> string \<Rightarrow> string \<Rightarrow> string \<Rightarrow> string list \<Rightarrow> string res" where
  "GenerateTokenWithPermissions lib sessionID now userID role fingerprint secret permissions =
     (if trim_space secret = [] \<or> trim_space userID = []
      then Inl (Errorf ''token secret and user id are required'')
      else (let userID = trim_space userID; role = trim_space role;
                role = (if role = [] then ''user'' else role)
            in case sessionID of
                 Inl e \<Rightarrow> Inl (Wrapf ''generate token id'' e)
               | Inr tokenID \<Rightarrow>
                   sign lib HS256 secret
                     \<lparr>UserID = userID, Role = role, Fingerprint = fingerprint, DeviceID = [],
                      Permissions = permissions, TokenID = tokenID, Subject = userID, Issuer = tokenIssuer,
                      Audience = [tokenAudience], ExpiresAt = (now + accessTokenTTL) div sec,
                      IssuedAt = now div sec, NotBefore = now div sec\<rparr>))"

definition GenerateToken ::
  "jwt_lib \<Rightarrow> string res \<Rightarrow> int \<Rightarrow> string \<Rightarrow> string \<Rightarrow> string \<Rightarrow> string \<Rightarrow> string res" where
  "GenerateToken lib sessionID now userID role fingerprint secret =
     GenerateTokenWithPermissions lib sessionID now userID role fingerprint secret []"

definition key_func :: "string \<Rightarrow> signing_method \<Rightarrow> string res" where
  "key_func secret m = (if m \<noteq> HS256 then Inl (Errorf ''unexpected signing method'') else Inr secret)"

definition ValidateToken :: "jwt_lib \<Rightarrow> int \<Rightarrow> string \<Rightarrow> string \<Rightarrow> claims res" where
  "ValidateToken lib now tokenStr secret =
     (if trim_space secret = [] \<or> trim_space tokenStr = [] then Inl (Errorf ''invalid token configuration'')
      else (case parse_with lib (key_func secret) tokenIssuer tokenAudience now tokenStr of
              Inl e \<Rightarrow> Inl e
            | Inr (valid, c) \<Rightarrow>
                if \<not> valid \<or> Subject c = [] \<or> Subject c \<noteq> UserID c \<or> UserID c = [] \<or> TokenID c = []
                then Inl (Errorf ''invalid token'') else Inr c))"

definition GenerateFingerprint :: "(string \<Rightarrow> string) \<Rightarrow> string \<Rightarrow> string \<Rightarrow> string" where
  "GenerateFingerprint digest ip ua = digest (ip @ [byte 0] @ ua)"

definition CheckPermission :: "claims option \<Rightarrow> string \<Rightarrow> bool" where
  "CheckPermission c required =
     (case c of None \<Rightarrow> False
      | Some c \<Rightarrow> if trim_space required = [] then False
                  else list_ex (\<lambda>p. p = required \<or> p = ''*'') (Permissions c))"

definition HasAnyPermission :: "claims option \<Rightarrow> string list \<Rightarrow> bool" where
  "HasAnyPermission c rs = list_ex (CheckPermission c) rs"

definition HasAllPermissions :: "claims option \<Rightarrow> string list \<Rightarrow> bool" where
  "HasAllPermissions c rs = list_all (CheckPermission c) rs"

section \<open>The blacklist\<close>

definition bl_key :: "string \<Rightarrow> string" where "bl_key i = ''bl:'' @ i"

text \<open>A client that is not configured is \<open>rdb = False\<close>; times to live are converted to milliseconds.\<close>

definition BlacklistToken :: "bool \<Rightarrow> string \<Rightarrow> int \<Rightarrow> (redis, unit) dbm" where
  "BlacklistToken rdb tokenID expiration =
     (if \<not> rdb \<or> tokenID = [] then dfail (Errorf ''redis and token id are required'')
      else if expiration \<le> 0 then dreturn ()
      else autocommit (SET (bl_key tokenID) ''1'' (Some (format_ms expiration))))"

definition CheckTokenBlacklist :: "bool \<Rightarrow> string \<Rightarrow> redis session \<Rightarrow> (bool \<times> goerr option) \<times> redis session" where
  "CheckTokenBlacklist rdb tokenID s =
     (if \<not> rdb \<or> tokenID = [] then ((True, Some (Errorf ''redis and token id are required'')), s)
      else (case autocommit (GET (bl_key tokenID)) s of
              (Inl e, s') \<Rightarrow> if e = NoRows then ((False, None), s')
                             else ((True, Some (Wrapf ''check token blacklist'' e)), s')
            | (Inr v, s') \<Rightarrow> ((v = ''1'', None), s')))"

definition IsTokenBlacklisted :: "bool \<Rightarrow> string \<Rightarrow> redis session \<Rightarrow> bool \<times> redis session" where
  "IsTokenBlacklisted rdb tokenID s =
     (case CheckTokenBlacklist rdb tokenID s of ((b, e), s') \<Rightarrow> (e \<noteq> None \<or> b, s'))"

section \<open>The middleware\<close>

record auth_request =
  authorization :: string
  ip :: string
  user_agent :: string

record locals =
  l_user_id :: string
  l_role :: string
  l_token_id :: string
  l_token_exp :: int
  l_fingerprint :: string
  l_permissions :: "string list"

datatype auth_reply = Unauthorized | AuthUnavailable | Accepted locals

definition AuthMiddleware ::
  "jwt_lib \<Rightarrow> (string \<Rightarrow> string) \<Rightarrow> string \<Rightarrow> bool \<Rightarrow> int \<Rightarrow> auth_request \<Rightarrow> redis session \<Rightarrow>
   auth_reply \<times> redis session" where
  "AuthMiddleware lib digest secret rdb now q s =
     (if \<not> has_prefix (authorization q) ''Bearer '' then (Unauthorized, s)
      else (case ValidateToken lib now (trim_space (trim_prefix (authorization q) ''Bearer '')) secret of
              Inl _ \<Rightarrow> (Unauthorized, s)
            | Inr c \<Rightarrow>
                (case CheckTokenBlacklist rdb (TokenID c) s of
                   ((_, Some _), s') \<Rightarrow> (AuthUnavailable, s')
                 | ((blacklisted, None), s') \<Rightarrow>
                     if blacklisted then (Unauthorized, s')
                     else if Fingerprint c \<noteq> [] \<and> GenerateFingerprint digest (ip q) (user_agent q) \<noteq> Fingerprint c
                     then (Unauthorized, s')
                     else (Accepted \<lparr>l_user_id = UserID c, l_role = Role c, l_token_id = TokenID c,
                                     l_token_exp = ExpiresAt c, l_fingerprint = Fingerprint c,
                                     l_permissions = Permissions c\<rparr>, s'))))"

text \<open>RBAC: \<open>enforce\<close> is the casbin engine, \<open>None\<close> a missing enforcer; the result is 403 or the next handler.\<close>

definition enforcer_CheckPermission ::
  "(string \<Rightarrow> string \<Rightarrow> string \<Rightarrow> bool res) option \<Rightarrow> string \<Rightarrow> string \<Rightarrow> string \<Rightarrow> bool res" where
  "enforcer_CheckPermission enforce sub obj act =
     (case enforce of None \<Rightarrow> Inl (Errorf ''invalid RBAC request'')
      | Some f \<Rightarrow> if trim_space sub = [] \<or> trim_space obj = [] \<or> trim_space act = []
                  then Inl (Errorf ''invalid RBAC request'') else f sub obj act)"

definition RBACMiddleware ::
  "(string \<Rightarrow> string \<Rightarrow> string \<Rightarrow> bool res) option \<Rightarrow> string \<Rightarrow> string \<Rightarrow> string \<Rightarrow> bool" where
  "RBACMiddleware enforce role path method =
     (case enforce of None \<Rightarrow> False
      | Some f \<Rightarrow> (case enforcer_CheckPermission enforce role path method of Inl _ \<Rightarrow> False | Inr allowed \<Rightarrow> allowed))"

section \<open>Refresh tokens\<close>

definition refreshV2Key :: "(string \<Rightarrow> string) \<Rightarrow> string \<Rightarrow> string" where
  "refreshV2Key digest token = ''refresh:v2:'' @ digest token"

definition legacyKey :: "string \<Rightarrow> string" where "legacyKey token = ''refresh:'' @ token"

definition get_or_empty :: "string \<Rightarrow> (redis, string option) sql" where
  "get_or_empty k r =
     (case GET k r of Inr (v, r) \<Rightarrow> Inr (Some v, r) | Inl e \<Rightarrow> if e = NoRows then Inr (None, r) else Inl e)"

text \<open>
  The Lua script \<open>rotateRefreshTokenScript\<close>. A command that fails does not undo the commands before it,
  so the script's own failure is part of its result.
\<close>

definition rotate_script :: "string \<Rightarrow> string \<Rightarrow> string \<Rightarrow> int \<Rightarrow> (redis, string res) sql" where
  "rotate_script k1 k2 k3 secs =
     sbind (get_or_empty k1) (\<lambda>current.
     sbind (case current of
              Some c \<Rightarrow> sreturn (Some c)
            | None \<Rightarrow> sbind (get_or_empty k2) (\<lambda>c.
                        case c of None \<Rightarrow> sreturn None | Some c \<Rightarrow> sbind (DEL k2) (\<lambda>_. sreturn (Some c)))) (\<lambda>current.
     case current of
       None \<Rightarrow> sreturn (Inr [])
     | Some c \<Rightarrow> sbind (DEL k1) (\<lambda>_.
                 if secs \<le> 0 then sreturn (Inl (Constraint ''invalid expire time''))
                 else sbind (SET k3 c (Some (1000 * secs))) (\<lambda>_. sreturn (Inr c)))))"

definition StoreRefreshTokenV2 :: "(string \<Rightarrow> string) \<Rightarrow> bool \<Rightarrow> string \<Rightarrow> string \<Rightarrow> int \<Rightarrow> (redis, unit) dbm" where
  "StoreRefreshTokenV2 digest rdb userID token expiration =
     (if \<not> rdb \<or> userID = [] \<or> token = [] \<or> expiration \<le> 0
      then dfail (Errorf ''invalid refresh token storage request'')
      else autocommit (SET (refreshV2Key digest token) userID (Some (format_ms expiration))))"

definition RotateRefreshTokenV2 ::
  "(string \<Rightarrow> string) \<Rightarrow> bool \<Rightarrow> string \<Rightarrow> string \<Rightarrow> int \<Rightarrow> (redis, string) dbm" where
  "RotateRefreshTokenV2 digest rdb oldToken newToken expiration =
     (if \<not> rdb \<or> oldToken = [] \<or> newToken = [] \<or> expiration \<le> 0
      then dfail (Errorf ''invalid refresh token rotation request'')
      else dbind (dmap_err (Wrapf ''refresh token rotation failed'')
                    (dbind (autocommit (rotate_script (refreshV2Key digest oldToken) (legacyKey oldToken)
                                          (refreshV2Key digest newToken) (expiration div sec)))
                       (\<lambda>res. case res of Inl e \<Rightarrow> dfail e | Inr u \<Rightarrow> dreturn u))) (\<lambda>userID.
           if userID = [] then dfail (Errorf ''invalid or expired refresh token'') else dreturn userID))"

definition ValidateRefreshTokenV2 :: "(string \<Rightarrow> string) \<Rightarrow> bool \<Rightarrow> string \<Rightarrow> (redis, string) dbm" where
  "ValidateRefreshTokenV2 digest rdb token s =
     (if \<not> rdb \<or> token = [] then (Inl (Errorf ''invalid or expired refresh token''), s)
      else (case autocommit (GET (refreshV2Key digest token)) s of
              (r1, s1) \<Rightarrow>
                (if is_ok r1 \<and> r1 \<noteq> Inr [] then (r1, s1)
                 else (case autocommit (GET (legacyKey token)) s1 of
                         (Inl _, s2) \<Rightarrow> (Inl (Errorf ''invalid or expired refresh token''), s2)
                       | (Inr u, s2) \<Rightarrow> if u = [] then (Inl (Errorf ''invalid or expired refresh token''), s2)
                                        else (Inr u, s2)))))"

section \<open>The JWT library\<close>

text \<open>
  What parsing accepts was signed with the key and method that the key function chose, names issuer and
  audience, and has not expired; and it accepts every such token once it is valid.
\<close>

definition jwt_sound :: "jwt_lib \<Rightarrow> bool" where
  "jwt_sound lib \<longleftrightarrow> (\<forall>kf iss aud now t valid c. parse_with lib kf iss aud now t = Inr (valid, c) \<longrightarrow>
     (\<exists>m k. kf m = Inr k \<and> sign lib m k c = Inr t) \<and> Issuer c = iss \<and> aud \<in> set (Audience c) \<and>
     now < ExpiresAt c * sec)"

definition jwt_complete :: "jwt_lib \<Rightarrow> bool" where
  "jwt_complete lib \<longleftrightarrow> (\<forall>kf iss aud now t m k c. sign lib m k c = Inr t \<and> kf m = Inr k \<and> Issuer c = iss \<and>
     aud \<in> set (Audience c) \<and> now < ExpiresAt c * sec \<and> NotBefore c * sec \<le> now \<longrightarrow>
     parse_with lib kf iss aud now t = Inr (True, c))"

lemma ValidateToken_sound:
  assumes "jwt_sound lib" and "ValidateToken lib now t secret = Inr c"
  shows "sign lib HS256 secret c = Inr t \<and> Issuer c = tokenIssuer \<and> tokenAudience \<in> set (Audience c) \<and>
         now < ExpiresAt c * sec \<and> Subject c = UserID c \<and> UserID c \<noteq> [] \<and> TokenID c \<noteq> []"
proof -
  from assms(2) obtain v where p: "parse_with lib (key_func secret) tokenIssuer tokenAudience now t = Inr (v, c)"
    and c: "Subject c = UserID c" "UserID c \<noteq> []" "TokenID c \<noteq> []"
  proof (cases "parse_with lib (key_func secret) tokenIssuer tokenAudience now t")
    case (Inl e)
    with assms(2) show thesis by (simp add: ValidateToken_def split: if_splits)
  next
    case (Inr vc)
    obtain v c' where vc: "vc = (v, c')" by fastforce
    with Inr assms(2) have "c' = c \<and> Subject c = UserID c \<and> UserID c \<noteq> [] \<and> TokenID c \<noteq> []"
      by (simp add: ValidateToken_def split: if_splits)
    with Inr vc that [of v] show thesis by simp
  qed
  from p assms(1) obtain m k where "key_func secret m = Inr k" "sign lib m k c = Inr t"
    "Issuer c = tokenIssuer" "tokenAudience \<in> set (Audience c)" "now < ExpiresAt c * sec"
    unfolding jwt_sound_def by blast
  then show ?thesis using c by (auto simp: key_func_def split: if_splits)
qed

lemma GET_state: "GET k r = Inr (v, r') \<Longrightarrow> r' = r \<and> rlookup k r = Some (RStr v)"
  by (auto simp: GET_def split: option.splits rval.splits)

lemma CheckTokenBlacklist_reads:
  assumes "CheckTokenBlacklist rdb i s = (r, s')"
  shows "durable s' = durable s" "r = (False, None) \<Longrightarrow> rlookup (bl_key i) (durable s) \<noteq> Some (RStr ''1'') \<and> rdb"
proof -
  obtain g s1 where g: "autocommit (GET (bl_key i)) s = (g, s1)" by fastforce
  from autocommit_cases(1) [OF g] GET_state have d: "durable s1 = durable s" by blast
  with assms g show "durable s' = durable s"
    by (auto simp: CheckTokenBlacklist_def split: if_splits sum.splits)
  assume "r = (False, None)"
  moreover have "rlookup (bl_key i) (durable s) \<noteq> Some (RStr ''1'')" if "g = Inl NoRows"
  proof
    assume "rlookup (bl_key i) (durable s) = Some (RStr ''1'')"
    with g that show False
      by (auto simp: autocommit_def next_outcome_def GET_def split: prod.splits outcome.splits list.splits if_splits)
  qed
  moreover have "rlookup (bl_key i) (durable s) = Some (RStr v)" if "g = Inr v" for v
    using autocommit_cases(2) [OF g that] GET_state by blast
  ultimately show "rlookup (bl_key i) (durable s) \<noteq> Some (RStr ''1'') \<and> rdb"
    using assms g by (auto simp: CheckTokenBlacklist_def split: if_splits sum.splits)
qed

lemma has_prefix_split: "has_prefix x p \<Longrightarrow> x = p @ trim_prefix x p"
  by (simp add: has_prefix_def trim_prefix_def) (metis append_take_drop_id)

lemma AuthMiddleware_accepts:
  assumes "AuthMiddleware lib digest secret rdb now q s = (Accepted l, s')"
  obtains c t where "authorization q = ''Bearer '' @ t" "ValidateToken lib now (trim_space t) secret = Inr c"
    "rlookup (bl_key (TokenID c)) (durable s) \<noteq> Some (RStr ''1'')" "durable s' = durable s" "rdb"
    "Fingerprint c = [] \<or> GenerateFingerprint digest (ip q) (user_agent q) = Fingerprint c"
    "l_user_id l = UserID c" "l_role l = Role c" "l_token_id l = TokenID c"
proof -
  from assms have pre: "has_prefix (authorization q) ''Bearer ''" by (auto simp: AuthMiddleware_def split: if_splits)
  define t where tp: "t = trim_prefix (authorization q) ''Bearer ''"
  from has_prefix_split [OF pre] have t: "authorization q = ''Bearer '' @ t" by (simp add: tp)
  note tp = tp [symmetric]
  obtain c where v: "ValidateToken lib now (trim_space t) secret = Inr c"
    using assms pre tp by (auto simp: AuthMiddleware_def split: sum.splits)
  obtain r s1 where b: "CheckTokenBlacklist rdb (TokenID c) s = (r, s1)" by fastforce
  with assms pre tp v have "r = (False, None)" and s1: "s1 = s'"
    and rest: "Fingerprint c = [] \<or> GenerateFingerprint digest (ip q) (user_agent q) = Fingerprint c"
      "l_user_id l = UserID c" "l_role l = Role c" "l_token_id l = TokenID c"
    by (auto simp: AuthMiddleware_def split: prod.splits option.splits if_splits)
  with CheckTokenBlacklist_reads [OF b] that [OF t v] show thesis by blast
qed

section \<open>Rotation\<close>

lemma get_or_empty_iff: "get_or_empty k r = Inr (x, r') \<longleftrightarrow>
    r' = r \<and> (rlookup k r = None \<and> x = None \<or> (\<exists>v. rlookup k r = Some (RStr v) \<and> x = Some v))"
  by (auto simp: get_or_empty_def GET_def wrongtype_def split: option.splits rval.splits)

lemma rotate_script_cases:
  assumes "rotate_script k1 k2 k3 secs r = Inr (res, r')"
  shows "(r' = r \<and> res = Inr [] \<and> rlookup k1 r = None \<and> rlookup k2 r = None) \<or>
     (\<exists>c r1. (rlookup k1 r = Some (RStr c) \<and> r1 = r \<or> rlookup k1 r = None \<and> rlookup k2 r = Some (RStr c) \<and> r1 = rdel k2 r) \<and>
        (if secs \<le> 0 then r' = rdel k1 r1 \<and> \<not> is_ok res
         else r' = rset k3 (RStr c) (Some (rclock r + 1000 * secs)) (rdel k1 r1) \<and> res = Inr c))"
  using assms
  by (auto simp: rotate_script_def sbind_def sreturn_def get_or_empty_iff DEL_def SET_def
      split: sum.splits prod.splits option.splits if_splits)

text \<open>No entry is left under which a token could be redeemed.\<close>

definition spent :: "(string \<Rightarrow> string) \<Rightarrow> string \<Rightarrow> redis \<Rightarrow> bool" where
  "spent digest old r \<longleftrightarrow> store r (refreshV2Key digest old) = None \<and> store r (legacyKey old) = None"

lemma spent_lookup: "spent digest old r \<Longrightarrow> rlookup (refreshV2Key digest old) r = None \<and> rlookup (legacyKey old) r = None"
  by (simp add: spent_def rlookup_def)

lemma Rotate_result:
  assumes "RotateRefreshTokenV2 digest rdb old new ex s = (Inr u, s')"
  shows "u \<noteq> [] \<and> rotate_script (refreshV2Key digest old) (legacyKey old) (refreshV2Key digest new) (ex div sec) (durable s)
           = Inr (Inr u, durable s')"
proof -
  obtain r s1 where a: "autocommit (rotate_script (refreshV2Key digest old) (legacyKey old) (refreshV2Key digest new) (ex div sec)) s = (r, s1)"
    by fastforce
  with assms have "r = Inr (Inr u)" "s1 = s'" "u \<noteq> []"
    by (auto simp: RotateRefreshTokenV2_def dbind_def dmap_err_def dfail_def dreturn_def split: if_splits sum.splits)
  with autocommit_cases(2) [OF a] show ?thesis by simp
qed

lemma Rotate_state:
  assumes "RotateRefreshTokenV2 digest rdb old new ex s = (res, s')"
  shows "durable s' = durable s \<or>
     (\<exists>x. rotate_script (refreshV2Key digest old) (legacyKey old) (refreshV2Key digest new) (ex div sec) (durable s) = Inr (x, durable s'))"
proof -
  obtain r s1 where a: "autocommit (rotate_script (refreshV2Key digest old) (legacyKey old) (refreshV2Key digest new) (ex div sec)) s = (r, s1)"
    by fastforce
  have "s' = s \<or> s' = s1"
    using assms a by (auto simp: RotateRefreshTokenV2_def dbind_def dmap_err_def dfail_def dreturn_def split: if_splits sum.splits)
  with autocommit_cases(1) [OF a] show ?thesis by auto
qed

lemma Rotate_spends:
  assumes "RotateRefreshTokenV2 digest rdb old new ex s = (Inr u, s')" and "store (durable s) (legacyKey old) = None"
    and "digest new \<noteq> digest old" and "refreshV2Key digest new \<noteq> legacyKey old"
  shows "spent digest old (durable s')" "rlookup (refreshV2Key digest old) (durable s) = Some (RStr u)"
    "rlookup (refreshV2Key digest new) (durable s') = Some (RStr u)"
proof -
  let ?k1 = "refreshV2Key digest old" and ?k2 = "legacyKey old" and ?k3 = "refreshV2Key digest new"
  have ne: "?k3 \<noteq> ?k1" using assms(3) by (simp add: refreshV2Key_def)
  have none: "rlookup ?k2 (durable s) = None" using assms(2) by (simp add: rlookup_def)
  from Rotate_result [OF assms(1)] have "u \<noteq> []" and "rotate_script ?k1 ?k2 ?k3 (ex div sec) (durable s) = Inr (Inr u, durable s')" by auto
  with rotate_script_cases [OF this(2)] none
  have k1: "rlookup ?k1 (durable s) = Some (RStr u)" and pos: "0 < ex div sec"
    and s': "durable s' = rset ?k3 (RStr u) (Some (rclock (durable s) + 1000 * (ex div sec))) (rdel ?k1 (durable s))"
    by (auto split: if_splits)
  show "rlookup ?k1 (durable s) = Some (RStr u)" by (rule k1)
  show "spent digest old (durable s')" using ne assms(2,4) by (auto simp: spent_def s' rset_def rdel_def)
  show "rlookup ?k3 (durable s') = Some (RStr u)" using pos by (simp add: s')
qed

text \<open>Several attempts to redeem the same token, each at its own time, with its own new token and faults.\<close>

fun redeem ::
  "(string \<Rightarrow> string) \<Rightarrow> string \<Rightarrow> (int \<times> outcome list \<times> string \<times> int) list \<Rightarrow> redis session \<Rightarrow> string res list \<times> redis session" where
  "redeem digest old [] s = ([], s)"
| "redeem digest old ((t, outs, new, ex) # xs) s =
     (let (r, s) = RotateRefreshTokenV2 digest True old new ex (s\<lparr>durable := at_time t (durable s), outcomes := outs\<rparr>);
          (rs, s) = redeem digest old xs s
      in (r # rs, s))"

definition new_ok :: "(string \<Rightarrow> string) \<Rightarrow> string \<Rightarrow> string \<Rightarrow> bool" where
  "new_ok digest old new \<longleftrightarrow> digest new \<noteq> digest old \<and> refreshV2Key digest new \<noteq> legacyKey old"

text \<open>The entries under which a token can be redeemed: its digest's and the one of the older scheme.\<close>

definition forms :: "(string \<Rightarrow> string) \<Rightarrow> string \<Rightarrow> redis \<Rightarrow> string set" where
  "forms digest old r = {k \<in> {refreshV2Key digest old, legacyKey old}. store r k \<noteq> None}"

lemma forms_finite [simp]: "finite (forms digest old r)"
  by (simp add: forms_def)

lemma forms_at_time [simp]: "forms digest old (at_time t r) = forms digest old r"
  by (simp add: forms_def at_time_def)

lemma forms_del [simp]: "forms digest old (rdel k r) = forms digest old r - {k}"
  by (auto simp: forms_def rdel_def)

lemma forms_set [simp]: "new_ok digest old new \<Longrightarrow> forms digest old (rset (refreshV2Key digest new) v t r) = forms digest old r"
  by (auto simp: forms_def rset_def new_ok_def refreshV2Key_def)

lemma forms_lookup:
  "rlookup (refreshV2Key digest old) r = Some v \<Longrightarrow> refreshV2Key digest old \<in> forms digest old r"
  "rlookup (legacyKey old) r = Some v \<Longrightarrow> legacyKey old \<in> forms digest old r"
  by (auto simp: forms_def rlookup_def split: option.splits)

text \<open>No attempt adds an entry of the old token, and each successful one removes one.\<close>

lemma Rotate_forms:
  assumes "RotateRefreshTokenV2 digest rdb old new ex s = (res, s')" and "new_ok digest old new"
  shows "forms digest old (durable s') \<subseteq> forms digest old (durable s)"
    "is_ok res \<Longrightarrow> forms digest old (durable s') \<noteq> forms digest old (durable s)"
proof -
  show "forms digest old (durable s') \<subseteq> forms digest old (durable s)"
    using Rotate_state [OF assms(1)] rotate_script_cases assms(2) by (fastforce split: if_splits)
  assume "is_ok res"
  then obtain u where u: "res = Inr u" by (cases res) auto
  from Rotate_result [OF assms(1) [unfolded u]] have "u \<noteq> []"
    "rotate_script (refreshV2Key digest old) (legacyKey old) (refreshV2Key digest new) (ex div sec) (durable s) = Inr (Inr u, durable s')"
    by blast+
  from rotate_script_cases [OF this(2)] this(1) assms(2) forms_lookup [where digest = digest and old = old and r = "durable s"]
  show "forms digest old (durable s') \<noteq> forms digest old (durable s)" by (auto split: if_splits)
qed

lemma redeem_forms:
  assumes "\<forall>x\<in>set xs. new_ok digest old (fst (snd (snd x)))"
  shows "length (filter is_ok (fst (redeem digest old xs s))) \<le> card (forms digest old (durable s))"
  using assms
proof (induction xs arbitrary: s)
  case (Cons x xs)
  obtain t outs new ex where x: "x = (t, outs, new, ex)" by (cases x)
  let ?s = "s\<lparr>durable := at_time t (durable s), outcomes := outs\<rparr>"
  obtain r s1 where rot: "RotateRefreshTokenV2 digest True old new ex ?s = (r, s1)" by fastforce
  obtain rs s2 where rest: "redeem digest old xs s1 = (rs, s2)" by fastforce
  have "new_ok digest old new" using Cons.prems by (simp add: x)
  note f = Rotate_forms [OF rot this, simplified]
  have "card (forms digest old (durable s1)) + (if is_ok r then 1 else 0) \<le> card (forms digest old (durable s))"
  proof (cases "is_ok r")
    case True
    with f have "forms digest old (durable s1) \<subset> forms digest old (durable s)" by blast
    from psubset_card_mono [OF forms_finite this] True show ?thesis by simp
  next
    case False
    with card_mono [OF forms_finite f(1)] show ?thesis by simp
  qed
  moreover have "length (filter is_ok rs) \<le> card (forms digest old (durable s1))"
    using Cons.IH [of s1] Cons.prems rest by simp
  ultimately show ?case using rot rest by (simp add: x split: if_splits)
qed simp

text \<open>
  The older scheme's key of a made-up token is the new scheme's key of another one, so the digest of a
  token, which is all that the store holds of it, can itself be presented and redeemed.
\<close>

lemma digest_redeems:
  assumes "rlookup (refreshV2Key digest tok) (durable s) = Some (RStr u)" and "u \<noteq> []" and "outcomes s = []"
    and "store (durable s) (refreshV2Key digest (''v2:'' @ digest tok)) = None" and "new \<noteq> []" and "sec \<le> ex"
  shows "fst (RotateRefreshTokenV2 digest True (''v2:'' @ digest tok) new ex s) = Inr u"
proof -
  have k: "legacyKey (''v2:'' @ digest tok) = refreshV2Key digest tok" by (simp add: legacyKey_def refreshV2Key_def)
  have "0 < ex div sec" "0 < ex" using assms(6) by (simp_all add: sec_def pos_imp_zdiv_pos_iff)
  moreover have "rlookup (refreshV2Key digest (''v2:'' @ digest tok)) (durable s) = None" using assms(4) by (simp add: rlookup_def)
  ultimately show ?thesis using assms(1-3,5) k
    by (simp add: RotateRefreshTokenV2_def dbind_def dmap_err_def dreturn_def autocommit_def next_outcome_def
        rotate_script_def sbind_def sreturn_def get_or_empty_def GET_def DEL_def SET_def)
qed

section \<open>Properties\<close>

text \<open>A JWT library that signs one token, a request with it and an empty Redis, for the witnesses.\<close>

definition demo_claims :: claims where
  "demo_claims = \<lparr>UserID = ''u1'', Role = ''user'', Fingerprint = ''fp'', DeviceID = [], Permissions = [],
     TokenID = ''id1'', Subject = ''u1'', Issuer = tokenIssuer, Audience = [tokenAudience], ExpiresAt = 900,
     IssuedAt = 0, NotBefore = 0\<rparr>"

definition demo_jwt :: jwt_lib where
  "demo_jwt = \<lparr>sign = (\<lambda>m k c. if m = HS256 \<and> k = ''key'' \<and> c = demo_claims then Inr ''tok'' else Inl (Errorf ''sign'')),
     parse_with = (\<lambda>kf iss aud now t. if t = ''tok'' \<and> kf HS256 = Inr ''key'' \<and> iss = tokenIssuer \<and> aud = tokenAudience \<and>
                      0 \<le> now \<and> now < 900 * sec then Inr (True, demo_claims) else Inl (Errorf ''parse''))\<rparr>"

definition demo_auth :: auth_request where
  "demo_auth = \<lparr>authorization = ''Bearer tok'', ip = ''10.0.0.1'', user_agent = ''ua''\<rparr>"

definition demo_redis :: "redis \<Rightarrow> redis session" where
  "demo_redis r = \<lparr>durable = r, view = r, aborted = False, outcomes = []\<rparr>"

lemma demo_jwt_ok: "jwt_sound demo_jwt" "jwt_complete demo_jwt"
  by (auto simp: jwt_sound_def jwt_complete_def demo_jwt_def demo_claims_def split: if_splits)

lemma demo_trim: "trim_space ''tok'' = ''tok''" "trim_space ''key'' = ''key''" "trim_space ''u1'' = ''u1''" "trim_space [] = []"
  by (simp_all add: trim_space_plain plain_byte_def)

lemma demo_accepted:
  "AuthMiddleware demo_jwt (\<lambda>_. ''fp'') ''key'' True 5 demo_auth (demo_redis no_redis) =
     (Accepted \<lparr>l_user_id = ''u1'', l_role = ''user'', l_token_id = ''id1'', l_token_exp = 900, l_fingerprint = ''fp'',
                l_permissions = []\<rparr>, demo_redis no_redis)"
  by (simp add: AuthMiddleware_def demo_auth_def has_prefix_def trim_prefix_def ValidateToken_def demo_trim demo_jwt_def
      key_func_def sec_def demo_claims_def CheckTokenBlacklist_def autocommit_def next_outcome_def demo_redis_def
      GET_def rlookup_def no_redis_def GenerateFingerprint_def)

text \<open>
  C14. Authentication is sound. A request that the middleware lets through carries a token signed with
  the service's own secret and method, issued for this audience and not expired, whose subject is the
  user handed on; the token is not on the blacklist, and its fingerprint, if it has one, is that of the
  request's address and user agent. With Redis missing or failing nothing passes.
\<close>

theorem accepted_requests_are_authentic:
  assumes "jwt_sound lib" and "AuthMiddleware lib digest secret rdb now q s = (Accepted l, s')"
  shows "\<exists>t c. authorization q = ''Bearer '' @ t \<and> sign lib HS256 secret c = Inr (trim_space t) \<and>
     Issuer c = tokenIssuer \<and> tokenAudience \<in> set (Audience c) \<and> now < ExpiresAt c * sec \<and>
     Subject c = l_user_id l \<and> Role c = l_role l \<and> l_user_id l \<noteq> [] \<and> rdb \<and>
     rlookup (bl_key (TokenID c)) (durable s) \<noteq> Some (RStr ''1'') \<and>
     (Fingerprint c = [] \<or> Fingerprint c = GenerateFingerprint digest (ip q) (user_agent q))"
  using assms(2)
proof (rule AuthMiddleware_accepts)
  fix c t
  assume "authorization q = ''Bearer '' @ t" and v: "ValidateToken lib now (trim_space t) secret = Inr c"
    and "rlookup (bl_key (TokenID c)) (durable s) \<noteq> Some (RStr ''1'')" "rdb"
    and "Fingerprint c = [] \<or> GenerateFingerprint digest (ip q) (user_agent q) = Fingerprint c"
    and "l_user_id l = UserID c" "l_role l = Role c"
  moreover note ValidateToken_sound [OF assms(1) v]
  ultimately show ?thesis by (intro exI [of _ t] exI [of _ c]) auto
qed

theorem accepted_requests_are_authentic_witness:
  "\<exists>t c. ''Bearer tok'' = ''Bearer '' @ t \<and> sign demo_jwt HS256 ''key'' c = Inr (trim_space t) \<and> Subject c = ''u1''"
  using accepted_requests_are_authentic [OF demo_jwt_ok(1) demo_accepted] by (auto simp: demo_auth_def)

text \<open>
  Issued tokens work. A token that \<open>GenerateToken\<close> issued at time \<open>t\<close> is accepted from then until its
  expiry, for a request with the same address and user agent, as long as Redis answers and its
  identifier is not blacklisted, and yields the trimmed user and role (\<open>user\<close> when none was given).
\<close>

theorem issued_token_accepted:
  assumes "jwt_complete lib"
    and "GenerateToken lib (Inr tid) t user role (GenerateFingerprint digest (ip q) (user_agent q)) secret = Inr tok"
    and "tid \<noteq> []" and "tok \<noteq> []" "trim_space tok = tok" and "authorization q = ''Bearer '' @ tok"
    and "t \<le> now" and "now < (t + accessTokenTTL) div sec * sec"
    and "outcomes s = []" and "rlookup (bl_key tid) (durable s) = None"
  shows "\<exists>l. AuthMiddleware lib digest secret True now q s = (Accepted l, s) \<and> l_user_id l = trim_space user \<and>
     l_role l = (if trim_space role = [] then ''user'' else trim_space role) \<and> l_token_id l = tid"
proof -
  let ?fp = "GenerateFingerprint digest (ip q) (user_agent q)"
  let ?c = "\<lparr>UserID = trim_space user, Role = (if trim_space role = [] then ''user'' else trim_space role),
      Fingerprint = ?fp, DeviceID = [], Permissions = [], TokenID = tid, Subject = trim_space user,
      Issuer = tokenIssuer, Audience = [tokenAudience], ExpiresAt = (t + accessTokenTTL) div sec,
      IssuedAt = t div sec, NotBefore = t div sec\<rparr>"
  from assms(2) have ne: "trim_space secret \<noteq> []" "trim_space user \<noteq> []" and sg: "sign lib HS256 secret ?c = Inr tok"
    by (auto simp: GenerateToken_def GenerateTokenWithPermissions_def Let_def split: if_splits)
  have "t div sec * sec \<le> now"
    using assms(7) minus_mod_eq_div_mult [of t sec] pos_mod_sign [of sec t] by (simp add: sec_def)
  then have "sign lib HS256 secret ?c = Inr tok \<and> key_func secret HS256 = Inr secret \<and> Issuer ?c = tokenIssuer \<and>
      tokenAudience \<in> set (Audience ?c) \<and> now < ExpiresAt ?c * sec \<and> NotBefore ?c * sec \<le> now"
    using sg assms(8) by (simp add: key_func_def)
  with assms(1) have "parse_with lib (key_func secret) tokenIssuer tokenAudience now tok = Inr (True, ?c)"
    unfolding jwt_complete_def by blast
  with ne assms(3-5) have v: "ValidateToken lib now tok secret = Inr ?c" by (simp add: ValidateToken_def)
  have b: "CheckTokenBlacklist True tid s = ((False, None), s)"
    using assms(3,9,10) by (simp add: CheckTokenBlacklist_def autocommit_def next_outcome_def GET_def)
  have "has_prefix (authorization q) ''Bearer ''" "trim_prefix (authorization q) ''Bearer '' = tok"
    by (simp_all add: assms(6) has_prefix_def trim_prefix_def)
  then show ?thesis using v b assms(5) by (simp add: AuthMiddleware_def)
qed

theorem issued_token_accepted_witness:
  "\<exists>l. AuthMiddleware demo_jwt (\<lambda>_. ''fp'') ''key'' True 5 demo_auth (demo_redis no_redis) = (Accepted l, demo_redis no_redis) \<and>
     l_user_id l = trim_space ''u1''"
proof -
  have "GenerateToken demo_jwt (Inr ''id1'') 0 ''u1'' [] (GenerateFingerprint (\<lambda>_. ''fp'') (ip demo_auth) (user_agent demo_auth)) ''key'' = Inr ''tok''"
    by (simp add: GenerateToken_def GenerateTokenWithPermissions_def demo_trim demo_jwt_def demo_claims_def
        GenerateFingerprint_def accessTokenTTL_def sec_def)
  from issued_token_accepted [OF demo_jwt_ok(2) this, of 5 "demo_redis no_redis"]
  show ?thesis by (auto simp: demo_trim demo_auth_def accessTokenTTL_def sec_def demo_redis_def no_redis_def rlookup_def)
qed

text \<open>
  C20. Revocation is final. After \<open>BlacklistToken\<close> has reported success for a token identifier, a request
  that presents a token of that identifier is refused, with 401 or, when Redis does not answer, with 503,
  as long as the entry is not overwritten: until the time to live given is over, and from then on too
  when that time to live covers the expiry the token names.
\<close>

theorem revoked_token_rejected:
  assumes "jwt_sound lib" and "BlacklistToken True i ttl s0 = (Inr (), s1)" and "0 < ttl"
    and "store (durable s) (bl_key i) = store (durable s1) (bl_key i)" and "rclock (durable s) = now div 1000000"
    and "authorization q = ''Bearer '' @ t" and "ValidateToken lib now (trim_space t) secret = Inr c" and "TokenID c = i"
    and "now < (rclock (durable s0) + format_ms ttl) * 1000000 \<or>
         ExpiresAt c * sec \<le> (rclock (durable s0) + format_ms ttl) * 1000000"
  shows "fst (AuthMiddleware lib digest secret rdb now q s) = Unauthorized \<or>
         fst (AuthMiddleware lib digest secret rdb now q s) = AuthUnavailable"
proof (rule ccontr)
  assume not: "\<not> ?thesis"
  obtain a s' where m: "AuthMiddleware lib digest secret rdb now q s = (a, s')" by fastforce
  with not obtain l where "a = Accepted l" by (cases a) auto
  with m have "AuthMiddleware lib digest secret rdb now q s = (Accepted l, s')" by simp
  from AuthMiddleware_accepts [OF this] obtain c' t' where
    "authorization q = ''Bearer '' @ t'" "ValidateToken lib now (trim_space t') secret = Inr c'"
    "rlookup (bl_key (TokenID c')) (durable s) \<noteq> Some (RStr ''1'')" .
  with assms(6-8) have bl: "rlookup (bl_key i) (durable s) \<noteq> Some (RStr ''1'')" by simp
  note sound = ValidateToken_sound [OF assms(1,7)]
  then have "i \<noteq> []" using assms(8) by auto
  then have "autocommit (SET (bl_key i) ''1'' (Some (format_ms ttl))) s0 = (Inr (), s1)"
    using assms(2,3) by (simp add: BlacklistToken_def)
  from autocommit_cases(2) [OF this refl]
  have "store (durable s1) (bl_key i) = Some (RStr ''1'', Some (rclock (durable s0) + format_ms ttl))"
    by (simp add: SET_iff rset_def)
  with assms(4,5) bl have "rclock (durable s0) + format_ms ttl \<le> now div 1000000"
    by (auto simp: rlookup_def split: if_splits)
  from mult_right_mono [OF this, of 1000000]
  have "(rclock (durable s0) + format_ms ttl) * 1000000 \<le> now div 1000000 * 1000000" by simp
  also have "\<dots> \<le> now" by (simp add: minus_mod_eq_div_mult [symmetric])
  finally show False using assms(9) sound by linarith
qed

theorem revoked_token_rejected_witness:
  "fst (AuthMiddleware demo_jwt (\<lambda>_. ''fp'') ''key'' True 5 demo_auth (demo_redis
     (rset (bl_key ''id1'') (RStr ''1'') (Some 900000) no_redis))) = Unauthorized \<or>
   fst (AuthMiddleware demo_jwt (\<lambda>_. ''fp'') ''key'' True 5 demo_auth (demo_redis
     (rset (bl_key ''id1'') (RStr ''1'') (Some 900000) no_redis))) = AuthUnavailable"
proof -
  let ?s0 = "demo_redis no_redis"
  let ?r = "rset (bl_key ''id1'') (RStr ''1'') (Some 900000) no_redis"
  have b: "BlacklistToken True ''id1'' (900 * sec) ?s0 = (Inr (), demo_redis ?r\<lparr>view := no_redis\<rparr>)"
    by (simp add: BlacklistToken_def demo_redis_def autocommit_def next_outcome_def SET_def no_redis_def format_ms_def sec_def)
  have v: "ValidateToken demo_jwt 5 (trim_space ''tok'') ''key'' = Inr demo_claims"
    by (simp add: ValidateToken_def demo_trim demo_jwt_def key_func_def sec_def demo_claims_def)
  show ?thesis
    by (rule revoked_token_rejected [OF demo_jwt_ok(1) b _ _ _ _ v])
      (simp_all add: demo_redis_def no_redis_def rset_def demo_auth_def demo_claims_def format_ms_def sec_def)
qed

text \<open>
  C26. A refresh token is redeemed at most once for each entry under which the store holds it. Of any
  attempts to rotate the same token, at any times, each with a new token that has another digest and is
  not stored under the old token's own key, and with any Redis faults, no more report success than there
  are entries: at most one for a token stored under its digest alone, or under the key of the older
  scheme alone, and none for an unknown token.
\<close>

theorem refresh_token_single_use:
  assumes "\<forall>x\<in>set xs. new_ok digest old (fst (snd (snd x)))"
  shows "length (filter is_ok (fst (redeem digest old xs s)))
           \<le> card {k \<in> {refreshV2Key digest old, legacyKey old}. store (durable s) k \<noteq> None}"
  by (rule redeem_forms [OF assms, unfolded forms_def])

theorem refresh_token_single_use_witness:
  "length (filter is_ok (fst (redeem (\<lambda>t. t) ''old''
     [(1, [], ''new1'', 10 * sec), (2, [AckLost], ''new2'', 10 * sec), (3, [], ''new3'', 10 * sec)]
     (demo_redis (rset (refreshV2Key (\<lambda>t. t) ''old'') (RStr ''u'') None no_redis))))) \<le> 1 \<and>
   length (filter is_ok (fst (redeem (\<lambda>t. t) ''old'' [(1, [], ''new1'', 10 * sec), (2, [], ''new2'', 10 * sec)]
     (demo_redis (rset (legacyKey ''old'') (RStr ''u'') None no_redis))))) \<le> 1"
proof -
  have c: "card {k \<in> {refreshV2Key (\<lambda>t. t) ''old'', legacyKey ''old''}.
      store (durable (demo_redis (rset k0 (RStr ''u'') None no_redis))) k \<noteq> None} \<le> 1" for k0
    by (rule order_trans [OF card_mono [of "{k0}"]]) (auto simp: demo_redis_def no_redis_def rset_def split: if_splits)
  show ?thesis
    by (intro conjI; rule order_trans [OF refresh_token_single_use c]) (simp_all add: legacyKey_def refreshV2Key_def new_ok_def)
qed

text \<open>
  Rotation hands the session over. When a rotation succeeds, the new token validates to the user of
  the old one, and the old token no longer validates.
\<close>

theorem rotation_transfers_session:
  assumes "RotateRefreshTokenV2 digest True old new ex s = (Inr u, s')" and "outcomes s' = []"
    and "store (durable s) (legacyKey old) = None" and "new_ok digest old new"
  shows "rlookup (refreshV2Key digest old) (durable s) = Some (RStr u) \<and>
         ValidateRefreshTokenV2 digest True new s' = (Inr u, s') \<and>
         \<not> is_ok (fst (ValidateRefreshTokenV2 digest True old s'))"
proof -
  note r = Rotate_spends [OF assms(1,3) assms(4) [unfolded new_ok_def, THEN conjunct1] assms(4) [unfolded new_ok_def, THEN conjunct2]]
  from Rotate_result [OF assms(1)] have "u \<noteq> []" by simp
  have ne: "old \<noteq> []" "new \<noteq> []" using assms(1) by (auto simp: RotateRefreshTokenV2_def dfail_def split: if_splits)
  have "ValidateRefreshTokenV2 digest True new s' = (Inr u, s')"
    using r(3) ne \<open>u \<noteq> []\<close> assms(2) by (simp add: ValidateRefreshTokenV2_def autocommit_def next_outcome_def GET_def)
  moreover have "\<not> is_ok (fst (ValidateRefreshTokenV2 digest True old s'))"
    using spent_lookup [OF r(1)] ne assms(2)
    by (simp add: ValidateRefreshTokenV2_def autocommit_def next_outcome_def GET_def)
  ultimately show ?thesis using r(2) by blast
qed

theorem rotation_transfers_session_witness:
  "\<exists>s'. RotateRefreshTokenV2 (\<lambda>t. t) True ''old'' ''new'' (10 * sec)
        (demo_redis (rset (refreshV2Key (\<lambda>t. t) ''old'') (RStr ''u'') None no_redis)) = (Inr ''u'', s') \<and>
     ValidateRefreshTokenV2 (\<lambda>t. t) True ''new'' s' = (Inr ''u'', s')"
proof -
  let ?s = "demo_redis (rset (refreshV2Key (\<lambda>t. t) ''old'') (RStr ''u'') None no_redis)"
  obtain s' where run: "RotateRefreshTokenV2 (\<lambda>t. t) True ''old'' ''new'' (10 * sec) ?s = (Inr ''u'', s')" and o: "outcomes s' = []"
    by (simp add: RotateRefreshTokenV2_def demo_redis_def dbind_def dmap_err_def dreturn_def autocommit_def next_outcome_def
        rotate_script_def sbind_def sreturn_def get_or_empty_def GET_def DEL_def SET_def sec_def)
  from rotation_transfers_session [OF run o] run show ?thesis
    by (simp add: demo_redis_def no_redis_def rset_def legacyKey_def refreshV2Key_def new_ok_def)
qed

end
