(* ===== verification/Marketplace.thy ===== *)
theory Marketplace
  imports Complex_Main Database
begin

text \<open>
  The marketplace: \<open>modules/marketplace/infra/postgres_repository.go\<close>, its service and its HTTP handlers,
  on the tables of the migrations \<open>20260917_marketplace_contract.sql\<close> and
  \<open>20260917_marketplace_reviews.sql\<close>. A stock quantity of zero means an unlimited stock. The matching of
  \<open>ILIKE\<close> is a parameter; a \<open>REAL\<close> is a real number.
\<close>

type_synonym uuid = "128 word"

section \<open>Tables\<close>

record product =
  p_id :: uuid
  p_seller :: uuid
  p_name :: string
  p_description :: string
  p_price :: int
  p_currency :: string
  p_category :: string
  p_stock :: int
  p_rating :: real
  p_reviews :: int
  p_active :: bool
  p_featured :: bool
  p_created :: int

record order_row =
  o_id :: uuid
  o_buyer :: uuid
  o_total :: int
  o_status :: string
  o_currency :: string
  o_address :: string
  o_created :: int

record item_row =
  oi_order :: uuid
  oi_product :: uuid
  oi_quantity :: int
  oi_price :: int

record wish_row =
  wl_user :: uuid
  wl_product :: uuid
  wl_created :: int

record review_row =
  rv_product :: uuid
  rv_user :: uuid
  rv_rating :: int
  rv_comment :: string
  rv_created :: int

record market_db =
  users :: "uuid list"
  products :: "product list"
  orders :: "order_row list"
  items :: "item_row list"
  wishes :: "wish_row list"
  reviews :: "review_row list"

record market_env =
  scan_uuid :: "string \<Rightarrow> uuid res"
  show_uuid :: "uuid \<Rightarrow> string"
  ilike :: "string \<Rightarrow> string \<Rightarrow> bool"
  pool_set :: bool

record market_input =
  m_now :: int
  m_new_id :: uuid

section \<open>Statements\<close>

definition check_violation :: goerr where "check_violation = Constraint ''check_violation''"
definition fk_violation :: goerr where "fk_violation = Constraint ''foreign_key_violation''"

definition insert_product_stmt :: "product \<Rightarrow> (market_db, unit) sql" where
  "insert_product_stmt p d =
     (if p_seller p \<notin> set (users d) then Inl fk_violation
      else if p_price p < 0 \<or> p_stock p < 0 \<or> \<not> (0 \<le> p_rating p \<and> p_rating p \<le> 5) then Inl check_violation
      else (case sql_insert p_id p (products d) of
              Inl e \<Rightarrow> Inl e | Inr ps \<Rightarrow> Inr ((), d\<lparr>products := ps\<rparr>)))"

definition select_product_stmt :: "uuid \<Rightarrow> (market_db, product) sql" where
  "select_product_stmt i d = (case filter (\<lambda>p. p_id p = i) (products d) of [] \<Rightarrow> Inl NoRows | p # _ \<Rightarrow> Inr (p, d))"

definition reserve_stmt :: "uuid \<Rightarrow> int \<Rightarrow> (market_db, uuid \<times> int) sql" where
  "reserve_stmt i q d =
     (let P = (\<lambda>p. p_id p = i \<and> p_active p \<and> (p_stock p = 0 \<or> q \<le> p_stock p));
          f = (\<lambda>p. p\<lparr>p_stock := if p_stock p = 0 then 0 else p_stock p - q\<rparr>)
      in case filter P (products d) of
           [] \<Rightarrow> Inl NoRows
         | p # _ \<Rightarrow> Inr ((p_id p, p_price p), d\<lparr>products := sql_update P f (products d)\<rparr>))"

definition insert_order_stmt :: "order_row \<Rightarrow> (market_db, unit) sql" where
  "insert_order_stmt ro d =
     (if o_buyer ro \<notin> set (users d) then Inl fk_violation
      else if o_total ro < 0 then Inl check_violation
      else (case sql_insert o_id ro (orders d) of
              Inl e \<Rightarrow> Inl e | Inr os \<Rightarrow> Inr ((), d\<lparr>orders := os\<rparr>)))"

definition insert_item_stmt :: "item_row \<Rightarrow> (market_db, unit) sql" where
  "insert_item_stmt r d =
     (if oi_order r \<notin> o_id ` set (orders d) \<or> oi_product r \<notin> p_id ` set (products d) then Inl fk_violation
      else if oi_quantity r \<le> 0 \<or> oi_price r < 0 then Inl check_violation
      else (case sql_insert (\<lambda>r. (oi_order r, oi_product r)) r (items d) of
              Inl e \<Rightarrow> Inl e | Inr rs \<Rightarrow> Inr ((), d\<lparr>items := rs\<rparr>)))"

text \<open>\<open>ORDER BY is_featured DESC, created_at DESC, id ASC LIMIT 100\<close>, as stable sorts.\<close>

definition list_products_stmt :: "(string \<Rightarrow> string \<Rightarrow> bool) \<Rightarrow> string \<Rightarrow> string \<Rightarrow> (market_db, product list) sql" where
  "list_products_stmt like category search d =
     (let P = (\<lambda>p. p_active p \<and> (category = [] \<or> p_category p = category) \<and>
                   (search = [] \<or> like (p_name p) search \<or> like (p_description p) search))
      in Inr (take 100 (sort_key (\<lambda>p. \<not> p_featured p) (sort_key (\<lambda>p. - p_created p)
                (sort_key p_id (filter P (products d))))), d))"

definition insert_wish_stmt :: "wish_row \<Rightarrow> (market_db, unit) sql" where
  "insert_wish_stmt w d =
     (if wl_user w \<notin> set (users d) \<or> wl_product w \<notin> p_id ` set (products d) then Inl fk_violation
      else Inr ((), d\<lparr>wishes := sql_insert_ignore (\<lambda>w. (wl_user w, wl_product w)) w (wishes d)\<rparr>))"

definition select_wishes_stmt :: "uuid \<Rightarrow> (market_db, product list) sql" where
  "select_wishes_stmt u d =
     (let ws = sort_key (\<lambda>w. - wl_created w) (sort_key wl_product (filter (\<lambda>w. wl_user w = u) (wishes d)))
      in Inr (concat (map (\<lambda>w. filter (\<lambda>p. p_id p = wl_product w \<and> p_active p) (products d)) ws), d))"

definition upsert_review_stmt :: "review_row \<Rightarrow> (market_db, unit) sql" where
  "upsert_review_stmt r d =
     (if rv_user r \<notin> set (users d) \<or> rv_product r \<notin> p_id ` set (products d) then Inl fk_violation
      else if \<not> (1 \<le> rv_rating r \<and> rv_rating r \<le> 5) then Inl check_violation
      else Inr ((), d\<lparr>reviews := sql_upsert (\<lambda>r. (rv_product r, rv_user r)) r
             (\<lambda>x. x\<lparr>rv_rating := rv_rating r, rv_comment := rv_comment r, rv_created := rv_created r\<rparr>) (reviews d)\<rparr>))"

definition product_reviews :: "uuid \<Rightarrow> market_db \<Rightarrow> review_row list" where
  "product_reviews i d = filter (\<lambda>r. rv_product r = i) (reviews d)"

definition avg_rating :: "review_row list \<Rightarrow> real" where
  "avg_rating rs = (\<Sum>r\<leftarrow>rs. real_of_int (rv_rating r)) / real (length rs)"

definition refresh_rating_stmt :: "uuid \<Rightarrow> (market_db, unit) sql" where
  "refresh_rating_stmt i d =
     (let rs = product_reviews i d
      in if rs = [] then Inr ((), d)
         else Inr ((), d\<lparr>products := sql_update (\<lambda>p. p_id p = i)
                (\<lambda>p. p\<lparr>p_rating := avg_rating rs, p_reviews := int (length rs)\<rparr>) (products d)\<rparr>))"

section \<open>Repository\<close>

text \<open>The product and the order of the domain, with the fields that the code uses.\<close>

record product_rec =
  pr_ID :: string
  pr_SellerID :: string
  pr_Name :: string
  pr_Description :: string
  pr_Price :: int
  pr_Currency :: string
  pr_Category :: string
  pr_StockQuantity :: int
  pr_Rating :: real
  pr_IsActive :: bool
  pr_CreatedAt :: int

record order_item =
  ProductID :: string
  ProductName :: string
  Quantity :: int
  PriceAtPurchase :: int
  Subtotal :: int

record order_rec =
  od_ID :: string
  od_BuyerID :: string
  TotalAmount :: int
  Currency :: string
  od_Status :: string
  AddressLine1 :: string
  Items :: "order_item list"
  od_CreatedAt :: int

definition parseMarketplaceUUID :: "market_env \<Rightarrow> string \<Rightarrow> uuid res" where
  "parseMarketplaceUUID env v =
     (case scan_uuid env (trim_space v) of Inl e \<Rightarrow> Inl (Wrapf ''invalid uuid'' e) | Inr u \<Rightarrow> Inr u)"

definition or_default :: "string \<Rightarrow> string \<Rightarrow> string" where
  "or_default v def = (if trim_space v = [] then def else trim_space v)"

definition CreateProduct :: "market_env \<Rightarrow> market_input \<Rightarrow> product_rec \<Rightarrow> (market_db, product_rec) dbm" where
  "CreateProduct env i p =
     (case parseMarketplaceUUID env (pr_SellerID p) of
        Inl e \<Rightarrow> dfail e
      | Inr sid \<Rightarrow>
          (let currency = or_default (pr_Currency p) ''MRO''; category = or_default (pr_Category p) ''general''
           in dbind (autocommit (insert_product_stmt
                       \<lparr>p_id = m_new_id i, p_seller = sid, p_name = trim_space (pr_Name p),
                        p_description = pr_Description p, p_price = pr_Price p, p_currency = currency,
                        p_category = category, p_stock = pr_StockQuantity p, p_rating = pr_Rating p,
                        p_reviews = 0, p_active = True, p_featured = False, p_created = m_now i\<rparr>)) (\<lambda>_.
              dreturn (p\<lparr>pr_ID := show_uuid env (m_new_id i), pr_Currency := currency, pr_Category := category,
                         pr_CreatedAt := m_now i, pr_IsActive := True\<rparr>))))"

definition repo_GetProduct :: "market_env \<Rightarrow> string \<Rightarrow> (market_db, product) dbm" where
  "repo_GetProduct env x =
     (case parseMarketplaceUUID env x of Inl e \<Rightarrow> dfail e | Inr i \<Rightarrow> autocommit (select_product_stmt i))"

text \<open>The loop over the items of the order: stock, price and tot, and the lines reserved so far.\<close>

fun reserve_items ::
  "market_env \<Rightarrow> order_item list \<Rightarrow> int \<Rightarrow> (uuid \<times> int \<times> int) list \<Rightarrow>
   (market_db, int \<times> (uuid \<times> int \<times> int) list) dbm" where
  "reserve_items env [] tot reserved = dreturn (tot, reserved)"
| "reserve_items env (it # its) tot reserved =
     (case parseMarketplaceUUID env (ProductID it) of
        Inl e \<Rightarrow> dfail e
      | Inr pid \<Rightarrow>
          if Quantity it \<le> 0 then dfail (Errorf ''quantity must be positive'')
          else dbind (dmap_err (Wrapf ''reserve stock for product'') (stmt (reserve_stmt pid (Quantity it)))) (\<lambda>(upid, price).
            if price \<le> 0 then dfail (Errorf ''product has an invalid price'')
            else if price * Quantity it \<le> 0 \<or> max_int32 - price * Quantity it < tot
            then dfail (Errorf ''order total exceeds supported amount'')
            else reserve_items env its (tot + price * Quantity it) (reserved @ [(upid, Quantity it, price)])))"

fun insert_items :: "uuid \<Rightarrow> (uuid \<times> int \<times> int) list \<Rightarrow> (market_db, unit) dbm" where
  "insert_items oid [] = dreturn ()"
| "insert_items oid ((pid, q, price) # rs) =
     dbind (stmt (insert_item_stmt \<lparr>oi_order = oid, oi_product = pid, oi_quantity = q, oi_price = price\<rparr>)) (\<lambda>_.
     insert_items oid rs)"

definition new_order :: "market_input \<Rightarrow> uuid \<Rightarrow> order_rec \<Rightarrow> int \<Rightarrow> order_row" where
  "new_order i buyer ord tot =
     \<lparr>o_id = m_new_id i, o_buyer = buyer, o_total = wrap32 tot, o_status = or_default (od_Status ord) ''pending'',
      o_currency = or_default (Currency ord) ''MRO'', o_address = AddressLine1 ord, o_created = m_now i\<rparr>"

definition order_body ::
  "market_env \<Rightarrow> market_input \<Rightarrow> uuid \<Rightarrow> order_rec \<Rightarrow> (market_db, int \<times> (uuid \<times> int \<times> int) list) dbm" where
  "order_body env i buyer ord =
     dbind (reserve_items env (Items ord) 0 []) (\<lambda>(tot, reserved).
     dbind (stmt (insert_order_stmt (new_order i buyer ord tot))) (\<lambda>_.
     dbind (insert_items (m_new_id i) reserved) (\<lambda>_.
     dreturn (tot, reserved))))"

definition filled_items :: "order_item list \<Rightarrow> (uuid \<times> int \<times> int) list \<Rightarrow> order_item list" where
  "filled_items its rs =
     map (\<lambda>(it, k). if k < length rs
                     then it\<lparr>PriceAtPurchase := snd (snd (rs ! k)), Subtotal := wrap32 (snd (snd (rs ! k)) * fst (snd (rs ! k)))\<rparr>
                     else it) (zip its [0..<length its])"

definition CreateOrder :: "market_env \<Rightarrow> market_input \<Rightarrow> order_rec \<Rightarrow> (market_db, order_rec) dbm" where
  "CreateOrder env i ord =
     (if \<not> pool_set env then dfail (Errorf ''postgres pool is required'')
      else (case parseMarketplaceUUID env (od_BuyerID ord) of
              Inl e \<Rightarrow> dfail e
            | Inr buyer \<Rightarrow>
                if Items ord = [] then dfail (Errorf ''order must contain at least one item'')
                else dbind (in_tx (Wrapf ''begin marketplace order transaction'')
                              (Wrapf ''commit marketplace order transaction'') (order_body env i buyer ord))
                       (\<lambda>(tot, reserved).
                         dreturn (ord\<lparr>od_ID := show_uuid env (m_new_id i), Currency := or_default (Currency ord) ''MRO'',
                                      TotalAmount := wrap32 tot, od_Status := or_default (od_Status ord) ''pending'',
                                      od_CreatedAt := m_now i, Items := filled_items (Items ord) reserved\<rparr>))))"

definition ListProducts :: "market_env \<Rightarrow> string \<Rightarrow> string \<Rightarrow> (market_db, product list) dbm" where
  "ListProducts env category search =
     autocommit (list_products_stmt (ilike env) (trim_space category) (trim_space search))"

definition RecordTransaction :: "(market_db, unit) dbm" where
  "RecordTransaction =
     dfail (Errorf ''marketplace pulse transfers must be processed by the finance transaction service'')"

definition AddToWishlist :: "market_env \<Rightarrow> market_input \<Rightarrow> string \<Rightarrow> string \<Rightarrow> (market_db, unit) dbm" where
  "AddToWishlist env i user x =
     (case parseMarketplaceUUID env user of
        Inl e \<Rightarrow> dfail e
      | Inr uid \<Rightarrow>
          (case parseMarketplaceUUID env x of
             Inl e \<Rightarrow> dfail e
           | Inr pid \<Rightarrow> autocommit (insert_wish_stmt \<lparr>wl_user = uid, wl_product = pid, wl_created = m_now i\<rparr>)))"

definition repo_GetWishlist :: "market_env \<Rightarrow> string \<Rightarrow> (market_db, product list) dbm" where
  "repo_GetWishlist env user =
     (case parseMarketplaceUUID env user of Inl e \<Rightarrow> dfail e | Inr uid \<Rightarrow> autocommit (select_wishes_stmt uid))"

text \<open>Two statements, each on its own.\<close>

definition RateProduct :: "market_env \<Rightarrow> market_input \<Rightarrow> string \<Rightarrow> string \<Rightarrow> int \<Rightarrow> string \<Rightarrow> (market_db, unit) dbm" where
  "RateProduct env i user x rating comment =
     (if rating < 1 \<or> 5 < rating then dfail (Errorf ''rating must be between 1 and 5'')
      else (case parseMarketplaceUUID env user of
              Inl e \<Rightarrow> dfail e
            | Inr uid \<Rightarrow>
                (case parseMarketplaceUUID env x of
                   Inl e \<Rightarrow> dfail e
                 | Inr pid \<Rightarrow>
                     dbind (autocommit (upsert_review_stmt \<lparr>rv_product = pid, rv_user = uid, rv_rating = rating,
                                          rv_comment = comment, rv_created = m_now i\<rparr>)) (\<lambda>_.
                     autocommit (refresh_rating_stmt pid)))))"

section \<open>Service\<close>

definition PostProduct :: "market_env \<Rightarrow> market_input \<Rightarrow> product_rec option \<Rightarrow> (market_db, product_rec) dbm" where
  "PostProduct env i p =
     (case p of
        None \<Rightarrow> dfail (Errorf ''seller and product are required'')
      | Some p \<Rightarrow>
          if pr_SellerID p = [] then dfail (Errorf ''seller and product are required'')
          else if pr_Price p \<le> 0 then dfail (Errorf ''product price must be positive'')
          else if pr_StockQuantity p < 0 then dfail (Errorf ''stock quantity cannot be negative'')
          else if trim_space (pr_Name p) = [] then dfail (Errorf ''product name is required'')
          else CreateProduct env i p)"

definition SearchProducts :: "market_env \<Rightarrow> string \<Rightarrow> (market_db, product list) dbm" where
  "SearchProducts env query = ListProducts env [] query"

definition ExecutePulsePay :: "int \<Rightarrow> (market_db, unit) dbm" where
  "ExecutePulsePay amount = (if amount \<le> 0 then dfail (Errorf ''amount must be positive'') else RecordTransaction)"

definition ManageWishlist :: "market_env \<Rightarrow> market_input \<Rightarrow> string \<Rightarrow> string \<Rightarrow> bool \<Rightarrow> (market_db, unit) dbm" where
  "ManageWishlist env i user x add =
     (if add then AddToWishlist env i user x
      else dfail (Errorf ''wishlist removal is not available in the active runtime repository''))"

definition ReviewProduct :: "market_env \<Rightarrow> market_input \<Rightarrow> string \<Rightarrow> string \<Rightarrow> int \<Rightarrow> string \<Rightarrow> (market_db, unit) dbm" where
  "ReviewProduct env i user x rating comment =
     (if rating < 1 \<or> 5 < rating then dfail (Errorf ''rating must be between 1 and 5'')
      else RateProduct env i user x rating comment)"

fun price_items ::
  "market_env \<Rightarrow> (string \<times> int) list \<Rightarrow> int \<Rightarrow> order_item list \<Rightarrow> (market_db, int \<times> order_item list) dbm" where
  "price_items env [] tot its = dreturn (tot, its)"
| "price_items env ((x, q) # xs) tot its =
     (if q \<le> 0 then dfail (Errorf ''quantity must be positive'')
      else dbind (dmap_err (Wrapf ''failed to get product'') (repo_GetProduct env x)) (\<lambda>prod.
        if \<not> p_active prod then dfail (Errorf ''product is unavailable'')
        else if p_price prod \<le> 0 then dfail (Errorf ''product has an invalid price'')
        else if 0 < p_stock prod \<and> p_stock prod < q then dfail (Errorf ''insufficient stock for product'')
        else if p_price prod * q \<le> 0 \<or> max_int32 - p_price prod * q < tot
        then dfail (Errorf ''order total exceeds supported amount'')
        else price_items env xs (tot + p_price prod * q)
               (its @ [\<lparr>ProductID = x, ProductName = p_name prod, Quantity = q, PriceAtPurchase = p_price prod,
                        Subtotal = wrap32 (p_price prod * q)\<rparr>])))"

definition Purchase ::
  "market_env \<Rightarrow> market_input \<Rightarrow> string \<Rightarrow> string list \<Rightarrow> int list \<Rightarrow> string \<Rightarrow> (market_db, order_rec) dbm" where
  "Purchase env i buyer ids quantities address =
     (if ids = [] \<or> length ids \<noteq> length quantities
      then dfail (Errorf ''product IDs and quantities must have matching non-empty length'')
      else dbind (price_items env (zip ids quantities) 0 []) (\<lambda>(tot, its).
           CreateOrder env i \<lparr>od_ID = [], od_BuyerID = buyer, TotalAmount = wrap32 tot, Currency = [],
             od_Status = ''pending'', AddressLine1 = address, Items = its, od_CreatedAt = 0\<rparr>))"

section \<open>Handlers\<close>

datatype market_body = MErrorBody string | ProductsBody "product list" | ListedBody string | OrderBody order_rec string int

definition manswer ::
  "(market_db, 'a) dbm \<Rightarrow> int \<times> market_body \<Rightarrow> ('a \<Rightarrow> int \<times> market_body) \<Rightarrow> (market_db, int \<times> market_body) dbm" where
  "manswer m on_err on_ok s = (case m s of (Inl e, s') \<Rightarrow> (Inr on_err, s') | (Inr a, s') \<Rightarrow> (Inr (on_ok a), s'))"

definition handle_ListProducts :: "market_env \<Rightarrow> string \<Rightarrow> (market_db, int \<times> market_body) dbm" where
  "handle_ListProducts env q =
     manswer (SearchProducts env (trim_space q)) (500, MErrorBody ''failed to load products'') (\<lambda>ps. (200, ProductsBody ps))"

text \<open>The request body is \<open>None\<close> when it does not parse, the user is \<open>None\<close> without authentication.\<close>

definition handle_ListProduct ::
  "market_env \<Rightarrow> market_input \<Rightarrow> string option \<Rightarrow> product_rec option \<Rightarrow> (market_db, int \<times> market_body) dbm" where
  "handle_ListProduct env i user req =
     (case req of
        None \<Rightarrow> dreturn (400, MErrorBody ''invalid request body'')
      | Some p \<Rightarrow>
          if pr_Price p < 0 \<or> pr_StockQuantity p < 0 then dreturn (400, MErrorBody ''invalid product values'')
          else (case user of
                  None \<Rightarrow> dreturn (401, MErrorBody ''authentication required'')
                | Some u \<Rightarrow>
                    if trim_space u = [] then dreturn (401, MErrorBody ''authentication required'')
                    else manswer (PostProduct env i (Some (p\<lparr>pr_SellerID := trim_space u\<rparr>)))
                           (500, MErrorBody ''failed to list product'') (\<lambda>p. (201, ListedBody (pr_ID p)))))"

definition handle_Purchase ::
  "market_env \<Rightarrow> market_input \<Rightarrow> string option \<Rightarrow> (string list \<times> int list \<times> string) option \<Rightarrow>
   (market_db, int \<times> market_body) dbm" where
  "handle_Purchase env i user req =
     (case user of
        None \<Rightarrow> dreturn (401, MErrorBody ''authentication required'')
      | Some u \<Rightarrow>
          if u = [] then dreturn (401, MErrorBody ''authentication required'')
          else (case req of
                  None \<Rightarrow> dreturn (400, MErrorBody ''invalid request body'')
                | Some (ids, qs, address) \<Rightarrow>
                    manswer (Purchase env i u ids qs address) (400, MErrorBody ''operation failed'')
                      (\<lambda>ord. (201, OrderBody ord (od_ID ord) (TotalAmount ord)))))"

section \<open>The order transaction as a function on the tables\<close>

fun reserve_tables ::
  "market_env \<Rightarrow> order_item list \<Rightarrow> int \<Rightarrow> (uuid \<times> int \<times> int) list \<Rightarrow>
   (market_db, int \<times> (uuid \<times> int \<times> int) list) sql" where
  "reserve_tables env [] tot reserved = sreturn (tot, reserved)"
| "reserve_tables env (it # its) tot reserved =
     (case parseMarketplaceUUID env (ProductID it) of
        Inl e \<Rightarrow> sfail e
      | Inr pid \<Rightarrow>
          if Quantity it \<le> 0 then sfail (Errorf ''quantity must be positive'')
          else sbind (smap_err (Wrapf ''reserve stock for product'') (reserve_stmt pid (Quantity it))) (\<lambda>(upid, price).
            if price \<le> 0 then sfail (Errorf ''product has an invalid price'')
            else if price * Quantity it \<le> 0 \<or> max_int32 - price * Quantity it < tot
            then sfail (Errorf ''order total exceeds supported amount'')
            else reserve_tables env its (tot + price * Quantity it) (reserved @ [(upid, Quantity it, price)])))"

fun insert_item_tables :: "uuid \<Rightarrow> (uuid \<times> int \<times> int) list \<Rightarrow> (market_db, unit) sql" where
  "insert_item_tables oid [] = sreturn ()"
| "insert_item_tables oid ((pid, q, price) # rs) =
     sbind (insert_item_stmt \<lparr>oi_order = oid, oi_product = pid, oi_quantity = q, oi_price = price\<rparr>) (\<lambda>_.
     insert_item_tables oid rs)"

definition order_tables ::
  "market_env \<Rightarrow> market_input \<Rightarrow> uuid \<Rightarrow> order_rec \<Rightarrow> (market_db, int \<times> (uuid \<times> int \<times> int) list) sql" where
  "order_tables env i buyer ord =
     sbind (reserve_tables env (Items ord) 0 []) (\<lambda>(tot, reserved).
     sbind (insert_order_stmt (new_order i buyer ord tot)) (\<lambda>_.
     sbind (insert_item_tables (m_new_id i) reserved) (\<lambda>_.
     sreturn (tot, reserved))))"

lemma simulates_reserve: "simulates (reserve_items env its tot rs) (reserve_tables env its tot rs)"
proof (induction its arbitrary: tot rs)
  case (Cons it its)
  show ?case unfolding reserve_items.simps reserve_tables.simps by (intro sim_intros Cons.IH)
qed (simp add: simulates_return)

lemma simulates_insert_items: "simulates (insert_items oid rs) (insert_item_tables oid rs)"
proof (induction rs)
  case (Cons r rs)
  obtain pid q price where "r = (pid, q, price)" by (cases r)
  then show ?case by (simp only: insert_items.simps insert_item_tables.simps) (intro sim_intros Cons.IH)
qed (simp add: simulates_return)

lemma simulates_order: "simulates (order_body env i buyer ord) (order_tables env i buyer ord)"
  unfolding order_body_def order_tables_def
  by (intro sim_intros simulates_reserve simulates_insert_items)

interpretation order: transactional
  "in_tx (Wrapf ''begin marketplace order transaction'') (Wrapf ''commit marketplace order transaction'')
     (order_body env i buyer ord)" "order_tables env i buyer ord"
  by (rule transactional_in_tx [OF simulates_order])

section \<open>What an order does\<close>

definition restock :: "int \<Rightarrow> product \<Rightarrow> product" where
  "restock q p = p\<lparr>p_stock := if p_stock p = 0 then 0 else p_stock p - q\<rparr>"

definition sell :: "(uuid \<times> int \<times> int) list \<Rightarrow> product \<Rightarrow> product" where
  "sell rs p = (case map_of rs (p_id p) of None \<Rightarrow> p | Some (q, _) \<Rightarrow> restock q p)"

lemma restock_simps [simp]: "p_id (restock q p) = p_id p" "p_price (restock q p) = p_price p"
  "p_active (restock q p) = p_active p" "p_stock (restock q p) = (if p_stock p = 0 then 0 else p_stock p - q)"
  by (simp_all add: restock_def)

lemma sell_simps [simp]: "p_id (sell rs p) = p_id p" "p_price (sell rs p) = p_price p" "p_active (sell rs p) = p_active p"
  by (simp_all add: sell_def split: option.splits prod.splits)

definition line_total :: "(uuid \<times> int \<times> int) list \<Rightarrow> int" where
  "line_total rs = (\<Sum>(i, q, price)\<leftarrow>rs. price * q)"

lemma line_total_simps [simp]: "line_total [] = 0" "line_total ((i, q, price) # rs) = price * q + line_total rs"
  "line_total (rs @ rs') = line_total rs + line_total rs'"
  by (simp_all add: line_total_def)

text \<open>A line was available: an active product with this price and enough stock, or unlimited stock.\<close>

definition available :: "product list \<Rightarrow> uuid \<times> int \<times> int \<Rightarrow> bool" where
  "available ps r \<longleftrightarrow> (case r of (i, q, price) \<Rightarrow> 0 < q \<and> 0 < price \<and>
     (\<exists>p\<in>set ps. p_id p = i \<and> p_active p \<and> p_price p = price \<and> (p_stock p = 0 \<or> q \<le> p_stock p)))"

lemma reserve_stmtE:
  assumes "reserve_stmt i q d = Inr ((u, price), d')" and "distinct (map p_id (products d))"
  shows "u = i" "d' = d\<lparr>products := map (sell [(i, q, price)]) (products d)\<rparr>"
    "\<exists>p\<in>set (products d). p_id p = i \<and> p_active p \<and> p_price p = price \<and> (p_stock p = 0 \<or> q \<le> p_stock p)"
proof -
  let ?P = "\<lambda>p. p_id p = i \<and> p_active p \<and> (p_stock p = 0 \<or> q \<le> p_stock p)"
  have rq: "(\<lambda>p. p\<lparr>p_stock := if p_stock p = 0 then 0 else p_stock p - q\<rparr>) = restock q"
    by (simp add: restock_def fun_eq_iff)
  from assms(1) obtain p ps where p: "filter ?P (products d) = p # ps" and u: "u = p_id p" "price = p_price p"
    and d': "d' = d\<lparr>products := sql_update ?P (restock q) (products d)\<rparr>"
    by (auto simp: reserve_stmt_def Let_def rq split: list.splits)
  from filter_ConsD [OF p] have mem: "p \<in> set (products d)" "?P p" by auto
  then show "u = i" "\<exists>p\<in>set (products d). p_id p = i \<and> p_active p \<and> p_price p = price \<and> (p_stock p = 0 \<or> q \<le> p_stock p)"
    using u by auto
  have "sql_update ?P (restock q) (products d) = sql_update (\<lambda>p. p_id p = i) (restock q) (products d)"
    using sql_update_guard_unique [OF assms(2) mem(1), of i "\<lambda>p. p_active p \<and> (p_stock p = 0 \<or> q \<le> p_stock p)"] mem(2) by simp
  also have "\<dots> = map (sell [(i, q, price)]) (products d)"
    by (auto simp: sql_update_def sell_def)
  finally show "d' = d\<lparr>products := map (sell [(i, q, price)]) (products d)\<rparr>" using d' by simp
qed

lemma sell_Cons: "i \<notin> fst ` set rs \<Longrightarrow> sell rs (sell [(i, q, price)] p) = sell ((i, q, price) # rs) p"
  by (auto simp: sell_def map_of_eq_None_iff [symmetric] split: option.splits)

lemma reserve_tables_effect:
  assumes "reserve_tables env its tot acc d = Inr ((tot', acc'), d')" and "distinct (map p_id (products d))"
  shows "\<exists>new. acc' = acc @ new \<and> tot' = tot + line_total new \<and> 0 \<le> line_total new \<and>
      (its \<noteq> [] \<longrightarrow> 0 < line_total new \<and> tot' \<le> max_int32) \<and>
      map (\<lambda>it. parseMarketplaceUUID env (ProductID it)) its = map (\<lambda>r. Inr (fst r)) new \<and>
      map Quantity its = map (\<lambda>r. fst (snd r)) new \<and>
      (\<exists>ps. d' = d\<lparr>products := ps\<rparr> \<and> map p_id ps = map p_id (products d) \<and>
         (distinct (map fst new) \<longrightarrow> ps = map (sell new) (products d) \<and> list_all (available (products d)) new))"
  using assms
proof (induction its arbitrary: tot acc d)
  case Nil
  then show ?case by (auto simp: sreturn_def sell_def intro!: exI [of _ "[]"] exI [of _ "products d"])
next
  case (Cons it its)
  from Cons.prems(1) obtain pid price d1 where pid: "parseMarketplaceUUID env (ProductID it) = Inr pid"
    and q: "0 < Quantity it" and r: "reserve_stmt pid (Quantity it) d = Inr ((pid, price), d1)"
    and pr: "0 < price" "0 < price * Quantity it" "tot \<le> max_int32 - price * Quantity it"
    and rest: "reserve_tables env its (tot + price * Quantity it) (acc @ [(pid, Quantity it, price)]) d1 = Inr ((tot', acc'), d')"
    using reserve_stmtE(1) [OF _ Cons.prems(2)]
    by (fastforce simp: sbind_def smap_err_def sfail_def split: sum.splits if_splits prod.splits)
  note e = reserve_stmtE [OF r Cons.prems(2)]
  let ?r = "(pid, Quantity it, price)"
  have dist: "distinct (map p_id (products d1))" using Cons.prems(2) by (simp add: e(2) comp_def)
  from Cons.IH [OF rest dist] obtain new ps where new: "acc' = (acc @ [?r]) @ new"
      "tot' = tot + price * Quantity it + line_total new" "0 \<le> line_total new"
      "its \<noteq> [] \<longrightarrow> 0 < line_total new \<and> tot' \<le> max_int32"
      "map (\<lambda>it. parseMarketplaceUUID env (ProductID it)) its = map (\<lambda>r. Inr (fst r)) new"
      "map Quantity its = map (\<lambda>r. fst (snd r)) new"
    and ps: "d' = d1\<lparr>products := ps\<rparr>" "map p_id ps = map p_id (products d1)"
      "distinct (map fst new) \<longrightarrow> ps = map (sell new) (products d1) \<and> list_all (available (products d1)) new" by blast
  have len: "tot' \<le> max_int32" using new(2,4,6) pr(3) by (cases its) auto
  have last: "ps = map (sell (?r # new)) (products d) \<and> list_all (available (products d)) (?r # new)"
    if dd: "distinct (map fst (?r # new))"
  proof -
    from dd have nin: "pid \<notin> fst ` set new" and "distinct (map fst new)" by auto
    with ps(3) have p: "ps = map (sell new) (products d1)" "list_all (available (products d1)) new" by auto
    have "ps = map (sell (?r # new)) (products d)"
      using p(1) sell_Cons [OF nin] by (simp add: e(2) comp_def)
    moreover have "available (products d) x" if "x \<in> set new" for x
    proof -
      obtain i' q' pr' where x: "x = (i', q', pr')" by (cases x)
      with that nin have "i' \<noteq> pid" by force
      moreover from p(2) that x obtain p where "p \<in> set (products d)" "p_id p = i'" "0 < q'" "0 < pr'"
        "p_active (sell [?r] p)" "p_price (sell [?r] p) = pr'" "p_stock (sell [?r] p) = 0 \<or> q' \<le> p_stock (sell [?r] p)"
        by (fastforce simp: list_all_iff available_def e(2))
      ultimately show ?thesis by (auto simp: x available_def sell_def)
    qed
    moreover have "available (products d) ?r" using e(3) q pr(1) by (simp add: available_def)
    ultimately show ?thesis by (simp add: list_all_iff)
  qed
  have "d' = d\<lparr>products := ps\<rparr>" "map p_id ps = map p_id (products d)"
    using ps(1,2) by (simp_all add: e(2) comp_def)
  with new len pid pr last show ?case by (intro exI [of _ "?r # new"]) auto
qed

lemma insert_item_tables_effect:
  assumes "insert_item_tables oid rs d = Inr ((), d')"
  shows "d' = d\<lparr>items := items d @ map (\<lambda>(pid, q, price). \<lparr>oi_order = oid, oi_product = pid, oi_quantity = q, oi_price = price\<rparr>) rs\<rparr> \<and>
    distinct (map fst rs) \<and> (\<forall>r\<in>set rs. (oid, fst r) \<notin> (\<lambda>r. (oi_order r, oi_product r)) ` set (items d)) \<and>
    (rs \<noteq> [] \<longrightarrow> oid \<in> o_id ` set (orders d)) \<and>
    (distinct (map (\<lambda>r. (oi_order r, oi_product r)) (items d)) \<longrightarrow> distinct (map (\<lambda>r. (oi_order r, oi_product r)) (items d')))"
  using assms
proof (induction rs arbitrary: d)
  case Nil
  then show ?case by (simp add: sreturn_def)
next
  case (Cons r rs)
  obtain pid q price where r: "r = (pid, q, price)" by (cases r)
  let ?row = "\<lparr>oi_order = oid, oi_product = pid, oi_quantity = q, oi_price = price\<rparr>"
  from Cons.prems obtain d1 where i: "insert_item_stmt ?row d = Inr ((), d1)" and rest: "insert_item_tables oid rs d1 = Inr ((), d')"
    by (auto simp: r sbind_def split: sum.splits)
  from i have d1: "d1 = d\<lparr>items := items d @ [?row]\<rparr>" and fresh: "(oid, pid) \<notin> (\<lambda>r. (oi_order r, oi_product r)) ` set (items d)"
    and o: "oid \<in> o_id ` set (orders d)"
    by (auto simp: insert_item_stmt_def sql_insert_def split: if_splits sum.splits)
  let ?key = "\<lambda>r. (oi_order r, oi_product r)"
  have k: "distinct (map ?key (items d)) \<longrightarrow> distinct (map ?key (items d1))" using fresh by (auto simp: d1)
  note ih = Cons.IH [OF rest]
  from ih have rows: "d' = d1\<lparr>items := items d1 @ map (\<lambda>(pid, q, price). \<lparr>oi_order = oid, oi_product = pid, oi_quantity = q, oi_price = price\<rparr>) rs\<rparr>"
    and dist: "distinct (map fst rs)" and nin: "\<forall>r\<in>set rs. (oid, fst r) \<notin> ?key ` set (items d1)"
    and keys: "distinct (map ?key (items d1)) \<longrightarrow> distinct (map ?key (items d'))" by blast+
  have "pid \<notin> fst ` set rs" using nin by (force simp: d1)
  with dist nin fresh o rows k keys show ?case by (intro conjI) (auto simp: r d1)
qed

section \<open>The invariant of the shop\<close>

definition order_lines :: "uuid \<Rightarrow> market_db \<Rightarrow> item_row list" where
  "order_lines i d = filter (\<lambda>r. oi_order r = i) (items d)"

definition lines_sum :: "item_row list \<Rightarrow> int" where
  "lines_sum rs = (\<Sum>r\<leftarrow>rs. oi_price r * oi_quantity r)"

definition market_ok :: "market_db \<Rightarrow> bool" where
  "market_ok d \<longleftrightarrow>
     distinct (map p_id (products d)) \<and> distinct (map o_id (orders d)) \<and>
     distinct (map (\<lambda>r. (oi_order r, oi_product r)) (items d)) \<and>
     (\<forall>p\<in>set (products d). 0 \<le> p_stock p) \<and>
     oi_order ` set (items d) \<subseteq> o_id ` set (orders d) \<and>
     (\<forall>ro\<in>set (orders d). 0 < o_total ro \<and> o_total ro \<le> max_int32 \<and> lines_sum (order_lines (o_id ro) d) = o_total ro)"

lemma market_ok_frame:
  assumes "market_ok d" and "map p_id (products d') = map p_id (products d)" and "orders d' = orders d" and "items d' = items d"
    and "\<forall>p\<in>set (products d'). 0 \<le> p_stock p"
  shows "market_ok d'"
  using assms by (simp add: market_ok_def order_lines_def)

lemma sell_stock_nonneg:
  assumes "list_all (available ps) rs" and "distinct (map p_id ps)" and "p \<in> set ps" and "0 \<le> p_stock p"
  shows "0 \<le> p_stock (sell rs p)"
proof (cases "map_of rs (p_id p)")
  case None
  with assms(4) show ?thesis by (simp add: sell_def)
next
  case (Some qp)
  obtain q pr where qp: "qp = (q, pr)" by fastforce
  with Some have "(p_id p, q, pr) \<in> set rs" by (auto dest: map_of_SomeD)
  with assms(1) obtain p' where p': "p' \<in> set ps" "p_id p' = p_id p" "p_stock p' = 0 \<or> q \<le> p_stock p'"
    by (auto simp: list_all_iff available_def)
  with assms(2,3) have "p' = p" by (auto simp: distinct_map inj_on_def)
  with p'(3) Some qp assms(4) show ?thesis by (auto simp: sell_def)
qed

text \<open>Everything that a successful order transaction does, in one statement.\<close>

lemma order_tablesE:
  assumes "order_tables env i buyer ord d = Inr ((tot, rs), d')" and "distinct (map p_id (products d))" and "Items ord \<noteq> []"
  shows "distinct (map fst rs)" "list_all (available (products d)) rs" "tot = line_total rs" "0 < tot" "tot \<le> max_int32"
    "m_new_id i \<notin> o_id ` set (orders d)"
    "map (\<lambda>it. parseMarketplaceUUID env (ProductID it)) (Items ord) = map (\<lambda>r. Inr (fst r)) rs"
    "map Quantity (Items ord) = map (\<lambda>r. fst (snd r)) rs"
    "d' = d\<lparr>products := map (sell rs) (products d), orders := orders d @ [new_order i buyer ord tot],
           items := items d @ map (\<lambda>(pid, q, price). \<lparr>oi_order = m_new_id i, oi_product = pid, oi_quantity = q, oi_price = price\<rparr>) rs\<rparr>"
    "distinct (map (\<lambda>r. (oi_order r, oi_product r)) (items d)) \<Longrightarrow> distinct (map (\<lambda>r. (oi_order r, oi_product r)) (items d'))"
proof -
  from assms(1) obtain d1 d2 where r: "reserve_tables env (Items ord) 0 [] d = Inr ((tot, rs), d1)"
    and o: "insert_order_stmt (new_order i buyer ord tot) d1 = Inr ((), d2)"
    and it: "insert_item_tables (m_new_id i) rs d2 = Inr ((), d')"
    by (auto simp: order_tables_def sbind_def sreturn_def split: sum.splits prod.splits)
  from reserve_tables_effect [OF r assms(2)] assms(3) obtain ps where
    eff: "tot = line_total rs" "0 < tot" "tot \<le> max_int32"
      "map (\<lambda>it. parseMarketplaceUUID env (ProductID it)) (Items ord) = map (\<lambda>r. Inr (fst r)) rs"
      "map Quantity (Items ord) = map (\<lambda>r. fst (snd r)) rs"
    and d1: "d1 = d\<lparr>products := ps\<rparr>"
    and ps: "distinct (map fst rs) \<longrightarrow> ps = map (sell rs) (products d) \<and> list_all (available (products d)) rs" by auto
  from o have d2: "d2 = d1\<lparr>orders := orders d @ [new_order i buyer ord tot]\<rparr>" and fresh: "m_new_id i \<notin> o_id ` set (orders d)"
    by (auto simp: insert_order_stmt_def sql_insert_def d1 new_order_def split: if_splits sum.splits)
  note items = insert_item_tables_effect [OF it]
  then show dist: "distinct (map fst rs)" by blast
  with ps show "list_all (available (products d)) rs" by blast
  from eff fresh show "tot = line_total rs" "0 < tot" "tot \<le> max_int32" "m_new_id i \<notin> o_id ` set (orders d)"
    "map (\<lambda>it. parseMarketplaceUUID env (ProductID it)) (Items ord) = map (\<lambda>r. Inr (fst r)) rs"
    "map Quantity (Items ord) = map (\<lambda>r. fst (snd r)) rs" by blast+
  from items have "d' = d2\<lparr>items := items d2 @ map (\<lambda>(pid, q, price). \<lparr>oi_order = m_new_id i, oi_product = pid, oi_quantity = q, oi_price = price\<rparr>) rs\<rparr>"
    by blast
  with dist ps show "d' = d\<lparr>products := map (sell rs) (products d), orders := orders d @ [new_order i buyer ord tot],
           items := items d @ map (\<lambda>(pid, q, price). \<lparr>oi_order = m_new_id i, oi_product = pid, oi_quantity = q, oi_price = price\<rparr>) rs\<rparr>"
    by (simp add: d1 d2)
  have "items d2 = items d" by (simp add: d1 d2)
  with items show "distinct (map (\<lambda>r. (oi_order r, oi_product r)) (items d)) \<Longrightarrow> distinct (map (\<lambda>r. (oi_order r, oi_product r)) (items d'))"
    by metis
qed

lemma lines_sum_rows:
  "lines_sum (map (\<lambda>(pid, q, price). \<lparr>oi_order = k, oi_product = pid, oi_quantity = q, oi_price = price\<rparr>) rs) = line_total rs"
  by (induction rs) (auto simp: lines_sum_def line_total_def)

lemma order_tables_ok:
  assumes "order_tables env i buyer ord d = Inr ((tot, rs), d')" and "market_ok d" and "Items ord \<noteq> []"
  shows "market_ok d'"
proof -
  have dist: "distinct (map p_id (products d))" and okd: "distinct (map o_id (orders d))"
    "distinct (map (\<lambda>r. (oi_order r, oi_product r)) (items d))" "\<forall>p\<in>set (products d). 0 \<le> p_stock p"
    "oi_order ` set (items d) \<subseteq> o_id ` set (orders d)"
    "\<forall>ro\<in>set (orders d). 0 < o_total ro \<and> o_total ro \<le> max_int32 \<and> lines_sum (order_lines (o_id ro) d) = o_total ro"
    using assms(2) by (simp_all add: market_ok_def)
  note e = order_tablesE [OF assms(1) dist assms(3)]
  let ?k = "m_new_id i"
  let ?rows = "map (\<lambda>(pid, q, price). \<lparr>oi_order = ?k, oi_product = pid, oi_quantity = q, oi_price = price\<rparr>) rs"
  have rows: "oi_order r = ?k" if "r \<in> set ?rows" for r using that by auto
  then have own: "filter (\<lambda>r. oi_order r = ?k) ?rows = ?rows" by (intro filter_True) blast
  have other: "filter (\<lambda>r. oi_order r = o_id ro) ?rows = []" if "ro \<in> set (orders d)" for ro
  proof -
    have "o_id ro \<noteq> ?k" using that e(6) by (metis image_eqI)
    then show ?thesis by (auto simp: filter_empty_conv)
  qed
  have none: "filter (\<lambda>r. oi_order r = ?k) (items d) = []"
  proof -
    have "oi_order r \<noteq> ?k" if "r \<in> set (items d)" for r
      using imageI [OF that, of oi_order] okd(4) e(6) by (metis subsetD)
    then show ?thesis by (simp add: filter_empty_conv)
  qed
  have w: "wrap32 tot = tot" using e(4,5) by (intro wrap32_id) (simp add: fits32_def int_bounds)
  have new: "o_id (new_order i buyer ord tot) = ?k" "o_total (new_order i buyer ord tot) = tot"
    by (simp_all add: new_order_def w)
  have lines: "order_lines ?k d' = ?rows" "ro \<in> set (orders d) \<Longrightarrow> order_lines (o_id ro) d' = order_lines (o_id ro) d" for ro
    using own other [of ro] none by (simp_all add: order_lines_def e(9))
  show ?thesis
    unfolding market_ok_def
  proof (intro conjI)
    show "distinct (map p_id (products d'))" using dist by (simp add: e(9) comp_def)
    show "distinct (map o_id (orders d'))" using okd(1) e(6) by (simp add: e(9) new)
    show "distinct (map (\<lambda>r. (oi_order r, oi_product r)) (items d'))" by (rule e(10) [OF okd(2)])
    have "products d' = map (sell rs) (products d)" by (simp add: e(9))
    moreover have "0 \<le> p_stock (sell rs p)" if "p \<in> set (products d)" for p
      using sell_stock_nonneg [OF e(2) dist that] okd(3) that by blast
    ultimately show "\<forall>p\<in>set (products d'). 0 \<le> p_stock p" by simp
    have its: "items d' = items d @ ?rows" and ods: "orders d' = orders d @ [new_order i buyer ord tot]" by (simp_all add: e(9))
    show "oi_order ` set (items d') \<subseteq> o_id ` set (orders d')"
    proof (rule image_subsetI)
      fix r
      assume "r \<in> set (items d')"
      then consider "r \<in> set (items d)" | "r \<in> set ?rows" unfolding its by (metis Un_iff set_append)
      then show "oi_order r \<in> o_id ` set (orders d')"
      proof cases
        case 1
        with okd(4) have "oi_order r \<in> o_id ` set (orders d)" by blast
        then show ?thesis unfolding ods by simp
      next
        case 2
        then have "oi_order r = ?k" by (rule rows)
        then show ?thesis unfolding ods by (simp add: new(1))
      qed
    qed
    let ?good = "\<lambda>ro. 0 < o_total ro \<and> o_total ro \<le> max_int32 \<and> lines_sum (order_lines (o_id ro) d') = o_total ro"
    have old: "?good ro" if "ro \<in> set (orders d)" for ro
      using okd(5) [rule_format, OF that] unfolding lines(2) [OF that] .
    have "lines_sum (order_lines ?k d') = tot" unfolding lines(1) lines_sum_rows by (rule e(3) [symmetric])
    then have "?good (new_order i buyer ord tot)" unfolding new using e(4,5) by blast
    then show "\<forall>ro\<in>set (orders d'). ?good ro" using old unfolding ods by force
  qed
qed

section \<open>Runs of the shop\<close>

datatype market_call =
    ListReq string
  | SellReq "string option" "product_rec option"
  | BuyReq "string option" "(string list \<times> int list \<times> string) option"
  | WishReq string string bool
  | ReviewReq string string int string

fun handle_market :: "market_env \<Rightarrow> market_input \<Rightarrow> market_call \<Rightarrow> (market_db, unit) dbm" where
  "handle_market env i (ListReq q) = dbind (handle_ListProducts env q) (\<lambda>_. dreturn ())"
| "handle_market env i (SellReq u p) = dbind (handle_ListProduct env i u p) (\<lambda>_. dreturn ())"
| "handle_market env i (BuyReq u r) = dbind (handle_Purchase env i u r) (\<lambda>_. dreturn ())"
| "handle_market env i (WishReq u x add) = ManageWishlist env i u x add"
| "handle_market env i (ReviewReq u x n c) = ReviewProduct env i u x n c"

fun run_market :: "market_env \<Rightarrow> (market_input \<times> outcome list \<times> market_call) list \<Rightarrow> market_db session \<Rightarrow> market_db session" where
  "run_market env [] s = s"
| "run_market env ((i, outs, c) # cs) s = run_market env cs (snd (handle_market env i c (s\<lparr>outcomes := outs\<rparr>)))"

lemma keeps_manswer: "keeps I m \<Longrightarrow> keeps I (manswer m e f)"
  by (auto simp: keeps_def manswer_def split: prod.splits sum.splits)

lemma keeps_price_items: "keeps I (price_items env xs tot its)"
proof (induction xs arbitrary: tot its)
  case (Cons x xs)
  have "reads (select_product_stmt k)" for k by (auto simp: reads_def select_product_stmt_def split: list.splits)
  then show ?case
    by (cases x) (auto simp: repo_GetProduct_def intro!: keeps_intros Cons.IH)
qed (simp add: keeps_return)

lemma keeps_CreateOrder: "keeps market_ok (CreateOrder env i ord)"
proof -
  have "keeps market_ok (in_tx wb wc (order_body env i buyer ord))" if "Items ord \<noteq> []" for wb wc buyer
    by (rule transactional.keeps_run [OF transactional_in_tx [OF simulates_order]])
      (use order_tables_ok [OF _ _ that] in force)
  then show ?thesis unfolding CreateOrder_def by (auto intro!: keeps_intros)
qed

lemma keeps_insert_product: "keeps market_ok (autocommit (insert_product_stmt p))"
proof (rule keeps_autocommit)
  fix d a d'
  assume ok: "market_ok d" and run: "insert_product_stmt p d = Inr (a, d')"
  from run have d': "d' = d\<lparr>products := products d @ [p]\<rparr>" and fresh: "p_id p \<notin> p_id ` set (products d)" and st: "0 \<le> p_stock p"
    by (auto simp: insert_product_stmt_def sql_insert_def split: if_splits sum.splits)
  from ok have "distinct (map p_id (products d))" by (simp add: market_ok_def)
  with ok fresh st show "market_ok d'" by (simp add: market_ok_def order_lines_def d')
qed

lemma keeps_refresh_rating: "keeps market_ok (autocommit (refresh_rating_stmt k))"
proof (rule keeps_autocommit)
  fix d a d'
  assume ok: "market_ok d" and run: "refresh_rating_stmt k d = Inr (a, d')"
  have st: "\<forall>p\<in>set (products d). 0 \<le> p_stock p" using ok by (simp add: market_ok_def)
  show "market_ok d'"
  proof (cases "product_reviews k d = []")
    case True
    with run ok show ?thesis by (simp add: refresh_rating_stmt_def Let_def)
  next
    case False
    with run have "d' = d\<lparr>products := sql_update (\<lambda>p. p_id p = k)
        (\<lambda>p. p\<lparr>p_rating := avg_rating (product_reviews k d), p_reviews := int (length (product_reviews k d))\<rparr>) (products d)\<rparr>"
      by (simp add: refresh_rating_stmt_def Let_def)
    with st show ?thesis by (intro market_ok_frame [OF ok]) (auto simp: set_sql_update)
  qed
qed

lemma keeps_market: "keeps market_ok (handle_market env i c)"
proof -
  have wish: "keeps market_ok (autocommit (insert_wish_stmt w))" for w
  proof (rule keeps_autocommit)
    fix d a d'
    assume ok: "market_ok d" and run: "insert_wish_stmt w d = Inr (a, d')"
    from run have "products d' = products d" "orders d' = orders d" "items d' = items d"
      by (auto simp: insert_wish_stmt_def split: if_splits)
    moreover have "\<forall>p\<in>set (products d). 0 \<le> p_stock p" using ok by (simp add: market_ok_def)
    ultimately show "market_ok d'" by (intro market_ok_frame [OF ok]) simp_all
  qed
  have review: "keeps market_ok (autocommit (upsert_review_stmt r))" for r
  proof (rule keeps_autocommit)
    fix d a d'
    assume ok: "market_ok d" and run: "upsert_review_stmt r d = Inr (a, d')"
    from run have "products d' = products d" "orders d' = orders d" "items d' = items d"
      by (auto simp: upsert_review_stmt_def split: if_splits)
    moreover have "\<forall>p\<in>set (products d). 0 \<le> p_stock p" using ok by (simp add: market_ok_def)
    ultimately show "market_ok d'" by (intro market_ok_frame [OF ok]) simp_all
  qed
  have list: "reads (list_products_stmt like c q)" for like c q by (auto simp: reads_def list_products_stmt_def Let_def)
  show ?thesis
  proof (cases c)
    case (ListReq q)
    then show ?thesis
      by (auto simp: handle_ListProducts_def SearchProducts_def ListProducts_def intro!: keeps_intros keeps_manswer list)
  next
    case (SellReq u p)
    then show ?thesis
      by (auto simp: handle_ListProduct_def PostProduct_def CreateProduct_def Let_def
          intro!: keeps_intros keeps_manswer keeps_insert_product)
  next
    case (BuyReq u r)
    then show ?thesis
      by (auto simp: handle_Purchase_def Purchase_def intro!: keeps_intros keeps_manswer keeps_CreateOrder keeps_price_items)
  next
    case (WishReq u x add)
    then show ?thesis by (auto simp: ManageWishlist_def AddToWishlist_def intro!: keeps_intros wish)
  next
    case (ReviewReq u x n k)
    then show ?thesis
      by (auto simp: ReviewProduct_def RateProduct_def intro!: keeps_intros review keeps_refresh_rating)
  qed
qed

lemma run_market_ok: "market_ok (durable s) \<Longrightarrow> market_ok (durable (run_market env cs s))"
  by (induction env cs s rule: run_market.induct) (simp_all add: keepsD [OF keeps_market] del: handle_market.simps)

section \<open>Properties\<close>

definition demo_product :: product where
  "demo_product = \<lparr>p_id = 10, p_seller = 1, p_name = ''mug'', p_description = [], p_price = 40, p_currency = ''MRO'',
     p_category = ''general'', p_stock = 3, p_rating = 0, p_reviews = 0, p_active = True, p_featured = False, p_created = 0\<rparr>"

definition demo_market :: market_db where
  "demo_market = \<lparr>users = [1, 2, 3], products = [demo_product], orders = [], items = [], wishes = [], reviews = []\<rparr>"

text \<open>An environment in which the text of an identifier is its number of bytes.\<close>

definition demo_market_env :: market_env where
  "demo_market_env = \<lparr>scan_uuid = (\<lambda>s. Inr (of_nat (length s))), show_uuid = (\<lambda>u. replicate (unat u) CHR ''a''),
     ilike = contains, pool_set = True\<rparr>"

definition demo_order :: "int \<Rightarrow> order_rec" where
  "demo_order q = \<lparr>od_ID = [], od_BuyerID = ''aa'', TotalAmount = 0, Currency = [], od_Status = [], AddressLine1 = [],
     Items = [\<lparr>ProductID = ''aaaaaaaaaa'', ProductName = [], Quantity = q, PriceAtPurchase = 0, Subtotal = 0\<rparr>], od_CreatedAt = 0\<rparr>"

text \<open>
  C5. Over any run of requests, with any failures of the database calls, every stored order has a positive
  total that fits 32 bits and equals the sum of price times quantity of its lines, and no stock is negative.
\<close>
theorem orders_add_up:
  assumes "market_ok (durable s)"
  shows "(\<forall>ro\<in>set (orders (durable (run_market env cs s))).
           0 < o_total ro \<and> o_total ro \<le> max_int32 \<and>
           lines_sum (order_lines (o_id ro) (durable (run_market env cs s))) = o_total ro) \<and>
         (\<forall>p\<in>set (products (durable (run_market env cs s))). 0 \<le> p_stock p)"
  using run_market_ok [OF assms, of env cs] unfolding market_ok_def by blast

definition demo_msession :: "market_db session" where
  "demo_msession = \<lparr>durable = demo_market, view = demo_market, aborted = False, outcomes = []\<rparr>"

definition demo_minput :: market_input where
  "demo_minput = \<lparr>m_now = 7, m_new_id = 50\<rparr>"

lemma demo_market_ok: "market_ok demo_market"
  by (simp add: demo_market_def demo_product_def market_ok_def)

lemma demo_market_parse:
  "parseMarketplaceUUID demo_market_env ''aaaaaaaaaa'' = Inr 10" "parseMarketplaceUUID demo_market_env ''aa'' = Inr 2"
  by (simp_all add: parseMarketplaceUUID_def demo_market_env_def trim_space_plain plain_byte_def)

lemmas demo_market_eval = demo_msession_def demo_market_def demo_product_def demo_minput_def demo_order_def demo_market_parse
  CreateOrder_def order_body_def driver_defs reserve_stmt_def insert_order_stmt_def insert_item_stmt_def sql_insert_def
  sql_update_def new_order_def or_default_def max_int32_def wrap32_def filled_items_def

definition demo_purchase :: market_call where
  "demo_purchase = BuyReq (Some ''aa'') (Some ([''aaaaaaaaaa''], [2], []))"

lemma demo_pool [simp]: "pool_set demo_market_env"
  by (simp add: demo_market_env_def)

lemma demo_purchase_run:
  "orders (durable (run_market demo_market_env [(demo_minput, [], demo_purchase)] demo_msession)) \<noteq> []"
  by (simp add: demo_purchase_def handle_Purchase_def Purchase_def manswer_def repo_GetProduct_def select_product_stmt_def
      demo_market_eval)

theorem orders_add_up_witness:
  "\<exists>ro\<in>set (orders (durable (run_market demo_market_env [(demo_minput, [], demo_purchase)] demo_msession))).
     0 < o_total ro"
proof -
  have "market_ok (durable demo_msession)" by (simp add: demo_msession_def demo_market_ok)
  from orders_add_up [OF this, of demo_market_env "[(demo_minput, [], demo_purchase)]"] demo_purchase_run
  show ?thesis by (meson hd_in_set)
qed

text \<open>
  C7. An order that succeeds names pairwise different products, each active and in stock at the moment of the
  sale; it takes exactly the ordered quantity of each from its stock (an unlimited stock stays unlimited), charges
  the price of the product table and not one of the request, and records one line for each product.
\<close>
theorem order_reserves_stock:
  assumes "CreateOrder env i ord s = (Inr o', s')" and "distinct (map p_id (products (durable s)))"
  shows "\<exists>rs buyer. parseMarketplaceUUID env (od_BuyerID ord) = Inr buyer \<and>
     distinct (map fst rs) \<and> list_all (available (products (durable s))) rs \<and>
     map (\<lambda>it. parseMarketplaceUUID env (ProductID it)) (Items ord) = map (\<lambda>r. Inr (fst r)) rs \<and>
     map Quantity (Items ord) = map (\<lambda>r. fst (snd r)) rs \<and>
     TotalAmount o' = line_total rs \<and> od_Status o' = or_default (od_Status ord) ''pending'' \<and>
     durable s' = (durable s)\<lparr>products := map (sell rs) (products (durable s)),
        orders := orders (durable s) @ [new_order i buyer ord (line_total rs)],
        items := items (durable s) @
          map (\<lambda>(pid, q, price). \<lparr>oi_order = m_new_id i, oi_product = pid, oi_quantity = q, oi_price = price\<rparr>) rs\<rparr>"
proof -
  from assms(1) obtain buyer tot rs where b: "parseMarketplaceUUID env (od_BuyerID ord) = Inr buyer" and ne: "Items ord \<noteq> []"
    and run: "in_tx (Wrapf ''begin marketplace order transaction'') (Wrapf ''commit marketplace order transaction'')
        (order_body env i buyer ord) s = (Inr (tot, rs), s')"
    and o': "TotalAmount o' = wrap32 tot" "od_Status o' = or_default (od_Status ord) ''pending''"
    by (auto simp: CreateOrder_def dfail_def dbind_def dreturn_def split: if_splits sum.splits prod.splits)
  from order.success [OF run] have t: "order_tables env i buyer ord (durable s) = Inr ((tot, rs), durable s')" .
  note e = order_tablesE [OF t assms(2) ne]
  from e(4,5) have "wrap32 tot = tot" by (intro wrap32_id) (simp add: fits32_def int_bounds)
  with o' e(3) have "TotalAmount o' = line_total rs" by simp
  with b e(1,2,3,7,8,9) o'(2) show ?thesis
    by (intro exI [of _ rs] exI [of _ buyer] conjI) (assumption | simp only:)+
qed

theorem order_reserves_stock_witness:
  "\<exists>o' s'. CreateOrder demo_market_env demo_minput (demo_order 2) demo_msession = (Inr o', s') \<and>
     TotalAmount o' = 80 \<and> products (durable s') = [demo_product\<lparr>p_stock := 1\<rparr>]"
proof -
  have "is_ok (fst (CreateOrder demo_market_env demo_minput (demo_order 2) demo_msession))"
    by (simp add: demo_market_eval)
  then obtain o' s' where run: "CreateOrder demo_market_env demo_minput (demo_order 2) demo_msession = (Inr o', s')"
    by (metis is_ok_iff prod.collapse)
  have "distinct (map p_id (products (durable demo_msession)))" by (simp add: demo_msession_def demo_market_def)
  from order_reserves_stock [OF run this] obtain rs where rs: "list_all (available [demo_product]) rs"
      "map (\<lambda>it. parseMarketplaceUUID demo_market_env (ProductID it)) (Items (demo_order 2)) = map (\<lambda>r. Inr (fst r)) rs"
      "map Quantity (Items (demo_order 2)) = map (\<lambda>r. fst (snd r)) rs" "TotalAmount o' = line_total rs"
      "products (durable s') = map (sell rs) [demo_product]"
    by (auto simp: demo_msession_def demo_market_def)
  from rs(2,3) obtain price where r: "rs = [(10, 2, price)]"
    by (cases rs; cases "tl rs") (auto simp: demo_order_def demo_market_parse)
  with rs(1) have "price = 40" by (simp add: available_def demo_product_def)
  with r rs(4) have "TotalAmount o' = 80" by simp
  moreover have "products (durable s') = [demo_product\<lparr>p_stock := 1\<rparr>]"
    unfolding rs(5) by (simp add: r demo_product_def sell_def restock_def)
  ultimately show ?thesis using run by blast
qed


text \<open>
  A stock that reaches zero reads as unlimited: once an order has bought the whole stock of a product, the next
  order of it, of any quantity, is accepted as well.
\<close>
lemma sold_out_is_unlimited:
  "let s1 = snd (CreateOrder demo_market_env demo_minput (demo_order 3) demo_msession);
       r2 = fst (CreateOrder demo_market_env \<lparr>m_now = 8, m_new_id = 51\<rparr> (demo_order 1000) s1)
   in map p_stock (products demo_market) = [3] \<and> map p_stock (products (durable s1)) = [0] \<and> is_ok r2"
  by (simp add: demo_market_eval)

text \<open>
  After a successful rating, the rating of the product is the arithmetic mean of its reviews and the review
  count is their number, the reviewer has exactly one review of it, with the rating just given, and no other
  product changes.
\<close>
theorem rating_is_average:
  assumes "RateProduct env i user x rating comment s = (Inr (), s')"
    and "distinct (map (\<lambda>r. (rv_product r, rv_user r)) (reviews (durable s)))"
  shows "\<exists>uid pid. parseMarketplaceUUID env user = Inr uid \<and> parseMarketplaceUUID env x = Inr pid \<and>
     1 \<le> rating \<and> rating \<le> 5 \<and>
     map rv_rating (filter (\<lambda>r. rv_user r = uid) (product_reviews pid (durable s'))) = [rating] \<and>
     (\<forall>p\<in>set (products (durable s')). p_id p = pid \<longrightarrow>
        p_rating p = avg_rating (product_reviews pid (durable s')) \<and>
        p_reviews p = int (length (product_reviews pid (durable s')))) \<and>
     filter (\<lambda>p. p_id p \<noteq> pid) (products (durable s')) = filter (\<lambda>p. p_id p \<noteq> pid) (products (durable s))"
proof -
  let ?key = "\<lambda>r. (rv_product r, rv_user r)"
  from assms(1) obtain uid pid s1 where p: "parseMarketplaceUUID env user = Inr uid" "parseMarketplaceUUID env x = Inr pid"
    and up: "autocommit (upsert_review_stmt \<lparr>rv_product = pid, rv_user = uid, rv_rating = rating,
               rv_comment = comment, rv_created = m_now i\<rparr>) s = (Inr (), s1)"
    and fresh: "autocommit (refresh_rating_stmt pid) s1 = (Inr (), s')" and r: "1 \<le> rating" "rating \<le> 5"
    by (auto simp: RateProduct_def dfail_def dbind_def split: if_splits sum.splits prod.splits)
  let ?row = "\<lparr>rv_product = pid, rv_user = uid, rv_rating = rating, rv_comment = comment, rv_created = m_now i\<rparr>"
  let ?f = "\<lambda>x. x\<lparr>rv_rating := rating, rv_comment := comment, rv_created := m_now i\<rparr>"
  from up have d1: "durable s1 = (durable s)\<lparr>reviews := sql_upsert ?key ?row ?f (reviews (durable s))\<rparr>"
    by (auto simp: autocommit_def upsert_review_stmt_def next_outcome_def split: list.splits outcome.splits if_splits)
  let ?rs = "reviews (durable s1)"
  have rs: "map rv_rating (filter (\<lambda>r. rv_user r = uid) (product_reviews pid (durable s1))) = [rating]"
  proof -
    have dist: "distinct (map ?key ?rs)" using distinct_sql_upsert [of ?key ?f, OF _ assms(2)] by (simp add: d1)
    have "\<exists>r\<in>set ?rs. ?key r = (pid, uid) \<and> rv_rating r = rating"
    proof (cases "?key ?row \<in> ?key ` set (reviews (durable s))")
      case True
      then obtain r where r: "r \<in> set (reviews (durable s))" "?key r = ?key ?row" by (elim imageE) metis
      from True have "?rs = sql_update (\<lambda>x. ?key x = ?key ?row) ?f (reviews (durable s))"
        by (simp add: d1 sql_upsert_def)
      with r have "?f r \<in> set ?rs" by (simp add: set_sql_update)
      with r(2) show ?thesis by (intro bexI [of _ "?f r"]) simp_all
    next
      case False
      then have "?row \<in> set ?rs" by (simp add: d1 sql_upsert_def)
      then show ?thesis by (intro bexI [of _ ?row]) simp_all
    qed
    then obtain r where "r \<in> set ?rs" "?key r = (pid, uid)" "rv_rating r = rating" by blast
    moreover from filter_key_unique [OF dist this(1), of "\<lambda>_. True"] this(2)
    have "filter (\<lambda>r. ?key r = (pid, uid)) ?rs = [r]" by simp
    ultimately show ?thesis by (simp add: product_reviews_def conj_commute)
  qed
  then have ne: "product_reviews pid (durable s1) \<noteq> []" by auto
  from fresh ne have d': "durable s' = (durable s1)\<lparr>products := sql_update (\<lambda>p. p_id p = pid)
      (\<lambda>p. p\<lparr>p_rating := avg_rating (product_reviews pid (durable s1)),
             p_reviews := int (length (product_reviews pid (durable s1)))\<rparr>) (products (durable s1))\<rparr>"
    by (auto simp: autocommit_def refresh_rating_stmt_def Let_def next_outcome_def split: list.splits outcome.splits if_splits)
  have same: "product_reviews pid (durable s') = product_reviews pid (durable s1)" by (simp add: d' product_reviews_def)
  have others: "filter (\<lambda>p. p_id p \<noteq> pid) (sql_update (\<lambda>p. p_id p = pid) f ps) = filter (\<lambda>p. p_id p \<noteq> pid) ps"
    if "\<And>p. p_id (f p) = p_id p" for f ps
    using that by (induction ps) (auto simp: sql_update_def)
  have "filter (\<lambda>p. p_id p \<noteq> pid) (products (durable s')) = filter (\<lambda>p. p_id p \<noteq> pid) (products (durable s))"
    by (simp add: d' others d1)
  moreover have "\<forall>p\<in>set (products (durable s')). p_id p = pid \<longrightarrow>
      p_rating p = avg_rating (product_reviews pid (durable s1)) \<and> p_reviews p = int (length (product_reviews pid (durable s1)))"
    by (simp add: d' sql_update_def ball_Un)
  ultimately show ?thesis using p r rs unfolding same [symmetric]
    by - (rule exI [where x = uid], rule exI [where x = pid], intro conjI; assumption)
qed

theorem rating_is_average_witness:
  "\<exists>s'. RateProduct demo_market_env demo_minput ''aa'' ''aaaaaaaaaa'' 4 [] demo_msession = (Inr (), s') \<and>
     map rv_rating (filter (\<lambda>r. rv_user r = 2) (product_reviews 10 (durable s'))) = [4]"
proof -
  have "fst (RateProduct demo_market_env demo_minput ''aa'' ''aaaaaaaaaa'' 4 [] demo_msession) = Inr ()"
    by (simp add: RateProduct_def upsert_review_stmt_def refresh_rating_stmt_def sql_upsert_def product_reviews_def Let_def
        demo_market_eval)
  then obtain s' where run: "RateProduct demo_market_env demo_minput ''aa'' ''aaaaaaaaaa'' 4 [] demo_msession = (Inr (), s')"
    by (metis prod.collapse)
  have "distinct (map (\<lambda>r. (rv_product r, rv_user r)) (reviews (durable demo_msession)))"
    by (simp add: demo_msession_def demo_market_def)
  from rating_is_average [OF run this] run show ?thesis by (auto simp: demo_market_parse)
qed

end
