(* ===== verification/Growth.thy ===== *)
theory Growth
  imports Complex_Main Database "HOL-Library.Product_Lexorder"
begin

text \<open>
  The progression engine: \<open>modules/growth/infra/postgres_repository.go\<close>, its service and its HTTP handlers, on
  the tables of the migration \<open>20260922_progression_engine.sql\<close>. A \<open>DATE\<close> is a day number, an instant a number
  of nanoseconds, a \<open>float64\<close> a real number. The session of the database and the Go process read the same
  clock in UTC. Experience points and reputation are \<open>int64\<close> numbers that wrap around in Go, and columns whose range
  PostgreSQL checks. The encoding of a string as a \<open>UUID\<close> argument, the calendar, the rounding of SQL and whether the
  driver accepts a command while the rows of an earlier query are still open are parameters.
\<close>

type_synonym uuid = "128 word"

section \<open>Tables\<close>

record profile =
  pf_user :: uuid
  pf_xp :: int
  pf_level :: int
  pf_rep :: int
  pf_energy :: int
  pf_energy_at :: int
  pf_streak :: int
  pf_longest :: int
  pf_last :: "int option"
  pf_combo :: int
  pf_combo_at :: "int option"
  pf_shields :: int
  pf_boost :: "int option"

record event_row =
  ev_user :: uuid
  ev_action :: string
  ev_source :: string
  ev_xp :: int
  ev_mult :: real

record quest_row =
  q_id :: uuid
  q_code :: string
  q_action :: string
  q_target :: int
  q_xp :: int
  q_rep :: int
  q_cadence :: string
  q_active :: bool

record uquest_row =
  uq_user :: uuid
  uq_quest :: uuid
  uq_start :: int
  uq_progress :: int
  uq_claimed :: bool
  uq_done :: "int option"

record achievement_row =
  ac_id :: uuid
  ac_code :: string
  ac_metric :: string
  ac_threshold :: int
  ac_xp :: int
  ac_rep :: int
  ac_active :: bool

record score_row =
  sc_season :: string
  sc_user :: uuid
  sc_xp :: int

record growth_db =
  g_users :: "uuid list"
  profiles :: "profile list"
  events :: "event_row list"
  quests :: "quest_row list"
  uquests :: "uquest_row list"
  achievements :: "achievement_row list"
  unlocked :: "(uuid \<times> uuid \<times> int) list"
  seasons :: "string list"
  scores :: "score_row list"
  referrals :: "(uuid \<times> uuid \<times> string) list"

record growth_env =
  g_scan :: "string \<Rightarrow> uuid res"
  g_parse :: "string \<Rightarrow> uuid option"
  g_season :: "int \<Rightarrow> string"
  g_round :: "real \<Rightarrow> int"
  g_collate :: "string \<Rightarrow> nat"
  busy_rows :: bool

section \<open>Levels, streaks and combos\<close>

definition day_ns :: int where "day_ns = 86400000000000"
definition minute_ns :: int where "minute_ns = 60000000000"

definition day_of :: "int \<Rightarrow> int" where "day_of t = t div day_ns"

text \<open>\<open>date_trunc('week', d)\<close>: the Monday on or before day \<open>d\<close>, day 0 being a Thursday.\<close>

definition week_start :: "int \<Rightarrow> int" where "week_start d = d - (d + 3) mod 7"

definition period_start :: "string \<Rightarrow> int \<Rightarrow> int" where
  "period_start cadence d = (if cadence = ''daily'' then d else week_start d)"

definition nextLevel :: "int \<Rightarrow> int" where
  "nextLevel xp = (if xp \<le> 0 then 1 else \<lfloor>sqrt (real_of_int xp / 100)\<rfloor> + 1)"

definition nextLevelXP :: "int \<Rightarrow> int" where
  "nextLevelXP level = (let level = if level < 1 then 1 else level in wrap64 (wrap64 (level * level) * 100))"

definition comboMultiplier :: "int \<Rightarrow> real" where
  "comboMultiplier combo =
     (if combo \<le> 1 then 1
      else let m = 1 + real_of_int (min (combo - 1) 10) * (1 / 10) in if m > 2 then 2 else m)"

definition base_xp :: "string \<Rightarrow> int" where
  "base_xp action =
     (case map_of
        [(''daily_login'', 20), (''post_created'', 50), (''comment_created'', 15), (''reaction_added'', 5),
         (''message_sent'', 5), (''content_viewed'', 2), (''story_viewed'', 2), (''follow_created'', 10),
         (''story_created'', 20), (''community_joined'', 25), (''community_event_rsvp'', 15),
         (''referral_completed'', 100)] action of None \<Rightarrow> 0 | Some x \<Rightarrow> x)"

text \<open>\<open>math.Round\<close> of a number that is not negative.\<close>

definition round_half_up :: "real \<Rightarrow> int" where "round_half_up x = \<lfloor>x + 1 / 2\<rfloor>"

definition next_streak :: "int option \<Rightarrow> int \<Rightarrow> int \<Rightarrow> int" where
  "next_streak ld today streak =
     (case ld of
        None \<Rightarrow> 1
      | Some l \<Rightarrow> if today - l = 1 then streak + 1 else if 1 < today - l then 1 else streak)"

definition next_combo :: "int option \<Rightarrow> int \<Rightarrow> int \<Rightarrow> int" where
  "next_combo t0 now combo =
     (case t0 of None \<Rightarrow> 1 | Some t \<Rightarrow> if now - t \<le> 5 * minute_ns then combo + 1 else 1)"

definition event_multiplier :: "int \<Rightarrow> int option \<Rightarrow> int \<Rightarrow> real" where
  "event_multiplier combo boost now =
     (let m = comboMultiplier combo;
          m = (case boost of Some b \<Rightarrow> if now < b then m * 2 else m | None \<Rightarrow> m)
      in if m > 4 then 4 else m)"

definition streak_bonus :: "int option \<Rightarrow> int \<Rightarrow> int \<Rightarrow> int" where
  "streak_bonus ld today streak = (if ld = Some today then 0 else min streak 20)"

definition shield_award :: "int \<Rightarrow> int \<Rightarrow> int" where
  "shield_award previous streak = (if (streak = 7 \<or> streak = 30) \<and> previous < streak then 1 else 0)"

text \<open>Energy regenerates by one unit a minute, up to 100.\<close>

definition energy_now :: "profile \<Rightarrow> int \<Rightarrow> int" where
  "energy_now p now = min 100 (pf_energy p + (now - pf_energy_at p) div minute_ns)"

section \<open>Statements\<close>

definition fk_error :: goerr where "fk_error = Constraint ''foreign_key_violation''"
definition check_error :: goerr where "check_error = Constraint ''check_violation''"
definition range_error :: goerr where "range_error = Constraint ''numeric_value_out_of_range''"

definition insert_referral_stmt :: "uuid \<Rightarrow> uuid \<Rightarrow> string \<Rightarrow> (growth_db, unit) sql" where
  "insert_referral_stmt a b code d =
     (if a \<notin> set (g_users d) \<or> b \<notin> set (g_users d) then Inl fk_error
      else Inr ((), d\<lparr>referrals := sql_insert_ignore (\<lambda>(a, b, _). (a, b)) (a, b, code) (referrals d)\<rparr>))"

definition new_profile :: "uuid \<Rightarrow> int \<Rightarrow> profile" where
  "new_profile u now =
     \<lparr>pf_user = u, pf_xp = 0, pf_level = 1, pf_rep = 0, pf_energy = 100, pf_energy_at = now, pf_streak = 0,
      pf_longest = 0, pf_last = None, pf_combo = 0, pf_combo_at = None, pf_shields = 1, pf_boost = None\<rparr>"

definition reputation_stmt :: "uuid \<Rightarrow> int \<Rightarrow> int \<Rightarrow> (growth_db, unit) sql" where
  "reputation_stmt u delta now d =
     (if \<not> fits64 delta \<or> (\<exists>p\<in>set (profiles d). pf_user p = u \<and> \<not> fits64 (pf_rep p + delta)) then Inl range_error
      else if u \<notin> set (g_users d) then Inl fk_error
      else Inr ((), d\<lparr>profiles := sql_upsert pf_user (new_profile u now\<lparr>pf_rep := delta\<rparr>)
                        (\<lambda>p. p\<lparr>pf_rep := max 0 (pf_rep p + delta)\<rparr>) (profiles d)\<rparr>))"

definition leaderboard_stmt :: "nat \<Rightarrow> (growth_db, (uuid \<times> int \<times> int) list) sql" where
  "leaderboard_stmt cnt d =
     (let ps = sort_key (\<lambda>p. - pf_rep p) (sort_key (\<lambda>p. - pf_xp p) (profiles d))
      in Inr (take cnt (map (\<lambda>(p, k). (pf_user p, pf_rep p, int k + 1)) (zip ps [0..<length ps])), d))"

definition ensure_profile_stmt :: "uuid \<Rightarrow> int \<Rightarrow> (growth_db, unit) sql" where
  "ensure_profile_stmt u now d =
     (if u \<notin> set (g_users d) then Inl fk_error
      else Inr ((), d\<lparr>profiles := sql_insert_ignore pf_user (new_profile u now) (profiles d)\<rparr>))"

definition ensure_season_stmt :: "string \<Rightarrow> (growth_db, unit) sql" where
  "ensure_season_stmt code d = Inr ((), d\<lparr>seasons := sql_insert_ignore id code (seasons d)\<rparr>)"

definition select_profile_stmt :: "uuid \<Rightarrow> (growth_db, profile) sql" where
  "select_profile_stmt u d = (case filter (\<lambda>p. pf_user p = u) (profiles d) of [] \<Rightarrow> Inl NoRows | p # _ \<Rightarrow> Inr (p, d))"

definition season_xp_stmt :: "string \<Rightarrow> uuid \<Rightarrow> (growth_db, int) sql" where
  "season_xp_stmt code u d =
     (case filter (\<lambda>r. sc_season r = code \<and> sc_user r = u) (scores d) of [] \<Rightarrow> Inl NoRows | r # _ \<Rightarrow> Inr (sc_xp r, d))"

definition season_ranked :: "string \<Rightarrow> growth_db \<Rightarrow> score_row list" where
  "season_ranked code d = sort_key (\<lambda>r. - sc_xp r) (filter (\<lambda>r. sc_season r = code) (scores d))"

definition season_rank_stmt :: "string \<Rightarrow> uuid \<Rightarrow> (growth_db, int) sql" where
  "season_rank_stmt code u d =
     (let rs = season_ranked code d
      in Inr (case filter (\<lambda>(r, k). sc_user r = u) (zip rs [0..<length rs]) of [] \<Rightarrow> 0 | (r, k) # _ \<Rightarrow> int k + 1, d))"

text \<open>The result says whether a row was inserted and returned; the driver reports an empty result as \<open>ErrNoRows\<close>.\<close>

definition insert_event_stmt :: "uuid \<Rightarrow> string \<Rightarrow> string \<Rightarrow> (growth_db, bool) sql" where
  "insert_event_stmt u action source d =
     (if u \<notin> set (g_users d) then Inl fk_error
      else let key = \<lambda>e. (ev_user e, ev_action e, ev_source e);
               e = \<lparr>ev_user = u, ev_action = action, ev_source = source, ev_xp = 0, ev_mult = 1\<rparr>
           in Inr (key e \<notin> key ` set (events d), d\<lparr>events := sql_insert_ignore key e (events d)\<rparr>))"

definition update_profile_stmt :: "uuid \<Rightarrow> int \<Rightarrow> int \<Rightarrow> int \<Rightarrow> int \<Rightarrow> int \<Rightarrow> int \<Rightarrow> int \<Rightarrow> (growth_db, unit) sql" where
  "update_profile_stmt u xp level rep streak longest combo now d =
     (if \<exists>p\<in>set (profiles d). pf_user p = u \<and> energy_now p now < 0 then Inl check_error
      else Inr ((), d\<lparr>profiles := sql_update (\<lambda>p. pf_user p = u)
       (\<lambda>p. p\<lparr>pf_xp := xp, pf_level := level, pf_rep := rep, pf_energy := energy_now p now, pf_energy_at := now,
              pf_streak := streak, pf_longest := longest, pf_last := Some (day_of now), pf_combo := combo,
              pf_combo_at := Some now\<rparr>) (profiles d)\<rparr>))"

definition update_event_stmt :: "uuid \<Rightarrow> string \<Rightarrow> string \<Rightarrow> int \<Rightarrow> real \<Rightarrow> (growth_db, unit) sql" where
  "update_event_stmt u action source xp mult d =
     Inr ((), d\<lparr>events := sql_update (\<lambda>e. ev_user e = u \<and> ev_action e = action \<and> ev_source e = source)
       (\<lambda>e. e\<lparr>ev_xp := xp, ev_mult := mult\<rparr>) (events d)\<rparr>)"

definition add_score_stmt :: "string \<Rightarrow> uuid \<Rightarrow> int \<Rightarrow> (growth_db, unit) sql" where
  "add_score_stmt code u xp d =
     (if \<exists>r\<in>set (scores d). (sc_season r, sc_user r) = (code, u) \<and> \<not> fits64 (sc_xp r + xp) then Inl range_error
      else if code \<notin> set (seasons d) \<or> u \<notin> set (g_users d) then Inl fk_error
      else Inr ((), d\<lparr>scores := sql_upsert (\<lambda>r. (sc_season r, sc_user r)) \<lparr>sc_season = code, sc_user = u, sc_xp = xp\<rparr>
             (\<lambda>r. r\<lparr>sc_xp := sc_xp r + xp\<rparr>) (scores d)\<rparr>))"

definition uq_key :: "uquest_row \<Rightarrow> uuid \<times> uuid \<times> int" where
  "uq_key r = (uq_user r, uq_quest r, uq_start r)"

definition assign_quests_stmt :: "uuid \<Rightarrow> (quest_row \<Rightarrow> bool) \<Rightarrow> int \<Rightarrow> (growth_db, unit) sql" where
  "assign_quests_stmt u P day d =
     (if u \<notin> set (g_users d) \<and> filter P (quests d) \<noteq> [] then Inl fk_error
      else Inr ((), d\<lparr>uquests := foldl (\<lambda>t q. sql_insert_ignore uq_key
             \<lparr>uq_user = u, uq_quest = q_id q, uq_start = period_start (q_cadence q) day, uq_progress = 0,
              uq_claimed = False, uq_done = None\<rparr> t) (uquests d) (filter P (quests d))\<rparr>))"

definition current_period :: "int \<Rightarrow> uquest_row \<Rightarrow> bool" where
  "current_period day r \<longleftrightarrow> uq_start r = day \<or> uq_start r = week_start day"

definition quest_of :: "growth_db \<Rightarrow> uuid \<Rightarrow> quest_row option" where
  "quest_of d i = find (\<lambda>q. q_id q = i) (quests d)"

definition advance_quest :: "growth_db \<Rightarrow> int \<Rightarrow> uquest_row \<Rightarrow> uquest_row" where
  "advance_quest d now r =
     (case quest_of d (uq_quest r) of
        None \<Rightarrow> r
      | Some q \<Rightarrow>
          (let n = min (q_target q) (uq_progress r + 1)
           in r\<lparr>uq_progress := n,
                uq_done := if q_target q \<le> n then (case uq_done r of None \<Rightarrow> Some now | t \<Rightarrow> t) else uq_done r\<rparr>))"

definition advance_quests_stmt :: "uuid \<Rightarrow> string \<Rightarrow> int \<Rightarrow> (growth_db, unit) sql" where
  "advance_quests_stmt u action now d =
     Inr ((), d\<lparr>uquests := sql_update
       (\<lambda>r. uq_user r = u \<and> map_option q_action (quest_of d (uq_quest r)) = Some action \<and> current_period (day_of now) r)
       (advance_quest d now) (uquests d)\<rparr>)"

definition quest_rows :: "uuid \<Rightarrow> string \<Rightarrow> int \<Rightarrow> growth_db \<Rightarrow> uquest_row list" where
  "quest_rows u action now d =
     filter (\<lambda>r. uq_user r = u \<and> map_option q_action (quest_of d (uq_quest r)) = Some action \<and> current_period (day_of now) r)
       (uquests d)"

definition quest_progress_stmt :: "uuid \<Rightarrow> string \<Rightarrow> int \<Rightarrow> (growth_db, int) sql" where
  "quest_progress_stmt u action now d =
     Inr (case quest_rows u action now d of [] \<Rightarrow> 0 | r # rs \<Rightarrow> foldl max (uq_progress r) (map uq_progress rs), d)"

definition new_achievements_stmt :: "uuid \<Rightarrow> string \<Rightarrow> int \<Rightarrow> int \<Rightarrow> (growth_db, achievement_row list) sql" where
  "new_achievements_stmt u action streak level d =
     Inr (filter (\<lambda>a. ac_active a \<and> (\<forall>(v, i, t)\<in>set (unlocked d). \<not> (v = u \<and> i = ac_id a)) \<and>
            (ac_metric a = action \<and>
               ac_threshold a \<le> int (length (filter (\<lambda>e. ev_user e = u \<and> ev_action e = ac_metric a) (events d))) \<or>
             ac_metric a = ''streak'' \<and> ac_threshold a \<le> streak \<or>
             ac_metric a = ''level'' \<and> ac_threshold a \<le> level)) (achievements d), d)"

definition insert_unlocked_stmt :: "uuid \<Rightarrow> uuid \<Rightarrow> int \<Rightarrow> (growth_db, unit) sql" where
  "insert_unlocked_stmt u i now d =
     Inr ((), d\<lparr>unlocked := sql_insert_ignore (\<lambda>(v, i, _). (v, i)) (u, i, now) (unlocked d)\<rparr>)"

definition set_xp_stmt :: "uuid \<Rightarrow> int \<Rightarrow> int \<Rightarrow> int \<Rightarrow> (growth_db, unit) sql" where
  "set_xp_stmt u xp level rep d =
     (if \<exists>p\<in>set (profiles d). pf_user p = u \<and> \<not> fits64 (pf_rep p + rep) then Inl range_error
      else Inr ((), d\<lparr>profiles := sql_update (\<lambda>p. pf_user p = u)
       (\<lambda>p. p\<lparr>pf_xp := xp, pf_level := level, pf_rep := pf_rep p + rep\<rparr>) (profiles d)\<rparr>))"

definition add_shields_stmt :: "uuid \<Rightarrow> int \<Rightarrow> (growth_db, unit) sql" where
  "add_shields_stmt u n d =
     Inr ((), d\<lparr>profiles := sql_update (\<lambda>p. pf_user p = u) (\<lambda>p. p\<lparr>pf_shields := min 3 (pf_shields p + n)\<rparr>) (profiles d)\<rparr>)"


section \<open>Repository\<close>

record profile_view =
  pv_row :: profile
  pv_energy :: int
  pv_next :: int
  pv_mult :: real
  pv_boosted :: bool
  pv_tier :: string
  pv_season_xp :: int
  pv_season_rank :: int

record event_result =
  er_applied :: bool
  er_xp :: int
  er_granted :: int
  er_mult :: real
  er_level :: int
  er_level_up :: bool
  er_streak :: int
  er_combo :: int
  er_quest :: int
  er_unlocked :: "achievement_row list"

definition CreateReferral :: "growth_env \<Rightarrow> string \<Rightarrow> string \<Rightarrow> string \<Rightarrow> (growth_db, unit) dbm" where
  "CreateReferral env a b code =
     (case (g_scan env a, g_scan env b) of
        (Inr u, Inr v) \<Rightarrow> autocommit (insert_referral_stmt u v code)
      | (Inl e, _) \<Rightarrow> dfail e
      | (_, Inl e) \<Rightarrow> dfail e)"

definition UpdateInfluence :: "growth_env \<Rightarrow> int \<Rightarrow> string \<Rightarrow> real \<Rightarrow> (growth_db, unit) dbm" where
  "UpdateInfluence env now user delta =
     (case g_scan env user of Inl e \<Rightarrow> dfail e | Inr u \<Rightarrow> autocommit (reputation_stmt u (g_round env delta) now))"

definition GetLeaderboard :: "int \<Rightarrow> (growth_db, (uuid \<times> int \<times> int) list) dbm" where
  "GetLeaderboard cnt = autocommit (leaderboard_stmt (nat (if cnt \<le> 0 \<or> 100 < cnt then 20 else cnt)))"

definition ensureProfile :: "uuid \<Rightarrow> int \<Rightarrow> (growth_db, unit) dbm" where
  "ensureProfile u now = stmt (ensure_profile_stmt u now)"

definition ensureSeason :: "growth_env \<Rightarrow> int \<Rightarrow> (growth_db, string) dbm" where
  "ensureSeason env now =
     dbind (stmt (\<lambda>d. Inr (g_season env now, d))) (\<lambda>code.
     dbind (stmt (ensure_season_stmt code)) (\<lambda>_. dreturn code))"

definition view_of :: "profile \<Rightarrow> int \<Rightarrow> int \<Rightarrow> profile_view" where
  "view_of p energy now =
     \<lparr>pv_row = p, pv_energy = energy, pv_next = nextLevelXP (pf_level p), pv_mult = comboMultiplier (pf_combo p),
      pv_boosted = (case pf_boost p of None \<Rightarrow> False | Some b \<Rightarrow> now < b), pv_tier = [], pv_season_xp = 0, pv_season_rank = 0\<rparr>"

definition profile_body :: "growth_env \<Rightarrow> int \<Rightarrow> string \<Rightarrow> (growth_db, profile_view) dbm" where
  "profile_body env now user =
     (case g_scan env user of
        Inl e \<Rightarrow> dfail e
      | Inr u \<Rightarrow>
          dbind (ensureProfile u now) (\<lambda>_.
          dbind (ensureSeason env now) (\<lambda>code.
          dbind (stmt (select_profile_stmt u)) (\<lambda>p.
          dbind (dignore 0 (stmt (season_xp_stmt code u))) (\<lambda>sxp.
          dbind (dignore 0 (stmt (season_rank_stmt code u))) (\<lambda>rank.
          dreturn ((view_of p (energy_now p now) now)\<lparr>pv_season_xp := sxp, pv_season_rank := rank\<rparr>)))))))"

definition repo_GetProfile :: "growth_env \<Rightarrow> int \<Rightarrow> string \<Rightarrow> (growth_db, profile_view) dbm" where
  "repo_GetProfile env now user = in_tx id id (profile_body env now user)"

text \<open>
  The loop of \<open>unlockAchievements\<close> executes commands while its rows are open.
\<close>

fun unlock_loop ::
  "growth_env \<Rightarrow> uuid \<Rightarrow> int \<Rightarrow> achievement_row list \<Rightarrow> achievement_row list \<Rightarrow> (growth_db, achievement_row list) dbm" where
  "unlock_loop env u now [] out = dreturn out"
| "unlock_loop env u now (a # as) out =
     (if busy_rows env then dfail (Errorf ''conn busy'')
      else dbind (stmt (insert_unlocked_stmt u (ac_id a) now)) (\<lambda>_.
           dbind (stmt (select_profile_stmt u)) (\<lambda>p.
           let xp = wrap64 (pf_xp p + ac_xp a)
           in dbind (stmt (set_xp_stmt u xp (nextLevel xp) (ac_rep a))) (\<lambda>_.
              unlock_loop env u now as (out @ [a])))))"

definition unlockAchievements ::
  "growth_env \<Rightarrow> uuid \<Rightarrow> int \<Rightarrow> string \<Rightarrow> int \<Rightarrow> int \<Rightarrow> (growth_db, achievement_row list) dbm" where
  "unlockAchievements env u now action streak level =
     dbind (stmt (new_achievements_stmt u action streak level)) (\<lambda>as. unlock_loop env u now as [])"

text \<open>The branch of an event that is new: the awards, from the profile \<open>p\<close> read for update.\<close>

definition award_body ::
  "growth_env \<Rightarrow> int \<Rightarrow> uuid \<Rightarrow> string \<Rightarrow> string \<Rightarrow> string \<Rightarrow> (growth_db, event_result) dbm" where
  "award_body env now u action source code =
     dbind (stmt (select_profile_stmt u)) (\<lambda>p.
       let today = day_of now;
           streak = next_streak (pf_last p) today (pf_streak p);
           longest = (if pf_longest p < streak then streak else pf_longest p);
           combo = next_combo (pf_combo_at p) now (pf_combo p);
           mult = event_multiplier combo (pf_boost p) now;
           awarded = round_half_up (real_of_int (base_xp action) * mult) + streak_bonus (pf_last p) today streak;
           xp = wrap64 (pf_xp p + awarded);
           level = nextLevel xp
       in dbind (stmt (update_profile_stmt u xp level (wrap64 (pf_rep p + awarded div 10)) streak longest combo now)) (\<lambda>_.
          dbind (stmt (update_event_stmt u action source awarded mult)) (\<lambda>_.
          dbind (stmt (add_score_stmt code u awarded)) (\<lambda>_.
          dbind (stmt (assign_quests_stmt u (\<lambda>q. q_active q \<and> q_action q = action) today)) (\<lambda>_.
          dbind (stmt (advance_quests_stmt u action now)) (\<lambda>_.
          dbind (dignore 0 (stmt (quest_progress_stmt u action now))) (\<lambda>progress.
          dbind (unlockAchievements env u now action streak level) (\<lambda>as.
          dbind (stmt (add_shields_stmt u (shield_award (pf_streak p) streak))) (\<lambda>_.
          dreturn \<lparr>er_applied = True, er_xp = xp, er_granted = awarded, er_mult = mult, er_level = level,
                   er_level_up = (pf_level p < level), er_streak = streak, er_combo = combo, er_quest = progress,
                   er_unlocked = as\<rparr>)))))))))"

definition no_profile :: profile where
  "no_profile = new_profile 0 0\<lparr>pf_level := 0, pf_energy := 0, pf_shields := 0\<rparr>"

definition event_body :: "growth_env \<Rightarrow> int \<Rightarrow> string \<Rightarrow> string \<Rightarrow> string \<Rightarrow> (growth_db, event_result) dbm" where
  "event_body env now user action source =
     (case g_scan env user of
        Inl e \<Rightarrow> dfail e
      | Inr u \<Rightarrow>
          dbind (ensureProfile u now) (\<lambda>_.
          dbind (ensureSeason env now) (\<lambda>code.
            if base_xp action = 0 then dfail (Errorf ''unsupported progression action'')
            else dbind (stmt (insert_event_stmt u action source)) (\<lambda>fresh.
              if fresh then award_body env now u action source code
              else dbind (dignore no_profile (stmt (select_profile_stmt u))) (\<lambda>p.
                   dreturn \<lparr>er_applied = False, er_xp = pf_xp p, er_granted = 0, er_mult = 0, er_level = pf_level p,
                     er_level_up = False, er_streak = pf_streak p, er_combo = pf_combo p, er_quest = 0, er_unlocked = []\<rparr>)))))"

definition repo_RecordEvent :: "growth_env \<Rightarrow> int \<Rightarrow> string \<Rightarrow> string \<Rightarrow> string \<Rightarrow> (growth_db, event_result) dbm" where
  "repo_RecordEvent env now user action source = in_tx id id (event_body env now user action source)"


text \<open>The quests of the current period with the progress of the user.\<close>

definition quest_state :: "growth_db \<Rightarrow> uuid \<Rightarrow> int \<Rightarrow> quest_row \<Rightarrow> int \<times> bool" where
  "quest_state d u day q =
     (case filter (\<lambda>r. uq_key r = (u, q_id q, period_start (q_cadence q) day)) (uquests d) of
        [] \<Rightarrow> (0, False) | r # _ \<Rightarrow> (uq_progress r, uq_claimed r))"

definition list_quests_stmt ::
  "uuid \<Rightarrow> (quest_row \<Rightarrow> bool) \<Rightarrow> int \<Rightarrow> (growth_db, (quest_row \<times> int \<times> bool \<times> bool) list) sql" where
  "list_quests_stmt u P day d =
     Inr (map (\<lambda>q. case quest_state d u day q of (n, c) \<Rightarrow> (q, n, c, q_target q \<le> n)) (filter P (quests d)), d)"

definition repo_ListQuests ::
  "growth_env \<Rightarrow> int \<Rightarrow> string \<Rightarrow> string \<Rightarrow> (growth_db, (quest_row \<times> int \<times> bool \<times> bool) list) dbm" where
  "repo_ListQuests env now user cadence =
     in_tx id id
       (case g_scan env user of
          Inl e \<Rightarrow> dfail e
        | Inr u \<Rightarrow>
            (let P = (\<lambda>q. q_active q \<and> (cadence \<noteq> ''all'' \<longrightarrow> q_cadence q = cadence))
             in dbind (ensureProfile u now) (\<lambda>_.
                dbind (stmt (assign_quests_stmt u P (day_of now))) (\<lambda>_.
                stmt (list_quests_stmt u P (day_of now))))))"

definition select_quest_stmt :: "uuid \<Rightarrow> uuid \<Rightarrow> int \<Rightarrow> (growth_db, (quest_row \<times> int \<times> bool) option) sql" where
  "select_quest_stmt i u day d =
     Inr (case filter (\<lambda>q. q_id q = i \<and> q_active q) (quests d) of
            [] \<Rightarrow> None | q # _ \<Rightarrow> Some (q, quest_state d u day q), d)"

definition claim_stmt :: "uuid \<Rightarrow> uuid \<Rightarrow> int \<Rightarrow> int \<Rightarrow> int \<Rightarrow> (growth_db, unit) sql" where
  "claim_stmt u i start progress now d =
     (if u \<notin> set (g_users d) \<or> i \<notin> q_id ` set (quests d) then Inl fk_error
      else Inr ((), d\<lparr>uquests := sql_upsert uq_key
             \<lparr>uq_user = u, uq_quest = i, uq_start = start, uq_progress = progress, uq_claimed = True, uq_done = Some now\<rparr>
             (\<lambda>r. r\<lparr>uq_claimed := True, uq_done := Some now\<rparr>) (uquests d)\<rparr>))"

text \<open>The reward of a claimed quest; a profile that cannot be read counts as one without points.\<close>

definition pay_quest :: "uuid \<Rightarrow> quest_row \<Rightarrow> (growth_db, quest_row) dbm" where
  "pay_quest u q =
     dbind (dignore no_profile (stmt (select_profile_stmt u))) (\<lambda>p.
       let xp = wrap64 (pf_xp p + q_xp q)
       in dbind (stmt (set_xp_stmt u xp (nextLevel xp) (q_rep q))) (\<lambda>_. dreturn q))"

definition claim_body :: "growth_env \<Rightarrow> int \<Rightarrow> string \<Rightarrow> uuid \<Rightarrow> (growth_db, quest_row) dbm" where
  "claim_body env now user i =
     (case g_scan env user of
        Inl e \<Rightarrow> dfail e
      | Inr u \<Rightarrow>
          dbind (stmt (select_quest_stmt i u (day_of now))) (\<lambda>r.
            (case r of
               None \<Rightarrow> dfail (Errorf ''quest not found'')
             | Some (q, n, claimed) \<Rightarrow>
                 if claimed then dfail (Errorf ''quest already claimed'')
                 else if \<not> q_target q \<le> n then dfail (Errorf ''quest is not complete'')
                 else dbind (stmt (claim_stmt u i (period_start (q_cadence q) (day_of now)) n now)) (\<lambda>_.
                      pay_quest u q))))"

definition repo_ClaimQuest :: "growth_env \<Rightarrow> int \<Rightarrow> string \<Rightarrow> string \<Rightarrow> (growth_db, quest_row) dbm" where
  "repo_ClaimQuest env now user quest =
     (case g_parse env quest of
        None \<Rightarrow> dfail (Errorf ''invalid quest id'')
      | Some i \<Rightarrow> in_tx id id (claim_body env now user i))"

text \<open>The two methods below begin a transaction and never commit it.\<close>

definition uncommitted :: "('d, 'a) dbm \<Rightarrow> ('d, 'a) dbm" where
  "uncommitted body = dbind begin_tx (\<lambda>_. with_rollback body)"

definition profileForTx :: "uuid \<Rightarrow> int \<Rightarrow> (growth_db, profile_view) dbm" where
  "profileForTx u now = dbind (stmt (select_profile_stmt u)) (\<lambda>p. dreturn (view_of p (pf_energy p) now))"

definition use_shield_stmt :: "uuid \<Rightarrow> int \<Rightarrow> (growth_db, unit) sql" where
  "use_shield_stmt u day d =
     Inr ((), d\<lparr>profiles := sql_update (\<lambda>p. pf_user p = u)
       (\<lambda>p. p\<lparr>pf_shields := pf_shields p - 1, pf_last := Some day\<rparr>) (profiles d)\<rparr>)"

definition shield_body :: "growth_env \<Rightarrow> int \<Rightarrow> string \<Rightarrow> (growth_db, profile_view) dbm" where
  "shield_body env now user =
     (case g_scan env user of
        Inl e \<Rightarrow> dfail e
      | Inr u \<Rightarrow>
          dbind (ensureProfile u now) (\<lambda>_.
          dbind (stmt (select_profile_stmt u)) (\<lambda>p.
            if pf_shields p \<le> 0 then dfail (Errorf ''no streak shield available'')
            else (case pf_last p of
                    None \<Rightarrow> dfail (Errorf ''nothing to protect'')
                  | Some l \<Rightarrow>
                      if \<not> l < day_of now then dfail (Errorf ''streak shield is only usable before today's activity'')
                      else if 2 < day_of now - l then dfail (Errorf ''streak gap is too large for a shield'')
                      else dbind (stmt (use_shield_stmt u (day_of now))) (\<lambda>_. profileForTx u now)))))"

definition repo_ClaimStreakShield :: "growth_env \<Rightarrow> int \<Rightarrow> string \<Rightarrow> (growth_db, profile_view) dbm" where
  "repo_ClaimStreakShield env now user = uncommitted (shield_body env now user)"

definition boost_guard :: "uuid \<Rightarrow> int \<Rightarrow> int \<Rightarrow> profile \<Rightarrow> bool" where
  "boost_guard u cost now p \<longleftrightarrow>
     pf_user p = u \<and> cost \<le> pf_energy p \<and> (case pf_boost p of None \<Rightarrow> True | Some b \<Rightarrow> b \<le> now)"

definition boost_stmt :: "uuid \<Rightarrow> int \<Rightarrow> int \<Rightarrow> int \<Rightarrow> (growth_db, nat) sql" where
  "boost_stmt u cost minutes now d =
     (if \<exists>p\<in>set (profiles d). boost_guard u cost now p \<and> energy_now p now - cost < 0 then Inl check_error
      else Inr (length (filter (boost_guard u cost now) (profiles d)),
          d\<lparr>profiles := sql_update (boost_guard u cost now)
            (\<lambda>p. p\<lparr>pf_energy := energy_now p now - cost, pf_energy_at := now,
                   pf_boost := Some (max (case pf_boost p of None \<Rightarrow> now | Some b \<Rightarrow> b) (now + minutes * minute_ns))\<rparr>)
            (profiles d)\<rparr>))"

definition boost_body :: "growth_env \<Rightarrow> int \<Rightarrow> string \<Rightarrow> int \<Rightarrow> int \<Rightarrow> (growth_db, profile_view) dbm" where
  "boost_body env now user cost duration =
     (case g_scan env user of
        Inl e \<Rightarrow> dfail e
      | Inr u \<Rightarrow>
          dbind (ensureProfile u now) (\<lambda>_.
          dbind (stmt (boost_stmt u cost (duration div minute_ns) now)) (\<lambda>n.
            if n = 0 then dfail (Errorf ''not enough energy or boost already active'') else profileForTx u now)))"

definition repo_ActivateBoost :: "growth_env \<Rightarrow> int \<Rightarrow> string \<Rightarrow> int \<Rightarrow> int \<Rightarrow> (growth_db, profile_view) dbm" where
  "repo_ActivateBoost env now user cost duration = uncommitted (boost_body env now user cost duration)"

definition achievements_stmt :: "growth_env \<Rightarrow> uuid \<Rightarrow> (growth_db, (achievement_row \<times> int option) list) sql" where
  "achievements_stmt env u d =
     (let at_of = (\<lambda>a. map_of (map (\<lambda>(v, i, t). ((v, i), t)) (unlocked d)) (u, ac_id a));
          as = map (\<lambda>a. (a, at_of a)) (filter ac_active (achievements d))
      in Inr (sort_key (\<lambda>(a, t). case t of None \<Rightarrow> (1::int, 0) | Some t \<Rightarrow> (0, - t))
              (sort_key (\<lambda>(a, t). g_collate env (ac_code a)) as), d))"

definition repo_ListAchievements :: "growth_env \<Rightarrow> string \<Rightarrow> (growth_db, (achievement_row \<times> int option) list) dbm" where
  "repo_ListAchievements env user =
     (case g_scan env user of Inl e \<Rightarrow> dfail e | Inr u \<Rightarrow> autocommit (achievements_stmt env u))"

definition season_board_stmt :: "string \<Rightarrow> nat \<Rightarrow> (growth_db, (int \<times> uuid \<times> int) list) sql" where
  "season_board_stmt code n d =
     (let rs = season_ranked code d
      in Inr (take n (map (\<lambda>(r, k). (int k + 1, sc_user r, sc_xp r)) (zip rs [0..<length rs])), d))"

definition repo_GetSeasonLeaderboard :: "growth_env \<Rightarrow> int \<Rightarrow> int \<Rightarrow> (growth_db, (int \<times> uuid \<times> int) list) dbm" where
  "repo_GetSeasonLeaderboard env now cnt =
     autocommit (season_board_stmt (g_season env now) (nat (if cnt \<le> 0 \<or> 100 < cnt then 50 else cnt)))"


section \<open>Service\<close>

definition TrackSignup :: "growth_env \<Rightarrow> string \<Rightarrow> string \<Rightarrow> string \<Rightarrow> (growth_db, unit) dbm" where
  "TrackSignup env a b code = CreateReferral env a b code"

definition CalculateInfluence :: "growth_env \<Rightarrow> int \<Rightarrow> string \<Rightarrow> (growth_db, int) dbm" where
  "CalculateInfluence env now user =
     dbind (repo_GetProfile env now user) (\<lambda>v.
     dreturn (pf_rep (pv_row v) + pf_level (pv_row v) * 10 + pf_streak (pv_row v)))"

definition GetTopInfluencers :: "int \<Rightarrow> (growth_db, (uuid \<times> int \<times> int) list) dbm" where
  "GetTopInfluencers n = GetLeaderboard n"

definition TierForLevel :: "int \<Rightarrow> string" where
  "TierForLevel level =
     (if 50 \<le> level then ''Apex'' else if 25 \<le> level then ''Nova'' else if 15 \<le> level then ''Orbit''
      else if 10 \<le> level then ''Pulse'' else if 5 \<le> level then ''Spark'' else ''Seed'')"

definition LevelForXP :: "int \<Rightarrow> int" where
  "LevelForXP xp = (if xp \<le> 0 then 1 else \<lfloor>sqrt (real_of_int xp / 100)\<rfloor> + 1)"

definition NextLevelXP :: "int \<Rightarrow> int" where
  "NextLevelXP level = (let level = if level < 1 then 1 else level in wrap64 (wrap64 (level * level) * 100))"

definition GetProfile :: "growth_env \<Rightarrow> int \<Rightarrow> string \<Rightarrow> (growth_db, profile_view) dbm" where
  "GetProfile env now user =
     dbind (repo_GetProfile env now user) (\<lambda>v. dreturn (v\<lparr>pv_tier := TierForLevel (pf_level (pv_row v))\<rparr>))"

definition allowed_actions :: "string list" where
  "allowed_actions =
     [''daily_login'', ''post_created'', ''comment_created'', ''reaction_added'', ''message_sent'', ''content_viewed'',
      ''follow_created'', ''story_created'', ''story_viewed'', ''community_joined'', ''community_event_rsvp'',
      ''referral_completed'']"

definition RecordEvent :: "growth_env \<Rightarrow> int \<Rightarrow> string \<Rightarrow> string \<Rightarrow> string \<Rightarrow> (growth_db, event_result) dbm" where
  "RecordEvent env now user action source =
     (let action = trim_space (to_lower action); source = trim_space source
      in if user = [] \<or> action = [] \<or> source = [] then dfail (Errorf ''user_id, action and source_id are required'')
         else if action \<notin> set allowed_actions then dfail (Errorf ''unsupported progression action'')
         else repo_RecordEvent env now user action source)"

definition ListQuests ::
  "growth_env \<Rightarrow> int \<Rightarrow> string \<Rightarrow> string \<Rightarrow> (growth_db, (quest_row \<times> int \<times> bool \<times> bool) list) dbm" where
  "ListQuests env now user cadence =
     repo_ListQuests env now user
       (if cadence \<noteq> ''daily'' \<and> cadence \<noteq> ''weekly'' \<and> cadence \<noteq> ''all'' then ''daily'' else cadence)"

definition ClaimQuest :: "growth_env \<Rightarrow> int \<Rightarrow> string \<Rightarrow> string \<Rightarrow> (growth_db, quest_row) dbm" where
  "ClaimQuest env now user quest = repo_ClaimQuest env now user quest"

definition ClaimStreakShield :: "growth_env \<Rightarrow> int \<Rightarrow> string \<Rightarrow> (growth_db, profile_view) dbm" where
  "ClaimStreakShield env now user = repo_ClaimStreakShield env now user"

definition ActivateBoost :: "growth_env \<Rightarrow> int \<Rightarrow> string \<Rightarrow> (growth_db, profile_view) dbm" where
  "ActivateBoost env now user = repo_ActivateBoost env now user 20 (15 * minute_ns)"

definition ListAchievements :: "growth_env \<Rightarrow> string \<Rightarrow> (growth_db, (achievement_row \<times> int option) list) dbm" where
  "ListAchievements env user = repo_ListAchievements env user"

definition GetSeasonLeaderboard :: "growth_env \<Rightarrow> int \<Rightarrow> int \<Rightarrow> (growth_db, (int \<times> uuid \<times> int) list) dbm" where
  "GetSeasonLeaderboard env now n = repo_GetSeasonLeaderboard env now (if n \<le> 0 \<or> 100 < n then 20 else n)"

section \<open>Handlers\<close>

datatype growth_body =
    GErrorBody string
  | GFailure goerr
  | TrackedBody
  | ProfileBody profile_view
  | EventBody event_result
  | QuestsBody "(quest_row \<times> int \<times> bool \<times> bool) list"
  | QuestBody quest_row
  | AchievementsBody "(achievement_row \<times> int option) list"
  | BoardBody "(int \<times> uuid \<times> int) list"

text \<open>The answer of a handler: \<open>code\<close> with the text of the error, or \<open>ok\<close> with the result.\<close>

definition ganswer ::
  "(growth_db, 'a) dbm \<Rightarrow> int \<Rightarrow> int \<Rightarrow> ('a \<Rightarrow> growth_body) \<Rightarrow> (growth_db, int \<times> growth_body) dbm" where
  "ganswer m code ok f s =
     (case m s of (Inl e, s') \<Rightarrow> (Inr (code, GFailure e), s') | (Inr a, s') \<Rightarrow> (Inr (ok, f a), s'))"

text \<open>A request, with its parsed body (\<open>None\<close> when it does not parse) and path or query parameters.\<close>

datatype growth_call =
    SignupReq "(string \<times> string \<times> string) option"
  | ProfileReq
  | EventReq "(string \<times> string) option"
  | QuestsReq "string option"
  | ClaimReq string
  | BoostReq
  | ShieldReq
  | AchievementsReq
  | SeasonReq

fun handle_growth :: "growth_env \<Rightarrow> int \<Rightarrow> string \<Rightarrow> growth_call \<Rightarrow> (growth_db, int \<times> growth_body) dbm" where
  "handle_growth env now uid (SignupReq req) =
     (case req of
        None \<Rightarrow> dreturn (400, GErrorBody ''invalid request body'')
      | Some (a, b, code) \<Rightarrow> ganswer (TrackSignup env a b code) 500 201 (\<lambda>_. TrackedBody))"
| "handle_growth env now uid ProfileReq = ganswer (GetProfile env now uid) 500 200 ProfileBody"
| "handle_growth env now uid (EventReq req) =
     (case req of
        None \<Rightarrow> dreturn (400, GErrorBody ''invalid request body'')
      | Some (action, source) \<Rightarrow> ganswer (RecordEvent env now uid action source) 400 200 EventBody)"
| "handle_growth env now uid (QuestsReq cadence) =
     ganswer (ListQuests env now uid (case cadence of None \<Rightarrow> ''daily'' | Some c \<Rightarrow> c)) 500 200 QuestsBody"
| "handle_growth env now uid (ClaimReq quest) = ganswer (ClaimQuest env now uid quest) 409 200 QuestBody"
| "handle_growth env now uid BoostReq = ganswer (ActivateBoost env now uid) 409 200 ProfileBody"
| "handle_growth env now uid ShieldReq = ganswer (ClaimStreakShield env now uid) 409 200 ProfileBody"
| "handle_growth env now uid AchievementsReq = ganswer (ListAchievements env uid) 500 200 AchievementsBody"
| "handle_growth env now uid SeasonReq = ganswer (GetSeasonLeaderboard env now 50) 500 200 BoardBody"

text \<open>A run: requests of users at instants, with the outcomes of their database calls.\<close>

fun run_growth :: "growth_env \<Rightarrow> (int \<times> string \<times> outcome list \<times> growth_call) list \<Rightarrow> growth_db session \<Rightarrow> growth_db session" where
  "run_growth env [] s = s"
| "run_growth env ((now, uid, outs, c) # cs) s =
     run_growth env cs (snd (handle_growth env now uid c (s\<lparr>outcomes := outs\<rparr>)))"

section \<open>How the tables evolve\<close>

definition profile_ok :: "profile \<Rightarrow> bool" where
  "profile_ok p \<longleftrightarrow>
     pf_level p = nextLevel (pf_xp p) \<and> 0 \<le> pf_streak p \<and> pf_streak p \<le> pf_longest p \<and>
     0 \<le> pf_energy p \<and> pf_energy p \<le> 100 \<and> 0 \<le> pf_shields p \<and> pf_shields p \<le> 3"

text \<open>The rewards of the catalogues are not negative, as the rows inserted by the migration.\<close>

definition growth_ok :: "growth_db \<Rightarrow> bool" where
  "growth_ok d \<longleftrightarrow>
     distinct (map pf_user (profiles d)) \<and> (\<forall>p\<in>set (profiles d). profile_ok p) \<and>
     distinct (map uq_key (uquests d)) \<and>
     (\<forall>q\<in>set (quests d). 0 \<le> q_xp q) \<and> (\<forall>a\<in>set (achievements d). 0 \<le> ac_xp a)"

definition event_keys :: "growth_db \<Rightarrow> (uuid \<times> string \<times> string) set" where
  "event_keys d = (\<lambda>e. (ev_user e, ev_action e, ev_source e)) ` set (events d)"

definition claimed_keys :: "growth_db \<Rightarrow> (uuid \<times> uuid \<times> int) set" where
  "claimed_keys d = uq_key ` {r \<in> set (uquests d). uq_claimed r}"

definition growth_rel :: "growth_db \<Rightarrow> growth_db \<Rightarrow> bool" where
  "growth_rel d d' \<longleftrightarrow>
     (growth_ok d \<longrightarrow>
        growth_ok d' \<and> event_keys d \<subseteq> event_keys d' \<and>
        claimed_keys d \<subseteq> claimed_keys d' \<and> quests d' = quests d \<and> achievements d' = achievements d)"

definition rows_kept :: "growth_db \<Rightarrow> growth_db \<Rightarrow> bool" where
  "rows_kept d d' \<longleftrightarrow> set (profiles d) \<subseteq> set (profiles d')"

interpretation grow: evolution growth_rel
proof
  fix d d' d'' :: growth_db
  show "growth_rel d d" by (simp add: growth_rel_def)
  assume "growth_rel d d'" and "growth_rel d' d''"
  then show "growth_rel d d''" unfolding growth_rel_def by auto
qed

interpretation kept: evolution rows_kept
  by unfold_locales (auto simp: rows_kept_def)

text \<open>Statements that leave the profiles alone.\<close>

lemma growth_rel_frame:
  "profiles d' = profiles d \<Longrightarrow> event_keys d \<subseteq> event_keys d' \<Longrightarrow> claimed_keys d \<subseteq> claimed_keys d' \<Longrightarrow>
   (distinct (map uq_key (uquests d)) \<Longrightarrow> distinct (map uq_key (uquests d'))) \<Longrightarrow> quests d' = quests d \<Longrightarrow>
   achievements d' = achievements d \<Longrightarrow> growth_rel d d'"
  by (simp add: growth_rel_def growth_ok_def)

text \<open>A statement that updates the profile of one user.\<close>

lemma growth_rel_profile:
  assumes "\<And>p. pf_user (f p) = pf_user p"
    and "\<And>p. growth_ok d \<Longrightarrow> p \<in> set (profiles d) \<Longrightarrow> pf_user p = u \<Longrightarrow> profile_ok (f p)"
  shows "growth_rel d (d\<lparr>profiles := sql_update (\<lambda>p. pf_user p = u) f (profiles d)\<rparr>)"
  using assms by (auto simp: growth_rel_def growth_ok_def event_keys_def claimed_keys_def set_sql_update)

lemma growth_rel_new_profile:
  assumes "profile_ok p"
  shows "growth_rel d (d\<lparr>profiles := sql_insert_ignore pf_user p (profiles d)\<rparr>)"
  using assms
  by (auto simp: growth_rel_def growth_ok_def event_keys_def claimed_keys_def sql_insert_ignore_def)

lemma new_profile_ok [simp]: "profile_ok (new_profile u now)"
  by (simp add: profile_ok_def new_profile_def nextLevel_def)

lemma ensure_profile_step:
  "ensure_profile_stmt u now d = Inr (a, d') \<Longrightarrow> growth_rel d d' \<and> rows_kept d d' \<and> event_keys d' = event_keys d"
  by (auto simp: ensure_profile_stmt_def rows_kept_def sql_insert_ignore_def event_keys_def split: if_splits
      intro!: growth_rel_new_profile [unfolded sql_insert_ignore_def])
    (use growth_rel_new_profile [OF new_profile_ok, of d u now] in \<open>simp add: sql_insert_ignore_def split: if_splits\<close>)+

lemma ensure_season_step:
  "ensure_season_stmt code d = Inr (a, d') \<Longrightarrow> growth_rel d d' \<and> rows_kept d d' \<and> event_keys d' = event_keys d"
  by (auto simp: ensure_season_stmt_def rows_kept_def event_keys_def claimed_keys_def intro!: growth_rel_frame)

lemma insert_event_step:
  assumes "insert_event_stmt u action source d = Inr (fresh, d')"
  shows "growth_rel d d'" "rows_kept d d'" "fresh \<longleftrightarrow> (u, action, source) \<notin> event_keys d" "(u, action, source) \<in> event_keys d'"
proof -
  from assms show "fresh \<longleftrightarrow> (u, action, source) \<notin> event_keys d" "(u, action, source) \<in> event_keys d'" "rows_kept d d'"
    by (auto simp: insert_event_stmt_def event_keys_def sql_insert_ignore_def Let_def rows_kept_def split: if_splits)
  from assms show "growth_rel d d'"
    by (intro growth_rel_frame)
      (auto simp: insert_event_stmt_def event_keys_def claimed_keys_def sql_insert_ignore_def Let_def split: if_splits)
qed

lemma assign_quests_set:
  "set t \<subseteq> set (foldl (\<lambda>t q. sql_insert_ignore key (f q) t) t qs)"
proof (induction qs arbitrary: t)
  case (Cons q qs)
  have "set t \<subseteq> set (sql_insert_ignore key (f q) t)" by (auto simp: sql_insert_ignore_def)
  with Cons [of "sql_insert_ignore key (f q) t"] show ?case by auto
qed simp

lemma assign_quests_distinct:
  "distinct (map key t) \<Longrightarrow> distinct (map key (foldl (\<lambda>t q. sql_insert_ignore key (f q) t) t qs))"
  by (induction qs arbitrary: t) simp_all

lemma assign_quests_step:
  assumes "assign_quests_stmt u P day d = Inr (a, d')"
  shows "growth_rel d d'"
proof -
  from assms have same: "profiles d' = profiles d" "events d' = events d" "quests d' = quests d" "achievements d' = achievements d"
    and "uquests d' = foldl (\<lambda>t q. sql_insert_ignore uq_key
             \<lparr>uq_user = u, uq_quest = q_id q, uq_start = period_start (q_cadence q) day, uq_progress = 0,
              uq_claimed = False, uq_done = None\<rparr> t) (uquests d) (filter P (quests d))"
    by (auto simp: assign_quests_stmt_def split: if_splits)
  from this(5) have "set (uquests d) \<subseteq> set (uquests d')"
    and "distinct (map uq_key (uquests d)) \<Longrightarrow> distinct (map uq_key (uquests d'))"
    by (simp_all only: assign_quests_set assign_quests_distinct)
  moreover from this(1) have "claimed_keys d \<subseteq> claimed_keys d'" by (auto simp: claimed_keys_def)
  ultimately show ?thesis using same by (intro growth_rel_frame) (simp_all add: event_keys_def)
qed

lemma update_event_step:
  assumes "update_event_stmt u action source xp mult d = Inr (a, d')"
  shows "growth_rel d d'"
proof -
  from assms have d': "d' = d\<lparr>events := sql_update (\<lambda>e. ev_user e = u \<and> ev_action e = action \<and> ev_source e = source)
       (\<lambda>e. e\<lparr>ev_xp := xp, ev_mult := mult\<rparr>) (events d)\<rparr>" by (simp add: update_event_stmt_def)
  have "event_keys d \<subseteq> event_keys d'"
    using keys_sql_update [of "\<lambda>e. (ev_user e, ev_action e, ev_source e)" "\<lambda>e. e\<lparr>ev_xp := xp, ev_mult := mult\<rparr>" "\<lambda>_. True"]
    by (simp add: event_keys_def d')
  then show ?thesis by (intro growth_rel_frame) (simp_all add: d' claimed_keys_def)
qed

lemma add_score_step: "add_score_stmt code u xp d = Inr (a, d') \<Longrightarrow> growth_rel d d'"
  by (intro growth_rel_frame) (auto simp: add_score_stmt_def event_keys_def claimed_keys_def split: if_splits)

lemma advance_quest_simps [simp]: "uq_key (advance_quest d now r) = uq_key r" "uq_claimed (advance_quest d now r) = uq_claimed r"
  by (simp_all add: advance_quest_def uq_key_def Let_def split: option.splits)

lemma advance_quests_step: "advance_quests_stmt u action now d = Inr (a, d') \<Longrightarrow> growth_rel d d'"
  by (intro growth_rel_frame)
    (auto simp: map_key_sql_update [of uq_key] advance_quests_stmt_def event_keys_def claimed_keys_def
      intro!: keys_sql_update [of uq_key "advance_quest d now" uq_claimed, THEN subsetD])

lemma insert_unlocked_step: "insert_unlocked_stmt u i now d = Inr (a, d') \<Longrightarrow> growth_rel d d'"
  by (intro growth_rel_frame) (auto simp: insert_unlocked_stmt_def event_keys_def claimed_keys_def)

lemma claim_step:
  assumes "claim_stmt u i start n now d = Inr (a, d')"
  shows "growth_rel d d'" "(u, i, start) \<in> claimed_keys d'"
proof -
  let ?row = "\<lparr>uq_user = u, uq_quest = i, uq_start = start, uq_progress = n, uq_claimed = True, uq_done = Some now\<rparr>"
  let ?f = "\<lambda>r. r\<lparr>uq_claimed := True, uq_done := Some now\<rparr>"
  from assms have d': "d' = d\<lparr>uquests := sql_upsert uq_key ?row ?f (uquests d)\<rparr>" by (simp add: claim_stmt_def split: if_splits)
  have key: "uq_key ?row = (u, i, start)" "\<And>r. uq_key (?f r) = uq_key r" by (simp_all add: uq_key_def)
  have "claimed_keys d \<subseteq> claimed_keys d'"
    using keys_sql_update [of uq_key ?f uq_claimed "uquests d", OF key(2)]
    by (auto simp: claimed_keys_def d' sql_upsert_def)
  moreover have "distinct (map uq_key (uquests d')) " if "distinct (map uq_key (uquests d))"
    using distinct_sql_upsert [of uq_key ?f, OF key(2) that] by (simp add: d')
  ultimately show "growth_rel d d'" by (intro growth_rel_frame) (simp_all add: d' event_keys_def)
  show "(u, i, start) \<in> claimed_keys d'"
  proof (cases "uq_key ?row \<in> uq_key ` set (uquests d)")
    case True
    then obtain r where r: "r \<in> set (uquests d)" "uq_key r = uq_key ?row" by (metis imageE)
    then have "?f r \<in> set (uquests d')" using True by (auto simp: d' sql_upsert_def set_sql_update)
    then show ?thesis using r(2) key
      unfolding claimed_keys_def by (intro image_eqI [where x = "?f r"]) simp_all
  next
    case False
    then show ?thesis using key by (auto simp: d' sql_upsert_def claimed_keys_def intro!: image_eqI [where x = ?row])
  qed
qed

section \<open>The transactions\<close>

text \<open>The profile that a transaction has read is the one of the user.\<close>

definition the_row :: "uuid \<Rightarrow> profile \<Rightarrow> growth_db \<Rightarrow> bool" where
  "the_row u p d \<longleftrightarrow> growth_ok d \<and> (\<forall>r\<in>set (profiles d). pf_user r = u \<longrightarrow> r = p)"

lemma growth_ok_moves: "growth_rel d d' \<Longrightarrow> growth_ok d \<Longrightarrow> growth_ok d'"
  by (simp add: growth_rel_def)

lemma select_profile_row:
  assumes "growth_ok d" and "select_profile_stmt u d = Inr (p, d')"
  shows "d' = d" "the_row u p d" "p \<in> set (profiles d)" "pf_user p = u"
proof -
  from assms(2) obtain ps where ps: "filter (\<lambda>p. pf_user p = u) (profiles d) = p # ps" and d': "d' = d"
    by (auto simp: select_profile_stmt_def split: list.splits)
  from d' show "d' = d" .
  from filter_ConsD [OF ps] show p: "p \<in> set (profiles d)" "pf_user p = u" by auto
  with assms(1) show "the_row u p d" by (auto simp: the_row_def growth_ok_def distinct_map inj_on_def)
qed

lemma select_profile_none: "select_profile_stmt u d = Inl NoRows \<Longrightarrow> growth_ok d \<Longrightarrow> the_row u p d"
  by (auto simp: select_profile_stmt_def the_row_def filter_empty_conv split: list.splits)

lemma nextLevel_pos: "1 \<le> nextLevel xp"
  by (auto simp: nextLevel_def)

lemma base_xp_nonneg: "0 \<le> base_xp action"
  by (auto simp: base_xp_def split: option.splits dest!: map_of_SomeD)

lemma comboMultiplier_bounds: "1 \<le> comboMultiplier c" "comboMultiplier c \<le> 2"
  by (auto simp: comboMultiplier_def Let_def)

lemma event_multiplier_bounds: "1 \<le> event_multiplier c b now" "event_multiplier c b now \<le> 4"
  using comboMultiplier_bounds [of c] by (auto simp: event_multiplier_def Let_def split: option.splits)

lemma next_streak_nonneg: "0 \<le> k \<Longrightarrow> 0 \<le> next_streak ld today k"
  by (auto simp: next_streak_def split: option.splits)

lemma award_nonneg:
  assumes "0 \<le> k"
  shows "0 \<le> round_half_up (real_of_int (base_xp action) * event_multiplier c b now) +
             streak_bonus ld today (next_streak ld today k)"
proof -
  have "0 \<le> real_of_int (base_xp action) * event_multiplier c b now"
    using base_xp_nonneg [of action] event_multiplier_bounds(1) [of c b now] by simp
  then show ?thesis
    using next_streak_nonneg [OF assms, of ld today] by (simp add: round_half_up_def streak_bonus_def)
qed

lemma update_profile_step:
  assumes "update_profile_stmt u xp (nextLevel xp) rep streak longest combo now d = Inr (a, d')"
    and "0 \<le> streak" and "streak \<le> longest"
  shows "growth_rel d d'"
proof -
  let ?f = "\<lambda>p. p\<lparr>pf_xp := xp, pf_level := nextLevel xp, pf_rep := rep, pf_energy := energy_now p now, pf_energy_at := now,
              pf_streak := streak, pf_longest := longest, pf_last := Some (day_of now), pf_combo := combo,
              pf_combo_at := Some now\<rparr>"
  from assms(1) have d': "d' = d\<lparr>profiles := sql_update (\<lambda>p. pf_user p = u) ?f (profiles d)\<rparr>"
    and e: "\<forall>r\<in>set (profiles d). pf_user r = u \<longrightarrow> 0 \<le> energy_now r now"
    by (auto simp: update_profile_stmt_def split: if_splits)
  show ?thesis unfolding d'
    using e assms(2-) by (intro growth_rel_profile) (auto simp: profile_ok_def growth_ok_def energy_now_def)
qed

lemma set_xp_step:
  assumes "set_xp_stmt u xp (nextLevel xp) rep d = Inr (a, d')"
  shows "growth_rel d d'"
proof -
  from assms(1) have d': "d' = d\<lparr>profiles := sql_update (\<lambda>p. pf_user p = u)
       (\<lambda>r. r\<lparr>pf_xp := xp, pf_level := nextLevel xp, pf_rep := pf_rep r + rep\<rparr>) (profiles d)\<rparr>"
    by (simp add: set_xp_stmt_def split: if_splits)
  show ?thesis unfolding d' by (intro growth_rel_profile) (auto simp: profile_ok_def growth_ok_def)
qed

lemma add_shields_step:
  assumes "add_shields_stmt u n d = Inr (a, d')" and "0 \<le> n"
  shows "growth_rel d d'"
proof -
  from assms(1) have d': "d' = d\<lparr>profiles := sql_update (\<lambda>p. pf_user p = u) (\<lambda>p. p\<lparr>pf_shields := min 3 (pf_shields p + n)\<rparr>) (profiles d)\<rparr>"
    by (simp add: add_shields_stmt_def)
  show ?thesis unfolding d' using assms(2) by (intro growth_rel_profile) (auto simp: profile_ok_def growth_ok_def)
qed

lemma h_growth_stmt:
  assumes "\<And>d a d'. f d = Inr (a, d') \<Longrightarrow> growth_rel d d'"
  shows "htriple growth_rel growth_ok (stmt f) (\<lambda>_. growth_ok)"
  by (rule grow.h_stmt) (use assms growth_ok_moves in blast)

lemma h_select_profile: "htriple growth_rel growth_ok (stmt (select_profile_stmt u)) (\<lambda>p d. the_row u p d \<and> profile_ok p)"
proof (rule grow.h_stmt)
  fix d p d'
  assume ok: "growth_ok d" and run: "select_profile_stmt u d = Inr (p, d')"
  note r = select_profile_row [OF ok run]
  from ok r(3) have "profile_ok p" by (simp add: growth_ok_def)
  with r(1,2) show "growth_rel d d' \<and> the_row u p d' \<and> profile_ok p" by (simp add: grow.stays)
qed

lemma h_set_xp: "htriple growth_rel growth_ok (stmt (set_xp_stmt u xp (nextLevel xp) rep)) (\<lambda>_. growth_ok)"
  by (rule h_growth_stmt) (rule set_xp_step)

lemma h_read_profile: "htriple growth_rel growth_ok (stmt (select_profile_stmt u)) (\<lambda>_. growth_ok)"
  by (rule grow.h_weaken [OF h_select_profile]) (auto simp: the_row_def)

lemma h_unlock_loop: "htriple growth_rel growth_ok (unlock_loop env u now as out) (\<lambda>_. growth_ok)"
proof (induction as arbitrary: out)
  case Nil
  show ?case by (simp add: grow.h_return)
next
  case (Cons a as)
  show ?case unfolding unlock_loop.simps Let_def
    by (intro grow.h_if grow.h_fail grow.h_bind [OF h_growth_stmt] grow.h_bind [OF h_read_profile] grow.h_bind [OF h_set_xp] Cons.IH)
      (rule insert_unlocked_step)
qed

lemma contained_unlock_loop: "contained (unlock_loop env u now as out)"
proof (induction as arbitrary: out)
  case (Cons a as)
  show ?case unfolding unlock_loop.simps Let_def by (intro contained_intros Cons.IH)
qed (simp add: contained_return)

lemma h_unlockAchievements:
  "htriple growth_rel growth_ok (unlockAchievements env u now action streak level) (\<lambda>_. growth_ok)"
  unfolding unlockAchievements_def
  by (intro grow.h_bind [OF h_growth_stmt] h_unlock_loop) (auto simp: new_achievements_stmt_def grow.stays)

lemma h_award_body: "htriple growth_rel growth_ok (award_body env now u action source code) (\<lambda>_. growth_ok)"
proof -
  have upd: "htriple growth_rel (the_row u p) (stmt (update_profile_stmt u xp (nextLevel xp) rep streak longest combo now)) (\<lambda>_. growth_ok)"
    if "0 \<le> streak" "streak \<le> longest" for p xp rep streak longest combo
    by (rule grow.h_stmt) (use that update_profile_step growth_ok_moves the_row_def in metis)
  have rest: "htriple growth_rel growth_ok
     (dbind (stmt (update_event_stmt u action source awarded mult)) (\<lambda>_.
      dbind (stmt (add_score_stmt code u awarded)) (\<lambda>_.
      dbind (stmt (assign_quests_stmt u P today)) (\<lambda>_.
      dbind (stmt (advance_quests_stmt u action now)) (\<lambda>_.
      dbind (dignore 0 (stmt (quest_progress_stmt u action now))) (\<lambda>progress.
      dbind (unlockAchievements env u now action streak level) (\<lambda>as.
      dbind (stmt (add_shields_stmt u (shield_award k k'))) (\<lambda>_. dreturn (r progress as))))))))) (\<lambda>_. growth_ok)"
    for awarded mult P today streak level k k' r
    by (intro grow.h_bind [OF h_growth_stmt] grow.h_bind [OF grow.h_ignore [where Q = "\<lambda>_. growth_ok"]]
          grow.h_bind [OF h_unlockAchievements] grow.h_return)
      (auto simp: quest_progress_stmt_def grow.stays shield_award_def split: if_splits
        dest: update_event_step add_score_step assign_quests_step advance_quests_step add_shields_step)
  have streak: "0 \<le> next_streak (pf_last p) today (pf_streak p)" if "profile_ok p" for p today
    using that next_streak_nonneg by (auto simp: profile_ok_def)
  show ?thesis unfolding award_body_def Let_def
    apply (rule grow.h_bind [OF h_select_profile])
    apply (rule h_assume)
     apply (unfold unlockAchievements_def)
     apply (intro contained_intros contained_unlock_loop)
    apply (fold unlockAchievements_def)
    apply (rule grow.h_bind [OF upd])
      apply (erule streak)
     apply simp
    apply (rule rest)
    done
qed

lemma h_ensureProfile: "htriple growth_rel growth_ok (ensureProfile u now) (\<lambda>_. growth_ok)"
  unfolding ensureProfile_def by (rule h_growth_stmt) (blast dest: ensure_profile_step)

lemma h_ensureSeason: "htriple growth_rel growth_ok (ensureSeason env now) (\<lambda>_. growth_ok)"
  unfolding ensureSeason_def
  by (intro grow.h_bind [OF h_growth_stmt] grow.h_return) (auto simp: grow.stays dest: ensure_season_step)

lemma stable_event: "growth_rel d d' \<Longrightarrow> growth_ok d \<Longrightarrow> k \<in> event_keys d \<Longrightarrow> k \<in> event_keys d'"
  by (auto simp: growth_rel_def)

lemma h_event_body:
  assumes "g_scan env user = Inr u"
  shows "htriple growth_rel growth_ok (event_body env now user action source)
           (\<lambda>_ d. growth_ok d \<and> (u, action, source) \<in> event_keys d)"
proof -
  let ?in = "\<lambda>d. (u, action, source) \<in> event_keys d"
  have ins: "htriple growth_rel growth_ok (stmt (insert_event_stmt u action source)) (\<lambda>_ d. growth_ok d \<and> ?in d)"
  proof (rule grow.h_stmt)
    fix d fresh d'
    assume ok: "growth_ok d" and run: "insert_event_stmt u action source d = Inr (fresh, d')"
    note i = insert_event_step [OF run]
    from i growth_ok_moves [OF i(1) ok] show "growth_rel d d' \<and> growth_ok d' \<and> ?in d'" by blast
  qed
  have award: "htriple growth_rel (\<lambda>d. growth_ok d \<and> ?in d) (award_body env now u action source code) (\<lambda>_ d. growth_ok d \<and> ?in d)" for code
    by (rule grow.h_frame [OF h_award_body]) (rule stable_event)
  have again: "htriple growth_rel (\<lambda>d. growth_ok d \<and> ?in d) (dignore no_profile (stmt (select_profile_stmt u)))
      (\<lambda>_ d. growth_ok d \<and> ?in d)"
    by (rule grow.h_ignore) (auto dest: select_profile_row(1) simp: grow.stays)
  show ?thesis unfolding event_body_def assms sum.case
    by (intro grow.h_bind [OF h_ensureProfile] grow.h_bind [OF h_ensureSeason] grow.h_if grow.h_fail grow.h_bind [OF ins] award
        grow.h_bind [OF again] grow.h_return)
qed

lemma contained_award_body: "contained (award_body env now u action source code)"
  by (rule htriple_contained [OF h_award_body])

text \<open>An event that is recorded already changes no profile.\<close>

lemma h_event_again:
  assumes "g_scan env user = Inr u"
  shows "htriple rows_kept (\<lambda>d. (u, action, source) \<in> event_keys d) (event_body env now user action source)
           (\<lambda>r _. \<not> er_applied r)"
proof -
  let ?in = "\<lambda>d. (u, action, source) \<in> event_keys d"
  have ens: "htriple rows_kept ?in (ensureProfile u now) (\<lambda>_. ?in)"
    unfolding ensureProfile_def by (rule kept.h_stmt) (auto dest: ensure_profile_step)
  have season: "htriple rows_kept ?in (ensureSeason env now) (\<lambda>_. ?in)"
  proof -
    have "htriple rows_kept ?in (stmt (\<lambda>d. Inr (g_season env now, d))) (\<lambda>_. ?in)"
      by (rule kept.h_stmt) (auto simp: kept.stays)
    moreover have "htriple rows_kept ?in (stmt (ensure_season_stmt code)) (\<lambda>_. ?in)" for code
      by (rule kept.h_stmt) (auto dest: ensure_season_step)
    ultimately show ?thesis unfolding ensureSeason_def
      by (intro kept.h_bind [where M = "\<lambda>_. ?in"] kept.h_return)
  qed
  have ins: "htriple rows_kept ?in (stmt (insert_event_stmt u action source)) (\<lambda>fresh _. \<not> fresh)"
    by (rule kept.h_stmt) (auto dest: insert_event_step)
  have sel: "htriple rows_kept P (dignore no_profile (stmt (select_profile_stmt u))) (\<lambda>_ _. True)" for P
    by (rule kept.h_ignore) (auto simp: select_profile_stmt_def kept.stays split: list.splits)
  have branch: "htriple rows_kept (\<lambda>_. \<not> fresh) (if fresh then award_body env now u action source code
      else dbind (dignore no_profile (stmt (select_profile_stmt u))) (\<lambda>p.
                   dreturn \<lparr>er_applied = False, er_xp = pf_xp p, er_granted = 0, er_mult = 0, er_level = pf_level p,
                     er_level_up = False, er_streak = pf_streak p, er_combo = pf_combo p, er_quest = 0, er_unlocked = []\<rparr>))
      (\<lambda>r _. \<not> er_applied r)" for fresh code
    by (cases fresh) (auto intro!: kept.h_unreachable h_award_body kept.h_bind [OF sel] kept.h_return)
  have guard: "htriple rows_kept ?in (if b then dfail e else m) Q"
    if "htriple rows_kept ?in m Q" for b e m and Q :: "event_result \<Rightarrow> growth_db \<Rightarrow> bool"
    using that by (simp add: kept.h_fail)
  show ?thesis unfolding event_body_def assms sum.case
    by (intro kept.h_bind [OF ens] kept.h_bind [OF season] guard kept.h_bind [OF ins] branch)
qed

lemma h_quests_body:
  "htriple growth_rel growth_ok (dbind (ensureProfile u now) (\<lambda>_. dbind (stmt (assign_quests_stmt u P day)) (\<lambda>_.
     stmt (list_quests_stmt u P day)))) (\<lambda>_. growth_ok)"
  by (intro grow.h_bind [OF h_ensureProfile] grow.h_bind [OF h_growth_stmt] h_growth_stmt)
    (auto simp: list_quests_stmt_def grow.stays dest: assign_quests_step)

lemma h_profile_body: "htriple growth_rel growth_ok (profile_body env now user) (\<lambda>_. growth_ok)"
proof -
  have reads: "htriple growth_rel growth_ok (dignore 0 (stmt (season_xp_stmt code u))) (\<lambda>_. growth_ok)"
    "htriple growth_rel growth_ok (dignore 0 (stmt (season_rank_stmt code u))) (\<lambda>_. growth_ok)" for code u
    by (rule grow.h_ignore; auto simp: season_xp_stmt_def season_rank_stmt_def Let_def grow.stays split: list.splits)+
  show ?thesis unfolding profile_body_def
    by (intro grow.h_case_sum grow.h_fail grow.h_bind [OF h_ensureProfile] grow.h_bind [OF h_ensureSeason] grow.h_bind [OF h_read_profile]
        grow.h_bind [OF reads(1)] grow.h_bind [OF reads(2)] grow.h_return)
qed

text \<open>The quest that a claim names, and the claim of it in a period.\<close>

definition active_quest :: "growth_db \<Rightarrow> uuid \<Rightarrow> quest_row option" where
  "active_quest d i = (case filter (\<lambda>q. q_id q = i \<and> q_active q) (quests d) of [] \<Rightarrow> None | q # _ \<Rightarrow> Some q)"

lemma select_quest_alt:
  "select_quest_stmt i u day d =
     Inr (case active_quest d i of None \<Rightarrow> None | Some q \<Rightarrow> Some (q, quest_state d u day q), d)"
  by (simp add: select_quest_stmt_def active_quest_def split: list.split)

lemma active_quest_in: "active_quest d i = Some q \<Longrightarrow> q \<in> set (quests d) \<and> q_id q = i"
  by (auto simp: active_quest_def dest: filter_ConsD split: list.splits)

lemma claimed_state:
  assumes "growth_ok d" and "(u, q_id q, period_start (q_cadence q) day) \<in> claimed_keys d"
  shows "snd (quest_state d u day q)"
proof -
  let ?k = "(u, q_id q, period_start (q_cadence q) day)"
  from assms(2) obtain r where r: "r \<in> set (uquests d)" "uq_claimed r" "uq_key r = ?k" by (auto simp: claimed_keys_def)
  from assms(1) have "distinct (map uq_key (uquests d))" by (simp add: growth_ok_def)
  from filter_key_unique [OF this r(1) _ r(3), of "\<lambda>_. True"] have "filter (\<lambda>r. uq_key r = ?k) (uquests d) = [r]" by simp
  with r(2) show ?thesis by (simp add: quest_state_def)
qed

lemma h_pay_quest: "htriple growth_rel growth_ok (pay_quest u q) (\<lambda>q' d. growth_ok d \<and> q' = q)"
proof -
  have read: "htriple growth_rel growth_ok (dignore no_profile (stmt (select_profile_stmt u))) (\<lambda>_. growth_ok)"
    by (rule grow.h_ignore) (auto dest: select_profile_row(1) simp: grow.stays)
  show ?thesis unfolding pay_quest_def Let_def
    by (intro grow.h_bind [OF read] grow.h_bind [OF h_set_xp] grow.h_return) simp
qed

lemma contained_pay_quest [contained_intros]: "contained (pay_quest u q)"
  by (rule htriple_contained [OF h_pay_quest])

lemma contained_claim_body: "contained (claim_body env now user i)"
  unfolding claim_body_def by (intro contained_intros)

text \<open>A claim, reduced to the statements of its branch that pays.\<close>

lemma h_claim_branch:
  assumes "g_scan env user = Inr u"
    and sel: "htriple growth_rel P (stmt (select_quest_stmt i u (day_of now))) M"
    and pay: "\<And>q n. htriple growth_rel (M (Some (q, n, False)))
      (dbind (stmt (claim_stmt u i (period_start (q_cadence q) (day_of now)) n now)) (\<lambda>_. pay_quest u q)) Q"
  shows "htriple growth_rel P (claim_body env now user i) Q"
proof -
  have "htriple growth_rel (M r) (case r of
               None \<Rightarrow> dfail (Errorf ''quest not found'')
             | Some (q, n, claimed) \<Rightarrow>
                 if claimed then dfail (Errorf ''quest already claimed'')
                 else if \<not> q_target q \<le> n then dfail (Errorf ''quest is not complete'')
                 else dbind (stmt (claim_stmt u i (period_start (q_cadence q) (day_of now)) n now)) (\<lambda>_. pay_quest u q)) Q" for r
    by (cases r) (auto intro!: grow.h_fail pay split: prod.split)
  then show ?thesis unfolding claim_body_def assms(1) sum.case by (rule grow.h_bind [OF sel])
qed

lemma h_claim_body:
  assumes "g_scan env user = Inr u"
  shows "htriple growth_rel growth_ok (claim_body env now user i)
     (\<lambda>q d. growth_ok d \<and> (active_quest d i = Some q \<and> (u, i, period_start (q_cadence q) (day_of now)) \<in> claimed_keys d))"
proof (rule h_claim_branch [OF assms])
  let ?S = "\<lambda>q d. active_quest d i = Some q \<and> (u, i, period_start (q_cadence q) (day_of now)) \<in> claimed_keys d"
  let ?M = "\<lambda>r d. growth_ok d \<and> (case r of None \<Rightarrow> True | Some (q, _) \<Rightarrow> active_quest d i = Some q)"
  show "htriple growth_rel growth_ok (stmt (select_quest_stmt i u (day_of now))) ?M"
    by (rule grow.h_stmt) (auto simp: select_quest_alt grow.stays split: option.splits)
  fix q n
  have "htriple growth_rel (\<lambda>d. growth_ok d \<and> active_quest d i = Some q)
      (stmt (claim_stmt u i (period_start (q_cadence q) (day_of now)) n now)) (\<lambda>_ d. growth_ok d \<and> ?S q d)"
  proof (rule grow.h_stmt)
    fix d a d'
    assume P: "growth_ok d \<and> active_quest d i = Some q"
      and run: "claim_stmt u i (period_start (q_cadence q) (day_of now)) n now d = Inr (a, d')"
    note c = claim_step [OF run]
    from c(1) P have "growth_ok d'" "quests d' = quests d" by (simp_all add: growth_rel_def)
    with c P show "growth_rel d d' \<and> growth_ok d' \<and> ?S q d'" by (simp add: active_quest_def)
  qed
  moreover have "?S q d'" if "growth_rel d d'" "growth_ok d" "?S q d" for d d'
    using that by (auto simp: growth_rel_def active_quest_def)
  from grow.h_weaken [OF grow.h_frame [OF h_pay_quest this]]
  have "htriple growth_rel (\<lambda>d. growth_ok d \<and> ?S q d) (pay_quest u q) (\<lambda>q' d. growth_ok d \<and> ?S q' d)" by fastforce
  ultimately have "htriple growth_rel (\<lambda>d. growth_ok d \<and> active_quest d i = Some q)
      (dbind (stmt (claim_stmt u i (period_start (q_cadence q) (day_of now)) n now)) (\<lambda>_. pay_quest u q))
      (\<lambda>q' d. growth_ok d \<and> ?S q' d)" by (rule grow.h_bind)
  then show "htriple growth_rel (?M (Some (q, n, False)))
      (dbind (stmt (claim_stmt u i (period_start (q_cadence q) (day_of now)) n now)) (\<lambda>_. pay_quest u q))
      (\<lambda>q' d. growth_ok d \<and> ?S q' d)" by simp
qed

lemma h_claim_again:
  assumes "g_scan env user = Inr u"
  shows "htriple rows_kept
     (\<lambda>d. growth_ok d \<and> active_quest d i = Some q \<and> (u, i, period_start (q_cadence q) (day_of now)) \<in> claimed_keys d)
     (claim_body env now user i) (\<lambda>_ _. False)"
proof -
  let ?P = "\<lambda>d. growth_ok d \<and> active_quest d i = Some q \<and> (u, i, period_start (q_cadence q) (day_of now)) \<in> claimed_keys d"
  have sel: "htriple rows_kept ?P (stmt (select_quest_stmt i u (day_of now))) (\<lambda>r _. True \<and> (\<exists>n. r = Some (q, n, True)))"
  proof (rule kept.h_stmt)
    fix d r d'
    assume P: "?P d" and run: "select_quest_stmt i u (day_of now) d = Inr (r, d')"
    from P active_quest_in [of d i q] have "snd (quest_state d u (day_of now) q)" by (intro claimed_state) auto
    with P run show "rows_kept d d' \<and> True \<and> (\<exists>n. r = Some (q, n, True))"
      by (cases "quest_state d u (day_of now) q") (auto simp: select_quest_alt kept.stays)
  qed
  show ?thesis unfolding claim_body_def assms sum.case
    by (rule kept.h_bind [OF sel], rule h_assume, intro contained_intros) (auto simp: kept.h_fail)
qed

section \<open>Runs\<close>

lemma moves_ganswer: "moves R P m Q \<Longrightarrow> moves R P (ganswer m code ok f) (\<lambda>_ _. True)"
  by (fastforce simp: moves_def ganswer_def split: sum.splits prod.splits)

lemma moves_True: "moves R P m Q \<Longrightarrow> moves R P m (\<lambda>_ _. True)"
  by (auto simp: moves_def)

lemma moves_repo_RecordEvent:
  "moves growth_rel growth_ok (repo_RecordEvent env now user action source) (\<lambda>_ _. True)"
proof (cases "g_scan env user")
  case (Inl e)
  then have "htriple growth_rel growth_ok (event_body env now user action source) (\<lambda>_ _. True)"
    by (simp add: event_body_def grow.h_fail)
  then show ?thesis unfolding repo_RecordEvent_def by (rule grow.moves_in_tx)
next
  case (Inr u)
  show ?thesis unfolding repo_RecordEvent_def by (rule moves_True [OF grow.moves_in_tx [OF h_event_body [OF Inr]]])
qed

lemma moves_repo_ClaimQuest: "moves growth_rel growth_ok (repo_ClaimQuest env now user quest) (\<lambda>_ _. True)"
proof (cases "g_scan env user")
  case (Inl e)
  then have "htriple growth_rel growth_ok (claim_body env now user i) (\<lambda>_ _. True)" for i
    by (simp add: claim_body_def grow.h_fail)
  then show ?thesis unfolding repo_ClaimQuest_def by (intro grow.moves_case_option grow.moves_fail grow.moves_in_tx)
next
  case (Inr u)
  show ?thesis unfolding repo_ClaimQuest_def
    by (intro grow.moves_case_option grow.moves_fail moves_True [OF grow.moves_in_tx [OF h_claim_body [OF Inr]]])
qed

lemma contained_shield_body: "contained (shield_body env now user)"
  unfolding shield_body_def ensureProfile_def profileForTx_def by (intro contained_intros)

lemma contained_boost_body: "contained (boost_body env now user cost duration)"
  unfolding boost_body_def ensureProfile_def profileForTx_def by (intro contained_intros)

lemma uncommitted_durable:
  assumes "contained body"
  shows "durable (snd (uncommitted body s)) = durable s"
proof -
  obtain x s1 where nx: "next_outcome s = (x, s1)" by fastforce
  then have s1: "durable s1 = durable s" by (auto simp: next_outcome_def split: list.splits)
  have "durable (snd (body (s1\<lparr>view := durable s1, aborted := False\<rparr>))) = durable s1"
    using assms by (simp add: contained_def)
  with nx s1 show ?thesis
    by (cases x; cases "body (s1\<lparr>view := durable s1, aborted := False\<rparr>)")
      (auto simp: uncommitted_def dbind_def begin_tx_def with_rollback_def)
qed

lemma moves_uncommitted: "contained body \<Longrightarrow> moves growth_rel P (uncommitted body) (\<lambda>_ _. True)"
  unfolding moves_def using uncommitted_durable [of body] by (metis grow.stays snd_conv)

lemma moves_handle: "moves growth_rel growth_ok (handle_growth env now uid c) (\<lambda>_ _. True)"
proof -
  have prof: "moves growth_rel growth_ok (GetProfile env now uid) (\<lambda>_ _. True)"
    unfolding GetProfile_def repo_GetProfile_def
    by (intro grow.moves_bind [OF grow.moves_in_tx [OF h_profile_body]] grow.moves_return) simp
  have referral: "moves growth_rel growth_ok (TrackSignup env a b code) (\<lambda>_ _. True)" for a b code
    unfolding TrackSignup_def CreateReferral_def
    by (auto simp: insert_referral_stmt_def event_keys_def claimed_keys_def split: sum.split if_splits
        intro!: grow.moves_autocommit grow.moves_fail growth_rel_frame)
  have quests: "moves growth_rel growth_ok (ListQuests env now uid k) (\<lambda>_ _. True)" for k
    unfolding ListQuests_def repo_ListQuests_def Let_def
    by (intro moves_True [OF grow.moves_in_tx [OF grow.h_case_sum [OF grow.h_fail h_quests_body]]])
  have reads: "moves growth_rel growth_ok (ListAchievements env uid) (\<lambda>_ _. True)"
    "moves growth_rel growth_ok (GetSeasonLeaderboard env now k) (\<lambda>_ _. True)" for k
    unfolding ListAchievements_def repo_ListAchievements_def GetSeasonLeaderboard_def repo_GetSeasonLeaderboard_def
    by (auto simp: achievements_stmt_def season_board_stmt_def Let_def grow.stays split: sum.split
        intro!: grow.moves_autocommit grow.moves_fail)
  have event: "moves growth_rel growth_ok (RecordEvent env now uid a k) (\<lambda>_ _. True)" for a k
    unfolding RecordEvent_def Let_def by (intro grow.moves_if grow.moves_fail moves_repo_RecordEvent)
  show ?thesis
    by (cases c) (auto simp: ClaimQuest_def ClaimStreakShield_def repo_ClaimStreakShield_def ActivateBoost_def repo_ActivateBoost_def
        split: option.split
        intro!: grow.moves_return moves_ganswer [OF prof] moves_ganswer [OF referral] moves_ganswer [OF quests]
          moves_ganswer [OF reads(1)] moves_ganswer [OF reads(2)] moves_ganswer [OF event] moves_ganswer [OF moves_repo_ClaimQuest]
          moves_ganswer [OF moves_uncommitted [OF contained_shield_body]] moves_ganswer [OF moves_uncommitted [OF contained_boost_body]])
qed

lemma run_growth_rel: "growth_ok (durable s) \<Longrightarrow> growth_rel (durable s) (durable (run_growth env cs s))"
proof (induction env cs s rule: run_growth.induct)
  case (1 env s)
  then show ?case by (simp add: grow.stays)
next
  case (2 env now uid outs c cs s)
  from movesD [OF moves_handle, of "s\<lparr>outcomes := outs\<rparr>" env now uid c] 2(2)
  have one: "growth_rel (durable s) (durable (snd (handle_growth env now uid c (s\<lparr>outcomes := outs\<rparr>))))" by simp
  from 2(1) growth_ok_moves [OF one 2(2)] one show ?case
    by (simp del: handle_growth.simps) (blast intro: grow.follows_on)
qed

section \<open>Experience points\<close>

text \<open>The most that one request can add: an event at four times its points with a streak of twenty days or more, every achievement, every quest.\<close>

definition most_reward :: "growth_db \<Rightarrow> int" where
  "most_reward d = 420 + sum_list (map ac_xp (achievements d)) + sum_list (map q_xp (quests d))"

definition xp_grows :: "profile list \<Rightarrow> profile list \<Rightarrow> bool" where
  "xp_grows ps ps' \<longleftrightarrow> (\<forall>p\<in>set ps. \<exists>p'\<in>set ps'. pf_user p' = pf_user p \<and> pf_xp p \<le> pf_xp p')"

text \<open>No profile has lost points since \<open>ps\<close>, and none has more than \<open>m\<close>.\<close>

definition xp_within :: "profile list \<Rightarrow> growth_db \<Rightarrow> int \<Rightarrow> growth_db \<Rightarrow> bool" where
  "xp_within ps d0 m d \<longleftrightarrow>
     growth_ok d \<and> quests d = quests d0 \<and> achievements d = achievements d0 \<and> 0 \<le> m \<and> xp_grows ps (profiles d) \<and>
     (\<forall>p\<in>set (profiles d). 0 \<le> pf_xp p \<and> pf_xp p \<le> m)"

lemma xp_within_mono: "xp_within ps d0 m d \<Longrightarrow> m \<le> n \<Longrightarrow> xp_within ps d0 n d"
  by (fastforce simp: xp_within_def)

lemma xp_within_frame:
  "xp_within ps d0 m d \<Longrightarrow> growth_rel d d' \<Longrightarrow> profiles d' = profiles d \<Longrightarrow> xp_within ps d0 m d'"
  by (simp add: xp_within_def growth_rel_def)

lemma xp_within_update:
  assumes "xp_within ps d0 m d" and "growth_rel d d'" and "m \<le> n"
    and "profiles d' = sql_update (\<lambda>p. pf_user p = u) f (profiles d)" and "\<And>p. pf_user (f p) = pf_user p"
    and "\<And>p. p \<in> set (profiles d) \<Longrightarrow> pf_user p = u \<Longrightarrow> pf_xp p \<le> pf_xp (f p) \<and> pf_xp (f p) \<le> n"
  shows "xp_within ps d0 n d'"
proof -
  have "xp_grows ps (profiles d')"
    unfolding xp_grows_def
  proof
    fix p
    assume "p \<in> set ps"
    then obtain q where q: "q \<in> set (profiles d)" "pf_user q = pf_user p" "pf_xp p \<le> pf_xp q"
      using assms(1) by (auto simp: xp_within_def xp_grows_def)
    show "\<exists>p'\<in>set (profiles d'). pf_user p' = pf_user p \<and> pf_xp p \<le> pf_xp p'"
    proof (cases "pf_user q = u")
      case True
      with q assms(4) assms(5,6) [of q] show ?thesis by (intro bexI [of _ "f q"]) (auto simp: set_sql_update)
    next
      case False
      with q assms(4) show ?thesis by (intro bexI [of _ q]) (auto simp: set_sql_update)
    qed
  qed
  moreover have "0 \<le> pf_xp p \<and> pf_xp p \<le> n" if "p \<in> set (profiles d')" for p
    using that assms(1,3,4,6) by (fastforce simp: xp_within_def set_sql_update)
  ultimately show ?thesis using assms(1-3) by (auto simp: xp_within_def growth_rel_def)
qed

lemma w_stmt:
  assumes "\<And>d a d'. growth_ok d \<Longrightarrow> f d = Inr (a, d') \<Longrightarrow> growth_rel d d' \<and> profiles d' = profiles d"
  shows "htriple growth_rel (xp_within ps d0 m) (stmt f) (\<lambda>_. xp_within ps d0 m)"
proof (rule grow.h_stmt)
  fix d a d'
  assume w: "xp_within ps d0 m d" and "f d = Inr (a, d')"
  with assms have "growth_rel d d'" "profiles d' = profiles d" by (auto simp: xp_within_def)
  with xp_within_frame [OF w] show "growth_rel d d' \<and> xp_within ps d0 m d'" by blast
qed

lemma w_ignore:
  assumes "\<And>d a d'. f d = Inr (a, d') \<Longrightarrow> d' = d"
  shows "htriple growth_rel (xp_within ps d0 m) (dignore a0 (stmt f)) (\<lambda>_. xp_within ps d0 m)"
  by (rule grow.h_ignore) (auto simp: grow.stays dest: assms)

lemma w_weaken:
  "htriple growth_rel P x (\<lambda>_. xp_within ps d0 m) \<Longrightarrow> m \<le> n \<Longrightarrow> htriple growth_rel P x (\<lambda>_. xp_within ps d0 n)"
  by (erule grow.h_weaken) (auto intro: xp_within_mono)

text \<open>The profile read by a transaction, from which the new points are computed.\<close>

definition xp_read :: "profile list \<Rightarrow> growth_db \<Rightarrow> int \<Rightarrow> uuid \<Rightarrow> profile \<Rightarrow> growth_db \<Rightarrow> bool" where
  "xp_read ps d0 m u p d \<longleftrightarrow> xp_within ps d0 m d \<and> the_row u p d \<and> 0 \<le> pf_xp p \<and> pf_xp p \<le> m"

lemma xp_sum: "0 \<le> x \<Longrightarrow> x \<le> m \<Longrightarrow> 0 \<le> n \<Longrightarrow> m + n \<le> max_int64 \<Longrightarrow> wrap64 (x + n) = x + n"
  by (rule wrap64_id) (simp add: fits64_def int_bounds)

lemma w_read:
  "htriple growth_rel (xp_within ps d0 m) (stmt (select_profile_stmt u)) (\<lambda>p d. xp_read ps d0 m u p d \<and> profile_ok p)"
proof (rule grow.h_stmt)
  fix d p d'
  assume w: "xp_within ps d0 m d" and run: "select_profile_stmt u d = Inr (p, d')"
  then have ok: "growth_ok d" by (simp add: xp_within_def)
  note r = select_profile_row [OF ok run]
  from ok r(3) have "profile_ok p" by (simp add: growth_ok_def)
  with r w show "growth_rel d d' \<and> xp_read ps d0 m u p d' \<and> profile_ok p" by (simp add: xp_read_def grow.stays xp_within_def)
qed

lemma w_set_xp:
  assumes "0 \<le> n" and "m + n \<le> max_int64"
  shows "htriple growth_rel (xp_read ps d0 m u p)
    (stmt (set_xp_stmt u (wrap64 (pf_xp p + n)) (nextLevel (wrap64 (pf_xp p + n))) rep)) (\<lambda>_. xp_within ps d0 (m + n))"
proof (rule grow.h_stmt)
  fix d a d'
  assume r: "xp_read ps d0 m u p d"
    and run: "set_xp_stmt u (wrap64 (pf_xp p + n)) (nextLevel (wrap64 (pf_xp p + n))) rep d = Inr (a, d')"
  have xp: "wrap64 (pf_xp p + n) = pf_xp p + n" using r assms by (intro xp_sum [of _ m]) (simp_all add: xp_read_def)
  from run have d': "profiles d' = sql_update (\<lambda>p. pf_user p = u)
       (\<lambda>r. r\<lparr>pf_xp := pf_xp p + n, pf_level := nextLevel (pf_xp p + n), pf_rep := pf_rep r + rep\<rparr>) (profiles d)"
    by (auto simp: set_xp_stmt_def xp split: if_splits)
  note g = set_xp_step [OF run]
  have "xp_within ps d0 (m + n) d'"
    by (rule xp_within_update [OF _ g _ d', of _ _ m]) (use r assms in \<open>auto simp: xp_read_def the_row_def\<close>)
  with g show "growth_rel d d' \<and> xp_within ps d0 (m + n) d'" ..
qed

lemma w_update_profile:
  assumes "0 \<le> n" and "m + n \<le> max_int64" and "0 \<le> streak" and "streak \<le> longest"
  shows "htriple growth_rel (xp_read ps d0 m u p)
    (stmt (update_profile_stmt u (wrap64 (pf_xp p + n)) (nextLevel (wrap64 (pf_xp p + n))) rep streak longest combo now))
    (\<lambda>_. xp_within ps d0 (m + n))"
proof (rule grow.h_stmt)
  fix d a d'
  assume r: "xp_read ps d0 m u p d"
    and run: "update_profile_stmt u (wrap64 (pf_xp p + n)) (nextLevel (wrap64 (pf_xp p + n))) rep streak longest combo now d = Inr (a, d')"
  have xp: "wrap64 (pf_xp p + n) = pf_xp p + n" using r assms by (intro xp_sum [of _ m]) (simp_all add: xp_read_def)
  from run have d': "profiles d' = sql_update (\<lambda>p. pf_user p = u)
       (\<lambda>r. r\<lparr>pf_xp := pf_xp p + n, pf_level := nextLevel (pf_xp p + n), pf_rep := rep, pf_energy := energy_now r now,
              pf_energy_at := now, pf_streak := streak, pf_longest := longest, pf_last := Some (day_of now), pf_combo := combo,
              pf_combo_at := Some now\<rparr>) (profiles d)"
    by (auto simp: update_profile_stmt_def xp split: if_splits)
  note g = update_profile_step [OF run assms(3,4)]
  have "xp_within ps d0 (m + n) d'"
    by (rule xp_within_update [OF _ g _ d', of _ _ m]) (use r assms in \<open>auto simp: xp_read_def the_row_def\<close>)
  with g show "growth_rel d d' \<and> xp_within ps d0 (m + n) d'" ..
qed

lemma w_unlock_loop:
  assumes "\<forall>a\<in>set as. 0 \<le> ac_xp a" and "m + sum_list (map ac_xp as) \<le> max_int64"
  shows "htriple growth_rel (xp_within ps d0 m) (unlock_loop env u now as out) (\<lambda>_. xp_within ps d0 (m + sum_list (map ac_xp as)))"
  using assms
proof (induction as arbitrary: m out)
  case Nil
  show ?case by (simp add: grow.h_return)
next
  case (Cons a as)
  have "0 \<le> sum_list (map ac_xp as)" by (rule sum_list_nonneg) (use Cons.prems in auto)
  with Cons.prems have a: "0 \<le> ac_xp a" "m + ac_xp a \<le> max_int64" by auto
  have rest: "htriple growth_rel (xp_within ps d0 (m + ac_xp a)) (unlock_loop env u now as out)
      (\<lambda>_. xp_within ps d0 (m + sum_list (map ac_xp (a # as))))" for out
    using Cons.IH [of "m + ac_xp a" out] Cons.prems by (simp add: add.assoc)
  have ins: "htriple growth_rel (xp_within ps d0 m) (stmt (insert_unlocked_stmt u (ac_id a) now)) (\<lambda>_. xp_within ps d0 m)"
    by (rule w_stmt, rule conjI, erule insert_unlocked_step) (auto simp: insert_unlocked_stmt_def)
  have read: "htriple growth_rel (xp_within ps d0 m) (stmt (select_profile_stmt u)) (\<lambda>p. xp_read ps d0 m u p)"
    by (rule grow.h_weaken [OF w_read]) auto
  show ?case unfolding unlock_loop.simps Let_def
    by (intro grow.h_if grow.h_fail grow.h_bind [OF ins] grow.h_bind [OF read] grow.h_bind [OF w_set_xp [OF a]] rest)
qed

lemma sum_list_filter_le: "\<forall>x\<in>set xs. 0 \<le> f x \<Longrightarrow> sum_list (map f (filter P xs)) \<le> sum_list (map (f :: _ \<Rightarrow> int) xs)"
  by (induction xs) auto

lemma w_unlockAchievements:
  assumes "m + sum_list (map ac_xp (achievements d0)) \<le> max_int64" and "\<forall>a\<in>set (achievements d0). 0 \<le> ac_xp a"
  shows "htriple growth_rel (xp_within ps d0 m) (unlockAchievements env u now action streak level)
    (\<lambda>_. xp_within ps d0 (m + sum_list (map ac_xp (achievements d0))))"
proof -
  let ?fit = "\<lambda>as. \<exists>P. as = filter P (achievements d0)"
  have sel: "htriple growth_rel (xp_within ps d0 m) (stmt (new_achievements_stmt u action streak level))
      (\<lambda>as d. xp_within ps d0 m d \<and> ?fit as)"
    by (rule grow.h_stmt) (auto simp: new_achievements_stmt_def grow.stays xp_within_def)
  have "htriple growth_rel (\<lambda>d. xp_within ps d0 m d \<and> ?fit as) (unlock_loop env u now as [])
      (\<lambda>_. xp_within ps d0 (m + sum_list (map ac_xp (achievements d0))))" for as
  proof (rule h_assume [OF contained_unlock_loop])
    assume "?fit as"
    then have le: "sum_list (map ac_xp as) \<le> sum_list (map ac_xp (achievements d0))" and "\<forall>a\<in>set as. 0 \<le> ac_xp a"
      using sum_list_filter_le [OF assms(2)] assms(2) by auto
    then show "htriple growth_rel (xp_within ps d0 m) (unlock_loop env u now as [])
      (\<lambda>_. xp_within ps d0 (m + sum_list (map ac_xp (achievements d0))))"
      using assms(1) by (intro w_weaken [OF w_unlock_loop]) auto
  qed
  then show ?thesis unfolding unlockAchievements_def by (rule grow.h_bind [OF sel])
qed

lemma award_at_most:
  "round_half_up (real_of_int (base_xp action) * event_multiplier c b now) + streak_bonus ld today k \<le> 420"
proof -
  have "base_xp action \<le> 100" by (auto simp: base_xp_def split: option.splits dest!: map_of_SomeD)
  then have "real_of_int (base_xp action) * event_multiplier c b now \<le> 100 * 4"
    using event_multiplier_bounds [of c b now] by (intro mult_mono) simp_all
  then have "round_half_up (real_of_int (base_xp action) * event_multiplier c b now) \<le> 400"
    unfolding round_half_up_def by linarith
  moreover have "streak_bonus ld today k \<le> 20" by (simp add: streak_bonus_def)
  ultimately show ?thesis by linarith
qed

lemma w_shields:
  assumes "0 \<le> k"
  shows "htriple growth_rel (xp_within ps d0 m) (stmt (add_shields_stmt u k)) (\<lambda>_. xp_within ps d0 m)"
proof (rule grow.h_stmt)
  fix d a d'
  assume w: "xp_within ps d0 m d" and run: "add_shields_stmt u k d = Inr (a, d')"
  then have d': "profiles d' = sql_update (\<lambda>p. pf_user p = u) (\<lambda>p. p\<lparr>pf_shields := min 3 (pf_shields p + k)\<rparr>) (profiles d)"
    by (auto simp: add_shields_stmt_def)
  note g = add_shields_step [OF run assms]
  have "xp_within ps d0 m d'" by (rule xp_within_update [OF w g order_refl d']) (use w in \<open>auto simp: xp_within_def\<close>)
  with g show "growth_rel d d' \<and> xp_within ps d0 m d'" ..
qed

lemma w_award_body:
  assumes "m + 420 + sum_list (map ac_xp (achievements d0)) \<le> max_int64" and rewards: "\<forall>a\<in>set (achievements d0). 0 \<le> ac_xp a"
  shows "htriple growth_rel (xp_within ps d0 m) (award_body env now u action source code)
    (\<lambda>_. xp_within ps d0 (m + 420 + sum_list (map ac_xp (achievements d0))))"
proof -
  let ?A = "sum_list (map ac_xp (achievements d0))"
  have rest: "htriple growth_rel (xp_within ps d0 n)
     (dbind (stmt (update_event_stmt u action source awarded mult)) (\<lambda>_.
      dbind (stmt (add_score_stmt code u awarded)) (\<lambda>_.
      dbind (stmt (assign_quests_stmt u P today)) (\<lambda>_.
      dbind (stmt (advance_quests_stmt u action now)) (\<lambda>_.
      dbind (dignore 0 (stmt (quest_progress_stmt u action now))) (\<lambda>progress.
      dbind (unlockAchievements env u now action streak level) (\<lambda>as.
      dbind (stmt (add_shields_stmt u (shield_award k k'))) (\<lambda>_. dreturn (r progress as))))))))) (\<lambda>_. xp_within ps d0 (n + ?A))"
    if "n + ?A \<le> max_int64" for n awarded mult P today streak level k k' r
  proof -
    have 1: "htriple growth_rel (xp_within ps d0 n) (stmt (update_event_stmt u action source awarded mult)) (\<lambda>_. xp_within ps d0 n)"
      by (rule w_stmt, rule conjI, erule update_event_step) (auto simp: update_event_stmt_def)
    have 2: "htriple growth_rel (xp_within ps d0 n) (stmt (add_score_stmt code u awarded)) (\<lambda>_. xp_within ps d0 n)"
      by (rule w_stmt, rule conjI, erule add_score_step) (auto simp: add_score_stmt_def split: if_splits)
    have 3: "htriple growth_rel (xp_within ps d0 n) (stmt (assign_quests_stmt u P today)) (\<lambda>_. xp_within ps d0 n)"
      by (rule w_stmt, rule conjI, erule assign_quests_step) (auto simp: assign_quests_stmt_def split: if_splits)
    have 4: "htriple growth_rel (xp_within ps d0 n) (stmt (advance_quests_stmt u action now)) (\<lambda>_. xp_within ps d0 n)"
      by (rule w_stmt, rule conjI, erule advance_quests_step) (auto simp: advance_quests_stmt_def)
    have 5: "htriple growth_rel (xp_within ps d0 n) (dignore 0 (stmt (quest_progress_stmt u action now))) (\<lambda>_. xp_within ps d0 n)"
      by (rule w_ignore) (simp add: quest_progress_stmt_def)
    have 6: "htriple growth_rel (xp_within ps d0 (n + ?A)) (stmt (add_shields_stmt u (shield_award k k'))) (\<lambda>_. xp_within ps d0 (n + ?A))"
      by (rule w_shields) (simp add: shield_award_def)
    show ?thesis
      by (intro grow.h_bind [OF 1] grow.h_bind [OF 2] grow.h_bind [OF 3] grow.h_bind [OF 4] grow.h_bind [OF 5]
          grow.h_bind [OF w_unlockAchievements [OF that rewards]] grow.h_bind [OF 6] grow.h_return)
  qed
  have main: "htriple growth_rel (xp_read ps d0 m u p)
     (dbind (stmt (update_profile_stmt u (wrap64 (pf_xp p + n)) (nextLevel (wrap64 (pf_xp p + n))) rep streak longest combo now)) (\<lambda>_.
      dbind (stmt (update_event_stmt u action source n mult)) (\<lambda>_.
      dbind (stmt (add_score_stmt code u n)) (\<lambda>_.
      dbind (stmt (assign_quests_stmt u P today)) (\<lambda>_.
      dbind (stmt (advance_quests_stmt u action now)) (\<lambda>_.
      dbind (dignore 0 (stmt (quest_progress_stmt u action now))) (\<lambda>progress.
      dbind (unlockAchievements env u now action streak level) (\<lambda>as.
      dbind (stmt (add_shields_stmt u (shield_award k streak))) (\<lambda>_. dreturn (r progress as)))))))))) (\<lambda>_. xp_within ps d0 (m + 420 + ?A))"
    if "0 \<le> n" "n \<le> 420" "0 \<le> streak" "streak \<le> longest" for p n rep streak longest combo mult P today level k r
  proof -
    have "0 \<le> ?A" by (rule sum_list_nonneg) (use rewards in auto)
    with that assms(1) have b: "m + n \<le> max_int64" "m + n + ?A \<le> max_int64" "m + n + ?A \<le> m + 420 + ?A" by auto
    show ?thesis
      by (rule w_weaken [OF grow.h_bind [OF w_update_profile [OF that(1) b(1) that(3,4)] rest [OF b(2)]] b(3)])
  qed
  have streak: "0 \<le> next_streak (pf_last p) today (pf_streak p)"
    and award: "0 \<le> round_half_up (real_of_int (base_xp action) * event_multiplier c b now) +
        streak_bonus (pf_last p) today (next_streak (pf_last p) today (pf_streak p))" if "profile_ok p" for p c b today
    using that award_nonneg [of "pf_streak p" action c b now "pf_last p" today] next_streak_nonneg
    by (auto simp: profile_ok_def)
  show ?thesis unfolding award_body_def Let_def
    apply (rule grow.h_bind [OF w_read])
    apply (rule h_assume)
     apply (unfold unlockAchievements_def)
     apply (intro contained_intros contained_unlock_loop)
    apply (fold unlockAchievements_def)
    apply (rule main)
       apply (erule award)
      apply (rule award_at_most)
     apply (erule streak)
    apply simp
    done
qed

lemma w_ensureProfile: "htriple growth_rel (xp_within ps d0 m) (ensureProfile u now) (\<lambda>_. xp_within ps d0 m)"
  unfolding ensureProfile_def
proof (rule grow.h_stmt)
  fix d a d'
  assume w: "xp_within ps d0 m d" and run: "ensure_profile_stmt u now d = Inr (a, d')"
  from ensure_profile_step [OF run] have g: "growth_rel d d'" by blast
  from run have "set (profiles d) \<subseteq> set (profiles d') \<and> set (profiles d') \<subseteq> insert (new_profile u now) (set (profiles d))"
    by (auto simp: ensure_profile_stmt_def sql_insert_ignore_def split: if_splits)
  moreover have "pf_xp (new_profile u now) = 0" by (simp add: new_profile_def)
  ultimately have "xp_within ps d0 m d'"
    using w g unfolding xp_within_def growth_rel_def xp_grows_def by (metis insertE order_refl subsetD)
  with g show "growth_rel d d' \<and> xp_within ps d0 m d'" ..
qed

lemma w_ensureSeason: "htriple growth_rel (xp_within ps d0 m) (ensureSeason env now) (\<lambda>_. xp_within ps d0 m)"
proof -
  have "htriple growth_rel (xp_within ps d0 m) (stmt (\<lambda>d. Inr (g_season env now, d))) (\<lambda>_. xp_within ps d0 m)"
    by (rule w_stmt) (auto simp: grow.stays)
  moreover have "htriple growth_rel (xp_within ps d0 m) (stmt (ensure_season_stmt code)) (\<lambda>_. xp_within ps d0 m)" for code
    by (rule w_stmt, rule conjI, erule ensure_season_step [THEN conjunct1]) (auto simp: ensure_season_stmt_def)
  ultimately show ?thesis unfolding ensureSeason_def
    by (intro grow.h_bind [where M = "\<lambda>_. xp_within ps d0 m"] grow.h_return)
qed

lemma w_event_body:
  assumes "m + 420 + sum_list (map ac_xp (achievements d0)) \<le> max_int64" and "\<forall>a\<in>set (achievements d0). 0 \<le> ac_xp a"
  shows "htriple growth_rel (xp_within ps d0 m) (event_body env now user action source)
    (\<lambda>_. xp_within ps d0 (m + 420 + sum_list (map ac_xp (achievements d0))))"
proof -
  have ins: "htriple growth_rel (xp_within ps d0 m) (stmt (insert_event_stmt u action source)) (\<lambda>_. xp_within ps d0 m)" for u
    by (rule w_stmt, rule conjI, erule insert_event_step(1)) (auto simp: insert_event_stmt_def Let_def split: if_splits)
  have read: "htriple growth_rel (xp_within ps d0 m) (dignore no_profile (stmt (select_profile_stmt u))) (\<lambda>_. xp_within ps d0 m)" for u
    by (rule w_ignore) (auto simp: select_profile_stmt_def split: list.splits)
  have "0 \<le> sum_list (map ac_xp (achievements d0))" by (rule sum_list_nonneg) (use assms(2) in auto)
  then have le: "m \<le> m + 420 + sum_list (map ac_xp (achievements d0))" by simp
  show ?thesis unfolding event_body_def
    by (intro grow.h_case_sum grow.h_fail grow.h_bind [OF w_ensureProfile] grow.h_bind [OF w_ensureSeason] grow.h_if
        grow.h_bind [OF ins] w_award_body assms grow.h_bind [OF read] grow.h_return xp_within_mono [OF _ le])
qed

lemma w_claim_body:
  assumes "m + sum_list (map q_xp (quests d0)) \<le> max_int64" and rewards: "\<forall>q\<in>set (quests d0). 0 \<le> q_xp q"
  shows "htriple growth_rel (xp_within ps d0 m) (claim_body env now user i)
    (\<lambda>_. xp_within ps d0 (m + sum_list (map q_xp (quests d0))))"
proof (cases "g_scan env user")
  case (Inl e)
  then show ?thesis by (simp add: claim_body_def grow.h_fail)
next
  case (Inr u)
  let ?n = "m + sum_list (map q_xp (quests d0))"
  let ?M = "\<lambda>r d. xp_within ps d0 m d \<and> (case r of None \<Rightarrow> True | Some (q, _) \<Rightarrow> q \<in> set (quests d0))"
  have sel: "htriple growth_rel (xp_within ps d0 m) (stmt (select_quest_stmt i u (day_of now))) ?M"
    by (rule grow.h_stmt)
      (auto simp: select_quest_alt grow.stays xp_within_def dest: active_quest_in split: option.splits prod.splits)
  have pay: "htriple growth_rel (?M (Some (q, n, False)))
      (dbind (stmt (claim_stmt u i (period_start (q_cadence q) (day_of now)) n now)) (\<lambda>_. pay_quest u q)) (\<lambda>_. xp_within ps d0 ?n)" for q n
    unfolding option.case prod.case
  proof (rule h_assume)
    show "contained (dbind (stmt (claim_stmt u i (period_start (q_cadence q) (day_of now)) n now)) (\<lambda>_. pay_quest u q))"
      by (intro contained_intros)
    assume q: "q \<in> set (quests d0)"
    with rewards have "q_xp q \<le> sum_list (map q_xp (quests d0))" by (intro member_le_sum_list) auto
    with assms q have b: "0 \<le> q_xp q" "m + q_xp q \<le> max_int64" "m + q_xp q \<le> ?n" by auto
    have claim: "htriple growth_rel (xp_within ps d0 m) (stmt (claim_stmt u i (period_start (q_cadence q) (day_of now)) n now))
        (\<lambda>_. xp_within ps d0 m)"
      by (rule w_stmt, rule conjI, erule claim_step(1)) (auto simp: claim_stmt_def split: if_splits)
    have read: "htriple growth_rel (xp_within ps d0 m) (dignore no_profile (stmt (select_profile_stmt u))) (\<lambda>p. xp_read ps d0 m u p)"
    proof (rule grow.h_ignore)
      fix d p d'
      assume w: "xp_within ps d0 m d" and run: "select_profile_stmt u d = Inr (p, d')"
      then have ok: "growth_ok d" by (simp add: xp_within_def)
      from w select_profile_row [OF ok run] show "growth_rel d d' \<and> xp_read ps d0 m u p d'"
        by (simp add: xp_read_def grow.stays xp_within_def)
    next
      fix d
      assume w: "xp_within ps d0 m d" and run: "select_profile_stmt u d = Inl NoRows"
      then have ok: "growth_ok d" by (simp add: xp_within_def)
      from w select_profile_none [OF run ok, of no_profile] show "xp_read ps d0 m u no_profile d"
        by (simp add: xp_read_def no_profile_def new_profile_def xp_within_def)
    qed
    have "htriple growth_rel (xp_within ps d0 m) (pay_quest u q) (\<lambda>_. xp_within ps d0 (m + q_xp q))"
      unfolding pay_quest_def Let_def by (intro grow.h_bind [OF read] grow.h_bind [OF w_set_xp [OF b(1,2)]] grow.h_return)
    from w_weaken [OF grow.h_bind [OF claim this] b(3)]
    show "htriple growth_rel (xp_within ps d0 m)
      (dbind (stmt (claim_stmt u i (period_start (q_cadence q) (day_of now)) n now)) (\<lambda>_. pay_quest u q)) (\<lambda>_. xp_within ps d0 ?n)" .
  qed
  show ?thesis by (rule h_claim_branch [OF Inr sel pay])
qed

lemma w_profile_body: "htriple growth_rel (xp_within ps d0 m) (profile_body env now user) (\<lambda>_. xp_within ps d0 m)"
proof -
  have sel: "htriple growth_rel (xp_within ps d0 m) (stmt (select_profile_stmt u)) (\<lambda>_. xp_within ps d0 m)" for u
    by (rule w_stmt) (auto simp: select_profile_stmt_def grow.stays split: list.splits)
  have 1: "htriple growth_rel (xp_within ps d0 m) (dignore 0 (stmt (season_xp_stmt code u))) (\<lambda>_. xp_within ps d0 m)" for code u
    by (rule w_ignore) (auto simp: season_xp_stmt_def split: list.splits)
  have 2: "htriple growth_rel (xp_within ps d0 m) (dignore 0 (stmt (season_rank_stmt code u))) (\<lambda>_. xp_within ps d0 m)" for code u
    by (rule w_ignore) (auto simp: season_rank_stmt_def Let_def)
  show ?thesis unfolding profile_body_def
    by (intro grow.h_case_sum grow.h_fail grow.h_bind [OF w_ensureProfile] grow.h_bind [OF w_ensureSeason] grow.h_bind [OF sel]
        grow.h_bind [OF 1] grow.h_bind [OF 2] grow.h_return)
qed

text \<open>A call after which no profile has more than \<open>n\<close> points, if none had more than \<open>m\<close> before.\<close>

definition raises :: "profile list \<Rightarrow> growth_db \<Rightarrow> int \<Rightarrow> int \<Rightarrow> (growth_db, 'a) dbm \<Rightarrow> bool" where
  "raises ps d0 m n x \<longleftrightarrow> (\<forall>s. xp_within ps d0 m (durable s) \<longrightarrow> xp_within ps d0 n (durable (snd (x s))))"

lemma raises_same: "(\<And>s. xp_within ps d0 m (durable s) \<Longrightarrow> xp_within ps d0 m (durable (snd (x s)))) \<Longrightarrow> m \<le> n \<Longrightarrow> raises ps d0 m n x"
  by (auto simp: raises_def intro: xp_within_mono)

lemma raises_tx:
  assumes "htriple growth_rel (xp_within ps d0 m) body (\<lambda>_. xp_within ps d0 k)" and "m \<le> n" and "k \<le> n"
  shows "raises ps d0 m n (in_tx wb wc body)"
  unfolding raises_def
proof (intro allI impI)
  fix s :: "growth_db session"
  assume w: "xp_within ps d0 m (durable s)"
  obtain r s' where run: "in_tx wb wc body s = (r, s')" by fastforce
  from grow.in_tx_post [OF assms(1) w run] w assms(2,3) show "xp_within ps d0 n (durable (snd (in_tx wb wc body s)))"
    by (auto simp: run intro: xp_within_mono)
qed

lemma raises_ganswer: "raises ps d0 m n x \<Longrightarrow> raises ps d0 m n (ganswer x code ok f)"
  by (fastforce simp: raises_def ganswer_def split: prod.splits sum.splits)

lemma raises_map: "raises ps d0 m n x \<Longrightarrow> raises ps d0 m n (dbind x (\<lambda>a. dreturn (g a)))"
  by (fastforce simp: raises_def dbind_def dreturn_def split: prod.splits sum.splits)

lemma raises_autocommit:
  assumes "\<And>d a d'. f d = Inr (a, d') \<Longrightarrow> growth_rel d d' \<and> profiles d' = profiles d" and "m \<le> n"
  shows "raises ps d0 m n (autocommit f)"
proof (rule raises_same [OF _ assms(2)])
  fix s :: "growth_db session"
  assume w: "xp_within ps d0 m (durable s)"
  obtain r s' where run: "autocommit f s = (r, s')" by fastforce
  from autocommit_cases(1) [OF run] have "durable s' = durable s \<or> (\<exists>a. f (durable s) = Inr (a, durable s'))" by blast
  with assms(1) xp_within_frame [OF w] w show "xp_within ps d0 m (durable (snd (autocommit f s)))" by (auto simp: run)
qed

lemma raises_stored: "(\<And>s. durable (snd (x s)) = durable s) \<Longrightarrow> m \<le> n \<Longrightarrow> raises ps d0 m n x"
  by (rule raises_same) simp_all

lemma raises_local: "m \<le> n \<Longrightarrow> raises ps d0 m n (dfail e)" "m \<le> n \<Longrightarrow> raises ps d0 m n (dreturn r)"
  by (rule raises_stored; simp add: dfail_def dreturn_def)+

lemma raises_handle:
  assumes "growth_ok d0" and fits: "m + most_reward d0 \<le> max_int64"
  shows "raises ps d0 m (m + most_reward d0) (handle_growth env now uid c)"
proof -
  let ?A = "sum_list (map ac_xp (achievements d0))" and ?Q = "sum_list (map q_xp (quests d0))"
  from assms(1) have pos: "\<forall>a\<in>set (achievements d0). 0 \<le> ac_xp a" "\<forall>q\<in>set (quests d0). 0 \<le> q_xp q" by (auto simp: growth_ok_def)
  have "0 \<le> ?A" "0 \<le> ?Q" using pos by (auto intro!: sum_list_nonneg)
  with fits have b: "m + 420 + ?A \<le> max_int64" "m + ?Q \<le> max_int64" "m \<le> m + most_reward d0"
    "m + 420 + ?A \<le> m + most_reward d0" "m + ?Q \<le> m + most_reward d0" by (simp_all add: most_reward_def)
  have prof: "raises ps d0 m (m + most_reward d0) (GetProfile env now uid)"
    unfolding GetProfile_def repo_GetProfile_def by (rule raises_map, rule raises_tx [OF w_profile_body b(3) b(3)])
  have referral: "raises ps d0 m (m + most_reward d0) (TrackSignup env x y code)" for x y code
  proof -
    have "raises ps d0 m (m + most_reward d0) (autocommit (insert_referral_stmt u v code))" for u v
      by (rule raises_autocommit [OF _ b(3)])
        (auto intro!: growth_rel_frame simp: insert_referral_stmt_def event_keys_def claimed_keys_def split: if_splits)
    then show ?thesis unfolding TrackSignup_def CreateReferral_def
      by (cases "g_scan env x"; cases "g_scan env y") (simp_all add: raises_local [OF b(3)])
  qed
  have quests: "raises ps d0 m (m + most_reward d0) (ListQuests env now uid k)" for k
  proof -
    have 1: "htriple growth_rel (xp_within ps d0 m) (stmt (assign_quests_stmt u P day)) (\<lambda>_. xp_within ps d0 m)" for u P day
      by (rule w_stmt, rule conjI, erule assign_quests_step) (auto simp: assign_quests_stmt_def split: if_splits)
    have 2: "htriple growth_rel (xp_within ps d0 m) (stmt (list_quests_stmt u P day)) (\<lambda>_. xp_within ps d0 m)" for u P day
      by (rule w_stmt) (auto simp: list_quests_stmt_def grow.stays)
    show ?thesis unfolding ListQuests_def repo_ListQuests_def Let_def
      by (rule raises_tx [OF grow.h_case_sum b(3) b(3)]) (intro grow.h_fail grow.h_bind [OF w_ensureProfile] grow.h_bind [OF 1] 2)+
  qed
  have event: "raises ps d0 m (m + most_reward d0) (RecordEvent env now uid a k)" for a k
    unfolding RecordEvent_def Let_def repo_RecordEvent_def
    by (simp add: raises_tx [OF w_event_body [OF b(1) pos(1)] b(3,4)] raises_local [OF b(3)])
  have claim: "raises ps d0 m (m + most_reward d0) (ClaimQuest env now uid k)" for k
    unfolding ClaimQuest_def repo_ClaimQuest_def
    by (cases "g_parse env k") (simp_all add: raises_tx [OF w_claim_body [OF b(2) pos(2)] b(3,5)] raises_local [OF b(3)])
  have achievements: "raises ps d0 m (m + most_reward d0) (ListAchievements env uid)"
  proof -
    have "raises ps d0 m (m + most_reward d0) (autocommit (achievements_stmt env u))" for u
      by (rule raises_autocommit [OF _ b(3)]) (auto simp: achievements_stmt_def Let_def grow.stays)
    then show ?thesis unfolding ListAchievements_def repo_ListAchievements_def
      by (cases "g_scan env uid") (simp_all add: raises_local [OF b(3)])
  qed
  have season: "raises ps d0 m (m + most_reward d0) (GetSeasonLeaderboard env now j)" for j
    unfolding GetSeasonLeaderboard_def repo_GetSeasonLeaderboard_def
    by (rule raises_autocommit [OF _ b(3)]) (auto simp: season_board_stmt_def Let_def grow.stays)
  have open_tx: "raises ps d0 m (m + most_reward d0) (ActivateBoost env now uid)"
    "raises ps d0 m (m + most_reward d0) (ClaimStreakShield env now uid)"
    unfolding ActivateBoost_def repo_ActivateBoost_def ClaimStreakShield_def repo_ClaimStreakShield_def
    by (rule raises_stored [OF _ b(3)], simp add: uncommitted_durable contained_shield_body contained_boost_body)+
  show ?thesis
    by (cases c) (auto intro!: raises_local [OF b(3)] raises_ganswer prof referral quests event claim achievements season open_tx
        split: option.split)
qed

lemma run_within:
  assumes "growth_ok d0" and "xp_within ps d0 m (durable s)" and "m + int (length cs) * most_reward d0 \<le> max_int64"
  shows "xp_grows ps (profiles (durable (run_growth env cs s)))"
  using assms(2,3)
proof (induction env cs s arbitrary: m rule: run_growth.induct)
  case (1 env s)
  then show ?case by (simp add: xp_within_def)
next
  case (2 env now uid outs c cs s)
  have pos: "0 \<le> most_reward d0"
    using assms(1) unfolding most_reward_def growth_ok_def by (intro add_nonneg_nonneg sum_list_nonneg) auto
  then have "0 \<le> int (length cs) * most_reward d0" by simp
  with 2(3) have fits: "m + most_reward d0 \<le> max_int64" by (simp add: algebra_simps)
  from raises_handle [OF assms(1) fits, of ps env now uid c] 2(2)
  have "xp_within ps d0 (m + most_reward d0) (durable (snd (handle_growth env now uid c (s\<lparr>outcomes := outs\<rparr>))))"
    by (simp add: raises_def)
  from 2(1) [OF this] 2(3) show ?case by (simp add: algebra_simps del: handle_growth.simps)
qed

section \<open>Properties\<close>

definition demo_growth :: growth_db where
  "demo_growth = \<lparr>g_users = [1, 2], profiles = [], events = [],
     quests = [\<lparr>q_id = 30, q_code = ''daily_signal'', q_action = ''post_created'', q_target = 1, q_xp = 80, q_rep = 4,
                q_cadence = ''daily'', q_active = True\<rparr>],
     uquests = [], achievements = [], unlocked = [], seasons = [], scores = [], referrals = []\<rparr>"

definition demo_growth_env :: growth_env where
  "demo_growth_env = \<lparr>g_scan = (\<lambda>s. Inr (of_nat (length s))), g_parse = (\<lambda>s. Some (of_nat (length s))),
     g_season = (\<lambda>_. ''2026-Q3''), g_round = (\<lambda>x. \<lfloor>x + 1 / 2\<rfloor>), g_collate = length, busy_rows = True\<rparr>"

definition demo_gsession :: "growth_db session" where
  "demo_gsession = \<lparr>durable = demo_growth, view = demo_growth, aborted = False, outcomes = []\<rparr>"

lemma demo_growth_ok: "growth_ok (durable demo_gsession)"
  by (simp add: growth_ok_def demo_gsession_def demo_growth_def)

lemmas demo_growth_eval = demo_gsession_def demo_growth_def demo_growth_env_def driver_defs ensureProfile_def ensureSeason_def
  ensure_profile_stmt_def ensure_season_stmt_def sql_insert_ignore_def insert_event_stmt_def

text \<open>
  C16. Over any run of progression requests, with any failures of the database calls, the level of every profile
  is the one of its experience points, its streak is at most its longest streak, its energy is between 0 and 100
  and its streak shields between 0 and 3. And the experience points of no profile ever decrease, as long as the
  requests of the run, each with the most that one can earn, cannot carry them past the end of the 64-bit range,
  where the addition wraps around.
\<close>
theorem progress_invariant:
  assumes "growth_ok (durable s)"
  shows "(\<forall>p\<in>set (profiles (durable (run_growth env cs s))).
            pf_level p = nextLevel (pf_xp p) \<and> 0 \<le> pf_streak p \<and> pf_streak p \<le> pf_longest p \<and>
            0 \<le> pf_energy p \<and> pf_energy p \<le> 100 \<and> 0 \<le> pf_shields p \<and> pf_shields p \<le> 3) \<and>
         ((\<forall>p\<in>set (profiles (durable s)).
             0 \<le> pf_xp p \<and> pf_xp p + int (length cs) * most_reward (durable s) \<le> max_int64) \<longrightarrow>
          (\<forall>p\<in>set (profiles (durable s)). \<exists>p'\<in>set (profiles (durable (run_growth env cs s))).
             pf_user p' = pf_user p \<and> pf_xp p \<le> pf_xp p'))"
proof (rule conjI)
  have "growth_ok (durable (run_growth env cs s))" by (rule growth_ok_moves [OF run_growth_rel [OF assms] assms])
  then show "\<forall>p\<in>set (profiles (durable (run_growth env cs s))).
            pf_level p = nextLevel (pf_xp p) \<and> 0 \<le> pf_streak p \<and> pf_streak p \<le> pf_longest p \<and>
            0 \<le> pf_energy p \<and> pf_energy p \<le> 100 \<and> 0 \<le> pf_shields p \<and> pf_shields p \<le> 3"
    by (simp add: growth_ok_def profile_ok_def)
  show "(\<forall>p\<in>set (profiles (durable s)).
             0 \<le> pf_xp p \<and> pf_xp p + int (length cs) * most_reward (durable s) \<le> max_int64) \<longrightarrow>
          (\<forall>p\<in>set (profiles (durable s)). \<exists>p'\<in>set (profiles (durable (run_growth env cs s))).
             pf_user p' = pf_user p \<and> pf_xp p \<le> pf_xp p')"
  proof (rule impI)
    let ?d = "durable s"
    let ?m = "max_int64 - int (length cs) * most_reward ?d"
    assume fits: "\<forall>p\<in>set (profiles ?d). 0 \<le> pf_xp p \<and> pf_xp p + int (length cs) * most_reward ?d \<le> max_int64"
    show "\<forall>p\<in>set (profiles ?d). \<exists>p'\<in>set (profiles (durable (run_growth env cs s))). pf_user p' = pf_user p \<and> pf_xp p \<le> pf_xp p'"
    proof (cases "profiles ?d")
      case (Cons q qs)
      with fits have "0 \<le> ?m" by force
      with fits assms have "xp_within (profiles ?d) ?d ?m ?d" by (fastforce simp: xp_within_def xp_grows_def)
      from run_within [OF assms this] show ?thesis by (simp add: xp_grows_def)
    qed simp
  qed
qed

text \<open>
  C15. An event is rewarded at most once: once the request for a user, an action and a source has succeeded, then
  after any run of requests under any failures, the same event again, in any spelling of its action that the
  service normalises alike, is answered as not applied and leaves the row of every profile as it is.
\<close>
theorem event_rewarded_once:
  assumes "growth_ok (durable s)" and "g_scan env user = Inr u"
    and "RecordEvent env now user action source s = (Inr r, s1)"
    and "trim_space (to_lower action') = trim_space (to_lower action)" and "trim_space source' = trim_space source"
    and "RecordEvent env now' user action' source' ((run_growth env cs s1)\<lparr>outcomes := outs\<rparr>) = (a, s3)"
  shows "set (profiles (durable (run_growth env cs s1))) \<subseteq> set (profiles (durable s3)) \<and>
         (\<forall>r'. a = Inr r' \<longrightarrow> \<not> er_applied r')"
proof -
  let ?a = "trim_space (to_lower action)" and ?s = "trim_space source"
  from assms(3) have ok: "\<not> (user = [] \<or> ?a = [] \<or> ?s = [])" "?a \<in> set allowed_actions"
    and run: "repo_RecordEvent env now user ?a ?s s = (Inr r, s1)"
    by (auto simp: RecordEvent_def dfail_def Let_def split: if_splits)
  from moves_answer [OF grow.moves_in_tx [OF h_event_body [OF assms(2)]] assms(1) run [unfolded repo_RecordEvent_def]]
  have s1: "growth_ok (durable s1)" "(u, ?a, ?s) \<in> event_keys (durable s1)" by auto
  from run_growth_rel [OF s1(1), of env cs] s1 have in2: "(u, ?a, ?s) \<in> event_keys (durable (run_growth env cs s1))"
    by (auto simp: growth_rel_def)
  from assms(6) ok have again: "in_tx id id (event_body env now' user ?a ?s) ((run_growth env cs s1)\<lparr>outcomes := outs\<rparr>) = (a, s3)"
    by (simp add: RecordEvent_def Let_def assms(4,5) repo_RecordEvent_def)
  show ?thesis
    using kept.moves_in_tx [OF h_event_again [OF assms(2)], unfolded moves_def, rule_format, OF again] in2
    by (simp add: rows_kept_def)
qed

text \<open>
  A quest is claimed at most once in a period: after a successful claim and any run of requests under any
  failures, another claim of the same quest within the period fails and leaves the row of every profile as it is. This
  rests on transactions that do not overlap: the claim is read without a lock and set without a test.
\<close>
theorem quest_claimed_once:
  assumes "growth_ok (durable s)" and "g_scan env user = Inr u"
    and "ClaimQuest env now user quest s = (Inr q, s1)"
    and "period_start (q_cadence q) (day_of now') = period_start (q_cadence q) (day_of now)"
    and "ClaimQuest env now' user quest ((run_growth env cs s1)\<lparr>outcomes := outs\<rparr>) = (a, s3)"
  shows "\<not> is_ok a \<and> set (profiles (durable (run_growth env cs s1))) \<subseteq> set (profiles (durable s3))"
proof -
  from assms(3) obtain i where i: "g_parse env quest = Some i" and run: "in_tx id id (claim_body env now user i) s = (Inr q, s1)"
    by (auto simp: ClaimQuest_def repo_ClaimQuest_def dfail_def split: option.splits)
  from moves_answer [OF grow.moves_in_tx [OF h_claim_body [OF assms(2)]] assms(1) run]
  have s1: "growth_ok (durable s1)" "active_quest (durable s1) i = Some q"
    "(u, i, period_start (q_cadence q) (day_of now)) \<in> claimed_keys (durable s1)" by auto
  from run_growth_rel [OF s1(1), of env cs] s1
  have s2: "growth_ok (durable (run_growth env cs s1)) \<and> active_quest (durable (run_growth env cs s1)) i = Some q \<and>
    (u, i, period_start (q_cadence q) (day_of now')) \<in> claimed_keys (durable (run_growth env cs s1))"
    by (auto simp: growth_rel_def active_quest_def assms(4))
  from assms(5) i have again: "in_tx id id (claim_body env now' user i) ((run_growth env cs s1)\<lparr>outcomes := outs\<rparr>) = (a, s3)"
    by (simp add: ClaimQuest_def repo_ClaimQuest_def)
  show ?thesis
    using kept.moves_in_tx [OF h_claim_again [OF assms(2)], unfolded moves_def, rule_format, OF again] s2
    by (simp add: rows_kept_def is_ok_iff)
qed

lemma demo_lower:
  "to_lower ''post_created'' = ''post_created''"
  by (rule to_lower_id) simp

lemma demo_actions:
  "trim_space (to_lower ''post_created'') = ''post_created''"
  "trim_space ''p1'' = ''p1''"
  unfolding demo_lower by (simp_all add: trim_space_plain plain_byte_def)

lemma demo_base_xp: "base_xp ''post_created'' = 50"
  by (simp add: base_xp_def)

lemma award_ok:
  assumes "outcomes s = []" "\<not> aborted s" "filter (\<lambda>p. pf_user p = u) (profiles (view s)) = p # ps"
    "u \<in> set (g_users (view s))" "code \<in> set (seasons (view s))" "achievements (view s) = []" "scores (view s) = []"
    "\<forall>p\<in>set (profiles (view s)). 0 \<le> energy_now p now"
  shows "\<exists>r s'. award_body env now u action source code s = (Inr r, s') \<and> outcomes s' = [] \<and> \<not> aborted s'"
proof -
  have e: "\<not> (\<exists>p\<in>set (profiles (view s)). pf_user p = u \<and> energy_now p now < 0)" using assms(8) by auto
  show ?thesis
  using assms(1-7) e
  by (simp add: award_body_def Let_def dbind_def stmt_fine select_profile_stmt_def update_profile_stmt_def update_event_stmt_def
    add_score_stmt_def assign_quests_stmt_def advance_quests_stmt_def quest_progress_stmt_def unlockAchievements_def
    new_achievements_stmt_def add_shields_stmt_def dignore_def dreturn_def)
qed

lemma demo_event_ok: "is_ok (fst (RecordEvent demo_growth_env day_ns ''a'' ''post_created'' ''p1'' demo_gsession))"
proof -
  let ?d = "demo_growth\<lparr>profiles := [new_profile 1 day_ns], seasons := [''2026-Q3''],
      events := [\<lparr>ev_user = 1, ev_action = ''post_created'', ev_source = ''p1'', ev_xp = 0, ev_mult = 1\<rparr>]\<rparr>"
  let ?s = "demo_gsession\<lparr>view := ?d\<rparr>"
  have "\<exists>r s'. award_body demo_growth_env day_ns 1 ''post_created'' ''p1'' ''2026-Q3'' ?s = (Inr r, s') \<and> outcomes s' = [] \<and> \<not> aborted s'"
    by (rule award_ok) (simp_all add: demo_gsession_def demo_growth_def new_profile_def energy_now_def)
  then obtain r s' where a: "award_body demo_growth_env day_ns 1 ''post_created'' ''p1'' ''2026-Q3'' ?s = (Inr r, s')" "outcomes s' = []" "\<not> aborted s'"
    by blast
  have "event_body demo_growth_env day_ns ''a'' ''post_created'' ''p1'' demo_gsession =
    award_body demo_growth_env day_ns 1 ''post_created'' ''p1'' ''2026-Q3'' ?s"
    unfolding event_body_def demo_base_xp
    by (simp add: dbind_def stmt_fine ensureProfile_def ensureSeason_def ensure_profile_stmt_def ensure_season_stmt_def dreturn_def
      sql_insert_ignore_def insert_event_stmt_def demo_gsession_def demo_growth_def demo_growth_env_def)
  also note a(1)
  finally have "event_body demo_growth_env day_ns ''a'' ''post_created'' ''p1'' demo_gsession = (Inr r, s')" .
  moreover have "demo_gsession\<lparr>view := durable demo_gsession, aborted := False\<rparr> = demo_gsession" by (simp add: demo_gsession_def)
  ultimately have "fst (in_tx id id (event_body demo_growth_env day_ns ''a'' ''post_created'' ''p1'') demo_gsession) = Inr r"
    using a(2,3) by (intro in_tx_fine) (simp_all only:, simp add: demo_gsession_def)
  then show ?thesis
    by (simp only: RecordEvent_def demo_actions Let_def repo_RecordEvent_def) (simp add: allowed_actions_def)
qed
theorem event_rewarded_once_witness:
  "\<exists>r s1 a s3. RecordEvent demo_growth_env day_ns ''a'' ''post_created'' ''p1'' demo_gsession = (Inr r, s1) \<and>
     RecordEvent demo_growth_env (2 * day_ns) ''a'' ''post_created'' ''p1''
       ((run_growth demo_growth_env [(day_ns, ''a'', [], ShieldReq)] s1)\<lparr>outcomes := []\<rparr>) = (a, s3) \<and>
     (\<forall>r'. a = Inr r' \<longrightarrow> \<not> er_applied r')"
proof -
  from demo_event_ok obtain r s1 where run: "RecordEvent demo_growth_env day_ns ''a'' ''post_created'' ''p1'' demo_gsession = (Inr r, s1)"
    by (metis is_ok_iff prod.collapse)
  obtain a s3 where again: "RecordEvent demo_growth_env (2 * day_ns) ''a'' ''post_created'' ''p1''
       ((run_growth demo_growth_env [(day_ns, ''a'', [], ShieldReq)] s1)\<lparr>outcomes := []\<rparr>) = (a, s3)" by fastforce
  have "g_scan demo_growth_env ''a'' = Inr 1" by (simp add: demo_growth_env_def)
  moreover have "trim_space (to_lower ''post_created'') = trim_space (to_lower ''post_created'')" by (simp only: demo_actions)
  ultimately show ?thesis using event_rewarded_once [OF demo_growth_ok _ run _ refl again] again run by blast
qed

definition demo_claim :: "growth_db session" where
  "demo_claim =
     (let d = demo_growth\<lparr>profiles := [new_profile 1 0],
            uquests := [\<lparr>uq_user = 1, uq_quest = 30, uq_start = 1, uq_progress = 1, uq_claimed = False, uq_done = Some 5\<rparr>]\<rparr>
      in \<lparr>durable = d, view = d, aborted = False, outcomes = []\<rparr>)"

lemma demo_claim_ok: "growth_ok (durable demo_claim)"
  by (simp add: growth_ok_def demo_claim_def demo_growth_def Let_def)

lemma demo_claim_done:
  "fst (ClaimQuest demo_growth_env day_ns ''a'' (replicate 30 CHR ''q'') demo_claim) = Inr (hd (quests demo_growth))"
  by (simp add: ClaimQuest_def repo_ClaimQuest_def claim_body_def select_quest_stmt_def quest_state_def uq_key_def period_start_def
      day_of_def day_ns_def claim_stmt_def sql_upsert_def select_profile_stmt_def set_xp_stmt_def demo_claim_def Let_def
      new_profile_def demo_growth_eval pay_quest_def fits64_def int_bounds)

theorem progress_invariant_witness:
  "list_all (\<lambda>p. pf_level p = nextLevel (pf_xp p)) (profiles (durable (run_growth demo_growth_env
       [(day_ns, ''a'', [], ClaimReq (replicate 30 CHR ''q'')), (day_ns, ''a'', [], EventReq (Some (''post_created'', ''p1'')))] demo_claim))) \<and>
   list_ex (\<lambda>p. pf_user p = 1 \<and> 0 \<le> pf_xp p) (profiles (durable (run_growth demo_growth_env
       [(day_ns, ''a'', [], ClaimReq (replicate 30 CHR ''q'')), (day_ns, ''a'', [], EventReq (Some (''post_created'', ''p1'')))] demo_claim)))"
proof -
  let ?cs = "[(day_ns, ''a'', [] :: outcome list, ClaimReq (replicate 30 CHR ''q'')), (day_ns, ''a'', [], EventReq (Some (''post_created'', ''p1'')))]"
  have "\<forall>p\<in>set (profiles (durable demo_claim)).
      0 \<le> pf_xp p \<and> pf_xp p + int (length ?cs) * most_reward (durable demo_claim) \<le> max_int64"
    by (simp add: demo_claim_def demo_growth_def Let_def new_profile_def most_reward_def int_bounds)
  moreover have "new_profile 1 0 \<in> set (profiles (durable demo_claim))" "pf_user (new_profile 1 0) = 1" "pf_xp (new_profile 1 0) = 0"
    by (simp_all add: demo_claim_def Let_def new_profile_def)
  ultimately show ?thesis
    using progress_invariant [OF demo_claim_ok, of demo_growth_env ?cs] unfolding list_all_iff list_ex_iff by metis
qed

theorem quest_claimed_once_witness:
  "\<exists>s1. ClaimQuest demo_growth_env day_ns ''a'' (replicate 30 CHR ''q'') demo_claim = (Inr (hd (quests demo_growth)), s1) \<and>
     \<not> is_ok (fst (ClaimQuest demo_growth_env (day_ns + 1) ''a'' (replicate 30 CHR ''q'') (s1\<lparr>outcomes := []\<rparr>)))"
proof -
  from demo_claim_done obtain s1 where
    run: "ClaimQuest demo_growth_env day_ns ''a'' (replicate 30 CHR ''q'') demo_claim = (Inr (hd (quests demo_growth)), s1)"
    by (metis prod.collapse)
  obtain a s3 where again: "ClaimQuest demo_growth_env (day_ns + 1) ''a'' (replicate 30 CHR ''q'')
      ((run_growth demo_growth_env [] s1)\<lparr>outcomes := []\<rparr>) = (a, s3)" by fastforce
  have "g_scan demo_growth_env ''a'' = Inr 1" by (simp add: demo_growth_env_def)
  moreover have "day_of (day_ns + 1) = day_of day_ns" by (simp add: day_of_def day_ns_def)
  ultimately have "\<not> is_ok a" using quest_claimed_once [OF demo_claim_ok _ run _ again] by simp
  with run again show ?thesis by simp
qed

lemma level_square:
  assumes "1 \<le> l" and "l \<le> 303700049"
  shows "wrap64 (wrap64 (l * l) * 100) = l * l * 100"
proof -
  from assms have "l * l \<le> 303700049 * 303700049" by (intro mult_mono) simp_all
  moreover have "0 \<le> l * l" by simp
  ultimately have "fits64 (l * l)" "fits64 (l * l * 100)" unfolding fits64_def int_bounds by linarith+
  then show ?thesis by simp
qed

text \<open>
  The level curve: a level above \<open>l\<close> is reached exactly from \<open>100 l^2\<close> experience points on, which is what the
  profile announces as the points of its next level; the functions of the repository and of the service agree.
\<close>
theorem level_thresholds:
  assumes "1 \<le> l" and "l \<le> 303700049"
  shows "(l < nextLevel xp \<longleftrightarrow> nextLevelXP l \<le> xp) \<and> LevelForXP xp = nextLevel xp \<and> NextLevelXP l = nextLevelXP l"
proof -
  have "l < nextLevel xp \<longleftrightarrow> l * l * 100 \<le> xp"
  proof (cases "xp \<le> 0")
    case True
    from assms have "0 < l * l" by simp
    with True have "\<not> l * l * 100 \<le> xp" by linarith
    with True assms show ?thesis by (simp add: nextLevel_def)
  next
    case False
    have "l < nextLevel xp \<longleftrightarrow> l \<le> \<lfloor>sqrt (real_of_int xp / 100)\<rfloor>"
      using False by (simp add: nextLevel_def zle_add1_eq_le)
    also have "\<dots> \<longleftrightarrow> real_of_int l \<le> sqrt (real_of_int xp / 100)" by (rule le_floor_iff)
    also have "\<dots> \<longleftrightarrow> (real_of_int l)\<^sup>2 \<le> real_of_int xp / 100"
      using assms sqrt_ge_absD [of "real_of_int l" "real_of_int xp / 100"] by (intro iffI real_le_rsqrt) simp_all
    also have "\<dots> \<longleftrightarrow> real_of_int (l * l * 100) \<le> real_of_int xp"
      by (simp add: power2_eq_square field_simps)
    finally show ?thesis by (simp only: of_int_le_iff)
  qed
  with assms show ?thesis by (simp add: nextLevelXP_def NextLevelXP_def LevelForXP_def nextLevel_def Let_def level_square)
qed

text \<open>The levels of the test of the repository.\<close>

theorem level_thresholds_witness:
  "map LevelForXP [0, 99, 100, 399, 400, 2500] = [1, 1, 2, 2, 3, 6]"
proof -
  have lv: "LevelForXP xp = l + 1" if "1 \<le> l" "l \<le> 1000" "l * l * 100 \<le> xp" "xp < (l + 1) * (l + 1) * 100" for l xp
  proof -
    have "l < nextLevel xp" using that level_thresholds [of l xp] by (simp add: nextLevelXP_def level_square)
    moreover have "\<not> l + 1 < nextLevel xp" using that level_thresholds [of "l + 1" xp] by (simp add: nextLevelXP_def Let_def level_square)
    ultimately show ?thesis using level_thresholds [of l xp] that(1,2) by linarith
  qed
  have "LevelForXP 99 = 1"
    using level_thresholds [of 1 99] nextLevel_pos [of 99] by (simp add: nextLevelXP_def level_square [of 1, simplified])
  then show ?thesis using lv [of 1 100] lv [of 1 399] lv [of 2 400] lv [of 5 2500] by (simp add: LevelForXP_def)
qed

text \<open>The streak after activity on the days \<open>ds\<close>, in the order of the events.\<close>

definition streak_after :: "int list \<Rightarrow> int option \<times> int" where
  "streak_after ds = foldl (\<lambda>(l, k) d. (Some d, next_streak l d k)) (None, 0) ds"

lemma streak_after_snoc:
  "streak_after (ds @ [d]) = (Some d, next_streak (fst (streak_after ds)) d (snd (streak_after ds)))"
  by (simp add: streak_after_def split: prod.split)

lemma streak_after_last: "ds \<noteq> [] \<Longrightarrow> fst (streak_after ds) = Some (last ds)"
  by (cases ds rule: rev_cases) (simp_all add: streak_after_snoc)

text \<open>
  C39. The streak counts days: after events on the days \<open>ds\<close>, in the order of time, it is the number of consecutive
  days with activity that end at the last of them; several events of a day count once.
\<close>
theorem streak_counts_days:
  assumes "sorted ds" and "ds \<noteq> []"
  shows "0 < snd (streak_after ds) \<and>
         (\<forall>j. 0 \<le> j \<and> j < snd (streak_after ds) \<longrightarrow> last ds - j \<in> set ds) \<and>
         last ds - snd (streak_after ds) \<notin> set ds"
  using assms
proof (induction ds rule: rev_induct)
  case (snoc d ds)
  show ?case
  proof (cases "ds = []")
    case True
    then show ?thesis by (simp add: streak_after_def next_streak_def)
  next
    case False
    let ?l = "last ds" and ?k = "snd (streak_after ds)"
    from snoc.prems(1) have s: "sorted ds" and up: "\<forall>x\<in>set ds. x \<le> d" by (auto simp: sorted_append)
    with snoc.IH False have ih: "0 < ?k" "\<And>j. 0 \<le> j \<Longrightarrow> j < ?k \<Longrightarrow> ?l - j \<in> set ds" "?l - ?k \<notin> set ds" by auto
    from s False have top: "\<forall>x\<in>set ds. x \<le> ?l" by (cases ds rule: rev_cases) (auto simp: sorted_append)
    have "?l \<le> d" using up False by simp
    then consider "d = ?l" | "d - ?l = 1" | "1 < d - ?l" by linarith
    then show ?thesis
    proof cases
      case 1
      with ih show ?thesis
        by (auto simp: streak_after_snoc streak_after_last [OF False] next_streak_def)
    next
      case 2
      then have k: "snd (streak_after (ds @ [d])) = ?k + 1"
        by (simp add: streak_after_snoc streak_after_last [OF False] next_streak_def)
      have "d - j \<in> set (ds @ [d])" if "0 \<le> j" "j < ?k + 1" for j
      proof (cases "j = 0")
        case False
        with that ih(2) [of "j - 1"] have "?l - (j - 1) \<in> set ds" by simp
        with 2 show ?thesis by (simp add: algebra_simps)
      qed simp
      moreover from 2 ih(1,3) have "d - (?k + 1) \<notin> set (ds @ [d])" by (simp add: algebra_simps)
      ultimately show ?thesis using ih(1) by (simp add: k)
    next
      case 3
      then have k: "snd (streak_after (ds @ [d])) = 1"
        by (simp add: streak_after_snoc streak_after_last [OF False] next_streak_def)
      from 3 top have "d - 1 \<notin> set ds" by force
      then show ?thesis by (auto simp: k)
    qed
  qed
qed simp

theorem streak_counts_days_witness: "snd (streak_after [1, 4, 5, 5, 6]) = 3 \<and> 6 - snd (streak_after [1, 4, 5, 5, 6]) \<notin> set [1, 4, 5, 5, 6]"
  using streak_counts_days [of "[1, 4, 5, 5, 6]"] by (simp add: streak_after_def next_streak_def)

section \<open>Divergences\<close>

text \<open>Using a streak shield and activating a boost never change the database, also when they are answered as done.\<close>

lemma shield_and_boost_not_stored:
  "durable (snd (ClaimStreakShield env now user s)) = durable s"
  "durable (snd (ActivateBoost env now user s)) = durable s"
  by (simp_all add: ClaimStreakShield_def repo_ClaimStreakShield_def ActivateBoost_def repo_ActivateBoost_def
      uncommitted_durable contained_shield_body contained_boost_body)

text \<open>
  When the connection accepts no command while rows are open, an event that reaches the threshold of an achievement
  fails as a whole, and with it every later event of the same action.
\<close>

lemma reached_achievement_fails:
  assumes "busy_rows env" and "outcomes s = []" and "\<not> aborted s"
    and "new_achievements_stmt u action streak level (view s) = Inr (a # as, view s)"
  shows "fst (unlockAchievements env u now action streak level s) = Inl (Errorf ''conn busy'')"
  using assms(1) stmt_fine [where f = "new_achievements_stmt u action streak level", OF assms(2-4)] by (simp add: unlockAchievements_def dbind_def dfail_def)

end
