(* ===== verification/Social.thy ===== *)
theory Social
  imports Complex_Main Database LruCache RateLimit "HOL-Library.Product_Lexorder"
begin

text \<open>
  The social graph: \<open>modules/social/infra/postgres_repository.go\<close>, \<open>modules/social/service/social_service.go\<close>, the HTTP
  handlers and the queries of \<open>database/db\<close> that they call, with the \<open>veritasContentGuard\<close> of \<open>RateLimit\<close> and the two
  LRU caches of \<open>LruCache\<close>. The parsing and printing of identifiers, the matching of \<open>ILIKE\<close>, the collation order
  and the HTML sanitiser are parameters. The tables are those of \<open>schema.sql\<close> and of the social migrations.
\<close>

type_synonym uuid = "128 word"

section \<open>Tables\<close>

record user_row =
  us_id :: uuid
  us_username :: string
  us_display :: "string option"
  us_bio :: "string option"
  us_avatar :: "string option"
  us_verified :: bool
  us_private :: "bool option"
  us_created :: int

record follow_row =
  fo_follower :: uuid
  fo_following :: uuid
  fo_status :: string

record request_row =
  rq_follower :: uuid
  rq_following :: uuid
  rq_status :: string
  rq_created :: int

record circle_row =
  ci_id :: uuid
  ci_owner :: uuid
  ci_name :: string
  ci_created :: int
  ci_updated :: int

record report_row =
  rp_reporter :: uuid
  rp_target :: uuid
  rp_type :: string
  rp_reason :: string

record edge_row =
  ed_source :: uuid
  ed_target :: uuid
  ed_weight :: real
  ed_count :: int
  ed_last :: int
  ed_type :: string

record social_db =
  susers :: "user_row list"
  follows :: "follow_row list"
  blocks :: "(uuid \<times> uuid) list"
  requests :: "request_row list"
  circles :: "circle_row list"
  members :: "(uuid \<times> uuid) list"
  reports :: "report_row list"
  edges :: "edge_row list"

record social_env =
  so_scan :: "string \<Rightarrow> uuid res"
  so_show :: "uuid \<Rightarrow> string"
  so_ilike :: "string \<Rightarrow> string \<Rightarrow> bool"
  so_collate :: "string \<Rightarrow> nat"
  so_strip :: "string \<Rightarrow> string"
  so_export :: "string \<Rightarrow> user_row option res"

text \<open>The instant and the identifier generated by the database for a request.\<close>

record social_input =
  so_now :: int
  so_new_id :: uuid

section \<open>Statements\<close>

definition user_exists :: "social_db \<Rightarrow> uuid \<Rightarrow> bool" where
  "user_exists d u \<longleftrightarrow> u \<in> us_id ` set (susers d)"

definition blocked_pair :: "social_db \<Rightarrow> uuid \<Rightarrow> uuid \<Rightarrow> bool" where
  "blocked_pair d a b \<longleftrightarrow> (a, b) \<in> set (blocks d) \<or> (b, a) \<in> set (blocks d)"

definition accepted :: "social_db \<Rightarrow> uuid \<Rightarrow> uuid \<Rightarrow> bool" where
  "accepted d a b \<longleftrightarrow> (\<exists>f\<in>set (follows d). fo_follower f = a \<and> fo_following f = b \<and> fo_status f = ''accepted'')"

definition is_private :: "user_row \<Rightarrow> bool" where
  "is_private u \<longleftrightarrow> us_private u = Some True"

definition can_view_stmt :: "uuid \<Rightarrow> uuid \<Rightarrow> (social_db, bool) sql" where
  "can_view_stmt target viewer d =
     Inr (\<exists>u\<in>set (susers d). us_id u = target \<and> (us_id u = viewer \<or> \<not> is_private u \<or> accepted d viewer target) \<and>
            \<not> blocked_pair d viewer target, d)"

definition fo_key :: "follow_row \<Rightarrow> uuid \<times> uuid" where
  "fo_key f = (fo_follower f, fo_following f)"

text \<open>The result is the number of affected rows.\<close>

definition follow_stmt :: "uuid \<Rightarrow> uuid \<Rightarrow> (social_db, nat) sql" where
  "follow_stmt a b d =
     (if user_exists d b \<and> \<not> blocked_pair d a b
      then if \<not> user_exists d a then Inl (Constraint ''foreign_key_violation'')
           else Inr (1, d\<lparr>follows := sql_upsert fo_key \<lparr>fo_follower = a, fo_following = b, fo_status = ''accepted''\<rparr>
                          (\<lambda>f. f\<lparr>fo_status := ''accepted''\<rparr>) (follows d)\<rparr>)
      else Inr (0, d))"

definition unfollow_stmt :: "uuid \<Rightarrow> uuid \<Rightarrow> (social_db, unit) sql" where
  "unfollow_stmt a b d = Inr ((), d\<lparr>follows := sql_delete (\<lambda>f. fo_key f = (a, b)) (follows d)\<rparr>)"

definition private_stmt :: "uuid \<Rightarrow> (social_db, bool) sql" where
  "private_stmt u d =
     (case filter (\<lambda>r. us_id r = u) (susers d) of [] \<Rightarrow> Inl NoRows | r # _ \<Rightarrow> Inr (is_private r, d))"

definition followers_stmt :: "uuid \<Rightarrow> (social_db, user_row list) sql" where
  "followers_stmt u d =
     Inr (concat (map (\<lambda>f. filter (\<lambda>r. us_id r = fo_follower f) (susers d)) (filter (\<lambda>f. fo_following f = u) (follows d))), d)"

definition following_stmt :: "uuid \<Rightarrow> (social_db, user_row list) sql" where
  "following_stmt u d =
     Inr (concat (map (\<lambda>f. filter (\<lambda>r. us_id r = fo_following f) (susers d)) (filter (\<lambda>f. fo_follower f = u) (follows d))), d)"

definition mutuals_stmt :: "(string \<Rightarrow> nat) \<Rightarrow> uuid \<Rightarrow> uuid \<Rightarrow> (social_db, user_row list) sql" where
  "mutuals_stmt collate a b d =
     Inr (sort_key (\<lambda>u. collate (us_username u))
           (filter (\<lambda>u. accepted d a (us_id u) \<and> accepted d b (us_id u) \<and>
                        \<not> blocked_pair d a (us_id u) \<and> \<not> blocked_pair d b (us_id u)) (susers d)), d)"

text \<open>\<open>BlockUserAtomically\<close>: one statement, so both its parts or none.\<close>

definition block_stmt :: "uuid \<Rightarrow> uuid \<Rightarrow> int \<Rightarrow> (social_db, unit) sql" where
  "block_stmt a b now d =
     (if \<not> user_exists d a \<or> \<not> user_exists d b then Inl (Constraint ''foreign_key_violation'')
      else Inr ((), d\<lparr>follows := sql_delete (\<lambda>f. fo_key f = (a, b) \<or> fo_key f = (b, a)) (follows d),
             edges := sql_upsert (\<lambda>e. (ed_source e, ed_target e))
               \<lparr>ed_source = a, ed_target = b, ed_weight = 0, ed_count = 0, ed_last = now, ed_type = ''blocked''\<rparr>
               (\<lambda>e. e\<lparr>ed_weight := 0, ed_type := ''blocked'', ed_last := now\<rparr>) (edges d)\<rparr>))"

definition unblock_stmt :: "uuid \<Rightarrow> uuid \<Rightarrow> (social_db, unit) sql" where
  "unblock_stmt a b d = Inr ((), d\<lparr>blocks := sql_delete (\<lambda>p. p = (a, b)) (blocks d)\<rparr>)"

definition is_blocked_stmt :: "uuid \<Rightarrow> uuid \<Rightarrow> (social_db, bool) sql" where
  "is_blocked_stmt a b d = Inr ((a, b) \<in> set (blocks d), d)"

definition send_request_stmt :: "uuid \<Rightarrow> uuid \<Rightarrow> int \<Rightarrow> (social_db, unit) sql" where
  "send_request_stmt a b now d =
     (if \<not> user_exists d a \<or> \<not> user_exists d b then Inl (Constraint ''foreign_key_violation'')
      else Inr ((), d\<lparr>requests := sql_upsert (\<lambda>r. (rq_follower r, rq_following r))
             \<lparr>rq_follower = a, rq_following = b, rq_status = ''pending'', rq_created = now\<rparr>
             (\<lambda>r. r\<lparr>rq_status := ''pending'', rq_created := now\<rparr>) (requests d)\<rparr>))"

definition respond_guard :: "social_db \<Rightarrow> uuid \<Rightarrow> uuid \<Rightarrow> request_row \<Rightarrow> bool" where
  "respond_guard d a b r \<longleftrightarrow>
     rq_follower r = a \<and> rq_following r = b \<and> rq_status r = ''pending'' \<and> \<not> blocked_pair d a b"

definition respond_stmt :: "uuid \<Rightarrow> uuid \<Rightarrow> string \<Rightarrow> (social_db, nat) sql" where
  "respond_stmt a b status d =
     Inr (length (filter (respond_guard d a b) (requests d)),
          d\<lparr>requests := sql_update (respond_guard d a b) (\<lambda>r. r\<lparr>rq_status := status\<rparr>) (requests d)\<rparr>)"

definition list_requests_stmt :: "uuid \<Rightarrow> (social_db, request_row list) sql" where
  "list_requests_stmt u d =
     Inr (sort_key (\<lambda>r. - rq_created r)
           (filter (\<lambda>r. rq_following r = u \<and> rq_status r = ''pending'' \<and> user_exists d (rq_follower r)) (requests d)), d)"

text \<open>The rank of a suggestion: the accepted or pending follows of \<open>u\<close> by accounts that \<open>me\<close> follows.\<close>

definition common_count :: "social_db \<Rightarrow> uuid \<Rightarrow> uuid \<Rightarrow> nat" where
  "common_count d me u =
     length (filter (\<lambda>(f1, f2). fo_follower f1 = fo_following f2 \<and> fo_following f1 = u \<and> fo_follower f2 = me)
       (List.product (follows d) (follows d)))"

definition suggested_stmt :: "uuid \<Rightarrow> int \<Rightarrow> (social_db, user_row list) sql" where
  "suggested_stmt me n d =
     Inr (take (nat n) (sort_key (\<lambda>u. - int (common_count d me (us_id u)))
           (filter (\<lambda>u. us_id u \<noteq> me \<and> (me, us_id u) \<notin> fo_key ` set (follows d) \<and> (me, us_id u) \<notin> set (blocks d) \<and>
                        us_private u = Some False) (susers d))), d)"

definition search_stmt :: "social_env \<Rightarrow> uuid \<Rightarrow> string \<Rightarrow> int \<Rightarrow> (social_db, user_row list) sql" where
  "search_stmt env me q n d =
     Inr (take (nat n) (map (\<lambda>u. if \<not> is_private u \<or> us_id u = me \<or> accepted d me (us_id u) then u else u\<lparr>us_bio := None\<rparr>)
           (sort_key (\<lambda>u. case us_display u of None \<Rightarrow> (1::nat, 0) | Some n \<Rightarrow> (0, so_collate env n))
           (filter (\<lambda>u. (so_ilike env (us_username u) q \<or> (case us_display u of None \<Rightarrow> False | Some n \<Rightarrow> so_ilike env n q)) \<and>
                        us_id u \<noteq> me \<and> \<not> blocked_pair d me (us_id u)) (susers d)))), d)"

definition report_stmt :: "report_row \<Rightarrow> (social_db, unit) sql" where
  "report_stmt r d =
     (if \<not> user_exists d (rp_reporter r) then Inl (Constraint ''foreign_key_violation'')
      else Inr ((), d\<lparr>reports := reports d @ [r]\<rparr>))"

definition circle_stmt :: "uuid \<Rightarrow> string \<Rightarrow> social_input \<Rightarrow> (social_db, uuid) sql" where
  "circle_stmt owner name i d =
     (if \<not> user_exists d owner then Inl (Constraint ''foreign_key_violation'')
      else let cs = sql_upsert (\<lambda>c. (ci_owner c, ci_name c))
                      \<lparr>ci_id = so_new_id i, ci_owner = owner, ci_name = name, ci_created = so_now i, ci_updated = so_now i\<rparr>
                      (\<lambda>c. c\<lparr>ci_updated := so_now i\<rparr>) (circles d)
           in (case filter (\<lambda>c. ci_owner c = owner \<and> ci_name c = name) cs of
                 [] \<Rightarrow> Inl NoRows | c # _ \<Rightarrow> Inr (ci_id c, d\<lparr>circles := cs\<rparr>)))"

definition member_stmt :: "uuid \<Rightarrow> uuid \<Rightarrow> (social_db, unit) sql" where
  "member_stmt c u d =
     (if c \<notin> ci_id ` set (circles d) \<or> \<not> user_exists d u then Inl (Constraint ''foreign_key_violation'')
      else Inr ((), d\<lparr>members := sql_insert_ignore id (c, u) (members d)\<rparr>))"

definition circles_stmt :: "uuid \<Rightarrow> (social_db, circle_row list) sql" where
  "circles_stmt u d = Inr (sort_key (\<lambda>c. - ci_created c) (filter (\<lambda>c. ci_owner c = u) (circles d)), d)"

section \<open>Repository\<close>

text \<open>Most methods scan their two identifiers first.\<close>

definition with_ids ::
  "social_env \<Rightarrow> string \<Rightarrow> string \<Rightarrow> string \<Rightarrow> string \<Rightarrow> (uuid \<Rightarrow> uuid \<Rightarrow> (social_db, 'a) dbm) \<Rightarrow> (social_db, 'a) dbm" where
  "with_ids env m1 x m2 y k =
     (case so_scan env x of
        Inl e \<Rightarrow> dfail (Wrapf m1 e)
      | Inr a \<Rightarrow> (case so_scan env y of Inl e \<Rightarrow> dfail (Wrapf m2 e) | Inr b \<Rightarrow> k a b))"

definition with_id :: "social_env \<Rightarrow> string \<Rightarrow> string \<Rightarrow> (uuid \<Rightarrow> (social_db, 'a) dbm) \<Rightarrow> (social_db, 'a) dbm" where
  "with_id env m x k = (case so_scan env x of Inl e \<Rightarrow> dfail (Wrapf m e) | Inr a \<Rightarrow> k a)"

definition CanViewProfile :: "social_env \<Rightarrow> string \<Rightarrow> string \<Rightarrow> (social_db, bool) dbm" where
  "CanViewProfile env viewer target =
     with_ids env ''invalid viewer uuid'' viewer ''invalid target uuid'' target (\<lambda>v t. autocommit (can_view_stmt t v))"

definition repo_Follow :: "social_env \<Rightarrow> string \<Rightarrow> string \<Rightarrow> (social_db, unit) dbm" where
  "repo_Follow env x y =
     with_ids env ''invalid uuid followerID'' x ''invalid uuid followingID'' y (\<lambda>f t.
       dbind (autocommit (follow_stmt f t)) (\<lambda>n.
       if n = 0 then dfail (Errorf ''follow relationship is not permitted'') else dreturn ()))"

definition repo_Unfollow :: "social_env \<Rightarrow> string \<Rightarrow> string \<Rightarrow> (social_db, unit) dbm" where
  "repo_Unfollow env x y =
     with_ids env ''invalid uuid followerID'' x ''invalid uuid followingID'' y (\<lambda>f t. autocommit (unfollow_stmt f t))"

definition IsPrivateUser :: "social_env \<Rightarrow> string \<Rightarrow> (social_db, bool) dbm" where
  "IsPrivateUser env x = with_id env ''invalid uuid'' x (\<lambda>u. autocommit (private_stmt u))"

text \<open>A user as the repository returns it: identifier, name and avatar.\<close>

definition mapUsers :: "social_env \<Rightarrow> user_row list \<Rightarrow> (string \<times> string \<times> string) list" where
  "mapUsers env us = map (\<lambda>u. (so_show env (us_id u), us_username u, case us_avatar u of None \<Rightarrow> [] | Some a \<Rightarrow> a)) us"

type_synonym user_view = "string \<times> string \<times> string"

definition repo_GetFollowers :: "social_env \<Rightarrow> string \<Rightarrow> (social_db, user_view list) dbm" where
  "repo_GetFollowers env x =
     with_id env ''invalid uuid'' x (\<lambda>u. dbind (autocommit (followers_stmt u)) (\<lambda>us. dreturn (mapUsers env us)))"

definition repo_GetFollowing :: "social_env \<Rightarrow> string \<Rightarrow> (social_db, user_view list) dbm" where
  "repo_GetFollowing env x =
     with_id env ''invalid uuid'' x (\<lambda>u. dbind (autocommit (following_stmt u)) (\<lambda>us. dreturn (mapUsers env us)))"

definition GetMutuals :: "social_env \<Rightarrow> string \<Rightarrow> string \<Rightarrow> (social_db, user_view list) dbm" where
  "GetMutuals env x y =
     with_ids env ''invalid uuid userA'' x ''invalid uuid userB'' y (\<lambda>a b.
       dbind (autocommit (mutuals_stmt (so_collate env) a b)) (\<lambda>us. dreturn (mapUsers env us)))"

definition Block :: "social_env \<Rightarrow> social_input \<Rightarrow> string \<Rightarrow> string \<Rightarrow> (social_db, unit) dbm" where
  "Block env i x y =
     with_ids env ''invalid uuid blockerID'' x ''invalid uuid blockedID'' y (\<lambda>a b.
       dmap_err (Wrapf ''block user atomically'') (autocommit (block_stmt a b (so_now i))))"

definition Unblock :: "social_env \<Rightarrow> string \<Rightarrow> string \<Rightarrow> (social_db, unit) dbm" where
  "Unblock env x y =
     with_ids env ''invalid uuid blockerID'' x ''invalid uuid blockedID'' y (\<lambda>a b. autocommit (unblock_stmt a b))"

definition IsBlocked :: "social_env \<Rightarrow> string \<Rightarrow> string \<Rightarrow> (social_db, bool) dbm" where
  "IsBlocked env x y =
     with_ids env ''invalid uuid userA'' x ''invalid uuid userB'' y (\<lambda>a b. autocommit (is_blocked_stmt a b))"

definition SendFollowRequest :: "social_env \<Rightarrow> social_input \<Rightarrow> string \<Rightarrow> string \<Rightarrow> (social_db, unit) dbm" where
  "SendFollowRequest env i x y =
     with_ids env ''invalid uuid followerID'' x ''invalid uuid followingID'' y (\<lambda>f t.
       autocommit (send_request_stmt f t (so_now i)))"

definition follow_statuses :: "string list" where "follow_statuses = [''accepted'', ''rejected'', ''cancelled'']"

definition RespondToFollowRequest :: "social_env \<Rightarrow> string \<Rightarrow> string \<Rightarrow> string \<Rightarrow> (social_db, unit) dbm" where
  "RespondToFollowRequest env x y status =
     with_ids env ''invalid uuid followerID'' x ''invalid uuid followingID'' y (\<lambda>f t.
       if status \<notin> set follow_statuses then dfail (Errorf ''invalid follow request status'')
       else dbind (autocommit (respond_stmt f t status)) (\<lambda>n.
            if n = 0 then dfail (Errorf ''follow request not found or no longer valid'') else dreturn ()))"

definition repo_GetFollowRequests :: "social_env \<Rightarrow> string \<Rightarrow> (social_db, (string \<times> string \<times> string \<times> int) list) dbm" where
  "repo_GetFollowRequests env x =
     with_id env ''invalid uuid'' x (\<lambda>u. dbind (autocommit (list_requests_stmt u)) (\<lambda>rs.
       dreturn (map (\<lambda>r. (so_show env (rq_follower r), so_show env (rq_following r), rq_status r, rq_created r)) rs)))"

definition GetSuggestedUsers :: "social_env \<Rightarrow> string \<Rightarrow> int \<Rightarrow> (social_db, user_view list) dbm" where
  "GetSuggestedUsers env x n =
     with_id env ''invalid uuid'' x (\<lambda>u. dbind (autocommit (suggested_stmt u n)) (\<lambda>us. dreturn (mapUsers env us)))"

definition repo_SearchUsers :: "social_env \<Rightarrow> string \<Rightarrow> string \<Rightarrow> (social_db, user_view list) dbm" where
  "repo_SearchUsers env viewer q =
     with_id env ''invalid uuid viewerID'' viewer (\<lambda>v.
       dbind (autocommit (search_stmt env v q 20)) (\<lambda>us. dreturn (mapUsers env us)))"

definition CreateReport :: "social_env \<Rightarrow> string \<Rightarrow> string \<Rightarrow> string \<Rightarrow> string \<Rightarrow> (social_db, unit) dbm" where
  "CreateReport env reporter target ty reason =
     with_ids env ''invalid uuid reporterID'' reporter ''invalid uuid targetID'' target (\<lambda>r t.
       if ty = [] then dfail (Errorf ''target type is required'')
       else if reason = [] then dfail (Errorf ''report reason is required'')
       else dmap_err (Wrapf ''create content report'')
              (autocommit (report_stmt \<lparr>rp_reporter = r, rp_target = t, rp_type = ty, rp_reason = reason\<rparr>)))"

definition repo_CreateCircle :: "social_env \<Rightarrow> social_input \<Rightarrow> string \<Rightarrow> string \<Rightarrow> (social_db, string) dbm" where
  "repo_CreateCircle env i owner name =
     with_id env ''invalid uuid ownerID'' owner (\<lambda>u.
       if name = [] then dfail (Errorf ''circle name is required'')
       else dbind (dmap_err (Wrapf ''create circle'') (autocommit (circle_stmt u name i))) (\<lambda>c. dreturn (so_show env c)))"

definition AddCircleMember :: "social_env \<Rightarrow> string \<Rightarrow> string \<Rightarrow> (social_db, unit) dbm" where
  "AddCircleMember env circle user =
     with_ids env ''invalid uuid circleID'' circle ''invalid uuid userID'' user (\<lambda>c u.
       dmap_err (Wrapf ''add circle member'') (autocommit (member_stmt c u)))"

definition GetCircles :: "social_env \<Rightarrow> string \<Rightarrow> (social_db, string list) dbm" where
  "GetCircles env owner =
     with_id env ''invalid uuid'' owner (\<lambda>u.
       dbind (autocommit (circles_stmt u)) (\<lambda>cs. dreturn (map (\<lambda>c. so_show env (ci_id c)) cs)))"

section \<open>Service\<close>

record social_state =
  ss_db :: "social_db session"
  ss_guard :: "veritas option"
  ss_suggest :: "(string, user_view list) lru"
  ss_search :: "(string, user_view list) lru"

type_synonym 'a social_op = "(social_state, 'a) op"

definition NewSocialService :: "social_db session \<Rightarrow> veritas option \<Rightarrow> social_state" where
  "NewSocialService db g =
     \<lparr>ss_db = db, ss_guard = g, ss_suggest = NewLRUCache 1000, ss_search = NewLRUCache 500\<rparr>"

definition on_db :: "(social_db, 'a) dbm \<Rightarrow> 'a social_op" where
  "on_db m st = (case m (ss_db st) of (r, s') \<Rightarrow> (r, st\<lparr>ss_db := s'\<rparr>))"

definition ErrProfileForbidden :: goerr where "ErrProfileForbidden = Errorf ''profile access denied''"
definition ErrPrivateAccount :: goerr where "ErrPrivateAccount = Errorf ''private account requires a follow request''"

definition GetProfile :: "social_env \<Rightarrow> string \<Rightarrow> string \<Rightarrow> user_row social_op" where
  "GetProfile env viewer user =
     (let viewer = trim_space viewer; user = trim_space user
      in if viewer = [] \<or> user = [] then ofail (Errorf ''user id is required'')
         else obind (on_db (CanViewProfile env viewer user)) (\<lambda>visible.
              if \<not> visible then ofail ErrProfileForbidden
              else (case so_export env user of
                      Inl e \<Rightarrow> ofail e
                    | Inr None \<Rightarrow> ofail (Errorf ''user not found'')
                    | Inr (Some u) \<Rightarrow> oreturn u)))"

text \<open>The guard counts the interaction when it is configured; \<open>True\<close> means that it objects.\<close>

definition guard_follow :: "string \<Rightarrow> int \<Rightarrow> bool social_op" where
  "guard_follow user now st =
     (case ss_guard st of
        None \<Rightarrow> (Inr False, st)
      | Some g \<Rightarrow> (case TrackInteraction user now g of (b, _, g') \<Rightarrow> (Inr b, st\<lparr>ss_guard := Some g'\<rparr>)))"

definition guard_report :: "string \<Rightarrow> string \<Rightarrow> int \<Rightarrow> bool social_op" where
  "guard_report user content now st =
     (case ss_guard st of
        None \<Rightarrow> (Inr False, st)
      | Some g \<Rightarrow> (case DetectBotPattern user content now g of (b, _, g') \<Rightarrow> (Inr b, st\<lparr>ss_guard := Some g'\<rparr>)))"

definition Follow :: "social_env \<Rightarrow> social_input \<Rightarrow> string \<Rightarrow> string \<Rightarrow> unit social_op" where
  "Follow env i x y =
     (if x = [] \<or> y = [] \<or> x = y then ofail (Errorf ''invalid follow relationship'')
      else obind (on_db (IsPrivateUser env y)) (\<lambda>private.
           if private then ofail ErrPrivateAccount
           else obind (guard_follow x (so_now i)) (\<lambda>objects.
                if objects then ofail (Errorf ''excessive follow activity detected'')
                else on_db (repo_Follow env x y))))"

definition Unfollow :: "social_env \<Rightarrow> string \<Rightarrow> string \<Rightarrow> unit social_op" where
  "Unfollow env x y =
     (if x = [] \<or> y = [] \<or> x = y then ofail (Errorf ''invalid follow relationship'') else on_db (repo_Unfollow env x y))"

definition GetMutualFriends :: "social_env \<Rightarrow> string \<Rightarrow> string \<Rightarrow> user_view list social_op" where
  "GetMutualFriends env x y = on_db (GetMutuals env x y)"

definition GetFollowers :: "social_env \<Rightarrow> string \<Rightarrow> string \<Rightarrow> user_view list social_op" where
  "GetFollowers env viewer user =
     obind (on_db (CanViewProfile env viewer user)) (\<lambda>visible.
     if \<not> visible then ofail ErrProfileForbidden else on_db (repo_GetFollowers env user))"

definition GetFollowing :: "social_env \<Rightarrow> string \<Rightarrow> string \<Rightarrow> user_view list social_op" where
  "GetFollowing env viewer user =
     obind (on_db (CanViewProfile env viewer user)) (\<lambda>visible.
     if \<not> visible then ofail ErrProfileForbidden else on_db (repo_GetFollowing env user))"

definition RequestFollow :: "social_env \<Rightarrow> social_input \<Rightarrow> string \<Rightarrow> string \<Rightarrow> unit social_op" where
  "RequestFollow env i x y =
     (if x = [] \<or> y = [] \<or> x = y then ofail (Errorf ''invalid follow request'')
      else obind (on_db (IsPrivateUser env y)) (\<lambda>private.
           if \<not> private then ofail (Errorf ''follow requests are only valid for private accounts'')
           else obind (on_db (IsBlocked env x y)) (\<lambda>blocked.
                if blocked then ofail ErrPrivateAccount else on_db (SendFollowRequest env i x y))))"

definition HandleFollowRequest :: "social_env \<Rightarrow> string \<Rightarrow> string \<Rightarrow> string \<Rightarrow> unit social_op" where
  "HandleFollowRequest env viewer follower status =
     (if status \<notin> set follow_statuses then ofail (Errorf ''invalid follow request status'')
      else if viewer = [] \<or> follower = [] \<or> viewer = follower then ofail (Errorf ''invalid follow request'')
      else obind (on_db (RespondToFollowRequest env follower viewer status)) (\<lambda>_.
           if status \<noteq> ''accepted'' then oreturn () else on_db (repo_Follow env follower viewer)))"

definition GetFollowRequests :: "social_env \<Rightarrow> string \<Rightarrow> (string \<times> string \<times> string \<times> int) list social_op" where
  "GetFollowRequests env user = on_db (repo_GetFollowRequests env user)"

definition GetSuggestions :: "social_env \<Rightarrow> string \<Rightarrow> user_view list social_op" where
  "GetSuggestions env user st =
     (case LruCache.Get user (ss_suggest st) of
        (Some us, c) \<Rightarrow> (Inr us, st\<lparr>ss_suggest := c\<rparr>)
      | (None, c) \<Rightarrow>
          (case on_db (GetSuggestedUsers env user 10) (st\<lparr>ss_suggest := c\<rparr>) of
             (Inr us, st') \<Rightarrow> (Inr us, st'\<lparr>ss_suggest := LruCache.Put user us (ss_suggest st')\<rparr>)
           | (Inl e, st') \<Rightarrow> (Inl e, st')))"

definition search_key :: "string \<Rightarrow> string \<Rightarrow> string" where
  "search_key viewer q = ''search:'' @ viewer @ '':'' @ q"

definition GlobalSearch :: "social_env \<Rightarrow> string \<Rightarrow> string \<Rightarrow> user_view list social_op" where
  "GlobalSearch env viewer query st =
     (let q = to_lower (trim_space query); k = search_key viewer q
      in if length q < 2 \<or> 80 < length q then ofail (Errorf ''search query must be between 2 and 80 characters'') st
         else (case LruCache.Get k (ss_search st) of
                 (Some us, c) \<Rightarrow> (Inr us, st\<lparr>ss_search := c\<rparr>)
               | (None, c) \<Rightarrow>
                   (case on_db (repo_SearchUsers env viewer q) (st\<lparr>ss_search := c\<rparr>) of
                      (Inr us, st') \<Rightarrow> (Inr us, st'\<lparr>ss_search := LruCache.Put k us (ss_search st')\<rparr>)
                    | (Inl e, st') \<Rightarrow> (Inl e, st'))))"

definition BlockUser :: "social_env \<Rightarrow> social_input \<Rightarrow> string \<Rightarrow> string \<Rightarrow> unit social_op" where
  "BlockUser env i x y =
     (if x = [] \<or> y = [] \<or> x = y then ofail (Errorf ''invalid block relationship'') else on_db (Block env i x y))"

definition ReportContent :: "social_env \<Rightarrow> social_input \<Rightarrow> string \<Rightarrow> string \<Rightarrow> string \<Rightarrow> string \<Rightarrow> unit social_op" where
  "ReportContent env i reporter target ty reason =
     (if reporter = [] \<or> target = [] \<or> ty = [] then ofail (Errorf ''invalid report target'')
      else let reason = so_strip env reason
           in if length reason < 3 \<or> 2000 < length reason
              then ofail (Errorf ''report reason must be between 3 and 2000 characters'')
              else obind (guard_report reporter reason (so_now i)) (\<lambda>objects.
                   if objects then ofail (Errorf ''excessive reporting activity detected'')
                   else on_db (CreateReport env reporter target ty reason)))"

text \<open>The loop over the members, with the set of those seen.\<close>

fun add_members :: "social_env \<Rightarrow> string \<Rightarrow> string \<Rightarrow> string list \<Rightarrow> string set \<Rightarrow> unit social_op" where
  "add_members env owner circle [] seen = oreturn ()"
| "add_members env owner circle (m # ms) seen =
     (if m = [] \<or> m = owner \<or> m \<in> seen then add_members env owner circle ms seen
      else obind (on_db (dmap_err (Wrapf ''add privacy circle member'') (AddCircleMember env circle m))) (\<lambda>_.
           add_members env owner circle ms (insert m seen)))"

definition CreatePrivacyCircle ::
  "social_env \<Rightarrow> social_input \<Rightarrow> string \<Rightarrow> string \<Rightarrow> string list \<Rightarrow> string social_op" where
  "CreatePrivacyCircle env i owner name ms =
     (let name = so_strip env name
      in if owner = [] \<or> name = [] \<or> 80 < length name then ofail (Errorf ''invalid privacy circle'')
         else obind (on_db (repo_CreateCircle env i owner name)) (\<lambda>circle.
              obind (add_members env owner circle ms {}) (\<lambda>_. oreturn circle)))"

section \<open>Handlers\<close>

datatype social_body =
    SErrorBody string string
  | SMessage string
  | ProfileBody user_row
  | UsersBody "user_view list"
  | RequestsBody "(string \<times> string \<times> string \<times> int) list"
  | CircleBody string

text \<open>\<open>writeSocialError\<close>, on the errors that the service returns: none of them is a \<open>fiber.Error\<close> or a \<open>DomainError\<close>.\<close>

definition writeSocialError :: "goerr \<Rightarrow> int \<times> social_body" where
  "writeSocialError e =
     (if wrapped_in ErrProfileForbidden e \<or> wrapped_in ErrPrivateAccount e
      then (403, SErrorBody ''ERR_UNKNOWN'' ''forbidden'')
      else (500, SErrorBody ''ERR_UNKNOWN'' ''social operation failed''))"

definition respond :: "'a social_op \<Rightarrow> ('a \<Rightarrow> social_body) \<Rightarrow> (int \<times> social_body) social_op" where
  "respond m f st = (case m st of (Inl e, st') \<Rightarrow> (Inr (writeSocialError e), st') | (Inr a, st') \<Rightarrow> (Inr (200, f a), st'))"

text \<open>A request of an authenticated user, with its path and query parameters and its parsed body.\<close>

datatype social_call =
    FollowReq string
  | UnfollowReq string
  | RequestReq string
  | ListReq
  | RespondReq string string "string option"
  | MutualsReq string
  | ProfileReq string
  | SearchReq string
  | FollowersReq string
  | FollowingReq string
  | CircleReq "(string \<times> string list) option"

fun handle_social :: "social_env \<Rightarrow> social_input \<Rightarrow> string \<Rightarrow> social_call \<Rightarrow> (int \<times> social_body) social_op" where
  "handle_social env i uid (FollowReq x) = respond (Follow env i uid x) (\<lambda>_. SMessage ''Followed successfully'')"
| "handle_social env i uid (UnfollowReq x) = respond (Unfollow env uid x) (\<lambda>_. SMessage ''Unfollowed successfully'')"
| "handle_social env i uid (RequestReq x) = respond (RequestFollow env i uid x) (\<lambda>_. SMessage ''Follow request sent'')"
| "handle_social env i uid ListReq = respond (GetFollowRequests env uid) RequestsBody"
| "handle_social env i uid (RespondReq x status body) =
     respond (HandleFollowRequest env uid x (if status = [] then (case body of None \<Rightarrow> [] | Some b \<Rightarrow> b) else status))
       (\<lambda>_. SMessage ''Follow request updated'')"
| "handle_social env i uid (MutualsReq x) = respond (GetMutualFriends env uid x) UsersBody"
| "handle_social env i uid (ProfileReq x) = respond (GetProfile env uid x) ProfileBody"
| "handle_social env i uid (SearchReq q) = respond (GlobalSearch env uid q) UsersBody"
| "handle_social env i uid (FollowersReq x) = respond (GetFollowers env uid x) UsersBody"
| "handle_social env i uid (FollowingReq x) = respond (GetFollowing env uid x) UsersBody"
| "handle_social env i uid (CircleReq req) =
     (case req of
        None \<Rightarrow> oreturn (400, SErrorBody ''ERR_BAD_REQUEST'' ''Invalid request'')
      | Some (name, ms) \<Rightarrow> respond (CreatePrivacyCircle env i uid name ms) CircleBody)"

fun run_social :: "social_env \<Rightarrow> (social_input \<times> string \<times> outcome list \<times> social_call) list \<Rightarrow> social_state \<Rightarrow> social_state" where
  "run_social env [] st = st"
| "run_social env ((i, uid, outs, c) # cs) st =
     run_social env cs (snd (handle_social env i uid c (st\<lparr>ss_db := (ss_db st)\<lparr>outcomes := outs\<rparr>\<rparr>)))"

section \<open>Who may change the graph\<close>

text \<open>
  The specification: the pairs that one request may add to the accepted follows, add to the pending requests, and
  take away from the pending requests.
\<close>

definition private_account :: "social_db \<Rightarrow> uuid \<Rightarrow> bool" where
  "private_account d u = (case filter (\<lambda>r. us_id r = u) (susers d) of [] \<Rightarrow> False | r # _ \<Rightarrow> is_private r)"

definition pending :: "social_db \<Rightarrow> uuid \<Rightarrow> uuid \<Rightarrow> bool" where
  "pending d a b \<longleftrightarrow> (\<exists>q\<in>set (requests d). rq_follower q = a \<and> rq_following q = b \<and> rq_status q = ''pending'')"

definition reply :: "string \<Rightarrow> string option \<Rightarrow> string" where
  "reply status body = (if status = [] then (case body of None \<Rightarrow> [] | Some b \<Rightarrow> b) else status)"

fun may_follow :: "social_env \<Rightarrow> string \<Rightarrow> social_call \<Rightarrow> social_db \<Rightarrow> uuid \<Rightarrow> uuid \<Rightarrow> bool" where
  "may_follow env uid (FollowReq x) d a b \<longleftrightarrow>
     so_scan env uid = Inr a \<and> so_scan env x = Inr b \<and> \<not> private_account d b \<and> \<not> blocked_pair d a b"
| "may_follow env uid (RespondReq x status body) d a b \<longleftrightarrow>
     so_scan env x = Inr a \<and> so_scan env uid = Inr b \<and> reply status body = ''accepted'' \<and> pending d a b \<and> \<not> blocked_pair d a b"
| "may_follow env uid c d a b \<longleftrightarrow> False"

fun may_ask :: "social_env \<Rightarrow> string \<Rightarrow> social_call \<Rightarrow> social_db \<Rightarrow> uuid \<Rightarrow> uuid \<Rightarrow> bool" where
  "may_ask env uid (RequestReq x) d a b \<longleftrightarrow>
     so_scan env uid = Inr a \<and> so_scan env x = Inr b \<and> private_account d b \<and> (a, b) \<notin> set (blocks d)"
| "may_ask env uid c d a b \<longleftrightarrow> False"

fun may_answer :: "social_env \<Rightarrow> string \<Rightarrow> social_call \<Rightarrow> social_db \<Rightarrow> uuid \<Rightarrow> uuid \<Rightarrow> bool" where
  "may_answer env uid (RespondReq x status body) d a b \<longleftrightarrow>
     so_scan env x = Inr a \<and> so_scan env uid = Inr b \<and> reply status body \<in> set follow_statuses \<and> \<not> blocked_pair d a b"
| "may_answer env uid c d a b \<longleftrightarrow> False"

definition graph_within ::
  "(uuid \<Rightarrow> uuid \<Rightarrow> bool) \<Rightarrow> (uuid \<Rightarrow> uuid \<Rightarrow> bool) \<Rightarrow> (uuid \<Rightarrow> uuid \<Rightarrow> bool) \<Rightarrow> social_db \<Rightarrow> social_db \<Rightarrow> bool" where
  "graph_within F N W d d' \<longleftrightarrow>
     susers d' = susers d \<and> blocks d' = blocks d \<and>
     (\<forall>a b. accepted d' a b \<longrightarrow> accepted d a b \<or> F a b) \<and>
     (\<forall>a b. pending d' a b \<longrightarrow> pending d a b \<or> N a b) \<and>
     (\<forall>a b. pending d a b \<longrightarrow> pending d' a b \<or> W a b)"

abbreviation so_moves ::
  "(social_db \<Rightarrow> social_db \<Rightarrow> bool) \<Rightarrow> (social_db \<Rightarrow> bool) \<Rightarrow> 'a social_op \<Rightarrow> ('a \<Rightarrow> social_db \<Rightarrow> bool) \<Rightarrow> bool" where
  "so_moves \<equiv> op_moves ss_db"

lemma so_moves_on_db: "moves R P m Q \<Longrightarrow> so_moves R P (on_db m) Q"
  by (fastforce simp: op_moves_def moves_def on_db_def split: prod.splits)

locale graph_evolution = evolution R for R :: "social_db \<Rightarrow> social_db \<Rightarrow> bool"
begin

lemma so_moves_respond: "so_moves R P m Q \<Longrightarrow> so_moves R P (respond m f) (\<lambda>_ _. True)"
  by (fastforce simp: op_moves_def respond_def split: sum.splits prod.splits)

lemma so_moves_guard: "so_moves R P (guard_follow u now) (\<lambda>_. P)" and "so_moves R P (guard_report u c now) (\<lambda>_. P)"
  by (auto simp: op_moves_def guard_follow_def guard_report_def stays split: option.splits prod.splits)

lemma moves_with_ids:
  "(\<And>a b. so_scan env x = Inr a \<Longrightarrow> so_scan env y = Inr b \<Longrightarrow> moves R P (k a b) Q) \<Longrightarrow>
   moves R P (with_ids env m1 x m2 y k) Q"
  by (auto simp: with_ids_def moves_fail split: sum.split)

lemma moves_with_id:
  "(\<And>a. so_scan env x = Inr a \<Longrightarrow> moves R P (k a) Q) \<Longrightarrow> moves R P (with_id env m x k) Q"
  by (auto simp: with_id_def moves_fail split: sum.split)

end

lemma graph_trans: "graph_within F N W d d' \<Longrightarrow> graph_within F N W d' d'' \<Longrightarrow> graph_within F N W d d''"
  unfolding graph_within_def by metis

interpretation graph: graph_evolution "graph_within F N W" for F N W
  by unfold_locales (simp add: graph_within_def, rule graph_trans)

text \<open>The calls of the repository.\<close>

lemma read_moves:
  assumes "\<And>d a d'. f d = Inr (a, d') \<Longrightarrow> d' = d \<and> Q a d"
  shows "moves (graph_within F N W) (\<lambda>d. d = d0) (autocommit f) (\<lambda>a d. d = d0 \<and> Q a d0)"
  by (rule graph.moves_autocommit) (use assms in \<open>auto simp: graph_within_def\<close>)

lemma private_moves:
  "moves (graph_within F N W) (\<lambda>d. d = d0) (IsPrivateUser env y)
     (\<lambda>p d. d = d0 \<and> (\<exists>b. so_scan env y = Inr b \<and> p = private_account d0 b))"
  unfolding IsPrivateUser_def
proof (rule graph.moves_with_id)
  fix u
  assume u: "so_scan env y = Inr u"
  have "moves (graph_within F N W) (\<lambda>d. d = d0) (autocommit (private_stmt u))
          (\<lambda>p d. d = d0 \<and> p = private_account d0 u)"
    by (rule read_moves) (auto simp: private_stmt_def private_account_def split: list.splits)
  with u show "moves (graph_within F N W) (\<lambda>d. d = d0) (autocommit (private_stmt u))
          (\<lambda>p d. d = d0 \<and> (\<exists>b. so_scan env y = Inr b \<and> p = private_account d0 b))"
    by (simp cong: conj_cong)
qed

lemma is_blocked_moves:
  "moves (graph_within F N W) (\<lambda>d. d = d0) (IsBlocked env x y)
     (\<lambda>p d. d = d0 \<and> (\<exists>a b. so_scan env x = Inr a \<and> so_scan env y = Inr b \<and> p = ((a, b) \<in> set (blocks d0))))"
  unfolding IsBlocked_def
proof (rule graph.moves_with_ids)
  fix a b
  assume ab: "so_scan env x = Inr a" "so_scan env y = Inr b"
  have "moves (graph_within F N W) (\<lambda>d. d = d0) (autocommit (is_blocked_stmt a b))
          (\<lambda>p d. d = d0 \<and> p = ((a, b) \<in> set (blocks d0)))"
    by (rule read_moves) (auto simp: is_blocked_stmt_def)
  with ab show "moves (graph_within F N W) (\<lambda>d. d = d0) (autocommit (is_blocked_stmt a b))
     (\<lambda>p d. d = d0 \<and> (\<exists>a b. so_scan env x = Inr a \<and> so_scan env y = Inr b \<and> p = ((a, b) \<in> set (blocks d0))))"
    by (simp cong: conj_cong)
qed

lemma follow_accepted:
  "follow_stmt a b d = Inr (n, d') \<Longrightarrow> accepted d' x y \<Longrightarrow> accepted d x y \<or> x = a \<and> y = b \<and> \<not> blocked_pair d a b"
  by (auto simp: follow_stmt_def accepted_def sql_upsert_def set_sql_update fo_key_def split: if_splits)

lemma follow_frame:
  "follow_stmt a b d = Inr (n, d') \<Longrightarrow> susers d' = susers d \<and> blocks d' = blocks d \<and> requests d' = requests d"
  by (auto simp: follow_stmt_def split: if_splits)

lemma follow_moves:
  assumes "\<And>a b. so_scan env x = Inr a \<Longrightarrow> so_scan env y = Inr b \<Longrightarrow> \<not> blocked_pair d0 a b \<Longrightarrow> F a b"
  shows "moves (graph_within F N W) (\<lambda>d. blocks d = blocks d0) (repo_Follow env x y) (\<lambda>_ _. True)"
  unfolding repo_Follow_def
proof (rule graph.moves_with_ids)
  fix a b
  assume ab: "so_scan env x = Inr a" "so_scan env y = Inr b"
  have F: "F a b" if "\<not> blocked_pair d a b" "blocks d = blocks d0" for d
    using that assms [OF ab] by (simp add: blocked_pair_def)
  show "moves (graph_within F N W) (\<lambda>d. blocks d = blocks d0)
     (dbind (autocommit (follow_stmt a b)) (\<lambda>n. if n = 0 then dfail (Errorf ''follow relationship is not permitted'') else dreturn ()))
     (\<lambda>_ _. True)"
    by (rule graph.moves_bind [where M = "\<lambda>_ _. True"], rule graph.moves_autocommit)
      (auto simp: graph_within_def pending_def follow_frame intro: graph.moves_fail graph.moves_return F dest: follow_accepted)
qed

lemma respond_rows:
  assumes run: "respond_stmt a b status d = Inr (n, d')" and st: "status \<noteq> ''pending''"
  shows "susers d' = susers d \<and> blocks d' = blocks d \<and> follows d' = follows d"
    and "pending d' x y \<Longrightarrow> pending d x y"
    and "pending d x y \<Longrightarrow> pending d' x y \<or> x = a \<and> y = b \<and> \<not> blocked_pair d a b"
    and "n \<noteq> 0 \<Longrightarrow> pending d a b \<and> \<not> blocked_pair d a b"
proof -
  let ?U = "sql_update (respond_guard d a b) (\<lambda>r. r\<lparr>rq_status := status\<rparr>) (requests d)"
  have d': "d' = d\<lparr>requests := ?U\<rparr>" and n: "n = length (filter (respond_guard d a b) (requests d))"
    using run by (simp_all add: respond_stmt_def)
  show "susers d' = susers d \<and> blocks d' = blocks d \<and> follows d' = follows d" by (simp add: d')
  show "pending d x y" if "pending d' x y"
    using that st by (auto simp: pending_def d' set_sql_update)
  show "pending d' x y \<or> x = a \<and> y = b \<and> \<not> blocked_pair d a b" if p: "pending d x y"
  proof -
    from p obtain q where q: "q \<in> set (requests d)" "rq_follower q = x" "rq_following q = y" "rq_status q = ''pending''"
      by (auto simp: pending_def)
    show ?thesis
    proof (cases "respond_guard d a b q")
      case False
      with q(1) have "q \<in> set ?U" by (simp add: set_sql_update)
      with q show ?thesis by (auto simp: pending_def d')
    qed (use q in \<open>simp add: respond_guard_def\<close>)
  qed
  show "pending d a b \<and> \<not> blocked_pair d a b" if "n \<noteq> 0"
    using that by (auto simp: n filter_empty_conv respond_guard_def pending_def)
qed

lemma send_request_rows:
  assumes "send_request_stmt a b now d = Inr (u, d')"
  shows "susers d' = susers d \<and> blocks d' = blocks d \<and> follows d' = follows d"
    and "pending d' x y \<Longrightarrow> pending d x y \<or> x = a \<and> y = b"
    and "pending d x y \<Longrightarrow> pending d' x y"
proof -
  let ?f = "\<lambda>r. r\<lparr>rq_status := ''pending'', rq_created := now\<rparr>"
  let ?r = "\<lparr>rq_follower = a, rq_following = b, rq_status = ''pending'', rq_created = now\<rparr>"
  let ?U = "sql_upsert (\<lambda>r. (rq_follower r, rq_following r)) ?r ?f (requests d)"
  have d': "d' = d\<lparr>requests := ?U\<rparr>" using assms by (simp add: send_request_stmt_def split: if_splits)
  show "susers d' = susers d \<and> blocks d' = blocks d \<and> follows d' = follows d" by (simp add: d')
  show "pending d x y \<or> x = a \<and> y = b" if "pending d' x y"
    using that by (auto simp: pending_def d' sql_upsert_def set_sql_update split: if_splits)
  show "pending d' x y" if p: "pending d x y"
  proof -
    from p obtain q where q: "q \<in> set (requests d)" "rq_follower q = x" "rq_following q = y" "rq_status q = ''pending''"
      by (auto simp: pending_def)
    then have "q \<in> set ?U \<or> ?f q \<in> set ?U" by (auto simp: sql_upsert_def set_sql_update)
    then show ?thesis
    proof
      assume "q \<in> set ?U"
      with q show ?thesis unfolding pending_def d' by (intro bexI [where x = q]) simp_all
    next
      assume "?f q \<in> set ?U"
      with q show ?thesis unfolding pending_def d' by (intro bexI [where x = "?f q"]) simp_all
    qed
  qed
qed

lemma respond_moves:
  assumes "\<And>a b. so_scan env x = Inr a \<Longrightarrow> so_scan env y = Inr b \<Longrightarrow> status \<in> set follow_statuses \<Longrightarrow>
             \<not> blocked_pair d0 a b \<Longrightarrow> W a b"
  shows "moves (graph_within F N W) (\<lambda>d. d = d0) (RespondToFollowRequest env x y status)
     (\<lambda>_ d. blocks d = blocks d0 \<and>
        (\<exists>a b. so_scan env x = Inr a \<and> so_scan env y = Inr b \<and> pending d0 a b \<and> \<not> blocked_pair d0 a b))"
    (is "moves _ _ _ ?Q")
  unfolding RespondToFollowRequest_def
proof (rule graph.moves_with_ids, rule graph.moves_if)
  fix a b
  assume ab: "so_scan env x = Inr a" "so_scan env y = Inr b" and "\<not> status \<notin> set follow_statuses"
  then have st: "status \<in> set follow_statuses" by simp
  then have ne: "status \<noteq> ''pending''" by (auto simp: follow_statuses_def)
  let ?M = "\<lambda>(n::nat) d. n \<noteq> 0 \<longrightarrow> ?Q () d"
  show "moves (graph_within F N W) (\<lambda>d. d = d0)
     (dbind (autocommit (respond_stmt a b status))
       (\<lambda>n. if n = 0 then dfail (Errorf ''follow request not found or no longer valid'') else dreturn ())) ?Q"
  proof (rule graph.moves_bind [where M = ?M], rule graph.moves_autocommit)
    fix d n d'
    assume "d = d0" and run: "respond_stmt a b status d = Inr (n, d')"
    then show "graph_within F N W d d' \<and> ?M n d'"
      using respond_rows [OF run ne] assms [OF ab st] ab
      by (auto simp: graph_within_def accepted_def)
  qed (auto intro: graph.moves_fail graph.moves_return)
qed (rule graph.moves_fail)

lemma send_request_moves:
  assumes "\<And>a b. so_scan env x = Inr a \<Longrightarrow> so_scan env y = Inr b \<Longrightarrow> N a b"
  shows "moves (graph_within F N W) P (SendFollowRequest env i x y) (\<lambda>_ _. True)"
  unfolding SendFollowRequest_def
proof (rule graph.moves_with_ids, rule graph.moves_autocommit)
  fix a b d u d'
  assume ab: "so_scan env x = Inr a" "so_scan env y = Inr b" and run: "send_request_stmt a b (so_now i) d = Inr (u, d')"
  show "graph_within F N W d d' \<and> True"
    using send_request_rows [OF run] assms [OF ab] by (auto simp: graph_within_def accepted_def)
qed

lemma unfollow_moves: "moves (graph_within F N W) P (repo_Unfollow env x y) (\<lambda>_ _. True)"
  unfolding repo_Unfollow_def
  by (rule graph.moves_with_ids, rule graph.moves_autocommit)
    (auto simp: unfollow_stmt_def graph_within_def accepted_def pending_def)

text \<open>A method that only reads.\<close>

definition looks :: "(social_db, 'a) dbm \<Rightarrow> bool" where
  "looks m \<longleftrightarrow> (\<forall>s. durable (snd (m s)) = durable s)"

lemma looks_moves: "looks m \<Longrightarrow> moves (graph_within F N W) P m (\<lambda>_. P)"
  by (auto simp: looks_def moves_def graph_within_def) (metis snd_conv)+

lemma looks_intros:
  "(\<And>d a d'. f d = Inr (a, d') \<Longrightarrow> d' = d) \<Longrightarrow> looks (autocommit f)"
  "(\<And>a b. looks (k2 a b)) \<Longrightarrow> looks (with_ids env m1 x m2 y k2)"
  "(\<And>a. looks (k a)) \<Longrightarrow> looks (with_id env m1 x k)"
  "looks m \<Longrightarrow> looks (dbind m (\<lambda>a. dreturn (h a)))"
  by (auto simp: looks_def autocommit_def next_outcome_def with_ids_def with_id_def dbind_def dreturn_def dfail_def
           split: list.splits outcome.splits sum.splits prod.splits) (metis snd_conv)+

lemmas looks_methods = CanViewProfile_def repo_GetFollowers_def repo_GetFollowing_def GetMutuals_def
  repo_GetFollowRequests_def GetSuggestedUsers_def repo_SearchUsers_def
lemmas looks_stmts = can_view_stmt_def followers_stmt_def following_stmt_def mutuals_stmt_def list_requests_stmt_def
  suggested_stmt_def search_stmt_def

lemma reads_look:
  "looks (CanViewProfile env x y)" "looks (repo_GetFollowers env x)" "looks (repo_GetFollowing env x)"
  "looks (GetMutuals env x y)" "looks (repo_GetFollowRequests env x)" "looks (GetSuggestedUsers env x n)"
  "looks (repo_SearchUsers env x q)"
  by (auto simp: looks_methods looks_stmts intro!: looks_intros)

lemma circle_moves:
  "moves (graph_within F N W) (\<lambda>_. True) (repo_CreateCircle env i owner name) (\<lambda>_ _. True)"
  "moves (graph_within F N W) (\<lambda>_. True) (AddCircleMember env circle user) (\<lambda>_ _. True)"
proof -
  have "moves (graph_within F N W) (\<lambda>_. True) (autocommit (circle_stmt u name i)) (\<lambda>_ _. True)" for u
    by (rule graph.moves_autocommit)
      (auto simp: circle_stmt_def Let_def graph_within_def accepted_def pending_def split: if_splits list.splits)
  then show "moves (graph_within F N W) (\<lambda>_. True) (repo_CreateCircle env i owner name) (\<lambda>_ _. True)"
    unfolding repo_CreateCircle_def
    by (intro graph.moves_with_id graph.moves_if graph.moves_fail graph.moves_bind [where M = "\<lambda>_ _. True"]
              graph.moves_map_err graph.moves_return) simp_all
  have "moves (graph_within F N W) (\<lambda>_. True) (autocommit (member_stmt c u)) (\<lambda>_ _. True)" for c u
    by (rule graph.moves_autocommit)
      (auto simp: member_stmt_def graph_within_def accepted_def pending_def split: if_splits)
  then show "moves (graph_within F N W) (\<lambda>_. True) (AddCircleMember env circle user) (\<lambda>_ _. True)"
    unfolding AddCircleMember_def by (intro graph.moves_with_ids graph.moves_map_err)
qed

lemma add_members_moves:
  "so_moves (graph_within F N W) (\<lambda>_. True) (add_members env owner circle ms seen) (\<lambda>_ _. True)"
proof (induction ms arbitrary: seen)
  case Nil
  show ?case by (simp add: graph.op_moves_return)
next
  case (Cons m ms)
  show ?case
    unfolding add_members.simps
    by (intro op_moves_if Cons graph.op_moves_bind [where M = "\<lambda>_ _. True"] so_moves_on_db graph.moves_map_err circle_moves)
qed

text \<open>The requests.\<close>

lemma so_moves_cache:
  assumes "looks m"
  shows "so_moves (graph_within F N W) P
    (\<lambda>st. case LruCache.Get k (ss_suggest st) of
       (Some us, c) \<Rightarrow> (Inr us, st\<lparr>ss_suggest := c\<rparr>)
     | (None, c) \<Rightarrow> (case on_db m (st\<lparr>ss_suggest := c\<rparr>) of
           (Inr us, st') \<Rightarrow> (Inr us, st'\<lparr>ss_suggest := LruCache.Put k us (ss_suggest st')\<rparr>)
         | (Inl e, st') \<Rightarrow> (Inl e, st'))) (\<lambda>_ _. True)"
    and "so_moves (graph_within F N W) P
    (\<lambda>st. case LruCache.Get k (ss_search st) of
       (Some us, c) \<Rightarrow> (Inr us, st\<lparr>ss_search := c\<rparr>)
     | (None, c) \<Rightarrow> (case on_db m (st\<lparr>ss_search := c\<rparr>) of
           (Inr us, st') \<Rightarrow> (Inr us, st'\<lparr>ss_search := LruCache.Put k us (ss_search st')\<rparr>)
         | (Inl e, st') \<Rightarrow> (Inl e, st'))) (\<lambda>_ _. True)"
  using assms
  by (auto simp: op_moves_def on_db_def looks_def graph_within_def split: prod.splits option.splits sum.splits)
    (metis snd_conv)+

lemma Follow_moves:
  "so_moves (graph_within (may_follow env uid (FollowReq x) d0) N W) (\<lambda>d. d = d0) (Follow env i uid x) (\<lambda>_ _. True)"
  unfolding Follow_def
proof (intro op_moves_if graph.op_moves_fail graph.op_moves_bind [OF so_moves_on_db [OF private_moves]])
  fix priv
  assume public: "\<not> priv"
  let ?P = "\<lambda>d. d = d0 \<and> (\<exists>b. so_scan env x = Inr b \<and> priv = private_account d0 b)"
  show "so_moves (graph_within (may_follow env uid (FollowReq x) d0) N W) ?P
      (obind (guard_follow uid (so_now i)) (\<lambda>objects.
         if objects then ofail (Errorf ''excessive follow activity detected'') else on_db (repo_Follow env uid x)))
      (\<lambda>_ _. True)"
  proof (cases "\<exists>b. so_scan env x = Inr b \<and> \<not> private_account d0 b")
    case False
    with public show ?thesis by (auto simp: op_moves_def)
  next
    case True
    then have "moves (graph_within (may_follow env uid (FollowReq x) d0) N W) (\<lambda>d. blocks d = blocks d0)
                 (repo_Follow env uid x) (\<lambda>_ _. True)"
      by (intro follow_moves) auto
    then have "so_moves (graph_within (may_follow env uid (FollowReq x) d0) N W) ?P (on_db (repo_Follow env uid x)) (\<lambda>_ _. True)"
      by (rule so_moves_on_db [OF graph.moves_weaken]) auto
    then show ?thesis
      by (intro graph.op_moves_bind [OF graph.so_moves_guard(1)] op_moves_if graph.op_moves_fail)
  qed
qed

lemma RequestFollow_moves:
  "so_moves (graph_within F (may_ask env uid (RequestReq x) d0) W) (\<lambda>d. d = d0) (RequestFollow env i uid x) (\<lambda>_ _. True)"
  unfolding RequestFollow_def
proof (intro op_moves_if graph.op_moves_fail graph.op_moves_bind [OF so_moves_on_db [OF private_moves]])
  fix priv
  let ?P = "\<lambda>d. d = d0 \<and> (\<exists>b. so_scan env x = Inr b \<and> priv = private_account d0 b)"
  assume "\<not> \<not> priv"
  show "so_moves (graph_within F (may_ask env uid (RequestReq x) d0) W) ?P
      (obind (on_db (IsBlocked env uid x)) (\<lambda>blocked.
         if blocked then ofail ErrPrivateAccount else on_db (SendFollowRequest env i uid x))) (\<lambda>_ _. True)"
  proof (cases "\<exists>b. so_scan env x = Inr b \<and> private_account d0 b")
    case False
    with \<open>\<not> \<not> priv\<close> show ?thesis by (auto simp: op_moves_def)
  next
    case True
    have "so_moves (graph_within F (may_ask env uid (RequestReq x) d0) W) (\<lambda>d. d = d0)
        (obind (on_db (IsBlocked env uid x)) (\<lambda>blocked.
           if blocked then ofail ErrPrivateAccount else on_db (SendFollowRequest env i uid x))) (\<lambda>_ _. True)"
    proof (intro graph.op_moves_bind [OF so_moves_on_db [OF is_blocked_moves]] op_moves_if graph.op_moves_fail)
      fix blocked
      assume "\<not> blocked"
      let ?B = "\<lambda>d. d = d0 \<and> (\<exists>a b. so_scan env uid = Inr a \<and> so_scan env x = Inr b \<and> blocked = ((a, b) \<in> set (blocks d0)))"
      show "so_moves (graph_within F (may_ask env uid (RequestReq x) d0) W) ?B (on_db (SendFollowRequest env i uid x)) (\<lambda>_ _. True)"
      proof (cases "\<exists>a b. so_scan env uid = Inr a \<and> so_scan env x = Inr b \<and> (a, b) \<notin> set (blocks d0)")
        case False
        with \<open>\<not> blocked\<close> show ?thesis by (auto simp: op_moves_def)
      next
        case free: True
        show ?thesis by (rule so_moves_on_db, rule send_request_moves) (use True free in auto)
      qed
    qed
    then show ?thesis by (rule op_moves_weaken) simp
  qed
qed

lemma Handle_moves:
  assumes "status = reply p body"
  shows "so_moves (graph_within (may_follow env uid (RespondReq x p body) d0) N (may_answer env uid (RespondReq x p body) d0))
    (\<lambda>d. d = d0) (HandleFollowRequest env uid x status) (\<lambda>_ _. True)"
proof -
  let ?R = "graph_within (may_follow env uid (RespondReq x p body) d0) N (may_answer env uid (RespondReq x p body) d0)"
  let ?M = "\<lambda>d. blocks d = blocks d0 \<and>
    (\<exists>a b. so_scan env x = Inr a \<and> so_scan env uid = Inr b \<and> pending d0 a b \<and> \<not> blocked_pair d0 a b)"
  have 1: "so_moves ?R (\<lambda>d. d = d0) (on_db (RespondToFollowRequest env x uid status)) (\<lambda>_. ?M)"
    by (rule so_moves_on_db, rule respond_moves) (use assms in simp)
  have 2: "so_moves ?R ?M (on_db (repo_Follow env x uid)) (\<lambda>_ _. True)" if "status = ''accepted''"
  proof (cases "\<exists>a b. so_scan env x = Inr a \<and> so_scan env uid = Inr b \<and> pending d0 a b")
    case True
    have "moves ?R (\<lambda>d. blocks d = blocks d0) (repo_Follow env x uid) (\<lambda>_ _. True)"
    proof (rule follow_moves)
      fix a b
      assume "so_scan env x = Inr a" "so_scan env uid = Inr b" "\<not> blocked_pair d0 a b"
      with True assms that show "may_follow env uid (RespondReq x p body) d0 a b" by simp
    qed
    then show ?thesis by (rule so_moves_on_db [OF graph.moves_weaken]) auto
  qed (auto simp: op_moves_def)
  show ?thesis
    unfolding HandleFollowRequest_def
    by (intro op_moves_if graph.op_moves_fail graph.op_moves_bind [OF 1] graph.op_moves_return 2) simp_all
qed

lemma look_moves: "looks m \<Longrightarrow> so_moves (graph_within F N W) P (on_db m) (\<lambda>_ _. True)"
  by (rule so_moves_on_db, rule graph.moves_weaken, rule looks_moves) simp_all

lemma visible_moves:
  assumes "\<And>b. so_moves (graph_within F N W) (\<lambda>_. True) (k b) (\<lambda>_ _. True)"
  shows "so_moves (graph_within F N W) P (obind (on_db (CanViewProfile env v t)) k) (\<lambda>_ _. True)"
  by (rule op_moves_weaken, rule graph.op_moves_bind, rule look_moves, rule reads_look, rule assms) simp

lemma read_requests_move:
  "so_moves (graph_within F N W) P (GetProfile env v x) (\<lambda>_ _. True)"
  "so_moves (graph_within F N W) P (GetFollowers env v x) (\<lambda>_ _. True)"
  "so_moves (graph_within F N W) P (GetFollowing env v x) (\<lambda>_ _. True)"
  "so_moves (graph_within F N W) P (GetMutualFriends env v x) (\<lambda>_ _. True)"
  "so_moves (graph_within F N W) P (GetFollowRequests env v) (\<lambda>_ _. True)"
  "so_moves (graph_within F N W) P (GlobalSearch env v x) (\<lambda>_ _. True)"
  unfolding GetProfile_def GetFollowers_def GetFollowing_def GetMutualFriends_def GetFollowRequests_def Let_def
  by (auto intro!: op_moves_if graph.op_moves_fail graph.op_moves_return visible_moves look_moves reads_look
        split: sum.splits option.splits)
    (use so_moves_cache(2) [OF reads_look(7)] in
      \<open>auto simp: op_moves_def GlobalSearch_def Let_def ofail_def graph.stays split: if_splits\<close>)

lemma handle_moves:
  "so_moves (graph_within (may_follow env uid c d0) (may_ask env uid c d0) (may_answer env uid c d0)) (\<lambda>d. d = d0)
     (handle_social env i uid c) (\<lambda>_ _. True)"
proof (cases c)
  case (FollowReq x)
  then show ?thesis using graph.so_moves_respond [OF Follow_moves] by simp
next
  case (RequestReq x)
  then show ?thesis using graph.so_moves_respond [OF RequestFollow_moves] by simp
next
  case (RespondReq x p b)
  then show ?thesis using graph.so_moves_respond [OF Handle_moves [OF refl]] by (simp add: reply_def)
next
  case (CircleReq req)
  have "so_moves (graph_within F N W) (\<lambda>_. True) (CreatePrivacyCircle env i uid name ms) (\<lambda>_ _. True)" for F N W name ms
    unfolding CreatePrivacyCircle_def Let_def
    by (intro op_moves_if graph.op_moves_fail graph.op_moves_bind [where M = "\<lambda>_ _. True"] so_moves_on_db circle_moves
              add_members_moves graph.op_moves_return) simp
  from graph.so_moves_respond [OF op_moves_weaken [OF this]]
  have "so_moves (graph_within F N W) (\<lambda>d. d = d0) (respond (CreatePrivacyCircle env i uid name ms) CircleBody) (\<lambda>_ _. True)"
    for F N W name ms by simp
  then show ?thesis unfolding CircleReq
    by (cases req) (simp_all add: graph.op_moves_return split: prod.split)
next
  case (UnfollowReq x)
  have "so_moves (graph_within F N W) P (Unfollow env uid x) (\<lambda>_ _. True)" for F N W P
    unfolding Unfollow_def by (intro op_moves_if graph.op_moves_fail so_moves_on_db unfollow_moves)
  from graph.so_moves_respond [OF this] UnfollowReq show ?thesis by simp
qed (simp_all add: graph.so_moves_respond [OF read_requests_move(1)] graph.so_moves_respond [OF read_requests_move(2)]
  graph.so_moves_respond [OF read_requests_move(3)] graph.so_moves_respond [OF read_requests_move(4)]
  graph.so_moves_respond [OF read_requests_move(5)] graph.so_moves_respond [OF read_requests_move(6)])

section \<open>Properties\<close>

text \<open>
  C12. A request changes the graph only as the specification allows: a new accepted follow is either the requester's
  follow of a public account or the requester's acceptance of a pending request, in both cases with no block between
  the two; only the asking user makes a request pending, only the asked user ends one; accounts and blocks stay.
\<close>
theorem graph_changes_authorised:
  "graph_within (may_follow env uid c (durable (ss_db st))) (may_ask env uid c (durable (ss_db st)))
     (may_answer env uid c (durable (ss_db st)))
     (durable (ss_db st)) (durable (ss_db (snd (handle_social env i uid c st))))"
  by (rule op_movesD [OF handle_moves]) simp

lemma step_graph:
  "graph_within (may_follow env uid c (durable (ss_db st))) (may_ask env uid c (durable (ss_db st)))
     (may_answer env uid c (durable (ss_db st)))
     (durable (ss_db st)) (durable (ss_db (snd (handle_social env i uid c st))))"
  by (rule op_movesD [OF handle_moves]) simp

definition consented :: "social_env \<Rightarrow> (social_input \<times> string \<times> outcome list \<times> social_call) list \<Rightarrow> uuid \<Rightarrow> uuid \<Rightarrow> bool" where
  "consented env cs a t \<longleftrightarrow>
     (\<exists>i uid outs x p b. (i, uid, outs, RespondReq x p b) \<in> set cs \<and>
        so_scan env uid = Inr t \<and> so_scan env x = Inr a \<and> reply p b = ''accepted'')"

lemma consentedI:
  "(i, uid, outs, RespondReq x p b) \<in> set cs \<Longrightarrow> so_scan env uid = Inr t \<Longrightarrow> so_scan env x = Inr a \<Longrightarrow>
   reply p b = ''accepted'' \<Longrightarrow> consented env cs a t"
  unfolding consented_def by blast

lemma private_same: "susers d' = susers d \<Longrightarrow> private_account d' t = private_account d t"
  by (simp add: private_account_def)

text \<open>
  C13. Over any sequence of requests of any users, under any driver failures, a private account gets a new follower
  only if that account itself answered the follower's request with \<open>accepted\<close>.
\<close>
theorem private_follower_consented:
  assumes "private_account (durable (ss_db st)) t" and "accepted (durable (ss_db (run_social env cs st))) a t"
    and "\<not> accepted (durable (ss_db st)) a t"
  shows "consented env cs a t"
  using assms
proof (induction cs arbitrary: st)
  case Nil
  then show ?case by simp
next
  case (Cons p cs)
  obtain i uid outs c where p: "p = (i, uid, outs, c)" by (cases p) auto
  let ?st = "st\<lparr>ss_db := (ss_db st)\<lparr>outcomes := outs\<rparr>\<rparr>"
  let ?st' = "snd (handle_social env i uid c ?st)"
  have step: "graph_within (may_follow env uid c (durable (ss_db st))) (may_ask env uid c (durable (ss_db st)))
      (may_answer env uid c (durable (ss_db st))) (durable (ss_db st)) (durable (ss_db ?st'))"
    using step_graph [of env uid c ?st i] by simp
  then have "susers (durable (ss_db ?st')) = susers (durable (ss_db st))" by (simp only: graph_within_def)
  then have priv: "private_account (durable (ss_db ?st')) t" using Cons.prems(1) private_same by blast
  show ?case
  proof (cases "accepted (durable (ss_db ?st')) a t")
    case True
    with step Cons.prems(3) have "may_follow env uid c (durable (ss_db st)) a t" unfolding graph_within_def by blast
    with Cons.prems(1) p show ?thesis by (cases c) (auto intro: consentedI)
  next
    case False
    from Cons.IH [OF priv _ False] Cons.prems(2) have "consented env cs a t" by (simp add: p)
    then show ?thesis unfolding consented_def by (meson list.set_intros(2))
  qed
qed

definition may_view :: "social_db \<Rightarrow> uuid \<Rightarrow> uuid \<Rightarrow> bool" where
  "may_view d v t \<longleftrightarrow>
     (\<exists>u\<in>set (susers d). us_id u = t \<and> (t = v \<or> \<not> is_private u \<or> accepted d v t)) \<and> \<not> blocked_pair d v t"

fun viewed :: "string \<Rightarrow> social_call \<Rightarrow> (string \<times> string) option" where
  "viewed uid (ProfileReq x) = Some (trim_space uid, trim_space x)"
| "viewed uid (FollowersReq x) = Some (uid, x)"
| "viewed uid (FollowingReq x) = Some (uid, x)"
| "viewed uid c = None"

lemma can_view_answer:
  assumes "CanViewProfile env v t s = (Inr True, s')"
  shows "\<exists>a b. so_scan env v = Inr a \<and> so_scan env t = Inr b \<and> may_view (durable s) a b"
  using assms
  by (auto simp: CanViewProfile_def with_ids_def autocommit_def can_view_stmt_def may_view_def dfail_def next_outcome_def
      split: sum.splits list.splits outcome.splits)

lemma visible_first:
  assumes "obind (on_db (CanViewProfile env v t)) (\<lambda>visible. if \<not> visible then ofail e else k) st = (Inr a, st')"
  shows "\<exists>a b. so_scan env v = Inr a \<and> so_scan env t = Inr b \<and> may_view (durable (ss_db st)) a b"
  using assms can_view_answer [of env v t "ss_db st"]
  by (auto simp: obind_def on_db_def ofail_def split: prod.splits sum.splits if_splits)

lemma error_not_ok: "writeSocialError e \<noteq> (200, b)"
  by (simp add: writeSocialError_def)

lemma respond_ok: "fst (respond m f st) = Inr (200, b) \<Longrightarrow> \<exists>a st'. m st = (Inr a, st') \<and> b = f a"
  by (auto simp: respond_def error_not_ok split: prod.splits sum.splits)

text \<open>
  A profile, a list of followers or a list of followed accounts is answered only to its owner, or when the
  account is public or followed by the viewer, and never across a block; whatever the driver calls answer.
\<close>
theorem profile_answers_visible:
  assumes "fst (handle_social env i uid c st) = Inr (200, body)" and "viewed uid c = Some (v, x)"
  shows "\<exists>a b. so_scan env v = Inr a \<and> so_scan env x = Inr b \<and> may_view (durable (ss_db st)) a b"
proof (cases c)
  case (ProfileReq y)
  with assms obtain u st' where "GetProfile env uid y st = (Inr u, st')" by (auto dest: respond_ok)
  with ProfileReq assms(2) show ?thesis
    by (auto simp: GetProfile_def Let_def ofail_def split: if_splits dest: visible_first)
next
  case (FollowersReq y)
  with assms obtain us st' where "GetFollowers env uid y st = (Inr us, st')" by (auto dest: respond_ok)
  with FollowersReq assms(2) show ?thesis by (auto simp: GetFollowers_def dest: visible_first)
next
  case (FollowingReq y)
  with assms obtain us st' where "GetFollowing env uid y st = (Inr us, st')" by (auto dest: respond_ok)
  with FollowingReq assms(2) show ?thesis by (auto simp: GetFollowing_def dest: visible_first)
qed (use assms in simp_all)

text \<open>
  A block that succeeds removes the follows between the two users in both directions and no other follow, and marks
  the edge between them as blocked with weight nought; blocks and follow requests stay as they were.
\<close>
theorem block_separates:
  assumes "BlockUser env i x y st = (Inr (), st')" and "so_scan env x = Inr a" and "so_scan env y = Inr b"
  shows "follows (durable (ss_db st')) = filter (\<lambda>f. fo_key f \<noteq> (a, b) \<and> fo_key f \<noteq> (b, a)) (follows (durable (ss_db st))) \<and>
    (\<exists>e\<in>set (edges (durable (ss_db st'))). ed_source e = a \<and> ed_target e = b) \<and>
    (\<forall>e\<in>set (edges (durable (ss_db st'))). ed_source e = a \<and> ed_target e = b \<longrightarrow> ed_type e = ''blocked'' \<and> ed_weight e = 0) \<and>
    blocks (durable (ss_db st')) = blocks (durable (ss_db st)) \<and> requests (durable (ss_db st')) = requests (durable (ss_db st))"
proof -
  let ?d = "durable (ss_db st)"
  from assms have b: "block_stmt a b (so_now i) ?d = Inr ((), durable (ss_db st'))"
    by (auto simp: BlockUser_def ofail_def on_db_def Block_def with_ids_def dmap_err_def autocommit_def next_outcome_def
        split: if_splits prod.splits sum.splits list.splits outcome.splits)
  let ?e = "\<lparr>ed_source = a, ed_target = b, ed_weight = 0, ed_count = 0, ed_last = so_now i, ed_type = ''blocked''\<rparr>"
  let ?f = "\<lambda>e. e\<lparr>ed_weight := 0, ed_type := ''blocked'', ed_last := so_now i\<rparr>"
  let ?E = "sql_upsert (\<lambda>e. (ed_source e, ed_target e)) ?e ?f (edges ?d)"
  have d': "durable (ss_db st') = ?d\<lparr>follows := sql_delete (\<lambda>f. fo_key f = (a, b) \<or> fo_key f = (b, a)) (follows ?d), edges := ?E\<rparr>"
    using b by (simp add: block_stmt_def split: if_splits)
  have "(a, b) \<in> (\<lambda>e. (ed_source e, ed_target e)) ` set ?E"
    using sql_upsert_key [of "\<lambda>e. (ed_source e, ed_target e)" ?f ?e] by simp
  then have "\<exists>e\<in>set ?E. ed_source e = a \<and> ed_target e = b" by auto
  moreover have "\<forall>e\<in>set ?E. ed_source e = a \<and> ed_target e = b \<longrightarrow> ed_type e = ''blocked'' \<and> ed_weight e = 0"
    by (auto simp: sql_upsert_def set_sql_update image_iff)
  ultimately show ?thesis by (simp add: d' sql_delete_def)
qed

section \<open>Examples\<close>

definition two_users :: social_env where
  "two_users = \<lparr>so_scan = (\<lambda>x. if x = ''1'' then Inr 1 else if x = ''2'' then Inr 2 else Inl (Errorf ''uuid'')),
     so_show = (\<lambda>u. if u = 1 then ''1'' else ''2''), so_ilike = (\<lambda>x y. x = y), so_collate = length, so_strip = id,
     so_export = (\<lambda>x. Inr None)\<rparr>"

definition user_one :: user_row where
  "user_one = \<lparr>us_id = 1, us_username = ''ann'', us_display = None, us_bio = None, us_avatar = None, us_verified = False,
     us_private = Some False, us_created = 0\<rparr>"

definition small_db :: social_db where
  "small_db = \<lparr>susers = [user_one, user_one\<lparr>us_id := 2, us_username := ''bob'', us_private := Some True\<rparr>], follows = [],
     blocks = [], requests = [], circles = [], members = [], reports = [], edges = []\<rparr>"

definition small_state :: social_state where
  "small_state = NewSocialService \<lparr>durable = small_db, view = small_db, aborted = False, outcomes = []\<rparr> None"

definition at_noon :: social_input where "at_noon = \<lparr>so_now = 12, so_new_id = 7\<rparr>"

lemmas small_defs = two_users_def user_one_def small_db_def small_state_def at_noon_def NewSocialService_def

lemma private_follower_consented_witness:
  "consented two_users [(at_noon, ''1'', [], RequestReq ''2''), (at_noon, ''2'', [], RespondReq ''1'' ''accepted'' None)] 1 2"
proof (rule private_follower_consented [where st = small_state])
  show "private_account (durable (ss_db small_state)) 2" by code_simp
  show "\<not> accepted (durable (ss_db small_state)) 1 2" by code_simp
  show "accepted (durable (ss_db (run_social two_users
     [(at_noon, ''1'', [], RequestReq ''2''), (at_noon, ''2'', [], RespondReq ''1'' ''accepted'' None)] small_state))) 1 2"
    by code_simp
qed

lemma profile_answers_visible_witness:
  "\<exists>a b. so_scan two_users ''2'' = Inr a \<and> so_scan two_users ''1'' = Inr b \<and> may_view (durable (ss_db small_state)) a b"
proof (rule profile_answers_visible)
  show "fst (handle_social two_users at_noon ''2'' (FollowersReq ''1'') small_state) = Inr (200, UsersBody [])" by code_simp
  show "viewed ''2'' (FollowersReq ''1'') = Some (''2'', ''1'')" by simp
qed

lemma block_separates_witness:
  "follows (durable (ss_db (snd (BlockUser two_users at_noon ''1'' ''2'' small_state)))) = []"
proof -
  have run: "BlockUser two_users at_noon ''1'' ''2'' small_state = (Inr (), snd (BlockUser two_users at_noon ''1'' ''2'' small_state))"
    by (rule prod_eqI) (code_simp, simp)
  have "so_scan two_users ''1'' = Inr 1" and "so_scan two_users ''2'' = Inr 2" by (simp_all add: two_users_def)
  from block_separates [OF run this] show ?thesis by (simp add: small_defs)
qed

text \<open>
  The block is recorded as an edge of weight nought, which no permission check reads: the blocked user can follow the
  blocking one again. And an accepted request whose follow then fails is lost: it is no longer pending, so a second
  acceptance finds nothing.
\<close>

lemma blocked_user_follows_again:
  "(case BlockUser two_users at_noon ''1'' ''2'' small_state of
      (r, st) \<Rightarrow> (case Follow two_users at_noon ''2'' ''1'' st of
         (r', st') \<Rightarrow> r = Inr () \<and> r' = Inr () \<and> accepted (durable (ss_db st')) 2 1))"
  by code_simp

lemma lost_acceptance:
  "(let asked = snd (RequestFollow two_users at_noon ''1'' ''2'' small_state);
        tried = HandleFollowRequest two_users ''2'' ''1'' ''accepted'' (asked\<lparr>ss_db := (ss_db asked)\<lparr>outcomes := [Fine, Failed]\<rparr>\<rparr>);
        again = HandleFollowRequest two_users ''2'' ''1'' ''accepted'' (snd tried)
    in fst tried = Inl Infra \<and> fst again = Inl (Errorf ''follow request not found or no longer valid'') \<and>
       \<not> accepted (durable (ss_db (snd again))) 1 2)"
  by code_simp

end
