(* ===== verification/Encoding.thy ===== *)
theory Encoding
  imports Prelude
begin

text \<open>
  The parts of Go's \<open>fmt\<close>, \<open>strings\<close> and \<open>encoding/base64\<close> behind encoded password hashes: printing of decimal numbers,
  the scanning of \<open>fmt.Sscanf\<close> with literals and \<open>%d\<close> verbs, and \<open>base64.RawStdEncoding\<close>, each with its round trip.
\<close>

section \<open>Decimal numbers\<close>

definition digit_char :: "nat \<Rightarrow> char" where "digit_char n = char_of (48 + n)"
definition digit_val :: "char \<Rightarrow> nat" where "digit_val c = of_char c - 48"
definition is_digit :: "char \<Rightarrow> bool" where "is_digit c \<longleftrightarrow> (let n = (of_char c :: nat) in 48 \<le> n \<and> n \<le> 57)"

fun show_nat :: "nat \<Rightarrow> string" where
  "show_nat n = (if n < 10 then [digit_char n] else show_nat (n div 10) @ [digit_char (n mod 10)])"

declare show_nat.simps [simp del]

definition read_digits :: "string \<Rightarrow> nat" where
  "read_digits ds = foldl (\<lambda>n c. 10 * n + digit_val c) 0 ds"

lemma digit_simps [simp]: "n < 10 \<Longrightarrow> digit_val (digit_char n) = n" "n < 10 \<Longrightarrow> is_digit (digit_char n)"
  by (simp_all add: digit_val_def digit_char_def is_digit_def)

lemma show_nat_digits: "list_all is_digit (show_nat n)" and show_nat_nonempty: "show_nat n \<noteq> []"
proof (induction n rule: show_nat.induct)
  case (1 n)
  { case 1 then show ?case using \<open>\<not> n < 10 \<Longrightarrow> list_all is_digit (show_nat (n div 10))\<close>
      by (subst show_nat.simps) simp }
  { case 2 then show ?case by (subst show_nat.simps) simp }
qed

lemma read_show_nat [simp]: "read_digits (show_nat n) = n"
proof (induction n rule: show_nat.induct)
  case (1 n)
  show ?case
  proof (cases "n < 10")
    case True
    then show ?thesis by (subst show_nat.simps) (simp add: read_digits_def)
  next
    case False
    then have "read_digits (show_nat n) = 10 * read_digits (show_nat (n div 10)) + n mod 10"
      by (subst show_nat.simps) (simp add: read_digits_def)
    with 1 False show ?thesis by simp
  qed
qed

text \<open>\<open>strconv.ParseInt(s, 10, bits)\<close>, \<open>None\<close> when it fails.\<close>

definition parse_int :: "nat \<Rightarrow> string \<Rightarrow> int option" where
  "parse_int bits s =
     (let neg = has_prefix s ''-''; ds = (if neg \<or> has_prefix s ''+'' then tl s else s);
          v = (if neg then - int (read_digits ds) else int (read_digits ds))
      in if ds = [] \<or> \<not> list_all is_digit ds \<or> v < - (2 ^ (bits - 1)) \<or> 2 ^ (bits - 1) \<le> v then None else Some v)"

lemma parse_int_shown:
  assumes "int n < 2 ^ (bits - 1)"
  shows "parse_int bits (show_nat n) = Some (int n)"
proof -
  obtain c ds where s: "show_nat n = c # ds" using show_nat_nonempty by (cases "show_nat n") auto
  moreover have "is_digit c" using show_nat_digits [of n] s by simp
  then have "c \<noteq> CHR ''-''" "c \<noteq> CHR ''+''" by (auto simp: is_digit_def)
  ultimately have "\<not> has_prefix (show_nat n) ''-''" "\<not> has_prefix (show_nat n) ''+''" by (simp_all add: has_prefix_def)
  moreover have "\<not> int n < - (2 ^ (bits - 1))" by (simp add: not_less order_trans [of _ 0])
  ultimately show ?thesis
    using assms show_nat_digits show_nat_nonempty by (simp add: parse_int_def)
qed

text \<open>
  The value of \<open>strconv.Atoi\<close> when its error is dropped: 0 for a text that is not a number, the nearest 64-bit integer for
  one that is out of range.
\<close>

definition atoi :: "string \<Rightarrow> int" where
  "atoi s =
     (let neg = has_prefix s ''-''; ds = (if neg \<or> has_prefix s ''+'' then tl s else s);
          v = (if neg then - int (read_digits ds) else int (read_digits ds))
      in if ds = [] \<or> \<not> list_all is_digit ds then 0 else max min_int64 (min max_int64 v))"

section \<open>Scanning\<close>

text \<open>\<open>SkipSpace\<close>: white space is skipped, a newline is an error.\<close>

function skip_space :: "string \<Rightarrow> string option" where
  "skip_space s =
     (if has_prefix s [byte 10] then None
      else (case strip_one space_runes s of None \<Rightarrow> Some s | Some t \<Rightarrow> skip_space t))"
  by pat_completeness auto
termination
  by (relation "measure length") (use strip_one_shorter space_runes_nonempty in auto)

declare skip_space.simps [simp del]

text \<open>\<open>scanUint\<close> and \<open>scanInt\<close> for the verb \<open>%d\<close>: the value and the rest of the input.\<close>

definition scan_uint :: "nat \<Rightarrow> string \<Rightarrow> (nat \<times> string) option" where
  "scan_uint bits s =
     (case skip_space s of
        None \<Rightarrow> None
      | Some t \<Rightarrow> let ds = takeWhile is_digit t; n = read_digits ds
                 in if ds = [] \<or> 2 ^ 64 \<le> n \<or> 2 ^ bits \<le> n then None else Some (n, dropWhile is_digit t))"

definition scan_int :: "string \<Rightarrow> (int \<times> string) option" where
  "scan_int s =
     (case skip_space s of
        None \<Rightarrow> None
      | Some t \<Rightarrow> let neg = has_prefix t ''-''; u = (if neg \<or> has_prefix t ''+'' then drop 1 t else t);
                     ds = takeWhile is_digit u; i = (if neg then - int (read_digits ds) else int (read_digits ds))
                 in if ds = [] \<or> \<not> fits64 i then None else Some (i, dropWhile is_digit u))"

definition scan_lit :: "string \<Rightarrow> string \<Rightarrow> string option" where
  "scan_lit p s = (if has_prefix s p then Some (drop (length p) s) else None)"

lemma skip_space_plain:
  assumes "s \<noteq> []" and "plain_byte (hd s)"
  shows "skip_space s = Some s"
proof -
  have "\<not> has_prefix s w" if "w \<in> set space_runes" for w
    using that space_runes_bytes assms by (metis has_prefix_iff hd_append2)
  then have "strip_one space_runes s = None" by (auto simp: strip_one_def find_None_iff)
  moreover have "\<not> has_prefix s [byte 10]"
    using assms by (cases s) (auto simp: has_prefix_def plain_byte_def byte_def)
  ultimately show ?thesis by (simp add: skip_space.simps [of s])
qed

lemma digit_plain: "is_digit c \<Longrightarrow> plain_byte c"
  by (simp add: is_digit_def plain_byte_def Let_def)

lemma skip_shown: "skip_space (show_nat n @ t) = Some (show_nat n @ t)"
proof (rule skip_space_plain)
  show "plain_byte (hd (show_nat n @ t))"
    using show_nat_digits [of n] show_nat_nonempty [of n] by (cases "show_nat n") (auto simp: digit_plain)
qed (simp add: show_nat_nonempty)

lemma scan_shown:
  assumes "t = [] \<or> \<not> is_digit (hd t)"
  shows "takeWhile is_digit (show_nat n @ t) = show_nat n" and "dropWhile is_digit (show_nat n @ t) = t"
proof -
  have d: "\<And>c. c \<in> set (show_nat n) \<Longrightarrow> is_digit c" using show_nat_digits [of n] by (simp add: list_all_iff)
  have "takeWhile is_digit t = []" "dropWhile is_digit t = t" using assms by (cases t; auto)+
  then show "takeWhile is_digit (show_nat n @ t) = show_nat n" "dropWhile is_digit (show_nat n @ t) = t"
    using d by (simp_all add: takeWhile_append2 dropWhile_append2)
qed

lemma scan_uint_shown:
  assumes "t = [] \<or> \<not> is_digit (hd t)" and "n < 2 ^ bits" and "bits \<le> 64"
  shows "scan_uint bits (show_nat n @ t) = Some (n, t)"
proof -
  have "(2::nat) ^ bits \<le> 2 ^ 64" using assms(3) by (intro power_increasing) simp_all
  with assms(2) have "n < 2 ^ 64" by linarith
  with assms show ?thesis
    by (simp add: scan_uint_def skip_shown scan_shown [OF assms(1)] show_nat_nonempty Let_def not_le)
qed

lemma scan_int_shown:
  assumes "t = [] \<or> \<not> is_digit (hd t)" and "int n \<le> max_int64"
  shows "scan_int (show_nat n @ t) = Some (int n, t)"
proof -
  obtain c cs where c: "show_nat n = c # cs" "is_digit c"
    using show_nat_digits [of n] show_nat_nonempty [of n] by (cases "show_nat n") auto
  then have "\<not> has_prefix (show_nat n @ t) ''-''" "\<not> has_prefix (show_nat n @ t) ''+''"
    by (auto simp: has_prefix_def is_digit_def)
  with assms show ?thesis
    by (simp add: scan_int_def skip_shown scan_shown [OF assms(1)] show_nat_nonempty Let_def fits64_def int_bounds)
qed

lemma scan_lit_append [simp]: "scan_lit p (p @ t) = Some t"
  by (simp add: scan_lit_def)

lemma split_on_sep: "c \<notin> set u \<Longrightarrow> split_on c (u @ c # t) = u # split_on c t"
  and split_on_last: "c \<notin> set u \<Longrightarrow> split_on c u = [u]"
  by (induction u) auto

section \<open>Base64\<close>

definition alphabet :: string where
  "alphabet = ''ABCDEFGHIJKLMNOPQRSTUVWXYZabcdefghijklmnopqrstuvwxyz0123456789+/''"

definition b64_char :: "nat \<Rightarrow> char" where "b64_char n = alphabet ! n"

definition b64_val :: "char \<Rightarrow> nat option" where
  "b64_val c = (if c \<in> set alphabet then Some (length (takeWhile (\<lambda>d. d \<noteq> c) alphabet)) else None)"

text \<open>Bytes to groups of six bits, without padding.\<close>

fun sextets :: "nat list \<Rightarrow> nat list" where
  "sextets [] = []"
| "sextets [a] = [a div 4, a mod 4 * 16]"
| "sextets [a, b] = [a div 4, a mod 4 * 16 + b div 16, b mod 16 * 4]"
| "sextets (a # b # c # r) = [a div 4, a mod 4 * 16 + b div 16, b mod 16 * 4 + c div 64, c mod 64] @ sextets r"

fun octets :: "nat list \<Rightarrow> nat list option" where
  "octets [] = Some []"
| "octets [w] = None"
| "octets [w, x] = Some [w * 4 + x div 16]"
| "octets [w, x, y] = Some [w * 4 + x div 16, x mod 16 * 16 + y div 4]"
| "octets (w # x # y # z # r) =
     map_option (\<lambda>bs. [w * 4 + x div 16, x mod 16 * 16 + y div 4, y mod 4 * 64 + z] @ bs) (octets r)"

definition EncodeToString :: "string \<Rightarrow> string" where
  "EncodeToString s = map b64_char (sextets (map of_char s))"

text \<open>Line breaks are skipped, any other character outside the alphabet is an error; trailing bits are not checked.\<close>

definition DecodeString :: "string \<Rightarrow> string option" where
  "DecodeString s =
     (let t = map b64_val (filter (\<lambda>c. c \<noteq> byte 10 \<and> c \<noteq> byte 13) s)
      in if None \<in> set t then None else map_option (map char_of) (octets (map the t)))"

lemma alphabet_table:
  "list_all (\<lambda>n. b64_val (b64_char n) = Some n) [0..<64]"
  "list_all (\<lambda>c. c \<noteq> byte 10 \<and> c \<noteq> byte 13 \<and> c \<noteq> CHR ''$'') alphabet"
  by code_simp+

lemma b64_val_char [simp]: "n < 64 \<Longrightarrow> b64_val (b64_char n) = Some n"
  using alphabet_table(1) by (simp add: list_all_iff)

lemma alphabet_plain: "c \<in> set alphabet \<Longrightarrow> c \<noteq> byte 10 \<and> c \<noteq> byte 13 \<and> c \<noteq> CHR ''$''"
  using alphabet_table(2) by (simp add: list_all_iff)

lemma sextets_bound: "\<forall>b\<in>set bs. b < 256 \<Longrightarrow> n \<in> set (sextets bs) \<Longrightarrow> n < 64"
  by (induction bs rule: sextets.induct) auto

lemma octets_sextets: "\<forall>b\<in>set bs. b < 256 \<Longrightarrow> octets (sextets bs) = Some bs"
proof (induction bs rule: sextets.induct)
  case (2 a)
  then show ?case by (simp add: div_mult2_eq [symmetric])
next
  case (3 a b)
  then have "b div 16 < 16" by auto
  with 3 show ?case by simp
next
  case (4 a b c r)
  then have "b div 16 < 16" and "c div 64 < 4" by auto
  with 4 show ?case by simp
qed simp

lemma encoded_chars: "c \<in> set (EncodeToString s) \<Longrightarrow> c \<in> set alphabet"
proof -
  assume "c \<in> set (EncodeToString s)"
  then obtain n where n: "n \<in> set (sextets (map of_char s))" "c = b64_char n" by (auto simp: EncodeToString_def)
  have "\<forall>b\<in>set (map of_char s :: nat list). b < 256" by (auto simp: of_char_def)
  from sextets_bound [OF this n(1)] have "n < 64" .
  moreover have "length alphabet = 64" by (simp add: alphabet_def)
  ultimately show ?thesis using n(2) by (simp add: b64_char_def)
qed

lemma Decode_Encode: "DecodeString (EncodeToString s) = Some s"
proof -
  let ?bs = "map of_char s :: nat list"
  have b: "\<forall>b\<in>set ?bs. b < 256" by (auto simp: of_char_def)
  have "filter (\<lambda>c. c \<noteq> byte 10 \<and> c \<noteq> byte 13) (EncodeToString s) = EncodeToString s"
    using encoded_chars alphabet_plain by (intro filter_True) blast
  moreover have "map b64_val (EncodeToString s) = map Some (sextets ?bs)"
    using sextets_bound [OF b] by (simp add: EncodeToString_def)
  moreover have "map char_of ?bs = s" by (simp add: map_idI)
  ultimately show ?thesis by (simp add: DecodeString_def octets_sextets [OF b] comp_def map_idI)
qed

end
