(* ===== verification/Messaging.thy ===== *)
theory Messaging
  imports Complex_Main "HOL-Library.Multiset" Database Encoding
begin

text \<open>
  Chat: \<open>modules/messaging\<close> over PostgreSQL, as \<open>wiring.go\<close> composes it when no ScyllaDB is configured: the repository, the
  messaging and end-to-end services, the routed handlers, and the Aegis guard. Identifiers, the HTML sanitisers and JSON
  are parameters. Publications whose failure the code ignores are left out. No migration creates \<open>chat_members\<close>,
  \<open>message_reads\<close>, \<open>message_reactions\<close>, \<open>room_mutes\<close>, \<open>room_archives\<close> or the folder tables: they are given the columns and
  unique keys that the statements name, and foreign keys like those of the other tables.
\<close>

type_synonym uuid = "128 word"

section \<open>Tables\<close>

record chat_user =
  cu_id :: uuid
  cu_username :: string
  cu_email :: string
  cu_avatar :: "string option"

record room_row =
  rm_id :: uuid
  rm_name :: string
  rm_group :: bool
  rm_e2ee :: bool
  rm_created :: int

record message_row =
  cm_id :: uuid
  cm_room :: uuid
  cm_author :: uuid
  cm_parent :: "uuid option"
  cm_content :: string
  cm_payload :: "string option"
  cm_type :: string
  cm_voice :: "string option"
  cm_file :: "string option"
  cm_edited :: bool
  cm_pinned :: bool
  cm_encrypted :: bool
  cm_deleted :: bool
  cm_burn :: bool
  cm_expires :: "int option"
  cm_created :: int
  cm_updated :: int

record rotation_row =
  kr_room :: uuid
  kr_user :: uuid
  kr_key :: string
  kr_device :: string
  kr_at :: int

text \<open>
  Reads, reactions, mutes and archives are keyed by their first two columns, public keys by the user; folders are
  \<open>(id, user, name)\<close>.
\<close>

record chat_db =
  cusers :: "chat_user list"
  rooms :: "room_row list"
  cmembers :: "(uuid \<times> uuid) list"                 \<comment> \<open>room, user\<close>
  messages :: "message_row list"
  mreads :: "((uuid \<times> uuid) \<times> int) list"           \<comment> \<open>message, user\<close>
  reactions :: "((uuid \<times> uuid) \<times> string) list"     \<comment> \<open>message, user\<close>
  mutes :: "((uuid \<times> uuid) \<times> int) list"            \<comment> \<open>user, room\<close>
  archives :: "((uuid \<times> uuid) \<times> bool) list"        \<comment> \<open>user, room\<close>
  folders :: "(uuid \<times> uuid \<times> string) list"
  folder_rooms :: "(uuid \<times> uuid) list"
  public_keys :: "(uuid \<times> string \<times> string) list"
  rotations :: "rotation_row list"

text \<open>\<open>domain.ChatRoom\<close>, and the fields of \<open>domain.ChatMessage\<close> that this repository sets or reads.\<close>

record chat_room =
  r_id :: string
  r_name :: string
  r_group :: bool
  r_e2ee :: bool
  r_created :: int
  r_archived :: bool
  r_muted :: "int option"

record chat_message =
  m_id :: string
  m_room :: string
  m_sender :: string
  m_sender_name :: string
  m_avatar :: string
  m_parent :: "string option"
  m_forwarded :: "string option"
  m_content :: string
  m_payload :: "string option"
  m_type :: string
  m_voice :: string
  m_file :: string
  m_edited :: bool
  m_encrypted :: bool
  m_deleted :: bool
  m_burn :: bool
  m_expires :: "int option"
  m_created :: int
  m_updated :: int

definition empty_message :: chat_message where
  "empty_message = \<lparr>m_id = [], m_room = [], m_sender = [], m_sender_name = [], m_avatar = [], m_parent = None, m_forwarded = None,
     m_content = [], m_payload = None, m_type = [], m_voice = [], m_file = [], m_edited = False, m_encrypted = False,
     m_deleted = False, m_burn = False, m_expires = None, m_created = 0, m_updated = 0\<rparr>"

record chat_env =
  mg_scan :: "string \<Rightarrow> uuid res"
  mg_show :: "uuid \<Rightarrow> string"
  mg_sanitize :: "string \<Rightarrow> string"
  mg_strip :: "string \<Rightarrow> string"
  mg_guard :: bool                       \<comment> \<open>an Aegis guard is configured\<close>
  mg_json_object :: "string \<Rightarrow> bool"
  mg_bus :: bool                         \<comment> \<open>a bus is configured\<close>
  mg_ties :: "int \<Rightarrow> int \<Rightarrow> message_row \<Rightarrow> nat"
    \<comment> \<open>the rank that the plan of a limit and an offset gives a message among those of its instant\<close>

text \<open>The clock, the identifier that the database draws, and whether the bus takes a publication.\<close>

record chat_input =
  ci_now :: int
  ci_id :: uuid
  ci_bus_ok :: bool

section \<open>Statements\<close>

text \<open>
  \<open>_ = id.Scan(x)\<close>: an identifier that does not parse is sent as \<open>NULL\<close>, which equals nothing and violates every
  \<open>NOT NULL\<close>.
\<close>

definition nullable :: "chat_env \<Rightarrow> string \<Rightarrow> uuid option" where
  "nullable env x = (case mg_scan env x of Inl _ \<Rightarrow> None | Inr u \<Rightarrow> Some u)"

definition fk :: goerr where "fk = Constraint ''foreign_key_violation''"
definition not_null :: goerr where "not_null = Constraint ''not_null_violation''"

definition create_room_stmt :: "chat_input \<Rightarrow> string \<Rightarrow> bool \<Rightarrow> (chat_db, room_row) sql" where
  "create_room_stmt i name grp d =
     (let r = \<lparr>rm_id = ci_id i, rm_name = name, rm_group = grp, rm_e2ee = False, rm_created = ci_now i\<rparr>
      in case sql_insert rm_id r (rooms d) of Inl e \<Rightarrow> Inl e | Inr rs \<Rightarrow> Inr (r, d\<lparr>rooms := rs\<rparr>))"

definition add_member_stmt :: "uuid \<Rightarrow> uuid \<Rightarrow> (chat_db, unit) sql" where
  "add_member_stmt r u d =
     (if r \<notin> rm_id ` set (rooms d) \<or> u \<notin> cu_id ` set (cusers d) then Inl fk
      else case sql_insert id (r, u) (cmembers d) of Inl e \<Rightarrow> Inl e | Inr ms \<Rightarrow> Inr ((), d\<lparr>cmembers := ms\<rparr>))"

definition create_message_stmt ::
  "chat_input \<Rightarrow> uuid option \<Rightarrow> uuid option \<Rightarrow> uuid option \<Rightarrow> chat_message \<Rightarrow> (chat_db, message_row) sql" where
  "create_message_stmt i room author parent m d =
     (case (room, author) of
        (Some r, Some a) \<Rightarrow>
          if r \<notin> rm_id ` set (rooms d) \<or> a \<notin> cu_id ` set (cusers d) then Inl fk
          else let row = \<lparr>cm_id = ci_id i, cm_room = r, cm_author = a, cm_parent = parent, cm_content = m_content m,
                         cm_payload = None, cm_type = m_type m, cm_voice = (if m_voice m = [] then None else Some (m_voice m)),
                         cm_file = None, cm_edited = False, cm_pinned = False, cm_encrypted = m_encrypted m,
                         cm_deleted = False, cm_burn = False, cm_expires = None, cm_created = ci_now i, cm_updated = ci_now i\<rparr>
               in (case sql_insert (\<lambda>m. (cm_id m, cm_created m)) row (messages d) of
                     Inl e \<Rightarrow> Inl e | Inr ms \<Rightarrow> Inr (row, d\<lparr>messages := ms\<rparr>))
      | _ \<Rightarrow> Inl not_null)"

definition own_message :: "uuid option \<Rightarrow> uuid option \<Rightarrow> message_row \<Rightarrow> bool" where
  "own_message mid author m \<longleftrightarrow> Some (cm_id m) = mid \<and> Some (cm_author m) = author"

definition update_message_stmt ::
  "chat_input \<Rightarrow> uuid option \<Rightarrow> uuid option \<Rightarrow> string \<Rightarrow> (chat_db, message_row) sql" where
  "update_message_stmt i mid author content d =
     (case filter (own_message mid author) (messages d) of
        [] \<Rightarrow> Inl NoRows
      | m # _ \<Rightarrow> let f = (\<lambda>m. m\<lparr>cm_content := content, cm_edited := True, cm_updated := ci_now i\<rparr>)
                 in Inr (f m, d\<lparr>messages := sql_update (own_message mid author) f (messages d)\<rparr>))"

definition delete_message_stmt :: "chat_input \<Rightarrow> uuid option \<Rightarrow> uuid option \<Rightarrow> (chat_db, unit) sql" where
  "delete_message_stmt i mid author d =
     Inr ((), d\<lparr>messages := sql_update (own_message mid author) (\<lambda>m. m\<lparr>cm_deleted := True, cm_updated := ci_now i\<rparr>) (messages d)\<rparr>)"

definition message_by_id_stmt :: "uuid \<Rightarrow> (chat_db, message_row) sql" where
  "message_by_id_stmt mid d =
     (case sort_key (\<lambda>m. - cm_created m) (filter (\<lambda>m. cm_id m = mid) (messages d)) of [] \<Rightarrow> Inl NoRows | m # _ \<Rightarrow> Inr (m, d))"

text \<open>
  A room's messages, newest first; authors are users by the foreign key. The order of messages of one instant is not the
  statement's to choose: it follows \<open>rank\<close>, which differs between the plans that PostgreSQL takes for different offsets.
\<close>

definition room_messages :: "(message_row \<Rightarrow> nat) \<Rightarrow> chat_db \<Rightarrow> uuid option \<Rightarrow> (message_row \<times> chat_user) list" where
  "room_messages rank d room =
     concat (map (\<lambda>m. map (Pair m) (filter (\<lambda>u. cu_id u = cm_author m) (cusers d)))
       (sort_key (\<lambda>m. - cm_created m) (sort_key rank (filter (\<lambda>m. Some (cm_room m) = room) (messages d)))))"

definition messages_stmt ::
  "(int \<Rightarrow> int \<Rightarrow> message_row \<Rightarrow> nat) \<Rightarrow> uuid option \<Rightarrow> int \<Rightarrow> int \<Rightarrow> (chat_db, (message_row \<times> chat_user) list) sql" where
  "messages_stmt ties room limit offset d =
     (if offset < 0 then Inl (Constraint ''invalid_row_count_in_result_offset_clause'')
      else Inr (take (nat limit) (drop (nat offset) (room_messages (ties limit offset) d room)), d))"

definition member_in :: "chat_db \<Rightarrow> uuid \<Rightarrow> uuid \<Rightarrow> bool" where
  "member_in d r u \<longleftrightarrow> (r, u) \<in> set (cmembers d)"

definition user_rooms_stmt :: "uuid option \<Rightarrow> (chat_db, (room_row \<times> bool \<times> int option) list) sql" where
  "user_rooms_stmt u d =
     (case u of
        None \<Rightarrow> Inr ([], d)
      | Some u \<Rightarrow> Inr (map (\<lambda>r. (r, map_of (archives d) (u, rm_id r) = Some True, map_of (mutes d) (u, rm_id r)))
                   (sort_key (\<lambda>r. - rm_created r) (filter (\<lambda>r. member_in d (rm_id r) u) (rooms d))), d))"

definition pin_stmt :: "uuid option \<Rightarrow> uuid option \<Rightarrow> bool \<Rightarrow> (chat_db, unit) sql" where
  "pin_stmt room mid pinned d =
     Inr ((), d\<lparr>messages := sql_update (\<lambda>m. Some (cm_id m) = mid \<and> Some (cm_room m) = room) (\<lambda>m. m\<lparr>cm_pinned := pinned\<rparr>) (messages d)\<rparr>)"

text \<open>\<open>WHERE EXISTS\<close>: the message is in a room of the user.\<close>

definition sees_message :: "chat_db \<Rightarrow> uuid \<Rightarrow> uuid \<Rightarrow> bool" where
  "sees_message d mid u \<longleftrightarrow> (\<exists>m\<in>set (messages d). cm_id m = mid \<and> member_in d (cm_room m) u)"

definition mark_read_stmt :: "chat_input \<Rightarrow> uuid option \<Rightarrow> uuid option \<Rightarrow> (chat_db, unit) sql" where
  "mark_read_stmt i mid u d =
     (case (mid, u) of
        (Some m, Some u) \<Rightarrow>
          if sees_message d m u then Inr ((), d\<lparr>mreads := sql_upsert fst ((m, u), ci_now i) (\<lambda>r. (fst r, ci_now i)) (mreads d)\<rparr>)
          else Inr ((), d)
      | _ \<Rightarrow> Inr ((), d))"

definition react_stmt :: "uuid option \<Rightarrow> uuid option \<Rightarrow> string \<Rightarrow> (chat_db, unit) sql" where
  "react_stmt mid u emoji d =
     (case (mid, u) of
        (Some m, Some u) \<Rightarrow>
          if sees_message d m u then Inr ((), d\<lparr>reactions := sql_upsert fst ((m, u), emoji) (\<lambda>r. (fst r, emoji)) (reactions d)\<rparr>)
          else Inr ((), d)
      | _ \<Rightarrow> Inr ((), d))"

definition unreact_stmt :: "uuid option \<Rightarrow> uuid option \<Rightarrow> string \<Rightarrow> (chat_db, unit) sql" where
  "unreact_stmt mid u emoji d =
     Inr ((), d\<lparr>reactions := sql_delete (\<lambda>((m, v), e). Some m = mid \<and> Some v = u \<and> e = emoji) (reactions d)\<rparr>)"

definition unmute_stmt :: "uuid option \<Rightarrow> uuid option \<Rightarrow> (chat_db, unit) sql" where
  "unmute_stmt u r d = Inr ((), d\<lparr>mutes := sql_delete (\<lambda>((v, s), _). Some v = u \<and> Some s = r) (mutes d)\<rparr>)"

definition for_user_room ::
  "uuid option \<Rightarrow> uuid option \<Rightarrow> (uuid \<Rightarrow> uuid \<Rightarrow> chat_db \<Rightarrow> chat_db) \<Rightarrow> (chat_db, unit) sql" where
  "for_user_room u r f d =
     (case (u, r) of
        (Some u, Some r) \<Rightarrow> if u \<notin> cu_id ` set (cusers d) \<or> r \<notin> rm_id ` set (rooms d) then Inl fk else Inr ((), f u r d)
      | _ \<Rightarrow> Inl not_null)"

definition mute_stmt :: "uuid option \<Rightarrow> uuid option \<Rightarrow> int \<Rightarrow> (chat_db, unit) sql" where
  "mute_stmt u r until = for_user_room u r (\<lambda>u r d. d\<lparr>mutes := sql_upsert fst ((u, r), until) (\<lambda>x. (fst x, until)) (mutes d)\<rparr>)"

definition archive_stmt :: "uuid option \<Rightarrow> uuid option \<Rightarrow> bool \<Rightarrow> (chat_db, unit) sql" where
  "archive_stmt u r on = for_user_room u r (\<lambda>u r d. d\<lparr>archives := sql_upsert fst ((u, r), on) (\<lambda>x. (fst x, on)) (archives d)\<rparr>)"

definition folder_stmt :: "chat_input \<Rightarrow> uuid option \<Rightarrow> string \<Rightarrow> (chat_db, uuid) sql" where
  "folder_stmt i u name d =
     (case u of
        None \<Rightarrow> Inl not_null
      | Some u \<Rightarrow> if u \<notin> cu_id ` set (cusers d) then Inl fk
                  else (case sql_insert fst (ci_id i, u, name) (folders d) of
                          Inl e \<Rightarrow> Inl e | Inr fs \<Rightarrow> Inr (ci_id i, d\<lparr>folders := fs\<rparr>)))"

definition folder_room_stmt :: "uuid \<Rightarrow> uuid option \<Rightarrow> (chat_db, unit) sql" where
  "folder_room_stmt f r d =
     (case r of
        None \<Rightarrow> Inl not_null
      | Some r \<Rightarrow> if f \<notin> fst ` set (folders d) \<or> r \<notin> rm_id ` set (rooms d) then Inl fk
                  else (case sql_insert id (f, r) (folder_rooms d) of
                          Inl e \<Rightarrow> Inl e | Inr fs \<Rightarrow> Inr ((), d\<lparr>folder_rooms := fs\<rparr>)))"

text \<open>\<open>SELECT DISTINCT file_url ... ORDER BY created_at\<close>, which PostgreSQL rejects.\<close>

definition room_media_stmt :: "uuid option \<Rightarrow> (chat_db, string list) sql" where
  "room_media_stmt r d = Inl (Constraint ''invalid_column_reference'')"

text \<open>The statements that take the identifiers as text: one that does not parse is an error of the call.\<close>

definition as_uuid :: "chat_env \<Rightarrow> string \<Rightarrow> (uuid \<Rightarrow> (chat_db, 'a) sql) \<Rightarrow> (chat_db, 'a) sql" where
  "as_uuid env x f d = (case mg_scan env x of Inl e \<Rightarrow> Inl e | Inr u \<Rightarrow> f u d)"

definition set_e2ee_stmt :: "uuid \<Rightarrow> bool \<Rightarrow> (chat_db, unit) sql" where
  "set_e2ee_stmt r on d = Inr ((), d\<lparr>rooms := sql_update (\<lambda>x. rm_id x = r) (\<lambda>x. x\<lparr>rm_e2ee := on\<rparr>) (rooms d)\<rparr>)"

definition e2ee_stmt :: "uuid \<Rightarrow> (chat_db, bool) sql" where
  "e2ee_stmt r d = (case filter (\<lambda>x. rm_id x = r) (rooms d) of [] \<Rightarrow> Inl NoRows | x # _ \<Rightarrow> Inr (rm_e2ee x, d))"

definition room_members_stmt :: "uuid \<Rightarrow> (chat_db, chat_user list) sql" where
  "room_members_stmt r d = Inr (filter (\<lambda>u. member_in d r (cu_id u)) (cusers d), d)"

definition rotation_stmt :: "rotation_row \<Rightarrow> (chat_db, unit) sql" where
  "rotation_stmt k d =
     (if kr_room k \<notin> rm_id ` set (rooms d) \<or> kr_user k \<notin> cu_id ` set (cusers d) then Inl fk
      else Inr ((), d\<lparr>rotations := rotations d @ [k]\<rparr>))"

definition rotations_stmt :: "uuid \<Rightarrow> (chat_db, rotation_row list) sql" where
  "rotations_stmt r d = Inr (sort_key kr_at (filter (\<lambda>k. kr_room k = r) (rotations d)), d)"

definition public_key_stmt :: "uuid \<Rightarrow> (chat_db, uuid \<times> string \<times> string) sql" where
  "public_key_stmt u d = (case filter (\<lambda>k. fst k = u) (public_keys d) of [] \<Rightarrow> Inl NoRows | k # _ \<Rightarrow> Inr (k, d))"

definition upsert_key_stmt :: "string \<Rightarrow> string \<Rightarrow> uuid \<Rightarrow> (chat_db, unit) sql" where
  "upsert_key_stmt key alg u d =
     (if u \<notin> cu_id ` set (cusers d) then Inl fk
      else Inr ((), d\<lparr>public_keys := sql_upsert fst (u, key, alg) (\<lambda>_. (u, key, alg)) (public_keys d)\<rparr>))"

text \<open>The unread messages of a room, oldest first.\<close>

definition unread_stmt :: "uuid \<Rightarrow> uuid \<Rightarrow> (chat_db, (message_row \<times> chat_user) list) sql" where
  "unread_stmt room u d =
     Inr (take 100 (concat (map (\<lambda>m. map (Pair m) (filter (\<lambda>v. cu_id v = cm_author m) (cusers d)))
       (sort_key cm_created (filter (\<lambda>m. cm_room m = room \<and> member_in d room u \<and> cm_author m \<noteq> u \<and>
          (cm_id m, u) \<notin> fst ` set (mreads d) \<and> \<not> cm_deleted m) (messages d))))), d)"
section \<open>Repository\<close>

definition room_of :: "chat_env \<Rightarrow> room_row \<Rightarrow> bool \<Rightarrow> int option \<Rightarrow> chat_room" where
  "room_of env r archived muted = \<lparr>r_id = mg_show env (rm_id r), r_name = rm_name r, r_group = rm_group r, r_e2ee = rm_e2ee r,
     r_created = rm_created r, r_archived = archived, r_muted = muted\<rparr>"

text \<open>The loop over the members of a new room, with the set of those added.\<close>

fun add_chat_members :: "chat_env \<Rightarrow> uuid \<Rightarrow> string list \<Rightarrow> string set \<Rightarrow> (chat_db, unit) dbm" where
  "add_chat_members env room [] seen = dreturn ()"
| "add_chat_members env room (x # xs) seen =
     (let uid = trim_space x
      in if uid = [] then dfail (Errorf ''chat member id is required'')
         else if uid \<in> seen then add_chat_members env room xs seen
         else (case mg_scan env uid of
                 Inl e \<Rightarrow> dfail (Wrapf ''invalid chat member id'' e)
               | Inr u \<Rightarrow> dbind (dmap_err (Wrapf ''add chat member'') (stmt (add_member_stmt room u))) (\<lambda>_.
                          add_chat_members env room xs (insert uid seen))))"

definition CreateRoom :: "chat_env \<Rightarrow> chat_input \<Rightarrow> string \<Rightarrow> bool \<Rightarrow> string list \<Rightarrow> (chat_db, chat_room) dbm" where
  "CreateRoom env i name grp users =
     in_tx (Wrapf ''begin room transaction'') (Wrapf ''commit room transaction'')
       (dbind (stmt (create_room_stmt i name grp)) (\<lambda>r.
        dbind (add_chat_members env (rm_id r) users {}) (\<lambda>_. dreturn (room_of env r False None))))"

definition mapMessage :: "chat_env \<Rightarrow> message_row \<Rightarrow> chat_message" where
  "mapMessage env r = empty_message
     \<lparr>m_id := mg_show env (cm_id r), m_room := mg_show env (cm_room r), m_sender := mg_show env (cm_author r),
      m_parent := map_option (mg_show env) (cm_parent r), m_content := cm_content r, m_type := cm_type r,
      m_edited := cm_edited r, m_encrypted := cm_encrypted r, m_created := cm_created r, m_updated := cm_updated r\<rparr>"

definition repo_SendMessage :: "chat_env \<Rightarrow> chat_input \<Rightarrow> chat_message \<Rightarrow> (chat_db, chat_message) dbm" where
  "repo_SendMessage env i m =
     dbind (autocommit (create_message_stmt i (nullable env (m_room m)) (nullable env (m_sender m))
        (case m_parent m of None \<Rightarrow> None | Some p \<Rightarrow> nullable env p) m)) (\<lambda>r.
     dreturn ((mapMessage env r)\<lparr>m_payload := (case m_payload m of None \<Rightarrow> None | Some p \<Rightarrow> if p = [] then None else Some p)\<rparr>))"

definition repo_UpdateMessage :: "chat_env \<Rightarrow> chat_input \<Rightarrow> string \<Rightarrow> string \<Rightarrow> string \<Rightarrow> (chat_db, chat_message) dbm" where
  "repo_UpdateMessage env i mid sender content =
     dbind (autocommit (update_message_stmt i (nullable env mid) (nullable env sender) content)) (\<lambda>r. dreturn (mapMessage env r))"

definition GetMessageByID :: "chat_env \<Rightarrow> string \<Rightarrow> (chat_db, chat_message) dbm" where
  "GetMessageByID env mid =
     (case mg_scan env (trim_space mid) of
        Inl e \<Rightarrow> dfail (Wrapf ''invalid message id'' e)
      | Inr u \<Rightarrow>
          dbind (dmap_err (\<lambda>e. if e = NoRows then Errorf ''message not found'' else e) (autocommit (message_by_id_stmt u))) (\<lambda>r.
          dreturn (empty_message
            \<lparr>m_id := mg_show env (cm_id r), m_room := mg_show env (cm_room r), m_sender := mg_show env (cm_author r),
             m_content := cm_content r, m_payload := cm_payload r, m_type := cm_type r, m_encrypted := cm_encrypted r,
             m_deleted := cm_deleted r, m_expires := cm_expires r\<rparr>)))"

definition history_entry :: "chat_env \<Rightarrow> message_row \<times> chat_user \<Rightarrow> chat_message" where
  "history_entry env = (\<lambda>(r, u). empty_message
     \<lparr>m_id := mg_show env (cm_id r), m_room := mg_show env (cm_room r), m_sender := mg_show env (cm_author r),
      m_sender_name := cu_username u, m_avatar := (case cu_avatar u of None \<Rightarrow> [] | Some a \<Rightarrow> a),
      m_content := cm_content r, m_type := cm_type r, m_created := cm_created r\<rparr>)"

definition GetMessages :: "chat_env \<Rightarrow> string \<Rightarrow> int \<Rightarrow> int \<Rightarrow> (chat_db, chat_message list) dbm" where
  "GetMessages env room limit offset =
     dbind (autocommit (messages_stmt (mg_ties env) (nullable env room) limit offset)) (\<lambda>rs. dreturn (map (history_entry env) rs))"

definition repo_GetUserRooms :: "chat_env \<Rightarrow> string \<Rightarrow> (chat_db, chat_room list) dbm" where
  "repo_GetUserRooms env u =
     dbind (autocommit (user_rooms_stmt (nullable env u))) (\<lambda>rs. dreturn (map (\<lambda>(r, a, m). room_of env r a m) rs))"

definition repo_DeleteMessage :: "chat_env \<Rightarrow> chat_input \<Rightarrow> string \<Rightarrow> string \<Rightarrow> (chat_db, unit) dbm" where
  "repo_DeleteMessage env i mid sender = autocommit (delete_message_stmt i (nullable env mid) (nullable env sender))"

definition repo_PinMessage :: "chat_env \<Rightarrow> string \<Rightarrow> string \<Rightarrow> bool \<Rightarrow> (chat_db, unit) dbm" where
  "repo_PinMessage env room mid pinned = autocommit (pin_stmt (nullable env room) (nullable env mid) pinned)"

definition MarkRead :: "chat_env \<Rightarrow> chat_input \<Rightarrow> string \<Rightarrow> string \<Rightarrow> (chat_db, unit) dbm" where
  "MarkRead env i mid u = autocommit (mark_read_stmt i (nullable env mid) (nullable env u))"

definition repo_AddReaction :: "chat_env \<Rightarrow> string \<Rightarrow> string \<Rightarrow> string \<Rightarrow> (chat_db, unit) dbm" where
  "repo_AddReaction env mid u emoji = autocommit (react_stmt (nullable env mid) (nullable env u) emoji)"

definition RemoveReaction :: "chat_env \<Rightarrow> string \<Rightarrow> string \<Rightarrow> string \<Rightarrow> (chat_db, unit) dbm" where
  "RemoveReaction env mid u emoji = autocommit (unreact_stmt (nullable env mid) (nullable env u) emoji)"

definition repo_MuteRoom :: "chat_env \<Rightarrow> string \<Rightarrow> string \<Rightarrow> int option \<Rightarrow> (chat_db, unit) dbm" where
  "repo_MuteRoom env u room until =
     (case until of None \<Rightarrow> autocommit (unmute_stmt (nullable env u) (nullable env room))
      | Some t \<Rightarrow> autocommit (mute_stmt (nullable env u) (nullable env room) t))"

definition repo_ArchiveRoom :: "chat_env \<Rightarrow> string \<Rightarrow> string \<Rightarrow> bool \<Rightarrow> (chat_db, unit) dbm" where
  "repo_ArchiveRoom env u room on = autocommit (archive_stmt (nullable env u) (nullable env room) on)"

text \<open>The rooms of a folder are added one by one, and a failure is ignored.\<close>

fun add_folder_rooms :: "chat_env \<Rightarrow> uuid \<Rightarrow> string list \<Rightarrow> (chat_db, unit) dbm" where
  "add_folder_rooms env f [] = dreturn ()"
| "add_folder_rooms env f (r # rs) =
     dbind (dattempt (autocommit (folder_room_stmt f (nullable env r)))) (\<lambda>_. add_folder_rooms env f rs)"

definition CreateFolder :: "chat_env \<Rightarrow> chat_input \<Rightarrow> string \<Rightarrow> string \<Rightarrow> string list \<Rightarrow> (chat_db, string) dbm" where
  "CreateFolder env i u name rs =
     dbind (autocommit (folder_stmt i (nullable env u) name)) (\<lambda>f.
     dbind (add_folder_rooms env f rs) (\<lambda>_. dreturn (mg_show env f)))"

definition GetRoomMedia :: "chat_env \<Rightarrow> string \<Rightarrow> (chat_db, string list) dbm" where
  "GetRoomMedia env room = autocommit (room_media_stmt (nullable env room))"

definition SetE2EEStatus :: "chat_env \<Rightarrow> string \<Rightarrow> bool \<Rightarrow> (chat_db, unit) dbm" where
  "SetE2EEStatus env room on = autocommit (as_uuid env room (\<lambda>r. set_e2ee_stmt r on))"

text \<open>The comparison of the driver's error with \<open>sql.ErrNoRows\<close> fails, so a missing room is an error.\<close>

definition repo_GetE2EEStatus :: "chat_env \<Rightarrow> string \<Rightarrow> (chat_db, bool) dbm" where
  "repo_GetE2EEStatus env room = autocommit (as_uuid env room e2ee_stmt)"

definition GetRoomMembers :: "chat_env \<Rightarrow> string \<Rightarrow> (chat_db, (string \<times> string \<times> string) list) dbm" where
  "GetRoomMembers env room =
     dbind (autocommit (as_uuid env room room_members_stmt)) (\<lambda>us.
     dreturn (map (\<lambda>u. (mg_show env (cu_id u), cu_username u, cu_email u)) us))"

definition repo_RecordKeyRotation ::
  "chat_env \<Rightarrow> chat_input \<Rightarrow> string \<Rightarrow> string \<Rightarrow> string \<Rightarrow> string \<Rightarrow> (chat_db, unit) dbm" where
  "repo_RecordKeyRotation env i room u key device =
     autocommit (as_uuid env room (\<lambda>r. as_uuid env u (\<lambda>u.
       rotation_stmt \<lparr>kr_room = r, kr_user = u, kr_key = key, kr_device = device, kr_at = ci_now i\<rparr>)))"

definition repo_GetKeyRotations :: "chat_env \<Rightarrow> string \<Rightarrow> (chat_db, rotation_row list) dbm" where
  "repo_GetKeyRotations env room = autocommit (as_uuid env room rotations_stmt)"

definition repo_GetMessageHistory :: "chat_env \<Rightarrow> string \<Rightarrow> (chat_db, (string \<times> string \<times> string \<times> int) list) dbm" where
  "repo_GetMessageHistory env mid =
     (case mg_scan env mid of
        Inl e \<Rightarrow> dfail (Wrapf ''invalid message id'' e)
      | Inr u \<Rightarrow> dbind (autocommit (message_by_id_stmt u)) (\<lambda>r.
                 dreturn [(mid, cm_content r, mg_show env (cm_author r), cm_created r)]))"

definition MarkDelivered :: "string \<Rightarrow> (chat_db, unit) dbm" where
  "MarkDelivered mid = (if mid = [] then dfail (Errorf ''message id is required'') else dreturn ())"

definition GetPublicKey :: "chat_env \<Rightarrow> string \<Rightarrow> (chat_db, string \<times> string \<times> string) dbm" where
  "GetPublicKey env u =
     dbind (autocommit (as_uuid env u public_key_stmt)) (\<lambda>(v, key, alg). dreturn (mg_show env v, key, alg))"

definition UpsertPublicKey :: "chat_env \<Rightarrow> string \<Rightarrow> string \<Rightarrow> string \<Rightarrow> (chat_db, unit) dbm" where
  "UpsertPublicKey env u key alg = autocommit (as_uuid env u (upsert_key_stmt key alg))"

section \<open>Services\<close>

text \<open>Publications with a result that counts.\<close>

definition publish :: "chat_env \<Rightarrow> chat_input \<Rightarrow> (chat_db, unit) dbm" where
  "publish env i = (if \<not> mg_bus env \<or> ci_bus_ok i then dreturn () else dfail (Errorf ''publish''))"

definition e2ee_EnableE2EE :: "chat_env \<Rightarrow> chat_input \<Rightarrow> string \<Rightarrow> string \<Rightarrow> (chat_db, unit) dbm" where
  "e2ee_EnableE2EE env i room initiator =
     dbind (dmap_err (Wrapf ''failed to enable E2EE'') (SetE2EEStatus env room True)) (\<lambda>_.
     dbind (dmap_err (Wrapf ''failed to get room members'') (GetRoomMembers env room)) (\<lambda>ms.
     if list_all (\<lambda>m. fst m = initiator) ms then dreturn ()
     else dmap_err (Wrapf ''failed to publish E2EE key bundle request'') (publish env i)))"

definition DisableE2EE :: "chat_env \<Rightarrow> string \<Rightarrow> (chat_db, unit) dbm" where
  "DisableE2EE env room = SetE2EEStatus env room False"

definition StartDirectChat :: "chat_env \<Rightarrow> chat_input \<Rightarrow> string \<Rightarrow> string \<Rightarrow> (chat_db, chat_room) dbm" where
  "StartDirectChat env i a b = CreateRoom env i [] False [a, b]"

definition CreateGroupChat :: "chat_env \<Rightarrow> chat_input \<Rightarrow> string \<Rightarrow> string list \<Rightarrow> (chat_db, chat_room) dbm" where
  "CreateGroupChat env i name users = CreateRoom env i (mg_strip env name) True users"

text \<open>The guard is called with a nil payload, which it refuses.\<close>

definition SendMessage :: "chat_env \<Rightarrow> chat_input \<Rightarrow> chat_message \<Rightarrow> (chat_db, chat_message) dbm" where
  "SendMessage env i m =
     (let m = m\<lparr>m_content := mg_sanitize env (m_content m)\<rparr>
      in dbind (dmap_err (Wrapf ''failed to determine room E2EE state'') (repo_GetE2EEStatus env (m_room m))) (\<lambda>e2ee.
         if \<not> e2ee then repo_SendMessage env i m
         else (case m_payload m of
                 None \<Rightarrow> dfail (Errorf ''e2ee room requires encrypted payload'')
               | Some p \<Rightarrow>
                   if mg_guard env \<and> mg_json_object env p
                   then dfail (Wrapf ''aegis integrity check failed'' (Errorf ''aegis: payload cannot be nil''))
                   else repo_SendMessage env i (m\<lparr>m_content := [], m_encrypted := True\<rparr>))))"

definition EditMessage :: "chat_env \<Rightarrow> chat_input \<Rightarrow> string \<Rightarrow> string \<Rightarrow> string \<Rightarrow> (chat_db, chat_message) dbm" where
  "EditMessage env i mid sender content = repo_UpdateMessage env i mid sender (mg_sanitize env content)"

definition minute :: int where "minute = 60 * 1000000000"

definition MuteRoom :: "chat_env \<Rightarrow> chat_input \<Rightarrow> string \<Rightarrow> string \<Rightarrow> int \<Rightarrow> (chat_db, unit) dbm" where
  "MuteRoom env i u room minutes =
     (if 30 * 24 * 60 < minutes then dfail (Errorf ''mute duration cannot exceed 30 days'')
      else repo_MuteRoom env u room (if 0 < minutes then Some (ci_now i + minutes * minute) else None))"

definition hasRoom :: "chat_room list \<Rightarrow> string \<Rightarrow> bool" where
  "hasRoom rs room \<longleftrightarrow> list_ex (\<lambda>r. r_id r = room) rs"

definition ForwardMessage :: "chat_env \<Rightarrow> chat_input \<Rightarrow> string \<Rightarrow> string \<Rightarrow> string \<Rightarrow> (chat_db, chat_message) dbm" where
  "ForwardMessage env i mid from to_room =
     dbind (dmap_err (Wrapf ''load source message'') (GetMessageByID env mid)) (\<lambda>m.
     if m_id m = [] then dfail (Errorf ''message not found'')
     else if m_deleted m \<or> (case m_expires m of None \<Rightarrow> False | Some t \<Rightarrow> t < ci_now i)
     then dfail (Errorf ''message is no longer available'')
     else if m_encrypted m \<or> m_payload m \<noteq> None
     then dfail (Errorf ''encrypted messages must be re-encrypted by the client before forwarding'')
     else dbind (dmap_err (Wrapf ''verify room membership'') (repo_GetUserRooms env from)) (\<lambda>rs.
          if \<not> hasRoom rs (m_room m) \<or> \<not> hasRoom rs to_room
          then dfail (Errorf ''user must belong to both source and target rooms'')
          else repo_SendMessage env i (empty_message
                 \<lparr>m_room := to_room, m_sender := from, m_content := m_content m, m_type := m_type m, m_voice := m_voice m,
                  m_file := m_file m, m_forwarded := Some (m_id m)\<rparr>)))"

definition history_page :: int where "history_page = 50"

text \<open>\<open>page*limit\<close> wraps around at 32 bits.\<close>

definition GetRoomHistory :: "chat_env \<Rightarrow> string \<Rightarrow> 32 word \<Rightarrow> (chat_db, chat_message list) dbm" where
  "GetRoomHistory env room page = GetMessages env room history_page (sint (page * word_of_int history_page))"

definition PinMessage :: "chat_env \<Rightarrow> string \<Rightarrow> string \<Rightarrow> (chat_db, unit) dbm" where
  "PinMessage env room mid = repo_PinMessage env room mid True"

definition SendTypingIndicator :: "chat_env \<Rightarrow> chat_input \<Rightarrow> (chat_db, unit) dbm" where
  "SendTypingIndicator env i = publish env i"

definition MarkAsRead :: "chat_env \<Rightarrow> chat_input \<Rightarrow> string \<Rightarrow> string \<Rightarrow> (chat_db, unit) dbm" where
  "MarkAsRead env i mid u = MarkRead env i mid u"

section \<open>Handlers\<close>

datatype chat_body =
    CError string string
  | CRooms "chat_room list"
  | CRoom chat_room
  | CHistory "chat_message list" string bool
  | CUnread "chat_message list"
  | CMessage chat_message
  | CKey string string string
  | CNone

type_synonym chat_answer = "int \<times> chat_body"

definition unable :: "string \<Rightarrow> goerr \<Rightarrow> chat_answer" where
  "unable text e = (500, CError ''ERR_UNKNOWN'' text)"

definition bad_request :: chat_answer where "bad_request = (400, CError ''ERR_BAD_REQUEST'' ''Invalid request'')"

text \<open>\<open>requireRoomMember\<close>: an error answer, or the rest.\<close>

definition require_member :: "chat_env \<Rightarrow> string \<Rightarrow> string \<Rightarrow> (chat_db, chat_answer) dbm \<Rightarrow> (chat_db, chat_answer) dbm" where
  "require_member env room u k =
     (if u = [] \<or> room = [] then dreturn (401, CError ''ERR_UNKNOWN'' ''Unable to access room'')
      else dreply (repo_GetUserRooms env u) (unable ''Unable to access room'') (\<lambda>rs.
           if hasRoom rs room then k else dreturn (403, CError ''ERR_UNKNOWN'' ''Unable to access room'')))"

definition handle_rooms :: "chat_env \<Rightarrow> string \<Rightarrow> (chat_db, chat_answer) dbm" where
  "handle_rooms env u = dreply (repo_GetUserRooms env u) (unable ''Unable to load conversations'') (\<lambda>rs. dreturn (200, CRooms rs))"

text \<open>The page of the query: the cursor, or else the page, or else 0; \<open>Inl\<close> is the message of the error.\<close>

definition requested_page :: "string \<Rightarrow> string \<Rightarrow> string + int" where
  "requested_page cursor raw =
     (let cursor = trim_space cursor
      in if cursor \<noteq> []
         then (case parse_int 32 cursor of None \<Rightarrow> Inl ''Invalid cursor'' | Some p \<Rightarrow> if p < 0 then Inl ''Invalid cursor'' else Inr p)
         else if raw \<noteq> []
         then (case parse_int 32 raw of None \<Rightarrow> Inl ''Invalid page'' | Some p \<Rightarrow> if p < 0 then Inl ''Invalid page'' else Inr p)
         else Inr 0)"

definition handle_history :: "chat_env \<Rightarrow> string \<Rightarrow> string \<Rightarrow> string \<Rightarrow> string \<Rightarrow> (chat_db, chat_answer) dbm" where
  "handle_history env u room cursor raw =
     (let room = trim_space room
      in require_member env room u
           (case requested_page cursor raw of
              Inl text \<Rightarrow> dreturn (400, CError ''ERR_VALIDATION'' text)
            | Inr page \<Rightarrow>
                dreply (GetRoomHistory env room (word_of_int page)) (unable ''Unable to load messages'') (\<lambda>ms.
                let more = (length ms = 50)
                in dreturn (200, CHistory ms (if more then show_nat (nat (page + 1)) else []) more))))"

record send_body =
  sb_content :: string
  sb_payload :: "string option"
  sb_parent :: "string option"
  sb_encrypt :: bool
  sb_is_encrypted :: bool
  sb_type :: string
  sb_voice :: string
  sb_file :: string
  sb_burn :: bool
  sb_expires :: int

definition seconds :: int where "seconds = 1000000000"

definition handle_send :: "chat_env \<Rightarrow> chat_input \<Rightarrow> string \<Rightarrow> string \<Rightarrow> send_body option \<Rightarrow> (chat_db, chat_answer) dbm" where
  "handle_send env i u room req =
     (let room = trim_space room
      in if u = [] \<or> room = [] then dreturn (400, CError ''ERR_VALIDATION'' ''Invalid sender or room'')
         else require_member env room u
           (case req of
              None \<Rightarrow> dreturn (400, CError ''ERR_BAD_REQUEST'' ''Invalid request body'')
            | Some b \<Rightarrow>
                if 64 * 1024 < length (sb_content b) \<or> (case sb_payload b of None \<Rightarrow> False | Some p \<Rightarrow> 1024 * 1024 < length p)
                then dreturn (413, CError ''ERR_VALIDATION'' ''Message payload is too large'')
                else if 30 * 24 * 60 * 60 < sb_expires b
                then dreturn (400, CError ''ERR_VALIDATION'' ''Message expiry is too long'')
                else dreply (SendMessage env i (empty_message
                       \<lparr>m_room := room, m_sender := u, m_content := sb_content b, m_payload := sb_payload b,
                        m_parent := sb_parent b, m_encrypted := (sb_encrypt b \<or> sb_is_encrypted b),
                        m_type := (if trim_space (sb_type b) = [] then ''text'' else trim_space (sb_type b)),
                        m_voice := sb_voice b, m_file := sb_file b, m_burn := sb_burn b,
                        m_expires := (if 0 < sb_expires b then Some (ci_now i + sb_expires b * seconds) else None)\<rparr>))
                     (unable ''Unable to send message'') (\<lambda>m. dreturn (201, CMessage m))))"

definition unread_entry :: "chat_env \<Rightarrow> message_row \<times> chat_user \<Rightarrow> chat_message" where
  "unread_entry env = (\<lambda>(r, v). empty_message
     \<lparr>m_id := mg_show env (cm_id r), m_room := mg_show env (cm_room r), m_sender := mg_show env (cm_author r),
      m_sender_name := cu_username v, m_avatar := (case cu_avatar v of None \<Rightarrow> [] | Some a \<Rightarrow> a),
      m_content := cm_content r, m_type := cm_type r, m_payload := cm_payload r, m_encrypted := cm_encrypted r,
      m_burn := cm_burn r, m_expires := cm_expires r, m_created := cm_created r, m_updated := cm_updated r\<rparr>)"

definition handle_unread :: "chat_env \<Rightarrow> string \<Rightarrow> string \<Rightarrow> (chat_db, chat_answer) dbm" where
  "handle_unread env u room =
     (let room = trim_space room
      in if u = [] \<or> room = [] then dreturn (400, CError ''ERR_VALIDATION'' ''Invalid user or room'')
         else (case (mg_scan env u, mg_scan env room) of
                 (Inl _, _) \<Rightarrow> dreturn (400, CError ''ERR_VALIDATION'' ''Invalid user id'')
               | (_, Inl _) \<Rightarrow> dreturn (400, CError ''ERR_VALIDATION'' ''Invalid room id'')
               | (Inr uid, Inr rid) \<Rightarrow>
                   dreply (autocommit (unread_stmt rid uid)) (\<lambda>_. (500, CError ''ERR_INTERNAL'' ''Unable to load unread messages'')) (\<lambda>rs.
                   dreturn (200, CUnread (map (unread_entry env) rs)))))"

definition handle_key_get :: "chat_env \<Rightarrow> string \<Rightarrow> (chat_db, chat_answer) dbm" where
  "handle_key_get env x =
     (let x = trim_space x
      in if x = [] then dreturn (400, CError ''ERR_VALIDATION'' ''Invalid user id'')
         else dreply (GetPublicKey env x) (\<lambda>_. (404, CError ''ERR_NOT_FOUND'' ''Public key not found'')) (\<lambda>(u, key, alg).
              dreturn (200, CKey u key alg)))"

definition handle_key_upload :: "chat_env \<Rightarrow> string \<Rightarrow> (string \<times> string) option \<Rightarrow> (chat_db, chat_answer) dbm" where
  "handle_key_upload env u req =
     (if trim_space u = [] then dreturn (401, CError ''ERR_AUTH_FAILED'' ''Authentication required'')
      else (case req of
              None \<Rightarrow> dreturn (400, CError ''ERR_BAD_REQUEST'' ''Invalid request body'')
            | Some (key, alg) \<Rightarrow>
                let key = trim_space key; alg = to_lower (trim_space alg); alg = (if alg = [] then ''x25519'' else alg)
                in if length key < 16 \<or> 8192 < length key then dreturn (400, CError ''ERR_VALIDATION'' ''Invalid public key'')
                   else if alg \<noteq> ''x25519'' then dreturn (400, CError ''ERR_VALIDATION'' ''Unsupported key algorithm'')
                   else dreply (UpsertPublicKey env u key alg) (\<lambda>_. (500, CError ''ERR_INTERNAL'' ''Unable to store public key'')) (\<lambda>_.
                        dreturn (200, CKey u key alg))))"

text \<open>The handlers of \<open>MessagingHandler\<close>: a body that does not parse, the call, and the answer.\<close>

definition with_body :: "'b option \<Rightarrow> ('b \<Rightarrow> (chat_db, chat_answer) dbm) \<Rightarrow> (chat_db, chat_answer) dbm" where
  "with_body req k = (case req of None \<Rightarrow> dreturn bad_request | Some b \<Rightarrow> k b)"

definition failed_request :: "goerr \<Rightarrow> chat_answer" where "failed_request = unable ''Unable to process request''"

text \<open>The routed requests of an authenticated user, with the path, query and body of each.\<close>

datatype chat_call =
    RoomsReq
  | DirectReq "string option"
  | GroupReq "(string \<times> string list) option"
  | HistoryReq string string string
  | UnreadReq string
  | SendReq string "send_body option"
  | EditReq string "string option"
  | DeleteReq string
  | ReactReq string "string option"
  | MuteReq string "int option"
  | TypingReq string
  | ReadReq "string option"
  | KeyGetReq string
  | KeyUploadReq "(string \<times> string) option"

fun handle_chat :: "chat_env \<Rightarrow> chat_input \<Rightarrow> string \<Rightarrow> chat_call \<Rightarrow> (chat_db, chat_answer) dbm" where
  "handle_chat env i u RoomsReq = handle_rooms env u"
| "handle_chat env i u (DirectReq req) =
     with_body req (\<lambda>x. dreply (StartDirectChat env i u x) failed_request (\<lambda>r. dreturn (200, CRoom r)))"
| "handle_chat env i u (GroupReq req) =
     with_body req (\<lambda>(name, us). dreply (CreateGroupChat env i name (us @ [u])) failed_request (\<lambda>r. dreturn (200, CRoom r)))"
| "handle_chat env i u (HistoryReq room cursor page) = handle_history env u room cursor page"
| "handle_chat env i u (UnreadReq room) = handle_unread env u room"
| "handle_chat env i u (SendReq room req) = handle_send env i u room req"
| "handle_chat env i u (EditReq mid req) =
     with_body req (\<lambda>content. dreply (EditMessage env i mid u content) failed_request (\<lambda>m. dreturn (200, CMessage m)))"
| "handle_chat env i u (DeleteReq mid) = dreply (repo_DeleteMessage env i mid u) failed_request (\<lambda>_. dreturn (204, CNone))"
| "handle_chat env i u (ReactReq mid req) =
     with_body req (\<lambda>emoji. dreply (repo_AddReaction env mid u emoji) failed_request (\<lambda>_. dreturn (200, CNone)))"
| "handle_chat env i u (MuteReq room req) =
     with_body req (\<lambda>n. dreply (MuteRoom env i u room n) failed_request (\<lambda>_. dreturn (200, CNone)))"
| "handle_chat env i u (TypingReq room) =
     dreply (SendTypingIndicator env i) (unable ''Unable to publish typing state'') (\<lambda>_. dreturn (204, CNone))"
| "handle_chat env i u (ReadReq req) =
     with_body req (\<lambda>mid. dreply (MarkAsRead env i mid u) failed_request (\<lambda>_. dreturn (200, CNone)))"
| "handle_chat env i u (KeyGetReq x) = handle_key_get env x"
| "handle_chat env i u (KeyUploadReq req) = handle_key_upload env u req"

fun run_chat :: "chat_env \<Rightarrow> (chat_input \<times> outcome list \<times> string \<times> chat_call) list \<Rightarrow> chat_db session \<Rightarrow> chat_db session" where
  "run_chat env [] s = s"
| "run_chat env ((i, outs, u, c) # cs) s = run_chat env cs (snd (handle_chat env i u c (s\<lparr>outcomes := outs\<rparr>)))"

section \<open>The Aegis guard\<close>

record aegis =
  ratchets :: "string \<rightharpoonup> int"
  bundles :: "string \<rightharpoonup> string"

definition NewAegisGuard :: aegis where "NewAegisGuard = \<lparr>ratchets = Map.empty, bundles = Map.empty\<rparr>"

record aegis_payload =
  ap_ciphertext :: string
  ap_signature :: string
  ap_sequence :: int
  ap_timestamp :: "64 word"

definition ValidateRatchetSequence :: "string \<Rightarrow> int \<Rightarrow> aegis \<Rightarrow> unit res \<times> aegis" where
  "ValidateRatchetSequence conv n g =
     (if (case ratchets g conv of None \<Rightarrow> False | Some m \<Rightarrow> n \<le> m)
      then (Inl (Errorf ''aegis: replay attack or invalid ratchet sequence''), g)
      else (Inr (), g\<lparr>ratchets := (ratchets g)(conv \<mapsto> n)\<rparr>))"

text \<open>The differences of the instants are taken at 64 bits.\<close>

definition VerifyMessageIntegrity :: "64 word \<Rightarrow> string \<Rightarrow> aegis_payload option \<Rightarrow> aegis \<Rightarrow> unit res \<times> aegis" where
  "VerifyMessageIntegrity now conv payload g =
     (case payload of
        None \<Rightarrow> (Inl (Errorf ''aegis: payload cannot be nil''), g)
      | Some p \<Rightarrow>
          if ap_ciphertext p = [] \<or> ap_signature p = [] then (Inl (Errorf ''aegis: missing required ciphertext or signature''), g)
          else if 300000 < sint (now - ap_timestamp p) \<or> 300000 < sint (ap_timestamp p - now)
          then (Inl (Errorf ''aegis: message timestamp outside valid time window''), g)
          else ValidateRatchetSequence conv (ap_sequence p) g)"

definition RegisterKeyBundle :: "string \<Rightarrow> string \<Rightarrow> string \<Rightarrow> aegis \<Rightarrow> unit res \<times> aegis" where
  "RegisterKeyBundle user device key g =
     (if user = [] \<or> key = [] then (Inl (Errorf ''aegis: invalid user or identity key''), g)
      else (Inr (), g\<lparr>bundles := (bundles g)(user @ '':'' @ device \<mapsto> key)\<rparr>))"

definition PurgeEphemeralSession :: "string \<Rightarrow> aegis \<Rightarrow> aegis" where
  "PurgeEphemeralSession conv g = g\<lparr>ratchets := (ratchets g)(conv := None)\<rparr>"
section \<open>Who may change what\<close>

text \<open>What is fixed when a message is sent, and what says where it is.\<close>

definition fixed_part :: "message_row \<Rightarrow> uuid \<times> uuid \<times> uuid \<times> uuid option \<times> string \<times> bool \<times> int" where
  "fixed_part m = (cm_id m, cm_room m, cm_author m, cm_parent m, cm_type m, cm_encrypted m, cm_created m)"

definition place :: "message_row \<Rightarrow> uuid \<times> uuid" where "place m = (cm_id m, cm_room m)"

text \<open>
  The specification of one request of the user \<open>u\<close>. Rooms and members stay, and members are added to new rooms only.
  What others wrote, read, reacted with, muted or published is as it was. No message or read disappears; a new message is
  by a member of its room; new reads and reactions are on messages of rooms of their user.
\<close>

definition chat_within :: "uuid option \<Rightarrow> chat_db \<Rightarrow> chat_db \<Rightarrow> bool" where
  "chat_within u d d' \<longleftrightarrow>
     cusers d' = cusers d \<and> set (rooms d) \<subseteq> set (rooms d') \<and> set (cmembers d) \<subseteq> set (cmembers d') \<and>
     (\<forall>p\<in>set (cmembers d'). p \<in> set (cmembers d) \<or> fst p \<notin> rm_id ` set (rooms d)) \<and>
     rest_of u cm_author (messages d') = rest_of u cm_author (messages d) \<and>
     place ` set (messages d) \<subseteq> place ` set (messages d') \<and>
     (\<forall>m\<in>set (messages d'). fixed_part m \<in> fixed_part ` set (messages d) \<or> member_in d' (cm_room m) (cm_author m)) \<and>
     rest_of u (\<lambda>r. snd (fst r)) (mreads d') = rest_of u (\<lambda>r. snd (fst r)) (mreads d) \<and>
     fst ` set (mreads d) \<subseteq> fst ` set (mreads d') \<and>
     (\<forall>r\<in>fst ` set (mreads d'). r \<in> fst ` set (mreads d) \<or> sees_message d' (fst r) (snd r)) \<and>
     rest_of u (\<lambda>r. snd (fst r)) (reactions d') = rest_of u (\<lambda>r. snd (fst r)) (reactions d) \<and>
     (\<forall>r\<in>fst ` set (reactions d'). r \<in> fst ` set (reactions d) \<or> sees_message d' (fst r) (snd r)) \<and>
     rest_of u (\<lambda>r. fst (fst r)) (mutes d') = rest_of u (\<lambda>r. fst (fst r)) (mutes d) \<and>
     rest_of u fst (public_keys d') = rest_of u fst (public_keys d) \<and>
     archives d' = archives d \<and> folders d' = folders d \<and> folder_rooms d' = folder_rooms d \<and> rotations d' = rotations d"

lemma sees_message_mono:
  assumes "sees_message d m u" and "place ` set (messages d) \<subseteq> place ` set (messages d')" and "set (cmembers d) \<subseteq> set (cmembers d')"
  shows "sees_message d' m u"
proof -
  from assms(1) obtain x where x: "x \<in> set (messages d)" "cm_id x = m" "member_in d (cm_room x) u"
    by (auto simp: sees_message_def)
  with assms(2) have "place x \<in> place ` set (messages d')" by blast
  then obtain y where "y \<in> set (messages d')" "place x = place y" by blast
  with x assms(3) show ?thesis by (auto simp: sees_message_def member_in_def place_def)
qed

interpretation chat: evolution "chat_within u" for u
proof
  show "chat_within u d d" for d by (simp add: chat_within_def)
next
  fix d d' d''
  assume 1: "chat_within u d d'" and 2: "chat_within u d' d''"
  note 1 = 1 [unfolded chat_within_def] and 2 = 2 [unfolded chat_within_def]
  have grows: "set (rooms d) \<subseteq> set (rooms d')" "set (cmembers d') \<subseteq> set (cmembers d'')"
    "place ` set (messages d') \<subseteq> place ` set (messages d'')" "set (rooms d') \<subseteq> set (rooms d'')"
    "set (cmembers d) \<subseteq> set (cmembers d')" "place ` set (messages d) \<subseteq> place ` set (messages d')"
    "fst ` set (mreads d) \<subseteq> fst ` set (mreads d')" "fst ` set (mreads d') \<subseteq> fst ` set (mreads d'')"
    using 1 2 by simp_all
  have members: "p \<in> set (cmembers d) \<or> fst p \<notin> rm_id ` set (rooms d)" if p: "p \<in> set (cmembers d'')" for p
  proof -
    from 2 p have "p \<in> set (cmembers d') \<or> fst p \<notin> rm_id ` set (rooms d')" by simp
    with 1 image_mono [OF grows(1), of rm_id] show ?thesis by (elim disjE) auto
  qed
  have new_message: "fixed_part m \<in> fixed_part ` set (messages d) \<or> member_in d'' (cm_room m) (cm_author m)"
    if m: "m \<in> set (messages d'')" for m
  proof (cases "fixed_part m \<in> fixed_part ` set (messages d')")
    case True
    then obtain x where x: "x \<in> set (messages d')" "fixed_part x = fixed_part m" by force
    from 1 x(1) have "fixed_part x \<in> fixed_part ` set (messages d) \<or> member_in d' (cm_room x) (cm_author x)" by simp
    with x(2) grows(2) show ?thesis by (auto simp: member_in_def fixed_part_def)
  next
    case False
    with 2 m show ?thesis by (elim conjE) blast
  qed
  have sees: "sees_message d' x v \<Longrightarrow> sees_message d'' x v" for x v
    using grows by (auto intro: sees_message_mono)
  have reads: "r \<in> fst ` set (mreads d) \<or> sees_message d'' (fst r) (snd r)" if r: "r \<in> fst ` set (mreads d'')" for r
  proof -
    from 2 r have "r \<in> fst ` set (mreads d') \<or> sees_message d'' (fst r) (snd r)" by (elim conjE) (erule (1) bspec)
    moreover have "r \<in> fst ` set (mreads d') \<Longrightarrow> r \<in> fst ` set (mreads d) \<or> sees_message d' (fst r) (snd r)"
      using 1 by (elim conjE) (erule (1) bspec)
    ultimately show ?thesis using sees by blast
  qed
  have reacts: "r \<in> fst ` set (reactions d) \<or> sees_message d'' (fst r) (snd r)" if r: "r \<in> fst ` set (reactions d'')" for r
  proof -
    from 2 r have "r \<in> fst ` set (reactions d') \<or> sees_message d'' (fst r) (snd r)" by (elim conjE) (erule (1) bspec)
    moreover have "r \<in> fst ` set (reactions d') \<Longrightarrow> r \<in> fst ` set (reactions d) \<or> sees_message d' (fst r) (snd r)"
      using 1 by (elim conjE) (erule (1) bspec)
    ultimately show ?thesis using sees by blast
  qed
  show "chat_within u d d''"
    unfolding chat_within_def
  proof (intro conjI ballI)
    show "set (rooms d) \<subseteq> set (rooms d'')" "set (cmembers d) \<subseteq> set (cmembers d'')"
      "place ` set (messages d) \<subseteq> place ` set (messages d'')" "fst ` set (mreads d) \<subseteq> fst ` set (mreads d'')"
      by (rule subset_trans [OF grows(1) grows(4)], rule subset_trans [OF grows(5) grows(2)], rule subset_trans [OF grows(6) grows(3)], rule subset_trans [OF grows(7) grows(8)])
  next
    show "p \<in> set (cmembers d) \<or> fst p \<notin> rm_id ` set (rooms d)" if "p \<in> set (cmembers d'')" for p using that by (rule members)
    show "fixed_part m \<in> fixed_part ` set (messages d) \<or> member_in d'' (cm_room m) (cm_author m)"
      if "m \<in> set (messages d'')" for m using that by (rule new_message)
    show "r \<in> fst ` set (mreads d) \<or> sees_message d'' (fst r) (snd r)" if "r \<in> fst ` set (mreads d'')" for r
      using that by (rule reads)
    show "r \<in> fst ` set (reactions d) \<or> sees_message d'' (fst r) (snd r)" if "r \<in> fst ` set (reactions d'')" for r
      using that by (rule reacts)
  qed (use 1 2 in \<open>elim conjE, simp only:\<close>)+
qed

text \<open>The statements of the routed requests.\<close>

fun member_tables :: "chat_env \<Rightarrow> uuid \<Rightarrow> string list \<Rightarrow> string set \<Rightarrow> (chat_db, unit) sql" where
  "member_tables env room [] seen = sreturn ()"
| "member_tables env room (x # xs) seen =
     (let uid = trim_space x
      in if uid = [] then sfail (Errorf ''chat member id is required'')
         else if uid \<in> seen then member_tables env room xs seen
         else (case mg_scan env uid of
                 Inl e \<Rightarrow> sfail (Wrapf ''invalid chat member id'' e)
               | Inr u \<Rightarrow> sbind (smap_err (Wrapf ''add chat member'') (add_member_stmt room u)) (\<lambda>_.
                          member_tables env room xs (insert uid seen))))"

lemma simulates_members: "simulates (add_chat_members env room xs seen) (member_tables env room xs seen)"
proof (induction xs arbitrary: seen)
  case (Cons x xs)
  show ?case unfolding add_chat_members.simps member_tables.simps Let_def by (intro sim_intros Cons.IH)
qed (simp add: simulates_return)

definition create_room_tables :: "chat_env \<Rightarrow> chat_input \<Rightarrow> string \<Rightarrow> bool \<Rightarrow> string list \<Rightarrow> (chat_db, chat_room) sql" where
  "create_room_tables env i name grp users =
     sbind (create_room_stmt i name grp) (\<lambda>r.
     sbind (member_tables env (rm_id r) users {}) (\<lambda>_. sreturn (room_of env r False None)))"

lemma member_tables_effect:
  "member_tables env room xs seen d = Inr (x, d') \<Longrightarrow>
     \<exists>us. d' = d\<lparr>cmembers := cmembers d @ map (Pair room) us\<rparr> \<and> Inr ` set us = (\<lambda>x. mg_scan env (trim_space x)) ` {x \<in> set xs. trim_space x \<notin> seen}"
proof (induction xs arbitrary: seen d)
  case Nil
  then show ?case by (intro exI [of _ "[]"]) (simp add: sreturn_def)
next
  case (Cons y ys)
  let ?u = "trim_space y"
  show ?case
  proof (cases "?u \<in> seen")
    case True
    with Cons.prems have "member_tables env room ys seen d = Inr (x, d')" by (auto simp: Let_def sfail_def split: if_splits)
    from Cons.IH [OF this] obtain us where "d' = d\<lparr>cmembers := cmembers d @ map (Pair room) us\<rparr>"
      "Inr ` set us = (\<lambda>x. mg_scan env (trim_space x)) ` {x \<in> set ys. trim_space x \<notin> seen}" by blast
    moreover from True have "{x \<in> set (y # ys). trim_space x \<notin> seen} = {x \<in> set ys. trim_space x \<notin> seen}" by auto
    ultimately show ?thesis by (intro exI [of _ us]) simp
  next
    case False
    with Cons.prems obtain v where v: "mg_scan env ?u = Inr v"
      and run: "member_tables env room ys (insert ?u seen) (d\<lparr>cmembers := cmembers d @ [(room, v)]\<rparr>) = Inr (x, d')"
      by (auto simp: Let_def sfail_def sbind_def smap_err_def add_member_stmt_def sql_insert_def split: if_splits sum.splits)
    from Cons.IH [OF run] obtain us where us: "d' = d\<lparr>cmembers := cmembers d @ map (Pair room) (v # us)\<rparr>"
      "Inr ` set us = (\<lambda>x. mg_scan env (trim_space x)) ` {x \<in> set ys. trim_space x \<notin> insert ?u seen}" by auto
    have "(\<lambda>x. mg_scan env (trim_space x)) ` {x \<in> set (y # ys). trim_space x \<notin> seen} =
        insert (Inr v) ((\<lambda>x. mg_scan env (trim_space x)) ` {x \<in> set ys. trim_space x \<notin> insert ?u seen})"
      using v False by (auto simp: image_iff) metis
    with us show ?thesis by (intro exI [of _ "v # us"]) auto
  qed
qed

lemma create_room_effect:
  assumes "create_room_tables env i name grp users d = Inr (x, d')"
  shows "\<exists>us. d' = d\<lparr>rooms := rooms d @ [\<lparr>rm_id = ci_id i, rm_name = name, rm_group = grp, rm_e2ee = False, rm_created = ci_now i\<rparr>],
        cmembers := cmembers d @ map (Pair (ci_id i)) us\<rparr> \<and>
      Inr ` set us = (\<lambda>x. mg_scan env (trim_space x)) ` set users \<and> ci_id i \<notin> rm_id ` set (rooms d)"
proof -
  from assms have new: "ci_id i \<notin> rm_id ` set (rooms d)"
    and run: "\<exists>y. member_tables env (ci_id i) users {}
      (d\<lparr>rooms := rooms d @ [\<lparr>rm_id = ci_id i, rm_name = name, rm_group = grp, rm_e2ee = False, rm_created = ci_now i\<rparr>]\<rparr>) = Inr (y, d')"
    by (auto simp: create_room_tables_def sql_monad create_room_stmt_def Let_def sql_insert_def split: if_splits sum.splits prod.splits)
  from run obtain y where "member_tables env (ci_id i) users {}
      (d\<lparr>rooms := rooms d @ [\<lparr>rm_id = ci_id i, rm_name = name, rm_group = grp, rm_e2ee = False, rm_created = ci_now i\<rparr>]\<rparr>) = Inr (y, d')" ..
  from member_tables_effect [OF this] new show ?thesis by auto
qed

lemma create_room_moves: "moves (chat_within u) P (CreateRoom env i name grp users) (\<lambda>_ _. True)"
  unfolding CreateRoom_def
proof (rule chat.moves_transaction)
  show "simulates (dbind (stmt (create_room_stmt i name grp)) (\<lambda>r. dbind (add_chat_members env (rm_id r) users {})
      (\<lambda>_. dreturn (room_of env r False None)))) (create_room_tables env i name grp users)"
    unfolding create_room_tables_def by (intro sim_intros simulates_members)
next
  fix d x d'
  assume "create_room_tables env i name grp users d = Inr (x, d')"
  from create_room_effect [OF this] show "chat_within u d d' \<and> True"
    by (force simp: chat_within_def member_in_def sees_message_def)
qed
lemma fixed_part_own:
  assumes "\<And>m. fixed_part (f m) = fixed_part m"
  shows "fixed_part ` set (sql_update P f ms) = fixed_part ` set ms" and "place ` set (sql_update P f ms) = place ` set ms"
proof -
  have "place (f m) = place m" for m using assms [of m] by (simp add: fixed_part_def place_def)
  with assms show "fixed_part ` set (sql_update P f ms) = fixed_part ` set ms" "place ` set (sql_update P f ms) = place ` set ms"
    by (simp_all flip: set_map)
qed

lemma own_message_within:
  assumes "\<And>m. fixed_part (f m) = fixed_part m"
  shows "chat_within u d (d\<lparr>messages := sql_update (own_message mid u) f (messages d)\<rparr>)"
proof -
  have author: "cm_author (f m) = cm_author m" for m using assms [of m] by (simp add: fixed_part_def)
  have "fixed_part m \<in> fixed_part ` set (messages d)" if "m \<in> set (sql_update (own_message mid u) f (messages d))" for m
    using that fixed_part_own(1) [of f, OF assms] by blast
  then show ?thesis
    using author fixed_part_own(2) [of f, OF assms]
    by (auto simp: chat_within_def own_message_def intro: rest_of_update)
qed

lemma send_within:
  assumes "create_message_stmt i room u parent m d = Inr (a, d')" and "room = Some r" and "u = Some v" and "member_in d r v"
  shows "chat_within u d d'"
  using assms
  by (auto simp: create_message_stmt_def Let_def sql_insert_def chat_within_def member_in_def fixed_part_def
           split: if_splits sum.splits)

lemma mark_read_within:
  assumes "mark_read_stmt i mid u d = Inr (a, d')"
  shows "chat_within u d d'"
proof (cases "\<exists>m v. mid = Some m \<and> u = Some v \<and> sees_message d m v")
  case True
  then obtain m v where mv: "mid = Some m" "u = Some v" "sees_message d m v" by blast
  let ?t = "sql_upsert fst ((m, v), ci_now i) (\<lambda>r. (fst r, ci_now i)) (mreads d)"
  from assms mv have d': "d' = d\<lparr>mreads := ?t\<rparr>" by (simp add: mark_read_stmt_def)
  have "rest_of u (\<lambda>r. snd (fst r)) ?t = rest_of u (\<lambda>r. snd (fst r)) (mreads d)"
    using mv by (intro rest_of_upsert) auto
  moreover have "fst ` set ?t = insert (m, v) (fst ` set (mreads d))"
    by (simp add: keys_sql_upsert)
  ultimately show ?thesis
    using mv by (auto simp: d' chat_within_def sees_message_def member_in_def)
qed (use assms in \<open>auto simp: mark_read_stmt_def chat.stays split: option.splits\<close>)

lemma react_within:
  assumes "react_stmt mid u e d = Inr (a, d')"
  shows "chat_within u d d'"
proof (cases "\<exists>m v. mid = Some m \<and> u = Some v \<and> sees_message d m v")
  case True
  then obtain m v where mv: "mid = Some m" "u = Some v" "sees_message d m v" by blast
  let ?t = "sql_upsert fst ((m, v), e) (\<lambda>r. (fst r, e)) (reactions d)"
  from assms mv have d': "d' = d\<lparr>reactions := ?t\<rparr>" by (simp add: react_stmt_def)
  have "rest_of u (\<lambda>r. snd (fst r)) ?t = rest_of u (\<lambda>r. snd (fst r)) (reactions d)"
    using mv by (intro rest_of_upsert) auto
  moreover have "fst ` set ?t = insert (m, v) (fst ` set (reactions d))"
    by (simp add: keys_sql_upsert)
  ultimately show ?thesis
    using mv by (auto simp: d' chat_within_def sees_message_def member_in_def)
qed (use assms in \<open>auto simp: react_stmt_def chat.stays split: option.splits\<close>)

lemma mute_within:
  assumes "mute_stmt u r t d = Inr (a, d')"
  shows "chat_within u d d'"
proof -
  from assms obtain v s where vs: "u = Some v" and d': "d' = d\<lparr>mutes := sql_upsert fst ((v, s), t) (\<lambda>x. (fst x, t)) (mutes d)\<rparr>"
    by (auto simp: mute_stmt_def for_user_room_def split: option.splits if_splits)
  have "rest_of u (\<lambda>r. fst (fst r)) (sql_upsert fst ((v, s), t) (\<lambda>x. (fst x, t)) (mutes d)) = rest_of u (\<lambda>r. fst (fst r)) (mutes d)"
    using vs by (intro rest_of_upsert) auto
  then show ?thesis by (auto simp: d' chat_within_def)
qed

lemma unmute_within: "unmute_stmt u r d = Inr (a, d') \<Longrightarrow> chat_within u d d'"
  by (auto simp: unmute_stmt_def chat_within_def intro!: rest_of_delete)

lemma upsert_key_within:
  assumes "as_uuid env x (upsert_key_stmt key alg) d = Inr (a, d')"
  shows "chat_within (nullable env x) d d'"
proof -
  from assms obtain u where u: "nullable env x = Some u"
    and d': "d' = d\<lparr>public_keys := sql_upsert fst (u, key, alg) (\<lambda>_. (u, key, alg)) (public_keys d)\<rparr>"
    by (auto simp: as_uuid_def nullable_def upsert_key_stmt_def split: sum.splits if_splits)
  have "rest_of (Some u) fst (sql_upsert fst (u, key, alg) (\<lambda>_. (u, key, alg)) (public_keys d)) = rest_of (Some u) fst (public_keys d)"
    by (intro rest_of_upsert) auto
  with u show ?thesis by (auto simp: d' chat_within_def)
qed

text \<open>The statements that only read.\<close>

lemma chat_reads:
  "reads (user_rooms_stmt u1)" "reads (messages_stmt t2 r2 l2 o2)" "reads (as_uuid env3 x3 e2ee_stmt)"
  "reads (as_uuid env4 x4 public_key_stmt)" "reads (unread_stmt r5 u5)"
  by (auto simp: reads_def user_rooms_stmt_def messages_stmt_def as_uuid_def e2ee_stmt_def public_key_stmt_def unread_stmt_def
           split: option.splits sum.splits if_splits list.splits)

text \<open>The caller is a member of the room that the path names.\<close>

definition caller_in :: "chat_env \<Rightarrow> string \<Rightarrow> string \<Rightarrow> chat_db \<Rightarrow> bool" where
  "caller_in env room u d \<longleftrightarrow> (\<exists>r v. nullable env room = Some r \<and> nullable env u = Some v \<and> member_in d r v)"

lemma own_rooms:
  assumes "\<And>r. mg_scan env (mg_show env r) = Inr r"
  shows "moves (chat_within v) P (repo_GetUserRooms env u) (\<lambda>rs d. P d \<and> (\<forall>room. hasRoom rs room \<longrightarrow> caller_in env room u d))"
  unfolding repo_GetUserRooms_def
proof (rule chat.moves_bind [where M = "\<lambda>rs d. P d \<and> (\<forall>room. hasRoom (map (\<lambda>(r, a, m). room_of env r a m) rs) room \<longrightarrow> caller_in env room u d)"])
  show "moves (chat_within v) P (autocommit (user_rooms_stmt (nullable env u)))
     (\<lambda>rs d. P d \<and> (\<forall>room. hasRoom (map (\<lambda>(r, a, m). room_of env r a m) rs) room \<longrightarrow> caller_in env room u d))"
    by (rule chat.moves_autocommit)
      (use assms in \<open>auto simp: user_rooms_stmt_def hasRoom_def list_ex_iff room_of_def caller_in_def nullable_def chat.stays
          split: option.splits\<close>)
qed (rule chat.moves_return)

lemma require_member_moves:
  assumes "\<And>r. mg_scan env (mg_show env r) = Inr r"
    and "moves (chat_within v) (caller_in env room u) k (\<lambda>_ _. True)"
  shows "moves (chat_within v) (\<lambda>_. True) (require_member env room u k) (\<lambda>_ _. True)"
  unfolding require_member_def
proof (intro chat.moves_if chat.moves_reply [OF own_rooms [OF assms(1)]])
  fix rs
  assume "hasRoom rs room"
  with assms(2) show "moves (chat_within v) (\<lambda>d. True \<and> (\<forall>room. hasRoom rs room \<longrightarrow> caller_in env room u d)) k (\<lambda>_ _. True)"
    by (auto intro: chat.moves_weaken)
qed (auto intro: chat.moves_return)
lemma send_moves:
  assumes "m_room m = room" and "m_sender m = u"
  shows "moves (chat_within (nullable env u)) (caller_in env room u) (repo_SendMessage env i m) (\<lambda>_ _. True)"
  unfolding repo_SendMessage_def
  by (rule chat.moves_bind [where M = "\<lambda>_ _. True"], rule chat.moves_autocommit)
    (use assms in \<open>auto simp: caller_in_def intro: send_within chat.moves_return\<close>)

lemma SendMessage_moves:
  assumes "m_room m = room" and "m_sender m = u"
  shows "moves (chat_within (nullable env u)) (caller_in env room u) (SendMessage env i m) (\<lambda>_ _. True)"
  unfolding SendMessage_def Let_def repo_GetE2EEStatus_def
  by (rule chat.moves_bind [OF chat.moves_map_err [OF chat.moves_read [OF chat_reads(3)]]])
    (use assms in \<open>auto intro!: chat.moves_if chat.moves_case_option chat.moves_fail send_moves\<close>)

lemma history_moves: "moves (chat_within v) P (GetRoomHistory env room page) (\<lambda>_ _. True)"
  unfolding GetRoomHistory_def GetMessages_def
  by (rule chat.moves_bind [OF chat.moves_read [OF chat_reads(2)]]) (rule chat.moves_return, simp)

lemma handle_send_moves:
  assumes ids: "\<And>r. mg_scan env (mg_show env r) = Inr r"
  shows "moves (chat_within (nullable env u)) (\<lambda>_. True) (handle_send env i u room req) (\<lambda>_ _. True)"
  unfolding handle_send_def Let_def
  by (intro chat.moves_if require_member_moves [OF ids] chat.moves_case_option chat.moves_return
      chat.moves_reply [OF SendMessage_moves]) simp_all

lemma chat_handlers_move:
  assumes ids: "\<And>r. mg_scan env (mg_show env r) = Inr r"
  shows "moves (chat_within (nullable env u)) (\<lambda>_. True) (handle_chat env i u c) (\<lambda>_ _. True)"
proof (cases c)
  case RoomsReq
  show ?thesis
    unfolding RoomsReq handle_chat.simps handle_rooms_def
    by (rule chat.moves_reply [OF own_rooms [OF ids]]) (rule chat.moves_return, simp)
next
  case (DirectReq req)
  show ?thesis
    unfolding DirectReq handle_chat.simps with_body_def StartDirectChat_def
    by (intro chat.moves_case_option chat.moves_reply [OF create_room_moves] chat.moves_return) simp_all
next
  case (GroupReq req)
  show ?thesis
    unfolding GroupReq handle_chat.simps with_body_def CreateGroupChat_def
    by (intro chat.moves_case_option chat.moves_case_prod chat.moves_reply [OF create_room_moves] chat.moves_return) simp_all
next
  case (HistoryReq room cursor page)
  show ?thesis
    unfolding HistoryReq handle_chat.simps handle_history_def Let_def
    by (intro require_member_moves [OF ids] chat.moves_case_sum chat.moves_reply [OF history_moves] chat.moves_return) simp_all
next
  case (UnreadReq room)
  show ?thesis
    unfolding UnreadReq handle_chat.simps handle_unread_def Let_def
    by (auto intro!: chat.moves_if chat.moves_return chat.moves_reply [OF chat.moves_read [OF chat_reads(5)]] split: sum.split)
next
  case (SendReq room req)
  show ?thesis unfolding SendReq handle_chat.simps by (rule handle_send_moves [OF ids])
next
  case (EditReq mid req)
  have "moves (chat_within (nullable env u)) (\<lambda>_. True) (EditMessage env i mid u content) (\<lambda>_ _. True)" for content
    unfolding EditMessage_def repo_UpdateMessage_def
    by (rule chat.moves_bind [where M = "\<lambda>_ _. True"], rule chat.moves_autocommit)
      (auto simp: update_message_stmt_def Let_def fixed_part_def split: list.splits intro: own_message_within chat.moves_return)
  then show ?thesis
    unfolding EditReq handle_chat.simps with_body_def
    by (intro chat.moves_case_option chat.moves_reply chat.moves_return) simp_all
next
  case (DeleteReq mid)
  have "moves (chat_within (nullable env u)) (\<lambda>_. True) (repo_DeleteMessage env i mid u) (\<lambda>_ _. True)"
    unfolding repo_DeleteMessage_def
    by (rule chat.moves_autocommit) (auto simp: delete_message_stmt_def fixed_part_def intro: own_message_within)
  then show ?thesis
    unfolding DeleteReq handle_chat.simps by (intro chat.moves_reply chat.moves_return) simp_all
next
  case (ReactReq mid req)
  have "moves (chat_within (nullable env u)) (\<lambda>_. True) (repo_AddReaction env mid u e) (\<lambda>_ _. True)" for e
    unfolding repo_AddReaction_def by (rule chat.moves_autocommit) (auto intro: react_within)
  then show ?thesis
    unfolding ReactReq handle_chat.simps with_body_def
    by (intro chat.moves_case_option chat.moves_reply chat.moves_return) simp_all
next
  case (MuteReq room req)
  have "moves (chat_within (nullable env u)) (\<lambda>_. True) (MuteRoom env i u room n) (\<lambda>_ _. True)" for n
    unfolding MuteRoom_def repo_MuteRoom_def
    by (intro chat.moves_if chat.moves_fail chat.moves_case_option chat.moves_autocommit) (auto dest: mute_within unmute_within)
  then show ?thesis
    unfolding MuteReq handle_chat.simps with_body_def
    by (intro chat.moves_case_option chat.moves_reply chat.moves_return) simp_all
next
  case (TypingReq room)
  have "moves (chat_within (nullable env u)) (\<lambda>_. True) (SendTypingIndicator env i) (\<lambda>_ _. True)"
    unfolding SendTypingIndicator_def publish_def by (intro chat.moves_if chat.moves_return chat.moves_fail) simp
  then show ?thesis
    unfolding TypingReq handle_chat.simps by (intro chat.moves_reply chat.moves_return) simp_all
next
  case (ReadReq req)
  have "moves (chat_within (nullable env u)) (\<lambda>_. True) (MarkAsRead env i mid u) (\<lambda>_ _. True)" for mid
    unfolding MarkAsRead_def MarkRead_def by (rule chat.moves_autocommit) (auto intro: mark_read_within)
  then show ?thesis
    unfolding ReadReq handle_chat.simps with_body_def
    by (intro chat.moves_case_option chat.moves_reply chat.moves_return) simp_all
next
  case (KeyGetReq x)
  show ?thesis
    unfolding KeyGetReq handle_chat.simps handle_key_get_def GetPublicKey_def Let_def
    by (intro chat.moves_if chat.moves_return chat.moves_reply chat.moves_bind [OF chat.moves_read [OF chat_reads(4)]]
        chat.moves_case_prod) simp_all
next
  case (KeyUploadReq req)
  have "moves (chat_within (nullable env u)) (\<lambda>_. True) (UpsertPublicKey env u key alg) (\<lambda>_ _. True)" for key alg
    unfolding UpsertPublicKey_def by (rule chat.moves_autocommit) (auto intro: upsert_key_within)
  then show ?thesis
    unfolding KeyUploadReq handle_chat.simps handle_key_upload_def Let_def
    by (intro chat.moves_if chat.moves_return chat.moves_case_option chat.moves_case_prod chat.moves_reply) simp_all
qed
section \<open>Properties\<close>


lemma movesD_step: "moves R P m Q \<Longrightarrow> P (durable s) \<Longrightarrow> R (durable s) (durable (snd (m s)))"
  by (cases "m s") (auto simp: moves_def)

text \<open>A run of requests of any users.\<close>

definition chat_ok :: "chat_db \<Rightarrow> bool" where
  "chat_ok d \<longleftrightarrow> list_all (\<lambda>m. member_in d (cm_room m) (cm_author m)) (messages d) \<and>
     list_all (\<lambda>r. sees_message d (fst (fst r)) (snd (fst r))) (mreads d) \<and>
     list_all (\<lambda>r. sees_message d (fst (fst r)) (snd (fst r))) (reactions d)"

lemma chat_ok_within:
  assumes w: "chat_within u d d'" and ok: "chat_ok d"
  shows "chat_ok d'"
proof -
  note w = w [unfolded chat_within_def]
  have grows: "set (cmembers d) \<subseteq> set (cmembers d')" "place ` set (messages d) \<subseteq> place ` set (messages d')"
    using w by simp_all
  have sees: "sees_message d x v \<Longrightarrow> sees_message d' x v" for x v using grows by (auto intro: sees_message_mono)
  have "member_in d' (cm_room m) (cm_author m)" if m: "m \<in> set (messages d')" for m
  proof -
    from w m have "fixed_part m \<in> fixed_part ` set (messages d) \<or> member_in d' (cm_room m) (cm_author m)"
      by (elim conjE) (erule (1) bspec)
    then show ?thesis using ok grows(1) by (auto simp: chat_ok_def list_all_iff fixed_part_def member_in_def)
  qed
  moreover have "sees_message d' (fst r) (snd r)" if r: "r \<in> fst ` set (mreads d')" for r
  proof -
    from w r have "r \<in> fst ` set (mreads d) \<or> sees_message d' (fst r) (snd r)" by (elim conjE) (erule (1) bspec)
    then show ?thesis using ok sees by (auto simp: chat_ok_def list_all_iff)
  qed
  moreover have "sees_message d' (fst r) (snd r)" if r: "r \<in> fst ` set (reactions d')" for r
  proof -
    from w r have "r \<in> fst ` set (reactions d) \<or> sees_message d' (fst r) (snd r)" by (elim conjE) (erule (1) bspec)
    then show ?thesis using ok sees by (auto simp: chat_ok_def list_all_iff)
  qed
  ultimately show ?thesis by (auto simp: chat_ok_def list_all_iff)
qed

lemma run_chat_invariant:
  assumes ids: "\<And>r. mg_scan env (mg_show env r) = Inr r"
    and I: "\<And>u d d'. chat_within u d d' \<Longrightarrow> I d \<Longrightarrow> I d'"
  shows "I (durable s) \<Longrightarrow> I (durable (run_chat env cs s))"
proof (induction cs arbitrary: s)
  case (Cons x cs)
  obtain i outs u c where x: "x = (i, outs, u, c)" by (cases x)
  have "chat_within (nullable env u) (durable (s\<lparr>outcomes := outs\<rparr>)) (durable (snd (handle_chat env i u c (s\<lparr>outcomes := outs\<rparr>))))"
    by (rule movesD_step [OF chat_handlers_move [OF ids] TrueI])
  then have "I (durable (snd (handle_chat env i u c (s\<lparr>outcomes := outs\<rparr>))))" using Cons.prems I by simp
  from Cons.IH [OF this] show ?case by (simp add: x)
qed simp

text \<open>Identifiers that are their decimal numbers, and a room of two users.\<close>

definition chat_demo_env :: chat_env where
  "chat_demo_env = \<lparr>mg_scan = (\<lambda>x. case parse_int 200 x of None \<Rightarrow> Inl (Errorf ''uuid'') | Some n \<Rightarrow> Inr (word_of_int n)),
     mg_show = (\<lambda>w. show_nat (unat w)), mg_sanitize = id, mg_strip = id, mg_guard = False, mg_json_object = (\<lambda>_. False), mg_bus = False,
     mg_ties = (\<lambda>limit offset m. if offset = 0 then unat (cm_id m) else 0)\<rparr>"

lemma chat_demo_ids: "mg_scan chat_demo_env (mg_show chat_demo_env r) = Inr r"
proof -
  have "uint r < 2 ^ LENGTH(128)" by (rule unsigned_less)
  then have "int (unat r) < 2 ^ (200 - 1)" by simp
  from parse_int_shown [OF this] show ?thesis by (simp add: chat_demo_env_def)
qed

definition chat_demo_user :: "uuid \<Rightarrow> chat_user" where
  "chat_demo_user n = \<lparr>cu_id = n, cu_username = ''u'', cu_email = ''e'', cu_avatar = None\<rparr>"

definition chat_demo_message :: "uuid \<Rightarrow> uuid \<Rightarrow> int \<Rightarrow> message_row" where
  "chat_demo_message n author t = \<lparr>cm_id = n, cm_room = 7, cm_author = author, cm_parent = None, cm_content = ''hi'', cm_payload = None,
     cm_type = ''text'', cm_voice = None, cm_file = None, cm_edited = False, cm_pinned = False, cm_encrypted = False, cm_deleted = False,
     cm_burn = False, cm_expires = None, cm_created = t, cm_updated = t\<rparr>"

definition chat_demo_db :: "bool \<Rightarrow> chat_db" where
  "chat_demo_db secret = \<lparr>cusers = [chat_demo_user 1, chat_demo_user 2],
     rooms = [\<lparr>rm_id = 7, rm_name = [], rm_group = False, rm_e2ee = secret, rm_created = 0\<rparr>],
     cmembers = [(7, 1), (7, 2)], messages = [chat_demo_message 8 1 5, chat_demo_message 9 2 6, chat_demo_message 10 1 7], mreads = [], reactions = [], mutes = [],
     archives = [], folders = [], folder_rooms = [], public_keys = [], rotations = []\<rparr>"

definition chat_demo :: "bool \<Rightarrow> chat_db session" where
  "chat_demo secret = \<lparr>durable = chat_demo_db secret, view = chat_demo_db secret, aborted = False, outcomes = []\<rparr>"

lemma chat_demo_scan [simp]: "mg_scan chat_demo_env ''1'' = Inr 1" "mg_scan chat_demo_env ''2'' = Inr 2"
    "mg_scan chat_demo_env ''7'' = Inr 7" "mg_scan chat_demo_env ''8'' = Inr 8"
  by (simp_all add: chat_demo_env_def parse_int_def has_prefix_def is_digit_def read_digits_def digit_val_def Let_def)

lemma chat_demo_texts [simp]: "trim_space ''7'' = ''7''" "trim_space ''ok'' = ''ok''"
  by (simp_all add: trim_space_plain plain_byte_def)

definition chat_demo_input :: chat_input where "chat_demo_input = \<lparr>ci_now = 10, ci_id = 11, ci_bus_ok = True\<rparr>"

text \<open>
  C6. Whatever a routed request of the user \<open>u\<close> is, and whatever the database does during it, it changes what chat keeps
  only as \<open>chat_within u\<close> allows: nothing that others wrote, read, muted or published is touched, nobody is added to a
  room that existed, and a message is only sent to a room of which its author is a member.
\<close>

theorem chat_changes_authorised:
  assumes "\<And>r. mg_scan env (mg_show env r) = Inr r"
  shows "chat_within (nullable env u) (durable s) (durable (snd (handle_chat env i u c s)))"
  by (rule movesD_step [OF chat_handlers_move [OF assms] TrueI])

theorem chat_changes_authorised_witness:
  "chat_within (Some 1) (chat_demo_db False)
     (durable (snd (handle_chat chat_demo_env chat_demo_input ''1'' (ReactReq ''9'' (Some ''ok'')) (chat_demo False))))"
proof -
  have "nullable chat_demo_env ''1'' = Some 1"
    by (simp add: nullable_def)
  with chat_changes_authorised [of chat_demo_env "''1''" "chat_demo False", OF chat_demo_ids] show ?thesis
    by (simp add: chat_demo_def del: handle_chat.simps)
qed

text \<open>
  C21. Over any run of requests of any users, every stored message is by a member of its room, and every read mark and
  every reaction is by a member of the room of the message it is on.
\<close>

theorem messages_by_members:
  assumes "\<And>r. mg_scan env (mg_show env r) = Inr r" and "chat_ok (durable s)"
  shows "chat_ok (durable (run_chat env cs s))"
  using assms(2) by (rule run_chat_invariant [OF assms(1), rotated]) (rule chat_ok_within)

theorem messages_by_members_witness:
  "chat_ok (durable (run_chat chat_demo_env [(chat_demo_input, [AckLost], ''1'', ReactReq ''9'' (Some ''ok''))] (chat_demo False)))"
  by (rule messages_by_members [OF chat_demo_ids])
    (simp add: chat_ok_def chat_demo_def chat_demo_db_def member_in_def chat_demo_message_def)
section \<open>History\<close>

text \<open>The keys of the users and the foreign key from messages to their authors.\<close>

definition authors_known :: "chat_db \<Rightarrow> bool" where
  "authors_known d \<longleftrightarrow> distinct (map cu_id (cusers d)) \<and> list_all (\<lambda>m. cm_author m \<in> cu_id ` set (cusers d)) (messages d)"

definition newest_first :: "chat_db \<Rightarrow> uuid \<Rightarrow> message_row list" where
  "newest_first d r = sort_key (\<lambda>m. - cm_created m) (filter (\<lambda>m. cm_room m = r) (messages d))"

lemma one_author:
  assumes "distinct (map cu_id us)" and "a \<in> cu_id ` set us"
  shows "\<exists>v. filter (\<lambda>v. cu_id v = a) us = [v]"
proof -
  from assms(2) obtain v where "v \<in> set us" "cu_id v = a" by auto
  with filter_key_unique [OF assms(1), of v "\<lambda>_. True" a] show ?thesis by auto
qed

definition one_at_a_time :: "chat_db \<Rightarrow> uuid \<Rightarrow> bool" where
  "one_at_a_time d r \<longleftrightarrow> distinct (map cm_created (filter (\<lambda>m. cm_room m = r) (messages d)))"

lemma no_ties:
  assumes "one_at_a_time d r"
  shows "sort_key (\<lambda>m. - cm_created m) (sort_key rank (filter (\<lambda>m. cm_room m = r) (messages d))) = newest_first d r"
proof -
  from assms have "inj_on (\<lambda>m. - cm_created m) (set (filter (\<lambda>m. cm_room m = r) (messages d)))"
    by (simp add: one_at_a_time_def distinct_map inj_on_def)
  then show ?thesis unfolding newest_first_def by (intro sort_key_inj_key_eq) simp_all
qed

lemma fst_room_messages:
  assumes "authors_known d" and "one_at_a_time d r"
  shows "map fst (room_messages rank d (Some r)) = newest_first d r"
proof -
  have "map fst (concat (map (\<lambda>m. map (Pair m) (filter (\<lambda>u. cu_id u = cm_author m) (cusers d))) ms)) = ms"
    if "set ms \<subseteq> set (messages d)" for ms
    using that
  proof (induction ms)
    case (Cons m ms)
    with assms have "cm_author m \<in> cu_id ` set (cusers d)" by (auto simp: authors_known_def list_all_iff)
    with assms obtain v where "filter (\<lambda>v. cu_id v = cm_author m) (cusers d) = [v]"
      using one_author by (auto simp: authors_known_def)
    with Cons show ?case by simp
  qed simp
  from this [of "newest_first d r"] show ?thesis by (auto simp: room_messages_def no_ties [OF assms(2)] newest_first_def)
qed

lemma room_messages_rank:
  assumes "one_at_a_time d r"
  shows "room_messages rank d (Some r) = room_messages (\<lambda>_. 0) d (Some r)"
  by (simp add: room_messages_def no_ties [OF assms])

lemma autocommit_read: "outcomes s = [] \<Longrightarrow> f (durable s) = Inr (a, durable s) \<Longrightarrow> autocommit f s = (Inr a, s)"
  by (simp add: autocommit_def next_outcome_def)

lemma membership_found:
  assumes "outcomes s = []" and "u \<noteq> []" and "room \<noteq> []" and "mg_scan env u = Inr v" and "mg_show env r = room"
    and "member_in (durable s) r v" and "r \<in> rm_id ` set (rooms (durable s))"
  shows "require_member env room u k s = k s"
proof -
  let ?rs = "map (\<lambda>r. (r, map_of (archives (durable s)) (v, rm_id r) = Some True, map_of (mutes (durable s)) (v, rm_id r)))
                   (sort_key (\<lambda>r. - rm_created r) (filter (\<lambda>r. member_in (durable s) (rm_id r) v) (rooms (durable s))))"
  have run: "repo_GetUserRooms env u s = (Inr (map (\<lambda>(r, a, m). room_of env r a m) ?rs), s)"
    unfolding repo_GetUserRooms_def dbind_def
    using assms(1,4) by (subst autocommit_read [of _ _ ?rs]) (simp_all add: user_rooms_stmt_def nullable_def dreturn_def)
  from assms(6,7) have "\<exists>x\<in>set (rooms (durable s)). member_in (durable s) (rm_id x) v \<and> rm_id x = r" by auto
  then have "hasRoom (map (\<lambda>(r, a, m). room_of env r a m) ?rs) room"
    using assms(5) by (auto simp: hasRoom_def list_ex_iff room_of_def)
  with assms(2,3) show ?thesis
    by (simp add: require_member_def dreply_def dbind_def dattempt_def run)
qed

lemma sint_word_of_int_32: "sint (word_of_int k :: 32 word) = signed_take_bit 31 k"
  by transfer simp

lemma page_offset:
  assumes "0 \<le> p" and "50 * p < 2 ^ 31"
  shows "sint (word_of_int p * word_of_int history_page :: 32 word) = 50 * p"
proof -
  have eq: "word_of_int p * word_of_int history_page = (word_of_int (50 * p) :: 32 word)" by (simp add: history_page_def mult.commute)
  have "sint (word_of_int (50 * p) :: 32 word) = signed_take_bit 31 (50 * p)" by (rule sint_word_of_int_32)
  then show ?thesis unfolding eq using assms by (simp add: signed_take_bit_int_eq_self)
qed

lemma history_page_reply:
  assumes "outcomes s = []" and "u \<noteq> []" and "room \<noteq> []" and "trim_space room = room" and "mg_scan env u = Inr v"
    and "mg_show env r = room" and "mg_scan env room = Inr r"
    and "member_in (durable s) r v" and "r \<in> rm_id ` set (rooms (durable s))"
    and "requested_page cursor [] = Inr (int p)" and "50 * int p < 2 ^ 31" and "one_at_a_time (durable s) r"
  shows "handle_history env u room cursor [] s =
     (let ms = take 50 (drop (50 * p) (room_messages (\<lambda>_. 0) (durable s) (Some r)))
      in (Inr (200, CHistory (map (history_entry env) ms) (if length ms = 50 then show_nat (Suc p) else []) (length ms = 50)), s))"
proof -
  let ?ms = "take 50 (drop (50 * p) (room_messages (\<lambda>_. 0) (durable s) (Some r)))"
  have offset: "sint (word_of_int (int p) * word_of_int history_page :: 32 word) = 50 * int p" using assms(11) by (intro page_offset) auto
  have "messages_stmt (mg_ties env) (Some r) history_page (50 * int p) (durable s) = Inr (?ms, durable s)"
    by (simp add: messages_stmt_def history_page_def nat_mult_distrib room_messages_rank [OF assms(12), of "mg_ties env 50 (50 * int p)"])
  from autocommit_read [of s "messages_stmt (mg_ties env) (Some r) history_page (50 * int p)", OF assms(1) this]
  have run: "GetRoomHistory env room (word_of_int (int p)) s = (Inr (map (history_entry env) ?ms), s)"
    unfolding GetRoomHistory_def GetMessages_def offset
    by (simp add: dbind_def dreturn_def nullable_def assms(7))
  have "int p + 1 = int (Suc p)" by simp
  then have next_page: "nat (int p + 1) = Suc p" by (simp only: nat_int)
  show ?thesis
    unfolding handle_history_def Let_def assms(4) membership_found [OF assms(1,2,3,5,6,8,9)] assms(10)
      dreply_def dbind_def dattempt_def run sum.case prod.case dreturn_def next_page length_map
    by (rule refl)
qed

text \<open>Following the cursors from page to page.\<close>

fun read_history :: "chat_env \<Rightarrow> string \<Rightarrow> string \<Rightarrow> nat \<Rightarrow> string \<Rightarrow> chat_db session \<Rightarrow> string list option" where
  "read_history env u room 0 cursor s = None"
| "read_history env u room (Suc n) cursor s =
     (case handle_history env u room cursor [] s of
        (Inr (code, CHistory ms cursor' full), s') \<Rightarrow>
          if full then map_option ((@) (map m_id ms)) (read_history env u room n cursor' s') else Some (map m_id ms)
      | _ \<Rightarrow> None)"

lemma requested_shown: "int p < 2 ^ 31 \<Longrightarrow> requested_page (show_nat p) [] = Inr (int p)"
proof -
  assume p: "int p < 2 ^ 31"
  have plain: "plain_byte (hd (show_nat p))" "plain_byte (last (show_nat p))"
    using show_nat_digits [of p] show_nat_nonempty [of p] by (auto simp: list_all_iff intro: digit_plain)
  with p show ?thesis
    by (simp add: requested_page_def trim_space_plain show_nat_nonempty parse_int_shown [of p 32])
qed

lemma read_from_page:
  assumes "outcomes s = []" and "u \<noteq> []" and "room \<noteq> []" and "trim_space room = room" and "mg_scan env u = Inr v"
    and "mg_show env r = room" and "mg_scan env room = Inr r"
    and "member_in (durable s) r v" and "r \<in> rm_id ` set (rooms (durable s))"
    and "length (room_messages (\<lambda>_. 0) (durable s) (Some r)) < 2 ^ 31" and "one_at_a_time (durable s) r"
  shows "length (room_messages (\<lambda>_. 0) (durable s) (Some r)) < 50 * (p + n) \<Longrightarrow> 50 * p \<le> length (room_messages (\<lambda>_. 0) (durable s) (Some r)) \<Longrightarrow>
    requested_page cursor [] = Inr (int p) \<Longrightarrow>
    read_history env u room n cursor s = Some (map m_id (map (history_entry env) (drop (50 * p) (room_messages (\<lambda>_. 0) (durable s) (Some r)))))"
proof (induction n arbitrary: p cursor)
  case (Suc n)
  let ?L = "room_messages (\<lambda>_. 0) (durable s) (Some r)"
  from Suc.prems(2) assms(10) have "50 * p < 2 ^ 31" by (rule le_less_trans)
  then have page: "50 * int p < 2 ^ 31" by simp
  note reply = history_page_reply [OF assms(1-9) Suc.prems(3) page assms(11), unfolded Let_def]
  show ?case
  proof (cases "length (take 50 (drop (50 * p) ?L)) = 50")
    case True
    then have full: "50 * Suc p \<le> length ?L" by simp
    have "int (Suc p) < 2 ^ 31" using full assms(10) by simp
    then have "requested_page (show_nat (Suc p)) [] = Inr (int (Suc p))" by (rule requested_shown)
    with Suc.IH [of "Suc p", OF _ full] Suc.prems(1)
    have rest: "read_history env u room n (show_nat (Suc p)) s = Some (map m_id (map (history_entry env) (drop (50 * Suc p) ?L)))" by simp
    have "drop (50 * p) ?L = take 50 (drop (50 * p) ?L) @ drop (50 * Suc p) ?L"
      using append_take_drop_id [of 50 "drop (50 * p) ?L"] by (simp add: add.commute)
    then have "map m_id (map (history_entry env) (drop (50 * p) ?L)) =
        map m_id (map (history_entry env) (take 50 (drop (50 * p) ?L))) @ map m_id (map (history_entry env) (drop (50 * Suc p) ?L))"
      by (metis map_append)
    then show ?thesis unfolding read_history.simps reply prod.case sum.case chat_body.case True
      by (simp only: if_True rest option.map simp_thms)
  next
    case False
    then have "take 50 (drop (50 * p) ?L) = drop (50 * p) ?L" by simp
    with False show ?thesis unfolding read_history.simps reply prod.case sum.case chat_body.case by simp
  qed
qed simp

text \<open>
  C30. A member who follows the cursors of a room's history from the start, over a reliable database, is given every message
  of the room exactly once, newest first, whatever order the pages give to ties and also when the number of messages is a
  multiple of the page size, provided that no two messages of the room have the same creation time and that the room has
  fewer messages than a 32-bit offset can address. Without the first proviso it fails: \<open>ties_lose_messages\<close>.
\<close>

theorem history_complete:
  assumes "outcomes s = []" and "u \<noteq> []" and "room \<noteq> []" and "trim_space room = room" and "mg_scan env u = Inr v"
    and "mg_show env r = room" and "mg_scan env room = Inr r"
    and "member_in (durable s) r v" and "r \<in> rm_id ` set (rooms (durable s))" and "authors_known (durable s)"
    and "length (newest_first (durable s) r) < 50 * n" and "length (newest_first (durable s) r) < 2 ^ 31"
    and "one_at_a_time (durable s) r"
  shows "read_history env u room n [] s = Some (map (\<lambda>m. mg_show env (cm_id m)) (newest_first (durable s) r))"
proof -
  let ?L = "room_messages (\<lambda>_. 0) (durable s) (Some r)"
  have fst: "map fst ?L = newest_first (durable s) r" using assms(10,13) by (rule fst_room_messages)
  then have len: "length ?L = length (newest_first (durable s) r)" by (metis length_map)
  have "requested_page [] [] = Inr (int 0)" by (simp add: requested_page_def)
  with assms(11,12,13) have "read_history env u room n [] s = Some (map m_id (map (history_entry env) (drop (50 * 0) ?L)))"
    by (intro read_from_page [OF assms(1-9)]) (simp_all add: len)
  also have "map m_id (map (history_entry env) (drop (50 * 0) ?L)) = map (\<lambda>m. mg_show env (cm_id m)) (map fst ?L)"
    by (auto simp: history_entry_def)
  finally show ?thesis by (simp add: fst)
qed

text \<open>A room of 120 messages, the later ones with the smaller numbers: two full pages and a third.\<close>

definition long_room :: "chat_db session" where
  "long_room = (let d = (chat_demo_db False)\<lparr>messages := map (\<lambda>k. chat_demo_message (word_of_nat k) 1 (- int k)) [0..<120]\<rparr>
     in (chat_demo False)\<lparr>durable := d, view := d\<rparr>)"

lemma long_room_newest: "newest_first (durable long_room) 7 = map (\<lambda>k. chat_demo_message (word_of_nat k) 1 (- int k)) [0..<120]"
proof -
  have "sorted (map (\<lambda>m. - cm_created m) (map (\<lambda>k. chat_demo_message (word_of_nat k) 1 (- int k)) [0..<120]))"
    by (simp add: chat_demo_message_def comp_def sorted_map sorted_wrt_upt)
  then show ?thesis
    by (simp add: newest_first_def long_room_def Let_def chat_demo_message_def filter_map comp_def sort_key_id_if_sorted)
qed

theorem history_complete_witness:
  "read_history chat_demo_env ''1'' ''7'' 3 [] long_room = Some (map (\<lambda>k. mg_show chat_demo_env (word_of_nat k)) [0..<120])"
proof -
  have seven: "mg_show chat_demo_env 7 = ''7''" by (simp add: chat_demo_env_def show_nat.simps [of 7] digit_char_def) code_simp
  have base: "outcomes long_room = []" "member_in (durable long_room) 7 1" "7 \<in> rm_id ` set (rooms (durable long_room))"
      "authors_known (durable long_room)"
    by (simp_all add: long_room_def Let_def chat_demo_def chat_demo_db_def member_in_def authors_known_def chat_demo_message_def
        chat_demo_user_def list_all_iff)
  have apart: "one_at_a_time (durable long_room) 7"
    by (simp add: one_at_a_time_def long_room_def Let_def chat_demo_message_def filter_map comp_def distinct_map inj_on_def)
  show ?thesis
    using history_complete [of long_room "''1''" "''7''" chat_demo_env 1 7 3, OF base(1) _ _ _ _ seven _ base(2-4) _ _ apart]
    by (simp add: long_room_newest comp_def chat_demo_message_def)
qed

text \<open>Two messages of one instant: both pages may give the same one, and no page the other.\<close>

lemma ties_lose_messages:
  fixes d :: chat_db
  defines "d \<equiv> (chat_demo_db False)\<lparr>messages := [chat_demo_message 9 1 5, chat_demo_message 8 1 5]\<rparr>"
  shows "\<exists>ties. (\<forall>offset\<in>{0, 1}. messages_stmt ties (Some 7) 1 offset d = Inr ([(chat_demo_message 8 1 5, chat_demo_user 1)], d))"
proof (intro exI ballI)
  fix offset :: int assume "offset \<in> {0, 1}"
  then show "messages_stmt (mg_ties chat_demo_env) (Some 7) 1 offset d = Inr ([(chat_demo_message 8 1 5, chat_demo_user 1)], d)"
    by (auto simp: messages_stmt_def room_messages_def d_def chat_demo_db_def chat_demo_message_def chat_demo_user_def chat_demo_env_def)
qed

text \<open>A page beyond the reach of an offset is the same as one near the start.\<close>

lemma history_page_wraps: "GetRoomHistory env room 85899346 = GetMessages env room 50 4"
  by (simp add: GetRoomHistory_def history_page_def)
section \<open>Unread messages\<close>

lemma chat_reads_kept: "chat_within u d d' \<Longrightarrow> fst ` set (mreads d) \<subseteq> fst ` set (mreads d')"
  by (simp add: chat_within_def)

lemma read_recorded:
  assumes "handle_chat env i u (ReadReq (Some mid)) s = (Inr (200, b), s')"
    and "mg_scan env mid = Inr k" and "mg_scan env u = Inr v" and "sees_message (durable s) k v"
  shows "(k, v) \<in> fst ` set (mreads (durable s'))"
proof -
  from assms(1) obtain x where "autocommit (mark_read_stmt i (Some k) (Some v)) s = (Inr x, s')"
    by (auto simp: with_body_def MarkAsRead_def MarkRead_def dreply_ok dreturn_def failed_request_def unable_def nullable_def assms(2,3))
  then have "mark_read_stmt i (Some k) (Some v) (durable s) = Inr (x, durable s')" by (rule autocommit_cases(2)) simp
  with assms(4) have "durable s' = (durable s)\<lparr>mreads := sql_upsert fst ((k, v), ci_now i) (\<lambda>r. (fst r, ci_now i)) (mreads (durable s))\<rparr>"
    by (simp add: mark_read_stmt_def)
  then show ?thesis by (simp add: keys_sql_upsert)
qed

lemma joined_row:
  "(x, w) \<in> set (take n (concat (map (\<lambda>m. map (Pair m) (filter (Q m) us)) (sort_key k (filter P ms))))) \<Longrightarrow> x \<in> set ms \<and> P x"
  by (auto dest!: in_set_takeD)

lemma unread_answer:
  assumes "handle_chat env i u (UnreadReq room) s = (Inr (c, CUnread ms), s')" and "mg_scan env u = Inr v" and "m \<in> set ms"
  shows "\<exists>r x. mg_scan env (trim_space room) = Inr r \<and> x \<in> set (messages (durable s)) \<and> m_id m = mg_show env (cm_id x) \<and>
    m_room m = mg_show env r \<and> member_in (durable s) r v \<and> cm_room x = r \<and> cm_author x \<noteq> v \<and> \<not> cm_deleted x \<and>
    (cm_id x, v) \<notin> fst ` set (mreads (durable s))"
proof -
  from assms(1,2) obtain r rs where r: "mg_scan env (trim_space room) = Inr r"
    and run: "autocommit (unread_stmt r v) s = (Inr rs, s')" and ms: "ms = map (unread_entry env) rs"
    by (auto simp: handle_unread_def Let_def dreply_ok dreturn_def split: if_splits sum.splits)
  from run have "unread_stmt r v (durable s) = Inr (rs, durable s')" by (rule autocommit_cases(2)) simp
  then have rs: "rs = take 100 (concat (map (\<lambda>m. map (Pair m) (filter (\<lambda>v. cu_id v = cm_author m) (cusers (durable s))))
       (sort_key cm_created (filter (\<lambda>m. cm_room m = r \<and> member_in (durable s) r v \<and> cm_author m \<noteq> v \<and>
          (cm_id m, v) \<notin> fst ` set (mreads (durable s)) \<and> \<not> cm_deleted m) (messages (durable s))))))"
    by (auto simp: unread_stmt_def)
  from ms assms(3) obtain x w where "(x, w) \<in> set rs" and m: "m = unread_entry env (x, w)" by auto
  from joined_row [OF this(1) [unfolded rs]] r m show ?thesis
    by (intro exI [of _ r] exI [of _ x]) (simp add: unread_entry_def)
qed

text \<open>
  Once a member's request to mark a message as read has been confirmed, no later answer about unread messages to that
  user has it, whatever requests anyone makes in between and whatever the database does during them. What such an answer
  has is by others, in the room of the request, of which the user is a member, and not deleted.
\<close>

theorem read_stays_read:
  assumes ids: "\<And>r. mg_scan env (mg_show env r) = Inr r"
    and read: "handle_chat env i u (ReadReq (Some mid)) s = (Inr (200, b), s1)"
    and seen: "mg_scan env mid = Inr k" "mg_scan env u = Inr v" "sees_message (durable s) k v"
    and unread: "handle_chat env i' u (UnreadReq room) (run_chat env cs s1) = (Inr (c, CUnread ms), s2)"
  shows "list_all (\<lambda>m. m_id m \<noteq> mg_show env k \<and> (\<exists>x\<in>set (messages (durable (run_chat env cs s1))).
    m_id m = mg_show env (cm_id x) \<and> cm_author x \<noteq> v \<and> \<not> cm_deleted x \<and> member_in (durable (run_chat env cs s1)) (cm_room x) v)) ms"
proof -
  have "(k, v) \<in> fst ` set (mreads (durable s1))" by (rule read_recorded [OF read seen])
  then have kept: "(k, v) \<in> fst ` set (mreads (durable (run_chat env cs s1)))"
    by (rule run_chat_invariant [OF ids, rotated, where I = "\<lambda>d. (k, v) \<in> fst ` set (mreads d)"])
      (blast dest: chat_reads_kept)
  have "m_id m \<noteq> mg_show env k \<and> (\<exists>x\<in>set (messages (durable (run_chat env cs s1))).
    m_id m = mg_show env (cm_id x) \<and> cm_author x \<noteq> v \<and> \<not> cm_deleted x \<and> member_in (durable (run_chat env cs s1)) (cm_room x) v)"
    if m: "m \<in> set ms" for m
  proof -
    from unread_answer [OF unread seen(2) m] obtain x where x: "x \<in> set (messages (durable (run_chat env cs s1)))"
      "m_id m = mg_show env (cm_id x)" "member_in (durable (run_chat env cs s1)) (cm_room x) v" "cm_author x \<noteq> v" "\<not> cm_deleted x"
      "(cm_id x, v) \<notin> fst ` set (mreads (durable (run_chat env cs s1)))" by blast
    then have "cm_id x \<noteq> k" using kept by blast
    then have "mg_show env (cm_id x) \<noteq> mg_show env k" using ids by (metis sum.inject(2))
    with x show ?thesis by auto
  qed
  then show ?thesis by (simp add: list_all_iff)
qed

theorem read_stays_read_witness:
  "case fst (handle_chat chat_demo_env chat_demo_input ''2'' (UnreadReq ''7'')
      (run_chat chat_demo_env [] (snd (handle_chat chat_demo_env chat_demo_input ''2'' (ReadReq (Some ''8'')) (chat_demo False))))) of
     Inr (c, CUnread ms) \<Rightarrow> ms \<noteq> [] \<and> list_all (\<lambda>m. m_id m \<noteq> mg_show chat_demo_env 8) ms
   | _ \<Rightarrow> False"
proof -
  let ?s1 = "snd (handle_chat chat_demo_env chat_demo_input ''2'' (ReadReq (Some ''8'')) (chat_demo False))"
  let ?d1 = "(chat_demo_db False)\<lparr>mreads := [((8, 2), 10)]\<rparr>"
  have read: "handle_chat chat_demo_env chat_demo_input ''2'' (ReadReq (Some ''8'')) (chat_demo False) = (Inr (200, CNone), (chat_demo False)\<lparr>durable := ?d1\<rparr>)"
    by (simp add: with_body_def MarkAsRead_def MarkRead_def mark_read_stmt_def nullable_def autocommit_def next_outcome_def dreply_def
        dbind_def dattempt_def dreturn_def chat_demo_def chat_demo_db_def chat_demo_message_def sees_message_def member_in_def
        sql_upsert_def chat_demo_input_def)
  obtain ms where unread: "handle_chat chat_demo_env chat_demo_input ''2'' (UnreadReq ''7'') (run_chat chat_demo_env [] ?s1) = (Inr (200, CUnread ms), ?s1)"
    and "ms \<noteq> []"
    unfolding read
    by (simp add: handle_unread_def unread_stmt_def autocommit_def next_outcome_def dreply_def dbind_def dattempt_def dreturn_def
        chat_demo_def chat_demo_db_def chat_demo_message_def chat_demo_user_def member_in_def)
  have "sees_message (durable (chat_demo False)) 8 2"
    by (simp add: chat_demo_def chat_demo_db_def chat_demo_message_def sees_message_def member_in_def)
  from read_stays_read [OF chat_demo_ids read _ _ this unread [unfolded read snd_conv]] \<open>ms \<noteq> []\<close> unread
  show ?thesis by (simp add: list_all_iff del: handle_chat.simps)
qed

section \<open>End-to-end rooms\<close>

text \<open>What a request may store in rooms whose messages are end-to-end encrypted.\<close>

definition e2ee_room :: "chat_db \<Rightarrow> uuid \<Rightarrow> bool" where
  "e2ee_room d r \<longleftrightarrow> e2ee_stmt r d = Inr (True, d)"

definition sealed :: "chat_db \<Rightarrow> chat_db \<Rightarrow> bool" where
  "sealed d d' \<longleftrightarrow> rooms d' = rooms d \<and>
     (\<forall>m\<in>set (messages d'). m \<in> set (messages d) \<or> (e2ee_room d (cm_room m) \<longrightarrow> cm_content m = [] \<and> cm_encrypted m))"

lemma e2ee_room_cong: "rooms d' = rooms d \<Longrightarrow> e2ee_room d' r = e2ee_room d r"
  by (auto simp: e2ee_room_def e2ee_stmt_def split: list.splits)

interpretation seal: evolution sealed
proof
  show "sealed d d" for d by (simp add: sealed_def)
next
  fix d d' d''
  assume 1: "sealed d d'" and 2: "sealed d' d''"
  then have same: "e2ee_room d' r = e2ee_room d r" for r by (intro e2ee_room_cong) (simp add: sealed_def)
  have "m \<in> set (messages d) \<or> (e2ee_room d (cm_room m) \<longrightarrow> cm_content m = [] \<and> cm_encrypted m)" if "m \<in> set (messages d'')" for m
    using that 1 2 unfolding sealed_def same by blast
  with 1 2 show "sealed d d''" by (simp add: sealed_def)
qed

lemma seal_send:
  assumes "P = (\<lambda>d. \<forall>r. nullable env (m_room m) = Some r \<longrightarrow> e2ee_room d r \<longrightarrow> m_content m = [] \<and> m_encrypted m)"
  shows "moves sealed P (repo_SendMessage env i m) (\<lambda>_ _. True)"
  unfolding repo_SendMessage_def
proof (rule seal.moves_bind [where M = "\<lambda>_ _. True"], rule seal.moves_autocommit)
  fix d a d'
  assume "P d" and "create_message_stmt i (nullable env (m_room m)) (nullable env (m_sender m))
      (case m_parent m of None \<Rightarrow> None | Some p \<Rightarrow> nullable env p) m d = Inr (a, d')"
  then show "sealed d d' \<and> True"
    by (auto simp: assms create_message_stmt_def Let_def sql_insert_def sealed_def split: if_splits sum.splits option.splits)
qed (rule seal.moves_return, simp)

lemma seal_SendMessage: "moves sealed (\<lambda>_. True) (SendMessage env i m) (\<lambda>_ _. True)"
  unfolding SendMessage_def Let_def repo_GetE2EEStatus_def
proof (rule seal.moves_bind [where M = "\<lambda>b d. \<forall>r. nullable env (m_room m) = Some r \<longrightarrow> e2ee_room d r \<longrightarrow> b"],
    rule seal.moves_map_err, rule seal.moves_autocommit)
  fix d b d'
  assume "as_uuid env (m_room (m\<lparr>m_content := mg_sanitize env (m_content m)\<rparr>)) e2ee_stmt d = Inr (b, d')"
  then show "sealed d d' \<and> (\<forall>r. nullable env (m_room m) = Some r \<longrightarrow> e2ee_room d' r \<longrightarrow> b)"
    by (auto simp: as_uuid_def nullable_def e2ee_room_def e2ee_stmt_def seal.stays split: sum.splits list.splits)
next
  fix b
  show "moves sealed (\<lambda>d. \<forall>r. nullable env (m_room m) = Some r \<longrightarrow> e2ee_room d r \<longrightarrow> b)
      (if \<not> b then repo_SendMessage env i (m\<lparr>m_content := mg_sanitize env (m_content m)\<rparr>)
       else case m_payload (m\<lparr>m_content := mg_sanitize env (m_content m)\<rparr>) of
         None \<Rightarrow> dfail (Errorf ''e2ee room requires encrypted payload'')
       | Some p \<Rightarrow> if mg_guard env \<and> mg_json_object env p
                  then dfail (Wrapf ''aegis integrity check failed'' (Errorf ''aegis: payload cannot be nil''))
                  else repo_SendMessage env i (m\<lparr>m_content := mg_sanitize env (m_content m), m_content := [], m_encrypted := True\<rparr>))
      (\<lambda>_ _. True)"
    by (intro seal.moves_if seal.moves_case_option seal.moves_fail; rule seal.moves_weaken [OF seal_send [OF refl]]) auto
qed

text \<open>
  C33. Sending a message never stores a plaintext in a room whose messages are end-to-end encrypted: whatever the request,
  a message it adds to such a room has an empty content and is marked as encrypted, and no room changes.
\<close>

theorem e2ee_send_stores_no_plaintext:
  "sealed (durable s) (durable (snd (handle_chat env i u (SendReq room req) s)))"
proof -
  have members: "moves sealed (\<lambda>_. True) (repo_GetUserRooms env u) (\<lambda>_ _. True)"
    unfolding repo_GetUserRooms_def
    by (rule seal.moves_bind [OF seal.moves_read [OF chat_reads(1)]]) (rule seal.moves_return, simp)
  have "moves sealed (\<lambda>_. True) (handle_send env i u room req) (\<lambda>_ _. True)"
    unfolding handle_send_def require_member_def Let_def
    by (intro seal.moves_if seal.moves_reply [OF members] seal.moves_case_option seal.moves_reply [OF seal_SendMessage]
        seal.moves_return TrueI)
  from movesD_step [OF this TrueI] show ?thesis by simp
qed

text \<open>Editing the message puts a plaintext there.\<close>

lemma edit_breaks_seal:
  "\<not> sealed (chat_demo_db True)
     (durable (snd (handle_chat chat_demo_env chat_demo_input ''1'' (EditReq ''8'' (Some ''plain'')) (chat_demo True))))"
proof -
  have "nullable chat_demo_env ''1'' = Some 1" "nullable chat_demo_env ''8'' = Some 8"
    by (simp_all add: nullable_def)
  then show ?thesis
    by (simp add: with_body_def EditMessage_def repo_UpdateMessage_def update_message_stmt_def autocommit_def next_outcome_def dreply_def
        dbind_def dattempt_def dreturn_def chat_demo_def chat_demo_db_def chat_demo_message_def own_message_def sql_update_def Let_def
        sealed_def e2ee_room_def e2ee_stmt_def chat_demo_env_def)
qed

section \<open>Sequence numbers\<close>

datatype aegis_event = Receive "64 word" "aegis_payload option" | Purge

text \<open>The sequence numbers accepted for one conversation since it was last purged, the last one first.\<close>

fun run_aegis :: "string \<Rightarrow> aegis_event list \<Rightarrow> int list \<Rightarrow> aegis \<Rightarrow> int list \<times> aegis" where
  "run_aegis conv [] ns g = (ns, g)"
| "run_aegis conv (Receive now p # es) ns g =
     (case VerifyMessageIntegrity now conv p g of
        (Inl e, g') \<Rightarrow> run_aegis conv es ns g'
      | (Inr _, g') \<Rightarrow> run_aegis conv es (case p of None \<Rightarrow> ns | Some p \<Rightarrow> ap_sequence p # ns) g')"
| "run_aegis conv (Purge # es) ns g = run_aegis conv es [] (PurgeEphemeralSession conv g)"

text \<open>
  The messages of a conversation that pass the integrity check carry strictly increasing sequence numbers, so that a
  message that was accepted is not accepted again before the conversation is purged.
\<close>

theorem aegis_sequences_increase: "sorted_wrt (>) (fst (run_aegis conv es [] NewAegisGuard))"
proof -
  have "sorted_wrt (>) ns \<Longrightarrow> ratchets g conv = (case ns of [] \<Rightarrow> None | n # _ \<Rightarrow> Some n) \<Longrightarrow> sorted_wrt (>) (fst (run_aegis conv es ns g))" for ns g
  proof (induction conv es ns g rule: run_aegis.induct)
    case (2 conv now p es ns g)
    show ?case
    proof (cases "fst (VerifyMessageIntegrity now conv p g)")
      case (Inl e)
      then have "VerifyMessageIntegrity now conv p g = (Inl e, g)"
        by (auto simp: VerifyMessageIntegrity_def ValidateRatchetSequence_def split: option.splits if_splits)
      with 2 show ?thesis by simp
    next
      case (Inr x)
      then obtain q where q: "p = Some q" and m: "\<forall>m. ratchets g conv = Some m \<longrightarrow> m < ap_sequence q"
        and run: "VerifyMessageIntegrity now conv p g = (Inr (), g\<lparr>ratchets := (ratchets g)(conv \<mapsto> ap_sequence q)\<rparr>)"
        by (auto simp: VerifyMessageIntegrity_def ValidateRatchetSequence_def split: option.splits if_splits)
      have "sorted_wrt (>) (ap_sequence q # ns)"
        using 2(3,4) m by (cases ns) auto
      with 2(2) [OF run [symmetric]] q run show ?thesis by simp
    qed
  qed (simp_all add: PurgeEphemeralSession_def)
  then show ?thesis by (simp add: NewAegisGuard_def)
qed

end
