(* ===== verification/Content.thy ===== *)
theory Content
  imports Complex_Main Social Encoding
begin

text \<open>
  Posts, comments, resonances and polls: \<open>modules/content\<close> over PostgreSQL, with the content guard of \<open>RateLimit\<close>, as
  \<open>wiring.go\<close> composes it when no ScyllaDB is configured. Followers are those of \<open>Social\<close>. Identifiers, the HTML sanitiser,
  the fingerprint of a text and \<open>LOWER(...) LIKE\<close> are parameters; publications on the bus, whose failure the code ignores,
  are left out. No migration creates \<open>comments\<close>, \<open>reactions\<close> or the poll tables, nor all the columns of \<open>posts\<close> that the
  queries name: they are given those columns, with the unique keys that the statements name and references to users and polls.
\<close>

section \<open>Tables\<close>

text \<open>\<open>published_at\<close> is added by a migration without a default, and no statement sets it.\<close>

record post_row =
  po_id :: uuid
  po_author :: uuid
  po_text :: string
  po_media :: "string list"
  po_visibility :: string
  po_pinned :: bool
  po_archived :: bool
  po_draft :: bool
  po_published :: "int option"
  po_deleted :: "int option"
  po_scheduled :: "int option"
  po_expires :: "int option"
  po_warning :: "string option"
  po_views :: int
  po_comments :: int
  po_shares :: int
  po_created :: int
  po_updated :: int

record comment_row =
  co_id :: uuid
  co_post :: uuid
  co_author :: uuid
  co_parent :: "uuid option"
  co_content :: string
  co_created :: int
  co_updated :: int

record poll_row =
  pl_id :: uuid
  pl_post :: uuid
  pl_question :: string
  pl_ends :: int
  pl_created :: int

record collection_row =
  bc_id :: uuid
  bc_owner :: uuid
  bc_name :: string
  bc_private :: bool
  bc_created :: int

text \<open>
  Reactions and votes are keyed by their first pair; poll options are \<open>(id, poll, text)\<close>, bookmarks
  \<open>((user, post), (collection, created))\<close>, link previews \<open>(post, (url, title, description, image))\<close>.
\<close>

record content_db =
  graph :: social_db
  posts :: "post_row list"
  comments :: "comment_row list"
  resonances :: "((uuid \<times> uuid) \<times> string) list"     \<comment> \<open>user, target\<close>
  polls :: "poll_row list"
  poll_options :: "(uuid \<times> uuid \<times> string) list"
  votes :: "((uuid \<times> uuid) \<times> uuid) list"            \<comment> \<open>poll, user; option\<close>
  collections :: "collection_row list"
  bookmarks :: "((uuid \<times> uuid) \<times> (uuid option \<times> int)) list"
  previews :: "(uuid \<times> (string \<times> string \<times> string \<times> string)) list"

text \<open>The fields of \<open>domain.Signal\<close> that this service sets or reads.\<close>

record signal =
  sg_id :: string
  sg_author :: string
  sg_name :: string
  sg_avatar :: string
  sg_text :: string
  sg_media :: "string list"
  sg_visibility :: string
  sg_pinned :: bool
  sg_archived :: bool
  sg_draft :: bool
  sg_warning :: string
  sg_created :: int
  sg_updated :: int
  sg_likes :: int
  sg_comments :: int
  sg_shares :: int
  sg_views :: int
  sg_score :: int
  sg_amplitude :: int
  sg_liked :: bool
  sg_type :: string
  sg_scheduled :: "int option"
  sg_expires :: "int option"
  sg_repost :: "string option"

definition empty_signal :: signal where
  "empty_signal = \<lparr>sg_id = [], sg_author = [], sg_name = [], sg_avatar = [], sg_text = [], sg_media = [], sg_visibility = [],
     sg_pinned = False, sg_archived = False, sg_draft = False, sg_warning = [], sg_created = 0, sg_updated = 0, sg_likes = 0,
     sg_comments = 0, sg_shares = 0, sg_views = 0, sg_score = 0, sg_amplitude = 0, sg_liked = False, sg_type = [],
     sg_scheduled = None, sg_expires = None, sg_repost = None\<rparr>"

record node =
  nd_id :: string
  nd_signal :: string
  nd_author :: string
  nd_name :: string
  nd_avatar :: string
  nd_parent :: "string option"
  nd_content :: string
  nd_created :: int

record wave_pool =
  wp_question :: string
  wp_options :: "string list"
  wp_ends :: int

record content_env =
  cn_scan :: "string \<Rightarrow> uuid res"
  cn_show :: "uuid \<Rightarrow> string"
  cn_sanitize :: "string \<Rightarrow> string"
  cn_fingerprint :: "string \<Rightarrow> string"
  cn_like :: "string \<Rightarrow> string \<Rightarrow> bool"          \<comment> \<open>pattern, text\<close>

text \<open>The clock, and the identifiers that the database draws.\<close>

record content_input =
  cn_now :: int
  cn_new :: uuid
  cn_poll :: uuid
  cn_option :: "nat \<Rightarrow> uuid"

section \<open>Statements\<close>

definition known_user :: "content_db \<Rightarrow> uuid \<Rightarrow> bool" where
  "known_user d u \<longleftrightarrow> user_exists (graph d) u"

definition create_post_stmt :: "content_input \<Rightarrow> uuid \<Rightarrow> signal \<Rightarrow> (content_db, post_row) sql" where
  "create_post_stmt i author s d =
     (if \<not> known_user d author then Inl (violates ''foreign_key'')
      else let p = \<lparr>po_id = cn_new i, po_author = author, po_text = sg_text s, po_media = sg_media s, po_visibility = sg_visibility s,
                    po_pinned = False, po_archived = False, po_draft = False, po_published = None, po_deleted = None,
                    po_scheduled = None, po_expires = None, po_warning = None, po_views = 0, po_comments = 0, po_shares = 0,
                    po_created = cn_now i, po_updated = cn_now i\<rparr>
           in (case sql_insert (\<lambda>p. (po_id p, po_created p)) p (posts d) of Inl e \<Rightarrow> Inl e | Inr ps \<Rightarrow> Inr (p, d\<lparr>posts := ps\<rparr>)))"

text \<open>Posts joined with their authors.\<close>

definition with_authors :: "content_db \<Rightarrow> post_row list \<Rightarrow> (post_row \<times> user_row) list" where
  "with_authors d ps = concat (map (\<lambda>p. map (Pair p) (filter (\<lambda>u. us_id u = po_author p) (susers (graph d)))) ps)"

definition published :: "int \<Rightarrow> post_row \<Rightarrow> bool" where
  "published now p \<longleftrightarrow> (case po_published p of None \<Rightarrow> False | Some t \<Rightarrow> t \<le> now)"

definition feed_stmt :: "int \<Rightarrow> uuid \<Rightarrow> int \<Rightarrow> int \<Rightarrow> (content_db, (post_row \<times> user_row) list) sql" where
  "feed_stmt now u limit offset d =
     (case page_of limit offset (with_authors d (sort_key (\<lambda>p. - the (po_published p))
             (filter (\<lambda>p. published now p \<and> \<not> po_archived p \<and> (accepted (graph d) u (po_author p) \<or> po_visibility p = ''public'')) (posts d)))) of
        Inl e \<Rightarrow> Inl e | Inr rs \<Rightarrow> Inr (rs, d))"

definition post_visible :: "content_db \<Rightarrow> uuid \<Rightarrow> uuid \<Rightarrow> bool" where
  "post_visible d post viewer \<longleftrightarrow>
     (\<exists>p\<in>set (posts d). po_id p = post \<and> \<not> po_archived p \<and>
        (po_author p = viewer \<or> po_visibility p = ''public'' \<or>
         po_visibility p = ''followers'' \<and> accepted (graph d) viewer (po_author p)))"

definition can_view_post_stmt :: "uuid \<Rightarrow> uuid \<Rightarrow> (content_db, bool) sql" where
  "can_view_post_stmt post viewer d = Inr (post_visible d post viewer, d)"

definition post_by_id_stmt :: "uuid \<Rightarrow> (content_db, post_row \<times> user_row) sql" where
  "post_by_id_stmt post d =
     (case with_authors d (sort_key (\<lambda>p. - po_created p) (filter (\<lambda>p. po_id p = post) (posts d))) of
        [] \<Rightarrow> Inl NoRows | r # _ \<Rightarrow> Inr (r, d))"

definition react_post_stmt :: "uuid \<Rightarrow> uuid \<Rightarrow> string \<Rightarrow> (content_db, unit) sql" where
  "react_post_stmt u target ty d =
     (if \<not> known_user d u then Inl (violates ''foreign_key'')
      else Inr ((), d\<lparr>resonances := sql_upsert fst ((u, target), ty) (\<lambda>r. (fst r, ty)) (resonances d)\<rparr>))"

definition unreact_post_stmt :: "uuid \<Rightarrow> uuid \<Rightarrow> (content_db, unit) sql" where
  "unreact_post_stmt u target d =
     Inr ((), d\<lparr>resonances := sql_delete (\<lambda>r. fst r = (u, target) \<and> snd r = ''resonance'') (resonances d)\<rparr>)"

definition create_comment_stmt ::
  "content_input \<Rightarrow> uuid \<Rightarrow> uuid \<Rightarrow> uuid option \<Rightarrow> string \<Rightarrow> (content_db, comment_row) sql" where
  "create_comment_stmt i post author parent text d =
     (if \<not> known_user d author then Inl (violates ''foreign_key'')
      else let c = \<lparr>co_id = cn_new i, co_post = post, co_author = author, co_parent = parent, co_content = text,
                    co_created = cn_now i, co_updated = cn_now i\<rparr>
           in (case sql_insert co_id c (comments d) of Inl e \<Rightarrow> Inl e | Inr cs \<Rightarrow> Inr (c, d\<lparr>comments := cs\<rparr>)))"

definition comments_stmt :: "uuid \<Rightarrow> (content_db, (comment_row \<times> user_row) list) sql" where
  "comments_stmt post d =
     Inr (concat (map (\<lambda>c. map (Pair c) (filter (\<lambda>u. us_id u = co_author c) (susers (graph d))))
            (sort_key co_created (filter (\<lambda>c. co_post c = post) (comments d)))), d)"

definition update_posts :: "uuid \<Rightarrow> (post_row \<Rightarrow> post_row) \<Rightarrow> (content_db, unit) sql" where
  "update_posts post f d = Inr ((), d\<lparr>posts := sql_update (\<lambda>p. po_id p = post) f (posts d)\<rparr>)"

definition status_stmt :: "int \<Rightarrow> uuid \<Rightarrow> bool \<Rightarrow> bool \<Rightarrow> bool \<Rightarrow> (content_db, unit) sql" where
  "status_stmt now post pinned archived draft =
     update_posts post (\<lambda>p. p\<lparr>po_pinned := pinned, po_archived := archived, po_draft := draft, po_updated := now\<rparr>)"

definition update_post_stmt :: "int \<Rightarrow> string \<Rightarrow> string list \<Rightarrow> uuid \<Rightarrow> (content_db, unit) sql" where
  "update_post_stmt now text media post = update_posts post (\<lambda>p. p\<lparr>po_text := text, po_media := media, po_updated := now\<rparr>)"

definition metrics_stmt :: "int \<Rightarrow> uuid \<Rightarrow> int \<Rightarrow> int \<Rightarrow> int \<Rightarrow> (content_db, unit) sql" where
  "metrics_stmt now post vs cs ss =
     update_posts post (\<lambda>p. p\<lparr>po_views := vs, po_comments := cs, po_shares := ss, po_updated := now\<rparr>)"

definition schedule_stmt :: "int \<Rightarrow> uuid \<Rightarrow> int \<Rightarrow> (content_db, unit) sql" where
  "schedule_stmt now post t = update_posts post (\<lambda>p. p\<lparr>po_scheduled := Some t, po_draft := True, po_updated := now\<rparr>)"

definition delete_post_stmt :: "uuid \<Rightarrow> (content_db, unit) sql" where
  "delete_post_stmt post d = Inr ((), d\<lparr>posts := sql_delete (\<lambda>p. po_id p = post) (posts d)\<rparr>)"

definition delete_comment_stmt :: "uuid \<Rightarrow> (content_db, unit) sql" where
  "delete_comment_stmt c d = Inr ((), d\<lparr>comments := sql_delete (\<lambda>x. co_id x = c) (comments d)\<rparr>)"

definition update_comment_stmt :: "int \<Rightarrow> string \<Rightarrow> uuid \<Rightarrow> (content_db, unit) sql" where
  "update_comment_stmt now text c d =
     Inr ((), d\<lparr>comments := sql_update (\<lambda>x. co_id x = c) (\<lambda>x. x\<lparr>co_content := text, co_updated := now\<rparr>) (comments d)\<rparr>)"

definition create_poll_stmt :: "content_input \<Rightarrow> uuid \<Rightarrow> string \<Rightarrow> int \<Rightarrow> (content_db, uuid) sql" where
  "create_poll_stmt i post question ends d =
     (case sql_insert pl_id \<lparr>pl_id = cn_poll i, pl_post = post, pl_question = question, pl_ends = ends, pl_created = cn_now i\<rparr> (polls d) of
        Inl e \<Rightarrow> Inl e | Inr ps \<Rightarrow> Inr (cn_poll i, d\<lparr>polls := ps\<rparr>))"

definition create_option_stmt :: "uuid \<Rightarrow> uuid \<Rightarrow> string \<Rightarrow> (content_db, unit) sql" where
  "create_option_stmt new poll text d =
     (if poll \<notin> pl_id ` set (polls d) then Inl (violates ''foreign_key'')
      else (case sql_insert fst (new, poll, text) (poll_options d) of Inl e \<Rightarrow> Inl e | Inr os \<Rightarrow> Inr ((), d\<lparr>poll_options := os\<rparr>)))"

definition option_of :: "content_db \<Rightarrow> uuid \<Rightarrow> uuid \<Rightarrow> bool" where
  "option_of d opt poll \<longleftrightarrow> (\<exists>x\<in>set (poll_options d). fst x = opt \<and> fst (snd x) = poll)"

definition vote_stmt :: "uuid \<Rightarrow> uuid \<Rightarrow> uuid \<Rightarrow> (content_db, unit) sql" where
  "vote_stmt poll opt u d =
     (if \<not> known_user d u \<or> poll \<notin> pl_id ` set (polls d) \<or> opt \<notin> fst ` set (poll_options d) then Inl (violates ''foreign_key'')
      else Inr ((), d\<lparr>votes := sql_upsert fst ((poll, u), opt) (\<lambda>v. (fst v, opt)) (votes d)\<rparr>))"

text \<open>The options of a poll by identifier, each with its votes.\<close>

definition poll_by_id :: "content_db \<Rightarrow> uuid \<Rightarrow> (uuid \<times> string) list" where
  "poll_by_id d poll = sort_key fst (map (\<lambda>x. (fst x, snd (snd x))) (filter (\<lambda>x. fst (snd x) = poll) (poll_options d)))"

definition results_stmt :: "uuid \<Rightarrow> (content_db, (string \<times> nat) list) sql" where
  "results_stmt poll d = Inr (map (\<lambda>(opt, text). (text, length (filter (\<lambda>v. snd v = opt) (votes d)))) (poll_by_id d poll), d)"

definition poll_stmt :: "uuid \<Rightarrow> (content_db, poll_row) sql" where
  "poll_stmt post d =
     (case sort_key (\<lambda>p. - pl_created p) (filter (\<lambda>p. pl_post p = post) (polls d)) of [] \<Rightarrow> Inl NoRows | p # _ \<Rightarrow> Inr (p, d))"

definition poll_texts_stmt :: "uuid \<Rightarrow> (content_db, string list) sql" where
  "poll_texts_stmt poll d = Inr (map snd (poll_by_id d poll), d)"

definition collection_stmt :: "content_input \<Rightarrow> uuid \<Rightarrow> string \<Rightarrow> bool \<Rightarrow> (content_db, uuid) sql" where
  "collection_stmt i owner name private d =
     (if \<not> known_user d owner then Inl (violates ''foreign_key'')
      else if (owner, name) \<in> (\<lambda>c. (bc_owner c, bc_name c)) ` set (collections d) then Inl (violates ''unique'')
      else (case sql_insert bc_id \<lparr>bc_id = cn_new i, bc_owner = owner, bc_name = name, bc_private = private, bc_created = cn_now i\<rparr> (collections d) of
              Inl e \<Rightarrow> Inl e | Inr cs \<Rightarrow> Inr (cn_new i, d\<lparr>collections := cs\<rparr>)))"

definition bookmark_stmt :: "int \<Rightarrow> uuid \<Rightarrow> uuid \<Rightarrow> uuid option \<Rightarrow> (content_db, unit) sql" where
  "bookmark_stmt now u post c d =
     (if \<not> known_user d u then Inl (violates ''foreign_key'')
      else Inr ((), d\<lparr>bookmarks := sql_upsert fst ((u, post), (c, now)) (\<lambda>b. (fst b, (c, snd (snd b)))) (bookmarks d)\<rparr>))"

definition vaults_stmt :: "uuid \<Rightarrow> (content_db, (collection_row \<times> nat) list) sql" where
  "vaults_stmt u d =
     Inr (map (\<lambda>c. (c, length (filter (\<lambda>b. fst (snd b) = Some (bc_id c)) (bookmarks d))))
            (sort_key (\<lambda>c. - bc_created c) (filter (\<lambda>c. bc_owner c = u) (collections d))), d)"

definition vault_posts_stmt :: "uuid \<Rightarrow> (content_db, (post_row \<times> user_row) list) sql" where
  "vault_posts_stmt c d =
     Inr (with_authors d (map snd (sort_key (\<lambda>(b, p). - snd (snd b)) (sort_key (\<lambda>(b, p). - po_created p)
            (concat (map (\<lambda>b. map (Pair b) (filter (\<lambda>p. po_id p = snd (fst b) \<and> po_deleted p = None) (posts d)))
               (filter (\<lambda>b. fst (snd b) = Some c) (bookmarks d))))))), d)"

definition user_posts_stmt :: "uuid \<Rightarrow> int \<Rightarrow> int \<Rightarrow> (content_db, (post_row \<times> user_row) list) sql" where
  "user_posts_stmt u limit offset d =
     (case page_of limit offset (with_authors d (sort_key (\<lambda>p. - po_created p) (filter (\<lambda>p. po_author p = u) (posts d)))) of
        Inl e \<Rightarrow> Inl e | Inr rs \<Rightarrow> Inr (rs, d))"

definition like_posts_stmt :: "content_env \<Rightarrow> (post_row \<Rightarrow> bool) \<Rightarrow> string \<Rightarrow> int \<Rightarrow> int \<Rightarrow> (content_db, (post_row \<times> user_row) list) sql" where
  "like_posts_stmt env live term limit offset d =
     (case page_of limit offset (with_authors d (sort_key (\<lambda>p. - po_created p)
             (filter (\<lambda>p. live p \<and> cn_like env term (po_text p)) (posts d)))) of
        Inl e \<Rightarrow> Inl e | Inr rs \<Rightarrow> Inr (rs, d))"

text \<open>A post's reactions and comments are counted with distinct users and comments.\<close>

definition reaction_count :: "content_db \<Rightarrow> post_row \<Rightarrow> nat" where
  "reaction_count d p = card ((\<lambda>r. fst (fst r)) ` {r \<in> set (resonances d). snd (fst r) = po_id p})"

definition comment_count :: "content_db \<Rightarrow> post_row \<Rightarrow> nat" where
  "comment_count d p = card (co_id ` {c \<in> set (comments d). co_post c = po_id p})"

definition trending_stmt :: "int \<Rightarrow> int \<Rightarrow> (content_db, (post_row \<times> user_row) list) sql" where
  "trending_stmt now limit d =
     Inr (take (nat limit) (with_authors d (sort_key (\<lambda>p. - (int (reaction_count d p) * 3 + int (comment_count d p) * 2))
            (sort_key (\<lambda>p. - po_created p) (filter (\<lambda>p. published now p \<and> \<not> po_archived p \<and> po_visibility p = ''public'') (posts d))))), d)"

definition scheduled_stmt :: "uuid \<Rightarrow> (content_db, (post_row \<times> user_row) list) sql" where
  "scheduled_stmt u d =
     Inr (with_authors d (sort_key (\<lambda>p. the (po_scheduled p)) (sort_key (\<lambda>p. - po_created p)
            (filter (\<lambda>p. po_author p = u \<and> po_scheduled p \<noteq> None \<and> po_draft p \<and> po_deleted p = None) (posts d)))), d)"

definition preview_stmt :: "uuid \<Rightarrow> string \<Rightarrow> string \<Rightarrow> string \<Rightarrow> string \<Rightarrow> (content_db, unit) sql" where
  "preview_stmt post url title desc img d =
     Inr ((), d\<lparr>previews := sql_upsert fst (post, (url, title, desc, img)) (\<lambda>x. (fst x, (url, title, desc, img))) (previews d)\<rparr>)"
section \<open>Repository\<close>

definition scan_id :: "content_env \<Rightarrow> string \<Rightarrow> string \<Rightarrow> (uuid \<Rightarrow> (content_db, 'a) dbm) \<Rightarrow> (content_db, 'a) dbm" where
  "scan_id env m x k = (case cn_scan env x of Inl e \<Rightarrow> dfail (Wrapf m e) | Inr a \<Rightarrow> k a)"

definition signal_of :: "content_env \<Rightarrow> post_row \<times> user_row \<Rightarrow> signal" where
  "signal_of env = (\<lambda>(p, u). empty_signal
     \<lparr>sg_id := cn_show env (po_id p), sg_author := cn_show env (po_author p), sg_name := us_username u,
      sg_avatar := (case us_avatar u of None \<Rightarrow> [] | Some a \<Rightarrow> a), sg_text := po_text p, sg_media := po_media p,
      sg_visibility := po_visibility p, sg_created := po_created p\<rparr>)"

definition signals_of :: "content_env \<Rightarrow> (content_db, (post_row \<times> user_row) list) sql \<Rightarrow> (content_db, signal list) dbm" where
  "signals_of env f = dbind (autocommit f) (\<lambda>rs. dreturn (map (signal_of env) rs))"

definition CreateSignal :: "content_env \<Rightarrow> content_input \<Rightarrow> signal \<Rightarrow> (content_db, signal) dbm" where
  "CreateSignal env i s =
     scan_id env ''invalid author uuid'' (sg_author s) (\<lambda>a.
       dbind (autocommit (create_post_stmt i a s)) (\<lambda>p.
       dreturn (s\<lparr>sg_id := cn_show env (po_id p), sg_created := po_created p\<rparr>)))"

definition GetStream :: "content_env \<Rightarrow> int \<Rightarrow> string \<Rightarrow> int \<Rightarrow> int \<Rightarrow> (content_db, signal list) dbm" where
  "GetStream env now u limit offset =
     scan_id env ''invalid user uuid'' u (\<lambda>u. signals_of env (feed_stmt now u limit offset))"

definition CanViewSignal :: "content_env \<Rightarrow> string \<Rightarrow> string \<Rightarrow> (content_db, bool) dbm" where
  "CanViewSignal env viewer post =
     scan_id env ''invalid viewer uuid'' viewer (\<lambda>v. scan_id env ''invalid signal uuid'' post (\<lambda>p. autocommit (can_view_post_stmt p v)))"

definition GetSignalByID :: "content_env \<Rightarrow> string \<Rightarrow> (content_db, signal) dbm" where
  "GetSignalByID env post =
     scan_id env ''invalid signal uuid'' post (\<lambda>p. dbind (autocommit (post_by_id_stmt p)) (\<lambda>r. dreturn (signal_of env r)))"

definition AddResonance :: "content_env \<Rightarrow> string \<Rightarrow> string \<Rightarrow> (content_db, unit) dbm" where
  "AddResonance env u target =
     scan_id env ''invalid user uuid'' u (\<lambda>u. scan_id env ''invalid target uuid'' target (\<lambda>t. autocommit (react_post_stmt u t ''resonance'')))"

definition repo_RemoveResonance :: "content_env \<Rightarrow> string \<Rightarrow> string \<Rightarrow> (content_db, unit) dbm" where
  "repo_RemoveResonance env u target =
     scan_id env ''invalid user uuid'' u (\<lambda>u. scan_id env ''invalid target uuid'' target (\<lambda>t. autocommit (unreact_post_stmt u t)))"

definition CreateNode :: "content_env \<Rightarrow> content_input \<Rightarrow> string \<Rightarrow> string \<Rightarrow> string option \<Rightarrow> string \<Rightarrow> (content_db, node) dbm" where
  "CreateNode env i post author parent text =
     scan_id env ''invalid uuid signalID'' post (\<lambda>p.
     scan_id env ''invalid uuid authorID'' author (\<lambda>a.
       let create = (\<lambda>par. dbind (autocommit (create_comment_stmt i p a par text)) (\<lambda>c.
             dreturn \<lparr>nd_id = cn_show env (co_id c), nd_signal = cn_show env (co_post c), nd_author = cn_show env (co_author c),
                      nd_name = [], nd_avatar = [], nd_parent = parent, nd_content = co_content c, nd_created = co_created c\<rparr>))
       in case parent of None \<Rightarrow> create None | Some x \<Rightarrow> scan_id env ''invalid uuid parentID'' x (\<lambda>q. create (Some q))))"

definition node_of :: "content_env \<Rightarrow> comment_row \<times> user_row \<Rightarrow> node" where
  "node_of env = (\<lambda>(c, u). \<lparr>nd_id = cn_show env (co_id c), nd_signal = cn_show env (co_post c), nd_author = cn_show env (co_author c),
     nd_name = us_username u, nd_avatar = (case us_avatar u of None \<Rightarrow> [] | Some a \<Rightarrow> a),
     nd_parent = map_option (cn_show env) (co_parent c), nd_content = co_content c, nd_created = co_created c\<rparr>)"

definition GetNodesForSignal :: "content_env \<Rightarrow> string \<Rightarrow> (content_db, node list) dbm" where
  "GetNodesForSignal env post =
     scan_id env ''invalid uuid'' post (\<lambda>p. dbind (autocommit (comments_stmt p)) (\<lambda>rs. dreturn (map (node_of env) rs)))"

definition UpdateSignalStatus :: "content_env \<Rightarrow> int \<Rightarrow> string \<Rightarrow> bool \<Rightarrow> bool \<Rightarrow> bool \<Rightarrow> (content_db, unit) dbm" where
  "UpdateSignalStatus env now post pinned archived draft =
     scan_id env ''invalid signal uuid'' post (\<lambda>p. autocommit (status_stmt now p pinned archived draft))"

definition repo_UpdateSignal :: "content_env \<Rightarrow> int \<Rightarrow> signal \<Rightarrow> (content_db, unit) dbm" where
  "repo_UpdateSignal env now s =
     scan_id env ''invalid signal uuid'' (sg_id s) (\<lambda>p. autocommit (update_post_stmt now (sg_text s) (sg_media s) p))"

definition repo_DeleteSignal :: "content_env \<Rightarrow> string \<Rightarrow> (content_db, unit) dbm" where
  "repo_DeleteSignal env post = scan_id env ''invalid signal uuid'' post (\<lambda>p. autocommit (delete_post_stmt p))"

definition UpdateSignalMetrics :: "content_env \<Rightarrow> int \<Rightarrow> string \<Rightarrow> int \<Rightarrow> int \<Rightarrow> int \<Rightarrow> (content_db, unit) dbm" where
  "UpdateSignalMetrics env now post vs cs ss = scan_id env ''invalid signal uuid'' post (\<lambda>p. autocommit (metrics_stmt now p vs cs ss))"

definition repo_DeleteNode :: "content_env \<Rightarrow> string \<Rightarrow> (content_db, unit) dbm" where
  "repo_DeleteNode env c = scan_id env ''invalid node uuid'' c (\<lambda>c. autocommit (delete_comment_stmt c))"

definition repo_UpdateNode :: "content_env \<Rightarrow> int \<Rightarrow> string \<Rightarrow> string \<Rightarrow> (content_db, unit) dbm" where
  "repo_UpdateNode env now c text = scan_id env ''invalid node uuid'' c (\<lambda>c. autocommit (update_comment_stmt now text c))"

text \<open>The options are inserted one by one, outside a transaction.\<close>

fun add_options :: "content_input \<Rightarrow> uuid \<Rightarrow> string list \<Rightarrow> nat \<Rightarrow> (content_db, unit) dbm" where
  "add_options i poll [] n = dreturn ()"
| "add_options i poll (x # xs) n =
     (let x = trim_space x
      in if x = [] then dfail (Errorf ''wave option cannot be empty'')
         else dbind (autocommit (create_option_stmt (cn_option i n) poll x)) (\<lambda>_. add_options i poll xs (Suc n)))"

definition CreateWavePool :: "content_env \<Rightarrow> content_input \<Rightarrow> string \<Rightarrow> wave_pool \<Rightarrow> (content_db, unit) dbm" where
  "CreateWavePool env i post w =
     (if trim_space (wp_question w) = [] then dfail (Errorf ''wave question is required'')
      else if length (wp_options w) < 2 then dfail (Errorf ''wave requires at least two options'')
      else scan_id env ''invalid signal uuid'' post (\<lambda>p.
             dbind (autocommit (create_poll_stmt i p (wp_question w) (wp_ends w))) (\<lambda>poll. add_options i poll (wp_options w) 0)))"

definition VoteWave :: "content_env \<Rightarrow> string \<Rightarrow> string \<Rightarrow> string \<Rightarrow> (content_db, unit) dbm" where
  "VoteWave env pool opt u =
     scan_id env ''invalid wave pool uuid'' pool (\<lambda>p.
     scan_id env ''invalid wave option uuid'' opt (\<lambda>x.
     scan_id env ''invalid user uuid'' u (\<lambda>u.
       dbind (autocommit (\<lambda>d. Inr (option_of d x p, d))) (\<lambda>exists.
       if \<not> exists then dfail (Errorf ''wave option does not belong to wave pool'') else autocommit (vote_stmt p x u)))))"

definition GetWaveResults :: "content_env \<Rightarrow> string \<Rightarrow> (content_db, string \<rightharpoonup> nat) dbm" where
  "GetWaveResults env pool =
     scan_id env ''invalid wave pool uuid'' pool (\<lambda>p. dbind (autocommit (results_stmt p)) (\<lambda>rs. dreturn (map_of (rev rs))))"

definition GetWavePoolBySignal :: "content_env \<Rightarrow> string \<Rightarrow> (content_db, wave_pool) dbm" where
  "GetWavePoolBySignal env post =
     scan_id env ''invalid signal uuid'' post (\<lambda>p.
       dbind (autocommit (poll_stmt p)) (\<lambda>w.
       dbind (autocommit (poll_texts_stmt (pl_id w))) (\<lambda>ts.
       dreturn \<lparr>wp_question = pl_question w, wp_options = ts, wp_ends = pl_ends w\<rparr>)))"

definition repo_CreateVault :: "content_env \<Rightarrow> content_input \<Rightarrow> string \<Rightarrow> string \<Rightarrow> bool \<Rightarrow> (content_db, string) dbm" where
  "repo_CreateVault env i owner name private =
     scan_id env ''invalid owner uuid'' owner (\<lambda>u.
       dbind (autocommit (collection_stmt i u name private)) (\<lambda>c. dreturn (cn_show env c)))"

definition VaultSignal :: "content_env \<Rightarrow> int \<Rightarrow> string \<Rightarrow> string \<Rightarrow> string option \<Rightarrow> (content_db, unit) dbm" where
  "VaultSignal env now u post vault =
     scan_id env ''invalid user uuid'' u (\<lambda>u.
     scan_id env ''invalid signal uuid'' post (\<lambda>p.
       if vault = None \<or> vault = Some [] then autocommit (bookmark_stmt now u p None)
       else scan_id env ''invalid vault uuid'' (the vault) (\<lambda>c. autocommit (bookmark_stmt now u p (Some c)))))"

definition repo_GetUserVaults :: "content_env \<Rightarrow> string \<Rightarrow> (content_db, (string \<times> string \<times> string \<times> bool \<times> int \<times> nat) list) dbm" where
  "repo_GetUserVaults env u =
     scan_id env ''invalid user uuid'' u (\<lambda>u. dbind (autocommit (vaults_stmt u)) (\<lambda>rs.
       dreturn (map (\<lambda>(c, n). (cn_show env (bc_id c), cn_show env (bc_owner c), bc_name c, bc_private c, bc_created c, n)) rs)))"

definition GetVaultSignals :: "content_env \<Rightarrow> string \<Rightarrow> (content_db, signal list) dbm" where
  "GetVaultSignals env vault = scan_id env ''invalid vault uuid'' vault (\<lambda>c. signals_of env (vault_posts_stmt c))"

text \<open>Limits and offsets outside their range are replaced.\<close>

definition limit_or :: "int \<Rightarrow> int \<Rightarrow> int" where "limit_or n limit = (if limit \<le> 0 then n else limit)"

definition GetSignalsByUser :: "content_env \<Rightarrow> string \<Rightarrow> int \<Rightarrow> int \<Rightarrow> (content_db, signal list) dbm" where
  "GetSignalsByUser env u limit offset =
     scan_id env ''invalid user uuid'' (trim_space u) (\<lambda>u. signals_of env (user_posts_stmt u (limit_or 50 limit) (max 0 offset)))"

definition GetSignalsByHashtag :: "content_env \<Rightarrow> string \<Rightarrow> int \<Rightarrow> int \<Rightarrow> (content_db, signal list) dbm" where
  "GetSignalsByHashtag env tag limit offset =
     (let tag = trim_space tag; tag' = to_lower (if has_prefix tag ''#'' then tag else CHR ''#'' # tag)
      in if tag = [] then dreturn []
         else signals_of env (like_posts_stmt env (\<lambda>_. True) (''%'' @ tag' @ ''%'') (limit_or 50 limit) (max 0 offset)))"

definition SearchSignals :: "content_env \<Rightarrow> string \<Rightarrow> int \<Rightarrow> int \<Rightarrow> (content_db, signal list) dbm" where
  "SearchSignals env query limit offset =
     (let query = trim_space query
      in if query = [] then dreturn []
         else dmap_err (Wrapf ''search signals'') (signals_of env (like_posts_stmt env
                (\<lambda>p. po_deleted p = None \<and> \<not> po_archived p \<and> \<not> po_draft p) (''%'' @ to_lower query @ ''%'') (limit_or 50 limit) (max 0 offset))))"

definition GetTrendingSignals :: "content_env \<Rightarrow> int \<Rightarrow> int \<Rightarrow> (content_db, signal list) dbm" where
  "GetTrendingSignals env now limit =
     dbind (autocommit (\<lambda>d. case trending_stmt now (limit_or 20 limit) d of
         Inl e \<Rightarrow> Inl e | Inr (rs, d') \<Rightarrow> Inr (map (\<lambda>(p, u). (p, u, reaction_count d p, comment_count d p)) rs, d'))) (\<lambda>rs.
     dreturn (map (\<lambda>(p, u, r, c). (signal_of env (p, u))\<lparr>sg_likes := int r, sg_comments := int c\<rparr>) rs))"

text \<open>Scanning a missing content warning into a string is an error.\<close>

definition ScheduleSignal :: "content_env \<Rightarrow> int \<Rightarrow> string \<Rightarrow> int option \<Rightarrow> (content_db, unit) dbm" where
  "ScheduleSignal env now post t =
     scan_id env ''invalid signal uuid'' (trim_space post) (\<lambda>p.
       case t of None \<Rightarrow> dfail (Errorf ''scheduled time is required'') | Some t \<Rightarrow> autocommit (schedule_stmt now p t))"

definition repo_GetScheduledSignals :: "content_env \<Rightarrow> string \<Rightarrow> (content_db, signal list) dbm" where
  "repo_GetScheduledSignals env u =
     scan_id env ''invalid user uuid'' (trim_space u) (\<lambda>u. dbind (autocommit (scheduled_stmt u)) (\<lambda>rs.
       if list_ex (\<lambda>r. po_warning (fst r) = None) rs then dfail (Errorf ''cannot scan NULL into *string'')
       else dreturn (map (\<lambda>(p, u). (signal_of env (p, u))
              \<lparr>sg_archived := po_archived p, sg_draft := po_draft p, sg_warning := the (po_warning p), sg_updated := po_updated p,
               sg_scheduled := po_scheduled p, sg_expires := po_expires p\<rparr>) rs)))"

definition StoreLinkPreview :: "content_env \<Rightarrow> string \<Rightarrow> (string \<times> string \<times> string \<times> string) option \<Rightarrow> (content_db, unit) dbm" where
  "StoreLinkPreview env post preview =
     (case preview of
        None \<Rightarrow> dfail (Errorf ''link preview is required'')
      | Some (url, title, desc, img) \<Rightarrow>
          scan_id env ''invalid signal uuid'' (trim_space post) (\<lambda>p.
            if trim_space url = [] then dfail (Errorf ''link preview url is required'')
            else autocommit (preview_stmt p (trim_space url) title desc img)))"
section \<open>Service\<close>

record content_state =
  cs_db :: "content_db session"
  cs_guard :: "veritas option"

type_synonym 'a content_op = "(content_state, 'a) op"

definition on_content :: "(content_db, 'a) dbm \<Rightarrow> 'a content_op" where
  "on_content m st = (case m (cs_db st) of (r, s') \<Rightarrow> (r, st\<lparr>cs_db := s'\<rparr>))"

definition normalizeVisibility :: "string \<Rightarrow> string res" where
  "normalizeVisibility v =
     (let v = to_lower (trim_space v)
      in if v = [] then Inr ''public'' else if v \<in> {''public'', ''followers'', ''private''} then Inr v else Inl (Errorf ''invalid visibility''))"

text \<open>The two checks of a new post by the guard, if one is configured; \<open>None\<close> means that it does not object.\<close>

definition guard_post :: "content_env \<Rightarrow> content_input \<Rightarrow> string \<Rightarrow> string \<Rightarrow> string option content_op" where
  "guard_post env i author text st =
     (case cs_guard st of
        None \<Rightarrow> (Inr None, st)
      | Some g \<Rightarrow>
          (case DetectBotPattern author text (cn_now i) g of
             (b, _, g1) \<Rightarrow>
               if b then (Inr (Some ''signal rejected: bot pattern detected''), st\<lparr>cs_guard := Some g1\<rparr>)
               else (case VerifyOriginality (cn_fingerprint env) text g1 of
                       ((original, other), g2) \<Rightarrow>
                         (Inr (if original then None
                               else Some (''signal rejected: duplicate content detected (Original ID: '' @ other @ '')'')),
                          st\<lparr>cs_guard := Some g2\<rparr>))))"

text \<open>
  The goroutines after the post: those of hashtags and mentions call methods that do nothing, so only the one of the poll
  counts.
\<close>

definition BroadcastSignal :: "content_env \<Rightarrow> content_input \<Rightarrow> signal option \<Rightarrow> wave_pool option \<Rightarrow> signal content_op" where
  "BroadcastSignal env i signal pool =
     (case signal of
        None \<Rightarrow> ofail (Errorf ''signal author is required'')
      | Some s \<Rightarrow>
          if sg_author s = [] then ofail (Errorf ''signal author is required'')
          else (case normalizeVisibility (sg_visibility s) of
                  Inl e \<Rightarrow> ofail e
                | Inr v \<Rightarrow>
                    let text = cn_sanitize env (sg_text s);
                        s = s\<lparr>sg_text := text, sg_visibility := v, sg_updated := cn_now i,
                              sg_type := (if sg_repost s \<noteq> None \<and> text \<noteq> [] then ''quote'' else sg_type s)\<rparr>
                    in obind (guard_post env i (sg_author s) text) (\<lambda>objection.
                       case objection of
                         Some m \<Rightarrow> ofail (Errorf m)
                       | None \<Rightarrow>
                           obind (on_content (CreateSignal env i s)) (\<lambda>s.
                           obind (case pool of None \<Rightarrow> oreturn () | Some w \<Rightarrow> on_content (CreateWavePool env i (sg_id s) w)) (\<lambda>_.
                           oreturn s)))))"

definition PinSignal :: "content_env \<Rightarrow> int \<Rightarrow> string \<Rightarrow> bool \<Rightarrow> unit content_op" where
  "PinSignal env now post pinned = on_content (UpdateSignalStatus env now post pinned False False)"

definition ArchiveSignal :: "content_env \<Rightarrow> int \<Rightarrow> string \<Rightarrow> bool \<Rightarrow> unit content_op" where
  "ArchiveSignal env now post archived = on_content (UpdateSignalStatus env now post False archived False)"

text \<open>The matches of \<open>#(\w+)\<close> and \<open>@(\w+)\<close>.\<close>

definition word_char :: "char \<Rightarrow> bool" where
  "word_char c \<longleftrightarrow> (let n = (of_char c :: nat) in 48 \<le> n \<and> n \<le> 57 \<or> 65 \<le> n \<and> n \<le> 90 \<or> n = 95 \<or> 97 \<le> n \<and> n \<le> 122)"

function marked_words :: "char \<Rightarrow> string \<Rightarrow> string list" where
  "marked_words c [] = []"
| "marked_words c (x # s) =
     (if x = c \<and> takeWhile word_char s \<noteq> [] then takeWhile word_char s # marked_words c (dropWhile word_char s) else marked_words c s)"
  by pat_completeness auto
termination
  by (relation "measure (\<lambda>(c, s). length s)") (auto simp: less_Suc_eq_le length_dropWhile_le)

definition extractFrequencies :: "string \<Rightarrow> string list" where "extractFrequencies = marked_words CHR ''#''"
definition extractMentions :: "string \<Rightarrow> string list" where "extractMentions = marked_words CHR ''@''"

definition content_page :: int where "content_page = 50"

definition page_start :: "32 word \<Rightarrow> int" where "page_start page = sint (page * word_of_int content_page)"

definition GetResonanceStream :: "content_env \<Rightarrow> int \<Rightarrow> string \<Rightarrow> 32 word \<Rightarrow> signal list content_op" where
  "GetResonanceStream env now u page =
     obind (on_content (GetStream env now u content_page (page_start page))) (\<lambda>ss.
     oreturn (map (\<lambda>s. if 50 < sg_amplitude s then s\<lparr>sg_score := sg_score s + 10\<rparr> else s) ss))"

definition AmplifySignal :: "content_env \<Rightarrow> int \<Rightarrow> string \<Rightarrow> string \<Rightarrow> int \<Rightarrow> unit content_op" where
  "AmplifySignal env now u post amplitude st =
     (case (case cs_guard st of None \<Rightarrow> (False, None) | Some g \<Rightarrow> (case TrackInteraction u now g of (b, _, g') \<Rightarrow> (b, Some g'))) of
        (objects, guard) \<Rightarrow>
          (if objects then ofail (Errorf ''excessive resonance activity detected'')
           else if amplitude \<le> 0 then ofail (Errorf ''amplitude must be positive'')
           else on_content (AddResonance env u post)) (st\<lparr>cs_guard := guard\<rparr>))"

definition RemoveResonance :: "content_env \<Rightarrow> string \<Rightarrow> string \<Rightarrow> unit content_op" where
  "RemoveResonance env u post =
     (if u = [] \<or> post = [] then ofail (Errorf ''invalid resonance removal request'') else on_content (repo_RemoveResonance env u post))"

definition AddNode :: "content_env \<Rightarrow> content_input \<Rightarrow> string \<Rightarrow> string \<Rightarrow> string option \<Rightarrow> string \<Rightarrow> node content_op" where
  "AddNode env i post author parent text = on_content (CreateNode env i post author parent (cn_sanitize env text))"

definition GetUserSignals :: "content_env \<Rightarrow> string \<Rightarrow> 32 word \<Rightarrow> signal list content_op" where
  "GetUserSignals env u page = on_content (GetSignalsByUser env u content_page (page_start page))"

definition GetHashtagSignals :: "content_env \<Rightarrow> string \<Rightarrow> 32 word \<Rightarrow> signal list content_op" where
  "GetHashtagSignals env tag page = on_content (GetSignalsByHashtag env tag content_page (page_start page))"

definition SearchContent :: "content_env \<Rightarrow> string \<Rightarrow> 32 word \<Rightarrow> signal list content_op" where
  "SearchContent env query page = on_content (SearchSignals env query content_page (page_start page))"

definition ShareSignal :: "content_env \<Rightarrow> int \<Rightarrow> string \<Rightarrow> string \<Rightarrow> unit content_op" where
  "ShareSignal env now u post =
     (if u = [] \<or> post = [] then ofail (Errorf ''invalid share request'') else on_content (UpdateSignalMetrics env now post 0 0 1))"

definition ViewSignal :: "content_env \<Rightarrow> int \<Rightarrow> string \<Rightarrow> string \<Rightarrow> unit content_op" where
  "ViewSignal env now u post =
     (if u = [] \<or> post = [] then ofail (Errorf ''invalid view request'') else on_content (UpdateSignalMetrics env now post 1 0 0))"

definition UpdateNode :: "content_env \<Rightarrow> int \<Rightarrow> string \<Rightarrow> string \<Rightarrow> unit content_op" where
  "UpdateNode env now c text = on_content (repo_UpdateNode env now c (cn_sanitize env text))"

definition GetTrendingHashtags :: "string list content_op" where
  "GetTrendingHashtags = oreturn [''merope'', ''nirvana'', ''neuralwaves'', ''distributed'', ''flutter'']"

section \<open>Handlers\<close>

record signal_dto =
  dto_id :: string
  dto_author :: string
  dto_name :: string
  dto_avatar :: string
  dto_content :: string
  dto_media :: "string list"
  dto_amplitude :: int
  dto_resonated :: bool
  dto_nodes :: int
  dto_amplifications :: int
  dto_created :: int
  dto_pinned :: bool
  dto_frequency :: int

definition toMeropeSignalDTO :: "signal \<Rightarrow> signal_dto" where
  "toMeropeSignalDTO s = \<lparr>dto_id = sg_id s, dto_author = sg_author s, dto_name = sg_name s, dto_avatar = sg_avatar s,
     dto_content = sg_text s, dto_media = sg_media s, dto_amplitude = sg_amplitude s, dto_resonated = sg_liked s,
     dto_nodes = sg_comments s, dto_amplifications = sg_shares s, dto_created = sg_created s, dto_pinned = sg_pinned s,
     dto_frequency = sg_score s\<rparr>"

definition toMeropeCommentDTO :: "node \<Rightarrow> signal_dto" where
  "toMeropeCommentDTO n = \<lparr>dto_id = nd_id n, dto_author = nd_author n, dto_name = nd_name n, dto_avatar = nd_avatar n,
     dto_content = nd_content n, dto_media = [], dto_amplitude = 0, dto_resonated = False, dto_nodes = 0, dto_amplifications = 0,
     dto_created = nd_created n, dto_pinned = False, dto_frequency = 0\<rparr>"

datatype content_body =
    CnError string
  | CnPost signal_dto
  | CnFeed "signal_dto list" bool
  | CnComment signal_dto
  | CnComments "signal_dto list"
  | CnAnalytics int int int int
  | CnDone

type_synonym content_answer = "int \<times> content_body"

definition unable_content :: content_answer where "unable_content = (500, CnError ''ERR_UNKNOWN'')"
definition bad_content :: content_answer where "bad_content = (400, CnError ''ERR_BAD_REQUEST'')"
definition not_authorized :: content_answer where "not_authorized = (403, CnError ''ERR_FORBIDDEN'')"

definition oreply :: "('s, 'a) op \<Rightarrow> (goerr \<Rightarrow> 'b) \<Rightarrow> ('a \<Rightarrow> ('s, 'b) op) \<Rightarrow> ('s, 'b) op" where
  "oreply m g k = obind (otry m) (\<lambda>r. case r of Inl e \<Rightarrow> oreturn (g e) | Inr a \<Rightarrow> k a)"

text \<open>The errors of the HTTP library that the handlers tell apart.\<close>

definition ErrBadRequest :: goerr where "ErrBadRequest = Errorf ''Bad Request''"
definition ErrForbidden :: goerr where "ErrForbidden = Errorf ''Forbidden''"

definition requireVisiblePost :: "content_env \<Rightarrow> string \<Rightarrow> string \<Rightarrow> signal content_op" where
  "requireVisiblePost env post viewer =
     (if trim_space post = [] \<or> trim_space viewer = [] then ofail ErrBadRequest
      else obind (on_content (GetSignalByID env post)) (\<lambda>s.
           obind (on_content (CanViewSignal env viewer post)) (\<lambda>visible.
           if visible then oreturn s else ofail ErrForbidden)))"

definition if_visible :: "content_env \<Rightarrow> string \<Rightarrow> string \<Rightarrow> content_answer content_op \<Rightarrow> content_answer content_op" where
  "if_visible env post u k = oreply (requireVisiblePost env post u) (\<lambda>_. unable_content) (\<lambda>_. k)"

definition done_or :: "unit content_op \<Rightarrow> int \<Rightarrow> content_answer content_op" where
  "done_or m code = oreply m (\<lambda>_. unable_content) (\<lambda>_. oreturn (code, CnDone))"

text \<open>The post of the path when the caller is its author.\<close>

definition own_post :: "content_env \<Rightarrow> string \<Rightarrow> string \<Rightarrow> (signal \<Rightarrow> content_answer content_op) \<Rightarrow> content_answer content_op" where
  "own_post env post u k =
     oreply (on_content (GetSignalByID env post)) (\<lambda>_. not_authorized) (\<lambda>s.
     if sg_author s \<noteq> u then oreturn not_authorized else k s)"

text \<open>The routed requests of an authenticated user, and \<open>Vote\<close>, which no route reaches.\<close>

datatype content_call =
    FeedReq string
  | GetPostReq string
  | CreatePostReq "(string \<times> string list \<times> string \<times> (string \<times> string list) option) option"
  | UpdatePostReq string "(string \<times> string list) option"
  | DeletePostReq string
  | CommentsReq string
  | CommentReq string "(string \<times> string option) option"
  | AnalyticsReq string
  | ReactPostReq string
  | LikeReq string
  | UnlikeReq string
  | RepostReq string
  | DeleteCommentReq string string
  | VoteReq string "string option"

text \<open>The instant of Go's zero time, which is the end of every poll that the handler creates.\<close>

definition zero_time :: int where "zero_time = -62135596800 * 1000000000"

definition handle_feed :: "content_env \<Rightarrow> content_input \<Rightarrow> string \<Rightarrow> string \<Rightarrow> content_answer content_op" where
  "handle_feed env i u page =
     oreply (GetResonanceStream env (cn_now i) u (word_of_int (if page = [] then 0 else atoi page))) (\<lambda>_. unable_content) (\<lambda>ss.
     oreturn (200, CnFeed (map toMeropeSignalDTO ss) (ss \<noteq> [])))"

definition handle_post :: "content_env \<Rightarrow> content_input \<Rightarrow> string \<Rightarrow> string \<Rightarrow> content_answer content_op" where
  "handle_post env i u post =
     oreply (requireVisiblePost env post u) (\<lambda>e. if e = ErrForbidden then (403, CnError ''ERR_UNKNOWN'') else unable_content) (\<lambda>s.
     oreturn (200, CnPost (toMeropeSignalDTO s)))"

definition handle_create_post :: "content_env \<Rightarrow> content_input \<Rightarrow> string \<Rightarrow> (string \<times> string list \<times> string \<times> (string \<times> string list) option) option \<Rightarrow> content_answer content_op" where
  "handle_create_post env i u req =
     (case req of
        None \<Rightarrow> oreturn bad_content
      | Some (text, media, visibility, poll) \<Rightarrow>
          oreply (BroadcastSignal env i (Some (empty_signal
              \<lparr>sg_author := u, sg_text := cn_sanitize env text, sg_media := media, sg_visibility := visibility\<rparr>))
            (map_option (\<lambda>(q, os). \<lparr>wp_question = q, wp_options = os, wp_ends = zero_time\<rparr>) poll)) (\<lambda>_. unable_content) (\<lambda>s.
          oreturn (201, CnPost (toMeropeSignalDTO s))))"

definition handle_update_post :: "content_env \<Rightarrow> content_input \<Rightarrow> string \<Rightarrow> string \<Rightarrow> (string \<times> string list) option \<Rightarrow> content_answer content_op" where
  "handle_update_post env i u post req =
     (case req of
        None \<Rightarrow> oreturn bad_content
      | Some (text, media) \<Rightarrow>
          own_post env post u (\<lambda>s. let s = s\<lparr>sg_text := cn_sanitize env text, sg_media := media\<rparr>
            in oreply (on_content (repo_UpdateSignal env (cn_now i) s)) (\<lambda>_. unable_content) (\<lambda>_. oreturn (200, CnPost (toMeropeSignalDTO s)))))"

definition handle_delete_post :: "content_env \<Rightarrow> content_input \<Rightarrow> string \<Rightarrow> string \<Rightarrow> content_answer content_op" where
  "handle_delete_post env i u post =
     own_post env post u (\<lambda>s. done_or (on_content (repo_DeleteSignal env post)) 204)"

definition handle_comments :: "content_env \<Rightarrow> content_input \<Rightarrow> string \<Rightarrow> string \<Rightarrow> content_answer content_op" where
  "handle_comments env i u post =
     if_visible env post u (oreply (on_content (GetNodesForSignal env post)) (\<lambda>_. unable_content) (\<lambda>ns.
       oreturn (200, CnComments (map toMeropeCommentDTO ns))))"

definition handle_add_comment :: "content_env \<Rightarrow> content_input \<Rightarrow> string \<Rightarrow> string \<Rightarrow> (string \<times> string option) option \<Rightarrow> content_answer content_op" where
  "handle_add_comment env i u post req =
     if_visible env post u (case req of
        None \<Rightarrow> oreturn bad_content
      | Some (text, parent) \<Rightarrow> oreply (AddNode env i post u parent text) (\<lambda>_. unable_content) (\<lambda>n. oreturn (201, CnComment (toMeropeCommentDTO n))))"

definition handle_analytics :: "content_env \<Rightarrow> content_input \<Rightarrow> string \<Rightarrow> string \<Rightarrow> content_answer content_op" where
  "handle_analytics env i u post =
     oreply (requireVisiblePost env post u) (\<lambda>_. unable_content) (\<lambda>s.
     oreturn (200, CnAnalytics (sg_views s) (sg_likes s) (sg_comments s) (sg_shares s)))"

definition handle_react_post :: "content_env \<Rightarrow> content_input \<Rightarrow> string \<Rightarrow> string \<Rightarrow> content_answer content_op" where
  "handle_react_post env i u post =
     if_visible env post u (done_or (AmplifySignal env (cn_now i) u post 1) 200)"

definition handle_like :: "content_env \<Rightarrow> content_input \<Rightarrow> string \<Rightarrow> string \<Rightarrow> content_answer content_op" where
  "handle_like env i u post =
     if_visible env post u (done_or (AmplifySignal env (cn_now i) u post 1) 200)"

definition handle_unlike :: "content_env \<Rightarrow> content_input \<Rightarrow> string \<Rightarrow> string \<Rightarrow> content_answer content_op" where
  "handle_unlike env i u post =
     if_visible env post u (done_or (RemoveResonance env u post) 200)"

definition handle_repost :: "content_env \<Rightarrow> content_input \<Rightarrow> string \<Rightarrow> string \<Rightarrow> content_answer content_op" where
  "handle_repost env i u post =
     if_visible env post u (done_or (ShareSignal env (cn_now i) u post) 200)"

definition handle_delete_comment :: "content_env \<Rightarrow> content_input \<Rightarrow> string \<Rightarrow> string \<Rightarrow> string \<Rightarrow> content_answer content_op" where
  "handle_delete_comment env i u post c =
     if_visible env post u (oreply (on_content (GetNodesForSignal env post)) (\<lambda>_. unable_content) (\<lambda>ns.
       if list_ex (\<lambda>n. nd_id n = c \<and> nd_author n = u) ns then done_or (on_content (repo_DeleteNode env c)) 204 else oreturn not_authorized))"

definition handle_vote :: "content_env \<Rightarrow> content_input \<Rightarrow> string \<Rightarrow> string \<Rightarrow> string option \<Rightarrow> content_answer content_op" where
  "handle_vote env i u pool req =
     (case req of None \<Rightarrow> oreturn bad_content | Some opt \<Rightarrow> done_or (on_content (VoteWave env pool opt u)) 200)"

fun handle_content :: "content_env \<Rightarrow> content_input \<Rightarrow> string \<Rightarrow> content_call \<Rightarrow> content_answer content_op" where
  "handle_content env i u (FeedReq page) = handle_feed env i u page"
| "handle_content env i u (GetPostReq post) = handle_post env i u post"
| "handle_content env i u (CreatePostReq req) = handle_create_post env i u req"
| "handle_content env i u (UpdatePostReq post req) = handle_update_post env i u post req"
| "handle_content env i u (DeletePostReq post) = handle_delete_post env i u post"
| "handle_content env i u (CommentsReq post) = handle_comments env i u post"
| "handle_content env i u (CommentReq post req) = handle_add_comment env i u post req"
| "handle_content env i u (AnalyticsReq post) = handle_analytics env i u post"
| "handle_content env i u (ReactPostReq post) = handle_react_post env i u post"
| "handle_content env i u (LikeReq post) = handle_like env i u post"
| "handle_content env i u (UnlikeReq post) = handle_unlike env i u post"
| "handle_content env i u (RepostReq post) = handle_repost env i u post"
| "handle_content env i u (DeleteCommentReq post c) = handle_delete_comment env i u post c"
| "handle_content env i u (VoteReq pool req) = handle_vote env i u pool req"

lemmas handler_defs = handle_feed_def handle_post_def handle_create_post_def handle_update_post_def handle_delete_post_def handle_comments_def handle_add_comment_def handle_analytics_def handle_react_post_def handle_like_def handle_unlike_def handle_repost_def handle_delete_comment_def handle_vote_def

lemmas content_routes = handle_content.simps [unfolded handler_defs]

declare handle_content.simps [simp del] content_routes [simp]

fun run_content ::
  "content_env \<Rightarrow> (content_input \<times> outcome list \<times> string \<times> content_call) list \<Rightarrow> content_state \<Rightarrow> content_state" where
  "run_content env [] st = st"
| "run_content env ((i, outs, u, c) # cs) st =
     run_content env cs (snd (handle_content env i u c (st\<lparr>cs_db := (cs_db st)\<lparr>outcomes := outs\<rparr>\<rparr>)))"
section \<open>Who may change what\<close>

text \<open>A post without its counters.\<close>

definition po_frame :: "post_row \<Rightarrow> post_row" where
  "po_frame p = p\<lparr>po_views := 0, po_comments := 0, po_shares := 0, po_updated := 0\<rparr>"

text \<open>
  The specification of one request of the user \<open>u\<close>, who sees the posts with identifiers in \<open>V\<close>. The posts of others keep
  all but their counters, and those not in \<open>V\<close> these too; the comments, resonances and votes of others stay; new comments
  and resonances are on posts in \<open>V\<close>, and new votes are for options of their poll.
\<close>

definition content_within :: "uuid set \<Rightarrow> uuid option \<Rightarrow> content_db \<Rightarrow> content_db \<Rightarrow> bool" where
  "content_within V u d d' \<longleftrightarrow>
     graph d' = graph d \<and> collections d' = collections d \<and> bookmarks d' = bookmarks d \<and> previews d' = previews d \<and>
     set (polls d) \<subseteq> set (polls d') \<and> set (poll_options d) \<subseteq> set (poll_options d') \<and>
     map po_frame (rest_of u po_author (posts d')) = map po_frame (rest_of u po_author (posts d)) \<and>
     filter (\<lambda>p. po_id p \<notin> V) (rest_of u po_author (posts d')) = filter (\<lambda>p. po_id p \<notin> V) (rest_of u po_author (posts d)) \<and>
     rest_of u co_author (comments d') = rest_of u co_author (comments d) \<and>
     (\<forall>c\<in>set (comments d'). c \<in> set (comments d) \<or> co_post c \<in> V) \<and>
     rest_of u (\<lambda>r. fst (fst r)) (resonances d') = rest_of u (\<lambda>r. fst (fst r)) (resonances d) \<and>
     (\<forall>r\<in>set (resonances d'). r \<in> set (resonances d) \<or> snd (fst r) \<in> V) \<and>
     rest_of u (\<lambda>v. snd (fst v)) (votes d') = rest_of u (\<lambda>v. snd (fst v)) (votes d) \<and>
     (\<forall>v\<in>set (votes d'). v \<in> set (votes d) \<or> option_of d' (snd v) (fst (fst v)))"

lemma option_of_mono: "option_of d x p \<Longrightarrow> set (poll_options d) \<subseteq> set (poll_options d') \<Longrightarrow> option_of d' x p"
  by (auto simp: option_of_def)

interpretation content: evolution "content_within V u" for V u
proof
  show "content_within V u d d" for d by (simp add: content_within_def)
next
  fix d d' d''
  assume "content_within V u d d'" and "content_within V u d' d''"
  note 1 = this(1) [unfolded content_within_def] and 2 = this(2) [unfolded content_within_def]
  have new_votes: "v \<in> set (votes d) \<or> option_of d'' (snd v) (fst (fst v))" if v: "v \<in> set (votes d'')" for v
  proof -
    from 2 v have "v \<in> set (votes d') \<or> option_of d'' (snd v) (fst (fst v))" by (elim conjE) (erule (1) bspec)
    moreover have "v \<in> set (votes d') \<Longrightarrow> v \<in> set (votes d) \<or> option_of d' (snd v) (fst (fst v))"
      using 1 by (elim conjE) (erule (1) bspec)
    moreover have "set (poll_options d') \<subseteq> set (poll_options d'')" using 2 by simp
    ultimately show ?thesis using option_of_mono by blast
  qed
  have new_comments: "c \<in> set (comments d) \<or> co_post c \<in> V" if c: "c \<in> set (comments d'')" for c
  proof -
    from 2 c have "c \<in> set (comments d') \<or> co_post c \<in> V" by (elim conjE) (erule (1) bspec)
    moreover have "c \<in> set (comments d') \<Longrightarrow> c \<in> set (comments d) \<or> co_post c \<in> V"
      using 1 by (elim conjE) (erule (1) bspec)
    ultimately show ?thesis by blast
  qed
  have new_resonances: "r \<in> set (resonances d) \<or> snd (fst r) \<in> V" if r: "r \<in> set (resonances d'')" for r
  proof -
    from 2 r have "r \<in> set (resonances d') \<or> snd (fst r) \<in> V" by (elim conjE) (erule (1) bspec)
    moreover have "r \<in> set (resonances d') \<Longrightarrow> r \<in> set (resonances d) \<or> snd (fst r) \<in> V"
      using 1 by (elim conjE) (erule (1) bspec)
    ultimately show ?thesis by blast
  qed
  have polls: "set (polls d) \<subseteq> set (polls d')" "set (polls d') \<subseteq> set (polls d'')"
    and options: "set (poll_options d) \<subseteq> set (poll_options d')" "set (poll_options d') \<subseteq> set (poll_options d'')"
    using 1 2 by simp_all
  show "content_within V u d d''"
    unfolding content_within_def
  proof (intro conjI ballI)
    show "set (polls d) \<subseteq> set (polls d'')" "set (poll_options d) \<subseteq> set (poll_options d'')"
      by (rule subset_trans [OF polls], rule subset_trans [OF options])
  next
    show "c \<in> set (comments d) \<or> co_post c \<in> V" if "c \<in> set (comments d'')" for c using that by (rule new_comments)
    show "r \<in> set (resonances d) \<or> snd (fst r) \<in> V" if "r \<in> set (resonances d'')" for r using that by (rule new_resonances)
    show "v \<in> set (votes d) \<or> option_of d'' (snd v) (fst (fst v))" if "v \<in> set (votes d'')" for v using that by (rule new_votes)
  qed (use 1 2 in \<open>elim conjE, simp only:\<close>)+
qed

abbreviation cn_moves ::
  "uuid set \<Rightarrow> uuid option \<Rightarrow> (content_db \<Rightarrow> bool) \<Rightarrow> 'a content_op \<Rightarrow> ('a \<Rightarrow> content_db \<Rightarrow> bool) \<Rightarrow> bool" where
  "cn_moves V u \<equiv> op_moves cs_db (content_within V u)"

lemma on_content_moves: "moves R P m Q \<Longrightarrow> op_moves cs_db R P (on_content m) Q"
  by (fastforce simp: op_moves_def moves_def on_content_def split: prod.splits)

lemma scan_id_moves:
  "(\<And>a. cn_scan env x = Inr a \<Longrightarrow> moves (content_within V u) P (k a) Q) \<Longrightarrow> moves (content_within V u) P (scan_id env m x k) Q"
  by (auto simp: scan_id_def content.moves_fail split: sum.split)

lemma oreply_moves:
  assumes m: "cn_moves V u P m M" and k: "\<And>a. cn_moves V u (M a) (k a) (\<lambda>_ _. True)"
  shows "cn_moves V u P (oreply m g k) (\<lambda>_ _. True)"
  unfolding oreply_def
proof (rule content.op_moves_bind [where M = "\<lambda>r d. \<forall>a. r = Inr a \<longrightarrow> M a d"])
  show "cn_moves V u P (otry m) (\<lambda>r d. \<forall>a. r = Inr a \<longrightarrow> M a d)"
    using m by (fastforce simp: op_moves_def otry_def split: prod.splits)
  show "cn_moves V u (\<lambda>d. \<forall>a. r = Inr a \<longrightarrow> M a d) (case r of Inl e \<Rightarrow> oreturn (g e) | Inr a \<Rightarrow> k a) (\<lambda>_ _. True)" for r
    using k by (cases r) (auto intro: content.op_moves_return)
qed

text \<open>Statements that only read.\<close>

lemma content_reads:
  "reads (feed_stmt n1 u1 l1 o1)" "reads (can_view_post_stmt p2 v2)" "reads (post_by_id_stmt p3)" "reads (comments_stmt p4)"
  "reads (\<lambda>d. Inr (option_of d x5 p5, d))"
  by (auto simp: reads_def feed_stmt_def can_view_post_stmt_def post_by_id_stmt_def comments_stmt_def split: sum.splits list.splits)

section \<open>Statements within the specification\<close>

lemma create_post_within:
  assumes "create_post_stmt i a s d = Inr (p, d')"
  shows "content_within V (Some a) d d'"
  using assms
  by (auto simp: create_post_stmt_def Let_def sql_insert_def content_within_def option_of_def split: if_splits sum.splits)

lemma create_poll_within: "create_poll_stmt i p q e d = Inr (x, d') \<Longrightarrow> content_within V u d d'"
  by (auto simp: create_poll_stmt_def sql_insert_def content_within_def option_of_def split: if_splits sum.splits)

lemma create_option_within: "create_option_stmt n p t d = Inr (x, d') \<Longrightarrow> content_within V u d d'"
  by (auto simp: create_option_stmt_def sql_insert_def content_within_def option_of_def split: if_splits sum.splits)

lemma create_comment_within:
  assumes "create_comment_stmt i p a q t d = Inr (c, d')" and "p \<in> V"
  shows "content_within V (Some a) d d'"
  using assms
  by (auto simp: create_comment_stmt_def Let_def sql_insert_def content_within_def option_of_def split: if_splits sum.splits)

lemma react_post_within:
  assumes "react_post_stmt a t ty d = Inr (x, d')" and "t \<in> V"
  shows "content_within V (Some a) d d'"
proof -
  let ?r = "sql_upsert fst ((a, t), ty) (\<lambda>r. (fst r, ty)) (resonances d)"
  from assms have d': "d' = d\<lparr>resonances := ?r\<rparr>" by (auto simp: react_post_stmt_def split: if_splits)
  have "rest_of (Some a) (\<lambda>r. fst (fst r)) ?r = rest_of (Some a) (\<lambda>r. fst (fst r)) (resonances d)" by (intro rest_of_upsert) auto
  moreover have "r \<in> set (resonances d) \<or> snd (fst r) \<in> V" if "r \<in> set ?r" for r
    using that assms(2) by (auto simp: sql_upsert_def set_sql_update split: if_splits)
  ultimately show ?thesis by (auto simp: d' content_within_def option_of_def)
qed

lemma unreact_post_within: "unreact_post_stmt a t d = Inr (x, d') \<Longrightarrow> content_within V (Some a) d d'"
  by (auto simp: unreact_post_stmt_def content_within_def option_of_def intro!: rest_of_delete)

lemma vote_within:
  assumes "vote_stmt p x a d = Inr (y, d')" and "option_of d x p"
  shows "content_within V (Some a) d d'"
proof -
  let ?v = "sql_upsert fst ((p, a), x) (\<lambda>v. (fst v, x)) (votes d)"
  from assms have d': "d' = d\<lparr>votes := ?v\<rparr>" by (auto simp: vote_stmt_def split: if_splits)
  have "rest_of (Some a) (\<lambda>v. snd (fst v)) ?v = rest_of (Some a) (\<lambda>v. snd (fst v)) (votes d)" by (intro rest_of_upsert) auto
  moreover have "v \<in> set (votes d) \<or> option_of d (snd v) (fst (fst v))" if "v \<in> set ?v" for v
    using that assms(2) by (auto simp: sql_upsert_def set_sql_update split: if_splits)
  ultimately show ?thesis by (auto simp: d' content_within_def option_of_def)
qed

text \<open>Statements on the posts with one identifier, which is unique.\<close>

definition content_keys :: "content_db \<Rightarrow> bool" where
  "content_keys d \<longleftrightarrow> distinct (map po_id (posts d)) \<and> distinct (map co_id (comments d))"

lemma filter_rest_update:
  assumes "\<And>r. f (g r) = f r" and "\<And>r. Q r \<Longrightarrow> \<not> K r \<and> \<not> K (g r)"
  shows "filter K (rest_of u f (sql_update Q g rs)) = filter K (rest_of u f rs)"
  using assms by (induction rs) (auto simp: sql_update_def)

lemma metrics_within:
  assumes "metrics_stmt now post vs cs ss d = Inr (x, d')" and "post \<in> V"
  shows "content_within V u d d'"
proof -
  let ?f = "\<lambda>p. p\<lparr>po_views := vs, po_comments := cs, po_shares := ss, po_updated := now\<rparr>"
  have frame: "po_frame (?f p) = po_frame p" for p by (simp add: po_frame_def)
  have "map po_frame (rest_of u po_author (sql_update (\<lambda>p. po_id p = post) ?f ps)) = map po_frame (rest_of u po_author ps)" for ps
    by (induction ps) (simp_all add: sql_update_def frame)
  moreover have "filter (\<lambda>p. po_id p \<notin> V) (rest_of u po_author (sql_update (\<lambda>p. po_id p = post) ?f ps)) =
      filter (\<lambda>p. po_id p \<notin> V) (rest_of u po_author ps)" for ps
    using assms(2) by (intro filter_rest_update) auto
  moreover from assms(1) have "d' = d\<lparr>posts := sql_update (\<lambda>p. po_id p = post) ?f (posts d)\<rparr>"
    by (simp add: metrics_stmt_def update_posts_def)
  ultimately show ?thesis by (simp add: content_within_def option_of_def)
qed

lemma own_post_rows:
  assumes "content_keys d" and "p \<in> set (posts d)" and "q \<in> set (posts d)" and "po_id q = po_id p"
  shows "q = p"
  using assms by (auto simp: content_keys_def distinct_map dest: inj_onD)

lemma update_post_within:
  assumes "update_post_stmt now t m (po_id p) d = Inr (x, d')" and "content_keys d" and "p \<in> set (posts d)" and "u = Some (po_author p)"
  shows "content_within V u d d'"
proof -
  have "rest_of u po_author (sql_update (\<lambda>q. po_id q = po_id p) (\<lambda>p. p\<lparr>po_text := t, po_media := m, po_updated := now\<rparr>) (posts d)) =
      rest_of u po_author (posts d)"
    using own_post_rows [OF assms(2,3)] assms(4) by (intro rest_of_update) auto
  with assms(1) show ?thesis by (auto simp: update_post_stmt_def update_posts_def content_within_def option_of_def)
qed

lemma delete_post_within:
  assumes "delete_post_stmt (po_id p) d = Inr (x, d')" and "content_keys d" and "p \<in> set (posts d)" and "u = Some (po_author p)"
  shows "content_within V u d d'"
proof -
  have "rest_of u po_author (sql_delete (\<lambda>q. po_id q = po_id p) (posts d)) = rest_of u po_author (posts d)"
    using own_post_rows [OF assms(2,3)] assms(4) by (intro rest_of_delete) auto
  with assms(1) show ?thesis by (auto simp: delete_post_stmt_def content_within_def option_of_def)
qed

lemma delete_comment_within:
  assumes "delete_comment_stmt (co_id c) d = Inr (x, d')" and "content_keys d" and "c \<in> set (comments d)" and "u = Some (co_author c)"
  shows "content_within V u d d'"
proof -
  have "q = c" if "q \<in> set (comments d)" "co_id q = co_id c" for q
    using that assms(2,3) by (auto simp: content_keys_def distinct_map dest: inj_onD)
  then have "rest_of u co_author (sql_delete (\<lambda>q. co_id q = co_id c) (comments d)) = rest_of u co_author (comments d)"
    using assms(4) by (intro rest_of_delete) auto
  with assms(1) show ?thesis by (auto simp: delete_comment_stmt_def content_within_def option_of_def)
qed
section \<open>Requests within the specification\<close>

lemma guard_post_moves: "cn_moves V u P (guard_post env i a t) (\<lambda>_. P)"
  by (auto simp: op_moves_def guard_post_def Let_def content.stays split: option.splits prod.splits if_splits)

lemma add_options_moves: "moves (content_within V u) P (add_options i poll xs n) (\<lambda>_ _. True)"
proof (induction xs arbitrary: n P)
  case (Cons x xs)
  show ?case
    unfolding add_options.simps Let_def
    by (intro content.moves_if content.moves_fail content.moves_bind [where M = "\<lambda>_ _. True"] content.moves_autocommit Cons)
      (auto dest: create_option_within)
qed (simp add: content.moves_return)

lemma create_poll_moves: "moves (content_within V u) P (CreateWavePool env i post w) (\<lambda>_ _. True)"
  unfolding CreateWavePool_def
  by (intro content.moves_if content.moves_fail scan_id_moves content.moves_bind [where M = "\<lambda>_ _. True"] content.moves_autocommit
      add_options_moves) (auto dest: create_poll_within)

definition scanned :: "content_env \<Rightarrow> string \<Rightarrow> uuid option" where
  "scanned env x = (case cn_scan env x of Inl _ \<Rightarrow> None | Inr u \<Rightarrow> Some u)"

lemma create_signal_moves: "moves (content_within V (scanned env (sg_author s))) P (CreateSignal env i s) (\<lambda>_ _. True)"
  unfolding CreateSignal_def
proof (rule scan_id_moves)
  fix a
  assume a: "cn_scan env (sg_author s) = Inr a"
  then have "scanned env (sg_author s) = Some a" by (simp add: scanned_def)
  then show "moves (content_within V (scanned env (sg_author s))) P (dbind (autocommit (create_post_stmt i a s))
      (\<lambda>p. dreturn (s\<lparr>sg_id := cn_show env (po_id p), sg_created := po_created p\<rparr>))) (\<lambda>_ _. True)"
    by (intro content.moves_bind [where M = "\<lambda>_ _. True"] content.moves_autocommit content.moves_return) (auto dest: create_post_within)
qed

lemma broadcast_moves: "cn_moves V (scanned env (sg_author s)) P (BroadcastSignal env i (Some s) pool) (\<lambda>_ _. True)"
proof -
  have create: "cn_moves V (scanned env (sg_author s)) P (on_content (CreateSignal env i s')) (\<lambda>_ _. True)"
    if "sg_author s' = sg_author s" for s' P
    using create_signal_moves [of V env s' P i] that by (auto intro: on_content_moves)
  have poll: "cn_moves V v P (case pool of None \<Rightarrow> oreturn () | Some w \<Rightarrow> on_content (CreateWavePool env i x w)) (\<lambda>_ _. True)" for v x P
    by (cases pool) (auto intro: content.op_moves_return on_content_moves create_poll_moves)
  show ?thesis
    unfolding BroadcastSignal_def option.case Let_def
    by (auto intro!: op_moves_if content.op_moves_fail content.op_moves_bind [OF guard_post_moves] content.op_moves_bind [OF create]
        content.op_moves_bind [OF poll] content.op_moves_return split: sum.split option.split)
qed

text \<open>The author finds the post that is the author's.\<close>

definition own_of :: "content_env \<Rightarrow> string \<Rightarrow> content_db \<Rightarrow> signal \<Rightarrow> content_db \<Rightarrow> bool" where
  "own_of env post d0 s d \<longleftrightarrow> d = d0 \<and>
     (\<exists>p\<in>set (posts d). cn_scan env post = Inr (po_id p) \<and> sg_id s = cn_show env (po_id p) \<and> sg_author s = cn_show env (po_author p))"

lemma post_by_id_found:
  assumes "post_by_id_stmt k d = Inr ((p, w), d')"
  shows "d' = d \<and> p \<in> set (posts d) \<and> po_id p = k \<and> w \<in> set (susers (graph d)) \<and> us_id w = po_author p"
proof -
  from assms have "d' = d" and "(p, w) \<in> set (with_authors d (sort_key (\<lambda>p. - po_created p) (filter (\<lambda>p. po_id p = k) (posts d))))"
    by (auto simp: post_by_id_stmt_def split: list.splits)
  then show ?thesis by (auto simp: with_authors_def)
qed

lemma get_signal_moves:
  "cn_moves V u (\<lambda>d. d = d0) (on_content (GetSignalByID env post)) (own_of env post d0)"
  unfolding GetSignalByID_def
proof (intro on_content_moves scan_id_moves)
  fix k
  assume k: "cn_scan env post = Inr k"
  show "moves (content_within V u) (\<lambda>d. d = d0) (dbind (autocommit (post_by_id_stmt k)) (\<lambda>r. dreturn (signal_of env r))) (own_of env post d0)"
  proof (rule content.moves_bind [where M = "\<lambda>r d. d = d0 \<and> fst r \<in> set (posts d) \<and> po_id (fst r) = k"])
    show "moves (content_within V u) (\<lambda>d. d = d0) (autocommit (post_by_id_stmt k)) (\<lambda>r d. d = d0 \<and> fst r \<in> set (posts d) \<and> po_id (fst r) = k)"
      by (rule content.moves_autocommit) (auto dest: post_by_id_found simp: content.stays)
    show "moves (content_within V u) (\<lambda>d. d = d0 \<and> fst r \<in> set (posts d) \<and> po_id (fst r) = k) (dreturn (signal_of env r)) (own_of env post d0)" for r
      using k by (intro content.moves_return) (auto simp: own_of_def signal_of_def split: prod.splits)
  qed
qed

lemma own_post_moves:
  assumes "\<And>s p. sg_author s = u \<Longrightarrow> sg_author s = cn_show env (po_author p) \<Longrightarrow> cn_scan env post = Inr (po_id p) \<Longrightarrow>
    sg_id s = cn_show env (po_id p) \<Longrightarrow> p \<in> set (posts d0) \<Longrightarrow> cn_moves V v (\<lambda>d. d = d0) (k s) (\<lambda>_ _. True)"
  shows "cn_moves V v (\<lambda>d. d = d0) (own_post env post u k) (\<lambda>_ _. True)"
  unfolding own_post_def
proof (rule oreply_moves [OF get_signal_moves], intro op_moves_if)
  fix s :: signal
  assume u: "\<not> sg_author s \<noteq> u"
  show "cn_moves V v (own_of env post d0 s) (k s) (\<lambda>_ _. True)"
  proof (cases "own_of env post d0 s d0")
    case True
    then obtain p where p: "p \<in> set (posts d0)" "cn_scan env post = Inr (po_id p)" "sg_id s = cn_show env (po_id p)"
      "sg_author s = cn_show env (po_author p)" by (auto simp: own_of_def)
    with assms u have "cn_moves V v (\<lambda>d. d = d0) (k s) (\<lambda>_ _. True)" by simp
    then show ?thesis by (rule op_moves_weaken) (simp add: own_of_def)
  next
    case False
    then have "\<not> own_of env post d0 s d" for d by (auto simp: own_of_def)
    then show ?thesis by (simp add: op_moves_def)
  qed
qed (rule content.op_moves_return, simp)

text \<open>A visible post is found, and then a request on it is within the specification.\<close>

definition sees :: "content_env \<Rightarrow> string \<Rightarrow> string \<Rightarrow> content_db \<Rightarrow> bool" where
  "sees env u post d \<longleftrightarrow> (\<exists>v k. cn_scan env u = Inr v \<and> cn_scan env post = Inr k \<and> post_visible d k v)"

lemma can_view_moves:
  "cn_moves V v (\<lambda>d. d = d0) (on_content (CanViewSignal env u post)) (\<lambda>b d. d = d0 \<and> (b \<longrightarrow> sees env u post d0))"
  unfolding CanViewSignal_def
  by (intro on_content_moves scan_id_moves content.moves_autocommit) (auto simp: can_view_post_stmt_def sees_def content.stays)

lemma visible_post_moves:
  "cn_moves V v (\<lambda>d. d = d0) (requireVisiblePost env post u) (\<lambda>_ d. d = d0 \<and> sees env u post d0)"
  unfolding requireVisiblePost_def
proof (intro op_moves_if content.op_moves_fail content.op_moves_bind [OF get_signal_moves])
  fix s :: signal
  have "cn_moves V v (\<lambda>d. d = d0) (obind (on_content (CanViewSignal env u post)) (\<lambda>visible.
      if visible then oreturn s else ofail ErrForbidden)) (\<lambda>_ d. d = d0 \<and> sees env u post d0)"
    by (rule content.op_moves_bind [OF can_view_moves]) (auto intro: content.op_moves_return content.op_moves_fail)
  then show "cn_moves V v (own_of env post d0 s) (obind (on_content (CanViewSignal env u post)) (\<lambda>visible.
      if visible then oreturn s else ofail ErrForbidden)) (\<lambda>_ d. d = d0 \<and> sees env u post d0)"
    by (rule op_moves_weaken) (simp add: own_of_def)
qed

lemma if_visible_moves:
  assumes "sees env u post d0 \<Longrightarrow> cn_moves V v (\<lambda>d. d = d0) k (\<lambda>_ _. True)"
  shows "cn_moves V v (\<lambda>d. d = d0) (if_visible env post u k) (\<lambda>_ _. True)"
  unfolding if_visible_def
proof (rule oreply_moves [OF visible_post_moves])
  show "cn_moves V v (\<lambda>d. d = d0 \<and> sees env u post d0) k (\<lambda>_ _. True)"
    using assms by (cases "sees env u post d0") (auto simp: op_moves_def)
qed

lemma done_or_moves: "cn_moves V v P m (\<lambda>_ _. True) \<Longrightarrow> cn_moves V v P (done_or m c) (\<lambda>_ _. True)"
  unfolding done_or_def by (erule oreply_moves) (rule content.op_moves_return, simp)
lemma amplify_moves:
  assumes "cn_scan env u = Inr v" and "\<And>k. cn_scan env post = Inr k \<Longrightarrow> k \<in> V"
  shows "cn_moves V (Some v) P (AmplifySignal env now u post n) (\<lambda>_ _. True)"
proof -
  have "cn_moves V (Some v) P (on_content (AddResonance env u post)) (\<lambda>_ _. True)"
    unfolding AddResonance_def
    by (intro on_content_moves scan_id_moves content.moves_autocommit) (use assms in \<open>auto dest: react_post_within\<close>)
  then show ?thesis
    by (fastforce simp: op_moves_def AmplifySignal_def ofail_def content.stays split: option.splits prod.splits if_splits)
qed

lemma remove_resonance_moves:
  assumes "cn_scan env u = Inr v"
  shows "cn_moves V (Some v) P (RemoveResonance env u post) (\<lambda>_ _. True)"
  unfolding RemoveResonance_def repo_RemoveResonance_def
  by (intro op_moves_if content.op_moves_fail on_content_moves scan_id_moves content.moves_autocommit)
    (use assms in \<open>auto dest: unreact_post_within\<close>)

lemma share_moves:
  assumes "\<And>k. cn_scan env post = Inr k \<Longrightarrow> k \<in> V"
  shows "cn_moves V u P (ShareSignal env now x post) (\<lambda>_ _. True)"
  unfolding ShareSignal_def UpdateSignalMetrics_def
  by (intro op_moves_if content.op_moves_fail on_content_moves scan_id_moves content.moves_autocommit)
    (use assms in \<open>auto dest: metrics_within\<close>)

lemma add_node_moves:
  assumes "cn_scan env u = Inr v" and "\<And>k. cn_scan env post = Inr k \<Longrightarrow> k \<in> V"
  shows "cn_moves V (Some v) P (AddNode env i post u parent text) (\<lambda>_ _. True)"
proof -
  have create: "moves (content_within V (Some v)) P (dbind (autocommit (create_comment_stmt i k v par t)) f) (\<lambda>_ _. True)"
    if "k \<in> V" "\<And>c. moves (content_within V (Some v)) (\<lambda>_. True) (f c) (\<lambda>_ _. True)" for k par t and f :: "comment_row \<Rightarrow> (content_db, node) dbm"
    using that by (intro content.moves_bind [where M = "\<lambda>_ _. True"] content.moves_autocommit) (auto dest: create_comment_within)
  show ?thesis
    unfolding AddNode_def CreateNode_def Let_def
    by (intro on_content_moves scan_id_moves content.moves_case_option create content.moves_return)
      (use assms in \<open>auto intro: create content.moves_return\<close>)
qed

lemma vote_moves:
  assumes "cn_scan env u = Inr v"
  shows "moves (content_within V (Some v)) P (VoteWave env pool opt u) (\<lambda>_ _. True)"
  unfolding VoteWave_def
proof (intro scan_id_moves)
  fix p x w
  assume "cn_scan env u = Inr w"
  with assms have w: "w = v" by simp
  show "moves (content_within V (Some v)) P (dbind (autocommit (\<lambda>d. Inr (option_of d x p, d))) (\<lambda>exists.
      if \<not> exists then dfail (Errorf ''wave option does not belong to wave pool'') else autocommit (vote_stmt p x w))) (\<lambda>_ _. True)"
  proof (rule content.moves_bind [where M = "\<lambda>b d. b \<longrightarrow> option_of d x p"])
    show "moves (content_within V (Some v)) P (autocommit (\<lambda>d. Inr (option_of d x p, d))) (\<lambda>b d. b \<longrightarrow> option_of d x p)"
      by (rule content.moves_autocommit) (auto simp: content.stays)
    show "moves (content_within V (Some v)) (\<lambda>d. b \<longrightarrow> option_of d x p)
        (if \<not> b then dfail (Errorf ''wave option does not belong to wave pool'') else autocommit (vote_stmt p x w)) (\<lambda>_ _. True)" for b
      by (intro content.moves_if content.moves_fail content.moves_autocommit) (auto simp: w dest: vote_within)
  qed
qed

lemma get_nodes_moves:
  "cn_moves V v (\<lambda>d. d = d0) (on_content (GetNodesForSignal env post))
     (\<lambda>ns d. d = d0 \<and> (\<forall>n\<in>set ns. \<exists>c\<in>set (comments d0). nd_id n = cn_show env (co_id c) \<and> nd_author n = cn_show env (co_author c)))"
  unfolding GetNodesForSignal_def
proof (intro on_content_moves scan_id_moves)
  fix k
  show "moves (content_within V v) (\<lambda>d. d = d0) (dbind (autocommit (comments_stmt k)) (\<lambda>rs. dreturn (map (node_of env) rs)))
     (\<lambda>ns d. d = d0 \<and> (\<forall>n\<in>set ns. \<exists>c\<in>set (comments d0). nd_id n = cn_show env (co_id c) \<and> nd_author n = cn_show env (co_author c)))"
    by (rule content.moves_bind [where M = "\<lambda>rs d. d = d0 \<and> fst ` set rs \<subseteq> set (comments d0)"],
        rule content.moves_autocommit, force simp: comments_stmt_def content.stays, rule content.moves_return)
      (fastforce simp: node_of_def)
qed

lemma delete_comment_moves:
  assumes ids: "\<And>k. cn_scan env (cn_show env k) = Inr k" and keys: "content_keys d0"
    and n: "nd_id n = x" "nd_author n = u"
      "\<exists>c\<in>set (comments d0). nd_id n = cn_show env (co_id c) \<and> nd_author n = cn_show env (co_author c)"
  shows "moves (content_within V (scanned env u)) (\<lambda>d. d = d0) (repo_DeleteNode env x) (\<lambda>_ _. True)"
proof -
  from n obtain c where c: "c \<in> set (comments d0)" "x = cn_show env (co_id c)" "u = cn_show env (co_author c)" by auto
  then have "cn_scan env x = Inr (co_id c)" "scanned env u = Some (co_author c)" using ids by (simp_all add: scanned_def)
  then show ?thesis
    unfolding repo_DeleteNode_def
    by (intro scan_id_moves content.moves_autocommit) (use keys c(1) in \<open>auto dest: delete_comment_within\<close>)
qed

text \<open>What the caller sees.\<close>

definition seen_posts :: "content_env \<Rightarrow> string \<Rightarrow> content_db \<Rightarrow> uuid set" where
  "seen_posts env u d = {k. \<exists>v. cn_scan env u = Inr v \<and> post_visible d k v}"

lemma amplify_seen:
  assumes "sees env u post d0"
  shows "cn_moves (seen_posts env u d0) (scanned env u) P (AmplifySignal env now u post n) (\<lambda>_ _. True)"
proof -
  from assms obtain v k where vk: "cn_scan env u = Inr v" "cn_scan env post = Inr k" "k \<in> seen_posts env u d0"
    by (auto simp: sees_def seen_posts_def)
  then show ?thesis using amplify_moves [OF vk(1), of post "seen_posts env u d0"] by (simp add: scanned_def)
qed

lemma content_handlers_move:
  assumes ids: "\<And>k. cn_scan env (cn_show env k) = Inr k" and keys: "content_keys d0"
  shows "cn_moves (seen_posts env u d0) (scanned env u) (\<lambda>d. d = d0) (handle_content env i u c) (\<lambda>_ _. True)"
proof (cases c)
  case (FeedReq page)
  have "cn_moves (seen_posts env u d0) (scanned env u) (\<lambda>d. d = d0) (GetResonanceStream env now u p) (\<lambda>_ _. True)" for now p
    unfolding GetResonanceStream_def GetStream_def signals_of_def
    by (intro content.op_moves_bind [where M = "\<lambda>_ _. True"] on_content_moves scan_id_moves
        content.moves_bind [OF content.moves_read [OF content_reads(1)]] content.moves_return content.op_moves_return) simp_all
  then show ?thesis unfolding FeedReq content_routes by (rule oreply_moves) (rule content.op_moves_return, simp)
next
  case (GetPostReq post)
  show ?thesis unfolding GetPostReq content_routes by (rule oreply_moves [OF visible_post_moves]) (rule content.op_moves_return, simp)
next
  case (CreatePostReq req)
  have "cn_moves (seen_posts env u d0) (scanned env u) (\<lambda>d. d = d0) (BroadcastSignal env i
      (Some (empty_signal\<lparr>sg_author := u, sg_text := t, sg_media := m, sg_visibility := w\<rparr>)) pool) (\<lambda>_ _. True)" for t m w pool
    using broadcast_moves [of "seen_posts env u d0" env "empty_signal\<lparr>sg_author := u, sg_text := t, sg_media := m, sg_visibility := w\<rparr>"] by simp
  then have "cn_moves (seen_posts env u d0) (scanned env u) (\<lambda>d. d = d0) (oreply (BroadcastSignal env i
      (Some (empty_signal\<lparr>sg_author := u, sg_text := t, sg_media := m, sg_visibility := w\<rparr>)) pool) (\<lambda>_. unable_content)
      (\<lambda>s. oreturn (201, CnPost (toMeropeSignalDTO s)))) (\<lambda>_ _. True)" for t m w pool
    by (rule oreply_moves) (rule content.op_moves_return, simp)
  then show ?thesis unfolding CreatePostReq content_routes by (auto intro: content.op_moves_return split: option.split)
next
  case (UpdatePostReq post req)
  have "cn_moves (seen_posts env u d0) (scanned env u) (\<lambda>d. d = d0) (own_post env post u (\<lambda>s. let s = s\<lparr>sg_text := t, sg_media := m\<rparr>
            in oreply (on_content (repo_UpdateSignal env (cn_now i) s)) (\<lambda>_. unable_content) (\<lambda>_. oreturn (200, CnPost (toMeropeSignalDTO s)))))
      (\<lambda>_ _. True)" for t m
  proof (rule own_post_moves, unfold Let_def, rule oreply_moves)
    fix s :: signal and p
    assume own: "sg_author s = u" "sg_author s = cn_show env (po_author p)" "sg_id s = cn_show env (po_id p)" "p \<in> set (posts d0)"
    then have "cn_scan env (sg_id (s\<lparr>sg_text := t, sg_media := m\<rparr>)) = Inr (po_id p)" "scanned env u = Some (po_author p)"
      using ids by (auto simp: scanned_def)
    then show "cn_moves (seen_posts env u d0) (scanned env u) (\<lambda>d. d = d0)
        (on_content (repo_UpdateSignal env (cn_now i) (s\<lparr>sg_text := t, sg_media := m\<rparr>))) (\<lambda>_ _. True)"
      unfolding repo_UpdateSignal_def
      by (intro on_content_moves scan_id_moves content.moves_autocommit) (use keys own(4) in \<open>auto dest: update_post_within\<close>)
  qed (rule content.op_moves_return, simp)
  then show ?thesis unfolding UpdatePostReq content_routes by (auto intro: content.op_moves_return split: option.split)
next
  case (DeletePostReq post)
  show ?thesis
    unfolding DeletePostReq content_routes
  proof (rule own_post_moves, rule done_or_moves)
    fix s :: signal and p
    assume own: "sg_author s = u" "sg_author s = cn_show env (po_author p)" "cn_scan env post = Inr (po_id p)" "p \<in> set (posts d0)"
    then have "scanned env u = Some (po_author p)" using ids by (auto simp: scanned_def)
    with own(3) show "cn_moves (seen_posts env u d0) (scanned env u) (\<lambda>d. d = d0) (on_content (repo_DeleteSignal env post)) (\<lambda>_ _. True)"
      unfolding repo_DeleteSignal_def
      by (intro on_content_moves scan_id_moves content.moves_autocommit) (use keys own(4) in \<open>auto dest: delete_post_within\<close>)
  qed
next
  case (CommentsReq post)
  show ?thesis
    unfolding CommentsReq content_routes
    by (rule if_visible_moves, rule oreply_moves [OF get_nodes_moves]) (rule content.op_moves_return, simp)
next
  case (CommentReq post req)
  show ?thesis
    unfolding CommentReq content_routes
  proof (rule if_visible_moves)
    assume "sees env u post d0"
    then obtain v k where "cn_scan env u = Inr v" "cn_scan env post = Inr k" "k \<in> seen_posts env u d0"
      by (auto simp: sees_def seen_posts_def)
    then show "cn_moves (seen_posts env u d0) (scanned env u) (\<lambda>d. d = d0) (case req of None \<Rightarrow> oreturn bad_content
        | Some (text, parent) \<Rightarrow> oreply (AddNode env i post u parent text) (\<lambda>_. unable_content)
            (\<lambda>n. oreturn (201, CnComment (toMeropeCommentDTO n)))) (\<lambda>_ _. True)"
      by (auto intro!: content.op_moves_return oreply_moves [OF add_node_moves] simp: scanned_def split: option.split)
  qed
next
  case (AnalyticsReq post)
  show ?thesis unfolding AnalyticsReq content_routes by (rule oreply_moves [OF visible_post_moves]) (rule content.op_moves_return, simp)
next
  case (ReactPostReq post)
  show ?thesis
    unfolding ReactPostReq content_routes
    by (intro if_visible_moves done_or_moves amplify_seen)
next
  case (LikeReq post)
  show ?thesis
    unfolding LikeReq content_routes
    by (intro if_visible_moves done_or_moves amplify_seen)
next
  case (UnlikeReq post)
  show ?thesis
    unfolding UnlikeReq content_routes
    by (intro if_visible_moves done_or_moves) (auto simp: sees_def scanned_def intro!: remove_resonance_moves)
next
  case (RepostReq post)
  show ?thesis
    unfolding RepostReq content_routes
    by (intro if_visible_moves done_or_moves) (auto simp: sees_def seen_posts_def intro!: share_moves)
next
  case (DeleteCommentReq post x)
  show ?thesis
    unfolding DeleteCommentReq content_routes
  proof (rule if_visible_moves, rule oreply_moves [OF get_nodes_moves], intro op_moves_if)
    fix ns
    assume "list_ex (\<lambda>n. nd_id n = x \<and> nd_author n = u) ns"
    then obtain n where n: "n \<in> set ns" "nd_id n = x" "nd_author n = u" by (auto simp: list_ex_iff)
    let ?M = "\<lambda>d. d = d0 \<and> (\<forall>n\<in>set ns. \<exists>c\<in>set (comments d0). nd_id n = cn_show env (co_id c) \<and> nd_author n = cn_show env (co_author c))"
    show "cn_moves (seen_posts env u d0) (scanned env u) ?M (done_or (on_content (repo_DeleteNode env x)) 204) (\<lambda>_ _. True)"
    proof (cases "?M d0")
      case True
      with n have "\<exists>c\<in>set (comments d0). nd_id n = cn_show env (co_id c) \<and> nd_author n = cn_show env (co_author c)" by blast
      from delete_comment_moves [OF ids keys n(2,3) this]
      have "cn_moves (seen_posts env u d0) (scanned env u) (\<lambda>d. d = d0) (done_or (on_content (repo_DeleteNode env x)) 204) (\<lambda>_ _. True)"
        by (intro done_or_moves on_content_moves)
      then show ?thesis by (rule op_moves_weaken) blast
    next
      case False
      then have no: "\<not> ?M d" for d by blast
      show ?thesis unfolding op_moves_def using no by blast
    qed
  qed (rule content.op_moves_return, simp)
next
  case (VoteReq pool req)
  have "cn_moves (seen_posts env u d0) (scanned env u) (\<lambda>d. d = d0) (on_content (VoteWave env pool opt u)) (\<lambda>_ _. True)" for opt
  proof (cases "cn_scan env u")
    case (Inl e)
    then show ?thesis
      by (intro on_content_moves) (auto simp: VoteWave_def intro!: scan_id_moves)
  next
    case (Inr v)
    then show ?thesis by (intro on_content_moves) (simp add: scanned_def vote_moves)
  qed
  then show ?thesis
    unfolding VoteReq content_routes by (auto intro: content.op_moves_return done_or_moves split: option.split)
qed
section \<open>Properties\<close>

lemma op_movesD_step: "op_moves cs_db R P m Q \<Longrightarrow> P (durable (cs_db st)) \<Longrightarrow> R (durable (cs_db st)) (durable (cs_db (snd (m st))))"
  by (rule op_movesD)

text \<open>
  C8. Whatever an authenticated user requests, and whatever the database does meanwhile, the posts of others keep their text,
  media, visibility and flags, and those the user does not see their counters too; the comments, resonances and votes of
  others stay; and the user comments on and resonates with posts only that the user sees, and votes for options of the poll.
\<close>

theorem content_changes_authorised:
  assumes "\<And>k. cn_scan env (cn_show env k) = Inr k" and "content_keys (durable (cs_db st))"
  shows "content_within (seen_posts env u (durable (cs_db st))) (scanned env u)
    (durable (cs_db st)) (durable (cs_db (snd (handle_content env i u c st))))"
  by (rule op_movesD_step [OF content_handlers_move [OF assms] refl])

text \<open>Identifiers that are their decimal numbers; two users, the first one's post for followers, a comment and a poll.\<close>

definition content_demo_env :: content_env where
  "content_demo_env = \<lparr>cn_scan = (\<lambda>x. case parse_int 200 x of None \<Rightarrow> Inl (Errorf ''uuid'') | Some n \<Rightarrow> Inr (word_of_int n)),
     cn_show = (\<lambda>w. show_nat (unat w)), cn_sanitize = id, cn_fingerprint = id, cn_like = (\<lambda>p t. False)\<rparr>"

lemma content_demo_ids: "cn_scan content_demo_env (cn_show content_demo_env k) = Inr k"
proof -
  have "uint k < 2 ^ LENGTH(128)" by (rule unsigned_less)
  then have "int (unat k) < 2 ^ (200 - 1)" by simp
  from parse_int_shown [OF this] show ?thesis by (simp add: content_demo_env_def)
qed

lemma content_demo_scan [simp]: "cn_scan content_demo_env ''1'' = Inr 1" "cn_scan content_demo_env ''2'' = Inr 2"
    "cn_scan content_demo_env ''5'' = Inr 5" "cn_scan content_demo_env ''6'' = Inr 6" "cn_scan content_demo_env ''7'' = Inr 7"
  by (simp_all add: content_demo_env_def parse_int_def has_prefix_def is_digit_def read_digits_def digit_val_def Let_def)

lemma content_demo_trim [simp]: "trim_space ''2'' = ''2''" "trim_space ''5'' = ''5''"
  by (simp_all add: trim_space_plain plain_byte_def)

definition content_demo_user :: "uuid \<Rightarrow> user_row" where
  "content_demo_user n = \<lparr>us_id = n, us_username = ''u'', us_display = None, us_bio = None, us_avatar = None, us_verified = False,
     us_private = None, us_created = 0\<rparr>"

definition content_demo_graph :: social_db where
  "content_demo_graph = \<lparr>susers = [content_demo_user 1, content_demo_user 2],
     follows = [\<lparr>fo_follower = 2, fo_following = 1, fo_status = ''accepted''\<rparr>], blocks = [], requests = [], circles = [], members = [],
     reports = [], edges = []\<rparr>"

definition content_demo_post :: "string \<Rightarrow> post_row" where
  "content_demo_post visibility = \<lparr>po_id = 5, po_author = 1, po_text = ''hi'', po_media = [], po_visibility = visibility,
     po_pinned = False, po_archived = False, po_draft = False, po_published = Some 3, po_deleted = None, po_scheduled = None,
     po_expires = None, po_warning = None, po_views = 0, po_comments = 0, po_shares = 4, po_created = 3, po_updated = 3\<rparr>"

definition content_demo_db :: "string \<Rightarrow> content_db" where
  "content_demo_db visibility = \<lparr>graph = content_demo_graph, posts = [content_demo_post visibility],
     comments = [\<lparr>co_id = 8, co_post = 5, co_author = 1, co_parent = None, co_content = ''c'', co_created = 4, co_updated = 4\<rparr>],
     resonances = [], polls = [\<lparr>pl_id = 6, pl_post = 5, pl_question = ''q'', pl_ends = 0, pl_created = 3\<rparr>],
     poll_options = [(7, 6, ''yes''), (9, 6, ''no'')], votes = [((6, 1), 9)], collections = [], bookmarks = [], previews = []\<rparr>"

definition content_demo :: "string \<Rightarrow> content_state" where
  "content_demo visibility = \<lparr>cs_db = \<lparr>durable = content_demo_db visibility, view = content_demo_db visibility, aborted = False, outcomes = []\<rparr>,
     cs_guard = Some \<lparr>fingerprints = Map.empty, userPostTimes = (\<lambda>_. []), interactions = (\<lambda>_. [])\<rparr>\<rparr>"

definition content_demo_input :: content_input where
  "content_demo_input = \<lparr>cn_now = 20, cn_new = 30, cn_poll = 31, cn_option = (\<lambda>n. 40 + of_nat n)\<rparr>"

lemmas content_demo_defs = content_demo_def content_demo_db_def content_demo_post_def content_demo_graph_def content_demo_user_def

theorem content_changes_authorised_witness:
  "content_within {5} (Some 2) (content_demo_db ''followers'')
     (durable (cs_db (snd (handle_content content_demo_env content_demo_input ''2'' (RepostReq ''5'') (content_demo ''followers'')))))"
proof -
  have "scanned content_demo_env ''2'' = Some 2" by (simp add: scanned_def)
  moreover have "seen_posts content_demo_env ''2'' (content_demo_db ''followers'') = {5}"
    by (auto simp: seen_posts_def post_visible_def content_demo_defs accepted_def)
  moreover have "content_keys (durable (cs_db (content_demo ''followers'')))"
    by (simp add: content_keys_def content_demo_defs)
  ultimately show ?thesis
    using content_changes_authorised [of content_demo_env "content_demo ''followers''" "''2''" content_demo_input "RepostReq ''5''",
        OF content_demo_ids]
    by (simp add: content_demo_def del: content_routes)
qed


lemma required_visible:
  assumes "requireVisiblePost env post u st = (Inr s, st')"
  shows "sees env u post (durable (cs_db st))"
proof -
  from visible_post_moves [of "{}" None "durable (cs_db st)" env post u, unfolded op_moves_def, rule_format, OF assms refl]
  show ?thesis by auto
qed

lemma oreply_ok: "oreply m g k st = (Inr b, st') \<longleftrightarrow>
    (\<exists>e s1. m st = (Inl e, s1) \<and> b = g e \<and> st' = s1) \<or> (\<exists>a s1. m st = (Inr a, s1) \<and> k a s1 = (Inr b, st'))"
  by (auto simp: oreply_def obind_def otry_def oreturn_def split: prod.splits sum.splits)



text \<open>
  The feed has only posts that are published and not archived, and are public or by somebody whom the caller follows.
\<close>

theorem feed_items_allowed:
  assumes "fst (handle_content env i u (FeedReq page) st) = Inr (code, CnFeed ps more')"
  shows "\<exists>v. cn_scan env u = Inr v \<and> list_all (\<lambda>x. \<exists>p\<in>set (posts (durable (cs_db st))).
    dto_id x = cn_show env (po_id p) \<and> dto_content x = po_text p \<and> published (cn_now i) p \<and> \<not> po_archived p \<and>
    (po_visibility p = ''public'' \<or> accepted (graph (durable (cs_db st))) v (po_author p))) ps"
proof -
  from assms obtain st' where "handle_content env i u (FeedReq page) st = (Inr (code, CnFeed ps more'), st')"
    by (metis prod.collapse)
  then obtain ss where run: "GetResonanceStream env (cn_now i) u (word_of_int (if page = [] then 0 else atoi page)) st = (Inr ss, st')"
    and ps: "ps = map toMeropeSignalDTO ss"
    by (auto simp: oreply_ok unable_content_def oreturn_def)
  from run obtain v rs s' limit offset where v: "cn_scan env u = Inr v"
    and f: "autocommit (feed_stmt (cn_now i) v limit offset) (cs_db st) = (Inr rs, s')"
    and ss: "ss = map (\<lambda>s. if 50 < sg_amplitude s then s\<lparr>sg_score := sg_score s + 10\<rparr> else s) (map (signal_of env) rs)"
    by (auto simp: GetResonanceStream_def obind_def on_content_def GetStream_def scan_id_def signals_of_def dbind_def dfail_def dreturn_def
        oreturn_def split: prod.splits sum.splits)
  from f have "feed_stmt (cn_now i) v limit offset (durable (cs_db st)) = Inr (rs, durable s')" by (rule autocommit_cases(2)) simp
  then have rs: "list_all (\<lambda>(p, w). p \<in> set (posts (durable (cs_db st))) \<and> published (cn_now i) p \<and> \<not> po_archived p \<and>
      (accepted (graph (durable (cs_db st))) v (po_author p) \<or> po_visibility p = ''public'')) rs"
    by (auto simp: feed_stmt_def page_of_def with_authors_def list_all_iff dest!: in_set_takeD in_set_dropD split: sum.splits if_splits)
  have "list_all (\<lambda>x. \<exists>p\<in>set (posts (durable (cs_db st))).
    dto_id x = cn_show env (po_id p) \<and> dto_content x = po_text p \<and> published (cn_now i) p \<and> \<not> po_archived p \<and>
    (po_visibility p = ''public'' \<or> accepted (graph (durable (cs_db st))) v (po_author p))) ps"
    unfolding ps ss list_all_iff
  proof
    fix x
    assume "x \<in> set (map toMeropeSignalDTO (map (\<lambda>s. if 50 < sg_amplitude s then s\<lparr>sg_score := sg_score s + 10\<rparr> else s) (map (signal_of env) rs)))"
    then obtain p w where pw: "(p, w) \<in> set rs" and x: "dto_id x = cn_show env (po_id p)" "dto_content x = po_text p"
      by (auto simp: toMeropeSignalDTO_def signal_of_def split: if_splits)
    with rs show "\<exists>p\<in>set (posts (durable (cs_db st))).
        dto_id x = cn_show env (po_id p) \<and> dto_content x = po_text p \<and> published (cn_now i) p \<and> \<not> po_archived p \<and>
        (po_visibility p = ''public'' \<or> accepted (graph (durable (cs_db st))) v (po_author p))"
      by (intro bexI [of _ p]) (auto simp: list_all_iff)
  qed
  with v show ?thesis by blast
qed
lemma content_demo_feed:
  "handle_content content_demo_env content_demo_input ''2'' (FeedReq []) (content_demo visibility) =
     (Inr (200, CnFeed [toMeropeSignalDTO (signal_of content_demo_env (content_demo_post visibility, content_demo_user 1))] True),
      content_demo visibility)"
proof -
  have "page_start 0 = 0" by (simp add: page_start_def)
  then show ?thesis
    by (simp add: oreply_def GetResonanceStream_def obind_def otry_def oreturn_def on_content_def GetStream_def scan_id_def signals_of_def
        dbind_def dreturn_def autocommit_def next_outcome_def feed_stmt_def page_of_def with_authors_def published_def accepted_def
        content_page_def signal_of_def empty_signal_def content_demo_input_def content_demo_defs)
qed

theorem feed_items_allowed_witness:
  "\<exists>v. cn_scan content_demo_env ''2'' = Inr v \<and> list_all (\<lambda>x. \<exists>p\<in>set (posts (content_demo_db ''public'')).
    dto_id x = cn_show content_demo_env (po_id p) \<and> dto_content x = po_text p \<and> published 20 p \<and> \<not> po_archived p \<and>
    (po_visibility p = ''public'' \<or> accepted content_demo_graph v (po_author p)))
    [toMeropeSignalDTO (signal_of content_demo_env (content_demo_post ''public'', content_demo_user 1))]"
proof -
  have "fst (handle_content content_demo_env content_demo_input ''2'' (FeedReq []) (content_demo ''public'')) =
      Inr (200, CnFeed [toMeropeSignalDTO (signal_of content_demo_env (content_demo_post ''public'', content_demo_user 1))] True)"
    by (simp only: content_demo_feed fst_conv)
  from feed_items_allowed [OF this] show ?thesis
    by (simp add: content_demo_def content_demo_db_def content_demo_input_def)
qed

text \<open>The feed does not look at the visibility of a followee's post: a private one is shown to the followers.\<close>

lemma private_post_in_feed:
  "fst (handle_content content_demo_env content_demo_input ''2'' (FeedReq []) (content_demo ''private'')) =
     Inr (200, CnFeed [toMeropeSignalDTO (signal_of content_demo_env (content_demo_post ''private'', content_demo_user 1))] True) \<and>
   \<not> sees content_demo_env ''2'' ''5'' (content_demo_db ''private'')"
  unfolding content_demo_feed
  by (simp add: sees_def post_visible_def content_demo_defs)

section \<open>Polls\<close>

definition polls_ok :: "content_db \<Rightarrow> bool" where
  "polls_ok d \<longleftrightarrow> distinct (map fst (poll_options d)) \<and> distinct (map fst (votes d)) \<and>
     list_all (\<lambda>v. option_of d (snd v) (fst (fst v))) (votes d)"

definition voters :: "content_db \<Rightarrow> uuid \<Rightarrow> uuid set" where
  "voters d p = snd ` {k \<in> fst ` set (votes d). fst k = p}"

lemma one_of_distinct: "distinct os \<Longrightarrow> a \<in> set os \<Longrightarrow> sum_list (map (\<lambda>x. if a = x then 1 else 0) os) = (1::nat)"
proof (induction os)
  case (Cons b os)
  show ?case
  proof (cases "a = b")
    case True
    with Cons.prems have "map (\<lambda>x. if a = x then 1 else 0) os = map (\<lambda>_. 0::nat) os" by auto
    then have "sum_list (map (\<lambda>x. if a = x then 1 else 0) os) = (0::nat)" by (metis sum_list_0)
    with True show ?thesis by simp
  qed (use Cons in auto)
qed simp

lemma length_by_option:
  assumes "distinct os" and "\<forall>v\<in>set vs. snd v \<in> set os"
  shows "sum_list (map (\<lambda>x. length (filter (\<lambda>v. snd v = x) vs)) os) = length vs"
  using assms(2)
proof (induction vs)
  case (Cons v vs)
  have "sum_list (map (\<lambda>x. length (filter (\<lambda>v. snd v = x) (v # vs))) os) =
      sum_list (map (\<lambda>x. (if snd v = x then 1 else 0) + length (filter (\<lambda>v. snd v = x) vs)) os)"
    by (intro arg_cong [where f = sum_list] map_cong) auto
  also have "\<dots> = sum_list (map (\<lambda>x. if snd v = x then 1 else 0) os) + sum_list (map (\<lambda>x. length (filter (\<lambda>v. snd v = x) vs)) os)"
    by (simp add: sum_list_addf)
  also have "sum_list (map (\<lambda>x. if snd v = x then 1 else 0) os) = (1::nat)"
    using Cons.prems assms(1) by (simp add: one_of_distinct)
  finally show ?case using Cons by simp
qed simp

lemma distinct_map_sort: "distinct (map f (sort_key k xs)) = distinct (map f xs)"
  by (rule mset_eq_imp_distinct_iff) simp

lemma results_total:
  assumes ok: "polls_ok d"
  shows "\<exists>rs. results_stmt p d = Inr (rs, d) \<and> sum_list (map snd rs) = card (voters d p)"
proof -
  let ?vs = "filter (\<lambda>v. fst (fst v) = p) (votes d)" and ?os = "map fst (poll_by_id d p)"
  have key: "opt = snd v \<Longrightarrow> v \<in> set (votes d) \<Longrightarrow> opt \<in> set ?os \<longleftrightarrow> fst (fst v) = p" for opt v
  proof -
    assume opt: "opt = snd v" and v: "v \<in> set (votes d)"
    from ok v have "option_of d opt (fst (fst v))" by (auto simp: polls_ok_def list_all_iff opt)
    then obtain x where x: "x \<in> set (poll_options d)" "fst x = opt" "fst (snd x) = fst (fst v)" by (auto simp: option_of_def)
    have "y = x" if "y \<in> set (poll_options d)" "fst y = opt" for y
      using that x ok by (auto simp: polls_ok_def distinct_map dest: inj_onD)
    then show ?thesis using x by (force simp: poll_by_id_def)
  qed
  have "distinct ?os"
  proof -
    have "distinct (map fst (filter (\<lambda>x. fst (snd x) = p) (poll_options d)))" using ok by (simp add: polls_ok_def distinct_map_filter)
    then have "distinct (map fst (map (\<lambda>x. (fst x, snd (snd x))) (filter (\<lambda>x. fst (snd x) = p) (poll_options d))))"
      by (simp add: o_def)
    then show ?thesis unfolding poll_by_id_def by (simp only: distinct_map_sort)
  qed
  moreover have "\<forall>v\<in>set ?vs. snd v \<in> set ?os" using key by auto
  ultimately have total: "sum_list (map (\<lambda>x. length (filter (\<lambda>v. snd v = x) ?vs)) ?os) = length ?vs" by (rule length_by_option)
  have "filter (\<lambda>v. snd v = x) (votes d) = filter (\<lambda>v. snd v = x) ?vs" if "x \<in> set ?os" for x
    unfolding filter_filter by (rule filter_cong [OF refl]) (use that key in blast)
  then have "map (\<lambda>x. length (filter (\<lambda>v. snd v = x) (votes d))) ?os = map (\<lambda>x. length (filter (\<lambda>v. snd v = x) ?vs)) ?os"
    by (intro map_cong [OF refl]) simp
  then have "sum_list (map (\<lambda>x. length (filter (\<lambda>v. snd v = x) (votes d))) ?os) = length ?vs" using total by (simp only:)
  moreover have "length ?vs = card (voters d p)"
  proof -
    have "distinct (map fst ?vs)" using ok by (simp add: polls_ok_def distinct_map_filter)
    from distinct_card [OF this] have "card (fst ` set ?vs) = length ?vs" by (simp only: set_map length_map)
    moreover have "fst ` set ?vs = {k \<in> fst ` set (votes d). fst k = p}" by auto
    moreover have "inj_on snd {k \<in> fst ` set (votes d). fst k = p}" by (auto simp: inj_on_def)
    ultimately show ?thesis by (simp add: voters_def card_image)
  qed
  ultimately show ?thesis
    by (simp add: results_stmt_def case_prod_beta o_def)
qed

lemma map_of_upsert:
  assumes "distinct (map fst vs)"
  shows "map_of (sql_upsert fst (k, x) (\<lambda>v. (fst v, x)) vs) = (map_of vs)(k \<mapsto> x)"
proof (cases "k \<in> fst ` set vs")
  case True
  then have "map_of (sql_update (\<lambda>r. fst r = k) (\<lambda>v. (fst v, x)) vs) = (map_of vs)(k \<mapsto> x)"
    using assms
  proof (induction vs)
    case (Cons a vs)
    show ?case
    proof (cases "fst a = k")
      case True
      with Cons.prems have "sql_update (\<lambda>r. fst r = k) (\<lambda>v. (fst v, x)) vs = vs"
        by (intro sql_update_no_match) (metis distinct.simps(2) image_eqI list.set_map list.simps(9))
      with True show ?thesis by (cases a) (auto simp: sql_update_def)
    next
      case False
      with Cons.prems have "k \<in> fst ` set vs" "distinct (map fst vs)" by auto
      from Cons.IH [OF this] False show ?thesis by (cases a) (auto simp: sql_update_def)
    qed
  qed simp
  with True show ?thesis by (simp add: sql_upsert_def)
next
  case False
  then have "map_of vs k = None" by (simp add: map_of_eq_None_iff)
  with False show ?thesis by (auto simp: sql_upsert_def map_add_def split: option.splits)
qed

lemma vote_run:
  assumes "VoteWave env pool opt u s = (Inr (), s')"
  shows "\<exists>p x v. cn_scan env pool = Inr p \<and> cn_scan env opt = Inr x \<and> cn_scan env u = Inr v \<and>
    option_of (durable s) x p \<and> vote_stmt p x v (durable s) = Inr ((), durable s')"
proof -
  from assms obtain p x v b s1 where ids: "cn_scan env pool = Inr p" "cn_scan env opt = Inr x" "cn_scan env u = Inr v"
    and read: "autocommit (\<lambda>d. Inr (option_of d x p, d)) s = (Inr b, s1)" and vote: "b" "autocommit (vote_stmt p x v) s1 = (Inr (), s')"
    by (auto simp: VoteWave_def scan_id_def dbm_ok split: sum.splits if_splits)
  from autocommit_cases(2) [OF read refl] have "durable s1 = durable s" "option_of (durable s) x p" using vote(1) by auto
  with autocommit_cases(2) [OF vote(2) refl] ids show ?thesis by auto
qed

lemma done_ok: "done_or m n st = (Inr (c, b), st') \<Longrightarrow> c < 300 \<Longrightarrow> m st = (Inr (), st')"
  by (auto simp: done_or_def oreply_ok unable_content_def oreturn_def)

text \<open>
  C31. A vote that is confirmed is the user's only vote in the poll and is for an option of the poll, it replaces an earlier one,
  and leaves all other votes; and the counts of the options then add up to the number of users who have voted.
\<close>

theorem vote_counted_once:
  assumes "handle_content env i u (VoteReq pool (Some opt)) st = (Inr (200, b), st')" and "polls_ok (durable (cs_db st))"
    and "cn_scan env pool = Inr p" and "cn_scan env opt = Inr x" and "cn_scan env u = Inr v"
  shows "polls_ok (durable (cs_db st')) \<and>
    map_of (votes (durable (cs_db st'))) = (map_of (votes (durable (cs_db st))))((p, v) \<mapsto> x) \<and>
    option_of (durable (cs_db st')) x p \<and>
    (\<exists>rs. results_stmt p (durable (cs_db st')) = Inr (rs, durable (cs_db st')) \<and>
       sum_list (map snd rs) = card (insert v (voters (durable (cs_db st)) p)))"
proof -
  from assms(1) have "on_content (VoteWave env pool opt u) st = (Inr (), st')" by (auto dest: done_ok)
  then have "VoteWave env pool opt u (cs_db st) = (Inr (), cs_db st')" by (auto simp: on_content_def split: prod.splits)
  from vote_run [OF this] assms(3-5) have opt: "option_of (durable (cs_db st)) x p"
    and run: "vote_stmt p x v (durable (cs_db st)) = Inr ((), durable (cs_db st'))" by auto
  let ?vs = "votes (durable (cs_db st))"
  have d': "durable (cs_db st') = (durable (cs_db st))\<lparr>votes := sql_upsert fst ((p, v), x) (\<lambda>v. (fst v, x)) ?vs\<rparr>"
    using run by (simp add: vote_stmt_def split: if_splits)
  have keys: "fst ` set (sql_upsert fst ((p, v), x) (\<lambda>v. (fst v, x)) ?vs) = insert (p, v) (fst ` set ?vs)"
    by (simp add: keys_sql_upsert)
  have "option_of (durable (cs_db st)) (snd w) (fst (fst w))" if "w \<in> set (sql_upsert fst ((p, v), x) (\<lambda>v. (fst v, x)) ?vs)" for w
  proof -
    from that have "w \<in> set ?vs \<or> w = ((p, v), x)" by (auto simp: sql_upsert_def set_sql_update split: if_splits)
    with assms(2) opt show ?thesis by (auto simp: polls_ok_def list_all_iff)
  qed
  then have "polls_ok (durable (cs_db st'))"
    using assms(2) by (simp add: d' polls_ok_def list_all_iff option_of_def distinct_sql_upsert)
  moreover have "map_of (sql_upsert fst ((p, v), x) (\<lambda>v. (fst v, x)) ?vs) = (map_of ?vs)((p, v) \<mapsto> x)"
    using assms(2) by (intro map_of_upsert) (simp add: polls_ok_def)
  moreover have "voters (durable (cs_db st')) p = insert v (voters (durable (cs_db st)) p)"
  proof -
    have "{k \<in> insert (p, v) (fst ` set ?vs). fst k = p} = insert (p, v) {k \<in> fst ` set ?vs. fst k = p}" by auto
    then show ?thesis using keys by (simp add: voters_def d')
  qed
  ultimately show ?thesis using opt results_total [of "durable (cs_db st')" p] by (simp add: d' option_of_def)
qed
lemma content_demo_vote:
  "handle_content content_demo_env content_demo_input ''2'' (VoteReq ''6'' (Some ''7'')) (content_demo ''public'') =
     (Inr (200, CnDone), content_demo ''public''
        \<lparr>cs_db := (cs_db (content_demo ''public''))\<lparr>durable := (content_demo_db ''public'')\<lparr>votes := [((6, 1), 9), ((6, 2), 7)]\<rparr>\<rparr>\<rparr>)"
  by (simp add: done_or_def oreply_def obind_def otry_def oreturn_def on_content_def VoteWave_def scan_id_def autocommit_def
      next_outcome_def dbind_def option_of_def vote_stmt_def known_user_def user_exists_def sql_upsert_def content_demo_defs)

theorem vote_counted_once_witness:
  "\<exists>rs. results_stmt 6 ((content_demo_db ''public'')\<lparr>votes := [((6, 1), 9), ((6, 2), 7)]\<rparr>) =
      Inr (rs, (content_demo_db ''public'')\<lparr>votes := [((6, 1), 9), ((6, 2), 7)]\<rparr>) \<and> sum_list (map snd rs) = 2"
proof -
  have "polls_ok (durable (cs_db (content_demo ''public'')))"
    by (simp add: polls_ok_def option_of_def content_demo_defs)
  moreover have "voters (content_demo_db ''public'') 6 = {1}" by (simp add: voters_def content_demo_defs Collect_conv_if)
  ultimately show ?thesis
    using vote_counted_once [OF content_demo_vote, of 6 7 2] by (simp add: content_demo_def numeral_2_eq_2)
qed

section \<open>Resonances\<close>

lemma required_same:
  assumes "requireVisiblePost env post u st = (Inr s, st')"
  shows "durable (cs_db st') = durable (cs_db st)"
proof -
  from visible_post_moves [of "{}" None "durable (cs_db st)" env post u, unfolded op_moves_def, rule_format, OF assms refl]
  show ?thesis by auto
qed

lemma if_visible_ok:
  assumes "if_visible env post u k st = (Inr (c, b), st')" and "c < 300"
  shows "\<exists>st1. sees env u post (durable (cs_db st)) \<and> durable (cs_db st1) = durable (cs_db st) \<and> k st1 = (Inr (c, b), st')"
  using assms by (auto simp: if_visible_def oreply_ok unable_content_def dest: required_visible required_same)

lemma on_content_ok: "on_content m st = (Inr a, st') \<longleftrightarrow> (\<exists>s'. m (cs_db st) = (Inr a, s') \<and> st' = st\<lparr>cs_db := s'\<rparr>)"
  by (auto simp: on_content_def split: prod.splits)

lemma like_ok:
  assumes "handle_content env i u (LikeReq post) st = (Inr (200, b), st')"
  shows "\<exists>v k. cn_scan env u = Inr v \<and> cn_scan env post = Inr k \<and>
    react_post_stmt v k ''resonance'' (durable (cs_db st)) = Inr ((), durable (cs_db st'))"
proof -
  from assms obtain st1 where same: "durable (cs_db st1) = durable (cs_db st)"
    and "done_or (AmplifySignal env (cn_now i) u post 1) 200 st1 = (Inr (200, b), st')"
    by (auto dest!: if_visible_ok)
  then have "AmplifySignal env (cn_now i) u post 1 st1 = (Inr (), st')" by (auto dest: done_ok)
  then obtain v k s' where "cn_scan env u = Inr v" "cn_scan env post = Inr k"
    "autocommit (react_post_stmt v k ''resonance'') (cs_db st1) = (Inr (), s')" "cs_db st' = s'"
    by (auto simp: AmplifySignal_def ofail_def on_content_ok AddResonance_def scan_id_def dfail_def split: prod.splits if_splits sum.splits)
  with autocommit_cases(2) [OF this(3) refl] same show ?thesis by auto
qed

lemma unlike_ok:
  assumes "handle_content env i u (UnlikeReq post) st = (Inr (200, b), st')"
  shows "\<exists>v k. cn_scan env u = Inr v \<and> cn_scan env post = Inr k \<and>
    unreact_post_stmt v k (durable (cs_db st)) = Inr ((), durable (cs_db st'))"
proof -
  from assms obtain st1 where same: "durable (cs_db st1) = durable (cs_db st)"
    and "done_or (RemoveResonance env u post) 200 st1 = (Inr (200, b), st')"
    by (auto dest!: if_visible_ok)
  then have "RemoveResonance env u post st1 = (Inr (), st')" by (auto dest: done_ok)
  then obtain v k s' where "cn_scan env u = Inr v" "cn_scan env post = Inr k"
    "autocommit (unreact_post_stmt v k) (cs_db st1) = (Inr (), s')" "cs_db st' = s'"
    by (auto simp: RemoveResonance_def ofail_def on_content_ok repo_RemoveResonance_def scan_id_def dfail_def split: if_splits sum.splits)
  with autocommit_cases(2) [OF this(3) refl] same show ?thesis by auto
qed

text \<open>
  A like counts once however often it is repeated, and an unlike takes it back: after a confirmed like the user has one
  resonance with the post, and when the user had none before, a confirmed unlike right after it leaves the resonances
  exactly as they were before the like.
\<close>

theorem unlike_undoes_like:
  assumes "handle_content env i u (LikeReq post) st = (Inr (200, b), st1)"
    and "handle_content env i' u (UnlikeReq post) st1 = (Inr (200, b'), st2)"
    and "cn_scan env u = Inr v" and "cn_scan env post = Inr k"
    and "distinct (map fst (resonances (durable (cs_db st))))"
  shows "map_of (resonances (durable (cs_db st1))) = (map_of (resonances (durable (cs_db st))))((v, k) \<mapsto> ''resonance'') \<and>
    distinct (map fst (resonances (durable (cs_db st1)))) \<and>
    resonances (durable (cs_db st2)) = filter (\<lambda>r. fst r \<noteq> (v, k)) (resonances (durable (cs_db st)))"
proof -
  let ?rs = "resonances (durable (cs_db st))" and ?up = "sql_upsert fst ((v, k), ''resonance'') (\<lambda>r. (fst r, ''resonance''))"
  from like_ok [OF assms(1)] assms(3,4) have 1: "resonances (durable (cs_db st1)) = ?up ?rs"
    by (auto simp: react_post_stmt_def split: if_splits) (metis (no_types, lifting) content_db.select_convs(4) content_db.surjective content_db.update_convs(4))
  from unlike_ok [OF assms(2)] assms(3,4) have "resonances (durable (cs_db st2)) =
      sql_delete (\<lambda>r. fst r = (v, k) \<and> snd r = ''resonance'') (?up ?rs)"
    by (auto simp: unreact_post_stmt_def 1) (metis (no_types, lifting) 1 content_db.select_convs(4) content_db.surjective content_db.update_convs(4))
  moreover have "sql_delete (\<lambda>r. fst r = (v, k) \<and> snd r = ''resonance'') (?up rs) = filter (\<lambda>r. fst r \<noteq> (v, k)) rs" for rs
  proof (cases "(v, k) \<in> fst ` set rs")
    case True
    have "filter (\<lambda>r. \<not> (fst r = (v, k) \<and> snd r = ''resonance'')) (map (\<lambda>r. if fst r = (v, k) then (fst r, ''resonance'') else r) rs) =
        filter (\<lambda>r. fst r \<noteq> (v, k)) rs"
      by (induction rs) auto
    with True show ?thesis by (simp add: sql_upsert_def sql_delete_def sql_update_def)
  next
    case False
    then have "r \<in> set rs \<Longrightarrow> fst r \<noteq> (v, k)" for r by force
    with False show ?thesis by (auto simp: sql_upsert_def sql_delete_def intro!: filter_cong)
  qed
  moreover have "map_of (?up ?rs) = (map_of ?rs)((v, k) \<mapsto> ''resonance'')" using assms(5) by (rule map_of_upsert)
  moreover have "distinct (map fst (?up ?rs))" using assms(5) by (intro distinct_sql_upsert) auto
  ultimately show ?thesis by (simp add: 1)
qed
lemma content_demo_like:
  "\<exists>st1 st2. handle_content content_demo_env content_demo_input ''2'' (LikeReq ''5'') (content_demo ''public'') = (Inr (200, CnDone), st1) \<and>
     handle_content content_demo_env content_demo_input ''2'' (UnlikeReq ''5'') st1 = (Inr (200, CnDone), st2)"
  by (simp add: if_visible_def requireVisiblePost_def done_or_def oreply_def obind_def otry_def oreturn_def on_content_def
      GetSignalByID_def CanViewSignal_def AmplifySignal_def TrackInteraction_def AddResonance_def RemoveResonance_def
      repo_RemoveResonance_def scan_id_def autocommit_def next_outcome_def dbind_def dreturn_def post_by_id_stmt_def with_authors_def
      can_view_post_stmt_def post_visible_def react_post_stmt_def unreact_post_stmt_def known_user_def user_exists_def sql_upsert_def
      content_demo_input_def content_demo_defs Let_def)

theorem unlike_undoes_like_witness:
  "\<exists>st1 st2. handle_content content_demo_env content_demo_input ''2'' (LikeReq ''5'') (content_demo ''public'') = (Inr (200, CnDone), st1) \<and>
     handle_content content_demo_env content_demo_input ''2'' (UnlikeReq ''5'') st1 = (Inr (200, CnDone), st2) \<and>
     resonances (durable (cs_db st2)) = []"
proof -
  obtain st1 st2 where like: "handle_content content_demo_env content_demo_input ''2'' (LikeReq ''5'') (content_demo ''public'') = (Inr (200, CnDone), st1)"
    and unlike: "handle_content content_demo_env content_demo_input ''2'' (UnlikeReq ''5'') st1 = (Inr (200, CnDone), st2)"
    using content_demo_like by blast
  have "resonances (durable (cs_db (content_demo ''public''))) = []" by (simp add: content_demo_defs)
  with unlike_undoes_like [OF like unlike, of 2 5] like unlike show ?thesis by (auto simp del: content_routes)
qed

section \<open>Original texts\<close>

text \<open>Operations that the guard does not forget a fingerprint in.\<close>

definition remembers :: "'a content_op \<Rightarrow> bool" where
  "remembers m \<longleftrightarrow> (\<forall>st g. cs_guard st = Some g \<longrightarrow>
     (\<exists>g'. cs_guard (snd (m st)) = Some g' \<and> dom (fingerprints g) \<subseteq> dom (fingerprints g')))"

named_theorems remembers_intros \<open>operations in which the guard forgets no fingerprint\<close>

lemma remembers_basic [remembers_intros]: "remembers (oreturn a)" "remembers (ofail e)" "remembers (on_content m)"
  by (auto simp: remembers_def oreturn_def ofail_def on_content_def split: prod.splits)

lemma remembers_bind [remembers_intros]:
  assumes "remembers m" and "\<And>a. remembers (k a)"
  shows "remembers (obind m k)"
  unfolding remembers_def
proof (intro allI impI)
  fix st :: content_state and g
  assume g: "cs_guard st = Some g"
  obtain r st1 where m: "m st = (r, st1)" by fastforce
  with assms(1) g obtain g1 where g1: "cs_guard st1 = Some g1" "dom (fingerprints g) \<subseteq> dom (fingerprints g1)"
    unfolding remembers_def by (metis snd_conv)
  show "\<exists>g'. cs_guard (snd (obind m k st)) = Some g' \<and> dom (fingerprints g) \<subseteq> dom (fingerprints g')"
  proof (cases r)
    case (Inl e)
    with m g1 show ?thesis by (simp add: obind_def)
  next
    case (Inr a)
    from assms(2) [of a] g1(1) obtain g2 where "cs_guard (snd (k a st1)) = Some g2" "dom (fingerprints g1) \<subseteq> dom (fingerprints g2)"
      unfolding remembers_def by metis
    with m g1(2) Inr show ?thesis by (auto simp: obind_def)
  qed
qed

lemma remembers_try [remembers_intros]: "remembers m \<Longrightarrow> remembers (otry m)"
  by (auto simp: remembers_def otry_def split: prod.splits) (metis snd_conv)

lemma remembers_reply [remembers_intros]: "remembers m \<Longrightarrow> (\<And>a. remembers (k a)) \<Longrightarrow> remembers (oreply m g k)"
  unfolding oreply_def by (intro remembers_bind remembers_try) (auto split: sum.split intro: remembers_basic)

lemma remembers_cases [remembers_intros]:
  "(b \<Longrightarrow> remembers m1) \<Longrightarrow> (\<not> b \<Longrightarrow> remembers m2) \<Longrightarrow> remembers (if b then m1 else m2)"
  "remembers m3 \<Longrightarrow> (\<And>x. remembers (m4 x)) \<Longrightarrow> remembers (case z of None \<Rightarrow> m3 | Some x \<Rightarrow> m4 x)"
  "(\<And>e. remembers (m5 e)) \<Longrightarrow> (\<And>x. remembers (m6 x)) \<Longrightarrow> remembers (case w of Inl e \<Rightarrow> m5 e | Inr x \<Rightarrow> m6 x)"
  "(\<And>x y. remembers (m7 x y)) \<Longrightarrow> remembers (case q of (x, y) \<Rightarrow> m7 x y)"
  by (auto split: option.splits sum.splits prod.splits)

lemma remembers_guard [remembers_intros]: "remembers (guard_post env i a t)"
  by (auto simp: remembers_def guard_post_def VerifyOriginality_def DetectBotPattern_def Let_def split: option.splits prod.splits if_splits)

lemma TrackInteraction_keeps: "TrackInteraction u now g = (b, r, g') \<Longrightarrow> fingerprints g' = fingerprints g"
  by (auto simp: TrackInteraction_def Let_def split: if_splits)

lemma remembers_amplify [remembers_intros]: "remembers (AmplifySignal env now u post n)"
  unfolding remembers_def
proof (intro allI impI)
  fix st :: content_state and g
  assume g: "cs_guard st = Some g"
  obtain b r g' where track: "TrackInteraction u now g = (b, r, g')" by (metis prod_cases3)
  then have run: "AmplifySignal env now u post n st =
      (if b then ofail (Errorf ''excessive resonance activity detected'')
       else if n \<le> 0 then ofail (Errorf ''amplitude must be positive'')
       else on_content (AddResonance env u post)) (st\<lparr>cs_guard := Some g'\<rparr>)"
    using g by (simp add: AmplifySignal_def)
  have "cs_guard (snd (AmplifySignal env now u post n st)) = Some g'"
    unfolding run by (simp add: ofail_def on_content_def split: prod.splits)
  with TrackInteraction_keeps [OF track] show
    "\<exists>g'. cs_guard (snd (AmplifySignal env now u post n st)) = Some g' \<and> dom (fingerprints g) \<subseteq> dom (fingerprints g')" by simp
qed

lemma remembers_handler: "remembers (handle_content env i u c)"
  by (cases c) (auto simp: own_post_def if_visible_def done_or_def requireVisiblePost_def BroadcastSignal_def GetResonanceStream_def
      RemoveResonance_def ShareSignal_def AddNode_def Let_def intro!: remembers_intros)

text \<open>The fingerprints of the posts that a run confirms.\<close>

fun confirmed ::
  "content_env \<Rightarrow> (content_input \<times> outcome list \<times> string \<times> content_call) list \<Rightarrow> content_state \<Rightarrow> string list" where
  "confirmed env [] st = []"
| "confirmed env ((i, outs, u, c) # cs) st =
     (let (r, st') = handle_content env i u c (st\<lparr>cs_db := (cs_db st)\<lparr>outcomes := outs\<rparr>\<rparr>)
      in (case (c, r) of
            (CreatePostReq (Some (text, _)), Inr (_, CnPost _)) \<Rightarrow> [cn_fingerprint env (cn_sanitize env (cn_sanitize env text))]
          | _ \<Rightarrow> []) @ confirmed env cs st')"

lemma guard_original:
  assumes "guard_post env i a t st = (Inr None, st')" and "cs_guard st = Some g"
  shows "\<exists>g'. cs_guard st' = Some g' \<and> cn_fingerprint env t \<notin> dom (fingerprints g) \<and> cn_fingerprint env t \<in> dom (fingerprints g')"
  using assms
  by (auto simp: guard_post_def VerifyOriginality_def DetectBotPattern_def Let_def split: option.splits prod.splits if_splits)

lemma broadcast_original:
  assumes "BroadcastSignal env i (Some s) pool st = (Inr s', st')" and "cs_guard st = Some g"
  shows "cn_fingerprint env (cn_sanitize env (sg_text s)) \<notin> dom (fingerprints g) \<and>
    (\<exists>g'. cs_guard st' = Some g' \<and> cn_fingerprint env (cn_sanitize env (sg_text s)) \<in> dom (fingerprints g'))"
proof -
  let ?text = "cn_sanitize env (sg_text s)"
  define k where "k v obj = (case obj of Some m \<Rightarrow> ofail (Errorf m)
      | None \<Rightarrow> obind (on_content (CreateSignal env i (s\<lparr>sg_text := ?text, sg_visibility := v, sg_updated := cn_now i,
            sg_type := (if sg_repost s \<noteq> None \<and> ?text \<noteq> [] then ''quote'' else sg_type s)\<rparr>))) (\<lambda>s.
          obind (case pool of None \<Rightarrow> oreturn () | Some w \<Rightarrow> on_content (CreateWavePool env i (sg_id s) w)) (\<lambda>_. oreturn s)))"
    for v :: string and obj :: "string option"
  have k: "remembers (k v obj)" for v obj
    unfolding k_def by (intro remembers_intros)
  from assms(1) obtain v where "obind (guard_post env i (sg_author s) ?text) (k v) st = (Inr s', st')"
    unfolding k_def BroadcastSignal_def option.case Let_def by (auto simp: ofail_def split: if_splits sum.splits)
  then obtain obj st1 where guard: "guard_post env i (sg_author s) ?text st = (Inr obj, st1)" and rest: "k v obj st1 = (Inr s', st')"
    by (auto simp: op_ok)
  from rest have "obj = None" by (cases obj) (simp_all add: k_def ofail_def)
  with guard_original [of env i "sg_author s" ?text st st1] guard assms(2) obtain g1 where g1: "cs_guard st1 = Some g1"
    "cn_fingerprint env ?text \<notin> dom (fingerprints g)" "cn_fingerprint env ?text \<in> dom (fingerprints g1)" by blast
  from k [of v obj] g1(1) rest obtain g' where "cs_guard st' = Some g'" "dom (fingerprints g1) \<subseteq> dom (fingerprints g')"
    unfolding remembers_def by (metis snd_conv)
  with g1 show ?thesis by blast
qed

lemma create_original:
  assumes "handle_content env i u (CreatePostReq (Some (text, m))) st = (Inr (code, CnPost p), st')" and "cs_guard st = Some g"
  shows "cn_fingerprint env (cn_sanitize env (cn_sanitize env text)) \<notin> dom (fingerprints g) \<and>
    (\<exists>g'. cs_guard st' = Some g' \<and> cn_fingerprint env (cn_sanitize env (cn_sanitize env text)) \<in> dom (fingerprints g'))"
proof -
  obtain media visibility poll where m: "m = (media, visibility, poll)" by (cases m)
  from assms(1) obtain s' where "BroadcastSignal env i (Some (empty_signal
        \<lparr>sg_author := u, sg_text := cn_sanitize env text, sg_media := media, sg_visibility := visibility\<rparr>))
      (map_option (\<lambda>(q, os). \<lparr>wp_question = q, wp_options = os, wp_ends = zero_time\<rparr>) poll) st = (Inr s', st')"
    by (auto simp: m oreply_ok unable_content_def oreturn_def)
  from broadcast_original [OF this assms(2)] show ?thesis by simp
qed

text \<open>
  With a guard, no text is posted twice: in whatever order the requests come and whatever fails, the fingerprints of the
  posts that are confirmed are pairwise different and differ from those that the guard knew before.
\<close>

theorem original_once:
  assumes "cs_guard st = Some g"
  shows "distinct (confirmed env cs st) \<and> set (confirmed env cs st) \<inter> dom (fingerprints g) = {}"
  using assms
proof (induction cs arbitrary: st g)
  case (Cons a cs)
  obtain i outs u c where a: "a = (i, outs, u, c)" by (cases a)
  let ?st = "st\<lparr>cs_db := (cs_db st)\<lparr>outcomes := outs\<rparr>\<rparr>"
  obtain r st' where run: "handle_content env i u c ?st = (r, st')" by fastforce
  have g: "cs_guard ?st = Some g" using Cons.prems by simp
  with remembers_handler [of env i u c] run obtain g' where g': "cs_guard st' = Some g'" "dom (fingerprints g) \<subseteq> dom (fingerprints g')"
    unfolding remembers_def by (metis snd_conv)
  note IH = Cons.IH [OF g'(1)]
  show ?case
  proof (cases "\<exists>text m code p. c = CreatePostReq (Some (text, m)) \<and> r = Inr (code, CnPost p)")
    case True
    then obtain t m code p where c: "c = CreatePostReq (Some (t, m))" "r = Inr (code, CnPost p)" by blast
    from create_original [OF run [unfolded c] g] g'(1)
    have new: "cn_fingerprint env (cn_sanitize env (cn_sanitize env t)) \<notin> dom (fingerprints g)"
      "cn_fingerprint env (cn_sanitize env (cn_sanitize env t)) \<in> dom (fingerprints g')" by auto
    have "confirmed env (a # cs) st = cn_fingerprint env (cn_sanitize env (cn_sanitize env t)) # confirmed env cs st'"
      using run by (simp add: a c del: content_routes)
    with IH new g'(2) show ?thesis by auto
  next
    case False
    then have "confirmed env (a # cs) st = confirmed env cs st'"
      using run by (auto simp: a simp del: content_routes split: content_call.split option.split sum.split prod.split content_body.split)
    with IH g'(2) show ?thesis by auto
  qed
qed simp
text \<open>Two requests with one text: the second is refused.\<close>

definition content_demo_create :: "(string \<times> string list) option \<Rightarrow> content_call" where
  "content_demo_create poll = CreatePostReq (Some (''hello'', [], [], poll))"

lemmas content_create_defs = content_demo_create_def BroadcastSignal_def normalizeVisibility_def guard_post_def DetectBotPattern_def
  VerifyOriginality_def CreateSignal_def CreateWavePool_def create_post_stmt_def create_poll_stmt_def create_option_stmt_def
  known_user_def user_exists_def sql_insert_def scan_id_def autocommit_def next_outcome_def dbind_def dreturn_def dfail_def
  oreply_def obind_def otry_def oreturn_def ofail_def on_content_def content_demo_input_def empty_signal_def

lemma content_demo_text [simp]: "trim_space [] = []" "to_lower [] = []" "count_sub ''http'' ''hello'' = 0"
    "cn_sanitize content_demo_env x = x" "cn_fingerprint content_demo_env x = x"
  by (simp_all add: trim_space_plain plain_byte_def count_sub.simps has_prefix_def content_demo_env_def)

lemma content_demo_confirmed:
  "confirmed content_demo_env [(content_demo_input, [], ''2'', content_demo_create None), (content_demo_input, [], ''1'', content_demo_create None)]
     (content_demo ''public'') = [''hello'']"
  by (simp add: content_create_defs content_demo_defs unable_content_def Let_def)

theorem original_once_witness:
  "distinct (confirmed content_demo_env [(content_demo_input, [], ''2'', content_demo_create None), (content_demo_input, [], ''1'', content_demo_create None)]
     (content_demo ''public'')) \<and>
   confirmed content_demo_env [(content_demo_input, [], ''2'', content_demo_create None), (content_demo_input, [], ''1'', content_demo_create None)]
     (content_demo ''public'') = [''hello'']"
proof -
  have "cs_guard (content_demo ''public'') = Some \<lparr>fingerprints = Map.empty, userPostTimes = (\<lambda>_. []), interactions = (\<lambda>_. [])\<rparr>"
    by (simp add: content_demo_def)
  from original_once [OF this] content_demo_confirmed show ?thesis by simp
qed

text \<open>A poll that cannot be stored fails the request, and leaves the post and the poll without its options.\<close>

lemma failed_poll_leaves_post:
  "\<exists>st'. handle_content content_demo_env content_demo_input ''2'' (content_demo_create (Some (''q'', [[], []]))) (content_demo ''public'') =
     (Inr unable_content, st') \<and>
     map po_id (posts (durable (cs_db st'))) = [5, 30] \<and> map pl_id (polls (durable (cs_db st'))) = [6, 31] \<and>
     poll_options (durable (cs_db st')) = poll_options (content_demo_db ''public'')"
  by (simp add: content_create_defs content_demo_defs trim_space_plain plain_byte_def second_def content_demo_ids Let_def)

end
