(* ===== verification/Community.thy ===== *)
theory Community
  imports Complex_Main Social Encoding
begin

text \<open>
  Communities, their events and collectives, discussion threads and subscriptions: \<open>modules/community\<close> over PostgreSQL.
  Identifiers, the HTML sanitiser, the runes of a string, \<open>ILIKE\<close>, \<open>LOWER\<close> of the database and \<open>time.Parse\<close> are
  parameters. The migrations create guidelines, collectives, threads and replies, with their keys and references; the other
  tables have the columns that the statements name, and the unique key of \<open>event_attendees\<close> that its statement names.
  Whether \<open>community_members\<close> has a key is not said anywhere, so that is a parameter as well.
\<close>

section \<open>Tables\<close>

record club_row =
  cl_id :: uuid
  cl_owner :: uuid
  cl_name :: string
  cl_slug :: "string option"
  cl_desc :: "string option"
  cl_avatar :: "string option"
  cl_banner :: string
  cl_private :: bool
  cl_verified :: bool
  cl_category :: string
  cl_tags :: "string list"
  cl_rules :: "string list"
  cl_created :: int
  cl_updated :: int

record member_row =
  mb_club :: uuid
  mb_user :: uuid
  mb_role :: string
  mb_joined :: int

record guideline_row =
  gl_id :: uuid
  gl_club :: uuid
  gl_title :: string
  gl_desc :: string
  gl_order :: int
  gl_active :: bool
  gl_created :: int

text \<open>Events are kept as proposals.\<close>

record proposal_row =
  pr_id :: uuid
  pr_club :: "uuid option"
  pr_proposer :: uuid
  pr_title :: string
  pr_desc :: string
  pr_ends :: "int option"
  pr_created :: int

record collective_row =
  cv_id :: uuid
  cv_name :: string
  cv_slug :: string
  cv_desc :: string
  cv_icon :: string
  cv_banner :: string
  cv_official :: bool
  cv_category :: string
  cv_created :: int
  cv_updated :: int

record thread_row =
  th_id :: uuid
  th_collective :: uuid
  th_author :: uuid
  th_title :: string
  th_content :: string
  th_resonance :: int
  th_pinned :: bool
  th_locked :: bool
  th_announcement :: bool
  th_tags :: "string list"
  th_category :: string
  th_created :: int
  th_updated :: int

record reply_row =
  re_id :: uuid
  re_thread :: uuid
  re_author :: uuid
  re_parent :: "uuid option"
  re_content :: string
  re_created :: int

record subscription_row =
  su_id :: uuid
  su_user :: uuid
  su_creator :: uuid
  su_plan :: string
  su_amount :: int
  su_active :: bool
  su_started :: int
  su_expires :: int
  su_renew :: bool

text \<open>Attendees are \<open>((event, user), (status, instant))\<close>, members of collectives \<open>((collective, user), (role, instant))\<close>.\<close>

record club_db =
  people :: "user_row list"
  clubs :: "club_row list"
  memberships :: "member_row list"
  guidelines :: "guideline_row list"
  proposals :: "proposal_row list"
  attendees :: "((uuid \<times> uuid) \<times> string \<times> int) list"
  collectives :: "collective_row list"
  collective_members :: "((uuid \<times> uuid) \<times> string \<times> int) list"
  threads :: "thread_row list"
  replies :: "reply_row list"
  subscriptions :: "subscription_row list"

record club_env =
  ce_scan :: "string \<Rightarrow> uuid res"
  ce_show :: "uuid \<Rightarrow> string"
  ce_sanitize :: "string \<Rightarrow> string"
  ce_strip :: "string \<Rightarrow> string"
  ce_runes :: "string \<Rightarrow> (string \<times> bool) list"      \<comment> \<open>with \<open>IsLetter || IsDigit\<close>\<close>
  ce_ilike :: "string \<Rightarrow> string \<Rightarrow> bool"              \<comment> \<open>pattern, text\<close>
  ce_lower :: "string \<Rightarrow> string"
  ce_time :: "string \<Rightarrow> int option"                  \<comment> \<open>\<open>RFC3339\<close>\<close>
  ce_member_key :: bool

text \<open>The clock, the identifiers drawn by the database and the one drawn by the process.\<close>

record club_input =
  ci_now :: int
  ci_new :: uuid
  ci_rows :: "nat \<Rightarrow> uuid"
  ci_uuid :: uuid

text \<open>What the service answers; the fields it neither stores nor reads are left out.\<close>

record club_settings =
  set_guest_posts :: bool
  set_moderation :: bool
  set_voice :: bool
  set_video :: bool
  set_screen :: bool
  set_max_members :: int
  set_delete_days :: int
  set_filter :: string
  set_language :: string
  set_timezone :: string

record community =
  com_id :: string
  com_owner :: string
  com_name :: string
  com_slug :: string
  com_desc :: string
  com_avatar :: string
  com_banner :: string
  com_private :: bool
  com_verified :: bool
  com_joined :: bool
  com_role :: string
  com_members :: int
  com_created :: int
  com_updated :: int
  com_category :: string
  com_tags :: "string list"
  com_rules :: "string list"
  com_settings :: club_settings

record community_member =
  cmb_club :: string
  cmb_user :: string
  cmb_role :: string
  cmb_joined :: int
  cmb_active :: bool

record guideline =
  gd_id :: string
  gd_club :: string
  gd_title :: string
  gd_desc :: string
  gd_order :: int
  gd_active :: bool
  gd_created :: int

record event =
  evt_id :: string
  evt_creator :: string
  evt_club :: "string option"
  evt_title :: string
  evt_desc :: string
  evt_start :: int
  evt_end :: int
  evt_status :: string
  evt_created :: int
  evt_updated :: int

record collective =
  col_id :: string
  col_name :: string
  col_slug :: string
  col_desc :: string
  col_icon :: string
  col_banner :: string
  col_official :: bool
  col_category :: string
  col_members :: nat
  col_created :: int
  col_updated :: int

record discussion =
  ds_id :: string
  ds_collective :: string
  ds_author :: string
  ds_title :: string
  ds_content :: string
  ds_resonance :: int
  ds_pinned :: bool
  ds_locked :: bool
  ds_announcement :: bool
  ds_tags :: "string list"
  ds_category :: string
  ds_created :: int
  ds_updated :: int

record thread_reply =
  trp_id :: string
  trp_thread :: string
  trp_author :: string
  trp_content :: string
  trp_parent :: "string option"
  trp_created :: int

record subscription =
  sub_id :: string
  sub_user :: string
  sub_creator :: string
  sub_tier :: string
  sub_amount :: int
  sub_status :: string
  sub_started :: int
  sub_expires :: int
  sub_renew :: bool

record club_analytics =
  an_members :: nat
  an_new :: nat
  an_active :: nat
  an_events :: nat
section \<open>Statements on communities\<close>

definition mb_key :: "member_row \<Rightarrow> uuid \<times> uuid" where "mb_key m = (mb_club m, mb_user m)"

definition create_club_stmt ::
  "club_input \<Rightarrow> uuid \<Rightarrow> string \<Rightarrow> string option \<Rightarrow> string option \<Rightarrow> bool \<Rightarrow> (club_db, club_row) sql" where
  "create_club_stmt i owner name desc avatar private d =
     (let c = \<lparr>cl_id = ci_new i, cl_owner = owner, cl_name = name, cl_slug = None, cl_desc = desc, cl_avatar = avatar, cl_banner = [],
               cl_private = private, cl_verified = False, cl_category = ''general'', cl_tags = [], cl_rules = [],
               cl_created = ci_now i, cl_updated = ci_now i\<rparr>
      in case sql_insert cl_id c (clubs d) of Inl e \<Rightarrow> Inl e | Inr cs \<Rightarrow> Inr (c, d\<lparr>clubs := cs\<rparr>))"

definition fill_club_stmt ::
  "int \<Rightarrow> uuid \<Rightarrow> string \<Rightarrow> string \<Rightarrow> bool \<Rightarrow> string \<Rightarrow> string list \<Rightarrow> string list \<Rightarrow> (club_db, unit) sql" where
  "fill_club_stmt now c slug banner verified category tags rules d =
     Inr ((), d\<lparr>clubs := sql_update (\<lambda>r. cl_id r = c) (\<lambda>r. r\<lparr>cl_slug := Some slug, cl_banner := banner, cl_verified := verified,
        cl_category := category, cl_tags := tags, cl_rules := rules, cl_updated := now\<rparr>) (clubs d)\<rparr>)"

definition update_club_stmt ::
  "int \<Rightarrow> uuid \<Rightarrow> string \<Rightarrow> string \<Rightarrow> string \<Rightarrow> string \<Rightarrow> bool \<Rightarrow> string \<Rightarrow> string list \<Rightarrow> string list \<Rightarrow> (club_db, unit) sql" where
  "update_club_stmt now c name desc avatar banner private category tags rules d =
     Inr ((), d\<lparr>clubs := sql_update (\<lambda>r. cl_id r = c) (\<lambda>r. r\<lparr>cl_name := name, cl_desc := Some desc, cl_avatar := Some avatar,
        cl_banner := banner, cl_private := private, cl_category := category, cl_tags := tags, cl_rules := rules,
        cl_updated := now\<rparr>) (clubs d)\<rparr>)"

definition touch_club_stmt :: "int \<Rightarrow> uuid \<Rightarrow> (club_db, unit) sql" where
  "touch_club_stmt now c d = Inr ((), d\<lparr>clubs := sql_update (\<lambda>r. cl_id r = c) (\<lambda>r. r\<lparr>cl_updated := now\<rparr>) (clubs d)\<rparr>)"

definition delete_club_stmt :: "uuid \<Rightarrow> (club_db, unit) sql" where
  "delete_club_stmt c d =
     Inr ((), d\<lparr>clubs := sql_delete (\<lambda>r. cl_id r = c) (clubs d), guidelines := sql_delete (\<lambda>g. gl_club g = c) (guidelines d)\<rparr>)"

definition join_stmt :: "club_env \<Rightarrow> int \<Rightarrow> uuid \<Rightarrow> uuid \<Rightarrow> string \<Rightarrow> (club_db, unit) sql" where
  "join_stmt env now c u role d =
     (if ce_member_key env \<and> (c, u) \<in> mb_key ` set (memberships d) then Inl (violates ''unique'')
      else Inr ((), d\<lparr>memberships := memberships d @ [\<lparr>mb_club = c, mb_user = u, mb_role = role, mb_joined = now\<rparr>]\<rparr>))"

definition leave_stmt :: "uuid \<Rightarrow> uuid \<Rightarrow> (club_db, unit) sql" where
  "leave_stmt c u d =
     Inr ((), d\<lparr>memberships := sql_delete (\<lambda>m. mb_key m = (c, u) \<and> mb_role m \<noteq> ''banned'') (memberships d)\<rparr>)"

definition remove_member_stmt :: "uuid \<Rightarrow> uuid \<Rightarrow> (club_db, unit) sql" where
  "remove_member_stmt c u d = Inr ((), d\<lparr>memberships := sql_delete (\<lambda>m. mb_key m = (c, u)) (memberships d)\<rparr>)"

text \<open>The result is the number of affected rows.\<close>

definition role_stmt :: "uuid \<Rightarrow> uuid \<Rightarrow> string \<Rightarrow> (club_db, nat) sql" where
  "role_stmt c u role d =
     Inr (length (filter (\<lambda>m. mb_key m = (c, u)) (memberships d)),
          d\<lparr>memberships := sql_update (\<lambda>m. mb_key m = (c, u)) (\<lambda>m. m\<lparr>mb_role := role\<rparr>) (memberships d)\<rparr>)"

definition ban_stmt :: "uuid \<Rightarrow> uuid \<Rightarrow> (club_db, unit) sql" where
  "ban_stmt c u d =
     Inr ((), d\<lparr>memberships := sql_update (\<lambda>m. mb_key m = (c, u)) (\<lambda>m. m\<lparr>mb_role := ''banned''\<rparr>) (memberships d)\<rparr>)"

definition unban_stmt :: "uuid \<Rightarrow> uuid \<Rightarrow> (club_db, unit) sql" where
  "unban_stmt c u d =
     Inr ((), d\<lparr>memberships := sql_update (\<lambda>m. mb_key m = (c, u) \<and> mb_role m = ''banned'') (\<lambda>m. m\<lparr>mb_role := ''member''\<rparr>) (memberships d)\<rparr>)"

definition active_members :: "club_db \<Rightarrow> uuid \<Rightarrow> member_row list" where
  "active_members d c = filter (\<lambda>m. mb_club m = c \<and> mb_role m \<noteq> ''banned'') (memberships d)"

definition member_of :: "club_db \<Rightarrow> uuid \<Rightarrow> uuid \<Rightarrow> bool" where
  "member_of d c u \<longleftrightarrow> list_ex (\<lambda>m. mb_user m = u) (active_members d c)"

definition club_visible :: "club_db \<Rightarrow> uuid \<Rightarrow> uuid \<Rightarrow> bool" where
  "club_visible d u c \<longleftrightarrow> list_ex (\<lambda>r. cl_id r = c \<and> (\<not> cl_private r \<or> cl_owner r = u \<or> member_of d c u)) (clubs d)"

definition can_view_club_stmt :: "uuid \<Rightarrow> uuid \<Rightarrow> (club_db, bool) sql" where
  "can_view_club_stmt u c d = Inr (club_visible d u c, d)"

definition club_stmt :: "uuid \<Rightarrow> (club_db, club_row \<times> nat) sql" where
  "club_stmt c d = (case filter (\<lambda>r. cl_id r = c) (clubs d) of [] \<Rightarrow> Inl NoRows | r # _ \<Rightarrow> Inr ((r, length (active_members d c)), d))"

definition slug_stmt :: "club_env \<Rightarrow> string \<Rightarrow> (club_db, uuid) sql" where
  "slug_stmt env slug d =
     (case filter (\<lambda>r. map_option (ce_lower env) (cl_slug r) = Some (ce_lower env slug)) (clubs d) of
        [] \<Rightarrow> Inl NoRows | r # _ \<Rightarrow> Inr (cl_id r, d))"

text \<open>By size, the latest first.\<close>

definition by_size :: "club_db \<Rightarrow> club_row list \<Rightarrow> club_row list" where
  "by_size d rs = sort_key (\<lambda>r. - int (length (active_members d (cl_id r)))) (sort_key (\<lambda>r. - cl_created r) (sort_key cl_id rs))"

definition list_clubs_stmt :: "uuid \<Rightarrow> string \<Rightarrow> int \<Rightarrow> int \<Rightarrow> (club_db, (club_row \<times> nat \<times> bool \<times> string) list) sql" where
  "list_clubs_stmt u category limit offset d =
     (case page_of limit offset (sort_key (\<lambda>r. if cl_owner r = u then 0 else if member_of d (cl_id r) u then 1 else 2 :: nat) (by_size d
             (filter (\<lambda>r. (\<not> cl_private r \<or> cl_owner r = u \<or> member_of d (cl_id r) u) \<and> (category = [] \<or> cl_category r = category)) (clubs d)))) of
        Inl e \<Rightarrow> Inl e
      | Inr rs \<Rightarrow> Inr (map (\<lambda>r. (r, length (active_members d (cl_id r)), member_of d (cl_id r) u,
            case filter (\<lambda>m. mb_user m = u) (active_members d (cl_id r)) of [] \<Rightarrow> ''member'' | m # _ \<Rightarrow> mb_role m)) rs, d))"

definition search_clubs_stmt :: "club_env \<Rightarrow> string \<Rightarrow> int \<Rightarrow> int \<Rightarrow> (club_db, (club_row \<times> nat) list) sql" where
  "search_clubs_stmt env query limit offset d =
     (let text = (\<lambda>x. case x of None \<Rightarrow> [] | Some s \<Rightarrow> s); found = (\<lambda>s. ce_ilike env (''%'' @ query @ ''%'') s)
      in case page_of limit offset (sort_key (\<lambda>r. if ce_lower env (cl_name r) = ce_lower env query then 0
               else if ce_lower env (text (cl_slug r)) = ce_lower env query then 1 else 2 :: nat) (by_size d
             (filter (\<lambda>r. \<not> cl_private r \<and> (found (cl_name r) \<or> found (text (cl_slug r)) \<or> found (text (cl_desc r)))) (clubs d)))) of
        Inl e \<Rightarrow> Inl e | Inr rs \<Rightarrow> Inr (map (\<lambda>r. (r, length (active_members d (cl_id r)))) rs, d))"

definition trending_clubs_stmt :: "int \<Rightarrow> (club_db, (club_row \<times> nat) list) sql" where
  "trending_clubs_stmt limit d =
     Inr (map (\<lambda>r. (r, length (active_members d (cl_id r)))) (take (nat limit) (by_size d (filter (\<lambda>r. \<not> cl_private r) (clubs d)))), d)"

definition club_members_stmt :: "uuid \<Rightarrow> string option \<Rightarrow> int \<Rightarrow> int \<Rightarrow> (club_db, (member_row \<times> user_row) list) sql" where
  "club_members_stmt c role limit offset d =
     (case page_of limit offset (sort_key (\<lambda>(m, _). mb_joined m) (concat (map (\<lambda>m. map (Pair m) (filter (\<lambda>u. us_id u = mb_user m) (people d)))
             (filter (\<lambda>m. mb_club m = c \<and> (case role of None \<Rightarrow> True | Some x \<Rightarrow> mb_role m = x)) (memberships d))))) of
        Inl e \<Rightarrow> Inl e | Inr rs \<Rightarrow> Inr (rs, d))"

definition guidelines_stmt :: "uuid \<Rightarrow> (club_db, guideline_row list) sql" where
  "guidelines_stmt c d =
     Inr (sort_key gl_order (sort_key gl_created (filter (\<lambda>g. gl_club g = c \<and> gl_active g) (guidelines d))), d)"

definition clear_guidelines_stmt :: "uuid \<Rightarrow> (club_db, unit) sql" where
  "clear_guidelines_stmt c d = Inr ((), d\<lparr>guidelines := sql_delete (\<lambda>g. gl_club g = c) (guidelines d)\<rparr>)"

text \<open>An order that does not fit the column's 32 bits is refused by the driver.\<close>

definition add_guideline_stmt :: "int \<Rightarrow> uuid \<Rightarrow> uuid \<Rightarrow> string \<Rightarrow> string \<Rightarrow> int \<Rightarrow> bool \<Rightarrow> (club_db, unit) sql" where
  "add_guideline_stmt now new c title desc pos active d =
     (if \<not> fits32 pos then Inl (Errorf ''failed to encode args'')
      else if c \<notin> cl_id ` set (clubs d) then Inl (violates ''foreign_key'')
      else (case sql_insert gl_id \<lparr>gl_id = new, gl_club = c, gl_title = title, gl_desc = desc, gl_order = pos, gl_active = active,
                gl_created = now\<rparr> (guidelines d) of
              Inl e \<Rightarrow> Inl e | Inr gs \<Rightarrow> Inr ((), d\<lparr>guidelines := gs\<rparr>)))"

definition count_members_stmt :: "uuid \<Rightarrow> int option \<Rightarrow> (club_db, nat) sql" where
  "count_members_stmt c since d =
     Inr (length (filter (\<lambda>m. case since of None \<Rightarrow> True | Some t \<Rightarrow> t \<le> mb_joined m) (active_members d c)), d)"

definition count_proposers_stmt :: "uuid \<Rightarrow> int \<Rightarrow> (club_db, nat) sql" where
  "count_proposers_stmt c since d =
     Inr (card (pr_proposer ` {p \<in> set (proposals d). pr_club p = Some c \<and> since \<le> pr_created p}), d)"

definition count_events_stmt :: "uuid \<Rightarrow> (club_db, nat) sql" where
  "count_events_stmt c d = Inr (length (filter (\<lambda>p. pr_club p = Some c) (proposals d)), d)"
section \<open>Statements on events, collectives, threads and subscriptions\<close>

definition create_event_stmt ::
  "club_input \<Rightarrow> uuid option \<Rightarrow> uuid \<Rightarrow> string \<Rightarrow> string \<Rightarrow> int option \<Rightarrow> (club_db, proposal_row) sql" where
  "create_event_stmt i c u title desc ends d =
     (let p = \<lparr>pr_id = ci_new i, pr_club = c, pr_proposer = u, pr_title = title, pr_desc = desc, pr_ends = ends, pr_created = ci_now i\<rparr>
      in case sql_insert pr_id p (proposals d) of Inl e \<Rightarrow> Inl e | Inr ps \<Rightarrow> Inr (p, d\<lparr>proposals := ps\<rparr>))"

definition update_event_stmt :: "uuid \<Rightarrow> string \<Rightarrow> string \<Rightarrow> int option \<Rightarrow> (club_db, nat) sql" where
  "update_event_stmt e title desc ends d =
     Inr (length (filter (\<lambda>p. pr_id p = e) (proposals d)),
          d\<lparr>proposals := sql_update (\<lambda>p. pr_id p = e) (\<lambda>p. p\<lparr>pr_title := title, pr_desc := desc, pr_ends := ends\<rparr>) (proposals d)\<rparr>)"

definition rsvp_stmt :: "int \<Rightarrow> uuid \<Rightarrow> uuid \<Rightarrow> (club_db, unit) sql" where
  "rsvp_stmt now e u d =
     Inr ((), d\<lparr>attendees := sql_upsert fst ((e, u), (''going'', now)) (\<lambda>a. (fst a, (''going'', now))) (attendees d)\<rparr>)"

definition event_stmt :: "uuid \<Rightarrow> (club_db, proposal_row) sql" where
  "event_stmt e d = (case filter (\<lambda>p. pr_id p = e) (proposals d) of [] \<Rightarrow> Inl NoRows | p # _ \<Rightarrow> Inr (p, d))"

definition goes_to :: "club_db \<Rightarrow> uuid \<Rightarrow> uuid \<Rightarrow> bool" where
  "goes_to d u e \<longleftrightarrow> list_ex (\<lambda>a. fst a = (e, u) \<and> fst (snd a) = ''going'') (attendees d)"

text \<open>An end that is missing is compared with nothing, and comes last.\<close>

definition ends_after :: "int \<Rightarrow> proposal_row \<Rightarrow> bool" where
  "ends_after now p \<longleftrightarrow> (case pr_ends p of None \<Rightarrow> False | Some t \<Rightarrow> now < t)"

definition ends_by :: "int \<Rightarrow> proposal_row \<Rightarrow> bool" where
  "ends_by now p \<longleftrightarrow> (case pr_ends p of None \<Rightarrow> False | Some t \<Rightarrow> t \<le> now)"

definition by_end :: "proposal_row list \<Rightarrow> proposal_row list" where
  "by_end ps = sort_key (\<lambda>p. pr_ends p = None) (sort_key (\<lambda>p. the (pr_ends p)) ps)"

definition list_events_stmt ::
  "uuid \<Rightarrow> uuid option \<Rightarrow> (proposal_row \<Rightarrow> bool) \<Rightarrow> int \<Rightarrow> int \<Rightarrow> (club_db, proposal_row list) sql" where
  "list_events_stmt u c wanted limit offset d =
     (case page_of limit offset (by_end (sort_key pr_id (filter (\<lambda>p.
             (pr_proposer p = u \<or> goes_to d u (pr_id p) \<or> (case pr_club p of None \<Rightarrow> False | Some k \<Rightarrow> member_of d k u)) \<and>
             (c = None \<or> pr_club p = c) \<and> wanted p) (proposals d)))) of
        Inl e \<Rightarrow> Inl e | Inr ps \<Rightarrow> Inr (ps, d))"

definition upcoming_stmt :: "int \<Rightarrow> uuid \<Rightarrow> int \<Rightarrow> (club_db, proposal_row list) sql" where
  "upcoming_stmt now u limit d =
     Inr (take (nat limit) (by_end (filter (\<lambda>p. ends_after now p \<and> (pr_proposer p = u \<or> goes_to d u (pr_id p))) (proposals d))), d)"

definition attendees_stmt :: "uuid \<Rightarrow> int \<Rightarrow> int \<Rightarrow> (club_db, uuid list) sql" where
  "attendees_stmt e limit offset d =
     (case page_of limit offset (map (\<lambda>a. snd (fst a)) (sort_key (\<lambda>a. snd (snd a)) (sort_key (\<lambda>a. snd (fst a))
             (filter (\<lambda>a. fst (fst a) = e \<and> fst (snd a) = ''going'') (attendees d))))) of
        Inl x \<Rightarrow> Inl x | Inr us \<Rightarrow> Inr (us, d))"

definition create_collective_stmt :: "collective_row \<Rightarrow> (club_db, unit) sql" where
  "create_collective_stmt c d =
     (if cv_slug c \<in> cv_slug ` set (collectives d) then Inl (violates ''unique'')
      else (case sql_insert cv_id c (collectives d) of Inl e \<Rightarrow> Inl e | Inr cs \<Rightarrow> Inr ((), d\<lparr>collectives := cs\<rparr>)))"

definition collective_size :: "club_db \<Rightarrow> uuid \<Rightarrow> nat" where
  "collective_size d c = length (filter (\<lambda>m. fst (fst m) = c) (collective_members d))"

definition one_collective_stmt :: "uuid \<Rightarrow> (club_db, collective_row \<times> nat) sql" where
  "one_collective_stmt c d =
     (case filter (\<lambda>r. cv_id r = c) (collectives d) of [] \<Rightarrow> Inl NoRows | r # _ \<Rightarrow> Inr ((r, collective_size d c), d))"

definition collectives_stmt :: "int \<Rightarrow> int \<Rightarrow> (club_db, (collective_row \<times> nat) list) sql" where
  "collectives_stmt limit offset d =
     (case page_of limit offset (sort_key (\<lambda>r. \<not> cv_official r) (sort_key (\<lambda>r. - cv_created r) (collectives d))) of
        Inl e \<Rightarrow> Inl e | Inr rs \<Rightarrow> Inr (map (\<lambda>r. (r, collective_size d (cv_id r))) rs, d))"

definition update_collective_stmt ::
  "int \<Rightarrow> uuid \<Rightarrow> string \<Rightarrow> string \<Rightarrow> string \<Rightarrow> string \<Rightarrow> string \<Rightarrow> string \<Rightarrow> (club_db, unit) sql" where
  "update_collective_stmt now c name slug desc icon banner category d =
     (if c \<in> cv_id ` set (collectives d) \<and> list_ex (\<lambda>r. cv_id r \<noteq> c \<and> cv_slug r = slug) (collectives d) then Inl (violates ''unique'')
      else Inr ((), d\<lparr>collectives := sql_update (\<lambda>r. cv_id r = c) (\<lambda>r. r\<lparr>cv_name := name, cv_slug := slug, cv_desc := desc,
             cv_icon := icon, cv_banner := banner, cv_category := category, cv_updated := now\<rparr>) (collectives d)\<rparr>))"

definition delete_collective_stmt :: "uuid \<Rightarrow> (club_db, unit) sql" where
  "delete_collective_stmt c d =
     Inr ((), d\<lparr>collectives := sql_delete (\<lambda>r. cv_id r = c) (collectives d),
        collective_members := sql_delete (\<lambda>m. fst (fst m) = c) (collective_members d),
        threads := sql_delete (\<lambda>t. th_collective t = c) (threads d)\<rparr>)"

definition known :: "club_db \<Rightarrow> uuid \<Rightarrow> bool" where "known d u \<longleftrightarrow> u \<in> us_id ` set (people d)"

definition join_collective_stmt :: "int \<Rightarrow> uuid \<Rightarrow> uuid \<Rightarrow> (club_db, unit) sql" where
  "join_collective_stmt now c u d =
     (if (c, u) \<in> fst ` set (collective_members d) then Inr ((), d)
      else if c \<notin> cv_id ` set (collectives d) \<or> \<not> known d u then Inl (violates ''foreign_key'')
      else Inr ((), d\<lparr>collective_members := sql_insert_ignore fst ((c, u), (''member'', now)) (collective_members d)\<rparr>))"

definition leave_collective_stmt :: "uuid \<Rightarrow> uuid \<Rightarrow> (club_db, unit) sql" where
  "leave_collective_stmt c u d = Inr ((), d\<lparr>collective_members := sql_delete (\<lambda>m. fst m = (c, u)) (collective_members d)\<rparr>)"

definition create_thread_stmt :: "thread_row \<Rightarrow> (club_db, thread_row) sql" where
  "create_thread_stmt t d =
     (if th_collective t \<notin> cv_id ` set (collectives d) \<or> \<not> known d (th_author t) then Inl (violates ''foreign_key'')
      else (case sql_insert th_id t (threads d) of Inl e \<Rightarrow> Inl e | Inr ts \<Rightarrow> Inr (t, d\<lparr>threads := ts\<rparr>)))"

definition thread_stmt :: "uuid \<Rightarrow> (club_db, thread_row) sql" where
  "thread_stmt t d = (case filter (\<lambda>r. th_id r = t) (threads d) of [] \<Rightarrow> Inl NoRows | r # _ \<Rightarrow> Inr (r, d))"

definition threads_stmt :: "uuid \<Rightarrow> int \<Rightarrow> int \<Rightarrow> (club_db, thread_row list) sql" where
  "threads_stmt c limit offset d =
     (case page_of limit offset (sort_key (\<lambda>t. \<not> th_pinned t) (sort_key (\<lambda>t. - th_created t) (filter (\<lambda>t. th_collective t = c) (threads d)))) of
        Inl e \<Rightarrow> Inl e | Inr ts \<Rightarrow> Inr (ts, d))"

definition update_threads :: "int \<Rightarrow> uuid \<Rightarrow> (thread_row \<Rightarrow> thread_row) \<Rightarrow> (club_db, unit) sql" where
  "update_threads now t f d = Inr ((), d\<lparr>threads := sql_update (\<lambda>r. th_id r = t) (\<lambda>r. (f r)\<lparr>th_updated := now\<rparr>) (threads d)\<rparr>)"

text \<open>The resonance is a 32-bit column.\<close>

definition resonate_stmt :: "int \<Rightarrow> uuid \<Rightarrow> int \<Rightarrow> (club_db, unit) sql" where
  "resonate_stmt now t delta d =
     (if list_ex (\<lambda>r. th_id r = t \<and> \<not> fits32 (th_resonance r + delta)) (threads d) then Inl (Constraint ''numeric_value_out_of_range'')
      else update_threads now t (\<lambda>r. r\<lparr>th_resonance := th_resonance r + delta\<rparr>) d)"

definition delete_replies_stmt :: "uuid \<Rightarrow> (club_db, unit) sql" where
  "delete_replies_stmt t d = Inr ((), d\<lparr>replies := sql_delete (\<lambda>r. re_thread r = t) (replies d)\<rparr>)"

definition delete_thread_stmt :: "uuid \<Rightarrow> (club_db, unit) sql" where
  "delete_thread_stmt t d = Inr ((), d\<lparr>threads := sql_delete (\<lambda>r. th_id r = t) (threads d)\<rparr>)"

definition create_reply_stmt :: "club_input \<Rightarrow> uuid \<Rightarrow> uuid \<Rightarrow> uuid option \<Rightarrow> string \<Rightarrow> (club_db, reply_row) sql" where
  "create_reply_stmt i t u parent content d =
     (if \<not> known d u then Inl (violates ''foreign_key'')
      else let r = \<lparr>re_id = ci_new i, re_thread = t, re_author = u, re_parent = parent, re_content = content, re_created = ci_now i\<rparr>
           in (case sql_insert re_id r (replies d) of Inl e \<Rightarrow> Inl e | Inr rs \<Rightarrow> Inr (r, d\<lparr>replies := rs\<rparr>)))"

definition replies_stmt :: "uuid \<Rightarrow> int \<Rightarrow> int \<Rightarrow> (club_db, reply_row list) sql" where
  "replies_stmt t limit offset d =
     (case page_of limit offset (sort_key re_created (filter (\<lambda>r. re_thread r = t) (replies d))) of
        Inl e \<Rightarrow> Inl e | Inr rs \<Rightarrow> Inr (rs, d))"

definition subscribe_stmt :: "int \<Rightarrow> uuid \<Rightarrow> uuid \<Rightarrow> uuid \<Rightarrow> string \<Rightarrow> int \<Rightarrow> (club_db, unit) sql" where
  "subscribe_stmt now s u creator plan expires d =
     (if \<not> known d creator then Inl (violates ''foreign_key'')
      else (case sql_insert su_id \<lparr>su_id = s, su_user = u, su_creator = creator, su_plan = plan, su_amount = 0, su_active = True,
                su_started = now, su_expires = expires, su_renew = True\<rparr> (subscriptions d) of
              Inl e \<Rightarrow> Inl e | Inr ss \<Rightarrow> Inr ((), d\<lparr>subscriptions := ss\<rparr>)))"

definition subscription_stmt :: "uuid \<Rightarrow> (club_db, subscription_row) sql" where
  "subscription_stmt s d = (case filter (\<lambda>r. su_id r = s) (subscriptions d) of [] \<Rightarrow> Inl NoRows | r # _ \<Rightarrow> Inr (r, d))"

definition subscriptions_stmt :: "uuid \<Rightarrow> (club_db, subscription_row list) sql" where
  "subscriptions_stmt u d = Inr (sort_key (\<lambda>r. - su_started r) (filter (\<lambda>r. su_user r = u) (subscriptions d)), d)"

definition plan_stmt :: "uuid \<Rightarrow> string \<Rightarrow> (club_db, unit) sql" where
  "plan_stmt s plan d = Inr ((), d\<lparr>subscriptions := sql_update (\<lambda>r. su_id r = s) (\<lambda>r. r\<lparr>su_plan := plan\<rparr>) (subscriptions d)\<rparr>)"

definition cancel_subscription_stmt :: "uuid \<Rightarrow> (club_db, unit) sql" where
  "cancel_subscription_stmt s d = Inr ((), d\<lparr>subscriptions := sql_update (\<lambda>r. su_id r = s) (\<lambda>r. r\<lparr>su_active := False\<rparr>) (subscriptions d)\<rparr>)"
section \<open>Repository\<close>

definition club_id :: "club_env \<Rightarrow> string \<Rightarrow> string \<Rightarrow> (uuid \<Rightarrow> (club_db, 'a) dbm) \<Rightarrow> (club_db, 'a) dbm" where
  "club_id env m x k = (case ce_scan env (trim_space x) of Inl e \<Rightarrow> dfail (if m = [] then e else Wrapf m e) | Inr a \<Rightarrow> k a)"

text \<open>The same without \<open>strings.TrimSpace\<close>.\<close>

definition raw_id :: "club_env \<Rightarrow> string \<Rightarrow> string \<Rightarrow> (uuid \<Rightarrow> (club_db, 'a) dbm) \<Rightarrow> (club_db, 'a) dbm" where
  "raw_id env m x k = (case ce_scan env x of Inl e \<Rightarrow> dfail (Wrapf m e) | Inr a \<Rightarrow> k a)"

definition or_general :: "string \<Rightarrow> string" where
  "or_general s = (if trim_space s = [] then ''general'' else trim_space s)"

definition CreateCommunity :: "club_env \<Rightarrow> club_input \<Rightarrow> community \<Rightarrow> (club_db, community) dbm" where
  "CreateCommunity env i c =
     club_id env [] (com_owner c) (\<lambda>u.
     dbind (autocommit (create_club_stmt i u (com_name c) (if com_desc c = [] then None else Some (com_desc c))
              (if com_avatar c = [] then None else Some (com_avatar c)) (com_private c))) (\<lambda>r.
     dbind (autocommit (fill_club_stmt (ci_now i) (cl_id r) (com_slug c) (com_banner c) (com_verified c) (or_general (com_category c))
              (com_tags c) (com_rules c))) (\<lambda>_.
     dreturn (c\<lparr>com_id := ce_show env (cl_id r), com_created := cl_created r, com_category := or_general (com_category c)\<rparr>))))"

definition JoinCommunity :: "club_env \<Rightarrow> int \<Rightarrow> string \<Rightarrow> string \<Rightarrow> string \<Rightarrow> (club_db, unit) dbm" where
  "JoinCommunity env now c u role = club_id env [] c (\<lambda>c. club_id env [] u (\<lambda>u. autocommit (join_stmt env now c u role)))"

definition zero_settings :: club_settings where
  "zero_settings = \<lparr>set_guest_posts = False, set_moderation = False, set_voice = False, set_video = False, set_screen = False,
     set_max_members = 0, set_delete_days = 0, set_filter = [], set_language = [], set_timezone = []\<rparr>"

definition or_empty :: "string option \<Rightarrow> string" where "or_empty x = (case x of None \<Rightarrow> [] | Some s \<Rightarrow> s)"

definition community_of :: "club_env \<Rightarrow> club_row \<times> nat \<Rightarrow> community" where
  "community_of env = (\<lambda>(r, n). \<lparr>com_id = ce_show env (cl_id r), com_owner = ce_show env (cl_owner r), com_name = cl_name r,
     com_slug = or_empty (cl_slug r), com_desc = or_empty (cl_desc r), com_avatar = or_empty (cl_avatar r), com_banner = cl_banner r,
     com_private = cl_private r, com_verified = cl_verified r, com_joined = False, com_role = [], com_members = int n,
     com_created = cl_created r, com_updated = cl_updated r, com_category = cl_category r, com_tags = cl_tags r, com_rules = cl_rules r,
     com_settings = zero_settings\<rparr>)"

definition CanViewCommunity :: "club_env \<Rightarrow> string \<Rightarrow> string \<Rightarrow> (club_db, bool) dbm" where
  "CanViewCommunity env u c =
     club_id env ''invalid viewer uuid'' u (\<lambda>u. club_id env ''invalid community uuid'' c (\<lambda>c. autocommit (can_view_club_stmt u c)))"

definition GetCommunity :: "club_env \<Rightarrow> string \<Rightarrow> (club_db, community) dbm" where
  "GetCommunity env c =
     club_id env ''invalid community uuid'' c (\<lambda>c. dbind (autocommit (club_stmt c)) (\<lambda>r. dreturn (community_of env r)))"

definition UpdateCommunity :: "club_env \<Rightarrow> int \<Rightarrow> string \<Rightarrow> community \<Rightarrow> (club_db, unit) dbm" where
  "UpdateCommunity env now c v =
     club_id env ''invalid community uuid'' c (\<lambda>c.
       if trim_space (com_name v) = [] then dfail (Errorf ''community name is required'')
       else autocommit (update_club_stmt now c (trim_space (com_name v)) (com_desc v) (com_avatar v) (com_banner v) (com_private v)
              (or_general (com_category v)) (com_tags v) (com_rules v)))"

definition GetCommunityBySlug :: "club_env \<Rightarrow> string \<Rightarrow> (club_db, community) dbm" where
  "GetCommunityBySlug env slug =
     (if trim_space slug = [] then dfail (Errorf ''community slug is required'')
      else dbind (autocommit (slug_stmt env (trim_space slug))) (\<lambda>c. GetCommunity env (ce_show env c)))"

definition clamp_limit :: "int \<Rightarrow> int \<Rightarrow> int" where
  "clamp_limit n l = (if l \<le> 0 then n else l)"

definition GetCommunityMembers :: "club_env \<Rightarrow> string \<Rightarrow> string \<Rightarrow> int \<Rightarrow> int \<Rightarrow> (club_db, community_member list) dbm" where
  "GetCommunityMembers env c role limit offset =
     club_id env ''invalid community uuid'' c (\<lambda>c.
       dbind (autocommit (club_members_stmt c (if trim_space role = [] then None else Some role) (clamp_limit 100 limit) (max 0 offset))) (\<lambda>rs.
       dreturn (map (\<lambda>(m, _). \<lparr>cmb_club = ce_show env (mb_club m), cmb_user = ce_show env (mb_user m), cmb_role = mb_role m,
         cmb_joined = mb_joined m, cmb_active = (mb_role m \<noteq> ''banned'')\<rparr>) rs)))"

text \<open>A statement about a community and a user.\<close>

definition membership :: "club_env \<Rightarrow> string \<Rightarrow> string \<Rightarrow> (uuid \<Rightarrow> uuid \<Rightarrow> (club_db, 'a) dbm) \<Rightarrow> (club_db, 'a) dbm" where
  "membership env c u k = club_id env ''invalid community uuid'' c (\<lambda>c. club_id env ''invalid user uuid'' u (\<lambda>u. k c u))"

definition LeaveCommunity :: "club_env \<Rightarrow> string \<Rightarrow> string \<Rightarrow> (club_db, unit) dbm" where
  "LeaveCommunity env c u = membership env c u (\<lambda>c u. autocommit (leave_stmt c u))"

definition RemoveMember :: "club_env \<Rightarrow> string \<Rightarrow> string \<Rightarrow> (club_db, unit) dbm" where
  "RemoveMember env c u = membership env c u (\<lambda>c u. autocommit (remove_member_stmt c u))"

definition UpdateMemberRole :: "club_env \<Rightarrow> string \<Rightarrow> string \<Rightarrow> string \<Rightarrow> (club_db, unit) dbm" where
  "UpdateMemberRole env c u role =
     membership env c u (\<lambda>c u. let role = to_lower (trim_space role)
       in if role \<notin> {''owner'', ''admin'', ''moderator'', ''member'', ''banned''} then dfail (Errorf ''invalid member role'')
          else dbind (autocommit (role_stmt c u role)) (\<lambda>n.
               if n = 0 then dfail (Errorf ''community member not found'') else dreturn ()))"

definition BanMember :: "club_env \<Rightarrow> string \<Rightarrow> string \<Rightarrow> (club_db, unit) dbm" where
  "BanMember env c u =
     raw_id env ''invalid community uuid'' c (\<lambda>c. raw_id env ''invalid user uuid'' u (\<lambda>u. autocommit (ban_stmt c u)))"

definition UnbanMember :: "club_env \<Rightarrow> string \<Rightarrow> string \<Rightarrow> (club_db, unit) dbm" where
  "UnbanMember env c u =
     raw_id env ''invalid community uuid'' c (\<lambda>c. raw_id env ''invalid user uuid'' u (\<lambda>u. autocommit (unban_stmt c u)))"

definition GetTrendingCommunities :: "club_env \<Rightarrow> int \<Rightarrow> (club_db, community list) dbm" where
  "GetTrendingCommunities env limit =
     dbind (autocommit (trending_clubs_stmt (if limit \<le> 0 \<or> 100 < limit then 20 else limit))) (\<lambda>rs. dreturn (map (community_of env) rs))"

definition DeleteCommunity :: "club_env \<Rightarrow> string \<Rightarrow> (club_db, unit) dbm" where
  "DeleteCommunity env c =
     (if trim_space c = [] then dfail (Errorf ''community id is required'')
      else club_id env ''invalid community uuid'' c (\<lambda>c. autocommit (delete_club_stmt c)))"

definition ListCommunities :: "club_env \<Rightarrow> string \<Rightarrow> string \<Rightarrow> int \<Rightarrow> int \<Rightarrow> (club_db, community list) dbm" where
  "ListCommunities env u category limit offset =
     club_id env ''invalid user uuid'' u (\<lambda>u.
       dbind (autocommit (list_clubs_stmt u (trim_space category) (min 100 (clamp_limit 20 limit)) (max 0 offset))) (\<lambda>rs.
       dreturn (map (\<lambda>(r, n, joined, role). (community_of env (r, n))\<lparr>com_joined := joined, com_role := role\<rparr>) rs)))"

definition SearchCommunities :: "club_env \<Rightarrow> string \<Rightarrow> int \<Rightarrow> int \<Rightarrow> (club_db, community list) dbm" where
  "SearchCommunities env query limit offset =
     (if trim_space query = [] then dreturn []
      else dbind (autocommit (search_clubs_stmt env (trim_space query) (min 100 (clamp_limit 20 limit)) (max 0 offset))) (\<lambda>rs.
           dreturn (map (community_of env) rs)))"

definition GetCommunityGuidelines :: "club_env \<Rightarrow> string \<Rightarrow> (club_db, guideline list) dbm" where
  "GetCommunityGuidelines env c =
     club_id env ''invalid community uuid'' c (\<lambda>c. dbind (autocommit (guidelines_stmt c)) (\<lambda>rs.
       dreturn (map (\<lambda>g. \<lparr>gd_id = ce_show env (gl_id g), gd_club = ce_show env (gl_club g), gd_title = gl_title g, gd_desc = gl_desc g,
         gd_order = gl_order g, gd_active = gl_active g, gd_created = gl_created g\<rparr>) rs)))"

text \<open>The guidelines are deleted and inserted one by one, outside a transaction; \<open>None\<close> is a null in the request.\<close>

fun add_guidelines :: "club_input \<Rightarrow> uuid \<Rightarrow> nat \<Rightarrow> guideline option list \<Rightarrow> (club_db, unit) dbm" where
  "add_guidelines i c n [] = dreturn ()"
| "add_guidelines i c n (None # gs) = add_guidelines i c (Suc n) gs"
| "add_guidelines i c n (Some g # gs) =
     (if trim_space (gd_title g) = [] then dfail (Errorf ''guideline title is required'')
      else if trim_space (gd_desc g) = [] then dfail (Errorf ''guideline description is required'')
      else dbind (autocommit (add_guideline_stmt (ci_now i) (ci_rows i n) c (trim_space (gd_title g)) (trim_space (gd_desc g))
                    (if gd_order g < 0 then int n else gd_order g) (gd_active g))) (\<lambda>_.
           add_guidelines i c (Suc n) gs))"

definition UpdateGuidelines :: "club_env \<Rightarrow> club_input \<Rightarrow> string \<Rightarrow> guideline option list \<Rightarrow> (club_db, unit) dbm" where
  "UpdateGuidelines env i c gs =
     club_id env ''invalid community uuid'' c (\<lambda>c. dbind (autocommit (clear_guidelines_stmt c)) (\<lambda>_. add_guidelines i c 0 gs))"

definition UpdateCommunityStats :: "club_env \<Rightarrow> int \<Rightarrow> string \<Rightarrow> (club_db, unit) dbm" where
  "UpdateCommunityStats env now c = club_id env ''invalid community uuid'' c (\<lambda>c. autocommit (touch_club_stmt now c))"

definition day :: int where "day = 24 * 60 * 60 * 1000000000"

definition analytics_window :: "string \<Rightarrow> int" where
  "analytics_window period =
     (let p = to_lower (trim_space period)
      in if p \<in> {''day'', ''daily'', ''24h''} then day else if p \<in> {''week'', ''weekly'', ''7d''} then 7 * day else 30 * day)"

text \<open>An error of the third query is ignored.\<close>

definition GetCommunityAnalytics :: "club_env \<Rightarrow> int \<Rightarrow> string \<Rightarrow> string \<Rightarrow> (club_db, club_analytics) dbm" where
  "GetCommunityAnalytics env now c period =
     club_id env ''invalid community uuid'' c (\<lambda>c. let since = now - analytics_window period
       in dbind (autocommit (count_members_stmt c None)) (\<lambda>all.
          dbind (autocommit (count_members_stmt c (Some since))) (\<lambda>fresh.
          dbind (dignore 0 (autocommit (count_proposers_stmt c since))) (\<lambda>active.
          dbind (autocommit (count_events_stmt c)) (\<lambda>events.
          dreturn \<lparr>an_members = all, an_new = fresh, an_active = active, an_events = events\<rparr>)))))"
text \<open>An event with a zero end has none in the table, and the other way round.\<close>

definition zero_instant :: int where "zero_instant = -62135596800 * 1000000000"

definition ends_of :: "int \<Rightarrow> int option" where "ends_of t = (if t = zero_instant then None else Some t)"
definition end_of :: "proposal_row \<Rightarrow> int" where "end_of p = (case pr_ends p of None \<Rightarrow> zero_instant | Some t \<Rightarrow> t)"

definition event_of :: "club_env \<Rightarrow> string \<Rightarrow> proposal_row \<Rightarrow> event" where
  "event_of env status p = \<lparr>evt_id = ce_show env (pr_id p), evt_creator = ce_show env (pr_proposer p),
     evt_club = Some (case pr_club p of None \<Rightarrow> [] | Some c \<Rightarrow> ce_show env c), evt_title = pr_title p, evt_desc = pr_desc p,
     evt_start = pr_created p, evt_end = end_of p, evt_status = status, evt_created = pr_created p, evt_updated = pr_created p\<rparr>"

definition CreateEvent :: "club_env \<Rightarrow> club_input \<Rightarrow> event \<Rightarrow> (club_db, event) dbm" where
  "CreateEvent env i e =
     club_id env [] (evt_creator e) (\<lambda>u.
       let create = (\<lambda>c. dbind (autocommit (create_event_stmt i c u (evt_title e) (evt_desc e) (ends_of (evt_end e)))) (\<lambda>p.
             dreturn (e\<lparr>evt_id := (if evt_id e = [] then ce_show env (pr_id p) else evt_id e)\<rparr>)))
       in case evt_club e of
            None \<Rightarrow> create None
          | Some c \<Rightarrow> if trim_space c = [] then create None else club_id env [] c (\<lambda>c. create (Some c)))"

definition UpdateEvent :: "club_env \<Rightarrow> string \<Rightarrow> event \<Rightarrow> (club_db, unit) dbm" where
  "UpdateEvent env x e =
     club_id env ''invalid uuid'' x (\<lambda>k.
       dbind (autocommit (update_event_stmt k (trim_space (evt_title e)) (evt_desc e) (ends_of (evt_end e)))) (\<lambda>n.
       if n = 0 then dfail (Errorf ''event not found'') else dreturn ()))"

text \<open>The status of the request is not used.\<close>

definition RSVP :: "club_env \<Rightarrow> int \<Rightarrow> string \<Rightarrow> string \<Rightarrow> string \<Rightarrow> (club_db, unit) dbm" where
  "RSVP env now e u status = club_id env [] e (\<lambda>e. club_id env [] u (\<lambda>u. autocommit (rsvp_stmt now e u)))"

definition GetEvent :: "club_env \<Rightarrow> string \<Rightarrow> (club_db, event) dbm" where
  "GetEvent env e =
     club_id env ''invalid event uuid'' e (\<lambda>e. dbind (autocommit (event_stmt e)) (\<lambda>p. dreturn (event_of env ''published'' p)))"

definition GetUpcomingEvents :: "club_env \<Rightarrow> int \<Rightarrow> string \<Rightarrow> int \<Rightarrow> (club_db, event list) dbm" where
  "GetUpcomingEvents env now u limit =
     club_id env ''invalid user uuid'' u (\<lambda>u.
       dbind (autocommit (upcoming_stmt now u (if limit \<le> 0 \<or> 100 < limit then 20 else limit))) (\<lambda>ps.
       dreturn (map (event_of env ''published'') ps)))"

definition wanted_events :: "int \<Rightarrow> string \<Rightarrow> (proposal_row \<Rightarrow> bool) option" where
  "wanted_events now status =
     (let s = to_lower (trim_space status)
      in if s \<in> {''upcoming'', ''published'', ''active''} then Some (ends_after now)
         else if s \<in> {''completed'', ''expired''} then Some (ends_by now)
         else if s \<in> {[], ''all''} then Some (\<lambda>_. True) else None)"

definition ListEvents :: "club_env \<Rightarrow> int \<Rightarrow> string option \<Rightarrow> string \<Rightarrow> string \<Rightarrow> int \<Rightarrow> int \<Rightarrow> (club_db, event list) dbm" where
  "ListEvents env now c u status limit offset =
     club_id env ''invalid uuid'' u (\<lambda>u.
       let list = (\<lambda>c. case wanted_events now status of
             None \<Rightarrow> dfail (Errorf (''unsupported event status: '' @ status))
           | Some wanted \<Rightarrow>
               dbind (autocommit (list_events_stmt u c wanted (min 100 (clamp_limit 20 limit)) (max 0 offset))) (\<lambda>ps.
               dreturn (map (\<lambda>p. event_of env (if now < end_of p then ''published'' else ''completed'') p) ps)))
       in case c of
            None \<Rightarrow> list None
          | Some x \<Rightarrow> if trim_space x = [] then list None else club_id env ''invalid uuid'' x (\<lambda>c. list (Some c)))"

definition GetAttendees :: "club_env \<Rightarrow> string \<Rightarrow> int \<Rightarrow> int \<Rightarrow> (club_db, string list) dbm" where
  "GetAttendees env e limit offset =
     raw_id env ''invalid event uuid'' e (\<lambda>e.
       dbind (autocommit (attendees_stmt e (clamp_limit 100 limit) (max 0 offset))) (\<lambda>us. dreturn (map (ce_show env) us)))"

definition CreateCollective :: "club_env \<Rightarrow> club_input \<Rightarrow> collective \<Rightarrow> (club_db, collective) dbm" where
  "CreateCollective env i c =
     (let create = (\<lambda>k. dbind (autocommit (create_collective_stmt \<lparr>cv_id = k, cv_name = col_name c, cv_slug = col_slug c,
              cv_desc = col_desc c, cv_icon = col_icon c, cv_banner = col_banner c, cv_official = col_official c,
              cv_category = col_category c, cv_created = ci_now i, cv_updated = ci_now i\<rparr>)) (\<lambda>_.
            dreturn (c\<lparr>col_id := ce_show env k, col_created := ci_now i, col_updated := ci_now i\<rparr>)))
      in if col_id c = [] then create (ci_new i) else raw_id env ''invalid collective uuid'' (col_id c) create)"

definition collective_of :: "club_env \<Rightarrow> collective_row \<times> nat \<Rightarrow> collective" where
  "collective_of env = (\<lambda>(r, n). \<lparr>col_id = ce_show env (cv_id r), col_name = cv_name r, col_slug = cv_slug r, col_desc = cv_desc r,
     col_icon = cv_icon r, col_banner = cv_banner r, col_official = cv_official r, col_category = cv_category r, col_members = n,
     col_created = cv_created r, col_updated = cv_updated r\<rparr>)"

definition GetCollective :: "club_env \<Rightarrow> string \<Rightarrow> (club_db, collective) dbm" where
  "GetCollective env c =
     raw_id env ''invalid collective uuid'' c (\<lambda>c. dbind (autocommit (one_collective_stmt c)) (\<lambda>r. dreturn (collective_of env r)))"

definition GetCollectives :: "club_env \<Rightarrow> int \<Rightarrow> int \<Rightarrow> (club_db, collective list) dbm" where
  "GetCollectives env limit offset =
     dbind (autocommit (collectives_stmt (clamp_limit 50 limit) (max 0 offset))) (\<lambda>rs. dreturn (map (collective_of env) rs))"

definition UpdateCollective :: "club_env \<Rightarrow> int \<Rightarrow> string \<Rightarrow> collective \<Rightarrow> (club_db, unit) dbm" where
  "UpdateCollective env now x c =
     (if trim_space x = [] then dfail (Errorf ''collective id and updates are required'')
      else club_id env ''invalid collective uuid'' x (\<lambda>k.
             if trim_space (col_name c) = [] then dfail (Errorf ''collective name is required'')
             else autocommit (update_collective_stmt now k (trim_space (col_name c)) (trim_space (col_slug c)) (col_desc c) (col_icon c)
                    (col_banner c) (trim_space (col_category c)))))"

definition DeleteCollective :: "club_env \<Rightarrow> string \<Rightarrow> (club_db, unit) dbm" where
  "DeleteCollective env x =
     (if trim_space x = [] then dfail (Errorf ''collective id is required'')
      else club_id env ''invalid collective uuid'' x (\<lambda>k. autocommit (delete_collective_stmt k)))"

definition in_collective :: "club_env \<Rightarrow> string \<Rightarrow> string \<Rightarrow> (uuid \<Rightarrow> uuid \<Rightarrow> (club_db, unit) dbm) \<Rightarrow> (club_db, unit) dbm" where
  "in_collective env c u k =
     (if trim_space c = [] \<or> trim_space u = [] then dfail (Errorf ''collective and user ids are required'')
      else club_id env ''invalid collective uuid'' c (\<lambda>c. club_id env ''invalid user uuid'' u (\<lambda>u. k c u)))"

definition JoinCollective :: "club_env \<Rightarrow> int \<Rightarrow> string \<Rightarrow> string \<Rightarrow> (club_db, unit) dbm" where
  "JoinCollective env now c u = in_collective env c u (\<lambda>c u. autocommit (join_collective_stmt now c u))"

definition LeaveCollective :: "club_env \<Rightarrow> string \<Rightarrow> string \<Rightarrow> (club_db, unit) dbm" where
  "LeaveCollective env c u = in_collective env c u (\<lambda>c u. autocommit (leave_collective_stmt c u))"

definition discussion_of :: "club_env \<Rightarrow> thread_row \<Rightarrow> discussion" where
  "discussion_of env t = \<lparr>ds_id = ce_show env (th_id t), ds_collective = ce_show env (th_collective t), ds_author = ce_show env (th_author t),
     ds_title = th_title t, ds_content = th_content t, ds_resonance = th_resonance t, ds_pinned = th_pinned t, ds_locked = th_locked t,
     ds_announcement = th_announcement t, ds_tags = th_tags t, ds_category = th_category t, ds_created = th_created t,
     ds_updated = th_updated t\<rparr>"

text \<open>The identifier of the thread is the one it has, if it is one.\<close>

definition CreateThread :: "club_env \<Rightarrow> club_input \<Rightarrow> discussion \<Rightarrow> (club_db, discussion) dbm" where
  "CreateThread env i t =
     club_id env ''invalid uuid'' (ds_collective t) (\<lambda>c. club_id env ''invalid uuid'' (ds_author t) (\<lambda>u.
       let k = (if trim_space (ds_id t) = [] then ci_new i
                else (case ce_scan env (trim_space (ds_id t)) of Inl _ \<Rightarrow> ci_new i | Inr k \<Rightarrow> k))
       in dbind (autocommit (create_thread_stmt \<lparr>th_id = k, th_collective = c, th_author = u, th_title = ds_title t,
              th_content = ds_content t, th_resonance = ds_resonance t, th_pinned = ds_pinned t, th_locked = ds_locked t,
              th_announcement = ds_announcement t, th_tags = ds_tags t, th_category = ds_category t,
              th_created = ci_now i, th_updated = ci_now i\<rparr>)) (\<lambda>r.
          dreturn (t\<lparr>ds_id := ce_show env (th_id r), ds_created := th_created r, ds_updated := th_updated r\<rparr>))))"

definition GetThread :: "club_env \<Rightarrow> string \<Rightarrow> (club_db, discussion) dbm" where
  "GetThread env t = club_id env ''invalid uuid'' t (\<lambda>t. dbind (autocommit (thread_stmt t)) (\<lambda>r. dreturn (discussion_of env r)))"

definition GetThreads :: "club_env \<Rightarrow> string \<Rightarrow> int \<Rightarrow> int \<Rightarrow> (club_db, discussion list) dbm" where
  "GetThreads env c limit offset =
     club_id env ''invalid uuid'' c (\<lambda>c.
       dbind (autocommit (threads_stmt c (clamp_limit 50 limit) (max 0 offset))) (\<lambda>rs. dreturn (map (discussion_of env) rs)))"

definition UpdateThread :: "club_env \<Rightarrow> int \<Rightarrow> string \<Rightarrow> discussion \<Rightarrow> (club_db, unit) dbm" where
  "UpdateThread env now x t =
     club_id env ''invalid uuid'' x (\<lambda>k. autocommit (update_threads now k (\<lambda>r. r\<lparr>th_title := ds_title t, th_content := ds_content t,
       th_tags := ds_tags t, th_category := ds_category t, th_pinned := ds_pinned t, th_locked := ds_locked t,
       th_announcement := ds_announcement t\<rparr>)))"

definition DeleteThread :: "club_env \<Rightarrow> string \<Rightarrow> (club_db, unit) dbm" where
  "DeleteThread env x =
     (if trim_space x = [] then dfail (Errorf ''thread id is required'')
      else club_id env ''invalid thread uuid'' x (\<lambda>k.
             dbind (autocommit (delete_replies_stmt k)) (\<lambda>_. autocommit (delete_thread_stmt k))))"

definition ResonateThread :: "club_env \<Rightarrow> int \<Rightarrow> string \<Rightarrow> int \<Rightarrow> (club_db, unit) dbm" where
  "ResonateThread env now t delta = club_id env ''invalid uuid'' t (\<lambda>t. autocommit (resonate_stmt now t delta))"

definition PinThread :: "club_env \<Rightarrow> int \<Rightarrow> string \<Rightarrow> bool \<Rightarrow> (club_db, unit) dbm" where
  "PinThread env now t pinned = club_id env ''invalid uuid'' t (\<lambda>t. autocommit (update_threads now t (\<lambda>r. r\<lparr>th_pinned := pinned\<rparr>)))"

definition LockThread :: "club_env \<Rightarrow> int \<Rightarrow> string \<Rightarrow> bool \<Rightarrow> (club_db, unit) dbm" where
  "LockThread env now t locked = club_id env ''invalid uuid'' t (\<lambda>t. autocommit (update_threads now t (\<lambda>r. r\<lparr>th_locked := locked\<rparr>)))"

definition CreateThreadReply :: "club_env \<Rightarrow> club_input \<Rightarrow> thread_reply \<Rightarrow> (club_db, thread_reply) dbm" where
  "CreateThreadReply env i r =
     raw_id env ''invalid thread id'' (trp_thread r) (\<lambda>t. raw_id env ''invalid author id'' (trp_author r) (\<lambda>u.
       let create = (\<lambda>parent. dbind (autocommit (create_reply_stmt i t u parent (trp_content r))) (\<lambda>x.
             dreturn (r\<lparr>trp_id := ce_show env (re_id x), trp_created := re_created x\<rparr>)))
       in case trp_parent r of
            None \<Rightarrow> create None
          | Some p \<Rightarrow> if p = [] then create None else raw_id env ''invalid parent id'' p (\<lambda>p. create (Some p))))"

definition GetThreadReplies :: "club_env \<Rightarrow> string \<Rightarrow> int \<Rightarrow> int \<Rightarrow> (club_db, thread_reply list) dbm" where
  "GetThreadReplies env t limit offset =
     club_id env ''invalid uuid'' t (\<lambda>t.
       dbind (autocommit (replies_stmt t (clamp_limit 100 limit) (max 0 offset))) (\<lambda>rs.
       dreturn (map (\<lambda>r. \<lparr>trp_id = ce_show env (re_id r), trp_thread = ce_show env (re_thread r), trp_author = ce_show env (re_author r),
         trp_content = re_content r, trp_parent = map_option (ce_show env) (re_parent r), trp_created = re_created r\<rparr>) rs)))"

definition subscription_of :: "club_env \<Rightarrow> int \<Rightarrow> subscription_row \<Rightarrow> subscription" where
  "subscription_of env now r = \<lparr>sub_id = ce_show env (su_id r), sub_user = ce_show env (su_user r), sub_creator = ce_show env (su_creator r),
     sub_tier = su_plan r, sub_amount = su_amount r,
     sub_status = (if su_active r \<and> now < su_expires r then ''active'' else if su_active r then ''expired'' else ''cancelled''),
     sub_started = su_started r, sub_expires = su_expires r, sub_renew = su_renew r\<rparr>"

definition GetSubscription :: "club_env \<Rightarrow> int \<Rightarrow> string \<Rightarrow> (club_db, subscription) dbm" where
  "GetSubscription env now s =
     club_id env ''invalid uuid'' s (\<lambda>s. dbind (autocommit (subscription_stmt s)) (\<lambda>r. dreturn (subscription_of env now r)))"

definition GetUserSubscriptions :: "club_env \<Rightarrow> int \<Rightarrow> string \<Rightarrow> (club_db, subscription list) dbm" where
  "GetUserSubscriptions env now u =
     club_id env ''invalid uuid'' u (\<lambda>u. dbind (autocommit (subscriptions_stmt u)) (\<lambda>rs. dreturn (map (subscription_of env now) rs)))"

definition repo_UpdateSubscription :: "club_env \<Rightarrow> string \<Rightarrow> string \<Rightarrow> (club_db, unit) dbm" where
  "repo_UpdateSubscription env s tier =
     club_id env ''invalid uuid'' s (\<lambda>s.
       if trim_space tier = [] then dfail (Errorf ''subscription tier is required'') else autocommit (plan_stmt s (trim_space tier)))"

definition CreateSubscription :: "club_env \<Rightarrow> int \<Rightarrow> string \<Rightarrow> string \<Rightarrow> string \<Rightarrow> string \<Rightarrow> int \<Rightarrow> (club_db, unit) dbm" where
  "CreateSubscription env now s u creator tier expires =
     club_id env ''invalid uuid'' s (\<lambda>s. club_id env ''invalid uuid'' u (\<lambda>u. club_id env ''invalid uuid'' creator (\<lambda>c.
       if trim_space tier = [] then dfail (Errorf ''subscription tier is required'')
       else autocommit (subscribe_stmt now s u c (trim_space tier) expires))))"

definition repo_CancelSubscription :: "club_env \<Rightarrow> string \<Rightarrow> (club_db, unit) dbm" where
  "repo_CancelSubscription env s = club_id env ''invalid uuid'' s (\<lambda>s. autocommit (cancel_subscription_stmt s))"
section \<open>Service\<close>

text \<open>The runes that are no letters and no digits become single dashes.\<close>

fun dashed :: "bool \<Rightarrow> (string \<times> bool) list \<Rightarrow> string" where
  "dashed dash [] = []"
| "dashed dash ((r, alnum) # rs) =
     (if alnum then r @ dashed False rs else if \<not> dash then ''-'' @ dashed True rs else dashed dash rs)"

definition slugify :: "club_env \<Rightarrow> string \<Rightarrow> uuid \<Rightarrow> string" where
  "slugify env name u =
     (let s = dashed False (ce_runes env (to_lower (ce_strip env name)));
          s = rev (dropWhile (\<lambda>c. c = CHR ''-'') (rev (dropWhile (\<lambda>c. c = CHR ''-'') s)))
      in (if s = [] then ''community'' else s) @ ''-'' @ take 8 (ce_show env u))"

definition CreateGroup :: "club_env \<Rightarrow> club_input \<Rightarrow> string \<Rightarrow> string \<Rightarrow> string \<Rightarrow> bool \<Rightarrow> (club_db, community) dbm" where
  "CreateGroup env i owner name desc private =
     (let name = trim_space (ce_strip env name)
      in if name = [] then dfail (Errorf ''community name is required'')
         else dbind (CreateCommunity env i \<lparr>com_id = ce_show env (ci_uuid i), com_owner = owner, com_name = name,
                  com_slug = slugify env name (ci_uuid i), com_desc = trim_space (ce_sanitize env desc), com_avatar = [], com_banner = [],
                  com_private = private, com_verified = False, com_joined = False, com_role = [], com_members = 1,
                  com_created = ci_now i, com_updated = ci_now i, com_category = ''general'', com_tags = [], com_rules = [],
                  com_settings = zero_settings\<rparr>) (\<lambda>c.
              dbind (JoinCommunity env (ci_now i) (com_id c) owner ''owner'') (\<lambda>_. dreturn c)))"

definition OrganizeEvent :: "club_env \<Rightarrow> club_input \<Rightarrow> event \<Rightarrow> (club_db, event) dbm" where
  "OrganizeEvent env i e =
     CreateEvent env i (e\<lparr>evt_id := (if evt_id e = [] then ce_show env (ci_uuid i) else evt_id e),
       evt_created := (if evt_created e = zero_instant then ci_now i else evt_created e), evt_updated := ci_now i\<rparr>)"

definition CancelEvent :: "club_env \<Rightarrow> int \<Rightarrow> string \<Rightarrow> (club_db, unit) dbm" where
  "CancelEvent env now x =
     dbind (GetEvent env x) (\<lambda>e. UpdateEvent env x (e\<lparr>evt_status := ''cancelled'', evt_updated := now\<rparr>))"

definition SubscribeToCreator :: "club_env \<Rightarrow> club_input \<Rightarrow> string \<Rightarrow> string \<Rightarrow> string \<Rightarrow> string \<Rightarrow> (club_db, unit) dbm" where
  "SubscribeToCreator env i u creator tier s =
     CreateSubscription env (ci_now i) (if s = [] then ce_show env (ci_uuid i) else s) u creator tier (ci_now i + 30 * day)"

definition FormCollective :: "club_env \<Rightarrow> club_input \<Rightarrow> string \<Rightarrow> string \<Rightarrow> string \<Rightarrow> (club_db, collective) dbm" where
  "FormCollective env i name desc icon =
     (let name = trim_space (ce_strip env name)
      in if name = [] then dfail (Errorf ''collective name is required'')
         else CreateCollective env i \<lparr>col_id = ce_show env (ci_uuid i), col_name = name, col_slug = slugify env name (ci_uuid i),
                col_desc = trim_space (ce_sanitize env desc), col_icon = trim_space icon, col_banner = [], col_official = False,
                col_category = [], col_members = 0, col_created = ci_now i, col_updated = ci_now i\<rparr>)"

definition StartThread :: "club_env \<Rightarrow> club_input \<Rightarrow> string \<Rightarrow> string \<Rightarrow> string \<Rightarrow> string \<Rightarrow> (club_db, discussion) dbm" where
  "StartThread env i c u title content =
     CreateThread env i \<lparr>ds_id = ce_show env (ci_uuid i), ds_collective = c, ds_author = u, ds_title = ce_strip env title,
       ds_content = ce_sanitize env content, ds_resonance = 0, ds_pinned = False, ds_locked = False, ds_announcement = False,
       ds_tags = [], ds_category = ''general'', ds_created = ci_now i, ds_updated = ci_now i\<rparr>"

definition Resonate :: "club_env \<Rightarrow> int \<Rightarrow> string \<Rightarrow> bool \<Rightarrow> (club_db, unit) dbm" where
  "Resonate env now t positive = ResonateThread env now t (if positive then 1 else -1)"

definition ReplyToThread :: "club_env \<Rightarrow> club_input \<Rightarrow> string \<Rightarrow> string \<Rightarrow> string \<Rightarrow> (club_db, thread_reply) dbm" where
  "ReplyToThread env i t u content =
     CreateThreadReply env i \<lparr>trp_id = ce_show env (ci_uuid i), trp_thread = t, trp_author = u, trp_content = ce_sanitize env content,
       trp_parent = None, trp_created = ci_now i\<rparr>"

section \<open>Handlers\<close>

datatype club_body =
    ClError string
  | ClMessage string
  | ClCommunity community
  | ClCommunities "community list"
  | ClMembers "community_member list"
  | ClGuidelines "guideline list"
  | ClAnalytics club_analytics
  | ClEvent event
  | ClEvents "event list"
  | ClCollective collective
  | ClCollectives "collective list"
  | ClThread discussion
  | ClThreads "discussion list"
  | ClReply thread_reply
  | ClReplies "thread_reply list"
  | ClSubscription subscription
  | ClSubscriptions "subscription list"

type_synonym club_answer = "int \<times> club_body"
type_synonym club_op = "(club_db, club_answer) dbm"

definition club_failed :: club_answer where "club_failed = (500, ClError ''request failed'')"
definition club_bad :: club_answer where "club_bad = (400, ClError ''bad request'')"
definition club_forbidden :: club_answer where "club_forbidden = (403, ClError ''forbidden'')"
definition club_unauthorized :: club_answer where "club_unauthorized = (401, ClError ''unauthorized'')"

definition as_user :: "string \<Rightarrow> club_op \<Rightarrow> club_op" where
  "as_user u k = (if trim_space u = [] then dreturn club_unauthorized else k)"

definition or_fail :: "(club_db, 'a) dbm \<Rightarrow> ('a \<Rightarrow> club_op) \<Rightarrow> club_op" where
  "or_fail m k = dreply m (\<lambda>_. club_failed) k"

definition with_body :: "'a option \<Rightarrow> ('a \<Rightarrow> club_op) \<Rightarrow> club_op" where
  "with_body b k = (case b of None \<Rightarrow> dreturn club_bad | Some x \<Rightarrow> k x)"

definition done_with :: "(club_db, unit) dbm \<Rightarrow> string \<Rightarrow> club_op" where
  "done_with m text = or_fail m (\<lambda>_. dreturn (200, ClMessage text))"

text \<open>The limit and the offset of a request; a parameter that is missing has its default.\<close>

definition pageArgs :: "string \<times> string \<Rightarrow> int \<Rightarrow> int \<times> int" where
  "pageArgs q n =
     (let l = (if fst q = [] then n else atoi (fst q)); k = (if snd q = [] then 0 else atoi (snd q))
      in (wrap32 (if l \<le> 0 \<or> 100 < l then n else l), wrap32 (max 0 k)))"

definition if_seen :: "club_env \<Rightarrow> string \<Rightarrow> string \<Rightarrow> club_op \<Rightarrow> club_op" where
  "if_seen env u c k = or_fail (CanViewCommunity env u c) (\<lambda>v. if v then k else dreturn club_forbidden)"

text \<open>The community of the path when the caller owns it.\<close>

definition own_club :: "club_env \<Rightarrow> string \<Rightarrow> string \<Rightarrow> (community \<Rightarrow> club_op) \<Rightarrow> club_op" where
  "own_club env u c k = or_fail (GetCommunity env c) (\<lambda>v. if com_owner v \<noteq> u then dreturn club_forbidden else k v)"

definition handle_list_clubs :: "club_env \<Rightarrow> string \<Rightarrow> string \<Rightarrow> string \<times> string \<Rightarrow> club_op" where
  "handle_list_clubs env u category q =
     as_user u (let (l, k) = pageArgs q 20 in or_fail (ListCommunities env u category l k) (\<lambda>v. dreturn (200, ClCommunities v)))"

definition handle_club :: "club_env \<Rightarrow> string \<Rightarrow> string \<Rightarrow> club_op" where
  "handle_club env u c = as_user u (or_fail (GetCommunity env c) (\<lambda>v. if_seen env u c (dreturn (200, ClCommunity v))))"

definition handle_create_club :: "club_env \<Rightarrow> club_input \<Rightarrow> string \<Rightarrow> (string \<times> string \<times> bool) option \<Rightarrow> club_op" where
  "handle_create_club env i u b =
     as_user u (with_body b (\<lambda>(name, desc, private).
       or_fail (CreateGroup env i u name desc private) (\<lambda>v. dreturn (201, ClCommunity v))))"

definition handle_join :: "club_env \<Rightarrow> club_input \<Rightarrow> string \<Rightarrow> string \<Rightarrow> club_op" where
  "handle_join env i u c =
     as_user u (or_fail (GetCommunity env c) (\<lambda>v.
       if com_private v \<and> com_owner v \<noteq> u then dreturn club_forbidden
       else done_with (JoinCommunity env (ci_now i) c u ''member'') ''joined''))"

definition handle_leave :: "club_env \<Rightarrow> string \<Rightarrow> string \<Rightarrow> club_op" where
  "handle_leave env u c = as_user u (done_with (LeaveCommunity env c u) ''left'')"

definition handle_settings :: "club_env \<Rightarrow> club_input \<Rightarrow> string \<Rightarrow> string \<Rightarrow> club_settings option \<Rightarrow> club_op" where
  "handle_settings env i u c b =
     as_user u (own_club env u c (\<lambda>v. with_body b (\<lambda>s. let v = v\<lparr>com_settings := s\<rparr>
       in or_fail (UpdateCommunity env (ci_now i) c v) (\<lambda>_. dreturn (200, ClCommunity v)))))"

definition handle_guidelines :: "club_env \<Rightarrow> string \<Rightarrow> string \<Rightarrow> club_op" where
  "handle_guidelines env u c =
     as_user u (if_seen env u c (or_fail (GetCommunityGuidelines env c) (\<lambda>v. dreturn (200, ClGuidelines v))))"

definition handle_set_guidelines :: "club_env \<Rightarrow> club_input \<Rightarrow> string \<Rightarrow> string \<Rightarrow> guideline option list option \<Rightarrow> club_op" where
  "handle_set_guidelines env i u c b =
     as_user u (own_club env u c (\<lambda>_. with_body b (\<lambda>gs. done_with (UpdateGuidelines env i c gs) ''updated'')))"

definition handle_members :: "club_env \<Rightarrow> string \<Rightarrow> string \<Rightarrow> string \<Rightarrow> string \<times> string \<Rightarrow> club_op" where
  "handle_members env u c role q =
     as_user u (if_seen env u c (let (l, k) = pageArgs q 50
       in or_fail (GetCommunityMembers env c role l k) (\<lambda>v. dreturn (200, ClMembers v))))"

definition handle_role :: "club_env \<Rightarrow> string \<Rightarrow> string \<Rightarrow> string \<Rightarrow> string option \<Rightarrow> club_op" where
  "handle_role env u c m b =
     as_user u (own_club env u c (\<lambda>_. with_body b (\<lambda>role.
       if trim_space role = [] then dreturn club_bad else done_with (UpdateMemberRole env c m role) ''role updated'')))"

definition handle_ban :: "club_env \<Rightarrow> string \<Rightarrow> string \<Rightarrow> string \<Rightarrow> string option \<Rightarrow> club_op" where
  "handle_ban env u c m b = as_user u (own_club env u c (\<lambda>_. with_body b (\<lambda>reason. done_with (BanMember env c m) ''member banned'')))"

definition handle_unban :: "club_env \<Rightarrow> string \<Rightarrow> string \<Rightarrow> string \<Rightarrow> club_op" where
  "handle_unban env u c m = as_user u (own_club env u c (\<lambda>_. done_with (UnbanMember env c m) ''member unbanned''))"

definition handle_club_analytics :: "club_env \<Rightarrow> club_input \<Rightarrow> string \<Rightarrow> string \<Rightarrow> string \<Rightarrow> club_op" where
  "handle_club_analytics env i u c period =
     as_user u (own_club env u c (\<lambda>_.
       or_fail (GetCommunityAnalytics env (ci_now i) c (if period = [] then ''30d'' else period)) (\<lambda>v. dreturn (200, ClAnalytics v))))"
definition parseFlexibleTime :: "club_env \<Rightarrow> string \<Rightarrow> int option" where
  "parseFlexibleTime env v =
     (if v = [] then None else (case parse_int 64 v of Some x \<Rightarrow> Some (x * 1000000000) | None \<Rightarrow> ce_time env v))"

definition handle_events :: "club_env \<Rightarrow> club_input \<Rightarrow> string \<Rightarrow> string \<Rightarrow> string \<Rightarrow> string \<times> string \<Rightarrow> club_op" where
  "handle_events env i u c status q =
     (let (l, k) = pageArgs q 20
      in as_user u (or_fail (ListEvents env (ci_now i) (if c = [] then None else Some c) u status l k) (\<lambda>v. dreturn (200, ClEvents v))))"

definition handle_upcoming :: "club_env \<Rightarrow> club_input \<Rightarrow> string \<Rightarrow> string \<times> string \<Rightarrow> club_op" where
  "handle_upcoming env i u q =
     as_user u (or_fail (GetUpcomingEvents env (ci_now i) u (fst (pageArgs q 20))) (\<lambda>v. dreturn (200, ClEvents v)))"

text \<open>The body has the community, the title, the description, the start, the end and the status.\<close>

definition handle_create_event ::
  "club_env \<Rightarrow> club_input \<Rightarrow> string \<Rightarrow> (string option \<times> string \<times> string \<times> string \<times> string \<times> string) option \<Rightarrow> club_op" where
  "handle_create_event env i u b =
     as_user u (with_body b (\<lambda>(c, title, desc, start, finish, status).
       case parseFlexibleTime env start of None \<Rightarrow> dreturn club_bad | Some t1 \<Rightarrow>
       case parseFlexibleTime env finish of None \<Rightarrow> dreturn club_bad | Some t2 \<Rightarrow>
       or_fail (OrganizeEvent env i \<lparr>evt_id = [], evt_creator = u, evt_club = c, evt_title = title, evt_desc = desc, evt_start = t1,
         evt_end = t2, evt_status = status, evt_created = zero_instant, evt_updated = zero_instant\<rparr>) (\<lambda>v. dreturn (201, ClEvent v))))"

definition handle_rsvp :: "club_env \<Rightarrow> club_input \<Rightarrow> string \<Rightarrow> string \<Rightarrow> string option \<Rightarrow> club_op" where
  "handle_rsvp env i u e b =
     as_user u (with_body b (\<lambda>status.
       done_with (RSVP env (ci_now i) e u (if status = [] then ''attending'' else status)) ''rsvp recorded''))"

definition handle_cancel_event :: "club_env \<Rightarrow> club_input \<Rightarrow> string \<Rightarrow> string \<Rightarrow> club_op" where
  "handle_cancel_event env i u e =
     as_user u (or_fail (GetEvent env e) (\<lambda>v.
       if evt_creator v \<noteq> u then dreturn club_forbidden else done_with (CancelEvent env (ci_now i) e) ''cancelled''))"

text \<open>Some handlers do not look at the user.\<close>

definition handle_collectives :: "club_env \<Rightarrow> string \<times> string \<Rightarrow> club_op" where
  "handle_collectives env q = (let (l, k) = pageArgs q 20 in or_fail (GetCollectives env l k) (\<lambda>v. dreturn (200, ClCollectives v)))"

definition handle_create_collective :: "club_env \<Rightarrow> club_input \<Rightarrow> (string \<times> string \<times> string) option \<Rightarrow> club_op" where
  "handle_create_collective env i b =
     with_body b (\<lambda>(name, desc, icon). or_fail (FormCollective env i name desc icon) (\<lambda>v. dreturn (201, ClCollective v)))"

definition handle_join_collective :: "club_env \<Rightarrow> club_input \<Rightarrow> string \<Rightarrow> string \<Rightarrow> club_op" where
  "handle_join_collective env i u c = as_user u (done_with (JoinCollective env (ci_now i) c u) ''joined'')"

definition handle_threads :: "club_env \<Rightarrow> string \<Rightarrow> string \<times> string \<Rightarrow> club_op" where
  "handle_threads env c q = (let (l, k) = pageArgs q 20 in or_fail (GetThreads env c l k) (\<lambda>v. dreturn (200, ClThreads v)))"

definition handle_create_thread :: "club_env \<Rightarrow> club_input \<Rightarrow> string \<Rightarrow> string \<Rightarrow> (string \<times> string) option \<Rightarrow> club_op" where
  "handle_create_thread env i u c b =
     as_user u (with_body b (\<lambda>(title, content). or_fail (StartThread env i c u title content) (\<lambda>v. dreturn (201, ClThread v))))"

definition handle_resonate :: "club_env \<Rightarrow> club_input \<Rightarrow> string \<Rightarrow> int option \<Rightarrow> club_op" where
  "handle_resonate env i t b =
     with_body b (\<lambda>delta. if delta \<noteq> 1 \<and> delta \<noteq> -1 then dreturn club_bad
       else done_with (Resonate env (ci_now i) t (0 < delta)) ''resonance updated'')"

definition handle_replies :: "club_env \<Rightarrow> string \<Rightarrow> string \<times> string \<Rightarrow> club_op" where
  "handle_replies env t q = (let (l, k) = pageArgs q 50 in or_fail (GetThreadReplies env t l k) (\<lambda>v. dreturn (200, ClReplies v)))"

definition handle_reply :: "club_env \<Rightarrow> club_input \<Rightarrow> string \<Rightarrow> string \<Rightarrow> (string \<times> string option) option \<Rightarrow> club_op" where
  "handle_reply env i u t b =
     as_user u (with_body b (\<lambda>(content, parent).
       or_fail (ReplyToThread env i t u content) (\<lambda>v. dreturn (201, ClReply (v\<lparr>trp_parent := parent\<rparr>)))))"

definition handle_pin :: "club_env \<Rightarrow> club_input \<Rightarrow> string \<Rightarrow> bool option \<Rightarrow> club_op" where
  "handle_pin env i t b = with_body b (\<lambda>pinned. done_with (PinThread env (ci_now i) t pinned) ''pin updated'')"

definition handle_lock :: "club_env \<Rightarrow> club_input \<Rightarrow> string \<Rightarrow> bool option \<Rightarrow> club_op" where
  "handle_lock env i t b = with_body b (\<lambda>locked. done_with (LockThread env (ci_now i) t locked) ''lock updated'')"

definition handle_subscriptions :: "club_env \<Rightarrow> club_input \<Rightarrow> string \<Rightarrow> club_op" where
  "handle_subscriptions env i u =
     as_user u (or_fail (GetUserSubscriptions env (ci_now i) u) (\<lambda>v. dreturn (200, ClSubscriptions v)))"

definition handle_subscribe :: "club_env \<Rightarrow> club_input \<Rightarrow> string \<Rightarrow> (string \<times> string) option \<Rightarrow> club_op" where
  "handle_subscribe env i u b =
     as_user u (with_body b (\<lambda>(creator, tier).
       if creator = [] \<or> tier = [] then dreturn club_bad
       else or_fail (SubscribeToCreator env i u creator tier (ce_show env (ci_uuid i))) (\<lambda>_.
            or_fail (GetSubscription env (ci_now i) (ce_show env (ci_uuid i))) (\<lambda>v. dreturn (201, ClSubscription v)))))"

text \<open>The subscription of the path when it is the caller's.\<close>

definition own_subscription :: "club_env \<Rightarrow> club_input \<Rightarrow> string \<Rightarrow> string \<Rightarrow> club_op \<Rightarrow> club_op" where
  "own_subscription env i u s k =
     or_fail (GetSubscription env (ci_now i) s) (\<lambda>v. if sub_user v \<noteq> u then dreturn club_forbidden else k)"

definition handle_cancel_subscription :: "club_env \<Rightarrow> club_input \<Rightarrow> string \<Rightarrow> string \<Rightarrow> club_op" where
  "handle_cancel_subscription env i u s =
     as_user u (own_subscription env i u s (done_with (repo_CancelSubscription env s) ''cancelled''))"

definition handle_tier :: "club_env \<Rightarrow> club_input \<Rightarrow> string \<Rightarrow> string \<Rightarrow> string option \<Rightarrow> club_op" where
  "handle_tier env i u s b =
     as_user u (own_subscription env i u s (with_body b (\<lambda>tier.
       if tier = [] then dreturn club_bad else done_with (repo_UpdateSubscription env s tier) ''updated'')))"

datatype club_call =
    ListClubsReq string "string \<times> string"
  | ClubReq string
  | CreateClubReq "(string \<times> string \<times> bool) option"
  | JoinReq string
  | LeaveReq string
  | SettingsReq string "club_settings option"
  | GuidelinesReq string
  | SetGuidelinesReq string "guideline option list option"
  | MembersReq string string "string \<times> string"
  | RoleReq string string "string option"
  | BanReq string string "string option"
  | UnbanReq string string
  | ClubAnalyticsReq string string
  | EventsReq string string "string \<times> string"
  | UpcomingReq "string \<times> string"
  | CreateEventReq "(string option \<times> string \<times> string \<times> string \<times> string \<times> string) option"
  | RsvpReq string "string option"
  | CancelEventReq string
  | CollectivesReq "string \<times> string"
  | CreateCollectiveReq "(string \<times> string \<times> string) option"
  | JoinCollectiveReq string
  | ThreadsReq string "string \<times> string"
  | CreateThreadReq string "(string \<times> string) option"
  | ResonateReq string "int option"
  | RepliesReq string "string \<times> string"
  | ReplyReq string "(string \<times> string option) option"
  | PinReq string "bool option"
  | LockReq string "bool option"
  | SubscriptionsReq
  | SubscribeReq "(string \<times> string) option"
  | CancelSubscriptionReq string
  | TierReq string "string option"

fun handle_community :: "club_env \<Rightarrow> club_input \<Rightarrow> string \<Rightarrow> club_call \<Rightarrow> club_op" where
  "handle_community env i u (ListClubsReq category q) = handle_list_clubs env u category q"
| "handle_community env i u (ClubReq c) = handle_club env u c"
| "handle_community env i u (CreateClubReq b) = handle_create_club env i u b"
| "handle_community env i u (JoinReq c) = handle_join env i u c"
| "handle_community env i u (LeaveReq c) = handle_leave env u c"
| "handle_community env i u (SettingsReq c b) = handle_settings env i u c b"
| "handle_community env i u (GuidelinesReq c) = handle_guidelines env u c"
| "handle_community env i u (SetGuidelinesReq c b) = handle_set_guidelines env i u c b"
| "handle_community env i u (MembersReq c role q) = handle_members env u c role q"
| "handle_community env i u (RoleReq c m b) = handle_role env u c m b"
| "handle_community env i u (BanReq c m b) = handle_ban env u c m b"
| "handle_community env i u (UnbanReq c m) = handle_unban env u c m"
| "handle_community env i u (ClubAnalyticsReq c period) = handle_club_analytics env i u c period"
| "handle_community env i u (EventsReq c status q) = handle_events env i u c status q"
| "handle_community env i u (UpcomingReq q) = handle_upcoming env i u q"
| "handle_community env i u (CreateEventReq b) = handle_create_event env i u b"
| "handle_community env i u (RsvpReq e b) = handle_rsvp env i u e b"
| "handle_community env i u (CancelEventReq e) = handle_cancel_event env i u e"
| "handle_community env i u (CollectivesReq q) = handle_collectives env q"
| "handle_community env i u (CreateCollectiveReq b) = handle_create_collective env i b"
| "handle_community env i u (JoinCollectiveReq c) = handle_join_collective env i u c"
| "handle_community env i u (ThreadsReq c q) = handle_threads env c q"
| "handle_community env i u (CreateThreadReq c b) = handle_create_thread env i u c b"
| "handle_community env i u (ResonateReq t b) = handle_resonate env i t b"
| "handle_community env i u (RepliesReq t q) = handle_replies env t q"
| "handle_community env i u (ReplyReq t b) = handle_reply env i u t b"
| "handle_community env i u (PinReq t b) = handle_pin env i t b"
| "handle_community env i u (LockReq t b) = handle_lock env i t b"
| "handle_community env i u SubscriptionsReq = handle_subscriptions env i u"
| "handle_community env i u (SubscribeReq b) = handle_subscribe env i u b"
| "handle_community env i u (CancelSubscriptionReq s) = handle_cancel_subscription env i u s"
| "handle_community env i u (TierReq s b) = handle_tier env i u s b"

fun run_community ::
  "club_env \<Rightarrow> (club_input \<times> outcome list \<times> string \<times> club_call) list \<Rightarrow> club_db session \<Rightarrow> club_db session" where
  "run_community env [] s = s"
| "run_community env ((i, outs, u, c) # cs) s = run_community env cs (snd (handle_community env i u c (s\<lparr>outcomes := outs\<rparr>)))"
section \<open>Who may change what\<close>

definition club_core :: "club_row \<Rightarrow> uuid \<times> uuid \<times> bool" where
  "club_core c = (cl_id c, cl_owner c, cl_private c)"

definition owned :: "club_db \<Rightarrow> uuid option \<Rightarrow> uuid set" where
  "owned d u = {k. \<exists>o' p. (k, o', p) \<in> club_core ` set (clubs d) \<and> Some o' = u}"

definition public_club :: "club_db \<Rightarrow> uuid \<Rightarrow> bool" where
  "public_club d k \<longleftrightarrow> (\<exists>o'. (k, o', False) \<in> club_core ` set (clubs d))"

text \<open>The memberships out of a user's reach: in communities of others, those of others and the user's own if banned.\<close>

definition out_of_reach :: "club_db \<Rightarrow> uuid option \<Rightarrow> member_row \<Rightarrow> bool" where
  "out_of_reach d u m \<longleftrightarrow> mb_club m \<notin> owned d u \<and> (Some (mb_user m) \<noteq> u \<or> mb_role m = ''banned'')"

text \<open>A membership after a request: an old one, one that the owner has changed, or the user's own.\<close>

definition member_from :: "uuid option \<Rightarrow> club_db \<Rightarrow> club_db \<Rightarrow> member_row \<Rightarrow> bool" where
  "member_from u d d' m \<longleftrightarrow> m \<in> set (memberships d) \<or>
     (mb_club m \<in> owned d' u \<and> mb_key m \<in> mb_key ` set (memberships d)) \<or>
     (Some (mb_user m) = u \<and> (mb_club m \<in> owned d' u \<or> public_club d' (mb_club m)))"

text \<open>A thread without what everybody may change.\<close>

definition th_frame :: "thread_row \<Rightarrow> thread_row" where
  "th_frame t = t\<lparr>th_resonance := 0, th_pinned := False, th_locked := False, th_updated := 0\<rparr>"

definition club_keys :: "club_db \<Rightarrow> bool" where
  "club_keys d \<longleftrightarrow> distinct (map cl_id (clubs d)) \<and> distinct (map pr_id (proposals d)) \<and> distinct (map su_id (subscriptions d))"

text \<open>
  The specification of a request of the user \<open>u\<close>. Communities, events, subscriptions, attendances, collective memberships
  and replies of others stay; nobody's community changes its owner or its privacy; in communities of others the user touches
  only the user's own membership, and not once it is banned; guidelines are the owners'; threads of others keep their text.
\<close>

definition club_within :: "bool \<Rightarrow> uuid option \<Rightarrow> club_db \<Rightarrow> club_db \<Rightarrow> bool" where
  "club_within key u d d' \<longleftrightarrow>
     people d' = people d \<and> (\<exists>new. map club_core (clubs d') = map club_core (clubs d) @ new) \<and>
     rest_of u cl_owner (clubs d') = rest_of u cl_owner (clubs d) \<and>
     filter (out_of_reach d' u) (memberships d') = filter (out_of_reach d' u) (memberships d) \<and>
     list_all (member_from u d d') (memberships d') \<and>
     filter (\<lambda>g. gl_club g \<notin> owned d' u) (guidelines d') = filter (\<lambda>g. gl_club g \<notin> owned d' u) (guidelines d) \<and>
     rest_of u pr_proposer (proposals d') = rest_of u pr_proposer (proposals d) \<and>
     rest_of u (\<lambda>a. snd (fst a)) (attendees d') = rest_of u (\<lambda>a. snd (fst a)) (attendees d) \<and>
     rest_of u (\<lambda>m. snd (fst m)) (collective_members d') = rest_of u (\<lambda>m. snd (fst m)) (collective_members d) \<and>
     (\<exists>new. collectives d' = collectives d @ new) \<and>
     map th_frame (rest_of u th_author (threads d')) = map th_frame (rest_of u th_author (threads d)) \<and>
     rest_of u re_author (replies d') = rest_of u re_author (replies d) \<and>
     rest_of u su_user (subscriptions d') = rest_of u su_user (subscriptions d) \<and>
     (club_keys d \<longrightarrow> club_keys d') \<and>
     (key \<longrightarrow> distinct (map mb_key (memberships d)) \<longrightarrow> distinct (map mb_key (memberships d')))"

lemma core_grows:
  assumes "club_within key u d d'"
  shows "club_core ` set (clubs d) \<subseteq> club_core ` set (clubs d')"
proof -
  from assms obtain new where "map club_core (clubs d') = map club_core (clubs d) @ new" unfolding club_within_def by (elim conjE exE)
  then have "set (map club_core (clubs d')) = set (map club_core (clubs d) @ new)" by (simp only:)
  then show ?thesis by auto
qed

lemma owned_grows: "club_within key u d d' \<Longrightarrow> owned d v \<subseteq> owned d' v"
  using core_grows by (fastforce simp: owned_def)

lemma public_stays: "club_within key u d d' \<Longrightarrow> public_club d k \<Longrightarrow> public_club d' k"
  using core_grows by (fastforce simp: public_club_def)

lemma filter_coarser: "(\<And>x. Q x \<Longrightarrow> P x) \<Longrightarrow> filter P xs = filter P ys \<Longrightarrow> filter Q xs = filter Q ys"
proof -
  assume QP: "\<And>x. Q x \<Longrightarrow> P x" and eq: "filter P xs = filter P ys"
  have "filter Q zs = filter Q (filter P zs)" for zs by (induction zs) (auto dest: QP)
  then show ?thesis using eq by metis
qed

lemma within_members: "club_within key u d d' \<Longrightarrow> m \<in> set (memberships d') \<Longrightarrow> member_from u d d' m"
  unfolding club_within_def list_all_iff by (elim conjE) (erule (1) bspec)

lemma member_from_trans:
  assumes 1: "club_within key u d d'" and 2: "club_within key u d' d''" and m: "m \<in> set (memberships d'')"
  shows "member_from u d d'' m"
proof -
  have old: "member_from u d d'' m'" if "m' \<in> set (memberships d')" for m'
    using within_members [OF 1 that] owned_grows [OF 2, of u] public_stays [OF 2, of "mb_club m'"]
    unfolding member_from_def by blast
  from within_members [OF 2 m] have "member_from u d' d'' m" .
  then consider "m \<in> set (memberships d')" | m' where "mb_club m \<in> owned d'' u" "m' \<in> set (memberships d')" "mb_key m = mb_key m'"
    | "Some (mb_user m) = u" "mb_club m \<in> owned d'' u \<or> public_club d'' (mb_club m)"
    unfolding member_from_def by blast
  then show ?thesis
  proof cases
    case 1
    then show ?thesis by (rule old)
  next
    case 2
    from old [OF 2(2)] 2(1,3) show ?thesis by (force simp: member_from_def mb_key_def)
  next
    case 3
    then show ?thesis by (simp add: member_from_def)
  qed
qed

lemma club_within_refl: "club_within key u d d"
  by (simp add: club_within_def list_all_iff member_from_def)

lemma club_within_trans:
  assumes "club_within key u d d'" and "club_within key u d' d''"
  shows "club_within key u d d''"
proof -
  note 1 = assms(1) [unfolded club_within_def] and 2 = assms(2) [unfolded club_within_def]
  have core: "\<exists>new. map club_core (clubs d'') = map club_core (clubs d) @ new"
  proof -
    from 1 obtain n1 where "map club_core (clubs d') = map club_core (clubs d) @ n1" by (elim conjE exE)
    moreover from 2 obtain n2 where "map club_core (clubs d'') = map club_core (clubs d') @ n2" by (elim conjE exE)
    ultimately show ?thesis by simp
  qed
  have collectives: "\<exists>new. collectives d'' = collectives d @ new"
  proof -
    from 1 obtain n1 where "collectives d' = collectives d @ n1" by (elim conjE exE)
    moreover from 2 obtain n2 where "collectives d'' = collectives d' @ n2" by (elim conjE exE)
    ultimately show ?thesis by simp
  qed
  have own: "owned d' u \<subseteq> owned d'' u" using assms(2) by (rule owned_grows)
  have members: "filter (out_of_reach d'' u) (memberships d'') = filter (out_of_reach d'' u) (memberships d)"
  proof -
    have "filter (out_of_reach d' u) (memberships d') = filter (out_of_reach d' u) (memberships d)" using 1 by (elim conjE)
    then have "filter (out_of_reach d'' u) (memberships d') = filter (out_of_reach d'' u) (memberships d)"
      by (rule filter_coarser [rotated]) (use own in \<open>auto simp: out_of_reach_def\<close>)
    moreover have "filter (out_of_reach d'' u) (memberships d'') = filter (out_of_reach d'' u) (memberships d')" using 2 by (elim conjE)
    ultimately show ?thesis by simp
  qed
  have rules: "filter (\<lambda>g. gl_club g \<notin> owned d'' u) (guidelines d'') = filter (\<lambda>g. gl_club g \<notin> owned d'' u) (guidelines d)"
  proof -
    have "filter (\<lambda>g. gl_club g \<notin> owned d' u) (guidelines d') = filter (\<lambda>g. gl_club g \<notin> owned d' u) (guidelines d)" using 1 by (elim conjE)
    then have "filter (\<lambda>g. gl_club g \<notin> owned d'' u) (guidelines d') = filter (\<lambda>g. gl_club g \<notin> owned d'' u) (guidelines d)"
      by (rule filter_coarser [rotated]) (use own in auto)
    moreover have "filter (\<lambda>g. gl_club g \<notin> owned d'' u) (guidelines d'') = filter (\<lambda>g. gl_club g \<notin> owned d'' u) (guidelines d')"
      using 2 by (elim conjE)
    ultimately show ?thesis by simp
  qed
  have all: "list_all (member_from u d d'') (memberships d'')"
    unfolding list_all_iff by (intro ballI member_from_trans [OF assms])
  show ?thesis
    unfolding club_within_def
    by (intro conjI core collectives members rules all impI) (use 1 2 in \<open>(elim conjE, simp only: simp_thms)+\<close>)
qed

interpretation community: evolution "club_within key u" for key u
  by unfold_locales (auto intro: club_within_refl club_within_trans)
text \<open>A change of one table is within the specification when that table is.\<close>

lemma within_clubs:
  assumes "\<exists>new. map club_core cs = map club_core (clubs d) @ new" and "rest_of u cl_owner cs = rest_of u cl_owner (clubs d)"
    and "distinct (map cl_id (clubs d)) \<Longrightarrow> distinct (map cl_id cs)"
  shows "club_within key u d (d\<lparr>clubs := cs\<rparr>)"
  using assms by (simp add: club_within_def list_all_iff member_from_def club_keys_def)

lemma owned_other [simp]:
  "owned (d\<lparr>memberships := ms\<rparr>) u = owned d u" "public_club (d\<lparr>memberships := ms\<rparr>) k = public_club d k"
  "out_of_reach (d\<lparr>memberships := ms\<rparr>) u = out_of_reach d u" "owned (d\<lparr>guidelines := gs\<rparr>) u = owned d u"
  by (simp_all add: owned_def public_club_def fun_eq_iff out_of_reach_def)

lemma within_memberships:
  assumes "filter (out_of_reach d u) ms = filter (out_of_reach d u) (memberships d)"
    and "\<And>m. m \<in> set ms \<Longrightarrow> m \<in> set (memberships d) \<or> (mb_club m \<in> owned d u \<and> mb_key m \<in> mb_key ` set (memberships d)) \<or>
      (Some (mb_user m) = u \<and> (mb_club m \<in> owned d u \<or> public_club d (mb_club m)))"
    and "key \<Longrightarrow> distinct (map mb_key (memberships d)) \<Longrightarrow> distinct (map mb_key ms)"
  shows "club_within key u d (d\<lparr>memberships := ms\<rparr>)"
  using assms by (simp add: club_within_def list_all_iff member_from_def club_keys_def)

lemma within_guidelines:
  assumes "filter (\<lambda>g. gl_club g \<notin> owned d u) gs = filter (\<lambda>g. gl_club g \<notin> owned d u) (guidelines d)"
  shows "club_within key u d (d\<lparr>guidelines := gs\<rparr>)"
  using assms by (simp add: club_within_def list_all_iff member_from_def club_keys_def)

lemma within_proposals:
  assumes "rest_of u pr_proposer ps = rest_of u pr_proposer (proposals d)"
    and "distinct (map pr_id (proposals d)) \<Longrightarrow> distinct (map pr_id ps)"
  shows "club_within key u d (d\<lparr>proposals := ps\<rparr>)"
  using assms by (simp add: club_within_def list_all_iff member_from_def club_keys_def)

lemma within_subscriptions:
  assumes "rest_of u su_user ss = rest_of u su_user (subscriptions d)"
    and "distinct (map su_id (subscriptions d)) \<Longrightarrow> distinct (map su_id ss)"
  shows "club_within key u d (d\<lparr>subscriptions := ss\<rparr>)"
  using assms by (simp add: club_within_def list_all_iff member_from_def club_keys_def)

lemma within_others:
  "rest_of u (\<lambda>a. snd (fst a)) as = rest_of u (\<lambda>a. snd (fst a)) (attendees d) \<Longrightarrow> club_within key u d (d\<lparr>attendees := as\<rparr>)"
  "rest_of u (\<lambda>m. snd (fst m)) cms = rest_of u (\<lambda>m. snd (fst m)) (collective_members d) \<Longrightarrow> club_within key u d (d\<lparr>collective_members := cms\<rparr>)"
  "club_within key u d (d\<lparr>collectives := collectives d @ cs\<rparr>)"
  "map th_frame (rest_of u th_author ts) = map th_frame (rest_of u th_author (threads d)) \<Longrightarrow> club_within key u d (d\<lparr>threads := ts\<rparr>)"
  "rest_of u re_author rs = rest_of u re_author (replies d) \<Longrightarrow> club_within key u d (d\<lparr>replies := rs\<rparr>)"
  by (simp_all add: club_within_def list_all_iff member_from_def club_keys_def)

section \<open>Statements within the specification\<close>

lemma inserted: "sql_insert k r t = Inr t' \<Longrightarrow> t' = t @ [r] \<and> k r \<notin> k ` set t"
  by (simp add: sql_insert_def split: if_splits)

lemma create_club_within:
  assumes "create_club_stmt i owner name desc avatar private d = Inr (r, d')"
  shows "club_within key (Some owner) d d' \<and> cl_owner r = owner \<and> cl_private r = private \<and> r \<in> set (clubs d') \<and>
    (\<forall>x\<in>set (clubs d'). cl_id x = cl_id r \<longrightarrow> x = r)"
proof -
  from assms obtain cs where cs: "sql_insert cl_id r (clubs d) = Inr cs" "d' = d\<lparr>clubs := cs\<rparr>" and r: "cl_owner r = owner" "cl_private r = private"
    by (auto simp: create_club_stmt_def Let_def split: sum.splits)
  from inserted [OF cs(1)] have new: "cs = clubs d @ [r]" "cl_id r \<notin> cl_id ` set (clubs d)" by auto
  then have "club_within key (Some owner) d d'"
    unfolding cs(2) using r by (intro within_clubs) auto
  moreover have "x = r" if "x \<in> set cs" "cl_id x = cl_id r" for x using that new by (auto simp: image_iff)
  ultimately show ?thesis using new r by (auto simp: cs(2))
qed

text \<open>An update of the communities with one identifier that keeps owner and privacy, by the owner of all of them.\<close>

lemma update_clubs_within:
  assumes own: "\<And>x. x \<in> set (clubs d) \<Longrightarrow> cl_id x = c \<Longrightarrow> Some (cl_owner x) = u"
    and core: "\<And>x. x \<in> set (clubs d) \<Longrightarrow> cl_id x = c \<Longrightarrow> club_core (f x) = club_core x"
  shows "club_within key u d (d\<lparr>clubs := sql_update (\<lambda>x. cl_id x = c) f (clubs d)\<rparr>)"
proof (rule within_clubs)
  have core': "map club_core (sql_update (\<lambda>x. cl_id x = c) f cs) = map club_core cs" if "set cs \<subseteq> set (clubs d)" for cs
    using that core by (induction cs) (auto simp: sql_update_def)
  then show "\<exists>new. map club_core (sql_update (\<lambda>x. cl_id x = c) f (clubs d)) = map club_core (clubs d) @ new" by simp
  have "rest_of u cl_owner (sql_update (\<lambda>x. cl_id x = c) f cs) = rest_of u cl_owner cs" if "set cs \<subseteq> set (clubs d)" for cs
    using that
  proof (induction cs)
    case (Cons x cs)
    then have "cl_id x = c \<Longrightarrow> cl_owner (f x) = cl_owner x" using core [of x] by (simp add: club_core_def)
    with Cons own [of x] show ?case by (auto simp: sql_update_def)
  qed (simp add: sql_update_def)
  then show "rest_of u cl_owner (sql_update (\<lambda>x. cl_id x = c) f (clubs d)) = rest_of u cl_owner (clubs d)" by simp
  have "map cl_id xs = map fst (map club_core xs)" for xs by (induction xs) (simp_all add: club_core_def)
  then show "distinct (map cl_id (clubs d)) \<Longrightarrow> distinct (map cl_id (sql_update (\<lambda>x. cl_id x = c) f (clubs d)))"
    using core' [of "clubs d"] by (metis subset_refl)
qed

lemma join_within:
  assumes "join_stmt env now c v role d = Inr (x, d')" and "u = Some v" and "c \<in> owned d u \<or> (public_club d c \<and> role \<noteq> ''banned'')"
  shows "club_within (ce_member_key env) u d d'"
proof -
  from assms(1) have key: "ce_member_key env \<Longrightarrow> (c, v) \<notin> mb_key ` set (memberships d)"
    and d': "d' = d\<lparr>memberships := memberships d @ [\<lparr>mb_club = c, mb_user = v, mb_role = role, mb_joined = now\<rparr>]\<rparr>"
    by (auto simp: join_stmt_def split: if_splits)
  show ?thesis
    unfolding d'
  proof (rule within_memberships)
    show "filter (out_of_reach d u) (memberships d @ [\<lparr>mb_club = c, mb_user = v, mb_role = role, mb_joined = now\<rparr>]) =
        filter (out_of_reach d u) (memberships d)"
      using assms(2,3) by (auto simp: out_of_reach_def)
  qed (use assms(2,3) key in \<open>auto simp: mb_key_def\<close>)
qed

lemma leave_within:
  assumes "leave_stmt c v d = Inr (x, d')" and "u = Some v"
  shows "club_within key u d d'"
proof -
  from assms(1) have d': "d' = d\<lparr>memberships := sql_delete (\<lambda>m. mb_key m = (c, v) \<and> mb_role m \<noteq> ''banned'') (memberships d)\<rparr>"
    by (auto simp: leave_stmt_def)
  have "filter (out_of_reach d u) (sql_delete (\<lambda>m. mb_key m = (c, v) \<and> mb_role m \<noteq> ''banned'') ms) = filter (out_of_reach d u) ms" for ms
    using assms(2) by (induction ms) (auto simp: sql_delete_def out_of_reach_def mb_key_def)
  then show ?thesis unfolding d' by (intro within_memberships) (auto intro: distinct_sql_delete)
qed

lemma change_members_within:
  assumes "c \<in> owned d u" and "\<And>m. mb_key (f m) = mb_key m" and "\<And>m. P m \<Longrightarrow> mb_club m = c"
  shows "club_within key u d (d\<lparr>memberships := sql_update P f (memberships d)\<rparr>)"
proof (rule within_memberships)
  have club: "P m \<Longrightarrow> mb_club (f m) = c" for m using assms(2) [of m] assms(3) [of m] by (simp add: mb_key_def)
  have "filter (out_of_reach d u) (sql_update P f ms) = filter (out_of_reach d u) ms" for ms
    using assms(1,3) club by (induction ms) (auto simp: sql_update_def out_of_reach_def)
  then show "filter (out_of_reach d u) (sql_update P f (memberships d)) = filter (out_of_reach d u) (memberships d)" .
  fix m
  assume "m \<in> set (sql_update P f (memberships d))"
  then consider "m \<in> set (memberships d)" | m' where "m = f m'" "m' \<in> set (memberships d)" "P m'"
    by (auto simp: set_sql_update)
  then show "m \<in> set (memberships d) \<or> (mb_club m \<in> owned d u \<and> mb_key m \<in> mb_key ` set (memberships d)) \<or>
      (Some (mb_user m) = u \<and> (mb_club m \<in> owned d u \<or> public_club d (mb_club m)))"
    by cases (use assms(1) club in \<open>auto simp: assms(2)\<close>)
qed (simp add: assms(2))

lemma role_within: "role_stmt c v role d = Inr (n, d') \<Longrightarrow> c \<in> owned d u \<Longrightarrow> club_within key u d d'"
  by (auto simp: role_stmt_def mb_key_def intro!: change_members_within)

lemma ban_within: "ban_stmt c v d = Inr (n, d') \<Longrightarrow> c \<in> owned d u \<Longrightarrow> club_within key u d d'"
  by (auto simp: ban_stmt_def mb_key_def intro!: change_members_within)

lemma unban_within: "unban_stmt c v d = Inr (n, d') \<Longrightarrow> c \<in> owned d u \<Longrightarrow> club_within key u d d'"
  by (auto simp: unban_stmt_def mb_key_def intro!: change_members_within)

lemma clear_guidelines_within:
  assumes "clear_guidelines_stmt c d = Inr (x, d')" and "c \<in> owned d u"
  shows "club_within key u d d'"
proof -
  have "filter (\<lambda>g. gl_club g \<notin> owned d u) (sql_delete (\<lambda>g. gl_club g = c) gs) = filter (\<lambda>g. gl_club g \<notin> owned d u) gs" for gs
    using assms(2) by (induction gs) (auto simp: sql_delete_def)
  with assms(1) show ?thesis by (auto simp: clear_guidelines_stmt_def intro: within_guidelines)
qed

lemma add_guideline_within:
  assumes "add_guideline_stmt now new c t x pos a d = Inr (y, d')" and "c \<in> owned d u"
  shows "club_within key u d d'"
  using assms by (auto simp: add_guideline_stmt_def dest!: inserted intro!: within_guidelines split: if_splits sum.splits)

lemma create_event_within:
  assumes "create_event_stmt i c v t x e d = Inr (p, d')" and "u = Some v"
  shows "club_within key u d d'"
  using assms by (auto simp: create_event_stmt_def Let_def dest!: inserted intro!: within_proposals split: sum.splits)

lemma update_event_within:
  assumes "update_event_stmt (pr_id p) t x e d = Inr (n, d')" and "p \<in> set (proposals d)" and "Some (pr_proposer p) = u" and "club_keys d"
  shows "club_within key u d d'"
proof -
  have "q = p" if "q \<in> set (proposals d)" "pr_id q = pr_id p" for q
    using that assms(2,4) by (auto simp: club_keys_def distinct_map dest: inj_onD)
  then have "rest_of u pr_proposer (sql_update (\<lambda>q. pr_id q = pr_id p) (\<lambda>q. q\<lparr>pr_title := t, pr_desc := x, pr_ends := e\<rparr>) (proposals d)) =
      rest_of u pr_proposer (proposals d)"
    using assms(3) by (intro rest_of_update) auto
  with assms(1) show ?thesis by (auto simp: update_event_stmt_def intro!: within_proposals)
qed

lemma rsvp_within: "rsvp_stmt now e v d = Inr (x, d') \<Longrightarrow> u = Some v \<Longrightarrow> club_within key u d d'"
  by (auto simp: rsvp_stmt_def intro!: within_others rest_of_upsert)

lemma create_collective_within: "create_collective_stmt c d = Inr (x, d') \<Longrightarrow> club_within key u d d'"
  by (auto simp: create_collective_stmt_def dest!: inserted intro: within_others split: if_splits sum.splits)

lemma join_collective_within: "join_collective_stmt now c v d = Inr (x, d') \<Longrightarrow> u = Some v \<Longrightarrow> club_within key u d d'"
  by (auto simp: join_collective_stmt_def sql_insert_ignore_def club_within_refl intro!: within_others split: if_splits)

lemma create_thread_within: "create_thread_stmt t d = Inr (x, d') \<Longrightarrow> u = Some (th_author t) \<Longrightarrow> club_within key u d d'"
  by (auto simp: create_thread_stmt_def dest!: inserted intro!: within_others split: if_splits sum.splits)

lemma update_threads_within:
  assumes "update_threads now t f d = Inr (x, d')" and "\<And>r. th_frame (f r) = th_frame r"
  shows "club_within key u d d'"
proof -
  have frame: "th_frame (f r\<lparr>th_updated := now\<rparr>) = th_frame r" "th_author (f r) = th_author r" for r
  proof -
    have "th_frame (f r\<lparr>th_updated := now\<rparr>) = th_frame (f r)" by (simp add: th_frame_def)
    then show "th_frame (f r\<lparr>th_updated := now\<rparr>) = th_frame r" by (simp add: assms(2))
    have "th_author (f r) = th_author (th_frame (f r))" "th_author r = th_author (th_frame r)" by (simp_all add: th_frame_def)
    then show "th_author (f r) = th_author r" by (simp only: assms(2))
  qed
  have "map th_frame (rest_of u th_author (sql_update (\<lambda>r. th_id r = t) (\<lambda>r. (f r)\<lparr>th_updated := now\<rparr>) ts)) =
      map th_frame (rest_of u th_author ts)" for ts
    by (induction ts) (auto simp: sql_update_def frame)
  with assms(1) show ?thesis by (auto simp: update_threads_def intro!: within_others)
qed

lemma resonate_within: "resonate_stmt now t n d = Inr (x, d') \<Longrightarrow> club_within key u d d'"
  by (auto simp: resonate_stmt_def th_frame_def split: if_splits intro: update_threads_within)

lemma create_reply_within: "create_reply_stmt i t v p x d = Inr (r, d') \<Longrightarrow> u = Some v \<Longrightarrow> club_within key u d d'"
  by (auto simp: create_reply_stmt_def Let_def dest!: inserted intro!: within_others split: if_splits sum.splits)

lemma subscribe_within: "subscribe_stmt now s v c p e d = Inr (x, d') \<Longrightarrow> u = Some v \<Longrightarrow> club_within key u d d'"
  by (auto simp: subscribe_stmt_def dest!: inserted intro!: within_subscriptions split: if_splits sum.splits)

lemma change_subscription_within:
  assumes "s \<in> set (subscriptions d)" and "Some (su_user s) = u" and "club_keys d" and "\<And>r. su_id (f r) = su_id r \<and> su_user (f r) = su_user r"
  shows "club_within key u d (d\<lparr>subscriptions := sql_update (\<lambda>r. su_id r = su_id s) f (subscriptions d)\<rparr>)"
proof -
  have "r = s" if "r \<in> set (subscriptions d)" "su_id r = su_id s" for r
    using that assms(1,3) by (auto simp: club_keys_def distinct_map dest: inj_onD)
  then have "rest_of u su_user (sql_update (\<lambda>r. su_id r = su_id s) f (subscriptions d)) = rest_of u su_user (subscriptions d)"
    using assms(2,4) by (intro rest_of_update) auto
  then show ?thesis using assms(4) by (intro within_subscriptions) simp_all
qed
section \<open>Requests within the specification\<close>

text \<open>What the code relies on of identifiers: they are printed without blanks, read back, and read with blanks around them.\<close>

definition ids_ok :: "club_env \<Rightarrow> bool" where
  "ids_ok env \<longleftrightarrow> (\<forall>k. ce_scan env (ce_show env k) = Inr k \<and> trim_space (ce_show env k) = ce_show env k) \<and>
     (\<forall>x k. ce_scan env x = Inr k \<longrightarrow> ce_scan env (trim_space x) = Inr k)"

definition actor :: "club_env \<Rightarrow> string \<Rightarrow> uuid option" where
  "actor env x = (case ce_scan env (trim_space x) of Inl _ \<Rightarrow> None | Inr u \<Rightarrow> Some u)"

abbreviation cl_moves ::
  "club_env \<Rightarrow> uuid option \<Rightarrow> (club_db \<Rightarrow> bool) \<Rightarrow> (club_db, 'a) dbm \<Rightarrow> ('a \<Rightarrow> club_db \<Rightarrow> bool) \<Rightarrow> bool" where
  "cl_moves env u \<equiv> moves (club_within (ce_member_key env) u)"

abbreviation anything :: "'a \<Rightarrow> club_db \<Rightarrow> bool" where "anything \<equiv> \<lambda>_ _. True"

lemma club_id_moves:
  "(\<And>a. ce_scan env (trim_space x) = Inr a \<Longrightarrow> cl_moves env u P (k a) Q) \<Longrightarrow> cl_moves env u P (club_id env m x k) Q"
  by (auto simp: club_id_def community.moves_fail split: sum.split)

lemma raw_id_moves:
  "(\<And>a. ce_scan env x = Inr a \<Longrightarrow> cl_moves env u P (k a) Q) \<Longrightarrow> cl_moves env u P (raw_id env m x k) Q"
  by (auto simp: raw_id_def community.moves_fail split: sum.split)

lemma membership_moves:
  "(\<And>a b. ce_scan env (trim_space c) = Inr a \<Longrightarrow> ce_scan env (trim_space x) = Inr b \<Longrightarrow> cl_moves env u P (k a b) Q) \<Longrightarrow>
   cl_moves env u P (membership env c x k) Q"
  unfolding membership_def by (intro club_id_moves)

lemma or_fail_moves:
  "cl_moves env u P m M \<Longrightarrow> (\<And>a. cl_moves env u (M a) (k a) anything) \<Longrightarrow> cl_moves env u P (or_fail m k) anything"
  unfolding or_fail_def by (rule community.moves_reply)

lemma answer_moves: "cl_moves env u P (dreturn a) anything"
  by (rule community.moves_return) simp

lemma done_with_moves: "cl_moves env u P m anything \<Longrightarrow> cl_moves env u P (done_with m t) anything"
  unfolding done_with_def by (erule or_fail_moves) (rule answer_moves)

lemma as_user_moves: "cl_moves env u P k anything \<Longrightarrow> cl_moves env u P (as_user x k) anything"
  by (simp add: as_user_def answer_moves)

lemma with_body_moves: "(\<And>x. cl_moves env u P (k x) anything) \<Longrightarrow> cl_moves env u P (with_body b k) anything"
  by (simp add: with_body_def answer_moves split: option.split)

lemma moves_some: "(\<And>x. moves R (P x) m Q) \<Longrightarrow> moves R (\<lambda>d. \<exists>x. P x d) m Q"
  unfolding moves_def by blast

lemma seen_moves: "cl_moves env u P k anything \<Longrightarrow> cl_moves env u P (if_seen env x c k) anything"
  unfolding if_seen_def CanViewCommunity_def
  by (intro or_fail_moves club_id_moves community.moves_if answer_moves)
    (rule community.moves_read, simp_all add: reads_def can_view_club_stmt_def)

lemmas club_moves = or_fail_moves done_with_moves as_user_moves with_body_moves seen_moves answer_moves club_id_moves raw_id_moves
  membership_moves community.moves_if community.moves_fail community.moves_return

text \<open>Statements that only read.\<close>

lemma club_reads:
  "reads (can_view_club_stmt u1 c1)" "reads (club_stmt c2)" "reads (list_clubs_stmt u3 g3 l3 o3)" "reads (guidelines_stmt c4)"
  "reads (club_members_stmt c5 r5 l5 o5)" "reads (count_members_stmt c6 t6)" "reads (count_proposers_stmt c7 t7)"
  "reads (count_events_stmt c8)" "reads (event_stmt e9)" "reads (list_events_stmt u10 c10 w10 l10 o10)" "reads (upcoming_stmt n11 u11 l11)"
  "reads (collectives_stmt l12 o12)" "reads (threads_stmt c13 l13 o13)" "reads (replies_stmt t14 l14 o14)"
  "reads (subscription_stmt s15)" "reads (subscriptions_stmt u16)"
  by (auto simp: reads_def can_view_club_stmt_def club_stmt_def list_clubs_stmt_def guidelines_stmt_def club_members_stmt_def
      count_members_stmt_def count_proposers_stmt_def count_events_stmt_def event_stmt_def list_events_stmt_def upcoming_stmt_def
      collectives_stmt_def threads_stmt_def replies_stmt_def subscription_stmt_def subscriptions_stmt_def
      split: list.splits sum.splits)

lemma club_read_moves: "reads f \<Longrightarrow> (\<And>a. cl_moves env u P (k a) Q) \<Longrightarrow> cl_moves env u P (dbind (autocommit f) k) Q"
  by (erule community.moves_bind [OF community.moves_read])

lemma reading_moves:
  "cl_moves env u P (ListCommunities env x g l k) anything" "cl_moves env u P (GetCommunityGuidelines env c) anything"
  "cl_moves env u P (GetCommunityMembers env c r l k) anything" "cl_moves env u P (ListEvents env now cc x st l k) anything"
  "cl_moves env u P (GetUpcomingEvents env now x l) anything" "cl_moves env u P (GetCollectives env l k) anything"
  "cl_moves env u P (GetThreads env c l k) anything" "cl_moves env u P (GetThreadReplies env c l k) anything"
  "cl_moves env u P (GetUserSubscriptions env now x) anything"
  unfolding ListCommunities_def GetCommunityGuidelines_def GetCommunityMembers_def ListEvents_def GetUpcomingEvents_def GetCollectives_def
    GetThreads_def GetThreadReplies_def GetUserSubscriptions_def Let_def
  by (auto intro!: club_moves club_read_moves club_reads split: option.split)

lemma analytics_moves: "cl_moves env u P (GetCommunityAnalytics env now c p) anything"
proof -
  have ignored: "cl_moves env u P (dignore 0 (autocommit f)) (\<lambda>_. P)" if "reads f" for f :: "(club_db, nat) sql" and P
    unfolding moves_def
  proof (intro allI impI)
    fix s r s'
    assume run: "dignore 0 (autocommit f) s = (r, s')" and P: "P (durable s)"
    obtain r1 where "autocommit f s = (r1, s')" using run by (auto simp: dignore_def split: prod.splits sum.splits)
    from autocommit_cases(1) [OF this] that have "durable s' = durable s" by (auto simp: reads_def)
    with P show "club_within (ce_member_key env) u (durable s) (durable s') \<and> (\<forall>a. r = Inr a \<longrightarrow> P (durable s'))"
      by (simp add: club_within_refl)
  qed
  show ?thesis
    unfolding GetCommunityAnalytics_def Let_def
    by (intro club_moves club_read_moves club_reads community.moves_bind [OF ignored [OF club_reads(7)]]) simp
qed

text \<open>A community that is found, and the owner's.\<close>

definition found_club :: "club_env \<Rightarrow> string \<Rightarrow> community \<Rightarrow> uuid \<Rightarrow> club_row \<Rightarrow> club_db \<Rightarrow> bool" where
  "found_club env c v k r d \<longleftrightarrow> club_keys d \<and> ce_scan env (trim_space c) = Inr k \<and> r \<in> set (clubs d) \<and> cl_id r = k \<and>
     com_owner v = ce_show env (cl_owner r) \<and> com_private v = cl_private r"

lemma get_club_moves: "cl_moves env u club_keys (GetCommunity env c) (\<lambda>v d. \<exists>k r. found_club env c v k r d)"
  unfolding GetCommunity_def
proof (intro club_id_moves)
  fix k
  assume k: "ce_scan env (trim_space c) = Inr k"
  show "cl_moves env u club_keys (dbind (autocommit (club_stmt k)) (\<lambda>r. dreturn (community_of env r))) (\<lambda>v d. \<exists>k r. found_club env c v k r d)"
  proof (rule community.moves_bind [where M = "\<lambda>x d. club_keys d \<and> fst x \<in> set (clubs d) \<and> cl_id (fst x) = k"])
    show "cl_moves env u club_keys (autocommit (club_stmt k)) (\<lambda>x d. club_keys d \<and> fst x \<in> set (clubs d) \<and> cl_id (fst x) = k)"
      by (rule community.moves_autocommit) (auto simp: club_stmt_def community.stays split: list.splits dest: filter_ConsD)
    show "cl_moves env u (\<lambda>d. club_keys d \<and> fst x \<in> set (clubs d) \<and> cl_id (fst x) = k) (dreturn (community_of env x))
        (\<lambda>v d. \<exists>k r. found_club env c v k r d)" for x
      using k by (intro community.moves_return) (auto simp: found_club_def community_of_def split: prod.splits)
  qed
qed

lemma found_owned: "found_club env c v k r d \<Longrightarrow> Some (cl_owner r) = u \<Longrightarrow> k \<in> owned d u"
  by (auto simp: found_club_def owned_def club_core_def)

lemma own_club_moves:
  assumes ids: "ids_ok env"
    and k: "\<And>v k r. ce_scan env (trim_space c) = Inr k \<Longrightarrow> actor env u = Some (cl_owner r) \<Longrightarrow>
      cl_moves env (actor env u) (found_club env c v k r) (f v) anything"
  shows "cl_moves env (actor env u) club_keys (own_club env u c f) anything"
  unfolding own_club_def
proof (intro or_fail_moves [OF get_club_moves] community.moves_if answer_moves moves_some)
  fix v :: community and k r
  assume u: "\<not> com_owner v \<noteq> u"
  show "cl_moves env (actor env u) (found_club env c v k r) (f v) anything"
  proof (cases "\<exists>d. found_club env c v k r d")
    case True
    with u have "u = ce_show env (cl_owner r)" "ce_scan env (trim_space c) = Inr k" by (auto simp: found_club_def)
    with ids have "actor env u = Some (cl_owner r)" by (simp add: ids_ok_def actor_def)
    with True show ?thesis using k by (auto simp: found_club_def)
  next
    case False
    then show ?thesis by (auto simp: moves_def)
  qed
qed

lemma step_moves:
  "(\<And>d a d'. P d \<Longrightarrow> f d = Inr (a, d') \<Longrightarrow> club_within (ce_member_key env) u d d') \<Longrightarrow> cl_moves env u P (autocommit f) anything"
  by (rule community.moves_autocommit) auto
lemma scanned_actor: "ce_scan env (trim_space x) = Inr a \<Longrightarrow> actor env x = Some a"
  by (simp add: actor_def)

lemma create_group_moves:
  assumes ids: "ids_ok env"
  shows "cl_moves env (actor env u) P (CreateGroup env i u name desc private) anything"
proof -
  let ?M = "\<lambda>c d. \<exists>a k. actor env u = Some a \<and> com_id c = ce_show env k \<and> k \<in> owned d (actor env u)"
  have create: "cl_moves env (actor env u) P (CreateCommunity env i c) ?M" if c: "com_owner c = u" for c
    unfolding CreateCommunity_def
  proof (intro club_id_moves)
    fix a
    assume "ce_scan env (trim_space (com_owner c)) = Inr a"
    then have a: "actor env u = Some a" using c by (simp add: actor_def)
    let ?N = "\<lambda>r d. cl_owner r = a \<and> r \<in> set (clubs d) \<and> (\<forall>x\<in>set (clubs d). cl_id x = cl_id r \<longrightarrow> x = r)"
    show "cl_moves env (actor env u) P
        (dbind (autocommit (create_club_stmt i a (com_name c) (if com_desc c = [] then None else Some (com_desc c))
           (if com_avatar c = [] then None else Some (com_avatar c)) (com_private c)))
         (\<lambda>r. dbind (autocommit (fill_club_stmt (ci_now i) (cl_id r) (com_slug c) (com_banner c) (com_verified c)
                (or_general (com_category c)) (com_tags c) (com_rules c)))
           (\<lambda>_. dreturn (c\<lparr>com_id := ce_show env (cl_id r), com_created := cl_created r, com_category := or_general (com_category c)\<rparr>)))) ?M"
    proof (rule community.moves_bind [where M = ?N])
      show "cl_moves env (actor env u) P (autocommit (create_club_stmt i a (com_name c) (if com_desc c = [] then None else Some (com_desc c))
           (if com_avatar c = [] then None else Some (com_avatar c)) (com_private c))) ?N"
        by (rule community.moves_autocommit) (auto simp: a dest: create_club_within)
      fix r
      let ?f = "\<lambda>x. x\<lparr>cl_slug := Some (com_slug c), cl_banner := com_banner c, cl_verified := com_verified c,
        cl_category := or_general (com_category c), cl_tags := com_tags c, cl_rules := com_rules c, cl_updated := ci_now i\<rparr>"
      show "cl_moves env (actor env u) (?N r) (dbind (autocommit (fill_club_stmt (ci_now i) (cl_id r) (com_slug c) (com_banner c)
            (com_verified c) (or_general (com_category c)) (com_tags c) (com_rules c)))
           (\<lambda>_. dreturn (c\<lparr>com_id := ce_show env (cl_id r), com_created := cl_created r, com_category := or_general (com_category c)\<rparr>))) ?M"
      proof (rule community.moves_bind [where M = "\<lambda>_ d. cl_id r \<in> owned d (actor env u)"], rule community.moves_autocommit)
        fix d x d'
        assume N: "?N r d" and "fill_club_stmt (ci_now i) (cl_id r) (com_slug c) (com_banner c) (com_verified c)
          (or_general (com_category c)) (com_tags c) (com_rules c) d = Inr (x, d')"
        then have d': "d' = d\<lparr>clubs := sql_update (\<lambda>x. cl_id x = cl_id r) ?f (clubs d)\<rparr>" by (simp add: fill_club_stmt_def)
        have "club_within (ce_member_key env) (actor env u) d d'"
          unfolding d' using N a by (intro update_clubs_within) (auto simp: club_core_def)
        moreover have "cl_id r \<in> owned d (actor env u)" using N a by (force simp: owned_def club_core_def)
        ultimately show "club_within (ce_member_key env) (actor env u) d d' \<and> cl_id r \<in> owned d' (actor env u)"
          using owned_grows by blast
      next
        show "cl_moves env (actor env u) (\<lambda>d. cl_id r \<in> owned d (actor env u))
          (dreturn (c\<lparr>com_id := ce_show env (cl_id r), com_created := cl_created r, com_category := or_general (com_category c)\<rparr>)) ?M"
          using a by (intro community.moves_return) auto
      qed
    qed
  qed
  have join: "cl_moves env (actor env u) (?M c) (dbind (JoinCommunity env now (com_id c) u ''owner'') (\<lambda>_. dreturn c)) anything" for c now
    unfolding JoinCommunity_def
    by (intro moves_some community.moves_bind [where M = "anything"] club_moves step_moves)
      (use ids in \<open>auto simp: ids_ok_def actor_def intro!: join_within\<close>)
  show ?thesis
    unfolding CreateGroup_def Let_def
    by (intro community.moves_if community.moves_fail community.moves_bind [OF create] join) simp
qed

lemma join_moves:
  assumes "ids_ok env"
  shows "cl_moves env (actor env u) club_keys (handle_join env i u c) anything"
  unfolding handle_join_def JoinCommunity_def
proof (intro as_user_moves or_fail_moves [OF get_club_moves] moves_some community.moves_if answer_moves done_with_moves club_id_moves step_moves)
  fix v :: community and k and r :: club_row and a b d x d'
  assume ok: "\<not> (com_private v \<and> com_owner v \<noteq> u)" and ids: "ce_scan env (trim_space c) = Inr a" "ce_scan env (trim_space u) = Inr b"
    and found: "found_club env c v k r d" and run: "join_stmt env (ci_now i) a b ''member'' d = Inr (x, d')"
  from found ids have k: "k = a" "cl_id r = a" "r \<in> set (clubs d)" by (auto simp: found_club_def)
  have u: "actor env u = Some b" using ids by (simp add: actor_def)
  show "club_within (ce_member_key env) (actor env u) d d'"
  proof (rule join_within [OF run u])
    show "a \<in> owned d (actor env u) \<or> public_club d a \<and> ''member'' \<noteq> ''banned''"
    proof (cases "cl_private r")
      case True
      with found ok have "u = ce_show env (cl_owner r)" by (simp add: found_club_def)
      with assms have "actor env u = Some (cl_owner r)" by (simp add: ids_ok_def actor_def)
      with found_owned [OF found, of "actor env u"] k show ?thesis by simp
    next
      case False
      with k have "(a, cl_owner r, False) \<in> club_core ` set (clubs d)" by (force simp: club_core_def)
      then show ?thesis by (auto simp: public_club_def)
    qed
  qed
qed

lemma leave_moves: "cl_moves env (actor env u) P (handle_leave env u c) anything"
  unfolding handle_leave_def LeaveCommunity_def
  by (intro club_moves step_moves) (auto simp: actor_def dest: leave_within)

lemma settings_moves:
  assumes "ids_ok env"
  shows "cl_moves env (actor env u) club_keys (handle_settings env i u c b) anything"
  unfolding handle_settings_def UpdateCommunity_def Let_def
proof (intro as_user_moves own_club_moves [OF assms] with_body_moves or_fail_moves [where M = anything] club_id_moves community.moves_if
    community.moves_fail answer_moves step_moves)
  fix v :: community and k and r :: club_row and s k' d x d'
  assume k: "ce_scan env (trim_space c) = Inr k" "ce_scan env (trim_space c) = Inr k'" and u: "actor env u = Some (cl_owner r)"
    and found: "found_club env c v k r d"
    and run: "update_club_stmt (ci_now i) k' (trim_space (com_name (v\<lparr>com_settings := s\<rparr>))) (com_desc (v\<lparr>com_settings := s\<rparr>))
      (com_avatar (v\<lparr>com_settings := s\<rparr>)) (com_banner (v\<lparr>com_settings := s\<rparr>)) (com_private (v\<lparr>com_settings := s\<rparr>))
      (or_general (com_category (v\<lparr>com_settings := s\<rparr>))) (com_tags (v\<lparr>com_settings := s\<rparr>)) (com_rules (v\<lparr>com_settings := s\<rparr>)) d = Inr (x, d')"
  have one: "y = r" if "y \<in> set (clubs d)" "cl_id y = k" for y
    using that found by (auto simp: found_club_def club_keys_def distinct_map dest: inj_onD)
  from k have "k' = k" by simp
  with run have d': "d' = d\<lparr>clubs := sql_update (\<lambda>x. cl_id x = k) (\<lambda>r. r\<lparr>cl_name := trim_space (com_name v), cl_desc := Some (com_desc v),
      cl_avatar := Some (com_avatar v), cl_banner := com_banner v, cl_private := com_private v, cl_category := or_general (com_category v),
      cl_tags := com_tags v, cl_rules := com_rules v, cl_updated := ci_now i\<rparr>) (clubs d)\<rparr>"
    by (simp add: update_club_stmt_def)
  show "club_within (ce_member_key env) (actor env u) d d'"
    unfolding d'
  proof (rule update_clubs_within)
    fix y
    assume y: "y \<in> set (clubs d)" "cl_id y = k"
    show "Some (cl_owner y) = actor env u" using one [OF y] u by simp
    show "club_core (y\<lparr>cl_name := trim_space (com_name v), cl_desc := Some (com_desc v), cl_avatar := Some (com_avatar v),
        cl_banner := com_banner v, cl_private := com_private v, cl_category := or_general (com_category v), cl_tags := com_tags v,
        cl_rules := com_rules v, cl_updated := ci_now i\<rparr>) = club_core y"
      using one [OF y] found by (simp add: club_core_def found_club_def)
  qed
qed

text \<open>The owner's request on a community of the owner's.\<close>

lemma owner_step_moves:
  assumes "ids_ok env" and "\<And>v k (r :: club_row). ce_scan env (trim_space c) = Inr k \<Longrightarrow> actor env u = Some (cl_owner r) \<Longrightarrow>
    cl_moves env (actor env u) (\<lambda>d. k \<in> owned d (actor env u)) (f v) anything"
  shows "cl_moves env (actor env u) club_keys (own_club env u c f) anything"
proof (rule own_club_moves [OF assms(1)])
  fix v :: community and k and r :: club_row
  assume k: "ce_scan env (trim_space c) = Inr k" and u: "actor env u = Some (cl_owner r)"
  show "cl_moves env (actor env u) (found_club env c v k r) (f v) anything"
    by (rule community.moves_weaken [OF assms(2) [OF k u]]) (use u found_owned in auto)
qed

lemma add_guidelines_moves: "cl_moves env u (\<lambda>d. k \<in> owned d u) (add_guidelines i k n gs) anything"
proof (induction i k n gs rule: add_guidelines.induct)
  case (3 i k n g gs)
  show ?case
    unfolding add_guidelines.simps
  proof (intro community.moves_if community.moves_fail community.moves_bind [where M = "\<lambda>_ d. k \<in> owned d u"] 3, rule community.moves_autocommit)
    fix d x d'
    assume k: "k \<in> owned d u" and run: "add_guideline_stmt (ci_now i) (ci_rows i n) k (trim_space (gd_title g)) (trim_space (gd_desc g))
      (if gd_order g < 0 then int n else gd_order g) (gd_active g) d = Inr (x, d')"
    from add_guideline_within [OF run k] have "club_within (ce_member_key env) u d d'" .
    with owned_grows [OF this, of u] k show "club_within (ce_member_key env) u d d' \<and> k \<in> owned d' u" by blast
  qed
qed (simp_all add: answer_moves community.moves_return)

lemma owner_moves:
  assumes "ids_ok env"
  shows "cl_moves env (actor env u) club_keys (handle_set_guidelines env i u c b1) anything"
    "cl_moves env (actor env u) club_keys (handle_role env u c m b2) anything"
    "cl_moves env (actor env u) club_keys (handle_ban env u c m b3) anything"
    "cl_moves env (actor env u) club_keys (handle_unban env u c m) anything"
    "cl_moves env (actor env u) club_keys (handle_club_analytics env i u c p) anything"
proof -
  have clear: "cl_moves env v (\<lambda>d. k \<in> owned d v) (autocommit (clear_guidelines_stmt k)) (\<lambda>_ d. k \<in> owned d v)" for v k
  proof (rule community.moves_autocommit)
    fix d x d'
    assume k: "k \<in> owned d v" and run: "clear_guidelines_stmt k d = Inr (x, d')"
    from clear_guidelines_within [OF run k] have "club_within (ce_member_key env) v d d'" .
    with owned_grows [OF this, of v] k show "club_within (ce_member_key env) v d d' \<and> k \<in> owned d' v" by blast
  qed
  show "cl_moves env (actor env u) club_keys (handle_set_guidelines env i u c b1) anything"
    unfolding handle_set_guidelines_def UpdateGuidelines_def
    by (intro as_user_moves owner_step_moves [OF assms] with_body_moves done_with_moves club_id_moves
        community.moves_bind [where M = "\<lambda>_ d. _ \<in> owned d (actor env u)"]) (auto intro: clear add_guidelines_moves)
  show "cl_moves env (actor env u) club_keys (handle_role env u c m b2) anything"
    unfolding handle_role_def UpdateMemberRole_def Let_def
    by (intro as_user_moves owner_step_moves [OF assms] with_body_moves done_with_moves membership_moves community.moves_if
        community.moves_fail answer_moves community.moves_bind [where M = "anything"] step_moves community.moves_return)
      (auto dest: role_within)
  show "cl_moves env (actor env u) club_keys (handle_ban env u c m b3) anything"
    unfolding handle_ban_def BanMember_def
    by (intro as_user_moves owner_step_moves [OF assms] with_body_moves done_with_moves raw_id_moves step_moves)
      (use assms in \<open>auto simp: ids_ok_def dest: ban_within\<close>)
  show "cl_moves env (actor env u) club_keys (handle_unban env u c m) anything"
    unfolding handle_unban_def UnbanMember_def
    by (intro as_user_moves owner_step_moves [OF assms] done_with_moves raw_id_moves step_moves)
      (use assms in \<open>auto simp: ids_ok_def dest: unban_within\<close>)
  show "cl_moves env (actor env u) club_keys (handle_club_analytics env i u c p) anything"
    unfolding handle_club_analytics_def
    by (intro as_user_moves owner_step_moves [OF assms] or_fail_moves [OF analytics_moves] answer_moves)
qed
text \<open>An event that is found is the creator's.\<close>

definition found_event :: "club_env \<Rightarrow> string \<Rightarrow> event \<Rightarrow> proposal_row \<Rightarrow> club_db \<Rightarrow> bool" where
  "found_event env e v p d \<longleftrightarrow> club_keys d \<and> ce_scan env (trim_space e) = Inr (pr_id p) \<and> p \<in> set (proposals d) \<and>
     evt_creator v = ce_show env (pr_proposer p)"

lemma get_event_moves: "cl_moves env u club_keys (GetEvent env e) (\<lambda>v d. \<exists>p. found_event env e v p d)"
  unfolding GetEvent_def
proof (intro club_id_moves)
  fix k
  assume k: "ce_scan env (trim_space e) = Inr k"
  show "cl_moves env u club_keys (dbind (autocommit (event_stmt k)) (\<lambda>p. dreturn (event_of env ''published'' p))) (\<lambda>v d. \<exists>p. found_event env e v p d)"
  proof (rule community.moves_bind [where M = "\<lambda>p d. club_keys d \<and> p \<in> set (proposals d) \<and> pr_id p = k"])
    show "cl_moves env u club_keys (autocommit (event_stmt k)) (\<lambda>p d. club_keys d \<and> p \<in> set (proposals d) \<and> pr_id p = k)"
      by (rule community.moves_autocommit) (auto simp: event_stmt_def community.stays split: list.splits dest: filter_ConsD)
    show "cl_moves env u (\<lambda>d. club_keys d \<and> p \<in> set (proposals d) \<and> pr_id p = k) (dreturn (event_of env ''published'' p))
        (\<lambda>v d. \<exists>p. found_event env e v p d)" for p
      using k by (intro community.moves_return) (auto simp: found_event_def event_of_def)
  qed
qed

lemma cancel_event_moves:
  assumes ids: "ids_ok env"
  shows "cl_moves env (actor env u) club_keys (handle_cancel_event env i u e) anything"
  unfolding handle_cancel_event_def CancelEvent_def
proof (intro as_user_moves or_fail_moves [OF get_event_moves] moves_some community.moves_if answer_moves done_with_moves)
  fix v :: event and p
  assume u: "\<not> evt_creator v \<noteq> u"
  let ?P = "\<lambda>d. club_keys d \<and> ce_scan env (trim_space e) = Inr (pr_id p) \<and> p \<in> set (proposals d)"
  show "cl_moves env (actor env u) (found_event env e v p)
    (dbind (GetEvent env e) (\<lambda>x. UpdateEvent env e (x\<lparr>evt_status := ''cancelled'', evt_updated := ci_now i\<rparr>))) anything"
  proof (cases "\<exists>d. found_event env e v p d")
    case True
    with u ids have proposer: "actor env u = Some (pr_proposer p)" by (auto simp: found_event_def ids_ok_def actor_def)
    have again: "cl_moves env (actor env u) (found_event env e v p) (GetEvent env e) (\<lambda>_. ?P)"
      unfolding GetEvent_def
      by (intro club_id_moves community.moves_bind [where M = "\<lambda>_. ?P"] community.moves_autocommit community.moves_return)
        (auto simp: event_stmt_def found_event_def community.stays split: list.splits)
    show ?thesis
    proof (rule community.moves_bind [OF again])
      fix x :: event
      show "cl_moves env (actor env u) ?P (UpdateEvent env e (x\<lparr>evt_status := ''cancelled'', evt_updated := ci_now i\<rparr>)) anything"
        unfolding UpdateEvent_def
        by (intro club_id_moves community.moves_bind [where M = anything] community.moves_if community.moves_fail community.moves_return step_moves)
          (use proposer in \<open>auto dest: update_event_within\<close>)
    qed
  next
    case False
    then show ?thesis by (auto simp: moves_def)
  qed
qed

lemma event_moves:
  "cl_moves env (actor env u) P (handle_create_event env i u b) anything"
  "cl_moves env (actor env u) P (handle_rsvp env i u e s) anything"
proof -
  have create: "cl_moves env (actor env u) P (autocommit (create_event_stmt i c a t x e)) anything" if "actor env u = Some a" for c a t x e P
    using that by (intro step_moves) (auto dest: create_event_within)
  have organize: "cl_moves env (actor env u) P (OrganizeEvent env i e) anything" if "evt_creator e = u" for e P
    unfolding OrganizeEvent_def CreateEvent_def Let_def
    by (intro club_id_moves community.moves_case_option community.moves_if community.moves_bind [where M = anything] create
        community.moves_return) (use that in \<open>auto simp: actor_def\<close>)
  show "cl_moves env (actor env u) P (handle_create_event env i u b) anything"
    unfolding handle_create_event_def
    by (auto intro!: as_user_moves with_body_moves answer_moves or_fail_moves [OF organize] split: option.split)
  show "cl_moves env (actor env u) P (handle_rsvp env i u e s) anything"
    unfolding handle_rsvp_def RSVP_def
    by (intro as_user_moves with_body_moves done_with_moves club_id_moves step_moves) (auto simp: actor_def dest: rsvp_within)
qed

lemma thread_moves:
  "cl_moves env (actor env u) P (handle_create_collective env i b1) anything"
  "cl_moves env (actor env u) P (handle_join_collective env i u c) anything"
  "cl_moves env (actor env u) P (handle_create_thread env i u c b2) anything"
  "cl_moves env (actor env u) P (handle_resonate env i t b3) anything"
  "cl_moves env (actor env u) P (handle_pin env i t b4) anything"
  "cl_moves env (actor env u) P (handle_lock env i t b4) anything"
proof -
  have collective: "cl_moves env (actor env u) P (FormCollective env i name desc icon) anything" for name desc icon
  proof -
    have "cl_moves env (actor env u) P (dbind (autocommit (create_collective_stmt r)) (\<lambda>_. dreturn x)) anything" for r and x :: collective
      by (intro community.moves_bind [where M = anything] step_moves community.moves_return) (auto dest: create_collective_within)
    then show ?thesis
      unfolding FormCollective_def CreateCollective_def Let_def
      by (auto intro!: community.moves_fail raw_id_moves community.moves_return)
  qed
  show "cl_moves env (actor env u) P (handle_create_collective env i b1) anything"
    unfolding handle_create_collective_def by (auto intro!: with_body_moves or_fail_moves [OF collective] answer_moves)
  show "cl_moves env (actor env u) P (handle_join_collective env i u c) anything"
    unfolding handle_join_collective_def JoinCollective_def in_collective_def
    by (intro as_user_moves done_with_moves community.moves_if community.moves_fail club_id_moves step_moves)
      (auto simp: actor_def dest: join_collective_within)
  have start: "cl_moves env (actor env u) P (StartThread env i c u t x) anything" for t x
    unfolding StartThread_def CreateThread_def Let_def
    by (intro club_id_moves community.moves_bind [where M = anything] step_moves community.moves_return)
      (auto simp: actor_def dest: create_thread_within)
  show "cl_moves env (actor env u) P (handle_create_thread env i u c b2) anything"
    unfolding handle_create_thread_def by (auto intro!: as_user_moves with_body_moves or_fail_moves [OF start] answer_moves)
  show "cl_moves env (actor env u) P (handle_resonate env i t b3) anything"
    unfolding handle_resonate_def Resonate_def ResonateThread_def
    by (intro with_body_moves community.moves_if answer_moves done_with_moves club_id_moves step_moves) (auto dest: resonate_within)
  show "cl_moves env (actor env u) P (handle_pin env i t b4) anything"
    unfolding handle_pin_def PinThread_def
    by (intro with_body_moves done_with_moves club_id_moves step_moves) (auto simp: th_frame_def dest: update_threads_within)
  show "cl_moves env (actor env u) P (handle_lock env i t b4) anything"
    unfolding handle_lock_def LockThread_def
    by (intro with_body_moves done_with_moves club_id_moves step_moves) (auto simp: th_frame_def dest: update_threads_within)
qed

lemma reply_moves:
  assumes ids: "ids_ok env"
  shows "cl_moves env (actor env u) P (handle_reply env i u t b) anything"
proof -
  have create: "cl_moves env (actor env u) P (autocommit (create_reply_stmt i k a p x)) anything" if "ce_scan env u = Inr a" for k a p x P
  proof -
    from that ids have "actor env u = Some a" by (auto simp: ids_ok_def actor_def)
    then show ?thesis by (intro step_moves) (auto dest: create_reply_within)
  qed
  have reply: "cl_moves env (actor env u) P (ReplyToThread env i t u x) anything" for x
    unfolding ReplyToThread_def CreateThreadReply_def Let_def
    by (intro raw_id_moves community.moves_case_option community.moves_if community.moves_bind [where M = anything] create
        community.moves_return) auto
  show ?thesis
    unfolding handle_reply_def by (auto intro!: as_user_moves with_body_moves or_fail_moves [OF reply] answer_moves)
qed

text \<open>A subscription that is found is the subscriber's.\<close>

definition found_sub :: "club_env \<Rightarrow> string \<Rightarrow> subscription \<Rightarrow> subscription_row \<Rightarrow> club_db \<Rightarrow> bool" where
  "found_sub env s v r d \<longleftrightarrow> club_keys d \<and> ce_scan env (trim_space s) = Inr (su_id r) \<and> r \<in> set (subscriptions d) \<and>
     sub_user v = ce_show env (su_user r)"

lemma get_sub_moves: "cl_moves env u club_keys (GetSubscription env now s) (\<lambda>v d. \<exists>r. found_sub env s v r d)"
  unfolding GetSubscription_def
proof (intro club_id_moves)
  fix k
  assume k: "ce_scan env (trim_space s) = Inr k"
  show "cl_moves env u club_keys (dbind (autocommit (subscription_stmt k)) (\<lambda>r. dreturn (subscription_of env now r)))
    (\<lambda>v d. \<exists>r. found_sub env s v r d)"
  proof (rule community.moves_bind [where M = "\<lambda>r d. club_keys d \<and> r \<in> set (subscriptions d) \<and> su_id r = k"])
    show "cl_moves env u club_keys (autocommit (subscription_stmt k)) (\<lambda>r d. club_keys d \<and> r \<in> set (subscriptions d) \<and> su_id r = k)"
      by (rule community.moves_autocommit) (auto simp: subscription_stmt_def community.stays split: list.splits dest: filter_ConsD)
    show "cl_moves env u (\<lambda>d. club_keys d \<and> r \<in> set (subscriptions d) \<and> su_id r = k) (dreturn (subscription_of env now r))
        (\<lambda>v d. \<exists>r. found_sub env s v r d)" for r
      using k by (intro community.moves_return) (auto simp: found_sub_def subscription_of_def)
  qed
qed

lemma own_sub_moves:
  assumes ids: "ids_ok env" and k: "\<And>r. ce_scan env (trim_space s) = Inr (su_id r) \<Longrightarrow> actor env u = Some (su_user r) \<Longrightarrow>
    cl_moves env (actor env u) (\<lambda>d. club_keys d \<and> r \<in> set (subscriptions d)) k anything"
  shows "cl_moves env (actor env u) club_keys (own_subscription env i u s k) anything"
  unfolding own_subscription_def
proof (intro or_fail_moves [OF get_sub_moves] moves_some community.moves_if answer_moves)
  fix v :: subscription and r
  assume u: "\<not> sub_user v \<noteq> u"
  show "cl_moves env (actor env u) (found_sub env s v r) k anything"
  proof (cases "\<exists>d. found_sub env s v r d")
    case True
    with u ids have 1: "ce_scan env (trim_space s) = Inr (su_id r)" "actor env u = Some (su_user r)"
      by (auto simp: found_sub_def ids_ok_def actor_def)
    show ?thesis by (rule community.moves_weaken [OF k [OF 1]]) (auto simp: found_sub_def)
  next
    case False
    then show ?thesis by (auto simp: moves_def)
  qed
qed

lemma subscription_moves:
  assumes ids: "ids_ok env"
  shows "cl_moves env (actor env u) club_keys (handle_subscribe env i u b) anything"
    "cl_moves env (actor env u) club_keys (handle_cancel_subscription env i u s) anything"
    "cl_moves env (actor env u) club_keys (handle_tier env i u s t) anything"
proof -
  have create: "cl_moves env (actor env u) club_keys (SubscribeToCreator env i u c t x) anything" for c t x
    unfolding SubscribeToCreator_def CreateSubscription_def
    by (intro club_id_moves community.moves_if community.moves_fail step_moves) (auto simp: actor_def dest: subscribe_within)
  have get: "cl_moves env (actor env u) (\<lambda>_. True) (GetSubscription env now x) anything" for now x
    unfolding GetSubscription_def by (intro club_id_moves club_read_moves club_reads community.moves_return) simp
  show "cl_moves env (actor env u) club_keys (handle_subscribe env i u b) anything"
    unfolding handle_subscribe_def
    by (auto intro!: as_user_moves with_body_moves answer_moves or_fail_moves [OF create] or_fail_moves [OF get])
  show "cl_moves env (actor env u) club_keys (handle_cancel_subscription env i u s) anything"
    unfolding handle_cancel_subscription_def repo_CancelSubscription_def
    by (intro as_user_moves own_sub_moves [OF ids] done_with_moves club_id_moves step_moves)
      (auto simp: cancel_subscription_stmt_def intro!: change_subscription_within)
  show "cl_moves env (actor env u) club_keys (handle_tier env i u s t) anything"
    unfolding handle_tier_def repo_UpdateSubscription_def
    by (intro as_user_moves own_sub_moves [OF ids] with_body_moves done_with_moves club_id_moves community.moves_if community.moves_fail
        answer_moves step_moves) (auto simp: plan_stmt_def intro!: change_subscription_within)
qed

lemma get_club_keeps: "cl_moves env u club_keys (GetCommunity env c) (\<lambda>_. club_keys)"
  by (rule community.moves_weaken [OF get_club_moves]) (auto simp: found_club_def)

lemma read_handlers_move:
  "cl_moves env u P (handle_list_clubs env x g q) anything" "cl_moves env u P (handle_guidelines env x c) anything"
  "cl_moves env u P (handle_members env x c r q) anything" "cl_moves env u P (handle_events env i x c st q) anything"
  "cl_moves env u P (handle_upcoming env i x q) anything" "cl_moves env u P (handle_collectives env q) anything"
  "cl_moves env u P (handle_threads env c q) anything" "cl_moves env u P (handle_replies env t q) anything"
  "cl_moves env u P (handle_subscriptions env i x) anything"
  unfolding handle_list_clubs_def handle_guidelines_def handle_members_def handle_events_def handle_upcoming_def handle_collectives_def
    handle_threads_def handle_replies_def handle_subscriptions_def case_prod_beta Let_def
  by (intro as_user_moves seen_moves answer_moves or_fail_moves [OF reading_moves(1)] or_fail_moves [OF reading_moves(2)]
      or_fail_moves [OF reading_moves(3)] or_fail_moves [OF reading_moves(4)] or_fail_moves [OF reading_moves(5)]
      or_fail_moves [OF reading_moves(6)] or_fail_moves [OF reading_moves(7)] or_fail_moves [OF reading_moves(8)]
      or_fail_moves [OF reading_moves(9)])+

lemma community_handlers_move:
  assumes ids: "ids_ok env"
  shows "cl_moves env (actor env u) club_keys (handle_community env i u c) anything"
proof (cases c)
  case (ClubReq k)
  show ?thesis
    unfolding ClubReq handle_community.simps handle_club_def
    by (intro as_user_moves or_fail_moves [OF get_club_keeps] seen_moves answer_moves)
next
  case (CreateClubReq b)
  show ?thesis
    unfolding CreateClubReq handle_community.simps handle_create_club_def
    by (auto intro!: as_user_moves with_body_moves or_fail_moves [OF create_group_moves [OF ids]] answer_moves)
qed (simp_all add: read_handlers_move join_moves [OF ids] leave_moves settings_moves [OF ids] owner_moves [OF ids]
    cancel_event_moves [OF ids] event_moves thread_moves reply_moves [OF ids] subscription_moves [OF ids])
section \<open>Properties\<close>

lemma community_step:
  assumes "ids_ok env" and "club_keys (durable s)"
  shows "club_within (ce_member_key env) (actor env u) (durable s) (durable (snd (handle_community env i u c s)))"
  by (rule movesD [OF community_handlers_move [OF assms(1)] assms(2)])

text \<open>
  C9. Whatever a user requests, and whatever the database does meanwhile, the communities, events, subscriptions,
  attendances, collective memberships and replies of others stay as they are, threads of others keep their text, nobody's
  community changes hands or its privacy, the guidelines and memberships of a community are changed by its owner only, apart
  from the user's own membership, and that one not while it is banned.
\<close>

theorem club_changes_authorised:
  assumes "ids_ok env" and "club_keys (durable s)"
  shows "club_within (ce_member_key env) (actor env u) (durable s) (durable (snd (handle_community env i u c s)))"
  using assms by (rule community_step)

lemma within_keys: "club_within key u d d' \<Longrightarrow> club_keys d \<Longrightarrow> club_keys d'"
  unfolding club_within_def by (elim conjE) (erule (1) mp)

text \<open>In a private community nobody but the owner is a member.\<close>

definition private_closed :: "club_db \<Rightarrow> bool" where
  "private_closed d \<longleftrightarrow>
     list_all (\<lambda>m. list_ex (\<lambda>r. cl_id r = mb_club m \<and> (cl_private r \<longrightarrow> cl_owner r = mb_user m)) (clubs d)) (memberships d)"

lemma private_closed_core:
  "private_closed d \<longleftrightarrow>
     (\<forall>m\<in>set (memberships d). \<exists>o' p. (mb_club m, o', p) \<in> club_core ` set (clubs d) \<and> (p \<longrightarrow> o' = mb_user m))"
proof -
  have "(\<exists>o' p. (k, o', p) \<in> club_core ` set rs \<and> (p \<longrightarrow> o' = v)) \<longleftrightarrow> (\<exists>r\<in>set rs. cl_id r = k \<and> (cl_private r \<longrightarrow> cl_owner r = v))" for k v rs
    unfolding club_core_def image_iff prod.inject by metis
  then show ?thesis unfolding private_closed_def list_all_iff list_ex_iff by simp
qed

lemma private_closed_step:
  assumes within: "club_within key u d d'" and closed: "private_closed d"
  shows "private_closed d'"
  unfolding private_closed_core
proof
  fix m
  assume "m \<in> set (memberships d')"
  with within have "member_from u d d' m" by (rule within_members)
  then consider m0 where "m0 \<in> set (memberships d)" "mb_key m = mb_key m0"
    | "Some (mb_user m) = u" "mb_club m \<in> owned d' u" | "public_club d' (mb_club m)"
    by (auto simp: member_from_def)
  then show "\<exists>o' p. (mb_club m, o', p) \<in> club_core ` set (clubs d') \<and> (p \<longrightarrow> o' = mb_user m)"
  proof cases
    case 1
    with closed obtain o' p where "(mb_club m0, o', p) \<in> club_core ` set (clubs d)" "p \<longrightarrow> o' = mb_user m0"
      unfolding private_closed_core by blast
    moreover from this(1) core_grows [OF within] have "(mb_club m0, o', p) \<in> club_core ` set (clubs d')" by blast
    moreover from 1(2) have "mb_club m0 = mb_club m" "mb_user m0 = mb_user m" by (simp_all add: mb_key_def)
    ultimately show ?thesis by metis
  next
    case 2
    then show ?thesis unfolding owned_def by blast
  next
    case 3
    then show ?thesis unfolding public_club_def by blast
  qed
qed

text \<open>
  C25. No request makes anybody a member of a private community but its owner: when that is so at the start, it is so after
  any run of requests of anybody.
\<close>

theorem private_communities_closed:
  assumes "ids_ok env" and "club_keys (durable s)" and "private_closed (durable s)"
  shows "private_closed (durable (run_community env cs s))"
  using assms(2,3)
proof (induction cs arbitrary: s)
  case (Cons a cs)
  obtain i outs u c where a: "a = (i, outs, u, c)" by (cases a)
  let ?s = "s\<lparr>outcomes := outs\<rparr>"
  have within: "club_within (ce_member_key env) (actor env u) (durable ?s) (durable (snd (handle_community env i u c ?s)))"
    using assms(1) Cons.prems(1) by (intro community_step) simp_all
  show ?case
    unfolding a run_community.simps
    by (rule Cons.IH) (use within_keys [OF within] private_closed_step [OF within] Cons.prems in simp_all)
qed simp
text \<open>What a request succeeds on.\<close>

lemma or_fail_ok:
  "or_fail m k s = (Inr b, s') \<longleftrightarrow> (\<exists>e. m s = (Inl e, s') \<and> b = club_failed) \<or> (\<exists>a s1. m s = (Inr a, s1) \<and> k a s1 = (Inr b, s'))"
  by (simp add: or_fail_def dreply_ok)

lemma club_id_ok: "club_id env m x k s = (Inr b, s') \<longleftrightarrow> (\<exists>a. ce_scan env (trim_space x) = Inr a \<and> k a s = (Inr b, s'))"
  by (auto simp: club_id_def dfail_def split: sum.splits)

lemma autocommit_kept: "autocommit f s = (Inr a, s') \<Longrightarrow> reads f \<Longrightarrow> durable s' = durable s"
  using autocommit_cases(2) [of f s "Inr a" s' a] by (simp add: reads_def)

lemma if_seen_ok:
  assumes "if_seen env u c k s = (Inr (n, b), s')" and "n < 300"
  shows "\<exists>v x s1. ce_scan env (trim_space u) = Inr v \<and> ce_scan env (trim_space c) = Inr x \<and> club_visible (durable s) v x \<and>
    durable s1 = durable s \<and> k s1 = (Inr (n, b), s')"
proof -
  from assms obtain a s1 where can: "CanViewCommunity env u c s = (Inr a, s1)" and rest: "(if a then k else dreturn club_forbidden) s1 = (Inr (n, b), s')"
    by (auto simp: if_seen_def or_fail_ok club_failed_def)
  from rest assms(2) have k: "a" "k s1 = (Inr (n, b), s')" by (auto simp: dreturn_def club_forbidden_def split: if_splits)
  from can obtain v x where ids: "ce_scan env (trim_space u) = Inr v" "ce_scan env (trim_space c) = Inr x"
    and run: "autocommit (can_view_club_stmt v x) s = (Inr a, s1)" by (auto simp: CanViewCommunity_def club_id_ok)
  from autocommit_cases(2) [OF run refl] have "a = club_visible (durable s) v x" by (auto simp: can_view_club_stmt_def)
  moreover from autocommit_kept [OF run club_reads(1)] have "durable s1 = durable s" .
  ultimately show ?thesis using ids k by auto
qed

fun club_subject :: "club_call \<Rightarrow> string option" where
  "club_subject (ClubReq c) = Some c" | "club_subject (GuidelinesReq c) = Some c" | "club_subject (MembersReq c _ _) = Some c"
| "club_subject _ = None"

text \<open>
  C23. The description, the guidelines and the members of a community are answered only to those who may see it at that
  moment: it is public, or the caller is its owner or a member who is not banned.
\<close>

theorem club_answers_visible:
  assumes "handle_community env i u c s = (Inr (code, b), s')" and "club_subject c = Some k" and "code < 300"
  shows "\<exists>v x. ce_scan env (trim_space u) = Inr v \<and> ce_scan env (trim_space k) = Inr x \<and> club_visible (durable s) v x"
proof (cases c)
  case (ClubReq k')
  with assms obtain v s1 where get: "GetCommunity env k s = (Inr v, s1)" and seen: "if_seen env u k (dreturn (200, ClCommunity v)) s1 = (Inr (code, b), s')"
    by (auto simp: handle_club_def as_user_def or_fail_ok dreturn_def club_unauthorized_def club_failed_def split: if_splits)
  from get have "durable s1 = durable s"
    by (auto simp: GetCommunity_def club_id_ok dbm_ok dest: autocommit_kept [OF _ club_reads(2)])
  with if_seen_ok [OF seen assms(3)] show ?thesis by auto
next
  case (GuidelinesReq k')
  with assms have "\<exists>f. if_seen env u k f s = (Inr (code, b), s')"
    by (auto simp: handle_guidelines_def as_user_def dreturn_def club_unauthorized_def split: if_splits)
  with if_seen_ok [OF _ assms(3)] show ?thesis by blast
next
  case (MembersReq k' r q)
  with assms have "\<exists>f. if_seen env u k f s = (Inr (code, b), s')"
    by (auto simp: handle_members_def as_user_def dreturn_def club_unauthorized_def split: if_splits)
  with if_seen_ok [OF _ assms(3)] show ?thesis by blast
qed (use assms(2) in simp_all)

lemma page_of_subset: "page_of l k xs = Inr ys \<Longrightarrow> set ys \<subseteq> set xs"
  by (auto simp: page_of_def split: if_splits dest!: in_set_takeD in_set_dropD)

text \<open>The list of communities has only communities that the caller may see, of the category that is asked for.\<close>

theorem club_list_visible:
  assumes "handle_community env i u (ListClubsReq category q) s = (Inr (200, ClCommunities vs), s')"
  shows "\<exists>v. ce_scan env (trim_space u) = Inr v \<and> list_all (\<lambda>x. list_ex (\<lambda>r. com_id x = ce_show env (cl_id r) \<and> com_name x = cl_name r \<and>
    club_visible (durable s) v (cl_id r) \<and> (trim_space category = [] \<or> cl_category r = trim_space category)) (clubs (durable s))) vs"
proof -
  from assms obtain l k where "ListCommunities env u category l k s = (Inr vs, s')"
    by (auto simp: handle_list_clubs_def as_user_def or_fail_ok case_prod_beta Let_def dreturn_def club_unauthorized_def club_failed_def split: if_splits)
  then obtain v rs l' k' s1 where v: "ce_scan env (trim_space u) = Inr v"
    and run: "autocommit (list_clubs_stmt v (trim_space category) l' k') s = (Inr rs, s1)"
    and vs: "vs = map (\<lambda>(r, n, joined, role). (community_of env (r, n))\<lparr>com_joined := joined, com_role := role\<rparr>) rs"
    by (auto simp: ListCommunities_def club_id_ok dbm_ok)
  let ?ok = "\<lambda>r. (\<not> cl_private r \<or> cl_owner r = v \<or> member_of (durable s) (cl_id r) v) \<and> (trim_space category = [] \<or> cl_category r = trim_space category)"
  have rs: "r \<in> set (clubs (durable s)) \<and> ?ok r" if "(r, z) \<in> set rs" for r z
  proof -
    from autocommit_cases(2) [OF run refl] that obtain ys where
      "page_of l' k' (sort_key (\<lambda>r. if cl_owner r = v then 0 else if member_of (durable s) (cl_id r) v then 1 else 2 :: nat)
         (by_size (durable s) (filter ?ok (clubs (durable s))))) = Inr ys" "r \<in> set ys"
      by (auto simp: list_clubs_stmt_def split: sum.splits)
    from page_of_subset [OF this(1)] this(2) show ?thesis by (auto simp: by_size_def)
  qed
  have "list_ex (\<lambda>r. com_id x = ce_show env (cl_id r) \<and> com_name x = cl_name r \<and> club_visible (durable s) v (cl_id r) \<and>
      (trim_space category = [] \<or> cl_category r = trim_space category)) (clubs (durable s))" if "x \<in> set vs" for x
  proof -
    from that obtain r z where r: "(r, z) \<in> set rs" and x: "com_id x = ce_show env (cl_id r)" "com_name x = cl_name r"
      by (auto simp: vs community_of_def split: prod.splits)
    from rs [OF r] have "club_visible (durable s) v (cl_id r)" by (auto simp: club_visible_def list_ex_iff)
    with rs [OF r] x show ?thesis unfolding list_ex_iff by blast
  qed
  with v show ?thesis unfolding list_all_iff by blast
qed

section \<open>Guidelines\<close>

text \<open>What is to be stored of the guidelines of a request: trimmed, and in their order if they have none.\<close>

fun numbered :: "nat \<Rightarrow> guideline option list \<Rightarrow> (string \<times> string \<times> int \<times> bool) list" where
  "numbered n [] = []"
| "numbered n (None # gs) = numbered (Suc n) gs"
| "numbered n (Some g # gs) =
     (trim_space (gd_title g), trim_space (gd_desc g), if gd_order g < 0 then int n else gd_order g, gd_active g) # numbered (Suc n) gs"

definition rules_of :: "uuid \<Rightarrow> club_db \<Rightarrow> (string \<times> string \<times> int \<times> bool) list" where
  "rules_of k d = map (\<lambda>g. (gl_title g, gl_desc g, gl_order g, gl_active g)) (filter (\<lambda>g. gl_club g = k) (guidelines d))"

lemma add_guideline_added:
  assumes "add_guideline_stmt now new c title desc pos active d = Inr (x, d')"
  shows "\<exists>g. guidelines d' = guidelines d @ [g] \<and> gl_club g = c \<and> gl_title g = title \<and> gl_desc g = desc \<and> gl_order g = pos \<and> gl_active g = active"
  using assms by (auto simp: add_guideline_stmt_def dest!: inserted split: if_splits sum.splits)

lemma add_guidelines_ok:
  assumes "add_guidelines i k n gs s = (Inr (), s')"
  shows "rules_of k (durable s') = rules_of k (durable s) @ numbered n gs \<and>
    filter (\<lambda>g. gl_club g \<noteq> k) (guidelines (durable s')) = filter (\<lambda>g. gl_club g \<noteq> k) (guidelines (durable s)) \<and>
    list_all (\<lambda>(title, desc, _). title \<noteq> [] \<and> desc \<noteq> []) (numbered n gs)"
  using assms
proof (induction i k n gs arbitrary: s rule: add_guidelines.induct)
  case (1 i k n)
  then show ?case by (simp add: dreturn_def)
next
  case (2 i k n gs)
  from "2.IH" [of s] "2.prems" show ?case by simp
next
  case (3 i k n g gs)
  let ?title = "trim_space (gd_title g)" and ?desc = "trim_space (gd_desc g)" and ?pos = "if gd_order g < 0 then int n else gd_order g"
  from "3.prems" have blank: "?title \<noteq> []" "?desc \<noteq> []" by (auto simp: dfail_def split: if_splits)
  with "3.prems" obtain s1 where one: "autocommit (add_guideline_stmt (ci_now i) (ci_rows i n) k ?title ?desc ?pos (gd_active g)) s = (Inr (), s1)"
    and rest: "add_guidelines i k (Suc n) gs s1 = (Inr (), s')" by (auto simp: dbm_ok split: if_splits)
  from autocommit_cases(2) [OF one refl] have "add_guideline_stmt (ci_now i) (ci_rows i n) k ?title ?desc ?pos (gd_active g) (durable s) = Inr ((), durable s1)" .
  from add_guideline_added [OF this] obtain g' where "guidelines (durable s1) = guidelines (durable s) @ [g']"
    "gl_club g' = k" "gl_title g' = ?title" "gl_desc g' = ?desc" "gl_order g' = ?pos" "gl_active g' = gd_active g" by blast
  then have "rules_of k (durable s1) = rules_of k (durable s) @ [(?title, ?desc, ?pos, gd_active g)]"
    "filter (\<lambda>g. gl_club g \<noteq> k) (guidelines (durable s1)) = filter (\<lambda>g. gl_club g \<noteq> k) (guidelines (durable s))"
    by (simp_all add: rules_of_def)
  with "3.IH" [OF _ _ rest] blank show ?case by simp
qed

text \<open>
  C38. A confirmed change of the guidelines leaves the community exactly the guidelines of the request, trimmed, numbered and
  none of them blank, and those of all other communities as they were.
\<close>

theorem guidelines_replaced:
  assumes "handle_community env i u (SetGuidelinesReq c (Some gs)) s = (Inr (200, b), s')" and "ce_scan env (trim_space c) = Inr k"
  shows "rules_of k (durable s') = numbered 0 gs \<and> list_all (\<lambda>(title, desc, _). title \<noteq> [] \<and> desc \<noteq> []) (rules_of k (durable s')) \<and>
    filter (\<lambda>g. gl_club g \<noteq> k) (guidelines (durable s')) = filter (\<lambda>g. gl_club g \<noteq> k) (guidelines (durable s))"
proof -
  from assms(1) obtain v s1 where get: "GetCommunity env c s = (Inr v, s1)" and update: "UpdateGuidelines env i c gs s1 = (Inr (), s')"
    by (auto simp: handle_set_guidelines_def as_user_def own_club_def with_body_def done_with_def or_fail_ok dreturn_def
        club_unauthorized_def club_failed_def club_forbidden_def split: if_splits)
  from get have same: "durable s1 = durable s"
    by (auto simp: GetCommunity_def club_id_ok dbm_ok dest: autocommit_kept [OF _ club_reads(2)])
  from update assms(2) obtain s2 where clear: "autocommit (clear_guidelines_stmt k) s1 = (Inr (), s2)"
    and add: "add_guidelines i k 0 gs s2 = (Inr (), s')" by (auto simp: UpdateGuidelines_def club_id_ok dbm_ok)
  from autocommit_cases(2) [OF clear refl] have "durable s2 = durable s1\<lparr>guidelines := sql_delete (\<lambda>g. gl_club g = k) (guidelines (durable s1))\<rparr>"
    by (auto simp: clear_guidelines_stmt_def)
  with same have "guidelines (durable s2) = sql_delete (\<lambda>g. gl_club g = k) (guidelines (durable s))" by simp
  then have "rules_of k (durable s2) = []"
    "filter (\<lambda>g. gl_club g \<noteq> k) (guidelines (durable s2)) = filter (\<lambda>g. gl_club g \<noteq> k) (guidelines (durable s))"
    by (simp_all add: rules_of_def sql_delete_def)
  with add_guidelines_ok [OF add] show ?thesis by simp
qed
section \<open>Concrete inputs\<close>

text \<open>Identifiers printed as decimal numbers.\<close>

definition club_demo_env :: club_env where
  "club_demo_env = \<lparr>ce_scan = (\<lambda>x. case parse_int 200 x of None \<Rightarrow> Inl (Errorf ''uuid'') | Some n \<Rightarrow> Inr (word_of_int n)),
     ce_show = (\<lambda>w. show_nat (unat w)), ce_sanitize = id, ce_strip = id, ce_runes = map (\<lambda>c. ([c], is_digit c)),
     ce_ilike = (\<lambda>p t. False), ce_lower = to_lower, ce_time = (\<lambda>t. None), ce_member_key = True\<rparr>"

lemma trim_digits: "ds \<noteq> [] \<Longrightarrow> list_all is_digit ds \<Longrightarrow> trim_space ds = ds"
  by (rule trim_space_plain) (auto simp: list_all_iff intro!: digit_plain)

lemma parsed_trim:
  assumes "parse_int bits s = Some n"
  shows "trim_space s = s"
proof -
  have sign: "plain_byte (CHR ''-'')" "plain_byte (CHR ''+'')" by (simp_all add: plain_byte_def)
  show ?thesis
  proof (cases "has_prefix s ''-'' \<or> has_prefix s ''+''")
    case True
    then obtain c ds where s: "s = c # ds" "c = CHR ''-'' \<or> c = CHR ''+''" by (cases s) (auto simp: has_prefix_def)
    with assms True have "ds \<noteq> []" "list_all is_digit ds" by (auto simp: parse_int_def Let_def split: if_splits)
    then have "plain_byte (last s)" by (auto simp: s list_all_iff intro!: digit_plain)
    with s sign show ?thesis by (intro trim_space_plain) auto
  next
    case False
    with assms show ?thesis by (intro trim_digits) (auto simp: parse_int_def Let_def split: if_splits)
  qed
qed

lemma club_demo_ids: "ids_ok club_demo_env"
proof -
  have "ce_scan club_demo_env (ce_show club_demo_env k) = Inr k" for k
  proof -
    have "uint k < 2 ^ LENGTH(128)" by (rule unsigned_less)
    then have "int (unat k) < 2 ^ (200 - 1)" by simp
    from parse_int_shown [OF this] show ?thesis by (simp add: club_demo_env_def)
  qed
  moreover have "trim_space (ce_show club_demo_env k) = ce_show club_demo_env k" for k
    by (simp add: club_demo_env_def trim_digits show_nat_digits show_nat_nonempty)
  moreover have "ce_scan club_demo_env (trim_space x) = Inr k" if "ce_scan club_demo_env x = Inr k" for x k
    using that parsed_trim [of 200 x] by (auto simp: club_demo_env_def split: option.splits)
  ultimately show ?thesis by (simp add: ids_ok_def)
qed

lemma club_demo_scan [simp]: "ce_scan club_demo_env ''1'' = Inr 1" "ce_scan club_demo_env ''2'' = Inr 2"
    "ce_scan club_demo_env ''3'' = Inr 3" "ce_scan club_demo_env ''5'' = Inr 5" "ce_scan club_demo_env ''6'' = Inr 6"
    "ce_scan club_demo_env ''8'' = Inr 8"
  by (simp_all add: club_demo_env_def parse_int_def has_prefix_def is_digit_def read_digits_def digit_val_def Let_def)

lemma club_demo_trim [simp]: "trim_space ''1'' = ''1''" "trim_space ''2'' = ''2''" "trim_space ''3'' = ''3''" "trim_space ''5'' = ''5''"
    "trim_space ''6'' = ''6''" "trim_space ''8'' = ''8''" "trim_space ''t'' = ''t''" "trim_space ''d'' = ''d''"
  by (simp_all add: trim_space_plain plain_byte_def)

lemma club_demo_actor [simp]: "actor club_demo_env ''1'' = Some 1" "actor club_demo_env ''2'' = Some 2" "actor club_demo_env ''3'' = Some 3"
  by (simp_all add: actor_def)

lemma club_demo_show [simp]: "ce_show club_demo_env 1 = ''1''" "ce_show club_demo_env 5 = ''5''"
  by (simp_all add: club_demo_env_def show_nat.simps digit_char_def char_of_def bit_0)

definition club_demo_user :: "uuid \<Rightarrow> user_row" where
  "club_demo_user n = \<lparr>us_id = n, us_username = ''u'', us_display = None, us_bio = None, us_avatar = None, us_verified = False,
     us_private = None, us_created = 0\<rparr>"

definition club_demo_club :: "uuid \<Rightarrow> bool \<Rightarrow> club_row" where
  "club_demo_club k private = \<lparr>cl_id = k, cl_owner = 1, cl_name = ''c'', cl_slug = None, cl_desc = None, cl_avatar = None, cl_banner = [],
     cl_private = private, cl_verified = False, cl_category = ''general'', cl_tags = [], cl_rules = [], cl_created = 3, cl_updated = 3\<rparr>"

text \<open>The user 1 owns the public community 5 and the private one 6; in the first the user 2 is banned.\<close>

definition club_demo_banned :: member_row where
  "club_demo_banned = \<lparr>mb_club = 5, mb_user = 2, mb_role = ''banned'', mb_joined = 4\<rparr>"

definition club_demo_thread :: thread_row where
  "club_demo_thread = \<lparr>th_id = 8, th_collective = 7, th_author = 1, th_title = ''t'', th_content = ''x'', th_resonance = 0, th_pinned = False,
     th_locked = True, th_announcement = False, th_tags = [], th_category = ''general'', th_created = 3, th_updated = 3\<rparr>"

definition club_demo_db :: club_db where
  "club_demo_db = \<lparr>people = [club_demo_user 1, club_demo_user 2, club_demo_user 3], clubs = [club_demo_club 5 False, club_demo_club 6 True],
     memberships = [\<lparr>mb_club = 5, mb_user = 1, mb_role = ''owner'', mb_joined = 3\<rparr>, club_demo_banned],
     guidelines = [\<lparr>gl_id = 9, gl_club = 5, gl_title = ''a'', gl_desc = ''b'', gl_order = 0, gl_active = True, gl_created = 3\<rparr>],
     proposals = [], attendees = [], collectives = [], collective_members = [], threads = [club_demo_thread], replies = [],
     subscriptions = []\<rparr>"

definition club_demo :: "club_db session" where
  "club_demo = \<lparr>durable = club_demo_db, view = club_demo_db, aborted = False, outcomes = []\<rparr>"

definition club_demo_input :: club_input where
  "club_demo_input = \<lparr>ci_now = 20, ci_new = 30, ci_rows = (\<lambda>n. 40 + of_nat n), ci_uuid = 60\<rparr>"

lemmas club_demo_defs = club_demo_def club_demo_db_def club_demo_user_def club_demo_club_def club_demo_banned_def club_demo_thread_def
  club_demo_input_def

lemmas club_run_defs = or_fail_def club_id_def raw_id_def membership_def autocommit_def next_outcome_def dbind_def dreturn_def dreply_def
  dfail_def as_user_def with_body_def done_with_def own_club_def if_seen_def Let_def

lemma club_demo_keys: "club_keys (durable club_demo)" "distinct (map mb_key (memberships (durable club_demo)))"
  by (simp_all add: club_keys_def mb_key_def club_demo_defs)

theorem club_changes_authorised_witness:
  "club_within True (Some 3) club_demo_db (durable (snd (handle_community club_demo_env club_demo_input ''3'' (JoinReq ''5'') club_demo)))"
  using club_changes_authorised [OF club_demo_ids club_demo_keys(1), of "''3''" club_demo_input "JoinReq ''5''"]
  by (simp add: club_demo_def club_demo_env_def [THEN arg_cong [where f = ce_member_key]] del: handle_community.simps)

theorem private_communities_closed_witness:
  "private_closed (durable (run_community club_demo_env [(club_demo_input, [], ''2'', JoinReq ''6'')] club_demo))"
  by (rule private_communities_closed [OF club_demo_ids club_demo_keys(1)]) (simp add: private_closed_def club_demo_defs)

lemma or_fail_run: "m s = (Inr a, s') \<Longrightarrow> or_fail m k s = k a s'"
  by (simp add: or_fail_def dreply_def dattempt_def dbind_def)

lemma club_demo_get: "GetCommunity club_demo_env ''5'' club_demo = (Inr (community_of club_demo_env (club_demo_club 5 False, 1)), club_demo)"
  by (simp add: GetCommunity_def club_run_defs club_stmt_def active_members_def club_demo_defs)

lemma club_demo_view:
  "handle_community club_demo_env club_demo_input ''2'' (ClubReq ''5'') club_demo =
     (Inr (200, ClCommunity (community_of club_demo_env (club_demo_club 5 False, 1))), club_demo)"
proof -
  have "CanViewCommunity club_demo_env ''2'' ''5'' club_demo = (Inr True, club_demo)"
    by (simp add: CanViewCommunity_def club_run_defs can_view_club_stmt_def club_visible_def club_demo_defs)
  then show ?thesis
    by (simp add: handle_club_def as_user_def dreturn_def if_seen_def or_fail_run [where s = club_demo] club_demo_get)
qed

theorem club_answers_visible_witness: "list_ex (club_visible club_demo_db 2) [5 :: uuid]"
proof -
  have "club_subject (ClubReq ''5'') = Some ''5''" by simp
  from club_answers_visible [OF club_demo_view this] show ?thesis by (simp add: club_demo_def)
qed

lemma club_demo_list:
  "\<exists>v. handle_community club_demo_env club_demo_input ''2'' (ListClubsReq [] ([], [])) club_demo = (Inr (200, ClCommunities [v]), club_demo)"
proof -
  have "pageArgs ([], []) 20 = (20, 0)" by (simp add: pageArgs_def wrap32_def)
  moreover have "\<exists>v. ListCommunities club_demo_env ''2'' [] 20 0 club_demo = (Inr [v], club_demo)"
    by (simp add: ListCommunities_def club_run_defs list_clubs_stmt_def clamp_limit_def page_of_def by_size_def member_of_def
        active_members_def club_demo_defs)
  then obtain v where "ListCommunities club_demo_env ''2'' [] 20 0 club_demo = (Inr [v], club_demo)" ..
  ultimately show ?thesis by (simp add: handle_list_clubs_def as_user_def or_fail_run [where s = club_demo] dreturn_def)
qed

theorem club_list_visible_witness:
  "\<exists>v. handle_community club_demo_env club_demo_input ''2'' (ListClubsReq [] ([], [])) club_demo = (Inr (200, ClCommunities [v]), club_demo) \<and>
     list_ex (\<lambda>r. com_name v = cl_name r \<and> club_visible club_demo_db 2 (cl_id r)) (clubs club_demo_db)"
proof -
  obtain v where run: "handle_community club_demo_env club_demo_input ''2'' (ListClubsReq [] ([], [])) club_demo = (Inr (200, ClCommunities [v]), club_demo)"
    using club_demo_list ..
  have "durable club_demo = club_demo_db" by (simp add: club_demo_def)
  with club_list_visible [OF run]
  have "list_ex (\<lambda>r. com_name v = cl_name r \<and> club_visible club_demo_db 2 (cl_id r)) (clubs club_demo_db)"
    by (auto simp: list_ex_iff)
  with run show ?thesis by blast
qed

theorem guidelines_replaced_witness:
  "\<exists>b s'. handle_community club_demo_env club_demo_input ''1''
      (SetGuidelinesReq ''5'' (Some [Some \<lparr>gd_id = [], gd_club = [], gd_title = ''t'', gd_desc = ''d'', gd_order = -1, gd_active = True, gd_created = 0\<rparr>]))
      club_demo = (Inr (200, b), s') \<and> rules_of 5 (durable s') = [(''t'', ''d'', 0, True)]"
proof -
  let ?c = "SetGuidelinesReq ''5'' (Some [Some \<lparr>gd_id = [], gd_club = [], gd_title = ''t'', gd_desc = ''d'', gd_order = -1, gd_active = True, gd_created = 0\<rparr>])"
  have "\<exists>b s'. handle_community club_demo_env club_demo_input ''1'' ?c club_demo = (Inr (200, b), s')"
    by (simp add: handle_set_guidelines_def as_user_def own_club_def with_body_def or_fail_run [where s = club_demo] club_demo_get community_of_def)
      (simp add: done_with_def or_fail_def dreply_def dattempt_def UpdateGuidelines_def club_id_def dbind_def autocommit_def next_outcome_def
        clear_guidelines_stmt_def add_guideline_stmt_def sql_insert_def sql_delete_def fits32_def min_int32_def max_int32_def dreturn_def club_demo_defs)
  then obtain b s' where run: "handle_community club_demo_env club_demo_input ''1'' ?c club_demo = (Inr (200, b), s')" by blast
  from guidelines_replaced [OF run, of 5] have "rules_of 5 (durable s') = [(''t'', ''d'', 0, True)]" by simp
  with run show ?thesis by blast
qed
section \<open>What the code does not check\<close>

text \<open>Without a key of the memberships a banned user joins again by an ordinary request.\<close>

lemma ban_evaded_without_key:
  "member_of (durable (snd (handle_community (club_demo_env\<lparr>ce_member_key := False\<rparr>) club_demo_input ''2'' (JoinReq ''5'') club_demo))) 5 2"
proof -
  let ?env = "club_demo_env\<lparr>ce_member_key := False\<rparr>"
  have "GetCommunity ?env ''5'' club_demo = (Inr (community_of ?env (club_demo_club 5 False, 1)), club_demo)"
    by (simp add: GetCommunity_def club_run_defs club_stmt_def active_members_def club_demo_defs)
  then show ?thesis
    by (simp add: handle_join_def as_user_def or_fail_run [where s = club_demo] community_of_def club_demo_club_def)
      (simp add: done_with_def or_fail_def dreply_def dattempt_def JoinCommunity_def club_id_def dbind_def autocommit_def
        next_outcome_def join_stmt_def dreturn_def member_of_def active_members_def club_demo_defs)
qed

text \<open>Anybody pins a thread, and a locked one takes replies.\<close>

lemma anybody_pins:
  "list_ex th_pinned (threads (durable (snd (handle_community club_demo_env club_demo_input ''3'' (PinReq ''8'' (Some True)) club_demo))))"
  by (simp add: handle_pin_def PinThread_def with_body_def done_with_def or_fail_def dreply_def dattempt_def club_id_def dbind_def
      autocommit_def next_outcome_def update_threads_def sql_update_def dreturn_def club_demo_defs)

lemma locked_thread_takes_replies:
  "list_ex th_locked (threads club_demo_db) \<and>
   length (replies (durable (snd (handle_community club_demo_env club_demo_input ''3'' (ReplyReq ''8'' (Some (''r'', None))) club_demo)))) = 1"
  by (simp add: handle_reply_def ReplyToThread_def CreateThreadReply_def as_user_def raw_id_def with_body_def or_fail_def dreply_def
      dattempt_def dbind_def autocommit_def next_outcome_def create_reply_stmt_def known_def sql_insert_def dreturn_def club_demo_defs Let_def)

text \<open>A request whose second guideline is blank answers 500 and has replaced the guidelines by the first one.\<close>

lemma failed_guidelines_lost:
  "\<exists>s'. handle_community club_demo_env club_demo_input ''1'' (SetGuidelinesReq ''5'' (Some [
      Some \<lparr>gd_id = [], gd_club = [], gd_title = ''t'', gd_desc = ''d'', gd_order = -1, gd_active = True, gd_created = 0\<rparr>,
      Some \<lparr>gd_id = [], gd_club = [], gd_title = [], gd_desc = ''d'', gd_order = -1, gd_active = True, gd_created = 0\<rparr>])) club_demo
     = (Inr club_failed, s') \<and> rules_of 5 (durable s') = [(''t'', ''d'', 0, True)]"
  by (simp add: handle_set_guidelines_def as_user_def own_club_def with_body_def or_fail_run [where s = club_demo] club_demo_get community_of_def)
    (simp add: done_with_def or_fail_def dreply_def dattempt_def UpdateGuidelines_def club_id_def dbind_def dfail_def autocommit_def
      next_outcome_def clear_guidelines_stmt_def add_guideline_stmt_def sql_insert_def sql_delete_def fits32_def min_int32_def max_int32_def
      dreturn_def rules_of_def club_demo_defs)

text \<open>A new event is answered with an identifier that is not the one it is stored under.\<close>

lemma created_event_unknown:
  "OrganizeEvent club_demo_env club_demo_input \<lparr>evt_id = [], evt_creator = ''1'', evt_club = None, evt_title = ''t'', evt_desc = [],
      evt_start = 30, evt_end = 40, evt_status = [], evt_created = zero_instant, evt_updated = zero_instant\<rparr> club_demo = (Inr e, s') \<Longrightarrow>
   evt_id e = ce_show club_demo_env 60 \<and> map pr_id (proposals (durable s')) = [30]"
proof -
  have shown: "ce_show club_demo_env 60 \<noteq> []" by (simp add: club_demo_env_def show_nat_nonempty)
  assume "OrganizeEvent club_demo_env club_demo_input \<lparr>evt_id = [], evt_creator = ''1'', evt_club = None, evt_title = ''t'', evt_desc = [],
      evt_start = 30, evt_end = 40, evt_status = [], evt_created = zero_instant, evt_updated = zero_instant\<rparr> club_demo = (Inr e, s')"
  then show ?thesis
    using shown by (auto simp: OrganizeEvent_def CreateEvent_def club_id_def Let_def dbind_def autocommit_def next_outcome_def
        create_event_stmt_def sql_insert_def dreturn_def club_demo_defs)
qed

end
