(* ===== verification/Stories.thy ===== *)
theory Stories
  imports Complex_Main Social Encoding
begin

text \<open>
  Stories: \<open>modules/stories\<close> over PostgreSQL, on the graph of \<open>Social\<close>. Columns and keys are those of the migrations, except
  \<open>is_archived\<close>, which the statements read and no migration creates: whether the table has it is a part of the state, and
  without it those statements fail. Identifiers are parameters. Highlights are refused by the repository.
\<close>

section \<open>Tables\<close>

record story_row =
  st_id :: uuid
  st_author :: uuid
  st_media :: string
  st_type :: string
  st_visibility :: string
  st_archived :: bool
  st_expires :: int
  st_created :: int

text \<open>
  \<open>has_archived\<close> says that \<open>stories\<close> has the column \<open>is_archived\<close>; without it \<open>st_archived\<close> means nothing. Views are \<open>((story, viewer), instant)\<close>, reactions
  \<open>((story, user), (emoji, instant))\<close>.
\<close>

record story_db =
  story_graph :: social_db
  has_archived :: bool
  story_rows :: "story_row list"
  story_views :: "((uuid \<times> uuid) \<times> int) list"
  story_marks :: "((uuid \<times> uuid) \<times> string \<times> int) list"

record story_env =
  se_scan :: "string \<Rightarrow> uuid res"
  se_show :: "uuid \<Rightarrow> string"

record story_input =
  sn_now :: int
  sn_new :: uuid

record story =
  sy_id :: string
  sy_author :: string
  sy_username :: string
  sy_avatar :: string
  sy_media :: string
  sy_type :: string
  sy_created :: int
  sy_expires :: int
  sy_viewed :: bool
  sy_views :: nat
  sy_reactions :: nat

record story_viewer =
  sv_id :: string
  sv_username :: string
  sv_display :: string
  sv_avatar :: string

section \<open>Statements\<close>

definition hour :: int where "hour = 60 * 60 * 1000000000"

definition create_story_stmt :: "story_input \<Rightarrow> uuid \<Rightarrow> string \<Rightarrow> string \<Rightarrow> int \<Rightarrow> (story_db, story_row) sql" where
  "create_story_stmt i u media kind hours d =
     (if \<not> fits32 hours then Inl (Errorf ''failed to encode args'')
      else if \<not> user_exists (story_graph d) u then Inl (violates ''foreign_key'')
      else let r = \<lparr>st_id = sn_new i, st_author = u, st_media = media, st_type = kind, st_visibility = ''followers'', st_archived = False,
                    st_expires = sn_now i + hours * hour, st_created = sn_now i\<rparr>
           in (case sql_insert st_id r (story_rows d) of Inl e \<Rightarrow> Inl e | Inr rs \<Rightarrow> Inr (r, d\<lparr>story_rows := rs\<rparr>)))"

text \<open>The condition on a story that four statements share, where the column it reads exists.\<close>

definition undefined_column :: goerr where "undefined_column = Constraint ''undefined_column''"

definition story_open :: "int \<Rightarrow> social_db \<Rightarrow> uuid \<Rightarrow> story_row \<Rightarrow> bool" where
  "story_open now g u s \<longleftrightarrow> now < st_expires s \<and> \<not> st_archived s \<and>
     (st_author s = u \<or> st_visibility s = ''public'' \<or> accepted g u (st_author s))"

text \<open>With the author, whether the viewer has seen it, and the numbers of views and reactions.\<close>

definition story_details :: "uuid \<Rightarrow> story_db \<Rightarrow> story_row \<times> user_row \<Rightarrow> story_row \<times> user_row \<times> bool \<times> nat \<times> nat" where
  "story_details u d = (\<lambda>(s, a). (s, a, (st_id s, u) \<in> fst ` set (story_views d),
     length (filter (\<lambda>v. fst (fst v) = st_id s) (story_views d)), length (filter (\<lambda>m. fst (fst m) = st_id s) (story_marks d))))"

definition newest :: "(story_row \<times> user_row) list \<Rightarrow> (story_row \<times> user_row) list" where
  "newest xs = sort_key (\<lambda>(s, _). - st_created s) (sort_key (\<lambda>(s, _). - uint (st_id s)) xs)"

definition open_stories :: "int \<Rightarrow> uuid \<Rightarrow> story_db \<Rightarrow> (story_row \<times> user_row) list" where
  "open_stories now u d =
     newest (concat (map (\<lambda>s. map (Pair s) (filter (\<lambda>a. us_id a = st_author s) (susers (story_graph d))))
       (filter (story_open now (story_graph d) u) (story_rows d))))"

definition active_stories_stmt :: "int \<Rightarrow> uuid \<Rightarrow> (story_db, (story_row \<times> user_row \<times> bool \<times> nat \<times> nat) list) sql" where
  "active_stories_stmt now u d =
     (if \<not> has_archived d then Inl undefined_column
      else Inr (map (story_details u d) (take 100 (open_stories now u d)), d))"

definition latest_story_stmt :: "int \<Rightarrow> uuid \<Rightarrow> uuid \<Rightarrow> (story_db, story_row \<times> user_row \<times> bool \<times> nat \<times> nat) sql" where
  "latest_story_stmt now author u d =
     (if \<not> has_archived d then Inl undefined_column
      else case filter (\<lambda>(s, _). st_author s = author) (open_stories now u d) of
             [] \<Rightarrow> Inl NoRows | x # _ \<Rightarrow> Inr (story_details u d x, d))"

text \<open>The results are the numbers of affected rows.\<close>

definition may_mark :: "int \<Rightarrow> story_db \<Rightarrow> uuid \<Rightarrow> uuid \<Rightarrow> bool" where
  "may_mark now d s u \<longleftrightarrow> list_ex (\<lambda>r. st_id r = s \<and> story_open now (story_graph d) u r) (story_rows d)"

definition view_story_stmt :: "int \<Rightarrow> uuid \<Rightarrow> uuid \<Rightarrow> (story_db, nat) sql" where
  "view_story_stmt now s u d =
     (if \<not> has_archived d then Inl undefined_column
      else if \<not> may_mark now d s u then Inr (0, d)
      else if \<not> user_exists (story_graph d) u then Inl (violates ''foreign_key'')
      else Inr (1, d\<lparr>story_views := sql_upsert fst ((s, u), now) (\<lambda>v. (fst v, now)) (story_views d)\<rparr>))"

definition react_story_stmt :: "int \<Rightarrow> uuid \<Rightarrow> uuid \<Rightarrow> string \<Rightarrow> (story_db, nat) sql" where
  "react_story_stmt now s u emoji d =
     (if \<not> has_archived d then Inl undefined_column
      else if \<not> may_mark now d s u then Inr (0, d)
      else if \<not> user_exists (story_graph d) u then Inl (violates ''foreign_key'')
      else Inr (1, d\<lparr>story_marks := sql_upsert fst ((s, u), (emoji, now)) (\<lambda>m. (fst m, (emoji, now))) (story_marks d)\<rparr>))"

definition viewers_stmt :: "uuid \<Rightarrow> uuid \<Rightarrow> (story_db, user_row list) sql" where
  "viewers_stmt s u d =
     (if \<not> list_ex (\<lambda>r. st_id r = s \<and> st_author r = u) (story_rows d) then Inr ([], d)
      else Inr (concat (map (\<lambda>v. filter (\<lambda>a. us_id a = snd (fst v)) (susers (story_graph d)))
             (sort_key (\<lambda>v. - snd v) (filter (\<lambda>v. fst (fst v) = s) (story_views d)))), d))"

section \<open>Repository\<close>

definition parseStoryUUID :: "story_env \<Rightarrow> string \<Rightarrow> (uuid \<Rightarrow> (story_db, 'a) dbm) \<Rightarrow> (story_db, 'a) dbm" where
  "parseStoryUUID env x k = (case se_scan env (trim_space x) of Inl e \<Rightarrow> dfail (Wrapf ''invalid uuid'' e) | Inr a \<Rightarrow> k a)"

definition CreateStory :: "story_env \<Rightarrow> story_input \<Rightarrow> string \<Rightarrow> string \<Rightarrow> string \<Rightarrow> int \<Rightarrow> (story_db, story) dbm" where
  "CreateStory env i u media kind hours =
     parseStoryUUID env u (\<lambda>u.
       dbind (autocommit (create_story_stmt i u media kind (if hours \<le> 0 then 24 else hours))) (\<lambda>r.
       dreturn \<lparr>sy_id = se_show env (st_id r), sy_author = se_show env (st_author r), sy_username = [], sy_avatar = [],
         sy_media = st_media r, sy_type = st_type r, sy_created = st_created r, sy_expires = st_expires r, sy_viewed = False,
         sy_views = 0, sy_reactions = 0\<rparr>))"

definition story_of :: "story_env \<Rightarrow> story_row \<times> user_row \<times> bool \<times> nat \<times> nat \<Rightarrow> story" where
  "story_of env = (\<lambda>(s, a, viewed, views, marks). \<lparr>sy_id = se_show env (st_id s), sy_author = se_show env (st_author s),
     sy_username = us_username a, sy_avatar = (case us_avatar a of None \<Rightarrow> [] | Some x \<Rightarrow> x), sy_media = st_media s, sy_type = st_type s,
     sy_created = st_created s, sy_expires = st_expires s, sy_viewed = viewed, sy_views = views, sy_reactions = marks\<rparr>)"

definition GetActiveStories :: "story_env \<Rightarrow> int \<Rightarrow> string \<Rightarrow> (story_db, story list) dbm" where
  "GetActiveStories env now u =
     parseStoryUUID env u (\<lambda>u. dbind (autocommit (active_stories_stmt now u)) (\<lambda>rs. dreturn (map (story_of env) rs)))"

definition GetLatestStoryForUser :: "story_env \<Rightarrow> int \<Rightarrow> string \<Rightarrow> string \<Rightarrow> (story_db, story) dbm" where
  "GetLatestStoryForUser env now author u =
     parseStoryUUID env author (\<lambda>a. parseStoryUUID env u (\<lambda>u.
       dbind (autocommit (latest_story_stmt now a u)) (\<lambda>r. dreturn (story_of env r))))"

definition marked :: "(story_db, nat) dbm \<Rightarrow> (story_db, unit) dbm" where
  "marked m = dbind m (\<lambda>n. if n = 0 then dfail (Errorf ''story is not available'') else dreturn ())"

definition RecordView :: "story_env \<Rightarrow> int \<Rightarrow> string \<Rightarrow> string \<Rightarrow> (story_db, unit) dbm" where
  "RecordView env now s u = parseStoryUUID env s (\<lambda>s. parseStoryUUID env u (\<lambda>u. marked (autocommit (view_story_stmt now s u))))"

definition story_React :: "story_env \<Rightarrow> int \<Rightarrow> string \<Rightarrow> string \<Rightarrow> string \<Rightarrow> (story_db, unit) dbm" where
  "story_React env now s u emoji =
     parseStoryUUID env s (\<lambda>s. parseStoryUUID env u (\<lambda>u.
       if trim_space emoji = [] then dfail (Errorf ''emoji is required'')
       else marked (autocommit (react_story_stmt now s u (trim_space emoji)))))"

definition GetStoryViewers :: "story_env \<Rightarrow> string \<Rightarrow> string \<Rightarrow> (story_db, story_viewer list) dbm" where
  "GetStoryViewers env s u =
     parseStoryUUID env s (\<lambda>s. parseStoryUUID env u (\<lambda>u. dbind (autocommit (viewers_stmt s u)) (\<lambda>rs.
       dreturn (map (\<lambda>a. \<lparr>sv_id = se_show env (us_id a), sv_username = us_username a,
         sv_display = (case us_display a of None \<Rightarrow> [] | Some x \<Rightarrow> x), sv_avatar = (case us_avatar a of None \<Rightarrow> [] | Some x \<Rightarrow> x)\<rparr>) rs))))"

definition PostStory :: "story_env \<Rightarrow> story_input \<Rightarrow> string \<Rightarrow> string \<Rightarrow> string \<Rightarrow> int \<Rightarrow> (story_db, story) dbm" where
  "PostStory env i u media kind hours = CreateStory env i u media kind (if hours \<le> 0 then 24 else hours)"

section \<open>Handlers\<close>

datatype story_body =
    SyError string
  | SyStory story
  | SyStories "story list"
  | SyViewers "story_viewer list"
  | SyNothing

type_synonym story_op = "(story_db, int \<times> story_body) dbm"

definition answer_or :: "(story_db, 'a) dbm \<Rightarrow> int \<Rightarrow> string \<Rightarrow> ('a \<Rightarrow> int \<times> story_body) \<Rightarrow> story_op" where
  "answer_or m code text k = dreply m (\<lambda>_. (code, SyError text)) (\<lambda>a. dreturn (k a))"

definition signed_in :: "bool \<Rightarrow> story_op \<Rightarrow> story_op" where
  "signed_in b k = (if \<not> b then dreturn (401, SyError ''authentication required'') else k)"

definition handle_post_story :: "story_env \<Rightarrow> story_input \<Rightarrow> string \<Rightarrow> (string \<times> string) option \<Rightarrow> story_op" where
  "handle_post_story env i u b =
     signed_in (u \<noteq> []) (case b of
         None \<Rightarrow> dreturn (400, SyError ''invalid request'')
       | Some (media, kind) \<Rightarrow>
           if trim_space media = [] \<or> trim_space kind = [] then dreturn (400, SyError ''media_url and media_type are required'')
           else answer_or (PostStory env i u media kind 24) 500 ''failed to create story'' (\<lambda>s. (201, SyStory s)))"

definition handle_stories :: "story_env \<Rightarrow> story_input \<Rightarrow> string \<Rightarrow> story_op" where
  "handle_stories env i u =
     signed_in (u \<noteq> []) (answer_or (GetActiveStories env (sn_now i) u) 500 ''failed to load stories'' (\<lambda>s. (200, SyStories s)))"

definition handle_user_story :: "story_env \<Rightarrow> story_input \<Rightarrow> string \<Rightarrow> string \<Rightarrow> story_op" where
  "handle_user_story env i u author =
     signed_in (trim_space u \<noteq> []) (if trim_space author = [] then dreturn (400, SyError ''user_id is required'')
       else answer_or (GetLatestStoryForUser env (sn_now i) (trim_space author) u) 404 ''story not found'' (\<lambda>s. (200, SyStory s)))"

definition handle_view_story :: "story_env \<Rightarrow> story_input \<Rightarrow> string \<Rightarrow> string \<Rightarrow> story_op" where
  "handle_view_story env i u s =
     signed_in (u \<noteq> []) (answer_or (RecordView env (sn_now i) s u) 400 ''failed to record view'' (\<lambda>_. (204, SyNothing)))"

definition handle_react_story :: "story_env \<Rightarrow> story_input \<Rightarrow> string \<Rightarrow> string \<Rightarrow> string option \<Rightarrow> story_op" where
  "handle_react_story env i u s b =
     signed_in (u \<noteq> []) (case b of
         None \<Rightarrow> dreturn (400, SyError ''emoji is required'')
       | Some emoji \<Rightarrow>
           if trim_space emoji = [] then dreturn (400, SyError ''emoji is required'')
           else answer_or (story_React env (sn_now i) s u emoji) 400 ''failed to react to story'' (\<lambda>_. (204, SyNothing)))"

definition handle_viewers :: "story_env \<Rightarrow> string \<Rightarrow> string \<Rightarrow> story_op" where
  "handle_viewers env u s =
     signed_in (trim_space u \<noteq> []) (answer_or (GetStoryViewers env s u) 500 ''failed to load story viewers'' (\<lambda>v. (200, SyViewers v)))"

datatype story_call =
    PostStoryReq "(string \<times> string) option"
  | StoriesReq
  | UserStoryReq string
  | ViewStoryReq string
  | ReactStoryReq string "string option"
  | ViewersReq string

fun handle_story :: "story_env \<Rightarrow> story_input \<Rightarrow> string \<Rightarrow> story_call \<Rightarrow> story_op" where
  "handle_story env i u (PostStoryReq b) = handle_post_story env i u b"
| "handle_story env i u StoriesReq = handle_stories env i u"
| "handle_story env i u (UserStoryReq author) = handle_user_story env i u author"
| "handle_story env i u (ViewStoryReq s) = handle_view_story env i u s"
| "handle_story env i u (ReactStoryReq s b) = handle_react_story env i u s b"
| "handle_story env i u (ViewersReq s) = handle_viewers env u s"
section \<open>Who may change what\<close>

text \<open>The keys under which a user has marked stories are old ones, or the user's own on a story open to the user.\<close>

definition marks_from :: "int \<Rightarrow> uuid option \<Rightarrow> story_db \<Rightarrow> (uuid \<times> uuid) set \<Rightarrow> (uuid \<times> uuid) set \<Rightarrow> bool" where
  "marks_from now u d' old new \<longleftrightarrow> (\<forall>(s, v)\<in>new. (s, v) \<in> old \<or> (Some v = u \<and> may_mark now d' s v))"

text \<open>
  The specification of a request of the user \<open>u\<close> at \<open>now\<close>: the graph stays, stories are only added and only by their author,
  views and reactions of others stay, and those of the user are on stories that are open to the user.
\<close>

definition story_within :: "int \<Rightarrow> uuid option \<Rightarrow> story_db \<Rightarrow> story_db \<Rightarrow> bool" where
  "story_within now u d d' \<longleftrightarrow>
     story_graph d' = story_graph d \<and>
     (\<exists>new. story_rows d' = story_rows d @ new \<and> list_all (\<lambda>s. Some (st_author s) = u \<and> st_visibility s = ''followers'') new) \<and>
     rest_of u (\<lambda>v. snd (fst v)) (story_views d') = rest_of u (\<lambda>v. snd (fst v)) (story_views d) \<and>
     rest_of u (\<lambda>m. snd (fst m)) (story_marks d') = rest_of u (\<lambda>m. snd (fst m)) (story_marks d) \<and>
     marks_from now u d' (fst ` set (story_views d)) (fst ` set (story_views d')) \<and>
     marks_from now u d' (fst ` set (story_marks d)) (fst ` set (story_marks d')) \<and>
     (distinct (map st_id (story_rows d)) \<longrightarrow> distinct (map st_id (story_rows d'))) \<and>
     (distinct (map fst (story_views d)) \<longrightarrow> distinct (map fst (story_views d')))"

lemma marks_from_refl [simp]: "marks_from now u d' A A"
  by (auto simp: marks_from_def)

lemma story_within_refl: "story_within now u d d"
  by (simp add: story_within_def)

lemma may_mark_grows:
  assumes "story_within now u d d'" and "may_mark now d s v"
  shows "may_mark now d' s v"
proof -
  from assms(1) obtain new where "story_graph d' = story_graph d" "story_rows d' = story_rows d @ new"
    unfolding story_within_def by (elim conjE exE)
  with assms(2) show ?thesis by (simp add: may_mark_def)
qed

lemma marks_from_trans:
  assumes "story_within now u d' d''" and "marks_from now u d' A B" and "marks_from now u d'' B C"
  shows "marks_from now u d'' A C"
  using assms(2,3) may_mark_grows [OF assms(1)] unfolding marks_from_def by fastforce

lemma story_within_trans:
  assumes "story_within now u d d'" and "story_within now u d' d''"
  shows "story_within now u d d''"
proof -
  note 1 = assms(1) [unfolded story_within_def] and 2 = assms(2) [unfolded story_within_def]
  have rows: "\<exists>new. story_rows d'' = story_rows d @ new \<and> list_all (\<lambda>s. Some (st_author s) = u \<and> st_visibility s = ''followers'') new"
  proof -
    from 1 obtain n1 where "story_rows d' = story_rows d @ n1" "list_all (\<lambda>s. Some (st_author s) = u \<and> st_visibility s = ''followers'') n1"
      by (elim conjE exE)
    moreover from 2 obtain n2 where "story_rows d'' = story_rows d' @ n2"
      "list_all (\<lambda>s. Some (st_author s) = u \<and> st_visibility s = ''followers'') n2" by (elim conjE exE)
    ultimately show ?thesis by simp
  qed
  have marks: "marks_from now u d'' (fst ` set (story_views d)) (fst ` set (story_views d''))"
    "marks_from now u d'' (fst ` set (story_marks d)) (fst ` set (story_marks d''))"
    using 1 2 by (elim conjE, blast intro: marks_from_trans [OF assms(2)])+
  show ?thesis
    unfolding story_within_def
    by (intro conjI rows marks impI) (use 1 2 in \<open>(elim conjE, simp only: simp_thms)+\<close>)
qed

interpretation stories: evolution "story_within now u" for now u
  by unfold_locales (auto intro: story_within_refl story_within_trans)

section \<open>Requests within the specification\<close>

definition story_actor :: "story_env \<Rightarrow> string \<Rightarrow> uuid option" where
  "story_actor env x = (case se_scan env (trim_space x) of Inl _ \<Rightarrow> None | Inr u \<Rightarrow> Some u)"

lemma create_story_within: "create_story_stmt i v media kind hours d = Inr (r, d') \<Longrightarrow> story_within now (Some v) d d'"
  by (auto simp: create_story_stmt_def Let_def story_within_def sql_insert_def split: if_splits sum.splits)

lemma marks_upsert:
  assumes "may_mark now d' s v" and "\<And>x. fst (f x) = fst x"
  shows "marks_from now (Some v) d' (fst ` set xs) (fst ` set (sql_upsert fst ((s, v), y) f xs))"
proof -
  have "marks_from now (Some v) d' A (insert (s, v) A)" for A using assms(1) by (auto simp: marks_from_def)
  then show ?thesis using keys_sql_upsert [of fst f "((s, v), y)" xs] by (simp add: assms(2))
qed

lemma view_story_within:
  assumes "view_story_stmt now s v d = Inr (n, d')"
  shows "story_within now (Some v) d d'"
proof (cases "may_mark now d s v")
  case True
  with assms have d': "d' = d\<lparr>story_views := sql_upsert fst ((s, v), now) (\<lambda>x. (fst x, now)) (story_views d)\<rparr>"
    by (simp add: view_story_stmt_def split: if_splits)
  have "may_mark now d' s v" using True by (simp add: d' may_mark_def)
  moreover have "rest_of (Some v) (\<lambda>x. snd (fst x)) (sql_upsert fst ((s, v), now) (\<lambda>x. (fst x, now)) (story_views d)) =
      rest_of (Some v) (\<lambda>x. snd (fst x)) (story_views d)" by (rule rest_of_upsert) auto
  ultimately show ?thesis
    using marks_upsert [of now d' s v "\<lambda>x. (fst x, now)" "story_views d" now]
    by (auto simp: story_within_def d' intro: distinct_sql_upsert)
qed (use assms in \<open>simp add: view_story_stmt_def story_within_refl split: if_splits\<close>)

lemma react_story_within:
  assumes "react_story_stmt now s v emoji d = Inr (n, d')"
  shows "story_within now (Some v) d d'"
proof (cases "may_mark now d s v")
  case True
  let ?f = "\<lambda>x. (fst x, (emoji, now))"
  from True assms have d': "d' = d\<lparr>story_marks := sql_upsert fst ((s, v), (emoji, now)) ?f (story_marks d)\<rparr>"
    by (simp add: react_story_stmt_def split: if_splits)
  have "may_mark now d' s v" using True by (simp add: d' may_mark_def)
  moreover have "rest_of (Some v) (\<lambda>x. snd (fst x)) (sql_upsert fst ((s, v), (emoji, now)) ?f (story_marks d)) =
      rest_of (Some v) (\<lambda>x. snd (fst x)) (story_marks d)" by (rule rest_of_upsert) auto
  ultimately show ?thesis
    using marks_upsert [of now d' s v ?f "story_marks d" "(emoji, now)"]
    by (auto simp: story_within_def d')
qed (use assms in \<open>simp add: react_story_stmt_def story_within_refl split: if_splits\<close>)

abbreviation st_moves :: "int \<Rightarrow> uuid option \<Rightarrow> (story_db, 'a) dbm \<Rightarrow> bool" where
  "st_moves now u m \<equiv> moves (story_within now u) (\<lambda>_. True) m (\<lambda>_ _. True)"

lemma parse_story_moves: "(\<And>a. se_scan env (trim_space x) = Inr a \<Longrightarrow> st_moves now u (k a)) \<Longrightarrow> st_moves now u (parseStoryUUID env x k)"
  by (auto simp: parseStoryUUID_def stories.moves_fail split: sum.split)

lemma answer_or_moves: "st_moves now u m \<Longrightarrow> st_moves now u (answer_or m code text k)"
  unfolding answer_or_def by (erule stories.moves_reply) (rule stories.moves_return, simp)

lemma signed_in_moves: "st_moves now u k \<Longrightarrow> st_moves now u (signed_in b k)"
  by (auto simp: signed_in_def intro: stories.moves_return)

lemma story_stmt_moves:
  assumes "\<And>d a d'. f d = Inr (a, d') \<Longrightarrow> story_within now u d d'" and "\<And>a. st_moves now u (k a)"
  shows "st_moves now u (dbind (autocommit f) k)"
  by (rule stories.moves_bind [where M = "\<lambda>_ _. True"], rule stories.moves_autocommit) (use assms in simp_all)

lemma marked_moves:
  assumes "\<And>d a d'. f d = Inr (a, d') \<Longrightarrow> story_within now u d d'"
  shows "st_moves now u (marked (autocommit f))"
  unfolding marked_def by (intro story_stmt_moves stories.moves_if stories.moves_fail stories.moves_return) (use assms in auto)

lemma story_reads:
  "active_stories_stmt t1 v1 d1 = Inr (a1, d1') \<Longrightarrow> story_within now u d1 d1'"
  "latest_story_stmt t2 b2 v2 d2 = Inr (a2, d2') \<Longrightarrow> story_within now u d2 d2'"
  "viewers_stmt s3 v3 d3 = Inr (a3, d3') \<Longrightarrow> story_within now u d3 d3'"
  by (auto simp: active_stories_stmt_def latest_story_stmt_def viewers_stmt_def story_within_refl split: list.splits if_splits)

lemma story_handlers_move: "st_moves (sn_now i) (story_actor env u) (handle_story env i u c)"
proof -
  have actor: "se_scan env (trim_space u) = Inr v \<Longrightarrow> story_actor env u = Some v" for v by (simp add: story_actor_def)
  have finished: "st_moves (sn_now i) (story_actor env u) (dreturn x)" for x :: "int \<times> story_body" by (rule stories.moves_return) simp
  show ?thesis
    by (cases c) (auto simp: handle_post_story_def handle_stories_def handle_user_story_def handle_view_story_def handle_react_story_def
        handle_viewers_def PostStory_def CreateStory_def GetActiveStories_def GetLatestStoryForUser_def RecordView_def story_React_def
        GetStoryViewers_def actor intro!: signed_in_moves answer_or_moves parse_story_moves story_stmt_moves marked_moves finished
        stories.moves_if stories.moves_fail stories.moves_return
        dest: create_story_within view_story_within react_story_within story_reads split: option.split)
qed

text \<open>
  C35. Whatever a user requests of stories, and whatever the database does meanwhile, stories are only added and only as the
  user's own for followers, the views and reactions of others stay, and the user marks only stories that are open to the user:
  not expired, not archived, and public, the user's own or of somebody whom the user follows.
\<close>

theorem story_changes_authorised:
  "story_within (sn_now i) (story_actor env u) (durable s) (durable (snd (handle_story env i u c s)))"
  by (rule movesD [OF story_handlers_move TrueI])

section \<open>Concrete inputs\<close>

definition story_demo_user :: "uuid \<Rightarrow> user_row" where
  "story_demo_user n = \<lparr>us_id = n, us_username = ''u'', us_display = None, us_bio = None, us_avatar = None, us_verified = False,
     us_private = None, us_created = 0\<rparr>"

text \<open>The user 2 follows the user 1, whose story 5 runs until 90; the user 1 has blocked the user 2 nevertheless.\<close>

definition story_demo_row :: story_row where
  "story_demo_row = \<lparr>st_id = 5, st_author = 1, st_media = ''m'', st_type = ''image'', st_visibility = ''followers'', st_archived = False,
     st_expires = 90, st_created = 3\<rparr>"

definition story_demo_db :: story_db where
  "story_demo_db = \<lparr>story_graph = \<lparr>susers = [story_demo_user 1, story_demo_user 2],
       follows = [\<lparr>fo_follower = 2, fo_following = 1, fo_status = ''accepted''\<rparr>], blocks = [(1, 2)], requests = [], circles = [],
       members = [], reports = [], edges = []\<rparr>, has_archived = True, story_rows = [story_demo_row], story_views = [], story_marks = []\<rparr>"

text \<open>Blocks are not looked at: the story is open to somebody whom its author has blocked.\<close>

lemma blocked_viewer_sees_story:
  "blocked_pair (story_graph story_demo_db) 1 2 \<and> story_open 20 (story_graph story_demo_db) 2 story_demo_row"
  by (simp add: blocked_pair_def story_open_def accepted_def story_demo_db_def story_demo_row_def)

text \<open>On the tables of the migrations, where \<open>stories\<close> has no column \<open>is_archived\<close>, nothing can be seen, viewed or reacted to.\<close>

lemma refused_call: "f (durable s) = Inl e \<Longrightarrow> \<not> is_ok (fst (autocommit f s))"
  by (auto simp: autocommit_def next_outcome_def split: list.split outcome.split prod.split)

lemma refused_bind: "\<not> is_ok (fst (m s)) \<Longrightarrow> \<not> is_ok (fst (dbind m k s))"
  by (cases "m s"; cases "fst (m s)") (auto simp: dbind_def)

lemma refused_parse: "(\<And>a. \<not> is_ok (fst (k a s))) \<Longrightarrow> \<not> is_ok (fst (parseStoryUUID env x k s))"
  by (simp add: parseStoryUUID_def dfail_def split: sum.split)

lemma no_column_no_stories:
  assumes "\<not> has_archived (durable s)"
  shows "\<not> is_ok (fst (GetActiveStories env now u s))" "\<not> is_ok (fst (GetLatestStoryForUser env now author u s))"
    "\<not> is_ok (fst (RecordView env now sid u s))" "\<not> is_ok (fst (story_React env now sid u emoji s))"
proof -
  have calls: "\<not> is_ok (fst (autocommit (active_stories_stmt now a) s))" "\<not> is_ok (fst (autocommit (latest_story_stmt now b a) s))"
    "\<not> is_ok (fst (autocommit (view_story_stmt now b a) s))" "\<not> is_ok (fst (autocommit (react_story_stmt now b a e) s))" for a b e
    by (rule refused_call [where e = undefined_column],
        simp add: assms active_stories_stmt_def latest_story_stmt_def view_story_stmt_def react_story_stmt_def)+
  show "\<not> is_ok (fst (GetActiveStories env now u s))" unfolding GetActiveStories_def
    by (intro refused_parse refused_bind calls(1))
  show "\<not> is_ok (fst (GetLatestStoryForUser env now author u s))" unfolding GetLatestStoryForUser_def
    by (intro refused_parse refused_bind calls(2))
  show "\<not> is_ok (fst (RecordView env now sid u s))" unfolding RecordView_def marked_def
    by (intro refused_parse refused_bind calls(3))
  have "\<not> is_ok (fst ((if b then dfail e else marked (autocommit (react_story_stmt now x a y))) s))" for b e x a y
    by (cases b) (simp add: dfail_def, simp add: marked_def refused_bind calls(4))
  then show "\<not> is_ok (fst (story_React env now sid u emoji s))" unfolding story_React_def by (intro refused_parse)
qed

end
