(* ===== verification/Developer.thy ===== *)
theory Developer
  imports Complex_Main Database Encoding "HOL-Library.Word"
begin

text \<open>
  The developer platform: \<open>modules/developer\<close> over PostgreSQL, the applications of a user with their keys, webhooks, bots and
  metrics. A row has the columns of its table that the statements name; deleting a row deletes what refers to it, as the
  migration declares. Methods of the service that only pass on are not repeated. Averages are exact, the rounding to floats is left out. How the driver encodes a slice (\<open>None\<close> for \<open>NULL\<close>),
  how identifiers are read and printed, and SHA-256 in hexadecimal are parameters; the random bytes and the fresh identifiers
  are in the input.
\<close>

section \<open>Data\<close>

type_synonym uuid = "128 word"

record app_settings =
  as_webhooks :: bool
  as_realtime :: bool
  as_batch :: bool
  as_minute :: int
  as_hour :: int
  as_calls :: int
  as_approval :: bool
  as_auto :: bool
  as_expiry :: int
  as_refresh :: int

text \<open>A nil slice is \<open>None\<close>. The statistics of an application are never filled in.\<close>

record app =
  app_id :: string
  app_owner :: string
  app_name :: string
  app_desc :: string
  app_client :: string
  app_secret :: string
  app_redirect :: string
  app_scopes :: "string list option"
  app_grants :: "string list option"
  app_public :: bool
  app_active :: bool
  app_verified :: bool
  app_icon :: string
  app_home :: string
  app_terms :: string
  app_privacy :: string
  app_callbacks :: "string list option"
  app_created :: int
  app_updated :: int
  app_conf :: app_settings

record api_key =
  key_id :: string
  key_app :: string
  key_hash :: string
  key_prefix :: string
  key_name :: string
  key_desc :: string
  key_scopes :: "string list option"
  key_rpm :: int
  key_rph :: int
  key_active :: bool
  key_used :: "int option"
  key_expires :: "int option"
  key_created :: int
  key_raw :: string
  key_ips :: "string list option"

record retry_policy =
  rp_max :: int
  rp_interval :: int
  rp_backoff :: string
  rp_timeout :: int

record hook_stats =
  hs_total :: nat
  hs_success :: nat
  hs_failure :: nat
  hs_delivered :: "int option"
  hs_failed :: "int option"

record webhook =
  hook_id :: string
  hook_app :: string
  hook_name :: string
  hook_url :: string
  hook_secret :: string
  hook_events :: "string list option"
  hook_active :: bool
  hook_policy :: retry_policy
  hook_created :: int
  hook_updated :: int
  hook_stats_of :: hook_stats

record bot_capability =
  bc_type :: string
  bc_permission :: string
  bc_desc :: string
  bc_enabled :: bool

record bot_settings =
  bs_direct :: bool
  bs_group :: bool
  bs_commands :: bool
  bs_webhooks :: bool
  bs_privacy :: string
  bs_rate :: int
  bs_queue :: int

record bot =
  bot_id :: string
  bot_app :: string
  bot_name :: string
  bot_desc :: string
  bot_avatar :: string
  bot_public :: bool
  bot_active :: bool
  bot_official :: bool
  bot_permissions :: "string list option"
  bot_capabilities :: "bot_capability list option"
  bot_created :: int
  bot_updated :: int
  bot_conf :: bot_settings

record endpoint_stats =
  es_path :: string
  es_verb :: string
  es_count :: nat
  es_latency :: rat
  es_errors :: rat

record dev_metrics =
  dm_app :: string
  dm_period :: string
  dm_requests :: nat
  dm_errors :: nat
  dm_avg :: rat
  dm_p95 :: rat
  dm_p99 :: rat
  dm_success :: rat
  dm_users :: nat
  dm_bandwidth :: int
  dm_top :: "endpoint_stats list"

record test_result =
  tr_name :: string
  tr_status :: string
  tr_error :: "string option"

record test_suite =
  ts_app :: string
  ts_total :: nat
  ts_passed :: nat
  ts_failed :: nat
  ts_results :: "test_result list"
  ts_at :: int

section \<open>Tables\<close>

record app_row =
  da_id :: uuid
  da_owner :: uuid
  da_name :: string
  da_desc :: string
  da_client :: string
  da_secret :: string
  da_redirect :: "string option"
  da_scopes :: "string list"
  da_grants :: "string list"
  da_public :: bool
  da_active :: bool
  da_verified :: bool
  da_icon :: "string option"
  da_home :: "string option"
  da_terms :: "string option"
  da_privacy :: "string option"
  da_callbacks :: "string list"
  da_conf :: app_settings
  da_created :: int
  da_updated :: int

record key_row =
  dk_id :: uuid
  dk_app :: uuid
  dk_hash :: string
  dk_prefix :: string
  dk_name :: string
  dk_desc :: string
  dk_scopes :: "string list"
  dk_rpm :: int
  dk_rph :: int
  dk_active :: bool
  dk_ips :: "string list"
  dk_used :: "int option"
  dk_expires :: "int option"
  dk_created :: int

record hook_row =
  dw_id :: uuid
  dw_app :: uuid
  dw_name :: string
  dw_url :: string
  dw_secret :: string
  dw_events :: "string list"
  dw_active :: bool
  dw_policy :: retry_policy
  dw_created :: int
  dw_updated :: int

record delivery_row =
  dl_hook :: uuid
  dl_status :: int
  dl_ok :: bool
  dl_error :: string
  dl_at :: int

record bot_row =
  db_id :: uuid
  db_app :: uuid
  db_name :: string
  db_desc :: string
  db_avatar :: "string option"
  db_public :: bool
  db_active :: bool
  db_official :: bool
  db_permissions :: "string list"
  db_capabilities :: "bot_capability list option"
  db_conf :: bot_settings
  db_created :: int
  db_updated :: int

record request_row =
  rq_app :: uuid
  rq_path :: string
  rq_verb :: string
  rq_ms :: int
  rq_ok :: bool
  rq_user :: "uuid option"
  rq_bytes :: int
  rq_at :: int

record dev_db =
  dev_users :: "uuid list"
  dev_apps :: "app_row list"
  dev_keys :: "key_row list"
  dev_hooks :: "hook_row list"
  dev_deliveries :: "delivery_row list"
  dev_bots :: "bot_row list"
  dev_requests :: "request_row list"

record dev_env =
  de_scan :: "string \<Rightarrow> uuid res"
  de_show :: "uuid \<Rightarrow> string"
  de_array :: "string list option \<Rightarrow> string list option"
  de_sha :: "string \<Rightarrow> string"

text \<open>The instant, the identifier of an inserted row, and what \<open>rand.Read\<close> gives at its calls.\<close>

record dev_input =
  di_now :: int
  di_new :: uuid
  di_first :: "nat list"
  di_second :: "nat list"
section \<open>Statements on applications\<close>

definition not_null :: goerr where "not_null = violates ''not_null''"
definition unique :: goerr where "unique = violates ''unique''"

definition fresh_app :: "dev_input \<Rightarrow> uuid \<Rightarrow> string \<Rightarrow> string \<Rightarrow> string \<Rightarrow> string \<Rightarrow> app_settings \<Rightarrow> app_row" where
  "fresh_app i u name desc client secret conf =
     \<lparr>da_id = di_new i, da_owner = u, da_name = name, da_desc = desc, da_client = client, da_secret = secret, da_redirect = None,
      da_scopes = [], da_grants = [''client_credentials'', ''refresh_token''], da_public = False, da_active = True, da_verified = False,
      da_icon = None, da_home = None, da_terms = None, da_privacy = None, da_callbacks = [], da_conf = conf, da_created = di_now i,
      da_updated = di_now i\<rparr>"

definition create_app_stmt ::
  "dev_input \<Rightarrow> uuid \<Rightarrow> string \<Rightarrow> string \<Rightarrow> string \<Rightarrow> string \<Rightarrow> app_settings \<Rightarrow> (dev_db, app_row) sql" where
  "create_app_stmt i u name desc client secret conf d =
     (let r = fresh_app i u name desc client secret conf
      in if da_id r \<in> da_id ` set (dev_apps d) \<or> client \<in> da_client ` set (dev_apps d) \<or>
           (u, name) \<in> (\<lambda>a. (da_owner a, da_name a)) ` set (dev_apps d) then Inl unique
         else if u \<notin> set (dev_users d) then Inl (violates ''foreign_key'')
         else Inr (r, d\<lparr>dev_apps := dev_apps d @ [r]\<rparr>))"

definition one_row :: "('r \<Rightarrow> bool) \<Rightarrow> 'r list \<Rightarrow> 'd \<Rightarrow> goerr + 'r \<times> 'd" where
  "one_row P rs d = (case filter P rs of [] \<Rightarrow> Inl NoRows | r # _ \<Rightarrow> Inr (r, d))"

definition app_stmt :: "uuid \<Rightarrow> (dev_db, app_row) sql" where
  "app_stmt k d = one_row (\<lambda>a. da_id a = k) (dev_apps d) d"

definition owner_apps_stmt :: "uuid \<Rightarrow> int \<Rightarrow> int \<Rightarrow> (dev_db, app_row list) sql" where
  "owner_apps_stmt u limit offset d =
     (case page_of limit offset (sort_key (\<lambda>a. - da_created a) (filter (\<lambda>a. da_owner a = u) (dev_apps d))) of
        Inl e \<Rightarrow> Inl e | Inr rs \<Rightarrow> Inr (rs, d))"

text \<open>The slices are already encoded; the new name must be free among the applications of the same owner.\<close>

definition app_changed :: "int \<Rightarrow> app \<Rightarrow> string list \<Rightarrow> string list \<Rightarrow> string list \<Rightarrow> app_row \<Rightarrow> app_row" where
  "app_changed now a scopes grants callbacks r =
     r\<lparr>da_name := app_name a, da_desc := app_desc a, da_redirect := Some (app_redirect a), da_scopes := scopes, da_grants := grants,
       da_public := app_public a, da_active := app_active a, da_icon := Some (app_icon a), da_home := Some (app_home a),
       da_terms := Some (app_terms a), da_privacy := Some (app_privacy a), da_callbacks := callbacks, da_conf := app_conf a,
       da_updated := now\<rparr>"

definition update_app_stmt ::
  "int \<Rightarrow> uuid \<Rightarrow> app \<Rightarrow> string list option \<Rightarrow> string list option \<Rightarrow> string list option \<Rightarrow> (dev_db, unit) sql" where
  "update_app_stmt now k a scopes grants callbacks d =
     (case filter (\<lambda>r. da_id r = k) (dev_apps d) of
        [] \<Rightarrow> Inr ((), d)
      | r # _ \<Rightarrow>
          (case (scopes, grants, callbacks) of
             (Some s, Some g, Some c) \<Rightarrow>
               if list_ex (\<lambda>x. da_id x \<noteq> k \<and> da_owner x = da_owner r \<and> da_name x = app_name a) (dev_apps d) then Inl unique
               else Inr ((), d\<lparr>dev_apps := sql_update (\<lambda>x. da_id x = k) (app_changed now a s g c) (dev_apps d)\<rparr>)
           | _ \<Rightarrow> Inl not_null))"

definition verify_app_stmt :: "int \<Rightarrow> uuid \<Rightarrow> (dev_db, unit) sql" where
  "verify_app_stmt now k d =
     Inr ((), d\<lparr>dev_apps := sql_update (\<lambda>a. da_id a = k) (\<lambda>a. a\<lparr>da_verified := True, da_updated := now\<rparr>) (dev_apps d)\<rparr>)"

text \<open>With everything that refers to the deleted rows.\<close>

definition drop_hooks :: "(hook_row \<Rightarrow> bool) \<Rightarrow> dev_db \<Rightarrow> dev_db" where
  "drop_hooks P d = d\<lparr>dev_hooks := sql_delete P (dev_hooks d),
     dev_deliveries := sql_delete (\<lambda>l. list_ex (\<lambda>w. P w \<and> dw_id w = dl_hook l) (dev_hooks d)) (dev_deliveries d)\<rparr>"

definition delete_app_stmt :: "uuid \<Rightarrow> (dev_db, unit) sql" where
  "delete_app_stmt k d =
     Inr ((), drop_hooks (\<lambda>w. dw_app w = k) (d\<lparr>dev_apps := sql_delete (\<lambda>a. da_id a = k) (dev_apps d),
       dev_keys := sql_delete (\<lambda>x. dk_app x = k) (dev_keys d), dev_bots := sql_delete (\<lambda>b. db_app b = k) (dev_bots d),
       dev_requests := sql_delete (\<lambda>q. rq_app q = k) (dev_requests d)\<rparr>))"

section \<open>Statements on keys\<close>

definition app_known :: "dev_db \<Rightarrow> uuid \<Rightarrow> bool" where
  "app_known d k \<longleftrightarrow> k \<in> da_id ` set (dev_apps d)"

definition fresh_key :: "dev_input \<Rightarrow> uuid \<Rightarrow> api_key \<Rightarrow> string list \<Rightarrow> string list \<Rightarrow> key_row" where
  "fresh_key i a k scopes ips =
     \<lparr>dk_id = di_new i, dk_app = a, dk_hash = key_hash k, dk_prefix = key_prefix k, dk_name = key_name k, dk_desc = key_desc k,
      dk_scopes = scopes, dk_rpm = key_rpm k, dk_rph = key_rph k, dk_active = key_active k, dk_ips = ips, dk_used = None,
      dk_expires = key_expires k, dk_created = di_now i\<rparr>"

definition create_key_stmt ::
  "dev_input \<Rightarrow> uuid \<Rightarrow> api_key \<Rightarrow> string list option \<Rightarrow> string list option \<Rightarrow> (dev_db, unit) sql" where
  "create_key_stmt i a k scopes ips d =
     (if \<not> fits32 (key_rpm k) \<or> \<not> fits32 (key_rph k) then Inl (Errorf ''failed to encode args'')
      else case (scopes, ips) of
        (Some s, Some p) \<Rightarrow>
          if di_new i \<in> dk_id ` set (dev_keys d) \<or> key_hash k \<in> dk_hash ` set (dev_keys d) then Inl unique
          else if \<not> app_known d a then Inl (violates ''foreign_key'')
          else Inr ((), d\<lparr>dev_keys := dev_keys d @ [fresh_key i a k s p]\<rparr>)
      | _ \<Rightarrow> Inl not_null)"

definition key_stmt :: "uuid \<Rightarrow> (dev_db, key_row) sql" where
  "key_stmt k d = one_row (\<lambda>x. dk_id x = k) (dev_keys d) d"

definition key_by_hash_stmt :: "string \<Rightarrow> (dev_db, key_row) sql" where
  "key_by_hash_stmt h d = one_row (\<lambda>x. dk_hash x = h) (dev_keys d) d"

definition app_keys_stmt :: "uuid \<Rightarrow> (dev_db, key_row list) sql" where
  "app_keys_stmt a d = Inr (sort_key (\<lambda>x. - dk_created x) (filter (\<lambda>x. dk_app x = a) (dev_keys d)), d)"

definition update_key_stmt :: "uuid \<Rightarrow> api_key \<Rightarrow> string list option \<Rightarrow> string list option \<Rightarrow> (dev_db, unit) sql" where
  "update_key_stmt k x scopes ips d =
     (if \<not> fits32 (key_rpm x) \<or> \<not> fits32 (key_rph x) then Inl (Errorf ''failed to encode args'')
      else if k \<notin> dk_id ` set (dev_keys d) then Inr ((), d)
      else case (scopes, ips) of
        (Some s, Some p) \<Rightarrow> Inr ((), d\<lparr>dev_keys := sql_update (\<lambda>r. dk_id r = k) (\<lambda>r. r\<lparr>dk_name := key_name x, dk_desc := key_desc x,
          dk_scopes := s, dk_rpm := key_rpm x, dk_rph := key_rph x, dk_active := key_active x, dk_ips := p,
          dk_expires := key_expires x\<rparr>) (dev_keys d)\<rparr>)
      | _ \<Rightarrow> Inl not_null)"

definition touch_key_stmt :: "int \<Rightarrow> uuid \<Rightarrow> (dev_db, unit) sql" where
  "touch_key_stmt now k d = Inr ((), d\<lparr>dev_keys := sql_update (\<lambda>r. dk_id r = k) (\<lambda>r. r\<lparr>dk_used := Some now\<rparr>) (dev_keys d)\<rparr>)"

definition revoke_key_stmt :: "uuid \<Rightarrow> (dev_db, unit) sql" where
  "revoke_key_stmt k d = Inr ((), d\<lparr>dev_keys := sql_update (\<lambda>r. dk_id r = k) (\<lambda>r. r\<lparr>dk_active := False\<rparr>) (dev_keys d)\<rparr>)"
section \<open>Statements on webhooks, bots and requests\<close>

definition create_hook_stmt :: "dev_input \<Rightarrow> uuid \<Rightarrow> webhook \<Rightarrow> string list option \<Rightarrow> (dev_db, hook_row) sql" where
  "create_hook_stmt i a w events d =
     (case events of
        None \<Rightarrow> Inl not_null
      | Some e \<Rightarrow>
          let r = \<lparr>dw_id = di_new i, dw_app = a, dw_name = hook_name w, dw_url = hook_url w, dw_secret = hook_secret w, dw_events = e,
                   dw_active = hook_active w, dw_policy = hook_policy w, dw_created = di_now i, dw_updated = di_now i\<rparr>
          in if dw_id r \<in> dw_id ` set (dev_hooks d) then Inl unique
             else if \<not> app_known d a then Inl (violates ''foreign_key'')
             else Inr (r, d\<lparr>dev_hooks := dev_hooks d @ [r]\<rparr>))"

definition hook_stmt :: "uuid \<Rightarrow> (dev_db, hook_row) sql" where
  "hook_stmt k d = one_row (\<lambda>w. dw_id w = k) (dev_hooks d) d"

definition app_hooks_stmt :: "uuid \<Rightarrow> (dev_db, hook_row list) sql" where
  "app_hooks_stmt a d = Inr (sort_key (\<lambda>w. - dw_created w) (filter (\<lambda>w. dw_app w = a) (dev_hooks d)), d)"

definition update_hook_stmt :: "int \<Rightarrow> uuid \<Rightarrow> webhook \<Rightarrow> string list option \<Rightarrow> (dev_db, unit) sql" where
  "update_hook_stmt now k w events d =
     (if k \<notin> dw_id ` set (dev_hooks d) then Inr ((), d)
      else case events of
        None \<Rightarrow> Inl not_null
      | Some e \<Rightarrow> Inr ((), d\<lparr>dev_hooks := sql_update (\<lambda>r. dw_id r = k) (\<lambda>r. r\<lparr>dw_name := hook_name w, dw_url := hook_url w,
          dw_events := e, dw_active := hook_active w, dw_policy := hook_policy w, dw_updated := now\<rparr>) (dev_hooks d)\<rparr>))"

definition delete_hook_stmt :: "uuid \<Rightarrow> (dev_db, unit) sql" where
  "delete_hook_stmt k d = Inr ((), drop_hooks (\<lambda>w. dw_id w = k) d)"

definition delivery_stmt :: "int \<Rightarrow> uuid \<Rightarrow> bool \<Rightarrow> int \<Rightarrow> string \<Rightarrow> (dev_db, unit) sql" where
  "delivery_stmt now k success status error d =
     (if \<not> fits32 status then Inl (Errorf ''failed to encode args'')
      else if k \<notin> dw_id ` set (dev_hooks d) then Inl (violates ''foreign_key'')
      else Inr ((), d\<lparr>dev_deliveries := dev_deliveries d @
        [\<lparr>dl_hook = k, dl_status = status, dl_ok = success, dl_error = error, dl_at = now\<rparr>]\<rparr>))"

definition deliveries_of :: "dev_db \<Rightarrow> uuid \<Rightarrow> delivery_row list" where
  "deliveries_of d k = filter (\<lambda>l. dl_hook l = k) (dev_deliveries d)"

definition count_deliveries_stmt :: "uuid \<Rightarrow> (dev_db, nat \<times> nat \<times> nat) sql" where
  "count_deliveries_stmt k d =
     (let ls = deliveries_of d k in Inr ((length ls, length (filter dl_ok ls), length (filter (\<lambda>l. \<not> dl_ok l) ls)), d))"

definition latest_of :: "int list \<Rightarrow> int option" where
  "latest_of ts = (if ts = [] then None else Some (Max (set ts)))"

definition last_deliveries_stmt :: "uuid \<Rightarrow> (dev_db, int option \<times> int option) sql" where
  "last_deliveries_stmt k d =
     (let ls = deliveries_of d k
      in Inr ((latest_of (map dl_at (filter dl_ok ls)), latest_of (map dl_at (filter (\<lambda>l. \<not> dl_ok l) ls))), d))"

definition create_bot_stmt :: "dev_input \<Rightarrow> uuid \<Rightarrow> bot \<Rightarrow> string list option \<Rightarrow> (dev_db, bot_row) sql" where
  "create_bot_stmt i a b permissions d =
     (case permissions of
        None \<Rightarrow> Inl not_null
      | Some p \<Rightarrow>
          let r = \<lparr>db_id = di_new i, db_app = a, db_name = bot_name b, db_desc = bot_desc b, db_avatar = Some (bot_avatar b),
                   db_public = bot_public b, db_active = bot_active b, db_official = bot_official b, db_permissions = p,
                   db_capabilities = bot_capabilities b, db_conf = bot_conf b, db_created = di_now i, db_updated = di_now i\<rparr>
          in if db_id r \<in> db_id ` set (dev_bots d) then Inl unique
             else if \<not> app_known d a then Inl (violates ''foreign_key'')
             else Inr (r, d\<lparr>dev_bots := dev_bots d @ [r]\<rparr>))"

definition bot_stmt :: "uuid \<Rightarrow> (dev_db, bot_row) sql" where
  "bot_stmt k d = one_row (\<lambda>b. db_id b = k) (dev_bots d) d"

definition app_bots_stmt :: "uuid \<Rightarrow> (dev_db, bot_row list) sql" where
  "app_bots_stmt a d = Inr (sort_key (\<lambda>b. - db_created b) (filter (\<lambda>b. db_app b = a) (dev_bots d)), d)"

definition update_bot_stmt :: "int \<Rightarrow> uuid \<Rightarrow> bot \<Rightarrow> string list option \<Rightarrow> (dev_db, unit) sql" where
  "update_bot_stmt now k b permissions d =
     (if k \<notin> db_id ` set (dev_bots d) then Inr ((), d)
      else case permissions of
        None \<Rightarrow> Inl not_null
      | Some p \<Rightarrow> Inr ((), d\<lparr>dev_bots := sql_update (\<lambda>r. db_id r = k) (\<lambda>r. r\<lparr>db_name := bot_name b, db_desc := bot_desc b,
          db_avatar := Some (bot_avatar b), db_public := bot_public b, db_active := bot_active b, db_official := bot_official b,
          db_permissions := p, db_capabilities := bot_capabilities b, db_conf := bot_conf b, db_updated := now\<rparr>) (dev_bots d)\<rparr>))"

definition delete_bot_stmt :: "uuid \<Rightarrow> (dev_db, unit) sql" where
  "delete_bot_stmt k d = Inr ((), d\<lparr>dev_bots := sql_delete (\<lambda>b. db_id b = k) (dev_bots d)\<rparr>)"

definition request_stmt :: "int \<Rightarrow> uuid \<Rightarrow> string \<Rightarrow> string \<Rightarrow> int \<Rightarrow> bool \<Rightarrow> uuid option \<Rightarrow> int \<Rightarrow> (dev_db, unit) sql" where
  "request_stmt now a path verb ms success u bytes d =
     (if \<not> app_known d a \<or> (case u of None \<Rightarrow> False | Some v \<Rightarrow> v \<notin> set (dev_users d)) then Inl (violates ''foreign_key'')
      else Inr ((), d\<lparr>dev_requests := dev_requests d @ [\<lparr>rq_app = a, rq_path = path, rq_verb = verb, rq_ms = ms, rq_ok = success,
        rq_user = u, rq_bytes = bytes, rq_at = now\<rparr>]\<rparr>))"

text \<open>\<open>AVG\<close>, with a value for no rows, and \<open>PERCENTILE_CONT\<close>, which interpolates between the two nearest values.\<close>

definition average :: "rat \<Rightarrow> rat list \<Rightarrow> rat" where
  "average x xs = (if xs = [] then x else sum_list xs / of_nat (length xs))"

definition percentile :: "rat \<Rightarrow> int list \<Rightarrow> rat" where
  "percentile p xs =
     (if xs = [] then 0
      else let ys = sort xs; pos = p * of_nat (length xs - 1); lo = of_int (ys ! nat \<lfloor>pos\<rfloor>); hi = of_int (ys ! nat \<lceil>pos\<rceil>)
           in lo + (pos - of_int \<lfloor>pos\<rfloor>) * (hi - lo))"

definition requests_since :: "uuid \<Rightarrow> int \<Rightarrow> dev_db \<Rightarrow> request_row list" where
  "requests_since a since d = filter (\<lambda>q. rq_app q = a \<and> since \<le> rq_at q) (dev_requests d)"

definition metrics_stmt :: "string \<Rightarrow> string \<Rightarrow> uuid \<Rightarrow> int \<Rightarrow> (dev_db, dev_metrics) sql" where
  "metrics_stmt name period a since d =
     (let qs = requests_since a since d;
          failed = length (filter (\<lambda>q. \<not> rq_ok q) qs);
          users = length (remdups (concat (map (\<lambda>q. case rq_user q of None \<Rightarrow> [] | Some u \<Rightarrow> [u]) qs)));
          bytes = sum_list (map rq_bytes qs)
      in if \<not> fits32 (int failed) \<or> \<not> fits32 (int users) \<or> \<not> fits64 bytes then Inl (Constraint ''numeric_value_out_of_range'')
         else Inr (\<lparr>dm_app = name, dm_period = period, dm_requests = length qs, dm_errors = failed,
           dm_avg = average 0 (map (of_int \<circ> rq_ms) qs), dm_p95 = percentile (95 / 100) (map rq_ms qs),
           dm_p99 = percentile (99 / 100) (map rq_ms qs), dm_success = average 100 (map (\<lambda>q. if rq_ok q then 100 else 0) qs),
           dm_users = users, dm_bandwidth = bytes, dm_top = []\<rparr>, d))"

definition endpoints_stmt :: "uuid \<Rightarrow> int \<Rightarrow> (dev_db, endpoint_stats list) sql" where
  "endpoints_stmt a since d =
     (let qs = requests_since a since d;
          stats = (\<lambda>(p, v). let g = filter (\<lambda>q. rq_path q = p \<and> rq_verb q = v) qs
             in \<lparr>es_path = p, es_verb = v, es_count = length g, es_latency = average 0 (map (of_int \<circ> rq_ms) g),
                 es_errors = average 0 (map (\<lambda>q. if rq_ok q then 0 else 1) g)\<rparr>)
      in Inr (take 10 (sort_key (\<lambda>e. - int (es_count e)) (map stats (remdups (map (\<lambda>q. (rq_path q, rq_verb q)) qs)))), d))"
section \<open>Repository\<close>

definition dev_uuid :: "dev_env \<Rightarrow> string \<Rightarrow> (uuid \<Rightarrow> (dev_db, 'a) dbm) \<Rightarrow> (dev_db, 'a) dbm" where
  "dev_uuid env x k = (case de_scan env (trim_space x) of Inl e \<Rightarrow> dfail (Wrapf ''invalid uuid'' e) | Inr a \<Rightarrow> k a)"

definition text_of :: "string option \<Rightarrow> string" where "text_of x = (case x of None \<Rightarrow> [] | Some s \<Rightarrow> s)"

definition CreateApp :: "dev_env \<Rightarrow> dev_input \<Rightarrow> app \<Rightarrow> (dev_db, app) dbm" where
  "CreateApp env i a =
     dev_uuid env (app_owner a) (\<lambda>u.
       dbind (autocommit (create_app_stmt i u (app_name a) (app_desc a) (app_client a) (app_secret a) (app_conf a))) (\<lambda>r.
       dreturn (a\<lparr>app_id := de_show env (da_id r), app_created := da_created r, app_updated := da_updated r\<rparr>)))"

definition scanApp :: "dev_env \<Rightarrow> app_row \<Rightarrow> app" where
  "scanApp env r =
     \<lparr>app_id = de_show env (da_id r), app_owner = de_show env (da_owner r), app_name = da_name r, app_desc = da_desc r,
      app_client = da_client r, app_secret = da_secret r, app_redirect = text_of (da_redirect r), app_scopes = Some (da_scopes r),
      app_grants = Some (da_grants r), app_public = da_public r, app_active = da_active r, app_verified = da_verified r,
      app_icon = text_of (da_icon r), app_home = text_of (da_home r), app_terms = text_of (da_terms r),
      app_privacy = text_of (da_privacy r), app_callbacks = Some (da_callbacks r), app_created = da_created r,
      app_updated = da_updated r, app_conf = da_conf r\<rparr>"

definition GetApp :: "dev_env \<Rightarrow> string \<Rightarrow> (dev_db, app) dbm" where
  "GetApp env k = dev_uuid env k (\<lambda>k. dbind (autocommit (app_stmt k)) (\<lambda>r. dreturn (scanApp env r)))"

definition GetAppsByOwner :: "dev_env \<Rightarrow> string \<Rightarrow> int \<Rightarrow> int \<Rightarrow> (dev_db, app list) dbm" where
  "GetAppsByOwner env u limit offset =
     dev_uuid env u (\<lambda>u.
       dbind (autocommit (owner_apps_stmt u (if limit \<le> 0 then 100 else limit) (if offset < 0 then 0 else offset))) (\<lambda>rs.
       dreturn (map (\<lambda>r. (scanApp env r)\<lparr>app_secret := []\<rparr>) rs)))"

definition UpdateApp :: "dev_env \<Rightarrow> int \<Rightarrow> app \<Rightarrow> (dev_db, unit) dbm" where
  "UpdateApp env now a =
     dev_uuid env (app_id a) (\<lambda>k. autocommit (update_app_stmt now k a (de_array env (app_scopes a)) (de_array env (app_grants a))
       (de_array env (app_callbacks a))))"

definition DeleteApp :: "dev_env \<Rightarrow> string \<Rightarrow> (dev_db, unit) dbm" where
  "DeleteApp env k = dev_uuid env k (\<lambda>k. autocommit (delete_app_stmt k))"

definition VerifyApp :: "dev_env \<Rightarrow> int \<Rightarrow> string \<Rightarrow> (dev_db, unit) dbm" where
  "VerifyApp env now k = dev_uuid env k (\<lambda>k. autocommit (verify_app_stmt now k))"

definition insert_api_key :: "dev_env \<Rightarrow> dev_input \<Rightarrow> api_key \<Rightarrow> (dev_db, unit) dbm" where
  "insert_api_key env i k =
     dev_uuid env (key_app k) (\<lambda>a. autocommit (create_key_stmt i a k (de_array env (key_scopes k)) (de_array env (key_ips k))))"

definition scanAPIKey :: "dev_env \<Rightarrow> key_row \<Rightarrow> api_key" where
  "scanAPIKey env r =
     \<lparr>key_id = de_show env (dk_id r), key_app = de_show env (dk_app r), key_hash = dk_hash r, key_prefix = dk_prefix r,
      key_name = dk_name r, key_desc = dk_desc r, key_scopes = Some (dk_scopes r), key_rpm = dk_rpm r, key_rph = dk_rph r,
      key_active = dk_active r, key_used = dk_used r, key_expires = dk_expires r, key_created = dk_created r, key_raw = [],
      key_ips = Some (dk_ips r)\<rparr>"

definition GetAPIKey :: "dev_env \<Rightarrow> string \<Rightarrow> (dev_db, api_key) dbm" where
  "GetAPIKey env k = dev_uuid env k (\<lambda>k. dbind (autocommit (key_stmt k)) (\<lambda>r. dreturn (scanAPIKey env r)))"

definition GetAPIKeyByHash :: "dev_env \<Rightarrow> string \<Rightarrow> (dev_db, api_key) dbm" where
  "GetAPIKeyByHash env h = dbind (autocommit (key_by_hash_stmt h)) (\<lambda>r. dreturn (scanAPIKey env r))"

definition GetAPIKeysByAppID :: "dev_env \<Rightarrow> string \<Rightarrow> (dev_db, api_key list) dbm" where
  "GetAPIKeysByAppID env a = dev_uuid env a (\<lambda>a. dbind (autocommit (app_keys_stmt a)) (\<lambda>rs. dreturn (map (scanAPIKey env) rs)))"

definition UpdateAPIKey :: "dev_env \<Rightarrow> api_key \<Rightarrow> (dev_db, unit) dbm" where
  "UpdateAPIKey env k =
     dev_uuid env (key_id k) (\<lambda>r. autocommit (update_key_stmt r k (de_array env (key_scopes k)) (de_array env (key_ips k))))"

definition UpdateAPIKeyUsage :: "dev_env \<Rightarrow> int \<Rightarrow> string \<Rightarrow> (dev_db, unit) dbm" where
  "UpdateAPIKeyUsage env now k = dev_uuid env k (\<lambda>k. autocommit (touch_key_stmt now k))"

definition RevokeAPIKey :: "dev_env \<Rightarrow> string \<Rightarrow> (dev_db, unit) dbm" where
  "RevokeAPIKey env k = dev_uuid env k (\<lambda>k. autocommit (revoke_key_stmt k))"

definition insert_webhook :: "dev_env \<Rightarrow> dev_input \<Rightarrow> webhook \<Rightarrow> (dev_db, webhook) dbm" where
  "insert_webhook env i w =
     dev_uuid env (hook_app w) (\<lambda>a. dbind (autocommit (create_hook_stmt i a w (de_array env (hook_events w)))) (\<lambda>r.
       dreturn (w\<lparr>hook_id := de_show env (dw_id r), hook_created := dw_created r, hook_updated := dw_updated r\<rparr>)))"

text \<open>The error of the second statement is dropped: no instants then.\<close>

definition webhookStats :: "dev_env \<Rightarrow> string \<Rightarrow> (dev_db, hook_stats) dbm" where
  "webhookStats env k =
     dev_uuid env k (\<lambda>k. dbind (autocommit (count_deliveries_stmt k)) (\<lambda>(n, ok, failed).
       dbind (dignore (None, None) (autocommit (last_deliveries_stmt k))) (\<lambda>(last, lost).
       dreturn \<lparr>hs_total = n, hs_success = ok, hs_failure = failed, hs_delivered = last, hs_failed = lost\<rparr>)))"

text \<open>The error of \<open>webhookStats\<close> is dropped and its nil result dereferenced.\<close>

definition panicked :: goerr where "panicked = Errorf ''invalid memory address or nil pointer dereference''"

definition scanWebhook :: "dev_env \<Rightarrow> hook_row \<Rightarrow> (dev_db, webhook) dbm" where
  "scanWebhook env r =
     dbind (dmap_err (\<lambda>_. panicked) (webhookStats env (de_show env (dw_id r)))) (\<lambda>st.
       dreturn \<lparr>hook_id = de_show env (dw_id r), hook_app = de_show env (dw_app r), hook_name = dw_name r, hook_url = dw_url r,
         hook_secret = dw_secret r, hook_events = Some (dw_events r), hook_active = dw_active r, hook_policy = dw_policy r,
         hook_created = dw_created r, hook_updated = dw_updated r, hook_stats_of = st\<rparr>)"

fun scan_hooks :: "dev_env \<Rightarrow> hook_row list \<Rightarrow> (dev_db, webhook list) dbm" where
  "scan_hooks env [] = dreturn []"
| "scan_hooks env (r # rs) = dbind (scanWebhook env r) (\<lambda>w. dbind (scan_hooks env rs) (\<lambda>ws. dreturn (w # ws)))"

definition GetWebhook :: "dev_env \<Rightarrow> string \<Rightarrow> (dev_db, webhook) dbm" where
  "GetWebhook env k = dev_uuid env k (\<lambda>k. dbind (autocommit (hook_stmt k)) (scanWebhook env))"

definition GetWebhooksByAppID :: "dev_env \<Rightarrow> string \<Rightarrow> (dev_db, webhook list) dbm" where
  "GetWebhooksByAppID env a = dev_uuid env a (\<lambda>a. dbind (autocommit (app_hooks_stmt a)) (scan_hooks env))"

definition UpdateWebhook :: "dev_env \<Rightarrow> int \<Rightarrow> webhook \<Rightarrow> (dev_db, unit) dbm" where
  "UpdateWebhook env now w =
     dev_uuid env (hook_id w) (\<lambda>k. autocommit (update_hook_stmt now k w (de_array env (hook_events w))))"

definition DeleteWebhook :: "dev_env \<Rightarrow> string \<Rightarrow> (dev_db, unit) dbm" where
  "DeleteWebhook env k = dev_uuid env k (\<lambda>k. autocommit (delete_hook_stmt k))"

definition RecordWebhookDelivery :: "dev_env \<Rightarrow> int \<Rightarrow> string \<Rightarrow> bool \<Rightarrow> int \<Rightarrow> string \<Rightarrow> (dev_db, unit) dbm" where
  "RecordWebhookDelivery env now k success status error = dev_uuid env k (\<lambda>k. autocommit (delivery_stmt now k success status error))"

definition insert_bot :: "dev_env \<Rightarrow> dev_input \<Rightarrow> bot \<Rightarrow> (dev_db, bot) dbm" where
  "insert_bot env i b =
     dev_uuid env (bot_app b) (\<lambda>a. dbind (autocommit (create_bot_stmt i a b (de_array env (bot_permissions b)))) (\<lambda>r.
       dreturn (b\<lparr>bot_id := de_show env (db_id r), bot_created := db_created r, bot_updated := db_updated r\<rparr>)))"

definition scanBot :: "dev_env \<Rightarrow> bot_row \<Rightarrow> bot" where
  "scanBot env r =
     \<lparr>bot_id = de_show env (db_id r), bot_app = de_show env (db_app r), bot_name = db_name r, bot_desc = db_desc r,
      bot_avatar = text_of (db_avatar r), bot_public = db_public r, bot_active = db_active r, bot_official = db_official r,
      bot_permissions = Some (db_permissions r), bot_capabilities = db_capabilities r, bot_created = db_created r,
      bot_updated = db_updated r, bot_conf = db_conf r\<rparr>"

definition GetBot :: "dev_env \<Rightarrow> string \<Rightarrow> (dev_db, bot) dbm" where
  "GetBot env k = dev_uuid env k (\<lambda>k. dbind (autocommit (bot_stmt k)) (\<lambda>r. dreturn (scanBot env r)))"

definition GetBotsByAppID :: "dev_env \<Rightarrow> string \<Rightarrow> (dev_db, bot list) dbm" where
  "GetBotsByAppID env a = dev_uuid env a (\<lambda>a. dbind (autocommit (app_bots_stmt a)) (\<lambda>rs. dreturn (map (scanBot env) rs)))"

definition UpdateBot :: "dev_env \<Rightarrow> int \<Rightarrow> bot \<Rightarrow> (dev_db, unit) dbm" where
  "UpdateBot env now b = dev_uuid env (bot_id b) (\<lambda>k. autocommit (update_bot_stmt now k b (de_array env (bot_permissions b))))"

definition DeleteBot :: "dev_env \<Rightarrow> string \<Rightarrow> (dev_db, unit) dbm" where
  "DeleteBot env k = dev_uuid env k (\<lambda>k. autocommit (delete_bot_stmt k))"

definition RecordAPIRequest ::
  "dev_env \<Rightarrow> int \<Rightarrow> string \<Rightarrow> string \<Rightarrow> string \<Rightarrow> int \<Rightarrow> bool \<Rightarrow> int \<Rightarrow> string \<Rightarrow> (dev_db, unit) dbm" where
  "RecordAPIRequest env now a path verb ms success bytes u =
     dev_uuid env a (\<lambda>a.
       if trim_space u = [] then autocommit (request_stmt now a path verb ms success None bytes)
       else dev_uuid env u (\<lambda>v. autocommit (request_stmt now a path verb ms success (Some v) bytes)))"

definition dev_day :: int where "dev_day = 24 * 60 * 60 * 1000000000"

definition metrics_start :: "int \<Rightarrow> string \<Rightarrow> int" where
  "metrics_start now period =
     (if to_lower period \<in> {''7d'', ''week'', ''weekly''} then now - 7 * dev_day
      else if to_lower period \<in> {''30d'', ''month'', ''monthly''} then now - 30 * dev_day else now - dev_day)"

definition GetMetrics :: "dev_env \<Rightarrow> int \<Rightarrow> string \<Rightarrow> string \<Rightarrow> (dev_db, dev_metrics) dbm" where
  "GetMetrics env now k period =
     dev_uuid env k (\<lambda>a. let since = metrics_start now period
       in dbind (autocommit (metrics_stmt k period a since)) (\<lambda>m.
          dbind (dignore [] (autocommit (endpoints_stmt a since))) (\<lambda>top. dreturn (m\<lparr>dm_top := top\<rparr>))))"
section \<open>Service\<close>

definition hex_digit :: "nat \<Rightarrow> char" where "hex_digit n = char_of (if n < 10 then 48 + n else 87 + n)"

definition hex_encode :: "nat list \<Rightarrow> string" where
  "hex_encode bs = concat (map (\<lambda>b. [hex_digit (b div 16), hex_digit (b mod 16)]) bs)"

definition upper_byte :: "char \<Rightarrow> char" where
  "upper_byte c = (let n = (of_char c :: nat) in if 97 \<le> n \<and> n \<le> 122 then char_of (n - 32) else c)"

text \<open>From \<open>n\<close> random bytes: half of them are used.\<close>

definition generateID :: "nat \<Rightarrow> nat list \<Rightarrow> string" where
  "generateID n bs = take n (map upper_byte (hex_encode bs))"

definition default_settings :: app_settings where
  "default_settings = \<lparr>as_webhooks = True, as_realtime = True, as_batch = False, as_minute = 100, as_hour = 1000, as_calls = 10,
     as_approval = False, as_auto = True, as_expiry = 3600, as_refresh = 86400\<rparr>"

definition RegisterApp :: "dev_env \<Rightarrow> dev_input \<Rightarrow> string \<Rightarrow> string \<Rightarrow> string \<Rightarrow> (dev_db, app) dbm" where
  "RegisterApp env i u name desc =
     (if trim_space name = [] then dfail (Errorf ''app name is required'')
      else CreateApp env i
        \<lparr>app_id = [], app_owner = u, app_name = trim_space name, app_desc = desc, app_client = generateID 16 (di_first i),
         app_secret = generateID 32 (di_second i), app_redirect = [], app_scopes = None, app_grants = None, app_public = False,
         app_active = True, app_verified = False, app_icon = [], app_home = [], app_terms = [], app_privacy = [],
         app_callbacks = None, app_created = di_now i, app_updated = di_now i, app_conf = default_settings\<rparr>)"

definition new_key :: "dev_env \<Rightarrow> dev_input \<Rightarrow> string \<Rightarrow> string \<Rightarrow> string \<Rightarrow> string list option \<Rightarrow> int \<Rightarrow> api_key" where
  "new_key env i a name desc scopes ttl =
     (let raw = generateID 40 (di_first i)
      in \<lparr>key_id = [], key_app = a, key_hash = de_sha env raw, key_prefix = take 8 raw, key_name = trim_space name, key_desc = desc,
          key_scopes = scopes, key_rpm = 100, key_rph = 1000, key_active = True, key_used = None,
          key_expires = (if 0 < ttl then Some (di_now i + ttl * dev_day) else None), key_created = di_now i, key_raw = raw,
          key_ips = None\<rparr>)"

definition CreateAPIKey ::
  "dev_env \<Rightarrow> dev_input \<Rightarrow> string \<Rightarrow> string \<Rightarrow> string \<Rightarrow> string list option \<Rightarrow> int \<Rightarrow> (dev_db, api_key) dbm" where
  "CreateAPIKey env i a name desc scopes ttl =
     (let k = new_key env i a name desc scopes ttl
      in dbind (insert_api_key env i k) (\<lambda>_. dbind (GetAPIKeyByHash env (key_hash k)) (\<lambda>stored. dreturn (stored\<lparr>key_raw := key_raw k\<rparr>))))"

definition CreateWebhook :: "dev_env \<Rightarrow> dev_input \<Rightarrow> string \<Rightarrow> string \<Rightarrow> string \<Rightarrow> string list option \<Rightarrow> (dev_db, webhook) dbm" where
  "CreateWebhook env i a name url events =
     (if trim_space url = [] then dfail (Errorf ''webhook url is required'')
      else insert_webhook env i
        \<lparr>hook_id = [], hook_app = a, hook_name = name, hook_url = url, hook_secret = generateID 24 (di_first i), hook_events = events,
         hook_active = True,
         hook_policy = \<lparr>rp_max = 3, rp_interval = 60, rp_backoff = ''exponential'', rp_timeout = 30\<rparr>, hook_created = di_now i,
         hook_updated = di_now i,
         hook_stats_of = \<lparr>hs_total = 0, hs_success = 0, hs_failure = 0, hs_delivered = None, hs_failed = None\<rparr>\<rparr>)"

definition TestWebhook :: "dev_env \<Rightarrow> int \<Rightarrow> string \<Rightarrow> (dev_db, unit) dbm" where
  "TestWebhook env now k = RecordWebhookDelivery env now k True 200 ''developer test''"

definition CreateBot :: "dev_env \<Rightarrow> dev_input \<Rightarrow> string \<Rightarrow> string \<Rightarrow> string \<Rightarrow> (dev_db, bot) dbm" where
  "CreateBot env i a name desc =
     (if trim_space name = [] then dfail (Errorf ''bot name is required'')
      else insert_bot env i
        \<lparr>bot_id = [], bot_app = a, bot_name = trim_space name, bot_desc = desc, bot_avatar = [], bot_public = False, bot_active = True,
         bot_official = False, bot_permissions = None, bot_capabilities = None, bot_created = di_now i, bot_updated = di_now i,
         bot_conf = \<lparr>bs_direct = True, bs_group = True, bs_commands = True, bs_webhooks = False, bs_privacy = ''private'', bs_rate = 30,
           bs_queue = 100\<rparr>\<rparr>)"

definition test_result_of :: "string \<Rightarrow> string \<Rightarrow> 'a res \<Rightarrow> test_result" where
  "test_result_of name problem r = (case r of
       Inl _ \<Rightarrow> \<lparr>tr_name = name, tr_status = ''failed'', tr_error = Some problem\<rparr>
     | Inr _ \<Rightarrow> \<lparr>tr_name = name, tr_status = ''passed'', tr_error = None\<rparr>)"

definition RunTestSuite :: "dev_env \<Rightarrow> int \<Rightarrow> string \<Rightarrow> (dev_db, test_suite) dbm" where
  "RunTestSuite env now a =
     dbind (dattempt (GetApp env a)) (\<lambda>r1. dbind (dattempt (GetMetrics env now a ''24h'')) (\<lambda>r2.
       let rs = [test_result_of ''application_exists'' ''application lookup failed'' r1,
                 test_result_of ''metrics_readable'' ''metrics lookup failed'' r2]
       in dreturn \<lparr>ts_app = a, ts_total = length rs, ts_passed = length (filter (\<lambda>r. tr_status r = ''passed'') rs),
            ts_failed = length (filter (\<lambda>r. tr_status r = ''failed'') rs), ts_results = rs, ts_at = now\<rparr>))"

section \<open>Handlers\<close>

datatype dev_body =
    DevError string
  | DevPanic
  | DevApp app
  | DevApps "app list"
  | DevKey api_key
  | DevKeys "api_key list"
  | DevHook webhook
  | DevHooks "webhook list"
  | DevBot bot
  | DevBots "bot list"
  | DevMetrics dev_metrics
  | DevSuite test_suite
  | DevNothing

type_synonym dev_op = "(dev_db, int \<times> dev_body) dbm"

text \<open>The errors of the framework, by their messages.\<close>

definition DevUnauthorized :: goerr where "DevUnauthorized = Errorf ''Unauthorized''"
definition DevForbidden :: goerr where "DevForbidden = Errorf ''Forbidden''"

text \<open>A panic passes by here and is answered by the recovering middleware; no other error is told apart.\<close>

definition writeErr :: "goerr \<Rightarrow> int \<times> dev_body" where
  "writeErr e =
     (if e = panicked then (500, DevPanic)
      else if e = DevUnauthorized then (401, DevError ''authentication required'')
      else if e = DevForbidden then (403, DevError ''forbidden'')
      else (500, DevError ''developer operation failed''))"

definition or_err :: "(dev_db, 'a) dbm \<Rightarrow> ('a \<Rightarrow> dev_op) \<Rightarrow> dev_op" where
  "or_err m k = dreply m writeErr k"

definition requireAppOwner :: "dev_env \<Rightarrow> string \<Rightarrow> string \<Rightarrow> (dev_db, unit) dbm" where
  "requireAppOwner env u a =
     (if u = [] then dfail DevUnauthorized
      else dbind (GetApp env a) (\<lambda>v. if app_owner v \<noteq> u then dfail DevForbidden else dreturn ()))"

definition requireKeyOwner :: "dev_env \<Rightarrow> string \<Rightarrow> string \<Rightarrow> (dev_db, unit) dbm" where
  "requireKeyOwner env u k = dbind (GetAPIKey env k) (\<lambda>v. requireAppOwner env u (key_app v))"

definition requireWebhookOwner :: "dev_env \<Rightarrow> string \<Rightarrow> string \<Rightarrow> (dev_db, unit) dbm" where
  "requireWebhookOwner env u k = dbind (GetWebhook env k) (\<lambda>v. requireAppOwner env u (hook_app v))"

definition requireBotOwner :: "dev_env \<Rightarrow> string \<Rightarrow> string \<Rightarrow> (dev_db, unit) dbm" where
  "requireBotOwner env u k = dbind (GetBot env k) (\<lambda>v. requireAppOwner env u (bot_app v))"

text \<open>A body that \<open>BodyParser\<close> refuses is \<open>None\<close>.\<close>

definition parsed :: "'a option \<Rightarrow> ('a \<Rightarrow> dev_op) \<Rightarrow> dev_op" where
  "parsed b k = (case b of None \<Rightarrow> dreturn (500, DevError ''developer operation failed'') | Some x \<Rightarrow> k x)"

definition no_content :: "(dev_db, unit) dbm \<Rightarrow> dev_op" where
  "no_content m = or_err m (\<lambda>_. dreturn (204, DevNothing))"

definition handle_list_apps :: "dev_env \<Rightarrow> string \<Rightarrow> dev_op" where
  "handle_list_apps env u =
     (if u = [] then dreturn (writeErr DevUnauthorized)
      else or_err (GetAppsByOwner env u 100 0) (\<lambda>as. dreturn (200, DevApps as)))"

definition handle_get_app :: "dev_env \<Rightarrow> string \<Rightarrow> string \<Rightarrow> dev_op" where
  "handle_get_app env u a =
     or_err (requireAppOwner env u a) (\<lambda>_. or_err (GetApp env a) (\<lambda>v. dreturn (200, DevApp (v\<lparr>app_secret := []\<rparr>))))"

definition handle_create_app :: "dev_env \<Rightarrow> dev_input \<Rightarrow> string \<Rightarrow> (string \<times> string) option \<Rightarrow> dev_op" where
  "handle_create_app env i u b =
     (if u = [] then dreturn (writeErr DevUnauthorized)
      else parsed b (\<lambda>(name, desc). or_err (RegisterApp env i u name desc) (\<lambda>v. dreturn (201, DevApp (v\<lparr>app_secret := []\<rparr>)))))"

definition handle_update_app :: "dev_env \<Rightarrow> dev_input \<Rightarrow> string \<Rightarrow> string \<Rightarrow> app option \<Rightarrow> dev_op" where
  "handle_update_app env i u a b =
     or_err (requireAppOwner env u a) (\<lambda>_. parsed b (\<lambda>v.
       or_err (UpdateApp env (di_now i) (v\<lparr>app_id := a\<rparr>)) (\<lambda>_.
       or_err (GetApp env a) (\<lambda>v. dreturn (200, DevApp (v\<lparr>app_secret := []\<rparr>))))))"

definition handle_delete_app :: "dev_env \<Rightarrow> string \<Rightarrow> string \<Rightarrow> dev_op" where
  "handle_delete_app env u a = or_err (requireAppOwner env u a) (\<lambda>_. no_content (DeleteApp env a))"

definition handle_verify_app :: "dev_env \<Rightarrow> dev_input \<Rightarrow> string \<Rightarrow> string \<Rightarrow> dev_op" where
  "handle_verify_app env i u a = or_err (requireAppOwner env u a) (\<lambda>_. no_content (VerifyApp env (di_now i) a))"

definition key_blank :: "api_key \<Rightarrow> api_key" where "key_blank k = k\<lparr>key_hash := [], key_raw := []\<rparr>"

definition handle_list_keys :: "dev_env \<Rightarrow> string \<Rightarrow> string \<Rightarrow> dev_op" where
  "handle_list_keys env u a =
     or_err (requireAppOwner env u a) (\<lambda>_. or_err (GetAPIKeysByAppID env a) (\<lambda>ks. dreturn (200, DevKeys (map key_blank ks))))"

definition handle_get_key :: "dev_env \<Rightarrow> string \<Rightarrow> string \<Rightarrow> dev_op" where
  "handle_get_key env u k =
     or_err (requireKeyOwner env u k) (\<lambda>_. or_err (GetAPIKey env k) (\<lambda>v. dreturn (200, DevKey (key_blank v))))"

text \<open>Name, description, scopes and days to live.\<close>

definition handle_create_key ::
  "dev_env \<Rightarrow> dev_input \<Rightarrow> string \<Rightarrow> string \<Rightarrow> (string \<times> string \<times> string list option \<times> int) option \<Rightarrow> dev_op" where
  "handle_create_key env i u a b =
     or_err (requireAppOwner env u a) (\<lambda>_. parsed b (\<lambda>(name, desc, scopes, ttl).
       or_err (CreateAPIKey env i a name desc scopes ttl) (\<lambda>k. dreturn (201, DevKey k))))"

definition handle_update_key :: "dev_env \<Rightarrow> string \<Rightarrow> string \<Rightarrow> api_key option \<Rightarrow> dev_op" where
  "handle_update_key env u k b =
     or_err (requireKeyOwner env u k) (\<lambda>_. parsed b (\<lambda>v.
       or_err (UpdateAPIKey env (v\<lparr>key_id := k\<rparr>)) (\<lambda>_. dreturn (200, DevKey (key_blank (v\<lparr>key_id := k\<rparr>))))))"

definition handle_revoke_key :: "dev_env \<Rightarrow> string \<Rightarrow> string \<Rightarrow> dev_op" where
  "handle_revoke_key env u k = or_err (requireKeyOwner env u k) (\<lambda>_. no_content (RevokeAPIKey env k))"

definition handle_list_hooks :: "dev_env \<Rightarrow> string \<Rightarrow> string \<Rightarrow> dev_op" where
  "handle_list_hooks env u a =
     or_err (requireAppOwner env u a) (\<lambda>_. or_err (GetWebhooksByAppID env a) (\<lambda>ws.
       dreturn (200, DevHooks (map (\<lambda>w. w\<lparr>hook_secret := []\<rparr>) ws))))"

definition handle_get_hook :: "dev_env \<Rightarrow> string \<Rightarrow> string \<Rightarrow> dev_op" where
  "handle_get_hook env u k =
     or_err (requireWebhookOwner env u k) (\<lambda>_. or_err (GetWebhook env k) (\<lambda>w. dreturn (200, DevHook (w\<lparr>hook_secret := []\<rparr>))))"

definition handle_create_hook ::
  "dev_env \<Rightarrow> dev_input \<Rightarrow> string \<Rightarrow> string \<Rightarrow> (string \<times> string \<times> string list option) option \<Rightarrow> dev_op" where
  "handle_create_hook env i u a b =
     or_err (requireAppOwner env u a) (\<lambda>_. parsed b (\<lambda>(name, url, events).
       or_err (CreateWebhook env i a name url events) (\<lambda>w. dreturn (201, DevHook w))))"

definition handle_update_hook :: "dev_env \<Rightarrow> dev_input \<Rightarrow> string \<Rightarrow> string \<Rightarrow> webhook option \<Rightarrow> dev_op" where
  "handle_update_hook env i u k b =
     or_err (requireWebhookOwner env u k) (\<lambda>_. parsed b (\<lambda>w.
       or_err (UpdateWebhook env (di_now i) (w\<lparr>hook_id := k\<rparr>)) (\<lambda>_. dreturn (200, DevHook (w\<lparr>hook_id := k, hook_secret := []\<rparr>)))))"

definition handle_delete_hook :: "dev_env \<Rightarrow> string \<Rightarrow> string \<Rightarrow> dev_op" where
  "handle_delete_hook env u k = or_err (requireWebhookOwner env u k) (\<lambda>_. no_content (DeleteWebhook env k))"

definition handle_test_hook :: "dev_env \<Rightarrow> dev_input \<Rightarrow> string \<Rightarrow> string \<Rightarrow> dev_op" where
  "handle_test_hook env i u k = or_err (requireWebhookOwner env u k) (\<lambda>_. no_content (TestWebhook env (di_now i) k))"

definition handle_list_bots :: "dev_env \<Rightarrow> string \<Rightarrow> string \<Rightarrow> dev_op" where
  "handle_list_bots env u a =
     or_err (requireAppOwner env u a) (\<lambda>_. or_err (GetBotsByAppID env a) (\<lambda>bs. dreturn (200, DevBots bs)))"

definition handle_get_bot :: "dev_env \<Rightarrow> string \<Rightarrow> string \<Rightarrow> dev_op" where
  "handle_get_bot env u k = or_err (requireBotOwner env u k) (\<lambda>_. or_err (GetBot env k) (\<lambda>b. dreturn (200, DevBot b)))"

definition handle_create_bot :: "dev_env \<Rightarrow> dev_input \<Rightarrow> string \<Rightarrow> string \<Rightarrow> (string \<times> string) option \<Rightarrow> dev_op" where
  "handle_create_bot env i u a b =
     or_err (requireAppOwner env u a) (\<lambda>_. parsed b (\<lambda>(name, desc).
       or_err (CreateBot env i a name desc) (\<lambda>b. dreturn (201, DevBot b))))"

definition handle_update_bot :: "dev_env \<Rightarrow> dev_input \<Rightarrow> string \<Rightarrow> string \<Rightarrow> bot option \<Rightarrow> dev_op" where
  "handle_update_bot env i u k b =
     or_err (requireBotOwner env u k) (\<lambda>_. parsed b (\<lambda>v.
       or_err (UpdateBot env (di_now i) (v\<lparr>bot_id := k\<rparr>)) (\<lambda>_. dreturn (200, DevBot (v\<lparr>bot_id := k\<rparr>)))))"

definition handle_delete_bot :: "dev_env \<Rightarrow> string \<Rightarrow> string \<Rightarrow> dev_op" where
  "handle_delete_bot env u k = or_err (requireBotOwner env u k) (\<lambda>_. no_content (DeleteBot env k))"

definition handle_dev_metrics :: "dev_env \<Rightarrow> dev_input \<Rightarrow> string \<Rightarrow> string \<Rightarrow> string \<Rightarrow> dev_op" where
  "handle_dev_metrics env i u a period =
     or_err (requireAppOwner env u a) (\<lambda>_.
       or_err (GetMetrics env (di_now i) a (if period = [] then ''24h'' else period)) (\<lambda>m. dreturn (200, DevMetrics m)))"

definition handle_test_suite :: "dev_env \<Rightarrow> dev_input \<Rightarrow> string \<Rightarrow> string \<Rightarrow> dev_op" where
  "handle_test_suite env i u a =
     or_err (requireAppOwner env u a) (\<lambda>_. or_err (RunTestSuite env (di_now i) a) (\<lambda>r. dreturn (200, DevSuite r)))"

datatype dev_call =
    ListAppsReq
  | GetAppReq string
  | CreateAppReq "(string \<times> string) option"
  | UpdateAppReq string "app option"
  | DeleteAppReq string
  | VerifyAppReq string
  | ListKeysReq string
  | GetKeyReq string
  | CreateKeyReq string "(string \<times> string \<times> string list option \<times> int) option"
  | UpdateKeyReq string "api_key option"
  | RevokeKeyReq string
  | ListHooksReq string
  | GetHookReq string
  | CreateHookReq string "(string \<times> string \<times> string list option) option"
  | UpdateHookReq string "webhook option"
  | DeleteHookReq string
  | TestHookReq string
  | ListBotsReq string
  | GetBotReq string
  | CreateBotReq string "(string \<times> string) option"
  | UpdateBotReq string "bot option"
  | DeleteBotReq string
  | MetricsReq string string
  | TestSuiteReq string

text \<open>The routes under \<open>/developer\<close>.\<close>

fun handle_dev :: "dev_env \<Rightarrow> dev_input \<Rightarrow> string \<Rightarrow> dev_call \<Rightarrow> dev_op" where
  "handle_dev env i u ListAppsReq = handle_list_apps env u"
| "handle_dev env i u (GetAppReq a) = handle_get_app env u a"
| "handle_dev env i u (CreateAppReq b) = handle_create_app env i u b"
| "handle_dev env i u (UpdateAppReq a b) = handle_update_app env i u a b"
| "handle_dev env i u (DeleteAppReq a) = handle_delete_app env u a"
| "handle_dev env i u (VerifyAppReq a) = handle_verify_app env i u a"
| "handle_dev env i u (ListKeysReq a) = handle_list_keys env u a"
| "handle_dev env i u (GetKeyReq k) = handle_get_key env u k"
| "handle_dev env i u (CreateKeyReq a b) = handle_create_key env i u a b"
| "handle_dev env i u (UpdateKeyReq k b) = handle_update_key env u k b"
| "handle_dev env i u (RevokeKeyReq k) = handle_revoke_key env u k"
| "handle_dev env i u (ListHooksReq a) = handle_list_hooks env u a"
| "handle_dev env i u (GetHookReq k) = handle_get_hook env u k"
| "handle_dev env i u (CreateHookReq a b) = handle_create_hook env i u a b"
| "handle_dev env i u (UpdateHookReq k b) = handle_update_hook env i u k b"
| "handle_dev env i u (DeleteHookReq k) = handle_delete_hook env u k"
| "handle_dev env i u (TestHookReq k) = handle_test_hook env i u k"
| "handle_dev env i u (ListBotsReq a) = handle_list_bots env u a"
| "handle_dev env i u (GetBotReq k) = handle_get_bot env u k"
| "handle_dev env i u (CreateBotReq a b) = handle_create_bot env i u a b"
| "handle_dev env i u (UpdateBotReq k b) = handle_update_bot env i u k b"
| "handle_dev env i u (DeleteBotReq k) = handle_delete_bot env u k"
| "handle_dev env i u (MetricsReq a p) = handle_dev_metrics env i u a p"
| "handle_dev env i u (TestSuiteReq a) = handle_test_suite env i u a"
section \<open>Who may change what\<close>

text \<open>The keys and references that the migration declares.\<close>

definition dev_keys_ok :: "dev_db \<Rightarrow> bool" where
  "dev_keys_ok d \<longleftrightarrow> distinct (map da_id (dev_apps d)) \<and> distinct (map dk_id (dev_keys d)) \<and> distinct (map dk_hash (dev_keys d)) \<and>
     distinct (map dw_id (dev_hooks d)) \<and> distinct (map db_id (dev_bots d))"

definition dev_refs_ok :: "dev_db \<Rightarrow> bool" where
  "dev_refs_ok d \<longleftrightarrow> da_owner ` set (dev_apps d) \<subseteq> set (dev_users d) \<and>
     dk_app ` set (dev_keys d) \<union> dw_app ` set (dev_hooks d) \<union> db_app ` set (dev_bots d) \<union> rq_app ` set (dev_requests d) \<subseteq>
       da_id ` set (dev_apps d) \<and>
     dl_hook ` set (dev_deliveries d) \<subseteq> dw_id ` set (dev_hooks d)"

definition dev_ok :: "dev_db \<Rightarrow> bool" where
  "dev_ok d \<longleftrightarrow> dev_keys_ok d \<and> dev_refs_ok d"

text \<open>The applications that are not the user's, and all that belongs to them.\<close>

definition others :: "uuid option \<Rightarrow> dev_db \<Rightarrow> uuid set" where
  "others u d = da_id ` set (rest_of u da_owner (dev_apps d))"

definition foreign_hooks :: "uuid option \<Rightarrow> dev_db \<Rightarrow> hook_row list" where
  "foreign_hooks u d = filter (\<lambda>w. dw_app w \<in> others u d) (dev_hooks d)"

definition foreign_children :: "uuid option \<Rightarrow> dev_db \<Rightarrow> key_row list \<times> bot_row list \<times> request_row list \<times> delivery_row list" where
  "foreign_children u d =
     (filter (\<lambda>k. dk_app k \<in> others u d) (dev_keys d), filter (\<lambda>b. db_app b \<in> others u d) (dev_bots d),
      filter (\<lambda>q. rq_app q \<in> others u d) (dev_requests d),
      filter (\<lambda>l. dl_hook l \<in> dw_id ` set (foreign_hooks u d)) (dev_deliveries d))"

text \<open>
  The specification of a request of the user \<open>u\<close>: the users stay, and the applications of others with all that belongs to them,
  and keys and references stay as declared.
\<close>

definition dev_within :: "uuid option \<Rightarrow> dev_db \<Rightarrow> dev_db \<Rightarrow> bool" where
  "dev_within u d d' \<longleftrightarrow>
     dev_users d' = dev_users d \<and>
     rest_of u da_owner (dev_apps d') = rest_of u da_owner (dev_apps d) \<and>
     foreign_hooks u d' = foreign_hooks u d \<and>
     foreign_children u d' = foreign_children u d \<and>
     (dev_ok d \<longrightarrow> dev_ok d')"

interpretation developer: evolution "dev_within u" for u
  by unfold_locales (auto simp: dev_within_def)

lemma others_same: "rest_of u da_owner (dev_apps d') = rest_of u da_owner (dev_apps d) \<Longrightarrow> others u d' = others u d"
  by (simp add: others_def)

lemma not_others: "k \<notin> others u d \<longleftrightarrow> (\<forall>a\<in>set (dev_apps d). da_id a = k \<longrightarrow> Some (da_owner a) = u)"
  by (auto simp: others_def rest_of_def)

lemma filter_update_other: "(\<And>r. r \<in> set rs \<Longrightarrow> P r \<Longrightarrow> \<not> Q r \<and> \<not> Q (f r)) \<Longrightarrow> filter Q (sql_update P f rs) = filter Q rs"
  by (induction rs) (auto simp: sql_update_def)

lemma filter_delete_other: "(\<And>r. r \<in> set rs \<Longrightarrow> P r \<Longrightarrow> \<not> Q r) \<Longrightarrow> filter Q (sql_delete P rs) = filter Q rs"
  by (induction rs) (auto simp: sql_delete_def)

lemma image_sql_update: "(\<And>r. g (f r) = g r) \<Longrightarrow> g ` set (sql_update P f rs) = g ` set rs"
  by (simp flip: set_map)

lemma dev_ok_keys: "dev_ok d \<Longrightarrow> dev_keys_ok d" by (simp add: dev_ok_def)

text \<open>A statement on one table but that of the applications.\<close>

lemma keys_within:
  assumes "filter (\<lambda>k. dk_app k \<in> others u d) ks = filter (\<lambda>k. dk_app k \<in> others u d) (dev_keys d)"
    and "dev_ok d \<Longrightarrow> distinct (map dk_id ks) \<and> distinct (map dk_hash ks) \<and> dk_app ` set ks \<subseteq> da_id ` set (dev_apps d)"
  shows "dev_within u d (d\<lparr>dev_keys := ks\<rparr>)"
  using assms by (simp add: dev_within_def foreign_hooks_def foreign_children_def others_def dev_ok_def dev_keys_ok_def dev_refs_ok_def)

lemma bots_within:
  assumes "filter (\<lambda>k. db_app k \<in> others u d) bs = filter (\<lambda>k. db_app k \<in> others u d) (dev_bots d)"
    and "dev_ok d \<Longrightarrow> distinct (map db_id bs) \<and> db_app ` set bs \<subseteq> da_id ` set (dev_apps d)"
  shows "dev_within u d (d\<lparr>dev_bots := bs\<rparr>)"
  using assms by (simp add: dev_within_def foreign_hooks_def foreign_children_def others_def dev_ok_def dev_keys_ok_def dev_refs_ok_def)

lemma hooks_within:
  assumes "filter (\<lambda>w. dw_app w \<in> others u d) ws = foreign_hooks u d"
    and "dev_ok d \<Longrightarrow> distinct (map dw_id ws) \<and> dw_app ` set ws \<subseteq> da_id ` set (dev_apps d) \<and> dw_id ` set (dev_hooks d) \<subseteq> dw_id ` set ws"
  shows "dev_within u d (d\<lparr>dev_hooks := ws\<rparr>)"
proof -
  have "foreign_hooks u (d\<lparr>dev_hooks := ws\<rparr>) = foreign_hooks u d" using assms(1) by (simp add: foreign_hooks_def others_def)
  with assms(2) show ?thesis
    by (auto simp: dev_within_def foreign_children_def others_def dev_ok_def dev_keys_ok_def dev_refs_ok_def) (meson image_eqI subsetD)
qed

lemma deliveries_within:
  assumes "filter (\<lambda>l. dl_hook l \<in> dw_id ` set (foreign_hooks u d)) ls = filter (\<lambda>l. dl_hook l \<in> dw_id ` set (foreign_hooks u d)) (dev_deliveries d)"
    and "dl_hook ` set ls \<subseteq> dw_id ` set (dev_hooks d) \<union> dl_hook ` set (dev_deliveries d)"
  shows "dev_within u d (d\<lparr>dev_deliveries := ls\<rparr>)"
proof -
  have "foreign_hooks u (d\<lparr>dev_deliveries := ls\<rparr>) = foreign_hooks u d" by (simp add: foreign_hooks_def others_def)
  moreover have "dl_hook ` set ls \<subseteq> dw_id ` set (dev_hooks d)" if "dev_ok d"
  proof -
    from that have "dl_hook ` set (dev_deliveries d) \<subseteq> dw_id ` set (dev_hooks d)" by (simp add: dev_ok_def dev_refs_ok_def)
    with assms(2) show ?thesis by blast
  qed
  ultimately show ?thesis using assms(1)
    by (simp add: dev_within_def foreign_children_def others_def dev_ok_def dev_keys_ok_def dev_refs_ok_def)
qed

lemma apps_within:
  assumes "rest_of u da_owner as = rest_of u da_owner (dev_apps d)"
    and new: "dev_ok d \<Longrightarrow> distinct (map da_id as) \<and> da_id ` set (dev_apps d) \<subseteq> da_id ` set as \<and> da_owner ` set as \<subseteq> set (dev_users d)"
  shows "dev_within u d (d\<lparr>dev_apps := as\<rparr>)"
proof -
  have "others u (d\<lparr>dev_apps := as\<rparr>) = others u d" using assms(1) by (simp add: others_def)
  moreover have "dev_ok (d\<lparr>dev_apps := as\<rparr>)" if ok: "dev_ok d"
  proof -
    let ?refs = "dk_app ` set (dev_keys d) \<union> dw_app ` set (dev_hooks d) \<union> db_app ` set (dev_bots d) \<union> rq_app ` set (dev_requests d)"
    from ok have refs: "?refs \<subseteq> da_id ` set (dev_apps d)" "dl_hook ` set (dev_deliveries d) \<subseteq> dw_id ` set (dev_hooks d)"
      by (simp_all add: dev_ok_def dev_refs_ok_def)
    have "?refs \<subseteq> da_id ` set as" by (rule subset_trans [OF refs(1)]) (simp add: new [OF ok])
    with new [OF ok] refs(2) have "dev_refs_ok (d\<lparr>dev_apps := as\<rparr>)" by (simp add: dev_refs_ok_def)
    with new [OF ok] ok show ?thesis by (simp add: dev_ok_def dev_keys_ok_def)
  qed
  ultimately show ?thesis using assms(1) by (simp add: dev_within_def foreign_hooks_def foreign_children_def)
qed

section \<open>Statements within the specification\<close>

lemma create_app_within:
  assumes "create_app_stmt i v n t c x conf d = Inr (r, d')" and "u = Some v"
  shows "dev_within u d d'"
proof -
  let ?r = "fresh_app i v n t c x conf"
  from assms(1) have d': "d' = d\<lparr>dev_apps := dev_apps d @ [?r]\<rparr>" and new: "da_id ?r \<notin> da_id ` set (dev_apps d)" "v \<in> set (dev_users d)"
    by (auto simp: create_app_stmt_def Let_def split: if_splits)
  have owner: "da_owner ?r = v" by (simp add: fresh_app_def)
  show ?thesis unfolding d' using new assms(2)
    by (intro apps_within) (auto simp: owner dev_ok_def dev_keys_ok_def dev_refs_ok_def)
qed

lemma changed_apps_within:
  assumes "k \<notin> others u d" and "\<And>a. da_id (f a) = da_id a \<and> da_owner (f a) = da_owner a"
  shows "dev_within u d (d\<lparr>dev_apps := sql_update (\<lambda>a. da_id a = k) f (dev_apps d)\<rparr>)"
proof (rule apps_within)
  show "rest_of u da_owner (sql_update (\<lambda>a. da_id a = k) f (dev_apps d)) = rest_of u da_owner (dev_apps d)"
    using assms by (intro rest_of_update) (auto simp: not_others)
qed (use assms in \<open>simp add: image_sql_update dev_ok_def dev_keys_ok_def dev_refs_ok_def\<close>)

lemma update_app_within: "update_app_stmt now k a s g c d = Inr (x, d') \<Longrightarrow> k \<notin> others u d \<Longrightarrow> dev_within u d d'"
  by (auto simp: update_app_stmt_def app_changed_def developer.stays intro!: changed_apps_within split: list.splits option.splits if_splits)

lemma verify_app_within: "verify_app_stmt now k d = Inr (x, d') \<Longrightarrow> k \<notin> others u d \<Longrightarrow> dev_within u d d'"
  by (auto simp: verify_app_stmt_def intro!: changed_apps_within)

lemma drop_hooks_within:
  assumes "dev_ok d" and "\<And>w. w \<in> set (dev_hooks d) \<Longrightarrow> P w \<Longrightarrow> dw_app w \<notin> others u d"
  shows "dev_within u d (drop_hooks P d)"
proof -
  have one: "w = x" if "w \<in> set (dev_hooks d)" "x \<in> set (dev_hooks d)" "dw_id w = dw_id x" for w x
    using assms(1) that by (auto simp: dev_ok_def dev_keys_ok_def distinct_map dest: inj_onD)
  have same: "others u (drop_hooks P d) = others u d" by (simp add: others_def drop_hooks_def)
  then have hooks: "foreign_hooks u (drop_hooks P d) = foreign_hooks u d"
    using assms(2) by (auto simp: foreign_hooks_def drop_hooks_def intro!: filter_delete_other)
  have "filter (\<lambda>l. dl_hook l \<in> dw_id ` set (foreign_hooks u d)) (dev_deliveries (drop_hooks P d)) =
      filter (\<lambda>l. dl_hook l \<in> dw_id ` set (foreign_hooks u d)) (dev_deliveries d)"
    unfolding drop_hooks_def using assms(2)
    by (simp, intro filter_delete_other) (auto simp: list_ex_iff foreign_hooks_def dest: one)
  with same hooks have "foreign_children u (drop_hooks P d) = foreign_children u d"
    by (simp add: foreign_children_def drop_hooks_def)
  moreover have "dev_ok (drop_hooks P d)"
  proof -
    have "dl_hook l \<in> dw_id ` {w \<in> set (dev_hooks d). \<not> P w}"
      if "l \<in> set (dev_deliveries d)" and kept: "\<not> list_ex (\<lambda>w. P w \<and> dw_id w = dl_hook l) (dev_hooks d)" for l
    proof -
      from assms(1) have "dl_hook ` set (dev_deliveries d) \<subseteq> dw_id ` set (dev_hooks d)" by (simp add: dev_ok_def dev_refs_ok_def)
      with that(1) obtain w where "w \<in> set (dev_hooks d)" "dl_hook l = dw_id w" by blast
      with kept show ?thesis by (auto simp: list_ex_iff)
    qed
    then have "dl_hook ` set (dev_deliveries (drop_hooks P d)) \<subseteq> dw_id ` set (dev_hooks (drop_hooks P d))"
      by (auto simp: drop_hooks_def)
    moreover have "dw_app ` set (dev_hooks (drop_hooks P d)) \<subseteq> dw_app ` set (dev_hooks d)" by (auto simp: drop_hooks_def)
    ultimately have "dev_refs_ok (drop_hooks P d)" using assms(1)
      by (simp add: dev_ok_def dev_refs_ok_def drop_hooks_def subset_trans)
    then show ?thesis using assms(1) by (simp add: dev_ok_def dev_keys_ok_def drop_hooks_def distinct_sql_delete)
  qed
  ultimately show ?thesis using hooks by (simp add: dev_within_def drop_hooks_def)
qed
lemma requests_within:
  assumes "filter (\<lambda>q. rq_app q \<in> others u d) qs = filter (\<lambda>q. rq_app q \<in> others u d) (dev_requests d)"
    and "dev_ok d \<Longrightarrow> rq_app ` set qs \<subseteq> da_id ` set (dev_apps d)"
  shows "dev_within u d (d\<lparr>dev_requests := qs\<rparr>)"
  using assms by (simp add: dev_within_def foreign_hooks_def foreign_children_def others_def dev_ok_def dev_keys_ok_def dev_refs_ok_def)

lemma dev_refs:
  assumes "dev_ok d"
  shows "dk_app ` set (dev_keys d) \<subseteq> da_id ` set (dev_apps d)" "dw_app ` set (dev_hooks d) \<subseteq> da_id ` set (dev_apps d)"
    "db_app ` set (dev_bots d) \<subseteq> da_id ` set (dev_apps d)" "rq_app ` set (dev_requests d) \<subseteq> da_id ` set (dev_apps d)"
    "dl_hook ` set (dev_deliveries d) \<subseteq> dw_id ` set (dev_hooks d)" "da_owner ` set (dev_apps d) \<subseteq> set (dev_users d)"
  using assms by (simp_all add: dev_ok_def dev_refs_ok_def)

lemma dev_distinct:
  assumes "dev_ok d"
  shows "distinct (map da_id (dev_apps d))" "distinct (map dk_id (dev_keys d))" "distinct (map dk_hash (dev_keys d))"
    "distinct (map dw_id (dev_hooks d))" "distinct (map db_id (dev_bots d))"
  using assms by (simp_all add: dev_ok_def dev_keys_ok_def)

lemmas dev_elem = subsetD [OF dev_refs(1) imageI] subsetD [OF dev_refs(2) imageI] subsetD [OF dev_refs(3) imageI]
  subsetD [OF dev_refs(4) imageI]

text \<open>An application to which nothing refers any more.\<close>

lemma remove_app_within:
  assumes "k \<notin> others u d" and "k \<notin> dk_app ` set (dev_keys d)" and "k \<notin> dw_app ` set (dev_hooks d)"
    and "k \<notin> db_app ` set (dev_bots d)" and "k \<notin> rq_app ` set (dev_requests d)"
  shows "dev_within u d (d\<lparr>dev_apps := sql_delete (\<lambda>a. da_id a = k) (dev_apps d)\<rparr>)"
proof -
  let ?d = "d\<lparr>dev_apps := sql_delete (\<lambda>a. da_id a = k) (dev_apps d)\<rparr>"
  have rest: "rest_of u da_owner (sql_delete (\<lambda>a. da_id a = k) (dev_apps d)) = rest_of u da_owner (dev_apps d)"
    using assms(1) by (intro rest_of_delete) (simp add: not_others)
  moreover from rest have "others u ?d = others u d" by (simp add: others_def)
  moreover have "dev_ok ?d" if ok: "dev_ok d"
  proof -
    have left: "A \<subseteq> da_id ` set (sql_delete (\<lambda>a. da_id a = k) (dev_apps d))" if "A \<subseteq> da_id ` set (dev_apps d)" "k \<notin> A" for A
      using that by auto
    have "da_owner ` set (dev_apps ?d) \<subseteq> da_owner ` set (dev_apps d)" by auto
    then have "da_owner ` set (dev_apps ?d) \<subseteq> set (dev_users d)" using dev_refs(6) [OF ok] by (rule subset_trans)
    moreover note left [OF dev_refs(1) [OF ok] assms(2)] left [OF dev_refs(2) [OF ok] assms(3)]
      left [OF dev_refs(3) [OF ok] assms(4)] left [OF dev_refs(4) [OF ok] assms(5)]
    ultimately have "dev_refs_ok ?d" using dev_refs(5) [OF ok] unfolding dev_refs_ok_def by (simp del: set_sql_delete)
    then show ?thesis using ok by (simp add: dev_ok_def dev_keys_ok_def distinct_sql_delete)
  qed
  ultimately show ?thesis by (simp add: dev_within_def foreign_hooks_def foreign_children_def)
qed

lemma delete_app_within:
  assumes run: "delete_app_stmt k d = Inr (x, d')" and ok: "dev_ok d" and k: "k \<notin> others u d"
  shows "dev_within u d d'"
proof -
  let ?d1 = "drop_hooks (\<lambda>w. dw_app w = k) d"
  let ?d2 = "?d1\<lparr>dev_keys := sql_delete (\<lambda>x. dk_app x = k) (dev_keys ?d1)\<rparr>"
  let ?d3 = "?d2\<lparr>dev_bots := sql_delete (\<lambda>b. db_app b = k) (dev_bots ?d2)\<rparr>"
  let ?d4 = "?d3\<lparr>dev_requests := sql_delete (\<lambda>q. rq_app q = k) (dev_requests ?d3)\<rparr>"
  have others: "others u ?d1 = others u d" "others u ?d2 = others u d" "others u ?d3 = others u d" "others u ?d4 = others u d"
    by (simp_all add: others_def drop_hooks_def)
  have 1: "dev_within u d ?d1" using ok k by (intro drop_hooks_within) auto
  have 2: "dev_within u ?d1 ?d2" using k others
    by (intro keys_within) (auto intro!: filter_delete_other distinct_sql_delete dest: dev_distinct dev_elem)
  have 3: "dev_within u ?d2 ?d3" using k others
    by (intro bots_within) (auto intro!: filter_delete_other distinct_sql_delete dest: dev_distinct dev_elem)
  have 4: "dev_within u ?d3 ?d4" using k others
    by (intro requests_within) (auto intro!: filter_delete_other dest: dev_elem)
  have 5: "dev_within u ?d4 (?d4\<lparr>dev_apps := sql_delete (\<lambda>a. da_id a = k) (dev_apps ?d4)\<rparr>)"
    using k others by (intro remove_app_within) (auto simp: drop_hooks_def)
  have "d' = ?d4\<lparr>dev_apps := sql_delete (\<lambda>a. da_id a = k) (dev_apps ?d4)\<rparr>"
    using run by (cases d) (auto simp: delete_app_stmt_def drop_hooks_def)
  moreover note developer.follows_on [OF developer.follows_on [OF developer.follows_on [OF developer.follows_on [OF 1 2] 3] 4] 5]
  ultimately show ?thesis by (simp only:)
qed

lemma create_key_within:
  assumes "create_key_stmt i a k s p d = Inr (x, d')" and "a \<notin> others u d"
  shows "dev_within u d d'"
  using assms
  by (auto simp: create_key_stmt_def fresh_key_def app_known_def dest: dev_distinct dev_elem intro!: keys_within split: if_splits option.splits)

lemma changed_keys_within:
  assumes "\<And>r. r \<in> set (dev_keys d) \<Longrightarrow> dk_id r = k \<Longrightarrow> dk_app r \<notin> others u d"
    and "\<And>r. dk_id (f r) = dk_id r" "\<And>r. dk_app (f r) = dk_app r" "\<And>r. dk_hash (f r) = dk_hash r"
  shows "dev_within u d (d\<lparr>dev_keys := sql_update (\<lambda>r. dk_id r = k) f (dev_keys d)\<rparr>)"
proof (rule keys_within)
  show "filter (\<lambda>k. dk_app k \<in> others u d) (sql_update (\<lambda>r. dk_id r = k) f (dev_keys d)) = filter (\<lambda>k. dk_app k \<in> others u d) (dev_keys d)"
    using assms by (intro filter_update_other) simp
qed (use assms in \<open>simp add: image_sql_update dev_distinct dev_refs\<close>)

lemma update_key_within:
  assumes "update_key_stmt k v s p d = Inr (x, d')" and "\<And>r. r \<in> set (dev_keys d) \<Longrightarrow> dk_id r = k \<Longrightarrow> dk_app r \<notin> others u d"
  shows "dev_within u d d'"
  using assms by (auto simp: update_key_stmt_def developer.stays intro!: changed_keys_within split: if_splits option.splits)

lemma revoke_key_within:
  assumes "revoke_key_stmt k d = Inr (x, d')" and "\<And>r. r \<in> set (dev_keys d) \<Longrightarrow> dk_id r = k \<Longrightarrow> dk_app r \<notin> others u d"
  shows "dev_within u d d'"
  using assms by (auto simp: revoke_key_stmt_def intro!: changed_keys_within)

lemma create_hook_within:
  assumes "create_hook_stmt i a w e d = Inr (x, d')" and "a \<notin> others u d"
  shows "dev_within u d d'"
  using assms
  by (auto simp: create_hook_stmt_def app_known_def Let_def foreign_hooks_def dest: dev_distinct dev_elem intro!: hooks_within
      split: if_splits option.splits)

lemma update_hook_within:
  assumes run: "update_hook_stmt now k w e d = Inr (x, d')"
    and own: "\<And>r. r \<in> set (dev_hooks d) \<Longrightarrow> dw_id r = k \<Longrightarrow> dw_app r \<notin> others u d"
  shows "dev_within u d d'"
proof -
  have "dev_within u d (d\<lparr>dev_hooks := sql_update (\<lambda>r. dw_id r = k) f (dev_hooks d)\<rparr>)"
    if f: "\<And>r. dw_id (f r) = dw_id r" "\<And>r. dw_app (f r) = dw_app r" for f
  proof (rule hooks_within)
    show "filter (\<lambda>w. dw_app w \<in> others u d) (sql_update (\<lambda>r. dw_id r = k) f (dev_hooks d)) = foreign_hooks u d"
      unfolding foreign_hooks_def using f own by (intro filter_update_other) simp
  qed (use f in \<open>simp add: image_sql_update dev_distinct dev_refs\<close>)
  with run show ?thesis by (auto simp: update_hook_stmt_def developer.stays split: if_splits option.splits)
qed

lemma delete_hook_within:
  assumes "delete_hook_stmt k d = Inr (x, d')" and "dev_ok d"
    and "\<And>r. r \<in> set (dev_hooks d) \<Longrightarrow> dw_id r = k \<Longrightarrow> dw_app r \<notin> others u d"
  shows "dev_within u d d'"
  using assms by (auto simp: delete_hook_stmt_def intro!: drop_hooks_within)

lemma delivery_within:
  assumes "delivery_stmt now k b n t d = Inr (x, d')" and "\<And>r. r \<in> set (dev_hooks d) \<Longrightarrow> dw_id r = k \<Longrightarrow> dw_app r \<notin> others u d"
  shows "dev_within u d d'"
  using assms by (auto simp: delivery_stmt_def foreign_hooks_def intro!: deliveries_within split: if_splits)

lemma create_bot_within:
  assumes "create_bot_stmt i a b p d = Inr (x, d')" and "a \<notin> others u d"
  shows "dev_within u d d'"
  using assms
  by (auto simp: create_bot_stmt_def app_known_def Let_def dest: dev_distinct dev_elem intro!: bots_within
      split: if_splits option.splits)

lemma update_bot_within:
  assumes run: "update_bot_stmt now k b p d = Inr (x, d')"
    and own: "\<And>r. r \<in> set (dev_bots d) \<Longrightarrow> db_id r = k \<Longrightarrow> db_app r \<notin> others u d"
  shows "dev_within u d d'"
proof -
  have "dev_within u d (d\<lparr>dev_bots := sql_update (\<lambda>r. db_id r = k) f (dev_bots d)\<rparr>)"
    if f: "\<And>r. db_id (f r) = db_id r" "\<And>r. db_app (f r) = db_app r" for f
  proof (rule bots_within)
    show "filter (\<lambda>k. db_app k \<in> others u d) (sql_update (\<lambda>r. db_id r = k) f (dev_bots d)) = filter (\<lambda>k. db_app k \<in> others u d) (dev_bots d)"
      using f own by (intro filter_update_other) simp
  qed (use f in \<open>simp add: image_sql_update dev_distinct dev_refs\<close>)
  with run show ?thesis by (auto simp: update_bot_stmt_def developer.stays split: if_splits option.splits)
qed

lemma delete_bot_within:
  assumes "delete_bot_stmt k d = Inr (x, d')" and "\<And>r. r \<in> set (dev_bots d) \<Longrightarrow> db_id r = k \<Longrightarrow> db_app r \<notin> others u d"
  shows "dev_within u d d'"
  using assms
  by (auto simp: delete_bot_stmt_def intro!: bots_within filter_delete_other distinct_sql_delete dest: dev_distinct dev_elem)
section \<open>Calls that only read\<close>

definition still :: "(dev_db, 'a) dbm \<Rightarrow> bool" where
  "still m \<longleftrightarrow> (\<forall>s. durable (snd (m s)) = durable s)"

named_theorems still_intros \<open>introduction rules for calls that change nothing\<close>

lemma stillD: "still m \<Longrightarrow> m s = (r, s') \<Longrightarrow> durable s' = durable s"
  by (metis still_def snd_conv)

lemma still_simple [still_intros]: "still (dreturn a)" "still (dfail e)"
  by (simp_all add: still_def dreturn_def dfail_def)

lemma still_read [still_intros]: "reads f \<Longrightarrow> still (autocommit f)"
  by (auto simp: still_def reads_def autocommit_def next_outcome_def split: list.splits outcome.splits sum.splits prod.splits)

lemma still_bind [still_intros]: "still m \<Longrightarrow> (\<And>a. still (k a)) \<Longrightarrow> still (dbind m k)"
  unfolding still_def dbind_def by (auto split: prod.split sum.split) (metis snd_conv)+

lemma still_wrapped [still_intros]: "still m \<Longrightarrow> still (dmap_err g m)" "still m \<Longrightarrow> still (dignore a m)" "still m \<Longrightarrow> still (dattempt m)"
  unfolding still_def dmap_err_def dignore_def dattempt_def by (auto split: prod.split sum.split) (metis snd_conv)+

lemma still_cases [still_intros]: "(b \<Longrightarrow> still m) \<Longrightarrow> (\<not> b \<Longrightarrow> still m') \<Longrightarrow> still (if b then m else m')"
  "(\<And>x y. still (g x y)) \<Longrightarrow> still (case p of (x, y) \<Rightarrow> g x y)"
  "(\<And>k. still (f k)) \<Longrightarrow> still (dev_uuid env x f)"
  by (auto simp: dev_uuid_def still_simple split: prod.split sum.split)

lemma dev_reads [still_intros]:
  "reads (app_stmt k1)" "reads (owner_apps_stmt u2 l2 o2)" "reads (key_stmt k3)" "reads (key_by_hash_stmt h4)" "reads (app_keys_stmt a5)"
  "reads (hook_stmt k6)" "reads (app_hooks_stmt a7)" "reads (count_deliveries_stmt k8)" "reads (last_deliveries_stmt k9)"
  "reads (bot_stmt k10)" "reads (app_bots_stmt a11)" "reads (metrics_stmt n12 p12 a12 t12)" "reads (endpoints_stmt a13 t13)"
  by (auto simp: reads_def app_stmt_def owner_apps_stmt_def key_stmt_def key_by_hash_stmt_def app_keys_stmt_def hook_stmt_def app_hooks_stmt_def
      count_deliveries_stmt_def last_deliveries_stmt_def bot_stmt_def app_bots_stmt_def metrics_stmt_def endpoints_stmt_def one_row_def Let_def
      split: list.splits sum.splits if_splits)

lemma still_getters [still_intros]: "still (GetApp env k)" "still (GetAppsByOwner env u l o1)" "still (GetAPIKey env k)"
  "still (GetAPIKeyByHash env k)" "still (GetAPIKeysByAppID env k)" "still (GetBot env k)" "still (GetBotsByAppID env k)"
  "still (webhookStats env k)" "still (GetMetrics env now k p)"
  unfolding GetApp_def GetAppsByOwner_def GetAPIKey_def GetAPIKeyByHash_def GetAPIKeysByAppID_def GetBot_def GetBotsByAppID_def
    webhookStats_def GetMetrics_def Let_def
  by (intro still_intros)+

lemma still_scan_hooks [still_intros]: "still (scan_hooks env rs)"
  by (induction rs) (auto simp: scanWebhook_def intro!: still_intros)

lemma still_hooks [still_intros]: "still (GetWebhook env k)" "still (GetWebhooksByAppID env k)"
  unfolding GetWebhook_def GetWebhooksByAppID_def scanWebhook_def by (intro still_intros)+

lemma still_guards [still_intros]: "still (requireAppOwner env u k)" "still (requireKeyOwner env u k)" "still (requireWebhookOwner env u k)"
  "still (requireBotOwner env u k)" "still (RunTestSuite env now k)"
  unfolding requireAppOwner_def requireKeyOwner_def requireWebhookOwner_def requireBotOwner_def RunTestSuite_def Let_def by (intro still_intros)+

section \<open>What the guards establish\<close>

text \<open>What the code relies on of identifiers: they are read back as they are printed.\<close>

definition dev_ids_ok :: "dev_env \<Rightarrow> bool" where
  "dev_ids_ok env \<longleftrightarrow> (\<forall>k. de_scan env (trim_space (de_show env k)) = Inr k)"

definition dev_actor :: "dev_env \<Rightarrow> string \<Rightarrow> uuid option" where
  "dev_actor env u = (case de_scan env (trim_space u) of Inl _ \<Rightarrow> None | Inr v \<Rightarrow> Some v)"

definition names :: "dev_env \<Rightarrow> string \<Rightarrow> uuid \<Rightarrow> bool" where
  "names env x k \<longleftrightarrow> de_scan env (trim_space x) = Inr k"

text \<open>The user's own application, and own rows of an application.\<close>

definition owns_app :: "dev_env \<Rightarrow> string \<Rightarrow> uuid \<Rightarrow> dev_db \<Rightarrow> bool" where
  "owns_app env u a d \<longleftrightarrow> list_ex (\<lambda>r. da_id r = a \<and> de_show env (da_owner r) = u) (dev_apps d)"

definition owns_row :: "dev_env \<Rightarrow> string \<Rightarrow> ('r \<Rightarrow> uuid) \<Rightarrow> ('r \<Rightarrow> uuid) \<Rightarrow> 'r list \<Rightarrow> uuid \<Rightarrow> dev_db \<Rightarrow> bool" where
  "owns_row env u rid app_of rs k d \<longleftrightarrow> list_ex (\<lambda>r. rid r = k \<and> owns_app env u (app_of r) d) rs"

lemma uuid_ok: "dev_uuid env x f s = (Inr a, s') \<longleftrightarrow> (\<exists>k. names env x k \<and> f k s = (Inr a, s'))"
  by (auto simp: dev_uuid_def names_def dfail_def split: sum.split)

lemma names_shown: "dev_ids_ok env \<Longrightarrow> names env (de_show env k) a \<longleftrightarrow> a = k"
  by (auto simp: names_def dev_ids_ok_def)

lemma one_row_ok: "one_row P rs d = Inr (r, d') \<Longrightarrow> r \<in> set rs \<and> P r \<and> d' = d"
  by (auto simp: one_row_def split: list.splits dest: filter_ConsD)

lemma found_row:
  assumes "autocommit f s = (Inr r, s')" and "f = (\<lambda>d. one_row P (rows d) d)"
  shows "r \<in> set (rows (durable s)) \<and> P r \<and> durable s' = durable s"
  using autocommit_cases(2) [OF assms(1) refl] assms(2) by (auto dest: one_row_ok)

lemma got_app: "GetApp env x s = (Inr v, s') \<Longrightarrow> \<exists>k r. names env x k \<and> r \<in> set (dev_apps (durable s)) \<and> da_id r = k \<and> v = scanApp env r"
  by (force simp: GetApp_def uuid_ok dbm_ok app_stmt_def [abs_def] dest!: found_row [OF _ refl])

lemma got_key: "GetAPIKey env x s = (Inr v, s') \<Longrightarrow> \<exists>k r. names env x k \<and> r \<in> set (dev_keys (durable s)) \<and> dk_id r = k \<and> v = scanAPIKey env r"
  by (force simp: GetAPIKey_def uuid_ok dbm_ok key_stmt_def [abs_def] dest!: found_row [OF _ refl])

lemma got_bot: "GetBot env x s = (Inr v, s') \<Longrightarrow> \<exists>k r. names env x k \<and> r \<in> set (dev_bots (durable s)) \<and> db_id r = k \<and> v = scanBot env r"
  by (force simp: GetBot_def uuid_ok dbm_ok bot_stmt_def [abs_def] dest!: found_row [OF _ refl])

lemma got_hook: "GetWebhook env x s = (Inr v, s') \<Longrightarrow>
  \<exists>k r. names env x k \<and> r \<in> set (dev_hooks (durable s)) \<and> dw_id r = k \<and> hook_app v = de_show env (dw_app r)"
  by (force simp: GetWebhook_def uuid_ok dbm_ok hook_stmt_def [abs_def] scanWebhook_def dest!: found_row [OF _ refl])

lemma app_guard: "requireAppOwner env u x s = (Inr a, s') \<Longrightarrow> \<exists>k. names env x k \<and> owns_app env u k (durable s)"
  by (force simp: requireAppOwner_def dbm_ok owns_app_def list_ex_iff scanApp_def split: if_splits dest: got_app)

lemma row_guard:
  assumes "requireAppOwner env u (de_show env (rapp r)) s1 = (Inr a, s')" and "durable s1 = d"
    and "names env x (rid r)" and "r \<in> set rs" and "dev_ids_ok env"
  shows "\<exists>k. names env x k \<and> owns_row env u rid rapp rs k d"
proof -
  from app_guard [OF assms(1)] assms(2,5) have "owns_app env u (rapp r) d" by (auto simp: names_shown)
  with assms(3,4) show ?thesis by (auto simp: owns_row_def list_ex_iff)
qed

lemma key_guard:
  assumes "requireKeyOwner env u x s = (Inr a, s')" and "dev_ids_ok env"
  shows "\<exists>k. names env x k \<and> owns_row env u dk_id dk_app (dev_keys (durable s)) k (durable s)"
proof -
  from assms(1) obtain v s1 where 1: "GetAPIKey env x s = (Inr v, s1)" "requireAppOwner env u (key_app v) s1 = (Inr a, s')"
    by (auto simp: requireKeyOwner_def dbm_ok)
  from got_key [OF 1(1)] obtain r where r: "names env x (dk_id r)" "r \<in> set (dev_keys (durable s))" "key_app v = de_show env (dk_app r)"
    by (auto simp: scanAPIKey_def)
  show ?thesis by (rule row_guard [where rid = dk_id and rapp = dk_app, OF _ stillD [OF still_getters(3) 1(1)] r(1,2) assms(2)]) (use 1(2) in \<open>simp add: r(3)\<close>)
qed

lemma hook_guard:
  assumes "requireWebhookOwner env u x s = (Inr a, s')" and "dev_ids_ok env"
  shows "\<exists>k. names env x k \<and> owns_row env u dw_id dw_app (dev_hooks (durable s)) k (durable s)"
proof -
  from assms(1) obtain v s1 where 1: "GetWebhook env x s = (Inr v, s1)" "requireAppOwner env u (hook_app v) s1 = (Inr a, s')"
    by (auto simp: requireWebhookOwner_def dbm_ok)
  from got_hook [OF 1(1)] obtain r where r: "names env x (dw_id r)" "r \<in> set (dev_hooks (durable s))" "hook_app v = de_show env (dw_app r)"
    by (auto)
  show ?thesis by (rule row_guard [where rid = dw_id and rapp = dw_app, OF _ stillD [OF still_hooks(1) 1(1)] r(1,2) assms(2)]) (use 1(2) in \<open>simp add: r(3)\<close>)
qed

lemma bot_guard:
  assumes "requireBotOwner env u x s = (Inr a, s')" and "dev_ids_ok env"
  shows "\<exists>k. names env x k \<and> owns_row env u db_id db_app (dev_bots (durable s)) k (durable s)"
proof -
  from assms(1) obtain v s1 where 1: "GetBot env x s = (Inr v, s1)" "requireAppOwner env u (bot_app v) s1 = (Inr a, s')"
    by (auto simp: requireBotOwner_def dbm_ok)
  from got_bot [OF 1(1)] obtain r where r: "names env x (db_id r)" "r \<in> set (dev_bots (durable s))" "bot_app v = de_show env (db_app r)"
    by (auto simp: scanBot_def)
  show ?thesis by (rule row_guard [where rid = db_id and rapp = db_app, OF _ stillD [OF still_getters(6) 1(1)] r(1,2) assms(2)]) (use 1(2) in \<open>simp add: r(3)\<close>)
qed
section \<open>Requests within the specification\<close>

abbreviation dv_moves :: "dev_env \<Rightarrow> string \<Rightarrow> (dev_db \<Rightarrow> bool) \<Rightarrow> (dev_db, 'a) dbm \<Rightarrow> bool" where
  "dv_moves env u P m \<equiv> moves (dev_within (dev_actor env u)) P m (\<lambda>_ _. True)"

definition app_mine :: "uuid option \<Rightarrow> uuid \<Rightarrow> dev_db \<Rightarrow> bool" where
  "app_mine v k d \<longleftrightarrow> dev_ok d \<and> k \<notin> others v d"

definition row_mine :: "('r \<Rightarrow> uuid) \<Rightarrow> ('r \<Rightarrow> uuid) \<Rightarrow> (dev_db \<Rightarrow> 'r list) \<Rightarrow> uuid option \<Rightarrow> uuid \<Rightarrow> dev_db \<Rightarrow> bool" where
  "row_mine rid app_of rows v k d \<longleftrightarrow> dev_ok d \<and> (\<forall>r\<in>set (rows d). rid r = k \<longrightarrow> app_of r \<notin> others v d)"

lemma owned_mine:
  assumes "dev_ok d" and "dev_ids_ok env" and "owns_app env u k d"
  shows "app_mine (dev_actor env u) k d"
proof -
  from assms(3) obtain r where r: "r \<in> set (dev_apps d)" "da_id r = k" "u = de_show env (da_owner r)" by (auto simp: owns_app_def list_ex_iff)
  with assms(2) have actor: "dev_actor env u = Some (da_owner r)" by (simp add: dev_actor_def dev_ids_ok_def)
  have "a = r" if "a \<in> set (dev_apps d)" "da_id a = k" for a
    using that r dev_distinct(1) [OF assms(1)] by (auto simp: distinct_map dest: inj_onD)
  then show ?thesis using assms(1) actor by (auto simp: app_mine_def not_others)
qed

lemma owned_row_mine:
  assumes "dev_ok d" and "dev_ids_ok env" and "owns_row env u rid app_of (rows d) k d" and "distinct (map rid (rows d))"
  shows "row_mine rid app_of rows (dev_actor env u) k d"
proof -
  from assms(3) obtain r where r: "r \<in> set (rows d)" "rid r = k" "owns_app env u (app_of r) d" by (auto simp: owns_row_def list_ex_iff)
  have "a = r" if "a \<in> set (rows d)" "rid a = k" for a
    using that r(1,2) assms(4) by (auto simp: distinct_map dest: inj_onD)
  with owned_mine [OF assms(1,2) r(3)] assms(1) show ?thesis by (auto simp: row_mine_def app_mine_def)
qed

lemma guard_moves:
  assumes "still m" and "\<And>s a s'. m s = (Inr a, s') \<Longrightarrow> dev_ok (durable s) \<Longrightarrow> \<exists>k. names env x k \<and> Q k (durable s)"
    and "\<And>k. names env x k \<Longrightarrow> dv_moves env u (Q k) c"
  shows "dv_moves env u dev_ok (or_err m (\<lambda>_. c))"
  unfolding or_err_def
proof (rule developer.moves_reply)
  show "moves (dev_within (dev_actor env u)) dev_ok m (\<lambda>_ d. \<exists>k. names env x k \<and> Q k d)"
    unfolding moves_def
  proof (intro allI impI conjI)
    fix s r s' a
    assume run: "m s = (r, s')" and ok: "dev_ok (durable s)"
    have same: "durable s' = durable s" by (rule stillD [OF assms(1) run])
    then show "dev_within (dev_actor env u) (durable s) (durable s')" by (simp add: developer.stays)
    show "\<exists>k. names env x k \<and> Q k (durable s')" if "r = Inr a" using assms(2) [of s a s'] run that ok same by simp
  qed
  show "dv_moves env u (\<lambda>d. \<exists>k. names env x k \<and> Q k d) c" using assms(3) unfolding moves_def by blast
qed

lemma app_guard_moves:
  assumes "dev_ids_ok env" and "\<And>k. names env x k \<Longrightarrow> dv_moves env u (app_mine (dev_actor env u) k) c"
  shows "dv_moves env u dev_ok (or_err (requireAppOwner env u x) (\<lambda>_. c))"
  by (rule guard_moves [OF still_guards(1) _ assms(2)]) (use assms(1) in \<open>auto dest!: app_guard intro: owned_mine\<close>)

lemma key_guard_moves:
  assumes "dev_ids_ok env" and "\<And>k. names env x k \<Longrightarrow> dv_moves env u (row_mine dk_id dk_app dev_keys (dev_actor env u) k) c"
  shows "dv_moves env u dev_ok (or_err (requireKeyOwner env u x) (\<lambda>_. c))"
  by (rule guard_moves [OF still_guards(2) _ assms(2)]) (use assms(1) in \<open>auto dest!: key_guard intro: owned_row_mine dev_distinct\<close>)

lemma hook_guard_moves:
  assumes "dev_ids_ok env" and "\<And>k. names env x k \<Longrightarrow> dv_moves env u (row_mine dw_id dw_app dev_hooks (dev_actor env u) k) c"
  shows "dv_moves env u dev_ok (or_err (requireWebhookOwner env u x) (\<lambda>_. c))"
  by (rule guard_moves [OF still_guards(3) _ assms(2)]) (use assms(1) in \<open>auto dest!: hook_guard intro: owned_row_mine dev_distinct\<close>)

lemma bot_guard_moves:
  assumes "dev_ids_ok env" and "\<And>k. names env x k \<Longrightarrow> dv_moves env u (row_mine db_id db_app dev_bots (dev_actor env u) k) c"
  shows "dv_moves env u dev_ok (or_err (requireBotOwner env u x) (\<lambda>_. c))"
  by (rule guard_moves [OF still_guards(4) _ assms(2)]) (use assms(1) in \<open>auto dest!: bot_guard intro: owned_row_mine dev_distinct\<close>)

lemma still_dev_moves: "still m \<Longrightarrow> dv_moves env u P m"
  unfolding moves_def by (auto dest: stillD simp: developer.stays)

lemma or_err_moves: "dv_moves env u P m \<Longrightarrow> (\<And>a. dv_moves env u (\<lambda>_. True) (k a)) \<Longrightarrow> dv_moves env u P (or_err m k)"
  unfolding or_err_def by (rule developer.moves_reply)

lemma dev_answer_moves: "dv_moves env u P (dreturn a)"
  by (intro still_dev_moves still_simple)

lemma parsed_moves: "(\<And>a. dv_moves env u P (k a)) \<Longrightarrow> dv_moves env u P (parsed b k)"
  by (simp add: parsed_def dev_answer_moves split: option.split)

lemma no_content_moves: "dv_moves env u P m \<Longrightarrow> dv_moves env u P (no_content m)"
  unfolding no_content_def by (intro or_err_moves dev_answer_moves)

lemma uuid_moves: "(\<And>k. names env x k \<Longrightarrow> dv_moves env u P (f k)) \<Longrightarrow> dv_moves env u P (dev_uuid env x f)"
  by (auto simp: dev_uuid_def names_def developer.moves_fail split: sum.split)

lemma bind_moves: "dv_moves env u P m \<Longrightarrow> (\<And>a. dv_moves env u (\<lambda>_. True) (k a)) \<Longrightarrow> dv_moves env u P (dbind m k)"
  by (rule developer.moves_bind)

lemma dev_step_moves: "(\<And>d a d'. P d \<Longrightarrow> f d = Inr (a, d') \<Longrightarrow> dev_within (dev_actor env u) d d') \<Longrightarrow> dv_moves env u P (autocommit f)"
  by (rule developer.moves_autocommit) auto

lemma dev_read_moves:
  assumes "still m" and "\<And>a. still (k a)"
  shows "dv_moves env u P (or_err m k)"
  unfolding or_err_def dreply_def by (intro still_dev_moves still_intros) (use assms in \<open>auto intro: still_intros split: sum.split\<close>)

lemma dev_reads_move: "(\<And>a. still (k a)) \<Longrightarrow> still m \<Longrightarrow> still (or_err m k)"
  unfolding or_err_def dreply_def by (intro still_intros) (auto intro: still_intros split: sum.split)

lemma same_name: "names env x k \<Longrightarrow> names env x k' \<Longrightarrow> k' = k"
  by (simp add: names_def)

lemmas dev_moves = or_err_moves dev_answer_moves parsed_moves no_content_moves uuid_moves bind_moves dev_step_moves
  developer.moves_if developer.moves_fail

lemma app_requests_move:
  assumes "dev_ids_ok env"
  shows "dv_moves env u dev_ok (handle_update_app env i u a b1)" "dv_moves env u dev_ok (handle_delete_app env u a)"
    "dv_moves env u dev_ok (handle_verify_app env i u a)" "dv_moves env u dev_ok (handle_create_key env i u a b4)"
    "dv_moves env u dev_ok (handle_create_hook env i u a b5)" "dv_moves env u dev_ok (handle_create_bot env i u a b6)"
proof -
  have mine: "k' \<notin> others (dev_actor env u) d \<and> dev_ok d" if "names env x k" "names env x k'" "app_mine (dev_actor env u) k d" for x k k' d
    using that same_name [OF that(1,2)] by (simp add: app_mine_def)
  show "dv_moves env u dev_ok (handle_update_app env i u a b1)"
    unfolding handle_update_app_def UpdateApp_def
    by (intro app_guard_moves [OF assms] dev_moves) (auto dest: mine update_app_within intro: still_dev_moves still_intros)
  show "dv_moves env u dev_ok (handle_delete_app env u a)"
    unfolding handle_delete_app_def DeleteApp_def
    by (intro app_guard_moves [OF assms] dev_moves) (auto dest: mine intro: delete_app_within)
  show "dv_moves env u dev_ok (handle_verify_app env i u a)"
    unfolding handle_verify_app_def VerifyApp_def
    by (intro app_guard_moves [OF assms] dev_moves) (auto dest: mine intro: verify_app_within)
  show "dv_moves env u dev_ok (handle_create_key env i u a b4)"
    unfolding handle_create_key_def CreateAPIKey_def insert_api_key_def new_key_def Let_def
    by (intro app_guard_moves [OF assms] dev_moves)
      (auto intro!: dev_moves intro: create_key_within still_dev_moves still_intros dest: mine split: prod.split)
  show "dv_moves env u dev_ok (handle_create_hook env i u a b5)"
    unfolding handle_create_hook_def CreateWebhook_def insert_webhook_def
    by (intro app_guard_moves [OF assms] dev_moves) (auto intro!: dev_moves intro: create_hook_within dest: mine split: prod.split)
  show "dv_moves env u dev_ok (handle_create_bot env i u a b6)"
    unfolding handle_create_bot_def CreateBot_def insert_bot_def
    by (intro app_guard_moves [OF assms] dev_moves) (auto intro!: dev_moves intro: create_bot_within dest: mine split: prod.split)
qed

lemma row_requests_move:
  assumes "dev_ids_ok env"
  shows "dv_moves env u dev_ok (handle_update_key env u k b1)" "dv_moves env u dev_ok (handle_revoke_key env u k)"
    "dv_moves env u dev_ok (handle_update_hook env i u k b3)" "dv_moves env u dev_ok (handle_delete_hook env u k)"
    "dv_moves env u dev_ok (handle_test_hook env i u k)" "dv_moves env u dev_ok (handle_update_bot env i u k b6)"
    "dv_moves env u dev_ok (handle_delete_bot env u k)"
proof -
  show "dv_moves env u dev_ok (handle_update_key env u k b1)"
    unfolding handle_update_key_def UpdateAPIKey_def
    by (intro key_guard_moves [OF assms] dev_moves) (auto simp: names_def row_mine_def intro: update_key_within)
  show "dv_moves env u dev_ok (handle_revoke_key env u k)"
    unfolding handle_revoke_key_def RevokeAPIKey_def
    by (intro key_guard_moves [OF assms] dev_moves) (auto simp: names_def row_mine_def intro: revoke_key_within)
  show "dv_moves env u dev_ok (handle_update_hook env i u k b3)"
    unfolding handle_update_hook_def UpdateWebhook_def
    by (intro hook_guard_moves [OF assms] dev_moves) (auto simp: names_def row_mine_def intro: update_hook_within)
  show "dv_moves env u dev_ok (handle_delete_hook env u k)"
    unfolding handle_delete_hook_def DeleteWebhook_def
    by (intro hook_guard_moves [OF assms] dev_moves) (auto simp: names_def row_mine_def intro: delete_hook_within)
  show "dv_moves env u dev_ok (handle_test_hook env i u k)"
    unfolding handle_test_hook_def TestWebhook_def RecordWebhookDelivery_def
    by (intro hook_guard_moves [OF assms] dev_moves) (auto simp: names_def row_mine_def intro: delivery_within)
  show "dv_moves env u dev_ok (handle_update_bot env i u k b6)"
    unfolding handle_update_bot_def UpdateBot_def
    by (intro bot_guard_moves [OF assms] dev_moves) (auto simp: names_def row_mine_def intro: update_bot_within)
  show "dv_moves env u dev_ok (handle_delete_bot env u k)"
    unfolding handle_delete_bot_def DeleteBot_def
    by (intro bot_guard_moves [OF assms] dev_moves) (auto simp: names_def row_mine_def intro: delete_bot_within)
qed

lemma create_app_moves: "dv_moves env u P (handle_create_app env i u b)"
proof -
  have actor: "dev_actor env u = Some v" if "names env u v" for v using that by (simp add: names_def dev_actor_def)
  show ?thesis
    unfolding handle_create_app_def RegisterApp_def CreateApp_def
    by (intro dev_moves) (auto simp: actor intro!: dev_moves create_app_within split: prod.split)
qed

lemma reading_requests_move:
  "still (handle_list_apps env u)" "still (handle_get_app env u a)" "still (handle_list_keys env u a)" "still (handle_get_key env u k)"
  "still (handle_list_hooks env u a)" "still (handle_get_hook env u k)" "still (handle_list_bots env u a)" "still (handle_get_bot env u k)"
  "still (handle_dev_metrics env i u a p)" "still (handle_test_suite env i u a)"
  unfolding handle_list_apps_def handle_get_app_def handle_list_keys_def handle_get_key_def handle_list_hooks_def handle_get_hook_def
    handle_list_bots_def handle_get_bot_def handle_dev_metrics_def handle_test_suite_def
  by (intro dev_reads_move still_intros)+

text \<open>
  C10. Whatever a user requests of the developer platform, and whatever the database does meanwhile, the applications of others
  stay as they are, with their keys, webhooks, deliveries, bots and recorded requests, and keys and references stay as declared.
\<close>

theorem developer_changes_authorised:
  assumes "dev_ids_ok env" and "dev_ok (durable s)"
  shows "dev_within (dev_actor env u) (durable s) (durable (snd (handle_dev env i u c s)))"
proof (rule movesD [where P = dev_ok])
  show "dv_moves env u dev_ok (handle_dev env i u c)"
    by (cases c) (simp_all add: app_requests_move [OF assms(1)] row_requests_move [OF assms(1)] create_app_moves
        still_dev_moves [OF reading_requests_move(1)] still_dev_moves [OF reading_requests_move(2)]
        still_dev_moves [OF reading_requests_move(3)] still_dev_moves [OF reading_requests_move(4)]
        still_dev_moves [OF reading_requests_move(5)] still_dev_moves [OF reading_requests_move(6)]
        still_dev_moves [OF reading_requests_move(7)] still_dev_moves [OF reading_requests_move(8)]
        still_dev_moves [OF reading_requests_move(9)] still_dev_moves [OF reading_requests_move(10)])
qed (rule assms(2))
section \<open>What is answered\<close>

text \<open>The secrets in an answer that are not blank.\<close>

definition shown_secrets :: "dev_body \<Rightarrow> string list" where
  "shown_secrets b = filter (\<lambda>x. x \<noteq> []) (case b of
       DevApp a \<Rightarrow> [app_secret a]
     | DevApps as \<Rightarrow> map app_secret as
     | DevKey k \<Rightarrow> [key_hash k, key_raw k]
     | DevKeys ks \<Rightarrow> concat (map (\<lambda>k. [key_hash k, key_raw k]) ks)
     | DevHook w \<Rightarrow> [hook_secret w]
     | DevHooks ws \<Rightarrow> map hook_secret ws
     | _ \<Rightarrow> [])"

definition named_own :: "dev_env \<Rightarrow> string \<Rightarrow> (uuid \<Rightarrow> bool) \<Rightarrow> bool" where
  "named_own env x f \<longleftrightarrow> (case de_scan env (trim_space x) of Inl _ \<Rightarrow> False | Inr k \<Rightarrow> f k)"

text \<open>The request is about an application of the user, or about a key, webhook or bot of one.\<close>

definition on_own :: "dev_env \<Rightarrow> string \<Rightarrow> dev_db \<Rightarrow> dev_call \<Rightarrow> bool" where
  "on_own env u d c \<longleftrightarrow>
     (let app = (\<lambda>x. named_own env x (\<lambda>k. owns_app env u k d));
          key = (\<lambda>x. named_own env x (\<lambda>k. owns_row env u dk_id dk_app (dev_keys d) k d));
          hook = (\<lambda>x. named_own env x (\<lambda>k. owns_row env u dw_id dw_app (dev_hooks d) k d));
          bot = (\<lambda>x. named_own env x (\<lambda>k. owns_row env u db_id db_app (dev_bots d) k d))
      in case c of
         ListAppsReq \<Rightarrow> u \<noteq> [] | CreateAppReq _ \<Rightarrow> u \<noteq> []
       | GetAppReq x \<Rightarrow> app x | UpdateAppReq x _ \<Rightarrow> app x | DeleteAppReq x \<Rightarrow> app x | VerifyAppReq x \<Rightarrow> app x
       | ListKeysReq x \<Rightarrow> app x | CreateKeyReq x _ \<Rightarrow> app x | ListHooksReq x \<Rightarrow> app x | CreateHookReq x _ \<Rightarrow> app x
       | ListBotsReq x \<Rightarrow> app x | CreateBotReq x _ \<Rightarrow> app x | MetricsReq x _ \<Rightarrow> app x | TestSuiteReq x \<Rightarrow> app x
       | GetKeyReq x \<Rightarrow> key x | UpdateKeyReq x _ \<Rightarrow> key x | RevokeKeyReq x \<Rightarrow> key x
       | GetHookReq x \<Rightarrow> hook x | UpdateHookReq x _ \<Rightarrow> hook x | DeleteHookReq x \<Rightarrow> hook x | TestHookReq x \<Rightarrow> hook x
       | GetBotReq x \<Rightarrow> bot x | UpdateBotReq x _ \<Rightarrow> bot x | DeleteBotReq x \<Rightarrow> bot x)"

definition issues_secret :: "dev_call \<Rightarrow> bool" where
  "issues_secret c \<longleftrightarrow> (case c of CreateKeyReq _ _ \<Rightarrow> True | CreateHookReq _ _ \<Rightarrow> True | _ \<Rightarrow> False)"

lemma named_ownI: "\<exists>k. names env x k \<and> f k \<Longrightarrow> named_own env x f"
  by (auto simp: named_own_def names_def)

lemma writeErr_code: "writeErr e = (n, b) \<Longrightarrow> 400 \<le> n"
  by (auto simp: writeErr_def split: if_splits)

lemma not_refused: "n < 400 \<Longrightarrow> writeErr e \<noteq> (n, b)" "n < 400 \<Longrightarrow> (n, b) \<noteq> writeErr e"
  using writeErr_code [of e n b] by auto

lemma or_err_ok: "n < 400 \<Longrightarrow> or_err m k s = (Inr (n, b), s') \<longleftrightarrow> (\<exists>a s1. m s = (Inr a, s1) \<and> k a s1 = (Inr (n, b), s'))"
  by (auto simp: or_err_def dreply_ok not_refused)

lemma parsed_ok: "n < 400 \<Longrightarrow> parsed x k s = (Inr (n, b), s') \<longleftrightarrow> (\<exists>y. x = Some y \<and> k y s = (Inr (n, b), s'))"
  by (auto simp: parsed_def dreturn_def split: option.splits)

lemma no_content_ok: "n < 400 \<Longrightarrow> no_content m s = (Inr (n, b), s') \<longleftrightarrow> n = 204 \<and> b = DevNothing \<and> m s = (Inr (), s')"
  by (auto simp: no_content_def or_err_ok dreturn_def)

lemma guarded_on_own:
  assumes ids: "dev_ids_ok env" and ok: "n < 400"
  shows "or_err (requireAppOwner env u x) k1 s = (Inr (n, b), s') \<Longrightarrow> named_own env x (\<lambda>k. owns_app env u k (durable s))"
    and "or_err (requireKeyOwner env u x) k2 s = (Inr (n, b), s') \<Longrightarrow>
      named_own env x (\<lambda>k. owns_row env u dk_id dk_app (dev_keys (durable s)) k (durable s))"
    and "or_err (requireWebhookOwner env u x) k3 s = (Inr (n, b), s') \<Longrightarrow>
      named_own env x (\<lambda>k. owns_row env u dw_id dw_app (dev_hooks (durable s)) k (durable s))"
    and "or_err (requireBotOwner env u x) k4 s = (Inr (n, b), s') \<Longrightarrow>
      named_own env x (\<lambda>k. owns_row env u db_id db_app (dev_bots (durable s)) k (durable s))"
  using ok by (auto simp: or_err_ok intro!: named_ownI dest: app_guard key_guard [OF _ ids] hook_guard [OF _ ids] bot_guard [OF _ ids])

lemma answered_on_own:
  assumes "handle_dev env i u c s = (Inr (n, b), s')" and ok: "n < 400" and ids: "dev_ids_ok env"
  shows "on_own env u (durable s) c"
proof -
  have signed: "dreturn (writeErr DevUnauthorized) s \<noteq> (Inr (n, b), s')" using ok by (auto simp: dreturn_def not_refused)
  show ?thesis using assms(1)
    by (cases c) (auto simp: on_own_def handle_list_apps_def handle_create_app_def handle_get_app_def handle_update_app_def handle_delete_app_def
        handle_verify_app_def handle_list_keys_def handle_get_key_def handle_create_key_def handle_update_key_def handle_revoke_key_def
        handle_list_hooks_def handle_get_hook_def handle_create_hook_def handle_update_hook_def handle_delete_hook_def handle_test_hook_def
        handle_list_bots_def handle_get_bot_def handle_create_bot_def handle_update_bot_def handle_delete_bot_def handle_dev_metrics_def
        handle_test_suite_def signed dest: guarded_on_own [OF ids ok])
qed

lemma answered_without_secrets:
  assumes "handle_dev env i u c s = (Inr (n, b), s')" and "n < 400" and "\<not> issues_secret c"
  shows "shown_secrets b = []"
  using assms
  by (cases c) (auto simp: shown_secrets_def issues_secret_def key_blank_def dbm_ok or_err_ok parsed_ok GetAppsByOwner_def uuid_ok
      handle_list_apps_def handle_create_app_def handle_get_app_def handle_update_app_def handle_delete_app_def
      handle_verify_app_def handle_list_keys_def handle_get_key_def handle_update_key_def handle_revoke_key_def
      handle_list_hooks_def handle_get_hook_def handle_update_hook_def handle_delete_hook_def handle_test_hook_def
      handle_list_bots_def handle_get_bot_def handle_create_bot_def handle_update_bot_def handle_delete_bot_def handle_dev_metrics_def
      handle_test_suite_def no_content_ok not_refused split: if_splits prod.splits)

text \<open>
  C24. A request on the developer platform is answered with success only if it is about an application of the caller, or a key, a
  webhook or a bot of one, or lists or registers the caller's own applications. No such answer shows the secret of an application,
  and the secret of a webhook or a key is shown only by the request that creates it.
\<close>

theorem developer_answers_own:
  assumes "handle_dev env i u c s = (Inr (n, b), s')" and "n < 400" and "dev_ids_ok env"
  shows "on_own env u (durable s) c \<and> (shown_secrets b = [] \<or> issues_secret c)"
  using answered_on_own [OF assms] answered_without_secrets [OF assms(1,2)] by blast
section \<open>Concrete inputs\<close>

text \<open>Identifiers in unary; the user 1 owns the application 2, the user 3 the application 4.\<close>

definition dev_demo_env :: dev_env where
  "dev_demo_env = \<lparr>de_scan = (\<lambda>x. Inr (of_nat (length x))), de_show = (\<lambda>k. replicate (unat k) CHR ''a''),
     de_array = (\<lambda>x. case x of None \<Rightarrow> Some [] | Some l \<Rightarrow> Some l), de_sha = rev\<rparr>"

definition dev_demo_input :: dev_input where
  "dev_demo_input = \<lparr>di_now = 20, di_new = 30, di_first = replicate 40 171, di_second = replicate 40 205\<rparr>"

definition dev_demo_app :: "uuid \<Rightarrow> uuid \<Rightarrow> app_row" where
  "dev_demo_app k u = (fresh_app (dev_demo_input\<lparr>di_new := k\<rparr>) u ''app'' [] (replicate (unat k) CHR ''c'') ''secret'' default_settings)"

definition dev_demo_db :: dev_db where
  "dev_demo_db = \<lparr>dev_users = [1, 3], dev_apps = [dev_demo_app 2 1, dev_demo_app 4 3], dev_keys = [], dev_hooks = [], dev_deliveries = [],
     dev_bots = [], dev_requests = []\<rparr>"

definition dev_demo :: "dev_db session" where
  "dev_demo = \<lparr>durable = dev_demo_db, view = dev_demo_db, aborted = False, outcomes = []\<rparr>"

lemma trim_as: "trim_space (replicate n CHR ''a'') = replicate n CHR ''a''"
  by (cases n) (auto simp: plain_byte_def intro!: trim_space_plain)

lemma dev_demo_ids: "dev_ids_ok dev_demo_env"
  by (simp add: dev_ids_ok_def dev_demo_env_def trim_as)

lemma dev_demo_ok: "dev_ok (durable dev_demo)"
  by (simp add: dev_ok_def dev_keys_ok_def dev_refs_ok_def dev_demo_def dev_demo_db_def dev_demo_app_def fresh_app_def)

lemma trim_a: "trim_space ''a'' = ''a''" "trim_space ''aa'' = ''aa''"
  using trim_as [of 1] trim_as [of 2] by (simp_all add: numeral_2_eq_2)

lemma dev_demo_key: "\<exists>k s'. handle_dev dev_demo_env dev_demo_input ''a'' (CreateKeyReq ''aa'' (Some (''k'', [], None, 7))) dev_demo =
    (Inr (201, DevKey k), s')"
  by (simp add: handle_create_key_def or_err_def dreply_def dattempt_def dbind_def dreturn_def requireAppOwner_def GetApp_def dev_uuid_def
      parsed_def CreateAPIKey_def insert_api_key_def GetAPIKeyByHash_def new_key_def Let_def autocommit_def next_outcome_def app_stmt_def
      one_row_def create_key_stmt_def fresh_key_def key_by_hash_stmt_def app_known_def fits32_def max_int32_def min_int32_def dev_demo_env_def dev_demo_def
      dev_demo_db_def dev_demo_app_def fresh_app_def dev_demo_input_def scanApp_def trim_a)

theorem developer_changes_authorised_witness:
  "dev_within (Some 1) dev_demo_db (durable (snd (handle_dev dev_demo_env dev_demo_input ''a'' (DeleteAppReq ''aa'') dev_demo)))"
proof -
  have "dev_actor dev_demo_env ''a'' = Some 1" "durable dev_demo = dev_demo_db"
    by (simp_all add: dev_actor_def dev_demo_env_def trim_a dev_demo_def)
  with developer_changes_authorised [OF dev_demo_ids dev_demo_ok, of "''a''"] show ?thesis by metis
qed

theorem developer_answers_own_witness:
  "on_own dev_demo_env ''a'' dev_demo_db (CreateKeyReq ''aa'' (Some (''k'', [], None, 7)))"
proof -
  obtain k s' where "handle_dev dev_demo_env dev_demo_input ''a'' (CreateKeyReq ''aa'' (Some (''k'', [], None, 7))) dev_demo =
      (Inr (201, DevKey k), s')" using dev_demo_key by blast
  from developer_answers_own [OF this _ dev_demo_ids] show ?thesis by (simp add: dev_demo_def)
qed

section \<open>What does not work\<close>

text \<open>
  The driver sends a nil slice as \<open>NULL\<close>, and neither a new key has a list of addresses nor a new bot permissions: with it no key
  and no bot is ever created.
\<close>

lemma no_key_is_issued:
  assumes "de_array env None = None"
  shows "handle_dev env i u (CreateKeyReq x b) s \<noteq> (Inr (201, DevKey k), s')"
proof -
  have "insert_api_key env i (new_key env i x n t sc l) s1 \<noteq> (Inr v, s2)" for n t sc l s1 v s2
    using assms by (auto simp: insert_api_key_def uuid_ok new_key_def Let_def create_key_stmt_def dest!: autocommit_cases(2) [OF _ refl]
        split: if_splits option.splits)
  then show ?thesis by (auto simp: handle_create_key_def or_err_ok parsed_ok CreateAPIKey_def Let_def dbm_ok split: prod.splits)
qed

lemma no_bot_is_created:
  assumes "de_array env None = None"
  shows "handle_dev env i u (CreateBotReq x b) s \<noteq> (Inr (201, DevBot v), s')"
  using assms
  by (auto simp: handle_create_bot_def or_err_ok parsed_ok CreateBot_def insert_bot_def uuid_ok dbm_ok create_bot_stmt_def
      dest!: autocommit_cases(2) [OF _ refl] split: if_splits prod.splits)

text \<open>The owner alone makes an application a verified one.\<close>

lemma owner_verifies:
  "list_ex (\<lambda>a. da_id a = 2 \<and> da_owner a = 1 \<and> da_verified a)
     (dev_apps (durable (snd (handle_dev dev_demo_env dev_demo_input ''a'' (VerifyAppReq ''aa'') dev_demo))))"
  by (simp add: handle_verify_app_def or_err_def no_content_def dreply_def dattempt_def dbind_def dreturn_def requireAppOwner_def GetApp_def
      VerifyApp_def dev_uuid_def autocommit_def next_outcome_def app_stmt_def one_row_def verify_app_stmt_def sql_update_def dev_demo_env_def
      dev_demo_def dev_demo_db_def dev_demo_app_def fresh_app_def dev_demo_input_def scanApp_def trim_a)

end
