(* ===== verification/Notifications.thy ===== *)
theory Notifications
  imports Complex_Main Database Encoding "HOL-Library.Word" "HOL-Library.Multiset"
begin

text \<open>
  Notifications: \<open>modules/notifications\<close> over PostgreSQL. Fresh identifiers and the database's clock are in the input; how
  identifiers are read and printed, and JSON of the payload, are parameters. The fields of a notification that no statement
  reads or writes are left out; methods of the service that only pass on are not repeated.
\<close>

section \<open>Data\<close>

type_synonym uuid = "128 word"
type_synonym payload = "(string \<times> string) list"

record notification =
  nf_id :: string
  nf_receiver :: string
  nf_sender :: "string option"
  nf_username :: string
  nf_avatar :: string
  nf_type :: string
  nf_kind :: string
  nf_entity :: string
  nf_data :: "payload option"
  nf_read :: bool
  nf_created :: int
  nf_category :: string
  nf_source :: string

record note_user =
  nu_id :: uuid
  nu_username :: string
  nu_avatar :: "string option"

record note_row =
  nt_id :: uuid
  nt_user :: uuid
  nt_actor :: "uuid option"
  nt_type :: string
  nt_kind :: "string option"
  nt_entity :: "uuid option"
  nt_payload :: string
  nt_read :: bool
  nt_created :: int

record note_db =
  note_users :: "note_user list"
  note_rows :: "note_row list"

record note_env =
  ne_scan :: "string \<Rightarrow> uuid res"
  ne_show :: "uuid \<Rightarrow> string"
  ne_marshal :: "payload \<Rightarrow> string res"
  ne_unmarshal :: "string \<Rightarrow> payload res"

record note_input =
  ni_now :: int
  ni_new :: uuid

section \<open>Statements\<close>

definition insert_note_stmt :: "note_row \<Rightarrow> (note_db, int) sql" where
  "insert_note_stmt r d =
     (if nt_id r \<in> nt_id ` set (note_rows d) then Inl (violates ''unique'')
      else if nt_user r \<notin> nu_id ` set (note_users d) \<or>
        (case nt_actor r of None \<Rightarrow> False | Some a \<Rightarrow> a \<notin> nu_id ` set (note_users d)) then Inl (violates ''foreign_key'')
      else Inr (nt_created r, d\<lparr>note_rows := note_rows d @ [r]\<rparr>))"

text \<open>The notifications of a user, the newest first and the greater identifier first among those of an instant.\<close>

definition inbox :: "uuid \<Rightarrow> note_db \<Rightarrow> note_row list" where
  "inbox u d = sort_key (\<lambda>r. - nt_created r) (sort_key (\<lambda>r. - uint (nt_id r)) (filter (\<lambda>r. nt_user r = u) (note_rows d)))"

text \<open>The actor, when there is one; the key of the users leaves no second.\<close>

definition with_actor :: "note_db \<Rightarrow> note_row \<Rightarrow> note_row \<times> note_user option" where
  "with_actor d r = (r, case nt_actor r of None \<Rightarrow> None | Some a \<Rightarrow> find (\<lambda>u. nu_id u = a) (note_users d))"

definition inbox_stmt :: "uuid \<Rightarrow> int \<Rightarrow> int \<Rightarrow> (note_db, (note_row \<times> note_user option) list) sql" where
  "inbox_stmt u limit offset d =
     (case page_of limit offset (map (with_actor d) (inbox u d)) of Inl e \<Rightarrow> Inl e | Inr rs \<Rightarrow> Inr (rs, d))"

definition clear_notes_stmt :: "uuid \<Rightarrow> (note_db, unit) sql" where
  "clear_notes_stmt u d = Inr ((), d\<lparr>note_rows := sql_delete (\<lambda>r. nt_user r = u) (note_rows d)\<rparr>)"

definition read_note_stmt :: "uuid \<Rightarrow> uuid \<Rightarrow> (note_db, unit) sql" where
  "read_note_stmt k u d =
     Inr ((), d\<lparr>note_rows := sql_update (\<lambda>r. nt_id r = k \<and> nt_user r = u) (\<lambda>r. r\<lparr>nt_read := True\<rparr>) (note_rows d)\<rparr>)"

definition read_all_stmt :: "uuid \<Rightarrow> (note_db, unit) sql" where
  "read_all_stmt u d =
     Inr ((), d\<lparr>note_rows := sql_update (\<lambda>r. nt_user r = u \<and> \<not> nt_read r) (\<lambda>r. r\<lparr>nt_read := True\<rparr>) (note_rows d)\<rparr>)"

text \<open>The count is scanned into 32 bits.\<close>

definition unread_count_stmt :: "uuid \<Rightarrow> (note_db, int) sql" where
  "unread_count_stmt u d =
     (let n = int (length (filter (\<lambda>r. nt_user r = u \<and> \<not> nt_read r) (note_rows d)))
      in if fits32 n then Inr (n, d) else Inl (Errorf ''cannot scan into int32''))"

section \<open>Repository and service\<close>

definition note_uuid :: "note_env \<Rightarrow> string \<Rightarrow> (uuid \<Rightarrow> (note_db, 'a) dbm) \<Rightarrow> (note_db, 'a) dbm" where
  "note_uuid env x k = (case ne_scan env (trim_space x) of Inl e \<Rightarrow> dfail (Wrapf ''invalid uuid'' e) | Inr a \<Rightarrow> k a)"

definition optional_uuid :: "note_env \<Rightarrow> string option \<Rightarrow> (uuid option \<Rightarrow> (note_db, 'a) dbm) \<Rightarrow> (note_db, 'a) dbm" where
  "optional_uuid env x k = (case x of
       None \<Rightarrow> k None
     | Some s \<Rightarrow> if trim_space s = [] then k None else note_uuid env s (\<lambda>a. k (Some a)))"

definition Create :: "note_env \<Rightarrow> note_input \<Rightarrow> notification \<Rightarrow> (note_db, notification) dbm" where
  "Create env i n =
     note_uuid env (nf_receiver n) (\<lambda>u. optional_uuid env (nf_sender n) (\<lambda>a. optional_uuid env (Some (nf_entity n)) (\<lambda>e.
       case ne_marshal env (case nf_data n of None \<Rightarrow> [] | Some p \<Rightarrow> p) of
         Inl x \<Rightarrow> dfail x
       | Inr json \<Rightarrow> optional_uuid env (Some (nf_id n)) (\<lambda>k.
           let nid = (case k of None \<Rightarrow> ni_new i | Some k \<Rightarrow> k);
               n1 = (case k of None \<Rightarrow> n\<lparr>nf_id := ne_show env nid\<rparr> | Some _ \<Rightarrow> n)
           in dbind (autocommit (insert_note_stmt \<lparr>nt_id = nid, nt_user = u, nt_actor = a, nt_type = nf_type n,
                nt_kind = (if nf_kind n = [] then None else Some (nf_kind n)), nt_entity = e, nt_payload = json, nt_read = nf_read n,
                nt_created = ni_now i\<rparr>)) (\<lambda>t. dreturn (n1\<lparr>nf_created := t\<rparr>))))))"

definition notification_of :: "note_env \<Rightarrow> note_row \<times> note_user option \<Rightarrow> notification res" where
  "notification_of env = (\<lambda>(r, a).
     case (if nt_payload r = [] then Inr [] else ne_unmarshal env (nt_payload r)) of
       Inl e \<Rightarrow> Inl (Wrapf ''invalid notification payload'' e)
     | Inr data \<Rightarrow> Inr \<lparr>nf_id = ne_show env (nt_id r), nf_receiver = ne_show env (nt_user r), nf_sender = map_option (ne_show env) (nt_actor r),
         nf_username = (case a of None \<Rightarrow> [] | Some u \<Rightarrow> nu_username u),
         nf_avatar = (case a of None \<Rightarrow> [] | Some u \<Rightarrow> (case nu_avatar u of None \<Rightarrow> [] | Some x \<Rightarrow> x)), nf_type = nt_type r,
         nf_kind = (case nt_kind r of None \<Rightarrow> [] | Some x \<Rightarrow> x),
         nf_entity = (case nt_entity r of None \<Rightarrow> [] | Some e \<Rightarrow> ne_show env e), nf_data = Some data, nf_read = nt_read r,
         nf_created = nt_created r, nf_category = ''social'', nf_source = ''server''\<rparr>)"

fun scan_notes :: "note_env \<Rightarrow> (note_row \<times> note_user option) list \<Rightarrow> (note_db, notification list) dbm" where
  "scan_notes env [] = dreturn []"
| "scan_notes env (r # rs) = (case notification_of env r of
     Inl e \<Rightarrow> dfail e | Inr n \<Rightarrow> dbind (scan_notes env rs) (\<lambda>ns. dreturn (n # ns)))"

definition GetForUser :: "note_env \<Rightarrow> string \<Rightarrow> int \<Rightarrow> int \<Rightarrow> (note_db, notification list) dbm" where
  "GetForUser env u limit offset =
     note_uuid env u (\<lambda>u.
       let limit = (if limit \<le> 0 then 20 else limit); limit = (if 100 < limit then 100 else limit); offset = (if offset < 0 then 0 else offset)
       in dbind (autocommit (inbox_stmt u limit offset)) (scan_notes env))"

definition ClearForUser :: "note_env \<Rightarrow> string \<Rightarrow> (note_db, unit) dbm" where
  "ClearForUser env u = note_uuid env u (\<lambda>u. autocommit (clear_notes_stmt u))"

definition MarkAsRead :: "note_env \<Rightarrow> string \<Rightarrow> string \<Rightarrow> (note_db, unit) dbm" where
  "MarkAsRead env k u = note_uuid env k (\<lambda>k. note_uuid env u (\<lambda>u. autocommit (read_note_stmt k u)))"

definition MarkAllAsRead :: "note_env \<Rightarrow> string \<Rightarrow> (note_db, unit) dbm" where
  "MarkAllAsRead env u = note_uuid env u (\<lambda>u. autocommit (read_all_stmt u))"

definition GetUnreadCount :: "note_env \<Rightarrow> string \<Rightarrow> (note_db, int) dbm" where
  "GetUnreadCount env u = note_uuid env u (\<lambda>u. autocommit (unread_count_stmt u))"

text \<open>The answer is what is published, when there is a bus; an error of the bus is dropped.\<close>

definition Notify :: "note_env \<Rightarrow> note_input \<Rightarrow> bool \<Rightarrow> string \<Rightarrow> string \<Rightarrow> string \<Rightarrow> string \<Rightarrow> string \<Rightarrow> (note_db, notification option) dbm" where
  "Notify env i bus receiver sender type kind entity =
     dbind (Create env i \<lparr>nf_id = [], nf_receiver = receiver, nf_sender = Some sender, nf_username = [], nf_avatar = [], nf_type = type,
       nf_kind = kind, nf_entity = entity, nf_data = None, nf_read = False, nf_created = 0, nf_category = [], nf_source = []\<rparr>)
     (\<lambda>n. dreturn (if bus then Some n else None))"

definition GetActivity :: "note_env \<Rightarrow> string \<Rightarrow> int \<Rightarrow> (note_db, notification list) dbm" where
  "GetActivity env u page = (let page = (if page < 0 then 0 else page) in GetForUser env u 20 (wrap32 (page * 20)))"

section \<open>Handlers\<close>

datatype note_body =
    NtError string
  | NtPage "notification list" int
  | NtCount int
  | NtNothing

type_synonym note_op = "(note_db, int \<times> note_body) dbm"

definition note_answer :: "(note_db, 'a) dbm \<Rightarrow> string \<Rightarrow> ('a \<Rightarrow> int \<times> note_body) \<Rightarrow> note_op" where
  "note_answer m problem k = dreply m (\<lambda>_. (500, NtError problem)) (\<lambda>a. dreturn (k a))"

definition note_login :: "string \<Rightarrow> note_op \<Rightarrow> note_op" where
  "note_login u k = (if u = [] then dreturn (401, NtError ''authentication required'') else k)"

definition handle_activity :: "note_env \<Rightarrow> string \<Rightarrow> string \<Rightarrow> note_op" where
  "handle_activity env u q =
     note_login u (case parse_int 64 (if q = [] then ''0'' else q) of
         None \<Rightarrow> dreturn (400, NtError ''invalid page'')
       | Some page \<Rightarrow>
           if page < 0 \<or> 100000 < page then dreturn (400, NtError ''invalid page'')
           else note_answer (GetActivity env u (wrap32 page)) ''failed to load notifications'' (\<lambda>ns. (200, NtPage ns page)))"

definition handle_clear_notes :: "note_env \<Rightarrow> string \<Rightarrow> note_op" where
  "handle_clear_notes env u = note_login u (note_answer (ClearForUser env u) ''failed to clear notifications'' (\<lambda>_. (204, NtNothing)))"

definition handle_unread_count :: "note_env \<Rightarrow> string \<Rightarrow> note_op" where
  "handle_unread_count env u = note_login u (note_answer (GetUnreadCount env u) ''failed to load unread count'' (\<lambda>n. (200, NtCount n)))"

definition handle_read_note :: "note_env \<Rightarrow> string \<Rightarrow> string \<Rightarrow> note_op" where
  "handle_read_note env u k = note_login u (note_answer (MarkAsRead env k u) ''failed to mark notification'' (\<lambda>_. (204, NtNothing)))"

definition handle_read_all :: "note_env \<Rightarrow> string \<Rightarrow> note_op" where
  "handle_read_all env u = note_login u (note_answer (MarkAllAsRead env u) ''failed to mark notifications'' (\<lambda>_. (204, NtNothing)))"

datatype note_call =
    ActivityReq string
  | ClearNotesReq
  | UnreadCountReq
  | ReadNoteReq string
  | ReadAllReq

text \<open>The routes under \<open>/notifications\<close>.\<close>

fun handle_note :: "note_env \<Rightarrow> string \<Rightarrow> note_call \<Rightarrow> note_op" where
  "handle_note env u (ActivityReq q) = handle_activity env u q"
| "handle_note env u ClearNotesReq = handle_clear_notes env u"
| "handle_note env u UnreadCountReq = handle_unread_count env u"
| "handle_note env u (ReadNoteReq k) = handle_read_note env u k"
| "handle_note env u ReadAllReq = handle_read_all env u"
section \<open>Who may change what\<close>

text \<open>
  The specification of a request of the user \<open>u\<close>: the users stay and so do the notifications of others; those of the user are
  the old ones, some of them marked as read.
\<close>

definition marked_read :: "note_row \<Rightarrow> note_row" where "marked_read r = r\<lparr>nt_read := True\<rparr>"

definition notes_within :: "uuid option \<Rightarrow> note_db \<Rightarrow> note_db \<Rightarrow> bool" where
  "notes_within u d d' \<longleftrightarrow>
     note_users d' = note_users d \<and>
     rest_of u nt_user (note_rows d') = rest_of u nt_user (note_rows d) \<and>
     set (note_rows d') \<subseteq> set (note_rows d) \<union> marked_read ` set (note_rows d) \<and>
     length (note_rows d') \<le> length (note_rows d)"

lemma notes_within_refl: "notes_within u d d"
  by (auto simp: notes_within_def)

lemma marked_twice [simp]: "marked_read (marked_read r) = marked_read r"
  by (simp add: marked_read_def)

lemma notes_within_trans: "notes_within u d d' \<Longrightarrow> notes_within u d' d'' \<Longrightarrow> notes_within u d d''"
  unfolding notes_within_def
proof (elim conjE, intro conjI)
  assume 1: "set (note_rows d') \<subseteq> set (note_rows d) \<union> marked_read ` set (note_rows d)"
    and 2: "set (note_rows d'') \<subseteq> set (note_rows d') \<union> marked_read ` set (note_rows d')"
  have "marked_read ` set (note_rows d') \<subseteq> marked_read ` set (note_rows d)"
    using image_mono [OF 1, of marked_read] by (simp add: image_Un image_image)
  with 1 2 show "set (note_rows d'') \<subseteq> set (note_rows d) \<union> marked_read ` set (note_rows d)" by blast
qed simp_all

interpretation inboxes: evolution "notes_within u" for u
  by unfold_locales (auto intro: notes_within_refl notes_within_trans)

lemma marking_within:
  assumes "\<And>r. P r \<Longrightarrow> Some (nt_user r) = u"
  shows "notes_within u d (d\<lparr>note_rows := sql_update P (\<lambda>r. r\<lparr>nt_read := True\<rparr>) (note_rows d)\<rparr>)"
proof -
  have "rest_of u nt_user (sql_update P (\<lambda>r. r\<lparr>nt_read := True\<rparr>) (note_rows d)) = rest_of u nt_user (note_rows d)"
    using assms by (intro rest_of_update) simp_all
  then show ?thesis by (auto simp: notes_within_def set_sql_update marked_read_def)
qed

lemma note_stmts_within:
  "clear_notes_stmt v d1 = Inr (x1, d1') \<Longrightarrow> u = Some v \<Longrightarrow> notes_within u d1 d1'"
  "read_note_stmt k v d2 = Inr (x2, d2') \<Longrightarrow> u = Some v \<Longrightarrow> notes_within u d2 d2'"
  "read_all_stmt v d3 = Inr (x3, d3') \<Longrightarrow> u = Some v \<Longrightarrow> notes_within u d3 d3'"
  subgoal by (auto simp: clear_notes_stmt_def notes_within_def sql_delete_def intro!: rest_of_delete [unfolded sql_delete_def])
  subgoal by (auto simp: read_note_stmt_def intro!: marking_within)
  subgoal by (auto simp: read_all_stmt_def intro!: marking_within)
  done

definition note_actor :: "note_env \<Rightarrow> string \<Rightarrow> uuid option" where
  "note_actor env u = (case ne_scan env (trim_space u) of Inl _ \<Rightarrow> None | Inr v \<Rightarrow> Some v)"

abbreviation nt_moves :: "uuid option \<Rightarrow> (note_db, 'a) dbm \<Rightarrow> bool" where
  "nt_moves u m \<equiv> moves (notes_within u) (\<lambda>_. True) m (\<lambda>_ _. True)"

lemma scan_notes_move: "nt_moves u (scan_notes env rs)"
  by (induction rs) (auto intro!: inboxes.moves_return inboxes.moves_fail inboxes.moves_bind [where M = "\<lambda>_ _. True"] split: sum.split)

lemma note_uuid_moves: "(\<And>v. ne_scan env (trim_space x) = Inr v \<Longrightarrow> nt_moves u (k v)) \<Longrightarrow> nt_moves u (note_uuid env x k)"
  by (auto simp: note_uuid_def inboxes.moves_fail split: sum.split)

lemma note_answer_moves: "nt_moves u m \<Longrightarrow> nt_moves u (note_login x (note_answer m t k))"
  unfolding note_login_def note_answer_def
  by (intro inboxes.moves_if inboxes.moves_return) (auto intro: inboxes.moves_reply inboxes.moves_return)

lemma note_step_moves: "(\<And>d a d'. f d = Inr (a, d') \<Longrightarrow> notes_within u d d') \<Longrightarrow> nt_moves u (autocommit f)"
  by (rule inboxes.moves_autocommit) simp

lemma note_reads: "inbox_stmt v l o1 d1 = Inr (x1, d1') \<Longrightarrow> notes_within u d1 d1'"
  "unread_count_stmt v2 d2 = Inr (x2, d2') \<Longrightarrow> notes_within u d2 d2'"
  by (auto simp: inbox_stmt_def unread_count_stmt_def Let_def notes_within_refl split: sum.splits if_splits)

lemma note_requests_move: "nt_moves (note_actor env u) (handle_note env u c)"
proof -
  have actor: "note_actor env u = Some v" if "ne_scan env (trim_space u) = Inr v" for v using that by (simp add: note_actor_def)
  have page: "nt_moves (note_actor env u) (GetActivity env u p)" for p
    unfolding GetActivity_def GetForUser_def Let_def
    by (intro note_uuid_moves inboxes.moves_bind [where M = "\<lambda>_ _. True"] note_step_moves scan_notes_move) (rule note_reads)
  have listed: "nt_moves (note_actor env u) (handle_activity env u q)" for q
    unfolding handle_activity_def note_login_def note_answer_def
    by (auto intro!: inboxes.moves_if inboxes.moves_return inboxes.moves_reply [OF page] split: option.split)
  show ?thesis
    by (cases c) (auto simp: listed handle_clear_notes_def handle_unread_count_def handle_read_note_def handle_read_all_def ClearForUser_def
        GetUnreadCount_def MarkAsRead_def MarkAllAsRead_def actor intro!: note_answer_moves note_uuid_moves note_step_moves
        dest: note_stmts_within note_reads)
qed

theorem notes_changes_authorised:
  "notes_within (note_actor env u) (durable s) (durable (snd (handle_note env u c s)))"
  by (rule movesD [OF note_requests_move TrueI])

section \<open>The inbox\<close>

lemma scanned_notes: "scan_notes env rs s = (Inr ns, s') \<Longrightarrow> map Inr ns = map (notification_of env) rs \<and> s' = s"
proof (induction rs arbitrary: ns)
  case (Cons r rs)
  then obtain n ms s1 where n: "notification_of env r = Inr n" and rest: "scan_notes env rs s = (Inr ms, s1)" and eq: "ns = n # ms" "s' = s1"
    by (auto simp: dbm_ok split: sum.splits)
  from Cons.IH [of ms] rest eq n show ?case by auto
qed (simp add: dbm_ok)

lemma shown_page:
  assumes "handle_activity env u (show_nat q) s = (Inr (200, NtPage ns (int q)), s')" and v: "ne_scan env (trim_space u) = Inr v"
  shows "map Inr ns = map (notification_of env) (take 20 (drop (20 * q) (map (with_actor (durable s)) (inbox v (durable s)))))"
proof -
  let ?rows = "map (with_actor (durable s)) (inbox v (durable s))"
  from assms(1) obtain page where page: "int q = page" "0 \<le> page" "page \<le> 100000" and run: "GetActivity env u (wrap32 page) s = (Inr ns, s')"
    by (auto simp: handle_activity_def note_login_def note_answer_def dreply_ok dbm_ok split: if_splits option.splits)
  have fits: "fits32 page" "fits32 (page * 20)" using page by (simp_all add: fits32_def int_bounds)
  from run v obtain rs s1 where read: "autocommit (inbox_stmt v 20 (page * 20)) s = (Inr rs, s1)" and scan: "scan_notes env rs s1 = (Inr ns, s')"
    using page by (auto simp: GetActivity_def GetForUser_def note_uuid_def Let_def dbm_ok fits)
  from autocommit_cases(2) [OF read refl] page have "rs = take 20 (drop (20 * q) ?rows)"
    by (auto simp: inbox_stmt_def page_of_def nat_mult_distrib mult.commute split: if_splits)
  with scanned_notes [OF scan] show ?thesis by simp
qed

lemma taken_pages: "concat (map (\<lambda>q. take n (drop (n * q) xs)) [0..<k]) = take (n * k) xs"
  by (induction k) (simp_all add: take_add [symmetric] add.commute)

lemma sorted_inbox: "sorted_wrt (\<lambda>x y. nt_created y \<le> nt_created x) (inbox v d)"
proof -
  have "sorted (map (\<lambda>r. - nt_created r) (inbox v d))" by (simp add: inbox_def)
  then show ?thesis by (simp add: sorted_map)
qed

text \<open>
  C34. The pages of a user's activity, asked for one after the other while nothing changes, show every notification of the user
  exactly once and nothing else, the newest first: the first \<open>k\<close> pages are the first \<open>20 k\<close> of them.
\<close>

theorem activity_pages:
  assumes pages: "\<And>q. q < k \<Longrightarrow> handle_activity env u (show_nat q) (s q) = (Inr (200, NtPage (ns q) (int q)), s' q)"
    and same: "\<And>q. q < k \<Longrightarrow> durable (s q) = d" and v: "ne_scan env (trim_space u) = Inr v"
  shows "map Inr (concat (map ns [0..<k])) = take (20 * k) (map (\<lambda>r. notification_of env (with_actor d r)) (inbox v d)) \<and>
    mset (inbox v d) = mset (filter (\<lambda>r. nt_user r = v) (note_rows d)) \<and>
    sorted_wrt (\<lambda>x y. nt_created y \<le> nt_created x) (inbox v d)"
proof -
  let ?all = "map (\<lambda>r. notification_of env (with_actor d r)) (inbox v d)"
  have one: "map Inr (ns q) = take 20 (drop (20 * q) ?all)" if "q < k" for q
    using shown_page [OF pages [OF that] v] same [OF that] by (simp add: take_map drop_map comp_def)
  have "map Inr (concat (map ns [0..<k])) = concat (map (\<lambda>q. map Inr (ns q)) [0..<k])" by (simp add: map_concat comp_def)
  also have "\<dots> = concat (map (\<lambda>q. take 20 (drop (20 * q) ?all)) [0..<k])" using one by (intro arg_cong [where f = concat] map_cong) auto
  also have "\<dots> = take (20 * k) ?all" by (rule taken_pages)
  finally show ?thesis using sorted_inbox [of v d] by (simp add: inbox_def)
qed

lemma unread_counted:
  assumes "handle_unread_count env u s = (Inr (200, NtCount n), s')" and "ne_scan env (trim_space u) = Inr v"
  shows "n = int (length (filter (\<lambda>r. \<not> nt_read r) (inbox v (durable s))))"
proof -
  have "autocommit (unread_count_stmt v) s = (Inr n, s')"
    using assms by (auto simp: handle_unread_count_def note_login_def note_answer_def dreply_ok dbm_ok GetUnreadCount_def note_uuid_def split: if_splits)
  from autocommit_cases(2) [OF this refl] have n: "n = int (length (filter (\<lambda>r. nt_user r = v \<and> \<not> nt_read r) (note_rows (durable s))))"
    by (auto simp: unread_count_stmt_def Let_def split: if_splits)
  have "mset (filter (\<lambda>r. \<not> nt_read r) (inbox v (durable s))) = mset (filter (\<lambda>r. nt_user r = v \<and> \<not> nt_read r) (note_rows (durable s)))"
    by (simp add: inbox_def mset_filter [symmetric] del: mset_filter filter_filter) (simp add: filter_sort conj_commute)
  from mset_eq_length [OF this] n show ?thesis by simp
qed

section \<open>Concrete inputs\<close>

definition note_demo_env :: note_env where
  "note_demo_env = \<lparr>ne_scan = (\<lambda>x. Inr (of_nat (length x))), ne_show = (\<lambda>k. replicate (unat k) CHR ''a''),
     ne_marshal = (\<lambda>_. Inr ''{}''), ne_unmarshal = (\<lambda>_. Inr [])\<rparr>"

definition note_demo_row :: "uuid \<Rightarrow> int \<Rightarrow> note_row" where
  "note_demo_row k t = \<lparr>nt_id = k, nt_user = 1, nt_actor = None, nt_type = ''follow'', nt_kind = None, nt_entity = None, nt_payload = ''{}'',
     nt_read = False, nt_created = t\<rparr>"

definition note_demo_db :: note_db where
  "note_demo_db = \<lparr>note_users = [\<lparr>nu_id = 1, nu_username = ''u'', nu_avatar = None\<rparr>], note_rows = [note_demo_row 5 10, note_demo_row 6 20]\<rparr>"

definition note_demo :: "note_db session" where
  "note_demo = \<lparr>durable = note_demo_db, view = note_demo_db, aborted = False, outcomes = []\<rparr>"

lemma note_trim: "trim_space ''a'' = ''a''"
  by (simp add: trim_space_plain plain_byte_def)

lemma note_demo_page:
  "handle_activity note_demo_env ''a'' (show_nat q) note_demo =
     (Inr (200, NtPage (if q = 0 then map (\<lambda>r. projr (notification_of note_demo_env (with_actor note_demo_db r))) [note_demo_row 6 20, note_demo_row 5 10]
        else []) (int q)), note_demo)" if "q < 2" for q
proof -
  from that consider "q = 0" | "q = 1" by linarith
  then show ?thesis
    by cases (simp_all add: handle_activity_def note_login_def note_answer_def dreply_def dattempt_def dbind_def dreturn_def show_nat_nonempty parse_int_shown
        GetActivity_def GetForUser_def note_uuid_def Let_def autocommit_def next_outcome_def inbox_stmt_def inbox_def page_of_def
        note_demo_env_def note_demo_def note_demo_db_def note_demo_row_def with_actor_def notification_of_def note_trim fits32_def int_bounds)
qed

theorem activity_pages_witness:
  "length (inbox 1 note_demo_db) = 2 \<and>
   map Inr (map (\<lambda>r. projr (notification_of note_demo_env (with_actor note_demo_db r))) [note_demo_row 6 20, note_demo_row 5 10]) =
     map (\<lambda>r. notification_of note_demo_env (with_actor note_demo_db r)) (inbox 1 note_demo_db)"
proof -
  let ?ns = "\<lambda>q :: nat. if q = 0 then map (\<lambda>r. projr (notification_of note_demo_env (with_actor note_demo_db r)))
    [note_demo_row 6 20, note_demo_row 5 10] else []"
  have scan: "ne_scan note_demo_env (trim_space ''a'') = Inr 1" by (simp add: note_demo_env_def note_trim)
  have two: "length (inbox 1 note_demo_db) = 2" by (simp add: inbox_def note_demo_db_def note_demo_row_def)
  have "durable note_demo = note_demo_db" by (simp add: note_demo_def)
  with activity_pages [of 2 note_demo_env "''a''" "\<lambda>_. note_demo" ?ns "\<lambda>_. note_demo" note_demo_db 1] note_demo_page scan
  have "map Inr (concat (map ?ns [0..<2])) = take (20 * 2) (map (\<lambda>r. notification_of note_demo_env (with_actor note_demo_db r)) (inbox 1 note_demo_db))"
    by simp
  with two show ?thesis by (simp add: numeral_2_eq_2)
qed

end
