(* ===== verification/Password.thy ===== *)
theory Password
  imports Encoding
begin

text \<open>
  Password hashes: \<open>core/security/password.go\<close>. Argon2 itself is the parameter \<open>idkey\<close>, of which only the documented
  length of its result is assumed; a random salt, or the failure of the random source, is an argument.
\<close>

record argon2_params =
  Memory :: nat
  Iterations :: nat
  Parallelism :: nat
  SaltLength :: nat
  KeyLength :: nat

definition ErrInvalidHash :: goerr where
  "ErrInvalidHash = Errorf ''the encoded hash is not in the correct format''"
definition ErrIncompatibleVersion :: goerr where
  "ErrIncompatibleVersion = Errorf ''incompatible version of argon2''"

definition argon2_version :: nat where "argon2_version = 19"

definition DefaultArgon2Params :: argon2_params where
  "DefaultArgon2Params = \<lparr>Memory = 64 * 1024, Iterations = 3, Parallelism = 2, SaltLength = 16, KeyLength = 32\<rparr>"

text \<open>\<open>argon2.IDKey\<close>: password, salt, iterations, memory, parallelism, length of the key.\<close>

type_synonym idkey = "string \<Rightarrow> string \<Rightarrow> nat \<Rightarrow> nat \<Rightarrow> nat \<Rightarrow> nat \<Rightarrow> string"

definition encode_hash :: "argon2_params \<Rightarrow> string \<Rightarrow> string \<Rightarrow> string" where
  "encode_hash p salt hash =
     ''$argon2id$v='' @ show_nat argon2_version @ ''$m='' @ show_nat (Memory p) @ '',t='' @ show_nat (Iterations p) @
     '',p='' @ show_nat (Parallelism p) @ ''$'' @ EncodeToString salt @ ''$'' @ EncodeToString hash"

definition HashPassword :: "idkey \<Rightarrow> string res \<Rightarrow> string \<Rightarrow> string res" where
  "HashPassword idkey random password =
     (let p = DefaultArgon2Params
      in case random of
           Inl e \<Rightarrow> Inl e
         | Inr salt \<Rightarrow> Inr (encode_hash p salt (idkey password salt (Iterations p) (Memory p) (Parallelism p) (KeyLength p))))"

definition min_memory :: nat where "min_memory = 16 * 1024"
definition max_memory :: nat where "max_memory = 256 * 1024"

text \<open>\<open>fmt.Sscanf(s, "v=%d", &version)\<close> and \<open>fmt.Sscanf(s, "m=%d,t=%d,p=%d", ...)\<close>, the widths being those of the variables.\<close>

definition scan_version :: "string \<Rightarrow> int option" where
  "scan_version s = (case scan_lit ''v='' s of None \<Rightarrow> None | Some t \<Rightarrow> map_option fst (scan_int t))"

definition scan_costs :: "string \<Rightarrow> (nat \<times> nat \<times> nat) option" where
  "scan_costs s =
     (case scan_lit ''m='' s of None \<Rightarrow> None | Some s \<Rightarrow>
     (case scan_uint 32 s of None \<Rightarrow> None | Some (m, s) \<Rightarrow>
     (case scan_lit '',t='' s of None \<Rightarrow> None | Some s \<Rightarrow>
     (case scan_uint 32 s of None \<Rightarrow> None | Some (t, s) \<Rightarrow>
     (case scan_lit '',p='' s of None \<Rightarrow> None | Some s \<Rightarrow>
     (case scan_uint 8 s of None \<Rightarrow> None | Some (p, s) \<Rightarrow> Some (m, t, p)))))))"

definition decodeHash :: "string \<Rightarrow> (argon2_params \<times> string \<times> string) res" where
  "decodeHash encoded =
     (case split_on (CHR ''$'') encoded of
        [v0, v1, v2, v3, v4, v5] \<Rightarrow>
          if v0 \<noteq> [] \<or> v1 \<noteq> ''argon2id'' then Inl ErrInvalidHash
          else (case scan_version v2 of
             None \<Rightarrow> Inl ErrInvalidHash
           | Some version \<Rightarrow>
               if version \<noteq> int argon2_version then Inl ErrIncompatibleVersion
               else (case scan_costs v3 of
                  None \<Rightarrow> Inl ErrInvalidHash
                | Some (m, t, p) \<Rightarrow>
                    if m < min_memory \<or> max_memory < m \<or> t < 1 \<or> 10 < t \<or> p < 1 \<or> 16 < p then Inl ErrInvalidHash
                    else (case DecodeString v4 of
                       None \<Rightarrow> Inl ErrInvalidHash
                     | Some salt \<Rightarrow>
                         if length salt < 16 \<or> 64 < length salt then Inl ErrInvalidHash
                         else (case DecodeString v5 of
                            None \<Rightarrow> Inl ErrInvalidHash
                          | Some hash \<Rightarrow>
                              if length hash < 16 \<or> 64 < length hash then Inl ErrInvalidHash
                              else Inr (\<lparr>Memory = m, Iterations = t, Parallelism = p, SaltLength = length salt,
                                         KeyLength = length hash\<rparr>, salt, hash)))))
      | _ \<Rightarrow> Inl ErrInvalidHash)"

definition ComparePassword :: "idkey \<Rightarrow> string \<Rightarrow> string \<Rightarrow> bool res" where
  "ComparePassword idkey password encoded =
     (case decodeHash encoded of
        Inl e \<Rightarrow> Inl e
      | Inr (p, salt, hash) \<Rightarrow> Inr (hash = idkey password salt (Iterations p) (Memory p) (Parallelism p) (KeyLength p)))"

section \<open>Round trip\<close>

lemma show_no_dollar: "CHR ''$'' \<notin> set (show_nat n)"
  using show_nat_digits [of n] by (auto simp: list_all_iff is_digit_def)

lemma encoded_no_dollar: "CHR ''$'' \<notin> set (EncodeToString s)"
  using encoded_chars alphabet_plain by blast

lemma split_hash:
  "split_on (CHR ''$'') (encode_hash p salt hash) =
     [[], ''argon2id'', ''v='' @ show_nat argon2_version,
      ''m='' @ show_nat (Memory p) @ '',t='' @ show_nat (Iterations p) @ '',p='' @ show_nat (Parallelism p),
      EncodeToString salt, EncodeToString hash]"
proof -
  let ?D = "CHR ''$''" and ?v = "''v='' @ show_nat argon2_version"
  let ?c = "''m='' @ show_nat (Memory p) @ '',t='' @ show_nat (Iterations p) @ '',p='' @ show_nat (Parallelism p)"
  have e: "encode_hash p salt hash =
      [] @ ?D # (''argon2id'' @ ?D # (?v @ ?D # (?c @ ?D # (EncodeToString salt @ ?D # EncodeToString hash))))"
    by (simp add: encode_hash_def)
  have n: "?D \<notin> set []" "?D \<notin> set ''argon2id''" "?D \<notin> set ?v" "?D \<notin> set ?c" using show_no_dollar by simp_all
  show ?thesis
    unfolding e split_on_sep [OF n(1)] split_on_sep [OF n(2)] split_on_sep [OF n(3)] split_on_sep [OF n(4)]
      split_on_sep [OF encoded_no_dollar] split_on_last [OF encoded_no_dollar] by (rule refl)
qed

definition costs_ok :: "argon2_params \<Rightarrow> bool" where
  "costs_ok p \<longleftrightarrow>
     min_memory \<le> Memory p \<and> Memory p \<le> max_memory \<and> 1 \<le> Iterations p \<and> Iterations p \<le> 10 \<and>
     1 \<le> Parallelism p \<and> Parallelism p \<le> 16 \<and> 16 \<le> SaltLength p \<and> SaltLength p \<le> 64 \<and>
     16 \<le> KeyLength p \<and> KeyLength p \<le> 64"

lemma scan_version_shown: "scan_version (''v='' @ show_nat argon2_version) = Some (int argon2_version)"
  using scan_int_shown [of "[]" argon2_version]
  by (simp only: scan_version_def scan_lit_append) (simp add: argon2_version_def int_bounds)

lemma scan_costs_shown:
  assumes "m < 2 ^ 32" and "t < 2 ^ 32" and "p < 2 ^ 8"
  shows "scan_costs (''m='' @ show_nat m @ '',t='' @ show_nat t @ '',p='' @ show_nat p) = Some (m, t, p)"
proof -
  have 1: "scan_uint 32 (show_nat m @ '',t='' @ show_nat t @ '',p='' @ show_nat p) = Some (m, '',t='' @ show_nat t @ '',p='' @ show_nat p)"
    using assms by (intro scan_uint_shown) (simp_all add: is_digit_def)
  have 2: "scan_uint 32 (show_nat t @ '',p='' @ show_nat p) = Some (t, '',p='' @ show_nat p)"
    using assms by (intro scan_uint_shown) (simp_all add: is_digit_def)
  have 3: "scan_uint 8 (show_nat p) = Some (p, [])"
    using assms scan_uint_shown [of "[]" p 8] by simp
  show ?thesis by (simp only: scan_costs_def scan_lit_append 1 2 3 option.simps prod.simps)
qed

text \<open>Decoding gives back what was encoded, for every choice of costs and lengths that the decoder admits.\<close>

lemma decode_encode_hash:
  assumes "costs_ok p" and "length salt = SaltLength p" and "length hash = KeyLength p"
  shows "decodeHash (encode_hash p salt hash) = Inr (p, salt, hash)"
proof -
  have "Memory p < 2 ^ 32" "Iterations p < 2 ^ 32" "Parallelism p < 2 ^ 8"
    using assms(1) by (simp_all add: costs_ok_def max_memory_def)
  note costs = scan_costs_shown [OF this]
  show ?thesis
    using assms by (simp only: decodeHash_def split_hash list.simps scan_version_shown costs option.simps Decode_Encode)
      (simp add: costs_ok_def not_less)
qed

text \<open>
  C40. A password verifies against the hash made from it, whatever the salt, and another password verifies exactly if
  Argon2 gives the same key for both.
\<close>
theorem hashed_password_verifies:
  assumes "\<And>pw s t m par n. length (idkey pw s t m par n) = n" and "length salt = 16"
    and "HashPassword idkey (Inr salt) password = Inr encoded"
  shows "ComparePassword idkey password encoded = Inr True \<and>
    ComparePassword idkey other encoded = Inr (idkey password salt 3 65536 2 32 = idkey other salt 3 65536 2 32)"
proof -
  have e: "encoded = encode_hash DefaultArgon2Params salt (idkey password salt 3 65536 2 32)"
    using assms(3) by (simp add: HashPassword_def DefaultArgon2Params_def Let_def)
  have "costs_ok DefaultArgon2Params" by (simp add: costs_ok_def DefaultArgon2Params_def min_memory_def max_memory_def)
  then have "decodeHash encoded = Inr (DefaultArgon2Params, salt, idkey password salt 3 65536 2 32)"
    unfolding e using assms(1,2) by (intro decode_encode_hash) (simp_all add: DefaultArgon2Params_def)
  then show ?thesis by (simp add: ComparePassword_def DefaultArgon2Params_def)
qed

text \<open>
  Whatever string is stored as a hash, verification runs Argon2 only with costs inside the bounds: at most 256 MiB,
  10 iterations, 16 threads, and salts and keys of 16 to 64 bytes.
\<close>
theorem decoded_costs_bounded:
  assumes "decodeHash encoded = Inr (p, salt, hash)"
  shows "costs_ok p \<and> length salt = SaltLength p \<and> length hash = KeyLength p"
  using assms
  by (auto simp: decodeHash_def costs_ok_def not_less split: list.splits if_splits option.splits prod.splits)

definition flat_key :: idkey where "flat_key pw s t m par n = replicate n (CHR ''k'')"

lemma hashed_password_verifies_witness:
  "ComparePassword flat_key ''pw'' (encode_hash DefaultArgon2Params (replicate 16 CHR ''s'') (replicate 32 CHR ''k'')) = Inr True"
proof -
  have "HashPassword flat_key (Inr (replicate 16 CHR ''s'')) ''pw'' =
      Inr (encode_hash DefaultArgon2Params (replicate 16 CHR ''s'') (replicate 32 CHR ''k''))"
    by (simp add: HashPassword_def DefaultArgon2Params_def flat_key_def Let_def)
  from hashed_password_verifies [OF _ _ this] show ?thesis by (simp add: flat_key_def)
qed

lemma small_hash_decoded:
  "decodeHash (encode_hash DefaultArgon2Params (replicate 16 CHR ''s'') (replicate 32 CHR ''k'')) =
     Inr (DefaultArgon2Params, replicate 16 CHR ''s'', replicate 32 CHR ''k'')"
  using decode_encode_hash by (simp add: costs_ok_def DefaultArgon2Params_def min_memory_def max_memory_def)

lemma decoded_costs_bounded_witness: "costs_ok DefaultArgon2Params"
  using decoded_costs_bounded [OF small_hash_decoded] by simp

end
