(* ===== verification/Identity.thy ===== *)
theory Identity
  imports Complex_Main Auth Password RateLimit
begin

text \<open>
  Accounts and sign-in: \<open>modules/identity\<close> with its PostgreSQL repository, its Redis copy of the user rows, the
  sentinel, the service and the handlers that \<open>wiring.go\<close> routes: registration, login with a second factor before the
  session, refresh and logout. Tokens are those of \<open>Auth\<close>, passwords those of \<open>Password\<close>, limits those of \<open>RateLimit\<close>.

  Parameters: the parsing and printing of identifiers and of e-mail addresses, JSON, zxcvbn, bcrypt, TOTP, the HTML
  sanitiser and the digests. The audit events that the sentinel writes to Redis keys of their own are left out: no
  modelled code reads them.
\<close>

type_synonym uuid = "128 word"

section \<open>Tables and users\<close>

record account =
  ac_id :: uuid
  ac_username :: string
  ac_email :: string
  ac_hash :: string
  ac_avatar :: "string option"
  ac_mfa :: bool
  ac_secret :: "string option"
  ac_failed :: int
  ac_locked :: "int option"
  ac_created :: int
  ac_updated :: int

record session_row =
  sn_id :: uuid
  sn_user :: uuid
  sn_device :: string
  sn_ip :: string
  sn_agent :: string
  sn_active :: bool
  sn_last :: int
  sn_created :: int

record presence_row =
  pr_user :: uuid
  pr_online :: bool
  pr_seen :: int

record identity_db =
  accounts :: "account list"
  sessions :: "session_row list"
  presences :: "presence_row list"
  plocks :: "(uuid \<times> bool) list"

text \<open>\<open>domain.User\<close>, \<open>domain.Session\<close>, without the fields that nothing in \<open>identity\<close> sets or reads.\<close>

record user =
  u_id :: string
  u_system :: string
  u_username :: string
  u_display :: string
  u_email :: string
  u_hash :: string
  u_avatar :: string
  u_mfa :: bool
  u_secret :: string
  u_seen :: int
  u_online :: bool
  u_plock :: bool
  u_failed :: int
  u_locked :: "int option"
  u_created :: int
  u_updated :: int

record user_session =
  s_id :: string
  s_user :: string
  s_device :: string
  s_ip :: string
  s_agent :: string
  s_active :: bool
  s_last :: int
  s_created :: int

record identity_env =
  id_scan :: "string \<Rightarrow> uuid res"
  id_show :: "uuid \<Rightarrow> string"
  id_json :: "user \<Rightarrow> string"
  id_unjson :: "string \<Rightarrow> user option"
  id_challenge_json :: "string \<times> string \<Rightarrow> string"
  id_challenge_unjson :: "string \<Rightarrow> (string \<times> string) option"
  id_strength :: "string \<Rightarrow> string list \<Rightarrow> int"
  id_key :: idkey
  id_bcrypt :: "string \<Rightarrow> string \<Rightarrow> bool"
  id_totp :: "string \<Rightarrow> string \<Rightarrow> int \<Rightarrow> bool"
  id_jwt :: jwt_lib
  id_digest :: "string \<Rightarrow> string"
  id_url_digest :: "string \<Rightarrow> string"
  id_jwt_secret :: string
  id_sanitize :: "string \<Rightarrow> string"
  id_mail :: "string \<Rightarrow> string option"
  id_auditor :: bool             \<comment> \<open>an auditor is configured\<close>

text \<open>What the clock, the database and the random source give to one request, and where it comes from.\<close>

record identity_input =
  in_now :: int
  in_user_id :: uuid
  in_session_id :: uuid
  in_salt :: "string res"
  in_token_id :: "string res"
  in_refresh :: "string res"
  in_totp :: "string \<Rightarrow> (string \<times> string) res"
  in_ip :: string
  in_agent :: string

section \<open>Statements\<close>

text \<open>
  \<open>CreateUser\<close> gives no tenant, and the unique constraints on user names and e-mail addresses are per tenant, where a
  missing tenant equals no other: only the primary key can clash.
\<close>

definition create_user_stmt :: "identity_input \<Rightarrow> user \<Rightarrow> (identity_db, account) sql" where
  "create_user_stmt i u d =
     (let r = \<lparr>ac_id = in_user_id i, ac_username = u_username u, ac_email = u_email u, ac_hash = u_hash u,
               ac_avatar = (if u_avatar u = [] then None else Some (u_avatar u)), ac_mfa = False, ac_secret = None,
               ac_failed = 0, ac_locked = None, ac_created = in_now i, ac_updated = in_now i\<rparr>
      in case sql_insert ac_id r (accounts d) of Inl e \<Rightarrow> Inl e | Inr rs \<Rightarrow> Inr (r, d\<lparr>accounts := rs\<rparr>))"

definition get_user_stmt :: "uuid \<Rightarrow> (identity_db, account) sql" where
  "get_user_stmt i d = (case filter (\<lambda>r. ac_id r = i) (accounts d) of [] \<Rightarrow> Inl NoRows | r # _ \<Rightarrow> Inr (r, d))"

definition by_identifier_stmt :: "string \<Rightarrow> (identity_db, account) sql" where
  "by_identifier_stmt x d =
     (case filter (\<lambda>r. ac_username r = x \<or> ac_email r = x) (accounts d) of [] \<Rightarrow> Inl NoRows | r # _ \<Rightarrow> Inr (r, d))"

definition update_user_stmt :: "identity_input \<Rightarrow> uuid \<Rightarrow> user \<Rightarrow> (identity_db, unit) sql" where
  "update_user_stmt i k u d =
     (if k \<notin> ac_id ` set (accounts d) then Inl NoRows
      else Inr ((), d\<lparr>accounts := sql_update (\<lambda>r. ac_id r = k)
             (\<lambda>r. r\<lparr>ac_username := u_username u, ac_email := u_email u,
                    ac_avatar := (if u_avatar u = [] then None else Some (u_avatar u)), ac_updated := in_now i\<rparr>) (accounts d)\<rparr>))"

definition update_mfa_stmt :: "uuid \<Rightarrow> bool \<Rightarrow> string \<Rightarrow> (identity_db, unit) sql" where
  "update_mfa_stmt k on secret d =
     Inr ((), d\<lparr>accounts := sql_update (\<lambda>r. ac_id r = k)
            (\<lambda>r. r\<lparr>ac_mfa := on, ac_secret := (if secret = [] then None else Some secret)\<rparr>) (accounts d)\<rparr>)"

definition increment_failed_stmt :: "identity_input \<Rightarrow> uuid \<Rightarrow> (identity_db, unit) sql" where
  "increment_failed_stmt i k d =
     Inr ((), d\<lparr>accounts := sql_update (\<lambda>r. ac_id r = k) (\<lambda>r. r\<lparr>ac_failed := ac_failed r + 1, ac_updated := in_now i\<rparr>) (accounts d)\<rparr>)"

definition reset_failed_stmt :: "identity_input \<Rightarrow> uuid \<Rightarrow> (identity_db, unit) sql" where
  "reset_failed_stmt i k d =
     Inr ((), d\<lparr>accounts := sql_update (\<lambda>r. ac_id r = k)
            (\<lambda>r. r\<lparr>ac_failed := 0, ac_locked := None, ac_updated := in_now i\<rparr>) (accounts d)\<rparr>)"

definition lock_stmt :: "identity_input \<Rightarrow> uuid \<Rightarrow> int \<Rightarrow> (identity_db, unit) sql" where
  "lock_stmt i k until d =
     Inr ((), d\<lparr>accounts := sql_update (\<lambda>r. ac_id r = k) (\<lambda>r. r\<lparr>ac_locked := Some until, ac_updated := in_now i\<rparr>) (accounts d)\<rparr>)"

definition create_session_stmt :: "identity_input \<Rightarrow> uuid \<Rightarrow> user_session \<Rightarrow> (identity_db, unit) sql" where
  "create_session_stmt i k s d =
     (if k \<notin> ac_id ` set (accounts d) then Inl (Constraint ''foreign_key_violation'')
      else (case sql_insert sn_id \<lparr>sn_id = in_session_id i, sn_user = k, sn_device = s_device s, sn_ip = s_ip s,
                    sn_agent = s_agent s, sn_active = True, sn_last = in_now i, sn_created = in_now i\<rparr> (sessions d) of
              Inl e \<Rightarrow> Inl e | Inr ss \<Rightarrow> Inr ((), d\<lparr>sessions := ss\<rparr>)))"

definition user_sessions_stmt :: "uuid \<Rightarrow> (identity_db, session_row list) sql" where
  "user_sessions_stmt k d = Inr (filter (\<lambda>s. sn_user s = k \<and> sn_active s) (sessions d), d)"

definition deactivate_stmt :: "uuid \<Rightarrow> uuid \<Rightarrow> (identity_db, unit) sql" where
  "deactivate_stmt k u d =
     Inr ((), d\<lparr>sessions := sql_update (\<lambda>s. sn_id s = k \<and> sn_user s = u) (\<lambda>s. s\<lparr>sn_active := False\<rparr>) (sessions d)\<rparr>)"

definition presence_stmt :: "uuid \<Rightarrow> (identity_db, bool \<times> int) sql" where
  "presence_stmt k d =
     (case filter (\<lambda>p. pr_user p = k) (presences d) of [] \<Rightarrow> Inl NoRows | p # _ \<Rightarrow> Inr ((pr_online p, pr_seen p), d))"

definition upsert_presence_stmt :: "identity_input \<Rightarrow> uuid \<Rightarrow> bool \<Rightarrow> (identity_db, unit) sql" where
  "upsert_presence_stmt i k on d =
     (if k \<notin> ac_id ` set (accounts d) then Inl (Constraint ''foreign_key_violation'')
      else Inr ((), d\<lparr>presences := sql_upsert pr_user \<lparr>pr_user = k, pr_online = on, pr_seen = in_now i\<rparr>
             (\<lambda>p. p\<lparr>pr_online := on, pr_seen := (if on then in_now i else pr_seen p)\<rparr>) (presences d)\<rparr>))"

definition lock_state_stmt :: "uuid \<Rightarrow> (identity_db, bool) sql" where
  "lock_state_stmt k d = (case filter (\<lambda>p. fst p = k) (plocks d) of [] \<Rightarrow> Inl NoRows | p # _ \<Rightarrow> Inr (snd p, d))"

definition set_lock_state_stmt :: "uuid \<Rightarrow> bool \<Rightarrow> (identity_db, unit) sql" where
  "set_lock_state_stmt k on d =
     (if k \<notin> ac_id ` set (accounts d) then Inl (Constraint ''foreign_key_violation'')
      else Inr ((), d\<lparr>plocks := sql_upsert fst (k, on) (\<lambda>p. (fst p, on)) (plocks d)\<rparr>))"

section \<open>Repository\<close>

record identity_state =
  id_db :: "identity_db session"
  id_rd :: "redis session"
  id_devices :: "string \<Rightarrow> string list"

type_synonym 'a id_op = "(identity_state, 'a) op"

definition on_sql :: "(identity_db, 'a) dbm \<Rightarrow> 'a id_op" where
  "on_sql m st = (case m (id_db st) of (r, s') \<Rightarrow> (r, st\<lparr>id_db := s'\<rparr>))"

definition on_redis :: "(redis, 'a) dbm \<Rightarrow> 'a id_op" where
  "on_redis m st = (case m (id_rd st) of (r, s') \<Rightarrow> (r, st\<lparr>id_rd := s'\<rparr>))"

text \<open>\<open>uid.Scan(id)\<close>.\<close>

definition scanned :: "identity_env \<Rightarrow> string \<Rightarrow> (uuid \<Rightarrow> 'a id_op) \<Rightarrow> 'a id_op" where
  "scanned env x k = (case id_scan env x of Inl e \<Rightarrow> ofail (Wrapf ''invalid uuid'' e) | Inr u \<Rightarrow> k u)"

definition user_key :: "string \<Rightarrow> string" where "user_key x = ''user:'' @ x"

text \<open>
  The auditor is called after the insertion; without one the call panics, which unwinds through the callers: it is an
  error that every caller passes on.
\<close>

definition panicked :: goerr where "panicked = Constraint ''panic: nil pointer dereference''"

definition CreateUser :: "identity_env \<Rightarrow> identity_input \<Rightarrow> user \<Rightarrow> user id_op" where
  "CreateUser env i u =
     obind (omap_err (Wrapf ''failed to create user'') (on_sql (autocommit (create_user_stmt i u)))) (\<lambda>r.
     if \<not> id_auditor env then ofail panicked
     else oreturn (u\<lparr>u_id := id_show env (ac_id r), u_created := ac_created r, u_updated := ac_updated r\<rparr>))"

definition mapUser :: "identity_env \<Rightarrow> account \<Rightarrow> user" where
  "mapUser env r =
     \<lparr>u_id = id_show env (ac_id r), u_system = [], u_username = ac_username r, u_display = [], u_email = ac_email r,
      u_hash = ac_hash r, u_avatar = (case ac_avatar r of None \<Rightarrow> [] | Some a \<Rightarrow> a), u_mfa = ac_mfa r,
      u_secret = (case ac_secret r of None \<Rightarrow> [] | Some s \<Rightarrow> s), u_seen = 0, u_online = False, u_plock = False,
      u_failed = ac_failed r, u_locked = ac_locked r, u_created = ac_created r, u_updated = ac_updated r\<rparr>"

definition hydrateRuntimeState :: "identity_env \<Rightarrow> user \<Rightarrow> user id_op" where
  "hydrateRuntimeState env u =
     (case id_scan env (u_id u) of
        Inl _ \<Rightarrow> oreturn u
      | Inr k \<Rightarrow>
          obind (otry (on_sql (autocommit (presence_stmt k)))) (\<lambda>p.
          obind (otry (on_sql (autocommit (lock_state_stmt k)))) (\<lambda>l.
          let u = (case p of Inl _ \<Rightarrow> u | Inr (on, seen) \<Rightarrow> u\<lparr>u_online := on, u_seen := seen\<rparr>)
          in oreturn (case l of Inl _ \<Rightarrow> u | Inr on \<Rightarrow> u\<lparr>u_plock := on\<rparr>))))"

definition hour :: int where "hour = 3600 * second"

text \<open>The row is kept in Redis for an hour; a copy that decodes is used instead of the row.\<close>

definition load_user :: "identity_env \<Rightarrow> string \<Rightarrow> user id_op" where
  "load_user env x =
     scanned env x (\<lambda>k.
     obind (omap_err (Wrapf ''failed to get user'') (on_sql (autocommit (get_user_stmt k)))) (\<lambda>r.
     obind (hydrateRuntimeState env (mapUser env r)) (\<lambda>u.
     obind (otry (on_redis (autocommit (SET (user_key x) (id_json env u) (Some (hour div 1000000)))))) (\<lambda>_.
     oreturn u))))"

definition GetUserByID :: "identity_env \<Rightarrow> string \<Rightarrow> user id_op" where
  "GetUserByID env x =
     obind (otry (on_redis (autocommit (GET (user_key x))))) (\<lambda>v.
     case v of
       Inl _ \<Rightarrow> load_user env x
     | Inr v \<Rightarrow> (case id_unjson env v of None \<Rightarrow> load_user env x | Some u \<Rightarrow> hydrateRuntimeState env u))"

definition GetUserByIdentifier :: "identity_env \<Rightarrow> string \<Rightarrow> user id_op" where
  "GetUserByIdentifier env x =
     obind (omap_err (Wrapf ''failed to get user by identifier'') (on_sql (autocommit (by_identifier_stmt x)))) (\<lambda>r.
     hydrateRuntimeState env (mapUser env r))"

definition drop_copy :: "string \<Rightarrow> unit id_op" where
  "drop_copy x = obind (otry (on_redis (autocommit (DEL (user_key x))))) (\<lambda>_. oreturn ())"

definition UpdateUser :: "identity_env \<Rightarrow> identity_input \<Rightarrow> user \<Rightarrow> unit id_op" where
  "UpdateUser env i u =
     scanned env (u_id u) (\<lambda>k.
     obind (on_sql (autocommit (update_user_stmt i k u))) (\<lambda>_. drop_copy (u_id u)))"

definition UpdateMFA :: "identity_env \<Rightarrow> string \<Rightarrow> bool \<Rightarrow> string \<Rightarrow> unit id_op" where
  "UpdateMFA env x on secret = scanned env x (\<lambda>k. on_sql (autocommit (update_mfa_stmt k on secret)))"

definition CreateSession :: "identity_env \<Rightarrow> identity_input \<Rightarrow> user_session \<Rightarrow> unit id_op" where
  "CreateSession env i s = scanned env (s_user s) (\<lambda>k. on_sql (autocommit (create_session_stmt i k s)))"

definition GetSessions :: "identity_env \<Rightarrow> string \<Rightarrow> user_session list id_op" where
  "GetSessions env x =
     scanned env x (\<lambda>k. obind (on_sql (autocommit (user_sessions_stmt k))) (\<lambda>rs.
     oreturn (map (\<lambda>r. \<lparr>s_id = id_show env (sn_id r), s_user = id_show env (sn_user r), s_device = sn_device r, s_ip = sn_ip r,
                        s_agent = sn_agent r, s_active = sn_active r, s_last = sn_last r, s_created = sn_created r\<rparr>) rs)))"

definition RevokeSession :: "identity_env \<Rightarrow> string \<Rightarrow> string \<Rightarrow> unit id_op" where
  "RevokeSession env sid x = scanned env sid (\<lambda>k. scanned env x (\<lambda>u. on_sql (autocommit (deactivate_stmt k u))))"

definition UpdateOnlineStatus :: "identity_env \<Rightarrow> identity_input \<Rightarrow> string \<Rightarrow> bool \<Rightarrow> unit id_op" where
  "UpdateOnlineStatus env i x on =
     scanned env x (\<lambda>k. obind (on_sql (autocommit (upsert_presence_stmt i k on))) (\<lambda>_. drop_copy x))"

definition SetProfileLock :: "identity_env \<Rightarrow> string \<Rightarrow> bool \<Rightarrow> unit id_op" where
  "SetProfileLock env x on =
     scanned env x (\<lambda>k. obind (on_sql (autocommit (set_lock_state_stmt k on))) (\<lambda>_. drop_copy x))"

definition IncrementFailedLogin :: "identity_env \<Rightarrow> identity_input \<Rightarrow> string \<Rightarrow> unit id_op" where
  "IncrementFailedLogin env i x = scanned env x (\<lambda>k. on_sql (autocommit (increment_failed_stmt i k)))"

definition ResetFailedLogin :: "identity_env \<Rightarrow> identity_input \<Rightarrow> string \<Rightarrow> unit id_op" where
  "ResetFailedLogin env i x = scanned env x (\<lambda>k. on_sql (autocommit (reset_failed_stmt i k)))"

definition LockAccount :: "identity_env \<Rightarrow> identity_input \<Rightarrow> string \<Rightarrow> int \<Rightarrow> unit id_op" where
  "LockAccount env i x until = scanned env x (\<lambda>k. on_sql (autocommit (lock_stmt i k until)))"

definition repo_BlacklistToken :: "string \<Rightarrow> int \<Rightarrow> unit id_op" where
  "repo_BlacklistToken tokenID expiration = on_redis (autocommit (SET (bl_key tokenID) ''1'' (Some (format_ms expiration))))"

definition RotateRefreshToken :: "identity_env \<Rightarrow> string \<Rightarrow> string \<Rightarrow> int \<Rightarrow> string id_op" where
  "RotateRefreshToken env old new expiration = on_redis (RotateRefreshTokenV2 (id_url_digest env) True old new expiration)"

section \<open>The sentinel\<close>

definition RegisterDevice :: "string \<Rightarrow> string \<Rightarrow> unit id_op" where
  "RegisterDevice x fp st =
     (if x = [] \<or> fp = [] then ofail (Errorf ''user id and fingerprint are required'') st
      else let ds = id_devices st x
           in if fp \<in> set ds then (Inr (), st)
              else (Inr (), st\<lparr>id_devices := (id_devices st)(x := (if 10 \<le> length ds then drop 1 ds else ds) @ [fp])\<rparr>))"

definition VerifyDeviceFingerprint :: "string \<Rightarrow> string \<Rightarrow> bool id_op" where
  "VerifyDeviceFingerprint x fp st =
     (if x = [] \<or> fp = [] then ofail (Errorf ''user id and fingerprint are required'') st
      else (Inr (fp \<in> set (id_devices st x)), st))"

text \<open>The active session with the latest activity, the first one of several.\<close>

fun last_session :: "user_session list \<Rightarrow> user_session option \<Rightarrow> user_session option" where
  "last_session [] best = best"
| "last_session (s # ss) best =
     last_session ss (if s_active s \<and> (case best of None \<Rightarrow> True | Some b \<Rightarrow> s_last b < s_last s) then Some s else best)"

definition device_risk :: "string list \<Rightarrow> string \<Rightarrow> real" where
  "device_risk ds fp = (if ds \<noteq> [] \<and> fp \<notin> set ds then 0.3 else 0)"

definition travel_risk :: "user_session option \<Rightarrow> string \<Rightarrow> int \<Rightarrow> real" where
  "travel_risk last_seen addr now =
     (case last_seen of None \<Rightarrow> 0 | Some s \<Rightarrow> if s_ip s \<noteq> addr \<and> now - s_last s < hour then 0.5 else 0)"

definition AssessRisk :: "identity_env \<Rightarrow> identity_input \<Rightarrow> string \<Rightarrow> real id_op" where
  "AssessRisk env i x st =
     (let r = device_risk (id_devices st x) (in_ip i @ [byte 0] @ in_agent i)
      in obind (otry (GetSessions env x)) (\<lambda>ss.
           oreturn (min (case ss of Inl _ \<Rightarrow> r | Inr ss \<Rightarrow> r + travel_risk (last_session ss None) (in_ip i) (in_now i)) 1)) st)"

section \<open>Service\<close>

definition request_fingerprint :: "identity_env \<Rightarrow> identity_input \<Rightarrow> string" where
  "request_fingerprint env i = GenerateFingerprint (id_digest env) (in_ip i) (in_agent i)"

text \<open>\<open>security.GenerateToken(userID, "user", fingerprint, s.jwtSecret)\<close>.\<close>

definition access_token :: "identity_env \<Rightarrow> identity_input \<Rightarrow> string \<Rightarrow> string res" where
  "access_token env i x =
     GenerateToken (id_jwt env) (in_token_id i) (in_now i) x ''user'' (request_fingerprint env i) (id_jwt_secret env)"

definition token_op :: "string \<Rightarrow> string res \<Rightarrow> string id_op" where
  "token_op m t = (case t of Inl e \<Rightarrow> ofail (Wrapf m e) | Inr t \<Rightarrow> oreturn t)"

definition Register ::
  "identity_env \<Rightarrow> identity_input \<Rightarrow> string \<Rightarrow> string \<Rightarrow> string \<Rightarrow> string \<Rightarrow> (user \<times> string) id_op" where
  "Register env i username email password sys =
     (if id_strength env password [username, email] < 3 then ofail (Errorf ''password is too weak'')
      else (case HashPassword (id_key env) (in_salt i) password of
         Inl e \<Rightarrow> ofail (Wrapf ''failed to hash password'' e)
       | Inr h \<Rightarrow>
           obind (CreateUser env i
             \<lparr>u_id = [], u_system = sys, u_username = username, u_display = [], u_email = email, u_hash = h, u_avatar = [],
              u_mfa = False, u_secret = [], u_seen = 0, u_online = False, u_plock = False, u_failed = 0, u_locked = None,
              u_created = 0, u_updated = 0\<rparr>) (\<lambda>u.
           obind (otry (RegisterDevice (u_id u) (request_fingerprint env i))) (\<lambda>_.
           obind (token_op ''failed to generate token'' (access_token env i (u_id u))) (\<lambda>t.
           oreturn (u, t))))))"

definition argon_prefix :: string where "argon_prefix = ''$argon2id$''"

definition password_matches :: "identity_env \<Rightarrow> string \<Rightarrow> string \<Rightarrow> bool" where
  "password_matches env hash password =
     (if has_prefix hash argon_prefix
      then (case ComparePassword (id_key env) password hash of Inl _ \<Rightarrow> False | Inr ok \<Rightarrow> ok)
      else id_bcrypt env hash password)"

definition invalid_credentials :: goerr where "invalid_credentials = Errorf ''invalid credentials''"

definition lock_time :: int where "lock_time = 15 * 60 * second"

text \<open>What \<open>Login\<close> does with a wrong password, and with a right one.\<close>

definition login_failed :: "identity_env \<Rightarrow> identity_input \<Rightarrow> user \<Rightarrow> 'a id_op" where
  "login_failed env i u =
     obind (otry (IncrementFailedLogin env i (u_id u))) (\<lambda>_.
     obind (otry (GetUserByID env (u_id u))) (\<lambda>refreshed.
     case refreshed of
       Inl _ \<Rightarrow> ofail invalid_credentials
     | Inr v \<Rightarrow>
         if 5 \<le> u_failed v
         then obind (otry (LockAccount env i (u_id u) (in_now i + lock_time))) (\<lambda>_.
              ofail (Errorf ''account locked for 15 minutes due to 5 failed attempts''))
         else ofail invalid_credentials))"

definition rehash :: "identity_env \<Rightarrow> identity_input \<Rightarrow> string \<Rightarrow> user \<Rightarrow> user id_op" where
  "rehash env i password u =
     (if has_prefix (u_hash u) argon_prefix then oreturn u
      else (case HashPassword (id_key env) (in_salt i) password of
              Inl _ \<Rightarrow> oreturn u
            | Inr h \<Rightarrow> obind (otry (UpdateUser env i (u\<lparr>u_hash := h\<rparr>))) (\<lambda>_. oreturn (u\<lparr>u_hash := h\<rparr>))))"

definition open_session :: "identity_env \<Rightarrow> identity_input \<Rightarrow> string \<Rightarrow> user \<Rightarrow> (user \<times> string \<times> bool) id_op" where
  "open_session env i device u =
     obind (AssessRisk env i (u_id u)) (\<lambda>risk.
     if 0.8 < risk then ofail (Errorf ''high risk detected, please use different authentication method'')
     else obind (otry (VerifyDeviceFingerprint (u_id u) (request_fingerprint env i))) (\<lambda>_.
     obind (omap_err (\<lambda>_. Errorf ''failed to create session'')
       (CreateSession env i \<lparr>s_id = [], s_user = u_id u, s_device = device, s_ip = in_ip i, s_agent = in_agent i,
          s_active = False, s_last = 0, s_created = 0\<rparr>)) (\<lambda>_.
     obind (token_op ''failed to generate token'' (access_token env i (u_id u))) (\<lambda>t.
     oreturn (u, t, False)))))"

definition Login :: "identity_env \<Rightarrow> identity_input \<Rightarrow> string \<Rightarrow> string \<Rightarrow> string \<Rightarrow> (user \<times> string \<times> bool) id_op" where
  "Login env i identifier password device =
     obind (omap_err (\<lambda>_. invalid_credentials) (GetUserByIdentifier env identifier)) (\<lambda>u.
     if (case u_locked u of None \<Rightarrow> False | Some t \<Rightarrow> in_now i < t)
     then ofail (Errorf ''account is temporarily locked due to multiple failed attempts. Try again later'')
     else if \<not> password_matches env (u_hash u) password then login_failed env i u
     else obind (if 0 < u_failed u then obind (otry (ResetFailedLogin env i (u_id u))) (\<lambda>_. oreturn ()) else oreturn ()) (\<lambda>_.
          obind (rehash env i password u) (\<lambda>u.
          if u_mfa u then oreturn (u, [], True) else open_session env i device u)))"

definition SetupMFA :: "identity_env \<Rightarrow> identity_input \<Rightarrow> string \<Rightarrow> (string \<times> string) id_op" where
  "SetupMFA env i x =
     obind (GetUserByID env x) (\<lambda>u.
     case in_totp i (u_email u) of
       Inl e \<Rightarrow> ofail e
     | Inr (secret, url) \<Rightarrow> obind (UpdateMFA env x False secret) (\<lambda>_. oreturn (secret, url)))"

definition VerifyMFA :: "identity_env \<Rightarrow> identity_input \<Rightarrow> string \<Rightarrow> string \<Rightarrow> bool id_op" where
  "VerifyMFA env i x code =
     obind (GetUserByID env x) (\<lambda>u.
     if \<not> id_totp env code (u_secret u) (in_now i) then oreturn False
     else if \<not> u_mfa u then obind (UpdateMFA env x True (u_secret u)) (\<lambda>_. oreturn True)
     else oreturn True)"

definition UpdateStatus :: "identity_env \<Rightarrow> identity_input \<Rightarrow> string \<Rightarrow> bool \<Rightarrow> unit id_op" where
  "UpdateStatus env i x on = UpdateOnlineStatus env i x on"

definition LockProfile :: "identity_env \<Rightarrow> string \<Rightarrow> bool \<Rightarrow> unit id_op" where
  "LockProfile env x on = SetProfileLock env x on"

definition ExportData :: "identity_env \<Rightarrow> string \<Rightarrow> (user \<times> user_session list) id_op" where
  "ExportData env x =
     obind (GetUserByID env x) (\<lambda>u.
     obind (otry (GetSessions env x)) (\<lambda>ss. oreturn (u, case ss of Inl _ \<Rightarrow> [] | Inr ss \<Rightarrow> ss)))"

definition Logout :: "identity_input \<Rightarrow> string \<Rightarrow> int \<Rightarrow> unit id_op" where
  "Logout i tokenID expiration =
     (if expiration - in_now i \<le> 0 then oreturn () else repo_BlacklistToken tokenID (expiration - in_now i))"

definition month :: int where "month = 30 * 24 * hour"

definition RefreshToken :: "identity_env \<Rightarrow> identity_input \<Rightarrow> string \<Rightarrow> (string \<times> string) id_op" where
  "RefreshToken env i old =
     (case in_refresh i of
        Inl e \<Rightarrow> ofail (Wrapf ''failed to generate refresh token'' e)
      | Inr new \<Rightarrow>
          obind (RotateRefreshToken env old new month) (\<lambda>x.
          obind (omap_err (\<lambda>_. Errorf ''user not found'') (GetUserByID env x)) (\<lambda>u.
          obind (token_op ''failed to generate access token'' (access_token env i (u_id u))) (\<lambda>t.
          oreturn (t, new)))))"

section \<open>Handlers\<close>

datatype identity_body =
    IError string string
  | IMessage string
  | SessionBody user string string
  | ChallengeBody string string
  | MfaSetup string string
  | TokensBody string string
  | UserBody user

type_synonym answer = "int \<times> identity_body"

text \<open>The rest of a handler after a call: an error is turned into an answer.\<close>

definition answering :: "'a id_op \<Rightarrow> (goerr \<Rightarrow> 'b) \<Rightarrow> ('a \<Rightarrow> 'b id_op) \<Rightarrow> 'b id_op" where
  "answering m g k st = (case m st of (Inl e, st') \<Rightarrow> (Inr (g e), st') | (Inr a, st') \<Rightarrow> k a st')"

definition from_res :: "'a res \<Rightarrow> 'a id_op" where
  "from_res r st = (r, st)"

definition no_session :: answer where "no_session = (500, IError ''ERR_INTERNAL'' ''Unable to establish session'')"

text \<open>A refresh token is drawn and stored; the answer that \<open>k\<close> makes of it.\<close>

definition with_refresh :: "identity_env \<Rightarrow> identity_input \<Rightarrow> string \<Rightarrow> (string \<Rightarrow> answer id_op) \<Rightarrow> answer id_op" where
  "with_refresh env i x k =
     answering (from_res (in_refresh i)) (\<lambda>_. no_session) (\<lambda>r.
     answering (on_redis (StoreRefreshTokenV2 (id_url_digest env) True x r month)) (\<lambda>_. no_session) (\<lambda>_. k r))"

definition limited :: "string \<Rightarrow> int \<Rightarrow> int \<Rightarrow> 'a \<Rightarrow> 'a \<Rightarrow> 'a id_op \<Rightarrow> 'a id_op" where
  "limited key n window unavailable refused k =
     answering (on_redis (RateLimitCheck True key n window)) (\<lambda>_. unavailable) (\<lambda>allowed.
     if \<not> allowed then oreturn refused else k)"

text \<open>
  \<open>strings.EqualFold\<close> with an ASCII text that has no \<open>k\<close>: apart from the two cases of a letter, only the long s
  (U+017F) folds to an ASCII letter of such a text.
\<close>

fun fold_long_s :: "string \<Rightarrow> string" where
  "fold_long_s (c # d # s) =
     (if c = byte 0xC5 \<and> d = byte 0xBF then CHR ''s'' # fold_long_s s else c # fold_long_s (d # s))"
| "fold_long_s s = s"

definition equal_fold :: "string \<Rightarrow> string \<Rightarrow> bool" where
  "equal_fold s t \<longleftrightarrow> map lower_byte (fold_long_s s) = map lower_byte t"

definition handle_Register ::
  "identity_env \<Rightarrow> identity_input \<Rightarrow> (string \<times> string \<times> string \<times> string \<times> string) option \<Rightarrow> answer id_op" where
  "handle_Register env i req =
     (case req of
        None \<Rightarrow> oreturn (400, IError ''ERR_BAD_REQUEST'' ''Invalid request body'')
      | Some (username, email, password, display, type) \<Rightarrow>
          let corporate = equal_fold type ''CORPORATE'';
              username = trim_space (id_sanitize env username);
              display = trim_space (id_sanitize env display);
              email = to_lower (trim_space (id_sanitize env email))
          in if \<not> corporate \<and> type \<noteq> [] \<and> \<not> equal_fold type ''PERSONAL''
             then oreturn (400, IError ''ERR_VALIDATION'' ''Invalid account type'')
             else if length username < 3 \<or> 64 < length username
             then oreturn (400, IError ''ERR_VALIDATION'' ''Invalid username'')
             else if id_mail env email \<noteq> Some email then oreturn (400, IError ''ERR_VALIDATION'' ''Invalid email format'')
             else if length password < 8 \<or> 128 < length password
             then oreturn (400, IError ''ERR_VALIDATION'' ''Invalid password'')
             else answering (Register env i username email password (if corporate then ''CORPORATE'' else ''PERSONAL''))
                    (\<lambda>e. if e = panicked then (500, IError ''ERR_UNKNOWN'' ''request failed'')
                         else (409, IError ''ERR_VALIDATION'' ''Unable to create account'')) (\<lambda>(u, t).
                  with_refresh env i (u_id u) (\<lambda>r. oreturn (201, SessionBody (u\<lparr>u_display := display\<rparr>) t r))))"

definition login_key :: "identity_env \<Rightarrow> string \<Rightarrow> string" where "login_key env email = ''login:'' @ id_digest env email"

definition challenge_key :: "identity_env \<Rightarrow> string \<Rightarrow> string" where
  "challenge_key env c = ''mfa:challenge:'' @ id_digest env c"

definition challenge_failed :: answer where
  "challenge_failed = (503, IError ''MFA_CHALLENGE_UNAVAILABLE'' ''Authentication service unavailable'')"

text \<open>\<open>PreAuthMFAHandler.Login\<close>: a session, or a challenge for an account with a second factor.\<close>

definition finish_login :: "identity_env \<Rightarrow> identity_input \<Rightarrow> user \<times> string \<times> bool \<Rightarrow> answer id_op" where
  "finish_login env i = (\<lambda>(u, t, mfa).
     if \<not> mfa then with_refresh env i (u_id u) (\<lambda>r. oreturn (200, SessionBody u t r))
     else answering (from_res (in_refresh i))
            (\<lambda>_. (500, IError ''ERR_INTERNAL'' ''Unable to establish MFA challenge'')) (\<lambda>c.
          answering (on_redis (autocommit (SET (challenge_key env c)
              (id_challenge_json env (u_id u, request_fingerprint env i)) (Some (5 * 60 * 1000)))))
            (\<lambda>_. challenge_failed) (\<lambda>_.
          oreturn (200, ChallengeBody (u_id u) c))))"

definition handle_Login :: "identity_env \<Rightarrow> identity_input \<Rightarrow> (string \<times> string \<times> string \<times> string) option \<Rightarrow> answer id_op" where
  "handle_Login env i req =
     (case req of
        None \<Rightarrow> oreturn (400, IError ''ERR_BAD_REQUEST'' ''Invalid request body'')
      | Some (email, password, device, fingerprint) \<Rightarrow>
          let email = to_lower (trim_space (id_sanitize env email));
              device = (if trim_space device = [] then trim_space fingerprint else trim_space device)
          in limited (login_key env email) 10 (15 * 60 * second)
               (503, IError ''AUTH_LIMIT_UNAVAILABLE'' ''Authentication service unavailable'')
               (429, IError ''AUTH_RATE_LIMITED'' ''Too many authentication attempts'')
               (answering (Login env i email password device)
                  (\<lambda>_. (401, IError ''ERR_AUTH_FAILED'' ''Invalid credentials'')) (finish_login env i)))"

definition invalid_challenge :: answer where
  "invalid_challenge = (401, IError ''ERR_AUTH_FAILED'' ''Invalid or expired MFA challenge'')"

definition drop_challenge :: "string \<Rightarrow> answer id_op" where
  "drop_challenge key = obind (otry (on_redis (autocommit (DEL key)))) (\<lambda>_. oreturn invalid_challenge)"

text \<open>What the stored challenge says, \<open>None\<close> when it is malformed.\<close>

definition decode_challenge :: "identity_env \<Rightarrow> string \<Rightarrow> (string \<times> string) option" where
  "decode_challenge env raw =
     (case id_challenge_unjson env raw of
        None \<Rightarrow> None
      | Some (x, fp) \<Rightarrow> if x = [] \<or> fp = [] then None else Some (x, fp))"

text \<open>
  \<open>PreAuthMFAHandler.Verify\<close> in three stretches, since other requests can come in between its commands: the
  challenge is read, the code is checked, and the challenge is redeemed. \<open>Inl\<close> is an answer given on the way.
\<close>

definition read_challenge :: "identity_env \<Rightarrow> identity_input \<Rightarrow> string \<Rightarrow> (answer + string) id_op" where
  "read_challenge env i key =
     answering (on_redis (autocommit (GET key)))
       (\<lambda>e. Inl (if e = NoRows then invalid_challenge else challenge_failed)) (\<lambda>raw.
     case decode_challenge env raw of
       None \<Rightarrow> obind (drop_challenge key) (\<lambda>a. oreturn (Inl a))
     | Some (x, fp) \<Rightarrow> oreturn (if fp \<noteq> request_fingerprint env i then Inl invalid_challenge else Inr x))"

definition begin_verify ::
  "identity_env \<Rightarrow> identity_input \<Rightarrow> (string \<times> string) option \<Rightarrow> (answer + string \<times> string \<times> string) id_op" where
  "begin_verify env i req =
     (case req of
        None \<Rightarrow> oreturn (Inl (400, IError ''ERR_BAD_REQUEST'' ''Challenge and code are required''))
      | Some (c, code) \<Rightarrow>
          if trim_space c = [] \<or> trim_space code = []
          then oreturn (Inl (400, IError ''ERR_BAD_REQUEST'' ''Challenge and code are required''))
          else let key = challenge_key env (trim_space c)
               in obind (read_challenge env i key) (\<lambda>r.
                  oreturn (case r of Inl a \<Rightarrow> Inl a | Inr x \<Rightarrow> Inr (key, x, trim_space code))))"

definition check_code :: "identity_env \<Rightarrow> identity_input \<Rightarrow> string \<Rightarrow> string \<Rightarrow> (answer + unit) id_op" where
  "check_code env i x code =
     limited (''mfa:user:'' @ id_digest env x) 5 (10 * 60 * second)
       (Inl (503, IError ''MFA_LIMIT_UNAVAILABLE'' ''Authentication service unavailable''))
       (Inl (429, IError ''MFA_RATE_LIMITED'' ''Too many MFA attempts''))
       (answering (VerifyMFA env i x code) (\<lambda>_. Inl (500, IError ''ERR_INTERNAL'' ''Unable to verify MFA'')) (\<lambda>valid.
        oreturn (if valid then Inr () else Inl (401, IError ''ERR_AUTH_FAILED'' ''Invalid MFA code''))))"

definition redeem :: "identity_env \<Rightarrow> identity_input \<Rightarrow> string \<Rightarrow> string \<Rightarrow> answer id_op" where
  "redeem env i key x =
     answering (on_redis (autocommit (DEL key))) (\<lambda>_. challenge_failed) (\<lambda>_.
     answering (from_res (access_token env i x)) (\<lambda>_. no_session) (\<lambda>t.
     with_refresh env i x (\<lambda>r.
     answering (ExportData env x) (\<lambda>_. (500, IError ''ERR_INTERNAL'' ''Unable to load account'')) (\<lambda>(u, _).
     oreturn (200, SessionBody u t r)))))"

definition unless_answered :: "(answer + 'a) id_op \<Rightarrow> ('a \<Rightarrow> answer id_op) \<Rightarrow> answer id_op" where
  "unless_answered m k = obind m (\<lambda>r. case r of Inl a \<Rightarrow> oreturn a | Inr y \<Rightarrow> k y)"

definition handle_Verify :: "identity_env \<Rightarrow> identity_input \<Rightarrow> (string \<times> string) option \<Rightarrow> answer id_op" where
  "handle_Verify env i req =
     unless_answered (begin_verify env i req) (\<lambda>(key, x, code).
     unless_answered (check_code env i x code) (\<lambda>_. redeem env i key x))"

definition handle_SetupMFA :: "identity_env \<Rightarrow> identity_input \<Rightarrow> string \<Rightarrow> answer id_op" where
  "handle_SetupMFA env i x =
     answering (SetupMFA env i x) (\<lambda>_. (500, IError ''ERR_INTERNAL'' ''Unable to configure MFA'')) (\<lambda>(secret, url).
     oreturn (200, MfaSetup secret url))"

definition handle_Me :: "identity_env \<Rightarrow> string \<Rightarrow> answer id_op" where
  "handle_Me env x =
     answering (ExportData env x) (\<lambda>_. (500, IError ''ERR_INTERNAL'' ''Unable to load account'')) (\<lambda>(u, _). oreturn (200, UserBody u))"

definition handle_Logout :: "identity_input \<Rightarrow> string \<Rightarrow> int \<Rightarrow> answer id_op" where
  "handle_Logout i tokenID expiration =
     answering (Logout i tokenID expiration) (\<lambda>_. (500, IError ''ERR_INTERNAL'' ''Failed to logout'')) (\<lambda>_.
     oreturn (200, IMessage ''Logged out successfully''))"

definition handle_Refresh :: "identity_env \<Rightarrow> identity_input \<Rightarrow> string option \<Rightarrow> answer id_op" where
  "handle_Refresh env i req =
     (case req of
        None \<Rightarrow> oreturn (400, IError ''ERR_BAD_REQUEST'' ''Refresh token is required'')
      | Some old \<Rightarrow>
          if trim_space old = [] then oreturn (400, IError ''ERR_BAD_REQUEST'' ''Refresh token is required'')
          else answering (RefreshToken env i old)
                 (\<lambda>_. (401, IError ''ERR_AUTH_FAILED'' ''Invalid or expired refresh token'')) (\<lambda>(t, r).
               oreturn (200, TokensBody t r)))"

text \<open>The routed requests. The last three come from an authenticated user.\<close>

datatype identity_call =
    RegisterReq "(string \<times> string \<times> string \<times> string \<times> string) option"
  | LoginReq "(string \<times> string \<times> string \<times> string) option"
  | VerifyReq "(string \<times> string) option"
  | RefreshReq "string option"
  | SetupReq string
  | MeReq string
  | LogoutReq string int

fun handle_identity :: "identity_env \<Rightarrow> identity_input \<Rightarrow> identity_call \<Rightarrow> answer id_op" where
  "handle_identity env i (RegisterReq q) = handle_Register env i q"
| "handle_identity env i (LoginReq q) = handle_Login env i q"
| "handle_identity env i (VerifyReq q) = handle_Verify env i q"
| "handle_identity env i (RefreshReq q) = handle_Refresh env i q"
| "handle_identity env i (SetupReq x) = handle_SetupMFA env i x"
| "handle_identity env i (MeReq x) = handle_Me env x"
| "handle_identity env i (LogoutReq k t) = handle_Logout i k t"

text \<open>Before a request the clock moves on and the network decides on the coming calls.\<close>

definition before :: "identity_input \<Rightarrow> outcome list \<Rightarrow> outcome list \<Rightarrow> identity_state \<Rightarrow> identity_state" where
  "before i sql_outs redis_outs st =
     st\<lparr>id_db := (id_db st)\<lparr>outcomes := sql_outs\<rparr>,
        id_rd := (id_rd st)\<lparr>durable := at_time (in_now i div 1000000) (durable (id_rd st)), outcomes := redis_outs\<rparr>\<rparr>"

text \<open>
  Requests that overlap. A verification that has read its challenge, or has checked its code too, waits while other
  requests run; \<open>Continue n\<close> lets the \<open>n\<close>-th waiting one go on. The log has the answers, those of verifications under
  the key of their challenge.
\<close>

datatype verification =
    HasRead identity_input string string string
  | HasChecked identity_input string string

fun challenge_of :: "verification \<Rightarrow> string" where
  "challenge_of (HasRead i key x code) = key"
| "challenge_of (HasChecked i key x) = key"

fun continue_verify :: "identity_env \<Rightarrow> int \<Rightarrow> verification \<Rightarrow> (verification + answer) id_op" where
  "continue_verify env now (HasRead i key x code) =
     obind (check_code env (i\<lparr>in_now := now\<rparr>) x code) (\<lambda>r.
     oreturn (case r of Inl a \<Rightarrow> Inr a | Inr _ \<Rightarrow> Inl (HasChecked i key x)))"
| "continue_verify env now (HasChecked i key x) =
     obind (redeem env (i\<lparr>in_now := now\<rparr>) key x) (\<lambda>a. oreturn (Inr a))"

datatype identity_step =
    Whole identity_call
  | Begin "(string \<times> string) option"
  | Continue nat

definition verify_key :: "identity_env \<Rightarrow> (string \<times> string) option \<Rightarrow> string" where
  "verify_key env q = (case q of None \<Rightarrow> [] | Some (c, _) \<Rightarrow> challenge_key env (trim_space c))"

definition remove_nth :: "nat \<Rightarrow> 'a list \<Rightarrow> 'a list" where
  "remove_nth n xs = take n xs @ drop (Suc n) xs"

fun step_identity ::
  "identity_env \<Rightarrow> identity_input \<Rightarrow> identity_step \<Rightarrow> verification list \<Rightarrow> identity_state \<Rightarrow>
   (string \<times> answer res) list \<times> verification list \<times> identity_state" where
  "step_identity env i (Whole c) vs st =
     (case handle_identity env i c st of (r, st') \<Rightarrow>
        ([(case c of VerifyReq q \<Rightarrow> verify_key env q | _ \<Rightarrow> [], r)], vs, st'))"
| "step_identity env i (Begin q) vs st =
     (case begin_verify env i q st of
        (Inl e, st') \<Rightarrow> ([(verify_key env q, Inl e)], vs, st')
      | (Inr (Inl a), st') \<Rightarrow> ([(verify_key env q, Inr a)], vs, st')
      | (Inr (Inr (key, x, code)), st') \<Rightarrow> ([], vs @ [HasRead i key x code], st'))"
| "step_identity env i (Continue n) vs st =
     (if length vs \<le> n then ([], vs, st)
      else (case continue_verify env (in_now i) (vs ! n) st of
              (Inl e, st') \<Rightarrow> ([(challenge_of (vs ! n), Inl e)], remove_nth n vs, st')
            | (Inr (Inl v), st') \<Rightarrow> ([], vs[n := v], st')
            | (Inr (Inr a), st') \<Rightarrow> ([(challenge_of (vs ! n), Inr a)], remove_nth n vs, st')))"

fun interleave ::
  "identity_env \<Rightarrow> (identity_input \<times> outcome list \<times> outcome list \<times> identity_step) list \<Rightarrow> verification list \<Rightarrow>
   identity_state \<Rightarrow> (string \<times> answer res) list \<times> verification list \<times> identity_state" where
  "interleave env [] vs st = ([], vs, st)"
| "interleave env ((i, so, ro, a) # as) vs st =
     (case step_identity env i a vs (before i so ro st) of (l, vs', st') \<Rightarrow>
        (case interleave env as vs' st' of (ls, r) \<Rightarrow> (l @ ls, r)))"

text \<open>How many sessions were opened from a challenge, and how many verifications that have read it are waiting.\<close>

definition is_session :: "string \<Rightarrow> string \<times> answer res \<Rightarrow> bool" where
  "is_session key = (\<lambda>(k, r). k = key \<and> (case r of Inl _ \<Rightarrow> False | Inr (status, _) \<Rightarrow> status = 200))"

definition sessions_opened :: "string \<Rightarrow> (string \<times> answer res) list \<Rightarrow> nat" where
  "sessions_opened key xs = length (filter (is_session key) xs)"

definition waiting :: "string \<Rightarrow> verification list \<Rightarrow> nat" where
  "waiting key vs = length (filter (\<lambda>v. challenge_of v = key) vs)"

section \<open>What a successful call says\<close>

lemma on_sql_ok: "on_sql m st = (r, st') \<longleftrightarrow> (\<exists>s'. m (id_db st) = (r, s') \<and> st' = st\<lparr>id_db := s'\<rparr>)"
  by (auto simp: on_sql_def split: prod.splits)

lemma on_redis_ok: "on_redis m st = (r, st') \<longleftrightarrow> (\<exists>s'. m (id_rd st) = (r, s') \<and> st' = st\<lparr>id_rd := s'\<rparr>)"
  by (auto simp: on_redis_def split: prod.splits)

lemma answering_ok:
  "answering m g k st = (Inr b, st') \<longleftrightarrow>
     (\<exists>e. m st = (Inl e, st') \<and> b = g e) \<or> (\<exists>a st1. m st = (Inr a, st1) \<and> k a st1 = (Inr b, st'))"
  by (auto simp: answering_def split: prod.splits sum.splits)


lemma limited_ok:
  assumes "limited key n window un re k st = (Inr b, st')" and "b \<noteq> un" and "b \<noteq> re"
  shows "\<exists>s1. RateLimitCheck True key n window (id_rd st) = (Inr True, s1) \<and> k (st\<lparr>id_rd := s1\<rparr>) = (Inr b, st')"
  using assms
  by (auto simp: limited_def answering_ok on_redis_ok oreturn_def split: if_splits)

lemma read_durable:
  "(\<And>d a d'. f d = Inr (a, d') \<Longrightarrow> d' = d) \<Longrightarrow> autocommit f s = (r, s') \<Longrightarrow> durable s' = durable s"
  by (fastforce simp: autocommit_def next_outcome_def split: list.splits outcome.splits sum.splits prod.splits)
text \<open>Users that differ only in what the runtime tables say.\<close>

definition same_account :: "user \<Rightarrow> user \<Rightarrow> bool" where
  "same_account u v \<longleftrightarrow>
     u\<lparr>u_online := False, u_seen := 0, u_plock := False\<rparr> = v\<lparr>u_online := False, u_seen := 0, u_plock := False\<rparr>"

lemma same_account_fields:
  assumes "same_account u v"
  shows "u_id u = u_id v" "u_hash u = u_hash v" "u_mfa u = u_mfa v" "u_secret u = u_secret v"
    "u_failed u = u_failed v" "u_locked u = u_locked v"
proof -
  show "u_id u = u_id v" "u_hash u = u_hash v" "u_mfa u = u_mfa v" "u_secret u = u_secret v"
    "u_failed u = u_failed v" "u_locked u = u_locked v"
    using assms [unfolded same_account_def] by (cases u; cases v; simp)+
qed

lemma hydrate_result:
  assumes run: "hydrateRuntimeState env u st = (r, st')"
  obtains v where "r = Inr v" "same_account v u" "id_rd st' = id_rd st" "durable (id_db st') = durable (id_db st)"
proof (cases "id_scan env (u_id u)")
  case (Inl e)
  with run have "r = Inr u" "st' = st" by (simp_all add: hydrateRuntimeState_def oreturn_def)
  then show ?thesis by (intro that [of u]) (simp_all add: same_account_def)
next
  case (Inr k)
  obtain p s1 where p: "autocommit (presence_stmt k) (id_db st) = (p, s1)" by fastforce
  obtain l s2 where l: "autocommit (lock_state_stmt k) s1 = (l, s2)" by fastforce
  have 1: "durable s1 = durable (id_db st)"
    by (rule read_durable [OF _ p]) (auto simp: presence_stmt_def split: list.splits)
  have 2: "durable s2 = durable s1"
    by (rule read_durable [OF _ l]) (auto simp: lock_state_stmt_def split: list.splits)
  define v where "v = (case p of Inl _ \<Rightarrow> u | Inr (on, seen) \<Rightarrow> u\<lparr>u_online := on, u_seen := seen\<rparr>)"
  have "r = Inr (case l of Inl _ \<Rightarrow> v | Inr on \<Rightarrow> v\<lparr>u_plock := on\<rparr>)" and st': "st' = st\<lparr>id_db := s2\<rparr>"
    unfolding v_def using run Inr p l
    by (auto simp: hydrateRuntimeState_def obind_def otry_def on_sql_def oreturn_def Let_def)
  moreover have "same_account (case l of Inl _ \<Rightarrow> v | Inr on \<Rightarrow> v\<lparr>u_plock := on\<rparr>) u"
    unfolding v_def by (simp add: same_account_def split: sum.split prod.split)
  ultimately show ?thesis using 1 2 by (intro that) simp_all
qed
section \<open>Sign-in\<close>

lemma answering_200:
  assumes "answering m g k st = (Inr (200, b), st')" and "\<And>e. fst (g e) \<noteq> 200"
  obtains a st1 where "m st = (Inr a, st1)" "k a st1 = (Inr (200, b), st')"
  using assms that by (auto simp: answering_ok) (metis fst_conv)

lemma limited_200:
  assumes "limited key n window un re k st = (Inr (200, b), st')" and "fst un \<noteq> 200" and "fst re \<noteq> 200"
  obtains s1 where "RateLimitCheck True key n window (id_rd st) = (Inr True, s1)"
    "k (st\<lparr>id_rd := s1\<rparr>) = (Inr (200, b), st')"
  using limited_ok [OF assms(1)] assms(2,3) that by fastforce

lemma with_refresh_200:
  assumes "with_refresh env i x k st = (Inr (200, b), st')"
  obtains r s1 where "in_refresh i = Inr r" "StoreRefreshTokenV2 (id_url_digest env) True x r month (id_rd st) = (Inr (), s1)"
    "k r (st\<lparr>id_rd := s1\<rparr>) = (Inr (200, b), st')"
  using assms unfolding with_refresh_def
  by (elim answering_200) (auto simp: no_session_def from_res_def on_redis_ok)

lemma GetUserByIdentifier_row:
  assumes "GetUserByIdentifier env x st = (Inr u, st')"
  obtains a where "a \<in> set (accounts (durable (id_db st)))" "ac_username a = x \<or> ac_email a = x" "same_account u (mapUser env a)"
proof -
  from assms obtain a s1 where a: "autocommit (by_identifier_stmt x) (id_db st) = (Inr a, s1)"
    and h: "hydrateRuntimeState env (mapUser env a) (st\<lparr>id_db := s1\<rparr>) = (Inr u, st')"
    by (auto simp: GetUserByIdentifier_def op_ok on_sql_ok)
  from autocommit_cases(2) [OF a refl] have "by_identifier_stmt x (durable (id_db st)) = Inr (a, durable s1)" by simp
  then have "hd (filter (\<lambda>r. ac_username r = x \<or> ac_email r = x) (accounts (durable (id_db st)))) = a"
    "filter (\<lambda>r. ac_username r = x \<or> ac_email r = x) (accounts (durable (id_db st))) \<noteq> []"
    by (auto simp: by_identifier_stmt_def split: list.splits)
  then have "a \<in> set (filter (\<lambda>r. ac_username r = x \<or> ac_email r = x) (accounts (durable (id_db st))))"
    by (metis hd_in_set)
  moreover from hydrate_result [OF h] have "same_account u (mapUser env a)" by blast
  ultimately show thesis by (intro that [of a]) auto
qed

lemma rehash_keeps:
  assumes "rehash env i password u st = (Inr v, st')"
  shows "u_id v = u_id u \<and> u_mfa v = u_mfa u"
  using assms by (auto simp: rehash_def op_ok split: if_splits sum.splits)

lemma login_failed_fails: "login_failed env i u st \<noteq> (Inr b, st')"
  by (auto simp: login_failed_def op_ok split: if_splits sum.splits)

lemma open_session_ok:
  assumes "open_session env i device u st = (Inr (v, t, mfa), st')"
  shows "v = u \<and> \<not> mfa \<and> access_token env i (u_id u) = Inr t"
  using assms by (auto simp: open_session_def token_op_def op_ok split: if_splits sum.splits)

lemma Login_authentic:
  assumes "Login env i x password device st = (Inr (u, t, mfa), st')"
  obtains a where "a \<in> set (accounts (durable (id_db st)))" "ac_username a = x \<or> ac_email a = x"
    "password_matches env (ac_hash a) password" "\<forall>l. ac_locked a = Some l \<longrightarrow> l \<le> in_now i"
    "u_id u = id_show env (ac_id a)" "mfa = ac_mfa a" "\<not> mfa \<Longrightarrow> access_token env i (id_show env (ac_id a)) = Inr t"
proof -
  from assms obtain v st1 where v: "GetUserByIdentifier env x st = (Inr v, st1)"
    and run: "(if (case u_locked v of None \<Rightarrow> False | Some t \<Rightarrow> in_now i < t)
     then ofail (Errorf ''account is temporarily locked due to multiple failed attempts. Try again later'')
     else if \<not> password_matches env (u_hash v) password then login_failed env i v
     else obind (if 0 < u_failed v then obind (otry (ResetFailedLogin env i (u_id v))) (\<lambda>_. oreturn ()) else oreturn ()) (\<lambda>_.
          obind (rehash env i password v) (\<lambda>u.
          if u_mfa u then oreturn (u, [], True) else open_session env i device u))) st1 = (Inr (u, t, mfa), st')"
    unfolding Login_def op_ok by blast
  from run have l: "\<not> (case u_locked v of None \<Rightarrow> False | Some t \<Rightarrow> in_now i < t)"
    and p: "password_matches env (u_hash v) password"
    by (auto simp: op_ok login_failed_fails split: if_splits)
  with run obtain st2 w st3 where w: "rehash env i password v st2 = (Inr w, st3)"
    and k: "(if u_mfa w then oreturn (w, [], True) else open_session env i device w) st3 = (Inr (u, t, mfa), st')"
    unfolding op_ok if_not_P [OF l] if_not_P [OF not_not [THEN iffD2, OF p]] by blast
  have u: "u = w" "mfa = u_mfa w" "\<not> mfa \<Longrightarrow> access_token env i (u_id w) = Inr t"
    using k by (auto simp: op_ok split: if_splits dest: open_session_ok)
  from GetUserByIdentifier_row [OF v] obtain a where a: "a \<in> set (accounts (durable (id_db st)))"
    "ac_username a = x \<or> ac_email a = x" and same: "same_account v (mapUser env a)" by blast
  show thesis
    using that [OF a] p l u rehash_keeps [OF w] same_account_fields [OF same]
    by (simp add: mapUser_def split: option.splits)
qed

text \<open>
  C17. A sign-in is answered with success only for an account with the given name or address, the right password, and no
  lock in force. If the account has a second factor the answer is a challenge and no token; otherwise it is a session
  whose access token was issued to that account.
\<close>

theorem login_answers_authentic:
  assumes "handle_Login env i (Some (email, password, device, fp)) st = (Inr (200, b), st')"
  shows "\<exists>a\<in>set (accounts (durable (id_db st))).
     (let x = to_lower (trim_space (id_sanitize env email)) in ac_username a = x \<or> ac_email a = x) \<and>
     password_matches env (ac_hash a) password \<and> (\<forall>l. ac_locked a = Some l \<longrightarrow> l \<le> in_now i) \<and>
     (if ac_mfa a then \<exists>c. b = ChallengeBody (id_show env (ac_id a)) c
      else \<exists>u t r. b = SessionBody u t r \<and> u_id u = id_show env (ac_id a) \<and>
             access_token env i (id_show env (ac_id a)) = Inr t)"
proof -
  define x where "x = to_lower (trim_space (id_sanitize env email))"
  from assms obtain dev s1 where run: "answering (Login env i x password dev)
      (\<lambda>_. (401, IError ''ERR_AUTH_FAILED'' ''Invalid credentials'')) (finish_login env i) (st\<lparr>id_rd := s1\<rparr>) = (Inr (200, b), st')"
    unfolding handle_Login_def x_def Let_def option.case prod.case by (elim limited_200) auto
  obtain u t mfa st2 where l: "Login env i x password dev (st\<lparr>id_rd := s1\<rparr>) = (Inr (u, t, mfa), st2)"
    and k: "finish_login env i (u, t, mfa) st2 = (Inr (200, b), st')"
    by (rule answering_200 [OF run]) auto
  have b: "if mfa then \<exists>c. b = ChallengeBody (u_id u) c else \<exists>r. b = SessionBody u t r"
    using k unfolding finish_login_def
    by (cases mfa) (auto simp: op_ok challenge_failed_def elim!: answering_200 with_refresh_200)
  obtain a where "a \<in> set (accounts (durable (id_db st)))" "ac_username a = x \<or> ac_email a = x"
    "password_matches env (ac_hash a) password" "\<forall>l. ac_locked a = Some l \<longrightarrow> l \<le> in_now i"
    "u_id u = id_show env (ac_id a)" "mfa = ac_mfa a" "\<not> mfa \<longrightarrow> access_token env i (id_show env (ac_id a)) = Inr t"
    by (rule Login_authentic [OF l]) auto
  with b show ?thesis unfolding Let_def x_def by (intro bexI [of _ a]) auto
qed
section \<open>The second factor\<close>





lemma incr_expire_untouched: "incr_expire k n r = Inr (a, r') \<Longrightarrow> k' \<noteq> k \<Longrightarrow> untouched k' r r'"
  by (auto simp: incr_expire_def sbind_def sreturn_def INCR_def EXPIRE_def untouched_def rset_def rdel_def
      split: option.splits rval.splits if_splits sum.splits prod.splits)

lemma RateLimitCheck_untouched:
  assumes "RateLimitCheck True user n w s = (r, s')" and "k \<noteq> ''ratelimit:'' @ user"
  shows "untouched k (durable s) (durable s')"
proof (cases "user = [] \<or> n \<le> 0 \<or> w \<le> 0")
  case True
  with assms(1) show ?thesis by (auto simp: RateLimitCheck_def dfail_def)
next
  case False
  obtain a s1 where a: "autocommit (incr_expire (''ratelimit:'' @ user) (w div second)) s = (a, s1)" by fastforce
  with False assms(1) have "s' = s1" by (auto simp: RateLimitCheck_def dbind_def dreturn_def split: sum.splits)
  with autocommit_cases(1) [OF a] show ?thesis using incr_expire_untouched assms(2) by fastforce
qed


lemma drop_challenge_fails: "drop_challenge key st \<noteq> (Inr (200, b), st')"
  by (auto simp: drop_challenge_def op_ok invalid_challenge_def)

lemma unless_answered_ok:
  "unless_answered m k st = (Inr b, st') \<longleftrightarrow>
     m st = (Inr (Inl b), st') \<or> (\<exists>y st1. m st = (Inr (Inr y), st1) \<and> k y st1 = (Inr b, st'))"
proof -
  obtain r s1 where m: "m st = (r, s1)" by fastforce
  show ?thesis by (cases r; cases "projr r") (auto simp: unless_answered_def obind_def oreturn_def m)
qed

lemma read_challenge_ok:
  "read_challenge env i key st = (Inr (Inr x), st') \<longleftrightarrow>
     (\<exists>raw s. autocommit (GET key) (id_rd st) = (Inr raw, s) \<and> decode_challenge env raw = Some (x, request_fingerprint env i) \<and>
        st' = st\<lparr>id_rd := s\<rparr>)"
proof -
  obtain r s1 where g: "autocommit (GET key) (id_rd st) = (r, s1)" by fastforce
  show ?thesis
  proof (cases r)
    case (Inl e)
    with g show ?thesis by (simp add: read_challenge_def answering_def on_redis_def)
  next
    case (Inr raw)
    with g show ?thesis
      by (cases "decode_challenge env raw") (auto simp: read_challenge_def answering_def on_redis_def op_ok oreturn_def split: if_splits)
  qed
qed

lemma read_challenge_fails: "read_challenge env i key st \<noteq> (Inr (Inl (200, b)), st')"
  using drop_challenge_fails
  by (auto simp: read_challenge_def answering_ok op_ok challenge_failed_def invalid_challenge_def split: option.splits if_splits)

lemma begin_verify_ok:
  "begin_verify env i (Some (c, code)) st = (Inr (Inr (key, x, code')), st') \<longleftrightarrow>
     trim_space c \<noteq> [] \<and> trim_space code \<noteq> [] \<and> key = challenge_key env (trim_space c) \<and> code' = trim_space code \<and>
     read_challenge env i key st = (Inr (Inr x), st')"
proof (cases "trim_space c = [] \<or> trim_space code = []")
  case True
  then show ?thesis by (auto simp: begin_verify_def oreturn_def)
next
  case False
  obtain r s1 where g: "read_challenge env i (challenge_key env (trim_space c)) st = (r, s1)" by fastforce
  from False show ?thesis by (cases r; cases "projr r") (auto simp: begin_verify_def Let_def obind_def oreturn_def g)
qed

lemma begin_verify_fails: "begin_verify env i q st \<noteq> (Inr (Inl (200, b)), st')"
  using read_challenge_fails
  by (auto simp: begin_verify_def Let_def op_ok split: sum.splits option.splits if_splits)

lemma check_code_ok:
  "check_code env i x code st = (Inr (Inr y), st') \<longleftrightarrow>
     (\<exists>s. RateLimitCheck True (''mfa:user:'' @ id_digest env x) 5 (10 * 60 * second) (id_rd st) = (Inr True, s) \<and>
        VerifyMFA env i x code (st\<lparr>id_rd := s\<rparr>) = (Inr True, st'))"
  by (auto simp: check_code_def limited_def answering_ok on_redis_ok op_ok split: if_splits)

lemma check_code_fails: "check_code env i x code st \<noteq> (Inr (Inl (200, b)), st')"
  by (auto simp: check_code_def limited_def answering_ok op_ok split: if_splits)

lemma redeem_ok:
  assumes "redeem env i key x st = (Inr (200, b), st')"
  obtains s3 t where "autocommit (DEL key) (id_rd st) = (Inr (), s3)" "access_token env i x = Inr t"
    "with_refresh env i x (\<lambda>r. answering (ExportData env x) (\<lambda>_. (500, IError ''ERR_INTERNAL'' ''Unable to load account'')) (\<lambda>(u, _).
       oreturn (200, SessionBody u t r))) (st\<lparr>id_rd := s3\<rparr>) = (Inr (200, b), st')"
  using assms unfolding redeem_def
  by (auto simp: op_ok on_redis_ok from_res_def no_session_def challenge_failed_def split: if_splits elim!: answering_200)

lemma verify_ok:
  assumes "handle_Verify env i (Some (c, code)) st = (Inr (200, b), st')"
  obtains raw x s0 s1 st2 where
    "autocommit (GET (challenge_key env (trim_space c))) (id_rd st) = (Inr raw, s0)"
    "decode_challenge env raw = Some (x, request_fingerprint env i)"
    "RateLimitCheck True (''mfa:user:'' @ id_digest env x) 5 (10 * 60 * second) s0 = (Inr True, s1)"
    "VerifyMFA env i x (trim_space code) (st\<lparr>id_rd := s1\<rparr>) = (Inr True, st2)"
    "redeem env i (challenge_key env (trim_space c)) x st2 = (Inr (200, b), st')"
proof -
  from assms begin_verify_fails [of env i "Some (c, code)" st b st'] obtain key x code' st1 where
    1: "begin_verify env i (Some (c, code)) st = (Inr (Inr (key, x, code')), st1)"
    and 2: "unless_answered (check_code env i x code') (\<lambda>_. redeem env i key x) st1 = (Inr (200, b), st')"
    by (auto simp: handle_Verify_def unless_answered_ok)
  from 2 check_code_fails [of env i x code' st1 b st'] obtain st2 where
    "check_code env i x code' st1 = (Inr (Inr ()), st2)" "redeem env i key x st2 = (Inr (200, b), st')"
    by (auto simp: unless_answered_ok)
  with 1 that show thesis by (auto simp: begin_verify_ok read_challenge_ok check_code_ok)
qed

section \<open>A challenge is used once\<close>

definition gone :: "string \<Rightarrow> redis \<Rightarrow> redis \<Rightarrow> bool" where
  "gone k r r' \<longleftrightarrow> (store r k = None \<longrightarrow> store r' k = None)"

interpretation gone: evolution "gone k" for k
  by unfold_locales (auto simp: gone_def)

text \<open>The operation does not create the challenge.\<close>

definition spares :: "string \<Rightarrow> 'a id_op \<Rightarrow> bool" where
  "spares d m \<longleftrightarrow> op_moves id_rd (gone (''mfa:challenge:'' @ d)) (\<lambda>_. True) m (\<lambda>_ _. True)"

named_theorems spares_intros \<open>operations that do not create a challenge\<close>

lemma spares_monad [spares_intros]:
  "spares d (oreturn a)" "spares d (ofail e)"
  "spares d m \<Longrightarrow> (\<And>x. spares d (k x)) \<Longrightarrow> spares d (obind m k)"
  "spares d m \<Longrightarrow> spares d (omap_err g m)" "spares d m \<Longrightarrow> spares d (otry m)"
  unfolding spares_def
  by (rule gone.op_moves_return, simp, rule gone.op_moves_fail, rule gone.op_moves_bind, assumption+,
      rule gone.op_moves_map_err, assumption, rule gone.op_moves_try, assumption)

lemma spares_cases [spares_intros]:
  "spares d m \<Longrightarrow> spares d m' \<Longrightarrow> spares d (if b then m else m')"
  "(\<And>e. spares d (f e)) \<Longrightarrow> (\<And>x. spares d (h x)) \<Longrightarrow> spares d (case z of Inl e \<Rightarrow> f e | Inr x \<Rightarrow> h x)"
  "spares d m \<Longrightarrow> (\<And>y. spares d (k y)) \<Longrightarrow> spares d (case o' of None \<Rightarrow> m | Some y \<Rightarrow> k y)"
  "(\<And>x y. spares d (c x y)) \<Longrightarrow> spares d (case p of (x, y) \<Rightarrow> c x y)"
  by (simp_all split: sum.split option.split prod.split)

lemma spares_on_sql [spares_intros]: "spares d (on_sql m)"
  by (auto simp: spares_def op_moves_def on_sql_def gone_def split: prod.splits)

lemma spares_local [spares_intros]: "spares d (from_res r)" "spares d (RegisterDevice x fp)" "spares d (VerifyDeviceFingerprint x fp)"
  by (auto simp: spares_def op_moves_def from_res_def RegisterDevice_def VerifyDeviceFingerprint_def ofail_def gone_def
      Let_def split: if_splits)

lemma spares_on_redis:
  assumes "\<And>s r s'. m s = (r, s') \<Longrightarrow> gone (''mfa:challenge:'' @ d) (durable s) (durable s')"
  shows "spares d (on_redis m)"
  using assms by (auto simp: spares_def op_moves_def on_redis_def split: prod.splits)

lemma spares_command:
  assumes "\<And>r a r'. f r = Inr (a, r') \<Longrightarrow> gone (''mfa:challenge:'' @ d) r r'"
  shows "spares d (on_redis (autocommit f))"
proof (rule spares_on_redis)
  fix s r s'
  assume "autocommit f s = (r, s')"
  from autocommit_cases(1) [OF this] assms show "gone (''mfa:challenge:'' @ d) (durable s) (durable s')"
    by (auto simp: gone_def)
qed

lemma spares_redis [spares_intros]:
  "k \<noteq> ''mfa:challenge:'' @ d \<Longrightarrow> spares d (on_redis (autocommit (SET k v t)))"
  "spares d (on_redis (autocommit (GET k')))" "spares d (on_redis (autocommit (DEL k')))"
  by (rule spares_command, auto simp: gone_def SET_def GET_def DEL_def rset_def rdel_def split: option.splits rval.splits)+

lemma spares_limit [spares_intros]: "spares d (on_redis (RateLimitCheck True key n w))"
proof (rule spares_on_redis)
  fix s r s'
  assume "RateLimitCheck True key n w s = (r, s')"
  from RateLimitCheck_untouched [OF this, of "''mfa:challenge:'' @ d"]
  show "gone (''mfa:challenge:'' @ d) (durable s) (durable s')" by (simp add: untouched_def gone_def)
qed

lemma spares_store [spares_intros]: "spares d (on_redis (StoreRefreshTokenV2 h True x t e))"
proof (cases "x = [] \<or> t = [] \<or> e \<le> 0")
  case True
  then show ?thesis by (auto simp: StoreRefreshTokenV2_def intro!: spares_on_redis simp: dfail_def gone_def)
next
  case False
  then have "StoreRefreshTokenV2 h True x t e = autocommit (SET (refreshV2Key h t) x (Some (format_ms e)))"
    by (auto simp: StoreRefreshTokenV2_def)
  then show ?thesis using spares_redis(1) by (simp add: refreshV2Key_def)
qed

lemma spares_rotate [spares_intros]: "spares d (RotateRefreshToken env old new e)"
  unfolding RotateRefreshToken_def
proof (rule spares_on_redis)
  fix s r s'
  assume run: "RotateRefreshTokenV2 (id_url_digest env) True old new e s = (r, s')"
  from Rotate_state [OF run] show "gone (''mfa:challenge:'' @ d) (durable s) (durable s')"
  proof
    assume "\<exists>x. rotate_script (refreshV2Key (id_url_digest env) old) (legacyKey old) (refreshV2Key (id_url_digest env) new)
      (e div sec) (durable s) = Inr (x, durable s')"
    then obtain x where "rotate_script (refreshV2Key (id_url_digest env) old) (legacyKey old) (refreshV2Key (id_url_digest env) new)
      (e div sec) (durable s) = Inr (x, durable s')" ..
    from rotate_script_cases [OF this] show ?thesis
      by (auto simp: gone_def rset_def rdel_def refreshV2Key_def legacyKey_def split: if_splits)
  qed (simp add: gone_def)
qed

lemma spares_scanned [spares_intros]: "(\<And>u. spares d (k u)) \<Longrightarrow> spares d (scanned env x k)"
  by (auto simp: scanned_def intro!: spares_intros)

lemma spares_answering [spares_intros]:
  assumes "spares d m" and "\<And>x. spares d (k x)"
  shows "spares d (answering m g k)"
proof -
  have "answering m g k = obind (otry m) (\<lambda>r. case r of Inl e \<Rightarrow> oreturn (g e) | Inr x \<Rightarrow> k x)"
    by (auto simp: answering_def obind_def otry_def oreturn_def fun_eq_iff split: prod.splits sum.splits)
  with assms show ?thesis by (auto intro!: spares_intros)
qed

lemma spares_with_refresh [spares_intros]: "(\<And>r. spares d (k r)) \<Longrightarrow> spares d (with_refresh env i x k)"
  unfolding with_refresh_def by (intro spares_intros)

lemma spares_limited [spares_intros]: "spares d k \<Longrightarrow> spares d (limited key n w un re k)"
  unfolding limited_def by (intro spares_intros)

lemma spares_repository [spares_intros]:
  "spares d (hydrateRuntimeState env u)" "spares d (GetUserByIdentifier env x)" "spares d (drop_copy x)"
  "spares d (CreateUser env i u)" "spares d (UpdateMFA env x on secret)" "spares d (CreateSession env i s)"
  "spares d (GetSessions env x)" "spares d (IncrementFailedLogin env i x)" "spares d (ResetFailedLogin env i x)"
  "spares d (LockAccount env i x t)" "spares d (token_op msg t')"
  unfolding hydrateRuntimeState_def GetUserByIdentifier_def drop_copy_def CreateUser_def UpdateMFA_def CreateSession_def
    GetSessions_def IncrementFailedLogin_def ResetFailedLogin_def LockAccount_def token_op_def Let_def
  by (intro spares_intros)+

lemma spares_load [spares_intros]: "spares d (load_user env x)"
  unfolding load_user_def by (intro spares_intros) (simp add: user_key_def)

lemma spares_get [spares_intros]: "spares d (GetUserByID env x)" "spares d (UpdateUser env i u)"
  unfolding GetUserByID_def UpdateUser_def by (intro spares_intros)+

lemma spares_blacklist [spares_intros]: "spares d (repo_BlacklistToken t e)"
  unfolding repo_BlacklistToken_def by (intro spares_intros) (simp add: bl_key_def)

lemma spares_risk [spares_intros]: "spares d (AssessRisk env i x)"
proof -
  have "spares d (\<lambda>st. obind (otry (GetSessions env x)) (\<lambda>ss. oreturn (f (id_devices st) ss)) st)" for f
  proof -
    have "spares d (obind (otry (GetSessions env x)) (\<lambda>ss. oreturn (f ds ss)))" for ds by (intro spares_intros)
    then show ?thesis by (simp add: spares_def op_moves_def)
  qed
  then show ?thesis unfolding AssessRisk_def Let_def .
qed

lemma spares_service [spares_intros]:
  "spares d (Register env i username email password sys)" "spares d (login_failed env i u :: 'a id_op)"
  "spares d (rehash env i password u)" "spares d (open_session env i device u)"
  "spares d (SetupMFA env i x)" "spares d (VerifyMFA env i x code)" "spares d (ExportData env x)"
  "spares d (Logout i tok e)" "spares d (RefreshToken env i old)"
  unfolding Register_def login_failed_def rehash_def open_session_def SetupMFA_def VerifyMFA_def ExportData_def Logout_def
    RefreshToken_def
  by (intro spares_intros)+

lemma spares_Login [spares_intros]: "spares d (Login env i x password device)"
  unfolding Login_def by (intro spares_intros)

text \<open>Only a sign-in stores a challenge, under the digest of the value it draws.\<close>

definition draws :: "identity_env \<Rightarrow> string \<Rightarrow> identity_input \<times> identity_call \<Rightarrow> bool" where
  "draws env d q \<longleftrightarrow>
     (case q of (i, LoginReq _) \<Rightarrow> (case in_refresh i of Inr v \<Rightarrow> id_digest env v = d | Inl _ \<Rightarrow> False) | _ \<Rightarrow> False)"

lemma spares_finish:
  assumes "\<forall>v. in_refresh i = Inr v \<longrightarrow> id_digest env v \<noteq> d"
  shows "spares d (finish_login env i r)"
proof -
  have "answering (from_res z) g k = (case z of Inl e \<Rightarrow> oreturn (g e) | Inr v \<Rightarrow> k v)"
    for z :: "string res" and g and k :: "string \<Rightarrow> answer id_op"
    by (simp add: answering_def from_res_def oreturn_def fun_eq_iff split: sum.split)
  with assms show ?thesis unfolding finish_login_def
    by (cases r; cases "in_refresh i"; simp add: challenge_key_def; intro impI conjI spares_intros; simp)
qed

lemma spares_verify [spares_intros]:
  "spares d (read_challenge env i key)" "spares d (begin_verify env i q)" "spares d (check_code env i x code)"
  "spares d (redeem env i key x)" "spares d (continue_verify env now v)"
proof -
  show 1: "spares d (read_challenge env i key)" for key
    unfolding read_challenge_def drop_challenge_def by (intro spares_intros)
  show "spares d (begin_verify env i q)" unfolding begin_verify_def Let_def by (intro spares_intros 1)
  show 2: "spares d (check_code env i x code)" for i x code unfolding check_code_def by (intro spares_intros)
  show 3: "spares d (redeem env i key x)" for i key x unfolding redeem_def by (intro spares_intros)
  show "spares d (continue_verify env now v)" by (cases v) (auto intro!: spares_intros 2 3)
qed

lemma spares_handlers:
  "spares d (handle_Register env i q1)" "spares d (handle_Verify env i q2)" "spares d (handle_Refresh env i q3)"
  "spares d (handle_SetupMFA env i x)" "spares d (handle_Me env x)" "spares d (handle_Logout i t e)"
  unfolding handle_Register_def handle_Verify_def handle_Refresh_def handle_SetupMFA_def handle_Me_def handle_Logout_def
    unless_answered_def Let_def
  by (intro spares_intros)+

lemma spares_identity:
  assumes "\<not> draws env d (i, c)"
  shows "spares d (handle_identity env i c)"
proof (cases c)
  case (LoginReq q)
  with assms have "\<forall>v. in_refresh i = Inr v \<longrightarrow> id_digest env v \<noteq> d" by (auto simp: draws_def)
  from spares_finish [OF this] LoginReq show ?thesis
    by (auto simp: handle_Login_def Let_def intro!: spares_intros)
qed (simp_all add: spares_handlers)

definition draws_step :: "identity_env \<Rightarrow> string \<Rightarrow> identity_input \<times> identity_step \<Rightarrow> bool" where
  "draws_step env d = (\<lambda>(i, a). case a of Whole c \<Rightarrow> draws env d (i, c) | _ \<Rightarrow> False)"

text \<open>Once a challenge is not stored, no operation brings it back.\<close>

definition spent_challenge :: "string \<Rightarrow> identity_state \<Rightarrow> bool" where
  "spent_challenge d st \<longleftrightarrow> store (durable (id_rd st)) (''mfa:challenge:'' @ d) = None"

lemma spares_spent: "spares d m \<Longrightarrow> spent_challenge d st \<Longrightarrow> m st = (r, st') \<Longrightarrow> spent_challenge d st'"
  using op_movesD [of id_rd "gone (''mfa:challenge:'' @ d)" "\<lambda>_. True" m "\<lambda>_ _. True" st]
  by (simp add: spares_def spent_challenge_def gone_def)

lemma before_spent [simp]: "spent_challenge d (before i so ro st) = spent_challenge d st"
  by (simp add: spent_challenge_def before_def at_time_def)

text \<open>A redeemed challenge is gone, and one that is gone cannot be read.\<close>

lemma redeem_spends:
  assumes "redeem env i (challenge_key env c) x st = (Inr (200, b), st')"
  shows "spent_challenge (id_digest env c) st'"
proof -
  from assms obtain s3 t where del: "autocommit (DEL (challenge_key env c)) (id_rd st) = (Inr (), s3)"
    and rest: "with_refresh env i x (\<lambda>r. answering (ExportData env x) (\<lambda>_. (500, IError ''ERR_INTERNAL'' ''Unable to load account''))
       (\<lambda>(u, _). oreturn (200, SessionBody u t r))) (st\<lparr>id_rd := s3\<rparr>) = (Inr (200, b), st')"
    by (rule redeem_ok)
  have "spent_challenge (id_digest env c) (st\<lparr>id_rd := s3\<rparr>)"
    using autocommit_cases(2) [OF del refl] by (auto simp: spent_challenge_def DEL_def rdel_def challenge_key_def dest: sym)
  moreover have "spares (id_digest env c) (with_refresh env i x (\<lambda>r. answering (ExportData env x)
      (\<lambda>_. (500, IError ''ERR_INTERNAL'' ''Unable to load account'')) (\<lambda>(u, _). oreturn (200, SessionBody u t r))))"
    by (intro spares_intros)
  ultimately show ?thesis using rest spares_spent by blast
qed

lemma spent_not_read:
  assumes "spent_challenge (id_digest env c) st"
  shows "read_challenge env i (challenge_key env c) st \<noteq> (Inr (Inr x), st')"
proof
  assume "read_challenge env i (challenge_key env c) st = (Inr (Inr x), st')"
  then obtain raw s where g: "autocommit (GET (challenge_key env c)) (id_rd st) = (Inr raw, s)" by (auto simp: read_challenge_ok)
  from autocommit_cases(2) [OF g refl] assms show False by (simp add: GET_def rlookup_def spent_challenge_def challenge_key_def)
qed

lemma waiting_simps:
  "waiting key (vs @ [v]) = waiting key vs + (if challenge_of v = key then 1 else 0)"
  "n < length vs \<Longrightarrow> waiting key (remove_nth n vs) + (if challenge_of (vs ! n) = key then 1 else 0) = waiting key vs"
  "n < length vs \<Longrightarrow> challenge_of v = challenge_of (vs ! n) \<Longrightarrow> waiting key (vs[n := v]) = waiting key vs"
proof -
  show "waiting key (vs @ [v]) = waiting key vs + (if challenge_of v = key then 1 else 0)" by (simp add: waiting_def)
  assume n: "n < length vs"
  from arg_cong [OF id_take_nth_drop [OF n], of "waiting key"]
  show "waiting key (remove_nth n vs) + (if challenge_of (vs ! n) = key then 1 else 0) = waiting key vs"
    by (simp add: waiting_def remove_nth_def split: if_splits)
  assume "challenge_of v = challenge_of (vs ! n)"
  with arg_cong [OF id_take_nth_drop [OF n], of "waiting key"] show "waiting key (vs[n := v]) = waiting key vs"
    by (simp add: waiting_def upd_conv_take_nth_drop [OF n])
qed

lemma sessions_simps [simp]:
  "sessions_opened key [] = 0" "sessions_opened key (l @ ls) = sessions_opened key l + sessions_opened key ls"
  "sessions_opened key [(k, r)] = (if is_session key (k, r) then 1 else 0)"
  by (simp_all add: sessions_opened_def)

lemma is_sessionD: "is_session key (k, r) \<Longrightarrow> k = key \<and> (\<exists>b. r = Inr (200, b))"
  by (auto simp: is_session_def split: sum.splits)

lemma continue_read:
  "continue_verify env now (HasRead i key x code) st = (Inr z, st') \<longleftrightarrow>
     (\<exists>a. check_code env (i\<lparr>in_now := now\<rparr>) x code st = (Inr (Inl a), st') \<and> z = Inr a) \<or>
     check_code env (i\<lparr>in_now := now\<rparr>) x code st = (Inr (Inr ()), st') \<and> z = Inl (HasChecked i key x)"
proof -
  obtain r s1 where g: "check_code env (i\<lparr>in_now := now\<rparr>) x code st = (r, s1)" by fastforce
  then show ?thesis by (cases r; cases "projr r") (auto simp: obind_def oreturn_def)
qed

lemma continue_checked:
  "continue_verify env now (HasChecked i key x) st = (Inr z, st') \<longleftrightarrow>
     (\<exists>a. redeem env (i\<lparr>in_now := now\<rparr>) key x st = (Inr a, st') \<and> z = Inr a)"
  by (auto simp: op_ok)

declare continue_verify.simps [simp del]

lemma continue_challenge: "continue_verify env now v st = (Inr (Inl w), st') \<Longrightarrow> challenge_of w = challenge_of v"
  by (cases v) (auto simp: continue_read continue_checked)

text \<open>A step that opens a session has redeemed the challenge.\<close>

lemma session_spends:
  assumes "step_identity env i a vs st = (l, vs', st')" and "0 < sessions_opened (challenge_key env c) l"
  shows "spent_challenge (id_digest env c) st'"
proof (cases a)
  case (Whole q)
  obtain r where h: "handle_identity env i q st = (r, st')" and l: "l = [(case q of VerifyReq q \<Rightarrow> verify_key env q | _ \<Rightarrow> [], r)]"
    using assms(1) Whole by (auto split: prod.splits)
  from assms(2) l obtain b where k: "(case q of VerifyReq q \<Rightarrow> verify_key env q | _ \<Rightarrow> []) = challenge_key env c" and r: "r = Inr (200, b)"
    by (auto split: if_splits dest: is_sessionD)
  from k obtain c' code where q: "q = VerifyReq (Some (c', code))" and c': "challenge_key env (trim_space c') = challenge_key env c"
    by (auto simp: challenge_key_def verify_key_def split: identity_call.splits option.splits)
  from h q r have "handle_Verify env i (Some (c', code)) st = (Inr (200, b), st')" by simp
  then show ?thesis by (rule verify_ok) (use c' redeem_spends in metis)
next
  case (Begin q)
  with assms begin_verify_fails show ?thesis by (fastforce split: prod.splits sum.splits if_splits dest: is_sessionD)
next
  case (Continue n)
  with assms have n: "n < length vs" by (auto split: if_splits)
  obtain z where z: "continue_verify env (in_now i) (vs ! n) st = (z, st')"
    using assms(1) Continue n by (auto split: prod.splits sum.splits)
  with assms Continue n obtain b where "z = Inr (Inr (200, b))" and k: "challenge_of (vs ! n) = challenge_key env c"
    by (auto split: sum.splits if_splits dest!: is_sessionD)
  with z check_code_fails obtain j x where "redeem env (j\<lparr>in_now := in_now i\<rparr>) (challenge_key env c) x st = (Inr (200, b), st')"
    by (cases "vs ! n") (auto simp: continue_read continue_checked)
  then show ?thesis by (rule redeem_spends)
qed

text \<open>After that a step opens a session only by letting a waiting verification go on, and none begins to wait.\<close>

lemma step_spent:
  assumes "spent_challenge (id_digest env c) st" and "\<not> draws_step env (id_digest env c) (i, a)"
    and "step_identity env i a vs st = (l, vs', st')"
  shows "spent_challenge (id_digest env c) st' \<and>
    sessions_opened (challenge_key env c) l + waiting (challenge_key env c) vs' \<le> waiting (challenge_key env c) vs"
proof (cases a)
  case (Whole q)
  obtain r where h: "handle_identity env i q st = (r, st')" and l: "l = [(case q of VerifyReq q \<Rightarrow> verify_key env q | _ \<Rightarrow> [], r)]"
    and vs: "vs' = vs"
    using assms(3) Whole by (auto split: prod.splits)
  have "spares (id_digest env c) (handle_identity env i q)"
    using assms(2) Whole by (intro spares_identity) (simp add: draws_step_def)
  from spares_spent [OF this assms(1) h] have "spent_challenge (id_digest env c) st'" .
  moreover have "\<not> is_session (challenge_key env c) (case q of VerifyReq q \<Rightarrow> verify_key env q | _ \<Rightarrow> [], r)"
  proof
    assume "is_session (challenge_key env c) (case q of VerifyReq q \<Rightarrow> verify_key env q | _ \<Rightarrow> [], r)"
    from is_sessionD [OF this] obtain b where k: "(case q of VerifyReq q \<Rightarrow> verify_key env q | _ \<Rightarrow> []) = challenge_key env c"
      and r: "r = Inr (200, b)" by blast
    from k obtain c' code where q: "q = VerifyReq (Some (c', code))" and c': "challenge_key env (trim_space c') = challenge_key env c"
      by (auto simp: challenge_key_def verify_key_def split: identity_call.splits option.splits)
    from h q r have "handle_Verify env i (Some (c', code)) st = (Inr (200, b), st')" by simp
    then obtain raw s0 where g: "autocommit (GET (challenge_key env c)) (id_rd st) = (Inr raw, s0)"
      by (rule verify_ok) (use c' in simp)
    from autocommit_cases(2) [OF g refl] assms(1) show False by (simp add: GET_def rlookup_def spent_challenge_def challenge_key_def)
  qed
  ultimately show ?thesis using l vs by simp
next
  case (Begin q)
  obtain z where z: "begin_verify env i q st = (z, st')" using assms(3) Begin by (auto split: prod.splits sum.splits)
  have "spent_challenge (id_digest env c) st'" by (rule spares_spent [OF spares_verify(2) assms(1) z])
  moreover have "challenge_key env c \<noteq> key" if "z = Inr (Inr (key, x, code))" for key x code
  proof (cases q)
    case None
    with z that show ?thesis by (simp add: begin_verify_def oreturn_def)
  next
    case (Some p)
    with z that show ?thesis using spent_not_read [OF assms(1)] by (cases p) (auto simp: begin_verify_ok)
  qed
  ultimately show ?thesis using assms(3) Begin z begin_verify_fails
    by (fastforce simp: waiting_simps(1) split: sum.splits if_splits dest: is_sessionD)
next
  case (Continue n)
  show ?thesis
  proof (cases "n < length vs")
    case True
    obtain z where z: "continue_verify env (in_now i) (vs ! n) st = (z, st')"
      using assms(3) Continue True by (auto split: prod.splits sum.splits)
    have "spent_challenge (id_digest env c) st'" by (rule spares_spent [OF spares_verify(5) assms(1) z])
    with assms(3) Continue True z continue_challenge waiting_simps(2) [OF True, where key = "challenge_key env c"]
      waiting_simps(3) [OF True, where key = "challenge_key env c"] show ?thesis
      by (auto split: sum.splits if_splits dest!: is_sessionD)
  next
    case False
    with assms Continue show ?thesis by simp
  qed
qed

lemma run_spent:
  assumes "spent_challenge (id_digest env c) st" and "list_all (\<lambda>(i, so, ro, a). \<not> draws_step env (id_digest env c) (i, a)) as"
  shows "sessions_opened (challenge_key env c) (fst (interleave env as vs st)) \<le> waiting (challenge_key env c) vs"
  using assms
proof (induction as arbitrary: vs st)
  case (Cons q as)
  obtain i so ro a where q: "q = (i, so, ro, a)" by (cases q)
  obtain l vs1 st1 where s: "step_identity env i a vs (before i so ro st) = (l, vs1, st1)" by (metis prod_cases3)
  obtain ls vs2 st2 where r: "interleave env as vs1 st1 = (ls, vs2, st2)" by (metis prod_cases3)
  from step_spent [OF _ _ s] Cons.prems q have "spent_challenge (id_digest env c) st1"
    and "sessions_opened (challenge_key env c) l + waiting (challenge_key env c) vs1 \<le> waiting (challenge_key env c) vs" by auto
  with Cons.IH [of st1 vs1] Cons.prems(2) q s r show ?case by simp
qed simp

text \<open>
  C18. Once a session has been opened from a challenge, no verification that begins later opens another one from it: the
  further sessions are at most as many as the verifications that had read the challenge by then and were waiting, so none
  when none was. This holds whatever requests of any kind come in between, however the verifications overlap with them, and
  whatever calls fail or lose their answers, as long as no sign-in draws the same random value again.
\<close>

theorem mfa_challenge_single_use:
  assumes "step_identity env i a vs st = (l, vs', st')" and "0 < sessions_opened (challenge_key env c) l"
    and "list_all (\<lambda>(j, so, ro, b). \<not> draws_step env (id_digest env c) (j, b)) as"
  shows "sessions_opened (challenge_key env c) (fst (interleave env as vs' st')) \<le> waiting (challenge_key env c) vs'"
  by (rule run_spent [OF session_spends [OF assms(1,2)] assms(3)])
section \<open>Behaviour worth knowing\<close>

text \<open>Without an auditor the row of a new account is inserted, and then the call panics.\<close>

lemma register_panics:
  assumes "\<not> id_auditor env" and "outcomes (id_db st) = []" and "in_user_id i \<notin> ac_id ` set (accounts (durable (id_db st)))"
  shows "\<exists>st' r. CreateUser env i u st = (Inl panicked, st') \<and> ac_id r = in_user_id i \<and> ac_hash r = u_hash u \<and>
    r \<in> set (accounts (durable (id_db st')))"
  using assms
  by (simp add: CreateUser_def create_user_stmt_def sql_insert_def op_monad on_sql_def autocommit_def next_outcome_def Let_def
      ex_disj_distrib conj_disj_distribL)

lemma copy_answers:
  assumes "rlookup (user_key x) (durable (id_rd st)) = Some (RStr raw)" and "id_unjson env raw = Some u"
    and "outcomes (id_rd st) = []"
  obtains v st' where "GetUserByID env x st = (Inr v, st')" "same_account v u"
proof -
  have "autocommit (GET (user_key x)) (id_rd st) = (Inr raw, id_rd st)"
    using assms(1,3) by (simp add: autocommit_def next_outcome_def GET_def)
  with assms(2) have "GetUserByID env x st = hydrateRuntimeState env u st"
    by (simp add: GetUserByID_def op_monad on_redis_def)
  moreover obtain r st' where h: "hydrateRuntimeState env u st = (r, st')" by fastforce
  ultimately show thesis using hydrate_result [OF h] that by metis
qed

text \<open>
  The copy of a user in Redis has no TOTP secret, and setting one up does not drop the copy: as long as it lives, a code
  is checked against the empty secret.
\<close>

lemma copy_has_no_secret:
  assumes "rlookup (user_key x) (durable (id_rd st)) = Some (RStr raw)" and "id_unjson env raw = Some u" and "u_secret u = []"
    and "outcomes (id_rd st) = []" and "u_mfa u"
  shows "fst (VerifyMFA env i x code st) = Inr (id_totp env code [] (in_now i))"
proof -
  from copy_answers [OF assms(1,2,4)] obtain v st' where "GetUserByID env x st = (Inr v, st')" and s: "same_account v u" by metis
  with same_account_fields [OF s] assms(3,5) show ?thesis by (simp add: VerifyMFA_def op_monad)
qed

text \<open>The count of failed sign-ins is read from the copy too, so an account with a recent copy is not locked.\<close>

lemma stale_copy_never_locks:
  assumes "rlookup (user_key (u_id u)) (durable (id_rd st)) = Some (RStr raw)" and "id_unjson env raw = Some w" and "u_failed w < 5"
    and "outcomes (id_rd st) = []"
  shows "fst (login_failed env i u st) = Inl invalid_credentials"
proof -
  obtain r st1 where i: "IncrementFailedLogin env i (u_id u) st = (r, st1)" by fastforce
  then have "id_rd st1 = id_rd st"
    by (auto simp: IncrementFailedLogin_def scanned_def on_sql_def ofail_def split: sum.splits prod.splits)
  with copy_answers [of "u_id u" st1] assms obtain v st2 where "GetUserByID env (u_id u) st1 = (Inr v, st2)" and s: "same_account v w"
    by metis
  with i same_account_fields [OF s] assms(3) show ?thesis by (simp add: login_failed_def op_monad)
qed

text \<open>The largest risk is the bound itself, so no sign-in is refused as too risky.\<close>

lemma never_high_risk:
  assumes "AssessRisk env i x st = (Inr risk, st')"
  shows "\<not> 0.8 < risk"
proof -
  have d: "device_risk ds fp \<le> 0.3" for ds fp by (simp add: device_risk_def)
  have t: "travel_risk s addr now \<le> 0.5" for s addr now by (simp add: travel_risk_def split: option.split)
  from assms have "\<exists>ss :: user_session list res. risk = min (case ss of
        Inl _ \<Rightarrow> device_risk (id_devices st x) (in_ip i @ [byte 0] @ in_agent i)
      | Inr ss \<Rightarrow> device_risk (id_devices st x) (in_ip i @ [byte 0] @ in_agent i) +
                 travel_risk (last_session ss None) (in_ip i) (in_now i)) 1"
    unfolding AssessRisk_def Let_def op_ok by blast
  then obtain ss :: "user_session list res" where "risk = min (case ss of Inl _ \<Rightarrow> device_risk (id_devices st x) (in_ip i @ [byte 0] @ in_agent i)
      | Inr ss \<Rightarrow> device_risk (id_devices st x) (in_ip i @ [byte 0] @ in_agent i) +
                 travel_risk (last_session ss None) (in_ip i) (in_now i)) 1" ..
  then show ?thesis
    using d [of "id_devices st x" "in_ip i @ [byte 0] @ in_agent i"] t [of "last_session (projr ss) None" "in_ip i" "in_now i"]
    by (cases ss) (auto simp: min_def split: if_splits)
qed

section \<open>A concrete run\<close>

definition demo_identity :: identity_env where
  "demo_identity =
     \<lparr>id_scan = (\<lambda>x. if x = ''u1'' then Inr 1 else Inl (Errorf ''uuid'')), id_show = (\<lambda>_. ''u1''), id_json = u_username,
      id_unjson = (\<lambda>_. None), id_challenge_json = (\<lambda>(x, fp). x @ fp), id_challenge_unjson = (\<lambda>s. Some (take 2 s, drop 2 s)),
      id_strength = (\<lambda>_ _. 4), id_key = flat_key, id_bcrypt = (\<lambda>h p. h = p), id_totp = (\<lambda>c s t. c = s),
      id_jwt = \<lparr>sign = (\<lambda>_ _ c. Inr (Subject c)), parse_with = (\<lambda>_ _ _ _ _. Inl (Errorf ''parse''))\<rparr>,
      id_digest = (\<lambda>s. s), id_url_digest = (\<lambda>s. s), id_jwt_secret = ''key'', id_sanitize = (\<lambda>s. s), id_mail = Some, id_auditor = False\<rparr>"

definition demo_request :: "string \<Rightarrow> identity_input" where
  "demo_request v = \<lparr>in_now = 1000000, in_user_id = 1, in_session_id = 2, in_salt = Inl (Errorf ''random''), in_token_id = Inr ''t'',
     in_refresh = Inr v, in_totp = (\<lambda>_. Inr (''s'', ''url'')), in_ip = ''a'', in_agent = ''b''\<rparr>"

definition demo_accounts :: identity_state where
  "demo_accounts =
     (let r = \<lparr>ac_id = 1, ac_username = ''ann'', ac_email = ''ann@x'', ac_hash = ''pw'', ac_avatar = None, ac_mfa = True,
               ac_secret = Some ''123456'', ac_failed = 0, ac_locked = None, ac_created = 0, ac_updated = 0\<rparr>;
          d = \<lparr>accounts = [r], sessions = [], presences = [], plocks = []\<rparr>
      in \<lparr>id_db = \<lparr>durable = d, view = d, aborted = False, outcomes = []\<rparr>,
          id_rd = demo_redis no_redis, id_devices = (\<lambda>_. [])\<rparr>)"

lemma demo_texts:
  "trim_space ''c1'' = ''c1''" "trim_space ''123456'' = ''123456''" "trim_space ''u1'' = ''u1''" "trim_space ''key'' = ''key''"
  "trim_space ''user'' = ''user''" "trim_space ''ann@x'' = ''ann@x''"
  by (simp_all add: trim_space_plain plain_byte_def)

lemma demo_mail_lower: "to_lower ''ann@x'' = ''ann@x''"
  by (rule to_lower_id) simp

lemma demo_fields:
  "id_scan demo_identity x = (if x = ''u1'' then Inr 1 else Inl (Errorf ''uuid''))" "id_show demo_identity k = ''u1''"
  "id_unjson demo_identity s = None" "id_json demo_identity w = u_username w"
  "id_challenge_unjson demo_identity s = Some (take 2 s, drop 2 s)" "id_challenge_json demo_identity p = (case p of (x, fp) \<Rightarrow> x @ fp)"
  "id_bcrypt demo_identity h q = (h = q)" "id_totp demo_identity c d now = (c = d)" "id_digest demo_identity s = s"
  "id_url_digest demo_identity s = s" "id_sanitize demo_identity s = s"
  "in_refresh (demo_request v) = Inr v" "in_now (demo_request v) = 1000000"
  by (simp_all add: demo_identity_def demo_request_def)

lemma demo_fp: "request_fingerprint demo_identity (demo_request v) = CHR ''a'' # byte 0 # ''b''"
  by (simp add: request_fingerprint_def GenerateFingerprint_def demo_identity_def demo_request_def)

lemma demo_token: "access_token demo_identity (demo_request v) ''u1'' = Inr ''u1''"
  by (simp add: access_token_def GenerateToken_def GenerateTokenWithPermissions_def demo_identity_def demo_request_def demo_texts)

text \<open>A state of the run: the account is as it was, and Redis works.\<close>

definition demo_row :: account where
  "demo_row = hd (accounts (durable (id_db demo_accounts)))"

definition demo_ready :: "int \<Rightarrow> identity_state \<Rightarrow> bool" where
  "demo_ready n st \<longleftrightarrow> id_db st = id_db demo_accounts \<and> outcomes (id_rd st) = [] \<and>
     (\<forall>v t. store (durable (id_rd st)) ''user:u1'' = Some (v, t) \<longrightarrow> (\<exists>x. v = RStr x)) \<and>
     (\<forall>v t. store (durable (id_rd st)) ''ratelimit:mfa:user:u1'' = Some (v, t) \<longrightarrow> (\<exists>m. v = RInt m \<and> 0 < m \<and> m \<le> n))"

lemma demo_before: "demo_ready n st \<Longrightarrow> demo_ready n (before i [] [] st)"
  by (simp add: demo_ready_def before_def at_time_def demo_accounts_def Let_def)

lemma demo_hydrate: "id_db st = id_db demo_accounts \<Longrightarrow> hydrateRuntimeState env u st = (Inr u, st)"
  by (cases st) (auto simp: hydrateRuntimeState_def op_monad on_sql_def autocommit_def next_outcome_def presence_stmt_def
      lock_state_stmt_def demo_accounts_def Let_def split: sum.split)

lemma demo_load:
  assumes "demo_ready n st"
  shows "\<exists>s. load_user demo_identity ''u1'' st = (Inr (mapUser demo_identity demo_row), st\<lparr>id_rd := s\<rparr>) \<and>
    demo_ready n (st\<lparr>id_rd := s\<rparr>)"
proof -
  let ?u = "mapUser demo_identity demo_row"
  have row: "autocommit (get_user_stmt 1) (id_db st) = (Inr demo_row, id_db st)"
    using assms by (simp add: demo_ready_def demo_row_def demo_accounts_def Let_def autocommit_def next_outcome_def get_user_stmt_def)
  moreover obtain s where s: "autocommit (SET (user_key ''u1'') (id_json demo_identity ?u) (Some (hour div 1000000))) (id_rd st) = (Inr (), s)"
    "demo_ready n (st\<lparr>id_rd := s\<rparr>)"
    using assms by (simp add: demo_ready_def autocommit_def next_outcome_def SET_def user_key_def rset_def)
  ultimately have "load_user demo_identity ''u1'' st = (Inr ?u, st\<lparr>id_rd := s\<rparr>)"
    using assms by (simp add: load_user_def scanned_def demo_fields op_monad on_sql_def on_redis_def demo_hydrate demo_ready_def)
  with s show ?thesis by blast
qed

lemma demo_get:
  assumes "demo_ready n st"
  shows "\<exists>s. GetUserByID demo_identity ''u1'' st = (Inr (mapUser demo_identity demo_row), st\<lparr>id_rd := s\<rparr>) \<and>
    demo_ready n (st\<lparr>id_rd := s\<rparr>)"
proof -
  obtain g where "autocommit (GET ''user:u1'') (id_rd st) = (g, id_rd st)"
  proof (cases "rlookup ''user:u1'' (durable (id_rd st))")
    case None
    with assms that show thesis by (simp add: demo_ready_def autocommit_def next_outcome_def GET_def)
  next
    case (Some v)
    then obtain t where "store (durable (id_rd st)) ''user:u1'' = Some (v, t)"
      by (auto simp: rlookup_def split: option.splits if_splits)
    with assms obtain raw where "v = RStr raw" by (auto simp: demo_ready_def)
    with Some assms that show thesis by (simp add: demo_ready_def autocommit_def next_outcome_def GET_def)
  qed
  then have "GetUserByID demo_identity ''u1'' st = load_user demo_identity ''u1'' st"
    by (simp add: GetUserByID_def op_monad on_redis_def user_key_def demo_fields split: sum.split)
  with demo_load [OF assms] show ?thesis by simp
qed

definition demo_challenged :: identity_state where
  "demo_challenged = demo_accounts
     \<lparr>id_rd := demo_redis (rset ''mfa:challenge:c1'' (RStr (''u1'' @ request_fingerprint demo_identity (demo_request ''r1''))) None no_redis)\<rparr>"

lemma demo_challenged_ready: "demo_ready 0 demo_challenged"
  by (simp add: demo_ready_def demo_challenged_def demo_redis_def no_redis_def rset_def)

text \<open>The three stretches of a verification with the right code.\<close>

lemma demo_begin:
  assumes "outcomes (id_rd st) = []"
    and "store (durable (id_rd st)) ''mfa:challenge:c1'' = store (durable (id_rd demo_challenged)) ''mfa:challenge:c1''"
  shows "begin_verify demo_identity (demo_request ''r1'') (Some (''c1'', ''123456'')) st =
    (Inr (Inr (''mfa:challenge:c1'', ''u1'', ''123456'')), st)"
proof -
  have "rlookup ''mfa:challenge:c1'' (durable (id_rd st)) = Some (RStr (''u1'' @ CHR ''a'' # byte 0 # ''b''))"
    using assms(2) by (simp add: rlookup_def demo_challenged_def demo_redis_def rset_def demo_fp)
  with assms(1) show ?thesis
    by (simp add: begin_verify_def read_challenge_def Let_def demo_texts challenge_key_def demo_fields answering_def on_redis_def
        autocommit_def next_outcome_def GET_def decode_challenge_def demo_fp op_monad)
qed

lemma demo_check:
  assumes "demo_ready n st" and "0 \<le> n" "n < 5"
  shows "\<exists>st'. check_code demo_identity (demo_request ''r1'') ''u1'' ''123456'' st = (Inr (Inr ()), st') \<and> demo_ready (n + 1) st'"
proof -
  have sec: "u_secret (mapUser demo_identity demo_row) = ''123456''" "u_mfa (mapUser demo_identity demo_row)"
    by (simp_all add: demo_row_def demo_accounts_def mapUser_def Let_def)
  have count: "rlookup ''ratelimit:mfa:user:u1'' (durable (id_rd st)) = None \<or>
      (\<exists>m t. store (durable (id_rd st)) ''ratelimit:mfa:user:u1'' = Some (RInt m, t) \<and> 0 < m \<and> m \<le> n \<and>
         rlookup ''ratelimit:mfa:user:u1'' (durable (id_rd st)) = Some (RInt m))"
    using assms(1) by (auto simp: demo_ready_def rlookup_def split: option.splits if_splits)
  obtain s1 where 1: "RateLimitCheck True ''mfa:user:u1'' 5 (10 * 60 * second) (id_rd st) = (Inr True, s1)"
    and r1: "demo_ready (n + 1) (st\<lparr>id_rd := s1\<rparr>)"
    using assms count
    by (auto simp: demo_ready_def RateLimitCheck_def second_def dbind_def dreturn_def autocommit_def next_outcome_def
        incr_expire_def sbind_def sreturn_def INCR_def EXPIRE_def rset_def rdel_def rlookup_def)
  from demo_get [OF r1] obtain s2 where "GetUserByID demo_identity ''u1'' (st\<lparr>id_rd := s1\<rparr>) =
      (Inr (mapUser demo_identity demo_row), st\<lparr>id_rd := s2\<rparr>)" and r2: "demo_ready (n + 1) (st\<lparr>id_rd := s2\<rparr>)" by auto
  with 1 have "check_code demo_identity (demo_request ''r1'') ''u1'' ''123456'' st = (Inr (Inr ()), st\<lparr>id_rd := s2\<rparr>)"
    by (simp add: check_code_def limited_def answering_def on_redis_def VerifyMFA_def op_monad sec demo_fields)
  with r2 show ?thesis by blast
qed

lemma demo_redeem:
  assumes "demo_ready n st"
  shows "\<exists>b st'. redeem demo_identity (demo_request ''r1'') ''mfa:challenge:c1'' ''u1'' st = (Inr (200, b), st') \<and> demo_ready n st'"
proof -
  obtain s2 where 2: "autocommit (DEL ''mfa:challenge:c1'') (id_rd st) = (Inr (), s2)" and r2: "demo_ready n (st\<lparr>id_rd := s2\<rparr>)"
    using assms by (simp add: demo_ready_def autocommit_def next_outcome_def DEL_def rdel_def)
  obtain s3 where 3: "StoreRefreshTokenV2 (id_url_digest demo_identity) True ''u1'' ''r1'' month s2 = (Inr (), s3)"
    and r3: "demo_ready n (st\<lparr>id_rd := s3\<rparr>)"
    using r2 by (simp add: demo_ready_def StoreRefreshTokenV2_def month_def hour_def second_def autocommit_def next_outcome_def SET_def
        refreshV2Key_def rset_def)
  from demo_get [OF r3] obtain s4 where 4: "GetUserByID demo_identity ''u1'' (st\<lparr>id_rd := s3\<rparr>) =
      (Inr (mapUser demo_identity demo_row), st\<lparr>id_rd := s4\<rparr>)" and r4: "demo_ready n (st\<lparr>id_rd := s4\<rparr>)" by auto
  have sessions: "id_db (st\<lparr>id_rd := s4\<rparr>) = id_db demo_accounts" using r4 by (simp add: demo_ready_def)
  obtain ss where 5: "GetSessions demo_identity ''u1'' (st\<lparr>id_rd := s4\<rparr>) = (ss, st\<lparr>id_rd := s4\<rparr>)"
    using sessions by (cases st) (auto simp: GetSessions_def scanned_def demo_fields on_sql_def autocommit_def next_outcome_def
        user_sessions_stmt_def demo_accounts_def Let_def op_monad)
  have "\<exists>b. redeem demo_identity (demo_request ''r1'') ''mfa:challenge:c1'' ''u1'' st = (Inr (200, b), st\<lparr>id_rd := s4\<rparr>)"
    by (simp add: redeem_def answering_def op_monad 2 3 4 5 demo_fields demo_token on_redis_def from_res_def
        with_refresh_def ExportData_def)
  with r4 show ?thesis by blast
qed

lemma demo_verify:
  "\<exists>b st'. handle_Verify demo_identity (demo_request ''r1'') (Some (''c1'', ''123456'')) demo_challenged = (Inr (200, b), st')"
proof -
  have 1: "begin_verify demo_identity (demo_request ''r1'') (Some (''c1'', ''123456'')) demo_challenged =
      (Inr (Inr (''mfa:challenge:c1'', ''u1'', ''123456'')), demo_challenged)"
    by (rule demo_begin) (simp_all add: demo_challenged_def demo_redis_def)
  from demo_check [OF demo_challenged_ready] obtain st1 where
    2: "check_code demo_identity (demo_request ''r1'') ''u1'' ''123456'' demo_challenged = (Inr (Inr ()), st1)" and "demo_ready 1 st1" by auto
  from demo_redeem [OF this(2)] 1 2 show ?thesis by (auto simp: handle_Verify_def unless_answered_def op_monad)
qed

text \<open>A sign-in with the right password.\<close>

lemma demo_login:
  "\<exists>st'. handle_Login demo_identity (demo_request ''c1'') (Some (''ann@x'', ''pw'', [], [])) demo_accounts =
     (Inr (200, ChallengeBody ''u1'' ''c1''), st')"
proof -
  let ?i = "demo_request ''c1''" and ?u = "mapUser demo_identity demo_row"
  obtain s1 where 1: "RateLimitCheck True ''login:ann@x'' 10 (15 * 60 * second) (id_rd demo_accounts) = (Inr True, s1)" "outcomes s1 = []"
    by (simp add: demo_accounts_def Let_def demo_redis_def RateLimitCheck_def second_def dbind_def dreturn_def autocommit_def
        next_outcome_def incr_expire_def sbind_def sreturn_def INCR_def EXPIRE_def no_redis_def rlookup_def rset_def)
  have "autocommit (by_identifier_stmt ''ann@x'') (id_db demo_accounts) = (Inr demo_row, id_db demo_accounts)"
    by (simp add: demo_row_def demo_accounts_def Let_def autocommit_def next_outcome_def by_identifier_stmt_def)
  then have 2: "GetUserByIdentifier demo_identity ''ann@x'' (demo_accounts\<lparr>id_rd := s1\<rparr>) = (Inr ?u, demo_accounts\<lparr>id_rd := s1\<rparr>)"
    by (simp add: GetUserByIdentifier_def op_monad on_sql_def demo_hydrate)
  have u: "u_id ?u = ''u1''" "u_locked ?u = None" "u_failed ?u = 0" "u_hash ?u = ''pw''" "u_mfa ?u"
    by (simp_all add: demo_row_def demo_accounts_def mapUser_def Let_def demo_fields)
  have 3: "rehash demo_identity ?i ''pw'' ?u = oreturn ?u"
    by (simp add: rehash_def u has_prefix_def argon_prefix_def HashPassword_def demo_request_def Let_def)
  have 4: "Login demo_identity ?i ''ann@x'' ''pw'' [] (demo_accounts\<lparr>id_rd := s1\<rparr>) = (Inr (?u, [], True), demo_accounts\<lparr>id_rd := s1\<rparr>)"
    by (simp add: Login_def 2 3 u password_matches_def has_prefix_def argon_prefix_def demo_fields op_monad)
  obtain s2 where 5: "autocommit (SET ''mfa:challenge:c1'' [CHR ''u'', CHR ''1'', CHR ''a'', byte 0, CHR ''b''] (Some 300000)) s1 = (Inr (), s2)"
    using 1 by (simp add: autocommit_def next_outcome_def SET_def)
  have 6: "finish_login demo_identity ?i (?u, [], True) (demo_accounts\<lparr>id_rd := s1\<rparr>) =
      (Inr (200, ChallengeBody ''u1'' ''c1''), demo_accounts\<lparr>id_rd := s2\<rparr>)"
    by (simp add: finish_login_def answering_def from_res_def demo_fields challenge_key_def demo_fp u on_redis_def 5 oreturn_def)
  have 7: "answering (Login demo_identity ?i ''ann@x'' ''pw'' []) (\<lambda>_. (401, IError ''ERR_AUTH_FAILED'' ''Invalid credentials''))
      (finish_login demo_identity ?i) (demo_accounts\<lparr>id_rd := s1\<rparr>) = (Inr (200, ChallengeBody ''u1'' ''c1''), demo_accounts\<lparr>id_rd := s2\<rparr>)"
    by (simp add: answering_def 4 6)
  have 8: "on_redis (RateLimitCheck True ''login:ann@x'' 10 (15 * 60 * second)) demo_accounts = (Inr True, demo_accounts\<lparr>id_rd := s1\<rparr>)"
    unfolding on_redis_def 1 by simp
  have 9: "login_key demo_identity ''ann@x'' = ''login:ann@x''" by (simp add: login_key_def demo_fields)
  have "handle_Login demo_identity ?i (Some (''ann@x'', ''pw'', [], [])) =
      limited ''login:ann@x'' 10 (15 * 60 * second)
       (503, IError ''AUTH_LIMIT_UNAVAILABLE'' ''Authentication service unavailable'')
       (429, IError ''AUTH_RATE_LIMITED'' ''Too many authentication attempts'')
       (answering (Login demo_identity ?i ''ann@x'' ''pw'' [])
          (\<lambda>_. (401, IError ''ERR_AUTH_FAILED'' ''Invalid credentials'')) (finish_login demo_identity ?i))"
    unfolding handle_Login_def Let_def option.case prod.case demo_fields demo_texts demo_mail_lower 9 trim_space_Nil by simp
  moreover have "limited ''login:ann@x'' 10 (15 * 60 * second) un re k demo_accounts = k (demo_accounts\<lparr>id_rd := s1\<rparr>)" for un re :: answer and k
    unfolding limited_def answering_def 8 by simp
  ultimately show ?thesis using 7 by simp
qed

lemma login_answers_authentic_witness: "\<exists>a\<in>set (accounts (durable (id_db demo_accounts))). ac_email a = ''ann@x'' \<and> ac_hash a = ''pw'' \<and> ac_mfa a"
proof -
  obtain st' where run: "handle_Login demo_identity (demo_request ''c1'') (Some (''ann@x'', ''pw'', [], [])) demo_accounts =
     (Inr (200, ChallengeBody ''u1'' ''c1''), st')" using demo_login by blast
  from login_answers_authentic [OF this] show ?thesis
    by (simp add: demo_accounts_def Let_def demo_fields demo_texts demo_mail_lower)
qed


lemma mfa_challenge_single_use_witness:
  "\<exists>l st'. step_identity demo_identity (demo_request ''r1'') (Whole (VerifyReq (Some (''c1'', ''123456'')))) [] demo_challenged =
       (l, [], st') \<and> sessions_opened ''mfa:challenge:c1'' l = 1 \<and>
     sessions_opened ''mfa:challenge:c1'' (fst (interleave demo_identity
        [(demo_request ''c2'', [], [], Whole (LoginReq (Some (''ann@x'', ''pw'', [], [])))),
         (demo_request ''r1'', [], [], Begin (Some (''c1'', ''123456''))), (demo_request ''r1'', [], [], Continue 0)] [] st')) = 0"
proof -
  let ?as = "[(demo_request ''c2'', [] :: outcome list, [] :: outcome list, Whole (LoginReq (Some (''ann@x'', ''pw'', [], [])))),
         (demo_request ''r1'', [], [], Begin (Some (''c1'', ''123456''))), (demo_request ''r1'', [], [], Continue 0)]"
  obtain b st' where run: "handle_Verify demo_identity (demo_request ''r1'') (Some (''c1'', ''123456'')) demo_challenged = (Inr (200, b), st')"
    using demo_verify by blast
  have key: "challenge_key demo_identity ''c1'' = ''mfa:challenge:c1''" by (simp add: challenge_key_def demo_fields)
  have s: "step_identity demo_identity (demo_request ''r1'') (Whole (VerifyReq (Some (''c1'', ''123456'')))) [] demo_challenged =
      ([(''mfa:challenge:c1'', Inr (200, b))], [], st')"
    by (simp add: run verify_key_def demo_texts key)
  have d: "list_all (\<lambda>(j, so, ro, a). \<not> draws_step demo_identity (id_digest demo_identity ''c1'') (j, a)) ?as"
    by (simp add: draws_step_def draws_def demo_fields)
  have "sessions_opened (challenge_key demo_identity ''c1'') (fst (interleave demo_identity ?as [] st'))
      \<le> waiting (challenge_key demo_identity ''c1'') []"
    by (rule mfa_challenge_single_use [OF s _ d]) (simp add: key is_session_def)
  with s show ?thesis by (simp add: key waiting_def is_session_def)
qed

text \<open>
  The bound is reached. Of two verifications that read the challenge before either has redeemed it both open a session,
  since the answer of \<open>DEL\<close> is not looked at.
\<close>

lemma demo_now: "(demo_request v)\<lparr>in_now := in_now (demo_request w)\<rparr> = demo_request v"
  by (simp add: demo_request_def)

lemma demo_continue:
  assumes "demo_ready n st"
  shows "\<lbrakk>0 \<le> n; n < 5\<rbrakk> \<Longrightarrow> \<exists>st'. continue_verify demo_identity (in_now (demo_request ''r1''))
       (HasRead (demo_request ''r1'') ''mfa:challenge:c1'' ''u1'' ''123456'') st =
         (Inr (Inl (HasChecked (demo_request ''r1'') ''mfa:challenge:c1'' ''u1'')), st') \<and> demo_ready (n + 1) st'"
    "\<exists>b st'. continue_verify demo_identity (in_now (demo_request ''r1''))
       (HasChecked (demo_request ''r1'') ''mfa:challenge:c1'' ''u1'') st = (Inr (Inr (200, b)), st') \<and> demo_ready n st'"
  using demo_check [OF assms] demo_redeem [OF assms] by (fastforce simp: demo_now continue_read continue_checked)+

lemma overlapping_verifications:
  "sessions_opened ''mfa:challenge:c1'' (fst (interleave demo_identity
     (map (\<lambda>a. (demo_request ''r1'', [], [], a))
       [Begin (Some (''c1'', ''123456'')), Begin (Some (''c1'', ''123456'')), Continue 0, Continue 1, Continue 0, Continue 0])
     [] demo_challenged)) = 2"
proof -
  let ?i = "demo_request ''r1''" and ?q = "Some (''c1'', ''123456'')"
  let ?R = "HasRead ?i ''mfa:challenge:c1'' ''u1'' ''123456''" and ?C = "HasChecked ?i ''mfa:challenge:c1'' ''u1''"
  let ?b = "before ?i [] []"
  have stored: "store (durable (id_rd (?b st))) k = store (durable (id_rd st)) k" "outcomes (id_rd (?b st)) = []" for st k
    by (simp_all add: before_def at_time_def)
  have 1: "begin_verify demo_identity ?i ?q (?b demo_challenged) = (Inr (Inr (''mfa:challenge:c1'', ''u1'', ''123456'')), ?b demo_challenged)"
    and 2: "begin_verify demo_identity ?i ?q (?b (?b demo_challenged)) =
      (Inr (Inr (''mfa:challenge:c1'', ''u1'', ''123456'')), ?b (?b demo_challenged))"
    by (rule demo_begin; simp add: stored)+
  from demo_before [OF demo_before [OF demo_before [OF demo_challenged_ready]]]
  obtain s3 where 3: "continue_verify demo_identity (in_now ?i) ?R (?b (?b (?b demo_challenged))) = (Inr (Inl ?C), s3)" "demo_ready 1 s3"
    using demo_continue(1) [of 0] by fastforce
  obtain s4 where 4: "continue_verify demo_identity (in_now ?i) ?R (?b s3) = (Inr (Inl ?C), s4)" "demo_ready 2 s4"
    using demo_continue(1) [OF demo_before [OF 3(2)]] by fastforce
  obtain b5 s5 where 5: "continue_verify demo_identity (in_now ?i) ?C (?b s4) = (Inr (Inr (200, b5)), s5)" "demo_ready 2 s5"
    using demo_continue(2) [OF demo_before [OF 4(2)]] by blast
  obtain b6 s6 where 6: "continue_verify demo_identity (in_now ?i) ?C (?b s5) = (Inr (Inr (200, b6)), s6)"
    using demo_continue(2) [OF demo_before [OF 5(2)]] by blast
  show ?thesis
    by (simp add: 1 2 3(1) 4(1) 5(1) 6 remove_nth_def sessions_opened_def is_session_def)
qed

end
