(* ===== verification/Workers.thy ===== *)
theory Workers
  imports Complex_Main Prelude "HOL-Library.Multiset"
begin

text \<open>
  The goroutine pools: \<open>core/pool/worker_pool.go\<close> and \<open>core/worker/worker.go\<close> with its \<open>orchestrator.go\<close>.

  A pool is a labelled step relation. A step is what a goroutine does up to its next channel operation or mutex
  operation; the short critical sections that block on nothing are one step, guarded by the mutex being free, while the
  one of \<open>adaptiveScaler\<close>, which calls \<open>spawnWorker\<close> inside, is cut at its blocking call. A ready \<open>select\<close> takes any
  ready case. Workers are alike, so the state counts them by where they are.
\<close>

section \<open>Traces and draining\<close>

inductive trace :: "('s \<Rightarrow> 'l \<Rightarrow> 's \<Rightarrow> bool) \<Rightarrow> 's \<Rightarrow> 'l list \<Rightarrow> 's \<Rightarrow> bool" for step where
  trace_Nil: "trace step s [] s"
| trace_Cons: "step s l s' \<Longrightarrow> trace step s' ls s'' \<Longrightarrow> trace step s (l # ls) s''"

inductive_simps trace_simps [simp]: "trace step s [] s'" "trace step s (l # ls) s'"

lemma trace_invariant:
  assumes "trace step s ls s'" and "I s" and "\<And>s l s'. step s l s' \<Longrightarrow> I s \<Longrightarrow> I s'"
  shows "I s'"
  using assms by (induction rule: trace.induct) blast+

text \<open>
  The contract of a pool that is told to stop: every \<open>quiet\<close> step leaves less to do, and a state without quiet steps is
  \<open>finished\<close>. Then stopping terminates in every interleaving.
\<close>

locale draining =
  fixes step :: "'s \<Rightarrow> 'l \<Rightarrow> 's \<Rightarrow> bool" and quiet :: "'l set" and left :: "'s \<Rightarrow> nat"
    and stops :: "'s \<Rightarrow> bool" and finished :: "'s \<Rightarrow> bool"
  assumes stops_step: "stops s \<Longrightarrow> step s l s' \<Longrightarrow> l \<in> quiet \<Longrightarrow> stops s'"
    and left_step: "stops s \<Longrightarrow> step s l s' \<Longrightarrow> l \<in> quiet \<Longrightarrow> left s' < left s"
    and stuck: "stops s \<Longrightarrow> (\<And>l s'. l \<in> quiet \<Longrightarrow> \<not> step s l s') \<Longrightarrow> finished s"
begin

lemma bounded:
  "trace step s ls s' \<Longrightarrow> set ls \<subseteq> quiet \<Longrightarrow> stops s \<Longrightarrow> stops s' \<and> length ls + left s' \<le> left s"
proof (induction rule: trace.induct)
  case (trace_Cons s l s' ls s'')
  then have l: "l \<in> quiet" "set ls \<subseteq> quiet" by simp_all
  from trace_Cons.IH [OF l(2) stops_step [OF trace_Cons.prems(2) trace_Cons.hyps(1) l(1)]]
    left_step [OF trace_Cons.prems(2) trace_Cons.hyps(1) l(1)]
  show ?case by simp
qed simp

lemma drains: "stops s \<Longrightarrow> \<exists>ls s'. set ls \<subseteq> quiet \<and> trace step s ls s' \<and> finished s'"
proof (induction "left s" arbitrary: s rule: less_induct)
  case less
  show ?case
  proof (cases "\<exists>l s'. l \<in> quiet \<and> step s l s'")
    case False
    with stuck [OF less.prems] have "finished s" by blast
    then show ?thesis by (intro exI [where x = "[]"] exI [where x = s]) simp
  next
    case True
    then obtain l s' where l: "l \<in> quiet" "step s l s'" by blast
    from less.hyps [OF left_step [OF less.prems l(2,1)] stops_step [OF less.prems l(2,1)]]
    obtain ls s'' where "set ls \<subseteq> quiet" "trace step s' ls s''" "finished s''" by blast
    with l have "set (l # ls) \<subseteq> quiet \<and> trace step s (l # ls) s'' \<and> finished s''" by auto
    then show ?thesis by blast
  qed
qed

end

section \<open>The adaptive pool\<close>

text \<open>Where \<open>adaptiveScaler\<close> is: at its \<open>select\<close>, holding \<open>p.mu\<close>, inside \<open>spawnWorker\<close> waiting for \<open>p.mu\<close>, or gone.\<close>

datatype scaler = Watching | Deciding | Respawning | Gone

datatype shutdown = NotCalled | Awaiting | Returned

type_synonym job = nat

record worker_pool =
  maxConcurrency :: nat
  jobQueue :: "job list"
  quit_closed :: bool
  mu_locked :: bool
  activeWorkers :: nat
  wait_group :: nat
  idle :: nat                  \<comment> \<open>workers at their \<open>select\<close>\<close>
  running :: "job list"        \<comment> \<open>workers inside \<open>safeExecute\<close>\<close>
  leaving :: nat               \<comment> \<open>workers before the deferred decrement\<close>
  departed :: nat              \<comment> \<open>workers before the deferred \<open>wg.Done\<close>\<close>
  spawning :: "job list"       \<comment> \<open>\<open>Submit\<close> calls about to lock \<open>p.mu\<close> in \<open>spawnWorker\<close>\<close>
  adding :: "job list"         \<comment> \<open>\<open>Submit\<close> calls between the unlock and \<open>wg.Add\<close>\<close>
  detached :: "job list"       \<comment> \<open>\<open>go p.safeExecute(job)\<close>\<close>
  scaling :: scaler
  stopping :: shutdown
  executed :: "job list"
  refused :: "job list"        \<comment> \<open>\<open>Submit\<close> calls that returned on \<open>p.quit\<close>\<close>

definition capacity_of :: "worker_pool \<Rightarrow> nat" where
  "capacity_of p = maxConcurrency p * 100"

text \<open>\<open>spawnWorker\<close> before anything runs beside it.\<close>

definition spawnWorker :: "worker_pool \<Rightarrow> worker_pool" where
  "spawnWorker p =
     (if maxConcurrency p \<le> activeWorkers p then p
      else p\<lparr>activeWorkers := activeWorkers p + 1, wait_group := wait_group p + 1, idle := idle p + 1\<rparr>)"

definition NewWorkerPool :: "nat \<Rightarrow> nat \<Rightarrow> worker_pool" where
  "NewWorkerPool lo hi =
     (spawnWorker ^^ lo)
       \<lparr>maxConcurrency = hi, jobQueue = [], quit_closed = False, mu_locked = False, activeWorkers = 0, wait_group = 0,
        idle = 0, running = [], leaving = 0, departed = 0, spawning = [], adding = [], detached = [],
        scaling = Watching, stopping = NotCalled, executed = [], refused = []\<rparr>"

datatype pool_label = Submit job | Scale | Work

text \<open>The test of \<open>adaptiveScaler\<close>.\<close>

definition building_up :: "worker_pool \<Rightarrow> bool" where
  "building_up p \<longleftrightarrow> activeWorkers p < length (jobQueue p) \<and> activeWorkers p < maxConcurrency p"

inductive pool_step :: "worker_pool \<Rightarrow> pool_label \<Rightarrow> worker_pool \<Rightarrow> bool" where
  submit_queued: "length (jobQueue p) < capacity_of p \<Longrightarrow>
     pool_step p (Submit j) (p\<lparr>jobQueue := jobQueue p @ [j]\<rparr>)"
| submit_quit: "quit_closed p \<Longrightarrow> pool_step p (Submit j) (p\<lparr>refused := j # refused p\<rparr>)"
| submit_default: "capacity_of p \<le> length (jobQueue p) \<Longrightarrow> \<not> quit_closed p \<Longrightarrow>
     pool_step p (Submit j) (p\<lparr>spawning := j # spawning p\<rparr>)"
| spawn_at_limit: "j \<in> set (spawning p) \<Longrightarrow> \<not> mu_locked p \<Longrightarrow> maxConcurrency p \<le> activeWorkers p \<Longrightarrow>
     pool_step p Work (p\<lparr>spawning := remove1 j (spawning p), detached := j # detached p\<rparr>)"
| spawn_counted: "j \<in> set (spawning p) \<Longrightarrow> \<not> mu_locked p \<Longrightarrow> activeWorkers p < maxConcurrency p \<Longrightarrow>
     pool_step p Work (p\<lparr>activeWorkers := activeWorkers p + 1, spawning := remove1 j (spawning p), adding := j # adding p\<rparr>)"
| spawn_started: "j \<in> set (adding p) \<Longrightarrow>
     pool_step p Work (p\<lparr>wait_group := wait_group p + 1, idle := idle p + 1, adding := remove1 j (adding p),
                         detached := j # detached p\<rparr>)"
| take: "0 < idle p \<Longrightarrow> jobQueue p = j # js \<Longrightarrow>
     pool_step p Work (p\<lparr>idle := idle p - 1, jobQueue := js, running := j # running p\<rparr>)"
| finish: "j \<in> set (running p) \<Longrightarrow>
     pool_step p Work (p\<lparr>running := remove1 j (running p), idle := idle p + 1, executed := j # executed p\<rparr>)"
| finish_detached: "j \<in> set (detached p) \<Longrightarrow>
     pool_step p Work (p\<lparr>detached := remove1 j (detached p), executed := j # executed p\<rparr>)"
| worker_quits: "quit_closed p \<Longrightarrow> 0 < idle p \<Longrightarrow> pool_step p Work (p\<lparr>idle := idle p - 1, leaving := leaving p + 1\<rparr>)"
| worker_uncounted: "0 < leaving p \<Longrightarrow> \<not> mu_locked p \<Longrightarrow>
     pool_step p Work (p\<lparr>leaving := leaving p - 1, activeWorkers := activeWorkers p - 1, departed := departed p + 1\<rparr>)"
| worker_done: "0 < departed p \<Longrightarrow>
     pool_step p Work (p\<lparr>departed := departed p - 1, wait_group := wait_group p - 1\<rparr>)"
| scaler_ticks: "scaling p = Watching \<Longrightarrow> \<not> mu_locked p \<Longrightarrow> pool_step p Scale (p\<lparr>scaling := Deciding, mu_locked := True\<rparr>)"
| scaler_rests: "scaling p = Deciding \<Longrightarrow> \<not> building_up p \<Longrightarrow>
     pool_step p Scale (p\<lparr>scaling := Watching, mu_locked := False\<rparr>)"
| scaler_calls: "scaling p = Deciding \<Longrightarrow> building_up p \<Longrightarrow> pool_step p Scale (p\<lparr>scaling := Respawning\<rparr>)"
| scaler_spawns: "scaling p = Respawning \<Longrightarrow> \<not> mu_locked p \<Longrightarrow> activeWorkers p < maxConcurrency p \<Longrightarrow>
     pool_step p Scale (p\<lparr>scaling := Watching, activeWorkers := activeWorkers p + 1, wait_group := wait_group p + 1,
                          idle := idle p + 1\<rparr>)"
| scaler_gone: "scaling p = Watching \<Longrightarrow> quit_closed p \<Longrightarrow> pool_step p Scale (p\<lparr>scaling := Gone\<rparr>)"
| shutdown_called: "stopping p = NotCalled \<Longrightarrow> pool_step p Work (p\<lparr>quit_closed := True, stopping := Awaiting\<rparr>)"
| shutdown_returns: "stopping p = Awaiting \<Longrightarrow> wait_group p = 0 \<Longrightarrow> pool_step p Work (p\<lparr>stopping := Returned\<rparr>)"

inductive_cases pool_step_cases: "pool_step p l p'"
inductive_cases pool_work_cases: "pool_step p Work p'"

section \<open>Invariants of the pool\<close>

definition at_work :: "worker_pool \<Rightarrow> nat" where
  "at_work p = idle p + length (running p) + leaving p"

definition pool_ok :: "worker_pool \<Rightarrow> bool" where
  "pool_ok p \<longleftrightarrow>
     (mu_locked p \<longleftrightarrow> scaling p = Deciding \<or> scaling p = Respawning) \<and>
     wait_group p = at_work p + departed p \<and>
     activeWorkers p = at_work p + length (adding p) \<and>
     activeWorkers p \<le> maxConcurrency p \<and>
     length (jobQueue p) \<le> capacity_of p \<and>
     (quit_closed p \<longleftrightarrow> stopping p \<noteq> NotCalled)"

text \<open>Every job the pool knows, wherever it is.\<close>

definition jobs_of :: "worker_pool \<Rightarrow> job multiset" where
  "jobs_of p = mset (jobQueue p) + mset (running p) + mset (spawning p) + mset (adding p) + mset (detached p) +
     mset (executed p) + mset (refused p)"

fun submitted :: "pool_label list \<Rightarrow> job multiset" where
  "submitted [] = {#}"
| "submitted (Submit j # ls) = {#j#} + submitted ls"
| "submitted (Scale # ls) = submitted ls"
| "submitted (Work # ls) = submitted ls"

lemma length_remove1_in: "x \<in> set xs \<Longrightarrow> Suc (length (remove1 x xs)) = length xs"
  by (induction xs) auto

lemma mset_remove1_in: "x \<in> set xs \<Longrightarrow> add_mset x (mset (remove1 x xs)) = mset xs"
  by simp

lemma spawnWorker_ok: "pool_ok p \<Longrightarrow> pool_ok (spawnWorker p)"
  by (auto simp: pool_ok_def at_work_def spawnWorker_def capacity_of_def)

lemma pool_ok_new: "pool_ok (NewWorkerPool lo hi)"
  unfolding NewWorkerPool_def
  by (induction lo) (simp_all add: spawnWorker_ok, simp add: pool_ok_def at_work_def)

lemma new_fields:
  "maxConcurrency (NewWorkerPool lo hi) = hi \<and> jobs_of (NewWorkerPool lo hi) = {#} \<and>
   idle (NewWorkerPool lo hi) = min lo hi \<and> activeWorkers (NewWorkerPool lo hi) = min lo hi"
  unfolding NewWorkerPool_def
  by (induction lo) (auto simp: spawnWorker_def jobs_of_def min_def)

lemma pool_step_max: "pool_step p l p' \<Longrightarrow> maxConcurrency p' = maxConcurrency p"
  by (induction rule: pool_step.induct) simp_all

lemma pool_ok_step: "pool_step p l p' \<Longrightarrow> pool_ok p \<Longrightarrow> pool_ok p'"
proof (induction rule: pool_step.induct)
  case (spawn_counted j p)
  then show ?case by (auto simp: pool_ok_def at_work_def capacity_of_def)
qed (auto simp: pool_ok_def at_work_def capacity_of_def dest!: length_remove1_in)

lemma jobs_step: "pool_step p l p' \<Longrightarrow> jobs_of p' = submitted [l] + jobs_of p"
  by (induction rule: pool_step.induct) (auto simp: jobs_of_def dest!: mset_remove1_in)

lemma pool_ok_run: "trace pool_step p ls p' \<Longrightarrow> pool_ok p \<Longrightarrow> pool_ok p' \<and> maxConcurrency p' = maxConcurrency p"
  by (induction rule: trace.induct) (simp, metis pool_ok_step pool_step_max)

lemma jobs_run: "trace pool_step p ls p' \<Longrightarrow> jobs_of p' = submitted ls + jobs_of p"
proof (induction rule: trace.induct)
  case (trace_Cons p l p' ls p'')
  then show ?case using jobs_step [OF trace_Cons.hyps(1)] by (cases l) auto
qed simp

section \<open>Progress and deadlock\<close>

text \<open>What is left to do after the pool is told to stop: each \<open>Work\<close> step makes it smaller.\<close>

definition work_left :: "worker_pool \<Rightarrow> nat" where
  "work_left p = 2 * length (jobQueue p) + 3 * idle p + 4 * length (running p) + 2 * leaving p + departed p +
     6 * length (spawning p) + 5 * length (adding p) + length (detached p) +
     (case stopping p of NotCalled \<Rightarrow> 2 | Awaiting \<Rightarrow> 1 | Returned \<Rightarrow> 0)"

lemma work_decreases: "pool_step p Work p' \<Longrightarrow> work_left p' < work_left p"
  by (erule pool_work_cases) (auto simp: work_left_def dest!: length_remove1_in)

lemma work_frame: "pool_step p Work p' \<Longrightarrow> scaling p' = scaling p \<and> mu_locked p' = mu_locked p \<and> (quit_closed p \<longrightarrow> quit_closed p')"
  by (erule pool_work_cases) auto

lemma nonempty_in: "xs \<noteq> [] \<Longrightarrow> hd xs \<in> set xs"
  by simp

lemma work_stuck:
  assumes ok: "pool_ok p" and free: "\<not> mu_locked p" and quit: "quit_closed p" and stuck: "\<nexists>p'. pool_step p Work p'"
  shows "stopping p = Returned \<and> at_work p = 0 \<and> departed p = 0 \<and> spawning p = [] \<and> adding p = [] \<and> detached p = []"
proof -
  have no: "\<not> pool_step p Work p'" for p' using stuck by blast
  have "spawning p = []"
    using no spawn_at_limit [OF nonempty_in free] spawn_counted [OF nonempty_in free] by (metis not_le)
  moreover have "adding p = []" using no spawn_started [OF nonempty_in] by blast
  moreover have "detached p = []" using no finish_detached [OF nonempty_in] by blast
  moreover have "running p = []" using no finish [OF nonempty_in] by blast
  moreover have "idle p = 0" using no worker_quits [OF quit] by blast
  moreover have "leaving p = 0" using no worker_uncounted [OF _ free] by blast
  moreover have "departed p = 0" using no worker_done by blast
  moreover from calculation ok have "wait_group p = 0" by (simp add: pool_ok_def at_work_def)
  moreover have "stopping p \<noteq> NotCalled" using ok quit by (simp add: pool_ok_def)
  moreover have "stopping p \<noteq> Awaiting" using no shutdown_returns calculation by blast
  ultimately show ?thesis by (cases "stopping p") (simp_all add: at_work_def)
qed

definition pool_stops :: "worker_pool \<Rightarrow> bool" where
  "pool_stops p \<longleftrightarrow> pool_ok p \<and> quit_closed p \<and> scaling p = Gone"

definition pool_finished :: "worker_pool \<Rightarrow> bool" where
  "pool_finished p \<longleftrightarrow> stopping p = Returned \<and> at_work p = 0 \<and> departed p = 0 \<and> spawning p = [] \<and> adding p = [] \<and> detached p = []"

interpretation pool: draining pool_step "{Work}" work_left pool_stops pool_finished
proof unfold_locales
  fix s l s'
  assume s: "pool_stops s" "pool_step s l s'" "l \<in> {Work}"
  then show "pool_stops s'" using work_frame [of s s'] pool_ok_step [of s l s'] by (simp add: pool_stops_def)
  show "work_left s' < work_left s" using s work_decreases by simp
next
  fix s
  assume s: "pool_stops s" and no: "\<And>l s'. l \<in> {Work} \<Longrightarrow> \<not> pool_step s l s'"
  have "\<not> mu_locked s" and "pool_ok s" and "quit_closed s" using s by (auto simp: pool_stops_def pool_ok_def)
  then show "pool_finished s" unfolding pool_finished_def using work_stuck no by blast
qed

text \<open>While the scaler waits for the mutex it holds, the mutex stays locked and no worker leaves.\<close>

lemma deadlock_step:
  "pool_step p l p' \<Longrightarrow> pool_ok p \<Longrightarrow> scaling p = Respawning \<Longrightarrow>
   scaling p' = Respawning \<and> at_work p \<le> at_work p' \<and> (0 < at_work p \<longrightarrow> stopping p' = Returned \<longrightarrow> stopping p = Returned)"
  by (erule pool_step_cases) (auto simp: pool_ok_def at_work_def dest!: length_remove1_in)

lemma deadlock_run:
  "trace pool_step p ls p' \<Longrightarrow> pool_ok p \<Longrightarrow> scaling p = Respawning \<Longrightarrow> 0 < at_work p \<Longrightarrow>
   scaling p' = Respawning \<and> mu_locked p' \<and> at_work p \<le> at_work p' \<and> (stopping p' = Returned \<longrightarrow> stopping p = Returned)"
proof (induction rule: trace.induct)
  case (trace_Nil p)
  then show ?case by (simp add: pool_ok_def)
next
  case (trace_Cons p l p' ls p'')
  note d = deadlock_step [OF trace_Cons.hyps(1) trace_Cons.prems(1,2)]
  from d trace_Cons.prems(3) have pos: "0 < at_work p'" by simp
  from trace_Cons.IH [OF pool_ok_step [OF trace_Cons.hyps(1) trace_Cons.prems(1)] _ pos] d trace_Cons.prems(3)
  show ?case by auto
qed

section \<open>Properties of the pool\<close>

text \<open>
  In every interleaving of submissions, workers, scaler and shutdown, the pool never counts more workers than its
  maximum, its queue never exceeds its capacity, the wait group counts the live workers, and every submitted job is in
  exactly one place: queued, running, waiting to be run detached, executed once, or refused at shutdown.
\<close>
theorem pool_accounts_for_jobs:
  assumes "trace pool_step (NewWorkerPool lo hi) ls p"
  shows "activeWorkers p \<le> hi \<and> length (jobQueue p) \<le> 100 * hi \<and> wait_group p = at_work p + departed p \<and>
    submitted ls = mset (jobQueue p) + mset (running p) + mset (spawning p) + mset (adding p) + mset (detached p) +
      mset (executed p) + mset (refused p)"
  using pool_ok_run [OF assms pool_ok_new] jobs_run [OF assms] new_fields [of lo hi]
  by (simp add: pool_ok_def capacity_of_def jobs_of_def mult.commute)

text \<open>
  C29. Once the scaler has stopped at \<open>p.quit\<close>, and nothing more is submitted, the pool shuts down: there are at most
  \<open>work_left\<close> further steps in any interleaving, and an interleaving that cannot go on has returned from \<open>Shutdown\<close>,
  with every worker gone and every job executed, refused or left in the queue.
\<close>
theorem shutdown_terminates:
  assumes "trace pool_step (NewWorkerPool lo hi) ls p" and "quit_closed p" and "scaling p = Gone"
    and "trace pool_step p ws p'" and "set ws \<subseteq> {Work}"
  shows "length ws \<le> work_left p \<and>
    ((\<nexists>p''. pool_step p' Work p'') \<longrightarrow>
       stopping p' = Returned \<and> at_work p' = 0 \<and> submitted ls = mset (jobQueue p') + mset (executed p') + mset (refused p'))"
proof -
  have stops: "pool_stops p" using assms(2,3) pool_ok_run [OF assms(1) pool_ok_new] by (simp add: pool_stops_def)
  note b = pool.bounded [OF assms(4,5) stops]
  have "submitted ws = {#}" using assms(5) by (induction ws) auto
  then have jobs: "submitted ls = jobs_of p'"
    using jobs_run [OF assms(4)] jobs_run [OF assms(1)] new_fields [of lo hi] by simp
  have "pool_finished p'" if "\<nexists>p''. pool_step p' Work p''" using that pool.stuck [of p'] b by auto
  with b jobs show ?thesis by (auto simp: pool_finished_def jobs_of_def at_work_def)
qed

text \<open>
  The scaler calls \<open>spawnWorker\<close> while it holds the mutex that \<open>spawnWorker\<close> locks. Once that has happened the
  mutex stays locked in every continuation, no worker leaves, and with a worker in the pool \<open>Shutdown\<close> never returns.
\<close>
theorem scaling_up_deadlocks:
  assumes "trace pool_step (NewWorkerPool lo hi) ls p" and "scaling p = Respawning" and "0 < at_work p" and "stopping p \<noteq> Returned"
    and "trace pool_step p ms p'"
  shows "mu_locked p' \<and> at_work p \<le> at_work p' \<and> stopping p' \<noteq> Returned"
  using deadlock_run [OF assms(5) _ assms(2,3)] pool_ok_run [OF assms(1) pool_ok_new] assms(4) by auto

section \<open>The task engine\<close>

text \<open>
  \<open>core/worker/worker.go\<close>. A submission passes two \<open>select\<close>s; \<open>entering\<close> holds the ones between them. The dispatcher is
  one more submitter. A task that returns an error is logged and counts as executed. Tasks return.
\<close>

record engine =
  taskQueue :: "job list"
  stop_closed :: bool
  cancelled :: bool             \<comment> \<open>the context of \<open>Start\<close> is done\<close>
  e_wait :: nat
  e_idle :: nat
  e_running :: "job list"
  entering :: "job list"
  e_stopping :: shutdown
  e_executed :: "job list"
  e_rejected :: "job list"      \<comment> \<open>\<open>Submit\<close> calls that returned \<open>false\<close>\<close>

definition queue_size :: nat where "queue_size = 10000"

text \<open>\<open>New\<close> followed by \<open>Start\<close>.\<close>

definition StartEngine :: "int \<Rightarrow> engine" where
  "StartEngine maxWorkers =
     (let n = nat (if maxWorkers \<le> 0 then 100 else maxWorkers)
      in \<lparr>taskQueue = [], stop_closed = False, cancelled = False, e_wait = n, e_idle = n, e_running = [], entering = [],
          e_stopping = NotCalled, e_executed = [], e_rejected = []\<rparr>)"

datatype engine_label = ESubmit "job option" | ECancel | EStop | EWork

inductive engine_step :: "engine \<Rightarrow> engine_label \<Rightarrow> engine \<Rightarrow> bool" where
  e_nil: "engine_step e (ESubmit None) e"
| e_refused: "stop_closed e \<Longrightarrow> engine_step e (ESubmit (Some j)) (e\<lparr>e_rejected := j # e_rejected e\<rparr>)"
| e_checked: "\<not> stop_closed e \<Longrightarrow> engine_step e (ESubmit (Some j)) (e\<lparr>entering := j # entering e\<rparr>)"
| e_too_late: "j \<in> set (entering e) \<Longrightarrow> stop_closed e \<Longrightarrow>
     engine_step e EWork (e\<lparr>entering := remove1 j (entering e), e_rejected := j # e_rejected e\<rparr>)"
| e_enters: "j \<in> set (entering e) \<Longrightarrow> length (taskQueue e) < queue_size \<Longrightarrow>
     engine_step e EWork (e\<lparr>entering := remove1 j (entering e), taskQueue := taskQueue e @ [j]\<rparr>)"
| e_full: "j \<in> set (entering e) \<Longrightarrow> queue_size \<le> length (taskQueue e) \<Longrightarrow> \<not> stop_closed e \<Longrightarrow>
     engine_step e EWork (e\<lparr>entering := remove1 j (entering e), e_rejected := j # e_rejected e\<rparr>)"
| e_takes: "0 < e_idle e \<Longrightarrow> taskQueue e = j # js \<Longrightarrow>
     engine_step e EWork (e\<lparr>e_idle := e_idle e - 1, taskQueue := js, e_running := j # e_running e\<rparr>)"
| e_finishes: "j \<in> set (e_running e) \<Longrightarrow>
     engine_step e EWork (e\<lparr>e_running := remove1 j (e_running e), e_idle := e_idle e + 1, e_executed := j # e_executed e\<rparr>)"
| e_leaves: "stop_closed e \<or> cancelled e \<Longrightarrow> 0 < e_idle e \<Longrightarrow>
     engine_step e EWork (e\<lparr>e_idle := e_idle e - 1, e_wait := e_wait e - 1\<rparr>)"
| e_cancels: "engine_step e ECancel (e\<lparr>cancelled := True\<rparr>)"
| e_stop_called: "e_stopping e = NotCalled \<Longrightarrow> engine_step e EStop (e\<lparr>stop_closed := True, e_stopping := Awaiting\<rparr>)"
| e_stop_returns: "e_stopping e = Awaiting \<Longrightarrow> e_wait e = 0 \<Longrightarrow> engine_step e EWork (e\<lparr>e_stopping := Returned\<rparr>)"

inductive_cases engine_step_cases: "engine_step e l e'"
inductive_cases engine_work_cases: "engine_step e EWork e'"

definition engine_ok :: "engine \<Rightarrow> bool" where
  "engine_ok e \<longleftrightarrow>
     e_wait e = e_idle e + length (e_running e) \<and> length (taskQueue e) \<le> queue_size \<and>
     (stop_closed e \<longleftrightarrow> e_stopping e \<noteq> NotCalled) \<and> (e_stopping e = Returned \<longrightarrow> e_wait e = 0)"

definition tasks_in :: "engine \<Rightarrow> job multiset" where
  "tasks_in e = mset (taskQueue e) + mset (e_running e) + mset (entering e) + mset (e_executed e) + mset (e_rejected e)"

fun tasks_submitted :: "engine_label list \<Rightarrow> job multiset" where
  "tasks_submitted [] = {#}"
| "tasks_submitted (ESubmit (Some j) # ls) = {#j#} + tasks_submitted ls"
| "tasks_submitted (_ # ls) = tasks_submitted ls"

definition engine_left :: "engine \<Rightarrow> nat" where
  "engine_left e = 2 * length (taskQueue e) + e_idle e + 2 * length (e_running e) + 3 * length (entering e) +
     (case e_stopping e of NotCalled \<Rightarrow> 2 | Awaiting \<Rightarrow> 1 | Returned \<Rightarrow> 0)"

definition engine_stops :: "engine \<Rightarrow> bool" where
  "engine_stops e \<longleftrightarrow> engine_ok e \<and> stop_closed e"

definition engine_finished :: "engine \<Rightarrow> bool" where
  "engine_finished e \<longleftrightarrow> e_stopping e = Returned \<and> e_wait e = 0 \<and> e_running e = [] \<and> entering e = []"

lemma engine_ok_start: "engine_ok (StartEngine n)"
  by (simp add: engine_ok_def StartEngine_def Let_def)

lemma engine_ok_step: "engine_step e l e' \<Longrightarrow> engine_ok e \<Longrightarrow> engine_ok e'"
  by (erule engine_step_cases) (auto simp: engine_ok_def dest!: length_remove1_in)

lemma tasks_step: "engine_step e l e' \<Longrightarrow> tasks_in e' = tasks_submitted [l] + tasks_in e"
  by (erule engine_step_cases) (auto simp: tasks_in_def dest!: mset_remove1_in)

lemma tasks_trace: "trace engine_step e ls e' \<Longrightarrow> tasks_in e' = tasks_submitted ls + tasks_in e"
proof (induction rule: trace.induct)
  case (trace_Cons e l e' ls e'')
  have "tasks_submitted (l # ls) = tasks_submitted [l] + tasks_submitted ls"
    by (cases "(l # ls)" rule: tasks_submitted.cases) simp_all
  then show ?case using tasks_step [OF trace_Cons.hyps(1)] trace_Cons.IH by simp
qed simp

lemma engine_left_step: "engine_step e EWork e' \<Longrightarrow> engine_left e' < engine_left e"
  by (erule engine_work_cases) (auto simp: engine_left_def dest!: length_remove1_in)

lemma engine_stuck:
  assumes "engine_stops e" and stuck: "\<And>e'. \<not> engine_step e EWork e'"
  shows "engine_finished e"
proof -
  have closed: "stop_closed e" and ok: "engine_ok e" using assms(1) by (simp_all add: engine_stops_def)
  have "entering e = []" using stuck e_too_late [OF nonempty_in closed] by blast
  moreover have "e_running e = []" using stuck e_finishes [OF nonempty_in] by blast
  moreover have "e_idle e = 0" using stuck e_leaves closed by blast
  moreover from calculation ok have "e_wait e = 0" by (simp add: engine_ok_def)
  moreover have "e_stopping e \<noteq> NotCalled" using ok closed by (simp add: engine_ok_def)
  moreover have "e_stopping e \<noteq> Awaiting" using stuck e_stop_returns calculation by blast
  ultimately show ?thesis by (cases "e_stopping e") (simp_all add: engine_finished_def)
qed

lemma engine_work_closed: "engine_step e EWork e' \<Longrightarrow> stop_closed e \<Longrightarrow> stop_closed e'"
  by (erule engine_work_cases) simp_all

interpretation engine: draining engine_step "{EWork}" engine_left engine_stops engine_finished
proof unfold_locales
  fix e l e'
  assume e: "engine_stops e" "engine_step e l e'" "l \<in> {EWork}"
  then show "engine_stops e'" using engine_ok_step [of e l e'] engine_work_closed [of e e'] by (simp add: engine_stops_def)
  show "engine_left e' < engine_left e" using e engine_left_step by simp
next
  fix e
  assume "engine_stops e" and "\<And>l e'. l \<in> {EWork} \<Longrightarrow> \<not> engine_step e l e'"
  then show "engine_finished e" by (intro engine_stuck) simp_all
qed

lemma silent_step: "engine_step e l e' \<Longrightarrow> engine_ok e \<Longrightarrow> e_stopping e = Returned \<Longrightarrow>
   e_executed e' = e_executed e \<and> e_stopping e' = Returned"
  by (erule engine_step_cases) (auto simp: engine_ok_def)

lemma silent_trace: "trace engine_step e ls e' \<Longrightarrow> engine_ok e \<Longrightarrow> e_stopping e = Returned \<Longrightarrow>
   e_executed e' = e_executed e \<and> e_stopping e' = Returned"
proof (induction rule: trace.induct)
  case (trace_Cons e l e' ls e'')
  from silent_step [OF trace_Cons.hyps(1) trace_Cons.prems] trace_Cons.IH
    engine_ok_step [OF trace_Cons.hyps(1) trace_Cons.prems(1)]
  show ?case by simp
qed simp

text \<open>
  C37. Once \<open>Stop\<close> has closed its channel, and nothing more is submitted, the engine stops: there are at most \<open>engine_left\<close>
  further steps in any interleaving, and an interleaving that cannot go on has returned from \<open>Stop\<close>, with every task that
  was ever submitted executed once, rejected, or left in the queue. After that nothing is executed any more, whatever is
  submitted.
\<close>
theorem engine_stop_terminates:
  assumes "trace engine_step (StartEngine n) ls e" and "stop_closed e" and "trace engine_step e ws e'" and "set ws \<subseteq> {EWork}"
  shows "length ws \<le> engine_left e \<and>
    ((\<nexists>e''. engine_step e' EWork e'') \<longrightarrow>
       e_stopping e' = Returned \<and> tasks_submitted ls = mset (taskQueue e') + mset (e_executed e') + mset (e_rejected e') \<and>
       (\<forall>us e''. trace engine_step e' us e'' \<longrightarrow> e_executed e'' = e_executed e'))"
proof -
  have ok: "engine_ok e" using trace_invariant [OF assms(1), of engine_ok] engine_ok_start engine_ok_step by blast
  then have stops: "engine_stops e" using assms(2) by (simp add: engine_stops_def)
  note b = engine.bounded [OF assms(3,4) stops]
  then have ok': "engine_ok e'" by (simp add: engine_stops_def)
  have "tasks_submitted ws = {#}" using assms(4) by (induction ws) auto
  then have jobs: "tasks_in e' = tasks_submitted ls"
    using tasks_trace [OF assms(3)] tasks_trace [OF assms(1)] by (simp add: tasks_in_def StartEngine_def Let_def)
  have fin: "engine_finished e'" if "\<nexists>e''. engine_step e' EWork e''" using that engine.stuck [of e'] b by auto
  have "e_stopping e' = Returned \<and> tasks_submitted ls = mset (taskQueue e') + mset (e_executed e') + mset (e_rejected e')"
    if "engine_finished e'" using jobs that by (simp add: engine_finished_def tasks_in_def)
  moreover have "e_executed e'' = e_executed e'" if "engine_finished e'" "trace engine_step e' us e''" for us e''
    using silent_trace [OF that(2) ok'] that(1) by (simp add: engine_finished_def)
  moreover from b have "length ws \<le> engine_left e" by linarith
  ultimately show ?thesis using fin by blast
qed

section \<open>Examples\<close>

text \<open>One worker runs one job and the pool is stopped; two jobs wait for one worker and the scaler runs.\<close>

definition one_worker :: worker_pool where "one_worker = NewWorkerPool 1 1"
definition told_to_stop :: worker_pool where
  "told_to_stop = one_worker\<lparr>executed := [7], quit_closed := True, stopping := Awaiting, scaling := Gone\<rparr>"
definition two_wait :: worker_pool where
  "two_wait = (NewWorkerPool 1 2)\<lparr>jobQueue := [1, 2], scaling := Respawning, mu_locked := True\<rparr>"

lemmas one_defs = one_worker_def told_to_stop_def two_wait_def NewWorkerPool_def spawnWorker_def

lemma told_to_stop_run: "trace pool_step (NewWorkerPool 1 1) [Submit 7, Work, Work, Work, Scale] told_to_stop"
proof -
  let ?p1 = "one_worker\<lparr>jobQueue := [7]\<rparr>" and ?p2 = "one_worker\<lparr>idle := 0, running := [7]\<rparr>"
  let ?p3 = "one_worker\<lparr>executed := [7]\<rparr>" and ?p4 = "one_worker\<lparr>executed := [7], quit_closed := True, stopping := Awaiting\<rparr>"
  have "pool_step one_worker (Submit 7) ?p1" using submit_queued [of one_worker 7] by (simp add: one_defs capacity_of_def)
  moreover have "pool_step ?p1 Work ?p2" using take [of ?p1 7 "[]"] by (simp add: one_defs)
  moreover have "pool_step ?p2 Work ?p3" using finish [of 7 ?p2] by (simp add: one_defs)
  moreover have "pool_step ?p3 Work ?p4" using shutdown_called [of ?p3] by (simp add: one_defs)
  moreover have "pool_step ?p4 Scale told_to_stop" using scaler_gone [of ?p4] by (simp add: one_defs)
  ultimately show ?thesis unfolding one_worker_def [symmetric] by (meson trace.intros)
qed

lemma told_to_stop_end:
  "trace pool_step told_to_stop [Work, Work, Work, Work]
     (told_to_stop\<lparr>idle := 0, activeWorkers := 0, wait_group := 0, stopping := Returned\<rparr>)"
proof -
  let ?p1 = "told_to_stop\<lparr>idle := 0, leaving := 1\<rparr>" and ?p2 = "told_to_stop\<lparr>idle := 0, activeWorkers := 0, departed := 1\<rparr>"
  let ?p3 = "told_to_stop\<lparr>idle := 0, activeWorkers := 0, wait_group := 0\<rparr>"
  have "pool_step told_to_stop Work ?p1" using worker_quits [of told_to_stop] by (simp add: one_defs)
  moreover have "pool_step ?p1 Work ?p2" using worker_uncounted [of ?p1] by (simp add: one_defs)
  moreover have "pool_step ?p2 Work ?p3" using worker_done [of ?p2] by (simp add: one_defs)
  moreover have "pool_step ?p3 Work (?p3\<lparr>stopping := Returned\<rparr>)" using shutdown_returns [of ?p3] by (simp add: one_defs)
  ultimately show ?thesis by (simp, meson trace.intros)
qed

lemma two_wait_run: "trace pool_step (NewWorkerPool 1 2) [Submit 1, Submit 2, Scale, Scale] two_wait"
proof -
  let ?p0 = "NewWorkerPool 1 2"
  let ?p1 = "?p0\<lparr>jobQueue := [1]\<rparr>" and ?p2 = "?p0\<lparr>jobQueue := [1, 2]\<rparr>"
  let ?p3 = "?p0\<lparr>jobQueue := [1, 2], scaling := Deciding, mu_locked := True\<rparr>"
  have "pool_step ?p0 (Submit 1) ?p1" using submit_queued [of ?p0 1] by (simp add: one_defs capacity_of_def)
  moreover have "pool_step ?p1 (Submit 2) ?p2" using submit_queued [of ?p1 2] by (simp add: one_defs capacity_of_def)
  moreover have "pool_step ?p2 Scale ?p3" using scaler_ticks [of ?p2] by (simp add: one_defs)
  moreover have "pool_step ?p3 Scale two_wait" using scaler_calls [of ?p3] by (simp add: one_defs building_up_def)
  ultimately show ?thesis by (meson trace.intros)
qed

lemma pool_accounts_for_jobs_witness: "activeWorkers told_to_stop \<le> 1 \<and> wait_group told_to_stop = at_work told_to_stop"
  using pool_accounts_for_jobs [OF told_to_stop_run] by (simp add: one_defs)

lemma shutdown_terminates_witness: "(4::nat) \<le> work_left told_to_stop"
proof -
  have "quit_closed told_to_stop" "scaling told_to_stop = Gone" by (simp_all add: told_to_stop_def)
  from shutdown_terminates [OF told_to_stop_run this told_to_stop_end] show ?thesis by simp
qed

lemma scaling_up_deadlocks_witness: "mu_locked two_wait \<and> stopping two_wait \<noteq> Returned"
proof -
  have "scaling two_wait = Respawning" "0 < at_work two_wait" "stopping two_wait \<noteq> Returned"
    by (simp_all add: one_defs at_work_def)
  from scaling_up_deadlocks [OF two_wait_run this trace_Nil] show ?thesis by simp
qed

text \<open>An engine with one worker that runs task 7 while task 8 waits, and is then stopped.\<close>

definition busy_engine :: engine where
  "busy_engine = (StartEngine 1)\<lparr>taskQueue := [8], e_idle := 0, e_running := [7], stop_closed := True, e_stopping := Awaiting\<rparr>"

lemmas busy_defs = busy_engine_def StartEngine_def queue_size_def

lemma busy_engine_run:
  "trace engine_step (StartEngine 1) [ESubmit (Some 7), EWork, EWork, ESubmit (Some 8), EWork, EStop] busy_engine"
proof -
  let ?e0 = "StartEngine 1"
  let ?e1 = "?e0\<lparr>entering := [7]\<rparr>" and ?e2 = "?e0\<lparr>taskQueue := [7]\<rparr>" and ?e3 = "?e0\<lparr>e_idle := 0, e_running := [7]\<rparr>"
  let ?e4 = "?e0\<lparr>e_idle := 0, e_running := [7], entering := [8]\<rparr>" and ?e5 = "?e0\<lparr>e_idle := 0, e_running := [7], taskQueue := [8]\<rparr>"
  have "engine_step ?e0 (ESubmit (Some 7)) ?e1" using e_checked [of ?e0 7] by (simp add: busy_defs)
  moreover have "engine_step ?e1 EWork ?e2" using e_enters [of 7 ?e1] by (simp add: busy_defs)
  moreover have "engine_step ?e2 EWork ?e3" using e_takes [of ?e2 7 "[]"] by (simp add: busy_defs)
  moreover have "engine_step ?e3 (ESubmit (Some 8)) ?e4" using e_checked [of ?e3 8] by (simp add: busy_defs)
  moreover have "engine_step ?e4 EWork ?e5" using e_enters [of 8 ?e4] by (simp add: busy_defs)
  moreover have "engine_step ?e5 EStop busy_engine" using e_stop_called [of ?e5] by (simp add: busy_defs)
  ultimately show ?thesis by (meson trace.intros)
qed

lemma busy_engine_end:
  fixes e' :: engine
  defines "e' \<equiv> busy_engine\<lparr>e_running := [], e_executed := [7], e_wait := 0, e_stopping := Returned\<rparr>"
  shows "trace engine_step busy_engine [EWork, EWork, EWork] e'" and "\<nexists>e''. engine_step e' EWork e''"
proof -
  let ?e1 = "busy_engine\<lparr>e_idle := 1, e_running := [], e_executed := [7]\<rparr>"
  let ?e2 = "busy_engine\<lparr>e_running := [], e_executed := [7], e_wait := 0\<rparr>"
  have "engine_step busy_engine EWork ?e1" using e_finishes [of 7 busy_engine] by (simp add: busy_defs)
  moreover have "engine_step ?e1 EWork ?e2" using e_leaves [of ?e1] by (simp add: busy_defs)
  moreover have "engine_step ?e2 EWork e'" using e_stop_returns [of ?e2] by (simp add: busy_defs e'_def)
  ultimately show "trace engine_step busy_engine [EWork, EWork, EWork] e'" by (meson trace.intros)
  show "\<nexists>e''. engine_step e' EWork e''" by (auto simp: e'_def busy_defs elim!: engine_work_cases)
qed

lemma engine_stop_terminates_witness:
  "3 \<le> engine_left busy_engine \<and>
   tasks_submitted [ESubmit (Some 7), EWork, EWork, ESubmit (Some 8), EWork, EStop] = mset [8] + mset [7] + mset []"
proof -
  have "stop_closed busy_engine" by (simp add: busy_engine_def)
  from engine_stop_terminates [OF busy_engine_run this busy_engine_end(1)] busy_engine_end(2) show ?thesis
    by (simp add: busy_defs)
qed

end
