(* ===== verification/Realtime.thy ===== *)
theory Realtime
  imports Complex_Main Auth Messaging Workers
begin

text \<open>
  The realtime hub of \<open>core/realtime\<close>: the sockets of each user in 32 locked shards, the loop of \<open>Run\<close>, one reading
  goroutine per socket, deliveries that write to a snapshot of a user's sockets, the bridge from the event bus, the
  \<open>/ws\<close> endpoint of \<open>core/wiring\<close> that opens sockets, and the room table of the SFU router. JSON is a parameter. A step of
  \<open>hub_step\<close> is what one goroutine does while it holds a lock or between two channel operations.
\<close>

section \<open>State\<close>

text \<open>A \<open>*Client\<close>: the pointer, the user, and whether \<open>Conn\<close> is set.\<close>

record ws_client =
  wc_id :: nat
  wc_user :: string
  wc_conn :: bool

record ws_message =
  ws_type :: string
  ws_to :: string
  ws_from :: string
  ws_payload :: string
  ws_at :: int

type_synonym shard = "string \<rightharpoonup> ws_client list"

text \<open>
  The shards and channels of a \<open>Hub\<close>, and its goroutines: whether \<open>Run\<close> is in its loop, the clients in the read loop of
  \<open>handleIncoming\<close>, the deliveries under way \<open>(user, text, sockets left)\<close> and the next shard of \<open>Stop\<close>. The last three
  fields record what has happened: texts written, events published, clients for which \<open>unregister\<close> was full.
\<close>

record hub =
  hb_shards :: "shard list"
  hb_register :: "ws_client option list"
  hb_unregister :: "ws_client option list"
  hb_running :: bool
  hb_reading :: "ws_client list"
  hb_closed :: "ws_client set"
  hb_deliveries :: "(string \<times> string \<times> ws_client list) list"
  hb_stopping :: "nat option"
  hb_written :: "(string \<times> ws_client \<times> string) list"
  hb_published :: "(string \<times> ws_message) list"
  hb_dropped :: "ws_client list"

record hub_env =
  he_parse :: "string \<Rightarrow> ws_message option"
  he_marshal :: "ws_message \<Rightarrow> string option"
  he_bus :: bool                              \<comment> \<open>\<open>pub\<close> is not nil\<close>

definition ShardCount :: nat where "ShardCount = 32"
definition maxWSMessageSize :: nat where "maxWSMessageSize = 64 * 1024"
definition channel_size :: nat where "channel_size = 1024"
definition no_time :: int where "no_time = -62135596800 * 1000000000"

definition NewHub :: hub where
  "NewHub = \<lparr>hb_shards = replicate ShardCount Map.empty, hb_register = [], hb_unregister = [], hb_running = False, hb_reading = [],
     hb_closed = {}, hb_deliveries = [], hb_stopping = None, hb_written = [], hb_published = [], hb_dropped = []\<rparr>"

section \<open>Operations\<close>

text \<open>FNV-1a at 32 bits.\<close>

definition fnv :: "string \<Rightarrow> 32 word" where
  "fnv = foldl (\<lambda>h c. xor h (of_char c) * 16777619) 2166136261"

definition getShard :: "string \<Rightarrow> nat" where
  "getShard u = unat (fnv u) mod ShardCount"

definition clients_of :: "hub \<Rightarrow> string \<Rightarrow> ws_client list" where
  "clients_of h u = (case (hb_shards h ! getShard u) u of None \<Rightarrow> [] | Some cs \<Rightarrow> cs)"

definition set_shard :: "string \<Rightarrow> (shard \<Rightarrow> shard) \<Rightarrow> hub \<Rightarrow> hub" where
  "set_shard u f h = h\<lparr>hb_shards := (hb_shards h)[getShard u := f (hb_shards h ! getShard u)]\<rparr>"

definition add_client :: "ws_client \<Rightarrow> hub \<Rightarrow> hub" where
  "add_client c h =
     (set_shard (wc_user c) (\<lambda>s. s(wc_user c \<mapsto> (case s (wc_user c) of None \<Rightarrow> [] | Some cs \<Rightarrow> cs) @ [c])) h)
       \<lparr>hb_reading := hb_reading h @ [c]\<rparr>"

definition usable :: "ws_client option \<Rightarrow> bool" where
  "usable x \<longleftrightarrow> (case x of None \<Rightarrow> False | Some c \<Rightarrow> wc_conn c \<and> wc_user c \<noteq> [])"

text \<open>The cases of \<open>Run\<close>.\<close>

definition registered_case :: "ws_client option \<Rightarrow> hub \<Rightarrow> hub" where
  "registered_case x h = (if usable x then add_client (the x) h else h)"

definition unregistered_case :: "ws_client option \<Rightarrow> hub \<Rightarrow> hub" where
  "unregistered_case x h =
     (case x of
        None \<Rightarrow> h
      | Some c \<Rightarrow>
          set_shard (wc_user c) (\<lambda>s. case s (wc_user c) of
              None \<Rightarrow> s
            | Some cs \<Rightarrow> let cs = remove1 c cs in if cs = [] then s(wc_user c := None) else s(wc_user c \<mapsto> cs)) h)"

definition Serve :: "ws_client option \<Rightarrow> hub \<Rightarrow> hub" where
  "Serve x h = (if usable x then add_client (the x) h else h)"

text \<open>A frame in the read loop, and the end of \<open>handleIncoming\<close>.\<close>

definition accepted_frame :: "hub_env \<Rightarrow> int \<Rightarrow> ws_client \<Rightarrow> string \<Rightarrow> ws_message option" where
  "accepted_frame env now c frame =
     (case he_parse env frame of
        None \<Rightarrow> None
      | Some m \<Rightarrow>
          if ws_type m = [] \<or> 64 < length (ws_type m) \<or> 128 < length (ws_to m) \<or> maxWSMessageSize < length (ws_payload m) then None
          else Some (m\<lparr>ws_from := wc_user c, ws_at := (if ws_at m = no_time then now else ws_at m)\<rparr>))"

definition incoming :: "hub_env \<Rightarrow> int \<Rightarrow> ws_client \<Rightarrow> string \<Rightarrow> hub \<Rightarrow> hub" where
  "incoming env now c frame h =
     (case accepted_frame env now c frame of
        None \<Rightarrow> h
      | Some m \<Rightarrow> if ws_to m \<noteq> [] \<and> he_bus env then h\<lparr>hb_published := hb_published h @ [(''ws.route.'' @ ws_to m, m)]\<rparr> else h)"

definition close_client :: "ws_client \<Rightarrow> hub \<Rightarrow> hub" where
  "close_client c h = h\<lparr>hb_closed := insert c (hb_closed h)\<rparr>"

definition reader_ends :: "ws_client \<Rightarrow> hub \<Rightarrow> hub" where
  "reader_ends c h =
     (let h = h\<lparr>hb_reading := remove1 c (hb_reading h)\<rparr>
      in if length (hb_unregister h) < channel_size then h\<lparr>hb_unregister := hb_unregister h @ [Some c]\<rparr>
         else (close_client c h)\<lparr>hb_dropped := c # hb_dropped h\<rparr>)"

text \<open>The sockets of a delivery are copied under the lock; a text that is too long or no JSON is dropped.\<close>

definition send_text :: "string \<Rightarrow> string option \<Rightarrow> hub \<Rightarrow> hub" where
  "send_text u data h =
     (case data of
        None \<Rightarrow> h
      | Some d \<Rightarrow> if maxWSMessageSize < length d \<or> clients_of h u = [] then h
                  else h\<lparr>hb_deliveries := hb_deliveries h @ [(u, d, clients_of h u)]\<rparr>)"

definition stamped :: "int \<Rightarrow> ws_message \<Rightarrow> ws_message" where
  "stamped now m = (if ws_at m = no_time then m\<lparr>ws_at := now\<rparr> else m)"

definition LocalDelivery :: "hub_env \<Rightarrow> int \<Rightarrow> string \<Rightarrow> ws_message \<Rightarrow> hub \<Rightarrow> hub" where
  "LocalDelivery env now u m = send_text u (he_marshal env (stamped now m))"

text \<open>The payload of \<open>Broadcast\<close> is given by its JSON.\<close>

definition Broadcast :: "string \<Rightarrow> string option \<Rightarrow> hub \<Rightarrow> hub" where
  "Broadcast u payload = send_text u payload"

text \<open>One turn of the loop over the sockets of the delivery \<open>i\<close>.\<close>

definition write_next :: "nat \<Rightarrow> bool \<Rightarrow> hub \<Rightarrow> hub" where
  "write_next i fine h =
     (case hb_deliveries h ! i of (u, d, cs) \<Rightarrow>
        let c = hd cs; ds = hb_deliveries h;
            h = h\<lparr>hb_deliveries := (if tl cs = [] then take i ds @ drop (Suc i) ds else ds[i := (u, d, tl cs)])\<rparr>
        in if fine then h\<lparr>hb_written := hb_written h @ [(u, c, d)]\<rparr> else close_client c h)"

definition stop_shard :: "nat \<Rightarrow> hub \<Rightarrow> hub" where
  "stop_shard i h = h\<lparr>hb_closed := hb_closed h \<union> \<Union> (set ` ran (hb_shards h ! i)), hb_shards := (hb_shards h)[i := Map.empty]\<rparr>"
section \<open>Steps\<close>

datatype hub_label =
    Start
  | Halt
  | Offer "ws_client option"
  | Withdraw "ws_client option"
  | Connect "ws_client option"
  | Admit
  | Forget
  | Receive ws_client string int
  | Lose ws_client
  | PingFails ws_client
  | Deliver string ws_message int
  | Tell string "string option"
  | Write nat bool
  | StopCall
  | StopShard

text \<open>
  \<open>Offer\<close> and \<open>Withdraw\<close> are sends on the exported channels, \<open>Connect\<close> is \<open>Serve\<close>, \<open>Admit\<close> and \<open>Forget\<close> are the cases of \<open>Run\<close>.
  A read may fail at any time, a write as well, and it always fails on a closed socket.
\<close>

inductive hub_step :: "hub_env \<Rightarrow> hub \<Rightarrow> hub_label \<Rightarrow> hub \<Rightarrow> bool" for env where
  run_starts: "hub_step env h Start (h\<lparr>hb_running := True\<rparr>)"
| run_returns: "hub_step env h Halt (h\<lparr>hb_running := False\<rparr>)"
| offers: "length (hb_register h) < channel_size \<Longrightarrow> hub_step env h (Offer x) (h\<lparr>hb_register := hb_register h @ [x]\<rparr>)"
| withdraws: "length (hb_unregister h) < channel_size \<Longrightarrow> hub_step env h (Withdraw x) (h\<lparr>hb_unregister := hb_unregister h @ [x]\<rparr>)"
| serves: "hub_step env h (Connect x) (Serve x h)"
| admits: "hb_running h \<Longrightarrow> hb_register h = x # xs \<Longrightarrow> hub_step env h Admit (registered_case x (h\<lparr>hb_register := xs\<rparr>))"
| forgets: "hb_running h \<Longrightarrow> hb_unregister h = x # xs \<Longrightarrow> hub_step env h Forget (unregistered_case x (h\<lparr>hb_unregister := xs\<rparr>))"
| receives: "c \<in> set (hb_reading h) \<Longrightarrow> hub_step env h (Receive c frame now) (incoming env now c frame h)"
| loses: "c \<in> set (hb_reading h) \<Longrightarrow> hub_step env h (Lose c) (reader_ends c h)"
| ping_fails: "c \<in> set (hb_reading h) \<Longrightarrow> hub_step env h (PingFails c) (close_client c h)"
| delivers: "hub_step env h (Deliver u m now) (LocalDelivery env now u m h)"
| tells: "hub_step env h (Tell u payload) (Broadcast u payload h)"
| writes: "i < length (hb_deliveries h) \<Longrightarrow> hb_deliveries h ! i = (u, d, c # cs) \<Longrightarrow> fine \<longrightarrow> c \<notin> hb_closed h \<Longrightarrow>
     hub_step env h (Write i fine) (write_next i fine h)"
| stop_called: "hb_stopping h = None \<Longrightarrow> hub_step env h StopCall (h\<lparr>hb_stopping := Some 0\<rparr>)"
| stops_shard: "hb_stopping h = Some i \<Longrightarrow> i < ShardCount \<Longrightarrow> hub_step env h StopShard ((stop_shard i h)\<lparr>hb_stopping := Some (Suc i)\<rparr>)"

inductive_cases hub_step_cases: "hub_step env h l h'"
inductive_simps forget_step_iff: "hub_step env h Forget h'"
inductive_simps lose_step_iff: "hub_step env h (Lose c) h'"
inductive_simps write_step_iff: "hub_step env h (Write i fine) h'"

section \<open>Shards\<close>

lemma getShard_less [simp]: "getShard u < ShardCount"
  by (simp add: getShard_def ShardCount_def)

text \<open>The 32 shards together are one map from users to their sockets.\<close>

lemma clients_of_set_shard:
  "length (hb_shards h) = ShardCount \<Longrightarrow>
   clients_of (set_shard u f h) v =
     (if getShard v = getShard u then (case f (hb_shards h ! getShard u) v of None \<Rightarrow> [] | Some cs \<Rightarrow> cs) else clients_of h v)"
  by (auto simp: clients_of_def set_shard_def)

lemma clients_of_frame [simp]:
  "clients_of (h\<lparr>hb_register := r\<rparr>) = clients_of h" "clients_of (h\<lparr>hb_unregister := q\<rparr>) = clients_of h"
  "clients_of (h\<lparr>hb_running := b\<rparr>) = clients_of h" "clients_of (h\<lparr>hb_reading := cs\<rparr>) = clients_of h"
  "clients_of (h\<lparr>hb_closed := C\<rparr>) = clients_of h" "clients_of (h\<lparr>hb_deliveries := ds\<rparr>) = clients_of h"
  "clients_of (h\<lparr>hb_stopping := st\<rparr>) = clients_of h" "clients_of (h\<lparr>hb_written := w\<rparr>) = clients_of h"
  "clients_of (h\<lparr>hb_published := p\<rparr>) = clients_of h" "clients_of (h\<lparr>hb_dropped := dr\<rparr>) = clients_of h"
  by (simp_all add: clients_of_def fun_eq_iff)

lemma add_client_fields [simp]:
  "hb_register (add_client c h) = hb_register h" "hb_unregister (add_client c h) = hb_unregister h"
  "hb_running (add_client c h) = hb_running h" "hb_reading (add_client c h) = hb_reading h @ [c]"
  "hb_closed (add_client c h) = hb_closed h" "hb_deliveries (add_client c h) = hb_deliveries h"
  "hb_written (add_client c h) = hb_written h" "hb_dropped (add_client c h) = hb_dropped h"
  "length (hb_shards (add_client c h)) = length (hb_shards h)"
  by (simp_all add: add_client_def set_shard_def)

lemma unregistered_fields [simp]:
  "hb_register (unregistered_case x h) = hb_register h" "hb_unregister (unregistered_case x h) = hb_unregister h"
  "hb_running (unregistered_case x h) = hb_running h" "hb_reading (unregistered_case x h) = hb_reading h"
  "hb_closed (unregistered_case x h) = hb_closed h" "hb_deliveries (unregistered_case x h) = hb_deliveries h"
  "hb_written (unregistered_case x h) = hb_written h" "hb_dropped (unregistered_case x h) = hb_dropped h"
  "length (hb_shards (unregistered_case x h)) = length (hb_shards h)"
  by (auto simp: unregistered_case_def set_shard_def split: option.split)

lemma clients_of_add:
  "length (hb_shards h) = ShardCount \<Longrightarrow> clients_of (add_client c h) u = clients_of h u @ (if u = wc_user c then [c] else [])"
  by (auto simp: add_client_def clients_of_set_shard) (auto simp: clients_of_def)

lemma clients_of_unregistered:
  "length (hb_shards h) = ShardCount \<Longrightarrow>
   clients_of (unregistered_case x h) u =
     (case x of None \<Rightarrow> clients_of h u | Some c \<Rightarrow> if u = wc_user c then remove1 c (clients_of h u) else clients_of h u)"
  by (auto simp: unregistered_case_def clients_of_set_shard Let_def split: option.split) (auto simp: clients_of_def split: option.split)

lemma stop_shard_fields [simp]:
  "hb_register (stop_shard i h) = hb_register h" "hb_written (stop_shard i h) = hb_written h" "hb_deliveries (stop_shard i h) = hb_deliveries h"
  "length (hb_shards (stop_shard i h)) = length (hb_shards h)"
  by (simp_all add: stop_shard_def)

lemma clients_of_stop:
  "length (hb_shards h) = ShardCount \<Longrightarrow> clients_of (stop_shard i h) u = (if getShard u = i then [] else clients_of h u)"
  by (auto simp: clients_of_def stop_shard_def)
section \<open>Invariants\<close>

text \<open>
  Sockets are kept and served under their user, and each is accounted for: it has as many read loops, requests to be
  forgotten and refused requests as it has entries.
\<close>

definition registered :: "hub \<Rightarrow> ws_client \<Rightarrow> nat" where
  "registered h c = count_list (clients_of h (wc_user c)) c"

definition held :: "hub \<Rightarrow> ws_client \<Rightarrow> nat" where
  "held h c = count_list (hb_reading h) c + count_list (hb_unregister h) (Some c) + count_list (hb_dropped h) c"

definition of_user :: "string \<Rightarrow> ws_client list \<Rightarrow> bool" where
  "of_user u cs \<longleftrightarrow> list_all (\<lambda>c. wc_user c = u) cs"

definition delivery_ok :: "string \<times> string \<times> ws_client list \<Rightarrow> bool" where
  "delivery_ok = (\<lambda>(u, d, cs). cs \<noteq> [] \<and> of_user u cs)"

definition hub_ok :: "hub \<Rightarrow> bool" where
  "hub_ok h \<longleftrightarrow> length (hb_shards h) = ShardCount \<and> (\<forall>u. of_user u (clients_of h u)) \<and>
     list_all delivery_ok (hb_deliveries h) \<and> (\<forall>c. registered h c \<le> held h c)"

lemma count_list_remove1: "count_list (remove1 x xs) y = (if x = y then count_list xs y - 1 else count_list xs y)"
  by (induction xs) auto

lemma hub_ok_new: "hub_ok NewHub"
  by (simp add: hub_ok_def NewHub_def clients_of_def registered_def of_user_def)

lemma hub_ok_frame [simp]:
  "hub_ok (h\<lparr>hb_register := r\<rparr>) = hub_ok h" "hub_ok (h\<lparr>hb_running := b\<rparr>) = hub_ok h" "hub_ok (h\<lparr>hb_closed := C\<rparr>) = hub_ok h"
  "hub_ok (h\<lparr>hb_stopping := st\<rparr>) = hub_ok h" "hub_ok (h\<lparr>hb_written := w\<rparr>) = hub_ok h" "hub_ok (h\<lparr>hb_published := p\<rparr>) = hub_ok h"
  by (simp_all add: hub_ok_def registered_def held_def)

lemma hub_okD:
  assumes "hub_ok h"
  shows "length (hb_shards h) = ShardCount" "of_user u (clients_of h u)" "list_all delivery_ok (hb_deliveries h)" "registered h c \<le> held h c"
  using assms by (simp_all add: hub_ok_def)

lemma hub_okI:
  assumes "length (hb_shards h) = ShardCount" and "\<And>u. of_user u (clients_of h u)" and "list_all delivery_ok (hb_deliveries h)"
    and "\<And>c. registered h c \<le> held h c"
  shows "hub_ok h"
  using assms by (simp add: hub_ok_def)

lemma hub_ok_add:
  assumes "hub_ok h"
  shows "hub_ok (add_client c h)"
proof (rule hub_okI)
  note ok = hub_okD [OF assms]
  show "of_user u (clients_of (add_client c h) u)" for u using ok(2) [of u] by (simp add: clients_of_add ok(1) of_user_def)
  show "registered (add_client c h) x \<le> held (add_client c h) x" for x
    using ok(4) [of x] by (auto simp: registered_def held_def clients_of_add ok(1))
qed (use hub_okD [OF assms] in simp_all)

lemma hub_ok_withdraw:
  assumes "hub_ok h"
  shows "hub_ok (h\<lparr>hb_unregister := hb_unregister h @ [x]\<rparr>)"
proof (rule hub_okI)
  show "registered (h\<lparr>hb_unregister := hb_unregister h @ [x]\<rparr>) c \<le> held (h\<lparr>hb_unregister := hb_unregister h @ [x]\<rparr>) c" for c
    using hub_okD(4) [OF assms, of c] by (simp add: registered_def held_def)
qed (use hub_okD [OF assms] in simp_all)

lemma hub_ok_forget:
  assumes "hub_ok h" and "hb_unregister h = x # xs"
  shows "hub_ok (unregistered_case x (h\<lparr>hb_unregister := xs\<rparr>))"
proof (cases x)
  case None
  have "registered h c \<le> held (h\<lparr>hb_unregister := xs\<rparr>) c" for c
    using hub_okD(4) [OF assms(1), of c] assms(2) None by (simp add: held_def)
  then have "hub_ok (h\<lparr>hb_unregister := xs\<rparr>)" using hub_okD [OF assms(1)] by (intro hub_okI) (simp_all add: registered_def)
  then show ?thesis by (simp add: None unregistered_case_def)
next
  case (Some v)
  let ?h = "unregistered_case x (h\<lparr>hb_unregister := xs\<rparr>)"
  note ok = hub_okD [OF assms(1)]
  have clients: "clients_of ?h u = (if u = wc_user v then remove1 v (clients_of h u) else clients_of h u)" for u
    by (subst clients_of_unregistered) (simp_all add: ok(1) Some)
  show ?thesis
  proof (rule hub_okI)
    show "of_user u (clients_of ?h u)" for u
      unfolding clients using ok(2) [of u] by (auto simp: of_user_def list_all_iff dest: notin_set_remove1)
    show "registered ?h c \<le> held ?h c" for c
    proof -
      have "registered ?h c = (if v = c then registered h c - 1 else registered h c)"
        unfolding registered_def clients by (auto simp: count_list_remove1)
      moreover have "held h c = held ?h c + (if v = c then 1 else 0)" by (simp add: held_def assms(2) Some)
      ultimately show ?thesis using ok(4) [of c] by (cases "v = c") simp_all
    qed
  qed (use hub_okD [OF assms(1)] in simp_all)
qed

lemma reader_ends_fields [simp]:
  "hb_shards (reader_ends c h) = hb_shards h" "hb_running (reader_ends c h) = hb_running h" "hb_deliveries (reader_ends c h) = hb_deliveries h"
  "hb_reading (reader_ends c h) = remove1 c (hb_reading h)" "clients_of (reader_ends c h) = clients_of h"
  "hb_register (reader_ends c h) = hb_register h" "hb_written (reader_ends c h) = hb_written h"
  by (simp_all add: reader_ends_def close_client_def Let_def)

lemma hub_ok_reader_ends:
  assumes "hub_ok h" and "c \<in> set (hb_reading h)"
  shows "hub_ok (reader_ends c h)"
proof (rule hub_okI)
  have "count_list (hb_reading h) c \<noteq> 0" using assms(2) by (simp add: count_list_0_iff)
  then have "held h x \<le> held (reader_ends c h) x" for x
    by (auto simp: held_def reader_ends_def close_client_def Let_def count_list_remove1)
  then show "registered (reader_ends c h) x \<le> held (reader_ends c h) x" for x
    using hub_okD(4) [OF assms(1), of x] by (auto simp: registered_def intro: order_trans)
qed (use hub_okD [OF assms(1)] in simp_all)

lemma hub_ok_deliveries:
  "hub_ok h \<Longrightarrow> list_all delivery_ok ds \<Longrightarrow> hub_ok (h\<lparr>hb_deliveries := ds\<rparr>)"
  by (simp add: hub_ok_def registered_def held_def)

lemma hub_ok_send: "hub_ok h \<Longrightarrow> hub_ok (send_text u data h)"
  using hub_okD(2,3) by (auto simp: send_text_def delivery_ok_def split: option.split intro!: hub_ok_deliveries)

definition shortened :: "nat \<Rightarrow> (string \<times> string \<times> ws_client list) list \<Rightarrow> (string \<times> string \<times> ws_client list) list" where
  "shortened i ds = (case ds ! i of (u, d, cs) \<Rightarrow> if tl cs = [] then take i ds @ drop (Suc i) ds else ds[i := (u, d, tl cs)])"

lemma write_next_shortened:
  "hb_deliveries h ! i = (u, d, c # cs) \<Longrightarrow>
   write_next i fine h =
     (if fine then h\<lparr>hb_deliveries := shortened i (hb_deliveries h), hb_written := hb_written h @ [(u, c, d)]\<rparr>
      else h\<lparr>hb_deliveries := shortened i (hb_deliveries h), hb_closed := insert c (hb_closed h)\<rparr>)"
  by (simp add: write_next_def shortened_def Let_def close_client_def)

lemma set_shortened:
  "i < length ds \<Longrightarrow> ds ! i = (u, d, c # cs) \<Longrightarrow> x \<in> set (shortened i ds) \<Longrightarrow> x \<in> set ds \<or> (x = (u, d, cs) \<and> cs \<noteq> [])"
  by (auto simp: shortened_def split: if_splits dest: in_set_takeD in_set_dropD set_update_subset_insert [THEN subsetD])

lemma hub_ok_write:
  assumes "hub_ok h" and "i < length (hb_deliveries h)" and "hb_deliveries h ! i = (u, d, c # cs)"
  shows "hub_ok (write_next i fine h)"
proof -
  have all: "\<forall>x\<in>set (hb_deliveries h). delivery_ok x" using hub_okD(3) [OF assms(1)] by (simp add: list_all_iff)
  with assms(2,3) have "delivery_ok (u, d, c # cs)" by (metis nth_mem)
  then have "cs \<noteq> [] \<Longrightarrow> delivery_ok (u, d, cs)" by (simp add: delivery_ok_def of_user_def)
  with all have "list_all delivery_ok (shortened i (hb_deliveries h))"
    using set_shortened [OF assms(2,3)] unfolding list_all_iff by blast
  from hub_ok_deliveries [OF assms(1) this] show ?thesis by (simp add: write_next_shortened [OF assms(3)])
qed

lemma hub_ok_stop:
  assumes "hub_ok h"
  shows "hub_ok (stop_shard i h)"
proof (rule hub_okI)
  note ok = hub_okD [OF assms]
  show "of_user u (clients_of (stop_shard i h) u)" for u using ok(2) [of u] by (simp add: clients_of_stop ok(1) of_user_def)
  show "registered (stop_shard i h) c \<le> held (stop_shard i h) c" for c
    using ok(4) [of c] by (simp add: registered_def held_def clients_of_stop ok(1)) (simp add: stop_shard_def)
qed (use hub_okD [OF assms] in \<open>simp_all add: stop_shard_def\<close>)

lemma hub_ok_step: "hub_step env h l h' \<Longrightarrow> hub_ok h \<Longrightarrow> hub_ok h'"
  by (induction rule: hub_step.induct)
    (auto simp: hub_ok_withdraw hub_ok_forget hub_ok_reader_ends hub_ok_write hub_ok_stop Serve_def registered_case_def incoming_def
      close_client_def LocalDelivery_def Broadcast_def split: option.split intro!: hub_ok_add hub_ok_send)
section \<open>Who is written to\<close>

definition known :: "hub_label set \<Rightarrow> ws_client \<Rightarrow> bool" where
  "known A c \<longleftrightarrow> Connect (Some c) \<in> A \<or> Offer (Some c) \<in> A"

definition asked :: "hub_env \<Rightarrow> hub_label set \<Rightarrow> string \<Rightarrow> string \<Rightarrow> bool" where
  "asked env A u d \<longleftrightarrow> (\<exists>m now. Deliver u m now \<in> A \<and> he_marshal env (stamped now m) = Some d) \<or> Tell u (Some d) \<in> A"

definition hub_traced :: "hub_env \<Rightarrow> hub_label set \<Rightarrow> hub \<Rightarrow> bool" where
  "hub_traced env A h \<longleftrightarrow> hub_ok h \<and>
     (\<forall>u c. c \<in> set (clients_of h u) \<longrightarrow> known A c) \<and> (\<forall>c. Some c \<in> set (hb_register h) \<longrightarrow> known A c) \<and>
     (\<forall>(u, d, cs)\<in>set (hb_deliveries h). asked env A u d \<and> list_all (known A) cs) \<and>
     (\<forall>(u, c, d)\<in>set (hb_written h). asked env A u d \<and> wc_user c = u \<and> known A c)"

lemma hub_traced_mono:
  assumes "hub_traced env A h" and "A \<subseteq> B"
  shows "hub_traced env B h"
proof -
  have "known A c \<Longrightarrow> known B c" and "asked env A u d \<Longrightarrow> asked env B u d" for c u d
    using assms(2) by (auto simp: known_def asked_def)
  with assms(1) show ?thesis by (fastforce simp: hub_traced_def list_all_iff)
qed

lemma hub_tracedD:
  assumes "hub_traced env A h"
  shows "hub_ok h" "c \<in> set (clients_of h u) \<Longrightarrow> known A c" "Some c \<in> set (hb_register h) \<Longrightarrow> known A c"
    "(u, d, cs) \<in> set (hb_deliveries h) \<Longrightarrow> asked env A u d \<and> list_all (known A) cs"
    "(u, c, d) \<in> set (hb_written h) \<Longrightarrow> asked env A u d \<and> wc_user c = u \<and> known A c"
  using assms unfolding hub_traced_def by blast+

lemma hub_tracedI:
  assumes "hub_ok h" and "\<And>u c. c \<in> set (clients_of h u) \<Longrightarrow> known A c" and "\<And>c. Some c \<in> set (hb_register h) \<Longrightarrow> known A c"
    and "\<And>u d cs. (u, d, cs) \<in> set (hb_deliveries h) \<Longrightarrow> asked env A u d \<and> list_all (known A) cs"
    and "\<And>u c d. (u, c, d) \<in> set (hb_written h) \<Longrightarrow> asked env A u d \<and> wc_user c = u \<and> known A c"
  shows "hub_traced env A h"
  using assms unfolding hub_traced_def by blast

text \<open>A change that only moves what is there already.\<close>

lemma hub_traced_same:
  assumes "hub_traced env A h" and "hub_ok h'" and "\<And>u. set (clients_of h' u) \<subseteq> set (clients_of h u)"
    and "set (hb_register h') \<subseteq> set (hb_register h)" and "hb_deliveries h' = hb_deliveries h" and "hb_written h' = hb_written h"
  shows "hub_traced env A h'"
proof (rule hub_tracedI)
  note old = hub_tracedD [OF assms(1)]
  show "known A c" if "c \<in> set (clients_of h' u)" for u c using old(2) [of c u] assms(3) [of u] that by blast
  show "known A c" if "Some c \<in> set (hb_register h')" for c using old(3) assms(4) that by blast
  show "asked env A u d \<and> list_all (known A) cs" if "(u, d, cs) \<in> set (hb_deliveries h')" for u d cs using old(4) assms(5) that by simp
  show "asked env A u d \<and> wc_user c = u \<and> known A c" if "(u, c, d) \<in> set (hb_written h')" for u c d using old(5) assms(6) that by simp
qed (rule assms(2))

lemma hub_traced_add:
  assumes "hub_traced env A h" and "known A c"
  shows "hub_traced env A (add_client c h)"
proof (rule hub_tracedI)
  note old = hub_tracedD [OF assms(1)]
  show "hub_ok (add_client c h)" using old(1) by (rule hub_ok_add)
  show "known A x" if "x \<in> set (clients_of (add_client c h) u)" for u x
    using that old(2) [of x u] assms(2) by (auto simp: clients_of_add hub_okD(1) [OF old(1)] split: if_splits)
  show "known A x" if "Some x \<in> set (hb_register (add_client c h))" for x using old(3) that by simp
  show "asked env A u d \<and> list_all (known A) cs" if "(u, d, cs) \<in> set (hb_deliveries (add_client c h))" for u d cs using old(4) that by simp
  show "asked env A u d \<and> wc_user x = u \<and> known A x" if "(u, x, d) \<in> set (hb_written (add_client c h))" for u x d using old(5) that by simp
qed

lemma send_text_cases:
  "send_text u data h = h \<or> (\<exists>d. data = Some d \<and> send_text u data h = h\<lparr>hb_deliveries := hb_deliveries h @ [(u, d, clients_of h u)]\<rparr>)"
  by (auto simp: send_text_def split: option.split)

lemma hub_traced_send:
  assumes "hub_traced env A h" and "\<And>d. data = Some d \<Longrightarrow> asked env A u d"
  shows "hub_traced env A (send_text u data h)"
  using send_text_cases [of u data h]
proof (elim disjE exE conjE)
  fix d
  assume data: "data = Some d" and new: "send_text u data h = h\<lparr>hb_deliveries := hb_deliveries h @ [(u, d, clients_of h u)]\<rparr>"
  note old = hub_tracedD [OF assms(1)]
  have "hub_ok (send_text u data h)" using old(1) by (rule hub_ok_send)
  moreover have "list_all (known A) (clients_of h u)" using old(2) by (simp add: list_all_iff)
  moreover have "asked env A u d" using assms(2) data .
  ultimately show ?thesis
    unfolding new by (intro hub_tracedI) (use old(2-5) in \<open>auto\<close>)
qed (use assms in simp)

lemma hub_traced_write:
  assumes "hub_traced env A h" and "i < length (hb_deliveries h)" and "hb_deliveries h ! i = (u, d, c # cs)"
  shows "hub_traced env A (write_next i fine h)"
proof -
  note old = hub_tracedD [OF assms(1)]
  have first: "(u, d, c # cs) \<in> set (hb_deliveries h)" using assms(2,3) by (metis nth_mem)
  have here: "asked env A u d" "known A c" "list_all (known A) cs" using old(4) [OF first] by simp_all
  have "delivery_ok (u, d, c # cs)" using hub_okD(3) [OF old(1)] first by (auto simp: list_all_iff)
  then have c: "wc_user c = u" by (simp add: delivery_ok_def of_user_def)
  have short: "asked env A v x \<and> list_all (known A) ws" if "(v, x, ws) \<in> set (shortened i (hb_deliveries h))" for v x ws
    using set_shortened [OF assms(2,3) that] old(4) [of v x ws] here by blast
  have "hub_ok (write_next i fine h)" using old(1) assms(2,3) by (rule hub_ok_write)
  then show ?thesis
    by (intro hub_tracedI) (use old(2,3,5) here c short in \<open>auto simp: write_next_shortened [OF assms(3)] split: if_splits\<close>)
qed

lemma hub_traced_step: "hub_step env h l h' \<Longrightarrow> hub_traced env A h \<Longrightarrow> l \<in> A \<Longrightarrow> hub_traced env A h'"
proof (induction rule: hub_step.induct)
  case (forgets h x xs)
  have "length (hb_shards h) = ShardCount" using hub_okD(1) [OF hub_tracedD(1) [OF forgets.prems(1)]] .
  then have "set (clients_of (unregistered_case x (h\<lparr>hb_unregister := xs\<rparr>)) u) \<subseteq> set (clients_of h u)" for u
    by (subst clients_of_unregistered) (auto dest: subsetD [OF set_remove1_subset] split: option.splits if_splits)
  with forgets show ?case by (intro hub_traced_same [OF forgets.prems(1)] hub_ok_forget) (auto dest: hub_tracedD(1))
next
  case (admits h x xs)
  have old: "hub_traced env A (h\<lparr>hb_register := xs\<rparr>)"
    by (rule hub_traced_same [OF admits.prems(1)]) (use admits hub_tracedD(1) in auto)
  show ?case
  proof (cases "usable x")
    case True
    then obtain c where x: "x = Some c" by (cases x) (simp_all add: usable_def)
    then have "known A c" using hub_tracedD(3) [OF admits.prems(1), of c] admits.hyps by simp
    with old True x show ?thesis by (simp add: registered_case_def hub_traced_add)
  qed (use old in \<open>simp add: registered_case_def\<close>)
next
  case (serves h x)
  show ?case
  proof (cases "usable x")
    case True
    then obtain c where x: "x = Some c" by (cases x) (simp_all add: usable_def)
    with serves have "known A c" by (simp add: known_def)
    with serves True x show ?thesis by (simp add: Serve_def hub_traced_add)
  qed (use serves in \<open>simp add: Serve_def\<close>)
next
  case (offers h x)
  then show ?case by (intro hub_tracedI) (auto dest: hub_tracedD simp: known_def)
next
  case (stops_shard h i)
  have "length (hb_shards h) = ShardCount" using hub_okD(1) [OF hub_tracedD(1) [OF stops_shard.prems(1)]] .
  with stops_shard show ?case
    by (intro hub_traced_same [OF stops_shard.prems(1)]) (auto simp: clients_of_stop hub_ok_stop dest: hub_tracedD(1))
next
  case (loses h c)
  then show ?case
    by (intro hub_traced_same [OF loses.prems(1)]) (auto simp: hub_ok_reader_ends dest: hub_tracedD(1))
next
  case (receives c h frame now)
  then show ?case
    by (intro hub_traced_same [OF receives.prems(1)]) (auto simp: incoming_def dest: hub_tracedD(1) split: option.splits)
next
  case (withdraws h x)
  then show ?case by (intro hub_traced_same [OF withdraws.prems(1)]) (auto simp: hub_ok_withdraw dest: hub_tracedD(1))
next
  case (delivers h u m now)
  then show ?case unfolding LocalDelivery_def by (intro hub_traced_send) (auto simp: asked_def)
next
  case (tells h u payload)
  then show ?case unfolding Broadcast_def by (intro hub_traced_send) (auto simp: asked_def)
next
  case (writes i h u d c cs fine)
  then show ?case by (intro hub_traced_write)
next
  case (run_starts h)
  then show ?case by (intro hub_traced_same [OF run_starts.prems(1)]) (auto simp: close_client_def dest: hub_tracedD(1))
next
  case (run_returns h)
  then show ?case by (intro hub_traced_same [OF run_returns.prems(1)]) (auto simp: close_client_def dest: hub_tracedD(1))
next
  case (ping_fails c h)
  then show ?case by (intro hub_traced_same [OF ping_fails.prems(1)]) (auto simp: close_client_def dest: hub_tracedD(1))
next
  case (stop_called h)
  then show ?case by (intro hub_traced_same [OF stop_called.prems(1)]) (auto simp: close_client_def dest: hub_tracedD(1))
qed

lemma hub_traced_trace: "trace (hub_step env) h ls h' \<Longrightarrow> hub_traced env A h \<Longrightarrow> hub_traced env (A \<union> set ls) h'"
proof (induction arbitrary: A rule: trace.induct)
  case (trace_Cons h l h' ls h'')
  have "hub_traced env (insert l A) h'"
    by (rule hub_traced_step [OF trace_Cons.hyps(1) hub_traced_mono [OF trace_Cons.prems]]) auto
  from trace_Cons.IH [OF this] show ?case by simp
qed simp

lemma hub_traced_new: "hub_traced env {} NewHub"
  by (intro hub_tracedI) (simp_all add: hub_ok_new, simp_all add: NewHub_def clients_of_def)

text \<open>
  C28. In every interleaving of the hub's goroutines, whatever is written to a socket was sent to the user of that socket: the
  socket was connected or offered for this user, and the text is that of a delivery or a broadcast to this user.
\<close>

theorem writes_reach_addressee:
  assumes "trace (hub_step env) NewHub ls h" and "(u, c, d) \<in> set (hb_written h)"
  shows "wc_user c = u \<and> known (set ls) c \<and> asked env (set ls) u d"
  using hub_tracedD(5) [OF hub_traced_trace [OF assms(1) hub_traced_new] assms(2)] by simp
section \<open>Sockets are forgotten\<close>

text \<open>What is left to do when no sockets come and no texts are sent any more: readers end, \<open>Run\<close> forgets, texts are written.\<close>

definition ending :: "hub_label set" where
  "ending = {l. case l of Lose _ \<Rightarrow> True | Forget \<Rightarrow> True | Write _ _ \<Rightarrow> True | _ \<Rightarrow> False}"

definition hub_left :: "hub \<Rightarrow> nat" where
  "hub_left h = 2 * length (hb_reading h) + length (hb_unregister h) + sum_list (map (\<lambda>(_, _, cs). length cs) (hb_deliveries h))"

text \<open>\<open>Run\<close> is in its loop and the channel has room for everybody.\<close>

definition hub_ending :: "hub \<Rightarrow> bool" where
  "hub_ending h \<longleftrightarrow> hub_ok h \<and> hb_running h \<and> length (hb_reading h) + length (hb_unregister h) \<le> channel_size \<and> hb_dropped h = []"

definition hub_ended :: "hub \<Rightarrow> bool" where
  "hub_ended h \<longleftrightarrow> hb_reading h = [] \<and> hb_unregister h = [] \<and> hb_deliveries h = []"

lemma write_next_fields [simp]:
  assumes "hb_deliveries h ! i = (u, d, c # cs)"
  shows "hb_running (write_next i fine h) = hb_running h" "hb_reading (write_next i fine h) = hb_reading h"
    "hb_unregister (write_next i fine h) = hb_unregister h" "hb_dropped (write_next i fine h) = hb_dropped h"
    "hb_deliveries (write_next i fine h) = shortened i (hb_deliveries h)"
  by (simp_all add: write_next_shortened [OF assms])

lemma sum_shortened:
  assumes "i < length ds" and "ds ! i = (u, d, c # cs)"
  shows "sum_list (map (\<lambda>(_, _, cs). length cs) (shortened i ds)) < sum_list (map (\<lambda>(_, _, cs). length cs) ds)"
proof -
  have ds: "ds = take i ds @ (u, d, c # cs) # drop (Suc i) ds" using id_take_nth_drop [OF assms(1)] assms(2) by simp
  have "shortened i ds = take i ds @ (if cs = [] then [] else [(u, d, cs)]) @ drop (Suc i) ds"
    using assms by (simp add: shortened_def upd_conv_take_nth_drop)
  then have "sum_list (map (\<lambda>(_, _, cs). length cs) (shortened i ds)) =
      sum_list (map (\<lambda>(_, _, cs). length cs) (take i ds)) + length cs + sum_list (map (\<lambda>(_, _, cs). length cs) (drop (Suc i) ds))" by simp
  moreover have "sum_list (map (\<lambda>(_, _, cs). length cs) ds) =
      sum_list (map (\<lambda>(_, _, cs). length cs) (take i ds)) + Suc (length cs) + sum_list (map (\<lambda>(_, _, cs). length cs) (drop (Suc i) ds))"
    by (subst (1) ds) simp
  ultimately show ?thesis by simp
qed

lemma hub_ending_step:
  assumes "hub_ending h" and "hub_step env h l h'" and "l \<in> ending"
  shows "hub_ending h' \<and> hub_left h' < hub_left h"
proof -
  have ok: "hub_ok h'" using hub_ok_step [OF assms(2)] assms(1) by (simp add: hub_ending_def)
  from assms(3) consider c where "l = Lose c" | "l = Forget" | i fine where "l = Write i fine"
    by (auto simp: ending_def split: hub_label.splits)
  then show ?thesis
  proof cases
    case 1
    with assms(2) have c: "c \<in> set (hb_reading h)" and h': "h' = reader_ends c h" by (auto simp: lose_step_iff)
    then obtain n where n: "length (hb_reading h) = Suc n" by (cases "hb_reading h") auto
    with assms(1) have "length (hb_unregister h) < channel_size" by (simp add: hub_ending_def)
    with assms(1) c ok n show ?thesis
      by (simp add: h' hub_ending_def hub_left_def reader_ends_def length_remove1)
  next
    case 2
    with assms(1,2) ok show ?thesis by (auto simp: forget_step_iff hub_ending_def hub_left_def)
  next
    case 3
    with assms(2) obtain u d c cs where w: "i < length (hb_deliveries h)" "hb_deliveries h ! i = (u, d, c # cs)" "h' = write_next i fine h"
      by (auto simp: write_step_iff)
    with assms(1) ok sum_shortened [OF w(1,2)] show ?thesis by (simp add: hub_ending_def hub_left_def)
  qed
qed

lemma hub_ending_stuck:
  assumes "hub_ending h" and stuck: "\<And>l h'. l \<in> ending \<Longrightarrow> \<not> hub_step env h l h'"
  shows "hub_ended h"
proof -
  have "hb_reading h = []"
  proof (rule ccontr)
    assume "hb_reading h \<noteq> []"
    then have "hub_step env h (Lose (hd (hb_reading h))) (reader_ends (hd (hb_reading h)) h)" by (intro loses) simp
    then show False using stuck by (simp add: ending_def)
  qed
  moreover have "hb_unregister h = []"
  proof (cases "hb_unregister h")
    case (Cons x xs)
    then have "hub_step env h Forget (unregistered_case x (h\<lparr>hb_unregister := xs\<rparr>))"
      using assms(1) by (intro forgets) (simp_all add: hub_ending_def)
    then show ?thesis using stuck by (simp add: ending_def)
  qed
  moreover have "hb_deliveries h = []"
  proof (cases "hb_deliveries h")
    case (Cons x xs)
    obtain u d cs where x: "x = (u, d, cs)" by (cases x)
    have "delivery_ok x" using assms(1) Cons by (simp add: hub_ending_def hub_ok_def)
    then obtain c cs' where "cs = c # cs'" by (cases cs) (simp_all add: delivery_ok_def x)
    with Cons x have "hub_step env h (Write 0 False) (write_next 0 False h)" by (intro writes) simp_all
    then show ?thesis using stuck by (simp add: ending_def)
  qed
  ultimately show ?thesis by (simp add: hub_ended_def)
qed

interpretation hub: draining "hub_step env" ending hub_left hub_ending hub_ended for env
  by unfold_locales (use hub_ending_step hub_ending_stuck in blast)+

lemma hub_ok_trace: "trace (hub_step env) NewHub ls h \<Longrightarrow> hub_ok h"
  by (rule trace_invariant [where I = hub_ok]) (use hub_ok_new hub_ok_step in blast)+

lemma ended_empty:
  assumes "hub_ok h" and "hub_ended h" and "hb_dropped h = []"
  shows "clients_of h u = []"
proof (cases "clients_of h u")
  case (Cons c cs)
  then have "wc_user c = u" using hub_okD(2) [OF assms(1), of u] by (simp add: of_user_def)
  with Cons have "0 < registered h c" by (simp add: registered_def)
  moreover have "held h c = 0" using assms(2,3) by (simp add: held_def hub_ended_def)
  ultimately show ?thesis using hub_okD(4) [OF assms(1), of c] by simp
qed

lemma hub_ended_stuck: "hub_ended h \<Longrightarrow> l \<in> ending \<Longrightarrow> \<not> hub_step env h l h'"
  by (cases l) (auto simp: ending_def hub_ended_def lose_step_iff forget_step_iff write_step_iff)

text \<open>
  C32. While \<open>Run\<close> is in its loop, no request to forget a socket has been refused and there is room for one of each reader, the
  hub forgets all sockets once their connections end: however readers, the loop and the deliveries interleave, there are at most
  \<open>hub_left\<close> further steps, and every interleaving that cannot go on has left no user with a socket and no text to deliver.
\<close>

theorem hub_forgets:
  assumes "trace (hub_step env) NewHub ls h" and "hb_running h" and "hb_dropped h = []"
    and "length (hb_reading h) + length (hb_unregister h) \<le> channel_size"
    and "trace (hub_step env) h ws h'" and "set ws \<subseteq> ending"
  shows "length ws \<le> hub_left h \<and>
    ((\<nexists>l h''. l \<in> ending \<and> hub_step env h' l h'') \<longrightarrow> (\<forall>u. clients_of h' u = []) \<and> hb_deliveries h' = [])"
proof -
  have start: "hub_ending h" using hub_ok_trace [OF assms(1)] assms(2-4) by (simp add: hub_ending_def)
  note b = hub.bounded [OF assms(5,6) start]
  have "(\<forall>u. clients_of h' u = []) \<and> hb_deliveries h' = []" if "\<nexists>l h''. l \<in> ending \<and> hub_step env h' l h''"
  proof -
    from b have ending: "hub_ending h'" by simp
    have ended: "hub_ended h'" using that by (intro hub.stuck [where env = env] ending) blast
    with ending ended_empty show ?thesis by (auto simp: hub_ending_def hub_ended_def)
  qed
  with b show ?thesis by auto
qed

text \<open>With the channel full, as it stays once \<open>Run\<close> has returned, the socket of a reader that ends stays in its shard.\<close>

lemma full_channel_keeps_socket:
  assumes "channel_size \<le> length (hb_unregister h)"
  shows "clients_of (reader_ends c h) = clients_of h" and "hb_unregister (reader_ends c h) = hb_unregister h"
    and "hb_dropped (reader_ends c h) = c # hb_dropped h"
  using assms by (simp_all add: reader_ends_def close_client_def Let_def)

section \<open>Stopping\<close>

text \<open>\<open>Stop\<close> empties the shards one after the other, so a socket that is connected meanwhile to a shard it has left stays.\<close>

definition stop_all :: "hub \<Rightarrow> hub" where
  "stop_all h = foldl (\<lambda>h i. stop_shard i h) h [0..<ShardCount]"

lemma stop_shard_closes:
  assumes "getShard u = i"
  shows "set (clients_of h u) \<subseteq> hb_closed (stop_shard i h)"
proof (cases "(hb_shards h ! i) u")
  case (Some cs)
  then have "cs \<in> ran (hb_shards h ! i)" by (rule ranI)
  then show ?thesis using assms Some by (auto simp: clients_of_def stop_shard_def)
qed (simp add: clients_of_def assms)

lemma stop_from:
  "length (hb_shards h) = ShardCount \<Longrightarrow> n \<le> ShardCount \<Longrightarrow>
   let h' = foldl (\<lambda>h i. stop_shard i h) h [0..<n]
   in length (hb_shards h') = ShardCount \<and> hb_closed h \<subseteq> hb_closed h' \<and>
      (\<forall>u. clients_of h' u = (if getShard u < n then [] else clients_of h u)) \<and>
      (\<forall>u. getShard u < n \<longrightarrow> set (clients_of h u) \<subseteq> hb_closed h')"
proof (induction n)
  case (Suc n)
  let ?h = "foldl (\<lambda>h i. stop_shard i h) h [0..<n]"
  from Suc have ih: "length (hb_shards ?h) = ShardCount" "hb_closed h \<subseteq> hb_closed ?h"
    "clients_of ?h u = (if getShard u < n then [] else clients_of h u)" "getShard u < n \<Longrightarrow> set (clients_of h u) \<subseteq> hb_closed ?h" for u
    by (simp_all add: Let_def)
  have here: "set (clients_of h u) \<subseteq> hb_closed (stop_shard n ?h)" if "getShard u = n" for u
    using stop_shard_closes [OF that, of ?h] ih(3) [of u] that by simp
  have grows: "hb_closed g \<subseteq> hb_closed (stop_shard n g)" for g by (simp add: stop_shard_def)
  show ?case
    using ih(1) order_trans [OF ih(2) grows [of ?h]] order_trans [OF ih(4) grows [of ?h]] here
    by (simp add: Let_def clients_of_stop ih(1,3) less_Suc_eq)
qed simp

text \<open>When nothing else happens, \<open>Stop\<close> closes every socket there is and leaves none.\<close>

lemma stop_closes_all:
  "hub_ok h \<Longrightarrow> clients_of (stop_all h) u = [] \<and> set (clients_of h u) \<subseteq> hb_closed (stop_all h)"
  using stop_from [of h ShardCount] hub_okD(1) by (simp add: Let_def stop_all_def)
section \<open>The event bridge\<close>

text \<open>The values of a JSON object, as far as \<open>stringValue\<close> looks at them.\<close>

datatype json = JString string | JOther

record bridge_env =
  be_chat :: chat_env
  be_envelope :: "string \<Rightarrow> (string \<times> string) option"       \<comment> \<open>type and raw payload\<close>
  be_object :: "string \<Rightarrow> (string \<rightharpoonup> json) option"         \<comment> \<open>\<open>null\<close> is the empty object\<close>

definition stringValue :: "json option \<Rightarrow> string" where
  "stringValue v = (case v of Some (JString s) \<Rightarrow> s | _ \<Rightarrow> [])"

fun firstNonEmpty :: "string list \<Rightarrow> string" where
  "firstNonEmpty [] = []"
| "firstNonEmpty (v # vs) = (if v \<noteq> [] then v else firstNonEmpty vs)"

definition event_payload :: "bridge_env \<Rightarrow> string \<Rightarrow> (string \<times> string \<times> (string \<rightharpoonup> json)) option" where
  "event_payload env data =
     (case be_envelope env data of
        None \<Rightarrow> None
      | Some (t, raw) \<Rightarrow> if t = [] then None
                         else (case (if raw = [] then Some Map.empty else be_object env raw) of None \<Rightarrow> None | Some p \<Rightarrow> Some (t, raw, p)))"

text \<open>The room and the sender of an event; without a room it is that of the message, if there is one.\<close>

definition event_room :: "bridge_env \<Rightarrow> (string \<rightharpoonup> json) \<Rightarrow> chat_db session \<Rightarrow> (string \<times> string) \<times> chat_db session" where
  "event_room env p s =
     (let room = stringValue (p ''room_id''); mid = stringValue (p ''message_id'');
          sender = firstNonEmpty [stringValue (p ''sender_id''), stringValue (p ''author_id''), stringValue (p ''user_id'')]
      in if room = [] \<and> mid \<noteq> []
         then (case GetMessageByID (be_chat env) mid s of
                 (Inl _, s') \<Rightarrow> ((room, sender), s')
               | (Inr m, s') \<Rightarrow> ((m_room m, if sender = [] then m_sender m else sender), s'))
         else ((room, sender), s))"

definition bridge_handler :: "bridge_env \<Rightarrow> int \<Rightarrow> string \<Rightarrow> chat_db session \<Rightarrow> (string \<times> ws_message) list \<times> chat_db session" where
  "bridge_handler env now data s =
     (case event_payload env data of
        None \<Rightarrow> ([], s)
      | Some (t, raw, p) \<Rightarrow>
          (case event_room env p s of ((room, sender), s) \<Rightarrow>
             if room = [] then ([], s)
             else (case GetRoomMembers (be_chat env) room s of
                     (Inl _, s) \<Rightarrow> ([], s)
                   | (Inr ms, s) \<Rightarrow>
                       (map (\<lambda>(u, _). (u, \<lparr>ws_type = t, ws_to = u, ws_from = sender, ws_payload = raw, ws_at = now\<rparr>))
                          (filter (\<lambda>(u, _). u \<noteq> []) ms), s))))"

text \<open>An event on the bus: each of the deliveries in turn.\<close>

definition bridge_event ::
  "bridge_env \<Rightarrow> hub_env \<Rightarrow> int \<Rightarrow> string \<Rightarrow> chat_db session \<Rightarrow> hub \<Rightarrow> hub \<times> chat_db session" where
  "bridge_event env henv now data s h =
     (case bridge_handler env now data s of (out, s) \<Rightarrow> (foldl (\<lambda>h (u, m). LocalDelivery henv now u m h) h out, s))"

text \<open>The rooms that an event names: by itself, or by its message.\<close>

definition names_room :: "chat_env \<Rightarrow> (string \<rightharpoonup> json) \<Rightarrow> chat_db \<Rightarrow> uuid \<Rightarrow> bool" where
  "names_room env p d r \<longleftrightarrow> mg_scan env (stringValue (p ''room_id'')) = Inr r \<or>
     list_ex (\<lambda>m. mg_scan env (trim_space (stringValue (p ''message_id''))) = Inr (cm_id m) \<and> cm_room m = r) (messages d)"

lemma message_read:
  assumes "GetMessageByID env mid s = (r, s')"
  shows "durable s' = durable s"
    and "r = Inr m \<Longrightarrow> \<exists>x\<in>set (messages (durable s)). mg_scan env (trim_space mid) = Inr (cm_id x) \<and> m_room m = mg_show env (cm_room x)"
proof -
  have reads: "reads (message_by_id_stmt k)" for k by (auto simp: reads_def message_by_id_stmt_def split: list.splits)
  show "durable s' = durable s"
  proof (cases "mg_scan env (trim_space mid)")
    case (Inr k)
    obtain r1 s1 where run: "autocommit (message_by_id_stmt k) s = (r1, s1)" by fastforce
    from autocommit_cases(1) [OF run] reads [of k] have "durable s1 = durable s" by (auto simp: reads_def)
    with assms Inr run show ?thesis by (auto simp: GetMessageByID_def dbind_def dmap_err_def dreturn_def split: sum.splits)
  qed (use assms in \<open>simp add: GetMessageByID_def dfail_def\<close>)
  assume "r = Inr m"
  with assms obtain k x s1 where k: "mg_scan env (trim_space mid) = Inr k" and run: "autocommit (message_by_id_stmt k) s = (Inr x, s1)"
    and m: "m_room m = mg_show env (cm_room x)"
    by (auto simp: GetMessageByID_def dbind_def dmap_err_def dreturn_def dfail_def split: sum.splits prod.splits)
  from autocommit_cases(2) [OF run refl]
  obtain xs where "sort_key (\<lambda>m. - cm_created m) (filter (\<lambda>m. cm_id m = k) (messages (durable s))) = x # xs"
    by (auto simp: message_by_id_stmt_def split: list.splits)
  then have "x \<in> set (sort_key (\<lambda>m. - cm_created m) (filter (\<lambda>m. cm_id m = k) (messages (durable s))))" by simp
  with k m show "\<exists>x\<in>set (messages (durable s)). mg_scan env (trim_space mid) = Inr (cm_id x) \<and> m_room m = mg_show env (cm_room x)"
    by auto
qed

lemma members_read:
  assumes "GetRoomMembers env room s = (Inr ms, s')" and "(u, z) \<in> set ms"
  shows "\<exists>r v. mg_scan env room = Inr r \<and> member_in (durable s) r v \<and> u = mg_show env v"
proof -
  from assms(1) obtain us s1 where run: "autocommit (as_uuid env room room_members_stmt) s = (Inr us, s1)"
    and ms: "ms = map (\<lambda>u. (mg_show env (cu_id u), cu_username u, cu_email u)) us"
    by (auto simp: GetRoomMembers_def dbind_def dreturn_def split: sum.splits prod.splits)
  from autocommit_cases(2) [OF run refl] assms(2) ms show ?thesis
    by (auto simp: as_uuid_def room_members_stmt_def split: sum.splits)
qed

lemma bridge_targets:
  assumes "\<And>r. mg_scan (be_chat env) (mg_show (be_chat env) r) = Inr r"
    and "bridge_handler env now data s = (out, s')" and "(u, m) \<in> set out"
  shows "\<exists>t raw p r v. event_payload env data = Some (t, raw, p) \<and> names_room (be_chat env) p (durable s) r \<and>
    member_in (durable s) r v \<and> u = mg_show (be_chat env) v"
proof -
  from assms(2,3) obtain t raw p where payload: "event_payload env data = Some (t, raw, p)"
    by (auto simp: bridge_handler_def split: option.splits)
  obtain room sender s1 where room: "event_room env p s = ((room, sender), s1)" by (metis prod.exhaust)
  from assms(2,3) payload room obtain ms z s2 where members: "GetRoomMembers (be_chat env) room s1 = (Inr ms, s2)" "(u, z) \<in> set ms"
    by (auto simp: bridge_handler_def split: sum.splits prod.splits if_splits)
  from members_read [OF members] obtain r v where r: "mg_scan (be_chat env) room = Inr r" "member_in (durable s1) r v" "u = mg_show (be_chat env) v"
    by blast
  have same: "durable s1 = durable s"
    using room by (auto simp: event_room_def Let_def dest: message_read(1) split: if_splits sum.splits prod.splits)
  consider "room = stringValue (p ''room_id'')" | x s3 where "GetMessageByID (be_chat env) (stringValue (p ''message_id'')) s = (Inr x, s3)" "room = m_room x"
    using room by (auto simp: event_room_def Let_def split: if_splits sum.splits prod.splits)
  then have "names_room (be_chat env) p (durable s) r"
  proof cases
    case 1
    with r(1) show ?thesis by (simp add: names_room_def)
  next
    case 2
    from message_read(2) [OF 2(1) refl] obtain y where y: "y \<in> set (messages (durable s))"
      "mg_scan (be_chat env) (trim_space (stringValue (p ''message_id''))) = Inr (cm_id y)" "m_room x = mg_show (be_chat env) (cm_room y)" by blast
    with 2(2) r(1) assms(1) have "cm_room y = r" by simp
    with y(1,2) show ?thesis by (auto simp: names_room_def list_ex_iff)
  qed
  with payload r same show ?thesis by auto
qed

lemma deliveries_added:
  "hub_ok h \<Longrightarrow> (u, d, cs) \<in> set (hb_deliveries (foldl (\<lambda>h (u, m). LocalDelivery henv now u m h) h out)) \<Longrightarrow>
   (u, d, cs) \<in> set (hb_deliveries h) \<or> (of_user u cs \<and> (\<exists>m. (u, m) \<in> set out))"
proof (induction out arbitrary: h)
  case (Cons x out)
  obtain v m where x: "x = (v, m)" by (cases x)
  let ?h = "LocalDelivery henv now v m h"
  have "hub_ok ?h" using Cons.prems(1) by (simp add: LocalDelivery_def hub_ok_send)
  from Cons.IH [OF this] Cons.prems(2) x have "(u, d, cs) \<in> set (hb_deliveries ?h) \<or> (of_user u cs \<and> (\<exists>m. (u, m) \<in> set out))" by simp
  moreover have "(u, d, cs) \<in> set (hb_deliveries h) \<or> (v = u \<and> of_user u cs)" if "(u, d, cs) \<in> set (hb_deliveries ?h)"
    using send_text_cases [of v "he_marshal henv (stamped now m)" h] that hub_okD(2) [OF Cons.prems(1), of u]
    by (auto simp: LocalDelivery_def)
  ultimately show ?case using x by auto
qed simp

text \<open>
  C27. An event of the bus reaches only members: each delivery that it adds to a hub goes to sockets of one user, who is a
  member of a room that the event names, by itself or by its message, at that moment.
\<close>

theorem events_reach_members:
  assumes "\<And>r. mg_scan (be_chat env) (mg_show (be_chat env) r) = Inr r" and "trace (hub_step henv) NewHub ls h"
    and "bridge_event env henv now data s h = (h', s')" and "(u, d, cs) \<in> set (hb_deliveries h')"
  shows "(u, d, cs) \<in> set (hb_deliveries h) \<or> of_user u cs \<and>
    (\<exists>t raw p r v. event_payload env data = Some (t, raw, p) \<and> names_room (be_chat env) p (durable s) r \<and>
       member_in (durable s) r v \<and> u = mg_show (be_chat env) v)"
proof -
  obtain out s1 where out: "bridge_handler env now data s = (out, s1)" by fastforce
  with assms(3) have "h' = foldl (\<lambda>h (u, m). LocalDelivery henv now u m h) h out" by (simp add: bridge_event_def)
  with deliveries_added [OF hub_ok_trace [OF assms(2)], of u d cs henv now out] assms(4)
    bridge_targets [OF assms(1) out] show ?thesis by blast
qed

section \<open>Opening sockets\<close>

text \<open>\<open>GET /ws\<close>: a status, or the client that is served. \<open>n\<close> is the address of the new client.\<close>

definition handle_ws ::
  "jwt_lib \<Rightarrow> (string \<Rightarrow> string) \<Rightarrow> string \<Rightarrow> bool \<Rightarrow> int \<Rightarrow> string \<Rightarrow> string \<Rightarrow> string \<Rightarrow> bool \<Rightarrow> nat \<Rightarrow> redis session \<Rightarrow>
   (int + ws_client) \<times> redis session" where
  "handle_ws lib digest secret rdb now token addr agent upgrade n s =
     (if trim_space token = [] then (Inl 401, s)
      else (case ValidateToken lib now (trim_space token) secret of
              Inl _ \<Rightarrow> (Inl 401, s)
            | Inr c \<Rightarrow>
                (case CheckTokenBlacklist rdb (TokenID c) s of
                   ((blacklisted, e), s) \<Rightarrow>
                     if e \<noteq> None \<or> blacklisted then (Inl 401, s)
                     else if Fingerprint c \<noteq> [] \<and> GenerateFingerprint digest addr agent \<noteq> Fingerprint c then (Inl 401, s)
                     else if \<not> upgrade then (Inl 426, s)
                     else (Inr \<lparr>wc_id = n, wc_user = UserID c, wc_conn = True\<rparr>, s))))"

text \<open>
  A socket is opened only for the subject of a token that this service has signed, that has not expired, that is not on
  the blacklist and whose fingerprint, if it has one, is that of the request; with Redis missing or failing none is opened.
\<close>

theorem sockets_are_authentic:
  assumes "jwt_sound lib" and "handle_ws lib digest secret rdb now token addr agent upgrade n s = (Inr c, s')"
  shows "\<exists>k. sign lib HS256 secret k = Inr (trim_space token) \<and> Issuer k = tokenIssuer \<and> tokenAudience \<in> set (Audience k) \<and>
    now < ExpiresAt k * sec \<and> wc_user c = Subject k \<and> usable (Some c) \<and> rdb \<and>
    rlookup (bl_key (TokenID k)) (durable s) \<noteq> Some (RStr ''1'') \<and>
    (Fingerprint k = [] \<or> Fingerprint k = GenerateFingerprint digest addr agent)"
proof -
  from assms(2) obtain k where k: "ValidateToken lib now (trim_space token) secret = Inr k"
    by (auto simp: handle_ws_def split: if_splits sum.splits)
  obtain r s1 where b: "CheckTokenBlacklist rdb (TokenID k) s = (r, s1)" by fastforce
  with assms(2) k have r: "r = (False, None)" and c: "c = \<lparr>wc_id = n, wc_user = UserID k, wc_conn = True\<rparr>"
    and fp: "Fingerprint k = [] \<or> Fingerprint k = GenerateFingerprint digest addr agent"
    by (auto simp: handle_ws_def split: if_splits prod.splits)
  from ValidateToken_sound [OF assms(1) k] CheckTokenBlacklist_reads(2) [OF b r] fp show ?thesis
    by (intro exI [of _ k]) (auto simp: c usable_def)
qed

section \<open>The SFU router\<close>

record room_state =
  participants :: "string \<rightharpoonup> int"
  is_master :: bool
  master_node :: string

type_synonym sfu = "string \<rightharpoonup> room_state"

definition HandleParticipantJoin :: "int \<Rightarrow> string \<Rightarrow> string \<Rightarrow> sfu \<Rightarrow> sfu" where
  "HandleParticipantJoin now room u r =
     (let st = (case r room of None \<Rightarrow> \<lparr>participants = Map.empty, is_master = False, master_node = []\<rparr> | Some st \<Rightarrow> st)
      in r(room \<mapsto> st\<lparr>participants := (participants st)(u \<mapsto> now)\<rparr>))"

definition isNodeDown :: "string \<Rightarrow> bool" where "isNodeDown n = False"

definition reconcileRooms :: "sfu \<Rightarrow> sfu" where
  "reconcileRooms r = (\<lambda>room. map_option (\<lambda>st. if \<not> is_master st \<and> isNodeDown (master_node st)
     then st\<lparr>is_master := True, master_node := ''local-titan-01''\<rparr> else st) (r room))"

text \<open>The takeover that the comment of \<open>SFURouter\<close> promises never happens.\<close>

lemma takeover_never_happens: "reconcileRooms r = r"
  by (simp add: reconcileRooms_def isNodeDown_def fun_eq_iff option.map_ident)

text \<open>Whoever joins is a participant, with the time of the last join.\<close>

lemma joined_participates:
  "(\<exists>st. HandleParticipantJoin now room u r room = Some st \<and> participants st u = Some now) \<and>
   (v \<noteq> u \<longrightarrow> Option.bind (HandleParticipantJoin now room u r room) (\<lambda>st. participants st v) = Option.bind (r room) (\<lambda>st. participants st v))"
  by (auto simp: HandleParticipantJoin_def Let_def split: option.split)
section \<open>Concrete runs\<close>

definition rt_demo_env :: hub_env where
  "rt_demo_env = \<lparr>he_parse = (\<lambda>_. None), he_marshal = (\<lambda>m. Some ''x''), he_bus = False\<rparr>"

definition rt_demo_client :: ws_client where
  "rt_demo_client = \<lparr>wc_id = 0, wc_user = ''2'', wc_conn = True\<rparr>"

definition rt_demo_message :: ws_message where
  "rt_demo_message = \<lparr>ws_type = ''t'', ws_to = ''2'', ws_from = [], ws_payload = [], ws_at = 0\<rparr>"

definition rt_demo_hub :: hub where
  "rt_demo_hub = Serve (Some rt_demo_client) (NewHub\<lparr>hb_running := True\<rparr>)"

lemma rt_demo_fields:
  "hb_running rt_demo_hub" "hb_reading rt_demo_hub = [rt_demo_client]" "hb_unregister rt_demo_hub = []" "hb_dropped rt_demo_hub = []"
  "hb_deliveries rt_demo_hub = []" "hb_written rt_demo_hub = []" "hb_closed rt_demo_hub = {}" "wc_user rt_demo_client = ''2''"
  by (simp_all add: rt_demo_hub_def Serve_def usable_def rt_demo_client_def NewHub_def)

lemma rt_demo_clients: "clients_of rt_demo_hub u = (if u = ''2'' then [rt_demo_client] else [])"
proof -
  have new: "clients_of NewHub u = []" "length (hb_shards (NewHub\<lparr>hb_running := True\<rparr>)) = ShardCount" by (simp_all add: NewHub_def clients_of_def)
  have "usable (Some rt_demo_client)" by (simp add: usable_def rt_demo_client_def)
  then show ?thesis by (simp add: rt_demo_hub_def Serve_def clients_of_add [OF new(2)] new(1) rt_demo_fields(8))
qed

lemma rt_demo_trace: "trace (hub_step env) NewHub [Start, Connect (Some rt_demo_client)] rt_demo_hub"
  unfolding rt_demo_hub_def trace_simps by (blast intro: run_starts serves)

lemma rt_demo_written:
  "\<exists>h. trace (hub_step rt_demo_env) rt_demo_hub [Deliver ''2'' rt_demo_message 5, Write 0 True] h \<and> hb_written h = [(''2'', rt_demo_client, ''x'')]"
proof -
  let ?h = "LocalDelivery rt_demo_env 5 ''2'' rt_demo_message rt_demo_hub"
  have h: "?h = rt_demo_hub\<lparr>hb_deliveries := [(''2'', ''x'', [rt_demo_client])]\<rparr>"
    by (simp add: LocalDelivery_def send_text_def rt_demo_env_def rt_demo_clients rt_demo_fields maxWSMessageSize_def)
  have "hub_step rt_demo_env ?h (Write 0 True) (write_next 0 True ?h)"
    by (rule writes [where u = "''2''" and d = "''x''" and c = rt_demo_client and cs = "[]"]) (simp_all add: h rt_demo_fields)
  moreover have "hb_written (write_next 0 True ?h) = [(''2'', rt_demo_client, ''x'')]"
    by (simp add: h write_next_shortened rt_demo_fields)
  ultimately show ?thesis unfolding trace_simps using delivers by blast
qed

lemma trace_append: "trace step s ls s' \<Longrightarrow> trace step s' ws s'' \<Longrightarrow> trace step s (ls @ ws) s''"
  by (induction rule: trace.induct) auto

theorem writes_reach_addressee_witness:
  "asked rt_demo_env (set [Start, Connect (Some rt_demo_client), Deliver ''2'' rt_demo_message 5, Write 0 True]) ''2'' ''x''"
proof -
  obtain h where h: "trace (hub_step rt_demo_env) rt_demo_hub [Deliver ''2'' rt_demo_message 5, Write 0 True] h"
    "hb_written h = [(''2'', rt_demo_client, ''x'')]" using rt_demo_written by blast
  from trace_append [OF rt_demo_trace h(1)]
  have "trace (hub_step rt_demo_env) NewHub [Start, Connect (Some rt_demo_client), Deliver ''2'' rt_demo_message 5, Write 0 True] h" by simp
  from writes_reach_addressee [OF this, of "''2''" rt_demo_client "''x''"] h(2) show ?thesis by simp
qed

theorem hub_forgets_witness:
  "clients_of rt_demo_hub ''2'' \<noteq> [] \<and>
   (\<exists>ws h. set ws \<subseteq> ending \<and> trace (hub_step rt_demo_env) rt_demo_hub ws h \<and> length ws \<le> hub_left rt_demo_hub \<and> clients_of h ''2'' = [])"
proof -
  have room: "length (hb_reading rt_demo_hub) + length (hb_unregister rt_demo_hub) \<le> channel_size"
    by (simp add: rt_demo_fields channel_size_def)
  have "hub_ending rt_demo_hub" using hub_ok_trace [OF rt_demo_trace] room rt_demo_fields(1,4) by (simp add: hub_ending_def)
  from hub.drains [OF this, of rt_demo_env] obtain ws h where ws: "set ws \<subseteq> ending" "trace (hub_step rt_demo_env) rt_demo_hub ws h" "hub_ended h"
    by blast
  from hub_forgets [OF rt_demo_trace rt_demo_fields(1,4) room ws(2,1)] hub_ended_stuck [OF ws(3)] ws(1,2) show ?thesis
    by (simp add: rt_demo_clients) blast
qed

text \<open>An event of the room 7, whose members are the users 1 and 2.\<close>

definition rt_demo_bridge :: bridge_env where
  "rt_demo_bridge = \<lparr>be_chat = chat_demo_env, be_envelope = (\<lambda>x. Some (''t'', x)), be_object = (\<lambda>x. Some [''room_id'' \<mapsto> JString x])\<rparr>"

lemma rt_demo_event:
  "hb_deliveries (fst (bridge_event rt_demo_bridge rt_demo_env 5 ''7'' (chat_demo False) rt_demo_hub)) = [(''2'', ''x'', [rt_demo_client])]"
proof -
  have show2: "mg_show chat_demo_env 1 = ''1''" "mg_show chat_demo_env 2 = ''2''"
    by (simp_all add: chat_demo_env_def show_nat.simps digit_char_def char_of_def bit_simps)
  have members: "GetRoomMembers chat_demo_env ''7'' (chat_demo False) = (Inr [(''1'', ''u'', ''e''), (''2'', ''u'', ''e'')], chat_demo False)"
    by (simp add: GetRoomMembers_def as_uuid_def autocommit_def next_outcome_def dbind_def dreturn_def room_members_stmt_def member_in_def
        chat_demo_def chat_demo_db_def chat_demo_user_def show2)
  have room: "event_room rt_demo_bridge [''room_id'' \<mapsto> JString ''7''] (chat_demo False) = ((''7'', []), chat_demo False)"
    by (simp add: event_room_def stringValue_def Let_def)
  have payload: "event_payload rt_demo_bridge ''7'' = Some (''t'', ''7'', [''room_id'' \<mapsto> JString ''7''])"
    by (simp add: event_payload_def rt_demo_bridge_def)
  show ?thesis
    by (simp add: bridge_event_def bridge_handler_def payload room) (simp add: rt_demo_bridge_def members LocalDelivery_def send_text_def
        rt_demo_env_def rt_demo_clients rt_demo_fields maxWSMessageSize_def)
qed

theorem events_reach_members_witness:
  "\<exists>r v. member_in (chat_demo_db False) r v \<and> ''2'' = mg_show chat_demo_env v"
proof -
  obtain h' s' where event: "bridge_event rt_demo_bridge rt_demo_env 5 ''7'' (chat_demo False) rt_demo_hub = (h', s')" by fastforce
  have ids: "mg_scan (be_chat rt_demo_bridge) (mg_show (be_chat rt_demo_bridge) r) = Inr r" for r
    by (simp add: rt_demo_bridge_def chat_demo_ids)
  have "(''2'', ''x'', [rt_demo_client]) \<in> set (hb_deliveries h')" using rt_demo_event event by simp
  from events_reach_members [OF ids rt_demo_trace event this] show ?thesis
    by (simp add: rt_demo_fields) (auto simp: rt_demo_bridge_def chat_demo_def)
qed

theorem sockets_are_authentic_witness:
  "\<exists>c s k. handle_ws demo_jwt (\<lambda>_. ''fp'') ''key'' True 5 ''tok'' ''10.0.0.1'' ''ua'' True 0 (demo_redis no_redis) = (Inr c, s) \<and>
     sign demo_jwt HS256 ''key'' k = Inr ''tok'' \<and> wc_user c = Subject k"
proof -
  obtain c s where run: "handle_ws demo_jwt (\<lambda>_. ''fp'') ''key'' True 5 ''tok'' ''10.0.0.1'' ''ua'' True 0 (demo_redis no_redis) = (Inr c, s)"
    by (simp add: handle_ws_def ValidateToken_def demo_trim demo_jwt_def key_func_def sec_def demo_claims_def CheckTokenBlacklist_def
        autocommit_def next_outcome_def demo_redis_def GET_def rlookup_def no_redis_def GenerateFingerprint_def)
  with sockets_are_authentic [OF demo_jwt_ok(1) run] show ?thesis by (auto simp: demo_trim)
qed

end
