(* ===== verification/Spec2Isabelle.thy ===== *)
theory Spec2Isabelle
  imports Finance LruCache CircuitBreaker Feeds RateLimit Idempotency Auth Marketplace Growth Social Messaging Content Community Stories Developer Notifications Identity Workers Realtime
begin

text \<open>
  Verification development for the Merope backend (Go, under \<open>src/backend\<close>): a social platform with wallets, a shop,
  a progression engine, a follow graph, posts and chat, served over HTTP, with its state in PostgreSQL and Redis.

  \<^bold>\<open>Layers.\<close> \<open>Prelude\<close> holds errors, results and string functions of Go. \<open>Database\<close> is the driver: a repository method is
  a sequence of calls on a session, each of which may fail or lose its acknowledgement; tables are lists of records,
  statements are functions on them. Its locales carry the proofs: \<open>transactional\<close> (a method does what a pure
  statement does, or nothing) and \<open>evolution\<close> (a method changes the tables as a preorder allows, whatever fails).
  \<open>Redis\<close> does the same for the commands and scripts used on Redis.

  \<^bold>\<open>Components.\<close> Each theory gives the records of its component, one definition per statement, repository method,
  service method and handler, and then its lemmas and properties.
    \<^item> \<open>Finance\<close>: \<open>modules/finance\<close> (wallets, transfers, escrow). Funds are conserved, escrows are paid once.
    \<^item> \<open>Marketplace\<close>: \<open>modules/marketplace\<close>. Orders add up, stock is reserved, ratings are means.
    \<^item> \<open>Growth\<close>: \<open>modules/growth\<close>. Events are rewarded once, levels and streaks are what they count; experience
      points wrap around at 64 bits, as the code's do.
    \<^item> \<open>Social\<close>: \<open>modules/social\<close> and the queries it calls. Who may follow, ask, answer and look; the veritas guard of
      \<open>RateLimit\<close> and the caches of \<open>LruCache\<close> are used as the service uses them.
    \<^item> \<open>Messaging\<close>: \<open>modules/messaging\<close> over PostgreSQL. A request changes what its user owns, in rooms of the user; history
      pages (the order of messages of one instant is left open), read marks, end-to-end rooms and the sequence numbers of the
      Aegis guard.
    \<^item> \<open>Content\<close>: \<open>modules/content\<close> over PostgreSQL, on the graph of \<open>Social\<close>. Who may read and change posts, comments and
      resonances; polls count every voter once; the guard of \<open>RateLimit\<close> confirms no text twice.
    \<^item> \<open>Community\<close>: \<open>modules/community\<close>. Communities with their members and guidelines, events, collectives, threads and
      subscriptions. Owners alone change their communities, private communities are closed. No migration gives the memberships
      a key, and without one a banned user joins again (\<open>ban_evaded_without_key\<close>).
    \<^item> \<open>Stories\<close>: \<open>modules/stories\<close>, on the graph of \<open>Social\<close>. Who may mark a story. No migration creates the column \<open>is_archived\<close> that its
      statements read: whether it exists is part of the state (\<open>no_column_no_stories\<close>).
    \<^item> \<open>Developer\<close>: \<open>modules/developer\<close>. Applications, keys, webhooks and bots are changed and shown to their owner alone. No key
      is ever issued: its empty whitelist is a \<open>NULL\<close> in a column without (\<open>no_key_is_issued\<close>).
    \<^item> \<open>Notifications\<close>: \<open>modules/notifications\<close>. The pages of the inbox show every notification once; marks are the user's own.
    \<^item> \<open>Identity\<close>: \<open>modules/identity\<close>. Sign-in needs the password, a second factor needs the stored challenge and a code.
      A verification reads its challenge in one step and redeems it in another: in every interleaving no verification that begins
      after a session was opened opens another, and two that overlap can (\<open>overlapping_verifications\<close>).
    \<^item> \<open>Auth\<close>: \<open>core/security\<close> tokens and the authentication middleware. A revoked token is refused while its entry lives; a refresh token
      is redeemed once for each of the entries, current and legacy, that are stored for it.
    \<^item> \<open>Password\<close>: \<open>core/security/password.go\<close> on the decimal, scanning and base64 routines of \<open>Encoding\<close>. Round trip, cost
      bounds.
    \<^item> \<open>Idempotency\<close>, \<open>RateLimit\<close>: the middlewares, as interleaved steps of concurrent requests where they can overlap.
    \<^item> \<open>Feeds\<close>, \<open>LruCache\<close>, \<open>CircuitBreaker\<close>: the in-memory engines, refined against sequential specifications.
    \<^item> \<open>Workers\<close>: \<open>core/pool\<close> and \<open>core/worker\<close>, goroutines as labelled steps. Its locale \<open>draining\<close> is the contract of
      stopping a pool, interpreted for both.
    \<^item> \<open>Realtime\<close>: \<open>core/realtime\<close> and the \<open>/ws\<close> endpoint. The goroutines of the hub as labelled steps: texts go to the sockets of
      their user, events of a room to its members as \<open>Messaging\<close> has them, sockets are opened for tokens of \<open>Auth\<close>, and
      \<open>draining\<close> shows that ended sockets are forgotten.

  \<^bold>\<open>Assumptions.\<close> \<open>float64\<close> is a real number. \<open>sort.Slice\<close>, the parsing of identifiers, JSON, hashes, the JWT library,
  collation and pattern matching are parameters, with their documented laws as hypotheses. SQL transactions are
  serial, and the requests of a run follow one another, except where a property is about overlapping requests: those are
  interleaved steps. Rows that an \<open>ORDER BY\<close> leaves tied come in the stored order, but for the pages of \<open>Messaging\<close>. The clock of
  the database and of Redis is the one of the process, in UTC. No fuel is used: every loop of
  the modelled code is bounded by its input.

  \<^bold>\<open>Not modelled.\<close> The feature modules \<open>ads\<close>, \<open>ai\<close>, \<open>analytics\<close>, \<open>chat\<close>, \<open>lumia\<close>, \<open>media\<close>, \<open>moderation\<close>, \<open>privacy\<close>,
  \<open>push\<close>, \<open>search\<close>, \<open>spark\<close>, \<open>stickers\<close>, \<open>talent\<close>, \<open>vault\<close> and \<open>video\<close>, which pass requests on to external services or repeat
  the shape of the modelled ones; the repositories over ScyllaDB, which only a configured cluster uses; the audit chain and
  the schedulers; and the code that only performs I/O (platform clients, wiring, logging, generated queries that no modelled
  method calls).
\<close>

end
